(* ===== verification/GT_Prelude.thy ===== *)
theory GT_Prelude
  imports Complex_Main "HOL-Library.AList" "HOL-Library.Char_ord" "HOL-Library.List_Lexorder"
begin

text \<open>
  Shared vocabulary of the development: the parts of Python's built-in types that the modelled
  code uses, and the lemmas on them that the component theories rely on.

  \<^item> \<^emph>\<open>Text.\<close> A Python \<open>str\<close> is a \<open>string\<close> whose characters stand for the code points
    0 to 255. The character predicates below are those of CPython on that range, so
    \<open>is_space\<close> also holds for the file separators 0x1c to 0x1f, for 0x85 and for 0xa0.
  \<^item> \<^emph>\<open>Dictionaries.\<close> A \<open>dict\<close> is an association list with distinct keys, in insertion
    order. Assignment to a present key keeps its place, assignment to a new key appends
    (\<open>AList.update\<close>). The locale \<open>py_dict\<close> is the interface the group-by loops of the code rely on.
  \<^item> \<^emph>\<open>Time.\<close> An aware \<open>datetime\<close> is an \<open>int\<close>, the microseconds since the epoch, in UTC.
  \<^item> \<^emph>\<open>JSON-like values.\<close> \<open>json\<close> has one constructor per Python type that a decoded event can hold.
\<close>

named_theorems py_text "facts on text operations"
named_theorems py_data "facts on dictionaries and values"

type_synonym datetime = int
type_synonym ('k, 'v) dict = "('k \<times> 'v) list"

section \<open>Characters and text\<close>

abbreviation ord_of :: "char \<Rightarrow> nat" where
  "ord_of c \<equiv> of_char c"

definition is_digit :: "char \<Rightarrow> bool" where
  "is_digit c \<longleftrightarrow> 48 \<le> ord_of c \<and> ord_of c \<le> 57"

definition is_upper_az :: "char \<Rightarrow> bool" where
  "is_upper_az c \<longleftrightarrow> 65 \<le> ord_of c \<and> ord_of c \<le> 90"

definition is_lower_az :: "char \<Rightarrow> bool" where
  "is_lower_az c \<longleftrightarrow> 97 \<le> ord_of c \<and> ord_of c \<le> 122"

definition is_space :: "char \<Rightarrow> bool" where
  "is_space c \<longleftrightarrow> (9 \<le> ord_of c \<and> ord_of c \<le> 13) \<or> (28 \<le> ord_of c \<and> ord_of c \<le> 32)
     \<or> ord_of c = 133 \<or> ord_of c = 160"

definition is_word :: "char \<Rightarrow> bool" where
  "is_word c \<longleftrightarrow> is_digit c \<or> is_upper_az c \<or> is_lower_az c \<or> ord_of c = 95
     \<or> ord_of c \<in> {170, 178, 179, 181, 185, 186, 188, 189, 190}
     \<or> (192 \<le> ord_of c \<and> ord_of c \<noteq> 215 \<and> ord_of c \<noteq> 247)"

definition char_lower :: "char \<Rightarrow> char" where
  "char_lower c =
     (if is_upper_az c \<or> (192 \<le> ord_of c \<and> ord_of c \<le> 222 \<and> ord_of c \<noteq> 215)
      then char_of (ord_of c + 32) else c)"

definition lower :: "string \<Rightarrow> string" where
  "lower s = map char_lower s"

definition starts_with :: "string \<Rightarrow> string \<Rightarrow> bool" where
  "starts_with p s \<longleftrightarrow> take (length p) s = p"

definition ends_with :: "string \<Rightarrow> string \<Rightarrow> bool" where
  "ends_with p s \<longleftrightarrow> length p \<le> length s \<and> drop (length s - length p) s = p"

definition remove_suffix :: "string \<Rightarrow> string \<Rightarrow> string" where
  "remove_suffix p s = (if ends_with p s \<and> p \<noteq> [] then take (length s - length p) s else s)"

text \<open>The test \<open>p in s\<close> of Python on strings.\<close>

fun contains :: "string \<Rightarrow> string \<Rightarrow> bool" where
  "contains p [] = (p = [])"
| "contains p (c # s) = (starts_with p (c # s) \<or> contains p s)"

text \<open>\<open>s.split(c)\<close> for a one-character separator, and \<open>sep.join(parts)\<close>.\<close>

fun split_char :: "char \<Rightarrow> string \<Rightarrow> string list" where
  "split_char d [] = [[]]"
| "split_char d (c # s) =
     (if c = d then [] # split_char d s
      else (case split_char d s of [] \<Rightarrow> [[c]] | w # ws \<Rightarrow> (c # w) # ws))"

fun join :: "string \<Rightarrow> string list \<Rightarrow> string" where
  "join sep [] = []"
| "join sep [x] = x"
| "join sep (x # y # ys) = x @ sep @ join sep (y # ys)"

definition lstrip :: "string \<Rightarrow> string" where
  "lstrip s = dropWhile is_space s"

definition strip :: "string \<Rightarrow> string" where
  "strip s = rev (dropWhile is_space (rev (lstrip s)))"

text \<open>Decimal text of an integer (\<open>str(n)\<close>) and its inverse on plain decimal text.\<close>

fun digits_of :: "nat \<Rightarrow> string" where
  "digits_of n = (if n < 10 then [char_of (48 + n)]
                  else digits_of (n div 10) @ [char_of (48 + n mod 10)])"

declare digits_of.simps [simp del]

definition str_of_int :: "int \<Rightarrow> string" where
  "str_of_int i = (if i < 0 then CHR ''-'' # digits_of (nat (- i)) else digits_of (nat i))"

definition digit_val :: "char \<Rightarrow> nat" where
  "digit_val c = ord_of c - 48"

definition nat_of_digits :: "string \<Rightarrow> nat" where
  "nat_of_digits s = foldl (\<lambda>n c. 10 * n + digit_val c) 0 s"

text \<open>Decimal text padded with zeros to a width, as the \<open>strftime\<close> fields print it.\<close>

definition zpad :: "nat \<Rightarrow> nat \<Rightarrow> string" where
  "zpad w n = replicate (w - length (digits_of n)) (CHR ''0'') @ digits_of n"

section \<open>JSON-like values\<close>

text \<open>
  Dictionary keys and path elements are strings or integers. A float that a payload can carry
  is finite, hence a rational.
\<close>

datatype pkey = KStr string | KInt int

datatype json =
    JNone
  | JBool bool
  | JInt int
  | JFloat rat
  | JStr string
  | JList "json list"
  | JTuple "json list"
  | JDict "(pkey \<times> json) list"

text \<open>Truth value of an object, \<open>bool(v)\<close>.\<close>

fun truthy :: "json \<Rightarrow> bool" where
  "truthy JNone = False"
| "truthy (JBool b) = b"
| "truthy (JInt i) = (i \<noteq> 0)"
| "truthy (JFloat r) = (r \<noteq> 0)"
| "truthy (JStr s) = (s \<noteq> [])"
| "truthy (JList xs) = (xs \<noteq> [])"
| "truthy (JTuple xs) = (xs \<noteq> [])"
| "truthy (JDict kvs) = (kvs \<noteq> [])"

definition jget :: "json \<Rightarrow> string \<Rightarrow> json option" where
  "jget v k = (case v of JDict kvs \<Rightarrow> map_of kvs (KStr k) | _ \<Rightarrow> None)"

text \<open>\<open>d.get(k)\<close>, with \<open>None\<close> for a missing key.\<close>

definition jget_none :: "json \<Rightarrow> string \<Rightarrow> json" where
  "jget_none v k = (case jget v k of None \<Rightarrow> JNone | Some x \<Rightarrow> x)"

section \<open>Lemmas on text\<close>

lemma starts_with_iff: "starts_with p s \<longleftrightarrow> (\<exists>t. s = p @ t)"
  unfolding starts_with_def by (metis append_eq_conv_conj append_take_drop_id)

lemma starts_with_Nil [simp, py_text]: "starts_with [] s"
  by (simp add: starts_with_def)

lemma starts_with_append [simp, py_text]: "starts_with p (p @ s)"
  by (simp add: starts_with_def)

lemma contains_iff: "contains p s \<longleftrightarrow> (\<exists>u v. s = u @ p @ v)"
proof (induction s)
  case Nil
  show ?case by simp
next
  case (Cons c s)
  show ?case
  proof
    assume "contains p (c # s)"
    then consider "starts_with p (c # s)" | "contains p s" by auto
    then show "\<exists>u v. c # s = u @ p @ v"
    proof cases
      case 1
      then show ?thesis by (auto simp: starts_with_iff intro: exI [of _ "[]"])
    next
      case 2
      with Cons.IH obtain u v where "s = u @ p @ v" by blast
      then have "c # s = (c # u) @ p @ v" by simp
      then show ?thesis by blast
    qed
  next
    assume "\<exists>u v. c # s = u @ p @ v"
    then obtain u v where uv: "c # s = u @ p @ v" by blast
    show "contains p (c # s)"
    proof (cases u)
      case Nil
      with uv show ?thesis by (metis append_Nil contains.simps(2) starts_with_append)
    next
      case (Cons d u')
      with uv have "s = u' @ p @ v" by simp
      with Cons.IH show ?thesis by (metis contains.simps(2))
    qed
  qed
qed

lemma contains_self [simp, py_text]: "contains s s"
  by (metis append_Nil append_Nil2 contains_iff)

lemma length_lower [simp, py_text]: "length (lower s) = length s"
  by (simp add: lower_def)

lemma lower_append [simp, py_text]: "lower (s @ t) = lower s @ lower t"
  by (simp add: lower_def)

lemma lower_Nil_iff [simp, py_text]: "lower s = [] \<longleftrightarrow> s = []"
  by (simp add: lower_def)

lemma ord_of_less_256 [simp]: "ord_of c < 256"
  by (rule nat_of_char_less_256)

lemma ord_of_char_of [simp]: "n < 256 \<Longrightarrow> ord_of (char_of n) = n"
  by (simp add: take_bit_eq_mod)

lemma char_lower_idem [simp, py_text]: "char_lower (char_lower c) = char_lower c"
proof -
  have "ord_of (char_of (ord_of c + 32 :: nat)) = ord_of c + 32" if "ord_of c \<le> 222"
    using that by simp
  then show ?thesis
    by (auto simp: char_lower_def is_upper_az_def)
qed

lemma lower_idem [simp, py_text]: "lower (lower s) = lower s"
  by (simp add: lower_def)

lemma is_space_char_lower [simp, py_text]: "is_space (char_lower c) = is_space c"
proof -
  have "ord_of (char_of (ord_of c + 32 :: nat)) = ord_of c + 32" if "ord_of c \<le> 222"
    using that by simp
  then show ?thesis
    by (auto simp: char_lower_def is_upper_az_def is_space_def)
qed

lemma split_char_nonempty [simp, py_text]: "split_char d s \<noteq> []"
  by (induction s) (auto split: list.splits)

lemma join_split_char: "join [d] (split_char d s) = s"
proof (induction s)
  case Nil
  show ?case by simp
next
  case (Cons c s)
  obtain w ws where w: "split_char d s = w # ws"
    by (cases "split_char d s") auto
  with Cons.IH have IH: "join [d] (w # ws) = s" by simp
  then show ?case by (cases ws) (auto simp: w)
qed

lemma split_char_no_sep: "w \<in> set (split_char d s) \<Longrightarrow> d \<notin> set w"
proof (induction s arbitrary: w)
  case Nil
  then show ?case by simp
next
  case (Cons c s)
  then show ?case by (cases "split_char d s") (auto split: if_splits)
qed

lemma split_char_plain: "d \<notin> set s \<Longrightarrow> split_char d s = [s]"
  by (induction s) auto

lemma split_char_append:
  "d \<notin> set s \<Longrightarrow> split_char d (s @ d # t) = s # split_char d t"
  by (induction s) auto

lemma split_char_join:
  assumes "xs \<noteq> []" and "\<And>x. x \<in> set xs \<Longrightarrow> d \<notin> set x"
  shows "split_char d (join [d] xs) = xs"
  using assms
proof (induction xs rule: induct_list012)
  case (2 x)
  then show ?case by (simp add: split_char_plain)
next
  case (3 x y ys)
  then show ?case by (simp add: split_char_append)
qed simp

subsection \<open>Decimal text\<close>

lemma digits_of_nonempty [simp, py_text]: "digits_of n \<noteq> []"
  by (subst digits_of.simps) simp

lemma digits_of_digits: "c \<in> set (digits_of n) \<Longrightarrow> is_digit c"
proof (induction n rule: digits_of.induct)
  case (1 n)
  show ?case
  proof (cases "n < 10")
    case True
    with "1.prems" show ?thesis
      by (simp add: digits_of.simps [of n] is_digit_def)
  next
    case False
    then have "c \<in> set (digits_of (n div 10)) \<or> c = char_of (48 + n mod 10)"
      using "1.prems" by (auto simp: digits_of.simps [of n])
    moreover have "is_digit (char_of (48 + n mod 10))"
      by (simp add: is_digit_def)
    ultimately show ?thesis using "1.IH" False by blast
  qed
qed

lemma nat_of_digits_append:
  "nat_of_digits (s @ [c]) = 10 * nat_of_digits s + digit_val c"
  by (simp add: nat_of_digits_def)

lemma nat_of_digits_of [simp, py_text]: "nat_of_digits (digits_of n) = n"
proof (induction n rule: digits_of.induct)
  case (1 n)
  have dv: "digit_val (char_of (48 + k)) = k" if "k < 10" for k
    using that by (simp add: digit_val_def)
  show ?case
  proof (cases "n < 10")
    case True
    then show ?thesis
      by (simp add: digits_of.simps [of n] nat_of_digits_def dv)
  next
    case False
    with "1.IH" have "nat_of_digits (digits_of (n div 10)) = n div 10" by simp
    with False show ?thesis
      by (subst digits_of.simps) (simp add: nat_of_digits_append dv)
  qed
qed

lemma digits_of_inj [simp]: "digits_of m = digits_of n \<longleftrightarrow> m = n"
  by (metis nat_of_digits_of)

lemma digits_of_ne_minus: "digits_of n \<noteq> CHR ''-'' # s"
proof
  assume "digits_of n = CHR ''-'' # s"
  then have "CHR ''-'' \<in> set (digits_of n)" by simp
  then have "is_digit (CHR ''-'')" by (rule digits_of_digits)
  then show False by (simp add: is_digit_def)
qed

lemma str_of_int_inj [simp]: "str_of_int i = str_of_int j \<longleftrightarrow> i = j"
  unfolding str_of_int_def
  by (auto simp: digits_of_ne_minus digits_of_ne_minus [symmetric])

lemma nat_of_digits_replicate_0:
  "nat_of_digits (replicate k (CHR ''0'') @ s) = nat_of_digits s"
  by (induction k) (simp_all add: nat_of_digits_def digit_val_def)

lemma nat_of_digits_zpad [simp, py_text]: "nat_of_digits (zpad w n) = n"
  by (simp add: zpad_def nat_of_digits_replicate_0)

lemma length_digits_of: "n < 10 ^ w \<Longrightarrow> 0 < w \<Longrightarrow> length (digits_of n) \<le> w"
proof (induction w arbitrary: n)
  case 0
  then show ?case by simp
next
  case (Suc w)
  show ?case
  proof (cases "n < 10")
    case True
    then show ?thesis by (simp add: digits_of.simps [of n])
  next
    case False
    with Suc.prems have w: "n div 10 < 10 ^ w" by auto
    with False have "0 < w" by (cases w) auto
    with Suc.IH [OF w] False show ?thesis
      by (subst digits_of.simps) simp
  qed
qed

lemma length_zpad: "n < 10 ^ w \<Longrightarrow> 0 < w \<Longrightarrow> length (zpad w n) = w"
  by (simp add: zpad_def length_digits_of)

lemma zpad_digits: "c \<in> set (zpad w n) \<Longrightarrow> is_digit c"
  by (auto simp: zpad_def is_digit_def dest: digits_of_digits split: if_splits)

section \<open>Dictionaries\<close>

abbreviation dset :: "('k, 'v) dict \<Rightarrow> 'k \<Rightarrow> 'v \<Rightarrow> ('k, 'v) dict" where
  "dset d k v \<equiv> AList.update k v d"

abbreviation dict_ok :: "('k, 'v) dict \<Rightarrow> bool" where
  "dict_ok d \<equiv> distinct (map fst d)"

lemma map_of_dset [simp, py_data]: "map_of (dset d k v) = (map_of d)(k \<mapsto> v)"
  by (rule update_conv')

lemma dict_ok_dset [simp, py_data]: "dict_ok d \<Longrightarrow> dict_ok (dset d k v)"
  by (rule distinct_update)

lemma dset_keys: "map fst (dset d k v) = (if k \<in> fst ` set d then map fst d else map fst d @ [k])"
  by (induction d) auto

lemma find_append: "List.find P (xs @ ys) = (case List.find P xs of None \<Rightarrow> List.find P ys | Some x \<Rightarrow> Some x)"
  by (induction xs) auto

lemma dset_new: "k \<notin> fst ` set d \<Longrightarrow> dset d k v = d @ [(k, v)]"
  by (induction d) auto

text \<open>
  The interface of a Python dictionary, as the loops that group a batch by a key use it: read
  with a default, assign, list the items.
\<close>

locale py_dict =
  fixes get :: "'m \<Rightarrow> 'k \<Rightarrow> 'v option"
    and put :: "'m \<Rightarrow> 'k \<Rightarrow> 'v \<Rightarrow> 'm"
    and new :: 'm
    and items :: "'m \<Rightarrow> ('k \<times> 'v) list"
    and ok :: "'m \<Rightarrow> bool"
  assumes get_new: "get new k = None"
    and get_put: "get (put m k v) = (get m)(k \<mapsto> v)"
    and items_get: "ok m \<Longrightarrow> (k, v) \<in> set (items m) \<longleftrightarrow> get m k = Some v"
    and items_distinct: "ok m \<Longrightarrow> distinct (map fst (items m))"
    and ok_new: "ok new"
    and ok_put: "ok m \<Longrightarrow> ok (put m k v)"
begin

lemma ok_fold: "ok m \<Longrightarrow> ok (fold (\<lambda>x m. put m (key x) (stp (get m (key x)) x)) xs m)"
  by (induction xs arbitrary: m) (auto simp: ok_put)

text \<open>
  Grouping: after a loop that folds each element into the entry of its key, the entry of a key
  is the fold over the elements with that key, in order, from the entry that was there before.
\<close>

lemma get_fold:
  "get (fold (\<lambda>x m. put m (key x) (stp (get m (key x)) x)) xs m) k =
   fold (\<lambda>x a. Some (stp a x)) (filter (\<lambda>x. key x = k) xs) (get m k)"
  by (induction xs arbitrary: m) (auto simp: get_put)

lemma items_fold:
  assumes "ok m"
  shows "(k, v) \<in> set (items (fold (\<lambda>x m. put m (key x) (stp (get m (key x)) x)) xs m)) \<longleftrightarrow>
    fold (\<lambda>x a. Some (stp a x)) (filter (\<lambda>x. key x = k) xs) (get m k) = Some v"
  using assms by (simp add: items_get ok_fold get_fold)

end

interpretation dict: py_dict "map_of" "\<lambda>m k v. dset m k v" "[]" "\<lambda>m. m" dict_ok
  by unfold_locales auto

text \<open>Counting is the grouping whose step adds one.\<close>

lemma fold_count:
  "fold (\<lambda>x a. Some (case a of None \<Rightarrow> 1 | Some n \<Rightarrow> n + 1)) xs a =
   (if xs = [] then a
    else Some ((case a of None \<Rightarrow> 0 | Some n \<Rightarrow> n) + (of_nat (length xs) :: int)))"
  by (induction xs arbitrary: a) (auto split: option.splits)

end
