(* ===== verification/Py_Re.thy ===== *)
theory Py_Re
  imports GT_Prelude
begin

text \<open>
  The part of Python's \<open>re\<close> module that the modelled code uses: a backtracking matcher over the
  pattern constructs the patterns are written with, and \<open>search\<close>, \<open>finditer\<close>, \<open>sub\<close> and \<open>split\<close>
  on top of it.

  The matcher \<open>mt\<close> returns the list of all end positions in the order in which the backtracking
  engine tries them, so the match the engine reports is the head of the list: alternatives from
  left to right, one more repetition first when the quantifier is greedy and last when it is lazy.
  Only repetitions that consume a character are counted, which is the engine's behaviour on
  bodies that do not match the empty string; the repeated bodies of all modelled patterns are
  such bodies.
\<close>

section \<open>Patterns and the matcher\<close>

datatype rx =
    RCls "char \<Rightarrow> bool"        \<comment> \<open>one character of a class\<close>
  | REps                       \<comment> \<open>the empty pattern\<close>
  | RSeq rx rx
  | RAlt rx rx
  | RRep bool nat "nat option" rx  \<comment> \<open>greedy?, least and greatest number of repetitions\<close>
  | RBehind "char \<Rightarrow> bool"     \<comment> \<open>look-behind for one character of a class\<close>
  | RAhead rx                  \<comment> \<open>look-ahead\<close>
  | RWordB                     \<comment> \<open>\<^verbatim>\<open>\b\<close>\<close>
  | RBegin                     \<comment> \<open>\<^verbatim>\<open>^\<close>\<close>
  | REnd                       \<comment> \<open>\<^verbatim>\<open>$\<close>: the end, or before a final newline\<close>

text \<open>Repetition of a matcher \<open>f\<close>, at most \<open>n\<close> times.\<close>

primrec rep :: "bool \<Rightarrow> (nat \<Rightarrow> nat list) \<Rightarrow> nat \<Rightarrow> nat \<Rightarrow> nat option \<Rightarrow> nat \<Rightarrow> nat list" where
  "rep g f 0 lo hi i = (if lo = 0 then [i] else [])"
| "rep g f (Suc n) lo hi i =
     (let more = (if hi = Some 0 then []
                  else concat (map (\<lambda>j. rep g f n (lo - 1) (map_option (\<lambda>h. h - 1) hi) j)
                                   (filter (\<lambda>j. i < j) (f i))));
          stop = (if lo = 0 then [i] else [])
      in if g then more @ stop else stop @ more)"

definition word_at :: "string \<Rightarrow> nat \<Rightarrow> bool" where
  "word_at s i \<longleftrightarrow> i < length s \<and> is_word (s ! i)"

definition at_boundary :: "string \<Rightarrow> nat \<Rightarrow> bool" where
  "at_boundary s i \<longleftrightarrow> (0 < i \<and> word_at s (i - 1)) \<noteq> word_at s i"

primrec mt :: "string \<Rightarrow> rx \<Rightarrow> nat \<Rightarrow> nat list" where
  "mt s (RCls p) i = (if i < length s \<and> p (s ! i) then [Suc i] else [])"
| "mt s REps i = [i]"
| "mt s (RSeq a b) i = concat (map (mt s b) (mt s a i))"
| "mt s (RAlt a b) i = mt s a i @ mt s b i"
| "mt s (RRep g lo hi a) i = rep g (mt s a) (length s - i) lo hi i"
| "mt s (RBehind p) i = (if 0 < i \<and> i \<le> length s \<and> p (s ! (i - 1)) then [i] else [])"
| "mt s (RAhead a) i = (if mt s a i = [] then [] else [i])"
| "mt s RWordB i = (if at_boundary s i then [i] else [])"
| "mt s RBegin i = (if i = 0 then [i] else [])"
| "mt s REnd i = (if i = length s \<or> (Suc i = length s \<and> s ! i = CHR 0x0A) then [i] else [])"

abbreviation RStar :: "rx \<Rightarrow> rx" where "RStar \<equiv> RRep True 0 None"
abbreviation RPlus :: "rx \<Rightarrow> rx" where "RPlus \<equiv> RRep True 1 None"
abbreviation RTimes :: "nat \<Rightarrow> rx \<Rightarrow> rx" where "RTimes n \<equiv> RRep True n (Some n)"
abbreviation ROpt :: "rx \<Rightarrow> rx" where "ROpt \<equiv> RRep True 0 (Some 1)"

definition RChar :: "char \<Rightarrow> rx" where
  "RChar c = RCls (\<lambda>x. x = c)"

fun RLit :: "string \<Rightarrow> rx" where
  "RLit [] = REps"
| "RLit [c] = RChar c"
| "RLit (c # d # s) = RSeq (RChar c) (RLit (d # s))"

section \<open>search, finditer, sub and split\<close>

text \<open>
  A search from position \<open>p\<close> looks at \<open>p\<close>, \<open>p + 1\<close>, up to the end. With \<open>adv\<close> set, a match that
  is empty at \<open>p\<close> itself is not taken: the scanner sets it after an empty match, so that it
  always advances.
\<close>

primrec search_from :: "string \<Rightarrow> rx \<Rightarrow> nat \<Rightarrow> nat \<Rightarrow> bool \<Rightarrow> (nat \<times> nat) option" where
  "search_from s r 0 i adv = None"
| "search_from s r (Suc n) i adv =
     (case filter (\<lambda>j. \<not> (adv \<and> j = i)) (mt s r i) of
        j # _ \<Rightarrow> Some (i, j)
      | [] \<Rightarrow> search_from s r n (Suc i) False)"

definition re_search :: "rx \<Rightarrow> string \<Rightarrow> (nat \<times> nat) option" where
  "re_search r s = search_from s r (Suc (length s)) 0 False"

definition re_match :: "rx \<Rightarrow> string \<Rightarrow> nat option" where
  "re_match r s = (case mt s r 0 of [] \<Rightarrow> None | j # _ \<Rightarrow> Some j)"

primrec scan :: "string \<Rightarrow> rx \<Rightarrow> nat \<Rightarrow> nat \<Rightarrow> bool \<Rightarrow> (nat \<times> nat) list" where
  "scan s r 0 p adv = []"
| "scan s r (Suc n) p adv =
     (case search_from s r (Suc (length s) - p) p adv of
        None \<Rightarrow> []
      | Some (i, j) \<Rightarrow> (i, j) # scan s r n j (i = j))"

text \<open>
  Between two spans of the scanner the position grows or \<open>adv\<close> turns on, so a text of length
  \<open>n\<close> has at most \<open>2 (n + 1)\<close> spans.
\<close>

definition finditer :: "rx \<Rightarrow> string \<Rightarrow> (nat \<times> nat) list" where
  "finditer r s = scan s r (2 * Suc (length s)) 0 False"

definition slice :: "string \<Rightarrow> nat \<Rightarrow> nat \<Rightarrow> string" where
  "slice s i j = take (j - i) (drop i s)"

fun sub_spans :: "(string \<Rightarrow> string) \<Rightarrow> string \<Rightarrow> nat \<Rightarrow> (nat \<times> nat) list \<Rightarrow> string" where
  "sub_spans f s p [] = drop p s"
| "sub_spans f s p ((i, j) # xs) = slice s p i @ f (slice s i j) @ sub_spans f s j xs"

definition re_sub :: "(string \<Rightarrow> string) \<Rightarrow> rx \<Rightarrow> string \<Rightarrow> string" where
  "re_sub f r s = sub_spans f s 0 (finditer r s)"

fun split_spans :: "string \<Rightarrow> nat \<Rightarrow> (nat \<times> nat) list \<Rightarrow> string list" where
  "split_spans s p [] = [drop p s]"
| "split_spans s p ((i, j) # xs) = slice s p i # split_spans s j xs"

definition re_split :: "rx \<Rightarrow> string \<Rightarrow> string list" where
  "re_split r s = split_spans s 0 (finditer r s)"

section \<open>Spans lie inside the text\<close>

lemma rep_Suc_cases:
  assumes "j \<in> set (rep g f (Suc n) lo hi i)"
  shows "j = i \<or> (\<exists>k lo' hi'. k \<in> set (f i) \<and> i < k \<and> j \<in> set (rep g f n lo' hi' k))"
  using assms by (auto simp: Let_def split: if_splits)

lemma rep_bounds:
  assumes f: "\<And>i j. i \<le> L \<Longrightarrow> j \<in> set (f i) \<Longrightarrow> i \<le> j \<and> j \<le> L"
  shows "i \<le> L \<Longrightarrow> j \<in> set (rep g f n lo hi i) \<Longrightarrow> i \<le> j \<and> j \<le> L"
proof (induction n arbitrary: lo hi i)
  case 0
  then show ?case by (auto split: if_splits)
next
  case (Suc n)
  from rep_Suc_cases [OF Suc.prems(2)] show ?case
  proof (elim disjE exE conjE)
    assume "j = i"
    with Suc.prems(1) show ?thesis by simp
  next
    fix k lo' hi'
    assume k: "k \<in> set (f i)" and j: "j \<in> set (rep g f n lo' hi' k)"
    from f [OF Suc.prems(1) k] have ik: "i \<le> k" "k \<le> L" by auto
    from Suc.IH [OF ik(2) j] ik(1) show ?thesis by auto
  qed
qed

lemma mt_bounds: "i \<le> length s \<Longrightarrow> j \<in> set (mt s r i) \<Longrightarrow> i \<le> j \<and> j \<le> length s"
proof (induction r arbitrary: i j)
  case (RSeq a b)
  from RSeq.prems(2) obtain k where k: "k \<in> set (mt s a i)" and j: "j \<in> set (mt s b k)"
    by auto
  from RSeq.IH(1) [OF RSeq.prems(1) k] have ik: "i \<le> k" "k \<le> length s" by auto
  from RSeq.IH(2) [OF ik(2) j] ik(1) show ?case by auto
next
  case (RRep g lo hi a)
  have "j \<in> set (rep g (mt s a) (length s - i) lo hi i)" using RRep.prems(2) by (simp only: mt.simps)
  from rep_bounds [OF RRep.IH RRep.prems(1) this] show ?case .
next
  case (RAlt a b)
  from RAlt.prems(2) have "j \<in> set (mt s a i) \<or> j \<in> set (mt s b i)" by simp
  then show ?case using RAlt.IH(1) [OF RAlt.prems(1)] RAlt.IH(2) [OF RAlt.prems(1)] by blast
next
  case (RAhead a)
  have "j = i" using RAhead.prems(2) by (simp split: if_splits)
  with RAhead.prems(1) show ?case by simp
qed (simp_all split: if_splits)

lemma filter_head_in: "filter P xs = k # ks \<Longrightarrow> k \<in> set xs"
  by (metis filter_is_subset list.set_intros(1) subsetD)

lemma search_from_bounds:
  assumes "search_from s r n p adv = Some (i, j)" and "n + p \<le> Suc (length s)"
  shows "p \<le> i \<and> i \<le> j \<and> j \<le> length s"
  using assms
proof (induction n arbitrary: p adv)
  case 0
  then show ?case by simp
next
  case (Suc n)
  show ?case
  proof (cases "filter (\<lambda>j. \<not> (adv \<and> j = p)) (mt s r p)")
    case Nil
    with Suc.prems have "search_from s r n (Suc p) False = Some (i, j)" by simp
    with Suc.IH [OF this] Suc.prems(2) show ?thesis by simp
  next
    case (Cons k ks)
    then have "k \<in> set (mt s r p)" by (rule filter_head_in)
    with Suc.prems Cons show ?thesis using mt_bounds [of p s k r] by simp
  qed
qed

text \<open>A list of spans that starts at \<open>p\<close>, in order and without overlap, inside \<open>s\<close>.\<close>

fun spans_ok :: "string \<Rightarrow> nat \<Rightarrow> (nat \<times> nat) list \<Rightarrow> bool" where
  "spans_ok s p [] = (p \<le> length s)"
| "spans_ok s p ((i, j) # xs) = (p \<le> i \<and> i \<le> j \<and> j \<le> length s \<and> spans_ok s j xs)"

lemma scan_ok: "p \<le> length s \<Longrightarrow> spans_ok s p (scan s r n p adv)"
proof (induction n arbitrary: p adv)
  case 0
  then show ?case by simp
next
  case (Suc n)
  show ?case
  proof (cases "search_from s r (Suc (length s) - p) p adv")
    case None
    with Suc.prems show ?thesis by simp
  next
    case (Some ij)
    obtain i j where ij: "ij = (i, j)" by (cases ij)
    with Some search_from_bounds [of s r "Suc (length s) - p" p adv i j] Suc.prems
    have "p \<le> i \<and> i \<le> j \<and> j \<le> length s" by simp
    with Some ij Suc.IH [of j "i = j"] show ?thesis by simp
  qed
qed

lemma finditer_ok: "spans_ok s 0 (finditer r s)"
  unfolding finditer_def by (rule scan_ok) simp

text \<open>Every span is a match the engine reports at its start.\<close>

lemma search_from_mt:
  "search_from s r n p adv = Some (i, j) \<Longrightarrow> j \<in> set (mt s r i)"
proof (induction n arbitrary: p adv)
  case (Suc n)
  then show ?case
    by (auto split: list.splits dest: filter_head_in)
qed simp

lemma scan_mt: "(i, j) \<in> set (scan s r n p adv) \<Longrightarrow> j \<in> set (mt s r i)"
  by (induction n arbitrary: p adv)
     (auto split: option.splits dest: search_from_mt search_from_mt [OF sym])

lemma finditer_mt: "(i, j) \<in> set (finditer r s) \<Longrightarrow> j \<in> set (mt s r i)"
  unfolding finditer_def by (rule scan_mt)

section \<open>Replacement and splitting\<close>

lemma slice_append_drop:
  "i \<le> j \<Longrightarrow> slice s i j @ drop j s = drop i s"
  by (simp add: slice_def) (metis append_take_drop_id drop_drop le_add_diff_inverse2)

lemma sub_spans_id: "spans_ok s p xs \<Longrightarrow> sub_spans (\<lambda>x. x) s p xs = drop p s"
  by (induction xs arbitrary: p) (auto simp: slice_append_drop)

lemma sub_spans_cong:
  "(\<And>i j. (i, j) \<in> set xs \<Longrightarrow> f (slice s i j) = g (slice s i j)) \<Longrightarrow>
   sub_spans f s p xs = sub_spans g s p xs"
  by (induction f s p xs rule: sub_spans.induct) auto

text \<open>A replacement that returns every match unchanged leaves the text unchanged.\<close>

lemma re_sub_unchanged:
  assumes "\<And>i j. (i, j) \<in> set (finditer r s) \<Longrightarrow> f (slice s i j) = slice s i j"
  shows "re_sub f r s = s"
proof -
  have "re_sub f r s = sub_spans (\<lambda>x. x) s 0 (finditer r s)"
    unfolding re_sub_def by (rule sub_spans_cong) (rule assms)
  then show ?thesis using finditer_ok [of s r] by (simp add: sub_spans_id)
qed

lemma scan_none:
  assumes "\<And>i. i \<le> length s \<Longrightarrow> mt s r i = []"
  shows "p \<le> length s \<Longrightarrow> scan s r n p adv = []"
proof -
  have *: "search_from s r k q b = None" if "k + q \<le> Suc (length s)" for k q b
    using that assms by (induction k arbitrary: q b) auto
  assume "p \<le> length s"
  then show ?thesis by (cases n) (auto simp: *)
qed

lemma re_sub_none:
  "(\<And>i. i \<le> length s \<Longrightarrow> mt s r i = []) \<Longrightarrow> re_sub f r s = s"
  unfolding re_sub_def finditer_def by (subst scan_none) simp_all

lemma re_split_none:
  "(\<And>i. i \<le> length s \<Longrightarrow> mt s r i = []) \<Longrightarrow> re_split r s = [s]"
  unfolding re_split_def finditer_def by (subst scan_none) simp_all

text \<open>Characters of the result come from the text or from the replacement.\<close>

lemma set_slice: "set (slice s i j) \<subseteq> set s"
  unfolding slice_def using set_take_subset set_drop_subset by (metis subset_trans)

lemma set_re_sub:
  assumes "\<And>x. set (f x) \<subseteq> A" and "set s \<subseteq> A"
  shows "set (re_sub f r s) \<subseteq> A"
proof -
  have sl: "set (slice s i j) \<subseteq> A" for i j
    using set_slice [of s i j] assms(2) by blast
  have "set (sub_spans f s p xs) \<subseteq> A" for p xs
  proof (induction xs arbitrary: p)
    case Nil
    show ?case using set_drop_subset [of p s] assms(2) by auto
  next
    case (Cons ij xs)
    obtain i j where ij: "ij = (i, j)" by (cases ij)
    show ?case
      using sl [of p i] assms(1) [of "slice s i j"] Cons.IH [of j] by (auto simp: ij)
  qed
  then show ?thesis by (simp add: re_sub_def)
qed

text \<open>One-character classes: removing every character of a class is a filter.\<close>

lemma sub_spans_Suc:
  "spans_ok s (Suc p) xs \<Longrightarrow> p < length s \<Longrightarrow>
   sub_spans f s p xs = s ! p # sub_spans f s (Suc p) xs"
proof (cases xs)
  case Nil
  assume "p < length s"
  with Nil show ?thesis by (simp add: Cons_nth_drop_Suc)
next
  case (Cons ij ys)
  obtain i j where ij: "ij = (i, j)" by (cases ij)
  assume "spans_ok s (Suc p) xs" and "p < length s"
  with Cons ij have "Suc p \<le> i" by simp
  with \<open>p < length s\<close> have "slice s p i = s ! p # slice s (Suc p) i"
    by (simp add: slice_def take_Suc_conv_app_nth Suc_diff_le Cons_nth_drop_Suc [symmetric] Suc_diff_Suc
        flip: Suc_diff_Suc)
  with Cons ij show ?thesis by simp
qed

lemma sub_spans_cls:
  assumes "p \<le> length s" and "length s - p < n"
  shows "sub_spans (\<lambda>_. []) s p (scan s (RCls q) n p False) = filter (\<lambda>c. \<not> q c) (drop p s)"
  using assms
proof (induction "length s - p" arbitrary: p n)
  case 0
  then have "p = length s" "0 < n" by auto
  then show ?case by (cases n) auto
next
  case (Suc d)
  then have lt: "p < length s" by simp
  from Suc.prems obtain m where n: "n = Suc m" by (cases n) auto
  have dp: "drop p s = s ! p # drop (Suc p) s" using lt by (simp add: Cons_nth_drop_Suc)
  have k: "Suc (length s) - p = Suc (length s - p)" using lt by simp
  show ?case
  proof (cases "q (s ! p)")
    case True
    have "scan s (RCls q) n p False = (p, Suc p) # scan s (RCls q) m (Suc p) False"
      using True lt by (simp add: n k)
    moreover have "sub_spans (\<lambda>_. []) s (Suc p) (scan s (RCls q) m (Suc p) False)
        = filter (\<lambda>c. \<not> q c) (drop (Suc p) s)"
      using Suc.hyps Suc.prems n lt by auto
    ultimately show ?thesis using True by (simp add: dp slice_def)
  next
    case False
    have "search_from s (RCls q) (Suc (length s) - p) p False
        = search_from s (RCls q) (Suc (length s) - Suc p) (Suc p) False"
      using False lt by (simp add: k)
    then have sc: "scan s (RCls q) n p False = scan s (RCls q) n (Suc p) False"
      by (simp add: n)
    have "sub_spans (\<lambda>_. []) s (Suc p) (scan s (RCls q) n (Suc p) False)
        = filter (\<lambda>c. \<not> q c) (drop (Suc p) s)"
      using Suc.hyps Suc.prems lt by auto
    moreover have "spans_ok s (Suc p) (scan s (RCls q) n (Suc p) False)"
      using lt by (intro scan_ok) simp
    ultimately show ?thesis using False lt by (simp add: sc dp sub_spans_Suc)
  qed
qed

lemma re_sub_cls: "re_sub (\<lambda>_. []) (RCls q) s = filter (\<lambda>c. \<not> q c) s"
  unfolding re_sub_def finditer_def by (subst sub_spans_cls) simp_all

end
