(* ===== verification/Pii_Scrubber.thy ===== *)
theory Pii_Scrubber
  imports Py_Re
begin

text \<open>
  The server-side PII scrubber, \<open>apps/event_ingest/pii_scrubber.py\<close>: key-name matching,
  value-pattern matching, the recursive walk over an event and the resolution of a project's
  configuration.

  The walk mutates the event's dictionaries and lists in place and the callers use the returned
  object; the model returns the rewritten value. The frozen sets of the compiled scrubber are
  HOL sets, the tuples of the configuration are lists. \<open>json.loads\<close> and the text of floats and
  containers (\<open>str(v)\<close>) are arguments (\<open>loads\<close>, \<open>txt\<close>) of the definitions that use them.
\<close>

section \<open>Constants and patterns\<close>

definition PLACEHOLDER :: string where
  "PLACEHOLDER = ''[Filtered]''"

definition MAX_SCRUB_DEPTH :: nat where
  "MAX_SCRUB_DEPTH = 48"

definition DEFAULT_KEY_TOKENS :: "string set" where
  "DEFAULT_KEY_TOKENS = set [''password'', ''passwd'', ''passphrase'', ''pwd'', ''pin'', ''secret'',
     ''auth'', ''bearer'', ''credentials'', ''token'', ''session'', ''cookie'', ''csrf'', ''xsrf'',
     ''ssn'', ''cvv'', ''cvc'']"

definition DEFAULT_WHOLE_KEYS :: "string set" where
  "DEFAULT_WHOLE_KEYS = set [''apikey'', ''xapikey'', ''authorization'', ''csrftoken'', ''xcsrftoken'',
     ''sessionid'', ''setcookie'', ''connectsid'', ''aiohttpsession'', ''mysqlpwd'', ''xforwardedfor'',
     ''privatekey'', ''creditcard'', ''cardnumber'', ''socialsecurity'']"

definition EVENT_SECTIONS :: "string list" where
  "EVENT_SECTIONS = [''request'', ''extra'', ''user'', ''contexts'', ''breadcrumbs'', ''exception'',
     ''threads'', ''tags'', ''logentry'', ''message'', ''csp'', ''spans'']"

definition CARD_RE :: rx where
  "CARD_RE = RSeq RWordB (RSeq
     (RRep True 13 (Some 19)
        (RSeq (RCls is_digit) (RRep False 0 None (RCls (\<lambda>c. c = CHR '' '' \<or> c = CHR ''-'')))))
     RWordB)"

definition pem_label :: "char \<Rightarrow> bool" where
  "pem_label c \<longleftrightarrow> is_upper_az c \<or> is_digit c \<or> c = CHR '' ''"

definition PRIVATE_KEY_RE :: rx where
  "PRIVATE_KEY_RE = RSeq (RLit ''-----BEGIN '') (RSeq (RStar (RCls pem_label))
     (RSeq (RLit ''PRIVATE KEY-----'') (RSeq (RRep False 0 None (RCls (\<lambda>_. True)))
     (RSeq (RLit ''-----END '') (RSeq (RStar (RCls pem_label)) (RLit ''PRIVATE KEY-----''))))))"

definition EMAIL_RE :: rx where
  "EMAIL_RE = RSeq RWordB (RSeq
     (RPlus (RCls (\<lambda>c. is_word c \<or> c \<in> {CHR ''.'', CHR ''+'', CHR ''-''})))
     (RSeq (RChar (CHR ''@''))
     (RSeq (RPlus (RCls (\<lambda>c. is_word c \<or> c = CHR ''-'')))
     (RSeq (RChar (CHR ''.''))
     (RSeq (RPlus (RCls (\<lambda>c. is_word c \<or> c \<in> {CHR ''.'', CHR ''-''}))) RWordB)))))"

definition key_separator :: "char \<Rightarrow> bool" where
  "key_separator c \<longleftrightarrow> c = CHR ''-'' \<or> c = CHR ''_'' \<or> c = CHR ''.'' \<or> is_space c"

definition KEY_SEPARATORS_RE :: rx where
  "KEY_SEPARATORS_RE = RCls key_separator"

definition KEY_TOKEN_RE :: rx where
  "KEY_TOKEN_RE = RAlt (RPlus (RCls key_separator))
     (RAlt (RSeq (RBehind (\<lambda>c. is_lower_az c \<or> is_digit c)) (RAhead (RCls is_upper_az)))
           (RSeq (RBehind is_upper_az) (RAhead (RSeq (RCls is_upper_az) (RCls is_lower_az)))))"

section \<open>Keys and the Luhn check\<close>

definition normalize_key :: "string \<Rightarrow> string" where
  "normalize_key key = lower (re_sub (\<lambda>_. []) KEY_SEPARATORS_RE key)"

definition split_key :: "string \<Rightarrow> string list" where
  "split_key key = map lower (filter (\<lambda>t. t \<noteq> []) (re_split KEY_TOKEN_RE key))"

text \<open>The loop of \<open>_luhn_valid\<close>, with its index and running total.\<close>

fun luhn_loop :: "nat \<Rightarrow> nat \<Rightarrow> int \<Rightarrow> string \<Rightarrow> int" where
  "luhn_loop parity i tot [] = tot"
| "luhn_loop parity i tot (ch # chs) =
     (let d = int (ord_of ch) - 48;
          d' = (if i mod 2 = parity then (if 2 * d > 9 then 2 * d - 9 else 2 * d) else d)
      in luhn_loop parity (Suc i) (tot + d') chs)"

definition luhn_valid :: "string \<Rightarrow> bool" where
  "luhn_valid digits \<longleftrightarrow> luhn_loop (length digits mod 2) 0 0 digits mod 10 = 0"

section \<open>Configuration\<close>

record scrub_config =
  enabled :: bool
  scrub_defaults :: bool
  sensitive_keys :: "string list"
  safe_keys :: "string list"
  aggressive_key_match :: bool
  scrub_credit_cards :: bool
  scrub_private_keys :: bool
  scrub_emails :: bool
  placeholder :: string

text \<open>\<open>ScrubConfig()\<close> with its defaults.\<close>

definition default_config :: scrub_config where
  "default_config = \<lparr>enabled = False, scrub_defaults = True, sensitive_keys = [], safe_keys = [],
     aggressive_key_match = False, scrub_credit_cards = True, scrub_private_keys = True,
     scrub_emails = False, placeholder = PLACEHOLDER\<rparr>"

text \<open>\<open>str(v)\<close>; \<open>txt\<close> is the text of a float or a container.\<close>

fun py_str :: "(json \<Rightarrow> string) \<Rightarrow> json \<Rightarrow> string" where
  "py_str txt (JStr s) = s"
| "py_str txt (JInt i) = str_of_int i"
| "py_str txt (JBool b) = (if b then ''True'' else ''False'')"
| "py_str txt JNone = ''None''"
| "py_str txt v = txt v"

text \<open>\<open>_tuple\<close>: the text of the elements that are strings or integers (a bool is an int).\<close>

definition config_tuple :: "(json \<Rightarrow> string) \<Rightarrow> json option \<Rightarrow> string list" where
  "config_tuple txt v =
     (let pick = (\<lambda>xs. map (py_str txt)
            (filter (\<lambda>x. case x of JStr _ \<Rightarrow> True | JInt _ \<Rightarrow> True | JBool _ \<Rightarrow> True | _ \<Rightarrow> False) xs))
      in case v of Some (JList xs) \<Rightarrow> pick xs | Some (JTuple xs) \<Rightarrow> pick xs | _ \<Rightarrow> [])"

definition config_bool :: "json \<Rightarrow> string \<Rightarrow> bool \<Rightarrow> bool" where
  "config_bool data k dflt = (case jget data k of None \<Rightarrow> dflt | Some v \<Rightarrow> truthy v)"

definition from_dict :: "(string \<Rightarrow> json option) \<Rightarrow> (json \<Rightarrow> string) \<Rightarrow> json \<Rightarrow> scrub_config" where
  "from_dict loads txt data =
     (case (case data of JStr s \<Rightarrow> loads s | _ \<Rightarrow> Some data) of
        Some (JDict kvs) \<Rightarrow>
          (let d = JDict kvs in
           \<lparr>enabled = config_bool d ''enabled'' False,
            scrub_defaults = config_bool d ''scrub_defaults'' True,
            sensitive_keys = config_tuple txt (jget d ''sensitive_keys''),
            safe_keys = config_tuple txt (jget d ''safe_keys''),
            aggressive_key_match = config_bool d ''aggressive_key_match'' False,
            scrub_credit_cards = config_bool d ''scrub_credit_cards'' True,
            scrub_private_keys = config_bool d ''scrub_private_keys'' True,
            scrub_emails = config_bool d ''scrub_emails'' False,
            placeholder = (case jget d ''placeholder'' of
                             None \<Rightarrow> PLACEHOLDER | Some v \<Rightarrow> py_str txt v)\<rparr>)
      | _ \<Rightarrow> default_config)"

section \<open>The compiled scrubber\<close>

record scrubber =
  config :: scrub_config
  key_tokens :: "string set"
  whole_keys :: "string set"
  denylist :: "string set"
  safelist :: "string set"

text \<open>\<open>Scrubber.__post_init__\<close>.\<close>

definition make_scrubber :: "scrub_config \<Rightarrow> scrubber" where
  "make_scrubber cfg =
     (let tokens = (if scrub_defaults cfg then DEFAULT_KEY_TOKENS else {}) - {[]};
          whole = ((if scrub_defaults cfg then DEFAULT_WHOLE_KEYS else {})
                   \<union> set (map normalize_key (filter (\<lambda>k. k \<noteq> []) (sensitive_keys cfg)))) - {[]}
      in \<lparr>config = cfg, key_tokens = tokens, whole_keys = whole, denylist = tokens \<union> whole,
          safelist = set (map normalize_key (filter (\<lambda>k. k \<noteq> []) (safe_keys cfg)))\<rparr>)"

definition is_sensitive_key :: "scrubber \<Rightarrow> string \<Rightarrow> bool" where
  "is_sensitive_key sc key =
     (let nkey = normalize_key key in
      if nkey = [] then False
      else if aggressive_key_match (config sc) then
        (if \<exists>safe\<in>safelist sc. contains safe nkey then False
         else \<exists>token\<in>denylist sc. contains token nkey)
      else if nkey \<in> safelist sc then False
      else if nkey \<in> whole_keys sc then True
      else if key = nkey then nkey \<in> key_tokens sc
      else (let tokens = split_key key in
            if \<exists>token\<in>set tokens. token \<in> safelist sc then False
            else \<exists>token\<in>set tokens. token \<in> key_tokens sc))"

definition maybe_redact_card :: "scrubber \<Rightarrow> string \<Rightarrow> string" where
  "maybe_redact_card sc m =
     (let digits = re_sub (\<lambda>_. []) (RCls (\<lambda>c. c = CHR '' '' \<or> c = CHR ''-'')) m in
      if 13 \<le> length digits \<and> length digits \<le> 19 \<and> luhn_valid digits
      then placeholder (config sc) else m)"

definition scrub_string :: "scrubber \<Rightarrow> string \<Rightarrow> string" where
  "scrub_string sc value =
     (let cfg = config sc;
          v1 = (if scrub_private_keys cfg \<and> contains ''PRIVATE KEY'' value
                then re_sub (\<lambda>_. placeholder cfg) PRIVATE_KEY_RE value else value);
          v2 = (if scrub_credit_cards cfg then re_sub (maybe_redact_card sc) CARD_RE v1 else v1)
      in if scrub_emails cfg then re_sub (\<lambda>_. placeholder cfg) EMAIL_RE v2 else v2)"

section \<open>The walk\<close>

text \<open>
  \<open>_scrub_node\<close>, \<open>_scrub_dict\<close> and \<open>_scrub_list\<close>. An element of a list that is itself a list or
  tuple of at least two elements with a string first is a stored \<open>[key, value, ...]\<close> pair.
\<close>

fun seq_elems :: "json \<Rightarrow> json list" where
  "seq_elems (JList xs) = xs"
| "seq_elems (JTuple xs) = xs"
| "seq_elems _ = []"

definition pair_item :: "json \<Rightarrow> bool" where
  "pair_item item \<longleftrightarrow> 2 \<le> length (seq_elems item)
     \<and> (case seq_elems item ! 0 of JStr _ \<Rightarrow> True | _ \<Rightarrow> False)"

definition pair_key :: "json \<Rightarrow> string" where
  "pair_key item = (case seq_elems item ! 0 of JStr k \<Rightarrow> k | _ \<Rightarrow> [])"

lemma size_pair_item [termination_simp]:
  assumes "pair_item item"
  shows "size (seq_elems item ! Suc 0) < size item"
proof -
  have "seq_elems item ! Suc 0 \<in> set (seq_elems item)"
    using assms by (simp add: pair_item_def)
  then have "size (seq_elems item ! Suc 0) \<le> size_list size (seq_elems item)"
    by (rule size_list_estimation') simp
  moreover have "size_list size (seq_elems item) < size item"
    using assms by (cases item) (auto simp: pair_item_def)
  ultimately show ?thesis by simp
qed

fun scrub_node :: "scrubber \<Rightarrow> nat \<Rightarrow> json \<Rightarrow> json"
  and scrub_dict :: "scrubber \<Rightarrow> nat \<Rightarrow> (pkey \<times> json) list \<Rightarrow> (pkey \<times> json) list"
  and scrub_list :: "scrubber \<Rightarrow> nat \<Rightarrow> json list \<Rightarrow> json list"
where
  "scrub_node sc depth value =
     (if depth > MAX_SCRUB_DEPTH then value
      else case value of
        JDict d \<Rightarrow> JDict (scrub_dict sc depth d)
      | JList lst \<Rightarrow> JList (scrub_list sc depth lst)
      | JStr s \<Rightarrow> JStr (scrub_string sc s)
      | _ \<Rightarrow> value)"
| "scrub_dict sc depth [] = []"
| "scrub_dict sc depth ((key, value) # d) =
     (key, if (case key of KStr k \<Rightarrow> is_sensitive_key sc k | KInt _ \<Rightarrow> False)
           then JStr (placeholder (config sc))
           else scrub_node sc (depth + 1) value) # scrub_dict sc depth d"
| "scrub_list sc depth [] = []"
| "scrub_list sc depth (item # lst) =
     (if pair_item item
      then JList (seq_elems item ! 0
                  # (if is_sensitive_key sc (pair_key item) then JStr (placeholder (config sc))
                     else scrub_node sc (depth + 1) (seq_elems item ! 1))
                  # drop 2 (seq_elems item))
      else scrub_node sc (depth + 1) item) # scrub_list sc depth lst"

declare scrub_node.simps [simp del]

text \<open>\<open>scrub_event\<close>: the loop over the sections, each looked up in the current payload.\<close>

definition scrub_section :: "scrubber \<Rightarrow> string \<Rightarrow> (pkey \<times> json) list \<Rightarrow> (pkey \<times> json) list" where
  "scrub_section sc section payload =
     (case map_of payload (KStr section) of
        None \<Rightarrow> payload
      | Some v \<Rightarrow> if v = JNone then payload else dset payload (KStr section) (scrub_node sc 0 v))"

definition scrub_event :: "scrubber \<Rightarrow> (pkey \<times> json) list \<Rightarrow> (pkey \<times> json) list" where
  "scrub_event sc payload =
     (if \<not> enabled (config sc) then payload else fold (scrub_section sc) EVENT_SECTIONS payload)"

definition scrub_log :: "scrubber \<Rightarrow> (pkey \<times> json) list \<Rightarrow> (pkey \<times> json) list" where
  "scrub_log sc item = (if \<not> enabled (config sc) then item else scrub_dict sc 0 item)"

text \<open>
  \<open>resolve_scrubber\<close>. The caches of \<open>_scrubber_for\<close> and \<open>_scrubber_for_json\<close> hold values of
  functions of their argument and do not change the result.
\<close>

definition resolve_scrubber ::
    "(string \<Rightarrow> json option) \<Rightarrow> (json \<Rightarrow> string) \<Rightarrow> json \<Rightarrow> json \<Rightarrow> scrubber" where
  "resolve_scrubber loads txt project_config default_cfg =
     (let raw = (if truthy project_config then project_config else default_cfg) in
      if \<not> truthy raw then make_scrubber default_config
      else make_scrubber (from_dict loads txt raw))"


section \<open>Key matching\<close>

lemma normalize_key_filter: "normalize_key key = lower (filter (\<lambda>c. \<not> key_separator c) key)"
  by (simp add: normalize_key_def KEY_SEPARATORS_RE_def re_sub_cls)

lemma char_lower_not_upper: "\<not> is_upper_az (char_lower c)"
proof -
  have "ord_of (char_of (ord_of c + 32 :: nat)) = ord_of c + 32" if "ord_of c \<le> 222"
    using that by simp
  then show ?thesis
    by (auto simp: char_lower_def is_upper_az_def)
qed

lemma char_lower_eq_sep: "char_lower c = d \<Longrightarrow> ord_of d < 65 \<or> ord_of d = 95 \<Longrightarrow> c = d"
proof -
  have "ord_of (char_of (ord_of c + 32 :: nat)) = ord_of c + 32" if "ord_of c \<le> 222"
    using that by simp
  moreover assume "char_lower c = d" "ord_of d < 65 \<or> ord_of d = 95"
  ultimately show ?thesis
    by (auto simp: char_lower_def is_upper_az_def split: if_splits)
qed

lemma char_lower_sep_id: "key_separator c \<Longrightarrow> char_lower c = c"
  by (auto simp: key_separator_def char_lower_def is_upper_az_def is_space_def)

lemma key_separator_char_lower [simp]: "key_separator (char_lower c) = key_separator c"
proof
  assume "key_separator (char_lower c)"
  then consider "char_lower c = CHR ''-''" | "char_lower c = CHR ''_''" | "char_lower c = CHR ''.''"
    | "is_space c" by (auto simp: key_separator_def)
  then show "key_separator c"
    by cases (auto simp: key_separator_def dest: char_lower_eq_sep)
qed (simp add: char_lower_sep_id)

lemma normalize_key_no_sep: "c \<in> set (normalize_key key) \<Longrightarrow> \<not> key_separator c \<and> \<not> is_upper_az c"
  by (auto simp: normalize_key_filter lower_def char_lower_not_upper)

lemma filter_idI: "(\<And>c. c \<in> set xs \<Longrightarrow> P c) \<Longrightarrow> filter P xs = xs"
  by (induction xs) auto

text \<open>Normalisation is idempotent, so a normalised key is its own normal form.\<close>

lemma normalize_key_idem: "normalize_key (normalize_key key) = normalize_key key"
proof -
  have "filter (\<lambda>c. \<not> key_separator c) (normalize_key key) = normalize_key key"
    by (rule filter_idI) (auto dest: normalize_key_no_sep)
  then show ?thesis
    by (simp add: normalize_key_filter [of "normalize_key key"])
       (simp add: normalize_key_filter)
qed

lemma rep_cls_none:
  assumes "i < length s \<Longrightarrow> \<not> p (s ! i)"
  shows "rep g (mt s (RCls p)) n (Suc lo) hi i = []"
  using assms by (cases n) auto

lemma split_key_simple:
  assumes "\<And>c. c \<in> set key \<Longrightarrow> \<not> key_separator c \<and> \<not> is_upper_az c" and "key \<noteq> []"
  shows "split_key key = [lower key]"
proof -
  have "mt key KEY_TOKEN_RE i = []" if "i \<le> length key" for i
  proof -
    have c: "\<not> key_separator (key ! i) \<and> \<not> is_upper_az (key ! i)" if "i < length key"
      using assms(1) that by simp
    then have "rep True (mt key (RCls key_separator)) (length key - i) (Suc 0) None i = []"
      by (intro rep_cls_none) simp
    with c show ?thesis by (auto simp: KEY_TOKEN_RE_def)
  qed
  then have "re_split KEY_TOKEN_RE key = [key]" by (rule re_split_none)
  with assms(2) show ?thesis by (simp add: split_key_def)
qed

text \<open>The matcher without its fast path.\<close>

definition is_sensitive_key_ref :: "scrubber \<Rightarrow> string \<Rightarrow> bool" where
  "is_sensitive_key_ref sc key \<longleftrightarrow>
     (let nkey = normalize_key key; tokens = set (split_key key) in
      nkey \<noteq> [] \<and>
      (if aggressive_key_match (config sc)
       then (\<forall>safe\<in>safelist sc. \<not> contains safe nkey) \<and> (\<exists>token\<in>denylist sc. contains token nkey)
       else nkey \<notin> safelist sc \<and>
            (nkey \<in> whole_keys sc \<or>
             (tokens \<inter> safelist sc = {} \<and> tokens \<inter> key_tokens sc \<noteq> {}))))"

lemma split_key_normal: "key = normalize_key key \<Longrightarrow> key \<noteq> [] \<Longrightarrow> split_key key = [key]"
  using split_key_simple [of key] normalize_key_no_sep [of _ key]
  by (metis (no_types, lifting) lower_idem normalize_key_def)

lemma is_sensitive_key_eq_ref: "is_sensitive_key sc key = is_sensitive_key_ref sc key"
proof (cases "key = normalize_key key \<and> key \<noteq> []")
  case True
  then have "split_key key = [key]" using split_key_normal by blast
  moreover from True have "normalize_key key = key" by simp
  ultimately show ?thesis
    by (auto simp: is_sensitive_key_def is_sensitive_key_ref_def)
next
  case False
  have "(\<exists>token\<in>A. token \<in> B) = (A \<inter> B \<noteq> {})" for A B :: "string set" by auto
  with False show ?thesis
    by (auto simp: is_sensitive_key_def is_sensitive_key_ref_def Let_def)
qed

lemma compiled_sets:
  "safelist (make_scrubber cfg) = set (map normalize_key (filter (\<lambda>k. k \<noteq> []) (safe_keys cfg)))"
  "config (make_scrubber cfg) = cfg"
  "whole_keys (make_scrubber cfg) = ((if scrub_defaults cfg then DEFAULT_WHOLE_KEYS else {})
      \<union> set (map normalize_key (filter (\<lambda>k. k \<noteq> []) (sensitive_keys cfg)))) - {[]}"
  "key_tokens (make_scrubber cfg) = (if scrub_defaults cfg then DEFAULT_KEY_TOKENS else {}) - {[]}"
  "denylist (make_scrubber cfg) = key_tokens (make_scrubber cfg) \<union> whole_keys (make_scrubber cfg)"
  by (simp_all add: make_scrubber_def Let_def)

section \<open>The walk\<close>

text \<open>
  What it means that a value still exposes a sensitive field at a position the walk reaches: a
  dictionary entry under a sensitive key, or a stored pair with a sensitive key, whose value is
  not the placeholder.
\<close>

fun leak_node :: "(string \<Rightarrow> bool) \<Rightarrow> string \<Rightarrow> nat \<Rightarrow> json \<Rightarrow> bool"
  and leak_dict :: "(string \<Rightarrow> bool) \<Rightarrow> string \<Rightarrow> nat \<Rightarrow> (pkey \<times> json) list \<Rightarrow> bool"
  and leak_list :: "(string \<Rightarrow> bool) \<Rightarrow> string \<Rightarrow> nat \<Rightarrow> json list \<Rightarrow> bool"
where
  "leak_node sens ph depth value =
     (depth \<le> MAX_SCRUB_DEPTH \<and>
      (case value of JDict d \<Rightarrow> leak_dict sens ph depth d
                   | JList lst \<Rightarrow> leak_list sens ph depth lst | _ \<Rightarrow> False))"
| "leak_dict sens ph depth [] = False"
| "leak_dict sens ph depth ((key, value) # d) =
     ((case key of KStr k \<Rightarrow> sens k \<and> value \<noteq> JStr ph | KInt _ \<Rightarrow> False)
      \<or> leak_node sens ph (depth + 1) value \<or> leak_dict sens ph depth d)"
| "leak_list sens ph depth [] = False"
| "leak_list sens ph depth (item # lst) =
     ((if pair_item item
       then (sens (pair_key item) \<and> seq_elems item ! 1 \<noteq> JStr ph)
            \<or> leak_node sens ph (depth + 1) (seq_elems item ! 1)
       else leak_node sens ph (depth + 1) item)
      \<or> leak_list sens ph depth lst)"

declare leak_node.simps [simp del]

lemma leak_node_JStr [simp]: "\<not> leak_node sens ph d (JStr s)"
  by (simp add: leak_node.simps)

text \<open>The walk keeps the shape: keys with their order, lengths, and which elements are pairs.\<close>

lemma scrub_dict_keys [simp]: "map fst (scrub_dict sc d kvs) = map fst kvs"
  by (induction kvs) auto

lemma length_scrub_list [simp]: "length (scrub_list sc d xs) = length xs"
  by (induction xs) auto

lemma scrub_node_is_str: "scrub_node sc d v = JStr s \<Longrightarrow> \<exists>t. v = JStr t"
  by (auto simp: scrub_node.simps split: if_splits json.splits)

lemma pair_item_scrub:
  assumes "pair_item (scrub_node sc d v)"
  shows "pair_item v"
proof (cases "d \<le> MAX_SCRUB_DEPTH \<and> (\<exists>xs. v = JList xs)")
  case True
  then obtain xs where v: "v = JList xs" and d: "\<not> d > MAX_SCRUB_DEPTH" by auto
  then have p: "2 \<le> length xs" and h: "case scrub_list sc d xs ! 0 of JStr _ \<Rightarrow> True | _ \<Rightarrow> False"
    using assms by (simp_all add: scrub_node.simps pair_item_def)
  then obtain x ys where xs: "xs = x # ys" by (cases xs) auto
  with h obtain t where "x = JStr t"
    by (auto split: json.splits if_splits dest: scrub_node_is_str)
  with v xs p show ?thesis by (simp add: pair_item_def)
next
  case False
  then have "seq_elems (scrub_node sc d v) = seq_elems v"
    by (cases v) (auto simp: scrub_node.simps)
  with assms show ?thesis by (simp add: pair_item_def)
qed

lemma pair_item_rebuilt:
  assumes "pair_item item"
  shows "pair_item (JList (seq_elems item ! 0 # v # drop 2 (seq_elems item)))"
    and "pair_key (JList (seq_elems item ! 0 # v # drop 2 (seq_elems item))) = pair_key item"
  using assms by (auto simp: pair_item_def pair_key_def)

text \<open>The walk leaves no sensitive field at a position it reaches.\<close>

lemma scrub_no_leak:
  "\<not> leak_node (is_sensitive_key sc) (placeholder (config sc)) d (scrub_node sc d v)"
  "\<not> leak_dict (is_sensitive_key sc) (placeholder (config sc)) d (scrub_dict sc d kvs)"
  "\<not> leak_list (is_sensitive_key sc) (placeholder (config sc)) d (scrub_list sc d xs)"
proof (induction sc d v and sc d kvs and sc d xs rule: scrub_node_scrub_dict_scrub_list.induct)
  case (1 sc depth v)
  then show ?case
    by (cases v) (auto simp: leak_node.simps scrub_node.simps)
next
  case (3 sc depth key v d)
  then show ?case by (auto split: pkey.splits)
next
  case (5 sc depth item lst)
  show ?case
  proof (cases "pair_item item")
    case True
    with "5.IH" show ?thesis by (auto simp: pair_item_rebuilt)
  next
    case False
    then have "\<not> pair_item (scrub_node sc (depth + 1) item)" using pair_item_scrub by blast
    with False "5.IH" show ?thesis by auto
  qed
qed simp_all

section \<open>Events\<close>

lemma map_fst_scrub_section [simp]: "map fst (scrub_section sc sec payload) = map fst payload"
  by (auto simp: scrub_section_def dset_keys dest: map_of_SomeD split: option.splits)
     (metis (no_types, lifting) domI dom_map_of_conv_image_fst)

lemma map_fst_fold_sections [simp]:
  "map fst (fold (scrub_section sc) secs payload) = map fst payload"
  by (induction secs arbitrary: payload) auto

lemma map_of_scrub_section:
  "map_of (scrub_section sc sec payload) k =
     (if k = KStr sec
      then map_option (\<lambda>v. if v = JNone then v else scrub_node sc 0 v) (map_of payload k)
      else map_of payload k)"
  by (auto simp: scrub_section_def split: option.splits)

lemma map_of_fold_sections:
  "distinct secs \<Longrightarrow> map_of (fold (scrub_section sc) secs payload) (KStr k) =
     (if k \<in> set secs
      then map_option (\<lambda>v. if v = JNone then v else scrub_node sc 0 v) (map_of payload (KStr k))
      else map_of payload (KStr k))"
  by (induction secs arbitrary: payload) (auto simp: map_of_scrub_section option.map_comp)

lemma map_of_fold_sections_int:
  "map_of (fold (scrub_section sc) secs payload) (KInt i) = map_of payload (KInt i)"
  by (induction secs arbitrary: payload) (auto simp: map_of_scrub_section)

lemma distinct_sections: "distinct EVENT_SECTIONS"
  by (simp add: EVENT_SECTIONS_def)

section \<open>The Luhn check\<close>

definition luhn_weight :: "bool \<Rightarrow> int \<Rightarrow> int" where
  "luhn_weight doubled d = (if doubled then (if 2 * d > 9 then 2 * d - 9 else 2 * d) else d)"

definition digit_int :: "char \<Rightarrow> int" where
  "digit_int c = int (ord_of c) - 48"

lemma luhn_loop_sum:
  "luhn_loop parity i tot s =
   tot + (\<Sum>k<length s. luhn_weight ((i + k) mod 2 = parity) (digit_int (s ! k)))"
proof (induction s arbitrary: i tot)
  case Nil
  show ?case by simp
next
  case (Cons c s)
  have "(\<Sum>k<length (c # s). luhn_weight ((i + k) mod 2 = parity) (digit_int ((c # s) ! k)))
      = luhn_weight (i mod 2 = parity) (digit_int c)
        + (\<Sum>k<length s. luhn_weight ((Suc i + k) mod 2 = parity) (digit_int (s ! k)))"
    by (simp add: sum.lessThan_Suc_shift del: sum.lessThan_Suc)
  with Cons.IH show ?case
    by (simp add: Let_def luhn_weight_def digit_int_def)
qed

text \<open>The weight permutes the ten digits, doubled or not.\<close>

lemma luhn_weight_inj:
  assumes "0 \<le> d" "d \<le> 9" "0 \<le> e" "e \<le> 9" "luhn_weight b d mod 10 = luhn_weight b e mod 10"
  shows "d = e"
  using assms unfolding luhn_weight_def by (auto split: if_splits) presburger+

lemma digit_int_range: "is_digit c \<Longrightarrow> 0 \<le> digit_int c \<and> digit_int c \<le> 9"
  by (auto simp: is_digit_def digit_int_def)

lemma digit_int_inj: "digit_int c = digit_int d \<longleftrightarrow> c = d"
  by (simp add: digit_int_def)

lemma luhn_loop_update:
  assumes "i < length s"
  shows "luhn_loop parity 0 0 (s[i := c]) =
    luhn_loop parity 0 0 s - luhn_weight (i mod 2 = parity) (digit_int (s ! i))
      + luhn_weight (i mod 2 = parity) (digit_int c)"
proof -
  let ?w = "\<lambda>s k. luhn_weight (k mod 2 = parity) (digit_int (s ! k))"
  have i: "i \<in> {..<length s}" using assms by simp
  have "(\<Sum>k\<in>{..<length s} - {i}. ?w (s[i := c]) k) = (\<Sum>k\<in>{..<length s} - {i}. ?w s k)"
    by (rule sum.cong) auto
  then show ?thesis
    using i by (simp add: luhn_loop_sum sum.remove [OF _ i])
qed

lemma mod10_exchange:
  assumes "a mod 10 = 0" and "(a - x + y) mod 10 = 0"
  shows "y mod 10 = (x :: int) mod 10"
proof -
  from assms have "10 dvd (a - x + y) - a" by (intro dvd_diff) (simp_all add: dvd_eq_mod_eq_0)
  then have "10 dvd y - x" by (simp add: algebra_simps)
  then show ?thesis by (simp add: mod_eq_dvd_iff)
qed

section \<open>Card numbers\<close>

abbreviation card_sep :: "char \<Rightarrow> bool" where
  "card_sep \<equiv> \<lambda>c. c = CHR '' '' \<or> c = CHR ''-''"

abbreviation card_body :: rx where
  "card_body \<equiv> RSeq (RCls is_digit) (RRep False 0 None (RCls card_sep))"

lemma digit_not_sep: "is_digit c \<Longrightarrow> \<not> card_sep c"
  by (auto simp: is_digit_def)

lemma digit_is_word: "is_digit c \<Longrightarrow> is_word c"
  by (simp add: is_word_def)

lemma card_body_digits:
  assumes "\<forall>c\<in>set s. is_digit c"
  shows "mt s card_body i = (if i < length s then [Suc i] else [])"
proof -
  have "rep False (mt s (RCls card_sep)) n 0 None j = [j]" for n j
  proof (cases n)
    case (Suc m)
    have "mt s (RCls card_sep) j = []"
      using assms digit_not_sep by (auto simp: all_set_conv_all_nth)
    with Suc show ?thesis by simp
  qed simp
  with assms show ?thesis by (auto simp: all_set_conv_all_nth)
qed

lemma boundary_digits:
  assumes "\<forall>c\<in>set s. is_digit c" and "j \<le> length s" and "s \<noteq> []"
  shows "at_boundary s j \<longleftrightarrow> j = 0 \<or> j = length s"
  using assms digit_is_word
  by (auto simp: at_boundary_def word_at_def all_set_conv_all_nth)

lemma card_rep_digits:
  assumes s: "\<forall>c\<in>set s. is_digit c" "s \<noteq> []"
    and "n = length s - i" "i \<le> length s" "lo \<le> n" "n \<le> hi" "0 < i \<or> 0 < lo"
  shows "concat (map (mt s RWordB) (rep True (mt s card_body) n lo (Some hi) i)) = [length s]"
  using assms(3-)
proof (induction n arbitrary: i lo hi)
  case 0
  then show ?case using boundary_digits [OF s(1), of "length s"] s(2) by auto
next
  case (Suc n)
  from Suc.prems have i: "i < length s" by simp
  have "mt s RWordB i = []" if "lo = 0"
    using boundary_digits [OF s(1), of i] s(2) i that Suc.prems by simp
  moreover have "concat (map (mt s RWordB)
      (rep True (mt s card_body) n (lo - 1) (Some (hi - 1)) (Suc i))) = [length s]"
    using Suc.prems by (intro Suc.IH) auto
  moreover have "rep True (mt s card_body) (Suc n) lo (Some hi) i =
      rep True (mt s card_body) n (lo - 1) (Some (hi - 1)) (Suc i) @ (if lo = 0 then [i] else [])"
    using i Suc.prems(4,1) unfolding rep.simps(2) card_body_digits [OF s(1), of i] by simp
  ultimately show ?case by (cases "lo = 0") (simp_all del: rep.simps mt.simps)
qed

lemma finditer_card_digits:
  assumes "\<forall>c\<in>set s. is_digit c" and "13 \<le> length s" and "length s \<le> 19"
  shows "finditer CARD_RE s = [(0, length s)]"
proof -
  have ne: "s \<noteq> []" using assms(2) by auto
  have b: "at_boundary s 0" "at_boundary s (length s)"
    using boundary_digits [OF assms(1) _ ne] by auto
  have start: "mt s CARD_RE 0 = [length s]"
    using card_rep_digits [OF assms(1) ne, of "length s" 0 13 19] assms(2,3) b
    by (simp add: CARD_RE_def)
  have stop: "mt s CARD_RE (length s) = []"
    using b by (simp add: CARD_RE_def)
  have "search_from s CARD_RE (Suc (length s) - 0) 0 False = Some (0, length s)"
    using start by simp
  moreover have "search_from s CARD_RE (Suc (length s) - length s) (length s) (0 = length s) = None"
    using stop by simp
  ultimately show ?thesis
    unfolding finditer_def by (simp only: mult_2 add_Suc scan.simps option.case prod.case) simp
qed

lemma contains_set: "contains p s \<Longrightarrow> set p \<subseteq> set s"
  by (auto simp: contains_iff)

section \<open>Properties\<close>

text \<open>
  Property C1. With scrubbing enabled, no section of a scrubbed event exposes a sensitive field
  at a position the walk reaches, down to the depth bound: every dictionary entry under a
  sensitive key and every stored pair with a sensitive key carries the placeholder.
\<close>

theorem scrub_event_no_leak:
  assumes "enabled (config sc)" and "sec \<in> set EVENT_SECTIONS"
    and "map_of (scrub_event sc payload) (KStr sec) = Some v"
  shows "\<not> leak_node (is_sensitive_key sc) (placeholder (config sc)) 0 v"
  using assms scrub_no_leak(1) [of sc 0]
  by (auto simp: scrub_event_def map_of_fold_sections distinct_sections leak_node.simps
      split: if_splits)

definition demo_scrubber :: scrubber where
  "demo_scrubber = make_scrubber (default_config \<lparr>enabled := True,
     sensitive_keys := [''Tenant-Id''], safe_keys := [''pin_code'']\<rparr>)"

definition demo_event :: "(pkey \<times> json) list" where
  "demo_event = [(KStr ''extra'', JDict [(KStr ''userPassword'', JStr ''hunter2''), (KStr ''n'', JInt 3)]),
     (KStr ''level'', JStr ''error'')]"

lemma demo_event_scrubbed:
  "map_of (scrub_event demo_scrubber demo_event) (KStr ''extra'')
     = Some (JDict [(KStr ''userPassword'', JStr ''[Filtered]''), (KStr ''n'', JInt 3)])"
  by code_simp

theorem scrub_event_no_leak_witness:
  "\<not> leak_node (is_sensitive_key demo_scrubber) (placeholder (config demo_scrubber)) 0
     (JDict [(KStr ''userPassword'', JStr ''[Filtered]''), (KStr ''n'', JInt 3)])"
  by (rule scrub_event_no_leak [OF _ _ demo_event_scrubbed])
     (simp_all add: demo_scrubber_def compiled_sets EVENT_SECTIONS_def)

text \<open>
  Further property. Scrubbing keeps the keys of the event with their order and changes no entry
  outside the scrubbed sections; when it is disabled the event is returned as it came.
\<close>

theorem scrub_event_frame:
  "map fst (scrub_event sc payload) = map fst payload \<and>
   (\<forall>s. s \<notin> set EVENT_SECTIONS \<longrightarrow>
      map_of (scrub_event sc payload) (KStr s) = map_of payload (KStr s)) \<and>
   (\<not> enabled (config sc) \<longrightarrow> scrub_event sc payload = payload)"
  by (simp add: scrub_event_def map_of_fold_sections distinct_sections)

theorem scrub_event_frame_witness:
  "map_of (scrub_event demo_scrubber demo_event) (KStr ''level'') = Some (JStr ''error'')"
  using scrub_event_frame [of demo_scrubber demo_event]
  by (simp add: EVENT_SECTIONS_def demo_event_def)

text \<open>
  Further property. The key matcher with its fast path for plain lower-case keys decides exactly what
  the matcher that always splits the key into tokens decides.
\<close>

theorem is_sensitive_key_fast_path: "is_sensitive_key sc key = is_sensitive_key_ref sc key"
  by (rule is_sensitive_key_eq_ref)

text \<open>
  Further property. The operator's lists decide before the built-in ones: a key whose normal form is
  the normal form of a safe key is never redacted, in either matching mode, and a key the
  operator named as sensitive is redacted unless a safe key applies to it.
\<close>

theorem operator_keys_decide:
  "(\<forall>k\<in>set (safe_keys cfg). k \<noteq> [] \<longrightarrow> normalize_key k = normalize_key key \<longrightarrow>
      \<not> is_sensitive_key (make_scrubber cfg) key) \<and>
   (\<forall>k\<in>set (sensitive_keys cfg). normalize_key k = normalize_key key \<longrightarrow> normalize_key key \<noteq> [] \<longrightarrow>
      (\<forall>safe\<in>set (safe_keys cfg). safe \<noteq> [] \<longrightarrow> \<not> contains (normalize_key safe) (normalize_key key)) \<longrightarrow>
      is_sensitive_key (make_scrubber cfg) key)"
proof (intro conjI ballI impI)
  fix k assume k: "k \<in> set (safe_keys cfg)" "k \<noteq> []" "normalize_key k = normalize_key key"
  then have "normalize_key key \<in> safelist (make_scrubber cfg)"
    unfolding compiled_sets k(3) [symmetric] by simp
  then show "\<not> is_sensitive_key (make_scrubber cfg) key"
    by (auto simp: is_sensitive_key_def Let_def intro: bexI [of _ "normalize_key key"])
next
  fix k assume k: "k \<in> set (sensitive_keys cfg)" "normalize_key k = normalize_key key"
    and ne: "normalize_key key \<noteq> []"
    and safe: "\<forall>safe\<in>set (safe_keys cfg). safe \<noteq> [] \<longrightarrow>
       \<not> contains (normalize_key safe) (normalize_key key)"
  have "k \<noteq> []" using k(2) ne by (auto simp: normalize_key_filter lower_def)
  then have whole: "normalize_key key \<in> whole_keys (make_scrubber cfg)"
    using k(1) ne unfolding compiled_sets k(2) [symmetric] by simp
  moreover have "normalize_key key \<notin> safelist (make_scrubber cfg)"
    using safe by (auto simp: compiled_sets)
  ultimately show "is_sensitive_key (make_scrubber cfg) key"
    using safe ne
    by (auto simp: is_sensitive_key_def Let_def compiled_sets intro: bexI [of _ "normalize_key key"])
qed

lemma demo_keys:
  "normalize_key ''pin_code'' = ''pincode''" "normalize_key ''PIN-code'' = ''pincode''"
  "normalize_key ''Tenant-Id'' = ''tenantid''" "normalize_key ''tenant_id'' = ''tenantid''"
  by code_simp+

theorem operator_keys_decide_witness:
  "\<not> is_sensitive_key demo_scrubber ''PIN-code'' \<and> is_sensitive_key demo_scrubber ''tenant_id''"
  using operator_keys_decide [of "config demo_scrubber" "''PIN-code''"]
    operator_keys_decide [of "config demo_scrubber" "''tenant_id''"]
  by (simp add: demo_scrubber_def compiled_sets demo_keys starts_with_def)

text \<open>
  Further property. The Luhn check detects every single-digit error: replacing one digit of a number
  that passes by another digit gives a number that does not pass.
\<close>

theorem luhn_detects_single_error:
  assumes "\<forall>c\<in>set s. is_digit c" and "luhn_valid s" and "i < length s" and "is_digit c" and "c \<noteq> s ! i"
  shows "\<not> luhn_valid (s[i := c])"
proof
  let ?b = "i mod 2 = length s mod 2"
  assume "luhn_valid (s[i := c])"
  with assms(2) have "luhn_loop (length s mod 2) 0 0 (s[i := c]) mod 10 = 0"
    and "luhn_loop (length s mod 2) 0 0 s mod 10 = 0"
    by (simp_all add: luhn_valid_def)
  then have "luhn_weight ?b (digit_int c) mod 10 = luhn_weight ?b (digit_int (s ! i)) mod 10"
    unfolding luhn_loop_update [OF assms(3)] by (rule mod10_exchange [rotated])
  then have "digit_int c = digit_int (s ! i)"
    using luhn_weight_inj digit_int_range assms(1,3,4) by (meson nth_mem)
  with assms(5) show False by (simp add: digit_int_inj)
qed

theorem luhn_detects_single_error_witness: "\<not> luhn_valid (''4111111111111111'' [3 := CHR ''7''])"
  by (rule luhn_detects_single_error) (simp_all add: is_digit_def luhn_valid_def Let_def)

text \<open>
  Further property. Every bare card number is redacted: a text of 13 to 19 digits that passes the Luhn
  check is replaced as a whole by the placeholder.
\<close>

theorem card_number_redacted:
  assumes "scrub_credit_cards (config sc)" and "\<not> scrub_emails (config sc)"
    and "\<forall>c\<in>set s. is_digit c" and "13 \<le> length s" and "length s \<le> 19" and "luhn_valid s"
  shows "scrub_string sc s = placeholder (config sc)"
proof -
  have "CHR ''P'' \<notin> set s"
    using assms(3) by (auto simp: is_digit_def dest!: bspec [where x = "CHR ''P''"])
  then have "\<not> contains ''PRIVATE KEY'' s"
    using contains_set [of "''PRIVATE KEY''" s] by auto
  moreover have "filter (\<lambda>c. \<not> card_sep c) s = s"
    using assms(3) digit_not_sep by (intro filter_idI) blast
  then have "maybe_redact_card sc s = placeholder (config sc)"
    using assms(4-6) by (simp add: maybe_redact_card_def re_sub_cls)
  then have "re_sub (maybe_redact_card sc) CARD_RE s = placeholder (config sc)"
    using assms(3-5) by (simp add: re_sub_def finditer_card_digits slice_def)
  ultimately show ?thesis
    using assms(1,2) by (simp add: scrub_string_def)
qed

theorem card_number_redacted_witness:
  "scrub_string demo_scrubber ''4111111111111111'' = ''[Filtered]''"
  using card_number_redacted [of demo_scrubber "''4111111111111111''"]
  by (simp add: demo_scrubber_def compiled_sets default_config_def PLACEHOLDER_def is_digit_def
      luhn_valid_def Let_def)

text \<open>
  The seventh digit group of a long number is not seen: the separators of the card pattern are
  lazy and the pattern stops at the first word boundary after thirteen digits, so a number of
  nineteen digits in groups of four is read as a number of sixteen, which fails the Luhn check.
\<close>

lemma grouped_long_card_span: "finditer CARD_RE ''6200 0000 0000 0000 000'' = [(0, 19)]"
  by code_simp

lemma grouped_long_card_kept:
  "luhn_valid ''6200000000000000000'' \<and>
   scrub_string (make_scrubber default_config) ''6200 0000 0000 0000 000''
     = ''6200 0000 0000 0000 000''"
proof -
  have "maybe_redact_card (make_scrubber default_config) ''6200 0000 0000 0000''
      = ''6200 0000 0000 0000''"
    by (simp add: maybe_redact_card_def re_sub_cls luhn_valid_def Let_def)
  then show ?thesis
    by (simp add: scrub_string_def compiled_sets default_config_def re_sub_def
        grouped_long_card_span slice_def luhn_valid_def Let_def starts_with_def)
qed

text \<open>
  An element of a list that is itself a sequence starting with a string is taken for a pair:
  what follows its second element is kept as it is, sensitive keys included.
\<close>

lemma pair_tail_not_scrubbed:
  "depth \<le> MAX_SCRUB_DEPTH \<Longrightarrow>
   scrub_node sc depth (JList [JList (JStr k # v # rest)]) =
     JList [JList (JStr k # (if is_sensitive_key sc k then JStr (placeholder (config sc))
                             else scrub_node sc (depth + 1) v) # rest)]"
  by (simp add: scrub_node.simps [of sc depth] pair_item_def pair_key_def)

end
