(* ===== verification/Py_Int.thy ===== *)
theory Py_Int
  imports GT_Prelude
begin

text \<open>
  Reading and writing integers as text: \<open>int(s, base)\<close> of Python for the bases the code uses, the
  hexadecimal text of a number, and \<open>uuid.UUID\<close> as far as the code uses it (parsing of a
  hexadecimal string and the canonical text form).
\<close>

section \<open>int(s, base)\<close>

definition digit_in :: "nat \<Rightarrow> char \<Rightarrow> nat option" where
  "digit_in base c =
     (let n = ord_of c;
          v = (if 48 \<le> n \<and> n \<le> 57 then Some (n - 48)
               else if 97 \<le> n \<and> n \<le> 122 then Some (n - 87)
               else if 65 \<le> n \<and> n \<le> 90 then Some (n - 55) else None)
      in case v of Some k \<Rightarrow> if k < base then Some k else None | None \<Rightarrow> None)"

text \<open>The digits of a literal: at least one, single underscores allowed between two of them.\<close>

fun digits_in :: "nat \<Rightarrow> nat \<Rightarrow> bool \<Rightarrow> string \<Rightarrow> nat option" where
  "digits_in base acc prev [] = (if prev then Some acc else None)"
| "digits_in base acc prev (c # s) =
     (if c = CHR ''_'' then (if prev \<and> s \<noteq> [] then digits_in base acc False s else None)
      else case digit_in base c of
             Some d \<Rightarrow> digits_in base (base * acc + d) True s
           | None \<Rightarrow> None)"

definition drop_prefix_16 :: "nat \<Rightarrow> string \<Rightarrow> string" where
  "drop_prefix_16 base s =
     (if base = 16 \<and> (starts_with ''0x'' s \<or> starts_with ''0X'' s)
      then (if starts_with ''_'' (drop 2 s) then drop 3 s else drop 2 s) else s)"

definition py_int :: "nat \<Rightarrow> string \<Rightarrow> int option" where
  "py_int base s =
     (let t = strip s;
          neg = starts_with ''-'' t;
          body = (if neg \<or> starts_with ''+'' t then drop 1 t else t)
      in map_option (\<lambda>n. if neg then - int n else int n)
           (digits_in base 0 False (drop_prefix_16 base body)))"

section \<open>Hexadecimal text\<close>

definition hex_digit :: "nat \<Rightarrow> char" where
  "hex_digit d = (if d < 10 then char_of (48 + d) else char_of (87 + d))"

primrec hex_of :: "nat \<Rightarrow> nat \<Rightarrow> string" where
  "hex_of 0 n = []"
| "hex_of (Suc w) n = hex_of w (n div 16) @ [hex_digit (n mod 16)]"

section \<open>UUIDs\<close>

text \<open>A UUID is its 128-bit integer. Text form: 8-4-4-4-12 hexadecimal digits.\<close>

type_synonym uuid = nat

definition uuid_str :: "uuid \<Rightarrow> string" where
  "uuid_str u = (let h = hex_of 32 u in
     join ''-'' [take 8 h, take 4 (drop 8 h), take 4 (drop 12 h), take 4 (drop 16 h), drop 20 h])"

text \<open>\<open>s.replace(p, '')\<close>: remove the occurrences of \<open>p\<close>, from the left, without overlap.\<close>

function remove_all :: "string \<Rightarrow> string \<Rightarrow> string" where
  "remove_all p s = (case s of [] \<Rightarrow> []
     | c # t \<Rightarrow> if p \<noteq> [] \<and> starts_with p s then remove_all p (drop (length p) s)
                else c # remove_all p t)"
  by pat_completeness auto
termination
  by (relation "measure (length \<circ> snd)") (auto simp: neq_Nil_conv)

declare remove_all.simps [simp del]

definition strip_set :: "char set \<Rightarrow> string \<Rightarrow> string" where
  "strip_set cs s = rev (dropWhile (\<lambda>c. c \<in> cs) (rev (dropWhile (\<lambda>c. c \<in> cs) s)))"

text \<open>\<open>UUID(hex)\<close>; \<open>None\<close> is the \<open>ValueError\<close>.\<close>

definition uuid_parse :: "string \<Rightarrow> uuid option" where
  "uuid_parse hex =
     (let h = remove_all ''-'' (strip_set {CHR ''{'', CHR ''}''}
                 (remove_all ''uuid:'' (remove_all ''urn:'' hex)))
      in if length h \<noteq> 32 then None
         else case py_int 16 h of
                Some i \<Rightarrow> if 0 \<le> i \<and> i < 2 ^ 128 then Some (nat i) else None
              | None \<Rightarrow> None)"

section \<open>Lemmas\<close>

lemma strip_no_space: "\<forall>c\<in>set s. \<not> is_space c \<Longrightarrow> strip s = s"
proof -
  assume a: "\<forall>c\<in>set s. \<not> is_space c"
  have d: "dropWhile is_space t = t" if "\<forall>c\<in>set t. \<not> is_space c" for t
    using that by (cases t) auto
  from a show ?thesis by (simp add: strip_def lstrip_def d)
qed

lemma digit_in_10: "is_digit c \<Longrightarrow> digit_in 10 c = Some (digit_val c)"
  by (auto simp: digit_in_def is_digit_def digit_val_def Let_def)

lemma digits_in_10:
  "\<forall>c\<in>set s. is_digit c \<Longrightarrow> s \<noteq> [] \<or> prev \<Longrightarrow>
   digits_in 10 acc prev s = Some (foldl (\<lambda>n c. 10 * n + digit_val c) acc s)"
proof (induction s arbitrary: acc prev)
  case (Cons c s)
  then have "c \<noteq> CHR ''_''" by (auto simp: is_digit_def)
  with Cons show ?case by (simp add: digit_in_10)
qed simp

lemma is_digit_facts: "is_digit c \<Longrightarrow> \<not> is_space c \<and> c \<noteq> CHR ''-'' \<and> c \<noteq> CHR ''+'' \<and> c \<noteq> CHR '':''"
  by (auto simp: is_digit_def is_space_def)

text \<open>\<open>int(str(i)) = i\<close>.\<close>

lemma py_int_str_of_int [simp, py_text]: "py_int 10 (str_of_int i) = Some i"
proof -
  have dig: "\<forall>c\<in>set (digits_of n). is_digit c" for n
    using digits_of_digits by blast
  have val: "digits_in 10 0 False (digits_of n) = Some n" for n
    using digits_in_10 [OF dig, of n False 0] nat_of_digits_of [of n] by (simp add: nat_of_digits_def)
  have hd: "\<not> starts_with ''-'' (digits_of n) \<and> \<not> starts_with ''+'' (digits_of n)" for n
    using dig [of n] is_digit_facts by (cases "digits_of n") (auto simp: starts_with_def)
  have st: "strip (digits_of n) = digits_of n" "strip (CHR ''-'' # digits_of n) = CHR ''-'' # digits_of n" for n
    by (rule strip_no_space, use dig [of n] is_digit_facts in \<open>simp add: is_space_def\<close>)+
  show ?thesis
    using hd [of "nat i"]
    by (auto simp: py_int_def str_of_int_def st val drop_prefix_16_def Let_def starts_with_def)
qed

lemma length_hex_of [simp, py_text]: "length (hex_of w n) = w"
  by (induction w arbitrary: n) auto

lemma hex_digit_inj: "a < 16 \<Longrightarrow> b < 16 \<Longrightarrow> hex_digit a = hex_digit b \<longleftrightarrow> a = b"
proof -
  assume "a < 16" "b < 16"
  then have "ord_of (hex_digit a) = (if a < 10 then 48 + a else 87 + a)"
    and "ord_of (hex_digit b) = (if b < 10 then 48 + b else 87 + b)"
    by (simp_all add: hex_digit_def)
  moreover have "ord_of (hex_digit a) = ord_of (hex_digit b) \<longleftrightarrow> hex_digit a = hex_digit b"
    by simp
  ultimately show ?thesis by (simp split: if_splits)
qed

lemma hex_of_inj: "a < 16 ^ w \<Longrightarrow> b < 16 ^ w \<Longrightarrow> hex_of w a = hex_of w b \<Longrightarrow> a = b"
proof (induction w arbitrary: a b)
  case (Suc w)
  from Suc.prems have "hex_of w (a div 16) = hex_of w (b div 16)" and "a mod 16 = b mod 16"
    by (auto simp: hex_digit_inj)
  moreover have "a div 16 < 16 ^ w" "b div 16 < 16 ^ w"
    using Suc.prems by auto
  ultimately have "a div 16 = b div 16" "a mod 16 = b mod 16" using Suc.IH by auto
  then show ?case by (metis div_mult_mod_eq)
qed simp

lemma hex_parts:
  "take 8 h @ take 4 (drop 8 h) @ take 4 (drop 12 h) @ take 4 (drop 16 h) @ drop 20 h = (h :: string)"
proof -
  have td: "take k (drop m h) @ drop (k + m) h = drop m h" for k m and h :: string
    by (simp flip: drop_drop)
  show ?thesis using td [of 8 0 h] td [of 4 8 h] td [of 4 12 h] td [of 4 16 h] by simp
qed

lemma hex_digit_not_dash: "d < 16 \<Longrightarrow> hex_digit d \<noteq> CHR ''-''"
proof
  assume d: "d < 16" and "hex_digit d = CHR ''-''"
  then have "ord_of (hex_digit d) = 45" by simp
  with d show False by (auto simp: hex_digit_def split: if_splits)
qed

lemma hex_of_no_dash: "CHR ''-'' \<notin> set (hex_of w n)"
  by (induction w arbitrary: n) (auto simp: hex_digit_not_dash [symmetric])

lemma filter_uuid_str: "filter (\<lambda>c. c \<noteq> CHR ''-'') (uuid_str u) = hex_of 32 u"
proof -
  have "filter (\<lambda>c. c \<noteq> CHR ''-'') (take k (drop m (hex_of 32 u))) = take k (drop m (hex_of 32 u))"
    "filter (\<lambda>c. c \<noteq> CHR ''-'') (drop m (hex_of 32 u)) = drop m (hex_of 32 u)" for k m
    using hex_of_no_dash [of 32 u] by (auto simp: filter_id_conv dest!: in_set_takeD in_set_dropD)
  from this(1) [of 8 0] this(1) [of 4 8] this(1) [of 4 12] this(1) [of 4 16] this(2) [of 20]
  show ?thesis using hex_parts [of "hex_of 32 u"] by (simp add: uuid_str_def Let_def del: hex_of.simps)
qed

lemma uuid_str_inj:
  assumes "a < 2 ^ 128" "b < 2 ^ 128" "uuid_str a = uuid_str b"
  shows "a = b"
proof -
  let ?p = "\<lambda>h :: string. (take 8 h, take 4 (drop 8 h), take 4 (drop 12 h), take 4 (drop 16 h), drop 20 h)"
  have "?p (hex_of 32 a) = ?p (hex_of 32 b)"
    using assms(3) by (simp add: uuid_str_def Let_def)
  then have "hex_of 32 a = hex_of 32 b" by (metis hex_parts prod.inject)
  moreover have "(2 :: nat) ^ 128 = 16 ^ 32" by simp
  ultimately show ?thesis using assms(1,2) hex_of_inj by metis
qed

end
