(* ===== verification/Event_Auth.thy ===== *)
theory Event_Auth
  imports Py_Int
begin

text \<open>
  Authentication of ingest requests by DSN, \<open>apps/event_ingest/authentication.py\<close> with
  \<open>sentry/utils/auth.py\<close>: extraction of the key from a request, the block cache, the throttle
  lottery and the two ways to resolve a project (with a project id in the path, or by key alone).

  The services are arguments: \<open>cget\<close> and \<open>cset\<close> are the cache (\<open>aget\<close>, \<open>aset\<close> with a timeout),
  \<open>fetch\<close> the database row of the stored procedure, \<open>find_key\<close> the lookup of an active key,
  \<open>roll\<close> the successive values of \<open>random.randint(0, 100)\<close>. The state is passed explicitly: the
  cache, how many values were drawn, and the organizations queued for a throttle check.
\<close>

section \<open>Data\<close>

record organization_info =
  org_id :: int
  org_is_accepting_events :: bool
  org_throttle_rate :: int
  org_scrub_ip_addresses :: bool

record project_auth_info =
  project_id :: int
  project_scrub_ip_addresses :: bool
  project_throttle_rate :: int
  organization_id :: int
  first_event :: "datetime option"
  organization :: organization_info
  project_scrub_config :: json

definition should_scrub_ip_addresses :: "project_auth_info \<Rightarrow> bool" where
  "should_scrub_ip_addresses p \<longleftrightarrow>
     project_scrub_ip_addresses p \<or> org_scrub_ip_addresses (organization p)"

text \<open>
  A request: the query parameters in order, each with its values, the headers, and the project id
  captured from the path, if a route matched. A lookup in the query gives the last value.
\<close>

record http_request =
  GET :: "(string \<times> string list) list"
  META :: "(string, string) dict"
  resolver_match :: "int option"

datatype auth_error =
    AuthenticationError string
  | ValidationError string
  | ThrottleException int
  | HttpError nat string
  | UncaughtValueError

record 'c ingest_state =
  cache :: 'c
  drawn :: nat
  enqueued :: "int list"

type_synonym project_row =
  "int \<times> bool \<times> int \<times> int \<times> bool \<times> int \<times> bool \<times> datetime option \<times> json"

section \<open>The key of a request\<close>

definition split_once :: "char \<Rightarrow> string \<Rightarrow> string list" where
  "split_once d s = (if d \<in> set s then [takeWhile (\<lambda>c. c \<noteq> d) s, drop 1 (dropWhile (\<lambda>c. c \<noteq> d) s)] else [s])"

definition make_key_value :: "string \<Rightarrow> string list" where
  "make_key_value val = split_once (CHR ''='') (strip val)"

definition parse_auth_header :: "string \<Rightarrow> (string, string) dict" where
  "parse_auth_header header =
     (let parts = split_once (CHR '' '') header in
      if length parts < 2 then []
      else (let kvs = map make_key_value (split_char (CHR '','') (parts ! 1)) in
            if \<exists>kv\<in>set kvs. length kv \<noteq> 2 then []
            else fold (\<lambda>kv d. dset d (kv ! 0) (kv ! 1)) kvs []))"

definition auth_from_request :: "http_request \<Rightarrow> auth_error + string option" where
  "auth_from_request request =
     (case filter (\<lambda>kv. fst kv \<in> {''sentry_key'', ''glitchtip_key''}) (GET request) of
        kv # _ \<Rightarrow> Inr (Some (last (snd kv)))
      | [] \<Rightarrow>
        (let authorization = (case map_of (META request) ''HTTP_AUTHORIZATION'' of None \<Rightarrow> [] | Some v \<Rightarrow> v) in
         if lower (take 7 authorization) = ''bearer '' then Inr (Some (strip (drop 7 authorization)))
         else
           (case (case map_of (META request) ''HTTP_X_SENTRY_AUTH'' of
                    Some v \<Rightarrow> Some v | None \<Rightarrow> map_of (META request) ''HTTP_AUTHORIZATION'') of
              Some auth_header \<Rightarrow>
                if auth_header = [] then Inl (AuthenticationError ''Unable to find authentication information'')
                else (let result = parse_auth_header auth_header in
                      Inr (case map_of result ''sentry_key'' of
                             Some k \<Rightarrow> Some k | None \<Rightarrow> map_of result ''glitchtip_key''))
            | None \<Rightarrow> Inl (AuthenticationError ''Unable to find authentication information''))))"

text \<open>\<open>UUID(auth_from_request(request))\<close>: \<open>None\<close> is the \<open>ValueError\<close> or \<open>TypeError\<close>.\<close>

definition request_key :: "http_request \<Rightarrow> auth_error + uuid option" where
  "request_key request =
     (case auth_from_request request of
        Inl e \<Rightarrow> Inl e
      | Inr None \<Rightarrow> Inr None
      | Inr (Some k) \<Rightarrow> Inr (uuid_parse k))"

section \<open>Throttle values\<close>

definition EVENT_BLOCK_CACHE_KEY :: string where
  "EVENT_BLOCK_CACHE_KEY = ''event_block''"

definition REJECTION_WAIT :: int where
  "REJECTION_WAIT = 30"

definition invalid_dsn :: auth_error where
  "invalid_dsn = AuthenticationError ''Invalid DSN''"

definition serialize_throttle :: "int \<Rightarrow> int \<Rightarrow> string" where
  "serialize_throttle org_throttle project_throttle =
     ''t:'' @ str_of_int org_throttle @ '':'' @ str_of_int project_throttle"

text \<open>
  \<open>deserialize_throttle\<close>. A \<open>ValueError\<close> of \<open>int\<close> is the error \<open>Inl\<close>; \<open>Inr None\<close> is the value
  \<open>None\<close>. The text after \<open>t:\<close> is split at its first colon, as \<open>split(":", 2)\<close> does.
\<close>

definition deserialize_throttle :: "string \<Rightarrow> unit + (int \<times> int) option" where
  "deserialize_throttle inp =
     (if inp = ''t'' then Inr (Some (0, 0))
      else if starts_with ''t:'' inp then
        (let parts = split_once (CHR '':'') (drop 2 inp) in
         if length parts = 2 then
           (case (py_int 10 (parts ! 0), py_int 10 (parts ! 1)) of
              (Some a, Some b) \<Rightarrow> Inr (Some (a, b)) | _ \<Rightarrow> Inl ())
         else Inr None)
      else Inr None)"

definition is_accepting_events :: "(nat \<Rightarrow> int) \<Rightarrow> nat \<Rightarrow> int \<Rightarrow> bool \<times> nat" where
  "is_accepting_events roll n throttle_rate =
     (if throttle_rate = 0 then (True, n) else (roll n > throttle_rate, Suc n))"

text \<open>
  \<open>not is_accepting_events(org) or not is_accepting_events(project)\<close>, with the short circuit.
\<close>

definition throttled :: "(nat \<Rightarrow> int) \<Rightarrow> nat \<Rightarrow> int \<Rightarrow> int \<Rightarrow> bool \<times> nat" where
  "throttled roll n org_throttle project_throttle =
     (let (a, n1) = is_accepting_events roll n org_throttle in
      if \<not> a then (True, n1)
      else (let (b, n2) = is_accepting_events roll n1 project_throttle in (\<not> b, n2)))"

text \<open>
  \<open>math.ceil(0.02 * throttle ** 2.3)\<close> for a rate that is not negative, by exact arithmetic: the
  least \<open>k\<close> with \<open>(50 k)^10 \<ge> throttle^23\<close>.
\<close>

function retry_search :: "nat \<Rightarrow> nat \<Rightarrow> nat" where
  "retry_search t k = (if (50 * k) ^ 10 < t ^ 23 then retry_search t (Suc k) else k)"
  by pat_completeness auto
termination
proof (relation "measure (\<lambda>(t, k). t ^ 3 - k)")
  fix t k :: nat
  assume "(50 * k) ^ 10 < t ^ 23"
  moreover have "t ^ 23 \<le> (t ^ 3) ^ 10"
    by (cases "t = 0") (simp_all flip: power_mult add: power_increasing)
  moreover have "k ^ 10 \<le> (50 * k) ^ 10" by (rule power_mono) simp_all
  ultimately have "k ^ 10 < (t ^ 3) ^ 10" by linarith
  then have "k < t ^ 3" by (rule power_less_imp_less_base) simp
  then show "((t, Suc k), t, k) \<in> measure (\<lambda>(t, k). t ^ 3 - k)" by simp
qed simp

declare retry_search.simps [simp del]

definition calculate_retry_after :: "int \<Rightarrow> int" where
  "calculate_retry_after throttle = int (retry_search (nat throttle) 0)"

section \<open>The database row\<close>

text \<open>\<open>get_project_auth_info_row\<close>: a failing read-only database falls back to the default one.\<close>

definition get_project_auth_info_row ::
    "bool \<Rightarrow> (string \<Rightarrow> int \<Rightarrow> uuid \<Rightarrow> 'e + project_row option) \<Rightarrow> int \<Rightarrow> uuid \<Rightarrow> 'e + project_row option" where
  "get_project_auth_info_row has_read_only fetchone pid sentry_key =
     (if has_read_only then
        (case fetchone ''read_only'' pid sentry_key of
           Inr r \<Rightarrow> Inr r
         | Inl _ \<Rightarrow> fetchone ''default'' pid sentry_key)
      else fetchone ''default'' pid sentry_key)"

definition info_of_row :: "project_row \<Rightarrow> project_auth_info" where
  "info_of_row = (\<lambda>(i, scrub, rate, oid, acc, orate, oscrub, fe, sc).
     \<lparr>project_id = i, project_scrub_ip_addresses = scrub, project_throttle_rate = rate,
      organization_id = oid, first_event = fe,
      organization = \<lparr>org_id = oid, org_is_accepting_events = acc, org_throttle_rate = orate,
                      org_scrub_ip_addresses = oscrub\<rparr>,
      project_scrub_config = sc\<rparr>)"

section \<open>get_project and get_project_by_key\<close>

definition block_cache_key :: "int \<Rightarrow> string" where
  "block_cache_key pid = EVENT_BLOCK_CACHE_KEY @ str_of_int pid"

definition dsn_block_cache_key :: "int \<Rightarrow> uuid \<Rightarrow> string" where
  "dsn_block_cache_key pid sentry_key = block_cache_key pid @ '':'' @ uuid_str sentry_key"

definition otlp_block_cache_key :: "uuid \<Rightarrow> string" where
  "otlp_block_cache_key sentry_key = EVENT_BLOCK_CACHE_KEY @ ''otlp:'' @ uuid_str sentry_key"

text \<open>The settings the two functions read; \<open>rnd\<close> is the value of \<open>random.random()\<close>.\<close>

record auth_settings =
  MAINTENANCE_EVENT_FREEZE :: bool
  BILLING_ENABLED :: bool
  THROTTLE_CHECK_INTERVAL :: nat

text \<open>
  What both functions do once the project is known: reject a blocked or fully throttled project
  (with the value \<open>full\<close> cached), record and apply partial rates, then sample the throttle check.
\<close>

definition admit_project ::
    "('c \<Rightarrow> string \<Rightarrow> string \<Rightarrow> int \<Rightarrow> 'c) \<Rightarrow> (nat \<Rightarrow> int) \<Rightarrow> auth_settings \<Rightarrow> rat \<Rightarrow> string \<Rightarrow> string
     \<Rightarrow> project_auth_info \<Rightarrow> 'c ingest_state \<Rightarrow> (auth_error + project_auth_info) \<times> 'c ingest_state" where
  "admit_project cset roll stg rnd full bkey project st =
     (let org = organization project;
          orate = org_throttle_rate org; prate = project_throttle_rate project in
      if \<not> org_is_accepting_events org \<or> orate = 100 \<or> prate = 100
      then (Inl (ThrottleException 600), st\<lparr>cache := cset (cache st) bkey full REJECTION_WAIT\<rparr>)
      else
        (let (rej, st1) =
           (if orate \<noteq> 0 \<or> prate \<noteq> 0
            then (let (b, n) = throttled roll (drawn st) orate prate in
                  (b, st\<lparr>cache := cset (cache st) bkey (serialize_throttle orate prate) REJECTION_WAIT,
                         drawn := n\<rparr>))
            else (False, st)) in
         if rej then (Inl (ThrottleException (calculate_retry_after (max orate prate))), st1)
         else (Inr project,
               if BILLING_ENABLED stg \<and> rnd < 1 / of_nat (THROTTLE_CHECK_INTERVAL stg)
               then st1\<lparr>enqueued := enqueued st1 @ [organization_id project]\<rparr> else st1)))"

text \<open>
  The cached throttle: \<open>None\<close> lets the request through, \<open>Some\<close> is the exception. A cached text
  whose rates do not parse raises \<open>ValueError\<close>, which no handler of the request catches.
\<close>

definition cached_throttle ::
    "(nat \<Rightarrow> int) \<Rightarrow> string option \<Rightarrow> 'c ingest_state \<Rightarrow> auth_error option \<times> 'c ingest_state" where
  "cached_throttle roll block_value st =
     (case block_value of
        None \<Rightarrow> (None, st)
      | Some v \<Rightarrow>
        (case deserialize_throttle v of
           Inl _ \<Rightarrow> (Some UncaughtValueError, st)
         | Inr None \<Rightarrow> (None, st)
         | Inr (Some (o_t, p_t)) \<Rightarrow>
             (let (b, n) = throttled roll (drawn st) o_t p_t in
              (if b then Some (ThrottleException (calculate_retry_after (max o_t p_t))) else None,
               st\<lparr>drawn := n\<rparr>))))"

definition get_project ::
    "('c \<Rightarrow> string \<Rightarrow> string option) \<Rightarrow> ('c \<Rightarrow> string \<Rightarrow> string \<Rightarrow> int \<Rightarrow> 'c) \<Rightarrow> (nat \<Rightarrow> int)
     \<Rightarrow> (int \<Rightarrow> uuid \<Rightarrow> project_row option) \<Rightarrow> auth_settings \<Rightarrow> rat \<Rightarrow> http_request \<Rightarrow> 'c ingest_state
     \<Rightarrow> (auth_error + project_auth_info) \<times> 'c ingest_state" where
  "get_project cget cset roll fetch stg rnd request st =
     (case resolver_match request of
        None \<Rightarrow> (Inl (ValidationError ''Invalid project ID''), st)
      | Some pid \<Rightarrow>
        (case request_key request of
           Inl e \<Rightarrow> (Inl e, st)
         | Inr None \<Rightarrow> (Inl (ValidationError ''dsn key badly formed hexadecimal UUID string''), st)
         | Inr (Some sentry_key) \<Rightarrow>
           (let bkey = block_cache_key pid; dkey = dsn_block_cache_key pid sentry_key;
                blocked = cget (cache st) bkey; dsn_blocked = cget (cache st) dkey;
                (e, st1) = cached_throttle roll blocked st in
            case e of
              Some err \<Rightarrow> (Inl err, st1)
            | None \<Rightarrow>
              if dsn_blocked = Some ''v'' then (Inl invalid_dsn, st1)
              else (case fetch pid sentry_key of
                      None \<Rightarrow> (Inl invalid_dsn, st1\<lparr>cache := cset (cache st1) dkey ''v'' REJECTION_WAIT\<rparr>)
                    | Some row \<Rightarrow> admit_project cset roll stg rnd ''t'' bkey (info_of_row row) st1))))"

definition get_project_by_key ::
    "('c \<Rightarrow> string \<Rightarrow> string option) \<Rightarrow> ('c \<Rightarrow> string \<Rightarrow> string \<Rightarrow> int \<Rightarrow> 'c) \<Rightarrow> (nat \<Rightarrow> int)
     \<Rightarrow> (uuid \<Rightarrow> project_auth_info option) \<Rightarrow> auth_settings \<Rightarrow> rat \<Rightarrow> http_request \<Rightarrow> 'c ingest_state
     \<Rightarrow> (auth_error + project_auth_info) \<times> 'c ingest_state" where
  "get_project_by_key cget cset roll find_key stg rnd request st =
     (if MAINTENANCE_EVENT_FREEZE stg
      then (Inl (HttpError 503 ''Events are not currently being accepted due to maintenance.''), st)
      else case request_key request of
        Inl e \<Rightarrow> (Inl e, st)
      | Inr None \<Rightarrow> (Inl (AuthenticationError ''dsn key badly formed hexadecimal UUID string''), st)
      | Inr (Some sentry_key) \<Rightarrow>
        (let bkey = otlp_block_cache_key sentry_key; cached = cget (cache st) bkey in
         if cached = Some ''v'' then (Inl invalid_dsn, st)
         else
           (let (e, st1) = cached_throttle roll cached st in
            case e of
              Some err \<Rightarrow> (Inl err, st1)
            | None \<Rightarrow>
              (case find_key sentry_key of
                 None \<Rightarrow> (Inl invalid_dsn, st1\<lparr>cache := cset (cache st1) bkey ''v'' REJECTION_WAIT\<rparr>)
               | Some info \<Rightarrow>
                   admit_project cset roll stg rnd (serialize_throttle 100 100) bkey info st1))))"

definition event_auth where
  "event_auth cget cset roll fetch stg rnd request st =
     (if MAINTENANCE_EVENT_FREEZE stg
      then (Inl (HttpError 503 ''Events are not currently being accepted due to maintenance.''), st)
      else get_project cget cset roll fetch stg rnd request st)"


section \<open>Lemmas\<close>

lemma split_once_append: "d \<notin> set a \<Longrightarrow> split_once d (a @ d # b) = [a, b]"
proof -
  assume d: "d \<notin> set a"
  then have "takeWhile (\<lambda>c. c \<noteq> d) (a @ d # b) = a" by (subst takeWhile_append2) auto
  moreover from d have "dropWhile (\<lambda>c. c \<noteq> d) (a @ d # b) = d # b" by (subst dropWhile_append2) auto
  ultimately show ?thesis by (simp add: split_once_def)
qed

lemma colon_not_in_str_of_int: "CHR '':'' \<notin> set (str_of_int i)"
  using digits_of_digits is_digit_facts by (auto simp: str_of_int_def)

lemma deserialize_serialize: "deserialize_throttle (serialize_throttle a b) = Inr (Some (a, b))"
proof -
  have "drop 2 (serialize_throttle a b) = str_of_int a @ CHR '':'' # str_of_int b"
    by (simp add: serialize_throttle_def)
  then show ?thesis
    by (simp add: deserialize_throttle_def split_once_append colon_not_in_str_of_int)
       (simp add: serialize_throttle_def starts_with_def)
qed

lemma retry_search_bounds:
  "t ^ 23 \<le> (50 * retry_search t k) ^ 10 \<and> k \<le> retry_search t k \<and>
   (\<forall>j. k \<le> j \<and> j < retry_search t k \<longrightarrow> (50 * j) ^ 10 < t ^ 23)"
proof (induction t k rule: retry_search.induct)
  case (1 t k)
  show ?case
  proof (cases "(50 * k) ^ 10 < t ^ 23")
    case True
    then have r: "retry_search t k = retry_search t (Suc k)" by (subst retry_search.simps) simp
    from "1.IH" [OF True] show ?thesis
      unfolding r using True by (metis Suc_leD le_neq_implies_less Suc_leI)
  next
    case False
    then have "retry_search t k = k" by (subst retry_search.simps) simp
    with False show ?thesis by simp
  qed
qed

lemma powr_23: "(real t powr (23 / 10)) ^ 10 = real t ^ 23"
proof (cases "t = 0")
  case False
  then have "(real t powr (23 / 10)) ^ 10 = real t powr (23 / 10 * 10)"
    by (simp add: powr_power)
  also have "\<dots> = real t ^ 23" using False powr_realpow [of "real t" 23] by simp
  finally show ?thesis .
qed simp

lemma le_root_10:
  "t ^ 23 \<le> (50 * k) ^ 10 \<longleftrightarrow> 2 / 100 * real t powr (23 / 10) \<le> real k"
proof -
  have "t ^ 23 \<le> (50 * k) ^ 10 \<longleftrightarrow> real t ^ 23 \<le> (50 * real k) ^ 10"
    by (subst of_nat_le_iff [where 'a = real, symmetric])
       (simp only: of_nat_power of_nat_mult of_nat_numeral)
  also have "\<dots> \<longleftrightarrow> (real t powr (23 / 10)) ^ 10 \<le> (50 * real k) ^ 10"
    by (simp only: powr_23)
  also have "\<dots> \<longleftrightarrow> real t powr (23 / 10) \<le> 50 * real k"
    by (rule power_mono_iff) auto
  finally show ?thesis by auto
qed

lemma retry_search_ceiling: "int (retry_search t 0) = \<lceil>2 / 100 * real t powr (23 / 10)\<rceil>"
proof (rule ceiling_unique [symmetric])
  let ?r = "retry_search t 0"
  show "2 / 100 * real t powr (23 / 10) \<le> real_of_int (int ?r)"
    using retry_search_bounds [of t 0] le_root_10 by simp
  show "real_of_int (int ?r) - 1 < 2 / 100 * real t powr (23 / 10)"
  proof (cases ?r)
    case 0
    have "(0 :: real) \<le> 2 / 100 * real t powr (23 / 10)" by simp
    with 0 show ?thesis by linarith
  next
    case (Suc j)
    then have "\<not> t ^ 23 \<le> (50 * j) ^ 10" using retry_search_bounds [of t 0] by (auto simp: not_le)
    then show ?thesis unfolding le_root_10 Suc by simp
  qed
qed

subsection \<open>Cache keys\<close>

lemma uuid_parse_range: "uuid_parse s = Some u \<Longrightarrow> u < 2 ^ 128"
  by (auto simp: uuid_parse_def Let_def nat_less_iff split: if_splits option.splits)

lemma request_key_range: "request_key r = Inr (Some u) \<Longrightarrow> u < 2 ^ 128"
  by (auto simp: request_key_def dest: uuid_parse_range split: sum.splits option.splits)

lemma append_sep_inj:
  "d \<notin> set a \<Longrightarrow> d \<notin> set b \<Longrightarrow> a @ d # x = b @ d # y \<longleftrightarrow> a = b \<and> x = y"
proof (induction a arbitrary: b)
  case Nil
  then show ?case by (cases b) auto
next
  case (Cons c a)
  then show ?case by (cases b) auto
qed

lemma dsn_key_inj:
  assumes "k < 2 ^ 128" and "k' < 2 ^ 128"
  shows "dsn_block_cache_key p k = dsn_block_cache_key p' k' \<longleftrightarrow> p = p' \<and> k = k'"
proof -
  have "CHR '':'' \<notin> set (block_cache_key q)" for q
    by (simp add: block_cache_key_def EVENT_BLOCK_CACHE_KEY_def colon_not_in_str_of_int)
  then have "dsn_block_cache_key p k = dsn_block_cache_key p' k' \<longleftrightarrow>
      block_cache_key p = block_cache_key p' \<and> uuid_str k = uuid_str k'"
    by (simp add: dsn_block_cache_key_def append_sep_inj)
  then show ?thesis using uuid_str_inj [OF assms] by (auto simp: block_cache_key_def)
qed

lemma dsn_key_ne_block_key: "dsn_block_cache_key p k \<noteq> block_cache_key p'"
proof
  assume "dsn_block_cache_key p k = block_cache_key p'"
  then have "CHR '':'' \<in> set (block_cache_key p')"
    by (metis dsn_block_cache_key_def append.assoc append_Cons in_set_conv_decomp)
  then show False
    by (simp add: block_cache_key_def EVENT_BLOCK_CACHE_KEY_def colon_not_in_str_of_int)
qed

subsection \<open>Admission\<close>

lemmas admit_simps = admit_project_def Let_def split_beta

lemma admit_project_accepts:
  "fst (admit_project cset roll stg rnd full bkey p st) = Inr q \<Longrightarrow>
   q = p \<and> org_is_accepting_events (organization p) \<and> org_throttle_rate (organization p) \<noteq> 100
     \<and> project_throttle_rate p \<noteq> 100"
  by (auto simp: admit_simps split: if_splits)

lemma get_project_live:
  assumes "fst (get_project cget cset roll fetch stg rnd r st) = Inr p"
  shows "\<exists>pid k row. resolver_match r = Some pid \<and> request_key r = Inr (Some k)
    \<and> fetch pid k = Some row \<and> p = info_of_row row
    \<and> org_is_accepting_events (organization p) \<and> org_throttle_rate (organization p) \<noteq> 100
    \<and> project_throttle_rate p \<noteq> 100
    \<and> cget (cache st) (dsn_block_cache_key pid k) \<noteq> Some ''v''"
proof -
  obtain pid k where pk: "resolver_match r = Some pid" "request_key r = Inr (Some k)"
    using assms by (auto simp: get_project_def split: option.splits sum.splits)
  let ?c = "cached_throttle roll (cget (cache st) (block_cache_key pid)) st"
  obtain row where row: "fetch pid k = Some row"
    and adm: "fst (admit_project cset roll stg rnd ''t'' (block_cache_key pid) (info_of_row row) (snd ?c)) = Inr p"
    and v: "cget (cache st) (dsn_block_cache_key pid k) \<noteq> Some ''v''"
    using assms by (auto simp: get_project_def pk Let_def split_beta split: option.splits if_splits)
  from admit_project_accepts [OF adm] pk row v show ?thesis by blast
qed

lemma get_project_by_key_live:
  assumes "fst (get_project_by_key cget cset roll find_key stg rnd r st) = Inr p"
  shows "\<exists>k. request_key r = Inr (Some k) \<and> find_key k = Some p
    \<and> org_is_accepting_events (organization p) \<and> org_throttle_rate (organization p) \<noteq> 100
    \<and> project_throttle_rate p \<noteq> 100"
  using assms
  by (auto simp: get_project_by_key_def Let_def case_prod_unfold dest: admit_project_accepts split: option.splits sum.splits if_splits)

text \<open>A cached rate of 100 rejects every request, whatever is drawn.\<close>

lemma throttled_full:
  assumes "\<forall>n. 0 \<le> roll n \<and> roll n \<le> 100"
  shows "throttled roll n 100 p = (True, Suc n)"
proof -
  have "\<not> roll n > 100" using assms by (simp add: not_less)
  then show ?thesis by (simp add: throttled_def is_accepting_events_def)
qed

lemma cached_throttle_full:
  assumes "\<forall>n. 0 \<le> roll n \<and> roll n \<le> 100"
  shows "cached_throttle roll (Some (serialize_throttle 100 100)) st
    = (Some (ThrottleException (calculate_retry_after 100)), st\<lparr>drawn := Suc (drawn st)\<rparr>)"
  by (simp add: cached_throttle_def deserialize_serialize throttled_full [OF assms])

lemma cached_throttle_cache: "cache (snd (cached_throttle roll v st)) = cache st"
  by (auto simp: cached_throttle_def Let_def split_beta split: option.splits sum.splits)

lemma cached_throttle_cong:
  "drawn st = drawn st' \<Longrightarrow> fst (cached_throttle roll v st) = fst (cached_throttle roll v st')"
  "drawn st = drawn st' \<Longrightarrow> drawn (snd (cached_throttle roll v st)) = drawn (snd (cached_throttle roll v st'))"
  by (auto simp: cached_throttle_def Let_def split_beta split: option.splits sum.splits)

lemma admit_project_cong:
  "drawn st = drawn st' \<Longrightarrow> fst (admit_project cset roll stg rnd full bkey p st)
     = fst (admit_project cset roll stg rnd full bkey p st')"
  by (auto simp: admit_simps)

text \<open>The answer depends on the cache only through the two entries of the request.\<close>

lemma get_project_cong:
  assumes r: "resolver_match r = Some pid" "request_key r = Inr (Some k)"
    and "drawn st = drawn st'"
    and "cget (cache st) (block_cache_key pid) = cget (cache st') (block_cache_key pid)"
    and "cget (cache st) (dsn_block_cache_key pid k) = cget (cache st') (dsn_block_cache_key pid k)"
  shows "fst (get_project cget cset roll fetch stg rnd r st) = fst (get_project cget cset roll fetch stg rnd r st')"
proof -
  let ?v = "cget (cache st) (block_cache_key pid)"
  have c: "fst (cached_throttle roll ?v st) = fst (cached_throttle roll ?v st')"
    "drawn (snd (cached_throttle roll ?v st)) = drawn (snd (cached_throttle roll ?v st'))"
    using cached_throttle_cong assms(3) by blast+
  show ?thesis
    using c admit_project_cong [OF c(2)]
    by (simp add: get_project_def r assms(4,5) [symmetric] Let_def split_beta split: option.splits)
qed

section \<open>Properties\<close>

text \<open>
  Further property. The cached form of a pair of throttle rates reads back as the same pair.
\<close>

theorem throttle_roundtrip:
  "deserialize_throttle (serialize_throttle org_throttle project_throttle)
     = Inr (Some (org_throttle, project_throttle))"
  by (rule deserialize_serialize)

text \<open>
  Property C8. A request is only ever let through with the project that the database holds for
  the project id of the path and the key of the request, when the organization accepts events
  and neither rate is a full throttle, and never while an invalid-key block is cached for it.
\<close>

theorem get_project_accepts_only_live:
  assumes "fst (get_project cget cset roll fetch stg rnd r st) = Inr p"
  shows "\<exists>pid k row. resolver_match r = Some pid \<and> request_key r = Inr (Some k)
    \<and> fetch pid k = Some row \<and> p = info_of_row row
    \<and> org_is_accepting_events (organization p) \<and> org_throttle_rate (organization p) \<noteq> 100
    \<and> project_throttle_rate p \<noteq> 100
    \<and> cget (cache st) (dsn_block_cache_key pid k) \<noteq> Some ''v''"
  using assms by (rule get_project_live)

text \<open>A concrete set-up for the instances: a cache that is a map, two keys, one project.\<close>

definition demo_request :: "int \<Rightarrow> string \<Rightarrow> http_request" where
  "demo_request pid key = \<lparr>GET = [(''sentry_key'', [key])], META = [], resolver_match = Some pid\<rparr>"

definition demo_row :: project_row where
  "demo_row = (7, False, 0, 3, True, 40, True, None, JNone)"

definition demo_settings :: auth_settings where
  "demo_settings = \<lparr>MAINTENANCE_EVENT_FREEZE = False, BILLING_ENABLED = True, THROTTLE_CHECK_INTERVAL = 5000\<rparr>"

definition demo_state :: "(string \<Rightarrow> string option) ingest_state" where
  "demo_state = \<lparr>cache = (\<lambda>_. None), drawn = 0, enqueued = []\<rparr>"

definition demo_fetch :: "int \<Rightarrow> uuid \<Rightarrow> project_row option" where
  "demo_fetch pid k = (if pid = 7 \<and> k = 1 then Some demo_row else None)"

abbreviation "good_key \<equiv> ''00000000-0000-0000-0000-000000000001''"
abbreviation "bad_key \<equiv> ''00000000000000000000000000000002''"

lemma demo_request_key:
  "request_key (demo_request pid good_key) = Inr (Some 1)"
  "request_key (demo_request pid bad_key) = Inr (Some 2)"
  by (simp_all add: request_key_def auth_from_request_def demo_request_def) code_simp+

lemma demo_request_match: "resolver_match (demo_request pid key) = Some pid"
  by (simp add: demo_request_def)

lemma demo_accepted:
  "fst (get_project (\<lambda>c. c) (\<lambda>c k v _. c(k \<mapsto> v)) (\<lambda>_. 90) demo_fetch demo_settings (1 / 2)
     (demo_request 7 good_key) demo_state) = Inr (info_of_row demo_row)"
  by (simp add: get_project_def demo_request_match demo_request_key demo_state_def cached_throttle_def
      demo_fetch_def demo_row_def info_of_row_def admit_project_def throttled_def is_accepting_events_def
      demo_settings_def Let_def)

theorem get_project_accepts_only_live_witness:
  "\<exists>pid k row. demo_fetch pid k = Some row \<and> info_of_row demo_row = info_of_row row
     \<and> org_throttle_rate (organization (info_of_row demo_row)) \<noteq> 100"
  using get_project_accepts_only_live [OF demo_accepted] by blast

text \<open>
  Property C15. One bad key does not lock out anyone else: after a request whose key the database
  does not know, every request for another project or with another key gets the answer it would
  have got without that request (same draws), for a cache in which a write changes one entry.
\<close>

theorem invalid_dsn_block_is_scoped:
  assumes cache: "\<And>c k v ttl k'. cget (cset c k v ttl) k' = (if k' = k then Some v else cget c k')"
    and r: "resolver_match r = Some pid" "request_key r = Inr (Some k)" "fetch pid k = None"
    and r': "resolver_match r' = Some pid'" "request_key r' = Inr (Some k')" "(pid', k') \<noteq> (pid, k)"
  shows "let st' = snd (get_project cget cset roll fetch stg rnd r st) in
    fst (get_project cget cset roll fetch stg rnd r' st')
      = fst (get_project cget cset roll fetch stg rnd r' (st\<lparr>drawn := drawn st'\<rparr>))"
proof -
  define st' where "st' = snd (get_project cget cset roll fetch stg rnd r st)"
  have st': "cget (cache st') key = cget (cache st) key" if "key \<noteq> dsn_block_cache_key pid k" for key
    using that unfolding st'_def
    by (simp add: get_project_def r cache Let_def split_beta cached_throttle_cache split: option.splits)
  have "dsn_block_cache_key pid' k' \<noteq> dsn_block_cache_key pid k"
    using dsn_key_inj request_key_range r(2) r'(2,3) by blast
  then have "fst (get_project cget cset roll fetch stg rnd r' st')
      = fst (get_project cget cset roll fetch stg rnd r' (st\<lparr>drawn := drawn st'\<rparr>))"
    using dsn_key_ne_block_key [THEN not_sym] by (intro get_project_cong [OF r'(1,2)]) (simp_all add: st')
  then show ?thesis by (simp add: Let_def st'_def)
qed

theorem invalid_dsn_block_is_scoped_witness:
  "let cset = (\<lambda>c k v _. c(k \<mapsto> v));
       st' = snd (get_project (\<lambda>c. c) cset (\<lambda>_. 90) demo_fetch demo_settings (1 / 2)
               (demo_request 7 bad_key) demo_state) in
   fst (get_project (\<lambda>c. c) cset (\<lambda>_. 90) demo_fetch demo_settings (1 / 2) (demo_request 7 good_key) st')
     = fst (get_project (\<lambda>c. c) cset (\<lambda>_. 90) demo_fetch demo_settings (1 / 2) (demo_request 7 good_key)
         (demo_state\<lparr>drawn := drawn st'\<rparr>))"
  using invalid_dsn_block_is_scoped [where cget = "\<lambda>c. c" and cset = "\<lambda>c k v _. c(k \<mapsto> v)"
      and r = "demo_request 7 bad_key" and r' = "demo_request 7 good_key" and pid = 7 and pid' = 7
      and k = 2 and k' = 1 and fetch = demo_fetch and st = demo_state and roll = "\<lambda>_. 90"
      and stg = demo_settings and rnd = "1 / 2"]
  by (simp add: demo_request_match demo_request_key demo_fetch_def Let_def)

text \<open>
  Further property. On the OTLP path a full throttle is rejected cheaply: once a request was answered
  with the full-throttle rejection, the next request with the same key is rejected from the cache,
  whatever the database would answer and whatever is drawn.
\<close>

theorem otlp_full_throttle_is_cached:
  assumes cache: "\<And>c k v ttl k'. cget (cset c k v ttl) k' = (if k' = k then Some v else cget c k')"
    and roll: "\<forall>n. 0 \<le> roll n \<and> roll n \<le> 100"
    and frozen: "\<not> MAINTENANCE_EVENT_FREEZE stg"
    and key: "request_key r = Inr (Some k)" "request_key r' = Inr (Some k)"
    and live: "cget (cache st) (otlp_block_cache_key k) = None" "find_key k = Some info"
    and full: "\<not> org_is_accepting_events (organization info) \<or> org_throttle_rate (organization info) = 100
      \<or> project_throttle_rate info = 100"
  shows "let (res, st') = get_project_by_key cget cset roll find_key stg rnd r st in
    res = Inl (ThrottleException 600) \<and>
    fst (get_project_by_key cget cset roll any_find stg rnd' r' st')
      = Inl (ThrottleException (calculate_retry_after 100))"
proof -
  have first: "get_project_by_key cget cset roll find_key stg rnd r st
      = (Inl (ThrottleException 600),
         st\<lparr>cache := cset (cache st) (otlp_block_cache_key k) (serialize_throttle 100 100) REJECTION_WAIT\<rparr>)"
    using frozen key live full
    by (simp add: get_project_by_key_def cached_throttle_def admit_project_def Let_def)
  have "serialize_throttle 100 100 \<noteq> ''v''" by (simp add: serialize_throttle_def)
  then show ?thesis
    unfolding first using frozen key
    by (simp add: get_project_by_key_def cache cached_throttle_full [OF roll] Let_def)
qed

definition demo_blocked :: project_auth_info where
  "demo_blocked = info_of_row (7, False, 0, 3, False, 0, True, None, JNone)"

theorem otlp_full_throttle_is_cached_witness:
  "let (res, st') = get_project_by_key (\<lambda>c. c) (\<lambda>c k v _. c(k \<mapsto> v)) (\<lambda>_. 90) (\<lambda>_. Some demo_blocked)
         demo_settings (1 / 2) (demo_request 7 good_key) demo_state in
   res = Inl (ThrottleException 600) \<and>
   fst (get_project_by_key (\<lambda>c. c) (\<lambda>c k v _. c(k \<mapsto> v)) (\<lambda>_. 90) (\<lambda>_. None) demo_settings (1 / 2)
         (demo_request 7 good_key) st') = Inl (ThrottleException (calculate_retry_after 100))"
  by (rule otlp_full_throttle_is_cached [where k = 1 and info = demo_blocked])
     (simp_all add: demo_request_key demo_settings_def demo_state_def demo_blocked_def info_of_row_def)

text \<open>
  Further property. The retry delay is the power function of the code computed exactly: the ceiling of
  \<open>0.02 * throttle ^ 2.3\<close>, for every rate.
\<close>

theorem retry_after_is_power_function:
  assumes "0 \<le> throttle"
  shows "calculate_retry_after throttle = \<lceil>2 / 100 * real_of_int throttle powr (23 / 10)\<rceil>"
  using assms retry_search_ceiling [of "nat throttle"] by (simp add: calculate_retry_after_def)

theorem retry_after_is_power_function_witness:
  "calculate_retry_after 10 = 4 \<and> \<lceil>2 / 100 * real_of_int 10 powr (23 / 10)\<rceil> = 4"
proof -
  have "calculate_retry_after 10 = 4"
    by (simp add: calculate_retry_after_def retry_search.simps)
  with retry_after_is_power_function [of 10] show ?thesis by simp
qed

text \<open>
  Further property. The lottery follows the rate: of the 101 equally likely draws exactly
  \<open>100 - rate\<close> accept the event for a rate from 1 to 100, so a rate of 100 accepts none.
\<close>

theorem throttle_lottery_odds:
  assumes "1 \<le> rate" and "rate \<le> 100"
  shows "card {d \<in> {0..100}. fst (is_accepting_events (\<lambda>_. d) n rate)} = nat (100 - rate)"
proof -
  have "{d \<in> {0..100}. fst (is_accepting_events (\<lambda>_. d) n rate)} = {rate + 1..100}"
    using assms by (auto simp: is_accepting_events_def)
  then show ?thesis using assms by simp
qed

theorem throttle_lottery_odds_witness:
  "card {d \<in> {0..100}. fst (is_accepting_events (\<lambda>_. d) 0 30)} = 70"
  using throttle_lottery_odds [of 30 0] by simp

text \<open>
  On the envelope path a full throttle is cached as the bare code \<open>t\<close>, which reads back as the
  rates (0, 0): the cached block never rejects, and each further request reaches the database.
\<close>

lemma envelope_full_throttle_not_cached:
  assumes "resolver_match r = Some pid" "request_key r = Inr (Some k)"
    and "cget (cache st) (block_cache_key pid) = Some ''t''"
    and "cget (cache st) (dsn_block_cache_key pid k) = None"
  shows "get_project cget cset roll fetch stg rnd r st =
    (case fetch pid k of
       None \<Rightarrow> (Inl invalid_dsn, st\<lparr>cache := cset (cache st) (dsn_block_cache_key pid k) ''v'' REJECTION_WAIT\<rparr>)
     | Some row \<Rightarrow> admit_project cset roll stg rnd ''t'' (block_cache_key pid) (info_of_row row) st)"
  using assms
  by (simp add: get_project_def cached_throttle_def deserialize_throttle_def throttled_def
      is_accepting_events_def Let_def split: option.splits)

end
