(* ===== verification/Overage.thy ===== *)
theory Overage
  imports Py_Int
begin

text \<open>
  Metered billing: the graduated price schedule of \<open>apps/stripe/overage.py\<close> and the reporting of
  overage units to the billing service in \<open>apps/organizations_ext/tasks.py\<close>
  (\<open>_report_overage\<close>, \<open>_persist_overage\<close>, \<open>_rollback_overage\<close>).

  A \<open>Decimal\<close> is a rational. The decimal context keeps 28 digits, more than the products and
  quotients of a schedule in ten-thousandths of a cent need. The billing service is an argument
  \<open>stripe\<close> of the definitions: it maps the events recorded so far and a new one to the events
  recorded afterwards and the answer the client sees.
\<close>

section \<open>The price schedule\<close>

type_synonym tiers = "(int option \<times> rat) list"

definition GLITCHTIP_OVERAGE_TIERS :: tiers where
  "GLITCHTIP_OVERAGE_TIERS = [(Some 400000, 15 / 100000), (Some 2000000, 10 / 100000), (None, 8 / 100000)]"

text \<open>\<open>quantize(CENTS, rounding=ROUND_HALF_UP)\<close>.\<close>

definition round_half_up :: "rat \<Rightarrow> int" where
  "round_half_up x = (if 0 \<le> x then \<lfloor>x + 1 / 2\<rfloor> else - \<lfloor>- x + 1 / 2\<rfloor>)"

fun cost_loop :: "int \<Rightarrow> rat \<Rightarrow> int \<Rightarrow> tiers \<Rightarrow> rat" where
  "cost_loop units tot prev [] = tot"
| "cost_loop units tot prev ((up_to, rate) # ts) =
     (let band_end = (case up_to of None \<Rightarrow> units | Some u \<Rightarrow> min units u);
          band_units = band_end - prev;
          tot' = (if band_units > 0 then tot + of_int band_units * rate else tot)
      in if (case up_to of None \<Rightarrow> False | Some u \<Rightarrow> units \<le> u) then tot'
         else cost_loop units tot' band_end ts)"

definition cost_cents_for_units :: "tiers \<Rightarrow> int \<Rightarrow> int" where
  "cost_cents_for_units ts units =
     (if units \<le> 0 then 0 else round_half_up (cost_loop units 0 0 ts * 100))"

fun units_loop :: "rat \<Rightarrow> int \<Rightarrow> int \<Rightarrow> tiers \<Rightarrow> int" where
  "units_loop budget units prev [] = units"
| "units_loop budget units prev ((up_to, rate) # ts) =
     (if rate \<le> 0 then
        (case up_to of None \<Rightarrow> units | Some u \<Rightarrow> units_loop budget (units + (u - prev)) u ts)
      else
        (let affordable = \<lfloor>budget / rate\<rfloor> in
         case up_to of
           None \<Rightarrow> units + affordable
         | Some u \<Rightarrow>
             (if affordable \<le> u - prev then units + affordable
              else units_loop (budget - of_int (u - prev) * rate) (units + (u - prev)) u ts)))"

definition units_for_budget :: "tiers \<Rightarrow> int \<Rightarrow> int" where
  "units_for_budget ts cap_cents =
     (if cap_cents \<le> 0 then 0 else units_loop (of_int cap_cents / 100) 0 0 ts)"

text \<open>
  \<open>tier_problems\<close>: the differences between a price of the billing service and the schedule. A live
  tier carries its boundary, its amount in cents and whether it has a flat amount; the messages
  are values.
\<close>

record live_tier =
  live_up_to :: "int option"
  live_cents :: rat
  live_flat :: bool

record raw_price =
  tiers_mode :: "string option"
  currency :: "string option"
  live_tiers :: "live_tier list"

datatype tier_problem =
    BadTiersMode "string option"
  | BadCurrency "string option"
  | TierCount nat nat
  | TierDiffers nat "int option" rat "int option" rat
  | FlatAmount nat

definition tier_problems :: "tiers \<Rightarrow> raw_price \<Rightarrow> tier_problem list" where
  "tier_problems ts raw =
     (let expected = map (\<lambda>(u, r). (u, r * 100)) ts;
          actual = map (\<lambda>t. (live_up_to t, live_cents t)) (live_tiers raw) in
      (if tiers_mode raw \<noteq> Some ''graduated'' then [BadTiersMode (tiers_mode raw)] else [])
      @ (if currency raw \<noteq> Some ''usd'' then [BadCurrency (currency raw)] else [])
      @ (if length actual \<noteq> length expected then [TierCount (length actual) (length expected)] else [])
      @ concat (map (\<lambda>(i, ((u, c), (lu, lc))). if u \<noteq> lu \<or> c \<noteq> lc then [TierDiffers i lu lc u c] else [])
          (List.enumerate 0 (zip expected actual)))
      @ concat (map (\<lambda>(i, t). if live_flat t then [FlatAmount i] else [])
          (List.enumerate 0 (live_tiers raw))))"

section \<open>Reporting overage\<close>

record subscription_row =
  stripe_id :: string
  overage_units_reported :: int
  overage_period_start :: "datetime option"

datatype send_result = Sent | StripeError nat | OtherError

type_synonym meter_ledger = "(string \<times> int) list"

record billing_state =
  row :: subscription_row
  ledger :: meter_ledger

definition persist_overage :: "subscription_row \<Rightarrow> datetime \<Rightarrow> int \<Rightarrow> subscription_row" where
  "persist_overage r cycle_start units_reported =
     (if overage_period_start r = None \<or> overage_period_start r \<noteq> Some cycle_start
         \<or> overage_units_reported r < units_reported
      then r\<lparr>overage_units_reported := units_reported, overage_period_start := Some cycle_start\<rparr>
      else r)"

definition rollback_overage :: "subscription_row \<Rightarrow> datetime \<Rightarrow> int \<Rightarrow> int \<Rightarrow> subscription_row" where
  "rollback_overage r cycle_start sent_target base =
     (if overage_period_start r = Some cycle_start \<and> overage_units_reported r = sent_target
      then r\<lparr>overage_units_reported := base\<rparr> else r)"

text \<open>The counter the delta is computed from: 0 on a new cycle.\<close>

definition reported_base :: "subscription_row \<Rightarrow> datetime \<Rightarrow> int" where
  "reported_base r cycle_start =
     (if overage_period_start r \<noteq> Some cycle_start then 0 else overage_units_reported r)"

definition meter_identifier :: "(datetime \<Rightarrow> string) \<Rightarrow> string \<Rightarrow> datetime \<Rightarrow> int \<Rightarrow> string" where
  "meter_identifier isoformat sid cycle_start base =
     sid @ '':'' @ isoformat cycle_start @ '':'' @ str_of_int base"

text \<open>
  \<open>_report_overage\<close>. \<open>customer\<close> is the customer id of the organization, \<open>locked\<close> says that another
  check holds the lock. The body runs under the lock and releases it in the end.
\<close>

definition report_overage ::
    "(meter_ledger \<Rightarrow> string \<Rightarrow> int \<Rightarrow> meter_ledger \<times> send_result) \<Rightarrow> (datetime \<Rightarrow> string) \<Rightarrow> string \<Rightarrow> bool
     \<Rightarrow> datetime \<Rightarrow> int \<Rightarrow> billing_state \<Rightarrow> billing_state" where
  "report_overage stripe isoformat customer locked cycle_start billable_units st =
     (if customer = [] \<or> locked then st
      else
        (let r = row st;
             reported = reported_base r cycle_start;
             delta = billable_units - reported in
         if delta \<le> 0 then
           (if overage_period_start r \<noteq> Some cycle_start
            then st\<lparr>row := persist_overage r cycle_start billable_units\<rparr> else st)
         else
           (let r1 = persist_overage r cycle_start billable_units;
                (led, res) = stripe (ledger st) (meter_identifier isoformat (stripe_id r) cycle_start reported) delta;
                r2 = (case res of
                        Sent \<Rightarrow> r1
                      | StripeError status \<Rightarrow>
                          if status \<noteq> 400 then rollback_overage r1 cycle_start billable_units reported else r1
                      | OtherError \<Rightarrow> rollback_overage r1 cycle_start billable_units reported)
            in st\<lparr>row := r2, ledger := led\<rparr>)))"

section \<open>Well-formed schedules\<close>

fun tiers_ok :: "int \<Rightarrow> tiers \<Rightarrow> bool" where
  "tiers_ok prev [] = True"
| "tiers_ok prev ((None, r) # ts) = (0 \<le> r \<and> ts = [])"
| "tiers_ok prev ((Some u, r) # ts) = (0 \<le> r \<and> prev < u \<and> tiers_ok u ts)"

text \<open>The schedule ends in an unbounded tier that costs something.\<close>

definition tiers_closed :: "tiers \<Rightarrow> bool" where
  "tiers_closed ts \<longleftrightarrow> ts \<noteq> [] \<and> fst (last ts) = None \<and> 0 < snd (last ts)"

lemma cost_loop_acc: "cost_loop units tot prev ts = tot + cost_loop units 0 prev ts"
proof (induction ts arbitrary: tot prev)
  case (Cons a ts)
  obtain up_to rate where a: "a = (up_to, rate)" by (cases a)
  define e where "e = (case up_to of None \<Rightarrow> units | Some u \<Rightarrow> min units u)"
  define x where "x = (if e - prev > 0 then of_int (e - prev) * rate else 0)"
  have s: "cost_loop units tt prev (a # ts) =
      (if (case up_to of None \<Rightarrow> False | Some u \<Rightarrow> units \<le> u) then tt + x else cost_loop units (tt + x) e ts)" for tt
    by (simp add: a e_def x_def Let_def)
  show ?case
    using Cons.IH [of "tot + x" e] Cons.IH [of x e] by (simp add: s)
qed simp

lemma cost_loop_Some:
  assumes "prev \<le> units" and "prev < u"
  shows "cost_loop units 0 prev ((Some u, r) # ts) =
    (if units \<le> u then of_int (units - prev) * r else of_int (u - prev) * r + cost_loop units 0 u ts)"
  using assms cost_loop_acc [of units "of_int (u - prev) * r" u ts]
  by (auto simp: Let_def min_def)

lemma cost_loop_None:
  "prev \<le> units \<Longrightarrow> cost_loop units 0 prev [(None, r)] = of_int (units - prev) * r"
  by (auto simp: Let_def)

lemma cost_loop_start: "tiers_ok prev ts \<Longrightarrow> cost_loop prev 0 prev ts = 0"
  by (cases "(prev, ts)" rule: tiers_ok.cases) (auto simp: Let_def)

lemma floor_budget:
  fixes budget rate :: rat
  assumes "0 < rate" and "0 \<le> budget"
  shows "0 \<le> \<lfloor>budget / rate\<rfloor>" and "of_int \<lfloor>budget / rate\<rfloor> * rate \<le> budget"
    and "budget < of_int (\<lfloor>budget / rate\<rfloor> + 1) * rate"
proof -
  show "0 \<le> \<lfloor>budget / rate\<rfloor>" using assms by (simp add: zero_le_floor)
  have "of_int \<lfloor>budget / rate\<rfloor> \<le> budget / rate" by (rule of_int_floor_le)
  then show "of_int \<lfloor>budget / rate\<rfloor> * rate \<le> budget" using assms by (simp add: le_divide_eq)
  have "budget / rate < of_int (\<lfloor>budget / rate\<rfloor> + 1)" by linarith
  then show "budget < of_int (\<lfloor>budget / rate\<rfloor> + 1) * rate" using assms by (simp add: divide_less_eq)
qed

text \<open>The units a budget buys cost no more than the budget.\<close>

lemma units_loop_within:
  "tiers_ok prev ts \<Longrightarrow> 0 \<le> budget \<Longrightarrow>
   prev \<le> units_loop budget prev prev ts \<and> cost_loop (units_loop budget prev prev ts) 0 prev ts \<le> budget"
proof (induction prev ts arbitrary: budget rule: tiers_ok.induct)
  case (2 prev r ts)
  then show ?case
    using floor_budget [of r budget] by (auto simp: cost_loop_None simp del: cost_loop.simps)
next
  case (3 prev u r ts)
  then have ok: "tiers_ok u ts" and pu: "prev < u" and r: "0 \<le> r" by auto
  have rec: "u \<le> units_loop b u u ts \<and> cost_loop (units_loop b u u ts) 0 prev ((Some u, r) # ts) \<le> of_int (u - prev) * r + b"
    if b: "0 \<le> b" for b
  proof -
    have IH: "u \<le> units_loop b u u ts" "cost_loop (units_loop b u u ts) 0 u ts \<le> b"
      using "3.IH" [OF ok b] by auto
    then have "units_loop b u u ts = u \<or> u < units_loop b u u ts" by auto
    then show ?thesis using IH b pu by (auto simp: cost_loop_Some simp del: cost_loop.simps)
  qed
  show ?case
  proof (cases "r = 0")
    case True
    then have n: "units_loop budget prev prev ((Some u, r) # ts) = units_loop budget u u ts" by simp
    from rec [OF "3.prems"(2)] True pu show ?thesis unfolding n by auto
  next
    case False
    then have r': "0 < r" using r by simp
    note fl = floor_budget [OF r' "3.prems"(2)]
    show ?thesis
    proof (cases "\<lfloor>budget / r\<rfloor> \<le> u - prev")
      case True
      then have n: "units_loop budget prev prev ((Some u, r) # ts) = prev + \<lfloor>budget / r\<rfloor>" using r' by simp
      show ?thesis unfolding n using True pu fl by (simp add: cost_loop_Some del: cost_loop.simps)
    next
      case False
      then have n: "units_loop budget prev prev ((Some u, r) # ts) = units_loop (budget - of_int (u - prev) * r) u u ts"
        using r' by simp
      have "of_int (u - prev) * r \<le> of_int \<lfloor>budget / r\<rfloor> * r"
        using False r' by (intro mult_right_mono) auto
      then have b: "0 \<le> budget - of_int (u - prev) * r" using fl(2) by linarith
      from rec [OF b] pu show ?thesis unfolding n by auto
    qed
  qed
qed simp

text \<open>
  When every unit costs something and at most a cent, and each bounded band costs whole cents, the
  budget is used up: one unit more costs more than the budget.
\<close>

fun tiers_cents :: "int \<Rightarrow> tiers \<Rightarrow> bool" where
  "tiers_cents prev [] = True"
| "tiers_cents prev ((None, r) # ts) = (0 < r \<and> r \<le> 1 / 100)"
| "tiers_cents prev ((Some u, r) # ts) =
     (0 < r \<and> r \<le> 1 / 100 \<and> of_int \<lfloor>of_int (u - prev) * r * 100\<rfloor> = of_int (u - prev) * r * 100
      \<and> tiers_cents u ts)"

lemma tiers_closed_Cons: "tiers_closed ((Some u, r) # ts) \<Longrightarrow> tiers_closed ts"
  by (cases ts) (auto simp: tiers_closed_def)

lemma one_unit_more:
  assumes "tiers_ok prev ts" and "tiers_cents prev ts" and "ts \<noteq> []"
  shows "0 < cost_loop (prev + 1) 0 prev ts"
  using assms by (cases "(prev, ts)" rule: tiers_ok.cases) (auto simp: Let_def min_def)

lemma units_loop_maximal:
  "tiers_ok prev ts \<Longrightarrow> tiers_closed ts \<Longrightarrow> tiers_cents prev ts \<Longrightarrow> 0 \<le> c \<Longrightarrow>
   of_int c / 100 < cost_loop (units_loop (of_int c / 100) prev prev ts + 1) 0 prev ts"
proof (induction prev ts arbitrary: c rule: tiers_ok.induct)
  case (1 prev)
  then show ?case by (simp add: tiers_closed_def)
next
  case (2 prev r ts)
  then have r: "0 < r" and ts: "ts = []" by auto
  have b: "0 \<le> (of_int c :: rat) / 100" using "2.prems"(4) by simp
  have n: "units_loop (of_int c / 100) prev prev ((None, r) # ts) + 1 = prev + (\<lfloor>of_int c / 100 / r\<rfloor> + 1)"
    using r by simp
  have "0 \<le> \<lfloor>of_int c / 100 / r\<rfloor>" using floor_budget [OF r b] by simp
  then show ?case
    using r unfolding n ts using floor_budget(3) [OF r b] by (subst cost_loop_None) simp_all
next
  case (3 prev u r ts)
  then have ok: "tiers_ok u ts" and pu: "prev < u" and r: "0 < r" and closed: "tiers_closed ts"
    and cents: "tiers_cents u ts" and r1: "r \<le> 1 / 100"
    by (auto dest: tiers_closed_Cons)
  obtain k where k: "of_int (u - prev) * r * 100 = of_int k" using "3.prems"(3) by (metis tiers_cents.simps(3))
  let ?b = "of_int c / 100 :: rat"
  have b: "0 \<le> ?b" using "3.prems"(4) by simp
  note fl = floor_budget [OF r b]
  have rest: "?b - of_int (u - prev) * r = of_int (c - k) / 100" using k by simp
  show ?case
  proof (cases "\<lfloor>?b / r\<rfloor> \<le> u - prev")
    case True
    then have n: "units_loop ?b prev prev ((Some u, r) # ts) = prev + \<lfloor>?b / r\<rfloor>" using r by simp
    show ?thesis
    proof (cases "\<lfloor>?b / r\<rfloor> = u - prev")
      case True
      have "of_int (u - prev) * r \<le> ?b" "?b < of_int (u - prev) * r + r"
        using fl(2,3) unfolding True by (simp_all add: algebra_simps)
      then have "0 \<le> (of_int (c - k) :: rat) / 100" "(of_int (c - k) :: rat) / 100 < 1 / 100"
        using r1 unfolding rest [symmetric] by simp_all
      then have "of_int (c - k) < (1 :: rat)" "0 \<le> (of_int (c - k) :: rat)" by simp_all
      then have "c = k" by linarith
      then have "?b = of_int (u - prev) * r" using rest by simp
      moreover have "0 < cost_loop (u + 1) 0 u ts"
        using one_unit_more [OF ok cents] closed by (simp add: tiers_closed_def)
      ultimately show ?thesis unfolding n True using pu by (simp add: cost_loop_Some del: cost_loop.simps)
    next
      case False
      with True have "\<lfloor>?b / r\<rfloor> + 1 \<le> u - prev" by simp
      then show ?thesis unfolding n using pu fl by (simp add: cost_loop_Some add.assoc del: cost_loop.simps)
    qed
  next
    case False
    then have n: "units_loop ?b prev prev ((Some u, r) # ts) = units_loop (of_int (c - k) / 100) u u ts"
      unfolding rest [symmetric] using r by simp
    have "of_int (u - prev) * r \<le> of_int \<lfloor>?b / r\<rfloor> * r" using False r by (intro mult_right_mono) auto
    then have "0 \<le> (of_int (c - k) :: rat) / 100" using fl(2) unfolding rest [symmetric] by linarith
    then have ck: "0 \<le> c - k" by (simp add: zero_le_divide_iff)
    note IH = "3.IH" [OF ok closed cents ck]
    have "u \<le> units_loop (of_int (c - k) / 100) u u ts"
      using units_loop_within [OF ok, of "of_int (c - k) / 100"] ck by simp
    then show ?thesis unfolding n using pu IH rest by (simp add: cost_loop_Some del: cost_loop.simps)
  qed
qed

lemma cost_loop_nonneg: "tiers_ok prev ts \<Longrightarrow> prev \<le> b \<Longrightarrow> 0 \<le> cost_loop b 0 prev ts"
proof (induction prev ts rule: tiers_ok.induct)
  case (2 prev r ts)
  then show ?case by (simp add: cost_loop_None del: cost_loop.simps)
next
  case (3 prev u r ts)
  then show ?case by (auto simp: cost_loop_Some simp del: cost_loop.simps intro!: add_nonneg_nonneg)
qed simp

lemma cost_loop_mono:
  "tiers_ok prev ts \<Longrightarrow> prev \<le> a \<Longrightarrow> a \<le> b \<Longrightarrow> cost_loop a 0 prev ts \<le> cost_loop b 0 prev ts"
proof (induction prev ts rule: tiers_ok.induct)
  case (2 prev r ts)
  then show ?case by (auto simp: cost_loop_None simp del: cost_loop.simps intro!: mult_right_mono)
next
  case (3 prev u r ts)
  then have ok: "tiers_ok u ts" and pu: "prev < u" and r: "0 \<le> r" by auto
  consider "b \<le> u" | "a \<le> u" "u < b" | "u < a" by linarith
  then show ?case
  proof cases
    case 2
    have "of_int (a - prev) * r \<le> of_int (u - prev) * r"
      using 2 r by (intro mult_right_mono) simp_all
    moreover have "0 \<le> cost_loop b 0 u ts" using cost_loop_nonneg [OF ok] 2 by simp
    ultimately show ?thesis
      using 2 pu "3.prems" cost_loop_start [OF ok] by (simp add: cost_loop_Some del: cost_loop.simps)
  qed (use "3.IH" [OF ok] "3.prems" pu r in \<open>auto simp: cost_loop_Some simp del: cost_loop.simps intro!: mult_right_mono\<close>)
qed simp

lemma round_half_up_le: "0 \<le> x \<Longrightarrow> x \<le> of_int c \<Longrightarrow> round_half_up x \<le> c"
proof -
  assume "0 \<le> x" "x \<le> of_int c"
  then have "x + 1 / 2 < of_int (c + 1)" by simp
  then have "\<lfloor>x + 1 / 2\<rfloor> < c + 1" by (simp only: floor_less_iff)
  with \<open>0 \<le> x\<close> show ?thesis by (simp add: round_half_up_def)
qed

lemma round_half_up_mono: "0 \<le> x \<Longrightarrow> x \<le> y \<Longrightarrow> round_half_up x \<le> round_half_up y"
  by (simp add: round_half_up_def floor_mono)

section \<open>Reporting within one cycle\<close>

text \<open>
  What the code relies on of the billing service: an event is recorded at most once per
  identifier, and a call records the given event or nothing, whatever the client is answered.
\<close>

definition meter_service_ok :: "(meter_ledger \<Rightarrow> string \<Rightarrow> int \<Rightarrow> meter_ledger \<times> send_result) \<Rightarrow> bool" where
  "meter_service_ok stripe \<longleftrightarrow>
     (\<forall>led i d. fst (stripe led i d) = led \<or> (fst (stripe led i d) = led @ [(i, d)] \<and> i \<notin> fst ` set led))"

lemma meter_identifier_inj:
  "meter_identifier isof sid c a = meter_identifier isof sid c b \<longleftrightarrow> a = b"
  by (simp add: meter_identifier_def)

text \<open>
  The events of one cycle as pairs of base and delta, and the invariant of the reports: no event
  has a base above the counter; the units recorded do not exceed the counter plus what an event
  with the counter as its base may have recorded; and that stays within the last target.
\<close>

definition cycle_events where
  "cycle_events isof sid c es = map (\<lambda>(b, d). (meter_identifier isof sid c b, d)) es"

definition pending_units :: "int \<Rightarrow> (int \<times> int) list \<Rightarrow> int" where
  "pending_units c es = sum_list (map snd (filter (\<lambda>e. fst e = c) es))"

definition report_inv where
  "report_inv isof led0 sid c target st es \<longleftrightarrow>
     ledger st = led0 @ cycle_events isof sid c es \<and> stripe_id (row st) = sid \<and>
     (let base = reported_base (row st) c in
      (\<forall>e\<in>set es. fst e \<le> base) \<and> (\<forall>e\<in>set es. 0 \<le> snd e) \<and> 0 \<le> base \<and>
      sum_list (map snd es) \<le> base + pending_units base es \<and> base + pending_units base es \<le> target)"

lemma pending_none: "(\<forall>e\<in>set es. fst e < c) \<Longrightarrow> pending_units c es = 0"
  unfolding pending_units_def by (subst filter_False) auto

lemma identifier_recorded_iff:
  "meter_identifier isof sid c b \<in> fst ` set (cycle_events isof sid c es) \<longleftrightarrow> b \<in> fst ` set es"
  by (force simp: cycle_events_def meter_identifier_inj split_beta image_iff)

lemma base_persist:
  "reported_base r c < units \<Longrightarrow> reported_base (persist_overage r c units) c = units"
  "overage_period_start (persist_overage r c units) = Some c"
  "stripe_id (persist_overage r c units) = stripe_id r"
  by (auto simp: reported_base_def persist_overage_def)

lemma base_rollback:
  "reported_base r c < units \<Longrightarrow>
   reported_base (rollback_overage (persist_overage r c units) c units b) c = b"
  "stripe_id (rollback_overage r c units b) = stripe_id r"
  by (auto simp: reported_base_def persist_overage_def rollback_overage_def)

lemma report_inv_target: "report_inv isof led0 sid c t st es \<Longrightarrow> t \<le> t' \<Longrightarrow> report_inv isof led0 sid c t' st es"
  by (auto simp: report_inv_def Let_def)

text \<open>Advancing the counter to the target keeps the invariant, with or without a new event.\<close>

lemma report_inv_advance:
  assumes inv: "report_inv isof led0 sid c t st es" and "t \<le> u" and "reported_base (row st) c < u"
    and "ledger st' = led0 @ cycle_events isof sid c es'" and "stripe_id (row st') = sid"
    and "reported_base (row st') c = u"
    and "es' = es \<or> (es' = es @ [(reported_base (row st) c, u - reported_base (row st) c)]
            \<and> reported_base (row st) c \<notin> fst ` set es)"
  shows "report_inv isof led0 sid c u st' es'"
proof -
  let ?b = "reported_base (row st) c"
  have le: "\<forall>e\<in>set es. fst e \<le> ?b" and s: "sum_list (map snd es) \<le> ?b + pending_units ?b es"
    and tt: "?b + pending_units ?b es \<le> t" and "0 \<le> ?b" and nn: "\<forall>e\<in>set es. 0 \<le> snd e"
    using inv by (auto simp: report_inv_def Let_def)
  have new: "\<forall>e\<in>set es'. fst e < u" using le assms(3,7) by fastforce
  moreover have "sum_list (map snd es') \<le> u"
  proof (cases "es' = es")
    case True
    then show ?thesis using s tt assms(2) by simp
  next
    case False
    with assms(7) have es': "es' = es @ [(?b, u - ?b)]" and "?b \<notin> fst ` set es" by auto
    then have "\<forall>e\<in>set es. fst e < ?b" using le by (metis image_eqI order_le_imp_less_or_eq)
    then show ?thesis using s by (simp add: es' pending_none)
  qed
  moreover have "\<forall>e\<in>set es'. 0 \<le> snd e" using nn assms(3,7) by auto
  ultimately show ?thesis
    using assms \<open>0 \<le> ?b\<close> by (auto simp: report_inv_def Let_def pending_none dest: bspec)
qed

text \<open>So does putting the counter back after a failed send that may have been recorded.\<close>

lemma report_inv_retract:
  assumes inv: "report_inv isof led0 sid c t st es" and "t \<le> u" and "reported_base (row st) c < u"
    and "ledger st' = led0 @ cycle_events isof sid c es'" and "stripe_id (row st') = sid"
    and "reported_base (row st') c = reported_base (row st) c"
    and "es' = es \<or> (es' = es @ [(reported_base (row st) c, u - reported_base (row st) c)]
            \<and> reported_base (row st) c \<notin> fst ` set es)"
  shows "report_inv isof led0 sid c u st' es'"
proof (cases "es' = es")
  case True
  with assms show ?thesis by (auto simp: report_inv_def Let_def)
next
  case False
  let ?b = "reported_base (row st) c"
  have le: "\<forall>e\<in>set es. fst e \<le> ?b" and s: "sum_list (map snd es) \<le> ?b + pending_units ?b es" and "0 \<le> ?b"
    using inv by (auto simp: report_inv_def Let_def)
  from False assms(7) have es': "es' = es @ [(?b, u - ?b)]" and nb: "?b \<notin> fst ` set es" by auto
  from nb le have "\<forall>e\<in>set es. fst e < ?b" by (metis image_eqI order_le_imp_less_or_eq)
  then have p: "pending_units ?b es = 0" by (rule pending_none)
  then have "pending_units ?b es' = u - ?b" by (simp add: es' pending_units_def)
  then show ?thesis
    using assms s le p \<open>0 \<le> ?b\<close> inv by (auto simp: report_inv_def Let_def es')
qed

lemma pending_nonneg: "\<forall>e\<in>set es. 0 \<le> snd e \<Longrightarrow> 0 \<le> pending_units c es"
  unfolding pending_units_def by (rule sum_list_nonneg) auto

lemma report_overage_inv:
  assumes ok: "meter_service_ok stripe" and inv: "report_inv isof led0 sid c t st es" and "t \<le> u"
    and fresh: "\<And>b. meter_identifier isof sid c b \<notin> fst ` set led0"
  shows "\<exists>es'. report_inv isof led0 sid c u (report_overage stripe isof cust locked c u st) es'"
proof -
  let ?b = "reported_base (row st) c"
  have keep: "report_inv isof led0 sid c u st es" using report_inv_target [OF inv \<open>t \<le> u\<close>] .
  consider (skip) "cust = [] \<or> locked" | (none) "\<not> (cust = [] \<or> locked)" "u \<le> ?b"
    | (send) "\<not> (cust = [] \<or> locked)" "?b < u" by linarith
  then show ?thesis
  proof cases
    case skip
    then show ?thesis using keep by (auto simp: report_overage_def)
  next
    case none
    have "?b \<le> u" using keep pending_nonneg [of es ?b] by (auto simp: report_inv_def Let_def)
    with none have u: "u = ?b" by simp
    let ?st = "report_overage stripe isof cust locked c u st"
    have "ledger ?st = ledger st" "stripe_id (row ?st) = stripe_id (row st)"
      "reported_base (row ?st) c = ?b"
      using none u by (auto simp: report_overage_def base_persist Let_def reported_base_def persist_overage_def)
    then show ?thesis using keep by (auto simp: report_inv_def Let_def)
  next
    case send
    have led: "ledger st = led0 @ cycle_events isof sid c es" and sid: "stripe_id (row st) = sid"
      using inv by (auto simp: report_inv_def)
    define i where "i = meter_identifier isof sid c ?b"
    obtain led res where call: "stripe (ledger st) i (u - ?b) = (led, res)" by fastforce
    then have "led = ledger st \<or> (led = ledger st @ [(i, u - ?b)] \<and> i \<notin> fst ` set (ledger st))"
      using ok unfolding meter_service_ok_def by (metis fst_conv)
    then obtain es' where es': "led = led0 @ cycle_events isof sid c es'"
      "es' = es \<or> (es' = es @ [(?b, u - ?b)] \<and> ?b \<notin> fst ` set es)"
    proof (elim disjE conjE)
      assume "led = ledger st" then show thesis using that [of es] led by simp
    next
      assume l: "led = ledger st @ [(i, u - ?b)]" and "i \<notin> fst ` set (ledger st)"
      then have "?b \<notin> fst ` set es"
        unfolding led i_def by (simp add: identifier_recorded_iff [symmetric, of ?b es isof sid c] image_Un)
      with l show thesis using that [of "es @ [(?b, u - ?b)]"] led by (simp add: cycle_events_def i_def)
    qed
    let ?st = "report_overage stripe isof cust locked c u st"
    have st: "ledger ?st = led" "stripe_id (row ?st) = sid"
      "reported_base (row ?st) c = u \<or> reported_base (row ?st) c = ?b"
      using send call sid
      by (auto simp: report_overage_def base_persist base_rollback Let_def i_def split: send_result.splits)
    from st(3) show ?thesis
      using report_inv_advance [OF inv \<open>t \<le> u\<close> send(2), of ?st es']
        report_inv_retract [OF inv \<open>t \<le> u\<close> send(2), of ?st es'] st(1,2) es' by blast
  qed
qed

lemma report_fold_inv:
  assumes ok: "meter_service_ok stripe"
    and fresh: "\<And>b. meter_identifier isof sid c b \<notin> fst ` set led0"
  shows "report_inv isof led0 sid c t st es \<Longrightarrow> sorted (t # map snd calls) \<Longrightarrow>
    \<exists>es'. report_inv isof led0 sid c (last (t # map snd calls))
      (fold (\<lambda>(locked, u). report_overage stripe isof cust locked c u) calls st) es'"
proof (induction calls arbitrary: t st es)
  case (Cons lu calls)
  obtain l u where lu: "lu = (l, u)" by (cases lu)
  with Cons.prems have tu: "t \<le> u" and so: "sorted (u # map snd calls)" by auto
  from report_overage_inv [OF ok Cons.prems(1) tu fresh] obtain es1
    where "report_inv isof led0 sid c u (report_overage stripe isof cust l c u st) es1" by blast
  from Cons.IH [OF this so] show ?case by (simp add: lu)
qed auto

lemma report_inv_sum:
  "report_inv isof led0 sid c t st es \<Longrightarrow>
   sum_list (map snd (ledger st)) - sum_list (map snd led0) \<le> t"
  by (auto simp: report_inv_def Let_def cycle_events_def comp_def split_beta)

lemma budget_cost:
  assumes "tiers_ok 0 ts"
  shows "0 \<le> units_for_budget ts cap" and "cost_cents_for_units ts (units_for_budget ts cap) \<le> max 0 cap"
proof -
  have w: "0 \<le> units_loop (of_int cap / 100) 0 0 ts \<and>
      cost_loop (units_loop (of_int cap / 100) 0 0 ts) 0 0 ts \<le> of_int cap / 100" if "0 < cap"
    using units_loop_within [OF assms, of "of_int cap / 100"] that by simp
  show "0 \<le> units_for_budget ts cap" using w by (auto simp: units_for_budget_def)
  show "cost_cents_for_units ts (units_for_budget ts cap) \<le> max 0 cap"
  proof (cases "0 < cap")
    case True
    let ?n = "units_loop (of_int cap / 100) 0 0 ts"
    have "cost_loop ?n 0 0 ts * 100 \<le> of_int cap" using w [OF True] by simp
    moreover have "0 \<le> cost_loop ?n 0 0 ts * 100" using cost_loop_nonneg [OF assms] w [OF True] by simp
    ultimately have "round_half_up (cost_loop ?n 0 0 ts * 100) \<le> cap" by (rule round_half_up_le [rotated])
    then show ?thesis using True by (simp add: cost_cents_for_units_def units_for_budget_def)
  qed (simp add: cost_cents_for_units_def units_for_budget_def)
qed

lemma cost_cents_mono:
  assumes "tiers_ok 0 ts" and "a \<le> b"
  shows "cost_cents_for_units ts a \<le> cost_cents_for_units ts b"
proof (cases "a \<le> 0")
  case True
  have "0 \<le> round_half_up (cost_loop b 0 0 ts * 100)" if "0 < b"
    using cost_loop_nonneg [OF assms(1), of b] that by (simp add: round_half_up_def zero_le_floor)
  with True show ?thesis by (auto simp: cost_cents_for_units_def)
next
  case False
  then have "cost_loop a 0 0 ts * 100 \<le> cost_loop b 0 0 ts * 100" "0 \<le> cost_loop a 0 0 ts * 100"
    using cost_loop_mono [OF assms(1), of a b] cost_loop_nonneg [OF assms(1), of a] assms(2) by simp_all
  with False assms(2) show ?thesis by (simp add: cost_cents_for_units_def round_half_up_mono)
qed

section \<open>Properties\<close>

text \<open>
  Further property. The spend cap becomes a unit ceiling that respects it: the units a cap buys cost,
  rounded to cents, no more than the cap. The cost itself never falls when the units grow.
\<close>

theorem units_for_budget_within_cap:
  assumes "tiers_ok 0 ts"
  shows "cost_cents_for_units ts (units_for_budget ts cap) \<le> max 0 cap \<and>
    (\<forall>a b. a \<le> b \<longrightarrow> cost_cents_for_units ts a \<le> cost_cents_for_units ts b)"
  using budget_cost(2) [OF assms] cost_cents_mono [OF assms] by simp

theorem units_for_budget_within_cap_witness:
  "cost_cents_for_units GLITCHTIP_OVERAGE_TIERS (units_for_budget GLITCHTIP_OVERAGE_TIERS 10000) \<le> 10000"
  using units_for_budget_within_cap [of GLITCHTIP_OVERAGE_TIERS 10000]
  by (simp add: GLITCHTIP_OVERAGE_TIERS_def)

text \<open>
  Further property. The ceiling is the best one for a schedule whose units cost something and at most a
  cent and whose bounded bands cost whole cents, as the configured one does: one unit more costs
  more than the cap.
\<close>

theorem units_for_budget_maximal:
  assumes "tiers_ok 0 ts" and "tiers_closed ts" and "tiers_cents 0 ts" and "0 < cap"
  shows "of_int cap < cost_loop (units_for_budget ts cap + 1) 0 0 ts * 100"
  using units_loop_maximal [OF assms(1-3), of cap] assms(4) by (simp add: units_for_budget_def)

theorem units_for_budget_maximal_witness:
  "of_int 6000 < cost_loop (units_for_budget GLITCHTIP_OVERAGE_TIERS 6000 + 1) 0 0 GLITCHTIP_OVERAGE_TIERS * 100"
  using units_for_budget_maximal [of GLITCHTIP_OVERAGE_TIERS 6000]
  by (simp add: GLITCHTIP_OVERAGE_TIERS_def tiers_closed_def)

text \<open>
  Property C6. The invoice of a cycle does not exceed the spend cap, on two conditions: the targets of
  the throttle checks of the cycle never fall, and stay within the ceiling of the cap; and the billing
  service records an identifier at most once in the whole cycle. Then, starting from a cycle of which
  nothing is recorded, whichever checks are skipped by the lock, and whichever calls fail or are
  recorded without the client learning it, the units the service has recorded for the cycle cost at
  most the cap. Both conditions are needed, as the two lemmas after the property show.
\<close>

theorem invoice_within_spend_cap:
  assumes "tiers_ok 0 ts" and "meter_service_ok stripe"
    and "\<And>b. meter_identifier isof (stripe_id (row st)) c b \<notin> fst ` set (ledger st)"
    and "overage_period_start (row st) \<noteq> Some c"
    and "sorted (map snd calls)" and "\<forall>(locked, u)\<in>set calls. 0 \<le> u \<and> u \<le> units_for_budget ts cap"
  shows "let st' = fold (\<lambda>(locked, u). report_overage stripe isof cust locked c u) calls st in
    cost_cents_for_units ts (sum_list (map snd (ledger st')) - sum_list (map snd (ledger st))) \<le> max 0 cap"
proof -
  have "report_inv isof (ledger st) (stripe_id (row st)) c 0 st []"
    using assms(4) by (simp add: report_inv_def cycle_events_def reported_base_def pending_units_def)
  moreover have "sorted (0 # map snd calls)" using assms(5,6) by auto
  ultimately obtain es where inv: "report_inv isof (ledger st) (stripe_id (row st)) c (last (0 # map snd calls))
      (fold (\<lambda>(locked, u). report_overage stripe isof cust locked c u) calls st) es"
    using report_fold_inv [OF assms(2,3)] by blast
  have "last (0 # map snd calls) \<le> units_for_budget ts cap"
    using assms(6) budget_cost(1) [OF assms(1)] by (cases calls rule: rev_cases) auto
  then show ?thesis
    using report_inv_sum [OF inv] cost_cents_mono [OF assms(1)] budget_cost(2) [OF assms(1)]
    unfolding Let_def by (meson order_trans)
qed

text \<open>A service that records each identifier once and answers every second call with an error.\<close>

definition demo_stripe :: "meter_ledger \<Rightarrow> string \<Rightarrow> int \<Rightarrow> meter_ledger \<times> send_result" where
  "demo_stripe led i d =
     (if i \<in> fst ` set led then (led, StripeError 400)
      else (led @ [(i, d)], if even (length led) then OtherError else Sent))"

definition demo_billing :: billing_state where
  "demo_billing = \<lparr>row = \<lparr>stripe_id = ''sub_1'', overage_units_reported = 70, overage_period_start = Some 0\<rparr>,
     ledger = []\<rparr>"

theorem invoice_within_spend_cap_witness:
  "let st' = fold (\<lambda>(locked, u). report_overage demo_stripe (\<lambda>_. ''x'') ''cus_1'' locked 5 u)
       [(False, 100), (True, 150), (False, 200), (False, 300)] demo_billing in
   cost_cents_for_units GLITCHTIP_OVERAGE_TIERS
     (sum_list (map snd (ledger st')) - sum_list (map snd (ledger demo_billing))) \<le> 1000"
  using invoice_within_spend_cap [where ts = GLITCHTIP_OVERAGE_TIERS and stripe = demo_stripe and isof = "\<lambda>_. ''x''"
      and st = demo_billing and c = 5 and calls = "[(False, 100), (True, 150), (False, 200), (False, 300)]"
      and cap = 1000 and cust = "''cus_1''"]
  by (simp add: GLITCHTIP_OVERAGE_TIERS_def meter_service_ok_def demo_stripe_def demo_billing_def
      units_for_budget_def Let_def)

text \<open>
  A target that falls and rises again: the first report is recorded but its answer is lost, so the
  counter goes back; the lower target then takes the refused duplicate for its own report, and the rest
  up to the first target is reported a second time.
\<close>

lemma falling_target_exceeds_cap:
  "sum_list (map snd (ledger (fold (\<lambda>(locked, u). report_overage demo_stripe isof ''cus_1'' locked 5 u)
     [(False, 100), (False, 50), (False, 100)] demo_billing))) = 150"
  by (simp add: report_overage_def Let_def demo_billing_def reported_base_def persist_overage_def rollback_overage_def
      demo_stripe_def meter_identifier_inj)

text \<open>A service that has forgotten the identifier when the report is repeated.\<close>

definition forgetful_stripe :: "meter_ledger \<Rightarrow> string \<Rightarrow> int \<Rightarrow> meter_ledger \<times> send_result" where
  "forgetful_stripe led i d = (led @ [(i, d)], if even (length led) then OtherError else Sent)"

lemma forgotten_identifier_exceeds_cap:
  "sum_list (map snd (ledger (fold (\<lambda>(locked, u). report_overage forgetful_stripe isof ''cus_1'' locked 5 u)
     [(False, 100), (False, 100)] demo_billing))) = 200"
  by (simp add: report_overage_def Let_def demo_billing_def reported_base_def persist_overage_def rollback_overage_def
      forgetful_stripe_def)

text \<open>
  A schedule with a cheaper second band shows that the ceiling is not always the best one: the
  search stops when the first band is just filled, although the rest of the budget buys more.
\<close>

lemma budget_not_maximal_in_general:
  "units_for_budget [(Some 10, 3 / 100), (None, 1 / 100)] 32 = 10 \<and>
   cost_cents_for_units [(Some 10, 3 / 100), (None, 1 / 100)] 12 = 32"
  by (simp add: units_for_budget_def cost_cents_for_units_def round_half_up_def Let_def
      floor_eq_iff)

text \<open>
  Three checks that overlap because the lock expired can bill a unit twice: a second check reads the
  counter a first one has advanced, the first one puts it back after a failed send, a third one
  reports from there to its target, and the second one then reports its part again.
\<close>

lemma expired_lock_bills_twice:
  assumes "i0 \<noteq> i100"
  shows "let r0 = \<lparr>stripe_id = sid, overage_units_reported = 0, overage_period_start = Some c\<rparr>;
      r1 = persist_overage r0 c 100;
      second = reported_base r1 c;
      r2 = rollback_overage r1 c 100 0;
      third = reported_base r2 c;
      r3 = persist_overage r2 c 130;
      led1 = fst (demo_stripe [] i0 (130 - third));
      r4 = persist_overage r3 c 120;
      led2 = fst (demo_stripe led1 i100 (120 - second))
    in reported_base r4 c = 130 \<and> sum_list (map snd led2) = 150"
  using assms
  by (simp add: Let_def persist_overage_def rollback_overage_def reported_base_def demo_stripe_def)

end
