(* ===== verification/Py_Calendar.thy ===== *)
theory Py_Calendar
  imports Py_Int
begin

text \<open>
  The proleptic Gregorian calendar of Python's \<open>datetime\<close>, on days counted from 1970-01-01 and on
  microseconds: the year, month and day of a date, the text of dates in the formats the code
  writes and reads, and the arithmetic of calendar months. A month is numbered
  \<open>12 * year + (month - 1)\<close>, so that months follow each other without a gap.
\<close>

abbreviation US_PER_DAY :: int where "US_PER_DAY \<equiv> 86400000000"

section \<open>Years\<close>

definition year_start :: "int \<Rightarrow> int" where
  "year_start y = 365 * (y - 1) + (y - 1) div 4 - (y - 1) div 100 + (y - 1) div 400 - 719162"

definition is_leap :: "int \<Rightarrow> bool" where
  "is_leap y \<longleftrightarrow> y mod 4 = 0 \<and> (y mod 100 \<noteq> 0 \<or> y mod 400 = 0)"

lemma leap_count:
  fixes y a b c :: int
  assumes "P100 \<Longrightarrow> P4" and "P400 \<Longrightarrow> P100"
  shows "365 * y + (a + (if P4 then 1 else 0)) - (b + (if P100 then 1 else 0)) + (c + (if P400 then 1 else 0)) - 719162
    = (365 * (y - 1) + a - b + c - 719162) + (if P4 \<and> (\<not> P100 \<or> P400) then 366 else 365)"
  using assms by (cases P4; cases P100; cases P400) auto

lemma year_length: "year_start (y + 1) = year_start y + (if is_leap y then 366 else 365)"
proof -
  have q: "y div k = (y - 1) div k + (if y mod k = 0 then 1 else 0)" if "0 < k" for k :: int
  proof -
    have "y = k * (y div k) + y mod k" "0 \<le> y mod k" "y mod k < k" using that by auto
    show ?thesis
    proof (cases "y mod k = 0")
      case True
      then have "y - 1 = k * (y div k - 1) + (k - 1)" using \<open>y = k * (y div k) + y mod k\<close>
        by (simp add: algebra_simps)
      then have "(y - 1) div k = (y div k - 1) + (k - 1) div k" using that
        by (metis div_mult_self4 less_irrefl mult.commute add.commute)
      then show ?thesis using True that by (simp add: zdiv_eq_0_iff)
    next
      case False
      then have "0 \<le> y mod k - 1" "y mod k - 1 < k" using \<open>0 \<le> y mod k\<close> \<open>y mod k < k\<close> by auto
      moreover have "y - 1 = k * (y div k) + (y mod k - 1)" using \<open>y = k * (y div k) + y mod k\<close> by simp
      ultimately have "(y - 1) div k = y div k"
        using int_div_pos_eq by blast
      then show ?thesis using False by simp
    qed
  qed
  have "y mod 100 = 0 \<Longrightarrow> y mod 4 = 0" "y mod 400 = 0 \<Longrightarrow> y mod 100 = 0"
    unfolding mod_eq_0_iff_dvd by (rule dvd_trans [rotated], assumption, simp)+
  from leap_count [OF this] show ?thesis
    unfolding year_start_def is_leap_def by (simp only: q [of 4] q [of 100] q [of 400] add_diff_cancel_right'
      zero_less_numeral)
qed

text \<open>A sequence on the integers that grows at every step is strictly monotone.\<close>

lemma int_step_mono:
  fixes f :: "int \<Rightarrow> int"
  assumes step: "\<And>x. f x < f (x + 1)" and "x < y"
  shows "f x < f y"
proof -
  have "f x < f (x + int (Suc n))" for n
  proof (induction n)
    case (Suc n)
    have "x + int (Suc (Suc n)) = (x + int (Suc n)) + 1" by simp
    with Suc step [of "x + int (Suc n)"] show ?case by (metis less_trans)
  qed (simp add: step)
  moreover obtain n where "y = x + int (Suc n)" using assms(2) zless_iff_Suc_zadd by blast
  ultimately show ?thesis by simp
qed

text \<open>The value of such a sequence that is the last one at or below a bound is unique.\<close>

lemma int_bracket_unique:
  fixes f :: "int \<Rightarrow> int"
  assumes step: "\<And>x. f x < f (x + 1)"
    and "f x \<le> d" "d < f (x + 1)" "f y \<le> d" "d < f (y + 1)"
  shows "x = y"
proof (rule ccontr)
  have le: "f a \<le> f b" if "a \<le> b" for a b
    using int_step_mono [of f a b] step that by (cases "a = b") auto
  assume "x \<noteq> y"
  then consider "x + 1 \<le> y" | "y + 1 \<le> x" by linarith
  then show False using le assms(2-5) by cases fastforce+
qed

lemma year_start_step: "year_start y < year_start (y + 1)"
  by (simp add: year_length)

text \<open>The year of a day: search down, then up, from an estimate.\<close>

function year_down :: "int \<Rightarrow> int \<Rightarrow> int" where
  "year_down d y = (if d < year_start y then year_down d (y - 1) else y)"
  by pat_completeness auto
termination
proof (relation "measure (\<lambda>(d, y). nat (year_start y - d))")
  fix d y assume "d < year_start y"
  then show "((d, y - 1), d, y) \<in> measure (\<lambda>(d, y). nat (year_start y - d))"
    using year_start_step [of "y - 1"] by simp
qed simp

function year_up :: "int \<Rightarrow> int \<Rightarrow> int" where
  "year_up d y = (if year_start (y + 1) \<le> d then year_up d (y + 1) else y)"
  by pat_completeness auto
termination
proof (relation "measure (\<lambda>(d, y). nat (d - year_start y))")
  fix d y assume "year_start (y + 1) \<le> d"
  then show "((d, y + 1), d, y) \<in> measure (\<lambda>(d, y). nat (d - year_start y))"
    using year_start_step [of y] by simp
qed simp

declare year_down.simps [simp del] year_up.simps [simp del]

definition year_of :: "int \<Rightarrow> int" where
  "year_of d = year_up d (year_down d (1970 + d div 365))"

lemma year_down_le: "year_start (year_down d y) \<le> d"
  by (induction d y rule: year_down.induct) (subst year_down.simps, auto)

lemma year_up_bracket:
  "year_start y \<le> d \<Longrightarrow> year_start (year_up d y) \<le> d \<and> d < year_start (year_up d y + 1)"
  by (induction d y rule: year_up.induct) (subst (1 2) year_up.simps, auto)

lemma year_of_bracket: "year_start (year_of d) \<le> d" "d < year_start (year_of d + 1)"
  using year_up_bracket [OF year_down_le] by (auto simp: year_of_def)

section \<open>Months\<close>

text \<open>Days before a month of the year; month 12 is the next January.\<close>

definition days_before :: "bool \<Rightarrow> int \<Rightarrow> int" where
  "days_before leap m =
     (if m \<le> 0 then 0 else if m = 1 then 31
      else (if m = 2 then 59 else if m = 3 then 90 else if m = 4 then 120 else if m = 5 then 151
            else if m = 6 then 181 else if m = 7 then 212 else if m = 8 then 243 else if m = 9 then 273
            else if m = 10 then 304 else if m = 11 then 334 else 365) + (if leap then 1 else 0))"

definition month_start :: "int \<Rightarrow> int" where
  "month_start mi = year_start (mi div 12) + days_before (is_leap (mi div 12)) (mi mod 12)"

text \<open>The month of the year, from 0, that holds the \<open>r\<close>-th day of the year.\<close>

definition month_in_year :: "bool \<Rightarrow> int \<Rightarrow> int" where
  "month_in_year leap r = (let b = (if leap then 1 else 0) in
     if r < 31 then 0 else if r < 59 + b then 1 else if r < 90 + b then 2 else if r < 120 + b then 3
     else if r < 151 + b then 4 else if r < 181 + b then 5 else if r < 212 + b then 6
     else if r < 243 + b then 7 else if r < 273 + b then 8 else if r < 304 + b then 9
     else if r < 334 + b then 10 else 11)"

definition month_index :: "int \<Rightarrow> int" where
  "month_index d = (let y = year_of d in 12 * y + month_in_year (is_leap y) (d - year_start y))"

definition day_of_month :: "int \<Rightarrow> int" where
  "day_of_month d = d - month_start (month_index d) + 1"

definition days_in_month :: "int \<Rightarrow> int" where
  "days_in_month mi = month_start (mi + 1) - month_start mi"

lemma month_mod_cases:
  obtains y m where "mi = 12 * y + m" "mi div 12 = y" "mi mod 12 = m"
    "m = 0 \<or> m = 1 \<or> m = 2 \<or> m = 3 \<or> m = 4 \<or> m = 5 \<or> m = 6 \<or> m = 7 \<or> m = 8 \<or> m = 9 \<or> m = 10 \<or> m = (11 :: int)"
proof -
  have "m = 0 \<or> m = 1 \<or> m = 2 \<or> m = 3 \<or> m = 4 \<or> m = 5 \<or> m = 6 \<or> m = 7 \<or> m = 8 \<or> m = 9 \<or> m = 10 \<or> m = 11"
    if "0 \<le> m" "m < 12" for m :: int
    using that by presburger
  then show ?thesis using that [of "mi div 12" "mi mod 12"] by simp
qed

lemma month_start_12: "0 \<le> m \<Longrightarrow> m < 12 \<Longrightarrow> month_start (12 * y + m) = year_start y + days_before (is_leap y) m"
  by (simp add: month_start_def)

lemma month_start_next_year:
  "month_start (12 * y + 12) = year_start y + days_before (is_leap y) 12"
proof -
  have "12 * y + 12 = 12 * (y + 1) + 0" by simp
  then have "month_start (12 * y + 12) = year_start (y + 1)"
    using month_start_12 [of 0 "y + 1"] by (simp only:) (simp add: days_before_def)
  then show ?thesis by (simp add: year_length days_before_def)
qed

lemma month_start_step: "month_start mi < month_start (mi + 1) \<and> month_start (mi + 1) \<le> month_start mi + 31"
proof (rule month_mod_cases [of mi])
  fix y m assume mi: "mi = 12 * y + m" and m: "m = 0 \<or> m = 1 \<or> m = 2 \<or> m = 3 \<or> m = 4 \<or> m = 5 \<or> m = 6 \<or> m = 7 \<or> m = 8 \<or> m = 9 \<or> m = 10 \<or> m = 11"
  show ?thesis
  proof (cases "m = 11")
    case True
    then show ?thesis
      using month_start_12 [of 11 y] month_start_next_year [of y]
      by (simp add: mi days_before_def add.commute)
  next
    case False
    then have "month_start mi = year_start y + days_before (is_leap y) m"
      "month_start (mi + 1) = year_start y + days_before (is_leap y) (m + 1)"
      using m month_start_12 [of m y] month_start_12 [of "m + 1" y] by (auto simp: mi add.assoc)
    then show ?thesis using m False by (auto simp: days_before_def)
  qed
qed

lemma month_in_year_bracket:
  assumes "0 \<le> r" and "r < days_before leap 12"
  shows "days_before leap (month_in_year leap r) \<le> r" and "r < days_before leap (month_in_year leap r + 1)"
    and "0 \<le> month_in_year leap r" and "month_in_year leap r < 12"
  using assms unfolding month_in_year_def Let_def days_before_def
  by (cases leap; simp split: if_splits)+

lemma month_index_bracket: "month_start (month_index d) \<le> d" "d < month_start (month_index d + 1)"
proof -
  define y where "y = year_of d"
  define m where "m = month_in_year (is_leap y) (d - year_start y)"
  have "0 \<le> d - year_start y" "d - year_start y < days_before (is_leap y) 12"
    using year_of_bracket [of d] by (auto simp: y_def [symmetric] year_length days_before_def)
  note b = month_in_year_bracket [OF this, folded m_def]
  have mi: "month_index d = 12 * y + m" by (simp add: month_index_def y_def m_def Let_def)
  show "month_start (month_index d) \<le> d"
    using b month_start_12 [of m y] by (simp add: mi)
  have "month_start (12 * y + m + 1) = year_start y + days_before (is_leap y) (m + 1)"
    using b(3,4) month_start_12 [of "m + 1" y] month_start_next_year [of y]
    by (cases "m = 11") (simp_all add: add.assoc)
  with b(2) show "d < month_start (month_index d + 1)" by (simp add: mi)
qed

lemma month_index_unique: "month_start mi \<le> d \<Longrightarrow> d < month_start (mi + 1) \<Longrightarrow> month_index d = mi"
  using int_bracket_unique [of month_start "month_index d" d mi] month_start_step month_index_bracket
  by blast

lemma month_start_mono: "a < b \<Longrightarrow> month_start a < month_start b"
  using int_step_mono [of month_start a b] month_start_step by blast

lemma month_start_mono_le: "a \<le> b \<Longrightarrow> month_start a \<le> month_start b"
  using month_start_mono [of a b] by (cases "a = b") auto

lemma month_index_mono: "a \<le> b \<Longrightarrow> month_index a \<le> month_index b"
proof (rule ccontr)
  assume "a \<le> b" "\<not> month_index a \<le> month_index b"
  then have "month_start (month_index b + 1) \<le> month_start (month_index a)"
    by (intro month_start_mono_le) simp
  with \<open>a \<le> b\<close> month_index_bracket [of a] month_index_bracket [of b] show False by linarith
qed

lemma day_of_month_range: "1 \<le> day_of_month d" "day_of_month d \<le> days_in_month (month_index d)"
  using month_index_bracket [of d] by (auto simp: day_of_month_def days_in_month_def)

lemma days_in_month_range: "1 \<le> days_in_month mi" "days_in_month mi \<le> 31"
  using month_start_step [of mi] by (auto simp: days_in_month_def)

section \<open>Instants\<close>

definition day_of :: "datetime \<Rightarrow> int" where
  "day_of t = t div US_PER_DAY"

definition time_of_day :: "datetime \<Rightarrow> int" where
  "time_of_day t = t mod US_PER_DAY"

definition dt_month_index :: "datetime \<Rightarrow> int" where
  "dt_month_index t = month_index (day_of t)"

definition dt_year :: "datetime \<Rightarrow> int" where
  "dt_year t = dt_month_index t div 12"

definition dt_month :: "datetime \<Rightarrow> int" where
  "dt_month t = dt_month_index t mod 12 + 1"

definition dt_day :: "datetime \<Rightarrow> int" where
  "dt_day t = day_of_month (day_of t)"

text \<open>Midnight of a date of the calendar.\<close>

definition dt_of_date :: "int \<Rightarrow> int \<Rightarrow> int \<Rightarrow> datetime" where
  "dt_of_date y m d = (month_start (12 * y + (m - 1)) + (d - 1)) * US_PER_DAY"

lemma day_of_mono: "a \<le> b \<Longrightarrow> day_of a \<le> day_of b"
  by (simp add: day_of_def zdiv_mono1)

lemma dt_month_index_mono: "a \<le> b \<Longrightarrow> dt_month_index a \<le> dt_month_index b"
  by (simp add: dt_month_index_def month_index_mono day_of_mono)

text \<open>
  Adding months the way \<open>dateutil\<close> documents it: the same day and time in the target month, the
  last day of that month when the day does not exist there.
\<close>

definition clamped_add_months :: "datetime \<Rightarrow> int \<Rightarrow> datetime" where
  "clamped_add_months t k =
     (let mi = dt_month_index t + k;
          dd = min (dt_day t) (days_in_month mi)
      in (month_start mi + dd - 1) * US_PER_DAY + time_of_day t)"

lemma day_of_parts: "0 \<le> r \<Longrightarrow> r < US_PER_DAY \<Longrightarrow> day_of (n * US_PER_DAY + r) = n"
  by (simp add: day_of_def)

lemma time_of_day_range: "0 \<le> time_of_day t" "time_of_day t < US_PER_DAY"
  by (simp_all add: time_of_day_def)

lemma clamped_add_months_index: "dt_month_index (clamped_add_months t k) = dt_month_index t + k"
proof -
  define mi where "mi = dt_month_index t + k"
  define n where "n = month_start mi + min (dt_day t) (days_in_month mi) - 1"
  have "1 \<le> min (dt_day t) (days_in_month mi)"
    using day_of_month_range(1) days_in_month_range(1) by (simp add: dt_day_def)
  then have "month_start mi \<le> n" "n < month_start (mi + 1)"
    by (auto simp: n_def days_in_month_def)
  then have "month_index n = mi" by (rule month_index_unique)
  moreover have "clamped_add_months t k = n * US_PER_DAY + time_of_day t"
    by (simp add: clamped_add_months_def n_def mi_def Let_def)
  ultimately show ?thesis
    using day_of_parts [OF time_of_day_range] by (simp add: dt_month_index_def mi_def)
qed

lemma clamped_add_months_0: "clamped_add_months t 0 = t"
proof -
  have "min (dt_day t) (days_in_month (dt_month_index t)) = dt_day t"
    using day_of_month_range(2) by (simp add: dt_day_def dt_month_index_def)
  then have "clamped_add_months t 0 = day_of t * US_PER_DAY + time_of_day t"
    by (simp add: clamped_add_months_def dt_day_def day_of_month_def dt_month_index_def)
  then show ?thesis by (simp add: day_of_def time_of_day_def)
qed

end
