(* ===== verification/Billing.thy ===== *)
theory Billing
  imports Overage Py_Calendar
begin

text \<open>
  Usage windows, usage counts and throttling of organizations: \<open>apps/stripe/utils.py\<close>,
  \<open>apps/stripe/maintenance.py\<close>, the subscription selection of \<open>apps/stripe/models.py\<close>, the usage part
  of \<open>apps/organizations_ext/models.py\<close> and the throttle tasks of
  \<open>apps/organizations_ext/tasks.py\<close>.

  \<open>t + relativedelta(months=k)\<close> of \<open>dateutil\<close> is the argument \<open>add_months\<close>; \<open>months_ok\<close> states what
  is documented of it. The clock is the argument \<open>now\<close>. The tables are lists of rows.
\<close>

section \<open>Months\<close>

definition months_ok :: "(datetime \<Rightarrow> int \<Rightarrow> datetime) \<Rightarrow> bool" where
  "months_ok add_months \<longleftrightarrow>
     (\<forall>t k. dt_month_index (add_months t k) = dt_month_index t + k) \<and> (\<forall>t. add_months t 0 = t)"

lemma months_ok_clamped: "months_ok clamped_add_months"
  by (simp add: months_ok_def clamped_add_months_index clamped_add_months_0)

lemma months_less:
  assumes "months_ok add_months" and "j < k"
  shows "add_months t j < add_months t k"
proof (rule ccontr)
  assume "\<not> ?thesis"
  then have "dt_month_index (add_months t k) \<le> dt_month_index (add_months t j)"
    by (intro dt_month_index_mono) simp
  with assms show False by (simp add: months_ok_def)
qed

section \<open>Cycles of a subscription\<close>

definition MAX_CYCLE_MONTHS :: int where
  "MAX_CYCLE_MONTHS = 120"

function cycle_loop :: "(datetime \<Rightarrow> int \<Rightarrow> datetime) \<Rightarrow> datetime \<Rightarrow> datetime \<Rightarrow> int \<Rightarrow> datetime \<Rightarrow> datetime
    \<Rightarrow> datetime \<times> datetime" where
  "cycle_loop add_months now period_start month cycle_start cycle_end =
     (if cycle_end < now \<and> month < MAX_CYCLE_MONTHS
      then cycle_loop add_months now period_start (month + 1)
             (add_months period_start (month + 1)) (add_months period_start (month + 1 + 1))
      else (cycle_start, cycle_end))"
  by pat_completeness auto
termination
  by (relation "measure (\<lambda>(_, _, _, m, _, _). nat (MAX_CYCLE_MONTHS - m))") auto

declare cycle_loop.simps [simp del]

definition compute_cycle ::
    "(datetime \<Rightarrow> int \<Rightarrow> datetime) \<Rightarrow> datetime \<Rightarrow> datetime \<Rightarrow> datetime \<Rightarrow> bool \<Rightarrow> datetime \<times> datetime" where
  "compute_cycle add_months now period_start period_end is_annual =
     (if \<not> is_annual then (period_start, period_end)
      else cycle_loop add_months now period_start 0 period_start (add_months period_start 1))"

definition compute_cycle_n_ago ::
    "(datetime \<Rightarrow> int \<Rightarrow> datetime) \<Rightarrow> datetime \<Rightarrow> datetime \<Rightarrow> datetime option \<Rightarrow> datetime option \<Rightarrow> int
     \<Rightarrow> (datetime \<times> datetime) option" where
  "compute_cycle_n_ago add_months current_period_start current_period_end cyc_start cyc_end periods_ago =
     (case (cyc_start, cyc_end) of
        (Some s, Some e) \<Rightarrow>
          (let cycle_start = add_months s (- periods_ago);
               cycle_end = add_months s (- (periods_ago - 1)) in
           if cycle_start < current_period_start then None else Some (cycle_start, cycle_end))
      | _ \<Rightarrow>
          Some (add_months current_period_start (- periods_ago),
                add_months current_period_start (- (periods_ago - 1))))"

section \<open>Usage windows\<close>

definition SELF_HOSTED_USAGE_WINDOW_DAYS :: int where
  "SELF_HOSTED_USAGE_WINDOW_DAYS = 30"

definition rolling_period :: "datetime \<Rightarrow> int \<Rightarrow> datetime \<times> datetime" where
  "rolling_period now periods_ago =
     (let window = SELF_HOSTED_USAGE_WINDOW_DAYS * US_PER_DAY;
          stop = now - window * periods_ago
      in (stop - window, stop))"

definition get_free_tier_cycle ::
    "(datetime \<Rightarrow> int \<Rightarrow> datetime) \<Rightarrow> datetime \<Rightarrow> datetime \<Rightarrow> int \<Rightarrow> datetime \<times> datetime" where
  "get_free_tier_cycle add_months now created periods_ago =
     (let current_index =
        (if created > now then 0
         else (let i = (dt_year now - dt_year created) * 12 + dt_month now - dt_month created in
               if add_months created i > now then i - 1 else i));
          index = current_index - periods_ago
      in (add_months created index, add_months created (index + 1)))"

record subscription =
  sub_row :: subscription_row
  sub_created :: datetime
  current_period_start :: datetime
  current_period_end :: datetime
  no_throttle :: bool
  product_events :: int
  price_interval :: string
  sub_organization :: "int option"
  status :: string
  subscription_cycle_start :: "datetime option"
  subscription_cycle_end :: "datetime option"
  metered_item_id :: string

record org =
  org_pk :: int
  org_created :: datetime
  event_throttle_rate :: int
  metered_billing_enabled :: bool
  overage_spend_cap_cents :: int
  stripe_customer_id :: string
  primary_subscription :: "subscription option"

definition get_current_period_dates ::
    "(datetime \<Rightarrow> int \<Rightarrow> datetime) \<Rightarrow> bool \<Rightarrow> datetime \<Rightarrow> org \<Rightarrow> int \<Rightarrow> (datetime \<times> datetime) option" where
  "get_current_period_dates add_months billing_enabled now o' periods_ago =
     (if \<not> billing_enabled then Some (rolling_period now periods_ago)
      else case primary_subscription o' of
        Some s \<Rightarrow>
          (if periods_ago = 0
           then Some (case subscription_cycle_start s of Some c \<Rightarrow> c | None \<Rightarrow> current_period_start s,
                      case subscription_cycle_end s of Some c \<Rightarrow> c | None \<Rightarrow> current_period_end s)
           else compute_cycle_n_ago add_months (current_period_start s) (current_period_end s)
                  (subscription_cycle_start s) (subscription_cycle_end s) periods_ago)
      | None \<Rightarrow> Some (get_free_tier_cycle add_months now (org_created o') periods_ago))"

section \<open>Usage counts\<close>

text \<open>Rows of a statistics table: organization, date and count (or size in bytes).\<close>

type_synonym stat_rows = "(int \<times> datetime \<times> int) list"

record event_counts =
  issue_event_count :: int
  transaction_count :: int
  log_count :: int
  uptime_check_event_count :: int
  file_size :: int

text \<open>
  \<open>total_event_count\<close>: the weights are 1, 1, 0.1, 0.1 and 1, and the sum is truncated once. The
  model computes in tenths, without the rounding of floats.
\<close>

definition total_event_count :: "event_counts \<Rightarrow> int" where
  "total_event_count c =
     (10 * issue_event_count c + 10 * transaction_count c + log_count c + uptime_check_event_count c
      + 10 * file_size c) div 10"

record usage_tables =
  issue_stats :: stat_rows
  transaction_stats :: stat_rows
  log_stats :: stat_rows
  uptime_stats :: stat_rows
  symbol_files :: stat_rows
  info_files :: stat_rows

definition in_window :: "(datetime \<times> datetime) option \<Rightarrow> datetime \<Rightarrow> bool" where
  "in_window w d = (case w of None \<Rightarrow> True | Some (s, e) \<Rightarrow> s \<le> d \<and> d < e)"

definition table_total :: "stat_rows \<Rightarrow> int \<Rightarrow> (datetime \<times> datetime) option \<Rightarrow> int" where
  "table_total rows oid w = sum_list (map (\<lambda>(_, _, n). n) (filter (\<lambda>(i, d, _). i = oid \<and> in_window w d) rows))"

definition get_event_counts :: "usage_tables \<Rightarrow> int \<Rightarrow> (datetime \<times> datetime) option \<Rightarrow> event_counts" where
  "get_event_counts tb oid w =
     \<lparr>issue_event_count = table_total (issue_stats tb) oid w,
      transaction_count = table_total (transaction_stats tb) oid w,
      log_count = table_total (log_stats tb) oid w,
      uptime_check_event_count = table_total (uptime_stats tb) oid w,
      file_size = (table_total (symbol_files tb) oid w + table_total (info_files tb) oid w) div 1000000\<rparr>"

section \<open>Throttling\<close>

definition progressive_throttle :: "int \<Rightarrow> int \<Rightarrow> int \<Rightarrow> int" where
  "progressive_throttle usage start width =
     (if usage > start + width then 100
      else if usage > start + width div 2 then 50
      else if usage > start then 10
      else 0)"

record throttle_settings =
  billing_enabled :: bool
  overage_tiers :: tiers
  free_tier_events :: int

text \<open>The effects of a check: the organization, the billing state of its subscription, the mails queued.\<close>

record throttle_state =
  the_org :: org
  the_ledger :: meter_ledger
  throttle_emails :: "(int \<times> int) list"

definition save_throttle :: "int \<Rightarrow> int \<Rightarrow> throttle_state \<Rightarrow> throttle_state" where
  "save_throttle org_throttle total_count st =
     (let o' = the_org st; old = event_throttle_rate o' in
      if old \<noteq> org_throttle
      then st\<lparr>the_org := o'\<lparr>event_throttle_rate := org_throttle\<rparr>,
              throttle_emails := throttle_emails st
                @ (if org_throttle > old then [(org_pk o', total_count)] else [])\<rparr>
      else st)"

definition check_and_update_throttle ::
    "(datetime \<Rightarrow> int \<Rightarrow> datetime) \<Rightarrow> (meter_ledger \<Rightarrow> string \<Rightarrow> int \<Rightarrow> meter_ledger \<times> send_result)
     \<Rightarrow> (datetime \<Rightarrow> string) \<Rightarrow> throttle_settings \<Rightarrow> bool \<Rightarrow> datetime \<Rightarrow> usage_tables \<Rightarrow> throttle_state \<Rightarrow> throttle_state" where
  "check_and_update_throttle add_months stripe isoformat stg locked now tb st =
     (if \<not> billing_enabled stg then st
      else
        (let o' = the_org st in
         case primary_subscription o' of
           None \<Rightarrow>
             (let plan_events = free_tier_events stg;
                  w = get_free_tier_cycle add_months now (org_created o') 0;
                  total_count = total_event_count (get_event_counts tb (org_pk o') (Some w))
              in save_throttle (progressive_throttle total_count plan_events plan_events) total_count st)
         | Some sub \<Rightarrow>
             if no_throttle sub then save_throttle 0 0 st
             else
               (let plan_events = product_events sub;
                    period = get_current_period_dates add_months True now o' 0;
                    total_count = total_event_count (get_event_counts tb (org_pk o') period) in
                if metered_billing_enabled o' \<and> metered_item_id sub \<noteq> [] \<and> period \<noteq> None then
                  (let start = fst (the period);
                       cap_units = units_for_budget (overage_tiers stg) (overage_spend_cap_cents o');
                       billable = min (max 0 (total_count - plan_events)) cap_units;
                       b = report_overage stripe isoformat (stripe_customer_id o') locked start billable
                             \<lparr>row = sub_row sub, ledger = the_ledger st\<rparr>;
                       st1 = st\<lparr>the_org := o'\<lparr>primary_subscription := Some (sub\<lparr>sub_row := row b\<rparr>)\<rparr>,
                                the_ledger := ledger b\<rparr>
                   in save_throttle (progressive_throttle total_count (plan_events + cap_units) plan_events)
                        total_count st1)
                else save_throttle (progressive_throttle total_count plan_events plan_events) total_count st)))"

text \<open>
  \<open>check_organization_throttle\<close>: one check per organization within the cache's default timeout,
  unless the caller bypasses it. \<open>added\<close> says whether \<open>cache.aadd\<close> stored the key.
\<close>

definition check_organization_throttle where
  "check_organization_throttle bypass_cache added check st =
     (if \<not> bypass_cache \<and> \<not> added then st else check st)"

text \<open>
  \<open>check_all_organizations_throttle\<close>: the organizations in batches, by increasing id. The result
  is the order in which they are checked; \<open>ids\<close> are the ids of the table.
\<close>

function visit_batches :: "nat \<Rightarrow> int list \<Rightarrow> int \<Rightarrow> int list" where
  "visit_batches batch ids last_id =
     (let orgs = take batch (filter (\<lambda>i. i > last_id) (sort ids)) in
      if orgs = [] then [] else orgs @ visit_batches batch ids (last orgs))"
  by pat_completeness auto
termination
proof (relation "measure (\<lambda>(b, ids, l). length (filter (\<lambda>i. i > l) (sort ids)))")
  fix batch :: nat and ids :: "int list" and last_id orgs
  assume orgs: "orgs = take batch (filter (\<lambda>i. i > last_id) (sort ids))" and ne: "orgs \<noteq> []"
  then have "last orgs \<in> set (filter (\<lambda>i. i > last_id) (sort ids))"
    by (metis in_set_takeD last_in_set)
  then have l: "last orgs \<in> set (sort ids)" "last_id < last orgs" by simp_all
  have "filter (\<lambda>i. i > last orgs) (sort ids) = filter (\<lambda>i. i > last orgs) (filter (\<lambda>i. i > last_id) (sort ids))"
    using l(2) by (auto intro!: filter_cong simp: filter_filter)
  also have "length \<dots> < length (filter (\<lambda>i. i > last_id) (sort ids))"
    using l by (intro length_filter_less [of "last orgs"]) auto
  finally show "((batch, ids, last orgs), batch, ids, last_id)
      \<in> measure (\<lambda>(b, ids, l). length (filter (\<lambda>i. i > l) (sort ids)))"
    by simp
qed simp

declare visit_batches.simps [simp del]

definition check_all_organizations_throttle :: "int list \<Rightarrow> int list" where
  "check_all_organizations_throttle ids = visit_batches 500 ids 0"

section \<open>Subscriptions\<close>

definition ACTIVE_SUBSCRIPTION_STATUSES :: "string list" where
  "ACTIVE_SUBSCRIPTION_STATUSES = [''active'', ''past_due'', ''trialing'']"

text \<open>An item of a subscription: its id and the recurring part of its price.\<close>

record sub_item =
  item_id :: string
  usage_type :: "string option"
  meter :: "string option"

definition is_metered_price :: "sub_item \<Rightarrow> bool" where
  "is_metered_price it \<longleftrightarrow> usage_type it = Some ''metered'' \<or> (meter it \<noteq> None \<and> meter it \<noteq> Some [])"

text \<open>The loop of \<open>select_subscription_items\<close> with its two variables.\<close>

fun select_items_loop :: "sub_item option \<times> sub_item option \<Rightarrow> sub_item list \<Rightarrow> sub_item option \<times> sub_item option" where
  "select_items_loop (base, metered) [] = (base, metered)"
| "select_items_loop (base, metered) (item # items) =
     (if is_metered_price item
      then select_items_loop (base, case metered of None \<Rightarrow> Some item | Some m \<Rightarrow> Some m) items
      else select_items_loop (case base of None \<Rightarrow> Some item | Some b \<Rightarrow> Some b, metered) items)"

definition select_subscription_items :: "sub_item list \<Rightarrow> sub_item option \<times> sub_item option" where
  "select_subscription_items items =
     (let (base, metered) = select_items_loop (None, None) items in
      if base = None \<and> items \<noteq> [] then (Some (hd items), metered) else (base, metered))"

text \<open>
  \<open>get_primary_subscription\<close>: the first active subscription of the organization by the event quota
  and then the creation time, both descending.
\<close>

definition sub_key :: "subscription \<Rightarrow> int \<times> int" where
  "sub_key s = (- product_events s, - sub_created s)"

definition key_le :: "int \<times> int \<Rightarrow> int \<times> int \<Rightarrow> bool" where
  "key_le a b \<longleftrightarrow> fst a < fst b \<or> (fst a = fst b \<and> snd a \<le> snd b)"

fun first_by_key :: "subscription list \<Rightarrow> subscription option" where
  "first_by_key [] = None"
| "first_by_key (s # ss) =
     (case first_by_key ss of None \<Rightarrow> Some s
      | Some b \<Rightarrow> if key_le (sub_key s) (sub_key b) then Some s else Some b)"

definition get_primary_subscription :: "subscription list \<Rightarrow> int \<Rightarrow> subscription option" where
  "get_primary_subscription subs oid =
     first_by_key (filter (\<lambda>s. sub_organization s = Some oid \<and> status s \<in> set ACTIVE_SUBSCRIPTION_STATUSES) subs)"

definition remove_inactive_primary_subscriptions :: "org list \<Rightarrow> org list" where
  "remove_inactive_primary_subscriptions orgs =
     map (\<lambda>o'. case primary_subscription o' of
            Some s \<Rightarrow> if status s \<in> set ACTIVE_SUBSCRIPTION_STATUSES then o' else o'\<lparr>primary_subscription := None\<rparr>
          | None \<Rightarrow> o') orgs"

text \<open>\<open>update_subscription_cycles\<close>: roll the virtual monthly cycles of annual plans forward.\<close>

definition update_subscription_cycles ::
    "(datetime \<Rightarrow> int \<Rightarrow> datetime) \<Rightarrow> bool \<Rightarrow> datetime \<Rightarrow> subscription list \<Rightarrow> subscription list" where
  "update_subscription_cycles add_months billing now subs =
     (if \<not> billing then subs
      else map (\<lambda>s. if status s \<in> set ACTIVE_SUBSCRIPTION_STATUSES
                     \<and> (case subscription_cycle_end s of None \<Rightarrow> False | Some e \<Rightarrow> e < now)
                     \<and> price_interval s = ''year''
                  then (let (a, b) = compute_cycle add_months now (current_period_start s) (current_period_end s) True
                        in s\<lparr>subscription_cycle_start := Some a, subscription_cycle_end := Some b\<rparr>)
                  else s) subs)"

section \<open>Lemmas\<close>

lemma cycle_loop_result:
  assumes m: "months_ok add_months" and "0 \<le> month" "month \<le> MAX_CYCLE_MONTHS"
    and "cs = add_months ps month" "ce = add_months ps (month + 1)"
    and "cs < now \<or> month = 0"
  shows "\<exists>k. 0 \<le> k \<and> cycle_loop add_months now ps month cs ce = (add_months ps k, add_months ps (k + 1))
    \<and> (add_months ps k < now \<or> k = 0)
    \<and> (now \<le> add_months ps (k + 1) \<or> k = MAX_CYCLE_MONTHS)"
  using assms(2-)
proof (induction add_months now ps month cs ce rule: cycle_loop.induct)
  case (1 add_months now ps month cs ce)
  show ?case
  proof (cases "ce < now \<and> month < MAX_CYCLE_MONTHS")
    case True
    from "1.IH" [OF True] "1.prems" True show ?thesis by (subst cycle_loop.simps) (simp add: add.assoc)
  next
    case False
    with "1.prems" show ?thesis by (subst cycle_loop.simps) (auto intro!: exI [of _ month])
  qed
qed

lemma month_index_parts: "12 * dt_year t + dt_month t = dt_month_index t + 1"
  by (simp add: dt_year_def dt_month_def)

lemma free_tier_index:
  "(dt_year now - dt_year created) * 12 + dt_month now - dt_month created
     = dt_month_index now - dt_month_index created"
  using month_index_parts [of now] month_index_parts [of created] by (simp add: algebra_simps)

lemma month_index_less: "dt_month_index a < dt_month_index b \<Longrightarrow> a < b"
  using dt_month_index_mono [of b a] by (meson not_le)

lemma table_total_split:
  assumes "a \<le> b" "b \<le> c"
  shows "table_total rows oid (Some (a, c)) = table_total rows oid (Some (a, b)) + table_total rows oid (Some (b, c))"
  using assms by (induction rows) (auto simp: table_total_def in_window_def)

lemma save_throttle_rate [simp]: "event_throttle_rate (the_org (save_throttle r n st)) = r"
  by (simp add: save_throttle_def Let_def)

lemma progressive_throttle_ramp:
  assumes "0 \<le> width"
  shows "progressive_throttle usage start width \<in> {0, 10, 50, 100}"
    and "usage \<le> start \<Longrightarrow> progressive_throttle usage start width = 0"
    and "start < usage \<Longrightarrow> 0 < progressive_throttle usage start width"
    and "start + width < usage \<Longrightarrow> progressive_throttle usage start width = 100"
proof -
  have "0 \<le> width div 2" using assms by simp
  then show "progressive_throttle usage start width \<in> {0, 10, 50, 100}"
    "usage \<le> start \<Longrightarrow> progressive_throttle usage start width = 0"
    "start < usage \<Longrightarrow> 0 < progressive_throttle usage start width"
    "start + width < usage \<Longrightarrow> progressive_throttle usage start width = 100"
    using assms unfolding progressive_throttle_def by auto
qed

lemma sorted_after_last:
  assumes "sorted (ys @ zs)" "distinct (ys @ zs)" "ys \<noteq> []"
  shows "filter (\<lambda>i :: int. i > last ys) (ys @ zs) = zs"
proof -
  have l: "last ys \<in> set ys" using assms(3) by simp
  have "\<forall>i\<in>set ys. i \<le> last ys"
    using assms(1,3) by (metis sorted_append append_butlast_last_id Un_iff set_append
        list.set_intros(1) order_refl empty_iff empty_set insertE list.simps(15))
  moreover have "\<forall>i\<in>set zs. last ys < i"
    using assms(1,2) l by (simp add: sorted_append) (metis disjoint_iff order_le_imp_less_or_eq)
  ultimately show ?thesis by (simp add: filter_empty_conv not_less filter_id_conv)
qed

lemma sorted_take_last_drop:
  assumes "sorted xs" "distinct xs" "take n xs \<noteq> []"
  shows "filter (\<lambda>i :: int. i > last (take n xs)) xs = drop n xs"
  using sorted_after_last [of "take n xs" "drop n xs"] assms by simp

lemma visit_batches_all:
  assumes "0 < batch" and "distinct ids"
  shows "visit_batches batch ids l = filter (\<lambda>i. i > l) (sort ids)"
  using assms
proof (induction batch ids l rule: visit_batches.induct)
  case (1 batch ids l)
  let ?r = "filter (\<lambda>i. i > l) (sort ids)"
  show ?case
  proof (cases "take batch ?r = []")
    case True
    with "1.prems" show ?thesis by (subst visit_batches.simps) auto
  next
    case False
    let ?l = "last (take batch ?r)"
    have "?l \<in> set ?r" using False by (meson in_set_takeD last_in_set)
    then have "l < ?l" by simp
    then have "filter (\<lambda>i. i > ?l) (sort ids) = filter (\<lambda>i. i > ?l) ?r"
      by (auto intro!: filter_cong)
    also have "\<dots> = drop batch ?r"
      using "1.prems"(2) False by (intro sorted_take_last_drop) (auto simp: sorted_wrt_filter)
    finally show ?thesis
      using "1.IH" [OF refl False "1.prems"] False by (subst visit_batches.simps) (simp add: Let_def)
  qed
qed

lemma first_by_key_None: "first_by_key ss = None \<longleftrightarrow> ss = []"
  by (cases ss) (auto split: option.splits)

lemma first_by_key_min:
  "first_by_key ss = Some s \<Longrightarrow> s \<in> set ss \<and> (\<forall>x\<in>set ss. key_le (sub_key s) (sub_key x))"
proof (induction ss arbitrary: s)
  case (Cons a ss)
  have refl: "key_le k k" and tr: "key_le k k' \<Longrightarrow> key_le k' k'' \<Longrightarrow> key_le k k''"
    and tot: "\<not> key_le k k' \<Longrightarrow> key_le k' k" for k k' k''
    by (auto simp: key_le_def)
  show ?case
  proof (cases "first_by_key ss")
    case None
    with Cons.prems show ?thesis by (simp add: first_by_key_None refl)
  next
    case (Some b)
    note b = Cons.IH [OF this]
    show ?thesis
    proof (cases "key_le (sub_key a) (sub_key b)")
      case True
      with Cons.prems Some have "s = a" by simp
      with b True show ?thesis using refl tr [OF True] by simp
    next
      case False
      with Cons.prems Some have "s = b" by simp
      with b show ?thesis using tot [OF False] by simp
    qed
  qed
qed simp

section \<open>Properties\<close>

text \<open>
  Further property. The free-tier cycle contains the present and the cycles of an organization follow
  each other without a gap or an overlap, whatever day of the month the organization was created.
\<close>

theorem free_tier_cycle_contains_now:
  assumes m: "months_ok add_months" and "created \<le> now"
  shows "fst (get_free_tier_cycle add_months now created 0) \<le> now \<and>
    now < snd (get_free_tier_cycle add_months now created 0) \<and>
    snd (get_free_tier_cycle add_months now created (n + 1)) = fst (get_free_tier_cycle add_months now created n)"
proof -
  define i where "i = dt_month_index now - dt_month_index created"
  define k where "k = (if add_months created i > now then i - 1 else i)"
  have cyc: "get_free_tier_cycle add_months now created j = (add_months created (k - j), add_months created (k - j + 1))" for j
    unfolding get_free_tier_cycle_def free_tier_index using assms(2) by (simp add: i_def k_def Let_def)
  have idx: "dt_month_index (add_months created j) = dt_month_index created + j" for j
    using m by (simp add: months_ok_def)
  have "add_months created (i - 1) < now" "now < add_months created (i + 1)"
    by (rule month_index_less, simp only: idx, simp add: i_def)+
  then have "add_months created k \<le> now" "now < add_months created (k + 1)"
    by (auto simp: k_def)
  then show ?thesis by (simp add: cyc)
qed

theorem free_tier_cycle_contains_now_witness:
  "let c = dt_of_date 2024 1 31; now = dt_of_date 2024 3 30;
       w = get_free_tier_cycle clamped_add_months now c 0 in fst w \<le> now \<and> now < snd w"
proof -
  have "dt_of_date 2024 1 31 \<le> dt_of_date 2024 3 30"
    by (simp add: dt_of_date_def month_start_def year_start_def days_before_def)
  from free_tier_cycle_contains_now [OF months_ok_clamped this, of 0] show ?thesis by (simp add: Let_def)
qed

text \<open>
  Further property. The virtual monthly cycle of an annual plan is the month, counted from the start of
  the billing period, that covers the present, as long as the period began at most 121 months ago:
  it starts before the present, or is the first one, and does not end before it.
\<close>

theorem annual_cycle_covers_now:
  assumes "months_ok add_months" and "now \<le> add_months ps (MAX_CYCLE_MONTHS + 1)"
  shows "\<exists>k\<ge>0. compute_cycle add_months now ps pe True = (add_months ps k, add_months ps (k + 1))
    \<and> (add_months ps k < now \<or> k = 0) \<and> now \<le> add_months ps (k + 1)"
proof -
  have "ps = add_months ps 0" using assms(1) by (simp add: months_ok_def)
  then obtain k where "0 \<le> k" "cycle_loop add_months now ps 0 ps (add_months ps 1) = (add_months ps k, add_months ps (k + 1))"
    "add_months ps k < now \<or> k = 0" "now \<le> add_months ps (k + 1) \<or> k = MAX_CYCLE_MONTHS"
    using cycle_loop_result [OF assms(1), of 0 ps ps "add_months ps 1" now] by (auto simp: MAX_CYCLE_MONTHS_def)
  with assms(2) show ?thesis by (auto simp: compute_cycle_def intro!: exI [of _ k])
qed

theorem annual_cycle_covers_now_witness:
  "\<exists>k\<ge>0. compute_cycle clamped_add_months 0 0 5 True = (clamped_add_months 0 k, clamped_add_months 0 (k + 1))
     \<and> 0 \<le> clamped_add_months 0 (k + 1)"
proof -
  have "clamped_add_months 0 0 < clamped_add_months 0 (MAX_CYCLE_MONTHS + 1)"
    by (rule months_less [OF months_ok_clamped]) (simp add: MAX_CYCLE_MONTHS_def)
  then have "0 \<le> clamped_add_months 0 (MAX_CYCLE_MONTHS + 1)" by (simp add: clamped_add_months_0)
  from annual_cycle_covers_now [OF months_ok_clamped this, of 5] show ?thesis by blast
qed

text \<open>
  Further property. Usage is neither lost nor counted twice at the end of a cycle: the raw counts of
  every category over two adjacent windows add up to those over both.
\<close>

theorem usage_adds_up_over_cycles:
  assumes "a \<le> b" and "b \<le> c"
  shows "let u = (\<lambda>s e. get_event_counts tb oid (Some (s, e))) in
    issue_event_count (u a c) = issue_event_count (u a b) + issue_event_count (u b c) \<and>
    transaction_count (u a c) = transaction_count (u a b) + transaction_count (u b c) \<and>
    log_count (u a c) = log_count (u a b) + log_count (u b c) \<and>
    uptime_check_event_count (u a c) = uptime_check_event_count (u a b) + uptime_check_event_count (u b c)"
  by (simp add: get_event_counts_def Let_def table_total_split [OF assms])

definition demo_usage :: usage_tables where
  "demo_usage = \<lparr>issue_stats = [(1, 5, 100), (1, 15, 50), (2, 5, 7)], transaction_stats = [], log_stats = [(1, 10, 9)],
     uptime_stats = [], symbol_files = [], info_files = []\<rparr>"

theorem usage_adds_up_over_cycles_witness:
  "issue_event_count (get_event_counts demo_usage 1 (Some (0, 20))) = 150 \<and>
   issue_event_count (get_event_counts demo_usage 1 (Some (0, 10)))
     + issue_event_count (get_event_counts demo_usage 1 (Some (10, 20))) = 150"
  using usage_adds_up_over_cycles [of 0 10 20 demo_usage 1]
  by (simp add: get_event_counts_def demo_usage_def table_total_def in_window_def Let_def)

text \<open>
  Property C16. A throttle check leaves one of the rates 0, 10, 50 and 100; the rate ramps with the
  usage and starts where the plan ends, or, with metered billing, where the plan and the units the
  spend cap pays for end: an organization with paid budget left is not throttled.
\<close>

theorem throttle_starts_past_paid_budget:
  fixes st :: throttle_state
  assumes "billing_enabled stg" and "primary_subscription (the_org st) = Some sub" and "\<not> no_throttle sub"
    and "metered_billing_enabled (the_org st)" and "metered_item_id sub \<noteq> []" and "0 \<le> product_events sub"
  shows "let total_count = total_event_count (get_event_counts tb (org_pk (the_org st))
           (get_current_period_dates add_months True now (the_org st) 0));
         paid = product_events sub + units_for_budget (overage_tiers stg) (overage_spend_cap_cents (the_org st));
         rate = event_throttle_rate (the_org (check_and_update_throttle add_months stripe isof stg locked now tb st))
    in rate \<in> {0, 10, 50, 100} \<and> (total_count \<le> paid \<longrightarrow> rate = 0) \<and>
       (paid < total_count \<longrightarrow> 0 < rate) \<and> (paid + product_events sub < total_count \<longrightarrow> rate = 100)"
  using assms(1-5) progressive_throttle_ramp [OF assms(6)]
  by (simp add: check_and_update_throttle_def get_current_period_dates_def Let_def)

definition demo_org :: org where
  "demo_org = \<lparr>org_pk = 1, org_created = 0, event_throttle_rate = 10, metered_billing_enabled = True,
     overage_spend_cap_cents = 0, stripe_customer_id = ''cus_1'',
     primary_subscription = Some \<lparr>sub_row = row demo_billing, sub_created = 0, current_period_start = 0,
       current_period_end = 20, no_throttle = False, product_events = 1000, price_interval = ''month'',
       sub_organization = Some 1, status = ''active'', subscription_cycle_start = None,
       subscription_cycle_end = None, metered_item_id = ''si_1''\<rparr>\<rparr>"

definition demo_throttle_settings :: throttle_settings where
  "demo_throttle_settings = \<lparr>billing_enabled = True, overage_tiers = GLITCHTIP_OVERAGE_TIERS, free_tier_events = 1000\<rparr>"

theorem throttle_starts_past_paid_budget_witness:
  "event_throttle_rate (the_org (check_and_update_throttle clamped_add_months demo_stripe (\<lambda>_. ''x'')
     demo_throttle_settings False 10 demo_usage \<lparr>the_org = demo_org, the_ledger = [], throttle_emails = []\<rparr>)) = 0"
  using throttle_starts_past_paid_budget [of demo_throttle_settings
      "\<lparr>the_org = demo_org, the_ledger = [], throttle_emails = []\<rparr>" "the (primary_subscription demo_org)"
      demo_usage clamped_add_months 10 demo_stripe "\<lambda>_. ''x''" False]
  by (simp add: demo_throttle_settings_def demo_org_def Let_def get_event_counts_def demo_usage_def
      table_total_def in_window_def total_event_count_def get_current_period_dates_def units_for_budget_def)

text \<open>
  Further property. The sweep over all organizations checks each of them exactly once, by increasing
  id, and ends, for ids that are positive.
\<close>

theorem all_organizations_checked_once:
  assumes "distinct ids" and "\<forall>i\<in>set ids. 0 < i"
  shows "check_all_organizations_throttle ids = sort ids"
  using visit_batches_all [of 500 ids 0] assms by (simp add: check_all_organizations_throttle_def filter_id_conv)

theorem all_organizations_checked_once_witness: "check_all_organizations_throttle [7, 2, 5] = [2, 5, 7]"
  using all_organizations_checked_once [of "[7, 2, 5]"] by simp

text \<open>
  Further property. The primary subscription is an active one of the organization with the largest event
  quota, and the latest of those; there is none only when the organization has no active one.
\<close>

theorem primary_subscription_is_best:
  "(get_primary_subscription subs oid = None \<longleftrightarrow>
     \<not> (\<exists>s\<in>set subs. sub_organization s = Some oid \<and> status s \<in> set ACTIVE_SUBSCRIPTION_STATUSES)) \<and>
   (\<forall>s. get_primary_subscription subs oid = Some s \<longrightarrow>
     s \<in> set subs \<and> sub_organization s = Some oid \<and> status s \<in> set ACTIVE_SUBSCRIPTION_STATUSES \<and>
     (\<forall>x\<in>set subs. sub_organization x = Some oid \<and> status x \<in> set ACTIVE_SUBSCRIPTION_STATUSES \<longrightarrow>
        product_events x < product_events s \<or>
        (product_events x = product_events s \<and> sub_created x \<le> sub_created s)))"
  unfolding get_primary_subscription_def
  by (auto simp: first_by_key_None filter_empty_conv dest!: first_by_key_min)
     (auto simp: key_le_def sub_key_def)

theorem primary_subscription_is_best_witness:
  "get_primary_subscription [the (primary_subscription demo_org)] 1 \<noteq> None"
  using primary_subscription_is_best [of "[the (primary_subscription demo_org)]" 1]
  by (simp add: demo_org_def ACTIVE_SUBSCRIPTION_STATUSES_def)

end
