(* ===== verification/Org_Roles.thy ===== *)
theory Org_Roles
  imports GT_Prelude
begin

text \<open>
  Roles, scopes and membership of organizations: \<open>apps/organizations_ext/constants.py\<close> and the
  membership operations of \<open>apps/organizations_ext/models.py\<close>. The tables of members and of the
  owner record are part of the state of an organization; \<open>slugify\<close> of Django is an argument.
\<close>

section \<open>Scopes and roles\<close>

datatype scope =
    OrgRead | OrgWrite | OrgAdmin | OrgIntegrations
  | MemberRead | MemberWrite | MemberAdmin
  | TeamRead | TeamWrite | TeamAdmin
  | ProjectRead | ProjectWrite | ProjectAdmin | ProjectReleases
  | EventRead | EventWrite | EventAdmin

definition Scopes :: "scope list" where
  "Scopes = [OrgRead, OrgWrite, OrgAdmin, OrgIntegrations, MemberRead, MemberWrite, MemberAdmin,
     TeamRead, TeamWrite, TeamAdmin, ProjectRead, ProjectWrite, ProjectAdmin, ProjectReleases,
     EventRead, EventWrite, EventAdmin]"

record role_info =
  role_id :: string
  role_name :: string
  role_scopes :: "scope set"
  is_global :: bool

definition ROLES :: "role_info list" where
  "ROLES =
    [\<lparr>role_id = ''member'', role_name = ''Member'',
      role_scopes = {EventRead, EventWrite, EventAdmin, ProjectReleases, ProjectRead, OrgRead, MemberRead, TeamRead},
      is_global = False\<rparr>,
     \<lparr>role_id = ''admin'', role_name = ''Admin'',
      role_scopes = {EventRead, EventWrite, EventAdmin, OrgRead, MemberRead, ProjectRead, ProjectWrite,
        ProjectAdmin, ProjectReleases, TeamRead, TeamWrite, TeamAdmin, OrgIntegrations},
      is_global = False\<rparr>,
     \<lparr>role_id = ''manager'', role_name = ''Manager'',
      role_scopes = {EventRead, EventWrite, EventAdmin, MemberRead, MemberWrite, MemberAdmin, ProjectRead,
        ProjectWrite, ProjectAdmin, ProjectReleases, TeamRead, TeamWrite, TeamAdmin, OrgRead, OrgWrite,
        OrgIntegrations},
      is_global = True\<rparr>,
     \<lparr>role_id = ''owner'', role_name = ''Organization Owner'',
      role_scopes = {OrgRead, OrgWrite, OrgAdmin, OrgIntegrations, MemberRead, MemberWrite, MemberAdmin,
        TeamRead, TeamWrite, TeamAdmin, ProjectRead, ProjectWrite, ProjectAdmin, ProjectReleases,
        EventRead, EventWrite, EventAdmin},
      is_global = True\<rparr>]"

datatype org_role = MEMBER | ADMIN | MANAGER | OWNER

definition all_roles :: "org_role list" where
  "all_roles = [MEMBER, ADMIN, MANAGER, OWNER]"

fun role_value :: "org_role \<Rightarrow> nat" where
  "role_value MEMBER = 0" | "role_value ADMIN = 1" | "role_value MANAGER = 2" | "role_value OWNER = 3"

fun role_label :: "org_role \<Rightarrow> string" where
  "role_label MEMBER = ''Member''" | "role_label ADMIN = ''Admin''"
| "role_label MANAGER = ''Manager''" | "role_label OWNER = ''Owner''"

definition from_string :: "string \<Rightarrow> org_role option" where
  "from_string s = List.find (\<lambda>r. lower (role_label r) = lower s) all_roles"

text \<open>\<open>ROLES[role]\<close> on the integer of a role; \<open>None\<close> is the \<open>IndexError\<close>.\<close>

definition get_role :: "nat \<Rightarrow> role_info option" where
  "get_role n = (if n < length ROLES then Some (ROLES ! n) else None)"

definition get_scopes :: "org_role \<Rightarrow> scope set" where
  "get_scopes r = (case get_role (role_value r) of Some i \<Rightarrow> role_scopes i | None \<Rightarrow> {})"

instantiation org_role :: linorder
begin
definition less_eq_org_role :: "org_role \<Rightarrow> org_role \<Rightarrow> bool" where
  "less_eq_org_role a b \<longleftrightarrow> role_value a \<le> role_value b"
definition less_org_role :: "org_role \<Rightarrow> org_role \<Rightarrow> bool" where
  "less_org_role a b \<longleftrightarrow> role_value a < role_value b"
instance
proof
  fix x y z :: org_role
  show "x \<le> y \<Longrightarrow> y \<le> x \<Longrightarrow> x = y"
    unfolding less_eq_org_role_def by (cases x; cases y) simp_all
qed (auto simp: less_eq_org_role_def less_org_role_def)
end

section \<open>Membership\<close>

text \<open>A member has a user, or an e-mail address while the invitation is pending.\<close>

record org_user =
  ou_id :: nat
  ou_user :: "nat option"
  ou_email :: "string option"
  ou_role :: org_role

record org_members =
  organization_users :: "org_user list"
  org_owner :: "nat option"
  next_id :: nat

definition pending :: "org_user \<Rightarrow> bool" where
  "pending u \<longleftrightarrow> ou_user u = None"

definition is_active :: "org_user \<Rightarrow> bool" where
  "is_active u \<longleftrightarrow> \<not> pending u"

text \<open>\<open>self.users\<close>: the members that have a user.\<close>

definition users :: "org_members \<Rightarrow> nat list" where
  "users m = List.map_filter ou_user (organization_users m)"

definition add_user :: "nat \<Rightarrow> org_role \<Rightarrow> org_members \<Rightarrow> org_user \<times> org_members" where
  "add_user user role m =
     (let first = (length (users m) = 0);
          ou = \<lparr>ou_id = next_id m, ou_user = Some user, ou_email = None,
                ou_role = (if first then OWNER else role)\<rparr>
      in (ou, m\<lparr>organization_users := organization_users m @ [ou], next_id := Suc (next_id m),
                org_owner := (if first then Some (ou_id ou) else org_owner m)\<rparr>))"

definition owners :: "org_members \<Rightarrow> org_user list" where
  "owners m = filter (\<lambda>u. ou_user u \<noteq> None \<and> ou_role u = OWNER) (organization_users m)"

text \<open>\<open>get_user_scopes\<close>: \<open>None\<close> when the user is not a member.\<close>

definition get_user_scopes :: "org_members \<Rightarrow> nat \<Rightarrow> scope set option" where
  "get_user_scopes m user =
     map_option (\<lambda>u. get_scopes (ou_role u)) (List.find (\<lambda>u. ou_user u = Some user) (organization_users m))"

text \<open>\<open>change_owner\<close>: the owner record moves; \<open>None\<close> when there is no owner record.\<close>

definition change_owner :: "nat \<Rightarrow> org_members \<Rightarrow> ((nat \<times> nat) \<times> org_members) option" where
  "change_owner new_owner m =
     (case org_owner m of
        None \<Rightarrow> None
      | Some old \<Rightarrow> Some ((old, new_owner), m\<lparr>org_owner := Some new_owner\<rparr>))"

definition is_owner :: "org_members \<Rightarrow> nat \<Rightarrow> bool option" where
  "is_owner m user =
     (case org_owner m of
        None \<Rightarrow> None
      | Some i \<Rightarrow> Some (\<exists>u\<in>set (organization_users m). ou_id u = i \<and> ou_user u = Some user))"

definition reserved_words :: "string list" where
  "reserved_words = [''login'', ''register'', ''app'', ''profile'', ''organizations'', ''settings'', ''issues'',
     ''performance'', ''_health'', ''rest-auth'', ''api'', ''accept'', ''stripe'', ''admin'', ''status_page'',
     ''__debug__'']"

definition slugify_function :: "(string \<Rightarrow> string) \<Rightarrow> string \<Rightarrow> string" where
  "slugify_function slugify content =
     (let slug = slugify content in if slug \<in> set reserved_words then slug @ ''-1'' else slug)"

section \<open>Lemmas\<close>

lemma get_scopes_simps:
  "get_scopes MEMBER = role_scopes (ROLES ! 0)" "get_scopes ADMIN = role_scopes (ROLES ! 1)"
  "get_scopes MANAGER = role_scopes (ROLES ! 2)" "get_scopes OWNER = role_scopes (ROLES ! 3)"
  by (simp_all add: get_scopes_def get_role_def ROLES_def)

lemma users_snoc: "users (m\<lparr>organization_users := organization_users m @ [u], next_id := n, org_owner := x\<rparr>)
    = users m @ (case ou_user u of None \<Rightarrow> [] | Some i \<Rightarrow> [i])"
  by (simp add: users_def map_filter_def split: option.splits)

text \<open>
  The invariant of a membership that grew from an empty one: member ids are below the next id and
  distinct, and as soon as there is a user the owner record names a member with the owner role.
\<close>

definition members_ok :: "org_members \<Rightarrow> bool" where
  "members_ok m \<longleftrightarrow> distinct (map ou_id (organization_users m)) \<and>
     (\<forall>u\<in>set (organization_users m). ou_id u < next_id m) \<and>
     (users m \<noteq> [] \<longrightarrow> (\<exists>u\<in>set (organization_users m). org_owner m = Some (ou_id u) \<and> ou_user u \<noteq> None \<and> ou_role u = OWNER))"

lemma members_ok_add_user: "members_ok m \<Longrightarrow> members_ok (snd (add_user user role m))"
  by (auto simp: members_ok_def add_user_def users_snoc Let_def less_Suc_eq)

section \<open>Properties\<close>

text \<open>
  Further property. The scopes of the roles are ordered like the roles: a higher role has every scope of
  a lower one, and the owner has every scope there is.
\<close>

theorem scopes_grow_with_role:
  "(a \<le> b \<longrightarrow> get_scopes a \<subseteq> get_scopes b) \<and> get_scopes OWNER = set Scopes"
  by (cases a; cases b)
     (auto simp: get_scopes_simps ROLES_def Scopes_def less_eq_org_role_def)

theorem scopes_grow_with_role_witness: "get_scopes ADMIN \<subseteq> get_scopes MANAGER"
  using scopes_grow_with_role [of ADMIN MANAGER] by (simp add: less_eq_org_role_def)

text \<open>
  Further property. An organization that gained its users through \<open>add_user\<close>, in any order and with any
  roles, has an owner record that names an active member with the owner role.
\<close>

theorem owner_record_exists:
  assumes "calls \<noteq> []"
  shows "let m = fold (\<lambda>(user, role) m. snd (add_user user role m)) calls
           \<lparr>organization_users = [], org_owner = None, next_id = 0\<rparr> in
    \<exists>u\<in>set (organization_users m). org_owner m = Some (ou_id u) \<and> is_active u \<and> ou_role u = OWNER"
proof -
  have inv: "members_ok m \<Longrightarrow> members_ok (fold (\<lambda>(user, role) m. snd (add_user user role m)) calls m)" for m calls
    by (induction calls arbitrary: m) (auto simp: members_ok_add_user)
  have us: "users (fold (\<lambda>(user, role) m. snd (add_user user role m)) calls m) = users m @ map fst calls" for m calls
    by (induction calls arbitrary: m) (auto simp: add_user_def users_snoc Let_def)
  let ?m0 = "\<lparr>organization_users = [], org_owner = None, next_id = 0\<rparr> :: org_members"
  have "members_ok ?m0" by (simp add: members_ok_def users_def map_filter_def)
  from inv [OF this, of calls] us [of calls ?m0] assms show ?thesis
    by (auto simp: members_ok_def Let_def is_active_def pending_def)
qed

theorem owner_record_exists_witness:
  "\<exists>u\<in>set (organization_users (snd (add_user 5 MEMBER \<lparr>organization_users = [], org_owner = None, next_id = 0\<rparr>))).
     is_active u \<and> ou_role u = OWNER"
  using owner_record_exists [of "[(5, MEMBER)]"] by (auto simp: Let_def)

end
