(* ===== verification/Partitions.thy ===== *)
theory Partitions
  imports Py_Calendar
begin

text \<open>
  Time-ordered UUIDs and the management of nested table partitions:
  \<open>glitchtip/partition_manager.py\<close> and the command \<open>maintain_partitions\<close>.

  A UUID is its 128-bit integer, built with the shifts and ors of the code. \<open>ms\<close> stands for
  \<open>int(dt.timestamp() * 1000)\<close>, which rounds in doubles; \<open>ms_ok\<close> says what holds of it. The catalog
  of the database is a list of partitions, a statement of the data definition language is a value of \<open>ddl\<close>
  and its effect on the catalog is \<open>exec_ddl\<close>. Every \<open>datetime\<close> of the model is aware and in UTC.
\<close>

unbundle bit_operations_syntax

section \<open>UUID version 7\<close>

definition uuid7_bits :: "int \<Rightarrow> int \<Rightarrow> int \<Rightarrow> int" where
  "uuid7_bits timestamp_ms rand_a rand_b =
     push_bit 80 timestamp_ms OR push_bit 76 7 OR push_bit 64 rand_a OR push_bit 62 2 OR rand_b"

text \<open>\<open>from_datetime\<close>; \<open>r2\<close> and \<open>r8\<close> are the integers of two and of eight random bytes.\<close>

definition from_datetime :: "(datetime \<Rightarrow> int) \<Rightarrow> int \<Rightarrow> int \<Rightarrow> datetime \<Rightarrow> int" where
  "from_datetime ms r2 r8 dt = uuid7_bits (ms dt) (r2 AND 0xFFF) (r8 AND 0x3FFFFFFFFFFFFFFF)"

definition uuid_version :: "int \<Rightarrow> int" where
  "uuid_version u = drop_bit 76 u AND 0xF"

text \<open>The version of a \<open>UUID\<close> is \<open>None\<close> unless the variant is the one of RFC 4122.\<close>

definition uuid_variant_rfc :: "int \<Rightarrow> bool" where
  "uuid_variant_rfc u \<longleftrightarrow> drop_bit 62 u AND 0x3 = 2"

definition extract_datetime :: "int \<Rightarrow> datetime option" where
  "extract_datetime u =
     (if \<not> uuid_variant_rfc u \<or> uuid_version u \<noteq> 7 then None
      else Some (drop_bit 80 u * 1000))"

definition uuid7_for_timestamp :: "(datetime \<Rightarrow> int) \<Rightarrow> bool \<Rightarrow> datetime \<Rightarrow> int" where
  "uuid7_for_timestamp ms min_random dt =
     (let timestamp_ms = max 0 (min (ms dt) (2 ^ 48 - 1)) in
      if min_random then uuid7_bits timestamp_ms 0 0
      else uuid7_bits timestamp_ms 0xFFF 0x3FFFFFFFFFFFFFFF)"

definition get_range_for_date :: "(datetime \<Rightarrow> int) \<Rightarrow> datetime \<Rightarrow> datetime \<Rightarrow> int \<times> int" where
  "get_range_for_date ms start_date end_date =
     (uuid7_for_timestamp ms True start_date, uuid7_for_timestamp ms True end_date)"

section \<open>Partitions and statements\<close>

datatype key_type = Uuid7 | DatetimeKey

datatype bound = UuidRange int int | TimeRange datetime datetime | HashBound nat nat

record partition =
  partition_name :: string
  parent_table :: string
  partition_bounds :: bound

datatype ddl =
    CreatePartition string string bound "string option"
  | DropTable string

type_synonym catalog = "partition list"

definition table_exists :: "catalog \<Rightarrow> string \<Rightarrow> bool" where
  "table_exists cat name \<longleftrightarrow> (\<exists>p\<in>set cat. partition_name p = last (split_char (CHR ''.'') name))"

definition list_partitions :: "catalog \<Rightarrow> string \<Rightarrow> partition list" where
  "list_partitions cat parent = filter (\<lambda>p. parent_table p = last (split_char (CHR ''.'') parent)) cat"

text \<open>The effect of a statement: creation if the table does not exist, removal with its partitions.\<close>

fun exec_ddl :: "ddl \<Rightarrow> catalog \<Rightarrow> catalog" where
  "exec_ddl (CreatePartition name parent b h) cat =
     (if \<exists>p\<in>set cat. partition_name p = name then cat
      else cat @ [\<lparr>partition_name = name, parent_table = parent, partition_bounds = b\<rparr>])"
| "exec_ddl (DropTable name) cat = filter (\<lambda>p. partition_name p \<noteq> name \<and> parent_table p \<noteq> name) cat"

definition child_name :: "string \<Rightarrow> nat \<Rightarrow> string" where
  "child_name name i = name @ ''_h'' @ digits_of i"

definition create_time_partition ::
    "(datetime \<Rightarrow> int) \<Rightarrow> string \<Rightarrow> string \<Rightarrow> datetime \<Rightarrow> datetime \<Rightarrow> nat \<Rightarrow> string \<Rightarrow> key_type \<Rightarrow> ddl list" where
  "create_time_partition ms parent name start_date end_date hash_buckets hash_column kt =
     (let b = (case kt of
                 Uuid7 \<Rightarrow> (let (s, e) = get_range_for_date ms start_date end_date in UuidRange s e)
               | DatetimeKey \<Rightarrow> TimeRange start_date end_date) in
      if hash_buckets > 0
      then CreatePartition name parent b (Some hash_column)
           # map (\<lambda>i. CreatePartition (child_name name i) name (HashBound hash_buckets i) None) [0..<hash_buckets]
      else [CreatePartition name parent b None])"

definition drop_partition :: "string \<Rightarrow> ddl" where
  "drop_partition name = DropTable name"

text \<open>The modulus the bounds of a partition show, if they are those of a hash partition.\<close>

fun hash_modulus :: "bound \<Rightarrow> nat option" where
  "hash_modulus (HashBound m r) = Some m"
| "hash_modulus _ = None"

definition execute_partition_creation ::
    "(datetime \<Rightarrow> int) \<Rightarrow> nat \<Rightarrow> string \<Rightarrow> string \<Rightarrow> datetime \<Rightarrow> datetime \<Rightarrow> nat option \<Rightarrow> string \<Rightarrow> key_type
     \<Rightarrow> catalog \<Rightarrow> nat \<times> catalog" where
  "execute_partition_creation ms default_buckets parent name start_date end_date buckets hash_column kt cat =
     (let hash_buckets = (case buckets of None \<Rightarrow> default_buckets | Some b \<Rightarrow> b);
          range_exists = table_exists cat name;
          existing_children = (if range_exists \<and> hash_buckets > 0 then list_partitions cat name else []);
          moduli = remdups (List.map_filter (hash_modulus \<circ> partition_bounds) existing_children) in
      if existing_children \<noteq> [] \<and> length moduli \<noteq> 1 then (0, cat)
      else if existing_children \<noteq> [] \<and> hd moduli \<noteq> hash_buckets then (0, cat)
      else
        (let existing_child_names = set (map partition_name existing_children);
             sqls = create_time_partition ms parent name start_date end_date hash_buckets hash_column kt;
             sqls_to_execute =
               (if \<not> range_exists then sqls
                else if hash_buckets > 0
                then map snd (filter (\<lambda>(i, _). child_name name i \<notin> existing_child_names)
                               (List.enumerate 0 (tl sqls)))
                else [])
         in if sqls_to_execute = [] then (0, cat)
            else (length sqls_to_execute, fold exec_ddl sqls_to_execute cat)))"

section \<open>Ranges of dates\<close>

datatype partition_interval = IntervalDays int | IntervalText string

text \<open>The length of an interval in days; \<open>None\<close> is the \<open>ValueError\<close>.\<close>

fun interval_days :: "partition_interval \<Rightarrow> int option" where
  "interval_days (IntervalDays n) = Some n"
| "interval_days (IntervalText s) =
     (if lower s = ''week'' then Some 7 else if lower s = ''day'' then Some 1 else None)"

text \<open>\<open>strftime("%Y%m%d")\<close>.\<close>

definition date_suffix :: "datetime \<Rightarrow> string" where
  "date_suffix t = zpad 4 (nat (dt_year t)) @ zpad 2 (nat (dt_month t)) @ zpad 2 (nat (dt_day t))"

text \<open>
  The loop of \<open>create_partitions_for_date_range\<close>. With an interval that is not positive it does
  not end, which is the value \<open>None\<close>.
\<close>

partial_function (option) range_loop ::
    "(datetime \<Rightarrow> int) \<Rightarrow> nat \<Rightarrow> string \<Rightarrow> datetime \<Rightarrow> int \<Rightarrow> nat option \<Rightarrow> string \<Rightarrow> key_type
     \<Rightarrow> datetime \<Rightarrow> nat \<Rightarrow> catalog \<Rightarrow> (nat \<times> catalog) option" where
  "range_loop ms default_buckets parent end_date interval buckets hash_column kt current_date new_count cat =
     (if current_date < end_date then
        (let next_date = min (current_date + interval) end_date;
             name = parent @ ''_'' @ date_suffix current_date;
             (executed, cat') = execute_partition_creation ms default_buckets parent name current_date next_date
                                  buckets hash_column kt cat
         in range_loop ms default_buckets parent end_date interval buckets hash_column kt next_date
              (if executed > 0 then Suc new_count else new_count) cat')
      else Some (new_count, cat))"

datatype range_error = InvalidInterval | Diverges

definition create_partitions_for_date_range ::
    "(datetime \<Rightarrow> int) \<Rightarrow> nat \<Rightarrow> string \<Rightarrow> datetime \<Rightarrow> datetime \<Rightarrow> partition_interval \<Rightarrow> nat option \<Rightarrow> string
     \<Rightarrow> key_type \<Rightarrow> catalog \<Rightarrow> range_error + nat \<times> catalog" where
  "create_partitions_for_date_range ms default_buckets parent start_date end_date interval buckets hash_column kt cat =
     (case interval_days interval of
        None \<Rightarrow> Inl InvalidInterval
      | Some days \<Rightarrow>
          (case range_loop ms default_buckets parent end_date (days * US_PER_DAY) buckets hash_column kt start_date 0 cat of
             None \<Rightarrow> Inl Diverges
           | Some r \<Rightarrow> Inr r))"

section \<open>Dropping old partitions\<close>

text \<open>\<open>strptime(s, "%Y%m%d").date()\<close> on eight digits, as the day number; \<open>None\<close> is the \<open>ValueError\<close>.\<close>

definition parse_ymd :: "string \<Rightarrow> int option" where
  "parse_ymd s =
     (let y = int (nat_of_digits (take 4 s)); m = int (nat_of_digits (take 2 (drop 4 s)));
          d = int (nat_of_digits (drop 6 s)); mi = 12 * y + (m - 1) in
      if 1 \<le> y \<and> 1 \<le> m \<and> m \<le> 12 \<and> 1 \<le> d \<and> d \<le> days_in_month mi
      then Some (month_start mi + (d - 1)) else None)"

text \<open>The match of \<open>.*_(\d{8})$\<close> on a table name (names hold no line break).\<close>

definition ymd_of_name :: "string \<Rightarrow> string option" where
  "ymd_of_name name =
     (let n = length name; s = drop (n - 8) name in
      if 9 \<le> n \<and> name ! (n - 9) = CHR ''_'' \<and> (\<forall>c\<in>set s. is_digit c) then Some s else None)"

definition is_old_partition :: "int \<Rightarrow> int \<Rightarrow> int \<Rightarrow> string \<Rightarrow> bool" where
  "is_old_partition today max_days interval name =
     (case ymd_of_name name of
        None \<Rightarrow> False
      | Some s \<Rightarrow> (case parse_ymd s of
                     None \<Rightarrow> False
                   | Some partition_start \<Rightarrow> partition_start + interval < today - max_days))"

definition drop_old_partitions :: "int \<Rightarrow> string \<Rightarrow> int \<Rightarrow> int \<Rightarrow> catalog \<Rightarrow> nat \<times> catalog" where
  "drop_old_partitions today parent max_days interval cat =
     fold (\<lambda>p (n, c). if is_old_partition today max_days interval (partition_name p)
                       then (Suc n, exec_ddl (drop_partition (partition_name p)) c) else (n, c))
       (list_partitions cat parent) (0, cat)"

section \<open>The maintenance command\<close>

record retention_settings =
  hash_buckets_default :: nat
  event_retention :: int
  transaction_retention :: int
  log_retention :: int
  uptime_retention :: int

text \<open>Monday is 0; day 0 of the count was a Thursday.\<close>

definition weekday :: "int \<Rightarrow> int" where
  "weekday d = (d + 3) mod 7"

definition daily_v7_models :: "string list" where
  "daily_v7_models = [''issue_events_issueevent'', ''uptime_monitorcheck'', ''logs_logevent'', ''performance_spanstaging'']"

definition weekly_models :: "retention_settings \<Rightarrow> (string \<times> int) list" where
  "weekly_models stg =
     [(''issue_events_issueaggregate'', event_retention stg), (''issue_events_issuetag'', event_retention stg),
      (''projects_issueeventprojecthourlystatistic'', event_retention stg),
      (''projects_transactioneventprojecthourlystatistic'', transaction_retention stg),
      (''projects_logprojecthourlystatistic'', log_retention stg),
      (''uptime_uptimecheckhourlystatistic'', uptime_retention stg)]"

definition catalog_of :: "catalog \<Rightarrow> range_error + nat \<times> catalog \<Rightarrow> catalog" where
  "catalog_of cat r = (case r of Inl _ \<Rightarrow> cat | Inr (_, c) \<Rightarrow> c)"

definition maintain_daily where
  "maintain_daily ms stg partitioned duckdb_available today table cat =
     (if \<not> partitioned table then cat
      else
        (let start = today * US_PER_DAY;
             cat1 = catalog_of cat (create_partitions_for_date_range ms (hash_buckets_default stg) table start
                      (start + 7 * US_PER_DAY) (IntervalText ''DAY'') None ''organization_id'' Uuid7 cat) in
         if contains ''logs_logevent'' table then cat1
         else if contains ''issue_events_issueevent'' table \<and> duckdb_available then cat1
         else (let max_days = (if contains ''uptime'' table then uptime_retention stg
                               else if contains ''spanstaging'' table then 3 else event_retention stg)
               in snd (drop_old_partitions today table max_days 1 cat1))))"

definition maintain_weekly where
  "maintain_weekly ms stg partitioned today table retention_days cat =
     (if \<not> partitioned table then cat
      else
        (let start_of_week = (today - weekday today) * US_PER_DAY;
             cat1 = catalog_of cat (create_partitions_for_date_range ms (hash_buckets_default stg) table start_of_week
                      (start_of_week + 28 * US_PER_DAY) (IntervalText ''WEEK'') None ''organization_id'' DatetimeKey cat)
         in snd (drop_old_partitions today table retention_days 7 cat1)))"

definition maintain_partitions where
  "maintain_partitions ms stg partitioned duckdb_available now cat =
     (let today = day_of now;
          cat1 = fold (maintain_daily ms stg partitioned duckdb_available today) daily_v7_models cat
      in fold (\<lambda>(table, days). maintain_weekly ms stg partitioned today table days) (weekly_models stg) cat1)"

section \<open>UUID arithmetic\<close>

lemma push_or_add: "0 \<le> b \<Longrightarrow> b < 2 ^ n \<Longrightarrow> push_bit n a OR b = a * 2 ^ n + (b :: int)"
proof -
  assume "0 \<le> b" "b < 2 ^ n"
  then have "take_bit n b = b" by (simp add: take_bit_int_eq_self_iff)
  then have "push_bit n a OR b = concat_bit n b a" by (simp add: concat_bit_def or.commute)
  also have "\<dots> = a * 2 ^ n + b" using \<open>take_bit n b = b\<close> by (simp add: concat_bit_eq push_bit_eq_mult)
  finally show ?thesis .
qed

lemma uuid7_bits_sum:
  assumes "0 \<le> a" "a < 2 ^ 12" "0 \<le> b" "b < 2 ^ 62"
  shows "uuid7_bits t a b = ((((t * 2 ^ 4 + 7) * 2 ^ 12 + a) * 2 ^ 2 + 2) * 2 ^ 62) + b"
proof -
  have "uuid7_bits t a b =
      push_bit 62 (push_bit 2 (push_bit 12 (push_bit 4 t OR 7) OR a) OR 2) OR b"
    by (simp add: uuid7_bits_def push_bit_or or.assoc push_bit_push_bit)
  also have "\<dots> = ((((t * 2 ^ 4 + 7) * 2 ^ 12 + a) * 2 ^ 2 + 2) * 2 ^ 62) + b"
    using assms by (simp add: push_or_add)
  finally show ?thesis .
qed

lemma drop_mult_add: "0 \<le> b \<Longrightarrow> b < 2 ^ n \<Longrightarrow> drop_bit n (a * 2 ^ n + b) = (a :: int)"
  by (simp add: drop_bit_eq_div)

text \<open>The three fields the code reads back.\<close>

lemma uuid7_fields:
  assumes "0 \<le> a" "a < 2 ^ 12" "0 \<le> b" "b < 2 ^ 62"
  shows "drop_bit 80 (uuid7_bits t a b) = t" "uuid_version (uuid7_bits t a b) = 7"
    "uuid_variant_rfc (uuid7_bits t a b)"
proof -
  let ?x = "(t * 2 ^ 4 + 7) * 2 ^ 12 + a"
  have d62: "drop_bit 62 (uuid7_bits t a b) = ?x * 2 ^ 2 + 2"
    using uuid7_bits_sum [OF assms, of t] drop_mult_add [OF assms(3,4), of "?x * 2 ^ 2 + 2"] by simp
  have d76: "drop_bit 76 (uuid7_bits t a b) = t * 2 ^ 4 + 7"
  proof -
    have "drop_bit 76 (uuid7_bits t a b) = drop_bit 12 (drop_bit 2 (drop_bit 62 (uuid7_bits t a b)))"
      by (simp add: drop_bit_drop_bit)
    also have "\<dots> = drop_bit 12 ?x" unfolding d62 by (subst drop_mult_add) simp_all
    also have "\<dots> = t * 2 ^ 4 + 7" using assms by (intro drop_mult_add) simp_all
    finally show ?thesis .
  qed
  have "drop_bit 80 (uuid7_bits t a b) = drop_bit 4 (drop_bit 76 (uuid7_bits t a b))"
    by (simp add: drop_bit_drop_bit)
  also have "\<dots> = t" unfolding d76 by (intro drop_mult_add) simp_all
  finally show "drop_bit 80 (uuid7_bits t a b) = t" .
  have m: "x AND 15 = x mod 16" "x AND 3 = x mod 4" for x :: int
    using take_bit_eq_mod [of 4 x] take_bit_eq_mod [of 2 x]
    by (simp_all add: take_bit_eq_mask mask_eq_exp_minus_1)
  show "uuid_version (uuid7_bits t a b) = 7"
    unfolding uuid_version_def d76 by (simp add: m)
  have "(y * 2 ^ 2 + 2) mod 4 = 2" for y :: int using mod_mult_self3 [of y 4 2] by simp
  then show "uuid_variant_rfc (uuid7_bits t a b)"
    unfolding uuid_variant_rfc_def d62 m by blast
qed

lemma uuid7_bits_mono:
  assumes "0 \<le> a" "a < 2 ^ 12" "0 \<le> b" "b < 2 ^ 62" "t < t'" "0 \<le> a'" "a' < 2 ^ 12" "0 \<le> b'" "b' < 2 ^ 62"
  shows "uuid7_bits t a b < uuid7_bits t' a' b'"
proof -
  have "t \<le> t' - 1" using assms(5) by simp
  then show ?thesis
    using assms uuid7_bits_sum [OF assms(1-4), of t] uuid7_bits_sum [OF assms(6-9), of t'] by simp
qed

lemma uuid7_bits_least:
  assumes "0 \<le> a" "a < 2 ^ 12" "0 \<le> b" "b < 2 ^ 62"
  shows "uuid7_bits t 0 0 \<le> uuid7_bits t a b"
  using assms uuid7_bits_sum [OF assms, of t] uuid7_bits_sum [of 0 0 t] by simp

lemma uuid7_bits_range:
  assumes "0 \<le> a" "a < 2 ^ 12" "0 \<le> b" "b < 2 ^ 62" "0 \<le> t" "t < 2 ^ 48"
  shows "0 \<le> uuid7_bits t a b" "uuid7_bits t a b < 2 ^ 128"
  unfolding uuid7_bits_sum [OF assms(1-4)] using assms by simp_all

text \<open>The order of UUIDs against the bound of a range is the order of the milliseconds.\<close>

lemma uuid7_order:
  assumes "0 \<le> a" "a < 2 ^ 12" "0 \<le> b" "b < 2 ^ 62"
  shows "uuid7_bits s 0 0 \<le> uuid7_bits t a b \<longleftrightarrow> s \<le> t"
proof
  assume "s \<le> t"
  then consider "s = t" | "s < t" by linarith
  then show "uuid7_bits s 0 0 \<le> uuid7_bits t a b"
    using uuid7_bits_least [OF assms] uuid7_bits_mono [of 0 0 s t a b] assms by cases auto
next
  assume "uuid7_bits s 0 0 \<le> uuid7_bits t a b"
  then show "s \<le> t" using uuid7_bits_mono [OF assms, of t s 0 0] by fastforce
qed

lemma and_mask_range: "0 \<le> x AND 0xFFF" "x AND 0xFFF < (2 :: int) ^ 12"
  "0 \<le> x AND 0x3FFFFFFFFFFFFFFF" "x AND 0x3FFFFFFFFFFFFFFF < (2 :: int) ^ 62"
proof -
  have "x AND 0xFFF = x mod 2 ^ 12" "x AND 0x3FFFFFFFFFFFFFFF = x mod 2 ^ 62"
    using take_bit_eq_mod [of 12 x] take_bit_eq_mod [of 62 x]
    by (simp_all add: take_bit_eq_mask mask_eq_exp_minus_1)
  then show "0 \<le> x AND 0xFFF" "x AND 0xFFF < (2 :: int) ^ 12"
    "0 \<le> x AND 0x3FFFFFFFFFFFFFFF" "x AND 0x3FFFFFFFFFFFFFFF < (2 :: int) ^ 62"
    by simp_all
qed

section \<open>The text of a date\<close>

lemma dt_parts:
  "month_start (12 * dt_year t + (dt_month t - 1)) + (dt_day t - 1) = day_of t"
  "1 \<le> dt_month t" "dt_month t \<le> 12" "1 \<le> dt_day t"
  "dt_day t \<le> days_in_month (12 * dt_year t + (dt_month t - 1))" "dt_day t \<le> 31"
proof -
  have mi: "12 * dt_year t + (dt_month t - 1) = dt_month_index t"
    by (simp add: dt_year_def dt_month_def)
  show "month_start (12 * dt_year t + (dt_month t - 1)) + (dt_day t - 1) = day_of t"
    unfolding mi by (simp add: dt_day_def day_of_month_def dt_month_index_def)
  have "0 \<le> dt_month_index t mod 12" "dt_month_index t mod 12 < 12" by simp_all
  then show "1 \<le> dt_month t" "dt_month t \<le> 12" by (simp_all add: dt_month_def)
  show "1 \<le> dt_day t" by (simp add: dt_day_def day_of_month_range)
  show d: "dt_day t \<le> days_in_month (12 * dt_year t + (dt_month t - 1))"
    unfolding mi by (simp add: dt_day_def dt_month_index_def day_of_month_range)
  show "dt_day t \<le> 31" using d days_in_month_range(2) order_trans by blast
qed

lemma date_suffix_fields:
  assumes "1 \<le> dt_year t" "dt_year t \<le> 9999"
  shows "length (date_suffix t) = 8" "\<forall>c\<in>set (date_suffix t). is_digit c"
    "take 4 (date_suffix t) = zpad 4 (nat (dt_year t))"
    "take 2 (drop 4 (date_suffix t)) = zpad 2 (nat (dt_month t))"
    "drop 6 (date_suffix t) = zpad 2 (nat (dt_day t))"
proof -
  have l: "length (zpad 4 (nat (dt_year t))) = 4" "length (zpad 2 (nat (dt_month t))) = 2"
    "length (zpad 2 (nat (dt_day t))) = 2"
    using assms dt_parts(3,6) [of t] by (auto intro!: length_zpad)
  then show "length (date_suffix t) = 8" "take 4 (date_suffix t) = zpad 4 (nat (dt_year t))"
    "take 2 (drop 4 (date_suffix t)) = zpad 2 (nat (dt_month t))"
    "drop 6 (date_suffix t) = zpad 2 (nat (dt_day t))"
    by (simp_all add: date_suffix_def)
  show "\<forall>c\<in>set (date_suffix t). is_digit c"
    using zpad_digits by (auto simp: date_suffix_def)
qed

lemma parse_date_suffix:
  assumes "1 \<le> dt_year t" "dt_year t \<le> 9999"
  shows "parse_ymd (date_suffix t) = Some (day_of t)"
  using date_suffix_fields [OF assms] dt_parts [of t] assms
  by (simp add: parse_ymd_def Let_def)

lemma ymd_of_partition_name:
  assumes "1 \<le> dt_year t" "dt_year t \<le> 9999"
  shows "ymd_of_name (parent @ ''_'' @ date_suffix t) = Some (date_suffix t)"
  using date_suffix_fields(1,2) [OF assms] by (simp add: ymd_of_name_def nth_append)

lemma date_suffix_inj:
  assumes "1 \<le> dt_year t" "dt_year t \<le> 9999" "1 \<le> dt_year u" "dt_year u \<le> 9999"
    and "date_suffix t = date_suffix u"
  shows "day_of t = day_of u"
  using parse_date_suffix [OF assms(1,2)] parse_date_suffix [OF assms(3,4)] assms(5) by simp

lemma dt_year_mono: "s \<le> t \<Longrightarrow> dt_year s \<le> dt_year t"
  by (simp add: dt_year_def zdiv_mono1 dt_month_index_mono)

section \<open>The chunks of a range\<close>

function date_chunks :: "datetime \<Rightarrow> int \<Rightarrow> datetime \<Rightarrow> (datetime \<times> datetime) list" where
  "date_chunks end_date interval current_date =
     (if current_date < end_date \<and> 0 < interval
      then (let n = min (current_date + interval) end_date in (current_date, n) # date_chunks end_date interval n)
      else [])"
  by pat_completeness auto
termination
  by (relation "measure (\<lambda>(e, _, c). nat (e - c))") auto

declare date_chunks.simps [simp del]

definition chunk_step where
  "chunk_step ms db parent buckets hc kt = (\<lambda>(s, e) (n, cat).
     let (executed, cat') = execute_partition_creation ms db parent (parent @ ''_'' @ date_suffix s) s e buckets hc kt cat
     in (if executed > 0 then Suc n else n, cat'))"

lemma chunk_step_apply:
  "chunk_step ms db parent buckets hc kt (s, e) (n, cat) =
     (let (executed, cat') = execute_partition_creation ms db parent (parent @ ''_'' @ date_suffix s) s e buckets hc kt cat
      in (if executed > 0 then Suc n else n, cat'))"
  by (simp add: chunk_step_def)

lemma range_loop_fold:
  assumes "0 < interval"
  shows "range_loop ms db parent end_date interval buckets hc kt cur n cat
    = Some (fold (chunk_step ms db parent buckets hc kt) (date_chunks end_date interval cur) (n, cat))"
  using assms
proof (induction end_date interval cur arbitrary: n cat rule: date_chunks.induct)
  case (1 end_date interval cur)
  show ?case
  proof (cases "cur < end_date")
    case True
    then show ?thesis
      using "1.IH" "1.prems"
      by (subst range_loop.simps, subst date_chunks.simps) (simp add: Let_def chunk_step_apply split_beta)
  next
    case False
    then show ?thesis by (subst range_loop.simps, subst date_chunks.simps) simp
  qed
qed

text \<open>Induction along the chunks, with the end of the first chunk as a variable.\<close>

lemma date_chunks_induct [case_names stop chunk]:
  assumes "\<And>cur. \<not> cur < end_date \<Longrightarrow> P cur []"
    and "\<And>cur n. cur < end_date \<Longrightarrow> cur < n \<Longrightarrow> n \<le> end_date \<Longrightarrow> n = end_date \<or> n = cur + interval \<Longrightarrow>
      P n (date_chunks end_date interval n) \<Longrightarrow> P cur ((cur, n) # date_chunks end_date interval n)"
    and "0 < interval"
  shows "P cur (date_chunks end_date interval cur)"
  using assms
proof (induction end_date interval cur rule: date_chunks.induct)
  case (1 end_date interval cur)
  show ?case
  proof (cases "cur < end_date")
    case True
    define n where "n = min (cur + interval) end_date"
    have n: "cur < n" "n \<le> end_date" "n = end_date \<or> n = cur + interval"
      using True "1.prems"(3) by (auto simp: n_def)
    have "P n (date_chunks end_date interval n)"
      using "1.IH" [OF _ n_def "1.prems"] True "1.prems"(3) by simp
    from "1.prems"(2) [OF True n this] show ?thesis
      using True "1.prems"(3) by (subst date_chunks.simps) (simp add: Let_def n_def)
  next
    case False
    with "1.prems"(1) [OF False] show ?thesis by (subst date_chunks.simps) simp
  qed
qed

lemma date_chunks_cover:
  assumes "0 < interval"
  shows "length (filter (\<lambda>(s, e). s \<le> t \<and> t < e) (date_chunks end_date interval cur))
    = (if cur \<le> t \<and> t < end_date then 1 else 0)"
proof (rule date_chunks_induct [of end_date
      "\<lambda>cur cs. length (filter (\<lambda>(s, e). s \<le> t \<and> t < e) cs) = (if cur \<le> t \<and> t < end_date then 1 else 0)"
      interval cur])
qed (use assms in \<open>auto split: if_splits\<close>)

text \<open>The chunks start at increasing instants at least an interval apart.\<close>

lemma date_chunks_starts:
  assumes "0 < interval"
  shows "\<forall>(s, e)\<in>set (date_chunks end_date interval cur).
    cur \<le> s \<and> s < end_date \<and> s < e \<and> e \<le> end_date \<and> (s = cur \<or> cur + interval \<le> s)"
proof (rule date_chunks_induct [of end_date
      "\<lambda>cur cs. \<forall>(s, e)\<in>set cs. cur \<le> s \<and> s < end_date \<and> s < e \<and> e \<le> end_date \<and> (s = cur \<or> cur + interval \<le> s)"
      interval cur])
  fix cur n
  assume n: "cur < end_date" "cur < n" "n \<le> end_date" "n = end_date \<or> n = cur + interval"
    and IH: "\<forall>(s, e)\<in>set (date_chunks end_date interval n).
      n \<le> s \<and> s < end_date \<and> s < e \<and> e \<le> end_date \<and> (s = n \<or> n + interval \<le> s)"
  then have "cur \<le> s \<and> s < end_date \<and> s < e \<and> e \<le> end_date \<and> (s = cur \<or> cur + interval \<le> s)"
    if "(s, e) \<in> set (date_chunks end_date interval n)" for s e
    using that by (auto dest!: bspec)
  with n show "\<forall>(s, e)\<in>set ((cur, n) # date_chunks end_date interval n).
      cur \<le> s \<and> s < end_date \<and> s < e \<and> e \<le> end_date \<and> (s = cur \<or> cur + interval \<le> s)"
    by auto
qed (use assms in auto)

lemma date_chunks_days:
  assumes "0 < days"
  shows "distinct (map (day_of \<circ> fst) (date_chunks end_date (days * US_PER_DAY) cur))"
proof (rule date_chunks_induct [of end_date "\<lambda>_ cs. distinct (map (day_of \<circ> fst) cs)" "days * US_PER_DAY" cur])
  fix cur n
  assume n: "cur < end_date" "n = end_date \<or> n = cur + days * US_PER_DAY"
    and IH: "distinct (map (day_of \<circ> fst) (date_chunks end_date (days * US_PER_DAY) n))"
  have "day_of cur < day_of s" if "(s, e) \<in> set (date_chunks end_date (days * US_PER_DAY) n)" for s e
  proof -
    have "n \<le> s" "s < end_date" using date_chunks_starts [of "days * US_PER_DAY" end_date n] that assms by auto
    then have "cur + 1 * US_PER_DAY \<le> s" using n(2) assms by auto
    then have "day_of (cur + 1 * US_PER_DAY) \<le> day_of s" by (rule day_of_mono)
    then show ?thesis by (simp add: day_of_def)
  qed
  with IH show "distinct (map (day_of \<circ> fst) ((cur, n) # date_chunks end_date (days * US_PER_DAY) n))"
    by fastforce
qed (use assms in auto)

section \<open>Creation settles a partition\<close>

definition names :: "catalog \<Rightarrow> string set" where
  "names cat = partition_name ` set cat"

definition children :: "string \<Rightarrow> catalog \<Rightarrow> partition list" where
  "children name cat = filter (\<lambda>p. parent_table p = name) cat"

text \<open>What the code relies on of the catalog for a partition of a given name.\<close>

definition catalog_ok :: "string \<Rightarrow> catalog \<Rightarrow> bool" where
  "catalog_ok name cat \<longleftrightarrow> (children name cat \<noteq> [] \<longrightarrow> name \<in> names cat) \<and>
     (\<forall>p\<in>set cat. \<forall>i. partition_name p = child_name name i \<longrightarrow> parent_table p = name)"

text \<open>Nothing is left to create: the partition exists with its buckets, or with a set of another kind.\<close>

definition settled :: "nat \<Rightarrow> string \<Rightarrow> catalog \<Rightarrow> bool" where
  "settled hb name cat \<longleftrightarrow> name \<in> names cat \<and>
     (hb = 0 \<or> (\<forall>i<hb. child_name name i \<in> names (children name cat)) \<or>
      (let m = remdups (List.map_filter (hash_modulus \<circ> partition_bounds) (children name cat)) in
       children name cat \<noteq> [] \<and> (length m \<noteq> 1 \<or> hd m \<noteq> hb)))"

lemma table_exists_iff: "CHR ''.'' \<notin> set name \<Longrightarrow> table_exists cat name \<longleftrightarrow> name \<in> names cat"
  by (auto simp: table_exists_def names_def split_char_plain)

lemma list_partitions_children: "CHR ''.'' \<notin> set name \<Longrightarrow> list_partitions cat name = children name cat"
  by (simp add: list_partitions_def children_def split_char_plain)

lemma set_map_names: "set (map partition_name ps) = names ps"
  by (simp add: names_def)

lemma missing_buckets:
  assumes "0 < hb"
  shows "map snd (filter (\<lambda>(i, _). child_name name i \<notin> N)
      (List.enumerate 0 (tl (create_time_partition ms parent name s e hb hc kt))))
    = map (\<lambda>i. CreatePartition (child_name name i) name (HashBound hb i) None)
        (filter (\<lambda>i. child_name name i \<notin> N) [0..<hb])"
proof -
  have "List.enumerate 0 (map g [0..<hb]) = map (\<lambda>i. (i, g i)) [0..<hb]" for g :: "nat \<Rightarrow> ddl"
    by (rule nth_equalityI) (auto simp: nth_enumerate_eq)
  with assms show ?thesis
    by (simp add: create_time_partition_def Let_def split_beta filter_map comp_def)
qed

lemmas execute_unfold = execute_partition_creation_def Let_def

lemma settled_execute:
  assumes "CHR ''.'' \<notin> set name" and "settled (case buckets of None \<Rightarrow> db | Some b \<Rightarrow> b) name cat"
  shows "execute_partition_creation ms db parent name s e buckets hc kt cat = (0, cat)"
proof -
  define hb where "hb = (case buckets of None \<Rightarrow> db | Some b \<Rightarrow> b)"
  have ex: "name \<in> names cat" using assms(2) by (simp add: settled_def)
  show ?thesis
    using assms(2) ex
    unfolding execute_unfold hb_def [symmetric] table_exists_iff [OF assms(1)] list_partitions_children [OF assms(1)]
    by (cases "hb = 0") (auto simp: missing_buckets filter_empty_conv settled_def names_def Let_def)
qed

text \<open>Statements that create partitions only add entries, with the names and parents they give.\<close>

fun ddl_entry :: "ddl \<Rightarrow> partition" where
  "ddl_entry (CreatePartition n q b h) = \<lparr>partition_name = n, parent_table = q, partition_bounds = b\<rparr>"
| "ddl_entry (DropTable n) = \<lparr>partition_name = n, parent_table = n, partition_bounds = HashBound 0 0\<rparr>"

definition is_create :: "ddl \<Rightarrow> bool" where
  "is_create d \<longleftrightarrow> (\<exists>n q b h. d = CreatePartition n q b h)"

lemma exec_creates:
  "\<forall>d\<in>set ds. is_create d \<Longrightarrow>
   (\<exists>new. fold exec_ddl ds cat = cat @ new \<and> set new \<subseteq> ddl_entry ` set ds) \<and>
   (\<forall>d\<in>set ds. partition_name (ddl_entry d) \<in> names (fold exec_ddl ds cat))"
proof (induction ds arbitrary: cat)
  case (Cons d ds)
  obtain n q b h where d: "d = CreatePartition n q b h" using Cons.prems by (auto simp: is_create_def)
  obtain new0 where c: "exec_ddl d cat = cat @ new0" and s: "set new0 \<subseteq> {ddl_entry d}" and m: "n \<in> names (exec_ddl d cat)"
    by (cases "\<exists>p\<in>set cat. partition_name p = n")
       (use that [of "[]"] that [of "[ddl_entry d]"] in \<open>auto simp: d names_def\<close>)
  obtain new where "fold exec_ddl ds (exec_ddl d cat) = exec_ddl d cat @ new" and "set new \<subseteq> ddl_entry ` set ds"
    and "\<forall>da\<in>set ds. partition_name (ddl_entry da) \<in> names (fold exec_ddl ds (exec_ddl d cat))"
    using Cons.IH [of "exec_ddl d cat"] Cons.prems by auto
  then show ?case using c s m by (auto simp: d names_def)
qed (simp add: names_def)

lemma create_is_create: "\<forall>d\<in>set (create_time_partition ms parent name s e hb hc kt). is_create d"
  by (auto simp: create_time_partition_def is_create_def Let_def)

lemma execute_cases:
  assumes "CHR ''.'' \<notin> set name" and hb: "hb = (case buckets of None \<Rightarrow> db | Some b \<Rightarrow> b)"
  obtains (settled) "settled hb name cat"
      "execute_partition_creation ms db parent name s e buckets hc kt cat = (0, cat)"
    | (fresh) ds where "name \<notin> names cat" "ds = create_time_partition ms parent name s e hb hc kt"
      "snd (execute_partition_creation ms db parent name s e buckets hc kt cat) = fold exec_ddl ds cat"
    | (fill) ds where "name \<in> names cat" "0 < hb"
      "ds = map (\<lambda>i. CreatePartition (child_name name i) name (HashBound hb i) None)
         (filter (\<lambda>i. child_name name i \<notin> names (children name cat)) [0..<hb])"
      "snd (execute_partition_creation ms db parent name s e buckets hc kt cat) = fold exec_ddl ds cat"
proof (cases "settled hb name cat")
  case True
  with settled_execute [OF assms(1)] hb show ?thesis using that(1) by blast
next
  case False
  note simps = execute_unfold hb [symmetric] table_exists_iff [OF assms(1)] list_partitions_children [OF assms(1)]
  show ?thesis
  proof (cases "name \<in> names cat")
    case out: False
    have ne: "create_time_partition ms parent name s e hb hc kt \<noteq> []"
      by (simp add: create_time_partition_def Let_def)
    show ?thesis
      by (rule that(2) [OF out refl]) (use out ne in \<open>simp add: simps\<close>)
  next
    case inn: True
    with False have hb0: "0 < hb" by (auto simp: settled_def)
    let ?m = "remdups (List.map_filter (hash_modulus \<circ> partition_bounds) (children name cat))"
    have good: "\<not> (children name cat \<noteq> [] \<and> length ?m \<noteq> 1)" "\<not> (children name cat \<noteq> [] \<and> hd ?m \<noteq> hb)"
      using False inn by (auto simp: settled_def Let_def)
    show ?thesis
      by (rule that(3) [OF inn hb0 refl])
         (simp only: simps inn hb0 good set_map_names missing_buckets [OF hb0] simp_thms if_True if_False,
          simp)
  qed
qed

text \<open>The entries an execution adds.\<close>

lemma execute_adds:
  assumes "CHR ''.'' \<notin> set name"
  obtains new where "snd (execute_partition_creation ms db parent name s e buckets hc kt cat) = cat @ new"
    "\<And>p. p \<in> set new \<Longrightarrow> (partition_name p = name \<and> parent_table p = parent) \<or>
       (\<exists>i. partition_name p = child_name name i \<and> parent_table p = name)"
proof (cases rule: execute_cases [OF assms refl, where buckets = buckets and db = db and cat = cat and ms = ms
      and parent = parent and s = s and e = e and hc = hc and kt = kt, case_names settled fresh fill])
  case settled
  then show ?thesis using that [of "[]"] by simp
next
  case (fresh ds)
  have ic: "\<forall>d\<in>set ds. is_create d" using create_is_create fresh(2) by blast
  obtain new where "fold exec_ddl ds cat = cat @ new" "set new \<subseteq> ddl_entry ` set ds"
    using exec_creates [OF ic, of cat] by blast
  moreover have "(partition_name p = name \<and> parent_table p = parent) \<or>
       (\<exists>i. partition_name p = child_name name i \<and> parent_table p = name)" if "p \<in> ddl_entry ` set ds" for p
    using that fresh(2) by (auto simp: create_time_partition_def Let_def split: if_splits)
  ultimately show ?thesis using that [of new] fresh(3) by (metis subset_iff)
next
  case (fill ds)
  have ic: "\<forall>d\<in>set ds. is_create d" using fill(3) by (auto simp: is_create_def)
  obtain new where "fold exec_ddl ds cat = cat @ new" "set new \<subseteq> ddl_entry ` set ds"
    using exec_creates [OF ic, of cat] by blast
  then show ?thesis using that [of new] fill(3,4) by fastforce
qed

lemma names_append [simp]: "names (a @ b) = names a \<union> names b"
  by (auto simp: names_def)

lemma children_append [simp]: "children n (a @ b) = children n a @ children n b"
  by (simp add: children_def)

lemma execute_settles:
  assumes dot: "CHR ''.'' \<notin> set name" and ok: "catalog_ok name cat" and "parent \<noteq> name"
    and nc: "\<And>i. child_name name i \<noteq> name"
  shows "settled (case buckets of None \<Rightarrow> db | Some b \<Rightarrow> b) name
    (snd (execute_partition_creation ms db parent name s e buckets hc kt cat))"
proof -
  define hb where "hb = (case buckets of None \<Rightarrow> db | Some b \<Rightarrow> b)"
  let ?cat = "snd (execute_partition_creation ms db parent name s e buckets hc kt cat)"
  obtain new where new: "?cat = cat @ new"
    "\<And>p. p \<in> set new \<Longrightarrow> (partition_name p = name \<and> parent_table p = parent) \<or>
       (\<exists>i. partition_name p = child_name name i \<and> parent_table p = name)"
    using execute_adds [OF dot] by blast
  have child: "child_name name i \<in> names (children name ?cat)" if "child_name name i \<in> names ?cat" for i
  proof -
    obtain p where p: "p \<in> set ?cat" "partition_name p = child_name name i"
      using \<open>child_name name i \<in> names ?cat\<close> by (auto simp: names_def)
    then have "parent_table p = name"
      using ok new(1) new(2) [of p] nc [of i] by (auto simp: catalog_ok_def)
    with p show ?thesis by (auto simp: names_def children_def intro!: image_eqI [of _ _ p])
  qed
  have "settled hb name ?cat"
  proof (cases rule: execute_cases [OF dot hb_def, where cat = cat and ms = ms and parent = parent and s = s
        and e = e and hc = hc and kt = kt, case_names settled fresh fill])
    case settled
    then show ?thesis by simp
  next
    case (fresh ds)
    have ic: "\<forall>d\<in>set ds. is_create d" using create_is_create fresh(2) by blast
    from exec_creates [OF ic, of cat] fresh(3)
    have "\<forall>d\<in>set ds. partition_name (ddl_entry d) \<in> names ?cat" by simp
    then have "name \<in> names ?cat" "\<forall>i<hb. child_name name i \<in> names ?cat"
      unfolding fresh(2) by (auto simp: create_time_partition_def Let_def split: if_splits)
    then show ?thesis using child by (auto simp: settled_def)
  next
    case (fill ds)
    have ic: "\<forall>d\<in>set ds. is_create d" using fill(3) by (auto simp: is_create_def)
    from exec_creates [OF ic, of cat] fill(4)
    have "\<forall>d\<in>set ds. partition_name (ddl_entry d) \<in> names ?cat" by simp
    then have "child_name name i \<in> names ?cat" if "i < hb" "child_name name i \<notin> names (children name cat)" for i
      using that unfolding fill(3) by auto
    then have "\<forall>i<hb. child_name name i \<in> names (children name ?cat)"
      using child new(1) by (metis UnI1 children_append names_append)
    moreover have "name \<in> names ?cat" using fill(1) new(1) by simp
    ultimately show ?thesis by (auto simp: settled_def)
  qed
  then show ?thesis by (simp add: hb_def)
qed

text \<open>Creating another partition of the same parent disturbs neither.\<close>

lemma execute_other:
  assumes dot: "CHR ''.'' \<notin> set name'" and ne: "name' \<noteq> name" "parent \<noteq> name" and len: "length name = length name'"
  shows "settled hb name cat \<Longrightarrow> settled hb name (snd (execute_partition_creation ms db parent name' s e buckets hc kt cat))"
    and "catalog_ok name cat \<Longrightarrow> catalog_ok name (snd (execute_partition_creation ms db parent name' s e buckets hc kt cat))"
proof -
  let ?cat = "snd (execute_partition_creation ms db parent name' s e buckets hc kt cat)"
  obtain new where new: "?cat = cat @ new"
    "\<And>p. p \<in> set new \<Longrightarrow> (partition_name p = name' \<and> parent_table p = parent) \<or>
       (\<exists>i. partition_name p = child_name name' i \<and> parent_table p = name')"
    using execute_adds [OF dot] by blast
  have nochild: "children name new = []"
    using new(2) ne by (fastforce simp: children_def filter_empty_conv)
  show "settled hb name cat \<Longrightarrow> settled hb name ?cat"
    unfolding new(1) by (auto simp: settled_def nochild)
  have "partition_name p \<noteq> child_name name i" if "p \<in> set new" for p i
  proof
    assume eq: "partition_name p = child_name name i"
    from new(2) [OF that] show False
    proof (elim disjE conjE exE)
      assume "partition_name p = name'"
      with eq len show False by (simp add: child_name_def)
    next
      fix j assume "partition_name p = child_name name' j"
      with eq have "name @ ''_h'' @ digits_of i = name' @ ''_h'' @ digits_of j" by (simp add: child_name_def)
      with len ne(1) show False by simp
    qed
  qed
  then show "catalog_ok name cat \<Longrightarrow> catalog_ok name ?cat"
    unfolding new(1) by (auto simp: catalog_ok_def nochild)
qed

definition chunk_name :: "string \<Rightarrow> datetime \<times> datetime \<Rightarrow> string" where
  "chunk_name parent c = parent @ ''_'' @ date_suffix (fst c)"

lemma snd_chunk_step:
  "snd (chunk_step ms db parent buckets hc kt c st) =
   snd (execute_partition_creation ms db parent (chunk_name parent c) (fst c) (snd c) buckets hc kt (snd st))"
  by (cases c, cases st) (simp add: chunk_step_apply chunk_name_def Let_def split_beta)

lemma fold_chunks_settle:
  assumes "\<forall>c\<in>set cs. CHR ''.'' \<notin> set (chunk_name parent c) \<and> length (chunk_name parent c) = L \<and> catalog_ok (chunk_name parent c) (snd st)"
    and "distinct (map (chunk_name parent) cs)" and "length parent < L"
    and "\<forall>d\<in>D. length d = L \<and> d \<notin> chunk_name parent ` set cs \<and> settled (case buckets of None \<Rightarrow> db | Some b \<Rightarrow> b) d (snd st)"
  shows "\<forall>d\<in>D \<union> chunk_name parent ` set cs.
    settled (case buckets of None \<Rightarrow> db | Some b \<Rightarrow> b) d (snd (fold (chunk_step ms db parent buckets hc kt) cs st))"
  using assms
proof (induction cs arbitrary: D st)
  case (Cons c cs)
  let ?hb = "case buckets of None \<Rightarrow> db | Some b \<Rightarrow> b"
  let ?n = "chunk_name parent c"
  let ?st = "chunk_step ms db parent buckets hc kt c st"
  have c: "CHR ''.'' \<notin> set ?n" "length ?n = L" "catalog_ok ?n (snd st)" "parent \<noteq> ?n" "\<And>i. child_name ?n i \<noteq> ?n"
    using Cons.prems(1,3) by (auto simp: child_name_def)
  have "settled ?hb ?n (snd ?st)"
    unfolding snd_chunk_step using c by (intro execute_settles) auto
  moreover have "settled ?hb d (snd ?st)" if "d \<in> D" for d
    unfolding snd_chunk_step using c Cons.prems(3,4) that by (intro execute_other(1)) auto
  moreover have "catalog_ok (chunk_name parent x) (snd ?st)" if "x \<in> set cs" for x
  proof -
    have "chunk_name parent x \<noteq> ?n" using Cons.prems(2) that by (metis distinct.simps(2) image_eqI list.set_map list.simps(9))
    moreover have "length (chunk_name parent x) = L" "catalog_ok (chunk_name parent x) (snd st)"
      using Cons.prems(1) that by auto
    moreover have "parent \<noteq> chunk_name parent x" using Cons.prems(1,3) that by auto
    ultimately show ?thesis unfolding snd_chunk_step using c by (intro execute_other(2)) auto
  qed
  ultimately have "\<forall>d\<in>insert ?n D \<union> chunk_name parent ` set cs.
      settled ?hb d (snd (fold (chunk_step ms db parent buckets hc kt) cs ?st))"
    using Cons.prems c by (intro Cons.IH) auto
  then show ?case by auto
qed simp

lemma fold_settled:
  assumes "\<forall>c\<in>set cs. CHR ''.'' \<notin> set (chunk_name parent c) \<and>
    settled (case buckets of None \<Rightarrow> db | Some b \<Rightarrow> b) (chunk_name parent c) cat"
  shows "fold (chunk_step ms db parent buckets hc kt) cs (n, cat) = (n, cat)"
  using assms
proof (induction cs)
  case (Cons c cs)
  obtain s e where c: "c = (s, e)" by (cases c)
  then have "execute_partition_creation ms db parent (parent @ ''_'' @ date_suffix s) s e buckets hc kt cat = (0, cat)"
    using Cons.prems by (intro settled_execute) (auto simp: chunk_name_def)
  with Cons show ?case by (simp add: c chunk_step_apply)
qed simp

lemma chunk_names_ok:
  assumes "0 < days" "CHR ''.'' \<notin> set parent" "1 \<le> dt_year start" "dt_year stop \<le> 9999"
  shows "\<forall>c\<in>set (date_chunks stop (days * US_PER_DAY) start).
      CHR ''.'' \<notin> set (chunk_name parent c) \<and> length (chunk_name parent c) = length parent + 9"
    and "distinct (map (chunk_name parent) (date_chunks stop (days * US_PER_DAY) start))"
proof -
  let ?cs = "date_chunks stop (days * US_PER_DAY) start"
  have yr: "1 \<le> dt_year (fst c) \<and> dt_year (fst c) \<le> 9999" if "c \<in> set ?cs" for c
  proof -
    obtain s e where c: "c = (s, e)" by (cases c)
    have "start \<le> s" "s \<le> stop"
      using date_chunks_starts [of "days * US_PER_DAY" stop start] assms(1) that c by auto
    then show ?thesis using dt_year_mono [of start s] dt_year_mono [of s stop] assms(3,4) c by simp
  qed
  show "\<forall>c\<in>set ?cs. CHR ''.'' \<notin> set (chunk_name parent c) \<and> length (chunk_name parent c) = length parent + 9"
  proof
    fix c assume "c \<in> set ?cs"
    note f = date_suffix_fields(1,2) [of "fst c"] yr [OF this]
    have "CHR ''.'' \<notin> set (date_suffix (fst c))" using f by (auto simp: is_digit_def)
    with f assms(2) show "CHR ''.'' \<notin> set (chunk_name parent c) \<and> length (chunk_name parent c) = length parent + 9"
      by (simp add: chunk_name_def)
  qed
  have "inj_on (chunk_name parent) (set ?cs)"
  proof (rule inj_onI)
    fix a b assume ab: "a \<in> set ?cs" "b \<in> set ?cs" "chunk_name parent a = chunk_name parent b"
    then have "day_of (fst a) = day_of (fst b)"
      using date_suffix_inj yr by (simp add: chunk_name_def)
    with date_chunks_days [OF assms(1), of stop start] ab(1,2) show "a = b"
      by (simp add: distinct_map inj_on_def)
  qed
  moreover have "distinct ?cs"
    using date_chunks_days [OF assms(1), of stop start] by (simp add: distinct_map)
  ultimately show "distinct (map (chunk_name parent) ?cs)" by (simp add: distinct_map)
qed

lemma create_partitions_fold:
  assumes "interval_days interval = Some days" "0 < days"
  shows "create_partitions_for_date_range ms db parent start stop interval buckets hc kt cat =
    Inr (fold (chunk_step ms db parent buckets hc kt) (date_chunks stop (days * US_PER_DAY) start) (0, cat))"
  using assms by (simp add: create_partitions_for_date_range_def range_loop_fold)

section \<open>Dropping\<close>

lemma fold_drop:
  "snd (fold (\<lambda>p (n, c). if old (partition_name p) then (Suc n, exec_ddl (drop_partition (partition_name p)) c) else (n, c)) ps (k, cat))
   = filter (\<lambda>p. \<forall>q\<in>set ps. old (partition_name q) \<longrightarrow> partition_name p \<noteq> partition_name q \<and> parent_table p \<noteq> partition_name q) cat"
proof (induction ps arbitrary: k cat)
  case (Cons q ps)
  show ?case
    by (auto simp: Cons.IH drop_partition_def intro!: filter_cong)
qed simp

section \<open>Properties\<close>

text \<open>
  What holds of \<open>int(dt.timestamp() * 1000)\<close> in doubles: it never falls when the instant grows,
  and is exact on whole seconds.
\<close>

definition ms_ok :: "(datetime \<Rightarrow> int) \<Rightarrow> bool" where
  "ms_ok ms \<longleftrightarrow> (\<forall>s t. s \<le> t \<longrightarrow> ms s \<le> ms t) \<and> (\<forall>t. t mod 1000000 = 0 \<longrightarrow> ms t = t div 1000)"

lemma ms_ok_div: "ms_ok (\<lambda>t. t div 1000)"
  by (simp add: ms_ok_def zdiv_mono1)

text \<open>
  Further property. The time of a UUID reads back: for an instant whose milliseconds fit 48 bits, the
  UUID made for it, with any random bits, is of version 7 and yields the milliseconds of the instant.
\<close>

theorem uuid7_roundtrip:
  assumes "0 \<le> ms t" "ms t < 2 ^ 48"
  shows "extract_datetime (from_datetime ms r2 r8 t) = Some (ms t * 1000) \<and>
    0 \<le> from_datetime ms r2 r8 t \<and> from_datetime ms r2 r8 t < 2 ^ 128"
  using uuid7_bits_range [OF and_mask_range(1,2) [of r2] and_mask_range(3,4) [of r8] assms]
    uuid7_fields [OF and_mask_range(1,2) [of r2] and_mask_range(3,4) [of r8], of "ms t"]
  by (simp add: extract_datetime_def from_datetime_def)

theorem uuid7_roundtrip_witness:
  "extract_datetime (from_datetime (\<lambda>t. t div 1000) 4660 99 1700000000123000) = Some 1700000000123000"
  using uuid7_roundtrip [of "\<lambda>t. t div 1000" 1700000000123000 4660 99] by simp

text \<open>
  Further property. UUID ranges prune exactly: a UUID made for an instant, with any random bits, lies in
  the UUID range of a range of whole-second bounds exactly when the instant, at the precision of a
  UUID, lies in that range of time.
\<close>

theorem uuid_range_is_time_range:
  assumes "ms_ok ms" and "0 \<le> s" "e < 2 ^ 48 * 1000" "0 \<le> e" "s < 2 ^ 48 * 1000"
    and "s mod 1000000 = 0" "e mod 1000000 = 0"
  shows "(fst (get_range_for_date ms s e) \<le> from_datetime ms r2 r8 t \<and>
          from_datetime ms r2 r8 t < snd (get_range_for_date ms s e))
    \<longleftrightarrow> s div 1000 \<le> ms t \<and> ms t < e div 1000"
proof -
  have ms: "ms s = s div 1000" "ms e = e div 1000" using assms by (auto simp: ms_ok_def)
  have b: "uuid7_for_timestamp ms True x = uuid7_bits (x div 1000) 0 0"
    if "ms x = x div 1000" "0 \<le> x" "x < 2 ^ 48 * 1000" for x
  proof -
    have "0 \<le> x div 1000" "x div 1000 \<le> 2 ^ 48 - 1" using that by auto
    then show ?thesis using that(1) by (simp add: uuid7_for_timestamp_def)
  qed
  note o = uuid7_order [OF and_mask_range(1,2) [of r2] and_mask_range(3,4) [of r8]]
  show ?thesis
    unfolding get_range_for_date_def from_datetime_def fst_conv snd_conv
      b [OF ms(1) assms(2,5)] b [OF ms(2) assms(4,3)] o not_le [symmetric] by blast
qed

theorem uuid_range_is_time_range_witness:
  "let r = get_range_for_date (\<lambda>t. t div 1000) 1000000 2000000 in
   fst r \<le> from_datetime (\<lambda>t. t div 1000) 99 77 1999999 \<and> from_datetime (\<lambda>t. t div 1000) 99 77 1999999 < snd r"
  using uuid_range_is_time_range [OF ms_ok_div, of 1000000 2000000 99 77 1999999] by (simp add: Let_def)

text \<open>
  Further property. The partitions of a date range tile it: creation over a range runs to the end, and
  the ranges it creates partitions for cover every instant of the range exactly once and no other.
\<close>

theorem partition_ranges_tile:
  assumes "interval_days interval = Some days" and "0 < days"
  shows "(\<exists>r. create_partitions_for_date_range ms db parent start stop interval buckets hc kt cat = Inr r) \<and>
    length (filter (\<lambda>(s, e). s \<le> t \<and> t < e) (date_chunks stop (days * US_PER_DAY) start))
      = (if start \<le> t \<and> t < stop then 1 else 0)"
  using create_partitions_fold [OF assms] date_chunks_cover [of "days * US_PER_DAY" t stop start] assms(2)
  by simp

theorem partition_ranges_tile_witness:
  "length (filter (\<lambda>(s, e). s \<le> 5 \<and> 5 < e) (date_chunks (3 * US_PER_DAY) (1 * US_PER_DAY) 0)) = 1"
  using partition_ranges_tile [of "IntervalDays 1" 1 _ _ _ 0 "3 * US_PER_DAY" _ _ _ _ 5] by simp

text \<open>
  Property C19. Partition creation is idempotent: run twice over the same range it creates nothing
  the second time and leaves the catalog of the first run, whatever buckets were there before.
\<close>

theorem partition_creation_idempotent:
  assumes "interval_days interval = Some days" "0 < days" "CHR ''.'' \<notin> set parent"
    and "1 \<le> dt_year start" "dt_year stop \<le> 9999"
    and "\<forall>t. catalog_ok (parent @ ''_'' @ date_suffix t) cat"
  shows "\<exists>n cat'. create_partitions_for_date_range ms db parent start stop interval buckets hc kt cat = Inr (n, cat') \<and>
    create_partitions_for_date_range ms db parent start stop interval buckets hc kt cat' = Inr (0, cat')"
proof -
  let ?cs = "date_chunks stop (days * US_PER_DAY) start"
  obtain n cat' where run: "fold (chunk_step ms db parent buckets hc kt) ?cs (0, cat) = (n, cat')"
    by (cases "fold (chunk_step ms db parent buckets hc kt) ?cs (0, cat)")
  note ok = chunk_names_ok [OF assms(2-5)]
  have "\<forall>c\<in>set ?cs. settled (case buckets of None \<Rightarrow> db | Some b \<Rightarrow> b) (chunk_name parent c) cat'"
    using fold_chunks_settle [where cs = ?cs and parent = parent and L = "length parent + 9" and st = "(0, cat)"
        and D = "{}" and buckets = buckets and db = db and ms = ms and hc = hc and kt = kt] ok assms(6) run
    by (simp add: chunk_name_def)
  then have "fold (chunk_step ms db parent buckets hc kt) ?cs (0, cat') = (0, cat')"
    using ok by (intro fold_settled) blast
  with run show ?thesis by (simp add: create_partitions_fold [OF assms(1,2)])
qed

theorem partition_creation_idempotent_witness:
  "\<exists>n cat'. create_partitions_for_date_range (\<lambda>t. t div 1000) 2 ''logs'' 0 (2 * US_PER_DAY) (IntervalDays 1) None ''o'' Uuid7 [] = Inr (n, cat')
     \<and> create_partitions_for_date_range (\<lambda>t. t div 1000) 2 ''logs'' 0 (2 * US_PER_DAY) (IntervalDays 1) None ''o'' Uuid7 cat' = Inr (0, cat')"
proof -
  have "1 \<le> dt_year 0" "dt_year (2 * US_PER_DAY) \<le> 9999" by code_simp+
  then show ?thesis
    by (intro partition_creation_idempotent [of "IntervalDays 1" 1]) (simp_all add: catalog_ok_def children_def)
qed

text \<open>
  Property C20. Retention is exact: of the partitions a table was given for days, those are dropped
  whose whole range lies before the retention threshold, with their buckets, and no other.
\<close>

theorem drop_old_is_exact:
  assumes "CHR ''.'' \<notin> set parent" and "p \<in> set cat" "parent_table p = parent"
    and "partition_name p = parent @ ''_'' @ date_suffix t" "1 \<le> dt_year t" "dt_year t \<le> 9999"
    and "\<forall>q\<in>set cat. parent_table q = parent \<longrightarrow> partition_name q \<noteq> parent"
  shows "p \<in> set (snd (drop_old_partitions today parent max_days interval cat))
    \<longleftrightarrow> today - max_days \<le> day_of t + interval"
proof -
  have old: "is_old_partition today max_days interval (partition_name p) \<longleftrightarrow> day_of t + interval < today - max_days"
    by (simp only: is_old_partition_def assms(4) ymd_of_partition_name [OF assms(5,6)] option.case
        parse_date_suffix [OF assms(5,6)])
  have ps: "set (list_partitions cat parent) = {q \<in> set cat. parent_table q = parent}"
    using list_partitions_children [OF assms(1)] by (auto simp: children_def)
  have "p \<in> set (snd (drop_old_partitions today parent max_days interval cat)) \<longleftrightarrow>
    (\<forall>q\<in>set (list_partitions cat parent). is_old_partition today max_days interval (partition_name q) \<longrightarrow>
       partition_name p \<noteq> partition_name q \<and> parent_table p \<noteq> partition_name q)"
    using assms(2) unfolding drop_old_partitions_def fold_drop by simp
  also have "\<dots> \<longleftrightarrow> \<not> is_old_partition today max_days interval (partition_name p)"
    using assms(2,3,7) unfolding ps by auto
  finally show ?thesis unfolding old by linarith
qed

theorem drop_old_is_exact_witness:
  "let p = \<lparr>partition_name = ''logs_'' @ date_suffix 0, parent_table = ''logs'', partition_bounds = TimeRange 0 5\<rparr> in
   p \<notin> set (snd (drop_old_partitions 100 ''logs'' 90 7 [p])) \<and> p \<in> set (snd (drop_old_partitions 100 ''logs'' 93 7 [p]))"
proof -
  have y: "1 \<le> dt_year 0" "dt_year 0 \<le> 9999" by code_simp+
  have d: "day_of 0 = 0" by (simp add: day_of_def)
  let ?p = "\<lparr>partition_name = ''logs_'' @ date_suffix 0, parent_table = ''logs'', partition_bounds = TimeRange 0 5\<rparr>"
  have "?p \<in> set (snd (drop_old_partitions 100 ''logs'' m 7 [?p])) \<longleftrightarrow> 100 - m \<le> 7" for m
    using drop_old_is_exact [of "''logs''" ?p "[?p]" 0 100 m 7] y d by simp
  then show ?thesis by (simp add: Let_def)
qed

text \<open>
  A bucket set with another modulus than the configured one is complete and is left alone, however
  many of its children are there.
\<close>

lemma other_modulus_left_alone:
  assumes "CHR ''.'' \<notin> set name" "name \<in> names cat" "children name cat \<noteq> []"
    and "\<forall>p\<in>set (children name cat). \<exists>r. partition_bounds p = HashBound m r" "m \<noteq> b" "0 < b"
  shows "execute_partition_creation ms db parent name s e (Some b) hc kt cat = (0, cat)"
proof (rule settled_execute [OF assms(1)])
  obtain p ps where ch: "children name cat = p # ps" using assms(3) by (cases "children name cat") auto
  have "List.map_filter (hash_modulus \<circ> partition_bounds) qs = replicate (length qs) m"
    if "\<forall>p\<in>set qs. \<exists>r. partition_bounds p = HashBound m r" for qs
    using that by (induction qs) (auto simp: map_filter_def)
  note m = this [OF assms(4)]
  have "remdups (replicate (Suc k) m) = [m]" for k by (induction k) auto
  then have "remdups (List.map_filter (hash_modulus \<circ> partition_bounds) (children name cat)) = [m]"
    unfolding m using ch by (metis length_Cons)
  then show "settled (case Some b of None \<Rightarrow> db | Some b \<Rightarrow> b) name cat"
    using assms(2,3,5) by (simp add: settled_def)
qed

end
