(* ===== verification/Event_Utils.thy ===== *)
theory Event_Utils
  imports GT_Prelude "HOL-Library.Multiset"
begin

text \<open>
  Pure functions of the event ingest: \<open>apps/event_ingest/utils.py\<close> (grouping hash, message
  formatting, removal of characters the database cannot store) and the helpers of
  \<open>apps/event_ingest/process_event.py\<close> that derive the search text, the tags and the stack traces
  of an event.

  The hash function, \<open>urlparse\<close> and the two formatting operators of Python are arguments; a
  function that may raise one of the exceptions the code catches returns \<open>None\<close> there.
\<close>

section \<open>Characters the database cannot store\<close>

definition KNOWN_BADS :: "char list" where
  "KNOWN_BADS = [CHR 0x00]"

definition clean_string :: "string \<Rightarrow> string" where
  "clean_string s = fold (\<lambda>c t. filter (\<lambda>x. x \<noteq> c) t) KNOWN_BADS s"

text \<open>\<open>None\<close> is the \<open>AttributeError\<close> for a dictionary key that is not text.\<close>

fun remove_bad_chars :: "json \<Rightarrow> json option"
  and remove_bad_list :: "json list \<Rightarrow> json list option"
  and remove_bad_items :: "(pkey \<times> json) list \<Rightarrow> (pkey \<times> json) list option" where
  "remove_bad_chars (JDict kvs) =
     map_option (\<lambda>l. JDict (fold (\<lambda>(k, v) m. dset m k v) l [])) (remove_bad_items kvs)"
| "remove_bad_chars (JList xs) = map_option JList (remove_bad_list xs)"
| "remove_bad_chars (JTuple xs) = map_option JList (remove_bad_list xs)"
| "remove_bad_chars (JStr s) = Some (JStr (clean_string s))"
| "remove_bad_chars v = Some v"
| "remove_bad_list [] = Some []"
| "remove_bad_list (x # xs) =
     (case remove_bad_chars x of None \<Rightarrow> None | Some y \<Rightarrow> map_option (Cons y) (remove_bad_list xs))"
| "remove_bad_items [] = Some []"
| "remove_bad_items ((KInt i, v) # kvs) = None"
| "remove_bad_items ((KStr k, v) # kvs) =
     (case remove_bad_chars v of None \<Rightarrow> None
      | Some y \<Rightarrow> map_option (Cons (KStr (clean_string k), y)) (remove_bad_items kvs))"

section \<open>The grouping hash\<close>

text \<open>The argument \<open>ty\<close> is the decimal text of the event type, \<open>str(type)\<close>.\<close>

definition default_hash_input :: "string \<Rightarrow> string \<Rightarrow> string \<Rightarrow> string" where
  "default_hash_input title culprit ty = title @ culprit @ ty"

definition hash_part :: "string \<Rightarrow> string option \<Rightarrow> string" where
  "hash_part dflt part =
     (case part of None \<Rightarrow> [] | Some p \<Rightarrow> if p = ''{{ default }}'' then dflt else p)"

definition generate_hash ::
    "(string \<Rightarrow> string) \<Rightarrow> string \<Rightarrow> string \<Rightarrow> string \<Rightarrow> string option list option \<Rightarrow> string" where
  "generate_hash md5 title culprit ty extra =
     (let dflt = default_hash_input title culprit ty in
      md5 (case extra of
             Some (p # ps) \<Rightarrow> concat (map (hash_part dflt) (p # ps))
           | _ \<Rightarrow> dflt))"

section \<open>Parameterized messages\<close>

datatype params = PList "json list" | PDict "(string, json) dict" | PNone

record event_message =
  formatted :: string
  msg_template :: "string option"
  msg_params :: params

datatype message = MText string | MEvent event_message

definition transform_parameterized_message ::
    "(string \<Rightarrow> json list \<Rightarrow> string option) \<Rightarrow> (string \<Rightarrow> (string, json) dict \<Rightarrow> string option) \<Rightarrow> message \<Rightarrow> string" where
  "transform_parameterized_message percent_format str_format m =
     (case m of
        MText s \<Rightarrow> s
      | MEvent e \<Rightarrow>
          (case msg_template e of
             Some t \<Rightarrow>
               if formatted e = [] \<and> t \<noteq> [] then
                 (case msg_params e of
                    PList (p # ps) \<Rightarrow> (case percent_format t (p # ps) of Some s \<Rightarrow> s | None \<Rightarrow> t)
                  | PDict d \<Rightarrow> (case str_format t d of Some s \<Rightarrow> s | None \<Rightarrow> t)
                  | _ \<Rightarrow> t)
               else formatted e
           | None \<Rightarrow> formatted e))"

section \<open>Search text\<close>

definition MAX_SEARCH_PART_LENGTH :: nat where "MAX_SEARCH_PART_LENGTH = 250"
definition MAX_FILENAME_LEN :: nat where "MAX_FILENAME_LEN = 100"
definition MAX_TOTAL_FILENAMES :: nat where "MAX_TOTAL_FILENAMES = 5"
definition MAX_FRAMES_PER_STACKTRACE :: nat where "MAX_FRAMES_PER_STACKTRACE = 3"
definition MAX_STACKTRACES_TO_PROCESS :: nat where "MAX_STACKTRACES_TO_PROCESS = 2"
definition MAX_VECTOR_STRING_SEGMENT_LEN :: nat where "MAX_VECTOR_STRING_SEGMENT_LEN = 2048"

definition truncate_string :: "string option \<Rightarrow> nat \<Rightarrow> string" where
  "truncate_string s n = (case s of None \<Rightarrow> [] | Some t \<Rightarrow> take n t)"

definition basename :: "string \<Rightarrow> string" where
  "basename p = last (split_char (CHR ''/'') p)"

text \<open>
  What the search text is made from: title, transaction, the URL of the request, and per
  exception of a value list the file names of its frames (\<open>None\<close> where it has no stack trace).
\<close>

record search_source =
  ss_title :: string
  ss_transaction :: string
  ss_url :: "string option"
  ss_exceptions :: "string option list option list"

fun frame_loop :: "nat \<Rightarrow> string option list \<Rightarrow> string list" where
  "frame_loop n [] = []"
| "frame_loop n (f # fs) =
     (if n \<ge> MAX_FRAMES_PER_STACKTRACE then []
      else if f = None \<or> f = Some [] then frame_loop n fs
      else (let b = truncate_string (Some (basename (the f))) MAX_FILENAME_LEN in
            if b \<noteq> [] then b # frame_loop (n + 1) fs else frame_loop n fs))"

fun stack_loop :: "nat \<Rightarrow> string option list option list \<Rightarrow> string list" where
  "stack_loop n [] = []"
| "stack_loop n (e # es) =
     (if n \<ge> MAX_STACKTRACES_TO_PROCESS then []
      else case e of
             None \<Rightarrow> stack_loop n es
           | Some frames \<Rightarrow>
               (let names = frame_loop 0 (rev frames)
                in names @ stack_loop (if names \<noteq> [] then n + 1 else n) es))"

text \<open>\<open>urlparse\<close> gives scheme, network location and path, or raises \<open>ValueError\<close>.\<close>

definition url_part :: "(string \<Rightarrow> (string \<times> string \<times> string) option) \<Rightarrow> string \<Rightarrow> string list" where
  "url_part urlparse url =
     (case urlparse url of
        Some (scheme, netloc, path) \<Rightarrow>
          (let tp = truncate_string (Some path) MAX_SEARCH_PART_LENGTH;
               sn = (if scheme \<noteq> [] \<and> netloc \<noteq> [] then scheme @ ''://'' @ netloc
                     else if netloc \<noteq> [] then netloc else [])
           in if sn \<noteq> [] \<or> tp \<noteq> [] then [truncate_string (Some (sn @ tp)) MAX_SEARCH_PART_LENGTH] else [])
      | None \<Rightarrow> [truncate_string (Some url) MAX_SEARCH_PART_LENGTH])"

definition search_parts :: "(string \<Rightarrow> (string \<times> string \<times> string) option) \<Rightarrow> search_source \<Rightarrow> string list" where
  "search_parts urlparse ev =
     (if ss_title ev \<noteq> [] then [truncate_string (Some (ss_title ev)) MAX_SEARCH_PART_LENGTH] else []) @
     (if ss_transaction ev \<noteq> [] then [truncate_string (Some (ss_transaction ev)) MAX_SEARCH_PART_LENGTH] else []) @
     (case ss_url ev of Some url \<Rightarrow> if url \<noteq> [] then url_part urlparse url else [] | None \<Rightarrow> []) @
     take MAX_TOTAL_FILENAMES (stack_loop 0 (ss_exceptions ev))"

text \<open>\<open>s.rfind(" ", 0, n)\<close>, \<open>None\<close> for -1.\<close>

definition rfind_space :: "string \<Rightarrow> nat \<Rightarrow> nat option" where
  "rfind_space s n = find (\<lambda>i. s ! i = CHR '' '') (rev [0..<min n (length s)])"

definition get_search_vector :: "(string \<Rightarrow> (string \<times> string \<times> string) option) \<Rightarrow> search_source \<Rightarrow> string" where
  "get_search_vector urlparse ev =
     (let full = join '' '' (sort (filter (\<lambda>p. p \<noteq> []) (remdups (search_parts urlparse ev))));
          cut = (if length full > MAX_VECTOR_STRING_SEGMENT_LEN
                 then (case rfind_space full MAX_VECTOR_STRING_SEGMENT_LEN of
                         None \<Rightarrow> take MAX_VECTOR_STRING_SEGMENT_LEN full
                       | Some i \<Rightarrow> take i full)
                 else full)
      in clean_string cut)"

section \<open>Tags\<close>

record browser_context =
  browser_name :: "string option"
  browser_version :: "string option"

record tag_source =
  ts_tags :: "(string, string option) dict"
  ts_browser :: "browser_context option"
  ts_os :: "string option option"
  ts_device_model :: "string option"
  ts_user_id :: "string option"
  ts_user_email :: "string option"
  ts_user_name :: "string option"
  ts_environment :: "string option"
  ts_release :: "string option"
  ts_server_name :: "string option"

text \<open>An optional text counts as present when it is not empty; formatting prints \<open>None\<close>.\<close>

definition present :: "string option \<Rightarrow> bool" where
  "present s \<longleftrightarrow> s \<noteq> None \<and> s \<noteq> Some []"

definition str_opt :: "string option \<Rightarrow> string" where
  "str_opt s = (case s of None \<Rightarrow> ''None'' | Some t \<Rightarrow> t)"

definition set_if :: "string \<Rightarrow> string option \<Rightarrow> (string, string option) dict \<Rightarrow> (string, string option) dict" where
  "set_if k s m = (if present s then dset m k s else m)"

definition context_tags :: "tag_source \<Rightarrow> (string, string option) dict \<Rightarrow> (string, string option) dict" where
  "context_tags ev m0 =
     (let m1 = (case ts_browser ev of None \<Rightarrow> m0
                | Some b \<Rightarrow> dset (dset m0 ''browser.name'' (browser_name b)) ''browser''
                             (Some (str_opt (browser_name b) @ '' '' @ str_opt (browser_version b))));
          m2 = (case ts_os ev of None \<Rightarrow> m1 | Some n \<Rightarrow> dset m1 ''os.name'' n)
      in set_if ''device'' (ts_device_model ev) m2)"

definition generate_tags :: "tag_source \<Rightarrow> (string, string) dict" where
  "generate_tags ev =
     (let m = set_if ''server_name'' (ts_server_name ev) (set_if ''release'' (ts_release ev)
                (set_if ''environment'' (ts_environment ev) (set_if ''user.username'' (ts_user_name ev)
                  (set_if ''user.email'' (ts_user_email ev) (set_if ''user.id'' (ts_user_id ev)
                    (context_tags ev (ts_tags ev)))))))
      in map (\<lambda>(k, v). (k, the v)) (filter (\<lambda>(k, v). present v) m))"

section \<open>Stack traces from threads\<close>

record 'st thread =
  th_id :: string
  th_current :: bool
  th_stacktrace :: "'st option"

record 'st exc =
  ex_thread_id :: "string option"
  ex_stacktrace :: "'st option"

text \<open>Ids are compared by their texts; the arguments are the value lists, \<open>[]\<close> where absent.\<close>

definition thread_match :: "'st thread list \<Rightarrow> 'st exc \<Rightarrow> 'st thread option" where
  "thread_match threads e =
     (let by_id = (case ex_thread_id e of None \<Rightarrow> None | Some i \<Rightarrow> find (\<lambda>t. th_id t = i) threads)
      in case by_id of Some t \<Rightarrow> Some t | None \<Rightarrow> find th_current threads)"

definition hydrate_one :: "'st thread list \<Rightarrow> 'st exc \<Rightarrow> 'st exc" where
  "hydrate_one threads e =
     (if ex_stacktrace e \<noteq> None then e
      else case thread_match threads e of
             Some t \<Rightarrow> (if th_stacktrace t \<noteq> None then e\<lparr>ex_stacktrace := th_stacktrace t\<rparr> else e)
           | None \<Rightarrow> e)"

definition hydrate_stacktrace :: "'st exc list \<Rightarrow> 'st thread list \<Rightarrow> 'st exc list" where
  "hydrate_stacktrace excs threads =
     (if excs = [] \<or> threads = [] then excs else map (hydrate_one threads) excs)"

section \<open>Lemmas\<close>

lemma clean_string_filter: "clean_string s = filter (\<lambda>c. c \<noteq> CHR 0x00) s"
  by (simp add: clean_string_def KNOWN_BADS_def)

lemma clean_string_idem [simp]: "clean_string (clean_string s) = clean_string s"
  by (simp add: clean_string_filter)

lemma clean_string_no_nul [simp]: "CHR 0x00 \<notin> set (clean_string s)"
  by (simp add: clean_string_filter)

lemma length_clean_string: "length (clean_string s) \<le> length s"
  by (simp add: clean_string_filter)

subsection \<open>Search text\<close>

text \<open>The weight of a part in the joined text: its length and the space before it.\<close>

definition weight :: "string list \<Rightarrow> nat" where
  "weight xs = sum_list (map (\<lambda>x. length x + 1) xs)"

lemma weight_simps [simp]:
  "weight [] = 0" "weight (x # xs) = length x + 1 + weight xs" "weight (xs @ ys) = weight xs + weight ys"
  by (simp_all add: weight_def)

lemma length_join: "length (join '' '' xs) \<le> weight xs - 1"
  by (induction xs rule: induct_list012) auto

lemma weight_remdups: "weight (remdups xs) \<le> weight xs"
  by (induction xs) auto

lemma weight_filter: "weight (filter P xs) \<le> weight xs"
  by (induction xs) auto

lemma weight_sort [simp]: "weight (sort xs) = weight xs"
proof -
  have "mset (map (\<lambda>x. length x + 1) (sort xs)) = mset (map (\<lambda>x. length x + 1) xs)" by simp
  then show ?thesis unfolding weight_def by (simp only: flip: sum_mset_sum_list)
qed

lemma weight_bound: "\<forall>x\<in>set xs. length x \<le> n \<Longrightarrow> weight xs \<le> (n + 1) * length xs"
  by (induction xs) auto

lemma frame_loop_length: "x \<in> set (frame_loop n fs) \<Longrightarrow> length x \<le> MAX_FILENAME_LEN"
  by (induction n fs rule: frame_loop.induct) (auto simp: Let_def truncate_string_def split: if_splits)

lemma stack_loop_length: "x \<in> set (stack_loop n es) \<Longrightarrow> length x \<le> MAX_FILENAME_LEN"
  by (induction n es rule: stack_loop.induct)
     (auto simp: Let_def dest: frame_loop_length split: if_splits option.splits)

lemma length_truncate: "length (truncate_string s n) \<le> n"
  by (simp add: truncate_string_def split: option.split)

lemma weight_truncate: "length (truncate_string s MAX_SEARCH_PART_LENGTH) \<le> 250"
  using length_truncate [of s MAX_SEARCH_PART_LENGTH] by (simp add: MAX_SEARCH_PART_LENGTH_def)

lemma weight_url_part: "weight (url_part urlparse url) \<le> 251"
  by (simp add: url_part_def Let_def weight_truncate split: option.split prod.split)

lemma weight_search_parts: "weight (search_parts urlparse ev) \<le> 1258"
proof -
  have "weight (take MAX_TOTAL_FILENAMES (stack_loop 0 (ss_exceptions ev))) \<le>
      (MAX_FILENAME_LEN + 1) * length (take MAX_TOTAL_FILENAMES (stack_loop 0 (ss_exceptions ev)))"
    by (rule weight_bound) (auto dest: in_set_takeD stack_loop_length)
  also have "\<dots> \<le> 505" by (simp add: MAX_TOTAL_FILENAMES_def MAX_FILENAME_LEN_def)
  finally have files: "weight (take MAX_TOTAL_FILENAMES (stack_loop 0 (ss_exceptions ev))) \<le> 505" .
  have url: "weight (case ss_url ev of Some url \<Rightarrow> if url \<noteq> [] then url_part urlparse url else [] | None \<Rightarrow> []) \<le> 251"
    using weight_url_part by (simp split: option.split)
  show ?thesis
    using files url weight_truncate [of "Some (ss_title ev)"] weight_truncate [of "Some (ss_transaction ev)"]
    by (simp add: search_parts_def)
qed

subsection \<open>Tags\<close>

lemma map_of_set_if: "map_of (set_if k s m) k' = (if k' = k \<and> present s then Some s else map_of m k')"
  by (simp add: set_if_def)

lemma dict_ok_set_if [simp]: "dict_ok m \<Longrightarrow> dict_ok (set_if k s m)"
  by (simp add: set_if_def)

lemma dict_ok_context_tags [simp]: "dict_ok m \<Longrightarrow> dict_ok (context_tags ev m)"
  by (simp add: context_tags_def Let_def split: option.split)

lemma map_of_filter_present:
  assumes "dict_ok m"
  shows "map_of (map (\<lambda>(k, v). (k, the v)) (filter (\<lambda>(k, v). present v) m)) k =
    (case map_of m k of Some v \<Rightarrow> if present v then v else None | None \<Rightarrow> None)"
  using assms
proof (induction m)
  case (Cons p m)
  obtain k' v where p: "p = (k', v)" by (cases p)
  have "map_of m k' = None" using Cons.prems p by (simp add: map_of_eq_None_iff)
  with Cons p show ?case by (auto simp: present_def)
qed simp

section \<open>Properties\<close>

text \<open>
  Further property. The search text of an event keeps every part whole: it is the sorted, space
  separated list of the distinct non-empty parts without NUL characters, of at most 1257
  characters. The cut at 2048 characters is never reached.
\<close>

theorem search_vector_complete:
  "get_search_vector urlparse ev =
     clean_string (join '' '' (sort (filter (\<lambda>p. p \<noteq> []) (remdups (search_parts urlparse ev))))) \<and>
   length (get_search_vector urlparse ev) \<le> 1257 \<and> CHR 0x00 \<notin> set (get_search_vector urlparse ev)"
proof -
  let ?full = "join '' '' (sort (filter (\<lambda>p. p \<noteq> []) (remdups (search_parts urlparse ev))))"
  have "length ?full \<le> weight (filter (\<lambda>p. p \<noteq> []) (remdups (search_parts urlparse ev))) - 1"
    using length_join by (metis weight_sort)
  also have "\<dots> \<le> 1257"
    using weight_filter [of "\<lambda>p. p \<noteq> []" "remdups (search_parts urlparse ev)"]
      weight_remdups [of "search_parts urlparse ev"] weight_search_parts [of urlparse ev] by linarith
  finally have short: "length ?full \<le> 1257" .
  then have eq: "get_search_vector urlparse ev = clean_string ?full"
    by (simp add: get_search_vector_def MAX_VECTOR_STRING_SEGMENT_LEN_def Let_def)
  have "length (clean_string ?full) \<le> 1257" using length_clean_string [of ?full] short by linarith
  then show ?thesis unfolding eq using clean_string_no_nul by blast
qed

text \<open>
  Further property. The tags of an event hold no empty value; a field of the event that is present
  decides its reserved tag, whatever tags were sent along; a tag that is not reserved is kept as
  it was sent, unless it is empty.
\<close>

theorem generate_tags_reserved:
  assumes "dict_ok (ts_tags ev)"
  shows "(map_of (generate_tags ev) k = Some v \<longrightarrow> v \<noteq> []) \<and>
    (present (ts_server_name ev) \<longrightarrow> map_of (generate_tags ev) ''server_name'' = ts_server_name ev) \<and>
    (present (ts_release ev) \<longrightarrow> map_of (generate_tags ev) ''release'' = ts_release ev) \<and>
    (present (ts_environment ev) \<longrightarrow> map_of (generate_tags ev) ''environment'' = ts_environment ev) \<and>
    (present (ts_user_name ev) \<longrightarrow> map_of (generate_tags ev) ''user.username'' = ts_user_name ev) \<and>
    (present (ts_user_email ev) \<longrightarrow> map_of (generate_tags ev) ''user.email'' = ts_user_email ev) \<and>
    (present (ts_user_id ev) \<longrightarrow> map_of (generate_tags ev) ''user.id'' = ts_user_id ev) \<and>
    (present (ts_device_model ev) \<longrightarrow> map_of (generate_tags ev) ''device'' = ts_device_model ev) \<and>
    (k \<notin> {''server_name'', ''release'', ''environment'', ''user.username'', ''user.email'', ''user.id'', ''device'',
          ''browser'', ''browser.name'', ''os.name''} \<longrightarrow>
      map_of (generate_tags ev) k =
        (case map_of (ts_tags ev) k of Some s \<Rightarrow> if present s then s else None | None \<Rightarrow> None))"
proof -
  let ?m = "set_if ''server_name'' (ts_server_name ev) (set_if ''release'' (ts_release ev)
              (set_if ''environment'' (ts_environment ev) (set_if ''user.username'' (ts_user_name ev)
                (set_if ''user.email'' (ts_user_email ev) (set_if ''user.id'' (ts_user_id ev)
                  (context_tags ev (ts_tags ev)))))))"
  have get: "map_of (generate_tags ev) k = (case map_of ?m k of Some v \<Rightarrow> if present v then v else None | None \<Rightarrow> None)" for k
    unfolding generate_tags_def Let_def by (rule map_of_filter_present) (simp add: assms)
  have ctx: "k \<notin> {''device'', ''browser'', ''browser.name'', ''os.name''} \<Longrightarrow>
      map_of (context_tags ev (ts_tags ev)) k = map_of (ts_tags ev) k" for k
    by (simp add: context_tags_def Let_def map_of_set_if split: option.split)
  have dev: "present (ts_device_model ev) \<Longrightarrow> map_of (context_tags ev (ts_tags ev)) ''device'' = Some (ts_device_model ev)"
    by (simp add: context_tags_def Let_def map_of_set_if)
  show ?thesis
    unfolding get
    by (intro conjI impI)
       (auto simp: map_of_set_if ctx dev present_def split: option.splits if_splits)
qed

text \<open>
  Further property. Filling in stack traces never replaces one: an exception that has one is left
  alone; one that has none takes that of the first thread with its thread id, or of the first
  current thread if no thread has its id, and stays without if that thread has none.
\<close>

theorem hydrate_fills_only_missing:
  "length (hydrate_stacktrace excs threads) = length excs \<and>
   (i < length excs \<longrightarrow>
      ex_stacktrace (hydrate_stacktrace excs threads ! i) =
        (case ex_stacktrace (excs ! i) of
           Some s \<Rightarrow> Some s
         | None \<Rightarrow> (case (if ex_thread_id (excs ! i) \<noteq> None \<and> (\<exists>t\<in>set threads. Some (th_id t) = ex_thread_id (excs ! i))
                        then find (\<lambda>t. Some (th_id t) = ex_thread_id (excs ! i)) threads
                        else find th_current threads) of
                    Some t \<Rightarrow> th_stacktrace t | None \<Rightarrow> None))) \<and>
   hydrate_stacktrace (hydrate_stacktrace excs threads) threads = hydrate_stacktrace excs threads"
proof -
  have match: "thread_match threads e =
      (if ex_thread_id e \<noteq> None \<and> (\<exists>t\<in>set threads. Some (th_id t) = ex_thread_id e)
       then find (\<lambda>t. Some (th_id t) = ex_thread_id e) threads else find th_current threads)" for e
  proof (cases "ex_thread_id e")
    case (Some a)
    show ?thesis
    proof (cases "find (\<lambda>t. th_id t = a) threads")
      case None
      then have "\<forall>t\<in>set threads. th_id t \<noteq> a" by (simp add: find_None_iff)
      with None show ?thesis by (simp add: thread_match_def Some)
    next
      case (Some x)
      then have "\<exists>t\<in>set threads. th_id t = a" by (auto simp: find_Some_iff)
      then show ?thesis by (simp add: thread_match_def Some \<open>ex_thread_id e = Some a\<close>)
    qed
  qed (simp add: thread_match_def)
  have one: "ex_stacktrace (hydrate_one threads e) =
      (case ex_stacktrace e of Some s \<Rightarrow> Some s
       | None \<Rightarrow> (case thread_match threads e of Some t \<Rightarrow> th_stacktrace t | None \<Rightarrow> None))" for e
    by (auto simp: hydrate_one_def split: option.split)
  have tid: "thread_match threads (hydrate_one threads e) = thread_match threads e" for e
    by (auto simp: hydrate_one_def thread_match_def split: option.split)
  have idem: "hydrate_one threads (hydrate_one threads e) = hydrate_one threads e" for e
    unfolding hydrate_one_def [of threads "hydrate_one threads e"] tid
    by (auto simp: hydrate_one_def split: option.split)
  show ?thesis
    unfolding match [symmetric]
    by (auto simp: hydrate_stacktrace_def one idem thread_match_def split: option.split)
qed


subsection \<open>Values without NUL\<close>

fun nul_free :: "json \<Rightarrow> bool" and nul_free_items :: "(pkey \<times> json) list \<Rightarrow> bool" where
  "nul_free (JDict kvs) = nul_free_items kvs"
| "nul_free (JList xs) = list_all nul_free xs"
| "nul_free (JTuple xs) = list_all nul_free xs"
| "nul_free (JStr s) = (CHR 0x00 \<notin> set s)"
| "nul_free v = True"
| "nul_free_items [] = True"
| "nul_free_items ((KStr k, v) # kvs) = (CHR 0x00 \<notin> set k \<and> nul_free v \<and> nul_free_items kvs)"
| "nul_free_items ((KInt i, v) # kvs) = False"

fun text_keys :: "json \<Rightarrow> bool" and text_keys_items :: "(pkey \<times> json) list \<Rightarrow> bool" where
  "text_keys (JDict kvs) = text_keys_items kvs"
| "text_keys (JList xs) = list_all text_keys xs"
| "text_keys (JTuple xs) = list_all text_keys xs"
| "text_keys v = True"
| "text_keys_items [] = True"
| "text_keys_items ((KStr k, v) # kvs) = (text_keys v \<and> text_keys_items kvs)"
| "text_keys_items ((KInt i, v) # kvs) = False"

lemma nul_free_items_dset:
  "nul_free_items m \<Longrightarrow> nul_free_items [(k, v)] \<Longrightarrow> nul_free_items (dset m k v)"
proof (induction m)
  case (Cons p m)
  obtain k' v' where p: "p = (k', v')" by (cases p)
  with Cons show ?case by (cases k; cases k') auto
qed simp

lemma nul_free_items_fold:
  "nul_free_items l \<Longrightarrow> nul_free_items m \<Longrightarrow> nul_free_items (fold (\<lambda>(k, v) m. dset m k v) l m)"
proof (induction l arbitrary: m)
  case (Cons p l)
  obtain k v where p: "p = (k, v)" by (cases p)
  from Cons.prems p have "nul_free_items [(k, v)]" "nul_free_items l" by (cases k; simp)+
  with Cons p show ?case by (simp add: nul_free_items_dset)
qed simp

text \<open>
  Further property. Removing bad characters succeeds exactly on values whose dictionary keys are all
  text, and its result holds no NUL character in any text or key.
\<close>

theorem remove_bad_chars_storable:
  "(remove_bad_chars v \<noteq> None \<longleftrightarrow> text_keys v) \<and> (remove_bad_chars v = Some w \<longrightarrow> nul_free w)"
proof -
  have "(remove_bad_chars v \<noteq> None \<longleftrightarrow> text_keys v) \<and> (\<forall>w. remove_bad_chars v = Some w \<longrightarrow> nul_free w)"
    and "(remove_bad_list xs \<noteq> None \<longleftrightarrow> list_all text_keys xs) \<and>
      (\<forall>ys. remove_bad_list xs = Some ys \<longrightarrow> list_all nul_free ys)"
    and "(remove_bad_items kvs \<noteq> None \<longleftrightarrow> text_keys_items kvs) \<and>
      (\<forall>l. remove_bad_items kvs = Some l \<longrightarrow> nul_free_items l)" for xs kvs
    by (induction v and xs and kvs rule: remove_bad_chars_remove_bad_list_remove_bad_items.induct)
       (auto simp: nul_free_items_fold split: option.splits)
  then show ?thesis by blast
qed

section \<open>Witnesses\<close>

definition w_tags :: tag_source where
  "w_tags = \<lparr>ts_tags = [(''release'', Some ''sent''), (''team'', Some ''core''), (''empty'', Some [])],
     ts_browser = Some \<lparr>browser_name = Some ''Firefox'', browser_version = None\<rparr>, ts_os = None, ts_device_model = None,
     ts_user_id = None, ts_user_email = None, ts_user_name = None, ts_environment = Some ''prod'',
     ts_release = Some ''1.0'', ts_server_name = None\<rparr>"

theorem generate_tags_reserved_witness:
  "map_of (generate_tags w_tags) ''release'' = Some ''1.0'' \<and> map_of (generate_tags w_tags) ''team'' = Some ''core''"
  using generate_tags_reserved [of w_tags "''team''" "''core''"] by (simp add: w_tags_def present_def)

theorem hydrate_fills_only_missing_witness:
  "ex_stacktrace (hydrate_stacktrace [\<lparr>ex_thread_id = Some ''7'', ex_stacktrace = None\<rparr>]
     [\<lparr>th_id = ''1'', th_current = True, th_stacktrace = Some (1::nat)\<rparr>, \<lparr>th_id = ''7'', th_current = False, th_stacktrace = Some 2\<rparr>] ! 0) =
   Some 2"
  using hydrate_fills_only_missing [of "[\<lparr>ex_thread_id = Some ''7'', ex_stacktrace = None\<rparr>]"
      "[\<lparr>th_id = ''1'', th_current = True, th_stacktrace = Some (1::nat)\<rparr>, \<lparr>th_id = ''7'', th_current = False, th_stacktrace = Some 2\<rparr>]" 0]
  by simp

theorem remove_bad_chars_storable_witness:
  "remove_bad_chars (JDict [(KStr [CHR ''a'', CHR 0x00], JStr [CHR 0x00, CHR ''b''])]) = Some (JDict [(KStr ''a'', JStr ''b'')]) \<and>
   nul_free (JDict [(KStr ''a'', JStr ''b'')])"
proof -
  have "remove_bad_chars (JDict [(KStr [CHR ''a'', CHR 0x00], JStr [CHR 0x00, CHR ''b''])]) = Some (JDict [(KStr ''a'', JStr ''b'')])"
    by (simp add: clean_string_filter)
  with remove_bad_chars_storable [of "JDict [(KStr [CHR ''a'', CHR 0x00], JStr [CHR 0x00, CHR ''b''])]" "JDict [(KStr ''a'', JStr ''b'')]"]
  show ?thesis by blast
qed

text \<open>
  Title, culprit and type are concatenated without a separator, so events that differ in title and
  culprit can be grouped together.
\<close>

lemma hash_input_has_no_separator:
  "generate_hash md5 ''ab'' ''c'' ty None = generate_hash md5 ''a'' ''bc'' ty None"
  by (simp add: generate_hash_def default_hash_input_def)

text \<open>The fingerprint part \<open>{{ default }}\<close> stands for the default input.\<close>

lemma default_fingerprint: "generate_hash md5 t c ty (Some [Some ''{{ default }}'']) = generate_hash md5 t c ty None"
  by (simp add: generate_hash_def hash_part_def)

end
