(* ===== verification/Statistics.thy ===== *)
theory Statistics
  imports GT_Prelude "HOL-Library.Product_Lexorder" "HOL-Library.Multiset"
begin

text \<open>
  Hourly counters: the grouping of a batch by hour and id, and the bulk upserts
  \<open>update_statistics\<close> and \<open>update_org_statistics\<close> of \<open>apps/event_ingest/process_event.py\<close>, with the
  lemmas on grouped upserts that the stores of events, transactions, logs and checks share.
\<close>

section \<open>Counters\<close>

text \<open>\<open>received.replace(minute=0, second=0, microsecond=0)\<close> and the same with the hour.\<close>

definition hour_of :: "datetime \<Rightarrow> datetime" where
  "hour_of t = t - t mod 3600000000"

definition day_start :: "datetime \<Rightarrow> datetime" where
  "day_start t = t - t mod 86400000000"

text \<open>
  The nested default dictionaries of the code, flattened to one dictionary on the composed key;
  an entry holds the count and the organization of the last event.
\<close>

definition stat_step :: "(int \<times> int) option \<Rightarrow> int \<Rightarrow> int \<times> int" where
  "stat_step s oid = (case s of None \<Rightarrow> (1, oid) | Some (n, _) \<Rightarrow> (n + 1, oid))"

text \<open>The upsert of hourly counts into a table keyed by id, organization and date.\<close>

definition upsert_counts :: "(datetime \<times> 'k, int \<times> int) dict \<Rightarrow> ('k \<times> int \<times> datetime, int) dict \<Rightarrow> ('k \<times> int \<times> datetime, int) dict" where
  "upsert_counts stats tbl =
     fold (\<lambda>((d, k), (n, oid)) t.
             dset t (k, oid, d) (n + (case map_of t (k, oid, d) of None \<Rightarrow> 0 | Some c \<Rightarrow> c))) stats tbl"

definition STATS_TABLES :: "string list" where
  "STATS_TABLES = [''projects_issueeventprojecthourlystatistic'', ''projects_transactioneventprojecthourlystatistic'',
     ''issue_events_issueaggregate'']"

text \<open>\<open>update_statistics\<close>: \<open>None\<close> is the \<open>ValueError\<close> for a table that is not configured.\<close>

definition update_statistics ::
    "string \<Rightarrow> (datetime \<times> int, int \<times> int) dict \<Rightarrow> (int \<times> int \<times> datetime, int) dict \<Rightarrow> (int \<times> int \<times> datetime, int) dict option" where
  "update_statistics table_name stats tbl =
     (if table_name \<notin> set STATS_TABLES then None
      else Some (upsert_counts (sort_key (\<lambda>((d, k), (n, oid)). (d, k, oid)) stats) tbl))"

definition update_org_statistics ::
    "(datetime \<times> int, int \<times> int) dict \<Rightarrow> (int \<times> int \<times> datetime, int) dict \<Rightarrow> (int \<times> int \<times> datetime, int) dict" where
  "update_org_statistics stats tbl = upsert_counts (sort_key (\<lambda>((d, k), (n, oid)). (d, oid, k)) stats) tbl"

type_synonym count_table = "(int \<times> int \<times> datetime, int) dict"

section \<open>Lemmas on upserts\<close>

text \<open>Of a grouped dictionary, sorted or not, a key has the same entry.\<close>

lemma map_of_sort_key:
  assumes "dict_ok d"
  shows "map_of (sort_key f d) k = map_of d k"
proof -
  have "dict_ok (sort_key f d)"
    using assms by (metis distinct_map distinct_sort set_sort)
  then have "map_of (sort_key f d) k = Some v \<longleftrightarrow> map_of d k = Some v" for v
    using assms by (simp add: map_of_eq_Some_iff del: map_of_eq_Some_iff [symmetric])
  then show ?thesis by (metis not_Some_eq)
qed

lemma dict_ok_sort_key [simp]: "dict_ok (sort_key f d) = dict_ok d"
proof -
  have "mset (map fst (sort_key f d)) = mset (map fst d)" by simp
  then show ?thesis by (rule mset_eq_imp_distinct_iff)
qed

text \<open>An upsert over a dictionary of updates: each key is touched at most once.\<close>

lemma map_of_upserts:
  assumes "dict_ok l"
  shows "map_of (fold (\<lambda>(k, u) t. dset t (tk k u) (mrg u (map_of t (tk k u)))) l tbl) x =
    fold (\<lambda>(k, u) a. Some (mrg u a)) (filter (\<lambda>(k, u). tk k u = x) l) (map_of tbl x)"
  by (induction l arbitrary: tbl) auto

lemma filter_key_at_most_one:
  assumes "dict_ok l"
  shows "filter (\<lambda>(k, u). k = a \<and> P u) l = (case map_of l a of Some u \<Rightarrow> if P u then [(a, u)] else [] | None \<Rightarrow> [])"
  using assms
proof (induction l)
  case Nil
  show ?case by simp
next
  case (Cons p l)
  obtain k u where p: "p = (k, u)" by (cases p)
  have "filter (\<lambda>(k', u). k' = k \<and> P u) l = []" if "k \<notin> fst ` set l"
    using that by (force simp: filter_empty_conv)
  with Cons p show ?case by auto
qed

definition val :: "('k, int) dict \<Rightarrow> 'k \<Rightarrow> int" where
  "val t k = (case map_of t k of None \<Rightarrow> 0 | Some c \<Rightarrow> c)"

lemma upsert_counts_val:
  assumes "dict_ok stats"
  shows "val (upsert_counts stats tbl) (k, oid, d) = val tbl (k, oid, d) +
    (case map_of stats (d, k) of Some (n, oid') \<Rightarrow> if oid' = oid then n else 0 | None \<Rightarrow> 0)"
proof -
  have eq: "upsert_counts stats tbl =
      fold (\<lambda>(q, u) t. dset t (snd q, snd u, fst q) (fst u + (case map_of t (snd q, snd u, fst q) of None \<Rightarrow> 0 | Some c \<Rightarrow> c))) stats tbl"
    by (simp add: upsert_counts_def case_prod_unfold)
  have flt: "filter (\<lambda>(q, u). (snd q, snd u, fst q) = (k, oid, d)) stats =
      (case map_of stats (d, k) of Some u \<Rightarrow> if snd u = oid then [((d, k), u)] else [] | None \<Rightarrow> [])"
    unfolding filter_key_at_most_one [OF assms, symmetric] by (rule filter_cong) auto
  show ?thesis
    unfolding val_def eq
    unfolding map_of_upserts [OF assms, where tk = "\<lambda>q u. (snd q, snd u, fst q)"
        and mrg = "\<lambda>u a. fst u + (case a of None \<Rightarrow> 0 | Some c \<Rightarrow> c)"] flt
    by (auto split: option.splits)
qed

lemma fold_stat_step:
  "fold (\<lambda>x a. Some (stat_step a (f x))) xs a =
     (if xs = [] then a else Some ((case a of None \<Rightarrow> 0 | Some (n, _) \<Rightarrow> n) + int (length xs), f (last xs)))"
  by (induction xs arbitrary: a) (auto simp: stat_step_def split: option.splits)

lemma filter_uniform:
  "\<forall>x\<in>set xs. f x = c \<Longrightarrow> filter (\<lambda>x. f x = a) xs = (if c = a then xs else [])"
  by (induction xs) auto

lemma count_group:
  assumes "\<forall>e\<in>set xs. \<forall>e'\<in>set xs. f e = f e'"
  shows "(case (if xs = [] then None else Some (int (length xs), f (last xs))) of
            Some (n, oid') \<Rightarrow> if oid' = oid then n else 0 | None \<Rightarrow> 0) =
    int (length (filter (\<lambda>e. f e = oid) xs))"
proof (cases "xs = []")
  case False
  then have "filter (\<lambda>e. f e = oid) xs = (if f (last xs) = oid then xs else [])"
    using assms last_in_set [OF False] by (intro filter_uniform) blast
  with False show ?thesis by simp
qed simp

text \<open>The counters after the upsert of a batch grouped by hour and id.\<close>

lemma hourly_val:
  assumes "dict_ok stats" and "map_of stats (hr, k) = (let xs = ys in if xs = [] then None else Some (int (length xs), org (last xs)))"
    and "\<forall>e\<in>set ys. \<forall>e'\<in>set ys. org e = org e'"
  shows "val (upsert_counts (sort_key f stats) tbl) (k, oid, hr) =
    val tbl (k, oid, hr) + int (length (filter (\<lambda>e. org e = oid) ys))"
  using assms(1,2) count_group [OF assms(3)]
  by (simp add: upsert_counts_val map_of_sort_key Let_def)

end
