(* ===== verification/Issue_Store.thy ===== *)
theory Issue_Store
  imports Event_Utils Statistics
begin

text \<open>
  Grouping and storing of issue events: the second half of \<open>process_issue_events\<close> in
  \<open>apps/event_ingest/process_event.py\<close> (issue lookup by hash, creation, reopening, event rows,
  counters and hourly statistics) with \<open>update_issues\<close>, \<open>check_set_issue_id\<close>,
  \<open>_create_issue_and_hash\<close>, \<open>update_statistics\<close>, \<open>update_org_statistics\<close> and \<open>update_tags\<close>.

  The database is a record of tables, each an association list over its key. The statements of
  the code are their effects on these tables. What was read of the hash table before the loop
  (from a replica that may lag) is the argument \<open>hash_dict\<close>; the current table is part of the
  state, so an entry that another worker has added meanwhile is the \<open>IntegrityError\<close> path. The
  full-text functions of the database are the arguments \<open>tsv_append\<close> and \<open>tsv_new\<close>.
\<close>

section \<open>Data\<close>

datatype event_status = UNRESOLVED | RESOLVED | IGNORED

datatype log_level = NOTSET | DEBUG | INFO | WARNING | ERROR | FATAL

fun level_value :: "log_level \<Rightarrow> nat" where
  "level_value NOTSET = 0" | "level_value DEBUG = 1" | "level_value INFO = 2"
| "level_value WARNING = 3" | "level_value ERROR = 4" | "level_value FATAL = 5"

text \<open>\<open>x if x else LogLevel.ERROR\<close>: a level whose value is 0 counts as missing.\<close>

definition level_or_error :: "log_level option \<Rightarrow> log_level" where
  "level_or_error l = (case l of None \<Rightarrow> ERROR | Some v \<Rightarrow> if level_value v = 0 then ERROR else v)"

record pevent =
  pe_project :: int
  pe_org :: int
  received :: datetime
  issue_hash :: string
  pe_title :: string
  pe_transaction :: string
  pe_level :: "log_level option"
  release_id :: "int option"
  search_text :: string
  event_tags :: "(string, string) dict"
  issue_id :: "int option"
  issue_created :: bool

record issue =
  i_project :: int
  i_title :: string
  first_seen :: datetime
  first_release_id :: "int option"
  short_id :: int
  resolved_in_release :: "int option"

record index_row =
  ix_count :: int
  ix_last_seen :: datetime
  ix_last_release :: "int option"
  ix_status :: event_status
  ix_level :: log_level
  ix_document :: string

record event_row =
  er_id :: int
  er_issue :: "int option"
  er_org :: int
  er_level :: log_level
  er_title :: string
  er_transaction :: string
  er_tags :: "(string, string) dict"
  er_hash :: string
  er_release :: "int option"

record issue_db =
  counters :: "(int, int) dict"
  next_issue_id :: int
  issues :: "(int, issue) dict"
  hashes :: "(int \<times> string, int) dict"
  issue_index :: "(int \<times> int, index_row) dict"
  event_rows :: "event_row list"
  notifications :: "int list"
  notification_issues :: "(int \<times> int) list"

text \<open>A row of the hash lookup: the issue, its status and the release it was resolved in.\<close>

record hash_row =
  h_issue :: int
  h_status :: event_status
  h_resolved_in :: "int option"

text \<open>\<open>remove_bad_chars\<close> on a dictionary of texts.\<close>

definition clean_dict :: "(string, string) dict \<Rightarrow> (string, string) dict" where
  "clean_dict d = fold (\<lambda>(k, v) m. dset m (clean_string k) (clean_string v)) d []"

section \<open>Looking up known hashes\<close>

text \<open>
  The rows of the join of the hash table with the issues and the index, for the given keys; one
  row per index row of the issue, and the dictionary keeps the last.
\<close>

definition hash_join :: "issue_db \<Rightarrow> int \<times> string \<Rightarrow> ((int \<times> string) \<times> hash_row) list" where
  "hash_join d k =
     (case map_of (hashes d) k of
        None \<Rightarrow> []
      | Some i \<Rightarrow>
          (case map_of (issues d) i of
             None \<Rightarrow> []
           | Some iss \<Rightarrow> map (\<lambda>(_, r). (k, \<lparr>h_issue = i, h_status = ix_status r, h_resolved_in = resolved_in_release iss\<rparr>))
                           (filter (\<lambda>((i', _), _). i' = i) (issue_index d))))"

definition fetch_issue_hashes_raw :: "(int \<times> string) list \<Rightarrow> issue_db \<Rightarrow> (int \<times> string, hash_row) dict" where
  "fetch_issue_hashes_raw pairs d = fold (\<lambda>(k, h) m. dset m k h) (concat (map (hash_join d) pairs)) []"

definition fetch_issue_hashes :: "pevent list \<Rightarrow> issue_db \<Rightarrow> (int \<times> string, hash_row) dict" where
  "fetch_issue_hashes events d =
     fetch_issue_hashes_raw (remdups (map (\<lambda>e. (pe_project e, issue_hash e)) (filter (\<lambda>e. issue_hash e \<noteq> []) events))) d"

text \<open>
  The lookup of a batch: on the replica first, then on the primary for what is missing there;
  \<open>replica\<close> is \<open>None\<close> when the primary itself is read.
\<close>

definition hash_lookup :: "issue_db option \<Rightarrow> issue_db \<Rightarrow> pevent list \<Rightarrow> (int \<times> string, hash_row) dict" where
  "hash_lookup replica primary events =
     (case replica of
        None \<Rightarrow> fetch_issue_hashes events primary
      | Some r \<Rightarrow>
          (let found = fetch_issue_hashes events r;
               missing = filter (\<lambda>k. k \<notin> fst ` set found) (map (\<lambda>e. (pe_project e, issue_hash e)) events)
           in if missing = [] then found
              else fold (\<lambda>(k, h) m. dset m k h) (fetch_issue_hashes_raw missing primary) found))"

section \<open>Creating an issue\<close>

definition check_set_issue_id :: "int \<Rightarrow> string \<Rightarrow> int \<Rightarrow> pevent list \<Rightarrow> pevent list" where
  "check_set_issue_id pid h iid evs =
     map (\<lambda>e. if issue_id e = None \<and> pe_project e = pid \<and> issue_hash e = h then e\<lparr>issue_id := Some iid\<rparr> else e) evs"

text \<open>
  \<open>_create_issue_and_hash\<close>. The counter of the project is consumed in any case. The unique key
  on project and hash decides: a present entry makes the transaction fail and its issue is taken.
\<close>

definition create_issue_and_hash ::
    "(string \<Rightarrow> string) \<Rightarrow> pevent \<Rightarrow> pevent list \<Rightarrow> issue_db \<Rightarrow> (int \<times> bool) \<times> pevent list \<times> issue_db" where
  "create_issue_and_hash tsv_new pe evs db =
     (let pid = pe_project pe;
          sid = (case map_of (counters db) pid of None \<Rightarrow> 1 | Some v \<Rightarrow> v + 1);
          db1 = db\<lparr>counters := dset (counters db) pid sid\<rparr> in
      case map_of (hashes db1) (pid, issue_hash pe) of
        Some iid \<Rightarrow> ((iid, False), evs, db1)
      | None \<Rightarrow>
          (let iid = next_issue_id db1;
               iss = \<lparr>i_project = pid, i_title = clean_string (pe_title pe), first_seen = received pe,
                      first_release_id = release_id pe, short_id = sid, resolved_in_release = None\<rparr>;
               ix = \<lparr>ix_count = 1, ix_last_seen = received pe, ix_last_release = release_id pe,
                     ix_status = UNRESOLVED, ix_level = level_or_error (pe_level pe),
                     ix_document = tsv_new (search_text pe)\<rparr>;
               db2 = db1\<lparr>next_issue_id := iid + 1, issues := dset (issues db1) iid iss,
                         hashes := dset (hashes db1) (pid, issue_hash pe) iid,
                         issue_index := dset (issue_index db1) (iid, pe_org pe) ix\<rparr>
           in ((iid, True), check_set_issue_id pid (issue_hash pe) iid evs, db2)))"

section \<open>The loop over the events\<close>

text \<open>Whether an event reopens the resolved issue it belongs to.\<close>

definition reopens :: "hash_row \<Rightarrow> pevent \<Rightarrow> bool" where
  "reopens h pe \<longleftrightarrow> h_status h = RESOLVED \<and>
     (h_resolved_in h = None \<or> (release_id pe \<noteq> None \<and> h_resolved_in h \<noteq> release_id pe))"

record loop_state =
  evs :: "pevent list"
  db :: issue_db
  to_reopen :: "(int \<times> int) list"

definition event_row_of :: "int \<Rightarrow> pevent \<Rightarrow> event_row" where
  "event_row_of uid pe =
     \<lparr>er_id = uid, er_issue = issue_id pe, er_org = pe_org pe, er_level = level_or_error (pe_level pe),
      er_title = clean_string (pe_title pe), er_transaction = clean_string (pe_transaction pe),
      er_tags = clean_dict (event_tags pe), er_hash = issue_hash pe, er_release = release_id pe\<rparr>"

text \<open>
  Writing the rows: one \<open>COPY\<close>, which a duplicate id aborts as a whole; then the rows are inserted
  with \<open>ON CONFLICT DO NOTHING\<close>.
\<close>

definition write_event_rows :: "event_row list \<Rightarrow> event_row list \<Rightarrow> event_row list" where
  "write_event_rows rows tbl =
     (if distinct (map er_id (tbl @ rows)) then tbl @ rows
      else fold (\<lambda>r t. if er_id r \<in> er_id ` set t then t else t @ [r]) rows tbl)"

definition is_set :: "int option \<Rightarrow> bool" where
  "is_set i \<longleftrightarrow> i \<noteq> None \<and> i \<noteq> Some 0"

definition process_one ::
    "(string \<Rightarrow> string) \<Rightarrow> (int \<times> string, hash_row) dict \<Rightarrow> nat \<Rightarrow> loop_state \<Rightarrow> loop_state" where
  "process_one tsv_new hash_dict i st =
     (let pe = evs st ! i;
          hit = map_of hash_dict (pe_project pe, issue_hash pe);
          pe1 = (case hit of None \<Rightarrow> pe | Some h \<Rightarrow> pe\<lparr>issue_id := Some (h_issue h)\<rparr>);
          st1 = st\<lparr>evs := (evs st)[i := pe1],
                   to_reopen := to_reopen st @ (case hit of
                     Some h \<Rightarrow> if reopens h pe then [(h_issue h, pe_org pe)] else [] | None \<Rightarrow> [])\<rparr> in
      if is_set (issue_id pe1) then st1
      else
        (let ((iid, created), evs2, db2) = create_issue_and_hash tsv_new pe1 (evs st1) (db st1)
         in st1\<lparr>evs := evs2[i := (evs2 ! i)\<lparr>issue_id := Some iid, issue_created := created\<rparr>], db := db2\<rparr>))"

definition process_all :: "(string \<Rightarrow> string) \<Rightarrow> (int \<times> string, hash_row) dict \<Rightarrow> pevent list \<Rightarrow> issue_db \<Rightarrow> loop_state" where
  "process_all tsv_new hash_dict events d =
     fold (process_one tsv_new hash_dict) [0..<length events] \<lparr>evs = events, db = d, to_reopen = []\<rparr>"

section \<open>Updating existing issues\<close>

record issue_update =
  iu_org :: int
  iu_last_seen :: datetime
  iu_vector :: string
  iu_added :: int
  iu_last_release :: "int option"

definition update_step :: "issue_update option \<Rightarrow> pevent \<Rightarrow> issue_update" where
  "update_step u pe =
     (case u of
        None \<Rightarrow> \<lparr>iu_org = pe_org pe, iu_last_seen = received pe, iu_vector = search_text pe, iu_added = 1,
                 iu_last_release = release_id pe\<rparr>
      | Some x \<Rightarrow>
          (let x1 = x\<lparr>iu_added := iu_added x + 1, iu_vector := iu_vector x @ '' '' @ search_text pe\<rparr> in
           if iu_last_seen x < received pe
           then (let x2 = x1\<lparr>iu_last_seen := received pe\<rparr> in
                 if is_set (release_id pe) then x2\<lparr>iu_last_release := release_id pe\<rparr> else x2)
           else if \<not> is_set (iu_last_release x) \<and> is_set (release_id pe)
           then x1\<lparr>iu_last_release := release_id pe\<rparr> else x1))"

definition issues_to_update :: "pevent list \<Rightarrow> (int, issue_update) dict" where
  "issues_to_update events =
     fold (\<lambda>pe m. dset m (the (issue_id pe)) (update_step (map_of m (the (issue_id pe))) pe))
       (filter (\<lambda>pe. \<not> issue_created pe \<and> is_set (issue_id pe)) events) []"

definition merge_index ::
    "(string \<Rightarrow> string \<Rightarrow> string) \<Rightarrow> (string \<Rightarrow> string) \<Rightarrow> issue_update \<Rightarrow> index_row option \<Rightarrow> index_row" where
  "merge_index tsv_append tsv_new u r =
     (case r of
        Some t \<Rightarrow> t\<lparr>ix_count := ix_count t + iu_added u, ix_last_seen := max (ix_last_seen t) (iu_last_seen u),
                    ix_last_release := (case iu_last_release u of None \<Rightarrow> ix_last_release t | Some v \<Rightarrow> Some v),
                    ix_document := tsv_append (ix_document t) (iu_vector u)\<rparr>
      | None \<Rightarrow> \<lparr>ix_count = iu_added u, ix_last_seen = iu_last_seen u, ix_last_release = iu_last_release u,
                 ix_status = UNRESOLVED, ix_level = ERROR, ix_document = tsv_new (iu_vector u)\<rparr>)"

definition update_issues ::
    "(string \<Rightarrow> string \<Rightarrow> string) \<Rightarrow> (string \<Rightarrow> string) \<Rightarrow> pevent list \<Rightarrow> (int \<times> int, index_row) dict \<Rightarrow> (int \<times> int, index_row) dict" where
  "update_issues tsv_append tsv_new events tbl =
     fold (\<lambda>(iid, u) t. dset t (iid, iu_org u) (merge_index tsv_append tsv_new u (map_of t (iid, iu_org u))))
       (sort_key fst (issues_to_update events)) tbl"

section \<open>Reopening\<close>

definition reopen_index :: "(int \<times> int) list \<Rightarrow> (int \<times> int, index_row) dict \<Rightarrow> (int \<times> int, index_row) dict" where
  "reopen_index pairs tbl = map (\<lambda>(k, r). (k, if k \<in> set pairs then r\<lparr>ix_status := UNRESOLVED\<rparr> else r)) tbl"

definition reopen_issues :: "(int \<times> int) list \<Rightarrow> (int, issue) dict \<Rightarrow> (int, issue) dict" where
  "reopen_issues pairs tbl =
     map (\<lambda>(k, r). (k, if k \<in> fst ` set pairs then r\<lparr>resolved_in_release := None\<rparr> else r)) tbl"

text \<open>The notifications that mention a reopened issue are deleted with their rows.\<close>

definition reopened_notifications :: "int list \<Rightarrow> (int \<times> int) list \<Rightarrow> int list" where
  "reopened_notifications ids rows = map fst (filter (\<lambda>(n, i). i \<in> set ids) rows)"

definition drop_notifications :: "int list \<Rightarrow> issue_db \<Rightarrow> issue_db" where
  "drop_notifications ids d =
     (let ns = reopened_notifications ids (notification_issues d) in
      d\<lparr>notifications := filter (\<lambda>n. n \<notin> set ns) (notifications d),
        notification_issues := filter (\<lambda>(n, i). n \<notin> set ns) (notification_issues d)\<rparr>)"

text \<open>The set of issue ids kept for the alert task.\<close>

definition alert_member :: "pevent \<Rightarrow> string" where
  "alert_member pe = (case issue_id pe of None \<Rightarrow> ''None'' | Some i \<Rightarrow> str_of_int i)"

definition add_alert_ids :: "pevent list \<Rightarrow> string list \<Rightarrow> string list" where
  "add_alert_ids es s = fold (\<lambda>pe s. List.insert (alert_member pe) s) es s"

section \<open>Statistics\<close>

definition data_stats :: "pevent list \<Rightarrow> (datetime \<times> int, int \<times> int) dict" where
  "data_stats events =
     fold (\<lambda>pe m. dset m (hour_of (received pe), pe_project pe)
             (stat_step (map_of m (hour_of (received pe), pe_project pe)) (pe_org pe))) events []"

definition issue_hourly_stats :: "pevent list \<Rightarrow> (datetime \<times> int, int \<times> int) dict" where
  "issue_hourly_stats events =
     fold (\<lambda>pe m. dset m (hour_of (received pe), the (issue_id pe))
             (stat_step (map_of m (hour_of (received pe), the (issue_id pe))) (pe_org pe)))
       (filter (\<lambda>pe. is_set (issue_id pe)) events) []"

section \<open>Tags\<close>

definition MAX_TAG_LENGTH :: nat where
  "MAX_TAG_LENGTH = 255"

definition clean_tag :: "string \<Rightarrow> string" where
  "clean_tag s = take MAX_TAG_LENGTH (clean_string s)"

text \<open>The dictionary comprehension over the tags: of keys that become equal the last one stays.\<close>

definition clean_tags :: "(string, string) dict \<Rightarrow> (string, string) dict" where
  "clean_tags tags = fold (\<lambda>(k, v) m. dset m (clean_tag k) (clean_tag v)) tags []"

text \<open>
  \<open>update_tags\<close>: counts per day, issue, key and value. The ids of the key and value tables stand
  for their texts, which are unique there.
\<close>

definition tag_stats :: "pevent list \<Rightarrow> (datetime \<times> int \<times> string \<times> string, int \<times> int) dict" where
  "tag_stats events =
     fold (\<lambda>(pe, (k, v)) m.
             dset m (day_start (received pe), the (issue_id pe), k, v)
               (stat_step (map_of m (day_start (received pe), the (issue_id pe), k, v)) (pe_org pe)))
       (concat (map (\<lambda>pe. map (Pair pe) (clean_tags (event_tags pe))) (filter (\<lambda>pe. issue_id pe \<noteq> None) events))) []"

definition update_tags where
  "update_tags events tbl =
     fold (\<lambda>((d, iid, k, v), (n, oid)) t.
             dset t (iid, oid, k, v, d) (n + (case map_of t (iid, oid, k, v, d) of None \<Rightarrow> 0 | Some c \<Rightarrow> c)))
       (tag_stats events) tbl"

section \<open>The whole step\<close>

record store_state =
  tables :: issue_db
  project_stats :: count_table
  issue_stats :: count_table
  tag_table :: "(int \<times> int \<times> string \<times> string \<times> datetime, int) dict"
  alert_ids :: "string list"

text \<open>
  The events come out with their issue and with cleaned tags (\<open>update_tags\<close> assigns them). The
  argument \<open>valkey\<close> is the setting \<open>CACHE_IS_VALKEY\<close>; \<open>ids\<close> are the row ids, one per event, that
  \<open>UUID7Helper.from_datetime\<close> draws.
\<close>

definition store_events where
  "store_events tsv_append tsv_new valkey ids hash_dict events S =
     (let st = process_all tsv_new hash_dict events (tables S);
          es = evs st;
          d1 = db st;
          ix = reopen_index (to_reopen st) (update_issues tsv_append tsv_new es (issue_index d1));
          d2 = d1\<lparr>issue_index := ix, issues := reopen_issues (to_reopen st) (issues d1)\<rparr>;
          d3 = drop_notifications (map fst (to_reopen st)) d2;
          d4 = d3\<lparr>event_rows := write_event_rows (map2 event_row_of ids es) (event_rows d3)\<rparr>
      in (map (\<lambda>e. e\<lparr>event_tags := clean_tags (event_tags e)\<rparr>) es,
          S\<lparr>tables := d4,
            alert_ids := (if valkey then add_alert_ids es (alert_ids S) else alert_ids S),
            tag_table := update_tags es (tag_table S),
            project_stats :=
              (case update_statistics ''projects_issueeventprojecthourlystatistic'' (data_stats es) (project_stats S) of
                 Some t \<Rightarrow> t | None \<Rightarrow> project_stats S),
            issue_stats := update_org_statistics (issue_hourly_stats es) (issue_stats S)\<rparr>))"

section \<open>The invariant of the loop\<close>

text \<open>
  What the loop relies on of the database: ids of recorded issues are positive and below the
  sequence of the table, and an issue belongs to one project.
\<close>

definition db_ok :: "issue_db \<Rightarrow> bool" where
  "db_ok d \<longleftrightarrow>
     (\<forall>k i. map_of (hashes d) k = Some i \<longrightarrow> 0 < i \<and> i < next_issue_id d) \<and>
     (\<forall>i oid. map_of (issue_index d) (i, oid) \<noteq> None \<longrightarrow> i < next_issue_id d) \<and>
     (\<forall>k k' i. map_of (hashes d) k = Some i \<and> map_of (hashes d) k' = Some i \<longrightarrow> fst k = fst k') \<and>
     0 < next_issue_id d"

definition lookup_ok :: "(int \<times> string, hash_row) dict \<Rightarrow> issue_db \<Rightarrow> bool" where
  "lookup_ok hash_dict d \<longleftrightarrow> (\<forall>k h. map_of hash_dict k = Some h \<longrightarrow> map_of (hashes d) k = Some (h_issue h))"

definition new_event :: "pevent \<Rightarrow> bool" where
  "new_event e \<longleftrightarrow> issue_id e = None \<and> \<not> issue_created e"

definition pe_key :: "pevent \<Rightarrow> int \<times> string" where
  "pe_key e = (pe_project e, issue_hash e)"

text \<open>The part of an event that the loop does not touch.\<close>

definition static :: "pevent \<Rightarrow> pevent" where
  "static e = e\<lparr>issue_id := None, issue_created := False\<rparr>"

definition count_of :: "issue_db \<Rightarrow> int \<Rightarrow> int \<Rightarrow> int" where
  "count_of d i oid = (case map_of (issue_index d) (i, oid) of None \<Rightarrow> 0 | Some r \<Rightarrow> ix_count r)"

text \<open>The events of a list that created the issue \<open>i\<close> in the organization \<open>oid\<close>.\<close>

definition created_by :: "pevent list \<Rightarrow> int \<Rightarrow> int \<Rightarrow> nat" where
  "created_by es i oid = length (filter (\<lambda>e. issue_created e \<and> issue_id e = Some i \<and> pe_org e = oid) es)"

definition reopen_pairs :: "(int \<times> string, hash_row) dict \<Rightarrow> pevent \<Rightarrow> (int \<times> int) list" where
  "reopen_pairs hash_dict pe =
     (case map_of hash_dict (pe_project pe, issue_hash pe) of
        Some h \<Rightarrow> if reopens h pe then [(h_issue h, pe_org pe)] else [] | None \<Rightarrow> [])"

definition loop_inv where
  "loop_inv hash_dict events d0 i st \<longleftrightarrow>
     map static (evs st) = map static events \<and> db_ok (db st) \<and>
     map_of (hashes d0) \<subseteq>\<^sub>m map_of (hashes (db st)) \<and>
     map_of (issue_index d0) \<subseteq>\<^sub>m map_of (issue_index (db st)) \<and>
     (\<forall>j<length events. issue_id (evs st ! j) = None \<or>
        issue_id (evs st ! j) = map_of (hashes (db st)) (pe_key (events ! j))) \<and>
     (\<forall>j<i. issue_id (evs st ! j) \<noteq> None) \<and>
     (\<forall>j. i \<le> j \<and> j < length events \<longrightarrow> \<not> issue_created (evs st ! j)) \<and>
     (\<forall>k oid. count_of (db st) k oid = count_of d0 k oid + int (created_by (evs st) k oid)) \<and>
     to_reopen st = concat (map (reopen_pairs hash_dict) (take i events))"

section \<open>One step of the loop\<close>

lemma static_fields:
  assumes "static e = static e'"
  shows "pe_project e = pe_project e'" "pe_org e = pe_org e'" "received e = received e'"
    "issue_hash e = issue_hash e'" "pe_level e = pe_level e'" "release_id e = release_id e'"
    "event_tags e = event_tags e'" "pe_title e = pe_title e'" "pe_transaction e = pe_transaction e'"
proof -
  have "pe_project (static x) = pe_project x" "pe_org (static x) = pe_org x" "received (static x) = received x"
    "issue_hash (static x) = issue_hash x" "pe_level (static x) = pe_level x" "release_id (static x) = release_id x"
    "event_tags (static x) = event_tags x" "pe_title (static x) = pe_title x"
    "pe_transaction (static x) = pe_transaction x" for x
    by (simp_all add: static_def)
  with assms show "pe_project e = pe_project e'" "pe_org e = pe_org e'" "received e = received e'"
    "issue_hash e = issue_hash e'" "pe_level e = pe_level e'" "release_id e = release_id e'"
    "event_tags e = event_tags e'" "pe_title e = pe_title e'" "pe_transaction e = pe_transaction e'"
    by metis+
qed

lemma static_update [simp]:
  "static (e\<lparr>issue_id := x\<rparr>) = static e" "static (e\<lparr>issue_created := b\<rparr>) = static e"
  "pe_key (e\<lparr>issue_id := x\<rparr>) = pe_key e" "pe_key (e\<lparr>issue_created := b\<rparr>) = pe_key e"
  by (simp_all add: static_def pe_key_def)

lemma static_check_set [simp]: "map static (check_set_issue_id p h i es) = map static es"
  by (simp add: check_set_issue_id_def)

lemma length_check_set [simp]: "length (check_set_issue_id p h i es) = length es"
  by (simp add: check_set_issue_id_def)

lemma nth_check_set:
  "j < length es \<Longrightarrow> check_set_issue_id p h i es ! j =
     (if issue_id (es ! j) = None \<and> pe_key (es ! j) = (p, h) then (es ! j)\<lparr>issue_id := Some i\<rparr> else es ! j)"
  by (simp add: check_set_issue_id_def pe_key_def)

lemma static_nth:
  assumes "map static es = map static events" and "j < length events"
  shows "static (es ! j) = static (events ! j)"
  using assms by (metis length_map nth_map)

lemma pe_key_static: "static e = static e' \<Longrightarrow> pe_key e = pe_key e'"
  using static_fields [of e e'] by (simp add: pe_key_def)

lemma length_filter_update:
  assumes "i < length xs"
  shows "length (filter P (xs[i := y])) + (if P (xs ! i) then 1 else 0) =
    length (filter P xs) + (if P y then 1 else 0)"
  using assms
proof (induction xs arbitrary: i)
  case Nil
  then show ?case by simp
next
  case (Cons x xs)
  show ?case
  proof (cases i)
    case 0
    then show ?thesis by simp
  next
    case (Suc j)
    then show ?thesis using Cons.IH [of j] Cons.prems by (simp split: if_splits)
  qed
qed

lemma created_by_update:
  assumes "i < length es" and "\<not> issue_created (es ! i)"
  shows "created_by (es[i := y]) k oid =
    created_by es k oid + (if issue_created y \<and> issue_id y = Some k \<and> pe_org y = oid then 1 else 0)"
  using length_filter_update [OF assms(1), of "\<lambda>e. issue_created e \<and> issue_id e = Some k \<and> pe_org e = oid" y] assms(2)
  by (simp add: created_by_def)

lemma created_by_check_set:
  assumes "\<forall>e\<in>set es. issue_created e \<longrightarrow> issue_id e \<noteq> None"
  shows "created_by (check_set_issue_id p h i es) k oid = created_by es k oid"
  using assms by (induction es) (auto simp: created_by_def check_set_issue_id_def)

lemma created_has_issue:
  assumes "loop_inv hash_dict events d0 i st"
  shows "\<forall>e\<in>set (evs st). issue_created e \<longrightarrow> issue_id e \<noteq> None"
proof
  fix e assume "e \<in> set (evs st)"
  then obtain j where j: "j < length (evs st)" "e = evs st ! j" by (auto simp: in_set_conv_nth)
  have "length (evs st) = length events" using assms unfolding loop_inv_def by (metis length_map)
  with j assms show "issue_created e \<longrightarrow> issue_id e \<noteq> None"
    by (cases "j < i") (auto simp: loop_inv_def)
qed

text \<open>A step that leaves the hash table and the index alone and gives event \<open>i\<close> its recorded issue.\<close>

lemma loop_inv_assign:
  assumes inv: "loop_inv hash_dict events d0 i st" and i: "i < length events"
    and st': "evs st' = (evs st)[i := e']" "static e' = static (evs st ! i)"
      "\<not> issue_created e'" "issue_id e' \<noteq> None" "issue_id e' = map_of (hashes (db st)) (pe_key (events ! i))"
    and db': "hashes (db st') = hashes (db st)" "issue_index (db st') = issue_index (db st)"
      "next_issue_id (db st') = next_issue_id (db st)"
    and ro: "to_reopen st' = to_reopen st @ reopen_pairs hash_dict (events ! i)"
  shows "loop_inv hash_dict events d0 (Suc i) st'"
proof -
  have len: "length (evs st) = length events" using inv unfolding loop_inv_def by (metis length_map)
  have nc: "\<not> issue_created (evs st ! i)" using inv i unfolding loop_inv_def by blast
  have cb: "created_by ((evs st)[i := e']) k oid = created_by (evs st) k oid" for k oid
    using created_by_update [of i "evs st" e' k oid] len i nc st'(3) by simp
  have co: "count_of (db st') k oid = count_of (db st) k oid" for k oid
    by (simp add: count_of_def db')
  have ms: "map static (evs st') = map static events"
    using inv i len st'(1,2) unfolding loop_inv_def
    by (metis list_update_id map_update nth_map)
  have ok: "db_ok (db st')" using inv by (simp add: loop_inv_def db_ok_def db')
  have nth: "evs st' ! j = (if j = i then e' else evs st ! j)" if "j < length events" for j
    using that len st'(1) by (simp add: nth_list_update)
  show ?thesis
    unfolding loop_inv_def
    using inv i st' nth ms ok
    by (auto simp: loop_inv_def cb co db' ro take_Suc_conv_app_nth less_Suc_eq)
qed

lemma count_of_create:
  assumes "map_of (issue_index d) (iid, org) = None"
    and "map_of (issue_index d') = (map_of (issue_index d))((iid, org) \<mapsto> r)" and "ix_count r = 1"
  shows "count_of d' k oid = count_of d k oid + (if k = iid \<and> oid = org then 1 else 0)"
  using assms by (auto simp: count_of_def)

text \<open>A step that creates a new issue for the key of event \<open>i\<close>.\<close>

lemma db_ok_create:
  assumes ok: "db_ok d" and none: "map_of (hashes d) k = None"
    and h': "map_of (hashes d') = (map_of (hashes d))(k \<mapsto> next_issue_id d)"
    and x': "map_of (issue_index d') = (map_of (issue_index d))((next_issue_id d, org) \<mapsto> r)"
    and n': "next_issue_id d' = next_issue_id d + 1"
  shows "db_ok d'"
proof -
  have lt: "map_of (hashes d) j = Some i \<Longrightarrow> 0 < i \<and> i < next_issue_id d" for j i
    using ok unfolding db_ok_def by blast
  have ilt: "map_of (issue_index d) (i, oid) = Some y \<Longrightarrow> i < next_issue_id d" for i oid y
    using ok unfolding db_ok_def by (metis option.distinct(1))
  have one: "map_of (hashes d) j = Some i \<Longrightarrow> map_of (hashes d) j' = Some i \<Longrightarrow> fst j = fst j'" for j j' i
    using ok unfolding db_ok_def by blast
  have pos: "0 < next_issue_id d" using ok by (simp add: db_ok_def)
  have 1: "0 < i \<and> i < next_issue_id d'" if "map_of (hashes d') j = Some i" for j i
    using that lt [of j i] pos by (auto simp: h' n' split: if_splits)
  have 2: "i < next_issue_id d'" if "map_of (issue_index d') (i, oid) \<noteq> None" for i oid
    using that ilt [of i oid] by (force simp: x' n' split: if_splits)
  have 3: "fst j = fst j'" if "map_of (hashes d') j = Some i" "map_of (hashes d') j' = Some i" for j j' i
    using that lt [of j i] lt [of j' i] one [of j i j'] by (auto simp: h' split: if_splits)
  show ?thesis unfolding db_ok_def using 1 2 3 pos n' by auto
qed

lemma map_le_upd_new: "m \<subseteq>\<^sub>m m' \<Longrightarrow> m' k = None \<Longrightarrow> m \<subseteq>\<^sub>m m'(k \<mapsto> v)"
  by (auto simp: map_le_def dom_def)

lemma loop_inv_create:
  assumes inv: "loop_inv hash_dict events d0 i st" and i: "i < length events"
    and none: "map_of (hashes (db st)) (pe_key (events ! i)) = None"
    and evs': "evs st' = (check_set_issue_id (fst (pe_key (events ! i))) (snd (pe_key (events ! i))) iid (evs st))[i := e']"
      "static e' = static (evs st ! i)" "issue_created e'" "issue_id e' = Some iid"
    and iid: "iid = next_issue_id (db st)"
    and h': "map_of (hashes (db st')) = (map_of (hashes (db st)))(pe_key (events ! i) \<mapsto> iid)"
    and x': "map_of (issue_index (db st')) = (map_of (issue_index (db st)))((iid, pe_org (events ! i)) \<mapsto> r)" "ix_count r = 1"
    and n': "next_issue_id (db st') = iid + 1"
    and ro: "to_reopen st' = to_reopen st @ reopen_pairs hash_dict (events ! i)"
  shows "loop_inv hash_dict events d0 (Suc i) st'"
proof -
  let ?cs = "check_set_issue_id (fst (pe_key (events ! i))) (snd (pe_key (events ! i))) iid (evs st)"
  have ms0: "map static (evs st) = map static events" using inv by (simp add: loop_inv_def)
  then have len: "length (evs st) = length events" by (metis length_map)
  have ok: "db_ok (db st)" using inv by (simp add: loop_inv_def)
  have nc: "\<not> issue_created (?cs ! i)"
    using inv i len by (auto simp: nth_check_set loop_inv_def)
  have fresh: "map_of (issue_index (db st)) (iid, oid) = None" for oid
    using ok unfolding db_ok_def iid by (metis less_irrefl)
  have org: "pe_org e' = pe_org (events ! i)"
    using static_fields(2) [of e' "events ! i"] static_nth [OF ms0 i] evs'(2) by simp
  have cb: "created_by (evs st') k oid = created_by (evs st) k oid + (if k = iid \<and> oid = pe_org (events ! i) then 1 else 0)" for k oid
    using created_by_update [of i ?cs e' k oid] len i nc evs'(1,3,4) org created_by_check_set [OF created_has_issue [OF inv]]
    by auto
  have co: "count_of (db st') k oid = count_of (db st) k oid + (if k = iid \<and> oid = pe_org (events ! i) then 1 else 0)" for k oid
    by (rule count_of_create [OF fresh x'])
  have "map static ?cs = map static events" using ms0 by simp
  then have ms: "map static (evs st') = map static events"
    using i len evs'(2) ms0 unfolding evs'(1)
    by (metis length_map list_update_id map_update nth_map)
  have ok': "db_ok (db st')"
    using db_ok_create [OF ok none _ x'(1) [unfolded iid]] h' n' iid by simp
  have nth: "evs st' ! j = (if j = i then e' else ?cs ! j)" if "j < length events" for j
    using that len evs'(1) by (simp add: nth_list_update)
  have key: "pe_key (evs st ! j) = pe_key (events ! j)" if "j < length events" for j
    using static_nth [OF ms0 that] by (rule pe_key_static)
  have D: "issue_id (evs st' ! j) = None \<or> issue_id (evs st' ! j) = map_of (hashes (db st')) (pe_key (events ! j))"
    if j: "j < length events" for j
  proof -
    have "issue_id (evs st ! j) = None \<or> issue_id (evs st ! j) = map_of (hashes (db st)) (pe_key (events ! j))"
      using inv j by (auto simp: loop_inv_def)
    then show ?thesis
      using j len none evs'(4) by (auto simp: nth h' nth_check_set key)
  qed
  have E: "issue_id (evs st' ! j) \<noteq> None" if "j < Suc i" for j
    using that i inv len evs'(4) by (auto simp: nth nth_check_set loop_inv_def less_Suc_eq)
  have F: "\<not> issue_created (evs st' ! j)" if "Suc i \<le> j" "j < length events" for j
    using that inv len by (auto simp: nth nth_check_set loop_inv_def)
  have sub: "map_of (hashes d0) \<subseteq>\<^sub>m map_of (hashes (db st'))" "map_of (issue_index d0) \<subseteq>\<^sub>m map_of (issue_index (db st'))"
    using inv none fresh by (simp_all add: loop_inv_def h' x'(1) map_le_upd_new)
  show ?thesis
    unfolding loop_inv_def
    using inv i ms ok' D E F sub
    by (auto simp: loop_inv_def cb co ro take_Suc_conv_app_nth)
qed


lemma reopen_pairs_static:
  assumes "static e = static e'"
  shows "reopen_pairs hash_dict e = reopen_pairs hash_dict e'"
proof -
  have "reopens h e = reopens h e'" for h
    using static_fields [OF assms] by (simp add: reopens_def)
  then show ?thesis
    using static_fields [OF assms]
    by (cases "map_of hash_dict (pe_project e', issue_hash e')") (simp_all add: reopen_pairs_def)
qed

lemma loop_step:
  assumes inv: "loop_inv hash_dict events d0 i st" and i: "i < length events" and lk: "lookup_ok hash_dict d0"
  shows "loop_inv hash_dict events d0 (Suc i) (process_one tsv_new hash_dict i st)"
proof -
  let ?pe = "evs st ! i"
  have ms: "map static (evs st) = map static events" and ok: "db_ok (db st)"
    and sub: "map_of (hashes d0) \<subseteq>\<^sub>m map_of (hashes (db st))"
    using inv by (auto simp: loop_inv_def)
  have st_eq: "static ?pe = static (events ! i)" by (rule static_nth [OF ms i])
  have key: "(pe_project ?pe, issue_hash ?pe) = pe_key (events ! i)"
    using pe_key_static [OF st_eq] by (simp add: pe_key_def)
  have org: "pe_org ?pe = pe_org (events ! i)" by (rule static_fields(2) [OF st_eq])
  have nc: "\<not> issue_created ?pe" using inv i unfolding loop_inv_def by blast
  have len: "i < length (evs st)" using ms i by (metis length_map)
  have ro: "reopen_pairs hash_dict ?pe = reopen_pairs hash_dict (events ! i)"
    by (rule reopen_pairs_static [OF st_eq])
  have pos: "is_set (Some k)" if "map_of (hashes (db st)) x = Some k" for x k
  proof -
    have "0 < k" using that ok unfolding db_ok_def by blast
    then show ?thesis by (simp add: is_set_def)
  qed
  show ?thesis
  proof (cases "map_of hash_dict (pe_key (events ! i))")
    case (Some h)
    then have "map_of (hashes d0) (pe_key (events ! i)) = Some (h_issue h)"
      using lk unfolding lookup_ok_def by blast
    then have hh: "map_of (hashes (db st)) (pe_key (events ! i)) = Some (h_issue h)"
      using sub unfolding map_le_def by (metis domI)
    have "process_one tsv_new hash_dict i st =
        st\<lparr>evs := (evs st)[i := ?pe\<lparr>issue_id := Some (h_issue h)\<rparr>], to_reopen := to_reopen st @ reopen_pairs hash_dict ?pe\<rparr>"
      using pos [OF hh] by (simp add: process_one_def reopen_pairs_def key Some Let_def)
    then show ?thesis
      by (intro loop_inv_assign [OF inv i, where e' = "?pe\<lparr>issue_id := Some (h_issue h)\<rparr>"]) (simp_all add: hh nc ro)
  next
    case None
    then have nil: "reopen_pairs hash_dict ?pe = []" by (simp add: reopen_pairs_def key)
    show ?thesis
    proof (cases "issue_id ?pe")
      case (Some k)
      then have hk: "map_of (hashes (db st)) (pe_key (events ! i)) = Some k"
        using inv i unfolding loop_inv_def by (metis option.distinct(1))
      have "process_one tsv_new hash_dict i st =
          st\<lparr>evs := (evs st)[i := ?pe], to_reopen := to_reopen st @ reopen_pairs hash_dict ?pe\<rparr>"
        using pos [OF hk] Some by (simp add: process_one_def key None nil Let_def)
      then show ?thesis
        by (intro loop_inv_assign [OF inv i, where e' = ?pe]) (simp_all add: hk nc ro Some)
    next
      case no_issue: None
      show ?thesis
      proof (cases "map_of (hashes (db st)) (pe_key (events ! i))")
        case (Some k)
        then show ?thesis
          using no_issue None nc ro nil len
          by (intro loop_inv_assign [OF inv i, where e' = "?pe\<lparr>issue_id := Some k, issue_created := False\<rparr>"])
             (simp_all add: process_one_def create_issue_and_hash_def key is_set_def Let_def)
      next
        case new: None
        have cs: "check_set_issue_id (pe_project ?pe) (issue_hash ?pe) j (evs st) ! i = ?pe\<lparr>issue_id := Some j\<rparr>" for j
          using len no_issue by (simp add: nth_check_set pe_key_def)
        have key': "pe_project ?pe = fst (pe_key (events ! i))" "issue_hash ?pe = snd (pe_key (events ! i))"
          by (simp_all flip: key)
        have upd: "x\<lparr>issue_id := v, issue_id := w\<rparr> = x\<lparr>issue_id := w\<rparr>" for x :: pevent and v w by simp
        show ?thesis
          by (rule loop_inv_create [OF inv i new, where iid = "next_issue_id (db st)"
                and e' = "?pe\<lparr>issue_id := Some (next_issue_id (db st)), issue_created := True\<rparr>"
                and r = "\<lparr>ix_count = 1, ix_last_seen = received ?pe, ix_last_release = release_id ?pe,
                     ix_status = UNRESOLVED, ix_level = level_or_error (pe_level ?pe),
                     ix_document = tsv_new (search_text ?pe)\<rparr>"])
             (use None no_issue new nil ro cs key' org in
               \<open>simp_all add: process_one_def create_issue_and_hash_def is_set_def Let_def\<close>)
      qed
    qed
  qed
qed

lemma loop_inv_start:
  assumes "db_ok d" and "\<forall>e\<in>set events. new_event e"
  shows "loop_inv hash_dict events d 0 \<lparr>evs = events, db = d, to_reopen = []\<rparr>"
  using assms by (auto simp: loop_inv_def new_event_def created_by_def filter_empty_conv)

lemma process_all_inv:
  assumes "db_ok d" and "lookup_ok hash_dict d" and "\<forall>e\<in>set events. new_event e"
  shows "loop_inv hash_dict events d (length events) (process_all tsv_new hash_dict events d)"
proof -
  have "loop_inv hash_dict events d n (fold (process_one tsv_new hash_dict) [0..<n] \<lparr>evs = events, db = d, to_reopen = []\<rparr>)"
    if "n \<le> length events" for n
    using that
  proof (induction n)
    case 0
    then show ?case using loop_inv_start [OF assms(1,3)] by simp
  next
    case (Suc n)
    then show ?case using loop_step [OF _ _ assms(2)] by simp
  qed
  then show ?thesis by (simp add: process_all_def)
qed

section \<open>Counters\<close>

lemma map_of_data_stats:
  "map_of (data_stats es) (d, p) =
     (let xs = filter (\<lambda>e. (hour_of (received e), pe_project e) = (d, p)) es in
      if xs = [] then None else Some (int (length xs), pe_org (last xs)))"
  unfolding data_stats_def
    dict.get_fold [where key = "\<lambda>e. (hour_of (received e), pe_project e)" and stp = "\<lambda>a e. stat_step a (pe_org e)"]
  by (simp add: fold_stat_step Let_def)

lemma map_of_issue_stats:
  "map_of (issue_hourly_stats es) (d, i) =
     (let xs = filter (\<lambda>e. (hour_of (received e), the (issue_id e)) = (d, i)) (filter (\<lambda>e. is_set (issue_id e)) es) in
      if xs = [] then None else Some (int (length xs), pe_org (last xs)))"
  unfolding issue_hourly_stats_def
    dict.get_fold [where key = "\<lambda>e. (hour_of (received e), the (issue_id e))" and stp = "\<lambda>a e. stat_step a (pe_org e)"]
  by (simp add: fold_stat_step Let_def)

lemma dict_ok_stats: "dict_ok (data_stats es)" "dict_ok (issue_hourly_stats es)"
  unfolding data_stats_def issue_hourly_stats_def
  by (rule dict.ok_fold [where key = "\<lambda>e. (hour_of (received e), pe_project e)" and stp = "\<lambda>a e. stat_step a (pe_org e)"],
      simp, rule dict.ok_fold [where key = "\<lambda>e. (hour_of (received e), the (issue_id e))" and stp = "\<lambda>a e. stat_step a (pe_org e)"],
      simp)

text \<open>The events of a list that a counter of the organization \<open>oid\<close> is to count.\<close>

definition same_org :: "pevent list \<Rightarrow> bool" where
  "same_org es \<longleftrightarrow> (\<forall>e\<in>set es. \<forall>e'\<in>set es. pe_project e = pe_project e' \<longrightarrow> pe_org e = pe_org e')"

section \<open>The index rows\<close>

lemma dict_ok_issues_to_update: "dict_ok (issues_to_update es)"
  unfolding issues_to_update_def
  by (rule dict.ok_fold [where key = "\<lambda>e. the (issue_id e)" and stp = update_step]) simp

lemma fold_update_step:
  "fold (\<lambda>x a. Some (update_step a x)) xs (Some u) =
     Some (fold (\<lambda>x a. update_step (Some a) x) xs u)"
  by (induction xs arbitrary: u) auto

lemma update_step_added: "iu_added (update_step (Some u) e) = iu_added u + 1 \<and> iu_org (update_step (Some u) e) = iu_org u"
  by (simp add: update_step_def Let_def)

lemma fold_update_added:
  "iu_added (fold (\<lambda>x a. update_step (Some a) x) xs u) = iu_added u + int (length xs) \<and>
   iu_org (fold (\<lambda>x a. update_step (Some a) x) xs u) = iu_org u"
  by (induction xs arbitrary: u) (auto simp: update_step_added)

text \<open>The events of a batch that \<open>update_issues\<close> counts for the issue \<open>i\<close>.\<close>

definition updates_for :: "pevent list \<Rightarrow> int \<Rightarrow> pevent list" where
  "updates_for es i = filter (\<lambda>e. \<not> issue_created e \<and> is_set (issue_id e) \<and> issue_id e = Some i) es"

lemma map_of_issues_to_update:
  "map_of (issues_to_update es) i =
     (case updates_for es i of [] \<Rightarrow> None | e # xs \<Rightarrow> Some (fold (\<lambda>x a. update_step (Some a) x) xs (update_step None e)))"
proof -
  have "filter (\<lambda>e. the (issue_id e) = i) (filter (\<lambda>e. \<not> issue_created e \<and> is_set (issue_id e)) es) = updates_for es i"
    by (auto simp: updates_for_def is_set_def intro: filter_cong)
  then have "map_of (issues_to_update es) i = fold (\<lambda>x a. Some (update_step a x)) (updates_for es i) None"
    unfolding issues_to_update_def
      dict.get_fold [where key = "\<lambda>e. the (issue_id e)" and stp = update_step] by simp
  then show ?thesis by (simp add: fold_update_step split: list.split)
qed

lemma map_of_update_issues:
  "map_of (update_issues tsv_append tsv_new es tbl) (i, oid) =
     (case map_of (issues_to_update es) i of
        None \<Rightarrow> map_of tbl (i, oid)
      | Some u \<Rightarrow> if iu_org u = oid then Some (merge_index tsv_append tsv_new u (map_of tbl (i, oid))) else map_of tbl (i, oid))"
proof -
  let ?l = "sort_key fst (issues_to_update es)"
  have ok: "dict_ok ?l" by (simp add: dict_ok_issues_to_update)
  have flt: "filter (\<lambda>(k, u). (k, iu_org u) = (i, oid)) ?l =
      (case map_of ?l i of Some u \<Rightarrow> if iu_org u = oid then [(i, u)] else [] | None \<Rightarrow> [])"
    unfolding filter_key_at_most_one [OF ok, symmetric] by (rule filter_cong) auto
  show ?thesis
    unfolding update_issues_def
      map_of_upserts [OF ok, where tk = "\<lambda>k u. (k, iu_org u)" and mrg = "merge_index tsv_append tsv_new"] flt
    unfolding map_of_sort_key [OF dict_ok_issues_to_update]
    by (auto split: option.split)
qed

lemma merge_index_count:
  "ix_count (merge_index tsv_append tsv_new u r) = (case r of None \<Rightarrow> 0 | Some t \<Rightarrow> ix_count t) + iu_added u"
  by (simp add: merge_index_def split: option.split)

lemma update_issues_count:
  assumes "\<forall>e\<in>set (updates_for es i). \<forall>e'\<in>set (updates_for es i). pe_org e = pe_org e'"
  shows "(case map_of (update_issues tsv_append tsv_new es tbl) (i, oid) of None \<Rightarrow> 0 | Some r \<Rightarrow> ix_count r) =
    (case map_of tbl (i, oid) of None \<Rightarrow> 0 | Some r \<Rightarrow> ix_count r) +
    int (length (filter (\<lambda>e. pe_org e = oid) (updates_for es i)))"
proof (cases "updates_for es i")
  case Nil
  then show ?thesis by (simp add: map_of_update_issues map_of_issues_to_update)
next
  case (Cons e xs)
  let ?u = "fold (\<lambda>x a. update_step (Some a) x) xs (update_step None e)"
  have u: "iu_added ?u = 1 + int (length xs)" "iu_org ?u = pe_org e"
    using fold_update_added [of xs "update_step None e"] by (simp_all add: update_step_def)
  have "filter (\<lambda>x. pe_org x = oid) (updates_for es i) = (if pe_org e = oid then e # xs else [])"
    using assms unfolding Cons by (intro filter_uniform) (meson list.set_intros(1))
  then show ?thesis
    by (simp add: map_of_update_issues map_of_issues_to_update Cons u merge_index_count)
qed

lemma map_of_reopen_index:
  "map_of (reopen_index pairs tbl) k =
     map_option (\<lambda>r. if k \<in> set pairs then r\<lparr>ix_status := UNRESOLVED\<rparr> else r) (map_of tbl k)"
  by (induction tbl) (auto simp: reopen_index_def)

section \<open>What a batch does\<close>

lemma store_events_parts:
  assumes "store_events tsv_append tsv_new valkey ids hash_dict events S = (es, S')"
  defines "st \<equiv> process_all tsv_new hash_dict events (tables S)"
  shows "es = map (\<lambda>e. e\<lparr>event_tags := clean_tags (event_tags e)\<rparr>) (evs st)"
    and "hashes (tables S') = hashes (db st)"
    and "issue_index (tables S') = reopen_index (to_reopen st) (update_issues tsv_append tsv_new (evs st) (issue_index (db st)))"
    and "event_rows (tables S') = write_event_rows (map2 event_row_of ids (evs st)) (event_rows (db st))"
    and "project_stats S' = upsert_counts (sort_key (\<lambda>((d, k), (n, oid)). (d, k, oid)) (data_stats (evs st))) (project_stats S)"
    and "issue_stats S' = upsert_counts (sort_key (\<lambda>((d, k), (n, oid)). (d, oid, k)) (issue_hourly_stats (evs st))) (issue_stats S)"
  using assms
  by (auto simp: store_events_def Let_def drop_notifications_def update_statistics_def update_org_statistics_def
      STATS_TABLES_def)

text \<open>What the loop leaves, in one place: the premises of the properties below and their consequences.\<close>

lemma processed:
  fixes tsv_new :: "string \<Rightarrow> string"
  assumes "db_ok d" and "lookup_ok hash_dict d" and "\<forall>e\<in>set events. new_event e"
  defines "st \<equiv> process_all tsv_new hash_dict events d"
  shows "map static (evs st) = map static events" and "db_ok (db st)"
    and "map_of (hashes d) \<subseteq>\<^sub>m map_of (hashes (db st))"
    and "map_of (issue_index d) \<subseteq>\<^sub>m map_of (issue_index (db st))"
    and "\<And>e. e \<in> set (evs st) \<Longrightarrow> issue_id e \<noteq> None \<and> issue_id e = map_of (hashes (db st)) (pe_key e)"
    and "\<And>k oid. count_of (db st) k oid = count_of d k oid + int (created_by (evs st) k oid)"
    and "to_reopen st = concat (map (reopen_pairs hash_dict) events)"
proof -
  have inv: "loop_inv hash_dict events d (length events) st"
    unfolding st_def by (rule process_all_inv [OF assms(1-3)])
  then show ms: "map static (evs st) = map static events" and "db_ok (db st)"
    and "map_of (hashes d) \<subseteq>\<^sub>m map_of (hashes (db st))"
    and "map_of (issue_index d) \<subseteq>\<^sub>m map_of (issue_index (db st))"
    and "count_of (db st) k oid = count_of d k oid + int (created_by (evs st) k oid)"
    and "to_reopen st = concat (map (reopen_pairs hash_dict) events)" for k oid
    by (auto simp: loop_inv_def)
  fix e assume "e \<in> set (evs st)"
  then obtain j where j: "j < length (evs st)" "e = evs st ! j" by (auto simp: in_set_conv_nth)
  have len: "length (evs st) = length events" using ms by (metis length_map)
  then have "static e = static (events ! j)" using static_nth [OF ms] j by simp
  then show "issue_id e \<noteq> None \<and> issue_id e = map_of (hashes (db st)) (pe_key e)"
    using inv j len pe_key_static [of e "events ! j"] unfolding loop_inv_def by (metis (no_types, lifting))
qed


lemma map_static_eq:
  assumes "map static xs = map static ys" and "\<And>e e'. static e = static e' \<Longrightarrow> f e = f e'"
  shows "map f xs = map f ys"
  using assms(1)
proof (induction xs arbitrary: ys)
  case (Cons x xs)
  then obtain y ys' where "ys = y # ys'" by (cases ys) auto
  with Cons assms(2) [of x y] show ?case by simp
qed simp

lemma same_org_static:
  assumes ms: "map static xs = map static ys" and "same_org ys"
  shows "same_org xs"
proof -
  have "\<exists>y\<in>set ys. static x = static y" if "x \<in> set xs" for x
    using that ms by (metis (no_types, lifting) image_iff list.set_map)
  with assms(2) show ?thesis
    unfolding same_org_def by (metis static_fields(1) static_fields(2))
qed

lemma same_issue_same_org:
  assumes "db_ok d" and "lookup_ok hash_dict d" and "\<forall>e\<in>set events. new_event e" and "same_org events"
    and "e \<in> set (evs (process_all tsv_new hash_dict events d))"
    and "e' \<in> set (evs (process_all tsv_new hash_dict events d))" and "issue_id e = issue_id e'"
  shows "pe_project e = pe_project e' \<and> pe_org e = pe_org e'"
proof -
  note p = processed [OF assms(1-3), where tsv_new = tsv_new]
  have "fst (pe_key e) = fst (pe_key e')"
    using p(2) p(5) [OF assms(5)] p(5) [OF assms(6)] assms(7) unfolding db_ok_def by (metis not_Some_eq)
  then have "pe_project e = pe_project e'" by (simp add: pe_key_def)
  moreover have "same_org (evs (process_all tsv_new hash_dict events d))"
    by (rule same_org_static [OF p(1) assms(4)])
  ultimately show ?thesis using assms(5,6) unfolding same_org_def by blast
qed

lemma issue_is_set:
  assumes "db_ok d" and "lookup_ok hash_dict d" and "\<forall>e\<in>set events. new_event e"
    and "e \<in> set (evs (process_all tsv_new hash_dict events d))"
  shows "is_set (issue_id e)"
proof -
  note p = processed [OF assms(1-3), where tsv_new = tsv_new]
  obtain k where "issue_id e = Some k" "map_of (hashes (db (process_all tsv_new hash_dict events d))) (pe_key e) = Some k"
    using p(5) [OF assms(4)] by (metis not_Some_eq)
  moreover from this p(2) have "0 < k" unfolding db_ok_def by blast
  ultimately show ?thesis by (simp add: is_set_def)
qed

lemma event_rows_process_all [simp]:
  "event_rows (db (process_all tsv_new hash_dict events d)) = event_rows d"
proof -
  have "event_rows (db (process_one tsv_new hash_dict i st)) = event_rows (db st)" for i st
    by (auto simp: process_one_def create_issue_and_hash_def Let_def split: option.split)
  then have "event_rows (db (fold (process_one tsv_new hash_dict) is st)) = event_rows (db st)" for "is" st
    by (induction "is" arbitrary: st) simp_all
  then show ?thesis by (simp add: process_all_def)
qed

lemma length_filter_split:
  "length (filter (\<lambda>x. A x \<and> P x) xs) + length (filter (\<lambda>x. \<not> A x \<and> P x) xs) = length (filter P xs)"
  by (induction xs) auto

section \<open>Properties\<close>

text \<open>
  Property C22. Storing a batch groups its events by project and hash: every event gets an issue,
  namely the one that the hash table records for its key afterwards, events with the same key get
  the same issue and events of different projects never share one, no recorded hash is moved to
  another issue, and with fresh row ids one event row per event is written with that issue.
\<close>

theorem events_grouped_by_hash:
  assumes "store_events tsv_append tsv_new valkey ids hash_dict events S = (es, S')"
    and "db_ok (tables S)" and "lookup_ok hash_dict (tables S)" and "\<forall>e\<in>set events. new_event e"
    and "length ids = length events" and "distinct (map er_id (event_rows (tables S)) @ ids)"
  shows "map pe_key es = map pe_key events \<and>
    (\<forall>e\<in>set es. issue_id e \<noteq> None \<and> issue_id e = map_of (hashes (tables S')) (pe_key e)) \<and>
    (\<forall>e\<in>set es. \<forall>e'\<in>set es. pe_key e = pe_key e' \<longrightarrow> issue_id e = issue_id e') \<and>
    (\<forall>e\<in>set es. \<forall>e'\<in>set es. issue_id e = issue_id e' \<longrightarrow> pe_project e = pe_project e') \<and>
    map_of (hashes (tables S)) \<subseteq>\<^sub>m map_of (hashes (tables S')) \<and>
    map er_issue (event_rows (tables S')) = map er_issue (event_rows (tables S)) @ map issue_id es"
proof -
  let ?st = "process_all tsv_new hash_dict events (tables S)"
  note p = processed [OF assms(2-4), where tsv_new = tsv_new]
  note q = store_events_parts [OF assms(1)]
  have keys: "map pe_key es = map pe_key events"
  proof -
    have "map pe_key (evs ?st) = map pe_key events"
      by (rule map_static_eq [OF p(1) pe_key_static])
    then show ?thesis by (simp add: q(1) pe_key_def [abs_def] comp_def)
  qed
  have each: "issue_id e \<noteq> None \<and> issue_id e = map_of (hashes (tables S')) (pe_key e)" if mem: "e \<in> set es" for e
  proof -
    obtain e0 where "e0 \<in> set (evs ?st)" "e = e0\<lparr>event_tags := clean_tags (event_tags e0)\<rparr>"
      using mem q(1) by auto
    then have "e0 \<in> set (evs ?st)" "issue_id e = issue_id e0" "pe_key e = pe_key e0" by (simp_all add: pe_key_def)
    then show ?thesis using p(5) [of e0] unfolding q(2) by metis
  qed
  have proj: "pe_project e = pe_project e'" if "e \<in> set es" "e' \<in> set es" "issue_id e = issue_id e'" for e e'
  proof -
    have "fst (pe_key e) = fst (pe_key e')"
      using each [OF that(1)] each [OF that(2)] that(3) p(2) unfolding q(2) db_ok_def by (metis not_Some_eq)
    then show ?thesis by (simp add: pe_key_def)
  qed
  have ids: "map issue_id es = map issue_id (evs ?st)" by (simp add: q(1) comp_def)
  have same: "issue_id e = issue_id e'" if "e \<in> set es" "e' \<in> set es" "pe_key e = pe_key e'" for e e'
    using each that by metis
  have "map er_issue (event_rows (tables S')) = map er_issue (event_rows (tables S)) @ map issue_id es"
  proof -
    have len: "length (evs ?st) = length ids" using p(1) assms(5) by (metis length_map)
    have "map er_id (map2 event_row_of ids (evs ?st)) = ids"
      "map er_issue (map2 event_row_of ids (evs ?st)) = map issue_id (evs ?st)"
      using len by (auto simp: event_row_of_def comp_def split_beta intro: map_fst_zip map_snd_zip nth_equalityI)
    then show ?thesis unfolding q(4) event_rows_process_all ids write_event_rows_def using assms(6) by simp
  qed
  moreover have "map_of (hashes (tables S)) \<subseteq>\<^sub>m map_of (hashes (tables S'))" using p(3) q(2) by simp
  ultimately show ?thesis using keys each same proj by blast
qed

text \<open>
  Property C25. Counting is exact: when the events of a project carry its one organization, the
  count of an issue's index row grows by exactly the number of events of the batch that went to
  this issue, whether the row was there, is created by the first of them, or is created by the
  update.
\<close>

theorem issue_count_is_exact:
  assumes "store_events tsv_append tsv_new valkey ids hash_dict events S = (es, S')"
    and "db_ok (tables S)" and "lookup_ok hash_dict (tables S)" and "\<forall>e\<in>set events. new_event e"
    and "same_org events"
  shows "count_of (tables S') i oid =
    count_of (tables S) i oid + int (length (filter (\<lambda>e. issue_id e = Some i \<and> pe_org e = oid) es))"
proof -
  let ?st = "process_all tsv_new hash_dict events (tables S)"
  note p = processed [OF assms(2-4), where tsv_new = tsv_new]
  note q = store_events_parts [OF assms(1)]
  have orgs: "\<forall>e\<in>set (updates_for (evs ?st) i). \<forall>e'\<in>set (updates_for (evs ?st) i). pe_org e = pe_org e'"
  proof (intro ballI)
    fix e e' assume "e \<in> set (updates_for (evs ?st) i)" "e' \<in> set (updates_for (evs ?st) i)"
    then have "e \<in> set (evs ?st)" "e' \<in> set (evs ?st)" "issue_id e = issue_id e'"
      by (simp_all add: updates_for_def)
    then show "pe_org e = pe_org e'" using same_issue_same_org [OF assms(2-5)] by blast
  qed
  have upd: "filter (\<lambda>e. pe_org e = oid) (updates_for (evs ?st) i) =
      filter (\<lambda>e. \<not> issue_created e \<and> issue_id e = Some i \<and> pe_org e = oid) (evs ?st)"
    unfolding updates_for_def filter_filter
    by (rule filter_cong [OF refl]) (use issue_is_set [OF assms(2-4), where tsv_new = tsv_new] in blast)
  have "count_of (tables S') i oid =
      (case map_of (update_issues tsv_append tsv_new (evs ?st) (issue_index (db ?st))) (i, oid) of None \<Rightarrow> 0 | Some r \<Rightarrow> ix_count r)"
    unfolding count_of_def q(3) map_of_reopen_index by (simp split: option.split)
  also have "\<dots> = count_of (db ?st) i oid + int (length (filter (\<lambda>e. pe_org e = oid) (updates_for (evs ?st) i)))"
    unfolding update_issues_count [OF orgs] count_of_def ..
  also have "\<dots> = count_of (tables S) i oid +
      int (created_by (evs ?st) i oid + length (filter (\<lambda>e. \<not> issue_created e \<and> issue_id e = Some i \<and> pe_org e = oid) (evs ?st)))"
    unfolding p(6) upd by simp
  also have "\<dots> = count_of (tables S) i oid + int (length (filter (\<lambda>e. issue_id e = Some i \<and> pe_org e = oid) (evs ?st)))"
    unfolding created_by_def length_filter_split ..
  also have "filter (\<lambda>e. issue_id e = Some i \<and> pe_org e = oid) es =
      map (\<lambda>e. e\<lparr>event_tags := clean_tags (event_tags e)\<rparr>) (filter (\<lambda>e. issue_id e = Some i \<and> pe_org e = oid) (evs ?st))"
    unfolding q(1) by (simp add: filter_map comp_def)
  ultimately show ?thesis by simp
qed


lemma count_static:
  assumes "map static xs = map static ys" and "\<And>e e'. static e = static e' \<Longrightarrow> P e = P e'"
  shows "length (filter P xs) = length (filter P ys)"
proof -
  have "length (filter P zs) = length (filter id (map P zs))" for zs by (simp add: filter_map comp_def)
  with map_static_eq [where f = P, OF assms] show ?thesis by metis
qed

text \<open>
  Further property. The hourly tables add up: the count of a project and hour grows by the number of
  events of the batch of this project received in this hour, and the count of an issue and hour
  by the number of its events in this hour, under the one organization of the project.
\<close>

theorem hourly_statistics_add_up:
  assumes "store_events tsv_append tsv_new valkey ids hash_dict events S = (es, S')"
    and "db_ok (tables S)" and "lookup_ok hash_dict (tables S)" and "\<forall>e\<in>set events. new_event e"
    and "same_org events"
  shows "val (project_stats S') (p, oid, hr) = val (project_stats S) (p, oid, hr) +
      int (length (filter (\<lambda>e. pe_project e = p \<and> pe_org e = oid \<and> hour_of (received e) = hr) events)) \<and>
    val (issue_stats S') (i, oid, hr) = val (issue_stats S) (i, oid, hr) +
      int (length (filter (\<lambda>e. issue_id e = Some i \<and> pe_org e = oid \<and> hour_of (received e) = hr) es))"
proof
  let ?st = "process_all tsv_new hash_dict events (tables S)"
  note pr = processed [OF assms(2-4), where tsv_new = tsv_new]
  note q = store_events_parts [OF assms(1)]
  let ?ps = "filter (\<lambda>e. (hour_of (received e), pe_project e) = (hr, p)) (evs ?st)"
  let ?is = "filter (\<lambda>e. (hour_of (received e), the (issue_id e)) = (hr, i)) (filter (\<lambda>e. is_set (issue_id e)) (evs ?st))"
  have so: "same_org (evs ?st)" by (rule same_org_static [OF pr(1) assms(5)])
  have o1: "\<forall>e\<in>set ?ps. \<forall>e'\<in>set ?ps. pe_org e = pe_org e'"
    using so unfolding same_org_def by simp
  have "filter (\<lambda>e. pe_org e = oid) ?ps =
      filter (\<lambda>e. pe_project e = p \<and> pe_org e = oid \<and> hour_of (received e) = hr) (evs ?st)"
    unfolding filter_filter by (rule filter_cong) auto
  moreover have "length (filter (\<lambda>e. pe_project e = p \<and> pe_org e = oid \<and> hour_of (received e) = hr) (evs ?st)) =
      length (filter (\<lambda>e. pe_project e = p \<and> pe_org e = oid \<and> hour_of (received e) = hr) events)"
    using static_fields by (intro count_static [OF pr(1)]) metis
  ultimately show "val (project_stats S') (p, oid, hr) = val (project_stats S) (p, oid, hr) +
      int (length (filter (\<lambda>e. pe_project e = p \<and> pe_org e = oid \<and> hour_of (received e) = hr) events))"
    unfolding q(5) hourly_val [where org = pe_org, OF dict_ok_stats(1) map_of_data_stats o1] by simp
  have o2: "\<forall>e\<in>set ?is. \<forall>e'\<in>set ?is. pe_org e = pe_org e'"
  proof (intro ballI)
    fix e e' assume "e \<in> set ?is" "e' \<in> set ?is"
    then have "e \<in> set (evs ?st)" "e' \<in> set (evs ?st)" "issue_id e = issue_id e'"
      by (auto simp: is_set_def)
    then show "pe_org e = pe_org e'" using same_issue_same_org [OF assms(2-5)] by blast
  qed
  have "filter (\<lambda>e. pe_org e = oid) ?is =
      filter (\<lambda>e. issue_id e = Some i \<and> pe_org e = oid \<and> hour_of (received e) = hr) (evs ?st)"
    unfolding filter_filter
    by (rule filter_cong [OF refl]) (use issue_is_set [OF assms(2-4), where tsv_new = tsv_new] in \<open>auto simp: is_set_def\<close>)
  moreover have "length (filter (\<lambda>e. issue_id e = Some i \<and> pe_org e = oid \<and> hour_of (received e) = hr) es) =
      length (filter (\<lambda>e. issue_id e = Some i \<and> pe_org e = oid \<and> hour_of (received e) = hr) (evs ?st))"
    unfolding q(1) by (simp add: filter_map comp_def)
  ultimately show "val (issue_stats S') (i, oid, hr) = val (issue_stats S) (i, oid, hr) +
      int (length (filter (\<lambda>e. issue_id e = Some i \<and> pe_org e = oid \<and> hour_of (received e) = hr) es))"
    unfolding q(6) hourly_val [where org = pe_org, OF dict_ok_stats(2) map_of_issue_stats o2] by simp
qed

lemma update_issues_status:
  assumes "map_of tbl (i, oid) = Some r"
  shows "\<exists>r'. map_of (update_issues tsv_append tsv_new es tbl) (i, oid) = Some r' \<and> ix_status r' = ix_status r \<and>
    ix_level r' = ix_level r \<and> ix_last_seen r \<le> ix_last_seen r'"
  using assms by (auto simp: map_of_update_issues merge_index_def split: option.split)

text \<open>
  Property C32. A batch reopens an index row exactly when one of its events reopens it: the status
  of a row that was there becomes unresolved if some event has a hash that the lookup maps to a
  resolved issue with the id of the row, is from the organization of the row, and does not come
  from the release the issue was resolved in; else the status is left as it was.
\<close>

theorem batch_reopens_exactly:
  assumes "store_events tsv_append tsv_new valkey ids hash_dict events S = (es, S')"
    and "db_ok (tables S)" and "lookup_ok hash_dict (tables S)" and "\<forall>e\<in>set events. new_event e"
    and "map_of (issue_index (tables S)) (i, oid) = Some r"
  shows "\<exists>r'. map_of (issue_index (tables S')) (i, oid) = Some r' \<and>
    ix_status r' = (if \<exists>e\<in>set events. \<exists>h. map_of hash_dict (pe_key e) = Some h \<and> h_issue h = i \<and> pe_org e = oid \<and>
                         h_status h = RESOLVED \<and>
                         (h_resolved_in h = None \<or> release_id e \<noteq> None \<and> release_id e \<noteq> h_resolved_in h)
                    then UNRESOLVED else ix_status r) \<and>
    ix_level r' = ix_level r \<and> ix_last_seen r \<le> ix_last_seen r'"
proof -
  let ?st = "process_all tsv_new hash_dict events (tables S)"
  note p = processed [OF assms(2-4), where tsv_new = tsv_new]
  note q = store_events_parts [OF assms(1)]
  have row: "map_of (issue_index (db ?st)) (i, oid) = Some r"
    using p(4) assms(5) unfolding map_le_def by (metis domI)
  obtain r1 where r1: "map_of (update_issues tsv_append tsv_new (evs ?st) (issue_index (db ?st))) (i, oid) = Some r1"
    "ix_status r1 = ix_status r" "ix_level r1 = ix_level r" "ix_last_seen r \<le> ix_last_seen r1"
    using update_issues_status [OF row] by blast
  have "(i, oid) \<in> set (reopen_pairs hash_dict e) \<longleftrightarrow>
      (\<exists>h. map_of hash_dict (pe_key e) = Some h \<and> h_issue h = i \<and> pe_org e = oid \<and> h_status h = RESOLVED \<and>
        (h_resolved_in h = None \<or> release_id e \<noteq> None \<and> release_id e \<noteq> h_resolved_in h))" for e
    by (cases "map_of hash_dict (pe_key e)") (auto simp: reopen_pairs_def reopens_def pe_key_def)
  then have iff: "(i, oid) \<in> set (to_reopen ?st) \<longleftrightarrow>
      (\<exists>e\<in>set events. \<exists>h. map_of hash_dict (pe_key e) = Some h \<and> h_issue h = i \<and> pe_org e = oid \<and> h_status h = RESOLVED \<and>
        (h_resolved_in h = None \<or> release_id e \<noteq> None \<and> release_id e \<noteq> h_resolved_in h))"
    unfolding p(7) by simp
  show ?thesis unfolding iff [symmetric] q(3) map_of_reopen_index r1(1) using r1(2-4) by simp
qed


section \<open>Tags of a batch\<close>

lemma dict_ok_clean_tags: "dict_ok (clean_tags tags)"
proof -
  have "dict_ok m \<Longrightarrow> dict_ok (fold (\<lambda>(k, v) m. dset m (clean_tag k) (clean_tag v)) tags m)" for m
    by (induction tags arbitrary: m) auto
  then show ?thesis by (simp add: clean_tags_def)
qed

text \<open>The tag pairs of a batch, in the order in which \<open>update_tags\<close> visits them.\<close>

definition tag_visits :: "pevent list \<Rightarrow> (pevent \<times> string \<times> string) list" where
  "tag_visits es = concat (map (\<lambda>pe. map (Pair pe) (clean_tags (event_tags pe))) (filter (\<lambda>pe. issue_id pe \<noteq> None) es))"

lemma visits_of_event:
  "length (filter (\<lambda>(pe, kv). kv = (k, v) \<and> P pe) (map (Pair e) (clean_tags (event_tags e)))) =
     (if map_of (clean_tags (event_tags e)) k = Some v \<and> P e then 1 else 0)"
proof -
  have "filter (\<lambda>(k', v'). k' = k \<and> v' = v) (clean_tags (event_tags e)) =
      (case map_of (clean_tags (event_tags e)) k of Some u \<Rightarrow> if u = v then [(k, u)] else [] | None \<Rightarrow> [])"
    by (rule filter_key_at_most_one [OF dict_ok_clean_tags])
  moreover have "filter (\<lambda>(pe, kv). kv = (k, v) \<and> P pe) (map (Pair e) (clean_tags (event_tags e))) =
      (if P e then map (Pair e) (filter (\<lambda>(k', v'). k' = k \<and> v' = v) (clean_tags (event_tags e))) else [])"
    by (auto simp: filter_map comp_def case_prod_unfold prod_eq_iff)
  ultimately show ?thesis by (auto split: option.splits)
qed

lemma length_tag_visits:
  "length (filter (\<lambda>(pe, kv). kv = (k, v) \<and> P pe) (tag_visits es)) =
     length (filter (\<lambda>e. issue_id e \<noteq> None \<and> map_of (clean_tags (event_tags e)) k = Some v \<and> P e) es)"
proof (induction es)
  case (Cons e es)
  have "tag_visits (e # es) = (if issue_id e \<noteq> None then map (Pair e) (clean_tags (event_tags e)) else []) @ tag_visits es"
    by (simp add: tag_visits_def)
  with Cons visits_of_event [of k v P e] show ?case by (cases "issue_id e") auto
qed (simp add: tag_visits_def)

lemma map_of_tag_stats:
  "map_of (tag_stats es) (d, i, k, v) =
     (let xs = filter (\<lambda>(e, kv). (day_start (received e), the (issue_id e), fst kv, snd kv) = (d, i, k, v)) (tag_visits es) in
      if xs = [] then None else Some (int (length xs), pe_org (fst (last xs))))"
proof -
  have eq: "tag_stats es = fold (\<lambda>x m. dset m (day_start (received (fst x)), the (issue_id (fst x)), fst (snd x), snd (snd x))
      (stat_step (map_of m (day_start (received (fst x)), the (issue_id (fst x)), fst (snd x), snd (snd x))) (pe_org (fst x))))
      (tag_visits es) []"
    by (simp add: tag_stats_def tag_visits_def case_prod_unfold)
  show ?thesis
    unfolding eq
      dict.get_fold [where key = "\<lambda>x. (day_start (received (fst x)), the (issue_id (fst x)), fst (snd x), snd (snd x))"
        and stp = "\<lambda>a x. stat_step a (pe_org (fst x))"]
    by (simp add: fold_stat_step Let_def case_prod_unfold)
qed

lemma dict_ok_tag_stats: "dict_ok (tag_stats es)"
proof -
  have eq: "tag_stats es = fold (\<lambda>x m. dset m (day_start (received (fst x)), the (issue_id (fst x)), fst (snd x), snd (snd x))
      (stat_step (map_of m (day_start (received (fst x)), the (issue_id (fst x)), fst (snd x), snd (snd x))) (pe_org (fst x))))
      (tag_visits es) []"
    by (simp add: tag_stats_def tag_visits_def case_prod_unfold)
  show ?thesis
    unfolding eq
    by (rule dict.ok_fold [where key = "\<lambda>x. (day_start (received (fst x)), the (issue_id (fst x)), fst (snd x), snd (snd x))"
        and stp = "\<lambda>a x. stat_step a (pe_org (fst x))"]) simp
qed


lemma update_tags_val:
  "val (update_tags es tbl) (i, oid, k, v, d) = val tbl (i, oid, k, v, d) +
    (case map_of (tag_stats es) (d, i, k, v) of Some (n, oid') \<Rightarrow> if oid' = oid then n else 0 | None \<Rightarrow> 0)"
proof -
  let ?tk = "\<lambda>q u. (fst (snd q), snd u, fst (snd (snd q)), snd (snd (snd q)), fst q)"
  have eq: "update_tags es tbl =
      fold (\<lambda>(q, u) t. dset t (?tk q u) (fst u + (case map_of t (?tk q u) of None \<Rightarrow> 0 | Some c \<Rightarrow> c))) (tag_stats es) tbl"
    by (simp add: update_tags_def case_prod_unfold)
  have flt: "filter (\<lambda>(q, u). ?tk q u = (i, oid, k, v, d)) (tag_stats es) =
      (case map_of (tag_stats es) (d, i, k, v) of Some u \<Rightarrow> if snd u = oid then [((d, i, k, v), u)] else [] | None \<Rightarrow> [])"
    unfolding filter_key_at_most_one [OF dict_ok_tag_stats, symmetric] by (rule filter_cong) auto
  show ?thesis
    unfolding val_def eq
    unfolding map_of_upserts [OF dict_ok_tag_stats, where tk = ?tk
        and mrg = "\<lambda>u a. fst u + (case a of None \<Rightarrow> 0 | Some c \<Rightarrow> c)"] flt
    by (auto split: option.splits)
qed

lemma clean_tags_bounded:
  assumes "(k, v) \<in> set (clean_tags tags)"
  shows "length k \<le> MAX_TAG_LENGTH \<and> length v \<le> MAX_TAG_LENGTH \<and> CHR 0x00 \<notin> set k \<and> CHR 0x00 \<notin> set v"
proof -
  have c: "length (clean_tag s) \<le> MAX_TAG_LENGTH" "CHR 0x00 \<notin> set (clean_tag s)" for s
    by (auto simp: clean_tag_def clean_string_filter dest: in_set_takeD)
  have "\<forall>(k, v)\<in>set m. P k \<and> P v \<Longrightarrow> (\<And>s. P (clean_tag s)) \<Longrightarrow>
      \<forall>(k, v)\<in>set (fold (\<lambda>(k, v) m. dset m (clean_tag k) (clean_tag v)) tags m). P k \<and> P v" for m and P :: "string \<Rightarrow> bool"
  proof (induction tags arbitrary: m)
    case (Cons t tags)
    obtain k' v' where t: "t = (k', v')" by (cases t)
    have "\<forall>(k, v)\<in>set (dset m (clean_tag k') (clean_tag v')). P k \<and> P v"
      using Cons.prems by (induction m) (auto split: if_splits)
    then show ?case using Cons.IH [OF _ Cons.prems(2)] by (simp add: t)
  qed simp
  from this [of "[]" "\<lambda>s. length s \<le> MAX_TAG_LENGTH \<and> CHR 0x00 \<notin> set s"] c assms
  show ?thesis by (auto simp: clean_tags_def)
qed

text \<open>
  Further property. The tag table adds up and holds only storable text: the count of an issue, tag key,
  value and day grows by the number of events of the batch that went to the issue on that day with
  this tag, and every key and value that the events keep has at most 255 characters and no NUL.
\<close>

theorem tag_counts_add_up:
  assumes "store_events tsv_append tsv_new valkey ids hash_dict events S = (es, S')"
    and "db_ok (tables S)" and "lookup_ok hash_dict (tables S)" and "\<forall>e\<in>set events. new_event e"
    and "same_org events"
  shows "val (tag_table S') (i, oid, k, v, d) = val (tag_table S) (i, oid, k, v, d) +
      int (length (filter (\<lambda>e. issue_id e = Some i \<and> pe_org e = oid \<and> day_start (received e) = d \<and>
                               map_of (event_tags e) k = Some v) es)) \<and>
    (\<forall>e\<in>set es. \<forall>(key, v')\<in>set (event_tags e). length key \<le> 255 \<and> length v' \<le> 255 \<and>
       CHR 0x00 \<notin> set key \<and> CHR 0x00 \<notin> set v')"
proof
  let ?st = "process_all tsv_new hash_dict events (tables S)"
  note q = store_events_parts [OF assms(1)]
  have tt: "tag_table S' = update_tags (evs ?st) (tag_table S)"
    using assms(1) by (auto simp: store_events_def Let_def)
  let ?xs = "filter (\<lambda>(e, kv). (day_start (received e), the (issue_id e), fst kv, snd kv) = (d, i, k, v)) (tag_visits (evs ?st))"
  have some: "e \<in> set (evs ?st) \<and> issue_id e \<noteq> None" if "(e, kv) \<in> set (tag_visits (evs ?st))" for e kv
    using that by (auto simp: tag_visits_def)
  have org: "\<forall>x\<in>set ?xs. \<forall>y\<in>set ?xs. pe_org (fst x) = pe_org (fst y)"
  proof (intro ballI)
    fix x y assume xy: "x \<in> set ?xs" "y \<in> set ?xs"
    have "fst z \<in> set (evs ?st) \<and> issue_id (fst z) = Some i" if z: "z \<in> set ?xs" for z
    proof -
      obtain e kv where "z = (e, kv)" by (cases z)
      then show ?thesis using z some [of e kv] by auto
    qed
    from this [OF xy(1)] this [OF xy(2)]
    have "fst x \<in> set (evs ?st)" "fst y \<in> set (evs ?st)" "issue_id (fst x) = issue_id (fst y)"
      by simp_all
    then show "pe_org (fst x) = pe_org (fst y)" using same_issue_same_org [OF assms(2-5)] by blast
  qed
  have "filter (\<lambda>x. pe_org (fst x) = oid) ?xs =
      filter (\<lambda>(e, kv). kv = (k, v) \<and> issue_id e = Some i \<and> pe_org e = oid \<and> day_start (received e) = d) (tag_visits (evs ?st))"
    unfolding filter_filter by (rule filter_cong [OF refl]) (use some in fastforce)
  then have "length (filter (\<lambda>x. pe_org (fst x) = oid) ?xs) =
      length (filter (\<lambda>e. issue_id e \<noteq> None \<and> map_of (clean_tags (event_tags e)) k = Some v \<and>
        issue_id e = Some i \<and> pe_org e = oid \<and> day_start (received e) = d) (evs ?st))"
    by (simp only: length_tag_visits [where P = "\<lambda>e. issue_id e = Some i \<and> pe_org e = oid \<and> day_start (received e) = d"])
  also have "\<dots> = length (filter (\<lambda>e. issue_id e = Some i \<and> pe_org e = oid \<and> day_start (received e) = d \<and>
      map_of (event_tags e) k = Some v) es)"
    unfolding q(1) by (auto simp: filter_map comp_def intro!: arg_cong [of _ _ length] filter_cong)
  finally show "val (tag_table S') (i, oid, k, v, d) = val (tag_table S) (i, oid, k, v, d) +
      int (length (filter (\<lambda>e. issue_id e = Some i \<and> pe_org e = oid \<and> day_start (received e) = d \<and>
                               map_of (event_tags e) k = Some v) es))"
    unfolding tt update_tags_val map_of_tag_stats Let_def count_group [where f = "\<lambda>x. pe_org (fst x)", OF org] by simp
  show "\<forall>e\<in>set es. \<forall>(key, v')\<in>set (event_tags e). length key \<le> 255 \<and> length v' \<le> 255 \<and>
       CHR 0x00 \<notin> set key \<and> CHR 0x00 \<notin> set v'"
    using clean_tags_bounded unfolding q(1) MAX_TAG_LENGTH_def by fastforce
qed


section \<open>The lookup\<close>

lemma hash_join_keys: "(k', h) \<in> set (hash_join d k) \<Longrightarrow> k' = k \<and> map_of (hashes d) k = Some (h_issue h)"
  by (auto simp: hash_join_def split: option.splits)

lemma dset_all_issue:
  assumes "\<And>k h. (k, h) \<in> set l \<Longrightarrow> f k = Some (h_issue h)"
    and "\<And>k h. map_of m k = Some h \<Longrightarrow> f k = Some (h_issue h)"
    and "map_of (fold (\<lambda>(k, h) m. dset m k h) l m) k = Some h"
  shows "f k = Some (h_issue h)"
  using assms
proof (induction l arbitrary: m)
  case (Cons p l)
  obtain k' h' where p: "p = (k', h')" by (cases p)
  have "f k = Some (h_issue h)" if "map_of (dset m k' h') k = Some h" for k h
    using that Cons.prems(1) [of k' h'] Cons.prems(2) [of k h] p by (auto split: if_splits)
  with Cons.IH [of "dset m k' h'"] Cons.prems(1,3) p show ?case by simp
qed simp

lemma dset_all_dom:
  "dom (map_of (fold (\<lambda>(k, h) m. dset m k h) l m)) = fst ` set l \<union> dom (map_of m)"
  by (induction l arbitrary: m) (auto split: if_splits)

lemma fetch_raw_sound:
  "map_of (fetch_issue_hashes_raw pairs d) k = Some h \<Longrightarrow> map_of (hashes d) k = Some (h_issue h)"
  unfolding fetch_issue_hashes_raw_def by (rule dset_all_issue [where m = "[]"]) (auto dest: hash_join_keys)

lemma fetch_raw_complete:
  assumes "k \<in> set pairs" and "map_of (hashes d) k = Some i" and "map_of (issues d) i \<noteq> None"
    and "map_of (issue_index d) (i, oid) \<noteq> None"
  shows "map_of (fetch_issue_hashes_raw pairs d) k \<noteq> None"
proof -
  obtain r where "((i, oid), r) \<in> set (issue_index d)" using assms(4) by (auto dest: map_of_SomeD)
  then have "k \<in> fst ` set (hash_join d k)" using assms(2,3) by (force simp: hash_join_def)
  then have "k \<in> fst ` set (concat (map (hash_join d) pairs))" using assms(1) by force
  then have "k \<in> dom (map_of (fetch_issue_hashes_raw pairs d))"
    unfolding fetch_issue_hashes_raw_def dset_all_dom by simp
  then show ?thesis by blast
qed

lemma fetch_raw_member:
  assumes "(k, h) \<in> set (fetch_issue_hashes_raw pairs d)"
  shows "map_of (hashes d) k = Some (h_issue h)"
proof -
  have "dict_ok m \<Longrightarrow> dict_ok (fold (\<lambda>(k, h) m. dset m k h) l m)" for l and m :: "(int \<times> string, hash_row) dict"
    by (induction l arbitrary: m) auto
  then have "dict_ok (fetch_issue_hashes_raw pairs d)" by (simp add: fetch_issue_hashes_raw_def)
  with assms show ?thesis by (metis fetch_raw_sound map_of_is_SomeI)
qed

text \<open>
  Further property. The lookup of a batch is sound and complete even when the replica lags behind: it
  maps a key only to the issue that the primary records for it, and it finds every key of the
  batch that the primary records for an issue with an index row.
\<close>

theorem hash_lookup_sound_complete:
  assumes lag: "\<And>r. replica = Some r \<Longrightarrow> map_of (hashes r) \<subseteq>\<^sub>m map_of (hashes d)"
  shows "lookup_ok (hash_lookup replica d events) d \<and>
    (e \<in> set events \<and> issue_hash e \<noteq> [] \<and> map_of (hashes d) (pe_key e) = Some i \<and> map_of (issues d) i \<noteq> None \<and>
     map_of (issue_index d) (i, oid) \<noteq> None \<longrightarrow>
     map_option h_issue (map_of (hash_lookup replica d events) (pe_key e)) = Some i)"
proof -
  have sound: "map_of (hashes d) k = Some (h_issue h)" if h: "map_of (hash_lookup replica d events) k = Some h" for k h
  proof (cases replica)
    case None
    with h show ?thesis by (simp add: hash_lookup_def fetch_issue_hashes_def fetch_raw_sound)
  next
    case (Some r)
    have found: "map_of (hashes d) k = Some (h_issue h)" if "map_of (fetch_issue_hashes events r) k = Some h" for k h
    proof -
      have "map_of (hashes r) k = Some (h_issue h)" using that fetch_raw_sound by (simp add: fetch_issue_hashes_def)
      with lag [OF Some] show ?thesis unfolding map_le_def by (metis domI)
    qed
    show ?thesis
    proof (cases "map_of (fetch_issue_hashes events r) k = Some h")
      case False
      with h Some show ?thesis
        unfolding hash_lookup_def Let_def
        by (auto split: if_splits intro: dset_all_issue [OF fetch_raw_member found])
    qed (rule found)
  qed
  have complete: "map_of (hash_lookup replica d events) (pe_key e) \<noteq> None"
    if e: "e \<in> set events" "issue_hash e \<noteq> []" and row: "map_of (hashes d) (pe_key e) = Some i" "map_of (issues d) i \<noteq> None"
      "map_of (issue_index d) (i, oid) \<noteq> None"
  proof (cases replica)
    case None
    have "pe_key e \<in> set (remdups (map (\<lambda>e. (pe_project e, issue_hash e)) (filter (\<lambda>e. issue_hash e \<noteq> []) events)))"
      using e by (auto simp: pe_key_def)
    from fetch_raw_complete [OF this row] None show ?thesis by (simp add: hash_lookup_def fetch_issue_hashes_def)
  next
    case (Some r)
    let ?missing = "filter (\<lambda>k. k \<notin> fst ` set (fetch_issue_hashes events r)) (map (\<lambda>e. (pe_project e, issue_hash e)) events)"
    show ?thesis
    proof (cases "pe_key e \<in> fst ` set (fetch_issue_hashes events r)")
      case True
      then have "pe_key e \<in> dom (map_of (fetch_issue_hashes events r))" by (simp add: dom_map_of_conv_image_fst)
      then have "pe_key e \<in> dom (map_of (hash_lookup replica d events))"
        unfolding hash_lookup_def Some option.case Let_def by (simp only: dset_all_dom Un_iff split: if_split) blast
      then show ?thesis by blast
    next
      case False
      then have mem: "pe_key e \<in> set ?missing" using e(1) by (auto simp: pe_key_def)
      then have ne: "?missing \<noteq> []" by (metis empty_iff empty_set)
      from fetch_raw_complete [OF mem row]
      have "pe_key e \<in> dom (map_of (hash_lookup replica d events))"
        unfolding hash_lookup_def Some option.case Let_def if_not_P [OF ne]
        by (simp only: dset_all_dom) (simp add: map_of_eq_None_iff)
      then show ?thesis by blast
    qed
  qed
  have "map_option h_issue (map_of (hash_lookup replica d events) (pe_key e)) = Some i"
    if "map_of (hash_lookup replica d events) (pe_key e) \<noteq> None" "map_of (hashes d) (pe_key e) = Some i"
    using that sound by fastforce
  with sound complete show ?thesis unfolding lookup_ok_def by blast
qed

section \<open>Witnesses\<close>

text \<open>
  A batch of three events of one project: the first belongs to a resolved issue, the other two
  have a hash that is not known yet.
\<close>

definition w_event :: "string \<Rightarrow> datetime \<Rightarrow> pevent" where
  "w_event h t = \<lparr>pe_project = 7, pe_org = 3, received = t, issue_hash = h, pe_title = ''T'', pe_transaction = [],
     pe_level = None, release_id = Some 12, search_text = ''T'', event_tags = [(''env'', ''prod'')], issue_id = None,
     issue_created = False\<rparr>"

definition w_events :: "pevent list" where
  "w_events = [w_event ''a'' 3600000001, w_event ''b'' 3600000002, w_event ''b'' 3600000003]"

definition w_row :: index_row where
  "w_row = \<lparr>ix_count = 5, ix_last_seen = 0, ix_last_release = None, ix_status = RESOLVED, ix_level = ERROR, ix_document = []\<rparr>"

definition w_db :: issue_db where
  "w_db = \<lparr>counters = [(7, 1)], next_issue_id = 2,
     issues = [(1, \<lparr>i_project = 7, i_title = ''T'', first_seen = 0, first_release_id = None, short_id = 1,
                    resolved_in_release = Some 11\<rparr>)],
     hashes = [((7, ''a''), 1)], issue_index = [((1, 3), w_row)], event_rows = [], notifications = [4],
     notification_issues = [(4, 1)]\<rparr>"

definition w_lookup :: "(int \<times> string, hash_row) dict" where
  "w_lookup = [((7, ''a''), \<lparr>h_issue = 1, h_status = RESOLVED, h_resolved_in = Some 11\<rparr>)]"

definition w_state :: store_state where
  "w_state = \<lparr>tables = w_db, project_stats = [], issue_stats = [], tag_table = [], alert_ids = []\<rparr>"

definition w_store :: "pevent list \<times> store_state" where
  "w_store = store_events (\<lambda>d n. d @ n) (\<lambda>n. n) True [1, 2, 3] w_lookup w_events w_state"

lemmas w_defs = w_store_def w_events_def w_event_def w_row_def w_db_def w_lookup_def w_state_def

lemma w_ok: "db_ok (tables w_state)" "lookup_ok w_lookup (tables w_state)" "\<forall>e\<in>set w_events. new_event e" "same_org w_events"
  by (auto simp: w_defs db_ok_def lookup_ok_def new_event_def same_org_def split: if_splits)

lemma w_run: "store_events (\<lambda>d n. d @ n) (\<lambda>n. n) True [1, 2, 3] w_lookup w_events w_state = (fst w_store, snd w_store)"
  by (simp add: w_store_def)

lemma w_issues: "map issue_id (fst w_store) = [Some 1, Some 2, Some 2]"
  by (code_simp)

theorem events_grouped_by_hash_witness:
  "map issue_id (fst w_store) = [Some 1, Some 2, Some 2] \<and> map pe_key (fst w_store) = map pe_key w_events \<and>
   map er_issue (event_rows (tables (snd w_store))) = [Some 1, Some 2, Some 2]"
  using events_grouped_by_hash [OF w_run w_ok(1-3)] w_issues by (simp add: w_state_def w_db_def w_events_def)

theorem issue_count_is_exact_witness:
  "count_of (tables w_state) 2 3 = 0 \<and> count_of (tables (snd w_store)) 2 3 = 2"
proof -
  have "length (filter (\<lambda>e. issue_id e = Some 2 \<and> pe_org e = 3) (fst w_store)) = 2" by code_simp
  moreover have "count_of (tables w_state) 2 3 = 0" by code_simp
  ultimately show ?thesis using issue_count_is_exact [OF w_run w_ok, where i = 2 and oid = 3] by simp
qed

theorem hourly_statistics_add_up_witness:
  "val (project_stats (snd w_store)) (7, 3, 3600000000) = 3 \<and> val (issue_stats (snd w_store)) (2, 3, 3600000000) = 2"
proof -
  have "length (filter (\<lambda>e. pe_project e = 7 \<and> pe_org e = 3 \<and> hour_of (received e) = 3600000000) w_events) = 3"
    "length (filter (\<lambda>e. issue_id e = Some 2 \<and> pe_org e = 3 \<and> hour_of (received e) = 3600000000) (fst w_store)) = 2"
    by code_simp+
  moreover have "val (project_stats w_state) k = 0" "val (issue_stats w_state) k = 0" for k
    by (simp_all add: w_state_def val_def)
  ultimately show ?thesis
    using hourly_statistics_add_up [OF w_run w_ok, where p = 7 and oid = 3 and hr = 3600000000 and i = 2] by simp
qed

theorem batch_reopens_exactly_witness:
  "\<exists>r'. map_of (issue_index (tables (snd w_store))) (1, 3) = Some r' \<and> ix_status r' = UNRESOLVED"
proof -
  have row: "map_of (issue_index (tables w_state)) (1, 3) = Some w_row" by (simp add: w_state_def w_db_def)
  have "\<exists>e\<in>set w_events. \<exists>h. map_of w_lookup (pe_key e) = Some h \<and> h_issue h = 1 \<and> pe_org e = 3 \<and> h_status h = RESOLVED \<and>
      (h_resolved_in h = None \<or> release_id e \<noteq> None \<and> release_id e \<noteq> h_resolved_in h)"
    by (simp add: w_events_def w_event_def w_lookup_def pe_key_def)
  with batch_reopens_exactly [OF w_run w_ok(1-3) row] show ?thesis by auto
qed

theorem hash_lookup_sound_complete_witness:
  "lookup_ok (hash_lookup (Some (w_db\<lparr>hashes := []\<rparr>)) w_db w_events) w_db \<and>
   map_option h_issue (map_of (hash_lookup (Some (w_db\<lparr>hashes := []\<rparr>)) w_db w_events) (7, ''a'')) = Some 1"
proof -
  have lag: "map_of (hashes r) \<subseteq>\<^sub>m map_of (hashes w_db)" if "Some (w_db\<lparr>hashes := []\<rparr>) = Some r" for r
    using that by auto
  have "w_event ''a'' 3600000001 \<in> set w_events" "pe_key (w_event ''a'' 3600000001) = (7, ''a'')"
    "map_of (hashes w_db) (7, ''a'') = Some 1" "map_of (issues w_db) 1 \<noteq> None" "map_of (issue_index w_db) (1, 3) \<noteq> None"
    "issue_hash (w_event ''a'' 3600000001) \<noteq> []"
    by (simp_all add: w_events_def w_event_def pe_key_def w_db_def)
  with hash_lookup_sound_complete [where replica = "Some (w_db\<lparr>hashes := []\<rparr>)" and d = w_db and events = w_events
      and e = "w_event ''a'' 3600000001" and i = 1 and oid = 3, OF lag]
  show ?thesis by simp
qed

theorem tag_counts_add_up_witness:
  "val (tag_table (snd w_store)) (2, 3, ''env'', ''prod'', 0) = 2"
proof -
  have "length (filter (\<lambda>e. issue_id e = Some 2 \<and> pe_org e = 3 \<and> day_start (received e) = 0 \<and>
      map_of (event_tags e) ''env'' = Some ''prod'') (fst w_store)) = 2"
    by code_simp
  moreover have "val (tag_table w_state) k = 0" for k by (simp add: w_state_def val_def)
  ultimately show ?thesis
    using tag_counts_add_up [OF w_run w_ok, where i = 2 and oid = 3 and k = "''env''" and v = "''prod''" and d = 0] by simp
qed

text \<open>A level of value 0 is stored as an error: \<open>NOTSET\<close> is falsy in \<open>level if level else ERROR\<close>.\<close>

lemma notset_level_is_stored_as_error:
  "level_or_error (Some NOTSET) = ERROR \<and> (l \<noteq> NOTSET \<longrightarrow> level_or_error (Some l) = l)"
  by (cases l) (simp_all add: level_or_error_def)

end
