(* ===== verification/Related_Models.thy ===== *)
theory Related_Models
  imports GT_Prelude
begin

text \<open>
  Releases and environments of a batch: \<open>_get_or_create_related_models\<close>, \<open>create_environments\<close> and
  \<open>get_and_create_releases\<close> of \<open>apps/event_ingest/process_event.py\<close>.

  A table of releases or environments maps the unique key (organization, name) to its row id and
  has a link table to projects. Sets of the code are lists here, in the order in which Python
  iterates over them, which the statements do not depend on.
\<close>

record named_table =
  next_id :: int
  names :: "(int \<times> string, int) dict"
  links :: "(int \<times> int) list"

record related_db =
  project_orgs :: "(int, int) dict"
  releases_t :: named_table
  environments_t :: named_table
  dif_projects :: "int list"

record related_row =
  rr_project :: int
  rr_release_id :: int
  rr_release_name :: string
  rr_environment_id :: "int option"
  rr_environment_name :: "string option"
  rr_has_difs :: bool

text \<open>A set element: name, project id, organization id.\<close>

type_synonym named_ref = "string \<times> int \<times> int"

section \<open>The query\<close>

text \<open>The rows of a table that are linked to a project, with their names.\<close>

definition linked :: "named_table \<Rightarrow> int \<Rightarrow> (int \<times> string) list" where
  "linked t p =
     concat (map (\<lambda>(i, p'). if p' = p then map (\<lambda>((_, n), j). (j, n)) (filter (\<lambda>(_, j). j = i) (names t)) else [])
       (links t))"

definition environment_side :: "named_table \<Rightarrow> string list \<Rightarrow> int \<Rightarrow> (int option \<times> string option) list" where
  "environment_side t ns p =
     (if linked t p = [] then [(None, None)]
      else map (\<lambda>(i, n). (Some i, Some n)) (filter (\<lambda>(_, n). n \<in> set ns) (linked t p)))"

definition related_rows :: "related_db \<Rightarrow> int list \<Rightarrow> string list \<Rightarrow> string list \<Rightarrow> related_row list" where
  "related_rows d project_ids versions env_names =
     concat (map (\<lambda>p. concat (map (\<lambda>(rid, v).
         map (\<lambda>(eid, en). \<lparr>rr_project = p, rr_release_id = rid, rr_release_name = v, rr_environment_id = eid,
                            rr_environment_name = en, rr_has_difs = (p \<in> set (dif_projects d))\<rparr>)
           (environment_side (environments_t d) env_names p))
       (filter (\<lambda>(_, v). v \<in> set versions) (linked (releases_t d) p)))) project_ids)"

section \<open>Creating what is missing\<close>

text \<open>\<open>INSERT ... ON CONFLICT DO NOTHING\<close> for one key.\<close>

definition insert_name :: "string \<times> int \<Rightarrow> named_table \<Rightarrow> named_table" where
  "insert_name k t =
     (let key = (snd k, fst k) in
      if map_of (names t) key = None
      then t\<lparr>names := dset (names t) key (next_id t), next_id := next_id t + 1\<rparr> else t)"

definition insert_link :: "int \<times> int \<Rightarrow> named_table \<Rightarrow> named_table" where
  "insert_link l t = (if l \<in> set (links t) then t else t\<lparr>links := links t @ [l]\<rparr>)"

text \<open>\<open>SELECT id, name, organization_id ... WHERE (name, organization_id) IN (...)\<close>.\<close>

definition select_names :: "(string \<times> int) list \<Rightarrow> named_table \<Rightarrow> (int \<times> string \<times> int) list" where
  "select_names ks t = map (\<lambda>((oid, n), i). (i, n, oid)) (filter (\<lambda>((oid, n), i). (n, oid) \<in> set ks) (names t))"

text \<open>The link of a selected row: to the first project of the set with its name and organization.\<close>

definition first_links :: "named_ref list \<Rightarrow> (int \<times> string \<times> int) list \<Rightarrow> (int \<times> int) list" where
  "first_links refs rows =
     List.map_filter (\<lambda>(i, n, oid). map_option (\<lambda>(_, p, _). (i, p)) (find (\<lambda>(n', _, oid'). n' = n \<and> oid' = oid) refs)) rows"

definition env_to_create :: "named_ref list \<Rightarrow> related_row list \<Rightarrow> (string \<times> int) list" where
  "env_to_create refs rows =
     map (\<lambda>(n, _, oid). (n, oid))
       (filter (\<lambda>(n, p, _). \<not> (\<exists>x\<in>set rows. rr_environment_name x = Some n \<and> rr_project x = p)) refs)"

definition create_environments :: "named_ref list \<Rightarrow> related_row list \<Rightarrow> named_table \<Rightarrow> named_table" where
  "create_environments environment_set rows t =
     (let ks = env_to_create environment_set rows in
      if ks = [] then t
      else (let t1 = fold insert_name ks t
            in fold insert_link (first_links environment_set (select_names ks t1)) t1))"

definition releases_to_create :: "named_ref list \<Rightarrow> related_row list \<Rightarrow> (string \<times> int) list" where
  "releases_to_create refs rows =
     map (\<lambda>(n, _, oid). (n, oid))
       (filter (\<lambda>(n, p, _). \<not> (\<exists>x\<in>set rows. rr_release_name x = n \<and> rr_project x = p)) refs)"

definition release_of :: "related_row list \<Rightarrow> (int \<times> string \<times> int) list \<Rightarrow> named_ref \<Rightarrow> int" where
  "release_of rows release_rows ref =
     (case ref of (v, p, oid) \<Rightarrow>
        (case find (\<lambda>x. rr_release_name x = v \<and> rr_project x = p) rows of
           Some x \<Rightarrow> rr_release_id x
         | None \<Rightarrow> (case find (\<lambda>(_, v', oid'). v' = v \<and> oid' = oid) release_rows of
                      Some (i, _) \<Rightarrow> i | None \<Rightarrow> 0)))"

definition get_and_create_releases ::
    "named_ref list \<Rightarrow> related_row list \<Rightarrow> named_table \<Rightarrow> (string \<times> int \<times> int) list \<times> named_table" where
  "get_and_create_releases release_set rows t =
     (let ks = releases_to_create release_set rows;
          t1 = (if ks = [] then t else fold insert_name ks t);
          release_rows = (if ks = [] then [] else select_names ks t1);
          t2 = (if ks = [] then t else fold insert_link (first_links release_set release_rows) t1)
      in (map (\<lambda>(v, p, oid). (v, p, release_of rows release_rows (v, p, oid))) release_set, t2))"

definition get_or_create_related_models ::
    "named_ref list \<Rightarrow> named_ref list \<Rightarrow> int list \<Rightarrow> related_db \<Rightarrow> related_db
     \<Rightarrow> (string \<times> int \<times> int) list \<times> related_row list \<times> related_db" where
  "get_or_create_related_models release_set environment_set project_set replica d =
     (let versions = map fst release_set;
          env_names = map fst environment_set;
          rows = (if project_set = [] \<or> versions = [] \<or> env_names = [] then []
                  else related_rows replica project_set versions env_names);
          (rels, rt) = get_and_create_releases release_set rows (releases_t d);
          et = create_environments environment_set rows (environments_t d)
      in (rels, rows, d\<lparr>releases_t := rt, environments_t := et\<rparr>))"

text \<open>The release id an event gets in \<open>process_issue_events\<close>.\<close>

definition event_release_id :: "(string \<times> int \<times> int) list \<Rightarrow> string option \<Rightarrow> int \<Rightarrow> int option" where
  "event_release_id rels release project_id =
     map_option (\<lambda>(_, _, i). i) (find (\<lambda>(v, p, _). Some v = release \<and> p = project_id) rels)"

section \<open>Invariant\<close>

text \<open>
  Keys and ids are unique, ids are positive and below the sequence, and a project is linked only to
  rows of its own organization.
\<close>

definition named_ok :: "(int, int) dict \<Rightarrow> named_table \<Rightarrow> bool" where
  "named_ok orgs t \<longleftrightarrow>
     dict_ok (names t) \<and> distinct (map snd (names t)) \<and> 0 < next_id t \<and>
     (\<forall>k i. (k, i) \<in> set (names t) \<longrightarrow> 0 < i \<and> i < next_id t) \<and>
     (\<forall>i p. (i, p) \<in> set (links t) \<longrightarrow> (\<exists>oid n. map_of orgs p = Some oid \<and> ((oid, n), i) \<in> set (names t)))"

definition refs_ok :: "(int, int) dict \<Rightarrow> named_ref list \<Rightarrow> bool" where
  "refs_ok orgs refs \<longleftrightarrow> (\<forall>(n, p, oid)\<in>set refs. map_of orgs p = Some oid)"

lemma distinct_snd_unique:
  "distinct (map snd l) \<Longrightarrow> (k, i) \<in> set l \<Longrightarrow> (k', i) \<in> set l \<Longrightarrow> k = k'"
  by (induction l) (auto simp: rev_image_eqI)

lemma linked_sound:
  assumes ok: "named_ok orgs t" and l: "(i, n) \<in> set (linked t p)"
  shows "\<exists>oid. map_of orgs p = Some oid \<and> map_of (names t) (oid, n) = Some i"
proof -
  obtain o1 where o1: "((o1, n), i) \<in> set (names t)" and lk: "(i, p) \<in> set (links t)"
    using l by (auto simp: linked_def split: if_splits)
  obtain oid n' where oid: "map_of orgs p = Some oid" "((oid, n'), i) \<in> set (names t)"
    using ok lk unfolding named_ok_def by blast
  have "(o1, n) = (oid, n')" using ok o1 oid(2) distinct_snd_unique unfolding named_ok_def by metis
  then show ?thesis using ok o1 oid(1) unfolding named_ok_def by (metis map_of_is_SomeI prod.inject)
qed

lemma related_rows_sound:
  assumes "named_ok orgs (releases_t d)" and "x \<in> set (related_rows d ps vs es)"
  shows "\<exists>oid. map_of orgs (rr_project x) = Some oid \<and>
    map_of (names (releases_t d)) (oid, rr_release_name x) = Some (rr_release_id x)"
proof -
  have "(rr_release_id x, rr_release_name x) \<in> set (linked (releases_t d) (rr_project x))"
    using assms(2) by (auto simp: related_rows_def)
  then show ?thesis by (rule linked_sound [OF assms(1)])
qed

lemma insert_name_ok:
  assumes "named_ok orgs t"
  shows "named_ok orgs (insert_name k t) \<and> map_of (names t) \<subseteq>\<^sub>m map_of (names (insert_name k t)) \<and>
    map_of (names (insert_name k t)) (snd k, fst k) \<noteq> None"
proof (cases "map_of (names t) (snd k, fst k) = None")
  case True
  then have new: "(snd k, fst k) \<notin> fst ` set (names t)" by (simp add: map_of_eq_None_iff)
  have t': "insert_name k t = t\<lparr>names := names t @ [((snd k, fst k), next_id t)], next_id := next_id t + 1\<rparr>"
    using True by (simp add: insert_name_def dset_new [OF new])
  have lt: "0 < i \<and> i < next_id t" if "(q, i) \<in> set (names t)" for q i
    using assms that unfolding named_ok_def by blast
  then have fresh: "next_id t \<notin> snd ` set (names t)" by force
  have "dict_ok (names (insert_name k t))" "distinct (map snd (names (insert_name k t)))"
    using assms new fresh by (simp_all add: t' named_ok_def)
  moreover have "0 < i \<and> i < next_id (insert_name k t)" if "(q, i) \<in> set (names (insert_name k t))" for q i
    using that lt [of q i] assms by (auto simp: t' named_ok_def)
  moreover have "\<exists>oid n. map_of orgs p = Some oid \<and> ((oid, n), i) \<in> set (names (insert_name k t))"
    if "(i, p) \<in> set (links (insert_name k t))" for i p
    using that assms unfolding named_ok_def t' by fastforce
  ultimately have "named_ok orgs (insert_name k t)"
    using assms unfolding named_ok_def by (simp add: t')
  moreover have "map_of (names (insert_name k t)) = (map_of (names t))((snd k, fst k) \<mapsto> next_id t)"
    using True by (simp add: insert_name_def)
  ultimately show ?thesis using True by (auto simp: map_le_def dom_def)
next
  case False
  then have "insert_name k t = t" by (auto simp: insert_name_def Let_def)
  with False assms show ?thesis by simp
qed

lemma insert_names_ok:
  assumes "named_ok orgs t"
  shows "named_ok orgs (fold insert_name ks t) \<and> map_of (names t) \<subseteq>\<^sub>m map_of (names (fold insert_name ks t)) \<and>
    (\<forall>(n, oid)\<in>set ks. map_of (names (fold insert_name ks t)) (oid, n) \<noteq> None)"
  using assms
proof (induction ks arbitrary: t)
  case (Cons k ks)
  note i = insert_name_ok [OF Cons.prems, of k]
  note IH = Cons.IH [OF i [THEN conjunct1]]
  have "map_of (names (fold insert_name ks (insert_name k t))) (snd k, fst k) \<noteq> None"
    using i IH unfolding map_le_def by (metis domI domIff)
  moreover have "map_of (names t) \<subseteq>\<^sub>m map_of (names (fold insert_name ks (insert_name k t)))"
    using i IH map_le_trans by blast
  ultimately show ?case using IH by (auto simp: split_beta)
qed simp

lemma insert_links_ok:
  assumes "named_ok orgs t"
    and "\<And>i p. (i, p) \<in> set ls \<Longrightarrow> \<exists>oid n. map_of orgs p = Some oid \<and> ((oid, n), i) \<in> set (names t)"
  shows "named_ok orgs (fold insert_link ls t) \<and> names (fold insert_link ls t) = names t \<and>
    set (links (fold insert_link ls t)) = set (links t) \<union> set ls"
  using assms
proof (induction ls arbitrary: t)
  case (Cons l ls)
  have "named_ok orgs (insert_link l t)" "names (insert_link l t) = names t"
    "set (links (insert_link l t)) = insert l (set (links t))"
    using Cons.prems by (auto simp: insert_link_def named_ok_def)
  with Cons.IH [of "insert_link l t"] Cons.prems(2) show ?case by auto
qed simp

lemma select_names_Nil [simp]: "select_names [] t = []" "first_links refs [] = []"
  by (simp_all add: select_names_def first_links_def List.map_filter_def case_prod_unfold)

lemma select_names_iff: "(i, n, oid) \<in> set (select_names ks t) \<longleftrightarrow> ((oid, n), i) \<in> set (names t) \<and> (n, oid) \<in> set ks"
  by (force simp: select_names_def)

lemma first_links_iff:
  "(i, p) \<in> set (first_links refs rows) \<longleftrightarrow>
     (\<exists>n oid n' oid'. (i, n, oid) \<in> set rows \<and> find (\<lambda>(n', _, oid'). n' = n \<and> oid' = oid) refs = Some (n', p, oid'))"
  by (force simp: first_links_def List.map_filter_def)

lemma find_member: "find P xs = Some x \<Longrightarrow> x \<in> set xs \<and> P x"
  by (metis find_Some_iff nth_mem)

lemma first_links_ok:
  assumes "refs_ok orgs refs" and "(i, p) \<in> set (first_links refs (select_names ks t))"
  shows "\<exists>oid n. map_of orgs p = Some oid \<and> ((oid, n), i) \<in> set (names t)"
proof -
  obtain n oid where "(i, n, oid) \<in> set (select_names ks t)" "(n, p, oid) \<in> set refs"
    using assms(2) unfolding first_links_iff by (auto dest!: find_member)
  then show ?thesis using assms(1) by (auto simp: select_names_iff refs_ok_def)
qed

lemma created_and_linked:
  fixes ks :: "(string \<times> int) list"
  assumes "named_ok orgs t" and "refs_ok orgs refs"
  defines "t1 \<equiv> fold insert_name ks t"
  shows "named_ok orgs (fold insert_link (first_links refs (select_names ks t1)) t1)"
    and "names (fold insert_link (first_links refs (select_names ks t1)) t1) = names t1"
proof -
  have "named_ok orgs t1" using insert_names_ok [OF assms(1), of ks] unfolding t1_def by blast
  from insert_links_ok [OF this, of "first_links refs (select_names ks t1)"] first_links_ok [OF assms(2)]
  show "named_ok orgs (fold insert_link (first_links refs (select_names ks t1)) t1)"
    and "names (fold insert_link (first_links refs (select_names ks t1)) t1) = names t1"
    by blast+
qed


lemma release_of_correct:
  assumes ref: "(v, p, oid) \<in> set refs" and org: "map_of orgs p = Some oid"
    and rows: "\<And>x. x \<in> set rows \<Longrightarrow> \<exists>oid. map_of orgs (rr_project x) = Some oid \<and>
                 map_of nm (oid, rr_release_name x) = Some (rr_release_id x)"
    and t: "dict_ok (names t)" "map_of nm \<subseteq>\<^sub>m map_of (names t)"
    and made: "\<forall>(n, oid)\<in>set (releases_to_create refs rows). map_of (names t) (oid, n) \<noteq> None"
  shows "map_of (names t) (oid, v) =
    Some (release_of rows (select_names (releases_to_create refs rows) t) (v, p, oid))"
proof (cases "find (\<lambda>x. rr_release_name x = v \<and> rr_project x = p) rows")
  case (Some x)
  then have x: "x \<in> set rows" "rr_release_name x = v" "rr_project x = p" by (auto dest: find_member)
  with rows [OF x(1)] org have "map_of nm (oid, v) = Some (rr_release_id x)" by auto
  then have "map_of (names t) (oid, v) = Some (rr_release_id x)" using t(2) unfolding map_le_def by (metis domI)
  with Some show ?thesis by (simp add: release_of_def)
next
  case None
  then have "(v, oid) \<in> set (releases_to_create refs rows)"
    using ref by (force simp: releases_to_create_def find_None_iff)
  moreover from this made obtain i where i: "map_of (names t) (oid, v) = Some i" by fastforce
  ultimately have sel: "(i, v, oid) \<in> set (select_names (releases_to_create refs rows) t)"
    by (simp add: select_names_iff map_of_SomeD)
  then obtain r where r: "find (\<lambda>(_, v', oid'). v' = v \<and> oid' = oid) (select_names (releases_to_create refs rows) t) = Some r"
    by (cases "find (\<lambda>(_, v', oid'). v' = v \<and> oid' = oid) (select_names (releases_to_create refs rows) t)")
       (auto simp: find_None_iff)
  then obtain j where j: "r = (j, v, oid)" "((oid, v), j) \<in> set (names t)"
    by (auto dest!: find_member simp: select_names_iff)
  then have "j = i" using i t(1) by (metis map_of_is_SomeI option.inject)
  with None r j i show ?thesis by (simp add: release_of_def)
qed

section \<open>Properties\<close>

text \<open>
  Further property. Every release and environment that a batch names exists afterwards, once per
  organization: the release id that is handed out for a version and project is the id of the row
  of this version in the organization of the project, whether the row was found on the replica,
  existed on the primary only, or is new; no existing row changes its id, and projects stay
  linked only to rows of their own organization.
\<close>

theorem related_models_resolved:
  assumes "get_or_create_related_models release_set environment_set project_set replica d = (rels, rows, d')"
    and orgs: "orgs = project_orgs d" and "refs_ok orgs release_set" and "refs_ok orgs environment_set"
    and "named_ok orgs (releases_t d)" and "named_ok orgs (releases_t replica)"
    and "named_ok orgs (environments_t d)"
    and "map_of (names (releases_t replica)) \<subseteq>\<^sub>m map_of (names (releases_t d))"
  shows "map (\<lambda>(v, p, _). (v, p)) rels = map (\<lambda>(v, p, _). (v, p)) release_set \<and>
    (\<forall>(v, p, oid)\<in>set release_set. \<forall>i. (v, p, i) \<in> set rels \<longrightarrow> map_of (names (releases_t d')) (oid, v) = Some i) \<and>
    map_of (names (releases_t d)) \<subseteq>\<^sub>m map_of (names (releases_t d')) \<and>
    map_of (names (environments_t d)) \<subseteq>\<^sub>m map_of (names (environments_t d')) \<and>
    named_ok orgs (releases_t d') \<and> named_ok orgs (environments_t d')"
proof -
  let ?ks = "releases_to_create release_set rows"
  define t1 where "t1 = fold insert_name ?ks (releases_t d)"
  have rels: "rels = map (\<lambda>(v, p, oid). (v, p, release_of rows (select_names ?ks t1) (v, p, oid))) release_set"
    and rt: "releases_t d' = fold insert_link (first_links release_set (select_names ?ks t1)) t1"
    and et: "environments_t d' = create_environments environment_set rows (environments_t d)"
    and rows: "rows = [] \<or> rows = related_rows replica project_set (map fst release_set) (map fst environment_set)"
    using assms(1)
    by (auto simp: get_or_create_related_models_def get_and_create_releases_def t1_def Let_def split: if_splits)
  note ins = insert_names_ok [OF assms(5), of ?ks, folded t1_def]
  note lnk = created_and_linked [OF assms(5,3), of ?ks, folded t1_def, folded rt]
  have sound: "\<exists>oid. map_of orgs (rr_project x) = Some oid \<and>
      map_of (names (releases_t replica)) (oid, rr_release_name x) = Some (rr_release_id x)" if "x \<in> set rows" for x
    using that rows related_rows_sound [OF assms(6)] by auto
  have sub: "map_of (names (releases_t replica)) \<subseteq>\<^sub>m map_of (names t1)"
    using assms(8) ins map_le_trans by blast
  have "map_of (names t1) (oid, v) = Some (release_of rows (select_names ?ks t1) (v, p, oid))"
    if "(v, p, oid) \<in> set release_set" for v p oid
    using that assms(3) ins sub sound
    by (intro release_of_correct [where nm = "names (releases_t replica)"])
       (auto simp: refs_ok_def named_ok_def)
  moreover have "oid = oid'" if "(v, p, oid) \<in> set release_set" "(v, p, oid') \<in> set release_set" for v p oid oid'
  proof -
    have "map_of orgs p = Some oid" "map_of orgs p = Some oid'" using that assms(3) by (auto simp: refs_ok_def)
    then show ?thesis by simp
  qed
  ultimately have ids: "\<forall>(v, p, oid)\<in>set release_set. \<forall>i. (v, p, i) \<in> set rels \<longrightarrow>
      map_of (names (releases_t d')) (oid, v) = Some i"
    unfolding lnk(2) rels by fastforce
  have env: "named_ok orgs (environments_t d') \<and> map_of (names (environments_t d)) \<subseteq>\<^sub>m map_of (names (environments_t d'))"
    unfolding et create_environments_def Let_def
    using assms(7) created_and_linked [OF assms(7,4)] insert_names_ok [OF assms(7)] by auto
  have "map (\<lambda>(v, p, _). (v, p)) rels = map (\<lambda>(v, p, _). (v, p)) release_set"
    by (simp add: rels split_beta comp_def)
  then show ?thesis using ids env ins lnk by simp
qed


section \<open>Witnesses\<close>

definition demo_related :: related_db where
  "demo_related = \<lparr>project_orgs = [(1, 5), (2, 5)],
     releases_t = \<lparr>next_id = 4, names = [((5, ''1.0''), 3)], links = [(3, 1)]\<rparr>,
     environments_t = \<lparr>next_id = 1, names = [], links = []\<rparr>, dif_projects = []\<rparr>"

definition demo_refs :: "named_ref list" where
  "demo_refs = [(''1.0'', 1, 5), (''2.0'', 1, 5), (''2.0'', 2, 5)]"

definition demo_result :: "(string \<times> int \<times> int) list \<times> related_row list \<times> related_db" where
  "demo_result = get_or_create_related_models demo_refs [(''prod'', 1, 5)] [1, 2] demo_related demo_related"

lemma demo_result_value:
  "fst demo_result = [(''1.0'', 1, 3), (''2.0'', 1, 4), (''2.0'', 2, 4)]"
  "links (releases_t (snd (snd demo_result))) = [(3, 1), (4, 1)]"
  by code_simp+

theorem related_models_resolved_witness:
  "map_of (names (releases_t (snd (snd demo_result)))) (5, ''2.0'') = Some 4"
proof -
  have run: "get_or_create_related_models demo_refs [(''prod'', 1, 5)] [1, 2] demo_related demo_related =
      (fst demo_result, fst (snd demo_result), snd (snd demo_result))"
    by (simp add: demo_result_def)
  have "refs_ok (project_orgs demo_related) demo_refs" "refs_ok (project_orgs demo_related) [(''prod'', 1, 5)]"
    "named_ok (project_orgs demo_related) (releases_t demo_related)"
    "named_ok (project_orgs demo_related) (environments_t demo_related)"
    by (simp_all add: refs_ok_def demo_refs_def demo_related_def named_ok_def)
  with related_models_resolved [OF run refl]
  have "\<forall>(v, p, oid)\<in>set demo_refs. \<forall>i. (v, p, i) \<in> set (fst demo_result) \<longrightarrow>
      map_of (names (releases_t (snd (snd demo_result)))) (oid, v) = Some i" by simp
  then show ?thesis by (simp add: demo_refs_def demo_result_value(1))
qed

text \<open>
  A new release that two projects of an organization name in one batch is linked only to the
  first of them.
\<close>

lemma second_project_not_linked:
  "(''2.0'', 2, 4) \<in> set (fst demo_result) \<and> (4, 2) \<notin> set (links (releases_t (snd (snd demo_result))))"
  by (simp add: demo_result_value)

end
