(* ===== verification/Url_Safety.thy ===== *)
theory Url_Safety
  imports GT_Prelude
begin

text \<open>
  The guard against requests to internal addresses: \<open>glitchtip/url_validation.py\<close>.

  Addresses are numbers of 32 or 128 bits; the classification of \<open>ipaddress\<close> is written out over
  its networks. Arguments of the model are the parser \<open>ip_address\<close> (\<open>None\<close> is its \<open>ValueError\<close>), the
  host name that \<open>urlparse\<close> finds, and the resolver.
\<close>

section \<open>Addresses and networks\<close>

datatype ip = V4 nat | V6 nat

text \<open>Membership in a network of an address family with \<open>w\<close> bits.\<close>

definition in_net :: "nat \<Rightarrow> nat \<Rightarrow> nat \<times> nat \<Rightarrow> bool" where
  "in_net w a net = (a div 2 ^ (w - snd net) = fst net div 2 ^ (w - snd net))"

definition quad :: "nat \<Rightarrow> nat \<Rightarrow> nat \<Rightarrow> nat \<Rightarrow> nat" where
  "quad a b c d = ((a * 256 + b) * 256 + c) * 256 + d"

definition hextets :: "nat \<Rightarrow> nat \<Rightarrow> nat \<Rightarrow> nat \<Rightarrow> nat" where
  "hextets a b c d = (((a * 65536 + b) * 65536 + c) * 65536 + d) * 2 ^ 64"

definition v4_private :: "(nat \<times> nat) list" where
  "v4_private =
     [(quad 0 0 0 0, 8), (quad 10 0 0 0, 8), (quad 127 0 0 0, 8), (quad 169 254 0 0, 16), (quad 172 16 0 0, 12),
      (quad 192 0 0 0, 24), (quad 192 0 0 170, 31), (quad 192 0 2 0, 24), (quad 192 168 0 0, 16), (quad 198 18 0 0, 15),
      (quad 198 51 100 0, 24), (quad 203 0 113 0, 24), (quad 240 0 0 0, 4), (quad 255 255 255 255, 32)]"

definition v4_private_exceptions :: "(nat \<times> nat) list" where
  "v4_private_exceptions = [(quad 192 0 0 9, 32), (quad 192 0 0 10, 32)]"

definition v6_private :: "(nat \<times> nat) list" where
  "v6_private =
     [(1, 128), (0, 128), (0xFFFF * 2 ^ 32, 96), (hextets 0x64 0xFF9B 1 0, 48), (hextets 0x100 0 0 0, 64),
      (hextets 0x2001 0 0 0, 23), (hextets 0x2001 0xDB8 0 0, 32), (hextets 0x2002 0 0 0, 16), (hextets 0x3FFF 0 0 0, 20),
      (hextets 0xFC00 0 0 0, 7), (hextets 0xFE80 0 0 0, 10)]"

definition v6_private_exceptions :: "(nat \<times> nat) list" where
  "v6_private_exceptions =
     [(hextets 0x2001 1 0 0 + 1, 128), (hextets 0x2001 1 0 0 + 2, 128), (hextets 0x2001 3 0 0, 32),
      (hextets 0x2001 4 0x112 0, 48), (hextets 0x2001 0x20 0 0, 28), (hextets 0x2001 0x30 0 0, 28)]"

definition v6_reserved :: "(nat \<times> nat) list" where
  "v6_reserved =
     [(0, 8), (hextets 0x100 0 0 0, 8), (hextets 0x200 0 0 0, 7), (hextets 0x400 0 0 0, 6), (hextets 0x800 0 0 0, 5),
      (hextets 0x1000 0 0 0, 4), (hextets 0x4000 0 0 0, 3), (hextets 0x6000 0 0 0, 3), (hextets 0x8000 0 0 0, 3),
      (hextets 0xA000 0 0 0, 3), (hextets 0xC000 0 0 0, 3), (hextets 0xE000 0 0 0, 4), (hextets 0xF000 0 0 0, 5),
      (hextets 0xF800 0 0 0, 6), (hextets 0xFE00 0 0 0, 9)]"

text \<open>An address of the block \<open>::ffff:0:0/96\<close> carries an IPv4 address.\<close>

definition ipv4_mapped :: "nat \<Rightarrow> nat option" where
  "ipv4_mapped a = (if a div 2 ^ 32 = 0xFFFF then Some (a mod 2 ^ 32) else None)"

definition v4_is_private :: "nat \<Rightarrow> bool" where
  "v4_is_private a \<longleftrightarrow> list_ex (in_net 32 a) v4_private \<and> \<not> list_ex (in_net 32 a) v4_private_exceptions"

fun is_private :: "ip \<Rightarrow> bool" where
  "is_private (V4 a) = v4_is_private a"
| "is_private (V6 a) =
     (case ipv4_mapped a of
        Some m \<Rightarrow> v4_is_private m
      | None \<Rightarrow> list_ex (in_net 128 a) v6_private \<and> \<not> list_ex (in_net 128 a) v6_private_exceptions)"

fun is_loopback :: "ip \<Rightarrow> bool" where
  "is_loopback (V4 a) = in_net 32 a (quad 127 0 0 0, 8)"
| "is_loopback (V6 a) = (case ipv4_mapped a of Some m \<Rightarrow> in_net 32 m (quad 127 0 0 0, 8) | None \<Rightarrow> a = 1)"

fun is_link_local :: "ip \<Rightarrow> bool" where
  "is_link_local (V4 a) = in_net 32 a (quad 169 254 0 0, 16)"
| "is_link_local (V6 a) =
     (case ipv4_mapped a of Some m \<Rightarrow> in_net 32 m (quad 169 254 0 0, 16) | None \<Rightarrow> in_net 128 a (hextets 0xFE80 0 0 0, 10))"

fun is_reserved :: "ip \<Rightarrow> bool" where
  "is_reserved (V4 a) = in_net 32 a (quad 240 0 0 0, 4)"
| "is_reserved (V6 a) =
     (case ipv4_mapped a of Some m \<Rightarrow> in_net 32 m (quad 240 0 0 0, 4) | None \<Rightarrow> list_ex (in_net 128 a) v6_reserved)"

fun is_multicast :: "ip \<Rightarrow> bool" where
  "is_multicast (V4 a) = in_net 32 a (quad 224 0 0 0, 4)"
| "is_multicast (V6 a) =
     (case ipv4_mapped a of Some m \<Rightarrow> in_net 32 m (quad 224 0 0 0, 4) | None \<Rightarrow> in_net 128 a (hextets 0xFF00 0 0 0, 8))"

definition ip_blocked :: "ip \<Rightarrow> bool" where
  "ip_blocked a \<longleftrightarrow> is_private a \<or> is_loopback a \<or> is_link_local a \<or> is_reserved a \<or> is_multicast a"

section \<open>The checks\<close>

datatype url_error = BadAddress | NoHostname | BlockedIp | ResolverError

text \<open>What the resolver gives: addresses, its own failure (\<open>gaierror\<close>), or another \<open>OSError\<close>.\<close>

datatype resolved = Infos "string list" | GaiError | OtherOSError

definition is_ip_blocked :: "(string \<Rightarrow> ip option) \<Rightarrow> string \<Rightarrow> url_error + bool" where
  "is_ip_blocked ip_address s = (case ip_address s of None \<Rightarrow> Inl BadAddress | Some a \<Rightarrow> Inr (ip_blocked a))"

definition parse_hostname :: "(string \<Rightarrow> string option) \<Rightarrow> string \<Rightarrow> string option" where
  "parse_hostname url_hostname url =
     (if contains ''://'' url then url_hostname url
      else (let h = hd (split_char (CHR '':'') url) in if h = [] then None else Some h))"

text \<open>The loop over the resolved addresses: whether one of them is blocked.\<close>

fun any_blocked :: "(string \<Rightarrow> ip option) \<Rightarrow> string list \<Rightarrow> url_error + bool" where
  "any_blocked ip_address [] = Inr False"
| "any_blocked ip_address (s # ss) =
     (case is_ip_blocked ip_address s of
        Inl e \<Rightarrow> Inl e | Inr True \<Rightarrow> Inr True | Inr False \<Rightarrow> any_blocked ip_address ss)"

definition check_url_safe ::
    "(string \<Rightarrow> ip option) \<Rightarrow> (string \<Rightarrow> string option) \<Rightarrow> (string \<Rightarrow> resolved) \<Rightarrow> string \<Rightarrow> bool \<Rightarrow> url_error + bool" where
  "check_url_safe ip_address url_hostname getaddrinfo url allow_private =
     (if allow_private then Inr True
      else case parse_hostname url_hostname url of
             None \<Rightarrow> Inr False
           | Some h \<Rightarrow>
               if h = [] then Inr False
               else if ip_address h \<noteq> None then map_sum id Not (is_ip_blocked ip_address h)
               else (case getaddrinfo h of
                       GaiError \<Rightarrow> Inr True
                     | OtherOSError \<Rightarrow> Inr True
                     | Infos ss \<Rightarrow> map_sum id Not (any_blocked ip_address ss)))"

definition validate_public_url ::
    "(string \<Rightarrow> ip option) \<Rightarrow> (string \<Rightarrow> string option) \<Rightarrow> (string \<Rightarrow> resolved) \<Rightarrow> string \<Rightarrow> bool \<Rightarrow> url_error + unit" where
  "validate_public_url ip_address url_hostname getaddrinfo url allow_private =
     (if allow_private then Inr ()
      else case parse_hostname url_hostname url of
             None \<Rightarrow> Inl NoHostname
           | Some h \<Rightarrow>
               if h = [] then Inl NoHostname
               else if ip_address h \<noteq> None then
                 (case is_ip_blocked ip_address h of
                    Inl e \<Rightarrow> Inl e | Inr b \<Rightarrow> if b then Inl BlockedIp else Inr ())
               else (case getaddrinfo h of
                       GaiError \<Rightarrow> Inr ()
                     | OtherOSError \<Rightarrow> Inl ResolverError
                     | Infos ss \<Rightarrow> (case any_blocked ip_address ss of
                                     Inl e \<Rightarrow> Inl e | Inr b \<Rightarrow> if b then Inl BlockedIp else Inr ())))"

section \<open>Lemmas\<close>

lemma any_blocked_False:
  "any_blocked ip_address ss = Inr False \<longleftrightarrow> (\<forall>s\<in>set ss. \<exists>a. ip_address s = Some a \<and> \<not> ip_blocked a)"
  by (induction ss) (auto simp: is_ip_blocked_def split: option.split bool.split)

lemma in_net_iff:
  assumes "2 ^ (w - p) dvd n"
  shows "in_net w a (n, p) \<longleftrightarrow> n \<le> a \<and> a < n + 2 ^ (w - p)"
proof -
  obtain k where k: "n = k * 2 ^ (w - p)" using assms by (metis dvd_div_mult_self)
  let ?m = "2 ^ (w - p) :: nat"
  have "n div ?m = k" by (simp add: k)
  moreover have "a div ?m = k \<longleftrightarrow> k * ?m \<le> a \<and> a < Suc k * ?m"
    by (metis div_nat_eqI div_less_iff_less_mult lessI less_Suc_eq_le linorder_not_less mult.commute
        times_div_less_eq_dividend zero_less_numeral zero_less_power)
  ultimately show ?thesis by (simp add: in_net_def k add.commute)
qed

text \<open>The internal IPv4 ranges, by their first and last address.\<close>

definition internal_v4 :: "nat \<Rightarrow> bool" where
  "internal_v4 a \<longleftrightarrow>
     a \<le> quad 0 255 255 255 \<or>
     quad 10 0 0 0 \<le> a \<and> a \<le> quad 10 255 255 255 \<or> quad 127 0 0 0 \<le> a \<and> a \<le> quad 127 255 255 255 \<or>
     quad 169 254 0 0 \<le> a \<and> a \<le> quad 169 254 255 255 \<or> quad 172 16 0 0 \<le> a \<and> a \<le> quad 172 31 255 255 \<or>
     quad 192 168 0 0 \<le> a \<and> a \<le> quad 192 168 255 255 \<or> quad 224 0 0 0 \<le> a"

lemma in_nets:
  "in_net 32 a (quad 0 0 0 0, 8) \<longleftrightarrow> a \<le> quad 0 255 255 255"
  "in_net 32 a (quad 10 0 0 0, 8) \<longleftrightarrow> quad 10 0 0 0 \<le> a \<and> a \<le> quad 10 255 255 255"
  "in_net 32 a (quad 127 0 0 0, 8) \<longleftrightarrow> quad 127 0 0 0 \<le> a \<and> a \<le> quad 127 255 255 255"
  "in_net 32 a (quad 169 254 0 0, 16) \<longleftrightarrow> quad 169 254 0 0 \<le> a \<and> a \<le> quad 169 254 255 255"
  "in_net 32 a (quad 172 16 0 0, 12) \<longleftrightarrow> quad 172 16 0 0 \<le> a \<and> a \<le> quad 172 31 255 255"
  "in_net 32 a (quad 192 168 0 0, 16) \<longleftrightarrow> quad 192 168 0 0 \<le> a \<and> a \<le> quad 192 168 255 255"
  "in_net 32 a (quad 224 0 0 0, 4) \<longleftrightarrow> quad 224 0 0 0 \<le> a \<and> a \<le> quad 239 255 255 255"
  "in_net 32 a (quad 240 0 0 0, 4) \<longleftrightarrow> quad 240 0 0 0 \<le> a \<and> a \<le> quad 255 255 255 255"
  "in_net 32 a (quad 192 0 0 9, 32) \<longleftrightarrow> a = quad 192 0 0 9"
  "in_net 32 a (quad 192 0 0 10, 32) \<longleftrightarrow> a = quad 192 0 0 10"
  by (subst in_net_iff; simp add: quad_def; linarith?)+

lemma internal_v4_blocked:
  assumes "internal_v4 a" and "a < 2 ^ 32"
  shows "ip_blocked (V4 a)"
proof -
  have ex: "\<not> list_ex (in_net 32 a) v4_private_exceptions" if "a \<noteq> quad 192 0 0 9" "a \<noteq> quad 192 0 0 10"
    using that by (simp add: v4_private_exceptions_def in_nets)
  have top: "a \<le> quad 255 255 255 255" using assms(2) by (simp add: quad_def)
  have "quad 224 0 0 0 \<le> a \<and> a \<le> quad 239 255 255 255 \<or> quad 240 0 0 0 \<le> a" if "quad 224 0 0 0 \<le> a"
    using that by (auto simp: quad_def)
  then consider "a \<le> quad 0 255 255 255" | "quad 10 0 0 0 \<le> a \<and> a \<le> quad 10 255 255 255"
    | "quad 127 0 0 0 \<le> a \<and> a \<le> quad 127 255 255 255" | "quad 169 254 0 0 \<le> a \<and> a \<le> quad 169 254 255 255"
    | "quad 172 16 0 0 \<le> a \<and> a \<le> quad 172 31 255 255" | "quad 192 168 0 0 \<le> a \<and> a \<le> quad 192 168 255 255"
    | "quad 224 0 0 0 \<le> a \<and> a \<le> quad 239 255 255 255" | "quad 240 0 0 0 \<le> a \<and> a \<le> quad 255 255 255 255"
    using assms(1) top unfolding internal_v4_def by blast
  then show ?thesis
  proof cases
    case 1
    then have "a \<noteq> quad 192 0 0 9" "a \<noteq> quad 192 0 0 10" by (simp_all add: quad_def)
    with 1 ex show ?thesis by (simp add: ip_blocked_def v4_is_private_def v4_private_def in_nets)
  next
    case 2
    then have "a \<noteq> quad 192 0 0 9" "a \<noteq> quad 192 0 0 10" by (auto simp: quad_def)
    with 2 ex show ?thesis by (simp add: ip_blocked_def v4_is_private_def v4_private_def in_nets)
  next
    case 5
    then have "a \<noteq> quad 192 0 0 9" "a \<noteq> quad 192 0 0 10" by (auto simp: quad_def)
    with 5 ex show ?thesis by (simp add: ip_blocked_def v4_is_private_def v4_private_def in_nets)
  next
    case 6
    then have "a \<noteq> quad 192 0 0 9" "a \<noteq> quad 192 0 0 10" by (auto simp: quad_def)
    with 6 ex show ?thesis by (simp add: ip_blocked_def v4_is_private_def v4_private_def in_nets)
  qed (simp_all add: ip_blocked_def in_nets)
qed

text \<open>
  The internal IPv6 addresses: a wrapped internal IPv4 address; everything outside the global unicast block
  \<open>2000::/3\<close> (unspecified, loopback, unique local, link local, multicast and the reserved blocks) but for the
  deprecated site-local block \<open>fec0::/10\<close>; and \<open>2002::/16\<close>, which routes to any IPv4 address.
\<close>

definition first16 :: "nat \<Rightarrow> nat" where "first16 a = a div 2 ^ 112"

definition internal_v6 :: "nat \<Rightarrow> bool" where
  "internal_v6 a \<longleftrightarrow>
     (case ipv4_mapped a of
        Some m \<Rightarrow> internal_v4 m
      | None \<Rightarrow> first16 a < 0x2000 \<or> first16 a = 0x2002 \<or> 0x4000 \<le> first16 a \<and> first16 a < 0xFEC0 \<or> 0xFF00 \<le> first16 a)"

fun internal :: "ip \<Rightarrow> bool" where
  "internal (V4 a) = internal_v4 a"
| "internal (V6 a) = internal_v6 a"

fun valid_ip :: "ip \<Rightarrow> bool" where
  "valid_ip (V4 a) \<longleftrightarrow> a < 2 ^ 32"
| "valid_ip (V6 a) \<longleftrightarrow> a < 2 ^ 128"

text \<open>The networks in use as ranges of the first 16 bits.\<close>

lemma div_range: "0 < m \<Longrightarrow> b div m = c \<longleftrightarrow> c * m \<le> b \<and> b < c * m + m" for b m c :: nat
  by (metis add.commute div_less_iff_less_mult div_nat_eqI lessI mult.commute mult_Suc times_div_less_eq_dividend)

lemma in_net_high:
  assumes "in_net 128 a (n, p)" "16 \<le> p" "p \<le> 128"
  shows "first16 a = n div 2 ^ 112"
proof -
  have "(2::nat) ^ 112 = 2 ^ (128 - p) * 2 ^ (p - 16)" using assms(2,3) by (simp flip: power_add)
  with assms(1) show ?thesis by (simp only: first16_def in_net_def fst_conv snd_conv div_mult2_eq)
qed

lemma in_block: "in_net 128 a (hextets n 0 0 0, p) \<longleftrightarrow> first16 a div 2 ^ (16 - p) = n div 2 ^ (16 - p)" if "p \<le> 16" for n p a
proof -
  have "128 - p = 112 + (16 - p)" using that by arith
  then have e: "(2::nat) ^ (128 - p) = 2 ^ 112 * 2 ^ (16 - p)" by (simp only: power_add)
  have "hextets n 0 0 0 = n * 2 ^ 112" by (simp add: hextets_def)
  then have "hextets n 0 0 0 div 2 ^ 112 = n" by (simp only: nonzero_mult_div_cancel_right) simp
  then show ?thesis by (simp only: in_net_def fst_conv snd_conv e div_mult2_eq first16_def)
qed

lemma blocks:
  "in_net 128 a (hextets 0x100 0 0 0, 8) \<longleftrightarrow> 0x100 \<le> first16 a \<and> first16 a < 0x200"
  "in_net 128 a (hextets 0x200 0 0 0, 7) \<longleftrightarrow> 0x200 \<le> first16 a \<and> first16 a < 0x400"
  "in_net 128 a (hextets 0x400 0 0 0, 6) \<longleftrightarrow> 0x400 \<le> first16 a \<and> first16 a < 0x800"
  "in_net 128 a (hextets 0x800 0 0 0, 5) \<longleftrightarrow> 0x800 \<le> first16 a \<and> first16 a < 0x1000"
  "in_net 128 a (hextets 0x1000 0 0 0, 4) \<longleftrightarrow> 0x1000 \<le> first16 a \<and> first16 a < 0x2000"
  "in_net 128 a (hextets 0x2002 0 0 0, 16) \<longleftrightarrow> first16 a = 0x2002"
  "in_net 128 a (hextets 0x4000 0 0 0, 3) \<longleftrightarrow> 0x4000 \<le> first16 a \<and> first16 a < 0x6000"
  "in_net 128 a (hextets 0x6000 0 0 0, 3) \<longleftrightarrow> 0x6000 \<le> first16 a \<and> first16 a < 0x8000"
  "in_net 128 a (hextets 0x8000 0 0 0, 3) \<longleftrightarrow> 0x8000 \<le> first16 a \<and> first16 a < 0xA000"
  "in_net 128 a (hextets 0xA000 0 0 0, 3) \<longleftrightarrow> 0xA000 \<le> first16 a \<and> first16 a < 0xC000"
  "in_net 128 a (hextets 0xC000 0 0 0, 3) \<longleftrightarrow> 0xC000 \<le> first16 a \<and> first16 a < 0xE000"
  "in_net 128 a (hextets 0xE000 0 0 0, 4) \<longleftrightarrow> 0xE000 \<le> first16 a \<and> first16 a < 0xF000"
  "in_net 128 a (hextets 0xF000 0 0 0, 5) \<longleftrightarrow> 0xF000 \<le> first16 a \<and> first16 a < 0xF800"
  "in_net 128 a (hextets 0xF800 0 0 0, 6) \<longleftrightarrow> 0xF800 \<le> first16 a \<and> first16 a < 0xFC00"
  "in_net 128 a (hextets 0xFC00 0 0 0, 7) \<longleftrightarrow> 0xFC00 \<le> first16 a \<and> first16 a < 0xFE00"
  "in_net 128 a (hextets 0xFE00 0 0 0, 9) \<longleftrightarrow> 0xFE00 \<le> first16 a \<and> first16 a < 0xFE80"
  "in_net 128 a (hextets 0xFE80 0 0 0, 10) \<longleftrightarrow> 0xFE80 \<le> first16 a \<and> first16 a < 0xFEC0"
  "in_net 128 a (hextets 0xFF00 0 0 0, 8) \<longleftrightarrow> 0xFF00 \<le> first16 a \<and> first16 a < 0x10000"
  by (simp_all add: in_block div_range)

lemma low_block: "in_net 128 a (0, 8) \<longleftrightarrow> first16 a < 0x100"
  using in_block [of 8 a 0] by (simp add: hextets_def div_range)

text \<open>The exceptions to the private blocks all lie in \<open>2001::/16\<close>.\<close>

lemma exception_block: "list_ex (in_net 128 a) v6_private_exceptions \<Longrightarrow> first16 a = 0x2001"
  unfolding v6_private_exceptions_def by (auto simp: hextets_def dest!: in_net_high)

lemma internal_v6_blocked:
  assumes "internal_v6 a" and "a < 2 ^ 128"
  shows "ip_blocked (V6 a)"
proof (cases "ipv4_mapped a")
  case (Some m)
  then have "m < 2 ^ 32" by (auto simp: ipv4_mapped_def split: if_split_asm)
  with Some assms(1) internal_v4_blocked [of m] show ?thesis by (simp add: internal_v6_def ip_blocked_def)
next
  case None
  have top: "first16 a < 0x10000" using assms(2) by (simp add: first16_def div_less_iff_less_mult)
  have reserved: "is_reserved (V6 a)" if "\<exists>net\<in>set v6_reserved. in_net 128 a net"
    using that None by (simp add: list_ex_iff)
  have priv: "is_private (V6 a)" if "first16 a = 0x2002 \<or> 0xFC00 \<le> first16 a \<and> first16 a < 0xFE00"
  proof -
    have "\<not> list_ex (in_net 128 a) v6_private_exceptions" using that exception_block [of a] by auto
    with that None show ?thesis by (auto simp: v6_private_def blocks)
  qed
  have "first16 a < 0x2000 \<or> first16 a = 0x2002 \<or> 0x4000 \<le> first16 a \<and> first16 a < 0xFEC0 \<or> 0xFF00 \<le> first16 a"
    using assms(1) None by (simp add: internal_v6_def)
  moreover have "\<exists>net\<in>set v6_reserved. in_net 128 a net"
    if "first16 a < 0x2000 \<or> 0x4000 \<le> first16 a \<and> first16 a < 0xFC00 \<or> 0xFE00 \<le> first16 a \<and> first16 a < 0xFE80"
    unfolding v6_reserved_def using that by (simp add: blocks low_block) presburger
  ultimately consider "\<exists>net\<in>set v6_reserved. in_net 128 a net" | "first16 a = 0x2002 \<or> 0xFC00 \<le> first16 a \<and> first16 a < 0xFE00"
    | "0xFE80 \<le> first16 a \<and> first16 a < 0xFEC0" | "0xFF00 \<le> first16 a" by linarith
  then show ?thesis
    using reserved priv top None by cases (simp_all add: ip_blocked_def blocks)
qed

lemma internal_blocked: "internal a \<Longrightarrow> valid_ip a \<Longrightarrow> ip_blocked a"
  by (cases a) (simp_all add: internal_v4_blocked internal_v6_blocked)

section \<open>Properties\<close>

text \<open>
  Property C21. A URL that passes the guard does not lead inside: no address that its host name
  denotes or resolves to is internal, that is, in one of the internal IPv4 ranges, an IPv6 address
  outside global unicast (loopback, unique local, link local, multicast, reserved; the deprecated
  site-local block apart, which the guard lets through), or an IPv6 address that wraps an internal
  IPv4 address or routes to IPv4 (\<open>internal\<close> lists the ranges; the shared carrier range \<open>100.64/10\<close> is
  not among them, and passes); and the validator for stored URLs accepts the same URLs as the
  guard at request time, when the resolver gives the same answer.
\<close>

theorem safe_url_is_not_internal:
  "(check_url_safe ip_address url_hostname getaddrinfo url False = Inr True \<longrightarrow>
     (\<exists>h. parse_hostname url_hostname url = Some h \<and>
       (\<forall>s. s = h \<or> (ip_address h = None \<and> (\<exists>ss. getaddrinfo h = Infos ss \<and> s \<in> set ss)) \<longrightarrow>
          (\<forall>a. valid_ip a \<and> internal a \<longrightarrow> ip_address s \<noteq> Some a))) \<and>
     (validate_public_url ip_address url_hostname getaddrinfo url False = Inr () \<or>
      (\<exists>h. parse_hostname url_hostname url = Some h \<and> getaddrinfo h = OtherOSError))) \<and>
   (validate_public_url ip_address url_hostname getaddrinfo url False = Inr () \<longrightarrow>
     check_url_safe ip_address url_hostname getaddrinfo url False = Inr True)"
proof (intro conjI impI)
  assume safe: "check_url_safe ip_address url_hostname getaddrinfo url False = Inr True"
  then obtain h where h: "parse_hostname url_hostname url = Some h" "h \<noteq> []"
    by (auto simp: check_url_safe_def split: option.splits if_splits)
  have ok: "\<not> ip_blocked a"
    if s: "s = h \<or> (ip_address h = None \<and> (\<exists>ss. getaddrinfo h = Infos ss \<and> s \<in> set ss))" and a: "ip_address s = Some a" for s a
  proof (cases "ip_address h")
    case None
    then obtain ss where "getaddrinfo h = Infos ss" "s \<in> set ss" using s a by auto
    moreover from this safe h None have "any_blocked ip_address ss = Inr False"
      by (cases "any_blocked ip_address ss") (auto simp: check_url_safe_def)
    ultimately show ?thesis using a unfolding any_blocked_False by force
  next
    case (Some b)
    with safe h s a show ?thesis by (auto simp: check_url_safe_def is_ip_blocked_def)
  qed
  show "\<exists>h. parse_hostname url_hostname url = Some h \<and>
       (\<forall>s. s = h \<or> (ip_address h = None \<and> (\<exists>ss. getaddrinfo h = Infos ss \<and> s \<in> set ss)) \<longrightarrow>
          (\<forall>a. valid_ip a \<and> internal a \<longrightarrow> ip_address s \<noteq> Some a))"
    using h(1) ok internal_blocked by blast
  show "validate_public_url ip_address url_hostname getaddrinfo url False = Inr () \<or>
      (\<exists>h. parse_hostname url_hostname url = Some h \<and> getaddrinfo h = OtherOSError)"
    using safe h
    by (cases "ip_address h"; cases "getaddrinfo h"; cases "is_ip_blocked ip_address h")
       (auto simp: check_url_safe_def validate_public_url_def split: sum.splits)
next
  assume "validate_public_url ip_address url_hostname getaddrinfo url False = Inr ()"
  then show "check_url_safe ip_address url_hostname getaddrinfo url False = Inr True"
    by (auto simp: check_url_safe_def validate_public_url_def split: option.splits if_splits resolved.splits sum.splits)
qed

text \<open>An address of the deprecated site-local block passes, and one of the shared range of carriers.\<close>

lemma site_local_is_not_blocked: "\<not> ip_blocked (V6 (hextets 0xFEC0 0 0 0 + 1))"
  by (simp add: ip_blocked_def ipv4_mapped_def v6_private_def v6_private_exceptions_def v6_reserved_def in_net_def hextets_def)

lemma shared_space_is_not_blocked: "\<not> ip_blocked (V4 (quad 100 64 0 1))"
  by (simp add: ip_blocked_def v4_is_private_def v4_private_def in_net_def quad_def)

definition demo_parse :: "string \<Rightarrow> ip option" where
  "demo_parse s = (if s = ''8.8.8.8'' then Some (V4 (quad 8 8 8 8))
                   else if s = ''10.0.0.1'' then Some (V4 (quad 10 0 0 1)) else None)"

theorem safe_url_is_not_internal_witness:
  "check_url_safe demo_parse (\<lambda>_. Some ''dns.example'') (\<lambda>_. Infos [''8.8.8.8'']) ''https://dns.example/'' False = Inr True \<and>
   check_url_safe demo_parse (\<lambda>_. Some ''dns.example'') (\<lambda>_. Infos [''8.8.8.8'', ''10.0.0.1'']) ''https://dns.example/'' False = Inr False \<and>
   validate_public_url demo_parse (\<lambda>_. Some ''dns.example'') (\<lambda>_. Infos [''8.8.8.8'']) ''https://dns.example/'' False = Inr ()"
proof -
  have c: "check_url_safe demo_parse (\<lambda>_. Some ''dns.example'') (\<lambda>_. Infos [''8.8.8.8'']) ''https://dns.example/'' False = Inr True"
    "check_url_safe demo_parse (\<lambda>_. Some ''dns.example'') (\<lambda>_. Infos [''8.8.8.8'', ''10.0.0.1'']) ''https://dns.example/'' False = Inr False"
    by (simp_all add: check_url_safe_def parse_hostname_def starts_with_def is_ip_blocked_def demo_parse_def ip_blocked_def
        in_nets v4_is_private_def v4_private_def v4_private_exceptions_def quad_def in_net_def)
  moreover from safe_url_is_not_internal [of demo_parse "\<lambda>_. Some ''dns.example''" "\<lambda>_. Infos [''8.8.8.8'']" "''https://dns.example/''"] c(1)
  have "validate_public_url demo_parse (\<lambda>_. Some ''dns.example'') (\<lambda>_. Infos [''8.8.8.8'']) ''https://dns.example/'' False = Inr ()"
    by auto
  ultimately show ?thesis by blast
qed

end
