(* ===== verification/Uptime.thy ===== *)
theory Uptime
  imports Partitions Statistics Url_Safety
begin

text \<open>
  Uptime monitoring: \<open>apps/uptime/tasks.py\<close> (dispatching, the debounced state of a monitor, saving
  of check results), \<open>apps/uptime/utils.py\<close> (one check) and the heartbeat endpoint of
  \<open>apps/uptime/api.py\<close>.

  What the network does is the argument \<open>probe\<close>: the response to a request, or the class of the
  exception. The clock of \<open>run_checks\<close> and the order in which its requests end are a list of rounds.
  The row ids of checks (\<open>UUID7Helper.from_datetime\<close>) are an argument.
\<close>

section \<open>Data\<close>

datatype monitor_type = PING | GET | POST | PORT | SSL | HEARTBEAT

datatype check_reason = UNKNOWN | TIMEOUT | STATUS | BODY | SSL_REASON | NETWORK

record monitor =
  m_org :: int
  m_type :: monitor_type
  m_interval :: int
  m_timeout :: "int option"
  expected_status :: "int option"
  confirmation_threshold :: "nat option"
  m_url :: string
  expected_body :: string
  cached_is_up :: "bool option"
  cached_last_change :: "datetime option"
  cached_consecutive_down :: "nat option"

text \<open>The dictionary that a check fills in, for the monitor with the id \<open>r_id\<close>.\<close>

record check_result =
  r_id :: int
  r_monitor :: monitor
  r_is_up :: bool
  r_reason :: "check_reason option"
  r_response_time :: "int option"
  r_data :: "string option"

record monitor_check =
  ck_id :: int
  ck_monitor :: int
  ck_org :: int
  ck_is_up :: bool
  ck_is_change :: bool
  ck_start :: datetime
  ck_reason :: "check_reason option"
  ck_response_time :: "int option"
  ck_data :: "string option"

text \<open>A notification task: monitor, check, whether it went down, time of the last change.\<close>

record notice =
  n_monitor :: int
  n_check :: int
  n_org :: int
  n_went_down :: bool
  n_last_change :: "datetime option"

record uptime_db =
  monitors :: "(int, monitor) dict"
  checks :: "monitor_check list"
  check_stats :: "(int \<times> datetime, int) dict"
  notices :: "notice list"

section \<open>Dispatching\<close>

definition UPTIME_TICK_EXPIRE :: int where
  "UPTIME_TICK_EXPIRE = 2147483647"

text \<open>The counter in the cache and the tick that a run of \<open>dispatch_checks\<close> uses.\<close>

definition next_tick :: "int option \<Rightarrow> int \<times> int option" where
  "next_tick counter =
     (let tick = (case counter of None \<Rightarrow> 1 | Some c \<Rightarrow> c + 1)
      in (tick, if tick \<ge> UPTIME_TICK_EXPIRE then Some 0 else Some tick))"

definition is_due :: "(int \<Rightarrow> int) \<Rightarrow> int \<Rightarrow> int \<times> monitor \<Rightarrow> bool" where
  "is_due throttle_rate tick im =
     (case im of (mid, m) \<Rightarrow> throttle_rate (m_org m) < 100 \<and> (tick + mid) mod m_interval m = 0 \<and>
        \<not> (m_url m = [] \<and> m_type m \<noteq> HEARTBEAT))"

text \<open>The ids handed to \<open>perform_checks\<close>; nothing is enqueued for an empty list.\<close>

definition dispatch_checks :: "(int \<Rightarrow> int) \<Rightarrow> (int, monitor) dict \<Rightarrow> int option \<Rightarrow> int list \<times> int option" where
  "dispatch_checks throttle_rate ms counter =
     (let (tick, counter') = next_tick counter
      in (map fst (filter (is_due throttle_rate tick) ms), counter'))"

section \<open>One check\<close>

record http_response =
  http_status :: int
  payload :: string

datatype probe = Response http_response | SSLError | TimeoutError | ConnectionError | OSError | OtherException

definition DEFAULT_TIMEOUT :: int where "DEFAULT_TIMEOUT = 20"
definition PAYLOAD_SAVE_LIMIT :: nat where "PAYLOAD_SAVE_LIMIT = 500000"

definition process_response :: "http_response \<Rightarrow> check_result \<Rightarrow> check_result" where
  "process_response resp r =
     (let m = r_monitor r in
      if Some (http_status resp) = expected_status m then
        (if expected_body m \<noteq> [] then
           (if contains (expected_body m) (payload resp) then r\<lparr>r_is_up := True\<rparr>
            else (let r1 = r\<lparr>r_reason := Some BODY\<rparr>
                  in if cached_is_up m \<noteq> Some (r_is_up r)
                     then r1\<lparr>r_data := Some (take PAYLOAD_SAVE_LIMIT (payload resp))\<rparr> else r1))
         else r\<lparr>r_is_up := True\<rparr>)
      else r\<lparr>r_reason := Some STATUS\<rparr>)"

text \<open>
  \<open>fetch\<close>. \<open>now\<close> is the time of a heartbeat check, \<open>safe\<close> the answer of \<open>check_url_safe\<close> for the URL,
  \<open>elapsed\<close> the duration of the request in milliseconds. The payload limit of \<open>process_response\<close> and
  the decoding are part of \<open>payload\<close>.
\<close>

definition has_heartbeat :: "(datetime \<Rightarrow> int) \<Rightarrow> datetime \<Rightarrow> int \<Rightarrow> monitor \<Rightarrow> monitor_check list \<Rightarrow> bool" where
  "has_heartbeat ms now mid m cs =
     (let since = now - m_interval m * 1000000 in
      list_ex (\<lambda>c. ck_org c = m_org m \<and> ck_monitor c = mid \<and> uuid7_for_timestamp ms True since \<le> ck_id c \<and>
                   since \<le> ck_start c) cs)"

definition fetch ::
    "(datetime \<Rightarrow> int) \<Rightarrow> (string \<Rightarrow> bool) \<Rightarrow> (monitor \<Rightarrow> probe) \<Rightarrow> int \<Rightarrow> datetime \<Rightarrow> monitor_check list \<Rightarrow> int \<Rightarrow> monitor
     \<Rightarrow> check_result" where
  "fetch ms safe probe elapsed now cs mid m =
     (let r = \<lparr>r_id = mid, r_monitor = m, r_is_up = False, r_reason = None, r_response_time = None, r_data = None\<rparr> in
      if m_type m = HEARTBEAT then r\<lparr>r_is_up := has_heartbeat ms now mid m cs\<rparr>
      else if \<not> safe (m_url m) then r\<lparr>r_reason := Some NETWORK\<rparr>
      else case probe m of
             SSLError \<Rightarrow> r\<lparr>r_reason := Some SSL_REASON\<rparr>
           | TimeoutError \<Rightarrow> r\<lparr>r_reason := Some TIMEOUT\<rparr>
           | ConnectionError \<Rightarrow> r\<lparr>r_reason := Some NETWORK\<rparr>
           | OSError \<Rightarrow> r\<lparr>r_reason := Some UNKNOWN\<rparr>
           | OtherException \<Rightarrow> r\<lparr>r_reason := Some UNKNOWN\<rparr>
           | Response resp \<Rightarrow>
               (let r1 = (case m_type m of
                            PORT \<Rightarrow> r\<lparr>r_is_up := True\<rparr>
                          | PING \<Rightarrow> r\<lparr>r_is_up := True\<rparr>
                          | GET \<Rightarrow> process_response resp r
                          | POST \<Rightarrow> process_response resp r
                          | _ \<Rightarrow> r)
                in r1\<lparr>r_response_time := Some elapsed\<rparr>))"

section \<open>The state of a monitor\<close>

text \<open>\<open>x or d\<close> for an optional count: a missing value and 0 count as \<open>d\<close>.\<close>

definition or_default :: "nat option \<Rightarrow> nat \<Rightarrow> nat" where
  "or_default x d = (case x of None \<Rightarrow> d | Some n \<Rightarrow> if n = 0 then d else n)"

definition next_state :: "check_result \<Rightarrow> bool option \<times> nat \<times> bool \<times> bool" where
  "next_state r =
     (let m = r_monitor r;
          prev_state = cached_is_up m;
          threshold = or_default (confirmation_threshold m) 1;
          (consecutive_down, new_state) =
            (if r_is_up r then (0, Some True)
             else (let cd = min (or_default (cached_consecutive_down m) 0 + 1) threshold
                   in (cd, if cd \<ge> threshold then Some False else prev_state)));
          state_changed = (new_state \<noteq> None \<and> new_state \<noteq> prev_state);
          is_change = (new_state \<noteq> None \<and> (state_changed \<or> cached_last_change m = None))
      in (new_state, consecutive_down, is_change, state_changed))"

text \<open>\<open>None\<close> is the \<open>IntegrityError\<close> for an hour without a partition, which is only logged.\<close>

definition update_uptime_statistics ::
    "(datetime \<Rightarrow> bool) \<Rightarrow> (int, int) dict \<Rightarrow> datetime \<Rightarrow> (int \<times> datetime, int) dict \<Rightarrow> (int \<times> datetime, int) dict" where
  "update_uptime_statistics has_partition org_counts check_time tbl =
     (let hour = hour_of check_time in
      if \<not> has_partition hour then tbl
      else fold (\<lambda>(oid, n) t. dset t (oid, hour) (n + val t (oid, hour))) (sort_key fst org_counts) tbl)"

definition counter :: "int list \<Rightarrow> (int, int) dict" where
  "counter xs = fold (\<lambda>x m. dset m x (case map_of m x of None \<Rightarrow> 1 | Some n \<Rightarrow> n + 1)) xs []"

definition check_of :: "datetime \<Rightarrow> int \<Rightarrow> check_result \<Rightarrow> monitor_check" where
  "check_of now uid r =
     (case next_state r of (_, _, is_change, _) \<Rightarrow>
        \<lparr>ck_id = uid, ck_monitor = r_id r, ck_org = m_org (r_monitor r), ck_is_up = r_is_up r, ck_is_change = is_change,
         ck_start = now, ck_reason = r_reason r, ck_response_time = r_response_time r, ck_data = r_data r\<rparr>)"

text \<open>The bulk update of the cached columns of a monitor, by its primary key.\<close>

definition update_cached :: "datetime \<Rightarrow> check_result \<Rightarrow> (int, monitor) dict \<Rightarrow> (int, monitor) dict" where
  "update_cached now r ms =
     (case next_state r of (new_state, cd, is_change, _) \<Rightarrow>
        (case map_of ms (r_id r) of
           None \<Rightarrow> ms
         | Some m \<Rightarrow> dset ms (r_id r)
             (m\<lparr>cached_is_up := new_state,
                cached_last_change := (if is_change then Some now else cached_last_change (r_monitor r)),
                cached_consecutive_down := Some cd\<rparr>)))"

definition notice_of :: "int \<Rightarrow> check_result \<Rightarrow> notice list" where
  "notice_of uid r =
     (case next_state r of (new_state, _, _, state_changed) \<Rightarrow>
        if state_changed
        then [\<lparr>n_monitor = r_id r, n_check = uid, n_org = m_org (r_monitor r), n_went_down = (new_state \<noteq> Some True),
               n_last_change = cached_last_change (r_monitor r)\<rparr>]
        else [])"

definition save_monitor_checks ::
    "(datetime \<Rightarrow> bool) \<Rightarrow> (int \<times> check_result) list \<Rightarrow> datetime \<Rightarrow> uptime_db \<Rightarrow> uptime_db" where
  "save_monitor_checks has_partition results now d =
     d\<lparr>checks := checks d @ map (\<lambda>(uid, r). check_of now uid r) results,
       monitors := fold (\<lambda>(uid, r). update_cached now r) results (monitors d),
       check_stats := update_uptime_statistics has_partition (counter (map (\<lambda>(uid, r). m_org (r_monitor r)) results)) now
                        (check_stats d),
       notices := notices d @ concat (map (\<lambda>(uid, r). notice_of uid r) results)\<rparr>"

section \<open>Batching\<close>

definition BATCH_SIZE :: nat where "BATCH_SIZE = 100"

text \<open>
  A round of the loop: the results that have come in (\<open>None\<close> for a request task that failed) and
  whether the flush interval has passed.
\<close>

type_synonym round = "(int \<times> check_result) option list \<times> bool"

definition kept :: "(int \<times> check_result) option list \<Rightarrow> (int \<times> check_result) list" where
  "kept xs = filter (\<lambda>(_, r). m_type (r_monitor r) \<noteq> HEARTBEAT \<or> \<not> r_is_up r) (List.map_filter id xs)"

fun run_loop ::
    "(datetime \<Rightarrow> bool) \<Rightarrow> datetime \<Rightarrow> round list \<Rightarrow> (int \<times> check_result) list \<Rightarrow> uptime_db \<Rightarrow> uptime_db" where
  "run_loop has_partition now [] buffer d =
     (if buffer \<noteq> [] then save_monitor_checks has_partition buffer now d else d)"
| "run_loop has_partition now ((ready, elapsed) # rounds) buffer d =
     (let b = buffer @ kept ready in
      if length b \<ge> BATCH_SIZE \<or> (b \<noteq> [] \<and> elapsed)
      then run_loop has_partition now rounds [] (save_monitor_checks has_partition b now d)
      else run_loop has_partition now rounds b d)"

definition run_checks :: "(datetime \<Rightarrow> bool) \<Rightarrow> round list \<Rightarrow> datetime \<Rightarrow> uptime_db \<Rightarrow> uptime_db" where
  "run_checks has_partition rounds now d = run_loop has_partition now rounds [] d"

section \<open>Heartbeats\<close>

text \<open>\<open>None\<close> is the 404 for an endpoint that is not known; \<open>mid\<close> is the monitor of the endpoint.\<close>

definition heartbeat_check ::
    "(datetime \<Rightarrow> bool) \<Rightarrow> int option \<Rightarrow> int \<Rightarrow> datetime \<Rightarrow> uptime_db \<Rightarrow> (monitor_check \<times> uptime_db) option" where
  "heartbeat_check has_partition mid uid now d =
     (case mid of
        None \<Rightarrow> None
      | Some i \<Rightarrow>
          (case map_of (monitors d) i of
             None \<Rightarrow> None
           | Some m \<Rightarrow>
               (let is_change = (cached_is_up m \<noteq> Some True \<or> cached_last_change m = None);
                    c = \<lparr>ck_id = uid, ck_monitor = i, ck_org = m_org m, ck_is_up = True, ck_is_change = is_change,
                         ck_start = now, ck_reason = None, ck_response_time = None, ck_data = None\<rparr>;
                    m' = m\<lparr>cached_is_up := Some True,
                           cached_last_change := (if is_change then Some now else cached_last_change m),
                           cached_consecutive_down := Some 0\<rparr>
                in Some (c, d\<lparr>checks := checks d @ [c],
                              check_stats := update_uptime_statistics has_partition [(m_org m, 1)] now (check_stats d),
                              monitors := dset (monitors d) i m',
                              notices := notices d @ (if cached_is_up m = Some False
                                then [\<lparr>n_monitor = i, n_check = uid, n_org = m_org m, n_went_down = False,
                                       n_last_change = cached_last_change m\<rparr>] else [])\<rparr>))))"

section \<open>Statistics of a batch\<close>

lemma map_of_counter: "map_of (counter xs) x = (if x \<in> set xs then Some (int (length (filter (\<lambda>y. y = x) xs))) else None)"
proof -
  have "map_of (counter xs) x = fold (\<lambda>y a. Some (case a of None \<Rightarrow> 1 | Some n \<Rightarrow> n + 1)) (filter (\<lambda>y. y = x) xs) None"
    unfolding counter_def
    using dict.get_fold [where key = "\<lambda>x. x" and stp = "\<lambda>a x. case a of None \<Rightarrow> 1 | Some n \<Rightarrow> n + 1" and xs = xs and m = "[]" and k = x]
    by simp
  then show ?thesis by (auto simp: fold_count filter_empty_conv)
qed

lemma dict_ok_counter: "dict_ok (counter xs)"
  unfolding counter_def
  by (rule dict.ok_fold [where key = "\<lambda>x. x" and stp = "\<lambda>a x. case a of None \<Rightarrow> 1 | Some n \<Rightarrow> n + 1"]) simp

lemma uptime_statistics_val:
  assumes "dict_ok org_counts"
  shows "val (update_uptime_statistics has_partition org_counts t tbl) (oid, h) = val tbl (oid, h) +
    (if has_partition (hour_of t) \<and> h = hour_of t then (case map_of org_counts oid of Some n \<Rightarrow> n | None \<Rightarrow> 0) else 0)"
proof (cases "has_partition (hour_of t)")
  case True
  let ?l = "sort_key fst org_counts"
  have ok: "dict_ok ?l" using assms by simp
  have eq: "update_uptime_statistics has_partition org_counts t tbl =
      fold (\<lambda>(k, u) s. dset s (k, hour_of t) (u + (case map_of s (k, hour_of t) of None \<Rightarrow> 0 | Some c \<Rightarrow> c))) ?l tbl"
    using True by (simp add: update_uptime_statistics_def Let_def val_def)
  have flt: "filter (\<lambda>(k, u). (k, hour_of t) = (oid, h)) ?l =
      (case map_of ?l oid of Some u \<Rightarrow> if h = hour_of t then [(oid, u)] else [] | None \<Rightarrow> [])"
    using filter_key_at_most_one [OF ok, of oid "\<lambda>_. h = hour_of t"] by (auto simp: eq_commute conj_commute)
  show ?thesis
    unfolding val_def eq
    unfolding map_of_upserts [OF ok, where tk = "\<lambda>k u. (k, hour_of t)" and mrg = "\<lambda>u a. u + (case a of None \<Rightarrow> 0 | Some c \<Rightarrow> c)"] flt
    unfolding map_of_sort_key [OF assms]
    using True by (auto split: option.splits)
qed (simp add: update_uptime_statistics_def Let_def)

section \<open>Batching does not matter\<close>

definition same_effect :: "uptime_db \<Rightarrow> uptime_db \<Rightarrow> bool" where
  "same_effect d d' \<longleftrightarrow> checks d = checks d' \<and> monitors d = monitors d' \<and> notices d = notices d' \<and>
     (\<forall>k. val (check_stats d) k = val (check_stats d') k)"

lemma save_stats:
  "val (check_stats (save_monitor_checks has_partition rs now d)) (oid, h) = val (check_stats d) (oid, h) +
    (if has_partition (hour_of now) \<and> h = hour_of now then int (length (filter (\<lambda>(uid, r). m_org (r_monitor r) = oid) rs)) else 0)"
  by (auto simp: save_monitor_checks_def uptime_statistics_val [OF dict_ok_counter] map_of_counter filter_map comp_def case_prod_unfold
      filter_empty_conv image_iff)

lemma save_append:
  "same_effect (save_monitor_checks has_partition (b1 @ b2) now d)
     (save_monitor_checks has_partition b2 now (save_monitor_checks has_partition b1 now d))"
  unfolding same_effect_def
proof (intro conjI allI)
  fix k :: "int \<times> datetime"
  show "val (check_stats (save_monitor_checks has_partition (b1 @ b2) now d)) k =
      val (check_stats (save_monitor_checks has_partition b2 now (save_monitor_checks has_partition b1 now d))) k"
    by (cases k) (simp add: save_stats)
qed (simp_all add: save_monitor_checks_def)

lemma save_cong:
  assumes "same_effect d d'"
  shows "same_effect (save_monitor_checks has_partition b now d) (save_monitor_checks has_partition b now d')"
  unfolding same_effect_def
proof (intro conjI allI)
  fix k :: "int \<times> datetime"
  show "val (check_stats (save_monitor_checks has_partition b now d)) k = val (check_stats (save_monitor_checks has_partition b now d')) k"
    using assms by (cases k) (simp add: save_stats same_effect_def)
qed (use assms in \<open>simp_all add: save_monitor_checks_def same_effect_def\<close>)

lemma same_effect_refl [simp]: "same_effect d d"
  by (simp add: same_effect_def)

lemma same_effect_trans: "same_effect d d' \<Longrightarrow> same_effect d' d'' \<Longrightarrow> same_effect d d''"
  by (simp add: same_effect_def)

lemma save_Nil: "same_effect (save_monitor_checks has_partition [] now d) d"
  unfolding same_effect_def
proof (intro conjI allI)
  fix k :: "int \<times> datetime"
  show "val (check_stats (save_monitor_checks has_partition [] now d)) k = val (check_stats d) k"
    by (cases k) (simp add: save_stats)
qed (simp_all add: save_monitor_checks_def)

lemma run_loop_effect:
  "same_effect d d' \<Longrightarrow>
   same_effect (run_loop has_partition now rounds b d) (save_monitor_checks has_partition (b @ concat (map (\<lambda>x. kept (fst x)) rounds)) now d')"
proof (induction has_partition now rounds b d arbitrary: d' rule: run_loop.induct)
  case (1 has_partition now buffer d)
  have "same_effect d (save_monitor_checks has_partition [] now d')"
    using 1 save_Nil [of has_partition now d'] by (simp add: same_effect_def)
  with save_cong [OF 1] show ?case by simp
next
  case (2 has_partition now ready elapsed rounds buffer d)
  let ?b = "buffer @ kept ready"
  let ?rest = "concat (map (\<lambda>x. kept (fst x)) rounds)"
  show ?case
  proof (cases "length ?b \<ge> BATCH_SIZE \<or> (?b \<noteq> [] \<and> elapsed)")
    case True
    have "same_effect (run_loop has_partition now rounds [] (save_monitor_checks has_partition ?b now d))
        (save_monitor_checks has_partition ([] @ ?rest) now (save_monitor_checks has_partition ?b now d'))"
      using 2(1) [OF refl True save_cong [OF 2(3)]] by simp
    moreover have "same_effect (save_monitor_checks has_partition ?rest now (save_monitor_checks has_partition ?b now d'))
        (save_monitor_checks has_partition (?b @ ?rest) now d')"
      using save_append [of has_partition ?b ?rest now d'] by (simp add: same_effect_def)
    ultimately have "same_effect (run_loop has_partition now rounds [] (save_monitor_checks has_partition ?b now d))
        (save_monitor_checks has_partition (?b @ ?rest) now d')"
      unfolding append_Nil by (rule same_effect_trans)
    with True show ?thesis by (simp add: Let_def)
  next
    case False
    with 2(2) [OF refl False 2(3)] show ?thesis by (auto simp: Let_def)
  qed
qed

section \<open>The history of a monitor\<close>

text \<open>
  What the state of a monitor should be, as a function of the results of its checks: down when the
  last \<open>th\<close> or more checks failed, else up if any check succeeded, else unknown.
\<close>

definition failing :: "bool list \<Rightarrow> nat" where
  "failing h = length (takeWhile Not (rev h))"

definition spec_state :: "nat \<Rightarrow> bool list \<Rightarrow> bool option" where
  "spec_state th h = (if th \<le> failing h then Some False else if True \<in> set h then Some True else None)"

lemma failing_simps [simp]: "failing [] = 0" "failing (h @ [True]) = 0" "failing (h @ [False]) = Suc (failing h)"
  by (simp_all add: failing_def)

lemma next_state_spec:
  assumes "or_default (confirmation_threshold (r_monitor r)) 1 = th" and "0 < th"
    and "cached_is_up (r_monitor r) = spec_state th h"
    and "or_default (cached_consecutive_down (r_monitor r)) 0 = min (failing h) th"
  shows "next_state r =
    (spec_state th (h @ [r_is_up r]), min (failing (h @ [r_is_up r])) th,
     spec_state th (h @ [r_is_up r]) \<noteq> None \<and>
       (spec_state th (h @ [r_is_up r]) \<noteq> spec_state th h \<or> cached_last_change (r_monitor r) = None),
     spec_state th (h @ [r_is_up r]) \<noteq> spec_state th h)"
proof (cases "r_is_up r")
  case True
  with assms show ?thesis by (auto simp: next_state_def spec_state_def Let_def)
next
  case False
  have "th \<le> min (min (failing h) th + 1) th \<longleftrightarrow> th \<le> Suc (failing h)" by auto
  with False assms show ?thesis
    by (auto simp: next_state_def spec_state_def Let_def min_def)
qed

text \<open>A check of the monitor \<open>mid\<close>: row id, time, and the result for the monitor as it is stored.\<close>

record probe_outcome =
  po_id :: int
  po_now :: datetime
  po_up :: bool
  po_reason :: "check_reason option"

definition result_for :: "int \<Rightarrow> monitor \<Rightarrow> probe_outcome \<Rightarrow> check_result" where
  "result_for mid m o' =
     \<lparr>r_id = mid, r_monitor = m, r_is_up = po_up o', r_reason = po_reason o', r_response_time = None, r_data = None\<rparr>"

definition check_monitor :: "(datetime \<Rightarrow> bool) \<Rightarrow> int \<Rightarrow> probe_outcome \<Rightarrow> uptime_db \<Rightarrow> uptime_db" where
  "check_monitor has_partition mid o' d =
     (case map_of (monitors d) mid of
        None \<Rightarrow> d
      | Some m \<Rightarrow> save_monitor_checks has_partition [(po_id o', result_for mid m o')] (po_now o') d)"

text \<open>The stored monitor stands for the history \<open>h\<close> of its checks.\<close>

definition stands_for :: "nat \<Rightarrow> bool list \<Rightarrow> monitor \<Rightarrow> bool" where
  "stands_for th h m \<longleftrightarrow> or_default (confirmation_threshold m) 1 = th \<and> cached_is_up m = spec_state th h \<and>
     or_default (cached_consecutive_down m) 0 = min (failing h) th"

text \<open>The notices that the history asks for: one for each change of the state.\<close>

definition spec_notices :: "nat \<Rightarrow> int \<Rightarrow> bool list \<Rightarrow> bool list \<Rightarrow> (int \<times> bool) list" where
  "spec_notices th mid h hs =
     map (\<lambda>k. (mid, spec_state th (h @ take (Suc k) hs) = Some False))
       (filter (\<lambda>k. spec_state th (h @ take (Suc k) hs) \<noteq> spec_state th (h @ take k hs)) [0..<length hs])"

lemma spec_notices_Cons:
  "spec_notices th mid h (b # hs) =
     (if spec_state th (h @ [b]) \<noteq> spec_state th h then [(mid, spec_state th (h @ [b]) = Some False)] else []) @
     spec_notices th mid (h @ [b]) hs"
proof -
  have "[0..<length (b # hs)] = 0 # map Suc [0..<length hs]" by (simp add: map_Suc_upt upt_conv_Cons del: upt_Suc)
  then show ?thesis by (simp add: spec_notices_def filter_map comp_def del: upt_Suc)
qed

text \<open>
  The positions of the checks that establish a change: the state is known there and differs from the one before,
  or no change has been recorded and it was unknown at every check before. \<open>c\<close> is the recorded change.
\<close>

definition spec_changes :: "nat \<Rightarrow> bool list \<Rightarrow> datetime option \<Rightarrow> bool list \<Rightarrow> nat list" where
  "spec_changes th h c hs =
     filter (\<lambda>k. spec_state th (h @ take (Suc k) hs) \<noteq> None \<and>
                 (spec_state th (h @ take (Suc k) hs) \<noteq> spec_state th (h @ take k hs) \<or>
                  c = None \<and> (\<forall>j<k. spec_state th (h @ take (Suc j) hs) = None))) [0..<length hs]"

definition spec_last_change :: "nat \<Rightarrow> bool list \<Rightarrow> datetime option \<Rightarrow> probe_outcome list \<Rightarrow> datetime option" where
  "spec_last_change th h c os =
     (case rev (spec_changes th h c (map po_up os)) of [] \<Rightarrow> c | k # _ \<Rightarrow> Some (po_now (os ! k)))"

lemma spec_changes_Cons:
  "spec_changes th h c (b # hs) =
     (let ch = spec_state th (h @ [b]) \<noteq> None \<and> (spec_state th (h @ [b]) \<noteq> spec_state th h \<or> c = None) in
      (if ch then [0] else []) @ map Suc (spec_changes th (h @ [b]) (if ch then Some t else c) hs))"
proof -
  have upt: "[0..<length (b # hs)] = 0 # map Suc [0..<length hs]" by (simp add: map_Suc_upt upt_conv_Cons del: upt_Suc)
  have all: "(\<forall>j<Suc k. spec_state th (h @ b # take j hs) = None) \<longleftrightarrow>
      spec_state th (h @ [b]) = None \<and> (\<forall>j<k. spec_state th (h @ b # take (Suc j) hs) = None)" for k
    by (simp add: All_less_Suc2)
  show ?thesis
    unfolding spec_changes_def upt Let_def
    by (auto simp: filter_map comp_def all simp del: upt_Suc intro!: filter_cong)
qed

text \<open>A row of the table of checks for each outcome, marked at the changes.\<close>

definition spec_checks :: "int \<Rightarrow> int \<Rightarrow> nat list \<Rightarrow> probe_outcome list \<Rightarrow> monitor_check list" where
  "spec_checks mid org changes os =
     map (\<lambda>(k, o'). \<lparr>ck_id = po_id o', ck_monitor = mid, ck_org = org, ck_is_up = po_up o', ck_is_change = (k \<in> set changes),
        ck_start = po_now o', ck_reason = po_reason o', ck_response_time = None, ck_data = None\<rparr>) (enumerate 0 os)"

lemma spec_last_change_Cons:
  "spec_last_change th h c (o' # os) =
     (let ch = spec_state th (h @ [po_up o']) \<noteq> None \<and> (spec_state th (h @ [po_up o']) \<noteq> spec_state th h \<or> c = None) in
      spec_last_change th (h @ [po_up o']) (if ch then Some (po_now o') else c) os)"
  unfolding spec_last_change_def Let_def
  by (simp add: spec_changes_Cons [where t = "po_now o'"] Let_def rev_map split: list.split)

lemma spec_checks_Cons:
  "spec_checks mid org (spec_changes th h c (po_up o' # map po_up os)) (o' # os) =
     (let ch = spec_state th (h @ [po_up o']) \<noteq> None \<and> (spec_state th (h @ [po_up o']) \<noteq> spec_state th h \<or> c = None) in
      \<lparr>ck_id = po_id o', ck_monitor = mid, ck_org = org, ck_is_up = po_up o', ck_is_change = ch,
       ck_start = po_now o', ck_reason = po_reason o', ck_response_time = None, ck_data = None\<rparr> #
      spec_checks mid org (spec_changes th (h @ [po_up o']) (if ch then Some (po_now o') else c) (map po_up os)) os)"
proof -
  have e: "enumerate 0 (o' # os) = (0, o') # map (apfst Suc) (enumerate 0 os)"
    by (simp add: enumerate_Suc_eq)
  show ?thesis
    unfolding spec_checks_def e Let_def list.map spec_changes_Cons [where t = "po_now o'"]
    by (auto simp: image_iff)
qed

lemma or_default_Some: "or_default (Some n) 0 = n"
  by (simp add: or_default_def)

lemma check_monitor_step:
  fixes has_partition o' d
  assumes m: "map_of (monitors d) mid = Some m" and s: "stands_for th h m" and th: "0 < th"
  defines "d' \<equiv> check_monitor has_partition mid o' d"
    and "ch \<equiv> spec_state th (h @ [po_up o']) \<noteq> None \<and> (spec_state th (h @ [po_up o']) \<noteq> spec_state th h \<or> cached_last_change m = None)"
  shows "monitors d' = dset (monitors d) mid (m\<lparr>cached_is_up := spec_state th (h @ [po_up o']),
       cached_last_change := (if ch then Some (po_now o') else cached_last_change m),
       cached_consecutive_down := Some (min (failing (h @ [po_up o'])) th)\<rparr>)"
    and "checks d' = checks d @ [\<lparr>ck_id = po_id o', ck_monitor = mid, ck_org = m_org m, ck_is_up = po_up o', ck_is_change = ch,
       ck_start = po_now o', ck_reason = po_reason o', ck_response_time = None, ck_data = None\<rparr>]"
    and "map (\<lambda>n. (n_monitor n, n_went_down n)) (notices d') = map (\<lambda>n. (n_monitor n, n_went_down n)) (notices d) @
      (if spec_state th (h @ [po_up o']) \<noteq> spec_state th h then [(mid, spec_state th (h @ [po_up o']) = Some False)] else [])"
proof -
  let ?r = "result_for mid m o'"
  have r: "r_monitor ?r = m" "r_id ?r = mid" "r_is_up ?r = po_up o'" by (simp_all add: result_for_def)
  have ns: "next_state ?r =
    (spec_state th (h @ [po_up o']), min (failing (h @ [po_up o'])) th, ch, spec_state th (h @ [po_up o']) \<noteq> spec_state th h)"
    using next_state_spec [of ?r th h] s th unfolding r stands_for_def ch_def by blast
  have wd: "spec_state th (h @ [po_up o']) \<noteq> Some True \<longleftrightarrow> spec_state th (h @ [po_up o']) = Some False"
    if "spec_state th (h @ [po_up o']) \<noteq> spec_state th h"
    using that th by (cases "po_up o'") (auto simp: spec_state_def split: if_splits)
  have d': "d' = save_monitor_checks has_partition [(po_id o', ?r)] (po_now o') d" by (simp add: d'_def check_monitor_def m)
  show "monitors d' = dset (monitors d) mid (m\<lparr>cached_is_up := spec_state th (h @ [po_up o']),
       cached_last_change := (if ch then Some (po_now o') else cached_last_change m),
       cached_consecutive_down := Some (min (failing (h @ [po_up o'])) th)\<rparr>)"
    by (simp add: d' save_monitor_checks_def update_cached_def ns r m)
  show "checks d' = checks d @ [\<lparr>ck_id = po_id o', ck_monitor = mid, ck_org = m_org m, ck_is_up = po_up o', ck_is_change = ch,
       ck_start = po_now o', ck_reason = po_reason o', ck_response_time = None, ck_data = None\<rparr>]"
    by (simp add: d' save_monitor_checks_def check_of_def ns) (simp add: result_for_def)
  show "map (\<lambda>n. (n_monitor n, n_went_down n)) (notices d') = map (\<lambda>n. (n_monitor n, n_went_down n)) (notices d) @
      (if spec_state th (h @ [po_up o']) \<noteq> spec_state th h then [(mid, spec_state th (h @ [po_up o']) = Some False)] else [])"
    using wd by (auto simp: d' save_monitor_checks_def notice_of_def ns r)
qed

section \<open>Properties\<close>

text \<open>
  Property C17. The cached columns of a monitor implement its history. Through any sequence of checks
  of a monitor that stands for a history of results, the stored state is the one the history asks
  for (down exactly when the last confirmation-threshold checks all failed, up as soon as a check
  succeeds), the stored counter is the number of failures in a row, capped at the threshold, and the
  stored time of the last change is the time of the last check that changed the state, or of the first
  check with a known state when no change was recorded. Every check has its row, marked as a change
  exactly there; notifications are sent exactly at the checks where the state changes; the other
  columns and the other monitors stay as they are.
\<close>

theorem monitor_refines_history:
  assumes "map_of (monitors d) mid = Some m" and "stands_for th h m" and "0 < th"
  shows "(\<exists>cd. map_of (monitors (fold (check_monitor has_partition mid) os d)) mid =
        Some (m\<lparr>cached_is_up := spec_state th (h @ map po_up os),
                cached_last_change := spec_last_change th h (cached_last_change m) os,
                cached_consecutive_down := cd\<rparr>) \<and>
      or_default cd 0 = min (failing (h @ map po_up os)) th) \<and>
    checks (fold (check_monitor has_partition mid) os d) =
      checks d @ spec_checks mid (m_org m) (spec_changes th h (cached_last_change m) (map po_up os)) os \<and>
    map (\<lambda>n. (n_monitor n, n_went_down n)) (notices (fold (check_monitor has_partition mid) os d)) =
      map (\<lambda>n. (n_monitor n, n_went_down n)) (notices d) @ spec_notices th mid h (map po_up os) \<and>
    (\<forall>k. k \<noteq> mid \<longrightarrow> map_of (monitors (fold (check_monitor has_partition mid) os d)) k = map_of (monitors d) k)"
  using assms
proof (induction os arbitrary: d m h)
  case Nil
  then have "m\<lparr>cached_is_up := spec_state th h, cached_last_change := cached_last_change m,
      cached_consecutive_down := cached_consecutive_down m\<rparr> = m" by (simp add: stands_for_def)
  with Nil show ?case
    by (auto simp: spec_notices_def spec_changes_def spec_last_change_def spec_checks_def stands_for_def
        intro!: exI [of _ "cached_consecutive_down m"])
next
  case (Cons o' os)
  note step = check_monitor_step [OF Cons.prems, of has_partition o']
  let ?d = "check_monitor has_partition mid o' d" and ?s = "spec_state th (h @ [po_up o'])"
  let ?ch = "?s \<noteq> None \<and> (?s \<noteq> spec_state th h \<or> cached_last_change m = None)"
  let ?m = "m\<lparr>cached_is_up := ?s, cached_last_change := (if ?ch then Some (po_now o') else cached_last_change m),
       cached_consecutive_down := Some (min (failing (h @ [po_up o'])) th)\<rparr>"
  have m: "map_of (monitors ?d) mid = Some ?m" and others: "k \<noteq> mid \<Longrightarrow> map_of (monitors ?d) k = map_of (monitors d) k" for k
    unfolding step(1) by simp_all
  have "stands_for th (h @ [po_up o']) ?m" using Cons.prems(2) by (simp add: stands_for_def or_default_Some)
  note IH = Cons.IH [OF m this Cons.prems(3)]
  show ?case
    using IH others by (simp add: step(2,3) spec_notices_Cons spec_last_change_Cons spec_checks_Cons Let_def)
qed

text \<open>
  Further property. Batching does not matter: however the results of a run come in and whenever the
  buffer is flushed, the run stores what saving all results at once would store, namely every
  result that came in except heartbeats that are up, each once and in order.
\<close>

theorem batching_is_transparent:
  "checks (run_checks has_partition rounds now d) =
     checks d @ map (\<lambda>(uid, r). check_of now uid r) (concat (map (\<lambda>x. kept (fst x)) rounds)) \<and>
   same_effect (run_checks has_partition rounds now d)
     (save_monitor_checks has_partition (concat (map (\<lambda>x. kept (fst x)) rounds)) now d)"
  using run_loop_effect [OF same_effect_refl, of has_partition now rounds "[]" d]
  by (simp add: run_checks_def same_effect_def save_monitor_checks_def)

lemma unique_multiple:
  assumes "0 < (n::int)"
  shows "length (filter (\<lambda>k. (c + int k) mod n = 0) [0..<nat n]) = 1"
proof -
  define j where "j = nat ((- c) mod n)"
  have j: "j < nat n" "int j = (- c) mod n" using assms by (simp_all add: j_def nat_less_iff)
  have "(c + int k) mod n = 0 \<longleftrightarrow> k = j" if "k < nat n" for k
  proof
    assume "(c + int k) mod n = 0"
    then have "int k mod n = (- c) mod n" by (metis add.commute diff_0_right minus_add_cancel mod_diff_right_eq uminus_add_conv_diff)
    moreover have "int k mod n = int k" using that assms by (simp add: nat_less_iff zless_nat_eq_int_zless)
    ultimately show "k = j" using j(2) by linarith
  next
    assume "k = j"
    then have "(c + int k) mod n = (c + (- c) mod n) mod n" using j(2) by simp
    also have "\<dots> = 0" by (simp add: mod_add_right_eq)
    finally show "(c + int k) mod n = 0" .
  qed
  then have "filter (\<lambda>k. (c + int k) mod n = 0) [0..<nat n] = filter (\<lambda>k. k = j) [0..<nat n]"
    by (intro filter_cong) auto
  moreover have "length (filter (\<lambda>k. k = j) [0..<m]) = (if j < m then 1 else 0)" for m
    by (induction m) auto
  ultimately show ?thesis using j(1) by simp
qed


text \<open>The ids handed out by \<open>n\<close> runs of \<open>dispatch_checks\<close> in a row.\<close>

fun dispatch_runs :: "(int \<Rightarrow> int) \<Rightarrow> (int, monitor) dict \<Rightarrow> nat \<Rightarrow> int option \<Rightarrow> int list list" where
  "dispatch_runs throttle_rate ms 0 c = []"
| "dispatch_runs throttle_rate ms (Suc n) c =
     (let (ids, c') = dispatch_checks throttle_rate ms c in ids # dispatch_runs throttle_rate ms n c')"

lemma dispatch_runs_ticks:
  assumes "c + int n < UPTIME_TICK_EXPIRE"
  shows "dispatch_runs throttle_rate ms n (Some c) =
    map (\<lambda>k. map fst (filter (is_due throttle_rate (c + 1 + int k)) ms)) [0..<n]"
  using assms
proof (induction n arbitrary: c)
  case (Suc n)
  have "[0..<Suc n] = 0 # map Suc [0..<n]" by (simp add: map_Suc_upt upt_conv_Cons del: upt_Suc)
  with Suc show ?case
    by (simp add: dispatch_checks_def next_tick_def Let_def comp_def algebra_simps del: upt_Suc)
qed simp

text \<open>
  Further property. Every monitor is checked once per interval: of as many dispatcher runs in a row as the
  interval of a monitor has ticks, exactly one hands out the monitor, if its organization is not
  fully throttled and it has a URL or is a heartbeat, and the tick counter does not wrap meanwhile.
\<close>

theorem dispatched_once_per_interval:
  assumes "dict_ok ms" and "map_of ms mid = Some m" and "0 < m_interval m" and "throttle_rate (m_org m) < 100"
    and "m_url m \<noteq> [] \<or> m_type m = HEARTBEAT" and "c + m_interval m < UPTIME_TICK_EXPIRE"
  shows "length (filter (\<lambda>ids. mid \<in> set ids) (dispatch_runs throttle_rate ms (nat (m_interval m)) (Some c))) = 1"
proof -
  have due: "mid \<in> set (map fst (filter (is_due throttle_rate t) ms)) \<longleftrightarrow> (t + mid) mod m_interval m = 0" for t
  proof -
    have "(mid, m') \<in> set ms \<longleftrightarrow> m' = m" for m'
      using assms(1,2) by (metis map_of_SomeD map_of_is_SomeI option.inject)
    then have "mid \<in> set (map fst (filter (is_due throttle_rate t) ms)) \<longleftrightarrow> is_due throttle_rate t (mid, m)" by force
    then show ?thesis using assms(4,5) by (auto simp: is_due_def)
  qed
  have "dispatch_runs throttle_rate ms (nat (m_interval m)) (Some c) =
      map (\<lambda>k. map fst (filter (is_due throttle_rate (c + 1 + int k)) ms)) [0..<nat (m_interval m)]"
    using assms(3,6) by (intro dispatch_runs_ticks) simp
  then have "length (filter (\<lambda>ids. mid \<in> set ids) (dispatch_runs throttle_rate ms (nat (m_interval m)) (Some c))) =
      length (filter (\<lambda>k. (c + 1 + int k + mid) mod m_interval m = 0) [0..<nat (m_interval m)])"
    by (simp only: filter_map comp_def due length_map)
  also have "\<dots> = 1"
    using unique_multiple [OF assms(3), of "c + 1 + mid"] by (simp add: algebra_simps)
  finally show ?thesis .
qed

text \<open>
  Further property. The outcome of a check and its reason agree: a check that is up has no reason and was
  not stopped by the address guard; a check that is down has a reason, unless it is of a heartbeat
  or of the type SSL; only a changed state stores the body of a response, cut to its limit.
\<close>

theorem fetch_outcome_has_reason:
  "let r = fetch ms safe probe elapsed now cs mid m in
   r_id r = mid \<and> r_monitor r = m \<and>
   (r_is_up r \<longrightarrow> r_reason r = None \<and> (m_type m = HEARTBEAT \<or> safe (m_url m)) \<and> m_type m \<noteq> SSL) \<and>
   (\<not> r_is_up r \<and> m_type m \<noteq> HEARTBEAT \<and> m_type m \<noteq> SSL \<longrightarrow> r_reason r \<noteq> None) \<and>
   (\<forall>b. r_data r = Some b \<longrightarrow> cached_is_up m \<noteq> Some False \<and> length b \<le> 500000)"
proof (cases "m_type m = HEARTBEAT \<or> \<not> safe (m_url m)")
  case True
  then show ?thesis by (auto simp: fetch_def Let_def)
next
  case False
  then show ?thesis
    by (cases "probe m"; cases "m_type m")
       (auto simp: fetch_def Let_def process_response_def PAYLOAD_SAVE_LIMIT_def split: if_splits)
qed

section \<open>Witnesses\<close>

definition w_monitor :: monitor where
  "w_monitor = \<lparr>m_org = 3, m_type = GET, m_interval = 5, m_timeout = None, expected_status = Some 200,
     confirmation_threshold = Some 2, m_url = ''https://example.com'', expected_body = [], cached_is_up = None,
     cached_last_change = None, cached_consecutive_down = Some 0\<rparr>"

definition w_uptime :: uptime_db where
  "w_uptime = \<lparr>monitors = [(7, w_monitor)], checks = [], check_stats = [], notices = []\<rparr>"

definition w_outcomes :: "probe_outcome list" where
  "w_outcomes = map (\<lambda>(i, b). \<lparr>po_id = i, po_now = i, po_up = b, po_reason = None\<rparr>)
     [(1, True), (2, False), (3, False), (4, False), (5, True)]"

theorem monitor_refines_history_witness:
  "map (\<lambda>n. (n_monitor n, n_went_down n)) (notices (fold (check_monitor (\<lambda>_. True) 7) w_outcomes w_uptime)) =
     [(7, False), (7, True), (7, False)]"
proof -
  have "stands_for 2 [] w_monitor" by (simp add: stands_for_def w_monitor_def or_default_def spec_state_def)
  moreover have "map_of (monitors w_uptime) 7 = Some w_monitor" by (simp add: w_uptime_def)
  moreover have "spec_notices 2 7 [] (map po_up w_outcomes) = [(7, False), (7, True), (7, False)]" by code_simp
  moreover have "notices w_uptime = []" by (simp add: w_uptime_def)
  ultimately show ?thesis
    using monitor_refines_history [of w_uptime 7 w_monitor 2 "[]" "\<lambda>_. True" w_outcomes] by auto
qed

theorem dispatched_once_per_interval_witness:
  "length (filter (\<lambda>ids. 7 \<in> set ids) (dispatch_runs (\<lambda>_. 0) [(7, w_monitor)] 5 (Some 40))) = 1"
  using dispatched_once_per_interval [of "[(7, w_monitor)]" 7 w_monitor "\<lambda>_. 0" 40]
  by (simp add: w_monitor_def UPTIME_TICK_EXPIRE_def)

theorem fetch_outcome_has_reason_witness:
  "r_reason (fetch (\<lambda>t. t) (\<lambda>_. True) (\<lambda>_. Response \<lparr>http_status = 500, payload = []\<rparr>) 1 0 [] 7 w_monitor) \<noteq> None"
  using fetch_outcome_has_reason [of "\<lambda>t. t" "\<lambda>_. True" "\<lambda>_. Response \<lparr>http_status = 500, payload = []\<rparr>" 1 0 "[]" 7 w_monitor]
  by (simp add: Let_def fetch_def process_response_def w_monitor_def)

text \<open>A monitor of the type SSL is never up and gets no reason.\<close>

lemma ssl_monitor_never_up:
  "m_type m = SSL \<Longrightarrow> probe m = Response resp \<Longrightarrow> safe (m_url m) \<Longrightarrow>
   \<not> r_is_up (fetch ms safe probe elapsed now cs mid m) \<and> r_reason (fetch ms safe probe elapsed now cs mid m) = None"
  by (simp add: fetch_def Let_def)

text \<open>The tick counter is not monotonic: after the largest tick it starts again at 1.\<close>

lemma tick_restarts: "next_tick (Some (UPTIME_TICK_EXPIRE - 1)) = (UPTIME_TICK_EXPIRE, Some 0)"
  by (simp add: next_tick_def Let_def)

text \<open>A heartbeat stores the state that saving an up result would store.\<close>

lemma heartbeat_like_up_result:
  assumes "map_of (monitors d) i = Some m"
    and "heartbeat_check has_partition (Some i) uid now d = Some (c, d')"
  shows "map_of (monitors d') = map_of (monitors (check_monitor has_partition i \<lparr>po_id = uid, po_now = now, po_up = True, po_reason = None\<rparr> d)) \<and>
    checks d' = checks (check_monitor has_partition i \<lparr>po_id = uid, po_now = now, po_up = True, po_reason = None\<rparr> d)"
  using assms
  by (auto simp: heartbeat_check_def check_monitor_def save_monitor_checks_def update_cached_def check_of_def next_state_def
      result_for_def Let_def)

end
