(* ===== verification/Alerts.thy ===== *)
theory Alerts
  imports Partitions
begin

text \<open>
  Alerts on issues: \<open>process_event_alerts\<close> and \<open>process_alert\<close> of \<open>apps/alerts/tasks.py\<close>.

  The database is a record of tables; \<open>seen\<close> is the set of issue ids that the ingest keeps in the
  cache (\<open>None\<close> without Valkey). Sending is a queue of notification ids.
\<close>

section \<open>Data\<close>

record project_alert =
  al_id :: int
  al_project :: int
  al_org :: int
  al_quantity :: "nat option"
  al_timespan :: "int option"

record alert_event =
  ae_issue :: int
  ae_org :: int
  ae_uuid :: int

record alert_db =
  project_alerts :: "project_alert list"
  issue_projects :: "(int, int) dict"
  alert_events :: "alert_event list"
  next_notification :: int
  notification_alerts :: "(int, int) dict"
  notified_issues :: "(int \<times> int) list"
  seen :: "int list option"
  send_queue :: "int list"

section \<open>Operations\<close>

text \<open>Whether a notification of the alert already names the issue.\<close>

definition notified :: "alert_db \<Rightarrow> int \<Rightarrow> int \<Rightarrow> bool" where
  "notified d aid i \<longleftrightarrow> list_ex (\<lambda>(n, i'). i' = i \<and> map_of (notification_alerts d) n = Some aid) (notified_issues d)"

definition num_events :: "(datetime \<Rightarrow> int) \<Rightarrow> datetime \<Rightarrow> project_alert \<Rightarrow> alert_db \<Rightarrow> int \<Rightarrow> nat" where
  "num_events ms now a d i =
     (let start_time = now - the (al_timespan a) * 60000000;
          start_uuid = uuid7_for_timestamp ms True start_time
      in length (filter (\<lambda>e. ae_issue e = i \<and> start_uuid \<le> ae_uuid e \<and> ae_org e = al_org a) (alert_events d)))"

text \<open>The query of one alert: an issue appears only if it has an event in the window.\<close>

definition due_issues :: "(datetime \<Rightarrow> int) \<Rightarrow> datetime \<Rightarrow> int list option \<Rightarrow> project_alert \<Rightarrow> alert_db \<Rightarrow> int list" where
  "due_issues ms now ids a d =
     filter (\<lambda>i. map_of (issue_projects d) i = Some (al_project a) \<and> 0 < num_events ms now a d i \<and>
                 \<not> notified d (al_id a) i \<and> the (al_quantity a) \<le> num_events ms now a d i \<and>
                 (case ids of None \<Rightarrow> True | Some l \<Rightarrow> i \<in> set l))
       (map fst (issue_projects d))"

text \<open>A new notification with its issues, and its task.\<close>

definition process_alert :: "int \<Rightarrow> int list \<Rightarrow> alert_db \<Rightarrow> alert_db" where
  "process_alert aid issue_ids d =
     (let n = next_notification d in
      d\<lparr>next_notification := n + 1, notification_alerts := dset (notification_alerts d) n aid,
        notified_issues := notified_issues d @ map (Pair n) (remdups issue_ids), send_queue := send_queue d @ [n]\<rparr>)"

definition alert_step :: "(datetime \<Rightarrow> int) \<Rightarrow> datetime \<Rightarrow> int list option \<Rightarrow> project_alert \<Rightarrow> alert_db \<Rightarrow> alert_db" where
  "alert_step ms now ids a d =
     (let l = due_issues ms now ids a d in if l \<noteq> [] then process_alert (al_id a) l d else d)"

definition selected :: "int list option \<Rightarrow> alert_db \<Rightarrow> project_alert \<Rightarrow> bool" where
  "selected ids d a \<longleftrightarrow> al_quantity a \<noteq> None \<and> al_timespan a \<noteq> None \<and>
     (case ids of None \<Rightarrow> True
      | Some l \<Rightarrow> list_ex (\<lambda>(i, p). p = al_project a \<and> i \<in> set l) (issue_projects d))"

definition process_event_alerts :: "(datetime \<Rightarrow> int) \<Rightarrow> datetime \<Rightarrow> alert_db \<Rightarrow> alert_db" where
  "process_event_alerts ms now d =
     (let ids = seen d;
          d1 = (case ids of None \<Rightarrow> d | Some _ \<Rightarrow> d\<lparr>seen := Some []\<rparr>) in
      if ids = Some [] then d1
      else fold (alert_step ms now ids) (filter (selected ids d) (project_alerts d)) d1)"

section \<open>Lemmas\<close>

text \<open>Ids of notifications are below the sequence, and no alert names an issue in two notifications.\<close>

definition alerts_ok :: "alert_db \<Rightarrow> bool" where
  "alerts_ok d \<longleftrightarrow> dict_ok (issue_projects d) \<and> distinct (notified_issues d) \<and>
     (\<forall>n a. map_of (notification_alerts d) n = Some a \<longrightarrow> n < next_notification d) \<and>
     (\<forall>n i. (n, i) \<in> set (notified_issues d) \<longrightarrow> n < next_notification d) \<and>
     (\<forall>n n' i a. (n, i) \<in> set (notified_issues d) \<and> (n', i) \<in> set (notified_issues d) \<and>
        map_of (notification_alerts d) n = Some a \<and> map_of (notification_alerts d) n' = Some a \<longrightarrow> n = n')"

lemma notified_iff: "notified d aid i \<longleftrightarrow> (\<exists>n. (n, i) \<in> set (notified_issues d) \<and> map_of (notification_alerts d) n = Some aid)"
  by (auto simp: notified_def list_ex_iff)

lemma process_alert_notified:
  assumes "alerts_ok d"
  shows "notified (process_alert aid l d) a i \<longleftrightarrow> notified d a i \<or> (a = aid \<and> i \<in> set l)"
proof -
  have "(n, j) \<in> set (notified_issues d) \<Longrightarrow> n \<noteq> next_notification d" for n j
    using assms unfolding alerts_ok_def by blast
  then show ?thesis by (auto simp: notified_iff process_alert_def Let_def)
qed

lemma process_alert_ok:
  assumes ok: "alerts_ok d" and new: "\<forall>i\<in>set l. \<not> notified d aid i"
  shows "alerts_ok (process_alert aid l d)"
proof -
  let ?n = "next_notification d"
  have lt: "(n, i) \<in> set (notified_issues d) \<Longrightarrow> n < ?n" "map_of (notification_alerts d) n = Some a \<Longrightarrow> n < ?n" for n i a
    using ok unfolding alerts_ok_def by blast+
  have uniq: "n = n'" if "(n, i) \<in> set (notified_issues d)" "(n', i) \<in> set (notified_issues d)"
      "map_of (notification_alerts d) n = Some a" "map_of (notification_alerts d) n' = Some a" for n n' i a
    using ok that unfolding alerts_ok_def by blast
  have old: "i \<notin> set l" if "(n, i) \<in> set (notified_issues d)" "map_of (notification_alerts d) n = Some aid" for n i
    using new that by (auto simp: notified_iff)
  have dist: "distinct (notified_issues d @ map (Pair ?n) (remdups l))"
  proof -
    have "distinct (map (Pair ?n) (remdups l))" by (simp add: distinct_map inj_on_def)
    moreover have "set (notified_issues d) \<inter> set (map (Pair ?n) (remdups l)) = {}" using lt(1) by fastforce
    moreover have "distinct (notified_issues d)" using ok by (simp add: alerts_ok_def)
    ultimately show ?thesis by simp
  qed
  have ni: "notified_issues (process_alert aid l d) = notified_issues d @ map (Pair ?n) (remdups l)"
    and na: "map_of (notification_alerts (process_alert aid l d)) = (map_of (notification_alerts d))(?n \<mapsto> aid)"
    and rest: "next_notification (process_alert aid l d) = ?n + 1" "issue_projects (process_alert aid l d) = issue_projects d"
    by (simp_all add: process_alert_def Let_def)
  show ?thesis
    unfolding alerts_ok_def ni na rest
  proof (intro conjI allI impI)
    fix n n' i a
    assume "(n, i) \<in> set (notified_issues d @ map (Pair ?n) (remdups l)) \<and>
      (n', i) \<in> set (notified_issues d @ map (Pair ?n) (remdups l)) \<and>
      ((map_of (notification_alerts d))(?n \<mapsto> aid)) n = Some a \<and> ((map_of (notification_alerts d))(?n \<mapsto> aid)) n' = Some a"
    then show "n = n'"
      using uniq [of n i n' a] old [of n i] old [of n' i] lt(1) [of n i] lt(1) [of n' i] by (auto split: if_splits)
  next
    fix n a assume "((map_of (notification_alerts d))(?n \<mapsto> aid)) n = Some a"
    then show "n < ?n + 1" using lt(2) [of n a] by (auto split: if_splits)
  next
    fix n i assume "(n, i) \<in> set (notified_issues d @ map (Pair ?n) (remdups l))"
    then show "n < ?n + 1" using lt(1) [of n i] by auto
  qed (use ok dist in \<open>simp_all add: alerts_ok_def\<close>)
qed

lemma process_alert_frame [simp]:
  "issue_projects (process_alert aid l d) = issue_projects d" "alert_events (process_alert aid l d) = alert_events d"
  "project_alerts (process_alert aid l d) = project_alerts d" "seen (process_alert aid l d) = seen d"
  by (simp_all add: process_alert_def Let_def)

lemma alert_step_frame [simp]:
  "issue_projects (alert_step ms now ids a d) = issue_projects d" "alert_events (alert_step ms now ids a d) = alert_events d"
  "project_alerts (alert_step ms now ids a d) = project_alerts d" "seen (alert_step ms now ids a d) = seen d"
  by (simp_all add: alert_step_def Let_def)

text \<open>An issue that an alert is to notify, apart from what has been notified already.\<close>

definition qualifies :: "(datetime \<Rightarrow> int) \<Rightarrow> datetime \<Rightarrow> int list option \<Rightarrow> alert_db \<Rightarrow> project_alert \<Rightarrow> int \<Rightarrow> bool" where
  "qualifies ms now ids d a i \<longleftrightarrow>
     map_of (issue_projects d) i = Some (al_project a) \<and> max 1 (the (al_quantity a)) \<le> num_events ms now a d i \<and>
     (case ids of None \<Rightarrow> True | Some l \<Rightarrow> i \<in> set l)"

lemma due_issues_iff: "i \<in> set (due_issues ms now ids a d) \<longleftrightarrow> qualifies ms now ids d a i \<and> \<not> notified d (al_id a) i"
  by (auto simp: due_issues_def qualifies_def dest: map_of_SomeD intro: rev_image_eqI)

lemma alert_step_ok:
  assumes "alerts_ok d"
  shows "alerts_ok (alert_step ms now ids a d) \<and>
    (notified (alert_step ms now ids a d) b i \<longleftrightarrow> notified d b i \<or> b = al_id a \<and> qualifies ms now ids d a i)"
proof (cases "due_issues ms now ids a d = []")
  case True
  then have "\<not> (qualifies ms now ids d a i \<and> \<not> notified d (al_id a) i)" by (metis due_issues_iff empty_iff empty_set)
  with True assms show ?thesis by (auto simp: alert_step_def Let_def)
next
  case False
  then have "alert_step ms now ids a d = process_alert (al_id a) (due_issues ms now ids a d) d"
    by (simp add: alert_step_def Let_def)
  with process_alert_ok [OF assms, of "due_issues ms now ids a d" "al_id a"] process_alert_notified [OF assms]
  show ?thesis by (auto simp: due_issues_iff)
qed

lemma alert_fold:
  assumes "alerts_ok d"
  shows "alerts_ok (fold (alert_step ms now ids) as d) \<and>
    issue_projects (fold (alert_step ms now ids) as d) = issue_projects d \<and>
    alert_events (fold (alert_step ms now ids) as d) = alert_events d \<and>
    project_alerts (fold (alert_step ms now ids) as d) = project_alerts d \<and>
    seen (fold (alert_step ms now ids) as d) = seen d \<and>
    (notified (fold (alert_step ms now ids) as d) b i \<longleftrightarrow> notified d b i \<or> (\<exists>a\<in>set as. b = al_id a \<and> qualifies ms now ids d a i))"
  using assms
proof (induction as arbitrary: d)
  case (Cons a as)
  note st = alert_step_ok [OF Cons.prems, of ms now ids a]
  have q: "qualifies ms now ids (alert_step ms now ids a d) a' j = qualifies ms now ids d a' j" for a' j
    by (simp add: qualifies_def num_events_def)
  from Cons.IH [OF st [THEN conjunct1]] st show ?case by (auto simp: q)
qed simp

lemma selected_qualifies:
  assumes "alerts_ok d" and "al_quantity a \<noteq> None" and "al_timespan a \<noteq> None" and "qualifies ms now ids d a i"
  shows "selected ids d a"
  using assms by (cases ids) (auto simp: selected_def qualifies_def list_ex_iff dest: map_of_SomeD)

section \<open>Properties\<close>

text \<open>
  Property C30. Alerting is exact and not repeated: after a run an alert has notified an issue exactly
  if it had before, or the issue is among those seen since the last run, belongs to the project of
  the alert, and has at least the quantity of events (and at least one) in the time span; no alert
  ever names an issue in two notifications, and a second run with no new events sends nothing.
\<close>

theorem alerts_exact_and_once:
  assumes "alerts_ok d" and "seen d \<noteq> Some []"
  shows "let d' = process_event_alerts ms now d in
    alerts_ok d' \<and>
    (notified d' b i \<longleftrightarrow> notified d b i \<or>
       (\<exists>a\<in>set (project_alerts d). b = al_id a \<and> al_quantity a \<noteq> None \<and> al_timespan a \<noteq> None \<and>
          map_of (issue_projects d) i = Some (al_project a) \<and> max 1 (the (al_quantity a)) \<le> num_events ms now a d i \<and>
          (\<forall>l. seen d = Some l \<longrightarrow> i \<in> set l))) \<and>
    send_queue (process_event_alerts ms now (d'\<lparr>seen := seen d\<rparr>)) = send_queue d'"
proof -
  define ids where "ids = seen d"
  define d1 where "d1 = (case ids of None \<Rightarrow> d | Some _ \<Rightarrow> d\<lparr>seen := Some []\<rparr>)"
  define as where "as = filter (selected ids d) (project_alerts d)"
  define d' where "d' = fold (alert_step ms now ids) as d1"
  have run: "process_event_alerts ms now d = d'"
    using assms(2) by (simp add: process_event_alerts_def d'_def d1_def ids_def as_def Let_def)
  have d1: "notification_alerts d1 = notification_alerts d" "notified_issues d1 = notified_issues d"
    "next_notification d1 = next_notification d" "issue_projects d1 = issue_projects d" "alert_events d1 = alert_events d"
    "project_alerts d1 = project_alerts d"
    by (simp_all add: d1_def split: option.split)
  have ok1: "alerts_ok d1" using assms(1) by (simp add: alerts_ok_def d1)
  have q1: "qualifies ms now ids d1 a j = qualifies ms now ids d a j" for a j
    by (simp add: qualifies_def d1 num_events_def)
  have n1: "notified d1 b j = notified d b j" for b j by (simp add: notified_def d1)
  note f = alert_fold [OF ok1, where ms = ms and now = now and ids = ids and as = as, folded d'_def]
  have main: "notified d' b i \<longleftrightarrow> notified d b i \<or>
      (\<exists>a\<in>set (project_alerts d). b = al_id a \<and> al_quantity a \<noteq> None \<and> al_timespan a \<noteq> None \<and> qualifies ms now ids d a i)" for b i
    using f n1 q1 selected_qualifies [OF assms(1)] by (auto simp: as_def selected_def)
  have quiet: "alert_step ms now ids a (d'\<lparr>seen := s\<rparr>) = d'\<lparr>seen := s\<rparr>" if a: "a \<in> set as" for a s
  proof -
    have "i \<notin> set (due_issues ms now ids a (d'\<lparr>seen := s\<rparr>))" for i
    proof -
      have "qualifies ms now ids (d'\<lparr>seen := s\<rparr>) a i = qualifies ms now ids d1 a i"
        using f by (simp add: qualifies_def num_events_def cong: option.case_cong)
      moreover have "notified (d'\<lparr>seen := s\<rparr>) (al_id a) i = notified d' (al_id a) i" by (simp add: notified_def)
      ultimately show ?thesis using f a by (auto simp: due_issues_iff)
    qed
    then have "due_issues ms now ids a (d'\<lparr>seen := s\<rparr>) = []" by (metis last_in_set)
    then show ?thesis by (simp add: alert_step_def)
  qed
  have still: "fold (alert_step ms now ids) xs (d'\<lparr>seen := s\<rparr>) = d'\<lparr>seen := s\<rparr>" if "set xs \<subseteq> set as" for xs s
    using that quiet by (induction xs) auto
  have sel: "filter (selected ids (d'\<lparr>seen := seen d\<rparr>)) (project_alerts d') = as"
  proof -
    have "selected ids (d'\<lparr>seen := seen d\<rparr>) a = selected ids d a" for a
      using f d1(4) by (cases ids) (simp_all add: selected_def)
    then have "selected ids (d'\<lparr>seen := seen d\<rparr>) = selected ids d" by blast
    moreover have "project_alerts d' = project_alerts d" using f d1(6) by metis
    ultimately show ?thesis by (simp only: as_def)
  qed
  have again: "send_queue (process_event_alerts ms now (d'\<lparr>seen := seen d\<rparr>)) = send_queue d'"
  proof (cases "seen d")
    case None
    with still [of as None] sel show ?thesis by (simp add: process_event_alerts_def ids_def)
  next
    case (Some l)
    with still [of as "Some []"] sel assms(2) show ?thesis by (simp add: process_event_alerts_def ids_def)
  qed
  have qual: "qualifies ms now ids d a i \<longleftrightarrow>
      map_of (issue_projects d) i = Some (al_project a) \<and> max 1 (the (al_quantity a)) \<le> num_events ms now a d i \<and>
      (\<forall>l. seen d = Some l \<longrightarrow> i \<in> set l)" for a i
    by (cases "seen d") (simp_all add: qualifies_def ids_def)
  have "alerts_ok d'" using f by blast
  with again show ?thesis unfolding run Let_def main qual by blast
qed

section \<open>Witness\<close>

definition w_alert_db :: alert_db where
  "w_alert_db = \<lparr>project_alerts = [\<lparr>al_id = 1, al_project = 7, al_org = 3, al_quantity = Some 2, al_timespan = Some 5\<rparr>],
     issue_projects = [(11, 7), (12, 7)],
     alert_events = [\<lparr>ae_issue = 11, ae_org = 3, ae_uuid = 2 ^ 100\<rparr>, \<lparr>ae_issue = 11, ae_org = 3, ae_uuid = 2 ^ 101\<rparr>,
                     \<lparr>ae_issue = 12, ae_org = 3, ae_uuid = 2 ^ 101\<rparr>],
     next_notification = 1, notification_alerts = [], notified_issues = [], seen = Some [11, 12], send_queue = []\<rparr>"

theorem alerts_exact_and_once_witness:
  "notified (process_event_alerts (\<lambda>t. t div 1000) 0 w_alert_db) 1 11 \<and>
   \<not> notified (process_event_alerts (\<lambda>t. t div 1000) 0 w_alert_db) 1 12"
proof -
  have ok: "alerts_ok w_alert_db" "seen w_alert_db \<noteq> Some []" by (simp_all add: alerts_ok_def w_alert_db_def)
  have n: "num_events (\<lambda>t. t div 1000) 0 \<lparr>al_id = 1, al_project = 7, al_org = 3, al_quantity = Some 2, al_timespan = Some 5\<rparr> w_alert_db 11 = 2"
    "num_events (\<lambda>t. t div 1000) 0 \<lparr>al_id = 1, al_project = 7, al_org = 3, al_quantity = Some 2, al_timespan = Some 5\<rparr> w_alert_db 12 = 1"
    by code_simp+
  have al: "project_alerts w_alert_db = [\<lparr>al_id = 1, al_project = 7, al_org = 3, al_quantity = Some 2, al_timespan = Some 5\<rparr>]"
    "issue_projects w_alert_db = [(11, 7), (12, 7)]" "seen w_alert_db = Some [11, 12]" "\<not> notified w_alert_db 1 j" for j
    by (simp_all add: w_alert_db_def notified_def)
  show ?thesis
    using alerts_exact_and_once [OF ok, of "\<lambda>t. t div 1000" 0 1 11] alerts_exact_and_once [OF ok, of "\<lambda>t. t div 1000" 0 1 12] n al
    by (simp add: Let_def)
qed

end
