(* ===== verification/Performance.thy ===== *)
theory Performance
  imports Py_Re Statistics Event_Utils Related_Models
begin

text \<open>
  Transactions: \<open>apps/performance/histogram.py\<close>, \<open>apps/performance/parameterize.py\<close> and the
  transaction half of \<open>apps/event_ingest/process_event.py\<close> (\<open>_fetch_transaction_groups\<close>,
  \<open>_update_transaction_group_stats\<close>, \<open>process_transaction_events\<close>).

  Durations and bucket boundaries are real numbers where the code has floats. The table of
  transaction groups maps the unique key to its row; ids of span rows are an argument.
\<close>

section \<open>Histograms\<close>

definition MIN_MS :: real where "MIN_MS = 1"
definition MAX_MS :: real where "MAX_MS = 60000"
definition NUM_BUCKETS :: nat where "NUM_BUCKETS = 50"

definition BUCKET_BOUNDARIES :: "real list" where
  "BUCKET_BOUNDARIES = map (\<lambda>i. MIN_MS * (MAX_MS / MIN_MS) powr (real i / real NUM_BUCKETS)) [0..<NUM_BUCKETS + 1]"

definition new_histogram :: "nat list" where
  "new_histogram = replicate NUM_BUCKETS 0"

text \<open>\<open>bisect.bisect_right\<close> on a sorted list.\<close>

definition bisect_right :: "real list \<Rightarrow> real \<Rightarrow> nat" where
  "bisect_right xs x = length (takeWhile (\<lambda>b. b \<le> x) xs)"

definition get_bucket_index :: "real \<Rightarrow> nat" where
  "get_bucket_index d =
     (if d \<le> MIN_MS then 0
      else if d \<ge> MAX_MS then NUM_BUCKETS - 1
      else nat (max 0 (min (int (bisect_right BUCKET_BOUNDARIES d) - 1) (int NUM_BUCKETS - 1))))"

definition merge_durations :: "nat list \<Rightarrow> real list \<Rightarrow> nat list" where
  "merge_durations h ds = fold (\<lambda>d h. h[get_bucket_index d := h ! get_bucket_index d + 1]) ds h"

text \<open>The loop over the buckets of a histogram of \<open>NUM_BUCKETS\<close> entries.\<close>

fun percentile_loop :: "int \<Rightarrow> nat \<Rightarrow> nat \<Rightarrow> nat list \<Rightarrow> real option" where
  "percentile_loop target cumulative i [] = None"
| "percentile_loop target cumulative i (c # cs) =
     (if c = 0 then percentile_loop target cumulative (Suc i) cs
      else if int (cumulative + c) \<ge> target
      then Some ((BUCKET_BOUNDARIES ! i + (if i + 1 \<le> NUM_BUCKETS then BUCKET_BOUNDARIES ! (i + 1) else MAX_MS)) / 2)
      else percentile_loop target (cumulative + c) (Suc i) cs)"

definition percentile_from_histogram :: "nat list \<Rightarrow> nat \<Rightarrow> real \<Rightarrow> real option" where
  "percentile_from_histogram h total_count pct =
     (if total_count = 0 \<or> h = [] then None
      else percentile_loop \<lceil>real total_count * pct / 100\<rceil> 0 0 (take NUM_BUCKETS h))"

section \<open>Descriptions of spans\<close>

definition MAX_DESCRIPTION_LENGTH :: nat where "MAX_DESCRIPTION_LENGTH = 500"

definition hexdigit :: "char \<Rightarrow> bool" where
  "hexdigit c \<longleftrightarrow> is_digit c \<or> c \<in> set ''abcdefABCDEF''"

definition STRING_LITERAL_RE :: rx where
  "STRING_LITERAL_RE =
     RSeq (RChar (CHR 0x27))
       (RSeq (RStar (RAlt (RCls (\<lambda>c. c \<noteq> CHR 0x27 \<and> c \<noteq> CHR 0x5C)) (RSeq (RChar (CHR 0x5C)) (RCls (\<lambda>c. c \<noteq> CHR 0x0A)))))
         (RChar (CHR 0x27)))"

definition NUMERIC_LITERAL_RE :: rx where
  "NUMERIC_LITERAL_RE =
     RSeq RWordB (RSeq (RPlus (RCls is_digit))
       (RSeq (ROpt (RSeq (RChar (CHR ''.'')) (RPlus (RCls is_digit)))) RWordB))"

definition IN_COLLAPSE_RE :: rx where
  "IN_COLLAPSE_RE =
     RSeq (RCls (\<lambda>c. c \<in> set ''Ii'')) (RSeq (RCls (\<lambda>c. c \<in> set ''Nn'')) (RSeq (RStar (RCls is_space)) (RSeq (RChar (CHR ''(''))
       (RSeq (RStar (RCls is_space)) (RSeq (RSeq (RChar (CHR ''%'')) (RCls (\<lambda>c. c \<in> set ''sS'')))
         (RSeq (RStar (RSeq (RStar (RCls is_space)) (RSeq (RChar (CHR '','')) (RSeq (RStar (RCls is_space))
           (RSeq (RChar (CHR ''%'')) (RCls (\<lambda>c. c \<in> set ''sS'')))))))
           (RSeq (RStar (RCls is_space)) (RChar (CHR '')''))))))))) "

text \<open>The end of a path segment, \<open>(?=/|$)\<close>.\<close>

definition seg_end :: rx where
  "seg_end = RAhead (RAlt (RChar (CHR ''/'')) REnd)"

definition NUMERIC_PATH_RE :: rx where
  "NUMERIC_PATH_RE = RSeq (RChar (CHR ''/'')) (RSeq (RPlus (RCls is_digit)) seg_end)"

definition UUID_PATH_RE :: rx where
  "UUID_PATH_RE =
     RSeq (RChar (CHR ''/'')) (RSeq (RTimes 8 (RCls hexdigit)) (RSeq (RChar (CHR ''-'')) (RSeq (RTimes 4 (RCls hexdigit))
       (RSeq (RChar (CHR ''-'')) (RSeq (RTimes 4 (RCls hexdigit)) (RSeq (RChar (CHR ''-'')) (RSeq (RTimes 4 (RCls hexdigit))
         (RSeq (RChar (CHR ''-'')) (RSeq (RTimes 12 (RCls hexdigit)) seg_end)))))))))"

definition HEX_PATH_RE :: rx where
  "HEX_PATH_RE = RSeq (RChar (CHR ''/'')) (RSeq (RRep True 32 None (RCls hexdigit)) seg_end)"

definition parameterize_sql :: "string \<Rightarrow> string" where
  "parameterize_sql desc =
     re_sub (\<lambda>_. ''IN (%s)'') IN_COLLAPSE_RE (re_sub (\<lambda>_. ''%s'') NUMERIC_LITERAL_RE (re_sub (\<lambda>_. ''%s'') STRING_LITERAL_RE desc))"

definition parameterize_url :: "string \<Rightarrow> string" where
  "parameterize_url desc =
     (let base = hd (split_char (CHR ''#'') (hd (split_char (CHR ''?'') desc))) in
      re_sub (\<lambda>_. ''/%s'') NUMERIC_PATH_RE (re_sub (\<lambda>_. ''/%s'') HEX_PATH_RE (re_sub (\<lambda>_. ''/%s'') UUID_PATH_RE base)))"

definition parameterize_description :: "string \<Rightarrow> string option \<Rightarrow> string" where
  "parameterize_description op desc =
     (case desc of
        None \<Rightarrow> []
      | Some d \<Rightarrow>
          if d = [] then []
          else take MAX_DESCRIPTION_LENGTH
            (if starts_with ''db'' op then parameterize_sql d
             else if starts_with ''http'' op then parameterize_url d
             else re_sub (\<lambda>_. ''/%s'') NUMERIC_PATH_RE d))"

section \<open>Transaction groups\<close>

definition ERROR_STATUSES :: "string list" where
  "ERROR_STATUSES = [''internal_error'', ''unavailable'', ''deadline_exceeded'', ''unimplemented'', ''permission_denied'',
     ''unauthenticated'', ''resource_exhausted'', ''data_loss'', ''aborted'', ''failed_precondition'', ''out_of_range'', ''unknown'']"

definition is_error_status :: "string option \<Rightarrow> bool" where
  "is_error_status s \<longleftrightarrow> (case s of None \<Rightarrow> False | Some t \<Rightarrow> t \<in> set ERROR_STATUSES)"

record txn_group =
  tg_id :: int
  tg_org :: int
  tg_count :: nat
  tg_error_count :: nat
  tg_avg_duration :: real
  tg_p50 :: "real option"
  tg_p95 :: "real option"
  tg_histogram :: "nat list"

text \<open>Project, transaction name, operation and method; the table adds the organization.\<close>

type_synonym group_key = "int \<times> string \<times> string \<times> string"

record span =
  sp_start :: "datetime option"
  sp_end :: "datetime option"
  sp_op :: string
  sp_description :: "string option"
  sp_id :: string

record txn_event =
  tx_project :: int
  tx_org :: int
  tx_received :: datetime
  tx_name :: string
  tx_op :: string
  tx_status :: "string option"
  tx_method :: string
  tx_start :: datetime
  tx_end :: datetime
  tx_event_id :: string
  tx_spans :: "span list"
  tx_release :: "string option"
  tx_environment :: "string option"
  tx_update_first :: bool

record span_row =
  sr_id :: int
  sr_org :: int
  sr_project :: int
  sr_duration :: real
  sr_timestamp :: datetime
  sr_transaction :: string
  sr_span_id :: string
  sr_transaction_id :: string
  sr_op :: string
  sr_description :: string

record txn_db =
  next_group :: int
  groups :: "(group_key \<times> int, txn_group) dict"
  span_staging :: "span_row list"
  txn_stats :: count_table
  first_events :: "(int, datetime option) dict"
  t_related :: related_db

definition MAX_SPANS_PER_TRANSACTION :: nat where "MAX_SPANS_PER_TRANSACTION = 1000"

definition txn_key :: "txn_event \<Rightarrow> group_key" where
  "txn_key e = (tx_project e, take 1024 (clean_string (tx_name e)), clean_string (tx_op e), clean_string (tx_method e))"

text \<open>\<open>max(0.0, delta.total_seconds() * 1000)\<close>.\<close>

definition duration_ms :: "datetime \<Rightarrow> datetime \<Rightarrow> real" where
  "duration_ms start stop = max 0 (of_int (stop - start) / 1000)"

text \<open>Lookup by key: of several rows (one per organization) the dictionary keeps the last.\<close>

definition fetch_transaction_groups :: "group_key list \<Rightarrow> txn_db \<Rightarrow> (group_key, int \<times> int) dict" where
  "fetch_transaction_groups keys d =
     fold (\<lambda>((k, _), g) m. dset m k (tg_id g, tg_org g)) (filter (\<lambda>((k, _), _). k \<in> set keys) (groups d)) []"

definition unique_keys :: "txn_event list \<Rightarrow> (group_key, int) dict" where
  "unique_keys es = fold (\<lambda>e m. if txn_key e \<in> fst ` set m then m else dset m (txn_key e) (tx_org e)) es []"

definition new_group :: "int \<Rightarrow> int \<Rightarrow> txn_group" where
  "new_group gid oid = \<lparr>tg_id = gid, tg_org = oid, tg_count = 0, tg_error_count = 0, tg_avg_duration = 0, tg_p50 = None,
     tg_p95 = None, tg_histogram = new_histogram\<rparr>"

definition insert_group :: "group_key \<times> int \<Rightarrow> txn_db \<Rightarrow> txn_db" where
  "insert_group k d =
     (if map_of (groups d) k \<noteq> None then d
      else d\<lparr>groups := dset (groups d) k (new_group (next_group d) (snd k)), next_group := next_group d + 1\<rparr>)"

text \<open>
  Assignment to a \<open>VARCHAR(n)\<close> column: a longer value is an error, unless only spaces are cut off.
\<close>

definition varchar :: "nat \<Rightarrow> string \<Rightarrow> string option" where
  "varchar n s =
     (if length s \<le> n then Some s else if \<forall>c\<in>set (drop n s). c = CHR '' '' then Some (take n s) else None)"

definition stored_key :: "group_key \<Rightarrow> group_key option" where
  "stored_key k =
     (case k of (p, name, op, meth) \<Rightarrow>
        (case (varchar 1024 name, varchar 255 op, varchar 255 meth) of
           (Some n, Some a, Some b) \<Rightarrow> Some (p, n, a, b) | _ \<Rightarrow> None))"

text \<open>The insertion of all rows, one statement: \<open>None\<close> when a value does not fit its column.\<close>

definition insert_groups :: "(group_key \<times> int) list \<Rightarrow> txn_db \<Rightarrow> txn_db option" where
  "insert_groups qs d =
     (if \<exists>q\<in>set qs. stored_key (fst q) = None then None
      else Some (fold insert_group (map (\<lambda>q. (the (stored_key (fst q)), snd q)) qs) d))"

text \<open>Groups of the batch: those the replica has, and the missing ones after their creation.\<close>

definition missing_keys :: "txn_event list \<Rightarrow> txn_db \<Rightarrow> (group_key \<times> int) list" where
  "missing_keys es replica =
     (let uk = unique_keys es;
          existing = (if uk = [] then [] else fetch_transaction_groups (map fst uk) replica)
      in filter (\<lambda>(k, _). k \<notin> fst ` set existing) uk)"

definition resolve_groups :: "txn_event list \<Rightarrow> txn_db \<Rightarrow> txn_db \<Rightarrow> ((group_key, int \<times> int) dict \<times> txn_db) option" where
  "resolve_groups es replica d =
     (let uk = unique_keys es;
          existing = (if uk = [] then [] else fetch_transaction_groups (map fst uk) replica);
          missing = missing_keys es replica in
      if missing = [] then Some (existing, d)
      else (case insert_groups missing d of
              None \<Rightarrow> None
            | Some d1 \<Rightarrow> Some (fold (\<lambda>(k, g) m. dset m k g) (fetch_transaction_groups (map fst missing) d1) existing, d1)))"

text \<open>Phase 1 and phase 2 of the update of one row.\<close>

definition add_histograms :: "nat list \<Rightarrow> nat list \<Rightarrow> nat list" where
  "add_histograms a b =
     map (\<lambda>i. (if i < length a then a ! i else 0) + (if i < length b then b ! i else 0)) [0..<max (length a) (length b)]"

definition merge_group :: "real list \<Rightarrow> nat \<Rightarrow> txn_group \<Rightarrow> txn_group" where
  "merge_group ds errors g =
     (let n = length ds in
      g\<lparr>tg_count := tg_count g + n, tg_error_count := tg_error_count g + errors,
        tg_avg_duration := (if tg_count g + n > 0
          then (tg_avg_duration g * real (tg_count g) + sum_list ds) / real (tg_count g + n) else 0),
        tg_histogram := add_histograms (tg_histogram g) (merge_durations new_histogram ds)\<rparr>)"

definition set_percentiles :: "txn_group \<Rightarrow> txn_group" where
  "set_percentiles g =
     g\<lparr>tg_p50 := percentile_from_histogram (tg_histogram g) (tg_count g) 50,
       tg_p95 := percentile_from_histogram (tg_histogram g) (tg_count g) 95\<rparr>"

text \<open>The two updates of a row: by id and organization, then by membership in both lists.\<close>

definition update_row ::
    "(int, real list) dict \<Rightarrow> (int \<Rightarrow> nat) \<Rightarrow> (int, int) dict \<Rightarrow> txn_group \<Rightarrow> txn_group" where
  "update_row durations errors orgs g =
     (let g1 = (case map_of durations (tg_id g) of
                  Some ds \<Rightarrow> if map_of orgs (tg_id g) = Some (tg_org g) then merge_group ds (errors (tg_id g)) g else g
                | None \<Rightarrow> g)
      in if tg_id g \<in> fst ` set durations \<and> tg_org g \<in> (\<lambda>(i, _). the (map_of orgs i)) ` set durations
         then set_percentiles g1 else g1)"

definition update_transaction_group_stats ::
    "(int, real list) dict \<Rightarrow> (int \<Rightarrow> nat) \<Rightarrow> (int, int) dict \<Rightarrow> (group_key \<times> int, txn_group) dict
     \<Rightarrow> (group_key \<times> int, txn_group) dict" where
  "update_transaction_group_stats durations errors orgs tbl = map (\<lambda>(k, g). (k, update_row durations errors orgs g)) tbl"

section \<open>Processing a batch\<close>

definition span_rows_of :: "(nat \<Rightarrow> int) \<Rightarrow> txn_event \<Rightarrow> span_row list" where
  "span_rows_of ids e =
     map (\<lambda>(j, sp).
        \<lparr>sr_id = ids j, sr_org = tx_org e, sr_project = tx_project e,
         sr_duration = (case (sp_start sp, sp_end sp) of (Some a, Some b) \<Rightarrow> duration_ms a b | _ \<Rightarrow> 0),
         sr_timestamp = (case sp_start sp of Some a \<Rightarrow> a | None \<Rightarrow> tx_start e),
         sr_transaction = clean_string (fst (snd (txn_key e))), sr_span_id = take 32 (sp_id sp),
         sr_transaction_id = take 32 (tx_event_id e), sr_op = clean_string (take 255 (sp_op sp)),
         sr_description = clean_string (parameterize_description (sp_op sp) (sp_description sp))\<rparr>)
       (List.enumerate 0 (take MAX_SPANS_PER_TRANSACTION (tx_spans e)))"

text \<open>The events with the group that was found for their key.\<close>

definition grouped :: "(group_key, int \<times> int) dict \<Rightarrow> txn_event list \<Rightarrow> (txn_event \<times> int \<times> int) list" where
  "grouped existing es = List.map_filter (\<lambda>e. map_option (Pair e) (map_of existing (txn_key e))) es"

definition group_durations :: "(txn_event \<times> int \<times> int) list \<Rightarrow> (int, real list) dict" where
  "group_durations xs =
     fold (\<lambda>x m. dset m (fst (snd x))
             ((case map_of m (fst (snd x)) of None \<Rightarrow> [] | Some l \<Rightarrow> l) @ [duration_ms (tx_start (fst x)) (tx_end (fst x))])) xs []"

definition group_org_ids :: "(txn_event \<times> int \<times> int) list \<Rightarrow> (int, int) dict" where
  "group_org_ids xs = fold (\<lambda>(_, gid, oid) m. dset m gid oid) xs []"

definition group_error_counts :: "(txn_event \<times> int \<times> int) list \<Rightarrow> int \<Rightarrow> nat" where
  "group_error_counts xs gid = length (filter (\<lambda>(e, g, _). g = gid \<and> is_error_status (tx_status e)) xs)"

definition txn_data_stats :: "(txn_event \<times> int \<times> int) list \<Rightarrow> (datetime \<times> int, int \<times> int) dict" where
  "txn_data_stats xs =
     fold (\<lambda>x m. dset m (hour_of (tx_received (fst x)), tx_project (fst x))
             (stat_step (map_of m (hour_of (tx_received (fst x)), tx_project (fst x))) (tx_org (fst x)))) xs []"

text \<open>\<open>UPDATE projects_project SET first_event ... WHERE first_event IS NULL\<close>.\<close>

definition set_first_events :: "datetime \<Rightarrow> txn_event list \<Rightarrow> (int, datetime option) dict \<Rightarrow> (int, datetime option) dict" where
  "set_first_events now es tbl =
     map (\<lambda>(p, f). (p, if f = None \<and> (\<exists>e\<in>set es. tx_update_first e \<and> tx_project e = p) then Some now else f)) tbl"

definition release_set :: "txn_event list \<Rightarrow> named_ref list" where
  "release_set es = remdups (List.map_filter
     (\<lambda>e. case tx_release e of Some r \<Rightarrow> if r \<noteq> [] then Some (r, tx_project e, tx_org e) else None | None \<Rightarrow> None) es)"

definition environment_set :: "txn_event list \<Rightarrow> named_ref list" where
  "environment_set es = remdups (List.map_filter
     (\<lambda>e. case tx_environment e of Some r \<Rightarrow> if r \<noteq> [] then Some (take 255 r, tx_project e, tx_org e) else None | None \<Rightarrow> None) es)"

text \<open>
  The two insertions that can be refused: a value of a group that does not fit its column, and a
  span id with a NUL, which is the one text of a span row that is not sanitized. What was written
  before stays written.
\<close>

datatype txn_error = GroupDataError | SpanDataError

definition process_transaction_events ::
    "datetime \<Rightarrow> bool \<Rightarrow> (nat \<Rightarrow> nat \<Rightarrow> int) \<Rightarrow> txn_event list \<Rightarrow> txn_db \<Rightarrow> txn_db \<Rightarrow> txn_error option \<times> txn_db" where
  "process_transaction_events now collect_spans ids es replica d =
     (let projects = remdups (map (\<lambda>(_, p, _). p) (release_set es @ environment_set es));
          (_, _, related) = get_or_create_related_models (release_set es) (environment_set es) projects (t_related replica) (t_related d);
          d0 = d\<lparr>first_events := set_first_events now es (first_events d), t_related := related\<rparr>
      in case resolve_groups es replica d0 of
           None \<Rightarrow> (Some GroupDataError, d0)
         | Some (existing, d1) \<Rightarrow>
             (let xs = grouped existing es;
                  d2 = d1\<lparr>groups := update_transaction_group_stats (group_durations xs) (group_error_counts xs) (group_org_ids xs) (groups d1)\<rparr>;
                  spans = (if collect_spans then concat (map (\<lambda>(j, e, _). span_rows_of (ids j) e) (List.enumerate 0 xs)) else [])
              in if \<exists>r\<in>set spans. CHR 0x00 \<in> set (sr_span_id r) then (Some SpanDataError, d2)
                 else (None, d2\<lparr>span_staging := span_staging d2 @ spans,
                   txn_stats := (case update_statistics ''projects_transactioneventprojecthourlystatistic'' (txn_data_stats xs) (txn_stats d2) of
                                   Some t \<Rightarrow> t | None \<Rightarrow> txn_stats d2)\<rparr>)))"

section \<open>Facts on histograms\<close>

definition bucket_midpoint :: "nat \<Rightarrow> real" where
  "bucket_midpoint i = (BUCKET_BOUNDARIES ! i + BUCKET_BOUNDARIES ! Suc i) / 2"

lemma length_boundaries [simp]: "length BUCKET_BOUNDARIES = 51"
  by (simp add: BUCKET_BOUNDARIES_def NUM_BUCKETS_def)

lemma boundary_nth: "i \<le> 50 \<Longrightarrow> BUCKET_BOUNDARIES ! i = 60000 powr (real i / 50)"
  by (simp add: BUCKET_BOUNDARIES_def NUM_BUCKETS_def MIN_MS_def MAX_MS_def nth_append del: upt_Suc)

lemma boundary_less: "i < j \<Longrightarrow> j \<le> 50 \<Longrightarrow> BUCKET_BOUNDARIES ! i < BUCKET_BOUNDARIES ! j"
  by (simp add: boundary_nth powr_less_mono divide_strict_right_mono)

lemma boundary_ends: "BUCKET_BOUNDARIES ! 0 = 1" "BUCKET_BOUNDARIES ! 50 = 60000"
  by (simp_all add: boundary_nth)

lemma get_bucket_index_less: "get_bucket_index d < 50"
  by (auto simp: get_bucket_index_def NUM_BUCKETS_def)

lemma length_takeWhile_mono:
  "(\<And>x. P x \<Longrightarrow> Q x) \<Longrightarrow> length (takeWhile P xs) \<le> length (takeWhile Q xs)"
  by (induction xs) auto

lemma nth_takeWhile: "i < length (takeWhile P xs) \<Longrightarrow> P (xs ! i)"
  by (metis nth_mem set_takeWhileD takeWhile_nth)

lemma bisect_interior:
  assumes "1 < d" "d < 60000"
  shows "0 < bisect_right BUCKET_BOUNDARIES d" and "bisect_right BUCKET_BOUNDARIES d \<le> 50"
    and "BUCKET_BOUNDARIES ! (bisect_right BUCKET_BOUNDARIES d - 1) \<le> d"
    and "d < BUCKET_BOUNDARIES ! bisect_right BUCKET_BOUNDARIES d"
proof -
  let ?n = "bisect_right BUCKET_BOUNDARIES d"
  show pos: "0 < ?n"
    using nth_length_takeWhile [of "\<lambda>b. b \<le> d" BUCKET_BOUNDARIES] assms boundary_ends
    by (cases "?n") (auto simp: bisect_right_def)
  show le: "?n \<le> 50"
  proof (rule ccontr)
    assume "\<not> ?n \<le> 50"
    then have "BUCKET_BOUNDARIES ! 50 \<le> d"
      using nth_takeWhile [of 50 "\<lambda>b. b \<le> d" BUCKET_BOUNDARIES] by (simp add: bisect_right_def)
    with assms boundary_ends show False by simp
  qed
  show "BUCKET_BOUNDARIES ! (?n - 1) \<le> d"
    using nth_takeWhile [of "?n - 1" "\<lambda>b. b \<le> d" BUCKET_BOUNDARIES] pos by (simp add: bisect_right_def)
  show "d < BUCKET_BOUNDARIES ! ?n"
    using nth_length_takeWhile [of "\<lambda>b. b \<le> d" BUCKET_BOUNDARIES] le by (simp add: bisect_right_def)
qed

lemma get_bucket_index_interior:
  assumes "1 < d" "d < 60000"
  shows "get_bucket_index d = bisect_right BUCKET_BOUNDARIES d - 1"
  using bisect_interior [OF assms] assms
  by (auto simp: get_bucket_index_def MIN_MS_def MAX_MS_def NUM_BUCKETS_def min_def max_def nat_diff_distrib)

text \<open>A duration between the ends of the scale lies in its bucket.\<close>

lemma bucket_contains:
  assumes "1 \<le> d" "d \<le> 60000"
  shows "BUCKET_BOUNDARIES ! get_bucket_index d \<le> d" and "d \<le> BUCKET_BOUNDARIES ! Suc (get_bucket_index d)"
proof -
  consider "d = 1" | "d = 60000" | "1 < d" "d < 60000" using assms by fastforce
  then have "BUCKET_BOUNDARIES ! get_bucket_index d \<le> d \<and> d \<le> BUCKET_BOUNDARIES ! Suc (get_bucket_index d)"
  proof cases
    case 1
    then have "get_bucket_index d = 0" by (simp add: get_bucket_index_def MIN_MS_def)
    then show ?thesis using 1 boundary_ends boundary_less [of 0 1] by simp
  next
    case 2
    then have "get_bucket_index d = 49"
      by (simp add: get_bucket_index_def MIN_MS_def MAX_MS_def NUM_BUCKETS_def)
    then show ?thesis using 2 boundary_ends boundary_less [of 49 50] by (simp add: eval_nat_numeral)
  next
    case 3
    then show ?thesis using bisect_interior [OF 3] get_bucket_index_interior [OF 3] by simp
  qed
  then show "BUCKET_BOUNDARIES ! get_bucket_index d \<le> d" "d \<le> BUCKET_BOUNDARIES ! Suc (get_bucket_index d)" by auto
qed

lemma get_bucket_index_mono:
  assumes "d \<le> e"
  shows "get_bucket_index d \<le> get_bucket_index e"
proof -
  consider "d \<le> 1" | "60000 \<le> e" "1 < d" | "1 < d" "e < 60000" by linarith
  then show ?thesis
  proof cases
    case 1
    then show ?thesis by (simp add: get_bucket_index_def MIN_MS_def)
  next
    case 2
    then have "get_bucket_index e = 49" by (simp add: get_bucket_index_def MIN_MS_def MAX_MS_def NUM_BUCKETS_def)
    then show ?thesis using get_bucket_index_less [of d] by simp
  next
    case 3
    have "bisect_right BUCKET_BOUNDARIES d \<le> bisect_right BUCKET_BOUNDARIES e"
      unfolding bisect_right_def using assms by (intro length_takeWhile_mono) simp
    then show ?thesis using 3 assms by (simp add: get_bucket_index_interior)
  qed
qed

text \<open>The histogram of a list of durations counts them by bucket.\<close>

lemma merge_durations_Nil [simp]: "merge_durations h [] = h"
  by (simp add: merge_durations_def)

lemma length_merge_durations [simp]: "length (merge_durations h ds) = length h"
  unfolding merge_durations_def by (induction ds arbitrary: h) auto

lemma nth_merge_durations:
  assumes "length h = 50" "i < 50"
  shows "merge_durations h ds ! i = h ! i + length (filter (\<lambda>d. get_bucket_index d = i) ds)"
  using assms
proof (induction ds arbitrary: h)
  case (Cons d ds)
  have "merge_durations h (d # ds) = merge_durations (h[get_bucket_index d := h ! get_bucket_index d + 1]) ds"
    by (simp add: merge_durations_def)
  with Cons show ?case using get_bucket_index_less [of d] by (simp add: nth_list_update)
qed simp

lemma length_new_histogram [simp]: "length new_histogram = 50"
  by (simp add: new_histogram_def NUM_BUCKETS_def)

lemma nth_new_histogram [simp]: "i < 50 \<Longrightarrow> new_histogram ! i = 0"
  by (simp add: new_histogram_def NUM_BUCKETS_def)

lemma merge_durations_nonempty: "merge_durations new_histogram ds \<noteq> []"
  using length_merge_durations [of new_histogram ds] by force

lemma add_histograms_merge:
  "add_histograms (merge_durations new_histogram as) (merge_durations new_histogram bs) =
   merge_durations new_histogram (as @ bs)"
  by (rule nth_equalityI) (simp_all add: add_histograms_def nth_merge_durations)

lemma filter_less_Suc_length:
  "length (filter (\<lambda>x. f x < Suc j) xs) = length (filter (\<lambda>x. f x < j) xs) + length (filter (\<lambda>x. f x = (j::nat)) xs)"
  by (induction xs) auto

lemma cumulative:
  assumes "j \<le> 50"
  shows "sum_list (take j (merge_durations new_histogram ds)) = length (filter (\<lambda>d. get_bucket_index d < j) ds)"
  using assms
proof (induction j)
  case (Suc j)
  then show ?case
    by (simp add: take_Suc_conv_app_nth nth_merge_durations filter_less_Suc_length del: filter_less_Suc_length [symmetric])
qed simp

lemma percentile_loop_hit:
  assumes "j < length cs" "int (c + sum_list (take j cs)) < t" "t \<le> int (c + sum_list (take (Suc j) cs))" "i + j < 50"
  shows "percentile_loop t c i cs = Some (bucket_midpoint (i + j))"
  using assms
proof (induction cs arbitrary: c i j)
  case (Cons a cs)
  show ?case
  proof (cases j)
    case 0
    with Cons.prems show ?thesis by (auto simp: bucket_midpoint_def NUM_BUCKETS_def)
  next
    case (Suc j')
    with Cons.prems have "\<not> t \<le> int (c + a)" by auto
    moreover have "percentile_loop t (c + a) (Suc i) cs = Some (bucket_midpoint (Suc i + j'))"
      using Cons.prems Suc by (intro Cons.IH) auto
    ultimately show ?thesis using Suc by auto
  qed
qed simp

lemma length_filter_sort: "length (filter P (sort xs)) = length (filter P xs)"
  by (metis mset_filter mset_sort size_mset)

text \<open>Of a sorted list, exactly the positions before the first element of a bucket count less.\<close>

lemma rank_bounds:
  assumes "sorted xs" "j < length xs" "mono (f :: real \<Rightarrow> nat)"
  shows "length (filter (\<lambda>x. f x < f (xs ! j)) xs) \<le> j" and "j < length (filter (\<lambda>x. f x < Suc (f (xs ! j))) xs)"
proof -
  have hi: "filter (\<lambda>x. f x < f (xs ! j)) (drop j xs) = []"
  proof -
    have "f (xs ! j) \<le> f x" if "x \<in> set (drop j xs)" for x
      using that assms by (auto simp: in_set_conv_nth intro!: monoD [OF assms(3)] sorted_nth_mono)
    then show ?thesis by (fastforce simp: filter_empty_conv)
  qed
  have "length (filter (\<lambda>x. f x < f (xs ! j)) xs) =
      length (filter (\<lambda>x. f x < f (xs ! j)) (take j xs @ drop j xs))" by simp
  also have "\<dots> \<le> j" using hi length_filter_le [of _ "take j xs"] assms(2)
    by (simp only: filter_append length_append list.size) (metis add.right_neutral length_take min.absorb4)
  finally show "length (filter (\<lambda>x. f x < f (xs ! j)) xs) \<le> j" .
  have lo: "filter (\<lambda>x. f x < Suc (f (xs ! j))) (take (Suc j) xs) = take (Suc j) xs"
  proof -
    have "f x \<le> f (xs ! j)" if "x \<in> set (take (Suc j) xs)" for x
      using that assms by (auto simp: in_set_conv_nth intro!: monoD [OF assms(3)] sorted_nth_mono)
    then show ?thesis by (fastforce simp: filter_id_conv)
  qed
  have "length (filter (\<lambda>x. f x < Suc (f (xs ! j))) xs) =
      length (filter (\<lambda>x. f x < Suc (f (xs ! j))) (take (Suc j) xs @ drop (Suc j) xs))" by simp
  also have "\<dots> \<ge> Suc j" unfolding filter_append lo using assms(2) by simp
  finally show "j < length (filter (\<lambda>x. f x < Suc (f (xs ! j))) xs)" by simp
qed

text \<open>
  Property C34. The percentile read off a histogram is the midpoint of the bucket of the order
  statistic it approximates: with \<open>k\<close> the rounded-up share of the durations, the \<open>k\<close>-th smallest
  one. On the scale of the histogram it is off by at most half the width of that bucket.
\<close>

theorem percentile_is_order_statistic:
  assumes "ds \<noteq> []" "0 < pct" "pct \<le> 100"
  defines "x \<equiv> sort ds ! (nat \<lceil>real (length ds) * pct / 100\<rceil> - 1)"
  shows "x \<in> set ds \<and>
    percentile_from_histogram (merge_durations new_histogram ds) (length ds) pct = Some (bucket_midpoint (get_bucket_index x)) \<and>
    (1 \<le> x \<and> x \<le> 60000 \<longrightarrow> \<bar>bucket_midpoint (get_bucket_index x) - x\<bar> \<le>
      (BUCKET_BOUNDARIES ! Suc (get_bucket_index x) - BUCKET_BOUNDARIES ! get_bucket_index x) / 2)"
proof -
  let ?t = "\<lceil>real (length ds) * pct / 100\<rceil>" and ?b = "get_bucket_index x"
  let ?j = "nat ?t - 1" and ?h = "merge_durations new_histogram ds"
  have n: "0 < real (length ds)" using assms by simp
  then have "0 < real (length ds) * pct / 100" using assms by simp
  then have t: "0 < ?t" by linarith
  have "real (length ds) * pct / 100 \<le> real (length ds)" using assms n by simp
  then have "?t \<le> int (length ds)" by (simp add: ceiling_le_iff)
  then have j: "?j < length ds" using t by linarith
  have f: "mono get_bucket_index" by (simp add: get_bucket_index_mono monoI)
  have "x \<in> set (sort ds)" unfolding x_def using j by (intro nth_mem) simp
  then have x: "x \<in> set ds" by simp
  have "length (filter (\<lambda>d. get_bucket_index d < ?b) ds) \<le> ?j"
    "?j < length (filter (\<lambda>d. get_bucket_index d < Suc ?b) ds)"
    using rank_bounds [of "sort ds" ?j get_bucket_index] j f by (simp_all add: x_def length_filter_sort)
  then have "int (length (filter (\<lambda>d. get_bucket_index d < ?b) ds)) < ?t"
    "?t \<le> int (length (filter (\<lambda>d. get_bucket_index d < Suc ?b) ds))"
    using t by linarith+
  then have "percentile_loop ?t 0 0 (take 50 ?h) = Some (bucket_midpoint (0 + ?b))"
    using get_bucket_index_less [of x]
    by (intro percentile_loop_hit) (simp_all add: cumulative min_def)
  then have p: "percentile_from_histogram ?h (length ds) pct = Some (bucket_midpoint ?b)"
    using assms(1) by (simp add: percentile_from_histogram_def NUM_BUCKETS_def merge_durations_nonempty)
  have "\<bar>bucket_midpoint ?b - x\<bar> \<le> (BUCKET_BOUNDARIES ! Suc ?b - BUCKET_BOUNDARIES ! ?b) / 2"
    if "1 \<le> x" "x \<le> 60000"
    using bucket_contains [OF that] by (simp add: bucket_midpoint_def abs_le_iff field_simps)
  with x p show ?thesis by blast
qed

text \<open>
  Further property. Histograms are well formed: the index of a duration is one of the fifty buckets and
  monotone in it, and merging durations into a histogram of fifty buckets gives one again, with
  exactly one more entry per duration.
\<close>

theorem histogram_wellformed:
  assumes "length h = NUM_BUCKETS" "d \<le> e"
  shows "get_bucket_index e < NUM_BUCKETS \<and> get_bucket_index d \<le> get_bucket_index e \<and>
    length (merge_durations h ds) = NUM_BUCKETS \<and> sum_list (merge_durations h ds) = sum_list h + length ds"
proof -
  have "sum_list (merge_durations h ds) = sum_list h + length ds" if "length h = 50" for h
    using that
  proof (induction ds arbitrary: h)
    case (Cons d ds)
    let ?h = "h[get_bucket_index d := h ! get_bucket_index d + 1]"
    have "h ! get_bucket_index d \<le> sum_list h"
      using Cons.prems get_bucket_index_less [of d] by (intro elem_le_sum_list) simp
    then have "sum_list ?h = sum_list h + 1"
      using Cons.prems get_bucket_index_less [of d] by (simp add: sum_list_update)
    moreover have "merge_durations h (d # ds) = merge_durations ?h ds" by (simp add: merge_durations_def)
    ultimately show ?case using Cons.IH [of ?h] Cons.prems by simp
  qed simp
  then show ?thesis
    using assms get_bucket_index_less [of e] get_bucket_index_mono [of d e] by (simp add: NUM_BUCKETS_def)
qed

lemma histogram_wellformed_witness:
  "sum_list (merge_durations new_histogram [3, 99999, 0]) = 3 \<and> get_bucket_index 2 \<le> get_bucket_index 5"
  using histogram_wellformed [of new_histogram 2 5 "[3, 99999, 0]"] by (simp add: new_histogram_def NUM_BUCKETS_def)

section \<open>The groups as a history of transactions\<close>

text \<open>
  The abstract state of a group is the list of the durations and outcomes of its transactions;
  \<open>represents\<close> says that a row holds the aggregates of such a list.
\<close>

type_synonym history = "(real \<times> bool) list"

definition represents :: "txn_group \<Rightarrow> history \<Rightarrow> bool" where
  "represents g hs \<longleftrightarrow>
     tg_count g = length hs \<and> tg_error_count g = length (filter snd hs) \<and>
     tg_avg_duration g = (if hs = [] then 0 else sum_list (map fst hs) / real (length hs)) \<and>
     tg_histogram g = merge_durations new_histogram (map fst hs) \<and>
     tg_p50 g = percentile_from_histogram (tg_histogram g) (length hs) 50 \<and>
     tg_p95 g = percentile_from_histogram (tg_histogram g) (length hs) 95"

definition outcome :: "txn_event \<Rightarrow> real \<times> bool" where
  "outcome e = (duration_ms (tx_start e) (tx_end e), is_error_status (tx_status e))"

definition record_batch :: "(group_key \<Rightarrow> history) \<Rightarrow> txn_event list \<Rightarrow> group_key \<Rightarrow> history" where
  "record_batch H es k = H k @ map outcome (filter (\<lambda>e. txn_key e = k) es)"

text \<open>
  The table against the projects' organizations: unique keys and ids, ids below the sequence, the
  organization of a row that of its project; and every row represents the history of its key.
\<close>

definition groups_ok :: "(int, int) dict \<Rightarrow> txn_db \<Rightarrow> bool" where
  "groups_ok orgs d \<longleftrightarrow>
     dict_ok (groups d) \<and> distinct (map (\<lambda>(_, g). tg_id g) (groups d)) \<and>
     (\<forall>((k, oid), g)\<in>set (groups d). tg_id g < next_group d \<and> tg_org g = oid \<and> map_of orgs (fst k) = Some oid)"

definition refines :: "(group_key \<Rightarrow> history) \<Rightarrow> txn_db \<Rightarrow> bool" where
  "refines H d \<longleftrightarrow>
     (\<forall>((k, _), g)\<in>set (groups d). represents g (H k)) \<and>
     (\<forall>k. (\<forall>oid. (k, oid) \<notin> fst ` set (groups d)) \<longrightarrow> H k = [])"

text \<open>A replica may lag: it has some of the rows, with the ids they have in the primary.\<close>

definition replica_of :: "txn_db \<Rightarrow> txn_db \<Rightarrow> bool" where
  "replica_of r d \<longleftrightarrow>
     (\<forall>(k, g)\<in>set (groups r). \<exists>g'. map_of (groups d) k = Some g' \<and> tg_id g' = tg_id g \<and> tg_org g' = tg_org g)"

definition events_ok :: "(int, int) dict \<Rightarrow> txn_event list \<Rightarrow> bool" where
  "events_ok orgs es \<longleftrightarrow> (\<forall>e\<in>set es. map_of orgs (tx_project e) = Some (tx_org e))"

text \<open>Operation and method of an event fit their columns.\<close>

definition fits :: "txn_event \<Rightarrow> bool" where
  "fits e \<longleftrightarrow> length (clean_string (tx_op e)) \<le> 255 \<and> length (clean_string (tx_method e)) \<le> 255"

lemma fst_txn_key [simp]: "fst (txn_key e) = tx_project e"
  by (simp add: txn_key_def)

lemma represents_merge_group:
  assumes "represents g hs" "ts \<noteq> []"
  shows "represents (set_percentiles (merge_group (map fst ts) (length (filter snd ts)) g)) (hs @ ts)"
  using assms
  by (auto simp: represents_def set_percentiles_def merge_group_def Let_def add_histograms_merge)

lemma represents_new_group: "represents (new_group i oid) []"
  by (simp add: represents_def new_group_def percentile_from_histogram_def)

text \<open>The lookups of the batch find the rows of the primary.\<close>

definition ref_in :: "txn_db \<Rightarrow> group_key \<Rightarrow> int \<times> int \<Rightarrow> bool" where
  "ref_in d k r \<longleftrightarrow> (\<exists>g. map_of (groups d) (k, snd r) = Some g \<and> tg_id g = fst r \<and> tg_org g = snd r)"

lemma fetch_from_rows:
  assumes "map_of (fold (\<lambda>((k, _), g) m. dset m k (tg_id g, tg_org g)) rows m) k = Some r"
  shows "map_of m k = Some r \<or> (\<exists>oid g. ((k, oid), g) \<in> set rows \<and> r = (tg_id g, tg_org g))"
  using assms by (induction rows arbitrary: m) (fastforce split: if_splits)+

lemma fetch_domain:
  "map_of (fold (\<lambda>((k, _), g) m. dset m k (tg_id g, tg_org g)) rows m) k = None \<longleftrightarrow>
   map_of m k = None \<and> (\<forall>oid g. ((k, oid), g) \<notin> set rows)"
proof (induction rows arbitrary: m)
  case (Cons p rows)
  obtain k' oid' g' where p: "p = ((k', oid'), g')" by (cases p) auto
  show ?case unfolding p fold_Cons comp_apply prod.case Cons.IH by auto
qed simp

lemma fetch_sound:
  assumes "groups_ok orgs d" "replica_of r d" "map_of (fetch_transaction_groups ks r) k = Some q"
  shows "k \<in> set ks \<and> ref_in d k q"
proof -
  obtain oid g where g: "((k, oid), g) \<in> set (groups r)" "k \<in> set ks" "q = (tg_id g, tg_org g)"
    using fetch_from_rows [OF assms(3) [unfolded fetch_transaction_groups_def]] by auto
  then obtain g' where g': "map_of (groups d) (k, oid) = Some g'" "tg_id g' = tg_id g" "tg_org g' = tg_org g"
    using assms(2) by (fastforce simp: replica_of_def)
  have "tg_org g' = oid"
    using assms(1) map_of_SomeD [OF g'(1)] by (fastforce simp: groups_ok_def)
  with g g' show ?thesis by (auto simp: ref_in_def)
qed

lemma fetch_complete:
  assumes "((k, oid), g) \<in> set (groups d)" "k \<in> set ks"
  shows "map_of (fetch_transaction_groups ks d) k \<noteq> None"
  unfolding fetch_transaction_groups_def fetch_domain using assms by force

lemma replica_of_refl: "groups_ok orgs d \<Longrightarrow> replica_of d d"
  by (fastforce simp: groups_ok_def replica_of_def)

lemma insert_group_ok:
  assumes "groups_ok orgs d" "map_of orgs (fst k) = Some oid"
  shows "groups_ok orgs (insert_group (k, oid) d)"
proof (cases "map_of (groups d) (k, oid)")
  case None
  then have new: "(k, oid) \<notin> fst ` set (groups d)" by (simp add: map_of_eq_None_iff)
  then have "groups (insert_group (k, oid) d) = groups d @ [((k, oid), new_group (next_group d) oid)]"
    using None by (simp add: insert_group_def dset_new)
  moreover have "next_group (insert_group (k, oid) d) = next_group d + 1" using None by (simp add: insert_group_def)
  ultimately show ?thesis using assms new unfolding groups_ok_def by (fastforce simp: new_group_def)
next
  case (Some g)
  then have "insert_group (k, oid) d = d" by (simp add: insert_group_def)
  with assms show ?thesis by simp
qed


lemma groups_okD:
  assumes "groups_ok orgs d" "((k, oid), g) \<in> set (groups d)"
  shows "tg_id g < next_group d" "tg_org g = oid" "map_of orgs (fst k) = Some oid"
  using assms(1) bspec [OF conjunct2 [OF conjunct2 [OF assms(1) [unfolded groups_ok_def]]] assms(2)] by simp_all

lemma insert_group_refines:
  assumes "groups_ok orgs d" "map_of orgs (fst k) = Some oid" "refines H d"
  shows "refines H (insert_group (k, oid) d)"
proof (cases "map_of (groups d) (k, oid)")
  case None
  then have new: "(k, oid) \<notin> fst ` set (groups d)" by (simp add: map_of_eq_None_iff)
  have "(k, oid') \<notin> fst ` set (groups d)" for oid'
  proof
    assume "(k, oid') \<in> fst ` set (groups d)"
    then obtain g where g: "((k, oid'), g) \<in> set (groups d)" by force
    with groups_okD(3) [OF assms(1) g] assms(2) new show False by force
  qed
  then have "H k = []" using assms(3) unfolding refines_def by blast
  moreover have "groups (insert_group (k, oid) d) = groups d @ [((k, oid), new_group (next_group d) oid)]"
    using None by (simp add: insert_group_def dset_new new)
  ultimately show ?thesis using assms(3) by (auto simp: refines_def represents_new_group)
next
  case (Some g)
  then have "insert_group (k, oid) d = d" by (simp add: insert_group_def)
  with assms show ?thesis by simp
qed

lemma insert_group_keeps: "map_of (groups d) k = Some g \<Longrightarrow> map_of (groups (insert_group q d)) k = Some g"
  by (auto simp: insert_group_def)

lemma insert_group_has: "map_of (groups (insert_group q d)) q \<noteq> None"
  by (auto simp: insert_group_def)

lemma fold_insert_group:
  assumes "groups_ok orgs d" "\<forall>(k, oid)\<in>set qs. map_of orgs (fst k) = Some oid"
  shows "groups_ok orgs (fold insert_group qs d)"
    and "refines H d \<Longrightarrow> refines H (fold insert_group qs d)"
    and "map_of (groups d) k = Some g \<Longrightarrow> map_of (groups (fold insert_group qs d)) k = Some g"
    and "k \<in> set qs \<Longrightarrow> map_of (groups (fold insert_group qs d)) k \<noteq> None"
proof -
  have "groups_ok orgs (fold insert_group qs d) \<and> (refines H d \<longrightarrow> refines H (fold insert_group qs d))"
    using assms
  proof (induction qs arbitrary: d)
    case (Cons q qs)
    then show ?case using insert_group_ok [of orgs d] insert_group_refines [of orgs d _ _ H] by (cases q) auto
  qed simp
  then show "groups_ok orgs (fold insert_group qs d)" "refines H d \<Longrightarrow> refines H (fold insert_group qs d)" by auto
  have keeps: "map_of (groups d) k = Some g \<Longrightarrow> map_of (groups (fold insert_group qs d)) k = Some g" for d g
    by (induction qs arbitrary: d) (auto simp: insert_group_keeps)
  then show "map_of (groups d) k = Some g \<Longrightarrow> map_of (groups (fold insert_group qs d)) k = Some g" .
  show "k \<in> set qs \<Longrightarrow> map_of (groups (fold insert_group qs d)) k \<noteq> None"
  proof (induction qs arbitrary: d)
    case (Cons q qs)
    have "\<exists>g. map_of (groups (fold insert_group qs d')) k = Some g" if "map_of (groups d') k = Some g'" for d' g'
      using that by (induction qs arbitrary: d' g') (auto intro: insert_group_keeps)
    then show ?case using Cons insert_group_has [of q d] by (cases "k = q") auto
  qed simp
qed

text \<open>The dictionary of first values per key.\<close>

lemma set_setdefault:
  "set (if f e \<in> fst ` set m then m else dset m (f e) (g e)) =
   (if f e \<in> fst ` set m then set m else insert (f e, g e) (set m))"
  by (auto simp: dset_new)

lemma fold_setdefault:
  fixes f :: "'a \<Rightarrow> 'k" and g :: "'a \<Rightarrow> 'v"
  defines "r \<equiv> \<lambda>xs m. fold (\<lambda>x m. if f x \<in> fst ` set m then m else dset m (f x) (g x)) xs m"
  shows "(k, v) \<in> set (r xs m) \<Longrightarrow> (k, v) \<in> set m \<or> (\<exists>x\<in>set xs. f x = k \<and> g x = v)"
    and "fst ` set (r xs m) = fst ` set m \<union> f ` set xs"
proof -
  show "(k, v) \<in> set (r xs m) \<Longrightarrow> (k, v) \<in> set m \<or> (\<exists>x\<in>set xs. f x = k \<and> g x = v)"
  proof (induction xs arbitrary: m)
    case (Cons x xs)
    then have "(k, v) \<in> set (r xs (if f x \<in> fst ` set m then m else dset m (f x) (g x)))" by (simp add: r_def)
    from Cons.IH [OF this] show ?case unfolding set_setdefault by (auto split: if_splits)
  qed (simp add: r_def)
  show "fst ` set (r xs m) = fst ` set m \<union> f ` set xs"
  proof (induction xs arbitrary: m)
    case (Cons x xs)
    have "r (x # xs) m = r xs (if f x \<in> fst ` set m then m else dset m (f x) (g x))" by (simp add: r_def)
    then show ?case using Cons.IH [of "if f x \<in> fst ` set m then m else dset m (f x) (g x)"]
      unfolding set_setdefault by auto
  qed (simp add: r_def)
qed

lemma unique_keys_facts:
  shows "(k, oid) \<in> set (unique_keys es) \<Longrightarrow> \<exists>e\<in>set es. txn_key e = k \<and> tx_org e = oid"
    and "fst ` set (unique_keys es) = txn_key ` set es"
  using fold_setdefault [where f = txn_key and g = tx_org and xs = es and m = "[]"] by (auto simp: unique_keys_def)

lemma map_of_updates: "map_of (fold (\<lambda>(k, g) m. dset m k g) us m) k = (map_of m ++ map_of (rev us)) k"
  by (induction us arbitrary: m) (auto simp: map_add_def split: option.splits)

lemma map_of_updates_cases:
  assumes "map_of (fold (\<lambda>(k, g) m. dset m k g) us m) k = Some q"
  shows "map_of m k = Some q \<or> (k, q) \<in> set us"
  using assms unfolding map_of_updates by (auto simp: map_add_def split: option.splits dest!: map_of_SomeD)

lemma dict_ok_fold_rows:
  "dict_ok m \<Longrightarrow> dict_ok (fold (\<lambda>((k, _), g) m. dset m k (tg_id g, tg_org g)) rows m)"
  by (induction rows arbitrary: m) auto

lemma dict_ok_fetch: "dict_ok (fetch_transaction_groups ks d)"
  unfolding fetch_transaction_groups_def by (rule dict_ok_fold_rows) simp

lemma stored_key_fits: "fits e \<Longrightarrow> stored_key (txn_key e) = Some (txn_key e)"
  by (simp add: stored_key_def txn_key_def varchar_def fits_def)

lemma missing_keys_of:
  assumes "q \<in> set (missing_keys es r)"
  shows "\<exists>e\<in>set es. q = (txn_key e, tx_org e)"
proof -
  have "(fst q, snd q) \<in> set (unique_keys es)" using assms by (simp add: missing_keys_def Let_def)
  from unique_keys_facts(1) [OF this] show ?thesis by (metis prod.collapse)
qed

lemma insert_groups_fits:
  assumes "\<forall>e\<in>set es. fits e"
  shows "insert_groups (missing_keys es r) d = Some (fold insert_group (missing_keys es r) d)"
proof -
  have "stored_key (fst q) = Some (fst q)" if "q \<in> set (missing_keys es r)" for q
    using missing_keys_of [OF that] assms stored_key_fits by auto
  then show ?thesis by (simp add: insert_groups_def map_idI)
qed

lemma resolve_groups_fits:
  assumes "\<forall>e\<in>set es. fits e"
  shows "resolve_groups es r d \<noteq> None"
  using insert_groups_fits [OF assms] by (simp add: resolve_groups_def Let_def)

lemma resolve_groups_ok:
  assumes ok: "groups_ok orgs d" and es: "events_ok orgs es" and rep: "replica_of r d"
    and fit: "\<forall>e\<in>set es. fits e" and res: "resolve_groups es r d = Some (ex, d1)"
  shows "groups_ok orgs d1" and "refines H d \<Longrightarrow> refines H d1"
    and "map_of ex k = Some q \<Longrightarrow> ref_in d1 k q"
    and "e \<in> set es \<Longrightarrow> map_of ex (txn_key e) \<noteq> None"
proof -
  define uk where "uk = unique_keys es"
  define ex0 where "ex0 = (if uk = [] then [] else fetch_transaction_groups (map fst uk) r)"
  define missing where "missing = missing_keys es r"
  define d' where "d' = fold insert_group missing d"
  define new where "new = fetch_transaction_groups (map fst missing) d'"
  have eq: "d1 = d'" "ex = (if missing = [] then ex0 else fold (\<lambda>(k, g) m. dset m k g) new ex0)"
    using res insert_groups_fits [OF fit]
    by (auto simp: resolve_groups_def Let_def uk_def ex0_def missing_def d'_def new_def split: if_splits)
  have m: "\<forall>(k, oid)\<in>set missing. map_of orgs (fst k) = Some oid"
  proof (intro ballI, clarify)
    fix k oid
    assume "(k, oid) \<in> set missing"
    then obtain e where e: "e \<in> set es" "k = txn_key e" "oid = tx_org e"
      using missing_keys_of [of "(k, oid)" es r] by (auto simp: missing_def)
    with es show "map_of orgs (fst k) = Some oid" by (simp add: events_ok_def)
  qed
  note fld = fold_insert_group [OF ok m, folded d'_def]
  show ok': "groups_ok orgs d1" using fld(1) by (simp add: eq)
  show "refines H d \<Longrightarrow> refines H d1" using fld(2) by (simp add: eq)
  have ex0: "ref_in d1 k q" if "map_of ex0 k = Some q" for k q
    using fetch_sound [OF ok rep, of "map fst uk" k q] that fld(3)
    by (fastforce simp: ex0_def ref_in_def eq split: if_splits)
  have "dict_ok new" unfolding new_def by (rule dict_ok_fetch)
  then have nw: "ref_in d1 k q" if "(k, q) \<in> set new" for k q
    using fetch_sound [OF fld(1) replica_of_refl [OF fld(1)], of "map fst missing" k q] that
    by (simp add: new_def eq)
  show "map_of ex k = Some q \<Longrightarrow> ref_in d1 k q"
    using ex0 [of k q] nw [of k q] map_of_updates_cases [of new ex0 k q] by (cases "missing = []") (auto simp: eq)
  assume "e \<in> set es"
  then have "txn_key e \<in> fst ` set uk"
    unfolding uk_def unique_keys_facts(2) by (rule imageI)
  then obtain oid where uk: "(txn_key e, oid) \<in> set uk" by fastforce
  show "map_of ex (txn_key e) \<noteq> None"
  proof (cases "txn_key e \<in> fst ` set ex0")
    case True
    then obtain q where "map_of ex0 (txn_key e) = Some q" by (metis map_of_eq_None_iff not_Some_eq)
    then show ?thesis by (cases "map_of (rev new) (txn_key e)") (auto simp: eq map_of_updates map_add_def)
  next
    case False
    with uk have mem: "(txn_key e, oid) \<in> set missing"
      unfolding missing_def missing_keys_def Let_def ex0_def uk_def by simp
    then obtain g where "map_of (groups d') (txn_key e, oid) = Some g" using fld(4) by blast
    then have "txn_key e \<in> fst ` set new"
      using fetch_complete [of "txn_key e" oid g d' "map fst missing"] mem map_of_SomeD
      by (force simp: new_def map_of_eq_None_iff)
    then have "map_of (rev new) (txn_key e) \<noteq> None" by (simp add: map_of_eq_None_iff)
    with mem show ?thesis by (auto simp: eq map_of_updates map_add_def)
  qed
qed

text \<open>In the primary, group ids and keys identify each other.\<close>

lemma ref_in_id:
  assumes ok: "groups_ok orgs d" and q: "ref_in d k' q" and g: "((k, oid), g) \<in> set (groups d)"
  shows "fst q = tg_id g \<longleftrightarrow> k' = k" and "k' = k \<Longrightarrow> snd q = tg_org g"
proof -
  obtain g' where g': "map_of (groups d) (k', snd q) = Some g'" "tg_id g' = fst q" "tg_org g' = snd q"
    using q by (auto simp: ref_in_def)
  then have mem: "((k', snd q), g') \<in> set (groups d)" by (rule_tac map_of_SomeD)
  have "inj_on (\<lambda>(_, g). tg_id g) (set (groups d))" using ok by (simp add: groups_ok_def distinct_map)
  then have "((k', snd q), g') = ((k, oid), g)" if "fst q = tg_id g"
    by (rule inj_onD) (use mem g g' that in simp_all)
  moreover have *: "snd q = tg_org g" if "k' = k"
    using groups_okD [OF ok mem] groups_okD [OF ok g] g' that by simp
  moreover have "g' = g" if "k' = k"
    using * [OF that] that g' g groups_okD(2) [OF ok g] ok by (simp add: groups_ok_def)
  ultimately show "fst q = tg_id g \<longleftrightarrow> k' = k" "k' = k \<Longrightarrow> snd q = tg_org g" using g' by auto
qed

lemma fold_append_group:
  "fold (\<lambda>x a. Some ((case a of None \<Rightarrow> [] | Some l \<Rightarrow> l) @ [f x])) xs a =
   (if xs = [] then a else Some ((case a of None \<Rightarrow> [] | Some l \<Rightarrow> l) @ map f xs))"
  by (induction xs arbitrary: a) (auto split: option.splits)

lemma map_of_group_durations:
  "map_of (group_durations xs) gid =
     (let ys = filter (\<lambda>x. fst (snd x) = gid) xs in
      if ys = [] then None else Some (map (\<lambda>x. fst (outcome (fst x))) ys))"
  unfolding group_durations_def
  by (simp add: dict.get_fold [where stp = "\<lambda>a x. (case a of None \<Rightarrow> [] | Some l \<Rightarrow> l) @ [duration_ms (tx_start (fst x)) (tx_end (fst x))]"]
      fold_append_group outcome_def Let_def)

lemma fold_last: "fold (\<lambda>x a. Some (f x)) xs a = (if xs = [] then a else Some (f (last xs)))"
  by (induction xs arbitrary: a) auto

lemma map_of_group_org_ids:
  "map_of (group_org_ids xs) gid =
     (let ys = filter (\<lambda>x. fst (snd x) = gid) xs in if ys = [] then None else Some (snd (snd (last ys))))"
  unfolding group_org_ids_def case_prod_unfold
  by (simp add: dict.get_fold [where stp = "\<lambda>a x. snd (snd x)"] fold_last Let_def)

lemma grouped_total:
  assumes "\<forall>e\<in>set es. map_of ex (txn_key e) \<noteq> None"
  shows "grouped ex es = map (\<lambda>e. (e, the (map_of ex (txn_key e)))) es"
  using assms by (induction es) (auto simp: grouped_def map_filter_simps)

text \<open>What the update does to one row.\<close>

lemma update_row_id [simp]:
  "tg_id (update_row durations errors orgs g) = tg_id g" "tg_org (update_row durations errors orgs g) = tg_org g"
  by (simp_all add: update_row_def Let_def set_percentiles_def merge_group_def split: option.splits)

lemma update_row_represents:
  fixes es xs
  assumes ok: "groups_ok orgs d" and ex: "\<And>k q. map_of ex k = Some q \<Longrightarrow> ref_in d k q"
    and tot: "\<forall>e\<in>set es. map_of ex (txn_key e) \<noteq> None"
    and g: "((k, oid), g) \<in> set (groups d)" and r: "represents g (H k)"
  defines "xs \<equiv> grouped ex es"
  shows "represents (update_row (group_durations xs) (group_error_counts xs) (group_org_ids xs) g) (record_batch H es k)"
proof -
  define ys where "ys = filter (\<lambda>e. txn_key e = k) es"
  have ref: "ref_in d (txn_key e) (the (map_of ex (txn_key e)))" if "e \<in> set es" for e
    using ex tot that by fastforce
  have "filter (\<lambda>x. fst (snd x) = tg_id g) xs = map (\<lambda>e. (e, the (map_of ex (txn_key e)))) ys"
    unfolding xs_def grouped_total [OF tot] ys_def filter_map
    using ref_in_id(1) [OF ok ref g] by (intro arg_cong [where f = "map _"] filter_cong) auto
  then have sel: "filter (\<lambda>x. fst (snd x) = tg_id g) xs = map (\<lambda>e. (e, the (map_of ex (txn_key e)))) ys" .
  have dur: "map_of (group_durations xs) (tg_id g) = (if ys = [] then None else Some (map fst (map outcome ys)))"
    by (simp add: map_of_group_durations sel Let_def comp_def)
  have "filter (\<lambda>(e, i, _). i = tg_id g \<and> is_error_status (tx_status e)) xs =
      filter (\<lambda>x. is_error_status (tx_status (fst x))) (filter (\<lambda>x. fst (snd x) = tg_id g) xs)"
    by (auto intro!: filter_cong)
  then have err: "group_error_counts xs (tg_id g) = length (filter snd (map outcome ys))"
    by (simp add: group_error_counts_def sel filter_map comp_def outcome_def)
  show ?thesis
  proof (cases "ys = []")
    case True
    then have "tg_id g \<notin> fst ` set (group_durations xs)" using dur by (simp add: map_of_eq_None_iff)
    with True dur r show ?thesis by (simp add: update_row_def record_batch_def ys_def)
  next
    case False
    then have "last ys \<in> set ys" by simp
    then have "last ys \<in> set es" "txn_key (last ys) = k" by (auto simp: ys_def)
    then have "snd (the (map_of ex (txn_key (last ys)))) = tg_org g"
      using ref_in_id(2) [OF ok ref g] by blast
    then have org: "map_of (group_org_ids xs) (tg_id g) = Some (tg_org g)"
      using False by (simp add: map_of_group_org_ids sel Let_def last_map)
    have mem: "(tg_id g, map fst (map outcome ys)) \<in> set (group_durations xs)"
      using dur False by (simp add: map_of_SomeD)
    then have "tg_id g \<in> fst ` set (group_durations xs)"
      "tg_org g \<in> (\<lambda>(i, _). the (map_of (group_org_ids xs) i)) ` set (group_durations xs)"
      using org by force+
    with False dur org err r show ?thesis
      using represents_merge_group [OF r, of "map outcome ys"] by (simp add: update_row_def record_batch_def ys_def)
  qed
qed

lemma update_stats_ok:
  assumes "groups_ok orgs d"
  shows "groups_ok orgs (d\<lparr>groups := update_transaction_group_stats durations errors orgids (groups d)\<rparr>)"
proof -
  have "map fst (map (\<lambda>(k, g). (k, update_row durations errors orgids g)) tbl) = map fst tbl"
    "map (\<lambda>(_, g). tg_id g) (map (\<lambda>(k, g). (k, update_row durations errors orgids g)) tbl) = map (\<lambda>(_, g). tg_id g) tbl"
    for tbl :: "(group_key \<times> int, txn_group) dict"
    by (induction tbl) auto
  then show ?thesis
    using assms unfolding groups_ok_def update_transaction_group_stats_def
    by (simp add: case_prod_unfold del: map_map)
qed

lemma groups_cong:
  assumes "groups d = groups d'" "next_group d = next_group d'"
  shows "groups_ok orgs d = groups_ok orgs d'" "refines H d = refines H d'" "replica_of r d = replica_of r d'"
  using assms by (simp_all add: groups_ok_def refines_def replica_of_def)

text \<open>The state from which the groups are resolved, and the result over the resolution.\<close>

lemma process_result:
  obtains d0 where "groups d0 = groups d" "next_group d0 = next_group d" "txn_stats d0 = txn_stats d" "span_staging d0 = span_staging d"
    "resolve_groups es r d0 = None \<Longrightarrow> process_transaction_events now collect_spans ids es r d = (Some GroupDataError, d0)"
    "\<And>ex d1. resolve_groups es r d0 = Some (ex, d1) \<Longrightarrow>
       let xs = grouped ex es;
           spans = (if collect_spans then concat (map (\<lambda>(j, e, _). span_rows_of (ids j) e) (List.enumerate 0 xs)) else []);
           d2 = d1\<lparr>groups := update_transaction_group_stats (group_durations xs) (group_error_counts xs) (group_org_ids xs) (groups d1)\<rparr>
       in process_transaction_events now collect_spans ids es r d =
         (if \<exists>r\<in>set spans. CHR 0x00 \<in> set (sr_span_id r) then (Some SpanDataError, d2)
          else (None, d2\<lparr>span_staging := span_staging d2 @ spans,
             txn_stats := upsert_counts (sort_key (\<lambda>((d, k), (n, oid)). (d, k, oid)) (txn_data_stats xs)) (txn_stats d2)\<rparr>))"
proof -
  let ?ps = "remdups (map (\<lambda>(_, p, _). p) (release_set es @ environment_set es))"
  obtain a b rel where rel: "get_or_create_related_models (release_set es) (environment_set es) ?ps (t_related r) (t_related d) = (a, b, rel)"
    by (metis prod.exhaust)
  define d0 where "d0 = d\<lparr>first_events := set_first_events now es (first_events d), t_related := rel\<rparr>"
  show thesis
    by (rule that [of d0])
      (simp_all add: process_transaction_events_def rel d0_def Let_def update_statistics_def STATS_TABLES_def del: map_append)
qed

text \<open>
  Property C33. Processing a batch of transactions implements the recording of their outcomes: when
  the rows of the groups represent the history \<open>H\<close> (count, errors, mean, histogram, p50 and p95),
  they represent \<open>H\<close> with the batch appended afterwards, every event has the row of its key, and the
  table keeps its invariant, also when the replica used for the lookup lags behind. Operation and method of every
  event fit their columns (\<open>fits\<close>); the database refuses any other batch.
\<close>

theorem transaction_groups_refine_history:
  fixes now collect_spans ids
  assumes "groups_ok orgs d" "events_ok orgs es" "replica_of r d" "\<forall>e\<in>set es. fits e" "refines H d"
  defines "d' \<equiv> snd (process_transaction_events now collect_spans ids es r d)"
  shows "groups_ok orgs d' \<and> refines (record_batch H es) d' \<and>
    (\<forall>e\<in>set es. (txn_key e, tx_org e) \<in> fst ` set (groups d'))"
proof -
  obtain d0 where d0: "groups d0 = groups d" "next_group d0 = next_group d"
    and res: "\<And>ex d1. resolve_groups es r d0 = Some (ex, d1) \<Longrightarrow>
      groups d' = update_transaction_group_stats (group_durations (grouped ex es)) (group_error_counts (grouped ex es))
        (group_org_ids (grouped ex es)) (groups d1) \<and> next_group d' = next_group d1"
    by (rule process_result [of d es r now collect_spans ids]) (auto simp: d'_def Let_def)
  obtain ex d1 where r1: "resolve_groups es r d0 = Some (ex, d1)" using resolve_groups_fits [OF assms(4)] by fast
  note gs = conjunct1 [OF res [OF r1]] and nx = conjunct2 [OF res [OF r1]]
  note r = resolve_groups_ok [OF _ assms(2) _ assms(4) r1, unfolded groups_cong [OF d0], OF assms(1,3)]
  have tot: "\<forall>e\<in>set es. map_of ex (txn_key e) \<noteq> None" using r(4) by blast
  have ok: "groups_ok orgs d'"
    using update_stats_ok [OF r(1)] by (rule iffD1 [OF groups_cong(1), rotated 2]) (simp_all add: gs nx)
  have row: "(txn_key e, tx_org e) \<in> fst ` set (groups d1)" if "e \<in> set es" for e
  proof -
    obtain q where "map_of ex (txn_key e) = Some q" using tot \<open>e \<in> set es\<close> by blast
    then obtain g where g: "map_of (groups d1) (txn_key e, snd q) = Some g" using r(3) [of "txn_key e" q] by (auto simp: ref_in_def)
    have "map_of orgs (tx_project e) = Some (tx_org e)" using assms(2) \<open>e \<in> set es\<close> by (simp add: events_ok_def)
    with groups_okD(3) [OF r(1) map_of_SomeD [OF g]] have "snd q = tx_org e" by simp
    with map_of_SomeD [OF g] show ?thesis by force
  qed
  have keys: "fst ` set (groups d') = fst ` set (groups d1)"
    by (force simp: gs update_transaction_group_stats_def)
  have ref1: "refines H d1" using r(2) [OF assms(5)] .
  have "represents g (record_batch H es k)" if mem: "((k, oid), g) \<in> set (groups d')" for k oid g
  proof -
    obtain g0 where g0: "((k, oid), g0) \<in> set (groups d1)"
      "g = update_row (group_durations (grouped ex es)) (group_error_counts (grouped ex es)) (group_org_ids (grouped ex es)) g0"
      using mem unfolding gs update_transaction_group_stats_def by auto
    have "represents g0 (H k)" using ref1 g0(1) unfolding refines_def by blast
    then show ?thesis unfolding g0(2) by (intro update_row_represents [OF r(1) r(3) tot g0(1)])
  qed
  moreover have "record_batch H es k = []" if no: "\<forall>oid. (k, oid) \<notin> fst ` set (groups d')" for k
  proof -
    have "H k = []" using ref1 no unfolding refines_def keys by blast
    moreover have "filter (\<lambda>e. txn_key e = k) es = []" using row no unfolding keys filter_empty_conv by blast
    ultimately show ?thesis by (simp add: record_batch_def)
  qed
  ultimately have "refines (record_batch H es) d'" unfolding refines_def by fast
  with ok row keys show ?thesis by blast
qed

text \<open>Statistics of the batch.\<close>

lemma map_of_txn_data_stats:
  "map_of (txn_data_stats xs) (h, p) =
     (let ys = filter (\<lambda>x. (hour_of (tx_received (fst x)), tx_project (fst x)) = (h, p)) xs in
      if ys = [] then None else Some (int (length ys), tx_org (fst (last ys))))"
  unfolding txn_data_stats_def
  by (simp add: dict.get_fold [where stp = "\<lambda>a x. stat_step a (tx_org (fst x))"] fold_stat_step Let_def)

lemma dict_ok_txn_data_stats: "dict_ok (txn_data_stats xs)"
  unfolding txn_data_stats_def
  by (rule dict.ok_fold [where stp = "\<lambda>a x. stat_step a (tx_org (fst x))"]) simp

lemma resolve_groups_others:
  assumes "resolve_groups es r d = Some (ex, d1)"
  shows "txn_stats d1 = txn_stats d" "span_staging d1 = span_staging d"
proof -
  have "txn_stats (fold insert_group qs d) = txn_stats d" "span_staging (fold insert_group qs d) = span_staging d" for qs
    by (induction qs arbitrary: d) (simp_all add: insert_group_def)
  then show "txn_stats d1 = txn_stats d" "span_staging d1 = span_staging d"
    using assms by (auto simp: resolve_groups_def insert_groups_def Let_def split: if_splits)
qed

text \<open>
  Further property. Every transaction of a batch that is stored is counted once, in the hour in which the
  server received it, whatever times the client sent; other counters keep their value.
\<close>

theorem transaction_usage_is_counted:
  fixes now collect_spans ids
  assumes "groups_ok orgs d" "events_ok orgs es" "replica_of r d" "\<forall>e\<in>set es. fits e"
    and "process_transaction_events now collect_spans ids es r d = (None, d')"
  shows "val (txn_stats d') (p, oid, h) = val (txn_stats d) (p, oid, h) +
    int (length (filter (\<lambda>e. hour_of (tx_received e) = h \<and> tx_project e = p \<and> tx_org e = oid) es))"
proof -
  obtain d0 where d0: "groups d0 = groups d" "next_group d0 = next_group d" "txn_stats d0 = txn_stats d"
    and res: "\<And>ex d1. resolve_groups es r d0 = Some (ex, d1) \<Longrightarrow>
      fst (process_transaction_events now collect_spans ids es r d) = None \<longrightarrow>
      txn_stats (snd (process_transaction_events now collect_spans ids es r d)) =
      upsert_counts (sort_key (\<lambda>((d, k), (n, oid)). (d, k, oid)) (txn_data_stats (grouped ex es))) (txn_stats d1)"
    by (rule process_result [of d es r now collect_spans ids]) (auto simp: Let_def)
  obtain ex d1 where r1: "resolve_groups es r d0 = Some (ex, d1)" using resolve_groups_fits [OF assms(4)] by fast
  have tot: "\<forall>e\<in>set es. map_of ex (txn_key e) \<noteq> None"
    using resolve_groups_ok(4) [OF _ assms(2) _ assms(4) r1, unfolded groups_cong [OF d0(1,2)], OF assms(1,3)] by blast
  have st: "txn_stats d' = upsert_counts (sort_key (\<lambda>((d, k), (n, oid)). (d, k, oid)) (txn_data_stats (grouped ex es))) (txn_stats d1)"
    using res [OF r1] assms(5) by simp
  define ys where "ys = filter (\<lambda>e. hour_of (tx_received e) = h \<and> tx_project e = p) es"
  have "map_of (txn_data_stats (grouped ex es)) (h, p) = (if ys = [] then None else Some (int (length ys), tx_org (last ys)))"
    by (simp add: map_of_txn_data_stats grouped_total [OF tot] filter_map comp_def ys_def Let_def last_map)
  moreover have "\<forall>e\<in>set ys. \<forall>e'\<in>set ys. tx_org e = tx_org e'"
    using assms(2) unfolding ys_def events_ok_def by (simp, metis option.inject)
  ultimately have "val (txn_stats d') (p, oid, h) = val (txn_stats d) (p, oid, h) + int (length (filter (\<lambda>e. tx_org e = oid) ys))"
    using hourly_val [where org = tx_org and ys = ys and hr = h, OF dict_ok_txn_data_stats] resolve_groups_others(1) [OF r1] st d0(3)
    by (simp only: Let_def)
  then show ?thesis by (simp add: ys_def conj_commute conj_left_commute)
qed

text \<open>
  Further property. A batch that raises: it raises before the groups are written exactly when a group
  that is not found has an operation or a method its column cannot hold, and then nothing of any
  transaction of the batch is recorded; a NUL in a span id raises after the groups are updated,
  and then the usage of the batch is not counted and none of its spans is staged.
\<close>

theorem transaction_batch_errors:
  fixes now collect_spans ids es r d
  defines "res \<equiv> process_transaction_events now collect_spans ids es r d"
  shows "(fst res = Some GroupDataError \<longleftrightarrow> (\<exists>q\<in>set (missing_keys es r). stored_key (fst q) = None)) \<and>
    (fst res = Some GroupDataError \<longrightarrow> groups (snd res) = groups d) \<and>
    (fst res \<noteq> None \<longrightarrow> txn_stats (snd res) = txn_stats d \<and> span_staging (snd res) = span_staging d)"
proof -
  obtain d0 where d0: "groups d0 = groups d" "txn_stats d0 = txn_stats d" "span_staging d0 = span_staging d"
    and none: "resolve_groups es r d0 = None \<Longrightarrow> res = (Some GroupDataError, d0)"
    and some: "\<And>ex d1. resolve_groups es r d0 = Some (ex, d1) \<Longrightarrow> fst res \<noteq> Some GroupDataError \<and>
      (fst res \<noteq> None \<longrightarrow> txn_stats (snd res) = txn_stats d1 \<and> span_staging (snd res) = span_staging d1)"
    by (rule process_result [of d es r now collect_spans ids]) (auto simp: res_def Let_def)
  have iff: "resolve_groups es r d0 = None \<longleftrightarrow> (\<exists>q\<in>set (missing_keys es r). stored_key (fst q) = None)"
    by (auto simp: resolve_groups_def insert_groups_def Let_def split: option.splits)
  show ?thesis
  proof (cases "resolve_groups es r d0")
    case None
    then show ?thesis using iff none d0 by simp
  next
    case (Some p)
    then obtain ex d1 where p: "resolve_groups es r d0 = Some (ex, d1)" by (cases p) auto
    show ?thesis using some [OF p] iff p d0 resolve_groups_others [OF p] by auto
  qed
qed

lemma process_no_spans:
  assumes "\<forall>e\<in>set es. fits e"
  shows "\<exists>d'. process_transaction_events now False ids es r d = (None, d')"
proof -
  obtain d0 where d0: "groups d0 = groups d"
    and res: "\<And>ex d1. resolve_groups es r d0 = Some (ex, d1) \<Longrightarrow> fst (process_transaction_events now False ids es r d) = None"
    by (rule process_result [of d es r now False ids]) (auto simp: Let_def)
  obtain ex d1 where "resolve_groups es r d0 = Some (ex, d1)" using resolve_groups_fits [OF assms] by fast
  from res [OF this] show ?thesis by (metis prod.collapse)
qed

text \<open>Staged spans.\<close>

lemma length_parameterize: "length (parameterize_description op desc) \<le> 500"
  by (simp add: parameterize_description_def MAX_DESCRIPTION_LENGTH_def split: option.split)

text \<open>
  Further property. Of a transaction at most a thousand spans are staged, in order, and every staged row
  fits its columns and has a duration that is not negative, whatever the client sent.
\<close>

theorem staged_spans_fit:
  "length (span_rows_of ids e) = min (length (tx_spans e)) 1000 \<and>
   list_all (\<lambda>row.
      length (sr_transaction row) \<le> 1024 \<and> length (sr_span_id row) \<le> 32 \<and> length (sr_transaction_id row) \<le> 32 \<and>
      length (sr_op row) \<le> 255 \<and> length (sr_description row) \<le> 500 \<and> 0 \<le> sr_duration row \<and>
      CHR 0x00 \<notin> set (sr_transaction row @ sr_op row @ sr_description row)) (span_rows_of ids e)"
proof -
  have len: "length (clean_string s) \<le> n" if "length s \<le> n" for s n
    using length_clean_string [of s] that by (rule le_trans)
  have "0 \<le> (case (a, b) of (Some a, Some b) \<Rightarrow> duration_ms a b | _ \<Rightarrow> 0)" for a b
    by (simp add: duration_ms_def split: option.split)
  then show ?thesis
    by (auto simp: list_all_iff span_rows_of_def MAX_SPANS_PER_TRANSACTION_def txn_key_def min.commute length_parameterize intro!: len)
qed

section \<open>Witnesses\<close>

definition demo_txn :: "string \<Rightarrow> datetime \<Rightarrow> string option \<Rightarrow> txn_event" where
  "demo_txn op dur status = \<lparr>tx_project = 1, tx_org = 5, tx_received = 7200000000, tx_name = ''/a'', tx_op = op, tx_status = status,
     tx_method = ''GET'', tx_start = 0, tx_end = dur, tx_event_id = ''ab'', tx_spans = [], tx_release = None, tx_environment = None,
     tx_update_first = False\<rparr>"

definition demo_txn_db :: txn_db where
  "demo_txn_db = \<lparr>next_group = 1, groups = [], span_staging = [], txn_stats = [], first_events = [],
     t_related = \<lparr>project_orgs = [(1, 5)], releases_t = \<lparr>next_id = 1, names = [], links = []\<rparr>,
       environments_t = \<lparr>next_id = 1, names = [], links = []\<rparr>, dif_projects = []\<rparr>\<rparr>"

lemmas demo_txn_simps = demo_txn_def demo_txn_db_def groups_ok_def events_ok_def replica_of_def refines_def fits_def
  clean_string_filter

lemma percentile_is_order_statistic_witness:
  "percentile_from_histogram (merge_durations new_histogram [0, 1, 70000, 90000]) 4 50 = Some (bucket_midpoint 0)"
proof -
  have "sort [0, 1, 70000, 90000 :: real] = [0, 1, 70000, 90000]" by simp
  moreover have "get_bucket_index 1 = 0" by (simp add: get_bucket_index_def MIN_MS_def)
  ultimately show ?thesis
    using percentile_is_order_statistic [of "[0, 1, 70000, 90000]" 50] by (simp add: eval_nat_numeral)
qed

lemma transaction_groups_refine_history_witness:
  "refines (record_batch (\<lambda>_. []) [demo_txn ''db'' 500 None, demo_txn ''db'' 70000000 (Some ''aborted'')])
     (snd (process_transaction_events 0 True (\<lambda>_ _. 0) [demo_txn ''db'' 500 None, demo_txn ''db'' 70000000 (Some ''aborted'')] demo_txn_db demo_txn_db))"
  by (rule transaction_groups_refine_history [of "[(1, 5)]" demo_txn_db, THEN conjunct2, THEN conjunct1])
    (simp_all add: demo_txn_simps)

lemma transaction_batch_errors_witness:
  "txn_stats (snd (process_transaction_events 0 True (\<lambda>_ _. 0) [demo_txn (replicate 256 (CHR ''x'')) 1 None] demo_txn_db demo_txn_db)) = []"
proof -
  have "fst (process_transaction_events 0 True (\<lambda>_ _. 0) [demo_txn (replicate 256 (CHR ''x'')) 1 None] demo_txn_db demo_txn_db) = Some GroupDataError"
    by (subst transaction_batch_errors [THEN conjunct1])
      (simp add: missing_keys_def unique_keys_def fetch_transaction_groups_def demo_txn_simps txn_key_def stored_key_def varchar_def)
  then show ?thesis
    using transaction_batch_errors [of 0 True "\<lambda>_ _. 0" "[demo_txn (replicate 256 (CHR ''x'')) 1 None]" demo_txn_db demo_txn_db]
    by (simp add: demo_txn_db_def)
qed

lemma transaction_usage_is_counted_witness:
  "\<exists>d'. process_transaction_events 0 False (\<lambda>_ _. 0) [demo_txn ''db'' 500 None] demo_txn_db demo_txn_db = (None, d') \<and>
     val (txn_stats d') (1, 5, 7200000000) = 1"
proof -
  have fit: "\<forall>e\<in>set [demo_txn ''db'' 500 None]. fits e" by (simp add: demo_txn_simps)
  obtain d' where d': "process_transaction_events 0 False (\<lambda>_ _. 0) [demo_txn ''db'' 500 None] demo_txn_db demo_txn_db = (None, d')"
    using process_no_spans [OF fit] by blast
  have "val (txn_stats d') (1, 5, 7200000000) = 1"
    by (subst transaction_usage_is_counted [OF _ _ _ fit d', where orgs = "[(1, 5)]"])
      (simp_all add: demo_txn_simps val_def hour_of_def)
  with d' show ?thesis by blast
qed

end
