(* ===== verification/Ingest_Views.thy ===== *)
theory Ingest_Views
  imports Event_Auth Pii_Scrubber
begin

text \<open>
  The ingest endpoints: \<open>apps/event_ingest/views.py\<close> (envelopes and minidumps), the store and
  security endpoints of \<open>apps/event_ingest/api.py\<close>, \<open>apps/event_ingest/otlp_views.py\<close>, and the parts
  of \<open>rust_envelope.py\<close> and \<open>schema.py\<close> they use. They authenticate, scrub, deduplicate and hand
  messages to the workers.

  Validation of a body by its schema, decompression and framing, minidump parsing, address
  anonymization, clocks and id generators are arguments (\<open>ingest_env\<close>): a validator returns \<open>None\<close>
  where the code has an exception, whatever its class. The cache entries of seen event ids are kept
  apart from the throttle entries: their keys have different prefixes.
\<close>

section \<open>Data\<close>

record item_header =
  ih_type :: string
  ih_attachment_type :: "string option"

text \<open>A validated event: \<open>item.event_id\<close>, whether it has exceptions, and \<open>item.dict()\<close>.\<close>

record event_item =
  ei_event_id :: "uuid option"
  ei_exception :: bool
  ei_dict :: "(pkey \<times> json) list"

record feedback_context =
  fb_message :: string
  fb_name :: string
  fb_contact_email :: string
  fb_associated_event_id :: "string option"

record user_report_payload =
  ur_event_id :: "uuid option"
  ur_name :: string
  ur_email :: string
  ur_comments :: string

record user_report_data =
  rd_event_id :: "string option"
  rd_name :: string
  rd_email :: string
  rd_comments :: string

record ingest_message =
  im_project :: int
  im_org :: int
  im_payload :: "(pkey \<times> json) list"
  im_received :: datetime
  im_update_first :: bool
  im_uuid :: nat

datatype ingest_task =
    IngestEvent ingest_message
  | IngestTransaction ingest_message
  | IngestUserReport int int user_report_data
  | IngestLogs int int datetime "(pkey \<times> json) list list"

text \<open>The errors of the decompression and of the framing: \<open>EnvelopeTooBig\<close> and \<open>ValueError\<close>.\<close>

datatype body_error = EnvelopeTooBig | BadBody

record ingest_env =
  frame_envelope :: "string \<Rightarrow> string option \<Rightarrow> body_error + string \<times> (string \<times> string) list"
  decompress :: "string \<Rightarrow> string \<Rightarrow> body_error + string"
  valid_envelope_header :: "string \<Rightarrow> uuid option option"
  valid_item_header :: "string \<Rightarrow> item_header option"
  valid_event :: "string \<Rightarrow> event_item option"
  valid_transaction :: "string \<Rightarrow> event_item option"
  valid_feedback :: "string \<Rightarrow> feedback_context option"
  valid_report :: "string \<Rightarrow> user_report_payload option"
  valid_logs :: "string \<Rightarrow> (pkey \<times> json) list list option"
  valid_otel_log :: "string \<Rightarrow> (pkey \<times> json) list option"
  otlp_logs :: "string \<Rightarrow> (pkey \<times> json) list list option"
  minidump_event :: "string \<Rightarrow> json \<Rightarrow> event_item option"
  anonymize_ip :: "string \<Rightarrow> string"
  loads_fn :: "string \<Rightarrow> json option"
  repr_fn :: "json \<Rightarrow> string"
  uuid4 :: "nat \<Rightarrow> uuid"
  uuid7_now :: "nat \<Rightarrow> nat"
  clock :: "nat \<Rightarrow> datetime"
  ENABLE_LOGS :: bool
  PII_SCRUB_DEFAULT :: json

text \<open>\<open>rq_body\<close> is \<open>None\<close> when reading the body raises \<open>RequestDataTooBig\<close>.\<close>

record ingest_request =
  rq_http :: http_request
  rq_method :: string
  rq_body :: "string option"
  rq_client_ip :: "string \<times> bool"

record 'c ingest_db =
  auth_st :: "'c ingest_state"
  seen_ids :: "(string, datetime) dict"
  task_queue :: "ingest_task list"
  tick :: nat

text \<open>Status, the \<open>Retry-After\<close> header and the event id of the body; a crash is an uncaught exception.\<close>

datatype http_response = Response nat "int option" "uuid option" | ServerError

section \<open>Helpers\<close>

definition DECODABLE :: "string list" where
  "DECODABLE = [''gzip'', ''deflate'', ''br'', ''zstd'']"

definition request_content_encoding :: "http_request \<Rightarrow> string option" where
  "request_content_encoding r =
     (let encoding = lower (case map_of (META r) ''HTTP_CONTENT_ENCODING'' of None \<Rightarrow> [] | Some v \<Rightarrow> v) in
      if encoding \<in> set DECODABLE then Some encoding else None)"

definition MINIDUMP_MAGIC :: string where "MINIDUMP_MAGIC = ''MDMP''"

definition SUPPORTED_ITEMS :: "string list" where
  "SUPPORTED_ITEMS = [''transaction'', ''event'', ''user_report'', ''feedback'', ''log'', ''otel_log'']"

definition get_ip_address :: "ingest_env \<Rightarrow> project_auth_info \<Rightarrow> ingest_request \<Rightarrow> string option" where
  "get_ip_address env project req =
     (let (client_ip, is_routable) = rq_client_ip req in
      if is_routable then Some (if should_scrub_ip_addresses project then anonymize_ip env client_ip else client_ip) else None)"

text \<open>\<open>EventUser(ip_address=...).dict()\<close>, and the update of an event's user.\<close>

definition new_user :: "string \<Rightarrow> (pkey \<times> json) list" where
  "new_user ip = [(KStr ''id'', JNone), (KStr ''username'', JNone), (KStr ''email'', JNone), (KStr ''ip_address'', JStr ip),
     (KStr ''data'', JNone), (KStr ''geo'', JNone)]"

definition set_user_ip :: "string option \<Rightarrow> (pkey \<times> json) list \<Rightarrow> (pkey \<times> json) list" where
  "set_user_ip client_ip payload =
     (case client_ip of
        None \<Rightarrow> payload
      | Some ip \<Rightarrow>
          if ip = [] then payload
          else (case map_of payload (KStr ''user'') of
                  Some (JDict u) \<Rightarrow> dset payload (KStr ''user'') (JDict (dset u (KStr ''ip_address'') (JStr ip)))
                | _ \<Rightarrow> dset payload (KStr ''user'') (JDict (new_user ip))))"

definition feedback_report :: "feedback_context \<Rightarrow> user_report_data" where
  "feedback_report fb = \<lparr>rd_event_id = fb_associated_event_id fb, rd_name = take 128 (fb_name fb),
     rd_email = take 254 (fb_contact_email fb), rd_comments = fb_message fb\<rparr>"

definition legacy_report :: "user_report_payload \<Rightarrow> user_report_data" where
  "legacy_report r = \<lparr>rd_event_id = map_option uuid_str (ur_event_id r), rd_name = take 128 (ur_name r),
     rd_email = take 254 (ur_email r), rd_comments = ur_comments r\<rparr>"

text \<open>\<open>cache.aadd\<close> with the default timeout of 300 seconds.\<close>

definition DEFAULT_TIMEOUT_US :: int where "DEFAULT_TIMEOUT_US = 300000000"

definition cache_add :: "(string, datetime) dict \<Rightarrow> datetime \<Rightarrow> string \<Rightarrow> bool \<times> (string, datetime) dict" where
  "cache_add c now key =
     (case map_of c key of
        Some expires \<Rightarrow> if now < expires then (False, c) else (True, dset c key (now + DEFAULT_TIMEOUT_US))
      | None \<Rightarrow> (True, dset c key (now + DEFAULT_TIMEOUT_US)))"

definition seen_key :: "uuid \<Rightarrow> string" where "seen_key eid = ''uuid'' @ hex_of 32 eid"

definition envelope_error_response :: "body_error \<Rightarrow> http_response" where
  "envelope_error_response e = (case e of EnvelopeTooBig \<Rightarrow> Response 413 None None | BadBody \<Rightarrow> Response 400 None None)"

section \<open>Enqueueing\<close>

definition issue_message ::
    "ingest_env \<Rightarrow> project_auth_info \<Rightarrow> int \<Rightarrow> nat \<Rightarrow> (pkey \<times> json) list \<Rightarrow> ingest_message" where
  "issue_message env project pid n payload =
     \<lparr>im_project = pid, im_org = organization_id project,
      im_payload = scrub_event (resolve_scrubber (loads_fn env) (repr_fn env) (project_scrub_config project) (PII_SCRUB_DEFAULT env)) payload,
      im_received = clock env n, im_update_first = (first_event project = None), im_uuid = uuid7_now env n\<rparr>"

definition enqueue :: "ingest_task \<Rightarrow> 'c ingest_db \<Rightarrow> 'c ingest_db" where
  "enqueue t db = db\<lparr>task_queue := task_queue db @ [t]\<rparr>"

text \<open>\<open>if await cache.aadd("uuid" + event_id.hex, True): await task.aenqueue(...)\<close>.\<close>

definition enqueue_once :: "ingest_env \<Rightarrow> uuid \<Rightarrow> ingest_task \<Rightarrow> 'c ingest_db \<Rightarrow> 'c ingest_db" where
  "enqueue_once env eid t db =
     (let (fresh, c) = cache_add (seen_ids db) (clock env (tick db)) (seen_key eid); db1 = db\<lparr>seen_ids := c\<rparr>
      in if fresh then enqueue t db1 else db1)"

text \<open>\<open>item.dict()\<close> once the event id is set, with the issue type: 1 for errors, 0 otherwise.\<close>

definition issue_dict :: "event_item \<Rightarrow> uuid \<Rightarrow> string option \<Rightarrow> (pkey \<times> json) list" where
  "issue_dict item eid client_ip =
     dset (dset (set_user_ip client_ip (ei_dict item)) (KStr ''event_id'') (JStr (uuid_str eid))) (KStr ''type'')
       (JInt (if ei_exception item then 1 else 0))"

definition choose_id :: "ingest_env \<Rightarrow> nat \<Rightarrow> event_item \<Rightarrow> uuid option \<Rightarrow> uuid" where
  "choose_id env n item header_id =
     (case ei_event_id item of Some i \<Rightarrow> i | None \<Rightarrow> (case header_id of Some i \<Rightarrow> i | None \<Rightarrow> uuid4 env n))"

definition submit_issue ::
    "ingest_env \<Rightarrow> project_auth_info \<Rightarrow> int \<Rightarrow> string option \<Rightarrow> uuid option \<Rightarrow> event_item \<Rightarrow> 'c ingest_db \<Rightarrow> 'c ingest_db" where
  "submit_issue env project pid client_ip header_id item db =
     (let eid = choose_id env (tick db) item header_id
      in enqueue_once env eid (IngestEvent (issue_message env project pid (tick db) (issue_dict item eid client_ip))) db)"

definition submit_transaction ::
    "ingest_env \<Rightarrow> project_auth_info \<Rightarrow> int \<Rightarrow> event_item \<Rightarrow> 'c ingest_db \<Rightarrow> 'c ingest_db" where
  "submit_transaction env project pid item db =
     (let eid = choose_id env (tick db) item None
      in enqueue_once env eid (IngestTransaction (issue_message env project pid (tick db)
           (dset (ei_dict item) (KStr ''event_id'') (JStr (uuid_str eid))))) db)"

definition submit_logs ::
    "ingest_env \<Rightarrow> project_auth_info \<Rightarrow> int \<Rightarrow> (pkey \<times> json) list list \<Rightarrow> 'c ingest_db \<Rightarrow> 'c ingest_db" where
  "submit_logs env project pid items db =
     enqueue (IngestLogs pid (organization_id project) (clock env (tick db))
       (map (scrub_log (resolve_scrubber (loads_fn env) (repr_fn env) (project_scrub_config project) (PII_SCRUB_DEFAULT env))) items)) db"

section \<open>The envelope\<close>

record 'c envelope_state =
  es_db :: "'c ingest_db"
  es_minidump :: "string option"
  es_processed :: bool

definition handle_item ::
    "ingest_env \<Rightarrow> project_auth_info \<Rightarrow> int \<Rightarrow> string option \<Rightarrow> uuid option \<Rightarrow> item_header \<Rightarrow> string
     \<Rightarrow> 'c envelope_state \<Rightarrow> 'c envelope_state" where
  "handle_item env project pid client_ip header_id ih payload s =
     (let db = es_db s; t = ih_type ih in
      if t = ''event'' then
        (case valid_event env payload of
           None \<Rightarrow> s
         | Some item \<Rightarrow> s\<lparr>es_db := submit_issue env project pid client_ip header_id item db, es_processed := True\<rparr>)
      else if t = ''transaction'' then
        (case valid_transaction env payload of
           None \<Rightarrow> s
         | Some item \<Rightarrow> s\<lparr>es_db := submit_transaction env project pid item db, es_processed := True\<rparr>)
      else if t = ''feedback'' then
        (case valid_feedback env payload of
           None \<Rightarrow> s
         | Some fb \<Rightarrow> s\<lparr>es_db := enqueue (IngestUserReport pid (organization_id project) (feedback_report fb)) db\<rparr>)
      else if t = ''user_report'' then
        (case valid_report env payload of
           None \<Rightarrow> s
         | Some r \<Rightarrow> s\<lparr>es_db := enqueue (IngestUserReport pid (organization_id project) (legacy_report r)) db\<rparr>)
      else if t = ''log'' then
        (if \<not> ENABLE_LOGS env then s
         else case valid_logs env payload of
                None \<Rightarrow> s | Some items \<Rightarrow> s\<lparr>es_db := submit_logs env project pid items db\<rparr>)
      else if t = ''otel_log'' then
        (if \<not> ENABLE_LOGS env then s
         else case valid_otel_log env payload of
                None \<Rightarrow> s | Some i \<Rightarrow> s\<lparr>es_db := submit_logs env project pid [i] db\<rparr>)
      else if t = ''attachment'' \<and> ih_attachment_type ih = Some ''event.minidump'' \<and> 4 \<le> length payload \<and> take 4 payload = MINIDUMP_MAGIC
      then s\<lparr>es_minidump := Some payload\<rparr>
      else s)"

text \<open>The loop over the items: it ends at the first header that is not valid.\<close>

fun item_loop ::
    "ingest_env \<Rightarrow> project_auth_info \<Rightarrow> int \<Rightarrow> string option \<Rightarrow> uuid option \<Rightarrow> (string \<times> string) list
     \<Rightarrow> 'c envelope_state \<Rightarrow> 'c envelope_state" where
  "item_loop env project pid client_ip header_id [] s = s"
| "item_loop env project pid client_ip header_id ((header_line, payload) # items) s =
     (case valid_item_header env header_line of
        None \<Rightarrow> s
      | Some ih \<Rightarrow>
          (let s1 = handle_item env project pid client_ip header_id ih payload s
           in item_loop env project pid client_ip header_id items (s1\<lparr>es_db := (es_db s1)\<lparr>tick := Suc (tick (es_db s1))\<rparr>\<rparr>)))"

definition minidump_fallback ::
    "ingest_env \<Rightarrow> project_auth_info \<Rightarrow> int \<Rightarrow> uuid option \<Rightarrow> 'c envelope_state \<Rightarrow> 'c ingest_db" where
  "minidump_fallback env project pid header_id s =
     (case es_minidump s of
        None \<Rightarrow> es_db s
      | Some b \<Rightarrow>
          if es_processed s then es_db s
          else (case minidump_event env b JNone of
                  None \<Rightarrow> es_db s
                | Some item \<Rightarrow> submit_issue env project pid None header_id item (es_db s)))"

text \<open>
  The exceptions of the authentication that the views translate. \<open>HttpError\<close> is not among those
  of the envelope and minidump views, and they are not views of the API framework that would
  handle it, so it ends as a server error there.
\<close>

definition auth_error_response :: "auth_error \<Rightarrow> http_response" where
  "auth_error_response e =
     (case e of
        ThrottleException retry_after \<Rightarrow> Response 429 (Some retry_after) None
      | AuthenticationError _ \<Rightarrow> Response 403 None None
      | ValidationError _ \<Rightarrow> Response 403 None None
      | HttpError _ _ \<Rightarrow> ServerError
      | UncaughtValueError \<Rightarrow> ServerError)"

definition event_envelope_view ::
    "('c \<Rightarrow> string \<Rightarrow> string option) \<Rightarrow> ('c \<Rightarrow> string \<Rightarrow> string \<Rightarrow> int \<Rightarrow> 'c) \<Rightarrow> (nat \<Rightarrow> int)
     \<Rightarrow> (int \<Rightarrow> uuid \<Rightarrow> project_row option) \<Rightarrow> auth_settings \<Rightarrow> rat \<Rightarrow> ingest_env \<Rightarrow> ingest_request \<Rightarrow> int
     \<Rightarrow> 'c ingest_db \<Rightarrow> http_response \<times> 'c ingest_db" where
  "event_envelope_view cget cset roll fetch stg rnd env req pid db =
     (if rq_method req \<noteq> ''POST'' then (Response 405 None None, db)
      else
        (let (r, ast) = event_auth cget cset roll fetch stg rnd (rq_http req) (auth_st db);
             db1 = db\<lparr>auth_st := ast, tick := Suc (tick db)\<rparr> in
         case r of
           Inl e \<Rightarrow> (auth_error_response e, db1)
         | Inr project \<Rightarrow>
           (case rq_body req of
              None \<Rightarrow> (Response 413 None None, db1)
            | Some body \<Rightarrow>
              (case frame_envelope env body (request_content_encoding (rq_http req)) of
                 Inl e \<Rightarrow> (envelope_error_response e, db1)
               | Inr (header, items) \<Rightarrow>
                 (case valid_envelope_header env header of
                    None \<Rightarrow> (Response 400 None None, db1)
                  | Some header_id \<Rightarrow>
                    (let s = item_loop env project pid (get_ip_address env project req) header_id items
                               \<lparr>es_db = db1, es_minidump = None, es_processed = False\<rparr>
                     in (Response 200 None header_id, minidump_fallback env project pid header_id s)))))))"

section \<open>The other endpoints\<close>

text \<open>
  \<open>parse_form\<close> is the parser of the multipart form, \<open>None\<close> without an upload, else its content and the
  field \<open>sentry\<close>; the body is the stream, compressed or not.
\<close>

definition sentry_meta :: "ingest_env \<Rightarrow> string option \<Rightarrow> json" where
  "sentry_meta env sentry_raw =
     (case sentry_raw of
        None \<Rightarrow> JDict []
      | Some raw \<Rightarrow> if raw = [] then JDict [] else (case loads_fn env raw of None \<Rightarrow> JDict [] | Some v \<Rightarrow> v))"

definition minidump_view ::
    "('c \<Rightarrow> string \<Rightarrow> string option) \<Rightarrow> ('c \<Rightarrow> string \<Rightarrow> string \<Rightarrow> int \<Rightarrow> 'c) \<Rightarrow> (nat \<Rightarrow> int)
     \<Rightarrow> (int \<Rightarrow> uuid \<Rightarrow> project_row option) \<Rightarrow> auth_settings \<Rightarrow> rat \<Rightarrow> ingest_env \<Rightarrow> (string \<Rightarrow> (string \<times> string option) option) \<Rightarrow> ingest_request \<Rightarrow> int
     \<Rightarrow> 'c ingest_db \<Rightarrow> http_response \<times> 'c ingest_db" where
  "minidump_view cget cset roll fetch stg rnd env parse_form req pid db =
     (if rq_method req \<noteq> ''POST'' then (Response 405 None None, db)
      else
        (let (r, ast) = event_auth cget cset roll fetch stg rnd (rq_http req) (auth_st db);
             db1 = db\<lparr>auth_st := ast, tick := Suc (tick db)\<rparr>;
             raw = (case rq_body req of None \<Rightarrow> [] | Some b \<Rightarrow> b) in
         case r of
           Inl e \<Rightarrow> (auth_error_response e, db1)
         | Inr project \<Rightarrow>
           (case (case request_content_encoding (rq_http req) of None \<Rightarrow> Inr raw | Some enc \<Rightarrow> decompress env raw enc) of
              Inl e \<Rightarrow> (envelope_error_response e, db1)
            | Inr body \<Rightarrow>
              (case parse_form body of
                 None \<Rightarrow> (Response 400 None None, db1)
               | Some (minidump_data, sentry_raw) \<Rightarrow>
                 if length minidump_data < 4 \<or> take 4 minidump_data \<noteq> MINIDUMP_MAGIC then (Response 400 None None, db1)
                 else (case minidump_event env minidump_data (sentry_meta env sentry_raw) of
                         None \<Rightarrow> (Response 400 None None, db1)
                       | Some item \<Rightarrow>
                           (Response 200 None (Some (choose_id env (tick db1) item None)),
                            submit_issue env project pid None None item db1))))))"

text \<open>
  \<open>event_store\<close> and \<open>event_security\<close> run inside the API framework: the authentication is done, and
  its errors are translated, before they are called.
\<close>

definition event_store ::
    "ingest_env \<Rightarrow> project_auth_info \<Rightarrow> ingest_request \<Rightarrow> int \<Rightarrow> event_item \<Rightarrow> uuid \<Rightarrow> 'c ingest_db \<Rightarrow> http_response \<times> 'c ingest_db" where
  "event_store env project req pid item eid db =
     (let n = tick db; db1 = db\<lparr>tick := Suc n\<rparr>; (fresh, c) = cache_add (seen_ids db1) (clock env n) (seen_key eid); db2 = db1\<lparr>seen_ids := c\<rparr> in
      if \<not> fresh then (Response 422 None None, db2)
      else (Response 200 None (Some eid),
            enqueue (IngestEvent (issue_message env project pid n (issue_dict item eid (get_ip_address env project req)))) db2))"

definition event_security ::
    "ingest_env \<Rightarrow> project_auth_info \<Rightarrow> ingest_request \<Rightarrow> int \<Rightarrow> (pkey \<times> json) list \<Rightarrow> 'c ingest_db \<Rightarrow> http_response \<times> 'c ingest_db" where
  "event_security env project req pid event db =
     (Response 201 None None,
      enqueue (IngestEvent (issue_message env project pid (tick db) (set_user_ip (get_ip_address env project req) event)))
        (db\<lparr>tick := Suc (tick db)\<rparr>))"

definition otlp_logs_view ::
    "('c \<Rightarrow> string \<Rightarrow> string option) \<Rightarrow> ('c \<Rightarrow> string \<Rightarrow> string \<Rightarrow> int \<Rightarrow> 'c) \<Rightarrow> (nat \<Rightarrow> int)
     \<Rightarrow> (uuid \<Rightarrow> project_auth_info option) \<Rightarrow> auth_settings \<Rightarrow> rat \<Rightarrow> ingest_env \<Rightarrow> ingest_request
     \<Rightarrow> 'c ingest_db \<Rightarrow> http_response \<times> 'c ingest_db" where
  "otlp_logs_view cget cset roll find_key stg rnd env req db =
     (if rq_method req \<noteq> ''POST'' then (Response 405 None None, db)
      else if \<not> ENABLE_LOGS env then (Response 404 None None, db)
      else
        (let (r, ast) = get_project_by_key cget cset roll find_key stg rnd (rq_http req) (auth_st db);
             db1 = db\<lparr>auth_st := ast, tick := Suc (tick db)\<rparr> in
         case r of
           Inl (ThrottleException retry_after) \<Rightarrow> (Response 429 (Some retry_after) None, db1)
         | Inl (AuthenticationError _) \<Rightarrow> (Response 401 None None, db1)
         | Inl (HttpError status _) \<Rightarrow> (Response status None None, db1)
         | Inl _ \<Rightarrow> (ServerError, db1)
         | Inr project \<Rightarrow>
           (case rq_body req of
              None \<Rightarrow> (Response 413 None None, db1)
            | Some raw \<Rightarrow>
              (case (case request_content_encoding (rq_http req) of None \<Rightarrow> Inr raw | Some enc \<Rightarrow> decompress env raw enc) of
                 Inl e \<Rightarrow> (envelope_error_response e, db1)
               | Inr body \<Rightarrow>
                 (case otlp_logs env body of
                    None \<Rightarrow> (Response 400 None None, db1)
                  | Some items \<Rightarrow>
                      (Response 200 None None, if items = [] then db1 else submit_logs env project (project_id project) items db1))))))"

section \<open>Seen ids\<close>

text \<open>
  The interface of a cache that adds a key once: the law of \<open>add\<close> on live and on absent or expired
  entries. A log of additions is spaced when equal keys are at least a lifetime apart.
\<close>

definition spaced :: "int \<Rightarrow> ('k \<Rightarrow> datetime option) \<Rightarrow> (datetime \<times> 'k) list \<Rightarrow> bool" where
  "spaced ttl expiry lg \<longleftrightarrow>
     (\<forall>(t, k)\<in>set lg. \<exists>e. expiry k = Some e \<and> t + ttl \<le> e) \<and>
     sorted_wrt (\<lambda>a b. snd a = snd b \<longrightarrow> fst a + ttl \<le> fst b) lg"

locale add_cache =
  fixes add :: "'c \<Rightarrow> datetime \<Rightarrow> 'k \<Rightarrow> bool \<times> 'c"
    and expiry :: "'c \<Rightarrow> 'k \<Rightarrow> datetime option"
    and ttl :: int
  assumes ttl: "0 \<le> ttl"
    and add_live: "expiry c k = Some e \<Longrightarrow> now < e \<Longrightarrow> add c now k = (False, c)"
    and add_new: "(\<forall>e. expiry c k = Some e \<longrightarrow> e \<le> now) \<Longrightarrow>
      fst (add c now k) \<and> expiry (snd (add c now k)) = (expiry c)(k \<mapsto> now + ttl)"
begin

lemma spaced_add:
  assumes "spaced ttl (expiry c) lg"
  shows "spaced ttl (expiry (snd (add c now k))) (if fst (add c now k) then lg @ [(now, k)] else lg)"
proof (cases "\<exists>e. expiry c k = Some e \<and> now < e")
  case True
  with add_live assms show ?thesis by fastforce
next
  case False
  then have new: "\<forall>e. expiry c k = Some e \<longrightarrow> e \<le> now" by (metis not_less)
  have old: "t + ttl \<le> now" if "(t, k) \<in> set lg" for t
    using assms that new by (fastforce simp: spaced_def)
  then have "sorted_wrt (\<lambda>a b. snd a = snd b \<longrightarrow> fst a + ttl \<le> fst b) (lg @ [(now, k)])"
    using assms by (auto simp: spaced_def sorted_wrt_append)
  moreover have "\<forall>(t, k')\<in>set lg. \<exists>e. ((expiry c)(k \<mapsto> now + ttl)) k' = Some e \<and> t + ttl \<le> e"
  proof (intro ballI, clarify)
    fix t k' assume that: "(t, k') \<in> set lg"
    show "\<exists>e. ((expiry c)(k \<mapsto> now + ttl)) k' = Some e \<and> t + ttl \<le> e"
    proof (cases "k' = k")
      case True
      then show ?thesis using old [of t] that ttl by auto
    next
      case False
      then show ?thesis using assms that by (auto simp: spaced_def)
    qed
  qed
  ultimately show ?thesis using add_new [OF new] by (simp add: spaced_def)
qed

end

interpretation seen: add_cache cache_add map_of DEFAULT_TIMEOUT_US
  by unfold_locales (auto simp: cache_add_def DEFAULT_TIMEOUT_US_def split: option.splits)

section \<open>Lemmas\<close>

text \<open>The messages of a queue that carry events, and the key under which one was seen.\<close>

definition messages :: "ingest_task list \<Rightarrow> ingest_message list" where
  "messages q = List.map_filter (\<lambda>t. case t of IngestEvent m \<Rightarrow> Some m | IngestTransaction m \<Rightarrow> Some m | _ \<Rightarrow> None) q"

definition message_id :: "ingest_message \<Rightarrow> json option" where
  "message_id m = map_of (im_payload m) (KStr ''event_id'')"

definition message_key :: "ingest_message \<Rightarrow> string" where
  "message_key m = (case message_id m of Some (JStr s) \<Rightarrow> ''uuid'' @ filter (\<lambda>c. c \<noteq> CHR ''-'') s | _ \<Rightarrow> [])"

definition seen_ok :: "'c ingest_db \<Rightarrow> bool" where
  "seen_ok db \<longleftrightarrow> spaced DEFAULT_TIMEOUT_US (map_of (seen_ids db)) (map (\<lambda>m. (im_received m, message_key m)) (messages (task_queue db)))"

lemma messages_append: "messages (a @ b) = messages a @ messages b"
  by (induction a) (auto simp: messages_def map_filter_simps split: option.splits)

lemma map_of_scrub_event: "k \<notin> set EVENT_SECTIONS \<Longrightarrow> map_of (scrub_event sc payload) (KStr k) = map_of payload (KStr k)"
  by (simp add: scrub_event_def map_of_fold_sections distinct_sections)

lemma message_id_issue: "message_id (issue_message env project pid n payload) = map_of payload (KStr ''event_id'')"
  by (simp add: message_id_def issue_message_def map_of_scrub_event EVENT_SECTIONS_def)

lemma message_key_of:
  assumes "map_of payload (KStr ''event_id'') = Some (JStr (uuid_str eid))"
  shows "message_key (issue_message env project pid n payload) = seen_key eid"
  using assms by (simp add: message_key_def message_id_issue seen_key_def filter_uuid_str)

lemma enqueue_once_seen:
  assumes "seen_ok db" "messages [t] = [m]" "message_key m = seen_key eid" "im_received m = clock env (tick db)"
  shows "seen_ok (enqueue_once env eid t db)"
proof -
  let ?r = "cache_add (seen_ids db) (clock env (tick db)) (seen_key eid)"
  have "seen_ids (enqueue_once env eid t db) = snd ?r"
    "messages (task_queue (enqueue_once env eid t db)) = messages (task_queue db) @ (if fst ?r then [m] else [])"
    by (auto simp: enqueue_once_def enqueue_def Let_def case_prod_unfold messages_append assms(2))
  then show ?thesis
    using seen.spaced_add [OF assms(1) [unfolded seen_ok_def], of "clock env (tick db)" "seen_key eid"] assms(3,4)
    by (simp add: seen_ok_def split: if_splits)
qed

lemma enqueue_seen: "messages [t] = [] \<Longrightarrow> seen_ok db \<Longrightarrow> seen_ok (enqueue t db)"
  by (simp add: seen_ok_def enqueue_def messages_append)

lemma im_received_issue [simp]: "im_received (issue_message env project pid n payload) = clock env n"
  by (simp add: issue_message_def)

lemma messages_single [simp]:
  "messages [] = []" "messages (IngestEvent m # q) = m # messages q" "messages (IngestTransaction m # q) = m # messages q"
  "messages (IngestUserReport p oid d # q) = messages q" "messages (IngestLogs p oid n l # q) = messages q"
  by (simp_all add: messages_def map_filter_simps)

lemma submit_issue_seen: "seen_ok db \<Longrightarrow> seen_ok (submit_issue env project pid client_ip header_id item db)"
  unfolding submit_issue_def Let_def
  by (rule enqueue_once_seen [OF _ messages_single(2) [of _ "[]", unfolded messages_single(1)]])
    (simp_all add: message_key_of issue_dict_def del: of_nat_0 of_nat_1)

lemma submit_transaction_seen: "seen_ok db \<Longrightarrow> seen_ok (submit_transaction env project pid item db)"
  unfolding submit_transaction_def Let_def
  by (rule enqueue_once_seen [OF _ messages_single(3) [of _ "[]", unfolded messages_single(1)]])
    (simp_all add: message_key_of)

lemma submit_logs_seen: "seen_ok db \<Longrightarrow> seen_ok (submit_logs env project pid items db)"
  unfolding submit_logs_def by (rule enqueue_seen) simp_all

lemma seen_ok_frame [simp]: "seen_ok (db\<lparr>tick := n\<rparr>) = seen_ok db" "seen_ok (db\<lparr>auth_st := a\<rparr>) = seen_ok db"
  "seen_ok (db\<lparr>auth_st := a, tick := n\<rparr>) = seen_ok db"
  by (simp_all add: seen_ok_def)

lemma handle_item_seen: "seen_ok (es_db s) \<Longrightarrow> seen_ok (es_db (handle_item env project pid client_ip header_id ih payload s))"
  by (simp add: handle_item_def Let_def submit_issue_seen submit_transaction_seen submit_logs_seen enqueue_seen
      split: option.splits)

lemma item_loop_seen: "seen_ok (es_db s) \<Longrightarrow> seen_ok (es_db (item_loop env project pid client_ip header_id items s))"
proof (induction items arbitrary: s)
  case (Cons i items)
  show ?case using Cons.prems by (cases i) (auto simp: Let_def handle_item_seen split: option.splits intro!: Cons.IH)
qed simp

lemma minidump_fallback_seen: "seen_ok (es_db s) \<Longrightarrow> seen_ok (minidump_fallback env project pid header_id s)"
  by (simp add: minidump_fallback_def submit_issue_seen split: option.splits)

lemma event_envelope_view_seen:
  "seen_ok db \<Longrightarrow> seen_ok (snd (event_envelope_view cget cset roll fetch stg rnd env req pid db))"
  by (simp add: event_envelope_view_def Let_def case_prod_unfold minidump_fallback_seen item_loop_seen
      split: option.splits sum.splits prod.splits)

lemma minidump_view_seen:
  "seen_ok db \<Longrightarrow> seen_ok (snd (minidump_view cget cset roll fetch stg rnd env parse_form req pid db))"
  by (simp add: minidump_view_def Let_def case_prod_unfold submit_issue_seen split: option.splits sum.splits prod.splits)

lemma otlp_logs_view_seen:
  "seen_ok db \<Longrightarrow> seen_ok (snd (otlp_logs_view cget cset roll find_key stg rnd env req db))"
  by (simp add: otlp_logs_view_def Let_def case_prod_unfold submit_logs_seen split: option.splits sum.splits prod.splits auth_error.splits)

lemma event_store_seen:
  assumes "seen_ok db"
  shows "seen_ok (snd (event_store env project req pid item eid db))"
proof -
  let ?t = "IngestEvent (issue_message env project pid (tick db) (issue_dict item eid (get_ip_address env project req)))"
  have "snd (event_store env project req pid item eid db) = (enqueue_once env eid ?t db)\<lparr>tick := Suc (tick db)\<rparr>"
    by (simp add: event_store_def enqueue_once_def enqueue_def Let_def case_prod_unfold)
  moreover have "seen_ok (enqueue_once env eid ?t db)"
    using assms by (rule enqueue_once_seen [OF _ messages_single(2) [of _ "[]", unfolded messages_single(1)]])
      (simp_all add: message_key_of issue_dict_def)
  ultimately show ?thesis by simp
qed

section \<open>Runs\<close>

text \<open>The states that any sequence of requests to the endpoints that take event ids can reach.\<close>

inductive ingest_reach :: "ingest_env \<Rightarrow> 'c ingest_db \<Rightarrow> bool" for env where
  start: "task_queue db = [] \<Longrightarrow> ingest_reach env db"
| envelope: "ingest_reach env db \<Longrightarrow> ingest_reach env (snd (event_envelope_view cget cset roll fetch stg rnd env req pid db))"
| minidump: "ingest_reach env db \<Longrightarrow> ingest_reach env (snd (minidump_view cget cset roll fetch stg rnd env parse_form req pid db))"
| store: "ingest_reach env db \<Longrightarrow> ingest_reach env (snd (event_store env project req pid item eid db))"
| otlp: "ingest_reach env db \<Longrightarrow> ingest_reach env (snd (otlp_logs_view cget cset roll find_key stg rnd env req db))"

lemma ingest_reach_seen: "ingest_reach env db \<Longrightarrow> seen_ok db"
proof (induction rule: ingest_reach.induct)
  case (start db)
  then show ?case by (simp add: seen_ok_def spaced_def)
qed (auto intro: event_envelope_view_seen minidump_view_seen event_store_seen otlp_logs_view_seen)

section \<open>What is enqueued\<close>

text \<open>
  A task is clean for a scrubber, a project and an organization when it is addressed to them and
  no section of an event, and no log item, exposes a sensitive field at a position that the walk reaches,
  provided that scrubbing is enabled.
\<close>

definition clean_task :: "scrubber \<Rightarrow> int \<Rightarrow> int \<Rightarrow> ingest_task \<Rightarrow> bool" where
  "clean_task sc pid oid t =
     (let clean = (\<lambda>m. im_project m = pid \<and> im_org m = oid \<and>
        (\<forall>sec\<in>set EVENT_SECTIONS. case map_of (im_payload m) (KStr sec) of
           None \<Rightarrow> True | Some v \<Rightarrow> enabled (config sc) \<longrightarrow> \<not> leak_node (is_sensitive_key sc) (placeholder (config sc)) 0 v)) in
      case t of
        IngestEvent m \<Rightarrow> clean m
      | IngestTransaction m \<Rightarrow> clean m
      | IngestUserReport p oid' d \<Rightarrow> p = pid \<and> oid' = oid \<and> length (rd_name d) \<le> 128 \<and> length (rd_email d) \<le> 254
      | IngestLogs p oid' _ logs \<Rightarrow> p = pid \<and> oid' = oid \<and>
          (\<forall>l\<in>set logs. enabled (config sc) \<longrightarrow> \<not> leak_dict (is_sensitive_key sc) (placeholder (config sc)) 0 l))"

definition appended :: "(ingest_task \<Rightarrow> bool) \<Rightarrow> 'c ingest_db \<Rightarrow> 'c ingest_db \<Rightarrow> bool" where
  "appended P db db' \<longleftrightarrow> (\<exists>new. task_queue db' = task_queue db @ new \<and> (\<forall>t\<in>set new. P t))"

lemma appended_refl [simp]: "appended P db db" "appended P db (db\<lparr>tick := n\<rparr>)" "appended P db (db\<lparr>seen_ids := c\<rparr>)"
  by (simp_all add: appended_def)

lemma appended_trans: "appended P a b \<Longrightarrow> appended P b c \<Longrightarrow> appended P a c"
  by (auto simp: appended_def)

lemma appended_enqueue: "P t \<Longrightarrow> appended P db (enqueue t db)"
  by (simp add: appended_def enqueue_def)

lemma appended_enqueue_once: "P t \<Longrightarrow> appended P db (enqueue_once env eid t db)"
  by (simp add: appended_def enqueue_once_def enqueue_def Let_def case_prod_unfold)

text \<open>The scrubber of a project, and the messages it produces.\<close>

abbreviation project_scrubber :: "ingest_env \<Rightarrow> project_auth_info \<Rightarrow> scrubber" where
  "project_scrubber env project \<equiv>
     resolve_scrubber (loads_fn env) (repr_fn env) (project_scrub_config project) (PII_SCRUB_DEFAULT env)"

lemma scrub_event_sections:
  assumes "enabled (config sc)" "sec \<in> set EVENT_SECTIONS" "map_of (scrub_event sc payload) (KStr sec) = Some v"
  shows "\<not> leak_node (is_sensitive_key sc) (placeholder (config sc)) 0 v"
  using assms scrub_no_leak(1) [of sc 0]
  by (auto simp: scrub_event_def map_of_fold_sections distinct_sections leak_node.simps split: if_splits)

lemma clean_message:
  "clean_task (project_scrubber env project) pid (organization_id project) (IngestEvent (issue_message env project pid n payload))"
  "clean_task (project_scrubber env project) pid (organization_id project) (IngestTransaction (issue_message env project pid n payload))"
  by (auto simp: clean_task_def Let_def issue_message_def scrub_event_sections split: option.splits)

lemma clean_reports:
  "clean_task sc pid oid (IngestUserReport pid oid (feedback_report fb))"
  "clean_task sc pid oid (IngestUserReport pid oid (legacy_report r))"
  by (simp_all add: clean_task_def feedback_report_def legacy_report_def)

lemma clean_logs:
  "clean_task sc pid oid (IngestLogs pid oid n (map (scrub_log sc) items))"
  by (simp add: clean_task_def scrub_log_def scrub_no_leak(2))

lemma submit_clean:
  "appended (clean_task (project_scrubber env project) pid (organization_id project)) db (submit_issue env project pid client_ip header_id item db)"
  "appended (clean_task (project_scrubber env project) pid (organization_id project)) db (submit_transaction env project pid item db)"
  "appended (clean_task (project_scrubber env project) pid (organization_id project)) db (submit_logs env project pid items db)"
  by (simp_all add: submit_issue_def submit_transaction_def submit_logs_def Let_def clean_message clean_logs appended_enqueue appended_enqueue_once)

lemma handle_item_clean:
  "appended (clean_task (project_scrubber env project) pid (organization_id project)) (es_db s)
     (es_db (handle_item env project pid client_ip header_id ih payload s))"
  by (simp add: handle_item_def Let_def submit_clean clean_reports appended_enqueue split: option.splits)

lemma item_loop_clean:
  "appended (clean_task (project_scrubber env project) pid (organization_id project)) (es_db s)
     (es_db (item_loop env project pid client_ip header_id items s))"
proof (induction items arbitrary: s)
  case (Cons i items)
  obtain h p where i: "i = (h, p)" by (cases i)
  show ?case
  proof (cases "valid_item_header env h")
    case (Some ih)
    define s1 where "s1 = handle_item env project pid client_ip header_id ih p s"
    let ?s2 = "s1\<lparr>es_db := (es_db s1)\<lparr>tick := Suc (tick (es_db s1))\<rparr>\<rparr>"
    have "appended (clean_task (project_scrubber env project) pid (organization_id project)) (es_db s) (es_db ?s2)"
      using handle_item_clean [of env project pid s client_ip header_id ih p] by (simp add: s1_def appended_def)
    from appended_trans [OF this Cons.IH] show ?thesis by (simp add: i Some Let_def s1_def)
  qed (simp add: i)
qed simp

lemma minidump_fallback_clean:
  "appended (clean_task (project_scrubber env project) pid (organization_id project)) (es_db s) (minidump_fallback env project pid header_id s)"
  by (simp add: minidump_fallback_def submit_clean split: option.splits)

lemma envelope_cases:
  assumes "event_envelope_view cget cset roll fetch stg rnd env req pid db = (resp, db')"
  shows "task_queue db' = task_queue db \<or> (\<exists>project header_id items s. resp = Response 200 None header_id \<and>
    fst (event_auth cget cset roll fetch stg rnd (rq_http req) (auth_st db)) = Inr project \<and> task_queue (es_db s) = task_queue db \<and>
    db' = minidump_fallback env project pid header_id (item_loop env project pid (get_ip_address env project req) header_id items s))"
proof -
  obtain r ast where auth: "event_auth cget cset roll fetch stg rnd (rq_http req) (auth_st db) = (r, ast)" by fastforce
  define s where "s = \<lparr>es_db = db\<lparr>auth_st := ast, tick := Suc (tick db)\<rparr>, es_minidump = None, es_processed = False\<rparr>"
  have s: "task_queue (es_db s) = task_queue db" by (simp add: s_def)
  show ?thesis
  proof (cases r)
    case (Inl e)
    then show ?thesis using assms auth by (auto simp: event_envelope_view_def split: if_splits)
  next
    case (Inr project)
    then have "task_queue db' = task_queue db \<or> (\<exists>header_id items. resp = Response 200 None header_id \<and>
        db' = minidump_fallback env project pid header_id (item_loop env project pid (get_ip_address env project req) header_id items s))"
      using assms auth unfolding s_def
      by (auto simp: event_envelope_view_def Let_def split: if_splits option.splits sum.splits prod.splits)
    with auth Inr s show ?thesis by (metis fst_conv)
  qed
qed

section \<open>Properties\<close>

text \<open>
  Property C2. End to end, an envelope puts a task on a queue only when it is answered with 200 and
  its key belongs to a project that is live: an organization that accepts events and no full
  throttle. Every task is addressed to that project and its organization. On the condition that
  scrubbing is enabled for the project, which it is not by default, no section of an event and no log
  item in a task has, at a position that the walk of the scrubber reaches, a sensitive key whose value
  is not the placeholder. The walk reaches every dictionary entry and list element down to the depth
  bound, except what follows the second element of a list that starts with a string inside another list
  (\<open>pair_tail_not_scrubbed\<close>); names and addresses in user reports are not scrubbed at all.
\<close>

theorem envelope_enqueues_only_clean:
  assumes "event_envelope_view cget cset roll fetch stg rnd env req pid db = (resp, db')" and "resolver_match (rq_http req) = Some pid"
  shows "\<exists>new. task_queue db' = task_queue db @ new \<and>
    (new \<noteq> [] \<longrightarrow> (\<exists>k row project. resp = Response 200 None k \<and> (\<exists>key. request_key (rq_http req) = Inr (Some key) \<and> fetch pid key = Some row) \<and>
       project = info_of_row row \<and> org_is_accepting_events (organization project) \<and>
       org_throttle_rate (organization project) \<noteq> 100 \<and> project_throttle_rate project \<noteq> 100 \<and>
       list_all (clean_task (project_scrubber env project) pid (organization_id project)) new))"
  using envelope_cases [OF assms(1)]
proof
  assume "\<exists>project header_id items s. resp = Response 200 None header_id \<and>
    fst (event_auth cget cset roll fetch stg rnd (rq_http req) (auth_st db)) = Inr project \<and> task_queue (es_db s) = task_queue db \<and>
    db' = minidump_fallback env project pid header_id (item_loop env project pid (get_ip_address env project req) header_id items s)"
  then obtain project header_id s items where r: "resp = Response 200 None header_id"
    and auth: "fst (event_auth cget cset roll fetch stg rnd (rq_http req) (auth_st db)) = Inr project"
    and s: "task_queue (es_db s) = task_queue db"
    and db': "db' = minidump_fallback env project pid header_id (item_loop env project pid (get_ip_address env project req) header_id items s)"
    by blast
  have "fst (get_project cget cset roll fetch stg rnd (rq_http req) (auth_st db)) = Inr project"
    using auth by (simp add: event_auth_def split: if_splits)
  from get_project_live [OF this] obtain k row where live: "request_key (rq_http req) = Inr (Some k)" "fetch pid k = Some row"
    "project = info_of_row row" "org_is_accepting_events (organization project)"
    "org_throttle_rate (organization project) \<noteq> 100" "project_throttle_rate project \<noteq> 100"
    using assms(2) by auto
  obtain new where "task_queue db' = task_queue db @ new"
    "\<forall>t\<in>set new. clean_task (project_scrubber env project) pid (organization_id project) t"
    using appended_trans [OF item_loop_clean [of env project pid s "get_ip_address env project req" header_id items]
        minidump_fallback_clean [where header_id = header_id]] s
    unfolding appended_def db' by metis
  with r live show ?thesis by (auto simp: list_all_iff)
qed auto

text \<open>
  Property C18. An event id is handed to the workers at most once in five minutes: in every state
  that requests to the envelope, minidump, store and log endpoints can reach, two enqueued
  messages with the same event id were received at least 300 seconds apart.
\<close>

theorem event_ids_deduplicated:
  assumes "ingest_reach env db"
  shows "sorted_wrt (\<lambda>a b. message_id a = message_id b \<longrightarrow> im_received a + 300000000 \<le> im_received b) (messages (task_queue db))"
proof -
  have "sorted_wrt (\<lambda>a b. message_key a = message_key b \<longrightarrow> im_received a + 300000000 \<le> im_received b) (messages (task_queue db))"
    using ingest_reach_seen [OF assms] by (simp add: seen_ok_def spaced_def sorted_wrt_map DEFAULT_TIMEOUT_US_def)
  then show ?thesis by (rule sorted_wrt_mono_rel [rotated]) (simp add: message_key_def)
qed

text \<open>The state after an item whose payload is not usable.\<close>

definition next_item :: "'c envelope_state \<Rightarrow> 'c envelope_state" where
  "next_item s = s\<lparr>es_db := (es_db s)\<lparr>tick := Suc (tick (es_db s))\<rparr>\<rparr>"

definition unusable :: "ingest_env \<Rightarrow> item_header \<Rightarrow> string \<Rightarrow> bool" where
  "unusable env ih p \<longleftrightarrow>
     (ih_type ih = ''event'' \<and> valid_event env p = None) \<or> (ih_type ih = ''transaction'' \<and> valid_transaction env p = None) \<or>
     (ih_type ih = ''feedback'' \<and> valid_feedback env p = None) \<or> (ih_type ih = ''user_report'' \<and> valid_report env p = None) \<or>
     (ih_type ih = ''log'' \<and> (valid_logs env p = None \<or> \<not> ENABLE_LOGS env)) \<or>
     (ih_type ih = ''otel_log'' \<and> (valid_otel_log env p = None \<or> \<not> ENABLE_LOGS env)) \<or>
     ih_type ih \<notin> set (''attachment'' # SUPPORTED_ITEMS)"

lemma unusable_item: "unusable env ih p \<Longrightarrow> handle_item env project pid ip hid ih p s = s"
  by (auto simp: unusable_def handle_item_def SUPPORTED_ITEMS_def Let_def)

lemma item_loop_append:
  "item_loop env project pid ip hid (a @ b) s =
     (if list_all (\<lambda>i. valid_item_header env (fst i) \<noteq> None) a
      then item_loop env project pid ip hid b (item_loop env project pid ip hid a s)
      else item_loop env project pid ip hid a s)"
  by (induction a arbitrary: s) (auto simp: Let_def split: option.splits)

text \<open>
  Further property. Damage in an envelope stays local: an item whose payload fails validation, or of a
  type that is not handled, changes nothing and the items after it are still processed; a header
  that is not valid ends the envelope and keeps what the items before it did.
\<close>

theorem damaged_items_are_local:
  assumes "list_all (\<lambda>i. valid_item_header env (fst i) \<noteq> None) a"
  shows "(\<forall>ih. valid_item_header env h = Some ih \<and> unusable env ih p \<longrightarrow>
      item_loop env project pid ip hid (a @ (h, p) # b) s =
      item_loop env project pid ip hid b (next_item (item_loop env project pid ip hid a s))) \<and>
    (valid_item_header env h = None \<longrightarrow>
      item_loop env project pid ip hid (a @ (h, p) # b) s = item_loop env project pid ip hid a s)"
  using assms by (simp add: item_loop_append next_item_def unusable_item Let_def)

text \<open>The address that is stored with an event.\<close>

lemma stored_address:
  assumes "rq_client_ip req = (ip, True)" "should_scrub_ip_addresses project" "anonymize_ip env ip \<noteq> []"
  shows "\<exists>u. map_of (issue_dict item eid (get_ip_address env project req)) (KStr ''user'') = Some (JDict u) \<and>
    map_of u (KStr ''ip_address'') = Some (JStr (anonymize_ip env ip))"
  using assms by (auto simp: get_ip_address_def issue_dict_def set_user_ip_def new_user_def split: option.splits json.splits)

text \<open>Without a routable address of the connection, the one the client sent is stored as it is.\<close>

lemma unroutable_keeps_client_address:
  assumes "rq_client_ip req = (ip, False)"
  shows "map_of (issue_dict item eid (get_ip_address env project req)) (KStr ''user'') = map_of (ei_dict item) (KStr ''user'')"
  using assms by (simp add: get_ip_address_def issue_dict_def set_user_ip_def)

text \<open>During maintenance the envelope endpoint does not answer with 503: the exception is not caught.\<close>

lemma maintenance_is_server_error:
  assumes "MAINTENANCE_EVENT_FREEZE stg" "rq_method req = ''POST''"
  shows "fst (event_envelope_view cget cset roll fetch stg rnd env req pid db) = ServerError"
    and "ENABLE_LOGS env \<Longrightarrow> fst (otlp_logs_view cget cset roll find_key stg rnd env req db) = Response 503 None None"
  using assms by (simp_all add: event_envelope_view_def event_auth_def auth_error_response_def otlp_logs_view_def get_project_by_key_def)

text \<open>The key of a seen event has no project in it: another project's event with the same id is refused.\<close>

lemma deduplication_spans_projects:
  assumes "event_store env p1 req1 pid1 item1 eid db = (Response 200 None (Some eid), db1)"
    and "clock env (tick db1) < clock env (tick db) + 300000000"
  shows "fst (event_store env p2 req2 pid2 item2 eid db1) = Response 422 None None"
  using assms
  by (auto simp: event_store_def enqueue_def cache_add_def DEFAULT_TIMEOUT_US_def Let_def case_prod_unfold split: option.splits if_splits)

section \<open>Witnesses\<close>

text \<open>An envelope with a header that is fine, an event, and an event that does not validate.\<close>

definition demo_env :: ingest_env where
  "demo_env = \<lparr>frame_envelope = (\<lambda>_ _. Inr (''h'', [(''event'', ''good''), (''event'', ''bad'')])), decompress = (\<lambda>b _. Inr b),
     valid_envelope_header = (\<lambda>_. Some None), valid_item_header = (\<lambda>t. Some \<lparr>ih_type = t, ih_attachment_type = None\<rparr>),
     valid_event = (\<lambda>b. if b = ''good'' then Some \<lparr>ei_event_id = Some 9, ei_exception = True, ei_dict = demo_event\<rparr> else None),
     valid_transaction = (\<lambda>_. None), valid_feedback = (\<lambda>_. None), valid_report = (\<lambda>_. None), valid_logs = (\<lambda>_. None),
     valid_otel_log = (\<lambda>_. None), otlp_logs = (\<lambda>_. None), minidump_event = (\<lambda>_ _. None), anonymize_ip = (\<lambda>a. a),
     loads_fn = (\<lambda>_. None), repr_fn = (\<lambda>_. []), uuid4 = id, uuid7_now = id, clock = int, ENABLE_LOGS = False,
     PII_SCRUB_DEFAULT = JDict [(KStr ''enabled'', JBool True)]\<rparr>"

definition demo_ingest :: "(string \<Rightarrow> string option) ingest_db" where
  "demo_ingest = \<lparr>auth_st = demo_state, seen_ids = [], task_queue = [], tick = 0\<rparr>"

definition demo_ingest_request :: ingest_request where
  "demo_ingest_request = \<lparr>rq_http = demo_request 7 good_key, rq_method = ''POST'', rq_body = Some [], rq_client_ip = (''10.0.0.1'', False)\<rparr>"

abbreviation demo_ingest_run where
  "demo_ingest_run \<equiv> event_envelope_view (\<lambda>c. c) (\<lambda>c k v _. c(k \<mapsto> v)) (\<lambda>_. 90) demo_fetch demo_settings (1 / 2) demo_env
     demo_ingest_request 7 demo_ingest"

lemma demo_ingest_auth:
  "fst (event_auth (\<lambda>c. c) (\<lambda>c k v _. c(k \<mapsto> v)) (\<lambda>_. 90) demo_fetch demo_settings (1 / 2) (demo_request 7 good_key) demo_state) =
   Inr (info_of_row demo_row)"
  using demo_accepted by (simp add: event_auth_def demo_settings_def)

lemma demo_ingest_queue: "\<exists>t. task_queue (snd demo_ingest_run) = [t]"
  using demo_ingest_auth
  by (simp add: event_envelope_view_def demo_ingest_request_def demo_ingest_def case_prod_unfold Let_def demo_env_def
      handle_item_def submit_issue_def enqueue_once_def enqueue_def cache_add_def minidump_fallback_def)

lemma demo_ingest_org: "organization_id (info_of_row demo_row) = 3"
  by (simp add: info_of_row_def demo_row_def)

theorem envelope_enqueues_only_clean_witness:
  "list_all (clean_task (project_scrubber demo_env (info_of_row demo_row)) 7 3) (task_queue (snd demo_ingest_run)) \<and>
   length (task_queue (snd demo_ingest_run)) = 1"
proof -
  obtain t where t: "task_queue (snd demo_ingest_run) = [t]" using demo_ingest_queue by blast
  have "resolver_match (rq_http demo_ingest_request) = Some 7" by (simp add: demo_ingest_request_def demo_request_match)
  from envelope_enqueues_only_clean [OF prod.collapse [symmetric, of demo_ingest_run] this] t
  obtain key row where "request_key (rq_http demo_ingest_request) = Inr (Some key)" "demo_fetch 7 key = Some row"
    "list_all (clean_task (project_scrubber demo_env (info_of_row row)) 7 (organization_id (info_of_row row))) [t]"
    by (fastforce simp: demo_ingest_def)
  then show ?thesis using t
    by (simp add: demo_ingest_request_def demo_request_key demo_fetch_def demo_ingest_org split: if_splits)
qed

text \<open>Two submissions of one id, 400 seconds apart.\<close>

definition demo_slow_env :: ingest_env where
  "demo_slow_env = demo_env\<lparr>clock := \<lambda>n. 400000000 * int n\<rparr>"

abbreviation demo_store where
  "demo_store db \<equiv> snd (event_store demo_slow_env (info_of_row demo_row) demo_ingest_request 7
     \<lparr>ei_event_id = Some 9, ei_exception = True, ei_dict = demo_event\<rparr> 9 db)"

lemma demo_store_messages:
  "\<exists>a b. messages (task_queue (demo_store (demo_store demo_ingest))) = [a, b] \<and> message_id a = message_id b"
  by (simp add: event_store_def enqueue_def cache_add_def DEFAULT_TIMEOUT_US_def demo_slow_env_def demo_ingest_def message_id_issue
      issue_dict_def Let_def)

theorem event_ids_deduplicated_witness:
  "\<exists>a b. messages (task_queue (demo_store (demo_store demo_ingest))) = [a, b] \<and> im_received a + 300000000 \<le> im_received b"
proof -
  have "ingest_reach demo_slow_env (demo_store (demo_store demo_ingest))"
    by (intro ingest_reach.store ingest_reach.start) (simp add: demo_ingest_def)
  from event_ids_deduplicated [OF this] demo_store_messages show ?thesis by fastforce
qed

definition demo_items :: "(string \<Rightarrow> string option) envelope_state" where
  "demo_items = \<lparr>es_db = demo_ingest, es_minidump = None, es_processed = False\<rparr>"

theorem damaged_items_are_local_witness:
  "item_loop demo_env (info_of_row demo_row) 7 None None [(''event'', ''good''), (''event'', ''bad''), (''event'', ''good'')] demo_items =
   item_loop demo_env (info_of_row demo_row) 7 None None [(''event'', ''good'')]
     (next_item (item_loop demo_env (info_of_row demo_row) 7 None None [(''event'', ''good'')] demo_items))"
  using damaged_items_are_local [of demo_env "[(''event'', ''good'')]" "''event''" "''bad''" "info_of_row demo_row" 7 None None
      "[(''event'', ''good'')]" demo_items]
  by (simp add: demo_env_def unusable_def)

end
