(* ===== verification/Logs.thy ===== *)
theory Logs
  imports Py_Int Statistics Event_Utils "HOL-Library.Word"
begin

text \<open>
  Log ingest: \<open>apps/logs/process_logs.py\<close> with the levels of \<open>apps/logs/constants.py\<close>, the buckets of
  \<open>apps/logs/models.py\<close> and the task of \<open>apps/logs/tasks.py\<close>, and the conversion of OpenTelemetry
  records of \<open>apps/event_ingest/schema.py\<close>.

  A log item is the dictionary that \<open>LogItemSchema\<close> produces, with its fields by name and the rest as
  extra entries. The hash function and the parser of ISO timestamps are arguments; the latter is
  \<open>None\<close> where parsing, or the comparison with an aware time, raises. Row ids are an argument: the
  function from the position in the batch and the timestamp to the UUIDv7.
\<close>

section \<open>Data\<close>

datatype log_timestamp = TsNumber rat | TsText string | TsMissing

record log_item =
  li_timestamp :: log_timestamp
  li_level :: "string option"
  li_body :: string
  li_trace_id :: "string option"
  li_span_id :: "string option"
  li_severity_number :: "int option"
  li_service :: string
  li_environment :: string
  li_host :: string
  li_extra :: "(pkey \<times> json) list"

record log_message =
  lm_project :: int
  lm_org :: int
  lm_logs :: "log_item list"

record log_row =
  lr_id :: int
  lr_trace_id :: "uuid option"
  lr_org :: int
  lr_project :: int
  lr_span_id :: "int option"
  lr_level :: int
  lr_severity :: "int option"
  lr_body :: string
  lr_service :: string
  lr_environment :: string
  lr_host :: string
  lr_data :: "(pkey \<times> json) list"

text \<open>Statistics by project, level, service bucket and environment bucket.\<close>

type_synonym log_stat_key = "int \<times> int \<times> nat \<times> nat"

record log_db =
  log_rows :: "log_row list"
  log_stats :: "(log_stat_key \<times> int \<times> datetime, int) dict"
  log_resources :: "(int \<times> string \<times> string, datetime \<times> datetime) dict"

section \<open>Fields of a log item\<close>

definition LEVEL_MAP :: "(string, int) dict" where
  "LEVEL_MAP = [(''trace'', 0), (''debug'', 1), (''info'', 2), (''warn'', 3), (''warning'', 3), (''error'', 4), (''fatal'', 5)]"

definition parse_level :: "string option \<Rightarrow> int" where
  "parse_level l =
     (case map_of LEVEL_MAP (lower (case l of None \<Rightarrow> ''info'' | Some s \<Rightarrow> s)) of Some v \<Rightarrow> v | None \<Rightarrow> 2)"

text \<open>\<open>parse_level_filters\<close> of the query side: names that are not levels are ignored.\<close>

definition parse_level_filters :: "string list \<Rightarrow> int list option" where
  "parse_level_filters ls =
     (let vs = List.map_filter (\<lambda>l. map_of LEVEL_MAP (lower l)) ls in if vs = [] then None else Some vs)"

definition compute_hash_bucket :: "(string \<Rightarrow> nat list) \<Rightarrow> string \<Rightarrow> nat" where
  "compute_hash_bucket md5 name = (if name = [] then 0 else md5 name ! 0)"

definition parse_span_id :: "string option \<Rightarrow> int option" where
  "parse_span_id s =
     (case s of
        None \<Rightarrow> None
      | Some t \<Rightarrow>
          if t = [] then None
          else map_option (\<lambda>value. if value \<ge> 2 ^ 63 then value - 2 ^ 64 else value)
                 (py_int 16 (remove_all ''0x'' (remove_all ''-'' t))))"

definition parse_trace_id :: "string option \<Rightarrow> uuid option" where
  "parse_trace_id s =
     (case s of
        None \<Rightarrow> None
      | Some t \<Rightarrow> if t = [] then None else (case uuid_parse t of Some u \<Rightarrow> if u \<noteq> 0 then Some u else None | None \<Rightarrow> None))"

text \<open>
  \<open>datetime.fromtimestamp\<close> in UTC: microseconds, ties to even, an error outside the years 1 to 9999.
\<close>

definition round_half_even :: "rat \<Rightarrow> int" where
  "round_half_even x =
     (let f = \<lfloor>x\<rfloor>; d = x - of_int f in
      if d < 1 / 2 then f else if d > 1 / 2 then f + 1 else if even f then f else f + 1)"

definition MIN_TIME :: datetime where "MIN_TIME = -62135596800000000"
definition MAX_TIME :: datetime where "MAX_TIME = 253402300799999999"

definition fromtimestamp :: "rat \<Rightarrow> datetime option" where
  "fromtimestamp x =
     (let us = round_half_even (x * 1000000) in if MIN_TIME \<le> us \<and> us \<le> MAX_TIME then Some us else None)"

definition item_time :: "(string \<Rightarrow> datetime option) \<Rightarrow> datetime \<Rightarrow> log_timestamp \<Rightarrow> datetime option" where
  "item_time parse_iso server_time ts =
     (case ts of TsNumber x \<Rightarrow> fromtimestamp x | TsText s \<Rightarrow> parse_iso s | TsMissing \<Rightarrow> Some server_time)"

definition MAX_TIMESTAMP_DRIFT :: int where "MAX_TIMESTAMP_DRIFT = 86400000000"

definition validate_timestamp :: "datetime \<Rightarrow> datetime \<Rightarrow> bool" where
  "validate_timestamp client_timestamp server_time \<longleftrightarrow> \<bar>client_timestamp - server_time\<bar> \<le> MAX_TIMESTAMP_DRIFT"

section \<open>OpenTelemetry records\<close>

definition otel_severity_to_level :: "int option \<Rightarrow> string option \<Rightarrow> string" where
  "otel_severity_to_level severity_number severity_text =
     (let by_text = (case severity_text of Some t \<Rightarrow> if t \<noteq> [] then lower t else ''info'' | None \<Rightarrow> ''info'') in
      case severity_number of
        None \<Rightarrow> by_text
      | Some n \<Rightarrow>
          if 1 \<le> n \<and> n < 5 then ''trace'' else if 5 \<le> n \<and> n < 9 then ''debug'' else if 9 \<le> n \<and> n < 13 then ''info''
          else if 13 \<le> n \<and> n < 17 then ''warn'' else if 17 \<le> n \<and> n < 21 then ''error'' else if 21 \<le> n \<and> n < 25 then ''fatal''
          else by_text)"

section \<open>A batch\<close>

datatype item_result = Raises | Rejected | Accepted datetime log_row

definition process_item ::
    "(string \<Rightarrow> datetime option) \<Rightarrow> (nat \<Rightarrow> datetime \<Rightarrow> int) \<Rightarrow> datetime \<Rightarrow> nat \<Rightarrow> int \<Rightarrow> int \<Rightarrow> log_item \<Rightarrow> item_result" where
  "process_item parse_iso mkid server_time n pid oid li =
     (case item_time parse_iso server_time (li_timestamp li) of
        None \<Rightarrow> Raises
      | Some t \<Rightarrow>
          if \<not> validate_timestamp t server_time then Rejected
          else Accepted t
            \<lparr>lr_id = mkid n t, lr_trace_id = parse_trace_id (li_trace_id li), lr_org = oid, lr_project = pid,
             lr_span_id = parse_span_id (li_span_id li), lr_level = parse_level (li_level li),
             lr_severity = li_severity_number li, lr_body = li_body li, lr_service = li_service li,
             lr_environment = li_environment li, lr_host = li_host li, lr_data = li_extra li\<rparr>)"

text \<open>The items of all messages, in order, with project and organization.\<close>

definition batch_items :: "log_message list \<Rightarrow> (int \<times> int \<times> log_item) list" where
  "batch_items ms = concat (map (\<lambda>m. map (\<lambda>li. (lm_project m, lm_org m, li)) (lm_logs m)) ms)"

definition batch_results where
  "batch_results parse_iso mkid server_time ms =
     map (\<lambda>(n, pid, oid, li). process_item parse_iso mkid server_time n pid oid li) (List.enumerate 0 (batch_items ms))"

definition accepted :: "item_result list \<Rightarrow> (datetime \<times> log_row) list" where
  "accepted rs = List.map_filter (\<lambda>r. case r of Accepted t row \<Rightarrow> Some (t, row) | _ \<Rightarrow> None) rs"

text \<open>
  What the columns take: 64 and 16 bit integers, text without NUL, names of at most 255 characters
  (a longer name counts as refused here also when only spaces are in excess), data without NUL.
\<close>

definition fits_columns :: "log_row \<Rightarrow> bool" where
  "fits_columns r \<longleftrightarrow>
     (case lr_span_id r of None \<Rightarrow> True | Some v \<Rightarrow> - (2 ^ 63) \<le> v \<and> v < 2 ^ 63) \<and>
     (case lr_severity r of None \<Rightarrow> True | Some v \<Rightarrow> - (2 ^ 15) \<le> v \<and> v < 2 ^ 15) \<and>
     CHR 0x00 \<notin> set (lr_body r) \<and>
     list_all (\<lambda>s. length s \<le> 255 \<and> CHR 0x00 \<notin> set s) [lr_service r, lr_environment r, lr_host r] \<and>
     nul_free_items (lr_data r)"

text \<open>
  \<open>copy_rows\<close>, then the conflict-tolerant INSERT: a row that a column refuses, or whose id falls into
  no partition, raises in both; of rows with the same id and organization the first is kept.
\<close>

definition insert_row :: "log_row \<Rightarrow> log_row list \<Rightarrow> log_row list" where
  "insert_row r tbl = (if list_ex (\<lambda>q. lr_id q = lr_id r \<and> lr_org q = lr_org r) tbl then tbl else tbl @ [r])"

definition write_log_rows :: "(int \<Rightarrow> bool) \<Rightarrow> log_row list \<Rightarrow> log_row list \<Rightarrow> log_row list option" where
  "write_log_rows has_partition rows tbl =
     (if list_all (\<lambda>r. fits_columns r \<and> has_partition (lr_id r)) rows then Some (fold insert_row rows tbl) else None)"

definition log_stat_key :: "(string \<Rightarrow> nat list) \<Rightarrow> datetime \<times> log_row \<Rightarrow> datetime \<times> log_stat_key" where
  "log_stat_key md5 x =
     (hour_of (fst x), lr_project (snd x), lr_level (snd x), compute_hash_bucket md5 (lr_service (snd x)),
      compute_hash_bucket md5 (lr_environment (snd x)))"

definition project_hourly_stats where
  "project_hourly_stats md5 xs =
     fold (\<lambda>x m. dset m (log_stat_key md5 x) (stat_step (map_of m (log_stat_key md5 x)) (lr_org (snd x)))) xs []"

definition update_log_statistics where
  "update_log_statistics stats tbl = upsert_counts (sort_key (\<lambda>((d, k, l, sb, eb), (n, oid)). (d, k, oid, l, sb, eb)) stats) tbl"

definition unique_resources :: "(datetime \<times> log_row) list \<Rightarrow> (int \<times> string \<times> string) list" where
  "unique_resources xs = remdups (concat (map (\<lambda>(_, r).
     filter (\<lambda>(_, name, _). name \<noteq> []) [(lr_org r, lr_service r, ''service''), (lr_org r, lr_environment r, ''environment''),
       (lr_org r, lr_host r, ''host'')]) xs))"

definition update_resource_lookup ::
    "datetime \<Rightarrow> (int \<times> string \<times> string) list \<Rightarrow> (int \<times> string \<times> string, datetime \<times> datetime) dict
     \<Rightarrow> (int \<times> string \<times> string, datetime \<times> datetime) dict" where
  "update_resource_lookup now rs tbl =
     fold (\<lambda>r t. dset t r (case map_of t r of Some (first, _) \<Rightarrow> (first, now) | None \<Rightarrow> (now, now))) rs tbl"

text \<open>The number of accepted items, or \<open>None\<close> when the batch raises.\<close>

definition process_log_events ::
    "(string \<Rightarrow> nat list) \<Rightarrow> (string \<Rightarrow> datetime option) \<Rightarrow> (nat \<Rightarrow> datetime \<Rightarrow> int) \<Rightarrow> (int \<Rightarrow> bool) \<Rightarrow> datetime
     \<Rightarrow> log_message list \<Rightarrow> log_db \<Rightarrow> nat option \<times> log_db" where
  "process_log_events md5 parse_iso mkid has_partition server_time ms d =
     (let rs = batch_results parse_iso mkid server_time ms; xs = accepted rs in
      if Raises \<in> set rs then (None, d)
      else if xs = [] then (Some 0, d)
      else (case write_log_rows has_partition (map snd xs) (log_rows d) of
              None \<Rightarrow> (None, d)
            | Some rows \<Rightarrow>
                (Some (length xs),
                 d\<lparr>log_rows := rows, log_stats := update_log_statistics (project_hourly_stats md5 xs) (log_stats d),
                   log_resources := update_resource_lookup server_time (unique_resources xs) (log_resources d)\<rparr>)))"

text \<open>The task: a message that cannot be read (\<open>None\<close>) is dropped, the others are processed.\<close>

definition ingest_logs where
  "ingest_logs read_message md5 parse_iso mkid has_partition server_time tasks d =
     process_log_events md5 parse_iso mkid has_partition server_time (List.map_filter read_message tasks) d"

section \<open>Span ids\<close>

lemma remove_all_absent: "c \<in> set p \<Longrightarrow> c \<notin> set s \<Longrightarrow> remove_all p s = s"
proof (induction s)
  case (Cons a s)
  have "\<not> starts_with p (a # s)"
    using Cons.prems by (metis Un_iff set_append starts_with_iff)
  with Cons show ?case by (simp add: remove_all.simps [of p "a # s"])
qed (simp add: remove_all.simps)

lemma hex_digit_facts:
  assumes "d < 16"
  shows "digit_in 16 (hex_digit d) = Some d" "hex_digit d \<noteq> CHR ''_''" "hex_digit d \<noteq> CHR ''x''" "hex_digit d \<noteq> CHR ''X''"
    "hex_digit d \<noteq> CHR ''+''" "\<not> is_space (hex_digit d)"
proof -
  have o: "ord_of (hex_digit d) = (if d < 10 then 48 + d else 87 + d)" using assms by (simp add: hex_digit_def)
  show "digit_in 16 (hex_digit d) = Some d" using assms by (simp add: digit_in_def o Let_def)
  have "hex_digit d = c \<Longrightarrow> (if d < 10 then 48 + d else 87 + d) = ord_of c" for c using o by auto
  from this [of "CHR ''_''"] this [of "CHR ''x''"] this [of "CHR ''X''"] this [of "CHR ''+''"]
  show "hex_digit d \<noteq> CHR ''_''" "hex_digit d \<noteq> CHR ''x''" "hex_digit d \<noteq> CHR ''X''" "hex_digit d \<noteq> CHR ''+''"
    using assms by (auto split: if_splits)
  show "\<not> is_space (hex_digit d)" using assms by (auto simp: is_space_def o)
qed

lemma hex_of_chars: "c \<in> set (hex_of w n) \<Longrightarrow> \<exists>d<16. c = hex_digit d"
proof (induction w arbitrary: n)
  case (Suc w)
  have "n mod 16 < 16" by simp
  then have "\<exists>d<16. hex_digit (n mod 16) = hex_digit d" by blast
  with Suc show ?case by auto
qed simp

lemma digits_in_hex:
  "digits_in 16 acc prev (hex_of w n @ s) = digits_in 16 (16 ^ w * acc + n mod 16 ^ w) (prev \<or> 0 < w) s"
proof (induction w arbitrary: acc n s)
  case (Suc w)
  have d: "n mod 16 < 16" by simp
  have eq: "16 * (16 ^ w * acc + (n div 16) mod 16 ^ w) + n mod 16 = 16 ^ Suc w * acc + n mod 16 ^ Suc w"
    by (simp add: mod_mult2_eq [of n 16 "16 ^ w"] distrib_left)
  have "digits_in 16 acc prev (hex_of (Suc w) n @ s) =
      digits_in 16 (16 ^ w * acc + (n div 16) mod 16 ^ w) (prev \<or> 0 < w) (hex_digit (n mod 16) # s)"
    using Suc.IH [of acc "n div 16" "hex_digit (n mod 16) # s"] by simp
  also have "\<dots> = digits_in 16 (16 ^ Suc w * acc + n mod 16 ^ Suc w) True s"
    unfolding eq [symmetric] using hex_digit_facts [OF d] by simp
  finally show ?case by simp
qed simp

lemma py_int_hex:
  assumes "n < 16 ^ w" "0 < w"
  shows "py_int 16 (hex_of w n) = Some (int n)"
proof -
  let ?h = "hex_of w n"
  have "\<not> is_space c \<and> c \<notin> {CHR ''+'', CHR ''-'', CHR ''x'', CHR ''X''}" if "c \<in> set ?h" for c
    using hex_of_chars [OF that] hex_digit_facts hex_digit_not_dash by auto
  then have c: "\<forall>c\<in>set ?h. \<not> is_space c" "CHR ''+'' \<notin> set ?h" "CHR ''-'' \<notin> set ?h" "CHR ''x'' \<notin> set ?h" "CHR ''X'' \<notin> set ?h"
    by blast+
  then have "strip ?h = ?h" by (intro strip_no_space) auto
  moreover have "\<not> starts_with ''-'' ?h" "\<not> starts_with ''+'' ?h" "\<not> starts_with ''0x'' ?h" "\<not> starts_with ''0X'' ?h"
    using c(2-5) by (auto simp: starts_with_iff)
  moreover have "digits_in 16 0 False ?h = Some n"
    using digits_in_hex [of 0 False w n "[]"] assms by simp
  ultimately show ?thesis by (simp add: py_int_def Let_def drop_prefix_16_def)
qed

lemma sint_64: "sint (w :: 64 word) = (if uint w \<ge> 2 ^ 63 then uint w - 2 ^ 64 else uint w)"
proof -
  have r: "0 \<le> uint w" "uint w < 2 ^ 64" using uint_bounded [of w] by simp_all
  show ?thesis
  proof (cases "uint w \<ge> 2 ^ 63")
    case True
    have "signed_take_bit 63 (uint w) = signed_take_bit 63 (uint w - 2 ^ 64)"
      by (simp add: signed_take_bit_eq_iff_take_bit_eq take_bit_eq_mod)
    also have "\<dots> = uint w - 2 ^ 64" using r True by (intro signed_take_bit_int_eq_self) simp_all
    finally show ?thesis using True by (simp add: sint_uint)
  next
    case False
    then have "signed_take_bit 63 (uint w) = uint w" using r by (intro signed_take_bit_int_eq_self) linarith+
    with False show ?thesis by (simp add: sint_uint)
  qed
qed

lemma parse_span_hex:
  assumes "n < 16 ^ w" "0 < w"
  shows "parse_span_id (Some (hex_of w n)) = Some (if int n \<ge> 2 ^ 63 then int n - 2 ^ 64 else int n)"
proof -
  let ?h = "hex_of w n"
  have ne: "?h \<noteq> []" using assms(2) by (metis length_hex_of length_greater_0_conv)
  have "CHR ''x'' \<notin> set ?h" using hex_of_chars [of "CHR ''x''" w n] hex_digit_facts(3) by metis
  then have rm: "remove_all ''0x'' (remove_all ''-'' ?h) = ?h"
    using hex_of_no_dash [of w n] by (simp add: remove_all_absent [of "CHR ''-''"] remove_all_absent [of "CHR ''x''"])
  show ?thesis using py_int_hex [OF assms] by (simp add: parse_span_id_def ne rm)
qed

text \<open>
  Further property. A span id of eight bytes is stored as the 64-bit integer with the same bits: parsing
  its sixteen hexadecimal digits gives the signed value of the word, which a BIGINT column holds and
  from which the unsigned id can be read back.
\<close>

theorem span_id_is_two_complement:
  "parse_span_id (Some (hex_of 16 (unat w))) = Some (sint (w :: 64 word)) \<and>
   - (2 ^ 63) \<le> sint w \<and> sint w < 2 ^ 63 \<and> sint w mod 2 ^ 64 = uint w"
proof -
  have "unat w < 16 ^ 16" using uint_bounded [of w] by (simp add: nat_less_iff flip: nat_uint_eq)
  then have "parse_span_id (Some (hex_of 16 (unat w))) = Some (sint w)"
    by (subst parse_span_hex) (simp_all add: sint_64)
  moreover have "- (2 ^ 63) \<le> sint w \<and> sint w < 2 ^ 63"
  proof -
    obtain k where k: "k = uint w" "0 \<le> k" "k < 2 ^ 64" using uint_bounded [of w] by simp
    then show ?thesis unfolding sint_64 k(1) [symmetric] by auto
  qed
  moreover have "sint w mod 2 ^ 64 = uint w"
    using uint_bounded [of w] by (auto simp: sint_64 mod_pos_pos_trivial)
  ultimately show ?thesis by simp
qed

text \<open>The severity numbers of OpenTelemetry, four to a level, arrive at the stored levels.\<close>

lemma otel_levels:
  assumes "1 \<le> n" "n \<le> 24"
  shows "parse_level (Some (otel_severity_to_level (Some n) t)) = (n - 1) div 4"
proof -
  have l: "parse_level (Some ''trace'') = 0" "parse_level (Some ''debug'') = 1" "parse_level (Some ''info'') = 2"
    "parse_level (Some ''warn'') = 3" "parse_level (Some ''error'') = 4" "parse_level (Some ''fatal'') = 5"
    by code_simp+
  consider "n \<in> {1..4}" | "n \<in> {5..8}" | "n \<in> {9..12}" | "n \<in> {13..16}" | "n \<in> {17..20}" | "n \<in> {21..24}"
    using assms by force
  then show ?thesis
    by cases (auto simp: otel_severity_to_level_def Let_def l)
qed

section \<open>Batches\<close>

lemma accepted_iff:
  "(t, row) \<in> set (accepted (batch_results parse_iso mkid server_time ms)) \<longleftrightarrow>
     (\<exists>n pid oid li. (n, pid, oid, li) \<in> set (List.enumerate 0 (batch_items ms)) \<and>
        process_item parse_iso mkid server_time n pid oid li = Accepted t row)"
proof -
  have "(t, row) \<in> set (accepted rs) \<longleftrightarrow> Accepted t row \<in> set rs" for rs
    by (induction rs) (auto simp: accepted_def map_filter_simps split: item_result.splits)
  then show ?thesis by (force simp: batch_results_def)
qed

lemma insert_rows_mem:
  "set (fold insert_row rows tbl) \<subseteq> set tbl \<union> set rows"
  "set tbl \<subseteq> set (fold insert_row rows tbl)"
  by (induction rows arbitrary: tbl) (fastforce simp: insert_row_def split: if_splits)+

lemma insert_rows_present:
  assumes "r \<in> set rows"
  shows "\<exists>q\<in>set (fold insert_row rows tbl). lr_id q = lr_id r \<and> lr_org q = lr_org r"
  using assms
proof (induction rows arbitrary: tbl)
  case (Cons a rows)
  show ?case
  proof (cases "r = a")
    case True
    have "\<exists>q\<in>set (insert_row a tbl). lr_id q = lr_id a \<and> lr_org q = lr_org a"
      by (auto simp: insert_row_def list_ex_iff)
    then show ?thesis using insert_rows_mem(2) [of "insert_row a tbl" rows] True by auto
  next
    case False
    then show ?thesis using Cons by simp
  qed
qed simp

lemma map_of_project_hourly_stats:
  "map_of (project_hourly_stats md5 xs) k =
     (let ys = filter (\<lambda>x. log_stat_key md5 x = k) xs in
      if ys = [] then None else Some (int (length ys), lr_org (snd (last ys))))"
  unfolding project_hourly_stats_def
  by (simp add: dict.get_fold [where stp = "\<lambda>a x. stat_step a (lr_org (snd x))"] fold_stat_step Let_def)

lemma dict_ok_project_hourly_stats: "dict_ok (project_hourly_stats md5 xs)"
  unfolding project_hourly_stats_def
  by (rule dict.ok_fold [where stp = "\<lambda>a x. stat_step a (lr_org (snd x))"]) simp

text \<open>Every project sends for one organization.\<close>

definition messages_ok :: "(int, int) dict \<Rightarrow> log_message list \<Rightarrow> bool" where
  "messages_ok orgs ms \<longleftrightarrow> (\<forall>m\<in>set ms. map_of orgs (lm_project m) = Some (lm_org m))"

lemma accepted_org:
  assumes "messages_ok orgs ms" "(t, row) \<in> set (accepted (batch_results parse_iso mkid server_time ms))"
  shows "map_of orgs (lr_project row) = Some (lr_org row)"
proof -
  obtain n pid oid li where "(n, pid, oid, li) \<in> set (List.enumerate 0 (batch_items ms))"
    and r: "process_item parse_iso mkid server_time n pid oid li = Accepted t row"
    using assms(2) by (auto simp: accepted_iff)
  then have "(pid, oid, li) \<in> set (batch_items ms)" by (metis enumerate_eq_zip set_zip_rightD)
  then have "map_of orgs pid = Some oid" using assms(1) by (auto simp: batch_items_def messages_ok_def)
  then show ?thesis using r by (auto simp: process_item_def split: option.splits if_splits)
qed

text \<open>
  Further property. A batch of logs that does not raise reports how many items it accepted; each of them
  is within a day of the server's time and has its row (or one with the same id was there), nothing
  else is added, and the hourly counter of every project, level and bucket grows by the number of
  accepted items that belong to it.
\<close>

theorem log_batch_is_accounted:
  fixes md5
  assumes "process_log_events md5 parse_iso mkid has_partition server_time ms d = (Some n, d')" and "messages_ok orgs ms"
  defines "xs \<equiv> accepted (batch_results parse_iso mkid server_time ms)"
  shows "n = length xs \<and> list_all (\<lambda>(t, row). validate_timestamp t server_time) xs \<and>
    set (log_rows d) \<subseteq> set (log_rows d') \<and> set (log_rows d') \<subseteq> set (log_rows d) \<union> snd ` set xs \<and>
    list_all (\<lambda>(t, row). list_ex (\<lambda>q. lr_id q = lr_id row \<and> lr_org q = lr_org row) (log_rows d')) xs \<and>
    val (log_stats d') (k, oid, h) = val (log_stats d) (k, oid, h) +
      int (length (filter (\<lambda>x. log_stat_key md5 x = (h, k) \<and> lr_org (snd x) = oid) xs))"
proof -
  have rs: "Raises \<notin> set (batch_results parse_iso mkid server_time ms)"
    using assms(1) by (auto simp: process_log_events_def Let_def)
  have drift: "validate_timestamp t server_time" if "(t, row) \<in> set xs" for t row
    using that unfolding xs_def accepted_iff by (auto simp: process_item_def split: option.splits if_splits)
  have org: "lr_org (snd x) = lr_org (snd y)" if "x \<in> set xs" "y \<in> set xs" "lr_project (snd x) = lr_project (snd y)" for x y
    using accepted_org [OF assms(2), of "fst x" "snd x"] accepted_org [OF assms(2), of "fst y" "snd y"] that
    by (simp add: xs_def)
  show ?thesis
  proof (cases "xs = []")
    case True
    then have "n = 0" "d' = d" using assms(1) rs by (simp_all add: process_log_events_def Let_def xs_def)
    with True show ?thesis by simp
  next
    case False
    then have n: "n = length xs" and rows: "log_rows d' = fold insert_row (map snd xs) (log_rows d)"
      and stats: "log_stats d' = update_log_statistics (project_hourly_stats md5 xs) (log_stats d)"
      using assms(1) rs by (auto simp: process_log_events_def Let_def write_log_rows_def xs_def [symmetric] split: if_splits)
    define ys where "ys = filter (\<lambda>x. log_stat_key md5 x = (h, k)) xs"
    have "\<forall>x\<in>set ys. \<forall>y\<in>set ys. lr_org (snd x) = lr_org (snd y)"
    proof (intro ballI)
      fix x y assume "x \<in> set ys" "y \<in> set ys"
      then have "x \<in> set xs" "y \<in> set xs" "log_stat_key md5 x = log_stat_key md5 y" by (simp_all add: ys_def)
      then show "lr_org (snd x) = lr_org (snd y)" by (intro org) (simp_all add: log_stat_key_def)
    qed
    moreover have "map_of (project_hourly_stats md5 xs) (h, k) =
        (let zs = ys in if zs = [] then None else Some (int (length zs), lr_org (snd (last zs))))"
      unfolding ys_def by (rule map_of_project_hourly_stats)
    ultimately have "val (log_stats d') (k, oid, h) = val (log_stats d) (k, oid, h) + int (length (filter (\<lambda>x. lr_org (snd x) = oid) ys))"
      unfolding stats update_log_statistics_def
      by (intro hourly_val [where org = "\<lambda>x. lr_org (snd x)"] dict_ok_project_hourly_stats)
    moreover have "filter (\<lambda>x. lr_org (snd x) = oid) ys = filter (\<lambda>x. log_stat_key md5 x = (h, k) \<and> lr_org (snd x) = oid) xs"
      by (auto simp: ys_def intro: filter_cong)
    ultimately have "val (log_stats d') (k, oid, h) = val (log_stats d) (k, oid, h) +
        int (length (filter (\<lambda>x. log_stat_key md5 x = (h, k) \<and> lr_org (snd x) = oid) xs))" by simp
    moreover have "set (log_rows d) \<subseteq> set (log_rows d')" "set (log_rows d') \<subseteq> set (log_rows d) \<union> snd ` set xs"
      unfolding rows using insert_rows_mem(1) [of "map snd xs" "log_rows d"] insert_rows_mem(2) [of "log_rows d" "map snd xs"] by auto
    moreover have "list_all (\<lambda>(t, row). validate_timestamp t server_time) xs"
      unfolding list_all_iff using drift by blast
    moreover have "list_all (\<lambda>(t, row). list_ex (\<lambda>q. lr_id q = lr_id row \<and> lr_org q = lr_org row) (log_rows d')) xs"
      unfolding list_all_iff list_ex_iff rows using insert_rows_present [of _ "map snd xs" "log_rows d"] by fastforce
    ultimately show ?thesis using n by blast
  qed
qed

text \<open>
  Further property. One bad item loses the batch: it raises exactly when the timestamp of some item cannot
  be converted, or an accepted row does not fit its columns or has no partition, and then no row,
  counter or resource of any message in it is stored, whichever organization sent it.
\<close>

theorem log_batch_errors:
  fixes parse_iso mkid server_time ms
  defines "rs \<equiv> batch_results parse_iso mkid server_time ms"
  shows "(fst (process_log_events md5 parse_iso mkid has_partition server_time ms d) = None \<longleftrightarrow>
     Raises \<in> set rs \<or> list_ex (\<lambda>(t, row). \<not> (fits_columns row \<and> has_partition (lr_id row))) (accepted rs)) \<and>
   (fst (process_log_events md5 parse_iso mkid has_partition server_time ms d) = None \<longrightarrow>
     snd (process_log_events md5 parse_iso mkid has_partition server_time ms d) = d)"
proof -
  have "list_all P (map snd xs) \<longleftrightarrow> \<not> list_ex (\<lambda>(t, row). \<not> P row) xs" for P and xs :: "(datetime \<times> log_row) list"
    by (auto simp: list_all_iff list_ex_iff)
  from this [of "\<lambda>r. fits_columns r \<and> has_partition (lr_id r)"] show ?thesis
    by (auto simp: process_log_events_def Let_def write_log_rows_def rs_def [symmetric])
qed

section \<open>Witnesses\<close>

definition demo_log :: "string option \<Rightarrow> log_item" where
  "demo_log sid = \<lparr>li_timestamp = TsMissing, li_level = Some ''ERROR'', li_body = ''b'', li_trace_id = None, li_span_id = sid,
     li_severity_number = Some 17, li_service = [], li_environment = [], li_host = ''h'', li_extra = []\<rparr>"

definition demo_logs :: "string option \<Rightarrow> log_message list" where
  "demo_logs sid = [\<lparr>lm_project = 1, lm_org = 5, lm_logs = [demo_log None]\<rparr>, \<lparr>lm_project = 2, lm_org = 6, lm_logs = [demo_log sid]\<rparr>]"

definition demo_log_db :: log_db where
  "demo_log_db = \<lparr>log_rows = [], log_stats = [], log_resources = []\<rparr>"

abbreviation demo_log_run where
  "demo_log_run sid \<equiv> process_log_events (\<lambda>_. [0]) (\<lambda>_. None) (\<lambda>n t. int n) (\<lambda>_. True) 7200000000 (demo_logs sid) demo_log_db"

lemmas demo_log_simps = process_log_events_def batch_results_def batch_items_def accepted_def map_filter_simps process_item_def item_time_def
  validate_timestamp_def MAX_TIMESTAMP_DRIFT_def demo_logs_def demo_log_def demo_log_db_def write_log_rows_def fits_columns_def
  parse_level_def LEVEL_MAP_def parse_trace_id_def log_stat_key_def compute_hash_bucket_def

lemma demo_level: "lower ''ERROR'' = ''error''"
  by code_simp

lemma demo_log_result: "fst (demo_log_run None) = Some 2"
  by (simp add: demo_log_simps parse_span_id_def Let_def demo_level)

theorem log_batch_is_accounted_witness:
  "val (log_stats (snd (demo_log_run None))) ((2, 4, 0, 0), 6, 7200000000) = 1"
proof -
  have ok: "messages_ok [(1, 5), (2, 6)] (demo_logs None)" by (simp add: messages_ok_def demo_logs_def)
  have run: "demo_log_run None = (Some 2, snd (demo_log_run None))" using demo_log_result by (metis prod.collapse)
  show ?thesis
    using log_batch_is_accounted [OF run ok, of "(2, 4, 0, 0)" 6 7200000000]
    by (simp add: demo_log_simps parse_span_id_def hour_of_def val_def Let_def demo_level)
qed

lemma demo_span: "parse_span_id (Some (hex_of 17 (2 ^ 65 - 1))) = Some (2 ^ 64 - 1)"
  by (subst parse_span_hex) simp_all

text \<open>
  A span id of seventeen digits in one organization's message loses the message of the other
  organization too.
\<close>

theorem log_batch_errors_witness: "demo_log_run (Some (hex_of 17 (2 ^ 65 - 1))) = (None, demo_log_db)"
proof -
  have "fst (demo_log_run (Some (hex_of 17 (2 ^ 65 - 1)))) = None"
    by (subst log_batch_errors [THEN conjunct1]) (simp add: demo_log_simps demo_span [simplified] Let_def demo_level del: hex_of.simps)
  moreover from this have "snd (demo_log_run (Some (hex_of 17 (2 ^ 65 - 1)))) = demo_log_db"
    by (rule log_batch_errors [THEN conjunct2, THEN mp])
  ultimately show ?thesis by (metis prod.collapse)
qed

end
