(* ===== verification/File_Assembly.thy ===== *)
theory File_Assembly
  imports GT_Prelude
begin

text \<open>
  Chunked uploads and artifact bundles: \<open>apps/files/api.py\<close>, \<open>apps/files/models.py\<close>,
  \<open>apps/files/assemble.py\<close>, \<open>apps/files/tasks.py\<close> and \<open>sentry/utils/zip.py\<close>.

  File contents are strings of bytes. SHA-1, the reader of zip archives and the parser of the
  manifest are arguments; headers of an artifact are text, debug ids are taken in canonical form.
  The scratch directory is a dictionary from paths to contents; the rest of the file system, which
  \<open>open\<close> sees as well, is an argument. Times are seconds.
\<close>

section \<open>Paths\<close>

text \<open>\<open>posixpath.join\<close> of two parts and \<open>posixpath.normpath\<close>.\<close>

definition path_join :: "string \<Rightarrow> string \<Rightarrow> string" where
  "path_join a b = (if starts_with ''/'' b then b else if a = [] \<or> last a = CHR ''/'' then a @ b else a @ ''/'' @ b)"

definition norm_step :: "bool \<Rightarrow> string \<Rightarrow> string list \<Rightarrow> string list" where
  "norm_step rooted c acc =
     (if c = [] \<or> c = ''.'' then acc
      else if c \<noteq> ''..'' \<or> (\<not> rooted \<and> acc = []) \<or> (acc \<noteq> [] \<and> last acc = ''..'') then acc @ [c]
      else if acc \<noteq> [] then butlast acc else acc)"

definition initial_slashes :: "string \<Rightarrow> nat" where
  "initial_slashes p =
     (if \<not> starts_with ''/'' p then 0 else if starts_with ''//'' p \<and> \<not> starts_with ''///'' p then 2 else 1)"

definition normpath :: "string \<Rightarrow> string" where
  "normpath p =
     (if p = [] then ''.''
      else (let n = initial_slashes p;
                comps = fold (norm_step (0 < n)) (split_char (CHR ''/'') p) [];
                r = replicate n (CHR ''/'') @ join ''/'' comps
            in if r = [] then ''.'' else r))"

definition is_unsafe_path :: "string \<Rightarrow> bool" where
  "is_unsafe_path p \<longleftrightarrow> starts_with ''/'' p \<or> ''..'' \<in> set (split_char (CHR ''/'') p)"

text \<open>The prefix test of the manifest loop.\<close>

definition inside :: "string \<Rightarrow> string \<Rightarrow> bool" where
  "inside scratchpad full_path \<longleftrightarrow> starts_with (normpath scratchpad @ ''/'') full_path"

text \<open>
  \<open>safe_extract_zip\<close> without stripping of a top-level folder: directories and unsafe members are
  skipped, a later member overwrites an earlier one at the same place. A member that is the
  directory itself, that is a directory already, or that has a file where it needs a directory,
  makes \<open>open\<close> raise, and so does a member that the archive cannot read (\<open>None\<close>), once its file is
  made; what was written before stays. The result says whether nothing raised, and
  gives what was written. Places are normal paths: extraction makes no links.
\<close>

definition not_writable :: "string \<Rightarrow> (string, string) dict \<Rightarrow> string \<Rightarrow> bool" where
  "not_writable base fs p \<longleftrightarrow> p = normpath base \<or>
     list_ex (\<lambda>(q, _). starts_with (p @ ''/'') q \<or> starts_with (q @ ''/'') p) fs"

definition extract_member ::
    "string \<Rightarrow> string \<times> string option \<Rightarrow> bool \<times> (string, string) dict \<Rightarrow> bool \<times> (string, string) dict" where
  "extract_member base mc r =
     (case r of
        (False, fs) \<Rightarrow> (False, fs)
      | (True, fs) \<Rightarrow>
          let p = normpath (path_join base (fst mc)) in
          if ends_with ''/'' (fst mc) \<or> is_unsafe_path (fst mc) then (True, fs)
          else if not_writable base fs p then (False, fs)
          else (snd mc \<noteq> None, dset fs p (case snd mc of Some content \<Rightarrow> content | None \<Rightarrow> [])))"

definition safe_extract_zip :: "string \<Rightarrow> (string \<times> string option) list \<Rightarrow> bool \<times> (string, string) dict" where
  "safe_extract_zip base members = fold (extract_member base) members (True, [])"

text \<open>
  \<open>open\<close> for reading: an extracted file, or whatever the rest of the file system has at the path;
  \<open>None\<close> is an exception.
\<close>

definition open_file :: "(string \<Rightarrow> string option) \<Rightarrow> (string, string) dict \<Rightarrow> string \<Rightarrow> string option" where
  "open_file disk fs p = (case map_of fs p of Some content \<Rightarrow> Some content | None \<Rightarrow> disk p)"

section \<open>Data\<close>

record blob =
  b_id :: int
  b_checksum :: string
  b_size :: "nat option"
  b_content :: string

record file_rec =
  f_id :: int
  f_name :: string
  f_type :: string
  f_headers :: "(string, string) dict"
  f_blob :: "int option"
  f_size :: nat
  f_checksum :: "string option"

record symbol_bundle =
  sb_org :: int
  sb_debug_id :: "string option"
  sb_release :: "int option"
  sb_sourcemap :: "int option"
  sb_file :: int

datatype chunk_file_state = OK | NOT_FOUND | CREATED | ASSEMBLING | ERROR

record file_db =
  next_blob :: int
  blobs :: "blob list"
  next_file :: int
  files :: "file_rec list"
  symbol_bundles :: "symbol_bundle list"
  release_ids :: "(int \<times> string, int) dict"
  next_release :: int
  statuses :: "(string \<times> int \<times> string, (chunk_file_state \<times> string option) \<times> nat) dict"

record artifact =
  art_url :: "string option"
  art_type :: "string option"
  art_headers :: "(string, string) dict"

record manifest =
  mf_org :: "string option"
  mf_release :: "string option"
  mf_files :: "(string, artifact) dict"

section \<open>Chunk upload\<close>

definition CHUNK_UPLOAD_BLOB_SIZE :: nat where "CHUNK_UPLOAD_BLOB_SIZE = 32 * 1024 * 1024"
definition MAX_CHUNKS_PER_REQUEST :: nat where "MAX_CHUNKS_PER_REQUEST = 1"
definition MAX_REQUEST_SIZE :: nat where "MAX_REQUEST_SIZE = CHUNK_UPLOAD_BLOB_SIZE"
definition MAX_FILE_SIZE :: nat where "MAX_FILE_SIZE = 2 ^ 31"

definition find_blob :: "string \<Rightarrow> file_db \<Rightarrow> blob option" where
  "find_blob c d = find (\<lambda>b. b_checksum b = c) (blobs d)"

definition add_blob :: "string \<Rightarrow> nat \<Rightarrow> string \<Rightarrow> file_db \<Rightarrow> int \<times> file_db" where
  "add_blob c sz content d =
     (next_blob d, d\<lparr>blobs := blobs d @ [\<lparr>b_id = next_blob d, b_checksum = c, b_size = Some sz, b_content = content\<rparr>],
        next_blob := next_blob d + 1\<rparr>)"

definition get_or_create_blob :: "string \<Rightarrow> nat \<Rightarrow> string \<Rightarrow> file_db \<Rightarrow> int \<times> file_db" where
  "get_or_create_blob c sz content d =
     (case find_blob c d of Some b \<Rightarrow> (b_id b, d) | None \<Rightarrow> add_blob c sz content d)"

text \<open>
  The chunks of a request: the name of each part, which is used as its checksum, and its content
  after decompression. The column of the checksum takes 40 characters.
\<close>

datatype upload_error = ChunkTooLarge | RequestTooLarge | TooManyChunks | UploadCrash

definition from_files :: "(string \<times> string) list \<Rightarrow> file_db \<Rightarrow> upload_error + file_db" where
  "from_files chunks d =
     fold (\<lambda>(name, content) r. case r of
              Inl e \<Rightarrow> Inl e
            | Inr d \<Rightarrow> if find_blob name d = None \<and> length name > 40 then Inl UploadCrash
                       else Inr (snd (get_or_create_blob name (length content) content d)))
       chunks (Inr d)"

definition chunk_upload :: "(string \<times> string) list \<Rightarrow> file_db \<Rightarrow> upload_error + file_db" where
  "chunk_upload chunks d =
     (if chunks = [] then Inr d
      else if list_ex (\<lambda>c. length (snd c) > CHUNK_UPLOAD_BLOB_SIZE) chunks then Inl ChunkTooLarge
      else if sum_list (map (\<lambda>c. length (snd c)) chunks) > MAX_REQUEST_SIZE then Inl RequestTooLarge
      else if length chunks > MAX_CHUNKS_PER_REQUEST then Inl TooManyChunks
      else from_files chunks d)"

text \<open>The answer to a request to assemble: the missing chunks, or none when the task is enqueued.\<close>

definition missing_chunks :: "string list \<Rightarrow> file_db \<Rightarrow> string list" where
  "missing_chunks chunks d = filter (\<lambda>c. find_blob c d = None) (remdups chunks)"

section \<open>Assembling a file\<close>

text \<open>
  The status of a task in the cache, with the time it expires at. The key is made of the checksum in
  ASCII; a checksum with another character makes \<open>encode\<close> raise before anything is set (\<open>None\<close>). Keys
  are compared before they are hashed.
\<close>

definition is_ascii :: "string \<Rightarrow> bool" where
  "is_ascii s \<longleftrightarrow> list_all (\<lambda>c. (of_char c :: nat) < 128) s"

definition get_cache_key :: "string \<Rightarrow> int \<Rightarrow> string \<Rightarrow> (string \<times> int \<times> string) option" where
  "get_cache_key task scope checksum = (if is_ascii checksum then Some (task, scope, checksum) else None)"

definition STATUS_SECONDS :: nat where "STATUS_SECONDS = 600"

definition set_assemble_status ::
    "nat \<Rightarrow> string \<Rightarrow> int \<Rightarrow> string \<Rightarrow> chunk_file_state \<Rightarrow> string option \<Rightarrow> file_db \<Rightarrow> file_db option" where
  "set_assemble_status now task scope checksum state detail d =
     map_option (\<lambda>key. d\<lparr>statuses := dset (statuses d) key ((state, detail), now + STATUS_SECONDS)\<rparr>)
       (get_cache_key task scope checksum)"

text \<open>What the cache gives for a task at a time.\<close>

definition assemble_status :: "nat \<Rightarrow> string \<times> int \<times> string \<Rightarrow> file_db \<Rightarrow> (chunk_file_state \<times> string option) option" where
  "assemble_status t key d =
     Option.bind (map_of (statuses d) key) (\<lambda>(st, expires). if t < expires then Some st else None)"

definition new_file :: "string \<Rightarrow> string \<Rightarrow> (string, string) dict \<Rightarrow> string option \<Rightarrow> file_db \<Rightarrow> int \<times> file_db" where
  "new_file name ty headers checksum d =
     (next_file d, d\<lparr>files := files d @ [\<lparr>f_id = next_file d, f_name = name, f_type = ty, f_headers = headers, f_blob = None,
        f_size = 0, f_checksum = checksum\<rparr>], next_file := next_file d + 1\<rparr>)"

definition update_file :: "int \<Rightarrow> (file_rec \<Rightarrow> file_rec) \<Rightarrow> file_db \<Rightarrow> file_db" where
  "update_file i g d = d\<lparr>files := map (\<lambda>f. if f_id f = i then g f else f) (files d)\<rparr>"

text \<open>Deletion of files: bundles of a deleted file go with it, references to its source map are cleared.\<close>

definition delete_files :: "int list \<Rightarrow> file_db \<Rightarrow> file_db" where
  "delete_files is d =
     d\<lparr>files := filter (\<lambda>f. f_id f \<notin> set is) (files d),
       symbol_bundles := map (\<lambda>b. b\<lparr>sb_sourcemap := (case sb_sourcemap b of None \<Rightarrow> None | Some s \<Rightarrow> if s \<in> set is then None else Some s)\<rparr>)
         (filter (\<lambda>b. sb_file b \<notin> set is) (symbol_bundles d))\<rparr>"

text \<open>
  \<open>assemble_from_file_blob_ids\<close> for the blobs in order. A mismatch is raised before anything is
  saved. A blob without a recorded size makes the addition of sizes raise, and a size that does not
  fit a \<open>PositiveIntegerField\<close> makes saving raise; these two are \<open>CannotSave\<close>.
\<close>

definition POSITIVE_INTEGER_MAX :: nat where "POSITIVE_INTEGER_MAX = 2147483647"

datatype assemble_error = ChecksumMismatch | CannotSave

definition assemble_from_file_blobs ::
    "(string \<Rightarrow> string) \<Rightarrow> int \<Rightarrow> blob list \<Rightarrow> string \<Rightarrow> file_db \<Rightarrow> assemble_error + string \<times> file_db" where
  "assemble_from_file_blobs sha1 fid bs checksum d =
     (let content = concat (map b_content bs); offset = sum_list (map (\<lambda>b. the (b_size b)) bs) in
      if list_ex (\<lambda>b. b_size b = None) bs then Inl CannotSave
      else if checksum \<noteq> sha1 content then Inl ChecksumMismatch
      else if offset > POSITIVE_INTEGER_MAX then Inl CannotSave
      else
        (let (bid, d1) = (case bs of
                            [] \<Rightarrow> (None, d)
                          | [b] \<Rightarrow> (Some (b_id b), d)
                          | _ \<Rightarrow> (let (i, d') = get_or_create_blob (sha1 content) offset content d in (Some i, d')))
         in Inr (content, update_file fid (\<lambda>f. f\<lparr>f_blob := bid, f_size := offset, f_checksum := Some (sha1 content)\<rparr>) d1)))"

datatype assembled = AssembleFailed | AssembleCrashed | Assembled int string

definition file_blobs :: "string list \<Rightarrow> file_db \<Rightarrow> blob list" where
  "file_blobs chunks d = filter (\<lambda>b. b_checksum b \<in> set chunks) (blobs d)"

text \<open>The early returns: the error is recorded, unless recording it raises.\<close>

definition fail_assemble :: "nat \<Rightarrow> string \<Rightarrow> int \<Rightarrow> string \<Rightarrow> string \<Rightarrow> file_db \<Rightarrow> assembled \<times> file_db" where
  "fail_assemble now task org checksum detail d =
     (case set_assemble_status now task org checksum ERROR (Some detail) d of
        None \<Rightarrow> (AssembleCrashed, d)
      | Some d' \<Rightarrow> (AssembleFailed, d'))"

definition assemble_file ::
    "(string \<Rightarrow> string) \<Rightarrow> nat \<Rightarrow> string \<Rightarrow> int \<Rightarrow> string \<Rightarrow> string \<Rightarrow> string list \<Rightarrow> string \<Rightarrow> file_db \<Rightarrow> assembled \<times> file_db" where
  "assemble_file sha1 now task org name checksum chunks file_type d =
     (let file_size = sum_list (map (\<lambda>b. case b_size b of Some n \<Rightarrow> n | None \<Rightarrow> 0) (file_blobs chunks d)) in
      if file_size > MAX_FILE_SIZE
      then fail_assemble now task org checksum ''File exceeds maximum size'' d
      else if b_checksum ` set (file_blobs chunks d) \<noteq> set chunks
      then fail_assemble now task org checksum ''Not all chunks available for assembling'' d
      else if length checksum > 40 then (AssembleCrashed, d)
      else
        (let (fid, d1) = new_file name file_type [] (Some checksum) d in
         case assemble_from_file_blobs sha1 fid (map (\<lambda>c. the (find_blob c d)) chunks) checksum d1 of
           Inl CannotSave \<Rightarrow> (AssembleCrashed, d1)
         | Inl ChecksumMismatch \<Rightarrow> fail_assemble now task org checksum ''Reported checksum mismatch'' (delete_files [fid] d1)
         | Inr (content, d2) \<Rightarrow> (Assembled fid content, d2)))"

section \<open>Artifact bundles\<close>

text \<open>
  \<open>putfile\<close>: the blob is looked up by checksum and size; a blob with the checksum and another size
  makes the insertion violate the unique constraint (\<open>None\<close>), as does a size beyond the column.
\<close>

definition putfile :: "(string \<Rightarrow> string) \<Rightarrow> int \<Rightarrow> string \<Rightarrow> file_db \<Rightarrow> file_db option" where
  "putfile sha1 fid content d =
     (if length content > POSITIVE_INTEGER_MAX then None
      else case find_blob (sha1 content) d of
        Some b \<Rightarrow>
          if b_size b = Some (length content)
          then Some (update_file fid (\<lambda>f. f\<lparr>f_checksum := Some (sha1 content), f_blob := Some (b_id b)\<rparr>) d) else None
      | None \<Rightarrow>
          (let (i, d1) = add_blob (sha1 content) (length content) content d
           in Some (update_file fid (\<lambda>f. f\<lparr>f_checksum := Some (sha1 content), f_blob := Some i\<rparr>) d1)))"

definition url_basename :: "string \<Rightarrow> string" where
  "url_basename url = last (split_char (CHR ''/'') url)"

datatype loop_result = LoopOk "int list" | LoopBadPath "int list" | LoopCrash

text \<open>
  The loop over the artifacts; the argument opens a file for reading. A missing type, a type beyond 64
  characters, a file that cannot be opened, or a clash of blobs is an exception that nothing catches.
\<close>

fun artifact_loop ::
    "(string \<Rightarrow> string) \<Rightarrow> string \<Rightarrow> (string \<Rightarrow> string option) \<Rightarrow> (string \<times> artifact) list \<Rightarrow> int list \<Rightarrow> file_db \<Rightarrow> loop_result \<times> file_db" where
  "artifact_loop sha1 scratchpad open_path [] ids d = (LoopOk ids, d)"
| "artifact_loop sha1 scratchpad open_path ((rel_path, a) # as) ids d =
     (let full_path = normpath (path_join scratchpad rel_path) in
      if \<not> inside scratchpad full_path then (LoopBadPath ids, d)
      else (case art_type a of
              None \<Rightarrow> (LoopCrash, d)
            | Some ty \<Rightarrow>
                if length ty > 64 then (LoopCrash, d) else
                (let url = (case art_url a of Some u \<Rightarrow> u | None \<Rightarrow> rel_path);
                     (fid, d1) = new_file (url_basename url) ty (art_headers a) None d in
                 case open_path full_path of
                   None \<Rightarrow> (LoopCrash, d1)
                 | Some content \<Rightarrow>
                     (case putfile sha1 fid content d1 of
                        None \<Rightarrow> (LoopCrash, d1)
                      | Some d2 \<Rightarrow> artifact_loop sha1 scratchpad open_path as (ids @ [fid]) d2))))"

definition header :: "string \<Rightarrow> file_rec \<Rightarrow> string option" where
  "header k f = map_of (f_headers f) k"

definition sourcemap_header :: "file_rec \<Rightarrow> string option" where
  "sourcemap_header f = (case header ''sourcemap'' f of Some v \<Rightarrow> Some v | None \<Rightarrow> header ''Sourcemap'' f)"

definition is_sourcemap_of :: "file_rec \<Rightarrow> file_rec \<Rightarrow> bool" where
  "is_sourcemap_of f v \<longleftrightarrow> f_type v = ''source_map'' \<and>
     (sourcemap_header f = Some (f_name v) \<or>
      (header ''debug-id'' v \<noteq> None \<and> header ''debug-id'' v \<noteq> Some [] \<and> header ''debug-id'' v = header ''debug-id'' f))"

definition match_sourcemap :: "file_rec list \<Rightarrow> file_rec \<Rightarrow> int option" where
  "match_sourcemap fs f =
     (if f_type f = ''minified_source'' then map_option f_id (find (is_sourcemap_of f) fs) else None)"

definition bundle_of :: "int \<Rightarrow> int option \<Rightarrow> file_rec list \<Rightarrow> file_rec \<Rightarrow> symbol_bundle" where
  "bundle_of org release fs f =
     \<lparr>sb_org = org, sb_debug_id = header ''debug-id'' f, sb_release = release, sb_sourcemap = match_sourcemap fs f, sb_file = f_id f\<rparr>"

definition add_bundle ::
    "symbol_bundle \<Rightarrow> (string, symbol_bundle) dict \<times> symbol_bundle list \<Rightarrow> (string, symbol_bundle) dict \<times> symbol_bundle list" where
  "add_bundle b acc =
     (case sb_debug_id b of
        None \<Rightarrow> (fst acc, snd acc @ [b])
      | Some i \<Rightarrow> if map_of (fst acc) i = None \<or> sb_sourcemap b \<noteq> None then (dset (fst acc) i b, snd acc) else acc)"

definition build_bundles :: "int \<Rightarrow> int option \<Rightarrow> file_rec list \<Rightarrow> symbol_bundle list" where
  "build_bundles org release fs =
     (let (by_id, rest) = fold (\<lambda>f. add_bundle (bundle_of org release fs f)) fs ([], []) in map snd by_id @ rest)"

text \<open>Two rows conflict when organization and debug id agree; rows without a debug id never do.\<close>

definition conflict :: "symbol_bundle \<Rightarrow> symbol_bundle \<Rightarrow> bool" where
  "conflict a b \<longleftrightarrow> sb_org a = sb_org b \<and> sb_debug_id a \<noteq> None \<and> sb_debug_id a = sb_debug_id b"

definition upsert_bundle :: "symbol_bundle \<Rightarrow> symbol_bundle list \<Rightarrow> symbol_bundle list" where
  "upsert_bundle b tbl =
     (if list_ex (conflict b) tbl
      then map (\<lambda>q. if conflict b q then q\<lparr>sb_file := sb_file b, sb_sourcemap := sb_sourcemap b, sb_release := sb_release b\<rparr> else q) tbl
      else tbl @ [b])"

definition insert_bundle :: "symbol_bundle \<Rightarrow> symbol_bundle list \<Rightarrow> symbol_bundle list" where
  "insert_bundle b tbl = (if list_ex (conflict b) tbl then tbl else tbl @ [b])"

definition row_files :: "symbol_bundle \<Rightarrow> int list" where
  "row_files b = sb_file b # (case sb_sourcemap b of None \<Rightarrow> [] | Some s \<Rightarrow> [s])"

text \<open>A row needs a debug id or a release; one that has neither makes its statement raise.\<close>

definition row_allowed :: "symbol_bundle \<Rightarrow> bool" where
  "row_allowed b \<longleftrightarrow> sb_debug_id b \<noteq> None \<or> sb_release b \<noteq> None"

definition complete_bundles :: "symbol_bundle list \<Rightarrow> symbol_bundle list" where
  "complete_bundles bs = filter (\<lambda>b. sb_sourcemap b \<noteq> None) bs"

definition incomplete_bundles :: "symbol_bundle list \<Rightarrow> symbol_bundle list" where
  "incomplete_bundles bs = filter (\<lambda>b. sb_sourcemap b = None) bs"

definition old_file_ids :: "symbol_bundle list \<Rightarrow> symbol_bundle list \<Rightarrow> int list" where
  "old_file_ids bs tbl = concat (map row_files (filter (\<lambda>q. list_ex (\<lambda>b. conflict b q) (complete_bundles bs)) tbl))"

definition orphaned_ids :: "symbol_bundle list \<Rightarrow> symbol_bundle list \<Rightarrow> int list" where
  "orphaned_ids bs tbl = filter (\<lambda>i. i \<notin> set (concat (map row_files bs))) (old_file_ids bs tbl)"

definition put_bundles :: "(symbol_bundle list \<Rightarrow> symbol_bundle list) \<Rightarrow> file_db \<Rightarrow> file_db" where
  "put_bundles g d = d\<lparr>symbol_bundles := g (symbol_bundles d)\<rparr>"

text \<open>The two statements and the clean-up; the flag says that one of the statements raised.\<close>

definition save_bundles :: "symbol_bundle list \<Rightarrow> file_db \<Rightarrow> bool \<times> file_db" where
  "save_bundles bs d =
     (if \<not> list_all row_allowed (complete_bundles bs) then (True, d)
      else
        (let d1 = put_bundles (fold upsert_bundle (complete_bundles bs)) d in
         if \<not> list_all row_allowed (incomplete_bundles bs) then (True, d1)
         else (False, delete_files (orphaned_ids bs (symbol_bundles d)) (put_bundles (fold insert_bundle (incomplete_bundles bs)) d1))))"

definition get_or_create_release :: "int \<Rightarrow> string \<Rightarrow> file_db \<Rightarrow> int \<times> file_db" where
  "get_or_create_release org version d =
     (case map_of (release_ids d) (org, version) of
        Some i \<Rightarrow> (i, d)
      | None \<Rightarrow> (next_release d, d\<lparr>release_ids := dset (release_ids d) (org, version) (next_release d), next_release := next_release d + 1\<rparr>))"

definition ARTIFACTS :: string where "ARTIFACTS = ''organization.artifacts''"

text \<open>
  The task; the flag says whether an exception escaped. The times are those of the first and of the
  last status. In the last step the files made by the loop are looked up by their ids, in the order
  they were made.
\<close>

definition fail_and_cleanup :: "nat \<Rightarrow> int \<Rightarrow> string \<Rightarrow> int \<Rightarrow> int list \<Rightarrow> string \<Rightarrow> file_db \<Rightarrow> bool \<times> file_db" where
  "fail_and_cleanup now org checksum bundle_fid ids detail d =
     (case set_assemble_status now ARTIFACTS org checksum ERROR (Some detail) d of
        None \<Rightarrow> (True, d)
      | Some d' \<Rightarrow> (False, delete_files (bundle_fid # ids) d'))"

definition get_release :: "int \<Rightarrow> string option \<Rightarrow> file_db \<Rightarrow> int option \<times> file_db" where
  "get_release org v d =
     (case v of
        None \<Rightarrow> (None, d)
      | Some v \<Rightarrow> if v = [] then (None, d) else (let (i, d') = get_or_create_release org v d in (Some i, d')))"

definition store_artifacts ::
    "(string \<Rightarrow> string) \<Rightarrow> nat \<Rightarrow> string \<Rightarrow> (string \<Rightarrow> string option) \<Rightarrow> int \<Rightarrow> string \<Rightarrow> int \<Rightarrow> manifest \<Rightarrow> file_db \<Rightarrow> bool \<times> file_db" where
  "store_artifacts sha1 now scratchpad open_path org checksum fid m d =
     (let (release, d2) = get_release org (mf_release m) d;
          (lr, d3) = artifact_loop sha1 scratchpad open_path (mf_files m) [] d2 in
      case lr of
        LoopCrash \<Rightarrow> (True, d3)
      | LoopBadPath ids \<Rightarrow> fail_and_cleanup now org checksum fid ids ''Invalid path in manifest'' d3
      | LoopOk ids \<Rightarrow>
          (let (crash, d4) = save_bundles (build_bundles org release (filter (\<lambda>f. f_id f \<in> set ids) (files d3))) d3
           in if crash then (True, d4)
              else (case set_assemble_status now ARTIFACTS org checksum OK None d4 of
                      None \<Rightarrow> (True, d4)
                    | Some d5 \<Rightarrow> (False, delete_files [fid] d5))))"

definition unpack_bundle ::
    "(string \<Rightarrow> (string \<times> string option) list option) \<Rightarrow> string \<Rightarrow> string \<Rightarrow> (string, string) dict option" where
  "unpack_bundle read_zip scratchpad content =
     (case read_zip content of
        None \<Rightarrow> None
      | Some members \<Rightarrow> (case safe_extract_zip scratchpad members of (ok, fs) \<Rightarrow> if ok then Some fs else None))"

definition read_manifest :: "(string \<Rightarrow> manifest option) \<Rightarrow> string \<Rightarrow> (string \<Rightarrow> string option) \<Rightarrow> manifest option" where
  "read_manifest parse_manifest scratchpad open_path = Option.bind (open_path (path_join scratchpad ''manifest.json'')) parse_manifest"

definition assemble_artifacts ::
    "(string \<Rightarrow> string) \<Rightarrow> (string \<Rightarrow> (string \<times> string option) list option) \<Rightarrow> (string \<Rightarrow> manifest option) \<Rightarrow> string \<Rightarrow> (string \<Rightarrow> string option)
     \<Rightarrow> nat \<Rightarrow> nat \<Rightarrow> int \<Rightarrow> string \<Rightarrow> string option \<Rightarrow> string \<Rightarrow> string list \<Rightarrow> file_db \<Rightarrow> bool \<times> file_db" where
  "assemble_artifacts sha1 read_zip parse_manifest scratchpad disk started ended org slug version checksum chunks d =
     (case set_assemble_status started ARTIFACTS org checksum ASSEMBLING None d of
        None \<Rightarrow> (True, d)
      | Some d0 \<Rightarrow>
     (let (r, d1) = assemble_file sha1 ended ARTIFACTS org ''release-artifacts.zip'' checksum chunks ''release.bundle'' d0 in
      case r of
        AssembleFailed \<Rightarrow> (False, d1)
      | AssembleCrashed \<Rightarrow> (True, d1)
      | Assembled fid content \<Rightarrow>
        (let fail = (\<lambda>detail. fail_and_cleanup ended org checksum fid [] detail d1) in
         case unpack_bundle read_zip scratchpad content of
           None \<Rightarrow> fail ''Failed to extract bundle: uploaded file is not a valid zip archive''
         | Some fs \<Rightarrow>
           (case read_manifest parse_manifest scratchpad (open_file disk fs) of
              None \<Rightarrow> fail ''Failed to open release manifest''
            | Some m \<Rightarrow>
              if mf_org m \<noteq> Some slug then fail ''Organization does not match uploaded bundle''
              else if mf_release m \<noteq> version then fail ''Release does not match uploaded bundle''
              else store_artifacts sha1 ended scratchpad (open_file disk fs) org checksum fid m d1))))"

section \<open>Paths stay inside\<close>

definition good_comp :: "string \<Rightarrow> bool" where
  "good_comp c \<longleftrightarrow> c \<noteq> [] \<and> c \<noteq> ''.'' \<and> c \<noteq> ''..'' \<and> CHR ''/'' \<notin> set c"

definition path_of :: "string list \<Rightarrow> string" where
  "path_of cs = ''/'' @ join ''/'' cs"

text \<open>A path is within a directory when it is the directory followed by proper names.\<close>

definition path_within :: "string list \<Rightarrow> string \<Rightarrow> bool" where
  "path_within bs p \<longleftrightarrow> (\<exists>rest. rest \<noteq> [] \<and> list_all good_comp rest \<and> p = path_of (bs @ rest))"

lemma split_char_sep: "split_char d (s @ d # t) = split_char d s @ split_char d t"
  by (induction s) (auto split: list.splits)

lemma join_Cons_ne: "cs \<noteq> [] \<Longrightarrow> join s (c # cs) = c @ s @ join s cs"
  by (cases cs) auto

lemma split_join_good: "cs \<noteq> [] \<Longrightarrow> list_all good_comp cs \<Longrightarrow> split_char (CHR ''/'') (join ''/'' cs) = cs"
  by (rule split_char_join) (auto simp: list_all_iff good_comp_def)

lemma split_path_of: "cs \<noteq> [] \<Longrightarrow> list_all good_comp cs \<Longrightarrow> split_char (CHR ''/'') (path_of cs) = [] # cs"
  by (simp add: path_of_def split_join_good)

lemma initial_slashes_path_of: "cs \<noteq> [] \<Longrightarrow> list_all good_comp cs \<Longrightarrow> initial_slashes (path_of cs @ t) = 1"
proof -
  assume "cs \<noteq> []" "list_all good_comp cs"
  then obtain a b c cs' where "cs = (a # b) # cs'" "a \<noteq> CHR ''/''"
    by (cases cs; cases "hd cs") (auto simp: good_comp_def)
  then show ?thesis
    by (cases cs') (simp_all add: initial_slashes_def path_of_def starts_with_def)
qed

lemma fold_norm_plain:
  "''..'' \<notin> set cs \<Longrightarrow> fold (norm_step r) cs acc = acc @ filter (\<lambda>c. c \<noteq> [] \<and> c \<noteq> ''.'') cs"
  by (induction cs arbitrary: acc) (auto simp: norm_step_def)

lemma filter_good: "list_all good_comp cs \<Longrightarrow> filter (\<lambda>c. c \<noteq> [] \<and> c \<noteq> ''.'') cs = cs"
  by (auto simp: list_all_iff good_comp_def filter_id_conv)

lemma norm_step_good:
  assumes "list_all good_comp acc" "CHR ''/'' \<notin> set c"
  shows "list_all good_comp (norm_step True c acc)"
proof -
  have "acc \<noteq> [] \<Longrightarrow> last acc \<noteq> ''..''"
    using assms(1) by (metis good_comp_def last_in_set list_all_iff)
  then show ?thesis
    using assms by (auto simp: norm_step_def good_comp_def list_all_iff dest: in_set_butlastD)
qed

lemma fold_norm_good:
  "list_all good_comp acc \<Longrightarrow> (\<And>c. c \<in> set cs \<Longrightarrow> CHR ''/'' \<notin> set c) \<Longrightarrow>
   list_all good_comp (fold (norm_step True) cs acc)"
  by (induction cs arbitrary: acc) (auto intro!: norm_step_good)

lemma good_plain: "list_all good_comp bs \<Longrightarrow> ''..'' \<notin> set bs"
  by (auto simp: list_all_iff good_comp_def)

lemma normpath_one:
  "p \<noteq> [] \<Longrightarrow> initial_slashes p = 1 \<Longrightarrow> fold (norm_step True) (split_char (CHR ''/'') p) [] = cs \<Longrightarrow> normpath p = path_of cs"
  by (simp add: normpath_def Let_def path_of_def)

lemma normpath_path_of:
  assumes "bs \<noteq> []" "list_all good_comp bs"
  shows "normpath (path_of bs) = path_of bs"
proof -
  have "initial_slashes (path_of bs) = 1"
    using initial_slashes_path_of [OF assms, of "[]"] by simp
  moreover have "fold (norm_step True) (split_char (CHR ''/'') (path_of bs)) [] = bs"
    using assms by (simp add: split_path_of fold_norm_plain good_plain filter_good norm_step_def)
  ultimately show ?thesis
    by (intro normpath_one) (simp_all add: path_of_def)
qed

lemma last_join_good: "bs \<noteq> [] \<Longrightarrow> list_all good_comp bs \<Longrightarrow> join ''/'' bs \<noteq> [] \<and> last (join ''/'' bs) \<noteq> CHR ''/''"
proof (induction bs)
  case (Cons b bs)
  have b: "b \<noteq> []" "last b \<noteq> CHR ''/''"
    using Cons.prems by (auto simp: good_comp_def dest: last_in_set)
  show ?case using Cons b by (cases "bs = []") (auto simp: join_Cons_ne)
qed simp

lemma path_join_rel:
  assumes "bs \<noteq> []" "list_all good_comp bs" "\<not> starts_with ''/'' m"
  shows "path_join (path_of bs) m = path_of bs @ ''/'' @ m"
  using last_join_good [OF assms(1,2)] assms(3) by (simp add: path_join_def path_of_def)

lemma normpath_join_plain:
  assumes "bs \<noteq> []" "list_all good_comp bs" "\<not> is_unsafe_path m"
  shows "normpath (path_join (path_of bs) m) =
    path_of (bs @ filter (\<lambda>c. c \<noteq> [] \<and> c \<noteq> ''.'') (split_char (CHR ''/'') m))"
proof -
  from assms(3) have m: "\<not> starts_with ''/'' m" "''..'' \<notin> set (split_char (CHR ''/'') m)"
    by (auto simp: is_unsafe_path_def)
  have sp: "split_char (CHR ''/'') (path_of bs @ ''/'' @ m) = ([] # bs) @ split_char (CHR ''/'') m"
    using split_char_sep [of "CHR ''/''" "path_of bs" m] by (simp add: split_path_of assms(1,2))
  have "initial_slashes (path_of bs @ ''/'' @ m) = 1"
    by (rule initial_slashes_path_of [OF assms(1,2)])
  moreover have "path_of bs @ ''/'' @ m \<noteq> []" by simp
  moreover have "fold (norm_step True) (split_char (CHR ''/'') (path_of bs @ ''/'' @ m)) [] =
      bs @ filter (\<lambda>c. c \<noteq> [] \<and> c \<noteq> ''.'') (split_char (CHR ''/'') m)"
    unfolding sp using assms(2) m(2)
    by (simp add: fold_norm_plain good_plain filter_good norm_step_def)
  ultimately show ?thesis
    unfolding path_join_rel [OF assms(1,2) m(1)] by (intro normpath_one)
qed

lemma good_names:
  "''..'' \<notin> set (split_char (CHR ''/'') m) \<Longrightarrow>
   list_all good_comp (filter (\<lambda>c. c \<noteq> [] \<and> c \<noteq> ''.'') (split_char (CHR ''/'') m))"
  by (auto simp: list_all_iff good_comp_def dest: split_char_no_sep)

lemma list_all_dset: "list_all P d \<Longrightarrow> P (k, v) \<Longrightarrow> list_all P (dset d k v)"
  by (induction d) auto

lemma extract_member_within:
  assumes "bs \<noteq> []" "list_all good_comp bs" "list_all (\<lambda>(p, _). path_within bs p) (snd r)"
  shows "list_all (\<lambda>(p, _). path_within bs p) (snd (extract_member (path_of bs) mc r))"
proof -
  obtain ok fs where r: "r = (ok, fs)" by (cases r)
  let ?cs = "filter (\<lambda>c. c \<noteq> [] \<and> c \<noteq> ''.'') (split_char (CHR ''/'') (fst mc))"
  show ?thesis
  proof (cases "is_unsafe_path (fst mc)")
    case True
    then show ?thesis using assms(3) r by (auto simp: extract_member_def Let_def split: bool.split)
  next
    case False
    note n = normpath_join_plain [OF assms(1,2) False]
    have w: "path_of (bs @ ?cs) \<noteq> path_of bs \<Longrightarrow> path_within bs (path_of (bs @ ?cs))"
      using False good_names [of "fst mc"] unfolding path_within_def is_unsafe_path_def
      by (metis append_Nil2)
    show ?thesis
    proof (cases "snd (extract_member (path_of bs) mc r) = fs")
      case False2: False
      then have "snd (extract_member (path_of bs) mc r) = dset fs (path_of (bs @ ?cs)) (case snd mc of Some c \<Rightarrow> c | None \<Rightarrow> [])"
        "path_of (bs @ ?cs) \<noteq> path_of bs"
        using r False n normpath_path_of [OF assms(1,2)]
        by (auto simp: extract_member_def Let_def not_writable_def split: if_splits bool.splits)
      then show ?thesis using assms(3) r w by (simp add: list_all_dset)
    qed (use assms(3) r in simp)
  qed
qed

lemma safe_extract_within:
  assumes "bs \<noteq> []" "list_all good_comp bs"
  shows "list_all (\<lambda>(p, _). path_within bs p) (snd (safe_extract_zip (path_of bs) members))"
proof -
  have "list_all (\<lambda>(p, _). path_within bs p) (snd r) \<Longrightarrow>
      list_all (\<lambda>(p, _). path_within bs p) (snd (fold (extract_member (path_of bs)) members r))" for r
    by (induction members arbitrary: r) (simp_all add: extract_member_within [OF assms])
  from this [of "(True, [])"] show ?thesis by (simp add: safe_extract_zip_def)
qed

text \<open>The prefix test on the normal form is containment, for whatever the manifest names.\<close>

lemma normpath_rooted:
  assumes "starts_with ''/'' p"
  shows "\<exists>n cs. (n = 1 \<or> n = 2) \<and> list_all good_comp cs \<and> normpath p = replicate n (CHR ''/'') @ join ''/'' cs"
proof -
  have "list_all good_comp (fold (norm_step True) (split_char (CHR ''/'') p) [])"
    by (rule fold_norm_good) (auto dest: split_char_no_sep)
  moreover have "p \<noteq> []" using assms by (auto simp: starts_with_def)
  ultimately show ?thesis
    using assms
    by (intro exI [of _ "initial_slashes p"] exI [of _ "fold (norm_step True) (split_char (CHR ''/'') p) []"])
      (auto simp: normpath_def initial_slashes_def Let_def)
qed

lemma path_join_rooted: "starts_with ''/'' (path_join (path_of bs) rel)"
  by (auto simp: path_join_def path_of_def starts_with_def)

lemma inside_within:
  assumes "bs \<noteq> []" "list_all good_comp bs" "inside (path_of bs) (normpath (path_join (path_of bs) rel))"
  shows "path_within bs (normpath (path_join (path_of bs) rel))"
proof -
  obtain n cs where n: "n = 1 \<or> n = 2" and cs: "list_all good_comp cs"
    and eq: "normpath (path_join (path_of bs) rel) = replicate n (CHR ''/'') @ join ''/'' cs"
    using normpath_rooted [OF path_join_rooted] by blast
  obtain t where t: "normpath (path_join (path_of bs) rel) = path_of bs @ ''/'' @ t"
    using assms(3) unfolding inside_def normpath_path_of [OF assms(1,2)] starts_with_iff by auto
  obtain a b bs' where b: "bs = (a # b) # bs'" "a \<noteq> CHR ''/''"
    using assms(1,2) by (cases bs; cases "hd bs") (auto simp: good_comp_def)
  have "hd (join ''/'' bs @ ''/'' @ t) = a"
    using b by (cases bs') auto
  moreover have "n = 2 \<Longrightarrow> join ''/'' bs @ ''/'' @ t = CHR ''/'' # join ''/'' cs"
    using eq t by (simp add: path_of_def numeral_2_eq_2)
  ultimately have n1: "n = 1" using n b(2) by (metis list.sel(1))
  then have j: "join ''/'' cs = join ''/'' bs @ ''/'' @ t"
    using eq t by (simp add: path_of_def)
  then have "cs \<noteq> []" by (cases cs) auto
  then have "cs = bs @ split_char (CHR ''/'') t"
    using j split_char_sep [of "CHR ''/''" "join ''/'' bs" t] split_join_good assms(1,2) cs by (metis append_Cons append_Nil)
  then have "normpath (path_join (path_of bs) rel) = path_of (bs @ split_char (CHR ''/'') t)"
    "list_all good_comp (split_char (CHR ''/'') t)"
    using eq n1 cs by (auto simp: path_of_def)
  then show ?thesis unfolding path_within_def by (intro exI [of _ "split_char (CHR ''/'') t"]) simp
qed

text \<open>What the task opens for reading lies in the directory, so only that part of the file system matters.\<close>

definition same_within :: "string list \<Rightarrow> (string \<Rightarrow> string option) \<Rightarrow> (string \<Rightarrow> string option) \<Rightarrow> bool" where
  "same_within bs f g \<longleftrightarrow> (\<forall>p. path_within bs p \<longrightarrow> f p = g p)"

lemma same_within_open: "same_within bs f g \<Longrightarrow> same_within bs (open_file f fs) (open_file g fs)"
  by (auto simp: same_within_def open_file_def split: option.split)

lemma artifact_loop_within:
  assumes "bs \<noteq> []" "list_all good_comp bs" "same_within bs f g"
  shows "artifact_loop sha1 (path_of bs) f as ids d = artifact_loop sha1 (path_of bs) g as ids d"
proof (induction as arbitrary: ids d)
  case (Cons ra as)
  obtain rel a where ra: "ra = (rel, a)" by (cases ra)
  show ?case
  proof (cases "inside (path_of bs) (normpath (path_join (path_of bs) rel))")
    case True
    then have "f (normpath (path_join (path_of bs) rel)) = g (normpath (path_join (path_of bs) rel))"
      using inside_within [OF assms(1,2)] assms(3) by (simp add: same_within_def)
    then show ?thesis using Cons.IH by (simp add: ra Let_def split: option.split prod.split)
  qed (simp add: ra Let_def)
qed simp

lemma manifest_within:
  assumes "bs \<noteq> []" "list_all good_comp bs" "same_within bs f g"
  shows "read_manifest parse (path_of bs) f = read_manifest parse (path_of bs) g"
proof -
  have "path_join (path_of bs) ''manifest.json'' = path_of (bs @ [''manifest.json''])"
  proof -
    have "join ''/'' (bs @ [x]) = join ''/'' bs @ ''/'' @ x" if "bs \<noteq> []" for x and bs :: "string list"
      using that
    proof (induction bs)
      case (Cons b bs)
      then show ?case by (cases bs) (auto simp: join_Cons_ne)
    qed simp
    then show ?thesis using path_join_rel [OF assms(1,2), of "''manifest.json''"] assms(1)
      by (simp add: starts_with_def path_of_def)
  qed
  then have "path_within bs (path_join (path_of bs) ''manifest.json'')"
    unfolding path_within_def by (intro exI [of _ "[''manifest.json'']"]) (simp add: good_comp_def)
  then show ?thesis using assms(3) by (simp add: read_manifest_def same_within_def)
qed

section \<open>Assembled files\<close>

text \<open>
  The state of the tables: ids grow, rows refer to ids that were given out, and the recorded size of
  a blob is that of what it holds. Nothing is said of the names of blobs, which clients choose.
\<close>

definition blobs_ok :: "file_db \<Rightarrow> bool" where
  "blobs_ok d \<longleftrightarrow> distinct (map b_id (blobs d)) \<and>
     list_all (\<lambda>b. b_id b < next_blob d \<and> b_size b = Some (length (b_content b))) (blobs d)"

definition files_ok :: "file_db \<Rightarrow> bool" where
  "files_ok d \<longleftrightarrow> list_all (\<lambda>f. f_id f < next_file d \<and> (case f_blob f of None \<Rightarrow> True | Some i \<Rightarrow> i \<in> b_id ` set (blobs d))) (files d) \<and>
     list_all (\<lambda>b. list_all (\<lambda>i. i < next_file d) (row_files b)) (symbol_bundles d)"

definition chunk_content :: "file_db \<Rightarrow> string \<Rightarrow> string" where
  "chunk_content d c = (case find_blob c d of Some b \<Rightarrow> b_content b | None \<Rightarrow> [])"

definition file_content :: "file_db \<Rightarrow> int \<Rightarrow> string option" where
  "file_content d i =
     Option.bind (find (\<lambda>f. f_id f = i) (files d)) (\<lambda>f.
       Option.bind (f_blob f) (\<lambda>j. map_option b_content (find (\<lambda>b. b_id b = j) (blobs d))))"

lemma find_blob_ok:
  "blobs_ok d \<Longrightarrow> find_blob c d = Some b \<Longrightarrow>
   b \<in> set (blobs d) \<and> b_checksum b = c \<and> b_size b = Some (length (b_content b)) \<and> b_id b < next_blob d"
  by (auto simp: blobs_ok_def find_blob_def find_Some_iff list_all_iff)

text \<open>Uploads keep the blobs well-formed, whatever names they come with.\<close>

lemma add_blob_ok: "blobs_ok d \<Longrightarrow> blobs_ok (snd (add_blob c (length content) content d))"
  by (fastforce simp: blobs_ok_def add_blob_def list_all_iff)

lemma from_files_ok: "from_files chunks d = Inr d' \<Longrightarrow> blobs_ok d \<Longrightarrow> blobs_ok d'"
proof -
  let ?step = "\<lambda>(name, content) r. case r of Inl e \<Rightarrow> Inl e
      | Inr d \<Rightarrow> if find_blob name d = None \<and> length name > 40 then Inl UploadCrash
                 else Inr (snd (get_or_create_blob name (length content) content d))"
  have "fold ?step chunks r = Inr d' \<Longrightarrow> (\<And>d. r = Inr d \<Longrightarrow> blobs_ok d) \<Longrightarrow> blobs_ok d'" for r
  proof (induction chunks arbitrary: r)
    case (Cons c chunks)
    show ?case
      by (rule Cons.IH [OF Cons.prems(1) [simplified]])
         (auto simp: get_or_create_blob_def Cons.prems(2) intro: add_blob_ok split: prod.splits sum.splits if_splits option.splits)
  qed simp
  then show "from_files chunks d = Inr d' \<Longrightarrow> blobs_ok d \<Longrightarrow> blobs_ok d'"
    unfolding from_files_def by blast
qed

lemma chunk_upload_ok: "chunk_upload chunks d = Inr d' \<Longrightarrow> blobs_ok d \<Longrightarrow> blobs_ok d'"
  by (auto simp: chunk_upload_def intro: from_files_ok split: if_splits)

lemma find_blob_None: "find_blob c d = None \<longleftrightarrow> c \<notin> b_checksum ` set (blobs d)"
  by (auto simp: find_blob_def find_None_iff)

lemma all_chunks_present: "b_checksum ` set (file_blobs chunks d) = set chunks \<longleftrightarrow> list_all (\<lambda>c. find_blob c d \<noteq> None) chunks"
  by (auto simp: file_blobs_def find_blob_None list_all_iff)

lemma find_SomeD: "find P xs = Some x \<Longrightarrow> x \<in> set xs \<and> P x"
  by (induction xs) (auto split: if_splits)

lemma find_distinct: "distinct (map k xs) \<Longrightarrow> x \<in> set xs \<Longrightarrow> find (\<lambda>y. k y = k x) xs = Some x"
  by (induction xs) auto

lemma blob_by_id: "blobs_ok d \<Longrightarrow> b \<in> set (blobs d) \<Longrightarrow> find (\<lambda>y. b_id y = b_id b) (blobs d) = Some b"
  by (auto simp: blobs_ok_def intro: find_distinct)

lemma chunk_blobs:
  assumes "blobs_ok d" "list_all (\<lambda>c. find_blob c d \<noteq> None) chunks"
  shows "concat (map b_content (map (\<lambda>c. the (find_blob c d)) chunks)) = concat (map (chunk_content d) chunks)"
    and "sum_list (map (\<lambda>b. the (b_size b)) (map (\<lambda>c. the (find_blob c d)) chunks)) = length (concat (map (chunk_content d) chunks))"
    and "\<not> list_ex (\<lambda>b. b_size b = None) (map (\<lambda>c. the (find_blob c d)) chunks)"
proof -
  have one: "c \<in> set chunks \<Longrightarrow> b_content (the (find_blob c d)) = chunk_content d c \<and>
      b_size (the (find_blob c d)) = Some (length (chunk_content d c))" for c
    using assms(2) find_blob_ok [OF assms(1), of c] by (fastforce simp: chunk_content_def list_all_iff)
  then show "concat (map b_content (map (\<lambda>c. the (find_blob c d)) chunks)) = concat (map (chunk_content d) chunks)"
    by (auto intro!: arg_cong [where f = concat])
  show "sum_list (map (\<lambda>b. the (b_size b)) (map (\<lambda>c. the (find_blob c d)) chunks)) = length (concat (map (chunk_content d) chunks))"
    using one by (auto simp: length_concat intro!: arg_cong [where f = sum_list])
  show "\<not> list_ex (\<lambda>b. b_size b = None) (map (\<lambda>c. the (find_blob c d)) chunks)"
    using one by (auto simp: list_ex_iff)
qed

lemma blob_sizes:
  "blobs_ok d \<Longrightarrow>
   sum_list (map (\<lambda>b. case b_size b of Some n \<Rightarrow> n | None \<Rightarrow> 0) (file_blobs chunks d)) =
   sum_list (map (\<lambda>b. length (b_content b)) (file_blobs chunks d))"
  by (intro arg_cong [where f = sum_list] map_cong) (auto simp: file_blobs_def blobs_ok_def list_all_iff)

text \<open>What a step that only stores contents leaves alone.\<close>

definition same_rest :: "file_db \<Rightarrow> file_db \<Rightarrow> bool" where
  "same_rest d d' \<longleftrightarrow> symbol_bundles d' = symbol_bundles d \<and> release_ids d' = release_ids d \<and>
     next_release d' = next_release d \<and> statuses d' = statuses d"

text \<open>No client has stored another content under the name of this one.\<close>

definition name_is_true :: "(string \<Rightarrow> string) \<Rightarrow> string \<Rightarrow> file_db \<Rightarrow> bool" where
  "name_is_true sha1 content d \<longleftrightarrow> list_all (\<lambda>b. b_checksum b = sha1 content \<longrightarrow> b_content b = content) (blobs d)"

text \<open>The blobs are the old ones and at most a new one that holds the contents under their hash.\<close>

definition blobs_grow :: "(string \<Rightarrow> string) \<Rightarrow> string \<Rightarrow> file_db \<Rightarrow> file_db \<Rightarrow> bool" where
  "blobs_grow sha1 content d d' \<longleftrightarrow> (\<exists>new. blobs d' = blobs d @ new \<and> length new \<le> 1 \<and>
     list_all (\<lambda>b. b_checksum b = sha1 content \<and> b_content b = content) new)"

lemma get_or_create_blob_ok:
  assumes "blobs_ok d" "get_or_create_blob (sha1 content) (length content) content d = (i, d')" "name_is_true sha1 content d"
  shows "blobs_ok d' \<and> files d' = files d \<and> next_file d' = next_file d \<and> same_rest d d' \<and> blobs_grow sha1 content d d' \<and>
    map_option b_content (find (\<lambda>b. b_id b = i) (blobs d')) = Some content"
proof (cases "find_blob (sha1 content) d")
  case None
  then have d': "i = next_blob d" "d' = snd (add_blob (sha1 content) (length content) content d)"
    using assms(2) by (auto simp: get_or_create_blob_def add_blob_def)
  have lt: "\<forall>b\<in>set (blobs d). b_id b < next_blob d" using assms(1) by (auto simp: blobs_ok_def list_all_iff)
  then have new: "find (\<lambda>b. b_id b = next_blob d) (blobs d) = None" by (auto simp: find_None_iff)
  show ?thesis
    using new add_blob_ok [OF assms(1)] unfolding d' by (simp add: add_blob_def find_append blobs_grow_def same_rest_def)
next
  case (Some b)
  then show ?thesis
    using find_blob_ok [OF assms(1) Some] blob_by_id [OF assms(1), of b] assms
    by (auto simp: get_or_create_blob_def name_is_true_def list_all_iff same_rest_def blobs_grow_def)
qed

lemma assembled_blob:
  assumes "blobs_ok d" "list_all (\<lambda>c. find_blob c d \<noteq> None) chunks" "chunks \<noteq> []"
    and "content = concat (map (chunk_content d) chunks)" "name_is_true sha1 content d"
    and "(case map (\<lambda>c. the (find_blob c d)) chunks of [] \<Rightarrow> (None, d) | [b] \<Rightarrow> (Some (b_id b), d)
          | _ \<Rightarrow> (let (i, d') = get_or_create_blob (sha1 content) (length content) content d in (Some i, d'))) = (bid, d')"
  shows "\<exists>i. bid = Some i \<and> blobs_ok d' \<and> files d' = files d \<and> next_file d' = next_file d \<and> same_rest d d' \<and>
    blobs_grow sha1 content d d' \<and> map_option b_content (find (\<lambda>b. b_id b = i) (blobs d')) = Some content"
proof (cases "\<exists>c. chunks = [c]")
  case True
  then obtain c b where c: "chunks = [c]" "find_blob c d = Some b" using assms(2) by auto
  note b = find_blob_ok [OF assms(1) c(2)]
  show ?thesis
    using assms c b blob_by_id [OF assms(1), of b] by (auto simp: chunk_content_def same_rest_def blobs_grow_def)
next
  case False
  with assms(3) obtain c c' cs where "chunks = c # c' # cs" by (metis neq_Nil_conv)
  with assms(6) obtain i where "get_or_create_blob (sha1 content) (length content) content d = (i, d')" "bid = Some i"
    by (auto split: prod.splits)
  then show ?thesis using get_or_create_blob_ok [OF assms(1) _ assms(5)] by blast
qed

definition store_assembled :: "(string \<Rightarrow> string) \<Rightarrow> string list \<Rightarrow> string \<Rightarrow> int \<Rightarrow> file_db \<Rightarrow> file_db" where
  "store_assembled sha1 chunks content fid d =
     (let (bid, d') = (case map (\<lambda>c. the (find_blob c d)) chunks of [] \<Rightarrow> (None, d) | [b] \<Rightarrow> (Some (b_id b), d)
          | _ \<Rightarrow> (let (i, d') = get_or_create_blob (sha1 content) (length content) content d in (Some i, d')))
      in update_file fid (\<lambda>f. f\<lparr>f_blob := bid, f_size := length content, f_checksum := Some (sha1 content)\<rparr>) d')"

abbreviation file_made :: "string \<Rightarrow> string \<Rightarrow> string \<Rightarrow> file_db \<Rightarrow> file_db" where
  "file_made name ty checksum d \<equiv> snd (new_file name ty [] (Some checksum) d)"

lemma find_blob_file_made [simp]: "find_blob c (file_made name ty checksum d) = find_blob c d"
  by (simp add: find_blob_def new_file_def)

lemma blobs_ok_file_made [simp]: "blobs_ok (file_made name ty checksum d) = blobs_ok d"
  by (simp add: blobs_ok_def new_file_def)

lemma chunk_content_file_made [simp]: "chunk_content (file_made name ty checksum d) = chunk_content d"
  by (simp add: fun_eq_iff chunk_content_def)

lemma assemble_from_ok:
  assumes "blobs_ok d" "list_all (\<lambda>c. find_blob c d \<noteq> None) chunks" "content = concat (map (chunk_content d) chunks)"
  shows "assemble_from_file_blobs sha1 fid (map (\<lambda>c. the (find_blob c d)) chunks) checksum d =
    (if sha1 content \<noteq> checksum then Inl ChecksumMismatch
     else if length content > POSITIVE_INTEGER_MAX then Inl CannotSave
     else Inr (content, store_assembled sha1 chunks content fid d))"
  using chunk_blobs [OF assms(1,2)] assms(3)
  by (auto simp: assemble_from_file_blobs_def store_assembled_def Let_def split: prod.splits)

lemma assemble_file_cases:
  assumes "blobs_ok d" "content = concat (map (chunk_content d) chunks)" "d1 = file_made name ty checksum d"
  shows "assemble_file sha1 now task org name checksum chunks ty d =
    (if MAX_FILE_SIZE < sum_list (map (\<lambda>b. length (b_content b)) (file_blobs chunks d))
     then fail_assemble now task org checksum ''File exceeds maximum size'' d
     else if \<not> list_all (\<lambda>c. find_blob c d \<noteq> None) chunks
     then fail_assemble now task org checksum ''Not all chunks available for assembling'' d
     else if 40 < length checksum then (AssembleCrashed, d)
     else if sha1 content \<noteq> checksum
     then fail_assemble now task org checksum ''Reported checksum mismatch'' (delete_files [next_file d] d1)
     else if POSITIVE_INTEGER_MAX < length content then (AssembleCrashed, d1)
     else (Assembled (next_file d) content, store_assembled sha1 chunks content (next_file d) d1))"
proof (cases "list_all (\<lambda>c. find_blob c d \<noteq> None) chunks")
  case True
  have nf: "new_file name ty [] (Some checksum) d = (next_file d, d1)"
    using assms(3) by (simp add: new_file_def)
  have "assemble_from_file_blobs sha1 (next_file d) (map (\<lambda>c. the (find_blob c d)) chunks) checksum d1 =
    (if sha1 content \<noteq> checksum then Inl ChecksumMismatch
     else if length content > POSITIVE_INTEGER_MAX then Inl CannotSave
     else Inr (content, store_assembled sha1 chunks content (next_file d) d1))"
    using assemble_from_ok [of d1 chunks content sha1 "next_file d" checksum] assms True by simp
  then show ?thesis
    using True by (simp add: assemble_file_def Let_def blob_sizes [OF assms(1)] all_chunks_present nf)
next
  case False
  then show ?thesis
    by (simp add: assemble_file_def Let_def blob_sizes [OF assms(1)] all_chunks_present)
qed

lemma files_ok_old: "files_ok d \<Longrightarrow> f \<in> set (files d) \<Longrightarrow> f_id f < next_file d \<and> (\<forall>i. f_blob f = Some i \<longrightarrow> i \<in> b_id ` set (blobs d))"
  by (auto simp: files_ok_def list_all_iff split: option.splits)

lemma update_new_file:
  assumes "files_ok d" "files d2 = files d @ [f]" "f_id f = next_file d"
  shows "files (update_file (next_file d) g d2) = files d @ [g f]"
proof -
  have "f' \<in> set (files d) \<Longrightarrow> f_id f' \<noteq> next_file d" for f' using files_ok_old [OF assms(1)] by fastforce
  then show ?thesis using assms(2,3) by (auto simp: update_file_def intro!: map_idI)
qed

lemma file_content_grow:
  assumes "files_ok d" "files d' = files d @ [f]" "f_id f = next_file d" "blobs d' = blobs d @ bs" "j < next_file d"
  shows "file_content d' j = file_content d j"
proof -
  have 1: "find (\<lambda>b. b_id b = k) (blobs d') = find (\<lambda>b. b_id b = k) (blobs d)" if "f' \<in> set (files d)" "f_blob f' = Some k" for f' k
    using files_ok_old [OF assms(1) that(1)] that(2) by (auto simp: assms(4) find_append find_None_iff split: option.splits)
  have 2: "find (\<lambda>f. f_id f = j) (files d') = find (\<lambda>f. f_id f = j) (files d)"
    using assms(2,3,5) by (auto simp: find_append split: option.splits)
  show ?thesis
  proof (cases "find (\<lambda>f. f_id f = j) (files d)")
    case (Some f')
    then have "f' \<in> set (files d)" by (auto simp: find_Some_iff)
    with 1 2 Some show ?thesis by (cases "f_blob f'") (auto simp: file_content_def)
  qed (use 2 in \<open>simp add: file_content_def\<close>)
qed

lemma files_ok_grow:
  assumes "files_ok d" "files d' = files d @ [f]" "blobs d' = blobs d @ bs" "next_file d' = next_file d + 1"
    and "symbol_bundles d' = symbol_bundles d" "f_id f = next_file d" "\<And>i. f_blob f = Some i \<Longrightarrow> i \<in> b_id ` set (blobs d')"
  shows "files_ok d'"
proof -
  have "f_id f' < next_file d' \<and> (case f_blob f' of None \<Rightarrow> True | Some i \<Rightarrow> i \<in> b_id ` set (blobs d'))"
    if "f' \<in> set (files d')" for f'
  proof (cases "f' = f")
    case True
    then show ?thesis using assms(4,6,7) by (auto split: option.splits)
  next
    case False
    with that have "f' \<in> set (files d)" using assms(2) by simp
    from files_ok_old [OF assms(1) this] show ?thesis using assms(3,4) by (auto split: option.splits)
  qed
  moreover have "q \<in> set (symbol_bundles d') \<Longrightarrow> i \<in> set (row_files q) \<Longrightarrow> i < next_file d'" for q i
    using assms(1,4,5) by (fastforce simp: files_ok_def list_all_iff)
  ultimately show ?thesis by (simp add: files_ok_def list_all_iff)
qed

text \<open>The row of an assembled file.\<close>

definition assembled_row :: "int \<Rightarrow> string \<Rightarrow> string \<Rightarrow> string \<Rightarrow> string \<Rightarrow> int option \<Rightarrow> file_rec" where
  "assembled_row i name ty checksum content blob =
     \<lparr>f_id = i, f_name = name, f_type = ty, f_headers = [], f_blob = blob, f_size = length content, f_checksum = Some checksum\<rparr>"

lemma store_assembled_ok:
  assumes ok: "blobs_ok d" "files_ok d" and d1: "d1 = file_made name ty checksum d"
    and ch: "list_all (\<lambda>c. find_blob c d \<noteq> None) chunks" "chunks \<noteq> []" "content = concat (map (chunk_content d) chunks)"
    and true: "name_is_true sha1 content d"
    and d': "d' = store_assembled sha1 chunks content (next_file d) d1"
  shows "file_content d' (next_file d) = Some content \<and> (\<forall>i<next_file d. file_content d' i = file_content d i) \<and>
    (\<exists>blob. files d' = files d @ [assembled_row (next_file d) name ty (sha1 content) content blob]) \<and>
    blobs_grow sha1 content d d' \<and> same_rest d d' \<and> blobs_ok d' \<and> files_ok d'"
proof -
  obtain bid d2 where c: "(case map (\<lambda>c. the (find_blob c d1)) chunks of [] \<Rightarrow> (None, d1) | [b] \<Rightarrow> (Some (b_id b), d1)
      | _ \<Rightarrow> (let (i, d') = get_or_create_blob (sha1 content) (length content) content d1 in (Some i, d'))) = (bid, d2)"
    by (meson surj_pair)
  have bd1: "blobs d1 = blobs d" "same_rest d d1" by (simp_all add: d1 new_file_def same_rest_def)
  have "name_is_true sha1 content d1" using true bd1 by (simp add: name_is_true_def)
  then obtain i where i: "bid = Some i" "blobs_ok d2" "files d2 = files d1" "next_file d2 = next_file d1"
    "same_rest d1 d2" "blobs_grow sha1 content d1 d2" "map_option b_content (find (\<lambda>b. b_id b = i) (blobs d2)) = Some content"
    using assembled_blob [of d1 chunks content sha1 bid d2] ok(1) ch c by (auto simp: d1)
  obtain bs where bs: "blobs d2 = blobs d1 @ bs" using i(6) by (auto simp: blobs_grow_def)
  let ?f = "assembled_row (next_file d) name ty (sha1 content) content bid"
  have d'2: "d' = update_file (next_file d) (\<lambda>f. f\<lparr>f_blob := bid, f_size := length content, f_checksum := Some (sha1 content)\<rparr>) d2"
    using d' c by (simp add: store_assembled_def)
  have rest: "same_rest d d'" "blobs_grow sha1 content d d'"
    using i(5,6) bd1 by (simp_all add: d'2 same_rest_def update_file_def blobs_grow_def)
  have fs: "files d' = files d @ [?f]" "blobs d' = blobs d @ bs" "next_file d' = next_file d + 1" "next_blob d' = next_blob d2"
    "symbol_bundles d' = symbol_bundles d"
    using update_new_file [OF ok(2), of d2] i bs bd1(1) rest(1)
    by (auto simp: d'2 d1 new_file_def assembled_row_def update_file_def same_rest_def)
  have new: "find (\<lambda>f. f_id f = next_file d) (files d) = None"
    using files_ok_old [OF ok(2)] by (fastforce simp: find_None_iff)
  have "file_content d' (next_file d) = Some content"
    using i(1,7) bs bd1(1) by (simp add: file_content_def fs find_append new assembled_row_def)
  moreover have "\<forall>j<next_file d. file_content d' j = file_content d j"
    using file_content_grow [OF ok(2) fs(1) _ fs(2)] by (simp add: assembled_row_def)
  moreover have "blobs_ok d'" using i(2) by (simp add: d'2 blobs_ok_def update_file_def)
  moreover have "files_ok d'"
    using i(1) find_SomeD [of "\<lambda>b. b_id b = i" "blobs d2"] i(7) bs bd1(1) fs(2)
    by (intro files_ok_grow [OF ok(2) fs(1,2,3,5)]) (auto simp: assembled_row_def)
  ultimately show ?thesis using fs(1) rest by blast
qed

lemma delete_made: "files_ok d \<Longrightarrow> delete_files [next_file d] (file_made name ty checksum d) = d\<lparr>next_file := next_file d + 1\<rparr>"
proof -
  assume ok: "files_ok d"
  have "filter (\<lambda>f. f_id f \<notin> set [next_file d]) (files d @ [f]) = files d" if "f_id f = next_file d" for f
    using files_ok_old [OF ok] that by (fastforce simp: filter_id_conv)
  moreover have q: "sb_file b < next_file d \<and> (\<forall>s. sb_sourcemap b = Some s \<longrightarrow> s < next_file d)" if "b \<in> set (symbol_bundles d)" for b
    using ok that by (auto simp: files_ok_def list_all_iff row_files_def)
  moreover have "filter (\<lambda>b. sb_file b \<notin> set [next_file d]) (symbol_bundles d) = symbol_bundles d"
    using q by (fastforce simp: filter_id_conv)
  moreover have "map (\<lambda>b. b\<lparr>sb_sourcemap := (case sb_sourcemap b of None \<Rightarrow> None | Some s \<Rightarrow> if s \<in> set [next_file d] then None else Some s)\<rparr>)
      (symbol_bundles d) = symbol_bundles d"
    using q by (fastforce intro!: map_idI split: option.split)
  ultimately show ?thesis by (simp add: delete_files_def new_file_def del: list.set filter_append)
qed

text \<open>What a failed assembly leaves: the recorded error and a used number, or nothing but an empty row.\<close>

definition nothing_assembled :: "nat \<Rightarrow> string \<times> int \<times> string \<Rightarrow> assembled \<Rightarrow> file_db \<Rightarrow> file_db \<Rightarrow> bool" where
  "nothing_assembled now key r d d' \<longleftrightarrow>
     (if r = AssembleFailed
      then \<exists>detail. d' = d\<lparr>next_file := next_file d', statuses := dset (statuses d) key ((ERROR, Some detail), now + STATUS_SECONDS)\<rparr>
      else blobs d' = blobs d \<and> same_rest d d' \<and> (\<exists>new. files d' = files d @ new \<and> list_all (\<lambda>f. f_blob f = None) new))"

lemma fail_assemble_nothing:
  assumes "fail_assemble now task org checksum detail (d\<lparr>next_file := n\<rparr>) = (r, d')"
  shows "(\<forall>fid c. r \<noteq> Assembled fid c) \<and> nothing_assembled now (task, org, checksum) r d d'"
  using assms
  by (auto simp: fail_assemble_def set_assemble_status_def get_cache_key_def nothing_assembled_def same_rest_def split: if_splits)

text \<open>
  Property C35.
  A file is assembled from chunks exactly when every chunk is there, the distinct chunks together
  do not exceed the maximum, the reported checksum is the hash of their contents put together in
  the order given, and the result fits the size column. The new row then holds these contents, at
  most one blob, named by their hash, is added, and no other file, bundle, release or status
  changes; otherwise the recorded error, or a row without contents, is all that is new. Clients may
  name their chunks as they like: the one thing asked of the table is that nobody has stored another
  content under the hash of the result.
\<close>

theorem assembled_file_is_the_chunks:
  assumes "blobs_ok d" "files_ok d" "chunks \<noteq> []"
    and "content = concat (map (chunk_content d) chunks)" "name_is_true sha1 content d"
    and "assemble_file sha1 now task org name checksum chunks ty d = (r, d')"
  shows "((\<exists>fid c. r = Assembled fid c) \<longleftrightarrow>
      list_all (\<lambda>c. find_blob c d \<noteq> None) chunks \<and>
      sum_list (map (\<lambda>b. length (b_content b)) (file_blobs chunks d)) \<le> MAX_FILE_SIZE \<and>
      sha1 content = checksum \<and> length checksum \<le> 40 \<and> length content \<le> POSITIVE_INTEGER_MAX) \<and>
    (\<forall>fid c. r = Assembled fid c \<longrightarrow> c = content \<and> fid = next_file d \<and> file_content d' fid = Some content \<and>
      (\<forall>i<next_file d. file_content d' i = file_content d i) \<and>
      (\<exists>blob. files d' = files d @ [assembled_row fid name ty checksum content blob]) \<and>
      blobs_grow sha1 content d d' \<and> same_rest d d' \<and> blobs_ok d' \<and> files_ok d') \<and>
    ((\<forall>fid c. r \<noteq> Assembled fid c) \<longrightarrow> nothing_assembled now (task, org, checksum) r d d')"
proof -
  note c = assemble_file_cases [OF assms(1,4) refl, of sha1 now task org name checksum ty]
  define good where "good \<longleftrightarrow> list_all (\<lambda>c. find_blob c d \<noteq> None) chunks \<and>
      sum_list (map (\<lambda>b. length (b_content b)) (file_blobs chunks d)) \<le> MAX_FILE_SIZE \<and>
      sha1 content = checksum \<and> length checksum \<le> 40 \<and> length content \<le> POSITIVE_INTEGER_MAX"
  have new: "d\<lparr>next_file := next_file d\<rparr> = d" by simp
  show ?thesis
  proof (cases good)
    case True
    then have r: "r = Assembled (next_file d) content" "sha1 content = checksum" "list_all (\<lambda>c. find_blob c d \<noteq> None) chunks"
      "d' = store_assembled sha1 chunks content (next_file d) (file_made name ty checksum d)"
      using assms(6) unfolding c good_def by (auto simp: not_less)
    show ?thesis
      using store_assembled_ok [OF assms(1,2) refl r(3) assms(3,4,5) r(4)] True r(1,2) unfolding good_def by blast
  next
    case False
    have made: "nothing_assembled now key AssembleCrashed d (file_made name ty checksum d)" "nothing_assembled now key AssembleCrashed d d" for key
      by (simp_all add: nothing_assembled_def new_file_def same_rest_def)
    have "(\<forall>fid c. r \<noteq> Assembled fid c) \<and> nothing_assembled now (task, org, checksum) r d d'"
      using assms(6) False made fail_assemble_nothing [where d = d and n = "next_file d", unfolded new]
        fail_assemble_nothing [where d = d and n = "next_file d + 1"]
      unfolding c good_def delete_made [OF assms(2)] by (auto split: if_splits)
    then show ?thesis using False unfolding good_def by blast
  qed
qed

text \<open>A small table: two chunks uploaded under their hash, here the identity.\<close>

definition empty_files :: file_db where
  "empty_files = \<lparr>next_blob = 1, blobs = [], next_file = 1, files = [], symbol_bundles = [], release_ids = [], next_release = 1, statuses = []\<rparr>"

definition two_chunks :: file_db where
  "two_chunks = empty_files\<lparr>next_blob := 3, blobs := [\<lparr>b_id = 1, b_checksum = ''ab'', b_size = Some 2, b_content = ''ab''\<rparr>,
     \<lparr>b_id = 2, b_checksum = ''c'', b_size = Some 1, b_content = ''c''\<rparr>]\<rparr>"

lemma two_chunks_uploaded:
  "(case chunk_upload [(''ab'', ''ab'')] empty_files of Inl e \<Rightarrow> Inl e | Inr d \<Rightarrow> chunk_upload [(''c'', ''c'')] d) = Inr two_chunks"
  by (simp add: chunk_upload_def from_files_def get_or_create_blob_def find_blob_def add_blob_def two_chunks_def empty_files_def
      CHUNK_UPLOAD_BLOB_SIZE_def MAX_REQUEST_SIZE_def MAX_CHUNKS_PER_REQUEST_def)

theorem assembled_file_is_the_chunks_witness:
  "\<exists>r d'. assemble_file id 7 ARTIFACTS 1 ''x'' ''ccab'' [''c'', ''c'', ''ab''] ''t'' two_chunks = (r, d') \<and>
    r = Assembled 1 ''ccab'' \<and> file_content d' 1 = Some ''ccab''"
proof -
  obtain r d' where a: "assemble_file id 7 ARTIFACTS 1 ''x'' ''ccab'' [''c'', ''c'', ''ab''] ''t'' two_chunks = (r, d')"
    by (meson surj_pair)
  have ok: "blobs_ok two_chunks" "files_ok two_chunks" "[''c'', ''c'', ''ab''] \<noteq> []"
    "''ccab'' = concat (map (chunk_content two_chunks) [''c'', ''c'', ''ab''])"
    "name_is_true id ''ccab'' two_chunks"
    by code_simp+
  have "list_all (\<lambda>c. find_blob c two_chunks \<noteq> None) [''c'', ''c'', ''ab''] \<and>
      sum_list (map (\<lambda>b. length (b_content b)) (file_blobs [''c'', ''c'', ''ab''] two_chunks)) \<le> MAX_FILE_SIZE \<and>
      id ''ccab'' = ''ccab'' \<and> length ''ccab'' \<le> 40 \<and> length ''ccab'' \<le> POSITIVE_INTEGER_MAX"
    by (simp add: find_blob_def file_blobs_def two_chunks_def MAX_FILE_SIZE_def POSITIVE_INTEGER_MAX_def)
  with assembled_file_is_the_chunks [OF ok a] a show ?thesis by (auto simp: two_chunks_def empty_files_def)
qed

text \<open>
  A chunk that an attacker stored under the hash of a file takes the place of its contents when the
  file is put together from other chunks; here the hash is the identity.
\<close>

definition poisoned :: file_db where
  "poisoned = two_chunks\<lparr>next_blob := 4, blobs := blobs two_chunks @ [\<lparr>b_id = 3, b_checksum = ''ccab'', b_size = Some 3, b_content = ''bad''\<rparr>]\<rparr>"

lemma poisoned_name_replaces_file:
  "\<exists>d'. assemble_file id 7 ARTIFACTS 1 ''x'' ''ccab'' [''c'', ''c'', ''ab''] ''t'' poisoned = (Assembled 1 ''ccab'', d') \<and>
     file_content d' 1 = Some ''bad''"
proof -
  have ok: "blobs_ok poisoned" "''ccab'' = concat (map (chunk_content poisoned) [''c'', ''c'', ''ab''])"
    "list_all (\<lambda>c. find_blob c poisoned \<noteq> None) [''c'', ''c'', ''ab'']"
    "next_file poisoned = 1" "sum_list (map (\<lambda>b. length (b_content b)) (file_blobs [''c'', ''c'', ''ab''] poisoned)) = 3"
    by code_simp+
  have "file_content (store_assembled id [''c'', ''c'', ''ab''] ''ccab'' 1 (file_made ''x'' ''t'' ''ccab'' poisoned)) 1 = Some ''bad''"
    by code_simp
  then show ?thesis
    using assemble_file_cases [OF ok(1,2) refl, of id 7 ARTIFACTS 1 "''x''" "''ccab''" "''t''"] ok(3,4,5)
    by (auto simp: MAX_FILE_SIZE_def POSITIVE_INTEGER_MAX_def)
qed

section \<open>The outcome of a task\<close>

text \<open>
  What the steps between the first and the last status do: they add files, blobs and releases, and
  leave bundles and statuses alone.
\<close>

definition tables_grow :: "file_db \<Rightarrow> file_db \<Rightarrow> bool" where
  "tables_grow d d' \<longleftrightarrow> (\<exists>bs. blobs d' = blobs d @ bs) \<and> (\<exists>rs. release_ids d' = release_ids d @ rs)"

definition grows :: "file_db \<Rightarrow> file_db \<Rightarrow> int list \<Rightarrow> bool" where
  "grows d d' ids \<longleftrightarrow> statuses d' = statuses d \<and> symbol_bundles d' = symbol_bundles d \<and> next_file d \<le> next_file d' \<and>
     tables_grow d d' \<and>
     (\<exists>new. files d' = files d @ new \<and> map f_id new = ids \<and> list_all (\<lambda>i. next_file d \<le> i \<and> i < next_file d') ids)"

lemma tables_grow_refl [simp]: "tables_grow d d"
  by (simp add: tables_grow_def)

lemma tables_grow_trans: "tables_grow d d1 \<Longrightarrow> tables_grow d1 d2 \<Longrightarrow> tables_grow d d2"
  by (auto simp: tables_grow_def)

lemma tables_grow_status [simp]: "tables_grow d (d'\<lparr>statuses := x\<rparr>) = tables_grow d d'"
  by (simp add: tables_grow_def)

lemma grows_refl [simp]: "grows d d []"
  by (simp add: grows_def)

lemma grows_trans: "grows d d1 is \<Longrightarrow> grows d1 d2 js \<Longrightarrow> grows d d2 (is @ js)"
  by (fastforce simp: grows_def list_all_iff intro: tables_grow_trans)

lemma map_of_None_key: "map_of m k = None \<Longrightarrow> k \<notin> fst ` set m"
  by (simp add: map_of_eq_None_iff)

lemma grows_get_release: "get_release org v d = (i, d') \<Longrightarrow> grows d d' []"
  by (auto simp: get_release_def get_or_create_release_def grows_def tables_grow_def dset_new map_of_None_key
      split: option.splits if_splits prod.splits)

lemma grows_blob: "get_or_create_blob c sz content d = (i, d') \<Longrightarrow> grows d d' []"
  by (auto simp: get_or_create_blob_def add_blob_def grows_def tables_grow_def split: option.splits)

lemma grows_new_file: "new_file name ty h c d = (i, d') \<Longrightarrow> i = next_file d \<and> grows d d' [i]"
  by (auto simp: new_file_def grows_def tables_grow_def)

definition keeps_ids :: "(file_rec \<Rightarrow> file_rec) \<Rightarrow> bool" where
  "keeps_ids g \<longleftrightarrow> (\<forall>f. f_id (g f) = f_id f)"

lemma tables_grow_update [simp]: "tables_grow d (update_file i g d') = tables_grow d d'"
  by (simp add: tables_grow_def update_file_def)

lemma grows_update:
  assumes "grows d d' ids" "next_file d \<le> i" "keeps_ids g" "list_all (\<lambda>f. f_id f < next_file d) (files d)"
  shows "grows d (update_file i g d') ids"
proof -
  from assms(1) obtain new where n: "files d' = files d @ new" "map f_id new = ids" by (auto simp: grows_def)
  have "map (\<lambda>f. if f_id f = i then g f else f) (files d) = files d"
    using assms(2,4) by (intro map_idI) (auto simp: list_all_iff)
  moreover have "map f_id (map (\<lambda>f. if f_id f = i then g f else f) new) = ids"
    using n(2) assms(3) by (auto simp: keeps_ids_def)
  moreover have "tables_grow d (update_file i g d')" using assms(1) by (simp add: grows_def)
  ultimately show ?thesis using assms(1) n by (auto simp: grows_def update_file_def)
qed

lemma grows_putfile:
  assumes "putfile sha1 i content d1 = Some d2" "grows d d1 ids" "next_file d \<le> i" "list_all (\<lambda>f. f_id f < next_file d) (files d)"
  shows "grows d d2 ids"
proof -
  have k: "keeps_ids (\<lambda>f. f\<lparr>f_checksum := c, f_blob := b\<rparr>)" for b c by (simp add: keeps_ids_def)
  have a: "add_blob c n content d1 = (j, d') \<Longrightarrow> grows d d' ids" for c n j d'
    using assms(2) by (auto simp: add_blob_def grows_def tables_grow_def)
  show ?thesis
    using assms(1) grows_update [OF assms(2,3) k assms(4)] grows_update [OF a assms(3) k assms(4)]
    by (auto simp: putfile_def Let_def split: option.splits if_splits prod.splits)
qed

definition ids_below :: "file_db \<Rightarrow> bool" where
  "ids_below d \<longleftrightarrow> list_all (\<lambda>f. f_id f < next_file d) (files d)"

lemma grows_below: "ids_below d \<Longrightarrow> grows d d' ids \<Longrightarrow> ids_below d'"
  by (fastforce simp: ids_below_def grows_def list_all_iff)

lemma artifact_loop_grows:
  "artifact_loop sha1 base f as ids d = (r, d') \<Longrightarrow> ids_below d \<Longrightarrow>
   \<exists>new. grows d d' new \<and> (\<forall>ids'. r = LoopOk ids' \<or> r = LoopBadPath ids' \<longrightarrow> ids' = ids @ new)"
proof (induction as arbitrary: ids d)
  case (Cons ra as)
  obtain rel a where ra: "ra = (rel, a)" by (cases ra)
  let ?p = "normpath (path_join base rel)"
  show ?case
  proof (cases "inside base ?p \<and> (\<exists>ty. art_type a = Some ty \<and> length ty \<le> 64)")
    case False
    then show ?thesis using Cons.prems ra by (intro exI [of _ "[]"]) (auto simp: Let_def split: if_splits option.splits)
  next
    case True
    then obtain ty where ty: "art_type a = Some ty" "length ty \<le> 64" "inside base ?p" by blast
    define url where "url = (case art_url a of Some u \<Rightarrow> u | None \<Rightarrow> rel)"
    obtain i d1 where nf: "new_file (url_basename url) ty (art_headers a) None d = (i, d1)" by (meson surj_pair)
    note g1 = grows_new_file [OF nf]
    show ?thesis
    proof (cases "\<exists>content d2. f ?p = Some content \<and> putfile sha1 i content d1 = Some d2")
      case False
      then have "r = LoopCrash" "d' = d1"
        using Cons.prems(1) ra ty nf by (auto simp: Let_def url_def split: option.splits)
      then show ?thesis using g1 by auto
    next
      case True
      then obtain content d2 where c: "f ?p = Some content" "putfile sha1 i content d1 = Some d2" by blast
      have l: "artifact_loop sha1 base f as (ids @ [i]) d2 = (r, d')"
        using Cons.prems(1) ra ty nf c by (simp add: Let_def url_def)
      have g2: "grows d d2 [i]"
        using grows_putfile [OF c(2), of d "[i]"] g1 Cons.prems(2) by (auto simp: ids_below_def)
      have "\<exists>new. grows d2 d' new \<and> (\<forall>ids'. r = LoopOk ids' \<or> r = LoopBadPath ids' \<longrightarrow> ids' = (ids @ [i]) @ new)"
        by (rule Cons.IH [OF l grows_below [OF Cons.prems(2) g2]])
      then show ?thesis using grows_trans [OF g2] by fastforce
    qed
  qed
qed auto

lemma files_ok_below: "files_ok d \<Longrightarrow> ids_below d"
  by (auto simp: files_ok_def ids_below_def list_all_iff)

lemma delete_new:
  assumes "files_ok d" "grows d d' ids" "set ids \<subseteq> set del" "list_all (\<lambda>i. next_file d \<le> i) del"
  shows "files (delete_files del d') = files d" "symbol_bundles (delete_files del d') = symbol_bundles d"
proof -
  from assms(2) obtain new where n: "files d' = files d @ new" "map f_id new = ids" and sb: "symbol_bundles d' = symbol_bundles d"
    by (auto simp: grows_def)
  have old: "i < next_file d \<Longrightarrow> i \<notin> set del" for i using assms(4) by (auto simp: list_all_iff)
  have "filter (\<lambda>f. f_id f \<notin> set del) (files d) = files d"
    using files_ok_old [OF assms(1)] old by (auto simp: filter_id_conv)
  moreover have "filter (\<lambda>f. f_id f \<notin> set del) new = []"
    using n(2) assms(3) by (auto simp: filter_empty_conv)
  ultimately show "files (delete_files del d') = files d" by (simp add: delete_files_def n(1))
  have q: "q \<in> set (symbol_bundles d) \<Longrightarrow> sb_file q < next_file d \<and> (\<forall>s. sb_sourcemap q = Some s \<longrightarrow> s < next_file d)" for q
    using assms(1) by (auto simp: files_ok_def list_all_iff row_files_def)
  have "filter (\<lambda>b. sb_file b \<notin> set del) (symbol_bundles d) = symbol_bundles d"
    using q old by (auto simp: filter_id_conv)
  then show "symbol_bundles (delete_files del d') = symbol_bundles d"
    using q old by (auto simp: delete_files_def sb intro!: map_idI split: option.splits)
qed

lemma delete_simps [simp]:
  "statuses (delete_files del d) = statuses d" "tables_grow d0 (delete_files del d) = tables_grow d0 d"
  by (simp_all add: delete_files_def tables_grow_def)

lemma statuses_save: "save_bundles bs d = (c, d') \<Longrightarrow> statuses d' = statuses d \<and> tables_grow d d'"
  by (auto simp: save_bundles_def put_bundles_def Let_def tables_grow_def delete_files_def split: if_splits)

definition failed_as_before :: "nat \<Rightarrow> int \<Rightarrow> string \<Rightarrow> file_db \<Rightarrow> file_db \<Rightarrow> bool" where
  "failed_as_before now org checksum d d' \<longleftrightarrow> files d' = files d \<and> symbol_bundles d' = symbol_bundles d \<and> tables_grow d d' \<and>
     (\<exists>detail. statuses d' = dset (statuses d) (ARTIFACTS, org, checksum) ((ERROR, Some detail), now + STATUS_SECONDS))"

lemma fail_and_cleanup_as_before:
  assumes "files_ok d" "grows d d' (fid # js)" "is_ascii checksum" "fail_and_cleanup now org checksum fid js detail d' = (crash, d'')"
  shows "\<not> crash \<and> failed_as_before now org checksum d d''"
proof -
  let ?e = "d'\<lparr>statuses := dset (statuses d') (ARTIFACTS, org, checksum) ((ERROR, Some detail), now + STATUS_SECONDS)\<rparr>"
  have d'': "\<not> crash" "d'' = delete_files (fid # js) ?e"
    using assms(3,4) by (auto simp: fail_and_cleanup_def set_assemble_status_def get_cache_key_def)
  have g: "list_all (\<lambda>i. next_file d \<le> i) (fid # js)" "statuses d' = statuses d" "tables_grow d d'"
    using assms(2) by (auto simp: grows_def list_all_iff)
  have "grows d (?e\<lparr>statuses := statuses d\<rparr>) (fid # js)"
    using assms(2) by (simp add: grows_def tables_grow_def)
  from delete_new [OF assms(1) this order_refl g(1)] show ?thesis
    using g(2,3) d'' by (auto simp: failed_as_before_def delete_files_def tables_grow_def)
qed

lemma assemble_from_grows:
  assumes "assemble_from_file_blobs sha1 fid bs checksum d1 = Inr (content, d2)" "grows d d1 ids" "next_file d \<le> fid" "ids_below d"
  shows "grows d d2 ids"
proof -
  have k: "keeps_ids (\<lambda>f. f\<lparr>f_blob := b, f_size := n, f_checksum := c\<rparr>)" for b c n by (simp add: keeps_ids_def)
  have a: "get_or_create_blob c n x d1 = (j, d') \<Longrightarrow> grows d d' ids" for c n x j d'
    using grows_trans [OF assms(2) grows_blob] by fastforce
  show ?thesis
    using assms(1) grows_update [OF assms(2,3) k assms(4) [unfolded ids_below_def]] grows_update [OF a assms(3) k assms(4) [unfolded ids_below_def]]
    by (auto simp: assemble_from_file_blobs_def Let_def split: if_splits prod.splits list.splits)
qed

text \<open>The chunks are there, are not too large, and hash to the reported checksum.\<close>

definition chunks_match :: "(string \<Rightarrow> string) \<Rightarrow> string \<Rightarrow> string list \<Rightarrow> file_db \<Rightarrow> string \<Rightarrow> bool" where
  "chunks_match sha1 checksum chunks d content \<longleftrightarrow>
     list_all (\<lambda>c. find_blob c d \<noteq> None) chunks \<and>
     sum_list (map (\<lambda>b. length (b_content b)) (file_blobs chunks d)) \<le> MAX_FILE_SIZE \<and>
     content = concat (map (chunk_content d) chunks) \<and> sha1 content = checksum"

lemma assemble_file_outcome:
  assumes ok: "files_ok d" "blobs_ok d" and a: "is_ascii checksum"
    "assemble_file sha1 now ARTIFACTS org name checksum chunks ty d = (r, d')"
  shows "case r of
      AssembleFailed \<Rightarrow> failed_as_before now org checksum d d' \<and> (\<forall>content. \<not> chunks_match sha1 checksum chunks d content)
    | AssembleCrashed \<Rightarrow> statuses d' = statuses d \<and> tables_grow d d'
    | Assembled fid content \<Rightarrow> fid = next_file d \<and> grows d d' [fid] \<and> chunks_match sha1 checksum chunks d content"
proof -
  let ?d1 = "file_made name ty checksum d"
  let ?content = "concat (map (chunk_content d) chunks)"
  note cases = assemble_file_cases [OF ok(2) refl refl, of sha1 now ARTIFACTS org name checksum chunks ty]
  obtain i e where nf: "new_file name ty [] (Some checksum) d = (i, e)" by (meson surj_pair)
  then have g: "i = next_file d" "grows d e [next_file d]" using grows_new_file [OF nf] by auto
  have fail: "r = AssembleFailed \<and> failed_as_before now org checksum d d'"
    if "fail_assemble now ARTIFACTS org checksum detail (d\<lparr>next_file := n\<rparr>) = (r, d')" for n detail
    using that a(1) by (auto simp: fail_assemble_def set_assemble_status_def get_cache_key_def failed_as_before_def tables_grow_def)
  have same: "d\<lparr>next_file := next_file d\<rparr> = d" by simp
  have "r = Assembled fid content \<Longrightarrow> grows d d' [next_file d]" for fid content
    using a(2) assemble_from_grows [OF _ g(2) _ files_ok_below [OF ok(1)]] g(1)
    by (auto simp: nf assemble_file_def Let_def fail_assemble_def split: if_splits sum.splits assemble_error.splits option.splits)
  moreover have "r = Assembled fid content \<Longrightarrow> fid = next_file d \<and> content = ?content \<and> chunks_match sha1 checksum chunks d content" for fid content
    using a(2) unfolding cases chunks_match_def by (auto simp: fail_assemble_def not_less split: if_splits option.splits)
  moreover have "r = AssembleCrashed \<Longrightarrow> statuses d' = statuses d \<and> tables_grow d d'"
    using a unfolding cases
    by (auto simp: fail_assemble_def set_assemble_status_def get_cache_key_def new_file_def tables_grow_def split: if_splits)
  moreover have "failed_as_before now org checksum d d' \<and> (\<forall>content. \<not> chunks_match sha1 checksum chunks d content)" if "r = AssembleFailed"
  proof -
    have "\<not> chunks_match sha1 checksum chunks d content" for content
      using a(2) that unfolding cases chunks_match_def by (auto split: if_splits)
    moreover have "failed_as_before now org checksum d d'"
      using a(2) that fail [where n = "next_file d", unfolded same] fail [where n = "next_file d + 1"]
      unfolding cases delete_made [OF ok(1)] by (auto split: if_splits)
    ultimately show ?thesis by blast
  qed
  ultimately show ?thesis by (cases r) auto
qed

text \<open>The rows of the artifacts: name, type, headers and the hash of what was read.\<close>

definition artifact_row :: "(string \<Rightarrow> string) \<Rightarrow> string \<Rightarrow> (string \<Rightarrow> string option) \<Rightarrow> string \<times> artifact
    \<Rightarrow> string \<times> string option \<times> (string, string) dict \<times> string option" where
  "artifact_row sha1 scratchpad open_path ra =
     (case ra of (rel, a) \<Rightarrow>
        (url_basename (case art_url a of Some u \<Rightarrow> u | None \<Rightarrow> rel), art_type a, art_headers a,
         map_option sha1 (open_path (normpath (path_join scratchpad rel)))))"

definition row_view :: "file_rec \<Rightarrow> string \<times> string option \<times> (string, string) dict \<times> string option" where
  "row_view f = (f_name f, Some (f_type f), f_headers f, f_checksum f)"

lemma update_last:
  assumes "list_all (\<lambda>f. f_id f < i) fs" "f_id f = i" "files d = fs @ [f]"
  shows "files (update_file i g d) = fs @ [g f]"
proof -
  have "map (\<lambda>f. if f_id f = i then g f else f) fs = fs"
    using assms(1) by (intro map_idI) (auto simp: list_all_iff)
  then show ?thesis using assms(2,3) by (simp add: update_file_def)
qed

lemma putfile_row:
  assumes "putfile sha1 (next_file d) content d1 = Some d2" "ids_below d" "new_file name ty h None d = (i, d1)"
  shows "\<exists>f. files d2 = files d @ [f] \<and> row_view f = (name, Some ty, h, Some (sha1 content))"
proof -
  define f where "f = \<lparr>f_id = next_file d, f_name = name, f_type = ty, f_headers = h, f_blob = None, f_size = 0, f_checksum = None\<rparr>"
  have f: "files d1 = files d @ [f]" "f_id f = next_file d" using assms(3) by (auto simp: new_file_def f_def)
  have "files d1' = files d1 \<Longrightarrow> files (update_file (next_file d) g d1') = files d @ [g f]" for g d1'
    using update_last [OF assms(2) [unfolded ids_below_def] f(2)] f(1) by metis
  then show ?thesis
    using assms(1) by (auto simp: putfile_def add_blob_def f_def row_view_def split: if_splits option.splits)
qed

definition all_inside :: "string \<Rightarrow> manifest \<Rightarrow> bool" where
  "all_inside scratchpad m \<longleftrightarrow> list_all (\<lambda>(rel, _). inside scratchpad (normpath (path_join scratchpad rel))) (mf_files m)"

lemma artifact_loop_inside:
  "artifact_loop sha1 base f as ids d = (LoopOk ids', d') \<Longrightarrow>
   list_all (\<lambda>(rel, _). inside base (normpath (path_join base rel))) as"
  "artifact_loop sha1 base f as ids d = (LoopBadPath ids', d') \<Longrightarrow>
   \<not> list_all (\<lambda>(rel, _). inside base (normpath (path_join base rel))) as"
  by (induction sha1 base f as ids d rule: artifact_loop.induct)
    (auto simp: Let_def new_file_def split: if_splits option.splits)

lemma artifact_loop_rows:
  "artifact_loop sha1 base f as ids d = (LoopOk ids', d') \<Longrightarrow> ids_below d \<Longrightarrow>
   \<exists>new. files d' = files d @ new \<and> map row_view new = map (artifact_row sha1 base f) as"
proof (induction as arbitrary: ids d)
  case (Cons ra as)
  obtain rel a where ra: "ra = (rel, a)" by (cases ra)
  let ?p = "normpath (path_join base rel)"
  let ?url = "case art_url a of Some u \<Rightarrow> u | None \<Rightarrow> rel"
  obtain ty content d1 d2 where l: "art_type a = Some ty" "new_file (url_basename ?url) ty (art_headers a) None d = (next_file d, d1)"
    "f ?p = Some content" "putfile sha1 (next_file d) content d1 = Some d2"
    "artifact_loop sha1 base f as (ids @ [next_file d]) d2 = (LoopOk ids', d')"
    using Cons.prems(1) by (auto simp: ra Let_def new_file_def split: if_splits option.splits)
  have g: "grows d d2 [next_file d]"
    using grows_putfile [OF l(4), of d "[next_file d]"] grows_new_file [OF l(2)] Cons.prems(2) by (simp add: ids_below_def)
  obtain r where r: "files d2 = files d @ [r]" "row_view r = (url_basename ?url, Some ty, art_headers a, Some (sha1 content))"
    using putfile_row [OF l(4) Cons.prems(2) l(2)] by blast
  obtain new where "files d' = files d2 @ new" "map row_view new = map (artifact_row sha1 base f) as"
    using Cons.IH [OF l(5) grows_below [OF Cons.prems(2) g]] by blast
  then show ?case using r l(1,3) by (intro exI [of _ "r # new"]) (simp add: artifact_row_def ra)
qed simp

text \<open>When the upsert deletes files, they are old ones.\<close>

lemma old_files_old:
  assumes "files_ok d" "symbol_bundles d' = symbol_bundles d" "i \<in> set (orphaned_ids bs (symbol_bundles d'))"
  shows "i < next_file d"
proof -
  obtain q where "q \<in> set (symbol_bundles d)" "i \<in> set (row_files q)"
    using assms(2,3) by (auto simp: orphaned_ids_def old_file_ids_def)
  then show ?thesis using assms(1) by (force simp: files_ok_def list_all_iff)
qed

lemma save_bundles_files:
  "save_bundles bs d = (False, d') \<Longrightarrow> files d' = filter (\<lambda>f. f_id f \<notin> set (orphaned_ids bs (symbol_bundles d))) (files d)"
  by (auto simp: save_bundles_def Let_def put_bundles_def delete_files_def split: if_splits)

text \<open>
  What a task that ends well leaves: the old files, some of which a bundle has given up, and one row for
  each artifact of the manifest, with the hash of what the archive holds at its place.
\<close>

definition artifacts_stored ::
    "(string \<Rightarrow> string) \<Rightarrow> string \<Rightarrow> (string \<Rightarrow> string option) \<Rightarrow> manifest \<Rightarrow> file_db \<Rightarrow> file_db \<Rightarrow> bool" where
  "artifacts_stored sha1 scratchpad open_path m d d' \<longleftrightarrow>
     (\<exists>gone new. files d' = filter (\<lambda>f. f_id f \<notin> gone) (files d) @ new \<and>
        gone \<subseteq> (\<Union>q\<in>set (symbol_bundles d). set (row_files q)) \<and>
        map row_view new = map (artifact_row sha1 scratchpad open_path) (mf_files m))"

lemma store_artifacts_outcome:
  assumes ok: "files_ok d" "grows d d1 [fid]" "fid = next_file d" "is_ascii checksum"
    and st: "store_artifacts sha1 now base f org checksum fid m d1 = (crash, d')"
  shows "tables_grow d d' \<and>
    (if crash then statuses d' = statuses d
     else if all_inside base m
     then statuses d' = dset (statuses d) (ARTIFACTS, org, checksum) ((OK, None), now + STATUS_SECONDS) \<and> artifacts_stored sha1 base f m d d'
     else failed_as_before now org checksum d d')"
proof -
  obtain release d2 where r: "get_release org (mf_release m) d1 = (release, d2)" by (meson surj_pair)
  obtain lr d3 where l: "artifact_loop sha1 base f (mf_files m) [] d2 = (lr, d3)" by (meson surj_pair)
  have g2: "grows d d2 [fid]" using grows_trans [OF ok(2) grows_get_release [OF r]] by simp
  note below = grows_below [OF files_ok_below [OF ok(1)] g2]
  obtain new where n: "grows d2 d3 new" "\<forall>ids'. lr = LoopOk ids' \<or> lr = LoopBadPath ids' \<longrightarrow> ids' = new"
    using artifact_loop_grows [OF l below] by auto
  have g3: "grows d d3 (fid # new)" using grows_trans [OF g2 n(1)] by simp
  then have st3: "statuses d3 = statuses d" "tables_grow d d3" "symbol_bundles d3 = symbol_bundles d" by (simp_all add: grows_def)
  show ?thesis
  proof (cases lr)
    case LoopCrash
    then show ?thesis using st st3 by (simp add: store_artifacts_def r l)
  next
    case (LoopBadPath ids)
    have "\<not> all_inside base m" using artifact_loop_inside(2) [OF l [unfolded LoopBadPath]] by (simp add: all_inside_def)
    moreover have f: "fail_and_cleanup now org checksum fid new ''Invalid path in manifest'' d3 = (crash, d')"
      using st n(2) LoopBadPath by (simp add: store_artifacts_def r l)
    ultimately show ?thesis
      using fail_and_cleanup_as_before [OF ok(1) g3 ok(4) f] by (auto simp: failed_as_before_def)
  next
    case (LoopOk ids)
    have inside: "all_inside base m" using artifact_loop_inside(1) [OF l [unfolded LoopOk]] by (simp add: all_inside_def)
    define bs where "bs = build_bundles org release (filter (\<lambda>f. f_id f \<in> set ids) (files d3))"
    obtain c d4 where s: "save_bundles bs d3 = (c, d4)" by (meson surj_pair)
    note s4 = statuses_save [OF s]
    let ?st = "dset (statuses d4) (ARTIFACTS, org, checksum) ((OK, None), now + STATUS_SECONDS)"
    show ?thesis
    proof (cases c)
      case True
      then show ?thesis
        using st s s4 st3 LoopOk tables_grow_trans by (auto simp: store_artifacts_def r l bs_def [symmetric])
    next
      case False
      then have d': "\<not> crash" "d' = delete_files [fid] (d4\<lparr>statuses := ?st\<rparr>)"
        using st s LoopOk ok(4) by (auto simp: store_artifacts_def r l bs_def [symmetric] set_assemble_status_def get_cache_key_def)
      obtain rows where rows: "files d3 = files d2 @ rows" "map row_view rows = map (artifact_row sha1 base f) (mf_files m)"
        using artifact_loop_rows [OF l [unfolded LoopOk] below] by blast
      obtain row where row: "files d2 = files d @ [row]" "f_id row = fid" using g2 by (auto simp: grows_def)
      define gone where "gone = set (orphaned_ids bs (symbol_bundles d3))"
      have old: "i \<in> gone \<Longrightarrow> i < next_file d" for i
        unfolding gone_def by (rule old_files_old [OF ok(1) st3(3)])
      have new_ids: "r \<in> set rows \<Longrightarrow> next_file d2 \<le> f_id r" for r
        using n(1) rows(1) by (auto simp: grows_def list_all_iff)
      have "next_file d < next_file d2" using g2 ok(3) by (auto simp: grows_def)
      then have keep: "filter (\<lambda>f. f_id f \<notin> gone) rows = rows" "filter (\<lambda>f. f_id f \<noteq> fid) rows = rows"
        using old new_ids ok(3) by (fastforce simp: filter_id_conv)+
      have "fid \<notin> gone" using old ok(3) by blast
      have keep2: "filter (\<lambda>f. f_id f \<noteq> fid) (filter (\<lambda>f. f_id f \<notin> gone) (files d)) = filter (\<lambda>f. f_id f \<notin> gone) (files d)"
      proof (intro filter_True ballI)
        fix x assume "x \<in> set (filter (\<lambda>f. f_id f \<notin> gone) (files d))"
        then show "f_id x \<noteq> fid" using files_ok_old [OF ok(1), of x] ok(3) by auto
      qed
      have "files d4 = filter (\<lambda>f. f_id f \<notin> gone) (files d @ [row] @ rows)"
        using save_bundles_files [of bs d3 d4] s False rows(1) row(1) by (simp add: gone_def)
      then have "files d' = filter (\<lambda>f. f_id f \<noteq> fid) (filter (\<lambda>f. f_id f \<notin> gone) (files d @ [row] @ rows))"
        by (simp add: d'(2) delete_files_def)
      also have "\<dots> = filter (\<lambda>f. f_id f \<notin> gone) (files d) @ rows"
        using keep keep2 row(2) by (simp only: filter_append) simp
      finally have "artifacts_stored sha1 base f m d d'"
        unfolding artifacts_stored_def using rows(2) st3(3)
        by (intro exI [of _ gone] exI [of _ rows]) (auto simp: gone_def orphaned_ids_def old_file_ids_def)
      moreover have "tables_grow d d'"
        using tables_grow_trans [OF st3(2), of d4] s4 by (simp add: d'(2))
      ultimately show ?thesis using d' inside s4 st3(1) by simp
    qed
  qed
qed

text \<open>
  What makes a bundle acceptable, said without the steps of the task: the chunks match, the archive
  unpacks, it has a manifest, of this organization and release, and no path of it leaves the directory.
\<close>

definition bundle_accepted ::
    "(string \<Rightarrow> string) \<Rightarrow> (string \<Rightarrow> (string \<times> string option) list option) \<Rightarrow> (string \<Rightarrow> manifest option) \<Rightarrow> string
     \<Rightarrow> (string \<Rightarrow> string option) \<Rightarrow> string \<Rightarrow> string option \<Rightarrow> string \<Rightarrow> string list \<Rightarrow> file_db
     \<Rightarrow> (string, string) dict \<Rightarrow> manifest \<Rightarrow> bool" where
  "bundle_accepted sha1 read_zip parse_manifest scratchpad disk slug version checksum chunks d fs m \<longleftrightarrow>
     (\<exists>content. chunks_match sha1 checksum chunks d content \<and> unpack_bundle read_zip scratchpad content = Some fs) \<and>
     read_manifest parse_manifest scratchpad (open_file disk fs) = Some m \<and>
     mf_org m = Some slug \<and> mf_release m = version \<and> all_inside scratchpad m"

lemma chunks_match_unique: "chunks_match sha1 checksum chunks d a \<Longrightarrow> chunks_match sha1 checksum chunks d b \<Longrightarrow> a = b"
  by (simp add: chunks_match_def)

lemma task_outcome:
  assumes ok: "files_ok d" "blobs_ok d" and ascii: "is_ascii checksum"
    and set0: "d0 = d\<lparr>statuses := dset (statuses d) (ARTIFACTS, org, checksum) ((ASSEMBLING, None), started + STATUS_SECONDS)\<rparr>"
    and task: "assemble_artifacts sha1 read_zip parse_manifest scratchpad disk started ended org slug version checksum chunks d = (crash, d')"
  shows "tables_grow d d' \<and>
    (if crash then statuses d' = statuses d0
     else if \<exists>fs m. bundle_accepted sha1 read_zip parse_manifest scratchpad disk slug version checksum chunks d fs m
     then statuses d' = dset (statuses d0) (ARTIFACTS, org, checksum) ((OK, None), ended + STATUS_SECONDS) \<and>
       (\<forall>fs m. bundle_accepted sha1 read_zip parse_manifest scratchpad disk slug version checksum chunks d fs m \<longrightarrow>
          artifacts_stored sha1 scratchpad (open_file disk fs) m d d')
     else failed_as_before ended org checksum d0 d')"
proof -
  have ok0: "files_ok d0" "blobs_ok d0"
    using ok by (auto simp: set0 files_ok_def blobs_ok_def list_all_iff split: option.splits)
  have b: "blobs d0 = blobs d" by (simp add: set0)
  then have c: "chunk_content d0 = chunk_content d" by (simp add: fun_eq_iff chunk_content_def find_blob_def)
  have d0: "files d0 = files d" "symbol_bundles d0 = symbol_bundles d" "tables_grow d0 = tables_grow d"
    "chunks_match sha1 checksum chunks d0 = chunks_match sha1 checksum chunks d"
    using b by (simp_all add: set0 tables_grow_def fun_eq_iff chunks_match_def file_blobs_def find_blob_def flip: c)
  have stored0: "artifacts_stored sha1 scratchpad g m d0 = artifacts_stored sha1 scratchpad g m d" for g m
    by (simp add: artifacts_stored_def d0 fun_eq_iff)
  obtain r d1 where a: "assemble_file sha1 ended ARTIFACTS org ''release-artifacts.zip'' checksum chunks ''release.bundle'' d0 = (r, d1)"
    by (meson surj_pair)
  note o = assemble_file_outcome [OF ok0 ascii a, unfolded d0(3,4)]
  have t: "assemble_artifacts sha1 read_zip parse_manifest scratchpad disk started ended org slug version checksum chunks d =
     (case r of AssembleFailed \<Rightarrow> (False, d1) | AssembleCrashed \<Rightarrow> (True, d1)
      | Assembled fid content \<Rightarrow>
        (let fail = (\<lambda>detail. fail_and_cleanup ended org checksum fid [] detail d1) in
         case unpack_bundle read_zip scratchpad content of
           None \<Rightarrow> fail ''Failed to extract bundle: uploaded file is not a valid zip archive''
         | Some fs \<Rightarrow>
           (case read_manifest parse_manifest scratchpad (open_file disk fs) of
              None \<Rightarrow> fail ''Failed to open release manifest''
            | Some m \<Rightarrow>
              if mf_org m \<noteq> Some slug then fail ''Organization does not match uploaded bundle''
              else if mf_release m \<noteq> version then fail ''Release does not match uploaded bundle''
              else store_artifacts sha1 ended scratchpad (open_file disk fs) org checksum fid m d1)))"
    using a ascii by (simp add: assemble_artifacts_def set_assemble_status_def get_cache_key_def set0)
  show ?thesis
  proof (cases r)
    case (Assembled fid content)
    then have as: "fid = next_file d0" "grows d0 d1 [fid]" "chunks_match sha1 checksum chunks d content" using o by auto
    note u = chunks_match_unique [OF as(3)]
    let ?acc = "bundle_accepted sha1 read_zip parse_manifest scratchpad disk slug version checksum chunks d"
    have fail: "\<not> crash \<and> failed_as_before ended org checksum d0 d'"
      if "fail_and_cleanup ended org checksum fid [] detail d1 = (crash, d')" for detail
      using fail_and_cleanup_as_before [OF ok0(1) as(2) ascii that] .
    have acc: "?acc fs m \<longleftrightarrow> unpack_bundle read_zip scratchpad content = Some fs \<and>
        read_manifest parse_manifest scratchpad (open_file disk fs) = Some m \<and> mf_org m = Some slug \<and> mf_release m = version \<and>
        all_inside scratchpad m" for fs m
      unfolding bundle_accepted_def using as(3) u by blast
    show ?thesis
    proof (cases "\<exists>fs m. unpack_bundle read_zip scratchpad content = Some fs \<and>
        read_manifest parse_manifest scratchpad (open_file disk fs) = Some m \<and> mf_org m = Some slug \<and> mf_release m = version")
      case True
      then obtain fs m where fm: "unpack_bundle read_zip scratchpad content = Some fs"
        "read_manifest parse_manifest scratchpad (open_file disk fs) = Some m" "mf_org m = Some slug" "mf_release m = version" by blast
      then have store: "store_artifacts sha1 ended scratchpad (open_file disk fs) org checksum fid m d1 = (crash, d')"
        using task unfolding t Assembled by simp
      have "(\<exists>fs m. ?acc fs m) \<longleftrightarrow> all_inside scratchpad m" "?acc fs' m' \<Longrightarrow> fs' = fs \<and> m' = m" for fs' m'
        using acc fm by auto
      then show ?thesis
        using store_artifacts_outcome [OF ok0(1) as(2,1) ascii store] stored0 d0(3) by (auto split: if_splits)
    next
      case False
      then have "\<exists>detail. fail_and_cleanup ended org checksum fid [] detail d1 = (crash, d')"
        using task unfolding t Assembled by (auto simp: Let_def split: option.splits if_splits)
      moreover have "\<not> ?acc fs m" for fs m using False acc by blast
      ultimately show ?thesis using fail by (auto simp: failed_as_before_def d0(3))
    qed
  qed (use o task in \<open>auto simp: t bundle_accepted_def failed_as_before_def d0(3)\<close>)
qed

text \<open>
  Property C38.
  The status of an assembly task tells what happened, for ten minutes: when no exception escapes, it
  is \<open>OK\<close> exactly when the bundle is acceptable, and then every artifact of the manifest has its row,
  and \<open>ERROR\<close>, with a reason, in all other cases, and then files and bundles are as before the task;
  when an exception escapes, it stays \<open>ASSEMBLING\<close>. Whatever happens, blobs and releases are only
  added and no other task's status changes. A checksum with a character beyond ASCII makes the task
  raise before it has set or done anything.
\<close>

theorem status_tells_outcome:
  assumes "files_ok d" "blobs_ok d"
    and "assemble_artifacts sha1 read_zip parse_manifest scratchpad disk started ended org slug version checksum chunks d = (crash, d')"
    and "accepted = (\<lambda>(fs, m). bundle_accepted sha1 read_zip parse_manifest scratchpad disk slug version checksum chunks d fs m)"
  shows "if \<not> is_ascii checksum then crash \<and> d' = d
    else (\<exists>st detail.
      (\<forall>t. assemble_status t (ARTIFACTS, org, checksum) d' =
         (if t < (if crash then started else ended) + STATUS_SECONDS then Some (st, detail) else None)) \<and>
      (if crash then st = ASSEMBLING \<and> detail = None
       else if Ex accepted
       then st = OK \<and> detail = None \<and> (\<forall>(fs, m)\<in>Collect accepted. artifacts_stored sha1 scratchpad (open_file disk fs) m d d')
       else st = ERROR \<and> detail \<noteq> None \<and> files d' = files d \<and> symbol_bundles d' = symbol_bundles d) \<and>
      tables_grow d d' \<and>
      (\<forall>t k. k \<noteq> (ARTIFACTS, org, checksum) \<longrightarrow> assemble_status t k d' = assemble_status t k d))"
proof (cases "is_ascii checksum")
  case True
  define d0 where "d0 = d\<lparr>statuses := dset (statuses d) (ARTIFACTS, org, checksum) ((ASSEMBLING, None), started + STATUS_SECONDS)\<rparr>"
  have d0: "files d0 = files d" "symbol_bundles d0 = symbol_bundles d"
    "map_of (statuses d0) = (map_of (statuses d))((ARTIFACTS, org, checksum) \<mapsto> ((ASSEMBLING, None), started + STATUS_SECONDS))"
    by (simp_all add: d0_def)
  note o = task_outcome [OF assms(1,2) True d0_def assms(3)]
  have set1: "assemble_status t k d' = (if k = (ARTIFACTS, org, checksum) then (if t < e then Some st else None) else assemble_status t k d)"
    if "map_of (statuses d') = (map_of (statuses d0))((ARTIFACTS, org, checksum) \<mapsto> (st, e))" for t k st e
    using that by (simp add: assemble_status_def d0)
  show ?thesis
  proof (cases crash)
    case crash: True
    then have "map_of (statuses d') = (map_of (statuses d0))((ARTIFACTS, org, checksum) \<mapsto> ((ASSEMBLING, None), started + STATUS_SECONDS))"
      using o d0(3) by simp
    from set1 [OF this] show ?thesis using True crash o by auto
  next
    case nocrash: False
    show ?thesis
    proof (cases "Ex accepted")
      case acc: True
      then have "map_of (statuses d') = (map_of (statuses d0))((ARTIFACTS, org, checksum) \<mapsto> ((OK, None), ended + STATUS_SECONDS))"
        using o nocrash by (auto simp: assms(4))
      from set1 [OF this] show ?thesis using True nocrash acc o by (auto simp: assms(4))
    next
      case acc: False
      then have f: "failed_as_before ended org checksum d0 d'" using o nocrash by (auto simp: assms(4))
      then obtain detail where
        "map_of (statuses d') = (map_of (statuses d0))((ARTIFACTS, org, checksum) \<mapsto> ((ERROR, Some detail), ended + STATUS_SECONDS))"
        by (auto simp: failed_as_before_def)
      from set1 [OF this] show ?thesis using True nocrash acc o f d0(1,2) by (auto simp: failed_as_before_def)
    qed
  qed
next
  case False
  then show ?thesis using assms(3) by (simp add: assemble_artifacts_def set_assemble_status_def get_cache_key_def)
qed

theorem status_tells_outcome_witness:
  "\<exists>crash d'. assemble_artifacts id (\<lambda>_. None) (\<lambda>_. None) ''/tmp/x'' (\<lambda>_. None) 5 9 1 ''acme'' None ''ccab'' [''c'', ''c'', ''ab''] two_chunks = (crash, d') \<and>
    (crash \<or> (\<exists>detail. assemble_status 10 (ARTIFACTS, 1, ''ccab'') d' = Some (ERROR, Some detail)))"
proof -
  obtain crash d' where a: "assemble_artifacts id (\<lambda>_. None) (\<lambda>_. None) ''/tmp/x'' (\<lambda>_. None) 5 9 1 ''acme'' None ''ccab'' [''c'', ''c'', ''ab''] two_chunks = (crash, d')"
    by (meson surj_pair)
  have ok: "files_ok two_chunks" "blobs_ok two_chunks" "is_ascii ''ccab''" by code_simp+
  have "\<not> Ex (\<lambda>(fs, m). bundle_accepted id (\<lambda>_. None) (\<lambda>_. None) ''/tmp/x'' (\<lambda>_. None) ''acme'' None ''ccab'' [''c'', ''c'', ''ab''] two_chunks fs m)"
    by (simp add: bundle_accepted_def unpack_bundle_def)
  with status_tells_outcome [OF ok(1,2) a refl] ok(3) a show ?thesis
    by (cases crash) (auto simp: STATUS_SECONDS_def)
qed

text \<open>Eleven minutes on, the same task has no status any more.\<close>

lemma status_expires: "assemble_status 610 k (d\<lparr>statuses := dset (statuses d) k ((st, detail), 9 + STATUS_SECONDS)\<rparr>) = None"
  by (simp add: assemble_status_def STATUS_SECONDS_def)

text \<open>
  The limit on the size of a file is tested on the distinct chunks: a request that repeats a chunk
  gets past it, and the task dies while its status says that it is at work.
\<close>

lemma repeated_chunks_escape_limit:
  assumes "blobs_ok d" "blobs d = [b]" "b_checksum b = c" "length (b_content b) \<le> MAX_FILE_SIZE"
    and "chunks = replicate k c" "POSITIVE_INTEGER_MAX < k * length (b_content b)"
    and "checksum = sha1 (concat (map (chunk_content d) chunks))" "length checksum \<le> 40"
  shows "fst (assemble_file sha1 now task org name checksum chunks ty d) = AssembleCrashed"
proof -
  have k: "0 < k" using assms(6) by (cases k) auto
  have f: "find_blob c d = Some b" using assms(2,3) by (simp add: find_blob_def)
  have len: "length (concat (replicate k xs)) = k * length xs" for xs :: string by (induction k) auto
  have "file_blobs chunks d = [b]" using assms(2,3,5) k by (simp add: file_blobs_def)
  moreover have "POSITIVE_INTEGER_MAX < length (concat (map (chunk_content d) chunks))"
    using assms(5,6) by (simp add: chunk_content_def f len)
  moreover have "list_all (\<lambda>c. find_blob c d \<noteq> None) chunks" using assms(5) f by (simp add: list_all_iff)
  ultimately show ?thesis
    using assemble_file_cases [OF assms(1) refl refl, of sha1 now task org name checksum chunks ty] assms(4,7,8) by simp
qed

text \<open>
  Property C36.
  The task stays inside its scratch directory. What it extracts is written to the directory followed by
  at least one name, none of them a parent directory, also when extraction fails half-way. And what it
  reads comes from there: its result and all it stores are the same whatever the files outside the
  directory hold, for every archive and every manifest, whether the task ends well, fails or raises.
\<close>

theorem artifact_paths_are_contained:
  assumes "bs \<noteq> []" "list_all good_comp bs"
  shows "list_all (\<lambda>(p, _). path_within bs p) (snd (safe_extract_zip (path_of bs) members)) \<and>
    (same_within bs disk disk' \<longrightarrow>
      assemble_artifacts sha1 read_zip parse_manifest (path_of bs) disk started ended org slug version checksum chunks d =
      assemble_artifacts sha1 read_zip parse_manifest (path_of bs) disk' started ended org slug version checksum chunks d)"
proof -
  have "assemble_artifacts sha1 read_zip parse_manifest (path_of bs) disk started ended org slug version checksum chunks d =
      assemble_artifacts sha1 read_zip parse_manifest (path_of bs) disk' started ended org slug version checksum chunks d"
    if same: "same_within bs disk disk'"
  proof -
    note o = same_within_open [OF same]
    show ?thesis
      unfolding assemble_artifacts_def store_artifacts_def manifest_within [OF assms o] artifact_loop_within [OF assms o] by (rule refl)
  qed
  then show ?thesis using safe_extract_within [OF assms] by blast
qed

definition one_artifact :: artifact where
  "one_artifact = \<lparr>art_url = None, art_type = Some ''source_map'', art_headers = []\<rparr>"

text \<open>
  A manifest that names the secret of its neighbour: the task fails, and what it leaves does not depend
  on the secret.
\<close>

definition spy_manifest :: manifest where
  "spy_manifest = \<lparr>mf_org = Some ''acme'', mf_release = None, mf_files = [(''../secret'', one_artifact)]\<rparr>"

definition secret_disk :: "string \<Rightarrow> string \<Rightarrow> string option" where
  "secret_disk secret p = (if p = ''/tmp/secret'' then Some secret else None)"

theorem artifact_paths_are_contained_witness:
  "list_all (\<lambda>(p, _). path_within [''tmp'', ''x''] p)
      (snd (safe_extract_zip ''/tmp/x'' [(''a/'', Some []), (''a/../../y'', Some ''q''), (''./a/b.map'', Some ''m''), (''c'', None)])) \<and>
   assemble_artifacts id (\<lambda>_. Some [(''manifest.json'', Some [])]) (\<lambda>_. Some spy_manifest) ''/tmp/x'' (secret_disk ''1'') 5 9 1 ''acme'' None
     ''ccab'' [''c'', ''c'', ''ab''] two_chunks =
   assemble_artifacts id (\<lambda>_. Some [(''manifest.json'', Some [])]) (\<lambda>_. Some spy_manifest) ''/tmp/x'' (secret_disk ''2'') 5 9 1 ''acme'' None
     ''ccab'' [''c'', ''c'', ''ab''] two_chunks"
proof -
  have p: "path_of [''tmp'', ''x''] = ''/tmp/x''" by code_simp
  have g: "list_all good_comp [''tmp'', ''x'']" by (simp add: good_comp_def)
  have "\<not> path_within [''tmp'', ''x''] ''/tmp/secret''"
    by (auto simp: path_within_def path_of_def neq_Nil_conv)
  then have s: "same_within [''tmp'', ''x''] (secret_disk ''1'') (secret_disk ''2'')"
    by (auto simp: same_within_def secret_disk_def)
  show ?thesis
    using artifact_paths_are_contained [of "[''tmp'', ''x'']", unfolded p, OF _ g] s by blast
qed

text \<open>The paths that such an extraction writes, and what the loop opens for an honest manifest.\<close>

lemma extraction_example:
  "safe_extract_zip ''/tmp/x'' [(''a/'', Some []), (''a/../../y'', Some ''q''), (''./a/b.map'', Some ''m''), (''c'', None)] =
     (False, [(''/tmp/x/a/b.map'', ''m''), (''/tmp/x/c'', [])])"
  by code_simp

section \<open>Bundles\<close>

definition pick_bundle :: "symbol_bundle \<Rightarrow> symbol_bundle option \<Rightarrow> symbol_bundle option" where
  "pick_bundle b a = (if a = None \<or> sb_sourcemap b \<noteq> None then Some b else a)"

lemma add_bundles:
  "map_of (fst (fold add_bundle bs acc)) i = fold pick_bundle (filter (\<lambda>b. sb_debug_id b = Some i) bs) (map_of (fst acc) i)"
  "snd (fold add_bundle bs acc) = snd acc @ filter (\<lambda>b. sb_debug_id b = None) bs"
  "dict_ok (fst acc) \<Longrightarrow> dict_ok (fst (fold add_bundle bs acc))"
  by (induction bs arbitrary: acc) (auto simp: add_bundle_def pick_bundle_def split: option.splits)

lemma pick_bundles_mem: "fold pick_bundle bs a = Some b \<Longrightarrow> a = Some b \<or> b \<in> set bs"
proof (induction bs arbitrary: a)
  case (Cons x bs)
  then show ?case using Cons.IH [of "pick_bundle x a"] by (auto simp: pick_bundle_def split: if_splits)
qed simp

lemma pick_bundles_None: "fold pick_bundle bs a = None \<longleftrightarrow> a = None \<and> bs = []"
  by (induction bs arbitrary: a) (simp_all add: pick_bundle_def)

lemma pick_bundles_incomplete:
  "fold pick_bundle bs a = Some b \<Longrightarrow> sb_sourcemap b = None \<Longrightarrow>
   list_all (\<lambda>b'. sb_sourcemap b' = None) bs \<and> (\<forall>b'. a = Some b' \<longrightarrow> sb_sourcemap b' = None)"
proof (induction bs arbitrary: a)
  case (Cons x bs)
  have "fold pick_bundle bs (pick_bundle x a) = Some b" using Cons.prems(1) by simp
  note ih = Cons.IH [OF this Cons.prems(2)]
  then have bs: "list_all (\<lambda>b'. sb_sourcemap b' = None) bs" and p: "\<And>b'. pick_bundle x a = Some b' \<Longrightarrow> sb_sourcemap b' = None"
    by blast+
  have "sb_sourcemap x \<noteq> None \<Longrightarrow> pick_bundle x a = Some x" by (simp add: pick_bundle_def)
  with p have x: "sb_sourcemap x = None" by blast
  have "a = Some b' \<Longrightarrow> sb_sourcemap b' = None" for b' by (rule p) (simp add: pick_bundle_def x)
  with bs x show ?case by simp
qed simp

lemma fold_bundle_of: "fold (\<lambda>f. add_bundle (g f)) fs = fold add_bundle (map g fs)"
  by (simp add: fold_map comp_def)

lemma build_bundles_cases:
  fixes all :: "symbol_bundle list"
  assumes "all = map (bundle_of org release fs) fs"
  obtains by_id where "build_bundles org release fs = map snd by_id @ filter (\<lambda>b. sb_debug_id b = None) all" "dict_ok by_id"
    "\<And>i b. (i, b) \<in> set by_id \<longleftrightarrow> fold pick_bundle (filter (\<lambda>b. sb_debug_id b = Some i) all) None = Some b"
proof
  let ?r = "fold add_bundle all ([], [])"
  show ok: "dict_ok (fst ?r)" by (rule add_bundles(3)) simp
  show "build_bundles org release fs = map snd (fst ?r) @ filter (\<lambda>b. sb_debug_id b = None) all"
    using add_bundles(2) [of all "([], [])"]
    by (simp add: build_bundles_def fold_bundle_of [of "bundle_of org release fs"] assms(1) [symmetric] split_beta Let_def)
  show "(i, b) \<in> set (fst ?r) \<longleftrightarrow> fold pick_bundle (filter (\<lambda>b. sb_debug_id b = Some i) all) None = Some b" for i b
    using map_of_eq_Some_iff [OF ok, of i b] add_bundles(1) [of all "([], [])" i] by simp
qed

text \<open>
  Further property.
  The bundles of an upload have one row for each debug id among the files, made from one of the
  files with that id, and from one that has its source map when there is such a file; files without
  a debug id have a row each.
\<close>

theorem one_bundle_per_debug_id:
  assumes "out = build_bundles org release fs" and "all = map (bundle_of org release fs) fs"
  shows "distinct (filter (\<lambda>i. i \<noteq> None) (map sb_debug_id out)) \<and>
    set out \<subseteq> set all \<and> set (map sb_debug_id out) = set (map sb_debug_id all) \<and>
    filter (\<lambda>b. sb_debug_id b = None) out = filter (\<lambda>b. sb_debug_id b = None) all \<and>
    list_all (\<lambda>b. sb_debug_id b \<noteq> None \<and> sb_sourcemap b = None \<longrightarrow>
      \<not> list_ex (\<lambda>b'. sb_debug_id b' = sb_debug_id b \<and> sb_sourcemap b' \<noteq> None) all) out"
proof -
  obtain by_id where o: "out = map snd by_id @ filter (\<lambda>b. sb_debug_id b = None) all" and ok: "dict_ok by_id"
    and m: "\<And>i b. (i, b) \<in> set by_id \<longleftrightarrow> fold pick_bundle (filter (\<lambda>b. sb_debug_id b = Some i) all) None = Some b"
    using build_bundles_cases [OF assms(2)] assms(1) by metis
  have by_id: "b \<in> set all \<and> sb_debug_id b = Some i" if "(i, b) \<in> set by_id" for i b
    using pick_bundles_mem [OF that [unfolded m]] by auto
  then have ids: "map (\<lambda>b. sb_debug_id b) (map snd by_id) = map Some (map fst by_id)"
    by (auto simp: split_beta)
  have "distinct (filter (\<lambda>i. i \<noteq> None) (map sb_debug_id out))"
  proof -
    have "filter (\<lambda>i. i \<noteq> None) (map sb_debug_id out) = map Some (map fst by_id)"
    proof -
      have "filter (\<lambda>i. i \<noteq> None) (map sb_debug_id (map snd by_id)) = map Some (map fst by_id)"
        unfolding ids by (simp add: filter_id_conv)
      moreover have "filter (\<lambda>i. i \<noteq> None) (map sb_debug_id (filter (\<lambda>b. sb_debug_id b = None) all)) = []"
        by (auto simp: filter_empty_conv)
      ultimately show ?thesis by (simp add: o)
    qed
    then show ?thesis using ok by (simp only: distinct_map [of Some] inj_Some)
  qed
  moreover have "set out \<subseteq> set all" using by_id by (auto simp: o)
  moreover have "sb_debug_id b \<in> set (map sb_debug_id out)" if "b \<in> set all" for b
  proof (cases "sb_debug_id b")
    case (Some i)
    then have "filter (\<lambda>b. sb_debug_id b = Some i) all \<noteq> []" using that by (auto simp: filter_empty_conv)
    then obtain b' where "(i, b') \<in> set by_id" using pick_bundles_None m by (metis not_Some_eq)
    then show ?thesis using by_id [of i b'] Some by (force simp: o)
  qed (use that in \<open>auto simp: o\<close>)
  moreover have "filter (\<lambda>b. sb_debug_id b = None) out = filter (\<lambda>b. sb_debug_id b = None) all"
    using by_id by (fastforce simp: o filter_empty_conv)
  moreover have "\<not> list_ex (\<lambda>b'. sb_debug_id b' = sb_debug_id b \<and> sb_sourcemap b' \<noteq> None) all"
    if "b \<in> set out" "sb_debug_id b \<noteq> None" "sb_sourcemap b = None" for b
    using that by_id pick_bundles_incomplete [OF m [THEN iffD1]] by (fastforce simp: o list_ex_iff list_all_iff)
  ultimately show ?thesis by (fastforce simp: list_all_iff)
qed

definition example_file :: "int \<Rightarrow> string \<Rightarrow> string \<Rightarrow> (string, string) dict \<Rightarrow> file_rec" where
  "example_file i name ty headers = \<lparr>f_id = i, f_name = name, f_type = ty, f_headers = headers, f_blob = None, f_size = 0, f_checksum = None\<rparr>"

text \<open>A source with its map, both with the debug id of the build.\<close>

definition example_build :: "file_rec list" where
  "example_build = [example_file 1 ''a.map'' ''source_map'' [(''debug-id'', ''D'')],
     example_file 2 ''a.js'' ''minified_source'' [(''debug-id'', ''D''), (''Sourcemap'', ''a.map'')]]"

theorem one_bundle_per_debug_id_witness:
  "distinct (filter (\<lambda>i. i \<noteq> None) (map sb_debug_id (build_bundles 1 None example_build))) \<and>
   build_bundles 1 None example_build = [\<lparr>sb_org = 1, sb_debug_id = Some ''D'', sb_release = None, sb_sourcemap = Some 1, sb_file = 2\<rparr>]"
proof -
  have "build_bundles 1 None example_build = [\<lparr>sb_org = 1, sb_debug_id = Some ''D'', sb_release = None, sb_sourcemap = Some 1, sb_file = 2\<rparr>]"
    by code_simp
  then show ?thesis using one_bundle_per_debug_id [OF refl refl, of 1 None example_build] by simp
qed

text \<open>The row of a debug id after the two statements.\<close>

definition takes :: "symbol_bundle \<Rightarrow> symbol_bundle \<Rightarrow> symbol_bundle" where
  "takes b q = q\<lparr>sb_file := sb_file b, sb_sourcemap := sb_sourcemap b, sb_release := sb_release b\<rparr>"

lemma conflict_takes [simp]: "conflict c (takes b q) = conflict c q"
  by (simp add: conflict_def takes_def)

lemma upsert_keeps:
  assumes "q \<in> set tbl"
  shows "(if conflict b q then takes b q else q) \<in> set (upsert_bundle b tbl)"
  using assms by (auto simp: upsert_bundle_def takes_def list_ex_iff)

lemma upserts_keep:
  "q \<in> set tbl \<Longrightarrow> \<exists>q'\<in>set (fold upsert_bundle cs tbl).
     (if list_ex (\<lambda>b. conflict b q) cs then \<exists>b\<in>set cs. conflict b q \<and> q' = takes b q else q' = q)"
proof (induction cs arbitrary: q tbl)
  case (Cons c cs)
  have tt: "takes b (takes c q) = takes b q" for b by (simp add: takes_def)
  let ?q = "if conflict c q then takes c q else q"
  obtain q' where q': "q' \<in> set (fold upsert_bundle cs (upsert_bundle c tbl))"
    and e: "if list_ex (\<lambda>b. conflict b ?q) cs then \<exists>b\<in>set cs. conflict b ?q \<and> q' = takes b ?q else q' = ?q"
    using Cons.IH [OF upsert_keeps [OF Cons.prems, of c]] by blast
  have "if list_ex (\<lambda>b. conflict b q) (c # cs) then \<exists>b\<in>set (c # cs). conflict b q \<and> q' = takes b q else q' = q"
    using e tt by (cases "conflict c q") (auto split: if_splits)
  moreover have "q' \<in> set (fold upsert_bundle (c # cs) tbl)" using q' by simp
  ultimately show ?case by (rule bexI)
qed auto

lemma inserts_keep: "set tbl \<subseteq> set (fold insert_bundle bs tbl)"
proof (induction bs arbitrary: tbl)
  case (Cons b bs)
  show ?case using Cons.IH [of "insert_bundle b tbl"] by (auto simp: insert_bundle_def split: if_splits)
qed simp

lemma delete_keeps:
  "q \<in> set (symbol_bundles d) \<Longrightarrow> set (row_files q) \<inter> set is = {} \<Longrightarrow> q \<in> set (symbol_bundles (delete_files is d))"
  by (force simp: delete_files_def row_files_def image_iff split: option.splits intro!: bexI [of _ q])

definition unshared :: "symbol_bundle list \<Rightarrow> symbol_bundle list \<Rightarrow> symbol_bundle \<Rightarrow> bool" where
  "unshared bs tbl q \<longleftrightarrow> list_ex (\<lambda>b. conflict b q) (complete_bundles bs) \<or> set (row_files q) \<inter> set (orphaned_ids bs tbl) = {}"

text \<open>
  Further property.
  A row of the table that has its source map keeps one: after an upload has been saved it is
  unchanged, or it holds the file and the source map of a complete bundle of the upload with its
  debug id, as long as it shares no file with a row that the upload replaces.
\<close>

theorem complete_bundle_survives:
  assumes "save_bundles bs d = (False, d')" "q \<in> set (symbol_bundles d)" "sb_sourcemap q \<noteq> None" "unshared bs (symbol_bundles d) q"
  shows "\<exists>q'\<in>set (symbol_bundles d'). sb_org q' = sb_org q \<and> sb_debug_id q' = sb_debug_id q \<and> sb_sourcemap q' \<noteq> None \<and>
    (q' = q \<or> (\<exists>b\<in>set bs. conflict b q \<and> sb_sourcemap q' = sb_sourcemap b \<and> sb_file q' = sb_file b))"
proof -
  obtain q' where q': "q' \<in> set (fold upsert_bundle (complete_bundles bs) (symbol_bundles d))"
    and e: "if list_ex (\<lambda>b. conflict b q) (complete_bundles bs) then \<exists>b\<in>set (complete_bundles bs). conflict b q \<and> q' = takes b q else q' = q"
    using upserts_keep [OF assms(2)] by blast
  define e1 where "e1 = put_bundles (fold insert_bundle (incomplete_bundles bs)) (put_bundles (fold upsert_bundle (complete_bundles bs)) d)"
  have d': "d' = delete_files (orphaned_ids bs (symbol_bundles d)) e1"
    using assms(1) by (auto simp: save_bundles_def Let_def e1_def split: if_splits)
  have "q' \<in> set (symbol_bundles e1)"
    using q' inserts_keep [of "fold upsert_bundle (complete_bundles bs) (symbol_bundles d)" "incomplete_bundles bs"]
    by (auto simp: e1_def put_bundles_def)
  moreover have row: "row_files (takes b q) = row_files b" for b by (simp add: row_files_def takes_def)
  have "set (row_files q') \<inter> set (orphaned_ids bs (symbol_bundles d)) = {}"
  proof (cases "list_ex (\<lambda>b. conflict b q) (complete_bundles bs)")
    case True
    then obtain b where b: "b \<in> set (complete_bundles bs)" "q' = takes b q" using e by auto
    then show ?thesis unfolding b(2) row by (auto simp: orphaned_ids_def complete_bundles_def)
  next
    case False
    then show ?thesis using e assms(4) by (simp add: unshared_def)
  qed
  ultimately have "q' \<in> set (symbol_bundles d')" unfolding d' by (rule delete_keeps)
  then show ?thesis
    using e assms(3) by (intro bexI [of _ q']) (auto simp: takes_def complete_bundles_def split: if_splits)
qed

definition example_rows :: file_db where
  "example_rows = empty_files\<lparr>next_file := 6, symbol_bundles :=
     [\<lparr>sb_org = 1, sb_debug_id = Some ''A'', sb_release = None, sb_sourcemap = Some 3, sb_file = 1\<rparr>,
      \<lparr>sb_org = 1, sb_debug_id = Some ''B'', sb_release = None, sb_sourcemap = Some 3, sb_file = 2\<rparr>]\<rparr>"

definition example_partial :: "symbol_bundle list" where
  "example_partial = [\<lparr>sb_org = 1, sb_debug_id = Some ''A'', sb_release = None, sb_sourcemap = None, sb_file = 5\<rparr>]"

theorem complete_bundle_survives_witness:
  "list_ex (\<lambda>q. sb_debug_id q = Some ''A'' \<and> sb_sourcemap q \<noteq> None) (symbol_bundles (snd (save_bundles example_partial example_rows)))"
proof -
  have a: "save_bundles example_partial example_rows = (False, snd (save_bundles example_partial example_rows))" by code_simp
  have q: "\<lparr>sb_org = 1, sb_debug_id = Some ''A'', sb_release = None, sb_sourcemap = Some 3, sb_file = 1\<rparr> \<in> set (symbol_bundles example_rows)"
    by (simp add: example_rows_def)
  have u: "unshared example_partial (symbol_bundles example_rows)
      \<lparr>sb_org = 1, sb_debug_id = Some ''A'', sb_release = None, sb_sourcemap = Some 3, sb_file = 1\<rparr>" by code_simp
  from complete_bundle_survives [OF a q _ u] show ?thesis by (auto simp: list_ex_iff)
qed

text \<open>
  Sources are matched to maps by base name before debug ids, so two sources of one name share the
  first map; replacing the bundle of one then takes the source map of the other away.
\<close>

lemma source_map_matched_by_base_name:
  "map (match_sourcemap [example_file 1 ''index.map'' ''source_map'' [(''debug-id'', ''A'')], example_file 2 ''index.map'' ''source_map'' [(''debug-id'', ''B'')]])
     [example_file 3 ''index.js'' ''minified_source'' [(''debug-id'', ''A''), (''Sourcemap'', ''index.map'')],
      example_file 4 ''index.js'' ''minified_source'' [(''debug-id'', ''B''), (''Sourcemap'', ''index.map'')]] = [Some 1, Some 1]"
  by code_simp

lemma shared_source_map_is_lost:
  "map sb_sourcemap (symbol_bundles (snd (save_bundles
      [\<lparr>sb_org = 1, sb_debug_id = Some ''A'', sb_release = None, sb_sourcemap = Some 5, sb_file = 4\<rparr>] example_rows))) = [Some 5, None]"
  by code_simp

text \<open>A chunk is stored under the name its sender gave it, whatever it holds, and stays there for everyone.\<close>

lemma chunk_name_is_trusted:
  "chunk_upload [(''0123'', ''bad'')] empty_files = Inr d \<Longrightarrow> chunk_content d ''0123'' = ''bad'' \<and>
   chunk_upload [(''0123'', ''good'')] d = Inr d"
  by (auto simp: chunk_upload_def from_files_def get_or_create_blob_def find_blob_def add_blob_def empty_files_def chunk_content_def
      CHUNK_UPLOAD_BLOB_SIZE_def MAX_REQUEST_SIZE_def MAX_CHUNKS_PER_REQUEST_def)

end
