(* ===== verification/Span_Tiers.thy ===== *)
theory Span_Tiers
  imports Performance Partitions "HOL-Library.Multiset"
begin

text \<open>
  The tiers of raw spans: promotion of staged rows to chunk files and their compaction into hour and
  day files with trend rollups, \<open>apps/performance/promotion.py\<close>, and the enumeration of the files that
  a query reads, \<open>enumerate_hour_tiered_files\<close> of \<open>glitchtip/cold_storage.py\<close>.

  The storage of an organization and a date is a tree of files with their rows: the day file, the
  hour files, and the hour directories with their chunks. What can go wrong outside is an argument:
  whether a write, a deletion or a DuckDB statement succeeds, finds no slot or raises. Rows keep
  their fields in a file; the approximate quantiles of DuckDB are an argument.
\<close>

section \<open>Storage\<close>

record 'a tree =
  day_file :: "'a list option"
  hour_files :: "(string, 'a list) dict"
  hour_dirs :: "(string, (string, 'a list) dict) dict"

type_synonym 'a store = "(int \<times> string, 'a tree) dict"

definition empty_tree :: "'a tree" where
  "empty_tree = \<lparr>day_file = None, hour_files = [], hour_dirs = []\<rparr>"

definition tree_at :: "'a store \<Rightarrow> int \<times> string \<Rightarrow> 'a tree" where
  "tree_at s k = (case map_of s k of None \<Rightarrow> empty_tree | Some t \<Rightarrow> t)"

definition chunks_at :: "'a tree \<Rightarrow> string \<Rightarrow> (string, 'a list) dict" where
  "chunks_at t h = (case map_of (hour_dirs t) h of None \<Rightarrow> [] | Some cs \<Rightarrow> cs)"

definition put_chunk :: "string \<Rightarrow> string \<Rightarrow> 'a list \<Rightarrow> 'a tree \<Rightarrow> 'a tree" where
  "put_chunk h name rows t = t\<lparr>hour_dirs := dset (hour_dirs t) h (dset (chunks_at t h) name rows)\<rparr>"

definition remove_chunk :: "string \<Rightarrow> string \<Rightarrow> 'a tree \<Rightarrow> 'a tree" where
  "remove_chunk h name t = t\<lparr>hour_dirs := dset (hour_dirs t) h (AList.delete name (chunks_at t h))\<rparr>"

definition is_parquet :: "string \<Rightarrow> bool" where
  "is_parquet f \<longleftrightarrow> ends_with ''.parquet'' f"

section \<open>Promotion\<close>

abbreviation US_PER_MINUTE :: int where "US_PER_MINUTE \<equiv> 60000000"
abbreviation US_PER_HOUR :: int where "US_PER_HOUR \<equiv> 3600000000"

definition BATCH_LIMIT_PER_ORG :: nat where "BATCH_LIMIT_PER_ORG = 100000"
definition SEAL_GRACE :: int where "SEAL_GRACE = 20 * US_PER_MINUTE"

text \<open>\<open>strftime("%H")\<close>.\<close>

definition hour_text :: "datetime \<Rightarrow> string" where
  "hour_text t = zpad 2 (nat (time_of_day t div US_PER_HOUR))"

text \<open>\<open>strptime(s, "%Y%m%d")\<close> for the names that promotion makes.\<close>

definition strptime_date :: "string \<Rightarrow> int option" where
  "strptime_date s = (if length s = 8 \<and> list_all is_digit s then parse_ymd s else None)"

record promo_env =
  write_ok :: "int \<Rightarrow> string \<times> string \<Rightarrow> bool"
  delete_ok :: "int \<Rightarrow> string \<times> string \<Rightarrow> bool"
  remove_ok :: "int \<Rightarrow> string \<times> string \<Rightarrow> bool"
  drop_ok :: "int \<Rightarrow> bool"
  chunk_ts :: "int \<Rightarrow> string \<times> string \<Rightarrow> string"

record promo_state =
  staging :: "span_row list"
  raw_store :: "span_row store"
  total_promoted :: nat

definition delete_promoted_rows :: "int list \<Rightarrow> int \<Rightarrow> span_row list \<Rightarrow> span_row list" where
  "delete_promoted_rows ids org st = filter (\<lambda>r. \<not> (sr_id r \<in> set ids \<and> sr_org r = org)) st"

definition garbage :: "datetime \<Rightarrow> datetime \<Rightarrow> span_row \<Rightarrow> bool" where
  "garbage min_ts max_ts r \<longleftrightarrow> sr_timestamp r < min_ts \<or> sr_timestamp r > max_ts"

definition hour_key :: "span_row \<Rightarrow> string \<times> string" where
  "hour_key r = (date_suffix (sr_timestamp r), hour_text (sr_timestamp r))"

definition hour_groups :: "span_row list \<Rightarrow> (string \<times> string, span_row list) dict" where
  "hour_groups rows =
     fold (\<lambda>r m. dset m (hour_key r) (case map_of m (hour_key r) of None \<Rightarrow> [r] | Some rs \<Rightarrow> rs @ [r])) rows []"

definition chunk_name :: "string \<Rightarrow> string" where
  "chunk_name ts = ''chunk_'' @ ts @ ''.parquet''"

definition promote_group :: "promo_env \<Rightarrow> int \<Rightarrow> (string \<times> string) \<times> span_row list \<Rightarrow> promo_state \<Rightarrow> promo_state" where
  "promote_group env org g st =
     (let (key, group_rows) = g; (date, hour) = key; name = chunk_name (chunk_ts env org key);
          old = raw_store st in
      if \<not> write_ok env org key then st
      else
        (let written = dset old (org, date) (put_chunk hour name group_rows (tree_at old (org, date))) in
         if delete_ok env org key
         then st\<lparr>raw_store := written, staging := delete_promoted_rows (map sr_id group_rows) org (staging st),
                 total_promoted := total_promoted st + length group_rows\<rparr>
         else if remove_ok env org key
         then st\<lparr>raw_store := dset written (org, date) (remove_chunk hour name (tree_at written (org, date)))\<rparr>
         else st\<lparr>raw_store := written\<rparr>))"

definition org_rows :: "int \<Rightarrow> int \<Rightarrow> span_row list \<Rightarrow> span_row list" where
  "org_rows cutoff_uuid org st = take BATCH_LIMIT_PER_ORG (filter (\<lambda>r. sr_id r < cutoff_uuid \<and> sr_org r = org) st)"

definition drop_garbage :: "promo_env \<Rightarrow> int \<Rightarrow> int list \<Rightarrow> promo_state \<Rightarrow> promo_state" where
  "drop_garbage env org drop_uuids st =
     (if drop_uuids \<noteq> [] \<and> drop_ok env org then st\<lparr>staging := delete_promoted_rows drop_uuids org (staging st)\<rparr> else st)"

definition promote_org ::
    "promo_env \<Rightarrow> int \<Rightarrow> datetime \<Rightarrow> datetime \<Rightarrow> int \<Rightarrow> promo_state \<times> bool \<Rightarrow> promo_state \<times> bool" where
  "promote_org env cutoff_uuid min_ts max_ts org acc =
     (let (st, truncated) = acc; rows = org_rows cutoff_uuid org (staging st) in
      if rows = [] then acc
      else
        (let kept = filter (\<lambda>r. \<not> garbage min_ts max_ts r) rows;
             drop_uuids = map sr_id (filter (garbage min_ts max_ts) rows);
             st1 = fold (promote_group env org) (hour_groups kept) st
         in (drop_garbage env org drop_uuids st1, truncated \<or> BATCH_LIMIT_PER_ORG \<le> length rows)))"

text \<open>The arguments are the random bits of the cutoff id, the instant and the settings of the guard.\<close>

definition promote_spans ::
    "promo_env \<Rightarrow> (datetime \<Rightarrow> int) \<Rightarrow> int \<Rightarrow> int \<Rightarrow> int \<Rightarrow> int \<Rightarrow> datetime \<Rightarrow> promo_state \<Rightarrow> nat \<times> bool \<times> promo_state" where
  "promote_spans env ms r2 r8 retention_days future_skew now st =
     (let cutoff_uuid = from_datetime ms r2 r8 (now - 5 * US_PER_MINUTE);
          min_ts = now - retention_days * US_PER_DAY; max_ts = now + future_skew;
          org_ids = remdups (map sr_org (filter (\<lambda>r. sr_id r < cutoff_uuid) (staging st)));
          (st', truncated) = fold (promote_org env cutoff_uuid min_ts max_ts) org_ids (st\<lparr>total_promoted := 0\<rparr>, False)
      in (total_promoted st', truncated, st'))"

section \<open>Compaction\<close>

datatype outcome = Done | NoSlot | Raised

text \<open>
  A listing of a directory: it succeeds, it fails with one of the errors that the code catches, or it
  raises another exception.
\<close>

datatype listing = Listed | Unlisted | ListRaised

record rollup_row =
  rr_project :: int
  rr_transaction :: string
  rr_op :: string
  rr_description :: string
  rr_count :: nat
  rr_sum :: real
  rr_min :: real
  rr_max :: real
  rr_p50 :: real
  rr_p95 :: real
  rr_transactions :: nat
  rr_hour :: datetime

text \<open>
  What the storage does in one run for one date: its listings (of the date, of the chunks of an hour, of
  the date again when the day is rolled), its statements, the files that cannot be deleted, and whether
  the listings of a deletion raise. A deletion whose listing fails deletes nothing there, which is the
  same as files that cannot be deleted. \<open>exists\<close> answers.
\<close>

record compact_env =
  list_date :: listing
  list_chunks :: "string \<Rightarrow> listing"
  list_roll :: listing
  list_rollup_roll :: listing
  delete_raises :: "string \<Rightarrow> bool"
  delete_date_raises :: bool
  delete_rollup_raises :: bool
  copy_hour :: "string \<Rightarrow> outcome"
  copy_day :: outcome
  copy_rollup_day :: outcome
  write_rollup :: "string \<Rightarrow> outcome"
  stuck_chunk :: "string \<Rightarrow> string \<Rightarrow> bool"
  stuck_hour :: "string \<Rightarrow> bool"
  stuck_rollup :: "string \<Rightarrow> bool"
  approx_quantile :: "real list \<Rightarrow> real \<Rightarrow> real"

definition rollup_key :: "span_row \<Rightarrow> int \<times> string \<times> string \<times> string" where
  "rollup_key r = (sr_project r, sr_transaction r, sr_op r, sr_description r)"

definition rollup_group :: "(real list \<Rightarrow> real \<Rightarrow> real) \<Rightarrow> datetime \<Rightarrow> span_row list \<Rightarrow> int \<times> string \<times> string \<times> string \<Rightarrow> rollup_row" where
  "rollup_group quantile hour_start rows k =
     (let g = filter (\<lambda>r. rollup_key r = k) rows; ds = map sr_duration g; (p, t, op, descr) = k
      in \<lparr>rr_project = p, rr_transaction = t, rr_op = op, rr_description = descr, rr_count = length g, rr_sum = sum_list ds,
          rr_min = fold min (tl ds) (hd ds), rr_max = fold max (tl ds) (hd ds), rr_p50 = quantile ds (1 / 2), rr_p95 = quantile ds (19 / 20),
          rr_transactions = length (remdups (map sr_transaction_id g)), rr_hour = hour_start\<rparr>)"

definition hour_rollup :: "(real list \<Rightarrow> real \<Rightarrow> real) \<Rightarrow> datetime \<Rightarrow> span_row list \<Rightarrow> rollup_row list" where
  "hour_rollup quantile hour_start rows = map (rollup_group quantile hour_start rows) (remdups (map rollup_key rows))"

text \<open>\<open>_write_hour_rollup\<close>: without a slot, and for a file without rows, nothing is written; what raises is logged.\<close>

definition write_hour_rollup ::
    "compact_env \<Rightarrow> string \<Rightarrow> datetime \<Rightarrow> span_row list \<Rightarrow> rollup_row tree \<Rightarrow> rollup_row tree" where
  "write_hour_rollup env hh hour_start rows rt =
     (if write_rollup env hh = Done \<and> rows \<noteq> []
      then rt\<lparr>hour_files := dset (hour_files rt) hh (hour_rollup (approx_quantile env) hour_start rows)\<rparr> else rt)"

definition is_hour_name :: "string \<Rightarrow> bool" where
  "is_hour_name hh \<longleftrightarrow> length hh = 2 \<and> list_all is_digit hh"

definition hour_start_of :: "datetime \<Rightarrow> string \<Rightarrow> datetime" where
  "hour_start_of midnight hh = midnight + int (nat_of_digits hh) * US_PER_HOUR"

definition hour_open :: "datetime \<Rightarrow> datetime \<Rightarrow> string \<Rightarrow> bool" where
  "hour_open now midnight hh \<longleftrightarrow> now \<le> hour_start_of midnight hh + US_PER_HOUR + SEAL_GRACE"

text \<open>\<open>_delete_subtree\<close> of an hour and of a date: files that cannot be deleted stay, empty directories go.\<close>

definition delete_hour_dir :: "(string \<Rightarrow> string \<Rightarrow> bool) \<Rightarrow> string \<Rightarrow> 'a tree \<Rightarrow> 'a tree" where
  "delete_hour_dir stuck hh t =
     (let left = filter (\<lambda>(n, _). stuck hh n) (chunks_at t hh)
      in t\<lparr>hour_dirs := (if left = [] then AList.delete hh (hour_dirs t) else dset (hour_dirs t) hh left)\<rparr>)"

definition delete_date_dir :: "(string \<Rightarrow> string \<Rightarrow> bool) \<Rightarrow> (string \<Rightarrow> bool) \<Rightarrow> 'a tree \<Rightarrow> 'a tree" where
  "delete_date_dir stuckc stuckh t =
     t\<lparr>hour_files := filter (\<lambda>(h, _). stuckh h) (hour_files t),
       hour_dirs := filter (\<lambda>(_, cs). cs \<noteq> []) (map (\<lambda>(h, cs). (h, filter (\<lambda>(n, _). stuckc h n) cs)) (hour_dirs t))\<rparr>"

definition parquet_chunks :: "'a tree \<Rightarrow> string \<Rightarrow> string list" where
  "parquet_chunks t hh = sort (filter is_parquet (map fst (chunks_at t hh)))"

record date_state =
  d_raw :: "span_row tree"
  d_rollup :: "rollup_row tree"
  d_compacted :: nat
  d_raised :: bool

definition recover_rollup :: "compact_env \<Rightarrow> datetime \<Rightarrow> string \<times> span_row list \<Rightarrow> date_state \<Rightarrow> date_state" where
  "recover_rollup env midnight hf st =
     (let (hh, rows) = hf in
      if \<not> is_hour_name hh \<or> map_of (hour_files (d_rollup st)) hh \<noteq> None then st
      else st\<lparr>d_rollup := write_hour_rollup env hh (hour_start_of midnight hh) rows (d_rollup st)\<rparr>)"

definition clear_hour :: "compact_env \<Rightarrow> string \<Rightarrow> date_state \<Rightarrow> date_state" where
  "clear_hour env hh st = st\<lparr>d_raw := delete_hour_dir (stuck_chunk env) hh (d_raw st), d_raised := delete_raises env hh\<rparr>"

definition compact_hour :: "compact_env \<Rightarrow> datetime \<Rightarrow> datetime \<Rightarrow> string \<Rightarrow> date_state \<Rightarrow> date_state" where
  "compact_hour env midnight now hh st =
     (if d_raised st \<or> \<not> is_hour_name hh \<or> hour_open now midnight hh then st
      else if map_of (hour_files (d_raw st)) hh \<noteq> None then clear_hour env hh st
      else (case list_chunks env hh of
              Unlisted \<Rightarrow> st
            | ListRaised \<Rightarrow> st\<lparr>d_raised := True\<rparr>
            | Listed \<Rightarrow>
        (let chunks = parquet_chunks (d_raw st) hh in
         if chunks = [] then clear_hour env hh st
         else (case copy_hour env hh of
                 NoSlot \<Rightarrow> st
               | Raised \<Rightarrow> st\<lparr>d_raised := True\<rparr>
               | Done \<Rightarrow>
                   (let rows = concat (map (\<lambda>c. the (map_of (chunks_at (d_raw st) hh) c)) chunks);
                        raw1 = (d_raw st)\<lparr>hour_files := dset (hour_files (d_raw st)) hh rows\<rparr>;
                        rollup1 = write_hour_rollup env hh (hour_start_of midnight hh) rows (d_rollup st);
                        st1 = clear_hour env hh (st\<lparr>d_raw := raw1, d_rollup := rollup1\<rparr>)
                    in st1\<lparr>d_compacted := d_compacted st1 + length chunks\<rparr>)))))"

text \<open>\<open>_roll_sealed_day\<close>; the flag says that something raised.\<close>

definition roll_sealed_day ::
    "listing \<Rightarrow> outcome \<Rightarrow> bool \<Rightarrow> (string \<Rightarrow> string \<Rightarrow> bool) \<Rightarrow> (string \<Rightarrow> bool) \<Rightarrow> 'a tree \<Rightarrow> bool \<times> 'a tree" where
  "roll_sealed_day listed copied raises stuckc stuckh t =
     (let clear = (\<lambda>t. (raises, delete_date_dir stuckc stuckh t)) in
      if day_file t \<noteq> None then clear t
      else (case listed of
              Unlisted \<Rightarrow> (False, t)
            | ListRaised \<Rightarrow> (True, t)
            | Listed \<Rightarrow>
                if hour_files t = [] then clear t
                else (case copied of
                        NoSlot \<Rightarrow> (False, t)
                      | Raised \<Rightarrow> (True, t)
                      | Done \<Rightarrow>
                          (let hours = sort (map fst (hour_files t))
                           in clear (t\<lparr>day_file := Some (concat (map (\<lambda>h. the (map_of (hour_files t) h)) hours))\<rparr>)))))"

definition compact_org_date ::
    "compact_env \<Rightarrow> datetime \<Rightarrow> datetime \<Rightarrow> span_row tree \<Rightarrow> rollup_row tree \<Rightarrow> date_state" where
  "compact_org_date env midnight now raw rollup =
     (let start = \<lparr>d_raw = raw, d_rollup = rollup, d_compacted = 0, d_raised = False\<rparr>;
          (dirs, sealed) = (if list_date env = Listed then (map fst (hour_dirs raw), hour_files raw) else ([], [])) in
      if list_date env = ListRaised then start\<lparr>d_raised := True\<rparr>
      else
     (let st0 = fold (recover_rollup env midnight) sealed start;
          st1 = fold (compact_hour env midnight now) dirs st0 in
      if d_raised st1 \<or> now \<le> midnight + US_PER_DAY + SEAL_GRACE then st1
      else
        (let (raised, raw') = roll_sealed_day (list_roll env) (copy_day env) (delete_date_raises env) (stuck_chunk env) (stuck_hour env) (d_raw st1) in
         if raised then st1\<lparr>d_raw := raw', d_raised := True\<rparr>
         else
           (let (raised', rollup') = roll_sealed_day (list_rollup_roll env) (copy_rollup_day env) (delete_rollup_raises env)
                  (\<lambda>_ _. False) (stuck_rollup env) (d_rollup st1)
            in st1\<lparr>d_raw := raw', d_rollup := rollup', d_raised := raised'\<rparr>))))"

text \<open>
  \<open>compact_span_chunks\<close>: the directories of dates, each with the faults it meets. A date that raises
  does not count its chunks and does not stop the others. An organization whose dates cannot be listed
  is skipped, and all are when the organizations cannot be; another exception there ends the run
  without a result.
\<close>

record span_store =
  s_raw :: "span_row store"
  s_rollup :: "rollup_row store"

definition has_date_dir :: "'a tree \<Rightarrow> bool" where
  "has_date_dir t \<longleftrightarrow> hour_files t \<noteq> [] \<or> hour_dirs t \<noteq> []"

definition compact_date ::
    "(int \<times> string \<Rightarrow> compact_env) \<Rightarrow> datetime \<Rightarrow> int \<times> string \<Rightarrow> nat \<times> span_store \<Rightarrow> nat \<times> span_store" where
  "compact_date envs now k acc =
     (let (n, s) = acc in
      case strptime_date (snd k) of
        None \<Rightarrow> acc
      | Some day \<Rightarrow>
          (let r = compact_org_date (envs k) (day * US_PER_DAY) now (tree_at (s_raw s) k) (tree_at (s_rollup s) k)
           in (if d_raised r then n else n + d_compacted r,
               s\<lparr>s_raw := dset (s_raw s) k (d_raw r), s_rollup := dset (s_rollup s) k (d_rollup r)\<rparr>)))"

definition listed_date_dirs :: "(int \<Rightarrow> listing) \<Rightarrow> 'a store \<Rightarrow> (int \<times> string) list" where
  "listed_date_dirs list_org s =
     (let keys = map fst (filter (\<lambda>(_, t). has_date_dir t) s);
          orgs = takeWhile (\<lambda>org. list_org org \<noteq> ListRaised) (remdups (map fst keys))
      in concat (map (\<lambda>org. filter (\<lambda>k. fst k = org) keys) (filter (\<lambda>org. list_org org = Listed) orgs)))"

definition compact_span_chunks ::
    "(int \<Rightarrow> listing) \<Rightarrow> (int \<times> string \<Rightarrow> compact_env) \<Rightarrow> datetime \<Rightarrow> span_store \<Rightarrow> nat option \<times> span_store" where
  "compact_span_chunks list_org envs now s =
     (let (n, s') = fold (compact_date envs now) (listed_date_dirs list_org (s_raw s)) (0, s)
      in (if \<exists>(k, t)\<in>set (s_raw s). has_date_dir t \<and> list_org (fst k) = ListRaised then None else Some n, s'))"

lemma distinct_dirs:
  assumes "distinct keys" "distinct orgs"
  shows "distinct (concat (map (\<lambda>org. filter (\<lambda>k. fst k = org) keys) orgs))"
  using assms(2)
proof (induction orgs)
  case (Cons org orgs)
  then show ?case using assms(1) by auto
qed simp

lemma listed_date_dirs:
  assumes "dict_ok s"
  shows "distinct (listed_date_dirs list_org s)"
    and "k \<in> set (listed_date_dirs list_org s) \<Longrightarrow> list_org (fst k) = Listed \<and> (\<exists>t. (k, t) \<in> set s \<and> has_date_dir t)"
proof -
  have "distinct (map fst (filter (\<lambda>(_, t). has_date_dir t) s))" using assms by (simp add: distinct_map_filter)
  then show "distinct (listed_date_dirs list_org s)"
    unfolding listed_date_dirs_def Let_def by (intro distinct_dirs) (auto intro!: distinct_filter distinct_takeWhile)
  show "k \<in> set (listed_date_dirs list_org s) \<Longrightarrow> list_org (fst k) = Listed \<and> (\<exists>t. (k, t) \<in> set s \<and> has_date_dir t)"
    unfolding listed_date_dirs_def Let_def by auto
qed

section \<open>Reading\<close>

text \<open>The files of a date that a query reads: the newest tier wins.\<close>

definition date_in_range :: "string \<Rightarrow> datetime \<Rightarrow> datetime \<Rightarrow> bool" where
  "date_in_range date start_dt end_dt =
     (case strptime_date date of
        None \<Rightarrow> True
      | Some day \<Rightarrow> day * US_PER_DAY < end_dt \<and> day * US_PER_DAY + US_PER_DAY > start_dt)"

datatype tier_path = DayFile string | HourFile string string | ChunkFile string string string

definition date_paths :: "string \<Rightarrow> 'a tree \<Rightarrow> tier_path list" where
  "date_paths d t =
     (let sealed = map fst (hour_files t) in
      map (HourFile d) (sort sealed) @
      concat (map (\<lambda>h. map (ChunkFile d h) (parquet_chunks t h)) (filter (\<lambda>h. h \<notin> set sealed) (sort (map fst (hour_dirs t))))))"

definition org_dates :: "'a store \<Rightarrow> int \<Rightarrow> string list" where
  "org_dates s org = sort (map (snd \<circ> fst) (filter (\<lambda>(k, _). fst k = org) s))"

definition enumerate_hour_tiered_files :: "'a store \<Rightarrow> int \<Rightarrow> (datetime \<times> datetime) option \<Rightarrow> tier_path list" where
  "enumerate_hour_tiered_files s org rng =
     (let in_range = (\<lambda>d. case rng of None \<Rightarrow> True | Some (a, b) \<Rightarrow> date_in_range d a b);
          dates = filter in_range (org_dates s org);
          rolled = filter (\<lambda>d. day_file (tree_at s (org, d)) \<noteq> None) dates in
      map DayFile rolled @
      concat (map (\<lambda>d. date_paths d (tree_at s (org, d)))
                (filter (\<lambda>d. has_date_dir (tree_at s (org, d)) \<and> d \<notin> set rolled) dates)))"

fun read_file :: "'a store \<Rightarrow> int \<Rightarrow> tier_path \<Rightarrow> 'a list" where
  "read_file s org (DayFile d) = (case day_file (tree_at s (org, d)) of None \<Rightarrow> [] | Some rows \<Rightarrow> rows)"
| "read_file s org (HourFile d h) = (case map_of (hour_files (tree_at s (org, d))) h of None \<Rightarrow> [] | Some rows \<Rightarrow> rows)"
| "read_file s org (ChunkFile d h c) = (case map_of (chunks_at (tree_at s (org, d)) h) c of None \<Rightarrow> [] | Some rows \<Rightarrow> rows)"

definition read_spans :: "'a store \<Rightarrow> int \<Rightarrow> (datetime \<times> datetime) option \<Rightarrow> 'a list" where
  "read_spans s org rng = concat (map (read_file s org) (enumerate_hour_tiered_files s org rng))"

section \<open>What a query sees\<close>

text \<open>Files are kept with distinct names, chunks in directories of the hours of a day.\<close>

definition chunks_ok :: "(string, 'a list) dict \<Rightarrow> bool" where
  "chunks_ok cs \<longleftrightarrow> dict_ok cs \<and> list_all (\<lambda>(n, _). is_parquet n) cs"

definition tree_ok :: "'a tree \<Rightarrow> bool" where
  "tree_ok t \<longleftrightarrow> dict_ok (hour_files t) \<and> dict_ok (hour_dirs t) \<and>
     list_all (\<lambda>(h, cs). is_hour_name h \<and> nat_of_digits h < 24 \<and> chunks_ok cs) (hour_dirs t)"

definition content :: "(string, 'a list) dict \<Rightarrow> 'a multiset" where
  "content cs = sum_list (map (mset \<circ> snd) cs)"

definition hour_content :: "'a tree \<Rightarrow> string \<Rightarrow> 'a multiset" where
  "hour_content t h = (case map_of (hour_files t) h of Some rows \<Rightarrow> mset rows | None \<Rightarrow> content (chunks_at t h))"

definition tree_hours :: "'a tree \<Rightarrow> string set" where
  "tree_hours t = fst ` set (hour_files t) \<union> fst ` set (hour_dirs t)"

definition visible :: "'a tree \<Rightarrow> 'a multiset" where
  "visible t = (case day_file t of Some rows \<Rightarrow> mset rows | None \<Rightarrow> \<Sum>h\<in>tree_hours t. hour_content t h)"

lemma content_simps [simp]: "content [] = {#}" "content ((n, rows) # cs) = mset rows + content cs"
  by (simp_all add: content_def)

lemma content_append [simp]: "content (cs @ ds) = content cs + content ds"
  by (simp add: content_def)

lemma content_filter_empty: "content cs = {#} \<Longrightarrow> content (filter P cs) = {#}"
  by (induction cs) auto

lemma chunks_at_none: "h \<notin> fst ` set (hour_dirs t) \<Longrightarrow> chunks_at t h = []"
  by (simp add: chunks_at_def map_of_eq_None_iff [THEN iffD2])

lemma hour_content_outside: "h \<notin> tree_hours t \<Longrightarrow> hour_content t h = {#}"
  by (simp add: hour_content_def tree_hours_def chunks_at_none map_of_eq_None_iff [THEN iffD2])

lemma finite_tree_hours [simp]: "finite (tree_hours t)"
  by (simp add: tree_hours_def)

lemma visible_over:
  assumes "day_file t = None" "finite K" "tree_hours t \<subseteq> K"
  shows "visible t = (\<Sum>h\<in>K. hour_content t h)"
  using assms hour_content_outside by (auto simp: visible_def intro!: sum.mono_neutral_left)

lemma visible_cong:
  assumes "day_file t' = day_file t" "\<And>h. hour_content t' h = hour_content t h"
  shows "visible t' = visible t"
proof (cases "day_file t")
  case None
  let ?K = "tree_hours t \<union> tree_hours t'"
  show ?thesis
    using visible_over [of t ?K] visible_over [of t' ?K] None assms by simp
qed (simp add: visible_def assms(1))

lemma tree_okD:
  assumes "tree_ok t"
  shows "dict_ok (hour_files t)" "dict_ok (hour_dirs t)" "chunks_ok (chunks_at t h)"
    "h \<in> fst ` set (hour_dirs t) \<Longrightarrow> is_hour_name h \<and> nat_of_digits h < 24"
  using assms by (auto simp: tree_ok_def chunks_at_def chunks_ok_def list_all_iff split: option.splits dest: map_of_SomeD)

lemma dict_ok_filter [simp]: "dict_ok d \<Longrightarrow> dict_ok (filter P d)"
  by (auto simp: distinct_map inj_on_def)

lemma chunks_ok_filter: "chunks_ok cs \<Longrightarrow> chunks_ok (filter P cs)"
  by (auto simp: chunks_ok_def list_all_iff)

lemma set_dset: "dict_ok d \<Longrightarrow> set (dset d k v) = insert (k, v) {p \<in> set d. fst p \<noteq> k}"
  by (induction d) (auto simp: image_iff)

lemma chunks_at_mem: "tree_ok t \<Longrightarrow> (h, cs) \<in> set (hour_dirs t) \<Longrightarrow> chunks_at t h = cs"
  by (simp add: chunks_at_def tree_ok_def map_of_is_SomeI)

lemma chunks_at_files [simp]: "chunks_at (t\<lparr>hour_files := x\<rparr>) h = chunks_at t h"
  by (simp add: chunks_at_def)

lemma chunks_at_delete:
  "chunks_at (delete_hour_dir stuck hh t) h = (if h = hh then filter (\<lambda>(n, _). stuck hh n) (chunks_at t hh) else chunks_at t h)"
  by (simp add: delete_hour_dir_def Let_def chunks_at_def delete_conv')

lemma tree_ok_delete_hour: "tree_ok t \<Longrightarrow> is_hour_name hh \<and> nat_of_digits hh < 24 \<Longrightarrow> tree_ok (delete_hour_dir stuck hh t)"
  using tree_okD(3) [of t hh]
  by (auto simp: delete_hour_dir_def Let_def tree_ok_def list_all_iff set_dset chunks_ok_filter distinct_delete AList.delete_eq)

text \<open>Compacting an hour changes nothing that is seen, whatever goes wrong.\<close>

lemma parquet_chunks_ok: "tree_ok t \<Longrightarrow> parquet_chunks t h = sort (map fst (chunks_at t h))"
  using tree_okD(3) [of t h] by (fastforce simp: parquet_chunks_def chunks_ok_def list_all_iff intro!: arg_cong [where f = sort] filter_id_conv [THEN iffD2])

lemma mset_concat_map: "mset (concat (map f xs)) = sum_list (map (mset \<circ> f) xs)"
  by (induction xs) auto

lemma sum_list_sort: "sum_list (map f (sort xs)) = (sum_list (map f xs) :: 'b multiset)"
  by (metis mset_map mset_sort sum_mset_sum_list)

lemma dict_content: "dict_ok d \<Longrightarrow> mset (concat (map (\<lambda>k. the (map_of d k)) (sort (map fst d)))) = content d"
proof -
  assume ok: "dict_ok d"
  have "map (\<lambda>p. mset (the (map_of d (fst p)))) d = map (\<lambda>p. mset (snd p)) d"
    using ok by auto
  then have "(\<Sum>p\<leftarrow>d. mset (the (map_of d (fst p)))) = (\<Sum>p\<leftarrow>d. mset (snd p))" by (rule arg_cong)
  then show ?thesis by (simp add: mset_concat_map comp_def sum_list_sort content_def)
qed

definition seen_as :: "'a tree \<Rightarrow> 'a tree \<Rightarrow> bool" where
  "seen_as t t' \<longleftrightarrow> tree_ok t' \<and> day_file t' = day_file t \<and> (\<forall>h. hour_content t' h = hour_content t h)"

lemma seen_as_trans: "seen_as t t' \<Longrightarrow> seen_as t' t'' \<Longrightarrow> seen_as t t''"
  by (auto simp: seen_as_def)

lemma hour_files_delete [simp]: "hour_files (delete_hour_dir stuck hh t) = hour_files t" "day_file (delete_hour_dir stuck hh t) = day_file t"
  by (simp_all add: delete_hour_dir_def Let_def)

lemma delete_sealed: "tree_ok t \<Longrightarrow> is_hour_name hh \<and> nat_of_digits hh < 24 \<Longrightarrow> map_of (hour_files t) hh \<noteq> None \<Longrightarrow> seen_as t (delete_hour_dir stuck hh t)"
  by (auto simp: seen_as_def tree_ok_delete_hour hour_content_def chunks_at_delete split: option.splits)

lemma delete_empty: "tree_ok t \<Longrightarrow> is_hour_name hh \<and> nat_of_digits hh < 24 \<Longrightarrow> chunks_at t hh = [] \<Longrightarrow> seen_as t (delete_hour_dir stuck hh t)"
  by (auto simp: seen_as_def tree_ok_delete_hour hour_content_def chunks_at_delete split: option.splits)

lemma seal_hour:
  assumes "tree_ok t" "map_of (hour_files t) hh = None"
    and "rows = concat (map (\<lambda>c. the (map_of (chunks_at t hh) c)) (parquet_chunks t hh))"
  shows "seen_as t (t\<lparr>hour_files := dset (hour_files t) hh rows\<rparr>)"
proof -
  have "mset rows = content (chunks_at t hh)"
    using assms(1,3) tree_okD(3) [of t hh] by (simp add: parquet_chunks_ok dict_content chunks_ok_def)
  then show ?thesis
    using assms(1,2) by (auto simp: seen_as_def hour_content_def chunks_at_def tree_ok_def split: option.splits)
qed

lemma compact_hour_seen:
  assumes "tree_ok (d_raw st)" "is_hour_name hh \<longrightarrow> nat_of_digits hh < 24"
  shows "seen_as (d_raw st) (d_raw (compact_hour env midnight now hh st))"
proof (cases "d_raised st \<or> \<not> is_hour_name hh \<or> hour_open now midnight hh \<or>
    (map_of (hour_files (d_raw st)) hh = None \<and>
     (list_chunks env hh \<noteq> Listed \<or> parquet_chunks (d_raw st) hh \<noteq> [] \<and> copy_hour env hh \<noteq> Done))")
  case True
  then have "d_raw (compact_hour env midnight now hh st) = d_raw st"
    by (auto simp: compact_hour_def Let_def split: outcome.splits listing.splits)
  then show ?thesis using assms(1) by (simp add: seen_as_def)
next
  case False
  then have hh: "is_hour_name hh \<and> nat_of_digits hh < 24" using assms(2) by blast
  consider "map_of (hour_files (d_raw st)) hh \<noteq> None"
    | "map_of (hour_files (d_raw st)) hh = None" "list_chunks env hh = Listed" "parquet_chunks (d_raw st) hh = []"
    | "map_of (hour_files (d_raw st)) hh = None" "list_chunks env hh = Listed" "parquet_chunks (d_raw st) hh \<noteq> []" "copy_hour env hh = Done"
    using False by argo
  then show ?thesis
  proof cases
    case 1
    then show ?thesis using False delete_sealed [OF assms(1) hh] by (simp add: compact_hour_def clear_hour_def)
  next
    case 2
    then have "chunks_at (d_raw st) hh = []"
      using parquet_chunks_ok [OF assms(1)] by (metis length_0_conv length_map length_sort)
    then show ?thesis using 2 False delete_empty [OF assms(1) hh] by (simp add: compact_hour_def clear_hour_def Let_def)
  next
    case 3
    define rows where "rows = concat (map (\<lambda>c. the (map_of (chunks_at (d_raw st) hh) c)) (parquet_chunks (d_raw st) hh))"
    let ?r = "(d_raw st)\<lparr>hour_files := dset (hour_files (d_raw st)) hh rows\<rparr>"
    have s: "seen_as (d_raw st) ?r" using seal_hour [OF assms(1) 3(1)] by (simp add: rows_def)
    then have "seen_as ?r (delete_hour_dir (stuck_chunk env) hh ?r)"
      using delete_sealed [OF _ hh, of ?r] by (simp add: seen_as_def)
    with s show ?thesis using 3 False seen_as_trans by (auto simp: compact_hour_def clear_hour_def Let_def rows_def)
  qed
qed

text \<open>
  After the loop over the hours, an hour that was due, was listed and found its slot is sealed, unless it
  had no rows.
\<close>

definition settled :: "'a tree \<Rightarrow> string \<Rightarrow> bool" where
  "settled t h \<longleftrightarrow> map_of (hour_files t) h \<noteq> None \<or> chunks_at t h = []"

lemma compact_hour_settles:
  assumes "tree_ok (d_raw st)" "\<not> d_raised (compact_hour env midnight now hh st)" "is_hour_name hh" "\<not> hour_open now midnight hh"
    "list_chunks env hh \<noteq> Unlisted" "copy_hour env hh \<noteq> NoSlot"
  shows "settled (d_raw (compact_hour env midnight now hh st)) hh"
proof -
  have e: "parquet_chunks (d_raw st) hh = [] \<Longrightarrow> chunks_at (d_raw st) hh = []"
    using parquet_chunks_ok [OF assms(1), of hh] by (metis length_0_conv length_map length_sort)
  have nr: "\<not> d_raised st" using assms(2) by (auto simp: compact_hour_def)
  then show ?thesis
    using assms e by (auto simp: compact_hour_def clear_hour_def settled_def Let_def chunks_at_delete split: outcome.splits listing.splits if_splits)
qed

lemma compact_hour_keeps_settled:
  assumes "settled (d_raw st) h"
  shows "settled (d_raw (compact_hour env midnight now hh st)) h"
  using assms by (auto simp: compact_hour_def clear_hour_def settled_def Let_def chunks_at_delete split: outcome.splits listing.splits if_splits)

lemma compact_hour_raised: "d_raised st \<Longrightarrow> compact_hour env midnight now hh st = st"
  by (simp add: compact_hour_def)

lemma compact_hours_raised: "d_raised st \<Longrightarrow> fold (compact_hour env midnight now) hs st = st"
  by (induction hs) (simp_all add: compact_hour_raised)

abbreviation run_hours :: "compact_env \<Rightarrow> datetime \<Rightarrow> datetime \<Rightarrow> string list \<Rightarrow> date_state \<Rightarrow> date_state" where
  "run_hours env midnight now \<equiv> fold (compact_hour env midnight now)"

lemma compact_hours_seen:
  "tree_ok (d_raw st) \<Longrightarrow> \<forall>h\<in>set hs. is_hour_name h \<and> nat_of_digits h < 24 \<Longrightarrow>
   seen_as (d_raw st) (d_raw (run_hours env midnight now hs st))"
proof (induction hs arbitrary: st)
  case (Cons hh hs)
  let ?s = "compact_hour env midnight now hh st"
  have s: "seen_as (d_raw st) (d_raw ?s)" using Cons.prems by (intro compact_hour_seen) auto
  then have "seen_as (d_raw ?s) (d_raw (run_hours env midnight now hs ?s))"
    using Cons.prems by (intro Cons.IH) (auto simp: seen_as_def)
  with s show ?case using seen_as_trans by auto
qed (simp add: seen_as_def)

lemma compact_hours_settle:
  "tree_ok (d_raw st) \<Longrightarrow> \<forall>h\<in>set hs. is_hour_name h \<and> nat_of_digits h < 24 \<Longrightarrow>
   \<not> d_raised (run_hours env midnight now hs st) \<Longrightarrow>
   settled (d_raw st) h \<or> h \<in> set hs \<and> \<not> hour_open now midnight h \<and> list_chunks env h \<noteq> Unlisted \<and> copy_hour env h \<noteq> NoSlot \<Longrightarrow>
   settled (d_raw (run_hours env midnight now hs st)) h"
proof (induction hs arbitrary: st)
  case (Cons hh hs)
  let ?s = "compact_hour env midnight now hh st"
  have s: "seen_as (d_raw st) (d_raw ?s)" using Cons.prems by (intro compact_hour_seen) auto
  have nr: "\<not> d_raised ?s" using Cons.prems(3) compact_hours_raised by auto
  have "settled (d_raw ?s) h \<or> h \<in> set hs \<and> \<not> hour_open now midnight h \<and> list_chunks env h \<noteq> Unlisted \<and> copy_hour env h \<noteq> NoSlot"
    using Cons.prems nr compact_hour_keeps_settled [of st h] compact_hour_settles [OF Cons.prems(1) nr] by auto
  then have "settled (d_raw (run_hours env midnight now hs ?s)) h"
    using Cons.prems s by (intro Cons.IH) (auto simp: seen_as_def)
  then show ?case by simp
qed simp

lemma settled_content: "settled t h \<Longrightarrow> hour_content t h = (case map_of (hour_files t) h of Some rows \<Rightarrow> mset rows | None \<Rightarrow> {#})"
  by (auto simp: settled_def hour_content_def split: option.splits)

lemma content_over: "dict_ok d \<Longrightarrow> content d = (\<Sum>k\<in>fst ` set d. mset (the (map_of d k)))"
proof -
  assume ok: "dict_ok d"
  then have "content d = (\<Sum>p\<in>set d. mset (snd p))"
    by (simp add: content_def comp_def sum_list_distinct_conv_sum_set distinct_map)
  also have "\<dots> = (\<Sum>p\<in>set d. mset (the (map_of d (fst p))))"
    using ok by (intro sum.cong) auto
  also have "\<dots> = (\<Sum>k\<in>fst ` set d. mset (the (map_of d k)))"
    using ok by (simp add: sum.reindex distinct_map)
  finally show ?thesis .
qed

lemma tree_ok_delete_date: "tree_ok t \<Longrightarrow> tree_ok (delete_date_dir stuckc stuckh t)"
proof -
  assume t: "tree_ok t"
  have "map fst (map (\<lambda>(h, cs). (h, filter (\<lambda>(n, _). stuckc h n) cs)) (hour_dirs t)) = map fst (hour_dirs t)"
    by (simp add: split_beta comp_def)
  with t have "dict_ok (map (\<lambda>(h, cs). (h, filter (\<lambda>(n, _). stuckc h n) cs)) (hour_dirs t))" by (simp only: tree_ok_def)
  then show ?thesis
    using t by (auto simp: tree_ok_def delete_date_dir_def list_all_iff intro!: chunks_ok_filter)
qed

lemma roll_sealed_day_seen:
  assumes "tree_ok t" "roll_sealed_day listed copied raises stuckc stuckh t = (raised, t')" "\<And>h. settled t h"
  shows "tree_ok t' \<and> visible t' = visible t"
proof -
  have v: "day_file t = None \<Longrightarrow> visible t = content (hour_files t)"
  proof -
    assume d: "day_file t = None"
    have "visible t = (\<Sum>h\<in>fst ` set (hour_files t). mset (the (map_of (hour_files t) h)))"
      unfolding visible_def d option.case tree_hours_def
      by (rule sum.mono_neutral_cong_right)
        (fastforce simp: settled_content [OF assms(3)] map_of_eq_None_iff image_iff split: option.splits dest!: map_of_SomeD)+
    then show ?thesis using assms(1) by (simp add: content_over tree_ok_def)
  qed
  have e: "visible (delete_date_dir stuckc stuckh t) = {#}" if "day_file t = None" "hour_files t = []"
  proof -
    have "chunks_at t h = []" for h using assms(3) [of h] that(2) by (simp add: settled_def)
    then have "cs = []" if "(h, cs) \<in> set (hour_dirs t)" for h cs
      using chunks_at_mem [OF assms(1) that] by simp
    then have "hour_dirs (delete_date_dir stuckc stuckh t) = []"
      by (fastforce simp: delete_date_dir_def filter_empty_conv)
    then show ?thesis using that by (simp add: visible_def tree_hours_def delete_date_dir_def)
  qed
  show ?thesis
  proof (cases "day_file t")
    case None
    have d: "tree_ok (t\<lparr>day_file := x\<rparr>)" for x using assms(1) by (simp add: tree_ok_def)
    show ?thesis
    proof (cases "hour_files t = [] \<or> listed \<noteq> Listed \<or> copied \<noteq> Done")
      case True
      then show ?thesis
        using None assms(1,2) v e tree_ok_delete_date [OF assms(1)]
        by (cases "hour_files t = []") (auto simp: roll_sealed_day_def split: outcome.splits listing.splits)
    next
      case False
      then have "t' = delete_date_dir stuckc stuckh (t\<lparr>day_file := Some (concat (map (\<lambda>h. the (map_of (hour_files t) h)) (sort (map fst (hour_files t)))))\<rparr>)"
        using assms(2) None by (simp add: roll_sealed_day_def Let_def)
      moreover have "dict_ok (hour_files t)" using assms(1) by (simp add: tree_ok_def)
      ultimately show ?thesis
        using v [OF None] dict_content [of "hour_files t"] tree_ok_delete_date [OF d] by (simp add: visible_def delete_date_dir_def)
    qed
  next
    case (Some rows)
    then have "t' = delete_date_dir stuckc stuckh t" using assms(2) by (simp add: roll_sealed_day_def)
    then show ?thesis using Some assms(1) tree_ok_delete_date by (simp add: visible_def delete_date_dir_def)
  qed
qed

lemma recover_rollup_raw: "d_raw (fold (recover_rollup env midnight) hfs st) = d_raw st"
  "d_raised (fold (recover_rollup env midnight) hfs st) = d_raised st"
  by (induction hfs arbitrary: st) (auto simp: recover_rollup_def Let_def split: prod.splits)

lemma hour_due: "now > midnight + US_PER_DAY + SEAL_GRACE \<Longrightarrow> nat_of_digits h < 24 \<Longrightarrow> \<not> hour_open now midnight h"
  by (simp add: hour_open_def hour_start_of_def)

text \<open>
  What keeps the spans of a date that is over: that each hour that is not sealed is, which takes the
  listing of the date, the listing of its chunks and a slot. Statements and listings that raise end the
  date, and harm nothing.
\<close>

definition seals_all :: "compact_env \<Rightarrow> 'a tree \<Rightarrow> bool" where
  "seals_all env t \<longleftrightarrow> hour_dirs t = [] \<or> list_date env = ListRaised \<or>
     list_date env = Listed \<and> list_all (\<lambda>(h, _). list_chunks env h \<noteq> Unlisted \<and> copy_hour env h \<noteq> NoSlot) (hour_dirs t)"

lemma compact_org_date_seen:
  assumes "tree_ok raw" "now > midnight + US_PER_DAY + SEAL_GRACE \<Longrightarrow> seals_all env raw"
  shows "tree_ok (d_raw (compact_org_date env midnight now raw rollup)) \<and>
    visible (d_raw (compact_org_date env midnight now raw rollup)) = visible raw"
proof (cases "list_date env = ListRaised")
  case True
  then show ?thesis using assms(1) by (simp add: compact_org_date_def)
next
  case nr: False
  define dirs where "dirs = (if list_date env = Listed then map fst (hour_dirs raw) else [])"
  define sealed where "sealed = (if list_date env = Listed then hour_files raw else [])"
  define st0 where "st0 = fold (recover_rollup env midnight) sealed \<lparr>d_raw = raw, d_rollup = rollup, d_compacted = 0, d_raised = False\<rparr>"
  define st1 where "st1 = run_hours env midnight now dirs st0"
  have pair: "(if list_date env = Listed then (map fst (hour_dirs raw), hour_files raw) else ([], [])) = (dirs, sealed)"
    by (simp add: dirs_def sealed_def)
  have e: "compact_org_date env midnight now raw rollup =
     (if d_raised st1 \<or> now \<le> midnight + US_PER_DAY + SEAL_GRACE then st1
      else
        (let (raised, raw') = roll_sealed_day (list_roll env) (copy_day env) (delete_date_raises env) (stuck_chunk env) (stuck_hour env) (d_raw st1) in
         if raised then st1\<lparr>d_raw := raw', d_raised := True\<rparr>
         else
           (let (raised', rollup') = roll_sealed_day (list_rollup_roll env) (copy_rollup_day env) (delete_rollup_raises env)
                  (\<lambda>_ _. False) (stuck_rollup env) (d_rollup st1)
            in st1\<lparr>d_raw := raw', d_rollup := rollup', d_raised := raised'\<rparr>)))"
    unfolding compact_org_date_def Let_def pair case_prod_conv st1_def st0_def by (simp only: nr if_False)
  have r0: "d_raw st0 = raw" by (simp add: st0_def recover_rollup_raw)
  have names: "\<forall>h\<in>set dirs. is_hour_name h \<and> nat_of_digits h < 24"
    using tree_okD(4) [OF assms(1)] by (auto simp: dirs_def)
  have s1: "seen_as raw (d_raw st1)"
    using compact_hours_seen [of st0 dirs] names assms(1) by (simp add: r0 st1_def)
  then have v1: "tree_ok (d_raw st1)" "visible (d_raw st1) = visible raw"
    by (auto simp: seen_as_def intro: visible_cong)
  show ?thesis
  proof (cases "d_raised st1 \<or> now \<le> midnight + US_PER_DAY + SEAL_GRACE")
    case True
    then show ?thesis using v1 by (simp add: e)
  next
    case False
    then have all: "seals_all env raw" using assms(2) by simp
    have "settled (d_raw st0) h \<or> h \<in> set dirs \<and> \<not> hour_open now midnight h \<and> list_chunks env h \<noteq> Unlisted \<and> copy_hour env h \<noteq> NoSlot" for h
    proof (cases "h \<in> fst ` set (hour_dirs raw)")
      case True
      then have "list_date env = Listed" "list_chunks env h \<noteq> Unlisted" "copy_hour env h \<noteq> NoSlot"
        using all nr by (auto simp: seals_all_def list_all_iff)
      moreover from this have "h \<in> set dirs" using True by (simp add: dirs_def)
      ultimately show ?thesis using names hour_due [of midnight now h] False by auto
    next
      case False
      then show ?thesis using chunks_at_none [of h raw] by (simp add: r0 settled_def)
    qed
    then have set: "settled (d_raw st1) h" for h
      unfolding st1_def using False names assms(1) by (intro compact_hours_settle) (auto simp: r0 st1_def)
    obtain raised raw' where r: "roll_sealed_day (list_roll env) (copy_day env) (delete_date_raises env) (stuck_chunk env) (stuck_hour env) (d_raw st1) = (raised, raw')"
      by (meson surj_pair)
    have "d_raw (compact_org_date env midnight now raw rollup) = raw'"
      using False by (auto simp: e Let_def r split: prod.splits)
    then show ?thesis using roll_sealed_day_seen [OF v1(1) r set] v1 by simp
  qed
qed

section \<open>Compaction is invisible\<close>

definition store_ok :: "'a store \<Rightarrow> bool" where
  "store_ok s \<longleftrightarrow> dict_ok s \<and> list_all (\<lambda>(_, t). tree_ok t) s"

lemma tree_ok_empty [simp]: "tree_ok empty_tree"
  by (simp add: tree_ok_def empty_tree_def)

lemma store_ok_at: "store_ok s \<Longrightarrow> tree_ok (tree_at s k)"
  by (auto simp: store_ok_def tree_at_def list_all_iff split: option.splits dest: map_of_SomeD)

lemma mset_concat_sort: "distinct xs \<Longrightarrow> mset (concat (map f (sort xs))) = (\<Sum>x\<in>set xs. mset (f x))"
  by (simp add: mset_concat_map sum_list_sort sum_list_distinct_conv_sum_set comp_def)

lemma mset_concat_set: "distinct xs \<Longrightarrow> mset (concat (map f xs)) = (\<Sum>x\<in>set xs. mset (f x))"
  by (simp add: mset_concat_map sum_list_distinct_conv_sum_set comp_def)

lemma read_chunks:
  assumes "tree_ok t" "t = tree_at s (org, d)"
  shows "mset (concat (map (read_file s org) (map (ChunkFile d h) (parquet_chunks t h)))) = content (chunks_at t h)"
proof -
  have ok: "dict_ok (chunks_at t h)" using tree_okD(3) [OF assms(1), of h] by (simp add: chunks_ok_def)
  have "read_file s org (ChunkFile d h c) = the (map_of (chunks_at t h) c)" if "c \<in> set (parquet_chunks t h)" for c
  proof -
    from that have "c \<in> fst ` set (chunks_at t h)" by (auto simp: parquet_chunks_def)
    then obtain rows where "map_of (chunks_at t h) c = Some rows" by (metis map_of_eq_None_iff option.exhaust)
    then show ?thesis using assms(2) by simp
  qed
  then have "map (read_file s org) (map (ChunkFile d h) (parquet_chunks t h)) = map (\<lambda>c. the (map_of (chunks_at t h) c)) (parquet_chunks t h)"
    by simp
  then show ?thesis using dict_content [OF ok] by (simp only: parquet_chunks_ok [OF assms(1)])
qed

lemma read_date:
  assumes ok: "tree_ok t" and t: "t = tree_at s (org, d)" and nd: "day_file t = None"
  shows "mset (concat (map (read_file s org) (date_paths d t))) = visible t"
proof -
  let ?S = "fst ` set (hour_files t)" and ?D = "fst ` set (hour_dirs t)"
  have dist: "distinct (map fst (hour_files t))" "distinct (map fst (hour_dirs t))" using ok by (auto simp: tree_ok_def)
  have "mset (concat (map (read_file s org) (map (HourFile d) (sort (map fst (hour_files t)))))) = (\<Sum>h\<in>?S. hour_content t h)"
  proof -
    have "mset (read_file s org (HourFile d h)) = hour_content t h" if "h \<in> ?S" for h
      using that t by (auto simp: hour_content_def split: option.splits dest: weak_map_of_SomeI)
    then show ?thesis
      using mset_concat_sort [OF dist(1), of "\<lambda>h. read_file s org (HourFile d h)"] by (simp add: comp_def)
  qed
  moreover have "mset (concat (map (read_file s org) (concat (map (\<lambda>h. map (ChunkFile d h) (parquet_chunks t h))
      (filter (\<lambda>h. h \<notin> ?S) (sort (map fst (hour_dirs t)))))))) = (\<Sum>h\<in>?D - ?S. hour_content t h)"
  proof -
    have "mset (concat (map (read_file s org) (concat (map (\<lambda>h. map (ChunkFile d h) (parquet_chunks t h)) hs)))) =
        sum_list (map (\<lambda>h. content (chunks_at t h)) hs)" for hs
      by (induction hs) (simp_all add: read_chunks [OF ok t] del: map_map)
    moreover have "distinct (filter (\<lambda>h. h \<notin> ?S) (sort (map fst (hour_dirs t))))" using dist(2) by simp
    moreover have "set (filter (\<lambda>h. h \<notin> ?S) (sort (map fst (hour_dirs t)))) = ?D - ?S" by auto
    moreover have "h \<in> ?D - ?S \<Longrightarrow> content (chunks_at t h) = hour_content t h" for h
      by (auto simp: hour_content_def map_of_eq_None_iff [THEN iffD2])
    ultimately show ?thesis by (simp add: sum_list_distinct_conv_sum_set)
  qed
  moreover have "visible t = (\<Sum>h\<in>?S. hour_content t h) + (\<Sum>h\<in>?D - ?S. hour_content t h)"
    unfolding visible_def nd option.case tree_hours_def
    by (subst sum.union_disjoint [symmetric]) (auto intro: sum.cong)
  ultimately show ?thesis by (simp add: date_paths_def Let_def)
qed

definition dates_in :: "'a store \<Rightarrow> int \<Rightarrow> (datetime \<times> datetime) option \<Rightarrow> string set" where
  "dates_in s org rng = {d. (org, d) \<in> fst ` set s \<and> (case rng of None \<Rightarrow> True | Some (a, b) \<Rightarrow> date_in_range d a b)}"

lemma finite_dates [simp]: "finite (dates_in s org rng)"
proof -
  have "dates_in s org rng \<subseteq> snd ` fst ` set s" by (force simp: dates_in_def)
  then show ?thesis by (rule finite_subset) simp
qed

lemma org_dates: "dict_ok s \<Longrightarrow> distinct (org_dates s org)" "set (org_dates s org) = {d. (org, d) \<in> fst ` set s}"
proof -
  have "map (snd \<circ> fst) (filter (\<lambda>(k, _). fst k = org) s) = map snd (filter (\<lambda>k. fst k = org) (map fst s))"
    by (induction s) auto
  moreover assume "dict_ok s"
  then have "distinct (map snd (filter (\<lambda>k. fst k = org) (map fst s)))"
    by (auto simp: distinct_map inj_on_def)
  ultimately show "distinct (org_dates s org)" by (simp add: org_dates_def)
qed (force simp: org_dates_def)

lemma no_date_dir: "\<not> has_date_dir t \<Longrightarrow> day_file t = None \<Longrightarrow> visible t = {#}"
  by (simp add: has_date_dir_def visible_def tree_hours_def)

lemma read_spans_visible:
  assumes "store_ok s"
  shows "mset (read_spans s org rng) = (\<Sum>d\<in>dates_in s org rng. visible (tree_at s (org, d)))"
proof -
  define dates where "dates = filter (\<lambda>d. case rng of None \<Rightarrow> True | Some (a, b) \<Rightarrow> date_in_range d a b) (org_dates s org)"
  define rolled where "rolled = filter (\<lambda>d. day_file (tree_at s (org, d)) \<noteq> None) dates"
  define rest where "rest = filter (\<lambda>d. has_date_dir (tree_at s (org, d)) \<and> d \<notin> set rolled) dates"
  have dist: "distinct rolled" "distinct rest" and D: "set dates = dates_in s org rng"
    using org_dates [of s org] assms by (auto simp: rolled_def rest_def dates_def store_ok_def dates_in_def)
  have e: "enumerate_hour_tiered_files s org rng = map DayFile rolled @ concat (map (\<lambda>d. date_paths d (tree_at s (org, d))) rest)"
    by (simp only: enumerate_hour_tiered_files_def Let_def dates_def rolled_def rest_def)
  have "mset (read_file s org (DayFile d)) = visible (tree_at s (org, d))" if "d \<in> set rolled" for d
    using that by (auto simp: rolled_def visible_def)
  then have a: "mset (concat (map (read_file s org) (map DayFile rolled))) = (\<Sum>d\<in>set rolled. visible (tree_at s (org, d)))"
    using mset_concat_set [OF dist(1), of "\<lambda>d. read_file s org (DayFile d)"] by (simp add: comp_def)
  have "mset (concat (map (read_file s org) (date_paths d (tree_at s (org, d))))) = visible (tree_at s (org, d))" if "d \<in> set rest" for d
    using that by (intro read_date [OF store_ok_at [OF assms] refl]) (auto simp: rest_def rolled_def)
  then have "sum_list (map (\<lambda>d. mset (concat (map (read_file s org) (date_paths d (tree_at s (org, d)))))) rest) = (\<Sum>d\<in>set rest. visible (tree_at s (org, d)))"
    using dist(2) by (simp add: sum_list_distinct_conv_sum_set)
  moreover have "mset (concat (map (read_file s org) (concat (map f ds)))) = sum_list (map (\<lambda>d. mset (concat (map (read_file s org) (f d)))) ds)" for f and ds :: "string list"
    by (induction ds) auto
  ultimately have b: "mset (concat (map (read_file s org) (concat (map (\<lambda>d. date_paths d (tree_at s (org, d))) rest)))) = (\<Sum>d\<in>set rest. visible (tree_at s (org, d)))"
    by simp
  have "(\<Sum>d\<in>set dates. visible (tree_at s (org, d))) = (\<Sum>d\<in>set rolled \<union> set rest. visible (tree_at s (org, d)))"
    by (rule sum.mono_neutral_right) (auto simp: rolled_def rest_def intro: no_date_dir)
  also have "\<dots> = (\<Sum>d\<in>set rolled. visible (tree_at s (org, d))) + (\<Sum>d\<in>set rest. visible (tree_at s (org, d)))"
    by (rule sum.union_disjoint) (auto simp: rest_def)
  finally show ?thesis unfolding read_spans_def e D using a b by simp
qed

lemma tree_at_dset: "tree_at (dset s k t) k' = (if k' = k then t else tree_at s k')"
  by (simp add: tree_at_def)

text \<open>A run of compaction in which every date past its end seals all hours it still has to seal.\<close>

definition sealing_run :: "(int \<Rightarrow> listing) \<Rightarrow> (int \<times> string \<Rightarrow> compact_env) \<Rightarrow> datetime \<Rightarrow> span_row store \<Rightarrow> bool" where
  "sealing_run list_org envs now s \<longleftrightarrow>
     list_all (\<lambda>(k, t). case strptime_date (snd k) of
        None \<Rightarrow> True
      | Some day \<Rightarrow> now \<le> day * US_PER_DAY + US_PER_DAY + SEAL_GRACE \<or> list_org (fst k) \<noteq> Listed \<or> seals_all (envs k) t) s"

definition same_view :: "'a store \<Rightarrow> 'a store \<Rightarrow> bool" where
  "same_view s s' \<longleftrightarrow> store_ok s' \<and> fst ` set s' = fst ` set s \<and> (\<forall>k. visible (tree_at s' k) = visible (tree_at s k))"

lemma same_view_read: "store_ok s \<Longrightarrow> same_view s s' \<Longrightarrow> mset (read_spans s' org rng) = mset (read_spans s org rng)"
  by (simp add: read_spans_visible same_view_def dates_in_def)

lemma compact_date_view:
  assumes "store_ok (s_raw s)" "k \<in> fst ` set (s_raw s)"
    and "\<And>day. strptime_date (snd k) = Some day \<Longrightarrow> now > day * US_PER_DAY + US_PER_DAY + SEAL_GRACE \<Longrightarrow>
      seals_all (envs k) (tree_at (s_raw s) k)"
  shows "same_view (s_raw s) (s_raw (snd (compact_date envs now k (n, s)))) \<and>
    (\<forall>k'. k' \<noteq> k \<longrightarrow> tree_at (s_raw (snd (compact_date envs now k (n, s)))) k' = tree_at (s_raw s) k')"
proof (cases "strptime_date (snd k)")
  case None
  then show ?thesis using assms(1) by (simp add: compact_date_def same_view_def)
next
  case (Some day)
  define r where "r = compact_org_date (envs k) (day * US_PER_DAY) now (tree_at (s_raw s) k) (tree_at (s_rollup s) k)"
  have r: "tree_ok (d_raw r) \<and> visible (d_raw r) = visible (tree_at (s_raw s) k)"
    unfolding r_def using assms(3) [OF Some] by (intro compact_org_date_seen store_ok_at [OF assms(1)])
  have e: "s_raw (snd (compact_date envs now k (n, s))) = dset (s_raw s) k (d_raw r)"
    by (simp add: compact_date_def Some r_def Let_def)
  have "fst ` set (dset (s_raw s) k (d_raw r)) = fst ` set (s_raw s)"
    using assms(2) by (metis dset_keys list.set_map)
  moreover have "store_ok (dset (s_raw s) k (d_raw r))"
    using assms(1) r by (auto simp: store_ok_def set_dset list_all_iff)
  ultimately show ?thesis unfolding e same_view_def using r by (simp add: tree_at_dset)
qed

lemma compact_dates_view:
  assumes "distinct ks" "store_ok (s_raw s)" "set ks \<subseteq> fst ` set (s_raw s)"
    and "\<And>k day. k \<in> set ks \<Longrightarrow> strptime_date (snd k) = Some day \<Longrightarrow> now > day * US_PER_DAY + US_PER_DAY + SEAL_GRACE \<Longrightarrow>
      seals_all (envs k) (tree_at (s_raw s) k)"
  shows "same_view (s_raw s) (s_raw (snd (fold (compact_date envs now) ks (n, s))))"
  using assms
proof (induction ks arbitrary: n s)
  case Nil
  then show ?case by (simp add: same_view_def)
next
  case (Cons k ks)
  obtain n1 s1 where s1: "compact_date envs now k (n, s) = (n1, s1)" by (meson surj_pair)
  have v: "same_view (s_raw s) (s_raw s1)" and o: "\<And>k'. k' \<noteq> k \<Longrightarrow> tree_at (s_raw s1) k' = tree_at (s_raw s) k'"
    using compact_date_view [of s k now envs n] Cons.prems by (auto simp: s1)
  have "same_view (s_raw s1) (s_raw (snd (fold (compact_date envs now) ks (n1, s1))))"
  proof (rule Cons.IH)
    show "seals_all (envs k') (tree_at (s_raw s1) k')"
      if "k' \<in> set ks" "strptime_date (snd k') = Some day" "now > day * US_PER_DAY + US_PER_DAY + SEAL_GRACE" for k' day
    proof -
      have "k' \<noteq> k" using that(1) Cons.prems(1) by auto
      from o [OF this] show ?thesis using Cons.prems(4) [of k' day] that by simp
    qed
  qed (use Cons.prems v in \<open>auto simp: same_view_def\<close>)
  with v show ?case by (simp add: s1 same_view_def)
qed

text \<open>
  Property C7.
  Compaction is invisible to the queries on raw spans: after a run, such a query over any organization
  and range reads exactly the spans it would have read before, each as often. The condition is on the
  dates that are over: each must list its directory and, for each hour that is not sealed, its chunks, and
  find a slot for it (\<open>sealing_run\<close>). On that condition nothing else matters: statements and listings that
  raise, listings of organizations and of days to be rolled that fail, deletions that fail, half-way too,
  rolls without a slot and rollups that are not written. Queries on rollups and trends, which read the
  other tree, are not covered; the lemmas below show what a date without the condition loses, and what
  can happen to rollups.
\<close>

theorem compaction_is_invisible:
  assumes "store_ok (s_raw s)" "sealing_run list_org envs now (s_raw s)"
  shows "mset (read_spans (s_raw (snd (compact_span_chunks list_org envs now s))) org rng) = mset (read_spans (s_raw s) org rng)"
proof -
  let ?ks = "listed_date_dirs list_org (s_raw s)"
  have ok: "dict_ok (s_raw s)" using assms(1) by (simp add: store_ok_def)
  have "same_view (s_raw s) (s_raw (snd (fold (compact_date envs now) ?ks (0, s))))"
  proof (rule compact_dates_view [OF listed_date_dirs(1) [OF ok] assms(1)])
    show "set ?ks \<subseteq> fst ` set (s_raw s)" using listed_date_dirs(2) [OF ok] by force
    fix k day
    assume k: "k \<in> set ?ks" and d: "strptime_date (snd k) = Some day" "now > day * US_PER_DAY + US_PER_DAY + SEAL_GRACE"
    then obtain t where t: "(k, t) \<in> set (s_raw s)" "list_org (fst k) = Listed" using listed_date_dirs(2) [OF ok k] by blast
    then have "tree_at (s_raw s) k = t" using ok by (simp add: tree_at_def)
    then show "seals_all (envs k) (tree_at (s_raw s) k)"
      using assms(2) t d by (fastforce simp: sealing_run_def list_all_iff)
  qed
  then show ?thesis
    unfolding compact_span_chunks_def by (simp add: same_view_read [OF assms(1)] split_beta)
qed

definition all_well :: compact_env where
  "all_well = \<lparr>list_date = Listed, list_chunks = \<lambda>_. Listed, list_roll = Listed, list_rollup_roll = Listed,
     delete_raises = \<lambda>_. False, delete_date_raises = False, delete_rollup_raises = False, copy_hour = \<lambda>_. Done, copy_day = Done, copy_rollup_day = Done, write_rollup = \<lambda>_. Done, stuck_chunk = \<lambda>_ _. False,
     stuck_hour = \<lambda>_. False, stuck_rollup = \<lambda>_. False, approx_quantile = \<lambda>ds _. hd ds\<rparr>"

definition example_span :: "int \<Rightarrow> span_row" where
  "example_span i = \<lparr>sr_id = i, sr_org = 1, sr_project = 7, sr_duration = 5, sr_timestamp = 1699966800000000, sr_transaction = ''GET /'',
     sr_span_id = ''a'', sr_transaction_id = ''b'', sr_op = ''db'', sr_description = ''x''\<rparr>"

definition example_open :: span_store where
  "example_open = \<lparr>s_raw = [((1, ''20231114''), \<lparr>day_file = None, hour_files = [(''11'', [example_span 1])],
       hour_dirs = [(''13'', [(''chunk_1.parquet'', [example_span 2]), (''chunk_0.parquet'', [example_span 3])])]\<rparr>)], s_rollup = []\<rparr>"

definition next_day :: datetime where "next_day = 19676 * US_PER_DAY + US_PER_HOUR"

theorem compaction_is_invisible_witness:
  "mset (read_spans (s_raw (snd (compact_span_chunks (\<lambda>_. Listed) (\<lambda>_. all_well) next_day example_open))) 1 None) =
   mset (read_spans (s_raw example_open) 1 None) \<and>
   read_spans (s_raw example_open) 1 None = [example_span 1, example_span 3, example_span 2]"
proof -
  have ok: "store_ok (s_raw example_open)" by code_simp
  have free: "sealing_run (\<lambda>_. Listed) (\<lambda>_. all_well) next_day (s_raw example_open)" by code_simp
  have "read_spans (s_raw example_open) 1 None = [example_span 1, example_span 3, example_span 2]" by code_simp
  then show ?thesis using compaction_is_invisible [OF ok free] by simp
qed

text \<open>
  Without the condition spans are lost: when the hours of a day that is over find no slot, or when the
  listing of the date or of the chunks of an hour fails once and the listing of the roll does not, the
  roll of the day deletes their chunks, with or without a day file to show for them.
\<close>

lemma failed_listing_loses_spans:
  "read_spans (s_raw (snd (compact_span_chunks (\<lambda>_. Listed) (\<lambda>_. all_well\<lparr>list_chunks := \<lambda>_. Unlisted\<rparr>) next_day example_open))) 1 None =
     [example_span 1]"
  "read_spans (s_raw (snd (compact_span_chunks (\<lambda>_. Listed) (\<lambda>_. all_well\<lparr>list_date := Unlisted\<rparr>) next_day example_open))) 1 None =
     [example_span 1]"
  by code_simp+

lemma busy_slot_loses_spans:
  "read_spans (s_raw (snd (compact_span_chunks (\<lambda>_. Listed) (\<lambda>_. all_well\<lparr>copy_hour := \<lambda>_. NoSlot\<rparr>) next_day example_open))) 1 None = [example_span 1]"
  by code_simp

text \<open>
  A rollup that fails in the run that rolls the day is never made up for: the raw hours it would be
  derived from are gone.
\<close>

lemma failed_rollup_is_final:
  "read_spans (s_rollup (snd (compact_span_chunks (\<lambda>_. Listed) (\<lambda>_. all_well) (next_day + US_PER_HOUR)
     (snd (compact_span_chunks (\<lambda>_. Listed) (\<lambda>_. all_well\<lparr>write_rollup := \<lambda>_. Raised\<rparr>) next_day example_open))))) 1 None = []"
  by code_simp

definition example_rolled :: span_store where
  "example_rolled = snd (compact_span_chunks (\<lambda>_. Listed) (\<lambda>_. all_well\<lparr>copy_rollup_day := NoSlot\<rparr>) next_day example_open)"

text \<open>A span that arrives when the raw day is rolled and the rollups are not replaces the rollup of its hour.\<close>

lemma late_span_replaces_rollup:
  "map rr_count (read_spans (s_rollup example_rolled) 1 None) = [1, 2] \<and>
   map rr_count (read_spans (s_rollup (snd (compact_span_chunks (\<lambda>_. Listed) (\<lambda>_. all_well) next_day
     (example_rolled\<lparr>s_raw := dset (s_raw example_rolled) (1, ''20231114'')
        (put_chunk ''13'' ''chunk_9.parquet'' [example_span 9] (tree_at (s_raw example_rolled) (1, ''20231114'')))\<rparr>)))) 1 None) = [1, 1]"
  by code_simp

section \<open>Promotion is exact\<close>

lemma hour_groups_get:
  "map_of (hour_groups rows) k = (let g = filter (\<lambda>r. hour_key r = k) rows in if g = [] then None else Some g)"
proof -
  have "fold (\<lambda>x a. Some (case a of None \<Rightarrow> [x] | Some rs \<Rightarrow> rs @ [x])) xs a =
    (if xs = [] then a else Some ((case a of None \<Rightarrow> [] | Some rs \<Rightarrow> rs) @ xs))" for xs :: "span_row list" and a
    by (induction xs arbitrary: a) (auto split: option.splits)
  then show ?thesis
    using dict.get_fold [of hour_key "\<lambda>a x. case a of None \<Rightarrow> [x] | Some rs \<Rightarrow> rs @ [x]" rows "[]" k]
    by (simp add: hour_groups_def Let_def)
qed

lemma hour_groups_ok: "dict_ok (hour_groups rows)"
  unfolding hour_groups_def by (rule dict.ok_fold) simp

abbreviation hour_chunks :: "promo_state \<Rightarrow> int \<Rightarrow> string \<times> string \<Rightarrow> (string, span_row list) dict" where
  "hour_chunks st org k \<equiv> chunks_at (tree_at (raw_store st) (org, fst k)) (snd k)"

lemma chunks_put: "chunks_at (put_chunk h n rows t) h' = (if h' = h then dset (chunks_at t h) n rows else chunks_at t h')"
  by (simp add: put_chunk_def chunks_at_def)

lemma chunks_remove: "chunks_at (remove_chunk h n t) h' = (if h' = h then AList.delete n (chunks_at t h) else chunks_at t h')"
  by (simp add: remove_chunk_def chunks_at_def)

definition written :: "promo_env \<Rightarrow> int \<Rightarrow> string \<times> string \<Rightarrow> bool" where
  "written env org k \<longleftrightarrow> write_ok env org k \<and> (delete_ok env org k \<or> \<not> remove_ok env org k)"

definition moved :: "promo_env \<Rightarrow> int \<Rightarrow> string \<times> string \<Rightarrow> bool" where
  "moved env org k \<longleftrightarrow> write_ok env org k \<and> delete_ok env org k"

abbreviation promoted_name :: "promo_env \<Rightarrow> int \<Rightarrow> string \<times> string \<Rightarrow> string" where
  "promoted_name env org k \<equiv> chunk_name (chunk_ts env org k)"

lemma delete_snoc: "n \<notin> fst ` set cs \<Longrightarrow> AList.delete n (cs @ [(n, v)]) = cs"
  by (induction cs) auto

lemma promote_group_chunks:
  assumes "promoted_name env org k \<notin> fst ` set (hour_chunks st org k)"
  shows "hour_chunks (promote_group env org (k, rows) st) o' k' =
    hour_chunks st o' k' @ (if o' = org \<and> k' = k \<and> written env org k then [(promoted_name env org k, rows)] else [])"
proof -
  obtain d h where k: "k = (d, h)" by (cases k)
  have del: "AList.delete (promoted_name env org k) (hour_chunks st org k @ [(promoted_name env org k, rows)]) = hour_chunks st org k"
    by (rule delete_snoc [OF assms])
  show ?thesis
    using assms del
    by (cases k') (auto simp: promote_group_def k Let_def written_def tree_at_dset chunks_put chunks_remove dset_new)
qed

lemma promote_group_staging:
  "staging (promote_group env org (k, rows) st) =
   (if moved env org k then delete_promoted_rows (map sr_id rows) org (staging st) else staging st)"
  by (cases k) (simp add: promote_group_def Let_def moved_def)

lemma promote_group_total:
  "total_promoted (promote_group env org (k, rows) st) = total_promoted st + (if moved env org k then length rows else 0)"
  by (cases k) (simp add: promote_group_def Let_def moved_def)

lemma promote_groups_chunks:
  "distinct (map fst gs) \<Longrightarrow> (\<And>k. k \<in> fst ` set gs \<Longrightarrow> promoted_name env org k \<notin> fst ` set (hour_chunks st org k)) \<Longrightarrow>
   hour_chunks (fold (promote_group env org) gs st) o' k' =
     hour_chunks st o' k' @ (case map_of gs k' of
        Some rows \<Rightarrow> if o' = org \<and> written env org k' then [(promoted_name env org k', rows)] else [] | None \<Rightarrow> [])"
proof (induction gs arbitrary: st)
  case (Cons g gs)
  obtain k rows where g: "g = (k, rows)" by (cases g)
  let ?st = "promote_group env org (k, rows) st"
  have c: "hour_chunks ?st o' k' = hour_chunks st o' k' @ (if o' = org \<and> k' = k \<and> written env org k then [(promoted_name env org k, rows)] else [])" for o' k'
    using Cons.prems(2) [of k] by (intro promote_group_chunks) (simp add: g)
  have "promoted_name env org j \<notin> fst ` set (hour_chunks ?st org j)" if "j \<in> fst ` set gs" for j
  proof -
    have "j \<noteq> k" using that Cons.prems(1) by (auto simp: g)
    then have "hour_chunks ?st org j = hour_chunks st org j" by (simp add: c)
    then show ?thesis using Cons.prems(2) [of j] that by (simp add: g)
  qed
  then have "hour_chunks (fold (promote_group env org) gs ?st) o' k' =
     hour_chunks ?st o' k' @ (case map_of gs k' of
        Some rows \<Rightarrow> if o' = org \<and> written env org k' then [(promoted_name env org k', rows)] else [] | None \<Rightarrow> [])"
    using Cons.prems(1) by (intro Cons.IH) auto
  moreover have "k' = k \<Longrightarrow> map_of gs k' = None" using Cons.prems(1) by (simp add: g map_of_eq_None_iff)
  ultimately show ?case by (auto simp: c g split: option.splits)
qed simp

lemma promote_groups_staging:
  "staging (fold (promote_group env org) gs st) =
   filter (\<lambda>r. \<not> (sr_org r = org \<and> (\<exists>(k, rows)\<in>set gs. moved env org k \<and> sr_id r \<in> sr_id ` set rows))) (staging st)"
proof (induction gs arbitrary: st)
  case (Cons g gs)
  obtain k rows where g: "g = (k, rows)" by (cases g)
  show ?case
    by (simp add: g Cons.IH promote_group_staging delete_promoted_rows_def) (auto intro: filter_cong)
qed simp

definition consumed :: "promo_env \<Rightarrow> int \<Rightarrow> datetime \<Rightarrow> datetime \<Rightarrow> span_row list \<Rightarrow> span_row \<Rightarrow> bool" where
  "consumed env cutoff min_ts max_ts rows r \<longleftrightarrow> r \<in> set (org_rows cutoff (sr_org r) rows) \<and>
     (if garbage min_ts max_ts r then drop_ok env (sr_org r) else moved env (sr_org r) (hour_key r))"

definition new_chunks ::
    "promo_env \<Rightarrow> int \<Rightarrow> datetime \<Rightarrow> datetime \<Rightarrow> span_row list \<Rightarrow> int \<Rightarrow> string \<times> string \<Rightarrow> (string, span_row list) dict" where
  "new_chunks env cutoff min_ts max_ts rows org k =
     (let g = filter (\<lambda>r. \<not> garbage min_ts max_ts r \<and> hour_key r = k) (org_rows cutoff org rows)
      in if g \<noteq> [] \<and> written env org k then [(promoted_name env org k, g)] else [])"

definition staging_ok :: "span_row list \<Rightarrow> bool" where
  "staging_ok rows \<longleftrightarrow> distinct (map (\<lambda>r. (sr_id r, sr_org r)) rows)"

lemma org_rows_mem: "r \<in> set (org_rows cutoff org rows) \<Longrightarrow> r \<in> set rows \<and> sr_org r = org \<and> sr_id r < cutoff"
  by (auto simp: org_rows_def dest: in_set_takeD)

lemma staging_ok_same: "staging_ok rows \<Longrightarrow> r \<in> set rows \<Longrightarrow> r' \<in> set rows \<Longrightarrow> sr_id r = sr_id r' \<Longrightarrow> sr_org r = sr_org r' \<Longrightarrow> r = r'"
  by (auto simp: staging_ok_def distinct_map inj_on_def)

lemma drop_garbage_staging:
  "staging (drop_garbage env org ids st) = filter (\<lambda>r. \<not> (sr_org r = org \<and> sr_id r \<in> set ids \<and> drop_ok env org)) (staging st)"
  by (auto simp: drop_garbage_def delete_promoted_rows_def intro!: filter_cong)

lemma same_ids:
  assumes "staging_ok rows" "r \<in> set rows" "sr_org r = org" "set xs \<subseteq> set (org_rows cutoff org rows)"
  shows "sr_id r \<in> sr_id ` set xs \<longleftrightarrow> r \<in> set xs"
proof
  assume "sr_id r \<in> sr_id ` set xs"
  then obtain x where x: "x \<in> set xs" "sr_id r = sr_id x" by auto
  then have "x \<in> set rows" "sr_org x = org" using assms(4) org_rows_mem by (metis subsetD)+
  then show "r \<in> set xs" using staging_ok_same [OF assms(1,2), of x] x assms(3) by simp
qed simp

lemma group_ids:
  assumes "staging_ok rows" "r \<in> set rows" "sr_org r = org" "kept = filter P (org_rows cutoff org rows)"
  shows "(\<exists>(k, g)\<in>set (hour_groups kept). Q k \<and> sr_id r \<in> sr_id ` set g) \<longleftrightarrow> r \<in> set kept \<and> Q (hour_key r)"
proof -
  have gs: "(k, g) \<in> set (hour_groups kept) \<longleftrightarrow> g = filter (\<lambda>r. hour_key r = k) kept \<and> g \<noteq> []" for k g
    using map_of_eq_Some_iff [OF hour_groups_ok, of kept k g] hour_groups_get [of kept k] by (auto simp: Let_def split: if_splits)
  have ids: "sr_id r \<in> sr_id ` set (filter (\<lambda>r. hour_key r = k) kept) \<longleftrightarrow> r \<in> set kept \<and> hour_key r = k" for k
    using same_ids [OF assms(1-3), of "filter (\<lambda>r. hour_key r = k) kept" cutoff] by (auto simp: assms(4))
  show ?thesis
  proof
    assume "\<exists>(k, g)\<in>set (hour_groups kept). Q k \<and> sr_id r \<in> sr_id ` set g"
    then obtain k g where "(k, g) \<in> set (hour_groups kept)" "Q k" "sr_id r \<in> sr_id ` set g" by blast
    then show "r \<in> set kept \<and> Q (hour_key r)" using gs ids by metis
  next
    assume r: "r \<in> set kept \<and> Q (hour_key r)"
    then have "(hour_key r, filter (\<lambda>x. hour_key x = hour_key r) kept) \<in> set (hour_groups kept)"
      unfolding gs by (auto simp: filter_empty_conv)
    moreover have "sr_id r \<in> sr_id ` set (filter (\<lambda>x. hour_key x = hour_key r) kept)" using r ids by blast
    ultimately show "\<exists>(k, g)\<in>set (hour_groups kept). Q k \<and> sr_id r \<in> sr_id ` set g" using r by blast
  qed
qed

lemma promote_org_staging:
  assumes "staging_ok (staging st)"
  shows "staging (fst (promote_org env cutoff min_ts max_ts org (st, tr))) =
    filter (\<lambda>r. \<not> (sr_org r = org \<and> consumed env cutoff min_ts max_ts (staging st) r)) (staging st)"
proof -
  define rows where "rows = org_rows cutoff org (staging st)"
  define kept where "kept = filter (\<lambda>r. \<not> garbage min_ts max_ts r) rows"
  define st1 where "st1 = fold (promote_group env org) (hour_groups kept) st"
  have groups: "(\<exists>(k, g)\<in>set (hour_groups kept). moved env org k \<and> sr_id r \<in> sr_id ` set g) \<longleftrightarrow> r \<in> set kept \<and> moved env org (hour_key r)"
    if "r \<in> set (staging st)" "sr_org r = org" for r
    by (rule group_ids [OF assms that]) (simp add: kept_def rows_def)
  have drops: "sr_id r \<in> sr_id ` set (filter (garbage min_ts max_ts) rows) \<longleftrightarrow> r \<in> set rows \<and> garbage min_ts max_ts r"
    if "r \<in> set (staging st)" "sr_org r = org" for r
    using same_ids [OF assms that, of "filter (garbage min_ts max_ts) rows" cutoff] by (auto simp: rows_def)
  have "staging (fst (promote_org env cutoff min_ts max_ts org (st, tr))) =
      staging (drop_garbage env org (map sr_id (filter (garbage min_ts max_ts) rows)) st1)"
    by (simp add: promote_org_def rows_def [symmetric] kept_def [symmetric] st1_def Let_def)
       (simp add: kept_def hour_groups_def drop_garbage_def)
  also have "\<dots> = filter (\<lambda>r. \<not> (sr_org r = org \<and> r \<in> set rows \<and> garbage min_ts max_ts r \<and> drop_ok env org)) (staging st1)"
    unfolding drop_garbage_staging
    by (rule filter_cong) (use drops in \<open>auto simp: st1_def promote_groups_staging\<close>)
  also have "\<dots> = filter (\<lambda>r. \<not> (sr_org r = org \<and> consumed env cutoff min_ts max_ts (staging st) r)) (staging st)"
    unfolding st1_def promote_groups_staging filter_filter
    by (rule filter_cong) (use groups in \<open>auto simp: consumed_def rows_def kept_def\<close>)
  finally show ?thesis .
qed

lemma promote_org_chunks:
  assumes "\<And>r. r \<in> set (org_rows cutoff org (staging st)) \<Longrightarrow> promoted_name env org (hour_key r) \<notin> fst ` set (hour_chunks st org (hour_key r))"
  shows "hour_chunks (fst (promote_org env cutoff min_ts max_ts org (st, tr))) o' k' =
    hour_chunks st o' k' @ (if o' = org then new_chunks env cutoff min_ts max_ts (staging st) org k' else [])"
proof -
  define rows where "rows = org_rows cutoff org (staging st)"
  define kept where "kept = filter (\<lambda>r. \<not> garbage min_ts max_ts r) rows"
  have drop: "raw_store (drop_garbage env org ids s) = raw_store s" for ids s by (simp add: drop_garbage_def)
  show ?thesis
  proof (cases "rows = []")
    case False
    then have "hour_chunks (fst (promote_org env cutoff min_ts max_ts org (st, tr))) o' k' =
        hour_chunks (fold (promote_group env org) (hour_groups kept) st) o' k'"
      by (simp add: promote_org_def rows_def [symmetric] kept_def [symmetric] Let_def drop)
    also have "\<dots> = hour_chunks st o' k' @ (case map_of (hour_groups kept) k' of
        Some rows \<Rightarrow> if o' = org \<and> written env org k' then [(promoted_name env org k', rows)] else [] | None \<Rightarrow> [])"
    proof (rule promote_groups_chunks [OF hour_groups_ok])
      fix k assume "k \<in> fst ` set (hour_groups kept)"
      then have "map_of (hour_groups kept) k \<noteq> None" by (simp add: map_of_eq_None_iff)
      then obtain r where "r \<in> set kept" "hour_key r = k" by (auto simp: hour_groups_get Let_def filter_empty_conv split: if_splits)
      then show "promoted_name env org k \<notin> fst ` set (hour_chunks st org k)" using assms [of r] by (auto simp: kept_def rows_def)
    qed
    finally show ?thesis by (simp add: hour_groups_get new_chunks_def Let_def kept_def rows_def conj_commute)
  qed (simp add: promote_org_def rows_def [symmetric] new_chunks_def Let_def)
qed

text \<open>The state after some of the organizations, compared with the state before.\<close>

definition promoted_so_far ::
    "promo_env \<Rightarrow> int \<Rightarrow> datetime \<Rightarrow> datetime \<Rightarrow> promo_state \<Rightarrow> int set \<Rightarrow> promo_state \<Rightarrow> bool" where
  "promoted_so_far env cutoff min_ts max_ts st orgs st' \<longleftrightarrow>
     staging st' = filter (\<lambda>r. \<not> (sr_org r \<in> orgs \<and> consumed env cutoff min_ts max_ts (staging st) r)) (staging st) \<and>
     (\<forall>org k. hour_chunks st' org k =
        hour_chunks st org k @ (if org \<in> orgs then new_chunks env cutoff min_ts max_ts (staging st) org k else []))"

lemma org_rows_other: "org \<notin> orgs \<Longrightarrow> org_rows cutoff org (filter (\<lambda>r. \<not> (sr_org r \<in> orgs \<and> P r)) rows) = org_rows cutoff org rows"
  unfolding org_rows_def filter_filter by (intro arg_cong [where f = "take _"] filter_cong) auto

lemma promote_org_step:
  assumes "staging_ok (staging st)" "promoted_so_far env cutoff min_ts max_ts st orgs st'" "org \<notin> orgs"
    and "\<And>r. r \<in> set (staging st) \<Longrightarrow> promoted_name env (sr_org r) (hour_key r) \<notin> fst ` set (hour_chunks st (sr_org r) (hour_key r))"
  shows "promoted_so_far env cutoff min_ts max_ts st (insert org orgs) (fst (promote_org env cutoff min_ts max_ts org (st', tr)))"
proof -
  have stg: "staging st' = filter (\<lambda>r. \<not> (sr_org r \<in> orgs \<and> consumed env cutoff min_ts max_ts (staging st) r)) (staging st)"
    and ch: "\<And>org k. hour_chunks st' org k = hour_chunks st org k @ (if org \<in> orgs then new_chunks env cutoff min_ts max_ts (staging st) org k else [])"
    using assms(2) by (auto simp: promoted_so_far_def)
  have rows: "org_rows cutoff org (staging st') = org_rows cutoff org (staging st)"
    unfolding stg by (rule org_rows_other [OF assms(3)])
  then have c: "sr_org r = org \<Longrightarrow> consumed env cutoff min_ts max_ts (staging st') r = consumed env cutoff min_ts max_ts (staging st) r"
    and n: "new_chunks env cutoff min_ts max_ts (staging st') org k = new_chunks env cutoff min_ts max_ts (staging st) org k" for r k
    by (auto simp: consumed_def new_chunks_def)
  have ok: "staging_ok (staging st')"
    using assms(1) unfolding stg staging_ok_def by (rule distinct_map_filter)
  have "staging (fst (promote_org env cutoff min_ts max_ts org (st', tr))) =
      filter (\<lambda>r. \<not> (sr_org r \<in> insert org orgs \<and> consumed env cutoff min_ts max_ts (staging st) r)) (staging st)"
    unfolding promote_org_staging [OF ok] stg filter_filter by (rule filter_cong) (use c in \<open>auto simp: stg\<close>)
  moreover have "hour_chunks (fst (promote_org env cutoff min_ts max_ts org (st', tr))) o' k' = hour_chunks st' o' k' @
      (if o' = org then new_chunks env cutoff min_ts max_ts (staging st') org k' else [])" for o' k'
  proof (rule promote_org_chunks)
    fix r assume "r \<in> set (org_rows cutoff org (staging st'))"
    then have "r \<in> set (staging st)" "sr_org r = org" using org_rows_mem unfolding rows by blast+
    then show "promoted_name env org (hour_key r) \<notin> fst ` set (hour_chunks st' org (hour_key r))"
      using assms(3) assms(4) [of r] by (simp add: ch)
  qed
  ultimately show ?thesis using assms(3) by (auto simp: promoted_so_far_def ch n)
qed

lemma promote_orgs:
  assumes "staging_ok (staging st)"
    and "\<And>r. r \<in> set (staging st) \<Longrightarrow> promoted_name env (sr_org r) (hour_key r) \<notin> fst ` set (hour_chunks st (sr_org r) (hour_key r))"
  shows "distinct os \<Longrightarrow> set os \<inter> orgs = {} \<Longrightarrow> promoted_so_far env cutoff min_ts max_ts st orgs (fst acc) \<Longrightarrow>
    promoted_so_far env cutoff min_ts max_ts st (set os \<union> orgs) (fst (fold (promote_org env cutoff min_ts max_ts) os acc))"
proof (induction os arbitrary: orgs acc)
  case (Cons org os)
  obtain st' tr where acc: "acc = (st', tr)" by (cases acc)
  have "promoted_so_far env cutoff min_ts max_ts st (insert org orgs) (fst (promote_org env cutoff min_ts max_ts org acc))"
    unfolding acc using Cons.prems by (intro promote_org_step assms) (auto simp: acc)
  from Cons.IH [OF _ _ this] Cons.prems show ?case by auto
qed simp

text \<open>
  Property C26.
  Promotion moves exactly what it should: of the rows older than the cutoff, up to the limit of each
  organization, those of an hour are in a new chunk of that organization and hour when it was
  written, and leave the staging table with it; rows outside the window of times leave without a
  chunk; every other row stays. A row is in both places only when its deletion and the removal of
  its chunk both failed, and in neither only when it was outside the window.
\<close>

theorem promotion_is_exact:
  assumes "staging_ok (staging st)"
    and "list_all (\<lambda>r. promoted_name env (sr_org r) (hour_key r) \<notin> fst ` set (hour_chunks st (sr_org r) (hour_key r))) (staging st)"
    and "promote_spans env ms r2 r8 retention_days future_skew now st = (n, truncated, st')"
    and "cutoff = from_datetime ms r2 r8 (now - 5 * US_PER_MINUTE)"
    and "min_ts = now - retention_days * US_PER_DAY" "max_ts = now + future_skew"
  shows "staging st' = filter (\<lambda>r. \<not> consumed env cutoff min_ts max_ts (staging st) r) (staging st) \<and>
    (\<forall>org k. hour_chunks st' org k = hour_chunks st org k @ new_chunks env cutoff min_ts max_ts (staging st) org k)"
proof -
  define os where "os = remdups (map sr_org (filter (\<lambda>r. sr_id r < cutoff) (staging st)))"
  have st': "st' = fst (fold (promote_org env cutoff min_ts max_ts) os (st\<lparr>total_promoted := 0\<rparr>, False))"
    using assms(3) by (simp add: promote_spans_def os_def Let_def assms(4-6) split: prod.splits)
  have fresh: "r \<in> set (staging st) \<Longrightarrow> promoted_name env (sr_org r) (hour_key r) \<notin> fst ` set (hour_chunks st (sr_org r) (hour_key r))" for r
    using assms(2) by (simp add: list_all_iff)
  have "promoted_so_far env cutoff min_ts max_ts st {} (fst (st\<lparr>total_promoted := 0\<rparr>, False))"
    by (simp add: promoted_so_far_def)
  then have p: "promoted_so_far env cutoff min_ts max_ts st (set os) st'"
    using promote_orgs [OF assms(1) fresh, of os "{}"] by (simp add: st' os_def)
  have rows: "org_rows cutoff org (staging st) = []" if "org \<notin> set os" for org
    using that by (auto simp: os_def org_rows_def filter_empty_conv)
  have "consumed env cutoff min_ts max_ts (staging st) r \<Longrightarrow> sr_org r \<in> set os" for r
    using rows [of "sr_org r"] unfolding consumed_def by (metis empty_iff list.set(1))
  moreover have "org \<notin> set os \<Longrightarrow> new_chunks env cutoff min_ts max_ts (staging st) org k = []" for org k
    using rows [of org] by (simp add: new_chunks_def)
  ultimately show ?thesis using p by (auto simp: promoted_so_far_def intro!: filter_cong)
qed

definition example_promo :: promo_env where
  "example_promo = \<lparr>write_ok = \<lambda>_ _. True, delete_ok = \<lambda>_ _. True, remove_ok = \<lambda>_ _. True, drop_ok = \<lambda>_. True, chunk_ts = \<lambda>_ _. ''1''\<rparr>"

definition example_staged :: promo_state where
  "example_staged = \<lparr>staging = [example_span 1], raw_store = [], total_promoted = 0\<rparr>"

theorem promotion_is_exact_witness:
  "\<exists>n tr st'. promote_spans example_promo (\<lambda>t. t div 1000) 0 0 30 US_PER_HOUR 1699967400000000 example_staged = (n, tr, st') \<and>
    staging st' = [] \<and> hour_chunks st' 1 (''20231114'', ''13'') = [(''chunk_1.parquet'', [example_span 1])]"
proof -
  obtain n tr st' where a: "promote_spans example_promo (\<lambda>t. t div 1000) 0 0 30 US_PER_HOUR 1699967400000000 example_staged = (n, tr, st')"
    by (metis prod_cases3)
  have ok: "staging_ok (staging example_staged)"
    "list_all (\<lambda>r. promoted_name example_promo (sr_org r) (hour_key r) \<notin> fst ` set (hour_chunks example_staged (sr_org r) (hour_key r))) (staging example_staged)"
    by (simp_all add: staging_ok_def example_staged_def tree_at_def empty_tree_def chunks_at_def)
  define cutoff where "cutoff = from_datetime (\<lambda>t. t div 1000) 0 0 (1699967400000000 - 5 * US_PER_MINUTE)"
  define mn where "mn = 1699967400000000 - 30 * US_PER_DAY"
  define mx where "mx = 1699967400000000 + US_PER_HOUR"
  have cut: "1 < cutoff" unfolding cutoff_def by code_simp
  have key: "hour_key (example_span 1) = (''20231114'', ''13'')" by code_simp
  have rows: "org_rows cutoff 1 (staging example_staged) = [example_span 1]"
    using cut by (simp add: org_rows_def example_staged_def example_span_def BATCH_LIMIT_PER_ORG_def)
  have g: "\<not> garbage mn mx (example_span 1)" by (simp add: garbage_def example_span_def mn_def mx_def)
  have w: "moved example_promo 1 k" "written example_promo 1 k" "promoted_name example_promo 1 k = ''chunk_1.parquet''" for k
    by (simp_all add: moved_def written_def example_promo_def chunk_name_def)
  have org: "sr_org (example_span 1) = 1" by (simp add: example_span_def)
  have "consumed example_promo cutoff mn mx (staging example_staged) (example_span 1)"
    using rows g w(1) by (simp add: consumed_def org)
  moreover have "new_chunks example_promo cutoff mn mx (staging example_staged) 1 (''20231114'', ''13'') = [(''chunk_1.parquet'', [example_span 1])]"
    using rows g w(2,3) key by (simp add: new_chunks_def)
  ultimately show ?thesis
    using a promotion_is_exact [OF ok a cutoff_def mn_def mx_def]
    by (auto simp: example_staged_def tree_at_def empty_tree_def chunks_at_def)
qed

section \<open>Rollups\<close>

lemma count_by_key: "distinct ks \<Longrightarrow> set (map key rows) \<subseteq> set ks \<Longrightarrow>
  sum_list (map (\<lambda>k. length (filter (\<lambda>r. key r = k) rows)) ks) = length rows"
proof (induction rows)
  case (Cons r rows)
  have "sum_list (map (\<lambda>k. length (filter (\<lambda>r. key r = k) (r # rows))) ks) =
      sum_list (map (\<lambda>k. (if key r = k then 1 else 0) + length (filter (\<lambda>r. key r = k) rows)) ks)"
    by (intro arg_cong [where f = sum_list] map_cong) auto
  also have "\<dots> = sum_list (map (\<lambda>k. if key r = k then 1 else 0) ks) + length rows"
    using Cons by (simp add: sum_list_addf)
  also have "sum_list (map (\<lambda>k. if key r = k then 1 else 0) ks) = (1 :: nat)"
    using Cons.prems by (simp add: sum_list_distinct_conv_sum_set)
  finally show ?case by simp
qed simp

lemma sum_by_key: "distinct ks \<Longrightarrow> set (map key rows) \<subseteq> set ks \<Longrightarrow>
  sum_list (map (\<lambda>k. sum_list (map f (filter (\<lambda>r. key r = k) rows))) ks) = (sum_list (map f rows) :: real)"
proof (induction rows)
  case (Cons r rows)
  have "sum_list (map (\<lambda>k. sum_list (map f (filter (\<lambda>r. key r = k) (r # rows)))) ks) =
      sum_list (map (\<lambda>k. (if key r = k then f r else 0) + sum_list (map f (filter (\<lambda>r. key r = k) rows))) ks)"
    by (intro arg_cong [where f = sum_list] map_cong) auto
  also have "\<dots> = sum_list (map (\<lambda>k. if key r = k then f r else 0) ks) + sum_list (map f rows)"
    using Cons by (simp add: sum_list_addf)
  also have "sum_list (map (\<lambda>k. if key r = k then f r else 0) ks) = f r"
    using Cons.prems by (simp add: sum_list_distinct_conv_sum_set)
  finally show ?case by simp
qed simp

text \<open>
  Further property.
  A rollup counts every span of its hour once: the counts of its rows add up to the number of spans,
  their sums to the total duration, and there is one row for each project, transaction, operation
  and description.
\<close>

theorem rollup_counts_every_span:
  "sum_list (map rr_count (hour_rollup quantile hour_start rows)) = length rows \<and>
   sum_list (map rr_sum (hour_rollup quantile hour_start rows)) = sum_list (map sr_duration rows) \<and>
   distinct (map (\<lambda>q. (rr_project q, rr_transaction q, rr_op q, rr_description q)) (hour_rollup quantile hour_start rows))"
proof -
  let ?ks = "remdups (map rollup_key rows)"
  have "map rr_count (hour_rollup quantile hour_start rows) = map (\<lambda>k. length (filter (\<lambda>r. rollup_key r = k) rows)) ?ks"
    "map rr_sum (hour_rollup quantile hour_start rows) = map (\<lambda>k. sum_list (map sr_duration (filter (\<lambda>r. rollup_key r = k) rows))) ?ks"
    "map (\<lambda>q. (rr_project q, rr_transaction q, rr_op q, rr_description q)) (hour_rollup quantile hour_start rows) = ?ks"
    by (auto simp: hour_rollup_def rollup_group_def Let_def split: prod.splits intro!: map_idI)
  then show ?thesis
    using count_by_key [of ?ks rollup_key rows] sum_by_key [of ?ks rollup_key rows sr_duration] by simp
qed

end
