(* ===== verification/Access_Db.thy ===== *)
theory Access_Db
  imports Org_Roles
begin

text \<open>
  The relational state behind the organization, team, project and user endpoints, the queries that
  select rows visible to a user (\<open>apps/organizations_ext/queryset_utils.py\<close>, the query sets of
  \<open>apps/teams/api.py\<close> and \<open>apps/projects/api.py\<close>), the scope check of API tokens
  (\<open>glitchtip/api/permissions.py\<close>) and the integrity invariant of the tables.

  A query is the list of rows of its joins, duplicates included, so that \<open>get()\<close> is told apart from
  \<open>filter()\<close>: it fails when the joins give several rows. The many-to-many tables of a team and
  the keys of a project are kept in the row they belong to.
\<close>

section \<open>Rows\<close>

record user_row =
  u_id :: nat
  u_email :: string
  u_name :: string
  u_superuser :: bool
  u_is_active :: bool
  u_options :: json
  u_subscribe_by_default :: bool

record email_row =
  e_user :: nat
  e_email :: string
  e_verified :: bool
  e_primary :: bool

record organization =
  o_id :: nat
  o_name :: string
  o_slug :: string
  o_open_membership :: bool
  o_is_deleted :: bool

record member =
  m_id :: nat
  m_org :: nat
  m_user :: "nat option"
  m_email :: "string option"
  m_role :: org_role

record team =
  t_id :: nat
  t_org :: nat
  t_slug :: string
  t_members :: "nat list"
  t_projects :: "nat list"

record project_key =
  k_public_key :: nat
  k_is_active :: bool
  k_name :: string
  k_rate_limit :: "(nat \<times> nat) option"

record project =
  p_id :: nat
  p_org :: nat
  p_slug :: string
  p_name :: string
  p_platform :: "string option"
  p_throttle_rate :: int
  p_is_deleted :: bool
  p_keys :: "project_key list"

record api_token =
  tok_id :: nat
  tok_user :: nat
  tok_token :: string
  tok_label :: string
  tok_scopes :: int

text \<open>The background tasks that the handlers enqueue.\<close>

datatype task = DeleteOrganization nat | DeleteProject nat | EmailInvite nat string | ConfirmEmail nat string

record db =
  user_rows :: "user_row list"
  email_rows :: "email_row list"
  orgs :: "organization list"
  members :: "member list"
  owner_of :: "nat \<Rightarrow> nat option"
  teams :: "team list"
  projects :: "project list"
  user_alerts :: "(nat \<times> nat) \<Rightarrow> int option"
  tokens :: "api_token list"
  invite_attempts :: "nat \<Rightarrow> nat option"
  recovery_seeds :: "nat \<Rightarrow> string option"
  recovery_codes :: "nat \<Rightarrow> string option"
  tasks :: "task list"
  next_org :: nat
  next_member :: nat
  next_team :: nat
  next_project :: nat
  next_token :: nat

section \<open>Outcomes\<close>

text \<open>
  The errors a handler answers with, and the exceptions that no handler catches (the client sees a
  server error).
\<close>

datatype api_error =
    HttpError nat string | Http404 | ValidationError string | Throttled nat | Unprocessable
  | MultipleObjectsReturned | DoesNotExist | IntegrityError | DataError | TypeError | ValueError | KeyError

type_synonym 'a api = "(api_error + 'a) \<times> db"

text \<open>\<open>get_object_or_404\<close> on the rows of a query.\<close>

definition aget_object_or_404 :: "'a list \<Rightarrow> db \<Rightarrow> ('a \<Rightarrow> 'b api) \<Rightarrow> 'b api" where
  "aget_object_or_404 rows s k =
     (case rows of [] \<Rightarrow> (Inl Http404, s) | [x] \<Rightarrow> k x | _ \<Rightarrow> (Inl MultipleObjectsReturned, s))"

definition aget :: "'a list \<Rightarrow> db \<Rightarrow> ('a \<Rightarrow> 'b api) \<Rightarrow> 'b api" where
  "aget rows s k =
     (case rows of [] \<Rightarrow> (Inl DoesNotExist, s) | [x] \<Rightarrow> k x | _ \<Rightarrow> (Inl MultipleObjectsReturned, s))"

definition raise_if :: "bool \<Rightarrow> api_error \<Rightarrow> db \<Rightarrow> 'b api \<Rightarrow> 'b api" where
  "raise_if c e s k = (if c then (Inl e, s) else k)"

section \<open>Authentication and scopes\<close>

definition token_flags :: "string list" where
  "token_flags = [''project:read'', ''project:write'', ''project:admin'', ''project:releases'',
     ''team:read'', ''team:write'', ''team:admin'', ''event:read'', ''event:write'', ''event:admin'',
     ''org:read'', ''org:write'', ''org:admin'', ''member:read'', ''member:write'', ''member:admin'']"

definition get_token_scopes :: "int \<Rightarrow> string list" where
  "get_token_scopes bits = map snd (filter (\<lambda>(i, f). bit bits i) (enumerate 0 token_flags))"

datatype auth_type = Session | Token int

record auth =
  user_id :: nat
  auth_kind :: auth_type

definition has_permission :: "string list \<Rightarrow> auth \<Rightarrow> db \<Rightarrow> 'b api \<Rightarrow> 'b api" where
  "has_permission permissions auth s f =
     (case auth_kind auth of
        Session \<Rightarrow> f
      | Token bits \<Rightarrow>
          if \<not> (\<exists>sc\<in>set (get_token_scopes bits). sc \<in> set permissions)
          then (Inl (HttpError 403 ''Permission denied''), s) else f)"

section \<open>Query sets\<close>

definition actor_rows :: "nat \<Rightarrow> nat \<Rightarrow> db \<Rightarrow> member list" where
  "actor_rows uid org s = [a \<leftarrow> members s. m_org a = org \<and> m_user a = Some uid]"

definition get_organizations_queryset :: "nat \<Rightarrow> string option \<Rightarrow> db \<Rightarrow> organization list" where
  "get_organizations_queryset uid slug s =
     [org. org \<leftarrow> orgs s, \<not> o_is_deleted org \<and> (case slug of None \<Rightarrow> True | Some x \<Rightarrow> x = '''' \<or> o_slug org = x),
           a \<leftarrow> actor_rows uid (o_id org) s]"

text \<open>\<open>Subquery(...)[:1]\<close>: the role of the first row of the join, \<open>None\<close> without rows.\<close>

definition org_actor_role :: "nat \<Rightarrow> string option \<Rightarrow> db \<Rightarrow> org_role option" where
  "org_actor_role uid slug s =
     (case [m_role a. org \<leftarrow> get_organizations_queryset uid slug s, a \<leftarrow> actor_rows uid (o_id org) s] of
        [] \<Rightarrow> None | r # _ \<Rightarrow> Some r)"

definition get_organization_users_queryset :: "nat \<Rightarrow> string \<Rightarrow> string option \<Rightarrow> db \<Rightarrow> member list" where
  "get_organization_users_queryset uid slug team_slug s =
     [m. m \<leftarrow> members s, org \<leftarrow> orgs s, o_id org = m_org m \<and> o_slug org = slug, a \<leftarrow> actor_rows uid (o_id org) s,
         t \<leftarrow> (case team_slug of None \<Rightarrow> [()]
               | Some ts \<Rightarrow> if ts = '''' then [()] else [(). t \<leftarrow> teams s, m_id m \<in> set (t_members t) \<and> t_slug t = ts])]"

definition member_actor_role :: "nat \<Rightarrow> string \<Rightarrow> db \<Rightarrow> org_role option" where
  "member_actor_role uid slug s =
     (case [m_role a. m \<leftarrow> get_organization_users_queryset uid slug None s, a \<leftarrow> actor_rows uid (m_org m) s] of
        [] \<Rightarrow> None | r # _ \<Rightarrow> Some r)"

text \<open>\<open>None < MANAGER\<close> raises a \<open>TypeError\<close>; no caller reaches that case.\<close>

definition role_below :: "org_role option \<Rightarrow> org_role \<Rightarrow> db \<Rightarrow> (bool \<Rightarrow> 'b api) \<Rightarrow> 'b api" where
  "role_below r bound s k = (case r of None \<Rightarrow> (Inl TypeError, s) | Some x \<Rightarrow> k (x < bound))"

definition orgs_of_slug :: "string \<Rightarrow> db \<Rightarrow> organization list" where
  "orgs_of_slug slug s = [org \<leftarrow> orgs s. o_slug org = slug]"

definition get_team_queryset ::
  "string \<Rightarrow> string option \<Rightarrow> string option \<Rightarrow> nat option \<Rightarrow> nat option \<Rightarrow> db \<Rightarrow> team list" where
  "get_team_queryset slug team_slug project_slug uid tid s =
     [t. t \<leftarrow> teams s, org \<leftarrow> orgs_of_slug slug s, t_org t = o_id org \<and>
           (case team_slug of None \<Rightarrow> True | Some x \<Rightarrow> x = '''' \<or> t_slug t = x) \<and>
           (case tid of None \<Rightarrow> True | Some i \<Rightarrow> i = 0 \<or> t_id t = i),
         p \<leftarrow> (case project_slug of None \<Rightarrow> [()]
               | Some x \<Rightarrow> if x = '''' then [()] else [(). p \<leftarrow> projects s, p_id p \<in> set (t_projects t) \<and> p_slug p = x]),
         a \<leftarrow> (case uid of None \<Rightarrow> [()] | Some u \<Rightarrow> if u = 0 then [()] else map (\<lambda>_. ()) (actor_rows u (o_id org) s))]"

text \<open>\<open>undeleted_objects\<close>: neither the project nor its organization is marked deleted.\<close>

definition get_projects_queryset :: "nat \<Rightarrow> string option \<Rightarrow> string option \<Rightarrow> db \<Rightarrow> project list" where
  "get_projects_queryset uid slug team_slug s =
     [p. p \<leftarrow> projects s, \<not> p_is_deleted p, org \<leftarrow> orgs s,
         o_id org = p_org p \<and> \<not> o_is_deleted org \<and> (case slug of None \<Rightarrow> True | Some x \<Rightarrow> x = '''' \<or> o_slug org = x),
         a \<leftarrow> actor_rows uid (o_id org) s,
         t \<leftarrow> (case team_slug of None \<Rightarrow> [()]
               | Some ts \<Rightarrow> if ts = '''' then [()] else [(). t \<leftarrow> teams s, p_id p \<in> set (t_projects t) \<and> t_slug t = ts])]"

definition get_project_keys_queryset :: "nat \<Rightarrow> string \<Rightarrow> string \<Rightarrow> nat option \<Rightarrow> db \<Rightarrow> (project \<times> project_key) list" where
  "get_project_keys_queryset uid slug project_slug key s =
     [(p, k). p \<leftarrow> projects s, p_slug p = project_slug, org \<leftarrow> orgs_of_slug slug s, o_id org = p_org p,
         a \<leftarrow> actor_rows uid (o_id org) s,
         k \<leftarrow> p_keys p, (case key of None \<Rightarrow> True | Some i \<Rightarrow> k_public_key k = i)]"

section \<open>Writing rows\<close>

text \<open>\<open>save()\<close> of a row that is in the table.\<close>

definition save_row :: "('a \<Rightarrow> nat) \<Rightarrow> 'a \<Rightarrow> 'a list \<Rightarrow> 'a list" where
  "save_row pk x rows = map (\<lambda>r. if pk r = pk x then x else r) rows"

definition save_org :: "organization \<Rightarrow> db \<Rightarrow> db" where
  "save_org x s = s\<lparr>orgs := save_row o_id x (orgs s)\<rparr>"

definition save_member :: "member \<Rightarrow> db \<Rightarrow> db" where
  "save_member x s = s\<lparr>members := save_row m_id x (members s)\<rparr>"

definition save_team :: "team \<Rightarrow> db \<Rightarrow> db" where
  "save_team x s = s\<lparr>teams := save_row t_id x (teams s)\<rparr>"

definition save_project :: "project \<Rightarrow> db \<Rightarrow> db" where
  "save_project x s = s\<lparr>projects := save_row p_id x (projects s)\<rparr>"

text \<open>\<open>add()\<close> and \<open>remove()\<close> of a many-to-many relation.\<close>

definition m2m_add :: "nat \<Rightarrow> nat list \<Rightarrow> nat list" where
  "m2m_add i xs = (if i \<in> set xs then xs else xs @ [i])"

definition insert_member :: "nat \<Rightarrow> nat option \<Rightarrow> string option \<Rightarrow> org_role \<Rightarrow> db \<Rightarrow> member \<times> db" where
  "insert_member org user email role s =
     (let m = \<lparr>m_id = next_member s, m_org = org, m_user = user, m_email = email, m_role = role\<rparr>
      in (m, s\<lparr>members := members s @ [m], next_member := Suc (next_member s)\<rparr>))"

text \<open>
  Deleting a membership removes its team relations and, by the cascade of
  \<open>OrganizationOwner.organization_user\<close>, the owner record that names it.
\<close>

definition remove_members :: "(member \<Rightarrow> bool) \<Rightarrow> db \<Rightarrow> db" where
  "remove_members gone s =
     (let ids = m_id ` {m \<in> set (members s). gone m} in
      s\<lparr>members := filter (\<lambda>m. \<not> gone m) (members s),
        owner_of := (\<lambda>org. case owner_of s org of None \<Rightarrow> None | Some i \<Rightarrow> if i \<in> ids then None else Some i),
        teams := map (\<lambda>t. t\<lparr>t_members := filter (\<lambda>i. i \<notin> ids) (t_members t)\<rparr>) (teams s)\<rparr>)"

definition remove_teams :: "(team \<Rightarrow> bool) \<Rightarrow> db \<Rightarrow> db" where
  "remove_teams gone s = s\<lparr>teams := filter (\<lambda>t. \<not> gone t) (teams s)\<rparr>"

text \<open>The cascade of a project that is deleted from the database.\<close>

definition remove_projects :: "(project \<Rightarrow> bool) \<Rightarrow> db \<Rightarrow> db" where
  "remove_projects gone s =
     (let ids = p_id ` {p \<in> set (projects s). gone p} in
      s\<lparr>projects := filter (\<lambda>p. \<not> gone p) (projects s),
        teams := map (\<lambda>t. t\<lparr>t_projects := filter (\<lambda>i. i \<notin> ids) (t_projects t)\<rparr>) (teams s),
        user_alerts := (\<lambda>(u, i). if i \<in> ids then None else user_alerts s (u, i))\<rparr>)"

section \<open>The integrity of the tables\<close>

definition unique_by :: "('a \<Rightarrow> 'k) \<Rightarrow> 'a list \<Rightarrow> bool" where
  "unique_by key rows \<longleftrightarrow> distinct (map key rows)"

text \<open>A unique constraint over a nullable column: rows with a null are not compared.\<close>

definition unique_nullable :: "('a \<Rightarrow> 'k option) \<Rightarrow> ('a \<Rightarrow> 'o) \<Rightarrow> 'a list \<Rightarrow> bool" where
  "unique_nullable key org rows \<longleftrightarrow>
     distinct [(k, org r). r \<leftarrow> rows, k \<leftarrow> (case key r of None \<Rightarrow> [] | Some k \<Rightarrow> [k])]"

definition org_ids :: "db \<Rightarrow> nat set" where
  "org_ids s = o_id ` set (orgs s)"

text \<open>
  Primary keys are unique and below their sequence, slugs are unique (of organizations globally, of
  teams and projects in their organization), a user and an invited address have one membership per
  organization, and the rows that refer to each other are in the same organization.
\<close>

definition keys_ok :: "db \<Rightarrow> bool" where
  "keys_ok s \<longleftrightarrow>
     unique_by o_id (orgs s) \<and> (\<forall>r\<in>set (orgs s). o_id r < next_org s) \<and>
     unique_by m_id (members s) \<and> (\<forall>r\<in>set (members s). m_id r < next_member s) \<and>
     unique_by t_id (teams s) \<and> (\<forall>r\<in>set (teams s). t_id r < next_team s) \<and>
     unique_by p_id (projects s) \<and> (\<forall>r\<in>set (projects s). p_id r < next_project s)"

definition uniques_ok :: "db \<Rightarrow> bool" where
  "uniques_ok s \<longleftrightarrow>
     unique_by o_slug (orgs s) \<and> unique_nullable m_user m_org (members s) \<and> unique_nullable m_email m_org (members s) \<and>
     unique_by (\<lambda>t. (t_slug t, t_org t)) (teams s) \<and> unique_by (\<lambda>p. (p_org p, p_slug p)) (projects s)"

definition refs_ok :: "db \<Rightarrow> bool" where
  "refs_ok s \<longleftrightarrow>
     (\<forall>m\<in>set (members s). m_org m \<in> org_ids s) \<and> (\<forall>t\<in>set (teams s). t_org t \<in> org_ids s) \<and>
     (\<forall>p\<in>set (projects s). p_org p \<in> org_ids s) \<and>
     (\<forall>org i. owner_of s org = Some i \<longrightarrow> (\<exists>m\<in>set (members s). m_id m = i \<and> m_org m = org)) \<and>
     (\<forall>t\<in>set (teams s). \<forall>i\<in>set (t_members t). \<exists>m\<in>set (members s). m_id m = i \<and> m_org m = t_org t) \<and>
     (\<forall>t\<in>set (teams s). \<forall>i\<in>set (t_projects t). \<exists>p\<in>set (projects s). p_id p = i \<and> p_org p = t_org t)"

definition db_ok :: "db \<Rightarrow> bool" where
  "db_ok s \<longleftrightarrow> keys_ok s \<and> uniques_ok s \<and> refs_ok s"

section \<open>Lemmas\<close>

named_theorems api_split "case splits of the control flow of a handler"

lemma aget_object_or_404_split [api_split]:
  "P (aget_object_or_404 rows s k) \<longleftrightarrow>
     (rows = [] \<longrightarrow> P (Inl Http404, s)) \<and> (\<forall>x. rows = [x] \<longrightarrow> P (k x)) \<and>
     (\<forall>x y r. rows = x # y # r \<longrightarrow> P (Inl MultipleObjectsReturned, s))"
  by (auto simp: aget_object_or_404_def split: list.splits)

lemma aget_split [api_split]:
  "P (aget rows s k) \<longleftrightarrow>
     (rows = [] \<longrightarrow> P (Inl DoesNotExist, s)) \<and> (\<forall>x. rows = [x] \<longrightarrow> P (k x)) \<and>
     (\<forall>x y r. rows = x # y # r \<longrightarrow> P (Inl MultipleObjectsReturned, s))"
  by (auto simp: aget_def split: list.splits)

lemma snd_aget_same [simp]: "snd (aget rows s (\<lambda>r. (f r, s))) = s"
  by (simp add: aget_def split: list.splits)

lemma snd_aget_object_or_404_same [simp]: "snd (aget_object_or_404 rows s (\<lambda>r. (f r, s))) = s"
  by (simp add: aget_object_or_404_def split: list.splits)

lemma found_by_key:
  assumes "[u \<leftarrow> rows. key u = i] = [u]" shows "key u = i" "u \<in> set rows"
proof -
  have "u \<in> set [u \<leftarrow> rows. key u = i]" using assms by simp
  then show "key u = i" "u \<in> set rows" by simp_all
qed

lemma raise_if_split [api_split]:
  "P (raise_if c e s k) \<longleftrightarrow> (c \<longrightarrow> P (Inl e, s)) \<and> (\<not> c \<longrightarrow> P k)"
  by (simp add: raise_if_def)

lemma role_below_split [api_split]:
  "P (role_below r bound s k) \<longleftrightarrow> (r = None \<longrightarrow> P (Inl TypeError, s)) \<and> (\<forall>x. r = Some x \<longrightarrow> P (k (x < bound)))"
  by (auto simp: role_below_def split: option.splits)

lemma has_permission_split [api_split]:
  "P (has_permission ps au s k) \<longleftrightarrow>
     (\<forall>bits. auth_kind au = Token bits \<and> set (get_token_scopes bits) \<inter> set ps = {} \<longrightarrow>
        P (Inl (HttpError 403 ''Permission denied''), s)) \<and>
     ((\<forall>bits. auth_kind au = Token bits \<longrightarrow> set (get_token_scopes bits) \<inter> set ps \<noteq> {}) \<longrightarrow> P k)"
  by (auto simp: has_permission_def split: auth_type.splits)

text \<open>The same as introduction rules for a property of the tables that a handler leaves.\<close>

lemma api_intro:
  fixes P :: "db \<Rightarrow> bool"
  assumes "P s"
  shows "(\<not> c \<Longrightarrow> P (snd k)) \<Longrightarrow> P (snd (raise_if c e s k))"
    and "P (snd k) \<Longrightarrow> P (snd (has_permission ps au s k))"
    and "(\<And>x. rows = [x] \<Longrightarrow> P (snd (f x))) \<Longrightarrow> P (snd (aget_object_or_404 rows s f))"
    and "(\<And>x. rows = [x] \<Longrightarrow> P (snd (f x))) \<Longrightarrow> P (snd (aget rows s f))"
    and "(\<And>x. r = Some x \<Longrightarrow> P (snd (g (x < bound)))) \<Longrightarrow> P (snd (role_below r bound s g))"
  using assms by (auto split: api_split)

lemma api_refused:
  fixes P :: "'b api \<Rightarrow> bool"
  assumes "\<And>e. P (Inl e, s)"
  shows "(\<not> c \<Longrightarrow> P k) \<Longrightarrow> P (raise_if c e s k)"
    and "P k \<Longrightarrow> P (has_permission ps au s k)"
    and "(\<And>x. rows = [x] \<Longrightarrow> P (f x)) \<Longrightarrow> P (aget_object_or_404 rows s f)"
    and "(\<And>x. rows = [x] \<Longrightarrow> P (f x)) \<Longrightarrow> P (aget rows s f)"
    and "(\<And>x. r = Some x \<Longrightarrow> P (g (x < bound))) \<Longrightarrow> P (role_below r bound s g)"
  using assms by (auto split: api_split)

text \<open>What a successful answer says about the checks before it.\<close>

lemma api_Inr:
  "raise_if c e s k = (Inr x, s') \<longleftrightarrow> \<not> c \<and> k = (Inr x, s')"
  "aget_object_or_404 rows s f = (Inr x, s') \<longleftrightarrow> (\<exists>y. rows = [y] \<and> f y = (Inr x, s'))"
  "aget rows s f = (Inr x, s') \<longleftrightarrow> (\<exists>y. rows = [y] \<and> f y = (Inr x, s'))"
  "role_below r bound s g = (Inr x, s') \<longleftrightarrow> (\<exists>y. r = Some y \<and> g (y < bound) = (Inr x, s'))"
  "has_permission ps au s k = (Inr x, s') \<longleftrightarrow>
     (\<forall>bits. auth_kind au = Token bits \<longrightarrow> set (get_token_scopes bits) \<inter> set ps \<noteq> {}) \<and> k = (Inr x, s')"
  by (auto split: api_split)

lemma permitted_rows: "fst (has_permission ps au s (Inr x, s)) = Inr rows \<Longrightarrow> rows = x"
  by (auto simp: has_permission_def split: auth_type.splits if_splits)

lemma in_actor_rows [simp]:
  "a \<in> set (actor_rows uid org s) \<longleftrightarrow> a \<in> set (members s) \<and> m_org a = org \<and> m_user a = Some uid"
  by (auto simp: actor_rows_def)

lemma in_orgs_of_slug [simp]: "x \<in> set (orgs_of_slug slug s) \<longleftrightarrow> x \<in> set (orgs s) \<and> o_slug x = slug"
  by (auto simp: orgs_of_slug_def)


section \<open>The rows of one organization\<close>

text \<open>What the tables hold of an organization; a request stays out of it when this view is unchanged.\<close>

definition org_view ::
  "nat \<Rightarrow> db \<Rightarrow> organization list \<times> member list \<times> nat option \<times> team list \<times> project list" where
  "org_view org s =
     (filter (\<lambda>r. o_id r = org) (orgs s), filter (\<lambda>m. m_org m = org) (members s), owner_of s org,
      filter (\<lambda>t. t_org t = org) (teams s), filter (\<lambda>p. p_org p = org) (projects s))"

definition same_tables :: "db \<Rightarrow> db \<Rightarrow> bool" where
  "same_tables s s' \<longleftrightarrow> orgs s' = orgs s \<and> members s' = members s \<and> owner_of s' = owner_of s \<and>
     teams s' = teams s \<and> projects s' = projects s \<and> next_org s' = next_org s \<and> next_member s' = next_member s \<and>
     next_team s' = next_team s \<and> next_project s' = next_project s"

lemma same_tables_refl [simp]: "same_tables s s"
  by (simp add: same_tables_def)

lemma same_tables_view: "same_tables s s' \<Longrightarrow> org_view org s' = org_view org s"
  by (simp add: same_tables_def org_view_def)

lemma same_tables_ok: "same_tables s s' \<Longrightarrow> db_ok s' = db_ok s"
  by (simp add: same_tables_def db_ok_def keys_ok_def uniques_ok_def refs_ok_def org_ids_def)

lemma unique_byD: "unique_by pk rows \<Longrightarrow> x \<in> set rows \<Longrightarrow> y \<in> set rows \<Longrightarrow> pk x = pk y \<Longrightarrow> x = y"
  by (auto simp: unique_by_def distinct_map dest: inj_onD)

lemma map_save_row: "(\<And>r. r \<in> set rows \<Longrightarrow> pk r = pk x \<Longrightarrow> f r = f x) \<Longrightarrow> map f (save_row pk x rows) = map f rows"
  by (auto simp: save_row_def)

lemma set_save_row:
  "x \<in> set (save_row pk y rows) \<Longrightarrow> x = y \<or> x \<in> set rows \<and> pk x \<noteq> pk y"
  by (auto simp: save_row_def split: if_splits)

lemma filter_save_row:
  assumes "\<And>r. r \<in> set rows \<Longrightarrow> pk r = pk x \<Longrightarrow> \<not> P r" and "\<not> P x"
  shows "filter P (save_row pk x rows) = filter P rows"
  using assms by (induction rows) (auto simp: save_row_def)

lemma save_row_Cons [simp]: "save_row pk x (r # rows) = (if pk r = pk x then x else r) # save_row pk x rows"
  by (simp add: save_row_def)

lemma save_row_Nil [simp]: "save_row pk x [] = []"
  by (simp add: save_row_def)

lemma save_row_absent: "\<forall>y\<in>set rows. pk y \<noteq> pk x \<Longrightarrow> save_row pk x rows = rows"
  by (induction rows) (auto simp: save_row_def)

lemma filter_save_row_unique:
  assumes "unique_by pk rows" "y \<in> set rows" "pk x = pk y" "f x = f y" "f x \<noteq> org"
  shows "filter (\<lambda>r. f r = org) (save_row pk x rows) = filter (\<lambda>r. f r = org) rows"
proof (rule filter_save_row)
  fix r assume "r \<in> set rows" "pk r = pk x"
  then have "r = y" using unique_byD [OF assms(1)] assms(2,3) by metis
  then show "f r \<noteq> org" using assms(4,5) by simp
qed (use assms in simp)

lemma unique_nullable_Nil [simp]: "unique_nullable key org []"
  by (simp add: unique_nullable_def)

lemma unique_nullable_Cons [simp]:
  "unique_nullable key org (r # rows) \<longleftrightarrow>
     (key r \<noteq> None \<longrightarrow> (\<forall>x\<in>set rows. key x = key r \<longrightarrow> org x \<noteq> org r)) \<and> unique_nullable key org rows"
  by (force simp: unique_nullable_def split: option.splits)

lemma unique_nullableD:
  "unique_nullable key org rows \<Longrightarrow> x \<in> set rows \<Longrightarrow> y \<in> set rows \<Longrightarrow> key x = key y \<Longrightarrow> key x \<noteq> None \<Longrightarrow> org x = org y \<Longrightarrow> x = y"
  by (induction rows) auto

lemma unique_nullable_filter: "unique_nullable key org rows \<Longrightarrow> unique_nullable key org (filter P rows)"
  by (induction rows) auto

lemma unique_nullable_snoc [simp]:
  "unique_nullable key org (rows @ [r]) \<longleftrightarrow>
     unique_nullable key org rows \<and> (key r \<noteq> None \<longrightarrow> (\<forall>x\<in>set rows. key x = key r \<longrightarrow> org x \<noteq> org r))"
  by (induction rows) auto

lemma unique_nullable_save_row:
  assumes "unique_nullable key org rows" and "unique_by pk rows"
    and "key x \<noteq> None \<Longrightarrow> \<forall>y\<in>set rows. pk y \<noteq> pk x \<longrightarrow> key y = key x \<longrightarrow> org y \<noteq> org x"
  shows "unique_nullable key org (save_row pk x rows)"
  using assms
proof (induction rows)
  case (Cons r rows)
  then have IH: "unique_nullable key org (save_row pk x rows)" by (simp add: unique_by_def)
  show ?case
  proof (cases "pk r = pk x")
    case True
    then have "\<forall>y\<in>set rows. pk y \<noteq> pk x" using Cons.prems(2) by (simp add: unique_by_def) (metis image_eqI)
    moreover from this have "save_row pk x rows = rows" by (rule save_row_absent)
    ultimately show ?thesis using True Cons.prems by simp
  next
    case False
    then show ?thesis using Cons.prems IH by (auto dest!: set_save_row)
  qed
qed simp

lemma one_membership:
  assumes "unique_nullable m_user m_org rows"
  shows "length (filter (\<lambda>a. m_org a = org \<and> m_user a = Some uid) rows) \<le> 1"
  using assms
proof (induction rows)
  case (Cons r rows)
  show ?case
  proof (cases "m_org r = org \<and> m_user r = Some uid")
    case True
    then have "filter (\<lambda>a. m_org a = org \<and> m_user a = Some uid) rows = []"
      using Cons.prems by (simp add: filter_empty_conv) metis
    then show ?thesis using True by simp
  next
    case False
    then have "filter (\<lambda>a. m_org a = org \<and> m_user a = Some uid) (r # rows)
        = filter (\<lambda>a. m_org a = org \<and> m_user a = Some uid) rows" by auto
    then show ?thesis using Cons by simp
  qed
qed simp

lemma db_okD:
  assumes "db_ok s"
  shows "unique_by o_id (orgs s)" "unique_by o_slug (orgs s)" "unique_by m_id (members s)" "unique_by t_id (teams s)"
    "unique_by p_id (projects s)" "unique_nullable m_user m_org (members s)" "unique_nullable m_email m_org (members s)"
  using assms by (auto simp: db_ok_def keys_ok_def uniques_ok_def)

lemma db_ok_refs:
  assumes "db_ok s"
  shows "owner_of s org = Some i \<Longrightarrow> \<exists>m\<in>set (members s). m_id m = i \<and> m_org m = org"
    "t \<in> set (teams s) \<Longrightarrow> i \<in> set (t_members t) \<Longrightarrow> \<exists>m\<in>set (members s). m_id m = i \<and> m_org m = t_org t"
    "t \<in> set (teams s) \<Longrightarrow> i \<in> set (t_projects t) \<Longrightarrow> \<exists>p\<in>set (projects s). p_id p = i \<and> p_org p = t_org t"
    "m \<in> set (members s) \<Longrightarrow> m_org m \<in> org_ids s" "t \<in> set (teams s) \<Longrightarrow> t_org t \<in> org_ids s"
    "p \<in> set (projects s) \<Longrightarrow> p_org p \<in> org_ids s"
  using assms by (simp_all add: db_ok_def refs_ok_def)

lemma actor_rows_cases:
  assumes "db_ok s"
  obtains "actor_rows uid org s = []" | a where "actor_rows uid org s = [a]"
proof -
  have "length (actor_rows uid org s) \<le> 1"
    using one_membership [OF db_okD(6) [OF assms]] by (simp only: actor_rows_def)
  then show ?thesis using that by (cases "actor_rows uid org s") auto
qed

section \<open>Writes keep the tables sound and stay in their organization\<close>

lemma unique_by_save_row:
  assumes "unique_by pk rows" and "unique_by key rows" and "\<And>r. r \<in> set rows \<Longrightarrow> pk r \<noteq> pk x \<Longrightarrow> key r \<noteq> key x"
  shows "unique_by key (save_row pk x rows)"
  using assms
proof (induction rows)
  case (Cons r rows)
  then have IH: "unique_by key (save_row pk x rows)" by (simp add: unique_by_def)
  show ?case
  proof (cases "pk r = pk x")
    case True
    then have "\<forall>y\<in>set rows. pk y \<noteq> pk x" using Cons.prems(1) by (simp add: unique_by_def) (metis image_eqI)
    moreover from this have "save_row pk x rows = rows" by (rule save_row_absent)
    ultimately show ?thesis using True Cons.prems by (auto simp: unique_by_def image_iff) metis
  next
    case False
    then have "key r \<noteq> key x" using Cons.prems(3) by simp
    then show ?thesis using False Cons.prems IH by (auto simp: unique_by_def image_iff dest!: set_save_row)
  qed
qed (simp add: unique_by_def)

lemma unique_pk_save_row: "unique_by pk rows \<Longrightarrow> unique_by pk (save_row pk x rows)"
  by (simp add: unique_by_save_row)

lemma org_ids_save: "y \<in> set (orgs s) \<Longrightarrow> o_id x = o_id y \<Longrightarrow> o_id ` set (save_row o_id x (orgs s)) = org_ids s"
  by (metis list.set_map map_save_row org_ids_def)

lemma ok_save_org:
  assumes "db_ok s" "y \<in> set (orgs s)" "o_id x = o_id y" "o_slug x = o_slug y"
  shows "db_ok (save_org x s)"
proof -
  have "unique_by o_slug (save_row o_id x (orgs s))"
    by (rule unique_by_save_row [OF db_okD(1,2) [OF assms(1)]])
       (use assms unique_byD [OF db_okD(2) [OF assms(1)]] in force)
  moreover have "\<forall>r\<in>set (save_row o_id x (orgs s)). o_id r < next_org s"
    using assms by (auto dest!: set_save_row simp: db_ok_def keys_ok_def)
  ultimately show ?thesis
    using assms org_ids_save [OF assms(2,3)] unique_pk_save_row [of o_id "orgs s" x]
    by (simp add: save_org_def db_ok_def keys_ok_def uniques_ok_def refs_ok_def org_ids_def)
qed

lemma view_save_org: "o_id x \<noteq> org \<Longrightarrow> org_view org (save_org x s) = org_view org s"
  by (simp add: org_view_def save_org_def filter_save_row)

lemma in_save_row: "y \<in> set rows \<Longrightarrow> pk y = pk x \<Longrightarrow> x \<in> set (save_row pk x rows)"
  by (force simp: save_row_def)

lemma kept_save_row: "y \<in> set rows \<Longrightarrow> pk y \<noteq> pk x \<Longrightarrow> y \<in> set (save_row pk x rows)"
  by (force simp: save_row_def)

text \<open>A saved row that keeps its organization answers the references that the old one answered.\<close>

lemma refs_save:
  assumes "unique_by pk rows" "y \<in> set rows" "pk x = pk y" "f x = f y"
    and "\<exists>m\<in>set rows. pk m = i \<and> f m = org"
  shows "\<exists>m\<in>set (save_row pk x rows). pk m = i \<and> f m = org"
proof -
  from assms(5) obtain m where m: "m \<in> set rows" "pk m = i" "f m = org" by blast
  show ?thesis
  proof (cases "pk m = pk x")
    case True
    then have "m = y" using unique_byD [OF assms(1) m(1) assms(2)] assms(3) by simp
    then show ?thesis using in_save_row [of y rows pk x] assms m by (intro bexI [of _ x]) auto
  next
    case False
    then show ?thesis using kept_save_row [OF m(1)] m by blast
  qed
qed

lemma ok_save_member:
  assumes "db_ok s" "y \<in> set (members s)" "m_id x = m_id y" "m_org x = m_org y"
    and "m_user x \<noteq> None \<Longrightarrow> \<forall>r\<in>set (members s). m_id r \<noteq> m_id x \<longrightarrow> m_user r = m_user x \<longrightarrow> m_org r \<noteq> m_org x"
    and "m_email x \<noteq> None \<Longrightarrow> \<forall>r\<in>set (members s). m_id r \<noteq> m_id x \<longrightarrow> m_email r = m_email x \<longrightarrow> m_org r \<noteq> m_org x"
  shows "db_ok (save_member x s)"
proof -
  note ok = db_okD [OF assms(1)]
  have u: "unique_by m_id (save_row m_id x (members s))" "unique_nullable m_user m_org (save_row m_id x (members s))"
    "unique_nullable m_email m_org (save_row m_id x (members s))"
    by (simp_all add: unique_pk_save_row ok unique_nullable_save_row assms(5,6))
  have lt: "\<forall>r\<in>set (save_row m_id x (members s)). m_id r < next_member s"
    and orgs: "\<forall>r\<in>set (save_row m_id x (members s)). m_org r \<in> org_ids s"
    using assms(1-4) by (auto dest!: set_save_row simp: db_ok_def keys_ok_def refs_ok_def)
  show ?thesis
    using u lt orgs assms(1) refs_save [OF ok(3) assms(2-4)]
    by (simp add: save_member_def db_ok_def keys_ok_def uniques_ok_def refs_ok_def org_ids_def)
qed

lemma view_save_member:
  assumes "db_ok s" "y \<in> set (members s)" "m_id x = m_id y" "m_org x = m_org y" "m_org x \<noteq> org"
  shows "org_view org (save_member x s) = org_view org s"
  using filter_save_row_unique [OF db_okD(3) [OF assms(1)] assms(2,3,4,5)]
  by (simp add: org_view_def save_member_def)

lemma ok_save_team:
  assumes "db_ok s" "y \<in> set (teams s)" "t_id x = t_id y" "t_org x = t_org y"
    and "\<And>r. r \<in> set (teams s) \<Longrightarrow> t_id r \<noteq> t_id x \<Longrightarrow> (t_slug r, t_org r) \<noteq> (t_slug x, t_org x)"
    and "\<forall>i\<in>set (t_members x). \<exists>m\<in>set (members s). m_id m = i \<and> m_org m = t_org x"
    and "\<forall>i\<in>set (t_projects x). \<exists>p\<in>set (projects s). p_id p = i \<and> p_org p = t_org x"
  shows "db_ok (save_team x s)"
proof -
  have "unique_by (\<lambda>t. (t_slug t, t_org t)) (save_row t_id x (teams s))"
    using assms(1) by (intro unique_by_save_row db_okD assms(5)) (auto simp: db_ok_def uniques_ok_def)
  moreover have "unique_by t_id (save_row t_id x (teams s))" by (simp add: unique_pk_save_row db_okD assms(1))
  moreover have "\<forall>r\<in>set (save_row t_id x (teams s)). t_id r < next_team s \<and> t_org r \<in> org_ids s \<and>
      (\<forall>i\<in>set (t_members r). \<exists>m\<in>set (members s). m_id m = i \<and> m_org m = t_org r) \<and>
      (\<forall>i\<in>set (t_projects r). \<exists>p\<in>set (projects s). p_id p = i \<and> p_org p = t_org r)"
  proof
    fix r assume "r \<in> set (save_row t_id x (teams s))"
    then consider "r = x" | "r \<in> set (teams s)" by (auto dest: set_save_row)
    then show "t_id r < next_team s \<and> t_org r \<in> org_ids s \<and>
      (\<forall>i\<in>set (t_members r). \<exists>m\<in>set (members s). m_id m = i \<and> m_org m = t_org r) \<and>
      (\<forall>i\<in>set (t_projects r). \<exists>p\<in>set (projects s). p_id p = i \<and> p_org p = t_org r)"
      by cases (use assms in \<open>auto simp: db_ok_def keys_ok_def refs_ok_def\<close>)
  qed
  ultimately show ?thesis
    using assms(1) by (simp add: save_team_def db_ok_def keys_ok_def uniques_ok_def refs_ok_def org_ids_def)
qed

lemma view_save_team:
  assumes "db_ok s" "y \<in> set (teams s)" "t_id x = t_id y" "t_org x = t_org y" "t_org x \<noteq> org"
  shows "org_view org (save_team x s) = org_view org s"
  using filter_save_row_unique [OF db_okD(4) [OF assms(1)] assms(2,3,4,5)]
  by (simp add: org_view_def save_team_def)

lemma ok_save_project:
  assumes "db_ok s" "y \<in> set (projects s)" "p_id x = p_id y" "p_org x = p_org y"
    and "\<And>r. r \<in> set (projects s) \<Longrightarrow> p_id r \<noteq> p_id x \<Longrightarrow> (p_org r, p_slug r) \<noteq> (p_org x, p_slug x)"
  shows "db_ok (save_project x s)"
proof -
  have "unique_by (\<lambda>p. (p_org p, p_slug p)) (save_row p_id x (projects s))"
    using assms(1) by (intro unique_by_save_row db_okD assms(5)) (auto simp: db_ok_def uniques_ok_def)
  moreover have "unique_by p_id (save_row p_id x (projects s))" by (simp add: unique_pk_save_row db_okD assms(1))
  moreover have "\<forall>r\<in>set (save_row p_id x (projects s)). p_id r < next_project s \<and> p_org r \<in> org_ids s"
    using assms(1-4) by (auto dest!: set_save_row simp: db_ok_def keys_ok_def refs_ok_def)
  moreover note refs_save [OF db_okD(5) [OF assms(1)] assms(2-4)]
  ultimately show ?thesis
    using assms(1) by (simp add: save_project_def db_ok_def keys_ok_def uniques_ok_def refs_ok_def org_ids_def)
qed

lemma view_save_project:
  assumes "db_ok s" "y \<in> set (projects s)" "p_id x = p_id y" "p_org x = p_org y" "p_org x \<noteq> org"
  shows "org_view org (save_project x s) = org_view org s"
  using filter_save_row_unique [OF db_okD(5) [OF assms(1)] assms(2,3,4,5)]
  by (simp add: org_view_def save_project_def)

lemma ok_insert_member:
  assumes "db_ok s" "org \<in> org_ids s"
    and "user \<noteq> None \<Longrightarrow> \<forall>r\<in>set (members s). m_user r = user \<longrightarrow> m_org r \<noteq> org"
    and "email \<noteq> None \<Longrightarrow> \<forall>r\<in>set (members s). m_email r = email \<longrightarrow> m_org r \<noteq> org"
  shows "db_ok (snd (insert_member org user email role s))"
  using assms unfolding db_ok_def insert_member_def
  by (fastforce simp: Let_def keys_ok_def uniques_ok_def refs_ok_def org_ids_def unique_by_def less_Suc_eq)

lemma view_insert_member: "org' \<noteq> org \<Longrightarrow> org_view org' (snd (insert_member org user email role s)) = org_view org' s"
  by (simp add: insert_member_def Let_def org_view_def)

lemma remove_members_simps [simp]:
  "members (remove_members gone s) = filter (\<lambda>m. \<not> gone m) (members s)" "orgs (remove_members gone s) = orgs s"
  "projects (remove_members gone s) = projects s" "map t_id (teams (remove_members gone s)) = map t_id (teams s)"
  "next_org (remove_members gone s) = next_org s" "next_member (remove_members gone s) = next_member s"
  "next_team (remove_members gone s) = next_team s" "next_project (remove_members gone s) = next_project s"
  by (simp_all add: remove_members_def Let_def)

lemma unique_by_filter: "unique_by key rows \<Longrightarrow> unique_by key (filter P rows)"
  by (simp add: unique_by_def distinct_map_filter)

lemma unique_by_map: "(\<And>x. key (f x) = key x) \<Longrightarrow> unique_by key (map f rows) = unique_by key rows"
  by (simp add: unique_by_def comp_def)

lemma kept_member:
  assumes "\<exists>m\<in>set (members s). m_id m = i \<and> m_org m = org" "i \<notin> m_id ` {m \<in> set (members s). gone m}"
  shows "\<exists>m\<in>set (filter (\<lambda>m. \<not> gone m) (members s)). m_id m = i \<and> m_org m = org"
  using assms by auto

lemma ok_remove_members:
  assumes "db_ok s" shows "db_ok (remove_members gone s)"
proof -
  let ?ids = "m_id ` {m \<in> set (members s). gone m}"
  let ?f = "\<lambda>t. t\<lparr>t_members := filter (\<lambda>i. i \<notin> ?ids) (t_members t)\<rparr>"
  have t: "teams (remove_members gone s) = map ?f (teams s)" by (simp add: remove_members_def Let_def)
  have o: "owner_of (remove_members gone s) org = Some i \<longleftrightarrow> owner_of s org = Some i \<and> i \<notin> ?ids" for org i
    by (auto simp: remove_members_def Let_def split: option.splits)
  have "keys_ok (remove_members gone s)"
    using assms by (auto simp: db_ok_def keys_ok_def t unique_by_map unique_by_filter)
  moreover have "uniques_ok (remove_members gone s)"
    using assms by (auto simp: db_ok_def uniques_ok_def t unique_by_map unique_nullable_filter)
  moreover have "refs_ok (remove_members gone s)"
    unfolding refs_ok_def
  proof (intro conjI)
    show "\<forall>org i. owner_of (remove_members gone s) org = Some i \<longrightarrow>
        (\<exists>m\<in>set (members (remove_members gone s)). m_id m = i \<and> m_org m = org)"
    proof (intro allI impI)
      fix org i assume "owner_of (remove_members gone s) org = Some i"
      then have i: "owner_of s org = Some i" "i \<notin> ?ids" unfolding o by blast+
      from kept_member [OF db_ok_refs(1) [OF assms i(1)] i(2)]
      show "\<exists>m\<in>set (members (remove_members gone s)). m_id m = i \<and> m_org m = org" by simp
    qed
    show "\<forall>t\<in>set (teams (remove_members gone s)). \<forall>i\<in>set (t_members t).
        \<exists>m\<in>set (members (remove_members gone s)). m_id m = i \<and> m_org m = t_org t"
    proof (intro ballI)
      fix t i assume "t \<in> set (teams (remove_members gone s))" "i \<in> set (t_members t)"
      then obtain t0 where t0: "t0 \<in> set (teams s)" "t_org t = t_org t0" "i \<in> set (t_members t0)" "i \<notin> ?ids"
        by (auto simp: t)
      from kept_member [OF db_ok_refs(2) [OF assms t0(1,3)] t0(4)]
      show "\<exists>m\<in>set (members (remove_members gone s)). m_id m = i \<and> m_org m = t_org t"
        by (simp add: t0(2))
    qed
  qed (use assms in \<open>auto simp: db_ok_def refs_ok_def t org_ids_def\<close>)
  ultimately show ?thesis by (simp add: db_ok_def)
qed

lemma view_remove_members:
  assumes "db_ok s" "\<And>m. m \<in> set (members s) \<Longrightarrow> gone m \<Longrightarrow> m_org m \<noteq> org"
  shows "org_view org (remove_members gone s) = org_view org s"
proof -
  let ?ids = "m_id ` {m \<in> set (members s). gone m}"
  have outside: "i \<notin> ?ids" if "\<exists>m\<in>set (members s). m_id m = i \<and> m_org m = org" for i
    using that assms(2) unique_byD [OF db_okD(3) [OF assms(1)]] by blast
  have "filter (\<lambda>m. m_org m = org) (filter (\<lambda>m. \<not> gone m) (members s)) = filter (\<lambda>m. m_org m = org) (members s)"
    using assms(2) by (auto simp: filter_filter intro!: filter_cong)
  moreover have "owner_of (remove_members gone s) org = owner_of s org"
    using assms(1) outside by (auto simp: remove_members_def Let_def db_ok_def refs_ok_def split: option.splits)
  moreover have "filter (\<lambda>t. t_org t = org) (teams (remove_members gone s)) = filter (\<lambda>t. t_org t = org) (teams s)"
  proof -
    have "filter (\<lambda>i. i \<notin> ?ids) (t_members t) = t_members t" if "t \<in> set (teams s)" "t_org t = org" for t
      using that outside db_ok_refs(2) [OF assms(1)] by (metis (no_types, lifting) filter_True)
    then show ?thesis
      by (auto simp: remove_members_def Let_def filter_map comp_def intro!: map_idI)
  qed
  ultimately show ?thesis by (simp add: org_view_def)
qed

lemma ok_remove_teams: "db_ok s \<Longrightarrow> db_ok (remove_teams gone s)"
  by (auto simp: remove_teams_def db_ok_def keys_ok_def uniques_ok_def refs_ok_def org_ids_def unique_by_filter)

lemma view_remove_teams:
  "(\<And>t. t \<in> set (teams s) \<Longrightarrow> gone t \<Longrightarrow> t_org t \<noteq> org) \<Longrightarrow> org_view org (remove_teams gone s) = org_view org s"
  by (auto simp: remove_teams_def org_view_def filter_filter intro!: filter_cong)

lemma remove_projects_simps [simp]:
  "projects (remove_projects gone s) = filter (\<lambda>p. \<not> gone p) (projects s)"
  "members (remove_projects gone s) = members s" "orgs (remove_projects gone s) = orgs s"
  "owner_of (remove_projects gone s) = owner_of s" "next_org (remove_projects gone s) = next_org s"
  "next_member (remove_projects gone s) = next_member s" "next_team (remove_projects gone s) = next_team s"
  "next_project (remove_projects gone s) = next_project s"
  by (simp_all add: remove_projects_def Let_def)

lemma ok_remove_projects:
  assumes "db_ok s" shows "db_ok (remove_projects gone s)"
proof -
  let ?ids = "p_id ` {p \<in> set (projects s). gone p}"
  let ?f = "\<lambda>t. t\<lparr>t_projects := filter (\<lambda>i. i \<notin> ?ids) (t_projects t)\<rparr>"
  have t: "teams (remove_projects gone s) = map ?f (teams s)" by (simp add: remove_projects_def Let_def)
  have "keys_ok (remove_projects gone s)" "uniques_ok (remove_projects gone s)"
    using assms by (auto simp: db_ok_def keys_ok_def uniques_ok_def t unique_by_map unique_by_filter)
  moreover have "refs_ok (remove_projects gone s)"
    unfolding refs_ok_def
  proof (intro conjI)
    show "\<forall>t\<in>set (teams (remove_projects gone s)). \<forall>i\<in>set (t_projects t).
        \<exists>p\<in>set (projects (remove_projects gone s)). p_id p = i \<and> p_org p = t_org t"
    proof (intro ballI)
      fix t i assume "t \<in> set (teams (remove_projects gone s))" "i \<in> set (t_projects t)"
      then obtain t0 where t0: "t0 \<in> set (teams s)" "t_org t = t_org t0" "i \<in> set (t_projects t0)" "i \<notin> ?ids"
        by (auto simp: t)
      from db_ok_refs(3) [OF assms t0(1,3)] t0(2,4)
      show "\<exists>p\<in>set (projects (remove_projects gone s)). p_id p = i \<and> p_org p = t_org t" by auto
    qed
  qed (use assms in \<open>auto simp: db_ok_def refs_ok_def t org_ids_def\<close>)
  ultimately show ?thesis by (simp add: db_ok_def)
qed

lemma view_remove_projects:
  assumes "db_ok s" "\<And>p. p \<in> set (projects s) \<Longrightarrow> gone p \<Longrightarrow> p_org p \<noteq> org"
  shows "org_view org (remove_projects gone s) = org_view org s"
proof -
  let ?ids = "p_id ` {p \<in> set (projects s). gone p}"
  have outside: "i \<notin> ?ids" if "\<exists>p\<in>set (projects s). p_id p = i \<and> p_org p = org" for i
    using that assms(2) unique_byD [OF db_okD(5) [OF assms(1)]] by blast
  have "filter (\<lambda>p. p_org p = org) (filter (\<lambda>p. \<not> gone p) (projects s)) = filter (\<lambda>p. p_org p = org) (projects s)"
    using assms(2) by (auto simp: filter_filter intro!: filter_cong)
  moreover have "filter (\<lambda>t. t_org t = org) (teams (remove_projects gone s)) = filter (\<lambda>t. t_org t = org) (teams s)"
  proof -
    have "filter (\<lambda>i. i \<notin> ?ids) (t_projects t) = t_projects t" if "t \<in> set (teams s)" "t_org t = org" for t
      using that outside db_ok_refs(3) [OF assms(1)] by (metis (no_types, lifting) filter_True)
    then show ?thesis
      by (auto simp: remove_projects_def Let_def filter_map comp_def intro!: map_idI)
  qed
  ultimately show ?thesis by (simp add: org_view_def)
qed

section \<open>What the query sets show\<close>

text \<open>The user has a membership of at least the role in the organization.\<close>

definition has_role :: "nat \<Rightarrow> org_role \<Rightarrow> nat \<Rightarrow> db \<Rightarrow> bool" where
  "has_role uid role org s \<longleftrightarrow> (\<exists>a\<in>set (actor_rows uid org s). role \<le> m_role a)"

lemma MEMBER_least [simp]: "MEMBER \<le> r"
  by (simp add: less_eq_org_role_def)

lemma has_role_iff:
  "has_role uid role org s \<longleftrightarrow> (\<exists>a\<in>set (members s). m_org a = org \<and> m_user a = Some uid \<and> role \<le> m_role a)"
  by (auto simp: has_role_def actor_rows_def)

lemma actor_rows_empty: "actor_rows uid org s = [] \<longleftrightarrow> \<not> has_role uid MEMBER org s"
  by (auto simp: has_role_iff actor_rows_def filter_empty_conv)

lemma actor_Int: "set (actor_rows uid org s) \<inter> {a. role \<le> m_role a} = {} \<longleftrightarrow> \<not> has_role uid role org s"
  by (auto simp: has_role_iff)

lemma has_role_mono: "has_role uid role org s \<Longrightarrow> role' \<le> role \<Longrightarrow> has_role uid role' org s"
  by (auto simp: has_role_iff intro: order_trans)

lemma in_organizations_queryset:
  "org \<in> set (get_organizations_queryset uid slug s) \<longleftrightarrow>
     org \<in> set (orgs s) \<and> \<not> o_is_deleted org \<and> (case slug of None \<Rightarrow> True | Some x \<Rightarrow> x = [] \<or> o_slug org = x) \<and>
     has_role uid MEMBER (o_id org) s"
  unfolding get_organizations_queryset_def by (cases slug) (force simp: has_role_iff)+

lemma in_organization_users_queryset:
  assumes "m \<in> set (get_organization_users_queryset uid slug team s)"
  shows "m \<in> set (members s)" "\<exists>org\<in>set (orgs s). o_id org = m_org m \<and> o_slug org = slug" "has_role uid MEMBER (m_org m) s"
  using assms by (auto simp: get_organization_users_queryset_def actor_rows_empty split: if_splits)

lemma in_team_queryset:
  assumes "t \<in> set (get_team_queryset slug team_slug project_slug uid tid s)"
  shows "t \<in> set (teams s)" "\<exists>org\<in>set (orgs s). o_id org = t_org t \<and> o_slug org = slug"
    "uid = Some u \<Longrightarrow> u \<noteq> 0 \<Longrightarrow> has_role u MEMBER (t_org t) s"
  using assms by (force simp: get_team_queryset_def has_role_iff split: if_splits)+

lemma in_projects_queryset:
  assumes "p \<in> set (get_projects_queryset uid slug team_slug s)"
  shows "p \<in> set (projects s)" "\<not> p_is_deleted p" "has_role uid MEMBER (p_org p) s"
  using assms by (auto simp: get_projects_queryset_def actor_rows_empty split: if_splits)

lemma in_project_keys_queryset:
  assumes "(p, k) \<in> set (get_project_keys_queryset uid slug project_slug key s)"
  shows "p \<in> set (projects s)" "k \<in> set (p_keys p)" "has_role uid MEMBER (p_org p) s"
  using assms by (auto simp: get_project_keys_queryset_def actor_rows_empty split: if_splits)

lemma slug_organization:
  "db_ok s \<Longrightarrow> a \<in> set (orgs s) \<Longrightarrow> b \<in> set (orgs s) \<Longrightarrow> o_slug a = o_slug b \<Longrightarrow> a = b"
  using unique_byD [OF db_okD(2)] by blast

lemma org_actor_role_single:
  assumes "get_organizations_queryset uid slug s = [org]" "org_actor_role uid slug s = Some r"
  shows "has_role uid r (o_id org) s"
proof (cases "actor_rows uid (o_id org) s")
  case (Cons a as)
  then show ?thesis using assms by (simp add: org_actor_role_def has_role_def)
qed (use assms in \<open>simp add: org_actor_role_def\<close>)

lemma member_actor_role_in:
  assumes "db_ok s" "m \<in> set (get_organization_users_queryset uid slug None s)" "member_actor_role uid slug s = Some r"
  shows "has_role uid r (m_org m) s"
proof -
  from assms(3) have "r \<in> set [m_role a. m \<leftarrow> get_organization_users_queryset uid slug None s, a \<leftarrow> actor_rows uid (m_org m) s]"
    unfolding member_actor_role_def
    by (cases "[m_role a. m \<leftarrow> get_organization_users_queryset uid slug None s, a \<leftarrow> actor_rows uid (m_org m) s]") auto
  then obtain m' a where m': "m' \<in> set (get_organization_users_queryset uid slug None s)"
    and a: "a \<in> set (actor_rows uid (m_org m') s)" "r = m_role a" by auto
  have "m_org m' = m_org m"
    using in_organization_users_queryset(2) [OF m'] in_organization_users_queryset(2) [OF assms(2)]
      slug_organization [OF assms(1)] by metis
  then show ?thesis using a unfolding has_role_def by (metis order_refl)
qed

end
