(* ===== verification/Org_Api.thy ===== *)
theory Org_Api
  imports Access_Db
begin

text \<open>
  The endpoints of organizations and memberships, \<open>apps/organizations_ext/api.py\<close>, with the
  invitation tokens of \<open>apps/organizations_ext/invitation_backend.py\<close>. Every handler is a function
  of the settings, the caller and the tables, and returns its answer together with the tables, also
  when it fails: the handlers run outside a transaction, so what they wrote before an error stays.
  The HMAC and the base-36 reader of Django, the slug chosen by the slug field and the collation of the
  database are arguments.
\<close>

section \<open>Settings\<close>

record access_cfg =
  EMAIL_ENABLED :: bool
  EMAIL_INVITE_REQUIRE_VERIFICATION :: bool
  EMAIL_INVITE_THROTTLE_COUNT :: nat
  ENABLE_USER_REGISTRATION :: bool
  ENABLE_ORGANIZATION_CREATION :: bool
  CREATOR_SIGNAL_SSO_ONLY :: bool

definition sso_only_enabled :: "access_cfg \<Rightarrow> bool" where
  "sso_only_enabled cfg = CREATOR_SIGNAL_SSO_ONLY cfg"

definition first_user_bootstrap_allowed :: "access_cfg \<Rightarrow> bool" where
  "first_user_bootstrap_allowed cfg = (\<not> sso_only_enabled cfg)"

definition ais_user_registration_open :: "access_cfg \<Rightarrow> db \<Rightarrow> bool" where
  "ais_user_registration_open cfg s =
     (ENABLE_USER_REGISTRATION cfg \<or> first_user_bootstrap_allowed cfg \<and> user_rows s = [])"

definition is_organization_creation_open :: "access_cfg \<Rightarrow> db \<Rightarrow> bool" where
  "is_organization_creation_open cfg s = (ENABLE_ORGANIZATION_CREATION cfg \<or> orgs s = [])"

section \<open>Invitation tokens\<close>

record token_env =
  base36_to_int :: "string \<Rightarrow> int option"
  make_token_with_timestamp :: "string \<Rightarrow> int \<Rightarrow> string"
  now_seconds :: int
  REGISTRATION_TIMEOUT_DAYS :: int

definition make_hash_value :: "nat \<Rightarrow> int \<Rightarrow> string" where
  "make_hash_value pk timestamp = digits_of pk @ str_of_int timestamp"

definition check_token :: "token_env \<Rightarrow> nat \<Rightarrow> string \<Rightarrow> bool" where
  "check_token te pk token =
     (case split_char (CHR ''-'') token of
        [ts_b36, h] \<Rightarrow>
          (case base36_to_int te ts_b36 of
             None \<Rightarrow> False
           | Some ts \<Rightarrow>
               if make_token_with_timestamp te (make_hash_value pk ts) ts \<noteq> token then False
               else if now_seconds te - ts > REGISTRATION_TIMEOUT_DAYS te * 86400 then False
               else True)
      | _ \<Rightarrow> False)"

text \<open>\<open>make_token\<close> of the base class: the token of the current second.\<close>

definition get_token :: "token_env \<Rightarrow> nat \<Rightarrow> string" where
  "get_token te pk = make_token_with_timestamp te (make_hash_value pk (now_seconds te)) (now_seconds te)"

definition send_invitation :: "token_env \<Rightarrow> nat \<Rightarrow> db \<Rightarrow> db" where
  "send_invitation te pk s = s\<lparr>tasks := tasks s @ [EmailInvite pk (get_token te pk)]\<rparr>"

section \<open>Organizations\<close>

definition list_organizations :: "(string \<Rightarrow> nat) \<Rightarrow> auth \<Rightarrow> db \<Rightarrow> organization list api" where
  "list_organizations collate au s =
     has_permission [''org:read'', ''org:write'', ''org:admin''] au s
       (Inr (sort_key (collate \<circ> o_name) (get_organizations_queryset (user_id au) None s)), s)"

definition get_organization :: "auth \<Rightarrow> string \<Rightarrow> db \<Rightarrow> organization api" where
  "get_organization au slug s =
     has_permission [''org:read'', ''org:write'', ''org:admin''] au s
       (aget_object_or_404 (get_organizations_queryset (user_id au) (Some slug) s) s (\<lambda>org. (Inr org, s)))"

definition aadd_user :: "nat \<Rightarrow> org_role \<Rightarrow> nat \<Rightarrow> db \<Rightarrow> member \<times> db" where
  "aadd_user uid role org s =
     (let users_count = length [m \<leftarrow> members s. m_org m = org \<and> m_user m \<noteq> None];
          role' = (if users_count = 0 then OWNER else role);
          (m, s') = insert_member org (Some uid) None role' s
      in (m, if users_count = 0 then s'\<lparr>owner_of := (owner_of s')(org \<mapsto> m_id m)\<rparr> else s'))"

text \<open>\<open>Organization.objects.acreate\<close> and \<open>aadd_user\<close> of the new row.\<close>

definition new_organization :: "string \<Rightarrow> string \<Rightarrow> nat \<Rightarrow> db \<Rightarrow> db" where
  "new_organization name slug uid s =
     (let org = \<lparr>o_id = next_org s, o_name = name, o_slug = slug, o_open_membership = True, o_is_deleted = False\<rparr>
      in snd (aadd_user uid MEMBER (o_id org) (s\<lparr>orgs := orgs s @ [org], next_org := Suc (next_org s)\<rparr>)))"

definition create_organization ::
  "access_cfg \<Rightarrow> (string \<Rightarrow> string list \<Rightarrow> string) \<Rightarrow> auth \<Rightarrow> string \<Rightarrow> db \<Rightarrow> organization api" where
  "create_organization cfg auto_slug au name s =
     has_permission [''org:write'', ''org:admin''] au s
       (aget_object_or_404 [u \<leftarrow> user_rows s. u_id u = user_id au] s (\<lambda>user.
          raise_if (\<not> is_organization_creation_open cfg s \<and> \<not> u_superuser user)
            (HttpError 403 ''Organization creation is not open'') s
          (let slug = auto_slug name (map o_slug (orgs s)) in
           raise_if (slug \<in> set (map o_slug (orgs s))) IntegrityError s
             (let s2 = new_organization name slug (u_id user) s
              in aget [r \<leftarrow> get_organizations_queryset (u_id user) None s2. o_id r = next_org s] s2 (\<lambda>r. (Inr r, s2))))))"

definition update_organization :: "auth \<Rightarrow> string \<Rightarrow> string \<Rightarrow> db \<Rightarrow> organization api" where
  "update_organization au slug name s =
     has_permission [''org:write'', ''org:admin''] au s
       (aget_object_or_404 (get_organizations_queryset (user_id au) (Some slug) s) s (\<lambda>org.
          role_below (org_actor_role (user_id au) (Some slug) s) MANAGER s (\<lambda>below.
            raise_if below (HttpError 403 ''forbidden'') s
              (let org' = org\<lparr>o_name := name\<rparr> in (Inr org', save_org org' s)))))"

definition delete_organization :: "auth \<Rightarrow> string \<Rightarrow> db \<Rightarrow> unit api" where
  "delete_organization au slug s =
     has_permission [''org:admin''] au s
       (aget_object_or_404 (get_organizations_queryset (user_id au) (Some slug) s) s (\<lambda>org.
          role_below (org_actor_role (user_id au) (Some slug) s) MANAGER s (\<lambda>below.
            raise_if below (HttpError 403 ''forbidden'') s
              (let s' = save_org (org\<lparr>o_is_deleted := True\<rparr>) s
               in (Inr (), s'\<lparr>tasks := tasks s' @ [DeleteOrganization (o_id org)]\<rparr>)))))"

text \<open>The task that a deletion enqueues ends with the deletion of the row and its cascade.\<close>

definition delete_organization_task :: "nat \<Rightarrow> db \<Rightarrow> unit api" where
  "delete_organization_task org s =
     aget [r \<leftarrow> orgs s. o_id r = org] s (\<lambda>_.
       (Inr (), (remove_members (\<lambda>m. m_org m = org) (remove_teams (\<lambda>t. t_org t = org)
          (remove_projects (\<lambda>p. p_org p = org) s)))
          \<lparr>orgs := filter (\<lambda>r. o_id r \<noteq> org) (orgs s)\<rparr>))"

section \<open>Members\<close>

definition list_organization_members :: "auth \<Rightarrow> string \<Rightarrow> db \<Rightarrow> member list api" where
  "list_organization_members au slug s =
     has_permission [''member:read'', ''member:write'', ''member:admin''] au s
       (Inr (get_organization_users_queryset (user_id au) slug None s), s)"

definition list_team_organization_members :: "auth \<Rightarrow> string \<Rightarrow> string \<Rightarrow> db \<Rightarrow> member list api" where
  "list_team_organization_members au slug team_slug s =
     has_permission [''member:read'', ''member:write'', ''member:admin''] au s
       (Inr (get_organization_users_queryset (user_id au) slug (Some team_slug) s), s)"

definition members_by_id :: "nat \<Rightarrow> string \<Rightarrow> nat \<Rightarrow> db \<Rightarrow> member list" where
  "members_by_id uid slug member_id s =
     [m \<leftarrow> get_organization_users_queryset uid slug None s. m_id m = member_id]"

definition get_organization_member :: "auth \<Rightarrow> string \<Rightarrow> nat \<Rightarrow> db \<Rightarrow> member api" where
  "get_organization_member au slug member_id s =
     has_permission [''member:read'', ''member:write'', ''member:admin''] au s
       (aget_object_or_404 (members_by_id (user_id au) slug member_id s) s (\<lambda>m. (Inr m, s)))"

definition OrgRole :: "string list" where
  "OrgRole = [''member'', ''admin'', ''manager'', ''owner'']"

record member_in =
  in_role :: string
  in_teams :: "string list"
  in_email :: string
  in_reinvite :: bool

definition same_email :: "string \<Rightarrow> string \<Rightarrow> bool" where
  "same_email a b \<longleftrightarrow> lower a = lower b"

definition email_is_member :: "nat \<Rightarrow> string \<Rightarrow> db \<Rightarrow> bool" where
  "email_is_member org email s \<longleftrightarrow>
     (\<exists>m\<in>set (members s). \<exists>u\<in>set (user_rows s). m_org m = org \<and> m_user m = Some (u_id u) \<and> same_email (u_email u) email)"

definition count_invite :: "nat \<Rightarrow> db \<Rightarrow> db" where
  "count_invite uid s =
     s\<lparr>invite_attempts := (invite_attempts s)(uid \<mapsto>
        (case invite_attempts s uid of None \<Rightarrow> 1 | Some 0 \<Rightarrow> 1 | Some n \<Rightarrow> n + 1))\<rparr>"

definition add_to_teams :: "nat list \<Rightarrow> nat \<Rightarrow> db \<Rightarrow> db" where
  "add_to_teams tids mid s =
     s\<lparr>teams := map (\<lambda>t. if t_id t \<in> set tids then t\<lparr>t_members := m2m_add mid (t_members t)\<rparr> else t) (teams s)\<rparr>"

text \<open>\<open>get_or_create\<close> by address and organization: the row, whether it is new, and the tables.\<close>

definition get_or_create_member :: "nat \<Rightarrow> string \<Rightarrow> org_role \<Rightarrow> db \<Rightarrow> (member \<times> bool \<times> db) option" where
  "get_or_create_member org email role s =
     (case [m \<leftarrow> members s. m_org m = org \<and> m_email m = Some email] of
        [] \<Rightarrow> (let (m, s') = insert_member org None (Some email) role s in Some (m, True, s'))
      | [m] \<Rightarrow> Some (m, False, s)
      | _ \<Rightarrow> None)"

text \<open>The part of the invitation after the checks: the row, its teams, the mail and the answer.\<close>

definition invite_member :: "token_env \<Rightarrow> nat \<Rightarrow> string \<Rightarrow> nat \<Rightarrow> member_in \<Rightarrow> org_role \<Rightarrow> db \<Rightarrow> member api" where
  "invite_member te uid slug org payload role s =
     (case get_or_create_member org (in_email payload) role s of
        None \<Rightarrow> (Inl MultipleObjectsReturned, s)
      | Some (m, created, s1) \<Rightarrow>
          raise_if (\<not> created \<and> \<not> in_reinvite payload)
            (HttpError 409 (''The user '' @ in_email payload @ '' is already invited'')) s1
          (let tids = [t_id t. t \<leftarrow> teams s1, t_slug t \<in> set (in_teams payload) \<and> t_org t = org];
               s2 = (if tids \<noteq> [] then add_to_teams tids (m_id m) s1 else s1);
               s3 = send_invitation te (m_id m) s2
           in aget (members_by_id uid slug (m_id m) s3) s3 (\<lambda>r. (Inr r, s3))))"

text \<open>The query set joined once more with the membership of the user.\<close>

definition member_orgs :: "nat \<Rightarrow> string \<Rightarrow> db \<Rightarrow> organization list" where
  "member_orgs uid slug s =
     [org. org \<leftarrow> get_organizations_queryset uid (Some slug) s, a \<leftarrow> actor_rows uid (o_id org) s]"

definition create_organization_member ::
  "access_cfg \<Rightarrow> token_env \<Rightarrow> auth \<Rightarrow> string \<Rightarrow> member_in \<Rightarrow> db \<Rightarrow> member api" where
  "create_organization_member cfg te au slug payload s =
     (case (if in_role payload \<in> set OrgRole then from_string (in_role payload) else None) of
        None \<Rightarrow> (Inl Unprocessable, s)
      | Some role \<Rightarrow>
     has_permission [''member:write'', ''member:admin''] au s
       (aget [u \<leftarrow> user_rows s. u_id u = user_id au] s (\<lambda>user.
        raise_if (EMAIL_ENABLED cfg \<and> EMAIL_INVITE_REQUIRE_VERIFICATION cfg \<and>
                  \<not> (\<exists>e\<in>set (email_rows s). e_user e = u_id user \<and> e_verified e))
          (HttpError 403 ''User must have a verified email address'') s
        (aget_object_or_404 (member_orgs (u_id user) slug s) s (\<lambda>org.
         role_below (org_actor_role (u_id user) (Some slug) s) MANAGER s (\<lambda>below.
         raise_if below (HttpError 403 ''forbidden'') s
        (raise_if (\<not> ais_user_registration_open cfg s \<and>
                   \<not> (\<exists>u\<in>set (user_rows s). same_email (u_email u) (in_email payload)))
          (HttpError 403 ''Only existing users may be invited'') s
        (raise_if (email_is_member (o_id org) (in_email payload) s)
          (HttpError 409 (''The user '' @ in_email payload @ '' is already a member'')) s
        (raise_if (EMAIL_INVITE_THROTTLE_COUNT cfg \<le> (case invite_attempts s (u_id user) of None \<Rightarrow> 0 | Some n \<Rightarrow> n))
          (Throttled (EMAIL_INVITE_THROTTLE_COUNT cfg)) s
        (invite_member te (u_id user) slug (o_id org) payload role (count_invite (u_id user) s)))))))))))"

definition is_owner_record :: "nat \<Rightarrow> string \<Rightarrow> nat \<Rightarrow> db \<Rightarrow> bool" where
  "is_owner_record uid slug member_id s \<longleftrightarrow>
     (\<exists>org\<in>set (orgs s). o_slug org = slug \<and> owner_of s (o_id org) = Some member_id) \<and>
     (\<exists>m\<in>set (members s). m_id m = member_id \<and> m_user m = Some uid)"

definition delete_organization_member :: "auth \<Rightarrow> string \<Rightarrow> nat \<Rightarrow> db \<Rightarrow> unit api" where
  "delete_organization_member au slug member_id s =
     has_permission [''member:admin''] au s
       (raise_if (is_owner_record (user_id au) slug member_id s)
          (HttpError 400 ''User is organization owner. Transfer ownership first.'') s
        (aget_object_or_404 (members_by_id (user_id au) slug member_id s) s (\<lambda>m.
         role_below (member_actor_role (user_id au) slug s) MANAGER s (\<lambda>below.
         raise_if (below \<and> m_user m \<noteq> Some (user_id au)) (HttpError 403 ''Forbidden'') s
           (Inr (), remove_members (\<lambda>r. m_id r = m_id m) s)))))"

definition update_organization_member :: "auth \<Rightarrow> string \<Rightarrow> nat \<Rightarrow> string \<Rightarrow> db \<Rightarrow> member api" where
  "update_organization_member au slug member_id org_role s =
     (case (if org_role \<in> set OrgRole then from_string org_role else None) of
        None \<Rightarrow> (Inl Unprocessable, s)
      | Some role \<Rightarrow>
     has_permission [''member:write'', ''member:admin''] au s
       (aget_object_or_404 (members_by_id (user_id au) slug member_id s) s (\<lambda>m.
        role_below (member_actor_role (user_id au) slug s) MANAGER s (\<lambda>below.
        raise_if below (HttpError 403 ''Forbidden'') s
        (raise_if (role < OWNER \<and>
            \<not> (\<exists>r\<in>set (members s). m_id r \<noteq> member_id \<and> OWNER \<le> m_role r \<and>
                 (\<exists>org\<in>set (orgs s). o_id org = m_org r \<and> o_slug org = slug)))
           (ValidationError ''Organization must have at least one owner'') s
        (let m' = m\<lparr>m_role := role\<rparr> in (Inr m', save_member m' s)))))))"

definition achange_owner :: "nat \<Rightarrow> nat \<Rightarrow> db \<Rightarrow> db" where
  "achange_owner org new_owner s = s\<lparr>owner_of := (owner_of s)(org \<mapsto> new_owner)\<rparr>"

definition set_organization_owner :: "auth \<Rightarrow> string \<Rightarrow> nat \<Rightarrow> db \<Rightarrow> member api" where
  "set_organization_owner au slug member_id s =
     has_permission [''member:admin''] au s
       (aget_object_or_404 (members_by_id (user_id au) slug member_id s) s (\<lambda>new_owner.
          (case owner_of s (m_org new_owner) of
             None \<Rightarrow> (Inl DoesNotExist, s)
           | Some old \<Rightarrow>
               raise_if (\<not> ((\<exists>m\<in>set (members s). m_id m = old \<and> m_user m = Some (user_id au)) \<or>
                            (\<exists>a\<in>set (actor_rows (user_id au) (m_org new_owner) s). m_role a = OWNER)))
                 (HttpError 403 ''Only owner may set organization owner.'') s
                 (Inr new_owner, achange_owner (m_org new_owner) (m_id new_owner) s))))"

definition validate_token :: "token_env \<Rightarrow> nat \<Rightarrow> string \<Rightarrow> db \<Rightarrow> (member \<Rightarrow> 'b api) \<Rightarrow> 'b api" where
  "validate_token te org_user_id token s k =
     aget_object_or_404 [m \<leftarrow> members s. m_id m = org_user_id] s (\<lambda>m.
       raise_if (\<not> check_token te (m_id m) token) (HttpError 403 ''Invalid invite token'') s (k m))"

definition get_accept_invite :: "token_env \<Rightarrow> nat \<Rightarrow> string \<Rightarrow> db \<Rightarrow> (bool \<times> member) api" where
  "get_accept_invite te org_user_id token s = validate_token te org_user_id token s (\<lambda>m. (Inr (False, m), s))"

text \<open>
  \<open>aget_user\<close> reads the session: without one (a request with an API token) it is the anonymous
  user, which the foreign key refuses. Saving a second membership of a user breaks the unique
  constraint.
\<close>

definition accept_invite :: "token_env \<Rightarrow> auth \<Rightarrow> nat \<Rightarrow> string \<Rightarrow> bool \<Rightarrow> db \<Rightarrow> (bool \<times> member) api" where
  "accept_invite te au org_user_id token accept s =
     validate_token te org_user_id token s (\<lambda>m.
       if accept then
         (case auth_kind au of
            Token _ \<Rightarrow> (Inl ValueError, s)
          | Session \<Rightarrow>
              raise_if (\<exists>r\<in>set (actor_rows (user_id au) (m_org m) s). m_id r \<noteq> m_id m) IntegrityError s
              (let m' = m\<lparr>m_user := Some (user_id au), m_email := None\<rparr>; s' = save_member m' s
               in aget [r \<leftarrow> members s'. m_id r = m_id m] s' (\<lambda>r. (Inr (accept, r), s'))))
       else aget [r \<leftarrow> members s. m_id r = m_id m] s (\<lambda>r. (Inr (accept, r), s)))"


section \<open>What a handler can change\<close>

lemma found_organization:
  assumes "get_organizations_queryset uid slug s = [org]"
  shows "org \<in> set (orgs s)" "has_role uid MEMBER (o_id org) s"
  using in_organizations_queryset [of org uid slug s] assms by auto

lemma managed_organization:
  assumes "get_organizations_queryset uid slug s = [org]" "org_actor_role uid slug s = Some r" "\<not> r < MANAGER"
  shows "has_role uid MANAGER (o_id org) s"
  using org_actor_role_single [OF assms(1,2)] assms(3) by (auto intro: has_role_mono simp: not_less)

lemma found_member:
  assumes "members_by_id uid slug i s = [m]"
  shows "m \<in> set (members s)" "m_id m = i" "has_role uid MEMBER (m_org m) s"
    "m \<in> set (get_organization_users_queryset uid slug None s)"
proof -
  have "m \<in> set (members_by_id uid slug i s)" using assms by simp
  then have m: "m \<in> set (get_organization_users_queryset uid slug None s)" "m_id m = i"
    by (auto simp: members_by_id_def)
  then show "m \<in> set (members s)" "m_id m = i" "has_role uid MEMBER (m_org m) s"
    "m \<in> set (get_organization_users_queryset uid slug None s)"
    by (simp_all add: in_organization_users_queryset [OF m(1)])
qed

lemma managed_member:
  assumes "db_ok s" "members_by_id uid slug i s = [m]" "member_actor_role uid slug s = Some r" "\<not> r < MANAGER"
  shows "has_role uid MANAGER (m_org m) s"
  using member_actor_role_in [OF assms(1) found_member(4) [OF assms(2)] assms(3)] assms(4)
  by (auto intro: has_role_mono simp: not_less)

text \<open>
  One rule per handler: a property of the tables that holds before the request and after the writes
  that the handler can do holds after the request.
\<close>

lemma update_organization_rule:
  assumes "P s"
    and "\<And>org. org \<in> set (orgs s) \<Longrightarrow> has_role (user_id au) MANAGER (o_id org) s \<Longrightarrow> P (save_org (org\<lparr>o_name := name\<rparr>) s)"
  shows "P (snd (update_organization au slug name s))"
  using assms by (auto simp: update_organization_def Let_def found_organization managed_organization split: api_split)

lemma delete_organization_rule:
  assumes "P s"
    and "\<And>org. org \<in> set (orgs s) \<Longrightarrow> has_role (user_id au) MANAGER (o_id org) s \<Longrightarrow>
      P ((save_org (org\<lparr>o_is_deleted := True\<rparr>) s)\<lparr>tasks := tasks s @ [DeleteOrganization (o_id org)]\<rparr>)"
  shows "P (snd (delete_organization au slug s))"
proof -
  have [simp]: "tasks (save_org x s) = tasks s" for x by (simp add: save_org_def)
  show ?thesis
    using assms by (auto simp: delete_organization_def Let_def found_organization managed_organization split: api_split)
qed

lemma delete_organization_member_rule:
  assumes "db_ok s" and "P s"
    and "\<And>m. m \<in> set (members s) \<Longrightarrow> m_id m = i \<Longrightarrow> has_role (user_id au) MANAGER (m_org m) s \<or> m_user m = Some (user_id au) \<Longrightarrow>
      P (remove_members (\<lambda>r. m_id r = m_id m) s)"
  shows "P (snd (delete_organization_member au slug i s))"
  using assms(2,3) by (auto simp: delete_organization_member_def split: api_split)
    (metis found_member(1,2) managed_member [OF assms(1)])+

lemma update_organization_member_rule:
  assumes "db_ok s" and "P s"
    and "\<And>m r. m \<in> set (members s) \<Longrightarrow> m_id m = i \<Longrightarrow> has_role (user_id au) MANAGER (m_org m) s \<Longrightarrow>
      P (save_member (m\<lparr>m_role := r\<rparr>) s)"
  shows "P (snd (update_organization_member au slug i role s))"
  using assms(2,3) by (auto simp: update_organization_member_def Let_def split: api_split option.splits if_splits)
     (metis found_member(1) found_member(2) managed_member [OF assms(1)])+

lemma set_organization_owner_rule:
  assumes "P s"
    and "\<And>m. m \<in> set (members s) \<Longrightarrow> m_id m = i \<Longrightarrow> has_role (user_id au) MEMBER (m_org m) s \<Longrightarrow>
      has_role (user_id au) OWNER (m_org m) s \<or>
        (\<exists>w\<in>set (members s). owner_of s (m_org m) = Some (m_id w) \<and> m_user w = Some (user_id au)) \<Longrightarrow>
      P (achange_owner (m_org m) (m_id m) s)"
  shows "P (snd (set_organization_owner au slug i s))"
  using assms by (auto simp: set_organization_owner_def found_member split: api_split option.splits)
     (metis found_member(1-3) has_role_iff in_actor_rows order_refl)+

lemma single_join:
  assumes "\<And>x. x \<in> set xs \<Longrightarrow> f x \<noteq> []" "[x. x \<leftarrow> xs, a \<leftarrow> f x] = [y]"
  shows "xs = [y]"
proof (cases xs)
  case (Cons x xs')
  with assms have "f x \<noteq> []" by simp
  then obtain a as where "f x = a # as" by (cases "f x") auto
  moreover have "xs' = []"
    using assms Cons \<open>f x = a # as\<close> by (cases xs') auto
  ultimately show ?thesis using assms(2) Cons by simp
qed (use assms in simp)

lemma member_orgs_single:
  assumes "member_orgs uid slug s = [org]" shows "get_organizations_queryset uid (Some slug) s = [org]"
  using single_join [OF _ assms [unfolded member_orgs_def]] in_organizations_queryset [of _ uid "Some slug" s]
  by (simp add: actor_rows_empty)

lemma create_organization_member_rule:
  assumes "P s"
    and "\<And>org role. org \<in> set (orgs s) \<Longrightarrow> has_role (user_id au) MANAGER (o_id org) s \<Longrightarrow>
      P (snd (invite_member te (user_id au) slug (o_id org) payload role (count_invite (user_id au) s)))"
  shows "P (snd (create_organization_member cfg te au slug payload s))"
proof -
  note [intro!] = api_intro [where P = P, OF assms(1)]
  have "P (snd (invite_member te (u_id u) slug (o_id org) payload role (count_invite (u_id u) s)))"
    if "[u \<leftarrow> user_rows s. u_id u = user_id au] = [u]" "member_orgs (u_id u) slug s = [org]"
      "org_actor_role (u_id u) (Some slug) s = Some r" "\<not> r < MANAGER" for u org r role
    using assms(2) found_by_key(1) [OF that(1)] found_organization(1) [OF member_orgs_single [OF that(2)]]
      managed_organization [OF member_orgs_single [OF that(2)] that(3,4)] by simp
  then show ?thesis
    unfolding create_organization_member_def using assms(1) by (auto split: option.split)
qed

lemma accept_invite_rule:
  assumes "P s"
    and "\<And>m. m \<in> set (members s) \<Longrightarrow> m_id m = i \<Longrightarrow> check_token te i token \<Longrightarrow> auth_kind au = Session \<Longrightarrow>
      \<forall>r\<in>set (actor_rows (user_id au) (m_org m) s). m_id r = i \<Longrightarrow>
      P (save_member (m\<lparr>m_user := Some (user_id au), m_email := None\<rparr>) s)"
  shows "P (snd (accept_invite te au i token accept s))"
  using assms by (auto simp: accept_invite_def validate_token_def Let_def split: api_split auth_type.splits)
     (metis found_by_key)+

lemma create_organization_rule:
  assumes "slug = auto_slug name (map o_slug (orgs s))" and "P s"
    and "slug \<notin> o_slug ` set (orgs s) \<Longrightarrow> P (new_organization name slug (user_id au) s)"
  shows "P (snd (create_organization cfg auto_slug au name s))"
  unfolding create_organization_def Let_def assms(1) [symmetric]
proof (intro api_intro [where P = P, OF assms(2)])
  fix u assume u: "[u \<leftarrow> user_rows s. u_id u = user_id au] = [u]" and "slug \<notin> set (map o_slug (orgs s))"
  then show "P (snd (aget [r \<leftarrow> get_organizations_queryset (u_id u) None (new_organization name slug (u_id u) s). o_id r = next_org s]
      (new_organization name slug (u_id u) s) (\<lambda>r. (Inr r, new_organization name slug (u_id u) s))))"
    using assms(3) found_by_key(1) [OF u] by simp
qed


section \<open>The writes keep the tables sound\<close>

lemma db_ok_owner:
  assumes "db_ok s" "m \<in> set (members s)" "m_org m = org"
  shows "db_ok (s\<lparr>owner_of := (owner_of s)(org \<mapsto> m_id m)\<rparr>)"
  using assms by (auto simp: db_ok_def keys_ok_def uniques_ok_def refs_ok_def org_ids_def)

lemma ok_achange_owner: "db_ok s \<Longrightarrow> m \<in> set (members s) \<Longrightarrow> db_ok (achange_owner (m_org m) (m_id m) s)"
  unfolding achange_owner_def by (rule db_ok_owner) auto

lemma view_achange_owner: "org' \<noteq> org \<Longrightarrow> org_view org' (achange_owner org i s) = org_view org' s"
  by (simp add: achange_owner_def org_view_def)

lemma fresh_org: "db_ok s \<Longrightarrow> next_org s \<notin> org_ids s"
  by (auto simp: db_ok_def keys_ok_def org_ids_def)

lemma ok_insert_org:
  assumes "db_ok s" "o_slug x \<notin> o_slug ` set (orgs s)" "o_id x = next_org s"
  shows "db_ok (s\<lparr>orgs := orgs s @ [x], next_org := Suc (next_org s)\<rparr>)"
  using assms fresh_org [OF assms(1)]
  by (auto simp: db_ok_def keys_ok_def uniques_ok_def refs_ok_def org_ids_def unique_by_def less_Suc_eq)

lemma new_organization_eq:
  assumes "db_ok s"
  shows "new_organization name slug uid s =
    s\<lparr>orgs := orgs s @ [\<lparr>o_id = next_org s, o_name = name, o_slug = slug, o_open_membership = True, o_is_deleted = False\<rparr>],
      next_org := Suc (next_org s),
      members := members s @ [\<lparr>m_id = next_member s, m_org = next_org s, m_user = Some uid, m_email = None, m_role = OWNER\<rparr>],
      next_member := Suc (next_member s), owner_of := (owner_of s)(next_org s \<mapsto> next_member s)\<rparr>"
proof -
  have "m_org m \<noteq> next_org s" if "m \<in> set (members s)" for m
    using fresh_org [OF assms] db_ok_refs(4) [OF assms that] by metis
  then have "[m \<leftarrow> members s. m_org m = next_org s \<and> m_user m \<noteq> None] = []"
    by (simp add: filter_empty_conv)
  then show ?thesis by (simp add: new_organization_def aadd_user_def insert_member_def Let_def)
qed

lemma ok_new_organization:
  assumes "db_ok s" "slug \<notin> o_slug ` set (orgs s)"
  shows "db_ok (new_organization name slug uid s)"
proof -
  let ?x = "\<lparr>o_id = next_org s, o_name = name, o_slug = slug, o_open_membership = True, o_is_deleted = False\<rparr>"
  let ?m = "\<lparr>m_id = next_member s, m_org = next_org s, m_user = Some uid, m_email = None, m_role = OWNER\<rparr>"
  let ?s1 = "s\<lparr>orgs := orgs s @ [?x], next_org := Suc (next_org s)\<rparr>"
  have "db_ok ?s1" by (rule ok_insert_org) (use assms in auto)
  moreover have "\<forall>r\<in>set (members s). m_org r \<noteq> next_org s"
    using fresh_org [OF assms(1)] db_ok_refs(4) [OF assms(1)] by metis
  ultimately have "db_ok (snd (insert_member (next_org s) (Some uid) None OWNER ?s1))"
    by (intro ok_insert_member) (auto simp: org_ids_def)
  from db_ok_owner [OF this, of ?m "next_org s"] show ?thesis
    by (simp add: new_organization_eq [OF assms(1)] insert_member_def Let_def)
qed

lemma view_new_organization:
  assumes "db_ok s" "org \<noteq> next_org s"
  shows "org_view org (new_organization name slug uid s) = org_view org s"
  using assms by (simp add: new_organization_eq org_view_def)

lemma same_tables_count_invite [simp]: "same_tables s (count_invite uid s)"
  by (simp add: same_tables_def count_invite_def)

lemma same_tables_send_invitation [simp]: "same_tables s (send_invitation te i s)"
  by (simp add: same_tables_def send_invitation_def)

lemma ok_add_to_teams:
  assumes "db_ok s" "m \<in> set (members s)" "\<forall>t\<in>set (teams s). t_id t \<in> set tids \<longrightarrow> t_org t = m_org m"
  shows "db_ok (add_to_teams tids (m_id m) s)"
proof -
  let ?f = "\<lambda>t. if t_id t \<in> set tids then t\<lparr>t_members := m2m_add (m_id m) (t_members t)\<rparr> else t"
  have t: "teams (add_to_teams tids (m_id m) s) = map ?f (teams s)" by (simp add: add_to_teams_def)
  have "\<exists>a\<in>set (members s). m_id a = i \<and> m_org a = t_org (?f t)" if "t \<in> set (teams s)" "i \<in> set (t_members (?f t))" for t i
    using that assms db_ok_refs(2) [OF assms(1) that(1)] by (auto simp: m2m_add_def split: if_splits)
  then have "\<forall>t\<in>set (map ?f (teams s)). \<forall>i\<in>set (t_members t). \<exists>a\<in>set (members s). m_id a = i \<and> m_org a = t_org t"
    unfolding set_map by blast
  moreover have "\<forall>t\<in>set (map ?f (teams s)). t_org t \<in> org_ids s \<and> t_id t < next_team s \<and>
      (\<forall>i\<in>set (t_projects t). \<exists>p\<in>set (projects s). p_id p = i \<and> p_org p = t_org t)"
    using assms(1) by (auto simp: db_ok_def keys_ok_def refs_ok_def)
  moreover have "unique_by t_id (map ?f (teams s))" "unique_by (\<lambda>t. (t_slug t, t_org t)) (map ?f (teams s))"
    using assms(1) by (auto simp: unique_by_map db_ok_def keys_ok_def uniques_ok_def)
  ultimately show ?thesis
    using assms(1) unfolding db_ok_def keys_ok_def uniques_ok_def refs_ok_def t
    by (simp add: add_to_teams_def org_ids_def)
qed

lemma view_add_to_teams:
  assumes "\<forall>t\<in>set (teams s). t_id t \<in> set tids \<longrightarrow> t_org t \<noteq> org"
  shows "org_view org (add_to_teams tids i s) = org_view org s"
  using assms by (auto simp: add_to_teams_def org_view_def filter_map comp_def intro!: map_idI)


lemma get_or_create_member_cases:
  assumes "get_or_create_member org email role s = Some (m, created, s1)"
  obtains (found) "m \<in> set (members s)" "m_org m = org" "s1 = s"
  | (new) "\<forall>r\<in>set (members s). m_email r = Some email \<longrightarrow> m_org r \<noteq> org"
      "(m, s1) = insert_member org None (Some email) role s"
proof -
  consider "[m \<leftarrow> members s. m_org m = org \<and> m_email m = Some email] = []"
    | x xs where "[m \<leftarrow> members s. m_org m = org \<and> m_email m = Some email] = x # xs"
    by (cases "[m \<leftarrow> members s. m_org m = org \<and> m_email m = Some email]") auto
  then show ?thesis
  proof cases
    case 1
    with assms have "(m, s1) = insert_member org None (Some email) role s"
      by (auto simp: get_or_create_member_def split: prod.splits)
    with 1 show ?thesis by (intro new) (auto simp: filter_empty_conv)
  next
    case 2
    then have "x \<in> set [m \<leftarrow> members s. m_org m = org \<and> m_email m = Some email]" by simp
    then have "x \<in> set (members s)" "m_org x = org" by auto
    moreover have "m = x" "s1 = s" using 2 assms by (auto simp: get_or_create_member_def split: list.splits)
    ultimately show ?thesis by (intro found) simp_all
  qed
qed

text \<open>What the rest of an invitation does after the row is found or created.\<close>

lemma invite_member_rule:
  assumes "P s" and "\<And>m created s1 tids. get_or_create_member org (in_email payload) role s = Some (m, created, s1) \<Longrightarrow>
      (\<forall>t\<in>set (teams s1). t_id t \<in> set tids \<longrightarrow> (\<exists>u\<in>set (teams s1). t_id u = t_id t \<and> t_org u = org)) \<Longrightarrow>
      P s1 \<and> P (send_invitation te (m_id m) s1) \<and> P (send_invitation te (m_id m) (add_to_teams tids (m_id m) s1))"
  shows "P (snd (invite_member te uid slug org payload role s))"
proof (cases "get_or_create_member org (in_email payload) role s")
  case None
  then show ?thesis using assms(1) by (simp add: invite_member_def)
next
  case (Some x)
  obtain m created s1 where x: "x = (m, created, s1)" by (cases x)
  let ?tids = "[t_id t. t \<leftarrow> teams s1, t_slug t \<in> set (in_teams payload) \<and> t_org t = org]"
  have "\<forall>t\<in>set (teams s1). t_id t \<in> set ?tids \<longrightarrow> (\<exists>u\<in>set (teams s1). t_id u = t_id t \<and> t_org u = org)" by auto
  from assms(2) [OF Some [unfolded x] this] show ?thesis
    by (simp add: invite_member_def Some x Let_def raise_if_def)
qed

lemma team_org_of_id:
  "db_ok s \<Longrightarrow> t \<in> set (teams s) \<Longrightarrow> \<exists>u\<in>set (teams s). t_id u = t_id t \<and> t_org u = org \<Longrightarrow> t_org t = org"
  using unique_byD [OF db_okD(4)] by metis

lemma get_or_create_member_ok:
  assumes "db_ok s" "org \<in> org_ids s" "get_or_create_member org email role s = Some (m, created, s1)"
  shows "db_ok s1 \<and> m \<in> set (members s1) \<and> m_org m = org"
  using assms(3)
proof (cases rule: get_or_create_member_cases)
  case new
  have "db_ok (snd (insert_member org None (Some email) role s))"
    using ok_insert_member [OF assms(1,2), of None "Some email"] new(1) by simp
  then show ?thesis using new(2) by (auto simp: insert_member_def Let_def)
qed (use assms in simp)

lemma ok_invite_member:
  assumes "db_ok s" "org \<in> org_ids s"
  shows "db_ok (snd (invite_member te uid slug org payload role s))"
proof (rule invite_member_rule [where P = db_ok])
  fix m created s1 tids
  assume g: "get_or_create_member org (in_email payload) role s = Some (m, created, s1)"
    and t: "\<forall>t\<in>set (teams s1). t_id t \<in> set tids \<longrightarrow> (\<exists>u\<in>set (teams s1). t_id u = t_id t \<and> t_org u = org)"
  note ok = get_or_create_member_ok [OF assms g]
  then have "db_ok (add_to_teams tids (m_id m) s1)" using t team_org_of_id by (intro ok_add_to_teams) blast+
  with ok show "db_ok s1 \<and> db_ok (send_invitation te (m_id m) s1) \<and> db_ok (send_invitation te (m_id m) (add_to_teams tids (m_id m) s1))"
    using same_tables_ok [OF same_tables_send_invitation] by blast
qed (use assms in simp)

lemma view_invite_member:
  assumes "db_ok s" "org \<in> org_ids s" "org' \<noteq> org"
  shows "org_view org' (snd (invite_member te uid slug org payload role s)) = org_view org' s"
proof (rule invite_member_rule [where P = "\<lambda>s'. org_view org' s' = org_view org' s"])
  fix m created s1 tids
  assume g: "get_or_create_member org (in_email payload) role s = Some (m, created, s1)"
    and t: "\<forall>t\<in>set (teams s1). t_id t \<in> set tids \<longrightarrow> (\<exists>u\<in>set (teams s1). t_id u = t_id t \<and> t_org u = org)"
  have v1: "org_view org' s1 = org_view org' s"
    using g by (cases rule: get_or_create_member_cases) (use view_insert_member [OF assms(3)] in \<open>auto, metis snd_conv\<close>)
  have "org_view org' (add_to_teams tids (m_id m) s1) = org_view org' s1"
    using t team_org_of_id get_or_create_member_ok [OF assms(1,2) g] assms(3) by (intro view_add_to_teams) blast
  with v1 show "org_view org' s1 = org_view org' s \<and> org_view org' (send_invitation te (m_id m) s1) = org_view org' s \<and>
      org_view org' (send_invitation te (m_id m) (add_to_teams tids (m_id m) s1)) = org_view org' s"
    using same_tables_view [OF same_tables_send_invitation] by simp
qed simp

end
