(* ===== verification/Team_Api.thy ===== *)
theory Team_Api
  imports Access_Db Py_Int
begin

text \<open>
  The endpoints of teams, \<open>apps/teams/api.py\<close>, and of projects, their keys and the notification
  preferences of a user, \<open>apps/projects/api.py\<close>, with the \<open>save\<close> and \<open>delete\<close> of a project from
  \<open>apps/projects/models.py\<close>. The slug that the slug field generates, the random key of a project and
  the collation of the database are arguments.
\<close>

section \<open>Teams\<close>

definition get_team :: "auth \<Rightarrow> string \<Rightarrow> string \<Rightarrow> db \<Rightarrow> team api" where
  "get_team au slug team_slug s =
     has_permission [''team:read'', ''team:write'', ''team:admin''] au s
       (aget_object_or_404 (get_team_queryset slug (Some team_slug) None (Some (user_id au)) None s) s (\<lambda>t. (Inr t, s)))"

text \<open>The unique constraint of slug and organization, on saving a row and on inserting one.\<close>

definition team_slug_taken :: "string \<Rightarrow> nat \<Rightarrow> nat option \<Rightarrow> db \<Rightarrow> bool" where
  "team_slug_taken slug org self s \<longleftrightarrow>
     (\<exists>t\<in>set (teams s). t_slug t = slug \<and> t_org t = org \<and> Some (t_id t) \<noteq> self)"

definition update_team :: "auth \<Rightarrow> string \<Rightarrow> string \<Rightarrow> string \<Rightarrow> db \<Rightarrow> team api" where
  "update_team au slug team_slug new_slug s =
     has_permission [''team:write'', ''team:admin''] au s
       (aget_object_or_404 (get_team_queryset slug (Some team_slug) None (Some (user_id au)) None s) s (\<lambda>t.
          raise_if (team_slug_taken new_slug (t_org t) (Some (t_id t)) s) IntegrityError s
            (let t' = t\<lparr>t_slug := new_slug\<rparr> in (Inr t', save_team t' s))))"

definition delete_team :: "auth \<Rightarrow> string \<Rightarrow> string \<Rightarrow> db \<Rightarrow> unit api" where
  "delete_team au slug team_slug s =
     has_permission [''team:admin''] au s
       (let result = [t. t \<leftarrow> get_team_queryset slug (Some team_slug) None (Some (user_id au)) None s,
                         a \<leftarrow> actor_rows (user_id au) (t_org t) s, ADMIN \<le> m_role a]
        in raise_if (result = []) Http404 s (Inr (), remove_teams (\<lambda>t. t_id t \<in> t_id ` set result) s))"

definition list_teams :: "auth \<Rightarrow> string \<Rightarrow> db \<Rightarrow> team list api" where
  "list_teams au slug s =
     has_permission [''team:read'', ''team:write'', ''team:admin'', ''org:read'', ''org:write'', ''org:admin''] au s
       (Inr (get_team_queryset slug None None (Some (user_id au)) None s), s)"

text \<open>An organization with a membership of the user of at least the role: one row per membership.\<close>

definition orgs_with_role :: "nat \<Rightarrow> string \<Rightarrow> org_role \<Rightarrow> db \<Rightarrow> organization list" where
  "orgs_with_role uid slug role s =
     [org. org \<leftarrow> orgs_of_slug slug s, a \<leftarrow> actor_rows uid (o_id org) s, role \<le> m_role a]"

definition create_team :: "auth \<Rightarrow> string \<Rightarrow> string \<Rightarrow> db \<Rightarrow> team api" where
  "create_team au slug new_slug s =
     has_permission [''team:write'', ''team:admin'', ''org:admin'', ''org:write''] au s
       (aget_object_or_404 (orgs_with_role (user_id au) slug ADMIN s) s (\<lambda>org.
          raise_if (team_slug_taken new_slug (o_id org) None s) IntegrityError s
          (let first = map m_id (take 1 (actor_rows (user_id au) (o_id org) s));
               t = \<lparr>t_id = next_team s, t_org = o_id org, t_slug = new_slug, t_members = first, t_projects = []\<rparr>;
               s' = s\<lparr>teams := teams s @ [t], next_team := Suc (next_team s)\<rparr>
           in aget (get_team_queryset slug None None (Some (user_id au)) (Some (t_id t)) s') s' (\<lambda>r. (Inr r, s')))))"

datatype me_id = Me | MemberId nat

definition org_user_qs :: "string \<Rightarrow> db \<Rightarrow> (member \<times> organization) list" where
  "org_user_qs slug s = [(m, org). m \<leftarrow> members s, org \<leftarrow> orgs_of_slug slug s, o_id org = m_org m]"

text \<open>Joining an open organization's team oneself needs no role; otherwise the role depends on being in the team.\<close>

definition may_modify_team :: "nat \<Rightarrow> team \<Rightarrow> member \<Rightarrow> organization \<Rightarrow> db \<Rightarrow> bool" where
  "may_modify_team uid t m org s \<longleftrightarrow>
     o_open_membership org \<and> m_user m = Some uid \<or>
     (let in_team = (\<exists>a\<in>set (members s). m_id a \<in> set (t_members t) \<and> m_user a = Some uid);
          required_role = (if in_team then ADMIN else MANAGER)
      in \<exists>a\<in>set (actor_rows uid (m_org m) s). required_role \<le> m_role a)"

definition modify_member :: "nat \<Rightarrow> team \<Rightarrow> bool \<Rightarrow> db \<Rightarrow> member \<times> organization \<Rightarrow> team api" where
  "modify_member uid t add_member s r =
     (let (m, org) = r in
      raise_if (\<not> may_modify_team uid t m org s) (HttpError 403 ''Must be admin to modify teams'') s
        (let t' = (if add_member then t\<lparr>t_members := m2m_add (m_id m) (t_members t)\<rparr>
                   else t\<lparr>t_members := removeAll (m_id m) (t_members t)\<rparr>)
         in (Inr t', save_team t' s)))"

definition modify_member_for_team :: "string \<Rightarrow> me_id \<Rightarrow> string \<Rightarrow> nat \<Rightarrow> bool \<Rightarrow> db \<Rightarrow> team api" where
  "modify_member_for_team slug member_id team_slug uid add_member s =
     aget_object_or_404 (get_team_queryset slug (Some team_slug) None (Some uid) None s) s (\<lambda>t.
       case member_id of
         Me \<Rightarrow> aget [r \<leftarrow> org_user_qs slug s. m_user (fst r) = Some uid] s (modify_member uid t add_member s)
       | MemberId i \<Rightarrow> aget_object_or_404 [r \<leftarrow> org_user_qs slug s. m_id (fst r) = i] s (modify_member uid t add_member s))"

definition add_member_to_team :: "auth \<Rightarrow> string \<Rightarrow> me_id \<Rightarrow> string \<Rightarrow> db \<Rightarrow> team api" where
  "add_member_to_team au slug member_id team_slug s =
     has_permission [''team:write'', ''team:admin''] au s
       (modify_member_for_team slug member_id team_slug (user_id au) True s)"

definition delete_member_from_team :: "auth \<Rightarrow> string \<Rightarrow> me_id \<Rightarrow> string \<Rightarrow> db \<Rightarrow> team api" where
  "delete_member_from_team au slug member_id team_slug s =
     has_permission [''team:write'', ''team:admin''] au s
       (modify_member_for_team slug member_id team_slug (user_id au) False s)"

definition list_project_teams :: "auth \<Rightarrow> string \<Rightarrow> string \<Rightarrow> db \<Rightarrow> team list api" where
  "list_project_teams au slug project_slug s =
     has_permission [''team:read'', ''team:write'', ''team:admin'', ''org:read'', ''org:write'', ''org:admin''] au s
       (Inr (get_team_queryset slug None (Some project_slug) (Some (user_id au)) None s), s)"

text \<open>A project of the organization, deleted or not, for a user with at least the role.\<close>

definition projects_with_role :: "nat \<Rightarrow> string \<Rightarrow> string \<Rightarrow> org_role \<Rightarrow> db \<Rightarrow> project list" where
  "projects_with_role uid slug project_slug role s =
     [p. p \<leftarrow> projects s, p_slug p = project_slug, org \<leftarrow> orgs_of_slug slug s, o_id org = p_org p,
         a \<leftarrow> actor_rows uid (o_id org) s, role \<le> m_role a]"

definition add_team_to_project :: "auth \<Rightarrow> string \<Rightarrow> string \<Rightarrow> string \<Rightarrow> db \<Rightarrow> project api" where
  "add_team_to_project au slug project_slug team_slug s =
     has_permission [''project.write'', ''project:admin''] au s
       (aget_object_or_404 (projects_with_role (user_id au) slug project_slug MANAGER s) s (\<lambda>p.
        aget_object_or_404 (get_team_queryset slug (Some team_slug) None None None s) s (\<lambda>t.
          (Inr p, save_team (t\<lparr>t_projects := m2m_add (p_id p) (t_projects t)\<rparr>) s))))"

definition delete_team_from_project :: "auth \<Rightarrow> string \<Rightarrow> string \<Rightarrow> string \<Rightarrow> db \<Rightarrow> project api" where
  "delete_team_from_project au slug project_slug team_slug s =
     has_permission [''project.write'', ''project:admin''] au s
       (aget_object_or_404 (get_team_queryset slug (Some team_slug) (Some project_slug) None None s) s (\<lambda>t.
        aget_object_or_404 (projects_with_role (user_id au) slug project_slug MANAGER s) s (\<lambda>p.
          (Inr p, save_team (t\<lparr>t_projects := removeAll (p_id p) (t_projects t)\<rparr>) s))))"

section \<open>Projects\<close>

text \<open>
  The payload: a field is \<open>None\<close> when the client did not set it. An empty slug stands for the null
  and the empty one, for both of which the slug field generates a slug.
\<close>

record project_in =
  pi_name :: string
  pi_slug :: "string option"
  pi_platform :: "string option option"
  pi_throttle_rate :: "int option option"

definition list_projects :: "(string \<Rightarrow> nat) \<Rightarrow> auth \<Rightarrow> db \<Rightarrow> project list api" where
  "list_projects collate au s =
     has_permission [''project:read''] au s
       (Inr (sort_key (collate \<circ> p_name) (get_projects_queryset (user_id au) None None s)), s)"

definition projects_by_slug :: "nat \<Rightarrow> string \<Rightarrow> string \<Rightarrow> db \<Rightarrow> project list" where
  "projects_by_slug uid slug project_slug s =
     [p \<leftarrow> get_projects_queryset uid (Some slug) None s. p_slug p = project_slug]"

definition get_project_api :: "auth \<Rightarrow> string \<Rightarrow> string \<Rightarrow> db \<Rightarrow> project api" where
  "get_project_api au slug project_slug s =
     has_permission [''project:read'', ''project:write'', ''project:admin''] au s
       (aget_object_or_404 (projects_by_slug (user_id au) slug project_slug s) s (\<lambda>p. (Inr p, s)))"

text \<open>What the columns of a project refuse: a null or negative rate, one above a small integer, a taken slug.\<close>

definition small_int_error :: "int option \<Rightarrow> api_error option" where
  "small_int_error v =
     (case v of None \<Rightarrow> Some IntegrityError
      | Some i \<Rightarrow> if i < 0 then Some IntegrityError else if i > 32767 then Some DataError else None)"

definition project_slug_taken :: "string \<Rightarrow> nat \<Rightarrow> nat option \<Rightarrow> db \<Rightarrow> bool" where
  "project_slug_taken slug org self s \<longleftrightarrow>
     (\<exists>p\<in>set (projects s). p_slug p = slug \<and> p_org p = org \<and> Some (p_id p) \<noteq> self)"

definition update_project ::
  "(string option \<Rightarrow> string \<Rightarrow> string list \<Rightarrow> string) \<Rightarrow> auth \<Rightarrow> string \<Rightarrow> string \<Rightarrow> project_in \<Rightarrow> db \<Rightarrow> project api" where
  "update_project auto_slug au slug project_slug payload s =
     has_permission [''project:write'', ''project:admin''] au s
       (aget_object_or_404 (projects_by_slug (user_id au) slug project_slug s) s (\<lambda>p.
          (let slug1 = (case pi_slug payload of None \<Rightarrow> p_slug p | Some x \<Rightarrow> x);
               slug2 = (if slug1 = '''' then auto_slug None (pi_name payload) [p_slug q. q \<leftarrow> projects s, p_org q = p_org p] else slug1);
               rate = (case pi_throttle_rate payload of None \<Rightarrow> Some (p_throttle_rate p) | Some v \<Rightarrow> v)
           in case small_int_error rate of
                Some e \<Rightarrow> (Inl e, s)
              | None \<Rightarrow>
                  raise_if (project_slug_taken slug2 (p_org p) (Some (p_id p)) s) IntegrityError s
                  (let p' = p\<lparr>p_name := pi_name payload, p_slug := slug2,
                              p_platform := (case pi_platform payload of None \<Rightarrow> p_platform p | Some v \<Rightarrow> v),
                              p_throttle_rate := the rate\<rparr>
                   in (Inr p', save_project p' s)))))"

definition delete_project :: "auth \<Rightarrow> string \<Rightarrow> string \<Rightarrow> db \<Rightarrow> unit api" where
  "delete_project au slug project_slug s =
     has_permission [''project:admin''] au s
       (aget_object_or_404 [p. p \<leftarrow> projects_by_slug (user_id au) slug project_slug s,
                              a \<leftarrow> actor_rows (user_id au) (p_org p) s, ADMIN \<le> m_role a] s (\<lambda>p.
          (let s' = save_project (p\<lparr>p_is_deleted := True\<rparr>) s
           in (Inr (), s'\<lparr>tasks := tasks s' @ [DeleteProject (p_id p)]\<rparr>))))"

text \<open>The task that a deletion enqueues ends with the deletion of the row and its cascade.\<close>

definition delete_project_task :: "nat \<Rightarrow> db \<Rightarrow> unit api" where
  "delete_project_task pid s =
     aget [p \<leftarrow> projects s. p_id p = pid] s (\<lambda>p. (Inr (), remove_projects (\<lambda>r. p_id r = pid) s))"

definition list_team_projects :: "(string \<Rightarrow> nat) \<Rightarrow> auth \<Rightarrow> string \<Rightarrow> string \<Rightarrow> db \<Rightarrow> project list api" where
  "list_team_projects collate au slug team_slug s =
     has_permission [''project:read''] au s
       (Inr (sort_key (collate \<circ> p_name) (get_projects_queryset (user_id au) (Some slug) (Some team_slug) s)), s)"

text \<open>\<open>Project.save\<close> of a new row also creates its first key.\<close>

definition save_new_project :: "project \<Rightarrow> nat \<Rightarrow> db \<Rightarrow> db" where
  "save_new_project p new_key s =
     s\<lparr>projects := projects s @
         [p\<lparr>p_keys := [\<lparr>k_public_key = new_key, k_is_active = True, k_name = '''', k_rate_limit = None\<rparr>]\<rparr>],
       next_project := Suc (next_project s)\<rparr>"

definition create_project ::
  "(string option \<Rightarrow> string \<Rightarrow> string list \<Rightarrow> string) \<Rightarrow> nat \<Rightarrow> auth \<Rightarrow> string \<Rightarrow> string \<Rightarrow> project_in \<Rightarrow> db \<Rightarrow> project api" where
  "create_project auto_slug new_key au slug team_slug payload s =
     has_permission [''project:write'', ''project:admin''] au s
       (aget_object_or_404 [t. t \<leftarrow> teams s, t_slug t = team_slug, org \<leftarrow> orgs_of_slug slug s, o_id org = t_org t,
                              a \<leftarrow> actor_rows (user_id au) (o_id org) s, ADMIN \<le> m_role a] s (\<lambda>t.
        aget_object_or_404 (orgs_with_role (user_id au) slug ADMIN s) s (\<lambda>org.
          (let rate = (case pi_throttle_rate payload of None \<Rightarrow> Some 0 | Some v \<Rightarrow> v);
               slug' = auto_slug (pi_slug payload) (pi_name payload) [p_slug q. q \<leftarrow> projects s, p_org q = o_id org]
           in case small_int_error rate of
                Some e \<Rightarrow> (Inl e, s)
              | None \<Rightarrow>
                  raise_if (project_slug_taken slug' (o_id org) None s) IntegrityError s
                  (let p = \<lparr>p_id = next_project s, p_org = o_id org, p_slug = slug', p_name = pi_name payload,
                            p_platform = (case pi_platform payload of None \<Rightarrow> None | Some v \<Rightarrow> v),
                            p_throttle_rate = the rate, p_is_deleted = False, p_keys = []\<rparr>;
                       s1 = save_new_project p new_key s;
                       s2 = save_team (t\<lparr>t_projects := m2m_add (p_id p) (t_projects t)\<rparr>) s1
                   in aget [r \<leftarrow> get_projects_queryset (user_id au) None None s2. p_id r = p_id p] s2 (\<lambda>r. (Inr r, s2)))))))"

text \<open>The \<open>query\<close> parameter: parts \<open>team:x\<close> and \<open>!team:x\<close> filter on the teams of a project.\<close>

definition split_words :: "string \<Rightarrow> string list" where
  "split_words q = filter (\<lambda>w. w \<noteq> '''') (split_char (CHR '' '') (map (\<lambda>c. if is_space c then CHR '' '' else c) q))"

definition has_team_slug :: "string \<Rightarrow> project \<Rightarrow> db \<Rightarrow> bool" where
  "has_team_slug ts p s \<longleftrightarrow> (\<exists>t\<in>set (teams s). p_id p \<in> set (t_projects t) \<and> t_slug t = ts)"

definition team_filter :: "db \<Rightarrow> string \<Rightarrow> project list \<Rightarrow> project list" where
  "team_filter s part ps =
     (let name = takeWhile (\<lambda>c. c \<noteq> CHR '':'') part; rest = dropWhile (\<lambda>c. c \<noteq> CHR '':'') part in
      case rest of
        [] \<Rightarrow> ps
      | _ # val \<Rightarrow>
          if name = ''team'' then filter (\<lambda>p. has_team_slug val p s) ps
          else if name = ''!team'' then filter (\<lambda>p. \<not> has_team_slug val p s) ps
          else ps)"

definition list_organization_projects :: "(string \<Rightarrow> nat) \<Rightarrow> auth \<Rightarrow> string \<Rightarrow> string option \<Rightarrow> db \<Rightarrow> project list api" where
  "list_organization_projects collate au slug query s =
     has_permission [''project:read''] au s
       (let ps = sort_key (collate \<circ> p_name) (get_projects_queryset (user_id au) (Some slug) None s)
        in (Inr (case query of None \<Rightarrow> ps | Some q \<Rightarrow> fold (team_filter s) (split_words q) ps), s))"

section \<open>Project keys\<close>

record key_in =
  ki_name :: "string option"
  ki_rate_limit :: "(int \<times> int) option"

definition list_project_keys :: "auth \<Rightarrow> string \<Rightarrow> string \<Rightarrow> db \<Rightarrow> (project \<times> project_key) list api" where
  "list_project_keys au slug project_slug s =
     has_permission [''project:read'', ''project:write'', ''project:admin''] au s
       (Inr (get_project_keys_queryset (user_id au) slug project_slug None s), s)"

definition get_project_key :: "auth \<Rightarrow> string \<Rightarrow> string \<Rightarrow> nat \<Rightarrow> db \<Rightarrow> (project \<times> project_key) api" where
  "get_project_key au slug project_slug key s =
     has_permission [''project:read'', ''project:write'', ''project:admin''] au s
       (aget_object_or_404 (get_project_keys_queryset (user_id au) slug project_slug (Some key) s) s (\<lambda>k. (Inr k, s)))"

definition update_project_key :: "auth \<Rightarrow> string \<Rightarrow> string \<Rightarrow> nat \<Rightarrow> key_in \<Rightarrow> db \<Rightarrow> (project \<times> project_key) api" where
  "update_project_key au slug project_slug key payload s =
     has_permission [''project:write'', ''project:admin''] au s
       (aget_object_or_404 (get_project_keys_queryset (user_id au) slug project_slug (Some key) s) s (\<lambda>k. (Inr k, s)))"

text \<open>The name column refuses the null that the schema puts for a name the client left out.\<close>

definition create_project_key :: "nat \<Rightarrow> auth \<Rightarrow> string \<Rightarrow> string \<Rightarrow> key_in \<Rightarrow> db \<Rightarrow> (project \<times> project_key) api" where
  "create_project_key new_key au slug project_slug payload s =
     has_permission [''project:write'', ''project:admin''] au s
       (aget_object_or_404 (projects_by_slug (user_id au) slug project_slug s) s (\<lambda>p.
          (case ki_name payload of
             None \<Rightarrow> (Inl IntegrityError, s)
           | Some name \<Rightarrow>
               (case List.find (\<lambda>e. e \<noteq> None)
                      (case ki_rate_limit payload of None \<Rightarrow> [] | Some (c, w) \<Rightarrow> [small_int_error (Some c), small_int_error (Some w)]) of
                  Some e \<Rightarrow> (Inl (the e), s)
                | None \<Rightarrow>
                    (let k = \<lparr>k_public_key = new_key, k_is_active = True, k_name = name,
                              k_rate_limit = map_option (\<lambda>(c, w). (nat c, nat w)) (ki_rate_limit payload)\<rparr>
                     in (Inr (p, k), save_project (p\<lparr>p_keys := p_keys p @ [k]\<rparr>) s))))))"

definition delete_project_key :: "auth \<Rightarrow> string \<Rightarrow> string \<Rightarrow> nat \<Rightarrow> db \<Rightarrow> unit api" where
  "delete_project_key au slug project_slug key s =
     has_permission [''project:admin''] au s
       (let result = [r. r \<leftarrow> get_project_keys_queryset (user_id au) slug project_slug (Some key) s,
                         a \<leftarrow> actor_rows (user_id au) (p_org (fst r)) s, ADMIN \<le> m_role a]
        in raise_if (result = []) Http404 s
             (Inr (), s\<lparr>projects := map (\<lambda>p. if p_id p \<in> (p_id \<circ> fst) ` set result
                                            then p\<lparr>p_keys := filter (\<lambda>k. k_public_key k \<noteq> key) (p_keys p)\<rparr> else p)
                                 (projects s)\<rparr>))"

section \<open>Notification preferences\<close>

definition user_notification_alerts :: "auth \<Rightarrow> me_id \<Rightarrow> db \<Rightarrow> (nat \<Rightarrow> int option) api" where
  "user_notification_alerts au target s =
     raise_if (target \<noteq> MemberId (user_id au) \<and> target \<noteq> Me) Http404 s
       (Inr (\<lambda>pid. user_alerts s (user_id au, pid)), s)"

definition update_user_notification_alerts :: "auth \<Rightarrow> me_id \<Rightarrow> (string \<times> int) list \<Rightarrow> db \<Rightarrow> unit api" where
  "update_user_notification_alerts au target items s =
     raise_if (target \<noteq> MemberId (user_id au) \<and> target \<noteq> Me) Http404 s
       (case items of
          [(project_id, status)] \<Rightarrow>
            raise_if (status \<notin> {1, 0, -1}) (ValidationError ''Invalid status, must be -1, 0, or 1'') s
            (case py_int 10 project_id of
               None \<Rightarrow> (Inl ValueError, s)
             | Some i \<Rightarrow>
                 if status = -1 then
                   (Inr (), if i < 0 then s else s\<lparr>user_alerts := (user_alerts s)((user_id au, nat i) := None)\<rparr>)
                 else raise_if (i < 0 \<or> nat i \<notin> p_id ` set (projects s)) IntegrityError s
                   (Inr (), s\<lparr>user_alerts := (user_alerts s)((user_id au, nat i) \<mapsto> status)\<rparr>))
        | _ \<Rightarrow> (Inl (ValidationError ''Invalid alert format, expected one value''), s))"


section \<open>What a handler can change\<close>

text \<open>
  The rows a handler may write: a version of a row that keeps its key and organization, in an
  organization where the user has the role, and that breaks no constraint.
\<close>

definition team_write :: "nat \<Rightarrow> org_role \<Rightarrow> db \<Rightarrow> team \<Rightarrow> bool" where
  "team_write uid role s t' \<longleftrightarrow>
     (\<exists>t\<in>set (teams s). t_id t' = t_id t \<and> t_org t' = t_org t \<and> has_role uid role (t_org t) s \<and>
        \<not> team_slug_taken (t_slug t') (t_org t) (Some (t_id t)) s \<and>
        (\<forall>i\<in>set (t_members t'). \<exists>m\<in>set (members s). m_id m = i \<and> m_org m = t_org t) \<and>
        (\<forall>i\<in>set (t_projects t'). \<exists>p\<in>set (projects s). p_id p = i \<and> p_org p = t_org t))"

definition project_write :: "nat \<Rightarrow> org_role \<Rightarrow> db \<Rightarrow> project \<Rightarrow> bool" where
  "project_write uid role s p' \<longleftrightarrow>
     (\<exists>p\<in>set (projects s). p_id p' = p_id p \<and> p_org p' = p_org p \<and> has_role uid role (p_org p) s \<and>
        \<not> project_slug_taken (p_slug p') (p_org p) (Some (p_id p)) s)"

lemma ok_team_write: "db_ok s \<Longrightarrow> team_write uid role s t' \<Longrightarrow> db_ok (save_team t' s)"
  unfolding team_write_def team_slug_taken_def by (elim bexE conjE, rule ok_save_team) (auto dest: sym)

lemma view_team_write:
  "db_ok s \<Longrightarrow> team_write uid role s t' \<Longrightarrow> \<not> has_role uid role org s \<Longrightarrow> org_view org (save_team t' s) = org_view org s"
  unfolding team_write_def by (auto intro: view_save_team)

lemma ok_project_write: "db_ok s \<Longrightarrow> project_write uid role s p' \<Longrightarrow> db_ok (save_project p' s)"
  unfolding project_write_def project_slug_taken_def by (elim bexE conjE, rule ok_save_project) (auto dest: sym)

lemma view_project_write:
  "db_ok s \<Longrightarrow> project_write uid role s p' \<Longrightarrow> \<not> has_role uid role org s \<Longrightarrow> org_view org (save_project p' s) = org_view org s"
  unfolding project_write_def by (auto intro: view_save_project)

lemma own_team_slug: "db_ok s \<Longrightarrow> t \<in> set (teams s) \<Longrightarrow> \<not> team_slug_taken (t_slug t) (t_org t) (Some (t_id t)) s"
  using unique_byD [of "\<lambda>t. (t_slug t, t_org t)" "teams s"]
  by (auto simp: team_slug_taken_def db_ok_def uniques_ok_def)

lemma own_project_slug: "db_ok s \<Longrightarrow> p \<in> set (projects s) \<Longrightarrow> \<not> project_slug_taken (p_slug p) (p_org p) (Some (p_id p)) s"
  using unique_byD [of "\<lambda>p. (p_org p, p_slug p)" "projects s"]
  by (auto simp: project_slug_taken_def db_ok_def uniques_ok_def)

lemma set_m2m_add [simp]: "set (m2m_add i xs) = insert i (set xs)"
  by (auto simp: m2m_add_def)

text \<open>A team found for the user keeps its row valid when only its relations change.\<close>

lemma team_write_relations:
  assumes "db_ok s" "t \<in> set (teams s)" "has_role uid role (t_org t) s"
    and "\<forall>i\<in>set ms. i \<in> set (t_members t) \<or> (\<exists>m\<in>set (members s). m_id m = i \<and> m_org m = t_org t)"
    and "\<forall>i\<in>set ps. i \<in> set (t_projects t) \<or> (\<exists>p\<in>set (projects s). p_id p = i \<and> p_org p = t_org t)"
  shows "team_write uid role s (t\<lparr>t_members := ms, t_projects := ps\<rparr>)"
  unfolding team_write_def
  using assms db_ok_refs(2,3) [OF assms(1,2)] own_team_slug [OF assms(1,2)] by (intro bexI [of _ t]) auto

lemma single_in: "rows = [x] \<Longrightarrow> x \<in> set rows"
  by simp

lemma update_team_rule:
  assumes ok: "db_ok s" and u: "user_id au \<noteq> 0" and "P s" and "\<And>t. team_write (user_id au) MEMBER s t \<Longrightarrow> P (save_team t s)"
  shows "P (snd (update_team au slug team_slug new_slug s))"
proof -
  have "team_write (user_id au) MEMBER s (t\<lparr>t_slug := new_slug\<rparr>)"
    if "get_team_queryset slug (Some team_slug) None (Some (user_id au)) None s = [t]"
      "\<not> team_slug_taken new_slug (t_org t) (Some (t_id t)) s" for t
    using in_team_queryset(3) [OF single_in [OF that(1)] refl u] that(2) db_ok_refs(2,3) [OF ok]
      in_team_queryset(1) [OF single_in [OF that(1)]]
    unfolding team_write_def by (intro bexI [of _ t]) auto
  then show ?thesis
    unfolding update_team_def Let_def by (intro api_intro [where P = P, OF assms(3)]) (simp add: assms(4))
qed

lemma delete_team_rule:
  assumes ok: "db_ok s" and "P s"
    and "\<And>gone. \<forall>t\<in>set (teams s). gone t \<longrightarrow> has_role (user_id au) ADMIN (t_org t) s \<Longrightarrow> P (remove_teams gone s)"
  shows "P (snd (delete_team au slug team_slug s))"
proof -
  let ?rows = "[t. t \<leftarrow> get_team_queryset slug (Some team_slug) None (Some (user_id au)) None s,
                   a \<leftarrow> actor_rows (user_id au) (t_org t) s, ADMIN \<le> m_role a]"
  have "t \<in> set (teams s) \<and> has_role (user_id au) ADMIN (t_org t) s" if "t \<in> set ?rows" for t
    using that by (auto simp: has_role_iff actor_Int dest: in_team_queryset(1) split: if_splits)
  then have "\<forall>t\<in>set (teams s). t_id t \<in> t_id ` set ?rows \<longrightarrow> has_role (user_id au) ADMIN (t_org t) s"
    using unique_byD [OF db_okD(4) [OF ok]] unfolding image_iff by blast
  from assms(3) [OF this] show ?thesis
    unfolding delete_team_def Let_def by (intro api_intro [where P = P, OF assms(2)]) (simp only: snd_conv)
qed

lemma in_orgs_with_role:
  assumes "orgs_with_role uid slug role s = [org]"
  shows "org \<in> set (orgs s)" "o_slug org = slug" "has_role uid role (o_id org) s"
  using single_in [OF assms] by (auto simp: orgs_with_role_def actor_Int split: if_splits)

lemma in_projects_with_role:
  assumes "projects_with_role uid slug project_slug role s = [p]"
  shows "p \<in> set (projects s)" "has_role uid role (p_org p) s" "\<exists>org\<in>set (orgs s). o_id org = p_org p \<and> o_slug org = slug"
  using single_in [OF assms] by (auto simp: projects_with_role_def actor_Int split: if_splits)


lemma create_team_rule:
  assumes ok: "db_ok s" and "P s"
    and "\<And>t. has_role (user_id au) ADMIN (t_org t) s \<Longrightarrow> t_org t \<in> org_ids s \<Longrightarrow> t_id t = next_team s \<Longrightarrow> t_projects t = [] \<Longrightarrow>
      \<forall>i\<in>set (t_members t). \<exists>m\<in>set (members s). m_id m = i \<and> m_org m = t_org t \<Longrightarrow>
      \<not> team_slug_taken (t_slug t) (t_org t) None s \<Longrightarrow>
      P (s\<lparr>teams := teams s @ [t], next_team := Suc (next_team s)\<rparr>)"
  shows "P (snd (create_team au slug new_slug s))"
proof -
  have "P (s\<lparr>teams := teams s @ [t], next_team := Suc (next_team s)\<rparr>)"
    if "orgs_with_role (user_id au) slug ADMIN s = [org]" "\<not> team_slug_taken new_slug (o_id org) None s"
      "t = \<lparr>t_id = next_team s, t_org = o_id org, t_slug = new_slug,
            t_members = map m_id (take 1 (actor_rows (user_id au) (o_id org) s)), t_projects = []\<rparr>" for org t
  proof (rule assms(3))
    show "\<forall>i\<in>set (t_members t). \<exists>m\<in>set (members s). m_id m = i \<and> m_org m = t_org t"
      using that(3) by (auto dest!: in_set_takeD)
  qed (use that in_orgs_with_role [OF that(1)] in \<open>auto simp: org_ids_def\<close>)
  then show ?thesis
    unfolding create_team_def Let_def by (intro api_intro [where P = P, OF assms(2)]) simp
qed

lemma same_org_by_slug:
  "db_ok s \<Longrightarrow> \<exists>org\<in>set (orgs s). o_id org = a \<and> o_slug org = slug \<Longrightarrow>
   \<exists>org\<in>set (orgs s). o_id org = b \<and> o_slug org = slug \<Longrightarrow> a = b"
  using slug_organization by metis

text \<open>
  The write behind joining and leaving: the team found for the caller, one membership of its
  organization, named by the request, and the permission that the handler asks for.
\<close>

definition named_member :: "nat \<Rightarrow> me_id \<Rightarrow> member \<Rightarrow> bool" where
  "named_member uid target m \<longleftrightarrow> (case target of Me \<Rightarrow> m_user m = Some uid | MemberId i \<Rightarrow> m_id m = i)"

lemma modify_member_for_team_rule:
  assumes ok: "db_ok s" and u: "uid \<noteq> 0" and "P s"
    and "\<And>t' t m org. team_write uid MEMBER s t' \<Longrightarrow> t_org t' = t_org t \<Longrightarrow> t \<in> set (teams s) \<Longrightarrow>
      team_slug = '''' \<or> t_slug t = team_slug \<Longrightarrow> m \<in> set (members s) \<Longrightarrow> m_org m = t_org t \<Longrightarrow>
      named_member uid member_id m \<Longrightarrow> org \<in> set (orgs s) \<Longrightarrow> o_id org = t_org t \<Longrightarrow> may_modify_team uid t m org s \<Longrightarrow>
      P (save_team t' s)"
  shows "P (snd (modify_member_for_team slug member_id team_slug uid add_member s))"
proof -
  have "P (snd (modify_member uid t add_member s r))"
    if t: "get_team_queryset slug (Some team_slug) None (Some uid) None s = [t]"
      and q: "[r \<leftarrow> org_user_qs slug s. named_member uid member_id (fst r)] = [r]" for t r
  proof -
    obtain m org where r: "r = (m, org)" by (cases r)
    have m: "m \<in> set (members s)" "org \<in> set (orgs s)" "o_slug org = slug" "o_id org = m_org m"
      and named: "named_member uid member_id m"
      using single_in [OF q] by (auto simp: r org_user_qs_def)
    note t1 = in_team_queryset [OF single_in [OF t]]
    have slug: "team_slug = '''' \<or> t_slug t = team_slug"
      using single_in [OF t] by (auto simp: get_team_queryset_def split: if_splits)
    have same: "m_org m = t_org t" using same_org_by_slug [OF ok _ t1(2)] m by blast
    have "team_write uid MEMBER s (t\<lparr>t_members := ms\<rparr>)" if "set ms \<subseteq> insert (m_id m) (set (t_members t))" for ms
      using team_write_relations [OF ok t1(1) t1(3) [OF refl u], of ms "t_projects t"] that m(1) same by auto
    note w = assms(4) [OF this _ t1(1) slug m(1) same named m(2)]
    show ?thesis unfolding modify_member_def Let_def r by (cases add_member) (auto simp: raise_if_def assms(3) m(4) same intro!: w)
  qed
  then show ?thesis
    unfolding modify_member_for_team_def
    by (cases member_id) (auto intro!: api_intro [where P = P, OF assms(3)] simp: named_member_def)
qed

lemma add_team_to_project_rule:
  assumes ok: "db_ok s" and "P s" and "\<And>t. team_write (user_id au) MANAGER s t \<Longrightarrow> P (save_team t s)"
  shows "P (snd (add_team_to_project au slug project_slug team_slug s))"
proof -
  have "team_write (user_id au) MANAGER s (t\<lparr>t_projects := m2m_add (p_id p) (t_projects t)\<rparr>)"
    if "projects_with_role (user_id au) slug project_slug MANAGER s = [p]"
      "get_team_queryset slug (Some team_slug) None None None s = [t]" for t p
  proof -
    note t = in_team_queryset [OF single_in [OF that(2)]] and p = in_projects_with_role [OF that(1)]
    have "p_org p = t_org t" using same_org_by_slug [OF ok p(3) t(2)] .
    then show ?thesis
      using team_write_relations [OF ok t(1), of "user_id au" MANAGER "t_members t" "m2m_add (p_id p) (t_projects t)"] p(1,2) by auto
  qed
  then show ?thesis
    unfolding add_team_to_project_def by (intro api_intro [where P = P, OF assms(2)]) (simp add: assms(3))
qed

lemma delete_team_from_project_rule:
  assumes ok: "db_ok s" and "P s" and "\<And>t. team_write (user_id au) MANAGER s t \<Longrightarrow> P (save_team t s)"
  shows "P (snd (delete_team_from_project au slug project_slug team_slug s))"
proof -
  have "team_write (user_id au) MANAGER s (t\<lparr>t_projects := removeAll (p_id p) (t_projects t)\<rparr>)"
    if "projects_with_role (user_id au) slug project_slug MANAGER s = [p]"
      "get_team_queryset slug (Some team_slug) (Some project_slug) None None s = [t]" for t p
  proof -
    note t = in_team_queryset [OF single_in [OF that(2)]] and p = in_projects_with_role [OF that(1)]
    have "p_org p = t_org t" using same_org_by_slug [OF ok p(3) t(2)] .
    then show ?thesis
      using team_write_relations [OF ok t(1), of "user_id au" MANAGER "t_members t" "removeAll (p_id p) (t_projects t)"] p(1,2) by auto
  qed
  then show ?thesis
    unfolding delete_team_from_project_def by (intro api_intro [where P = P, OF assms(2)]) (simp add: assms(3))
qed


lemma in_projects_by_slug:
  assumes "p \<in> set (projects_by_slug uid slug project_slug s)"
  shows "p \<in> set (projects s)" "has_role uid MEMBER (p_org p) s"
  using assms by (auto simp: projects_by_slug_def dest: in_projects_queryset)

lemma project_write_keep:
  assumes "db_ok s" "p \<in> set (projects s)" "has_role uid role (p_org p) s"
    and "p_id p' = p_id p" "p_org p' = p_org p" "p_slug p' = p_slug p"
  shows "project_write uid role s p'"
  unfolding project_write_def using assms own_project_slug [OF assms(1,2)] by (intro bexI [of _ p]) auto

lemma update_project_rule:
  assumes ok: "db_ok s" and "P s" and "\<And>p. project_write (user_id au) MEMBER s p \<Longrightarrow> P (save_project p s)"
  shows "P (snd (update_project auto_slug au slug project_slug payload s))"
proof -
  have "P (save_project p' s)"
    if "projects_by_slug (user_id au) slug project_slug s = [p]" "\<not> project_slug_taken (p_slug p') (p_org p) (Some (p_id p)) s"
      "p_id p' = p_id p" "p_org p' = p_org p" for p p'
    using in_projects_by_slug [OF single_in [OF that(1)]] that(2-4)
    by (intro assms(3)) (auto simp: project_write_def)
  then show ?thesis
    unfolding update_project_def Let_def
    by (auto intro!: api_intro [where P = P, OF assms(2)] split: option.split simp: assms(2))
qed

lemma delete_project_rule:
  assumes ok: "db_ok s" and "P s"
    and "\<And>p. project_write (user_id au) ADMIN s p \<Longrightarrow> P ((save_project p s)\<lparr>tasks := tasks s @ [DeleteProject (p_id p)]\<rparr>)"
  shows "P (snd (delete_project au slug project_slug s))"
proof -
  have "project_write (user_id au) ADMIN s (p\<lparr>p_is_deleted := True\<rparr>)"
    if "[p. p \<leftarrow> projects_by_slug (user_id au) slug project_slug s, a \<leftarrow> actor_rows (user_id au) (p_org p) s, ADMIN \<le> m_role a] = [p]" for p
    using single_in [OF that]
    by (intro project_write_keep [OF ok, of p]) (auto simp: actor_Int dest: in_projects_by_slug split: if_splits)
  note w = assms(3) [OF this]
  show ?thesis
    unfolding delete_project_def Let_def
    by (intro api_intro [where P = P, OF assms(2)]) (drule w, simp add: save_project_def)
qed

lemma create_project_key_rule:
  assumes ok: "db_ok s" and "P s" and "\<And>p. project_write (user_id au) MEMBER s p \<Longrightarrow> P (save_project p s)"
  shows "P (snd (create_project_key new_key au slug project_slug payload s))"
proof -
  have "P (save_project (p\<lparr>p_keys := ks\<rparr>) s)" if "projects_by_slug (user_id au) slug project_slug s = [p]" for p ks
    using in_projects_by_slug [OF single_in [OF that]] by (intro assms(3) project_write_keep [OF ok, of p]) auto
  then show ?thesis
    unfolding create_project_key_def Let_def
    by (auto intro!: api_intro [where P = P, OF assms(2)] split: option.split simp: assms(2))
qed

lemma delete_project_key_rule:
  assumes ok: "db_ok s" and "P s"
    and "\<And>f. \<forall>p. p_id (f p) = p_id p \<and> p_org (f p) = p_org p \<and> p_slug (f p) = p_slug p \<Longrightarrow>
      \<forall>p\<in>set (projects s). f p \<noteq> p \<longrightarrow> has_role (user_id au) ADMIN (p_org p) s \<Longrightarrow>
      P (s\<lparr>projects := map f (projects s)\<rparr>)"
  shows "P (snd (delete_project_key au slug project_slug key s))"
proof -
  let ?rows = "[r. r \<leftarrow> get_project_keys_queryset (user_id au) slug project_slug (Some key) s,
                   a \<leftarrow> actor_rows (user_id au) (p_org (fst r)) s, ADMIN \<le> m_role a]"
  let ?f = "\<lambda>p. if p_id p \<in> (p_id \<circ> fst) ` set ?rows then p\<lparr>p_keys := filter (\<lambda>k. k_public_key k \<noteq> key) (p_keys p)\<rparr> else p"
  have r: "fst r \<in> set (projects s) \<and> has_role (user_id au) ADMIN (p_org (fst r)) s" if "r \<in> set ?rows" for r
    using that in_project_keys_queryset(1) [of "fst r" "snd r"] by (auto simp: actor_Int split: if_splits)
  have "has_role (user_id au) ADMIN (p_org p) s" if "p \<in> set (projects s)" "?f p \<noteq> p" for p
  proof -
    from that(2) have "p_id p \<in> (p_id \<circ> fst) ` set ?rows" by presburger
    then obtain x where x: "x \<in> set ?rows" "p_id p = p_id (fst x)" by auto
    then have "fst x = p" using unique_byD [OF db_okD(5) [OF ok] _ that(1)] r [OF x(1)] by metis
    then show ?thesis using r [OF x(1)] by simp
  qed
  then have "P (s\<lparr>projects := map ?f (projects s)\<rparr>)" by (intro assms(3)) (simp_all del: set_concat set_map)
  then show ?thesis
    unfolding delete_project_key_def Let_def
    by (intro api_intro [where P = P, OF assms(2)]) (simp only: snd_conv)
qed

lemma create_project_rule:
  assumes ok: "db_ok s" and "P s"
    and "\<And>p t. has_role (user_id au) ADMIN (p_org p) s \<Longrightarrow> p_org p \<in> org_ids s \<Longrightarrow> p_id p = next_project s \<Longrightarrow>
      \<not> project_slug_taken (p_slug p) (p_org p) None s \<Longrightarrow> t \<in> set (teams s) \<Longrightarrow> t_org t = p_org p \<Longrightarrow>
      P (save_team (t\<lparr>t_projects := m2m_add (p_id p) (t_projects t)\<rparr>) (save_new_project p new_key s))"
  shows "P (snd (create_project auto_slug new_key au slug team_slug payload s))"
proof -
  have "P (save_team (t\<lparr>t_projects := m2m_add (next_project s) (t_projects t)\<rparr>) (save_new_project p new_key s))"
    if "[t. t \<leftarrow> teams s, t_slug t = team_slug, org \<leftarrow> orgs_of_slug slug s, o_id org = t_org t,
             a \<leftarrow> actor_rows (user_id au) (o_id org) s, ADMIN \<le> m_role a] = [t]"
      "orgs_with_role (user_id au) slug ADMIN s = [org]" "\<not> project_slug_taken (p_slug p) (o_id org) None s"
      "p_org p = o_id org" "p_id p = next_project s" for t org p
  proof -
    have t: "t \<in> set (teams s)" "\<exists>org\<in>set (orgs s). o_id org = t_org t \<and> o_slug org = slug"
      using single_in [OF that(1)] by auto
    note o = in_orgs_with_role [OF that(2)]
    have "t_org t = o_id org" using same_org_by_slug [OF ok t(2)] o(1,2) by blast
    then show ?thesis
      using assms(3) [of p t] o t(1) that(3-5) by (simp add: org_ids_def)
  qed
  then show ?thesis
    unfolding create_project_def Let_def
    by (auto intro!: api_intro [where P = P, OF assms(2)] split: option.split simp: assms(2) simp del: concat_eq_Nil_conv)
qed


section \<open>The writes keep the tables sound\<close>

lemma ok_insert_team:
  assumes "db_ok s" "t_org t \<in> org_ids s" "t_id t = next_team s" "t_projects t = []"
    and "\<forall>i\<in>set (t_members t). \<exists>m\<in>set (members s). m_id m = i \<and> m_org m = t_org t"
    and "\<not> team_slug_taken (t_slug t) (t_org t) None s"
  shows "db_ok (s\<lparr>teams := teams s @ [t], next_team := Suc (next_team s)\<rparr>)"
proof -
  have "unique_by (\<lambda>t. (t_slug t, t_org t)) (teams s @ [t])"
    using assms(1,6) by (auto simp: db_ok_def uniques_ok_def unique_by_def team_slug_taken_def)
  moreover have "unique_by t_id (teams s @ [t])"
    using assms(1,3) by (auto simp: db_ok_def keys_ok_def unique_by_def)
  ultimately show ?thesis
    using assms(1-5) by (auto simp: db_ok_def keys_ok_def uniques_ok_def refs_ok_def org_ids_def less_Suc_eq)
qed

lemma ok_new_project:
  assumes "db_ok s" "p_org p \<in> org_ids s" "p_id p = next_project s" "\<not> project_slug_taken (p_slug p) (p_org p) None s"
  shows "db_ok (save_new_project p new_key s)"
proof -
  let ?q = "p\<lparr>p_keys := [\<lparr>k_public_key = new_key, k_is_active = True, k_name = [], k_rate_limit = None\<rparr>]\<rparr>"
  have "unique_by (\<lambda>p. (p_org p, p_slug p)) (projects s @ [?q])"
    using assms(1,4) by (auto simp: db_ok_def uniques_ok_def unique_by_def project_slug_taken_def)
  moreover have "unique_by p_id (projects s @ [?q])"
    using assms(1,3) by (auto simp: db_ok_def keys_ok_def unique_by_def)
  ultimately show ?thesis
    using assms(1-3) unfolding save_new_project_def
    by (auto simp: db_ok_def keys_ok_def uniques_ok_def refs_ok_def org_ids_def less_Suc_eq)
qed

lemma save_new_project_simps [simp]:
  "members (save_new_project p k s) = members s" "teams (save_new_project p k s) = teams s" "orgs (save_new_project p k s) = orgs s"
  "owner_of (save_new_project p k s) = owner_of s"
  by (simp_all add: save_new_project_def)

lemma project_of_new: "\<exists>q\<in>set (projects (save_new_project p k s)). p_id q = p_id p \<and> p_org q = p_org p"
  by (simp add: save_new_project_def)

lemma has_role_new_project [simp]: "has_role uid role org (save_new_project p k s) = has_role uid role org s"
  by (simp add: has_role_iff)

lemma team_write_new_project:
  assumes "db_ok s" "p_org p \<in> org_ids s" "p_id p = next_project s" "\<not> project_slug_taken (p_slug p) (p_org p) None s"
    and "t \<in> set (teams s)" "t_org t = p_org p" "has_role uid role (p_org p) s"
  shows "team_write uid role (save_new_project p k s) (t\<lparr>t_projects := m2m_add (p_id p) (t_projects t)\<rparr>)"
  using team_write_relations [OF ok_new_project [OF assms(1-4)], of t k uid role "t_members t" "m2m_add (p_id p) (t_projects t)"]
    assms(5-7) project_of_new [of p k s] by auto

lemma view_new_project: "org \<noteq> p_org p \<Longrightarrow> org_view org (save_new_project p k s) = org_view org s"
  by (simp add: org_view_def save_new_project_def)

lemma ok_map_projects:
  assumes "db_ok s" "\<forall>p. p_id (f p) = p_id p \<and> p_org (f p) = p_org p \<and> p_slug (f p) = p_slug p"
  shows "db_ok (s\<lparr>projects := map f (projects s)\<rparr>)"
  using assms by (simp add: db_ok_def keys_ok_def uniques_ok_def refs_ok_def org_ids_def unique_by_def comp_def)

lemma view_map_projects:
  assumes "\<forall>p. p_org (f p) = p_org p" "\<forall>p\<in>set (projects s). p_org p = org \<longrightarrow> f p = p"
  shows "org_view org (s\<lparr>projects := map f (projects s)\<rparr>) = org_view org s"
  using assms by (auto simp: org_view_def filter_map comp_def intro!: map_idI)

end
