(* ===== verification/User_Api.thy ===== *)
theory User_Api
  imports Access_Db
begin

text \<open>
  The endpoints of a user's own account, \<open>apps/users/api.py\<close>, API tokens,
  \<open>apps/api_tokens/api.py\<close>, and the two ways a request is authenticated,
  \<open>glitchtip/api/authentication.py\<close>. The random token, the recovery codes that a seed generates and
  the unique constraint of the address table (a model of django-allauth) are arguments.
\<close>

section \<open>Authentication\<close>

definition session_authenticate :: "nat option \<Rightarrow> auth option" where
  "session_authenticate session_user =
     (case session_user of None \<Rightarrow> None | Some u \<Rightarrow> Some \<lparr>user_id = u, auth_kind = Session\<rparr>)"

definition token_authenticate :: "string \<Rightarrow> db \<Rightarrow> auth option" where
  "token_authenticate key s =
     (case [t. t \<leftarrow> tokens s, tok_token t = key, u \<leftarrow> user_rows s, u_id u = tok_user t \<and> u_is_active u] of
        [t] \<Rightarrow> Some \<lparr>user_id = tok_user t, auth_kind = Token (tok_scopes t)\<rparr>
      | _ \<Rightarrow> None)"

section \<open>The account\<close>

datatype user_ref = MeUser | UserId nat

definition not_self :: "auth \<Rightarrow> user_ref \<Rightarrow> bool" where
  "not_self au target \<longleftrightarrow> target \<noteq> UserId (user_id au) \<and> target \<noteq> MeUser"

definition get_user_queryset :: "nat \<Rightarrow> db \<Rightarrow> user_row list" where
  "get_user_queryset uid s = [u \<leftarrow> user_rows s. u_id u = uid]"

definition get_email_queryset :: "nat \<Rightarrow> bool \<Rightarrow> db \<Rightarrow> email_row list" where
  "get_email_queryset uid verified s = [e \<leftarrow> email_rows s. e_user e = uid \<and> (verified \<longrightarrow> e_verified e)]"

definition list_users :: "auth \<Rightarrow> db \<Rightarrow> user_row list api" where
  "list_users au s = (Inr (get_user_queryset (user_id au) s), s)"

definition get_user :: "auth \<Rightarrow> user_ref \<Rightarrow> db \<Rightarrow> user_row api" where
  "get_user au target s = aget_object_or_404 (get_user_queryset (user_id au) s) s (\<lambda>u. (Inr u, s))"

text \<open>
  The filter \<open>organizationuser__organizationowner__isnull\<close> is a left join: it keeps a user without
  memberships, and one with some membership that no owner record names.
\<close>

definition deletable :: "nat \<Rightarrow> db \<Rightarrow> bool" where
  "deletable uid s \<longleftrightarrow>
     (let mine = [m \<leftarrow> members s. m_user m = Some uid] in
      mine = [] \<or> (\<exists>m\<in>set mine. \<forall>org\<in>set (orgs s). owner_of s (o_id org) \<noteq> Some (m_id m)))"

definition remove_user :: "nat \<Rightarrow> db \<Rightarrow> db" where
  "remove_user uid s =
     (let s1 = remove_members (\<lambda>m. m_user m = Some uid) s in
      s1\<lparr>user_rows := filter (\<lambda>u. u_id u \<noteq> uid) (user_rows s),
         email_rows := filter (\<lambda>e. e_user e \<noteq> uid) (email_rows s),
         tokens := filter (\<lambda>t. tok_user t \<noteq> uid) (tokens s),
         recovery_codes := (recovery_codes s)(uid := None),
         user_alerts := (\<lambda>(u, p). if u = uid then None else user_alerts s (u, p))\<rparr>)"

definition delete_user :: "auth \<Rightarrow> user_ref \<Rightarrow> db \<Rightarrow> unit api" where
  "delete_user au target s =
     raise_if (not_self au target) Http404 s
       (if get_user_queryset (user_id au) s \<noteq> [] \<and> deletable (user_id au) s
        then (Inr (), remove_user (user_id au) s)
        else raise_if (get_user_queryset (user_id au) s \<noteq> [])
               (HttpError 400 ''User is organization owner. Delete organization or transfer ownership first.'') s
               (Inl Http404, s))"

definition save_user :: "user_row \<Rightarrow> db \<Rightarrow> db" where
  "save_user u s = s\<lparr>user_rows := save_row u_id u (user_rows s)\<rparr>"

definition update_user :: "auth \<Rightarrow> user_ref \<Rightarrow> string \<Rightarrow> json \<Rightarrow> db \<Rightarrow> user_row api" where
  "update_user au target name options s =
     raise_if (not_self au target) Http404 s
       (aget_object_or_404 (get_user_queryset (user_id au) s) s (\<lambda>u.
          (let u' = u\<lparr>u_name := name, u_options := options\<rparr> in (Inr u', save_user u' s))))"

definition get_notifications :: "auth \<Rightarrow> user_ref \<Rightarrow> db \<Rightarrow> bool api" where
  "get_notifications au target s =
     aget_object_or_404 (get_user_queryset (user_id au) s) s (\<lambda>u. (Inr (u_subscribe_by_default u), s))"

definition update_notifications :: "auth \<Rightarrow> user_ref \<Rightarrow> bool \<Rightarrow> db \<Rightarrow> user_row api" where
  "update_notifications au target subscribe s =
     aget_object_or_404 (get_user_queryset (user_id au) s) s (\<lambda>u.
       (let u' = u\<lparr>u_subscribe_by_default := subscribe\<rparr> in (Inr u', save_user u' s)))"

section \<open>E-mail addresses\<close>

definition list_emails :: "auth \<Rightarrow> user_ref \<Rightarrow> db \<Rightarrow> email_row list api" where
  "list_emails au target s =
     raise_if (not_self au target) Http404 s (Inr (take 200 (get_email_queryset (user_id au) False s)), s)"

definition create_email :: "(email_row \<Rightarrow> email_row list \<Rightarrow> bool) \<Rightarrow> auth \<Rightarrow> user_ref \<Rightarrow> string \<Rightarrow> db \<Rightarrow> email_row api" where
  "create_email violates au target email s =
     raise_if (not_self au target) Http404 s
       (raise_if (\<exists>e\<in>set (email_rows s). e_email e = email \<and> e_verified e) (HttpError 400 ''Email already exists'') s
         (let e = \<lparr>e_user = user_id au, e_email = email, e_verified = False, e_primary = False\<rparr> in
          raise_if (violates e (email_rows s)) (HttpError 400 ''Email already exists'') s
            (Inr e, s\<lparr>email_rows := email_rows s @ [e], tasks := tasks s @ [ConfirmEmail (user_id au) email]\<rparr>)))"

definition set_email_as_primary :: "auth \<Rightarrow> user_ref \<Rightarrow> string \<Rightarrow> db \<Rightarrow> email_row api" where
  "set_email_as_primary au target email s =
     raise_if (not_self au target) Http404 s
       (aget_object_or_404 [e \<leftarrow> get_email_queryset (user_id au) False s. e_verified e \<and> e_email e = email] s (\<lambda>x.
          (Inr (x\<lparr>e_primary := True\<rparr>),
           s\<lparr>email_rows := map (\<lambda>e. if e_user e = user_id au then e\<lparr>e_primary := (e = x)\<rparr> else e) (email_rows s)\<rparr>)))"

definition delete_email :: "auth \<Rightarrow> user_ref \<Rightarrow> string \<Rightarrow> db \<Rightarrow> unit api" where
  "delete_email au target email s =
     raise_if (not_self au target) Http404 s
       (let gone = (\<lambda>e. e_user e = user_id au \<and> e_email e = email \<and> \<not> e_primary e) in
        if \<exists>e\<in>set (email_rows s). gone e
        then (Inr (), s\<lparr>email_rows := filter (\<lambda>e. \<not> gone e) (email_rows s)\<rparr>)
        else (Inl Http404, s))"

definition send_confirm_email :: "auth \<Rightarrow> user_ref \<Rightarrow> string \<Rightarrow> db \<Rightarrow> unit api" where
  "send_confirm_email au target email s =
     aget_object_or_404 [e \<leftarrow> get_email_queryset (user_id au) False s. e_email e = email] s (\<lambda>e.
       (Inr (), s\<lparr>tasks := tasks s @ [ConfirmEmail (user_id au) email]\<rparr>))"

section \<open>Recovery codes\<close>

definition generate_recovery_codes :: "(string \<Rightarrow> string list) \<Rightarrow> string \<Rightarrow> auth \<Rightarrow> db \<Rightarrow> string list api" where
  "generate_recovery_codes preview seed au s =
     (Inr (preview seed), s\<lparr>recovery_seeds := (recovery_seeds s)(user_id au \<mapsto> seed)\<rparr>)"

definition set_recovery_codes :: "(string \<Rightarrow> string list) \<Rightarrow> auth \<Rightarrow> string \<Rightarrow> db \<Rightarrow> unit api" where
  "set_recovery_codes preview au code s =
     (case recovery_seeds s (user_id au) of
        None \<Rightarrow> (Inl (HttpError 400 ''No recovery codes set, use GET first''), s)
      | Some seed \<Rightarrow>
          raise_if (seed = '''') (HttpError 400 ''No recovery codes set, use GET first'') s
          (raise_if (code \<notin> set (preview seed)) (HttpError 400 ''Invalid code'') s
          (aget_object_or_404 (get_user_queryset (user_id au) s) s (\<lambda>u.
             (Inr (), s\<lparr>recovery_codes := (recovery_codes s)(user_id au \<mapsto> seed),
                        recovery_seeds := (recovery_seeds s)(user_id au := None)\<rparr>)))))"

section \<open>API tokens\<close>

definition get_tokens_queryset :: "auth \<Rightarrow> db \<Rightarrow> api_token list" where
  "get_tokens_queryset au s = [t \<leftarrow> tokens s. tok_user t = user_id au]"

definition list_api_tokens :: "auth \<Rightarrow> db \<Rightarrow> api_token list api" where
  "list_api_tokens au s = (Inr (get_tokens_queryset au s), s)"

text \<open>
  \<open>bitfield_to_internal_value\<close>: the mask of a list of scope names, \<open>None\<close> for an unknown name.
\<close>

definition flag_index :: "string \<Rightarrow> nat" where
  "flag_index k = length (takeWhile (\<lambda>f. f \<noteq> k) token_flags)"

definition scopes_to_bitfield :: "string list \<Rightarrow> int option" where
  "scopes_to_bitfield ks =
     (if \<forall>k\<in>set ks. k \<in> set token_flags then Some (fold (\<lambda>k bits. set_bit (flag_index k) bits) ks 0) else None)"

definition create_api_token :: "string \<Rightarrow> auth \<Rightarrow> string \<Rightarrow> int \<Rightarrow> db \<Rightarrow> api_token api" where
  "create_api_token random_token au label bits s =
     raise_if (\<exists>t\<in>set (tokens s). tok_token t = random_token) IntegrityError s
       (let t = \<lparr>tok_id = next_token s, tok_user = user_id au, tok_token = random_token, tok_label = label, tok_scopes = bits\<rparr>
        in (Inr t, s\<lparr>tokens := tokens s @ [t], next_token := Suc (next_token s)\<rparr>))"

definition delete_api_token :: "auth \<Rightarrow> nat \<Rightarrow> db \<Rightarrow> unit api" where
  "delete_api_token au token_id s =
     (if \<exists>t\<in>set (get_tokens_queryset au s). tok_id t = token_id
      then (Inr (), s\<lparr>tokens := filter (\<lambda>t. \<not> (tok_user t = user_id au \<and> tok_id t = token_id)) (tokens s)\<rparr>)
      else (Inl Http404, s))"

end
