(* ===== verification/Access_Control.thy ===== *)
theory Access_Control
  imports Org_Api Team_Api User_Api
begin

text \<open>
  Who may change what: all state-changing endpoints of organizations, members, teams, projects and
  accounts as one type of requests over the shared tables, and the properties that span them. Requests
  are served one after the other; interleavings inside a handler are not modelled.
\<close>

section \<open>Requests\<close>

record api_env =
  env_cfg :: access_cfg
  env_tokens :: token_env
  env_org_slug :: "string \<Rightarrow> string list \<Rightarrow> string"
  env_project_slug :: "string option \<Rightarrow> string \<Rightarrow> string list \<Rightarrow> string"
  env_new_key :: nat
  env_violates :: "email_row \<Rightarrow> email_row list \<Rightarrow> bool"
  env_preview :: "string \<Rightarrow> string list"
  env_random :: string

datatype request =
    CreateOrganization string
  | UpdateOrganization string string
  | RemoveOrganization string
  | InviteMember string member_in
  | RemoveMember string nat
  | ChangeRole string nat string
  | SetOwner string nat
  | AcceptInvite nat string bool
  | UpdateTeam string string string
  | RemoveTeam string string
  | CreateTeam string string
  | JoinTeam string me_id string
  | LeaveTeam string me_id string
  | AddTeamToProject string string string
  | RemoveTeamFromProject string string string
  | UpdateProject string string project_in
  | RemoveProject string string
  | CreateProject string string project_in
  | CreateKey string string key_in
  | UpdateKey string string nat key_in
  | RemoveKey string string nat
  | UpdateAlerts me_id "(string \<times> int) list"
  | RemoveUser user_ref
  | UpdateUser user_ref string json
  | UpdateNotifications user_ref bool
  | CreateEmail user_ref string
  | SetPrimaryEmail user_ref string
  | RemoveEmail user_ref string
  | ResendConfirmation user_ref string
  | GenerateCodes
  | SetCodes string
  | CreateToken string int
  | RemoveToken nat

fun handle :: "api_env \<Rightarrow> auth \<Rightarrow> request \<Rightarrow> db \<Rightarrow> db" where
  "handle env au (CreateOrganization name) s = snd (create_organization (env_cfg env) (env_org_slug env) au name s)"
| "handle env au (UpdateOrganization slug name) s = snd (update_organization au slug name s)"
| "handle env au (RemoveOrganization slug) s = snd (delete_organization au slug s)"
| "handle env au (InviteMember slug payload) s = snd (create_organization_member (env_cfg env) (env_tokens env) au slug payload s)"
| "handle env au (RemoveMember slug i) s = snd (delete_organization_member au slug i s)"
| "handle env au (ChangeRole slug i role) s = snd (update_organization_member au slug i role s)"
| "handle env au (SetOwner slug i) s = snd (set_organization_owner au slug i s)"
| "handle env au (AcceptInvite i token accept) s = snd (accept_invite (env_tokens env) au i token accept s)"
| "handle env au (UpdateTeam slug team_slug new_slug) s = snd (update_team au slug team_slug new_slug s)"
| "handle env au (RemoveTeam slug team_slug) s = snd (delete_team au slug team_slug s)"
| "handle env au (CreateTeam slug new_slug) s = snd (create_team au slug new_slug s)"
| "handle env au (JoinTeam slug member team_slug) s = snd (add_member_to_team au slug member team_slug s)"
| "handle env au (LeaveTeam slug member team_slug) s = snd (delete_member_from_team au slug member team_slug s)"
| "handle env au (AddTeamToProject slug p team_slug) s = snd (add_team_to_project au slug p team_slug s)"
| "handle env au (RemoveTeamFromProject slug p team_slug) s = snd (delete_team_from_project au slug p team_slug s)"
| "handle env au (UpdateProject slug p payload) s = snd (update_project (env_project_slug env) au slug p payload s)"
| "handle env au (RemoveProject slug p) s = snd (delete_project au slug p s)"
| "handle env au (CreateProject slug team_slug payload) s =
     snd (create_project (env_project_slug env) (env_new_key env) au slug team_slug payload s)"
| "handle env au (CreateKey slug p payload) s = snd (create_project_key (env_new_key env) au slug p payload s)"
| "handle env au (UpdateKey slug p key payload) s = snd (update_project_key au slug p key payload s)"
| "handle env au (RemoveKey slug p key) s = snd (delete_project_key au slug p key s)"
| "handle env au (UpdateAlerts target items) s = snd (update_user_notification_alerts au target items s)"
| "handle env au (RemoveUser target) s = snd (delete_user au target s)"
| "handle env au (UpdateUser target name options) s = snd (update_user au target name options s)"
| "handle env au (UpdateNotifications target b) s = snd (update_notifications au target b s)"
| "handle env au (CreateEmail target email) s = snd (create_email (env_violates env) au target email s)"
| "handle env au (SetPrimaryEmail target email) s = snd (set_email_as_primary au target email s)"
| "handle env au (RemoveEmail target email) s = snd (delete_email au target email s)"
| "handle env au (ResendConfirmation target email) s = snd (send_confirm_email au target email s)"
| "handle env au GenerateCodes s = snd (generate_recovery_codes (env_preview env) (env_random env) au s)"
| "handle env au (SetCodes code) s = snd (set_recovery_codes (env_preview env) au code s)"
| "handle env au (CreateToken label bits) s = snd (create_api_token (env_random env) au label bits s)"
| "handle env au (RemoveToken i) s = snd (delete_api_token au i s)"

section \<open>Account requests leave the organizations alone\<close>

lemma account_requests_same_tables:
  "same_tables s (snd (update_user_notification_alerts au t items s))"
  "same_tables s (snd (update_user au u name options s))" "same_tables s (snd (update_notifications au u b s))"
  "same_tables s (snd (create_email v au u email s))" "same_tables s (snd (set_email_as_primary au u email s))"
  "same_tables s (snd (delete_email au u email s))" "same_tables s (snd (send_confirm_email au u email s))"
  "same_tables s (snd (generate_recovery_codes pv seed au s))" "same_tables s (snd (set_recovery_codes pv au code s))"
  "same_tables s (snd (create_api_token rnd au label bits s))" "same_tables s (snd (delete_api_token au i s))"
  "same_tables s (snd (update_project_key au slug p key payload s))"
  unfolding update_user_notification_alerts_def update_user_def update_notifications_def create_email_def
    set_email_as_primary_def delete_email_def send_confirm_email_def generate_recovery_codes_def set_recovery_codes_def
    create_api_token_def delete_api_token_def update_project_key_def save_user_def
  by (auto simp: Let_def same_tables_def split: api_split list.split option.split)

lemma delete_user_rule:
  assumes "P s" "P (remove_user (user_id au) s)"
  shows "P (snd (delete_user au target s))"
  using assms by (auto simp: delete_user_def split: api_split)

lemma remove_user_tables: "same_tables (remove_members (\<lambda>m. m_user m = Some uid) s) (remove_user uid s)"
  by (simp add: same_tables_def remove_user_def Let_def)

section \<open>The writes behind the requests\<close>

text \<open>
  The role that the code asks for before the request changes rows of an organization; \<open>None\<close> for the
  requests that one role does not decide: founding an organization, accepting an invitation, the requests
  on one's own account, and joining and leaving a team, which have a condition of their own below.
\<close>

fun request_role :: "request \<Rightarrow> org_role option" where
  "request_role (UpdateOrganization _ _) = Some MANAGER"
| "request_role (RemoveOrganization _) = Some MANAGER"
| "request_role (InviteMember _ _) = Some MANAGER"
| "request_role (RemoveMember _ _) = Some MANAGER"
| "request_role (ChangeRole _ _ _) = Some MANAGER"
| "request_role (SetOwner _ _) = Some OWNER"
| "request_role (UpdateTeam _ _ _) = Some MEMBER"
| "request_role (RemoveTeam _ _) = Some ADMIN"
| "request_role (CreateTeam _ _) = Some ADMIN"
| "request_role (AddTeamToProject _ _ _) = Some MANAGER"
| "request_role (RemoveTeamFromProject _ _ _) = Some MANAGER"
| "request_role (UpdateProject _ _ _) = Some MEMBER"
| "request_role (RemoveProject _ _) = Some ADMIN"
| "request_role (CreateProject _ _ _) = Some ADMIN"
| "request_role (CreateKey _ _ _) = Some MEMBER"
| "request_role (RemoveKey _ _ _) = Some ADMIN"
| "request_role _ = None"

text \<open>
  Who may put a membership into a team of the organization, or take it out: a manager; an admin who is in
  the team; and, where membership is open, anyone for the own membership.
\<close>

definition team_change_allowed :: "nat \<Rightarrow> me_id \<Rightarrow> string \<Rightarrow> nat \<Rightarrow> db \<Rightarrow> bool" where
  "team_change_allowed uid target team_slug org s \<longleftrightarrow>
     has_role uid MANAGER org s \<or>
     has_role uid ADMIN org s \<and>
       (\<exists>t\<in>set (teams s). t_org t = org \<and> (team_slug = '''' \<or> t_slug t = team_slug) \<and>
          (\<exists>a\<in>set (members s). m_id a \<in> set (t_members t) \<and> m_user a = Some uid)) \<or>
     (\<exists>o'\<in>set (orgs s). o_id o' = org \<and> o_open_membership o') \<and>
       (\<exists>m\<in>set (members s). m_org m = org \<and> m_user m = Some uid \<and> named_member uid target m)"

lemma may_modify_allowed:
  assumes "may_modify_team uid t m org s" "t \<in> set (teams s)" "team_slug = '''' \<or> t_slug t = team_slug" "m \<in> set (members s)"
    "m_org m = t_org t" "named_member uid target m" "org \<in> set (orgs s)" "o_id org = t_org t"
  shows "team_change_allowed uid target team_slug (t_org t) s"
  using assms unfolding may_modify_team_def team_change_allowed_def Let_def has_role_def
  by (auto split: if_splits)

lemma allowed_member: "team_change_allowed uid target team_slug org s \<Longrightarrow> has_role uid MEMBER org s"
  unfolding team_change_allowed_def using has_role_mono [OF _ MEMBER_least] by (auto simp: has_role_iff)

text \<open>
  A contract between the tables before and after a request, and the writes that have to keep it: the
  handlers change the tables of organizations through these writes only, and each under the condition
  that it carries here.
\<close>

locale request_contract =
  fixes R :: "api_env \<Rightarrow> auth \<Rightarrow> request \<Rightarrow> db \<Rightarrow> db \<Rightarrow> bool"
  assumes unchanged: "db_ok s \<Longrightarrow> R env au req s s"
    and closed: "R env au req s s1 \<Longrightarrow> same_tables s1 s2 \<Longrightarrow> R env au req s s2"
    and add_organization: "db_ok s \<Longrightarrow> req = CreateOrganization name \<Longrightarrow> slug \<notin> o_slug ` set (orgs s) \<Longrightarrow>
          R env au req s (new_organization name slug (user_id au) s)"
    and write_organization: "db_ok s \<Longrightarrow> org \<in> set (orgs s) \<Longrightarrow> request_role req = Some MANAGER \<Longrightarrow> has_role (user_id au) MANAGER (o_id org) s \<Longrightarrow>
          o_id x = o_id org \<Longrightarrow> o_slug x = o_slug org \<Longrightarrow> R env au req s (save_org x s)"
    and invite: "db_ok s \<Longrightarrow> org \<in> set (orgs s) \<Longrightarrow> req = InviteMember slug payload \<Longrightarrow> has_role (user_id au) MANAGER (o_id org) s \<Longrightarrow>
          same_tables s s1 \<Longrightarrow> db_ok s1 \<Longrightarrow>
          R env au req s (snd (invite_member te (user_id au) slug (o_id org) payload role s1))"
    and remove_member: "db_ok s \<Longrightarrow> m \<in> set (members s) \<Longrightarrow> req = RemoveMember slug (m_id m) \<Longrightarrow>
          has_role (user_id au) MANAGER (m_org m) s \<or> m_user m = Some (user_id au) \<Longrightarrow>
          R env au req s (remove_members (\<lambda>r. m_id r = m_id m) s)"
    and change_role: "db_ok s \<Longrightarrow> m \<in> set (members s) \<Longrightarrow> req = ChangeRole slug (m_id m) rname \<Longrightarrow>
          has_role (user_id au) MANAGER (m_org m) s \<Longrightarrow> R env au req s (save_member (m\<lparr>m_role := r\<rparr>) s)"
    and change_owner: "db_ok s \<Longrightarrow> m \<in> set (members s) \<Longrightarrow> req = SetOwner slug (m_id m) \<Longrightarrow> has_role (user_id au) MEMBER (m_org m) s \<Longrightarrow>
          has_role (user_id au) OWNER (m_org m) s \<or>
          (\<exists>w\<in>set (members s). owner_of s (m_org m) = Some (m_id w) \<and> m_user w = Some (user_id au)) \<Longrightarrow>
          R env au req s (achange_owner (m_org m) (m_id m) s)"
    and accept: "db_ok s \<Longrightarrow> m \<in> set (members s) \<Longrightarrow> req = AcceptInvite (m_id m) token b \<Longrightarrow>
          check_token (env_tokens env) (m_id m) token \<Longrightarrow> auth_kind au = Session \<Longrightarrow>
          \<forall>r\<in>set (actor_rows (user_id au) (m_org m) s). m_id r = m_id m \<Longrightarrow>
          R env au req s (save_member (m\<lparr>m_user := Some (user_id au), m_email := None\<rparr>) s)"
    and write_team: "db_ok s \<Longrightarrow> request_role req = Some role \<Longrightarrow> team_write (user_id au) role s t \<Longrightarrow> R env au req s (save_team t s)"
    and modify_team: "db_ok s \<Longrightarrow> req = JoinTeam slug named team_slug \<or> req = LeaveTeam slug named team_slug \<Longrightarrow>
          team_write (user_id au) MEMBER s t \<Longrightarrow> team_change_allowed (user_id au) named team_slug (t_org t) s \<Longrightarrow>
          R env au req s (save_team t s)"
    and add_team: "db_ok s \<Longrightarrow> request_role req = Some role \<Longrightarrow> has_role (user_id au) role (t_org t) s \<Longrightarrow> t_org t \<in> org_ids s \<Longrightarrow> t_id t = next_team s \<Longrightarrow>
          t_projects t = [] \<Longrightarrow> \<forall>i\<in>set (t_members t). \<exists>m\<in>set (members s). m_id m = i \<and> m_org m = t_org t \<Longrightarrow>
          \<not> team_slug_taken (t_slug t) (t_org t) None s \<Longrightarrow>
          R env au req s (s\<lparr>teams := teams s @ [t], next_team := Suc (next_team s)\<rparr>)"
    and remove_team: "db_ok s \<Longrightarrow> request_role req = Some role \<Longrightarrow> \<forall>t\<in>set (teams s). gone t \<longrightarrow> has_role (user_id au) role (t_org t) s \<Longrightarrow>
          R env au req s (remove_teams gone s)"
    and write_project: "db_ok s \<Longrightarrow> request_role req = Some role \<Longrightarrow> project_write (user_id au) role s p \<Longrightarrow> R env au req s (save_project p s)"
    and write_keys: "db_ok s \<Longrightarrow> request_role req = Some role \<Longrightarrow> \<forall>p. p_id (f p) = p_id p \<and> p_org (f p) = p_org p \<and> p_slug (f p) = p_slug p \<Longrightarrow>
          \<forall>p\<in>set (projects s). f p \<noteq> p \<longrightarrow> has_role (user_id au) role (p_org p) s \<Longrightarrow>
          R env au req s (s\<lparr>projects := map f (projects s)\<rparr>)"
    and add_project: "db_ok s \<Longrightarrow> request_role req = Some role \<Longrightarrow> has_role (user_id au) role (p_org p) s \<Longrightarrow> p_org p \<in> org_ids s \<Longrightarrow>
          p_id p = next_project s \<Longrightarrow> \<not> project_slug_taken (p_slug p) (p_org p) None s \<Longrightarrow> t \<in> set (teams s) \<Longrightarrow> t_org t = p_org p \<Longrightarrow>
          R env au req s (save_team (t\<lparr>t_projects := m2m_add (p_id p) (t_projects t)\<rparr>) (save_new_project p k s))"
    and remove_account: "db_ok s \<Longrightarrow> req = RemoveUser target \<Longrightarrow> R env au req s (remove_user (user_id au) s)"
begin

lemma same_tables_contract: "db_ok s \<Longrightarrow> same_tables s s' \<Longrightarrow> R env au req s s'"
  using unchanged closed by blast

theorem contract_kept:
  assumes ok: "db_ok s" and u: "user_id au \<noteq> 0"
  shows "R env au req s (handle env au req s)"
proof -
  let ?P = "R env au req s"
  have P: "?P s" by (rule unchanged [OF ok])
  have tasks: "?P (s'\<lparr>tasks := ts\<rparr>)" if "?P s'" for s' ts
    by (rule closed [OF that]) (simp add: same_tables_def)
  show ?thesis
  proof (cases req)
    case (CreateOrganization name)
    then show ?thesis
      unfolding CreateOrganization handle.simps
      by (intro create_organization_rule [where P = "R env au (CreateOrganization name) s", OF refl] add_organization [OF ok refl])
         (use P CreateOrganization in simp_all)
  next
    case req: (UpdateOrganization slug name)
    show ?thesis
      unfolding req handle.simps
      by (rule update_organization_rule [where P = "R env au (UpdateOrganization slug name) s"])
         (use P req in \<open>auto intro: write_organization [OF ok]\<close>)
  next
    case req: (RemoveOrganization slug)
    show ?thesis
      unfolding req handle.simps
      by (rule delete_organization_rule [where P = "R env au (RemoveOrganization slug) s"])
         (use P req in \<open>auto intro!: tasks [unfolded req] intro: write_organization [OF ok]\<close>)
  next
    case req: (InviteMember slug payload)
    have "db_ok (count_invite (user_id au) s)" using ok same_tables_ok [OF same_tables_count_invite] by blast
    then show ?thesis
      unfolding req handle.simps
      by (intro create_organization_member_rule [where P = "R env au (InviteMember slug payload) s"] invite [OF ok _ refl])
         (use P req in simp_all)
  next
    case req: (RemoveMember slug i)
    show ?thesis
      unfolding req handle.simps
      by (rule delete_organization_member_rule [where P = "R env au (RemoveMember slug i) s", OF ok])
         (use P req in \<open>auto intro: remove_member [OF ok]\<close>)
  next
    case req: (ChangeRole slug i role)
    show ?thesis
      unfolding req handle.simps
      by (rule update_organization_member_rule [where P = "R env au (ChangeRole slug i role) s", OF ok])
         (use P req in \<open>auto intro: change_role [OF ok]\<close>)
  next
    case req: (SetOwner slug i)
    show ?thesis
      unfolding req handle.simps
      by (rule set_organization_owner_rule [where P = "R env au (SetOwner slug i) s"])
         (use P req in \<open>auto intro: change_owner [OF ok]\<close>)
  next
    case req: (AcceptInvite i token b)
    show ?thesis
      unfolding req handle.simps
      by (rule accept_invite_rule [where P = "R env au (AcceptInvite i token b) s"])
         (use P req in \<open>auto intro: accept [OF ok]\<close>)
  next
    case req: (UpdateTeam slug t new_slug)
    show ?thesis
      unfolding req handle.simps
      by (rule update_team_rule [where P = "R env au (UpdateTeam slug t new_slug) s", OF ok u])
         (use P req in \<open>auto intro: write_team [OF ok]\<close>)
  next
    case req: (RemoveTeam slug t)
    show ?thesis
      unfolding req handle.simps
      by (rule delete_team_rule [where P = "R env au (RemoveTeam slug t) s", OF ok])
         (use P req in \<open>auto intro: remove_team [OF ok]\<close>)
  next
    case req: (CreateTeam slug t)
    show ?thesis
      unfolding req handle.simps
      by (rule create_team_rule [where P = "R env au (CreateTeam slug t) s", OF ok])
         (use P req in \<open>auto intro: add_team [OF ok]\<close>)
  next
    case req: (JoinTeam slug m t)
    show ?thesis
      unfolding req handle.simps add_member_to_team_def
      by (intro api_intro(2) [where P = "R env au (JoinTeam slug m t) s"]
            modify_member_for_team_rule [where P = "R env au (JoinTeam slug m t) s", OF ok u])
         (use P req in \<open>auto intro!: modify_team [OF ok, of _ slug m t] dest: may_modify_allowed\<close>)
  next
    case req: (LeaveTeam slug m t)
    show ?thesis
      unfolding req handle.simps delete_member_from_team_def
      by (intro api_intro(2) [where P = "R env au (LeaveTeam slug m t) s"]
            modify_member_for_team_rule [where P = "R env au (LeaveTeam slug m t) s", OF ok u])
         (use P req in \<open>auto intro!: modify_team [OF ok, of _ slug m t] dest: may_modify_allowed\<close>)
  next
    case req: (AddTeamToProject slug p t)
    show ?thesis
      unfolding req handle.simps
      by (rule add_team_to_project_rule [where P = "R env au (AddTeamToProject slug p t) s", OF ok])
         (use P req in \<open>auto intro: write_team [OF ok]\<close>)
  next
    case req: (RemoveTeamFromProject slug p t)
    show ?thesis
      unfolding req handle.simps
      by (rule delete_team_from_project_rule [where P = "R env au (RemoveTeamFromProject slug p t) s", OF ok])
         (use P req in \<open>auto intro: write_team [OF ok]\<close>)
  next
    case req: (UpdateProject slug p payload)
    show ?thesis
      unfolding req handle.simps
      by (rule update_project_rule [where P = "R env au (UpdateProject slug p payload) s", OF ok])
         (use P req in \<open>auto intro: write_project [OF ok]\<close>)
  next
    case req: (RemoveProject slug p)
    show ?thesis
      unfolding req handle.simps
      by (rule delete_project_rule [where P = "R env au (RemoveProject slug p) s", OF ok])
         (use P req in \<open>auto intro!: tasks [unfolded req] intro: write_project [OF ok]\<close>)
  next
    case req: (CreateProject slug t payload)
    show ?thesis
      unfolding req handle.simps
      by (rule create_project_rule [where P = "R env au (CreateProject slug t payload) s", OF ok])
         (use P req in simp, rule add_project [OF ok], simp_all)
  next
    case req: (CreateKey slug p payload)
    show ?thesis
      unfolding req handle.simps
      by (rule create_project_key_rule [where P = "R env au (CreateKey slug p payload) s", OF ok])
         (use P req in \<open>auto intro: write_project [OF ok]\<close>)
  next
    case req: (RemoveKey slug p key)
    show ?thesis
      unfolding req handle.simps
      by (rule delete_project_key_rule [where P = "R env au (RemoveKey slug p key) s", OF ok])
         (use P req in simp, rule write_keys [OF ok, where role = ADMIN], simp_all)
  next
    case req: (RemoveUser target)
    show ?thesis
      unfolding req handle.simps
      by (rule delete_user_rule [where P = "R env au (RemoveUser target) s"])
         (use P req in \<open>auto intro: remove_account [OF ok]\<close>)
  qed (simp_all only: handle.simps, (rule same_tables_contract [OF ok account_requests_same_tables(1)]
      same_tables_contract [OF ok account_requests_same_tables(2)] same_tables_contract [OF ok account_requests_same_tables(3)]
      same_tables_contract [OF ok account_requests_same_tables(4)] same_tables_contract [OF ok account_requests_same_tables(5)]
      same_tables_contract [OF ok account_requests_same_tables(6)] same_tables_contract [OF ok account_requests_same_tables(7)]
      same_tables_contract [OF ok account_requests_same_tables(8)] same_tables_contract [OF ok account_requests_same_tables(9)]
      same_tables_contract [OF ok account_requests_same_tables(10)] same_tables_contract [OF ok account_requests_same_tables(11)]
      same_tables_contract [OF ok account_requests_same_tables(12)])+)
qed

end


section \<open>Every request keeps the tables sound\<close>

lemma ok_accept:
  assumes "db_ok s" "m \<in> set (members s)" "\<forall>r\<in>set (actor_rows uid (m_org m) s). m_id r = m_id m"
  shows "db_ok (save_member (m\<lparr>m_user := Some uid, m_email := None\<rparr>) s)"
  using assms by (intro ok_save_member [OF assms(1,2)]) auto

lemma ok_change_role:
  assumes "db_ok s" "m \<in> set (members s)"
  shows "db_ok (save_member (m\<lparr>m_role := r\<rparr>) s)"
  using unique_nullableD [OF db_okD(6) [OF assms(1)] _ assms(2)] unique_nullableD [OF db_okD(7) [OF assms(1)] _ assms(2)]
  by (intro ok_save_member [OF assms]) auto

lemma ok_remove_user: "db_ok s \<Longrightarrow> db_ok (remove_user uid s)"
  using same_tables_ok [OF remove_user_tables] ok_remove_members by blast

lemma org_in_ids: "org \<in> set (orgs s) \<Longrightarrow> o_id org \<in> org_ids s"
  by (simp add: org_ids_def)

lemma same_tables_org_ids: "same_tables s s1 \<Longrightarrow> org_ids s1 = org_ids s"
  by (simp add: same_tables_def org_ids_def)

lemma ok_add_project:
  assumes "db_ok s" "has_role uid role (p_org p) s" "p_org p \<in> org_ids s" "p_id p = next_project s"
    "\<not> project_slug_taken (p_slug p) (p_org p) None s" "t \<in> set (teams s)" "t_org t = p_org p"
  shows "db_ok (save_team (t\<lparr>t_projects := m2m_add (p_id p) (t_projects t)\<rparr>) (save_new_project p k s))"
  using ok_team_write [OF ok_new_project [OF assms(1,3-5)] team_write_new_project [OF assms(1,3-7,2)]] .

interpretation sound: request_contract "\<lambda>env au req s s'. db_ok s'"
proof unfold_locales
qed (rule ok_add_project ok_team_write ok_project_write ok_insert_team ok_map_projects ok_remove_teams ok_remove_user ok_change_role
      ok_achange_owner ok_accept ok_remove_members ok_new_organization ok_save_org ok_invite_member;
    (assumption | simp add: same_tables_ok org_in_ids same_tables_org_ids) | simp add: same_tables_ok)+

section \<open>Only authorised requests reach an organization\<close>

fun authorised :: "api_env \<Rightarrow> auth \<Rightarrow> request \<Rightarrow> nat \<Rightarrow> db \<Rightarrow> bool" where
  "authorised env au (CreateOrganization _) org s \<longleftrightarrow> org = next_org s"
| "authorised env au (AcceptInvite i token _) org s \<longleftrightarrow>
     (\<exists>m\<in>set (members s). m_id m = i \<and> m_org m = org) \<and> check_token (env_tokens env) i token \<and> auth_kind au = Session"
| "authorised env au (RemoveMember _ i) org s \<longleftrightarrow>
     has_role (user_id au) MANAGER org s \<or> (\<exists>m\<in>set (members s). m_id m = i \<and> m_org m = org \<and> m_user m = Some (user_id au))"
| "authorised env au (SetOwner _ i) org s \<longleftrightarrow>
     has_role (user_id au) MEMBER org s \<and>
     (has_role (user_id au) OWNER org s \<or>
      (\<exists>w\<in>set (members s). owner_of s org = Some (m_id w) \<and> m_user w = Some (user_id au)))"
| "authorised env au (JoinTeam _ target team_slug) org s \<longleftrightarrow> team_change_allowed (user_id au) target team_slug org s"
| "authorised env au (LeaveTeam _ target team_slug) org s \<longleftrightarrow> team_change_allowed (user_id au) target team_slug org s"
| "authorised env au (RemoveUser _) org s \<longleftrightarrow> has_role (user_id au) MEMBER org s"
| "authorised env au req org s \<longleftrightarrow> (case request_role req of None \<Rightarrow> False | Some role \<Rightarrow> has_role (user_id au) role org s)"

lemma role_authorises:
  "request_role req = Some role \<Longrightarrow> has_role (user_id au) role org s \<Longrightarrow> authorised env au req org s"
  by (cases req) (auto intro: has_role_mono)

lemma view_remove_user:
  assumes "db_ok s" "\<not> has_role uid MEMBER org s"
  shows "org_view org (remove_user uid s) = org_view org s"
proof -
  have "org_view org (remove_members (\<lambda>m. m_user m = Some uid) s) = org_view org s"
    using assms by (intro view_remove_members) (auto simp: has_role_iff)
  then show ?thesis using same_tables_view [OF remove_user_tables] by simp
qed

lemma view_add_project:
  assumes "db_ok s" "has_role uid role (p_org p) s" "p_org p \<in> org_ids s" "p_id p = next_project s"
    "\<not> project_slug_taken (p_slug p) (p_org p) None s" "t \<in> set (teams s)" "t_org t = p_org p" "\<not> has_role uid role org s"
  shows "org_view org (save_team (t\<lparr>t_projects := m2m_add (p_id p) (t_projects t)\<rparr>) (save_new_project p k s)) = org_view org s"
proof -
  have "org \<noteq> p_org p" using assms(2,8) by blast
  then show ?thesis
    using view_team_write [OF ok_new_project [OF assms(1,3-5)] team_write_new_project [OF assms(1,3-7,2)], of org k] assms(8)
      view_new_project by simp
qed

definition stays_out :: "api_env \<Rightarrow> auth \<Rightarrow> request \<Rightarrow> db \<Rightarrow> db \<Rightarrow> bool" where
  "stays_out env au req s s' \<longleftrightarrow> (\<forall>org. \<not> authorised env au req org s \<longrightarrow> org_view org s' = org_view org s)"


lemma stays_outI: "(\<And>org. \<not> authorised env au req org s \<Longrightarrow> org_view org s' = org_view org s) \<Longrightarrow> stays_out env au req s s'"
  by (simp add: stays_out_def)

lemma unauthorised_role:
  "\<not> authorised env au req org s \<Longrightarrow> request_role req = Some role \<Longrightarrow> \<not> has_role (user_id au) role org s"
  using role_authorises by blast

lemma view_insert_team: "t_org t \<noteq> org \<Longrightarrow> org_view org (s\<lparr>teams := teams s @ [t], next_team := n\<rparr>) = org_view org s"
  by (simp add: org_view_def)

lemma view_remove_member:
  assumes "db_ok s" "m \<in> set (members s)" "m_org m \<noteq> org"
  shows "org_view org (remove_members (\<lambda>r. m_id r = m_id m) s) = org_view org s"
proof (rule view_remove_members [OF assms(1)])
  fix r assume "r \<in> set (members s)" "m_id r = m_id m"
  then have "r = m" using unique_byD [OF db_okD(3) [OF assms(1)]] assms(2) by metis
  then show "m_org r \<noteq> org" using assms(3) by simp
qed

lemma view_team_write_other:
  "db_ok s \<Longrightarrow> team_write uid role s t' \<Longrightarrow> t_org t' \<noteq> org \<Longrightarrow> org_view org (save_team t' s) = org_view org s"
  unfolding team_write_def by (auto intro: view_save_team)

interpretation isolating: request_contract stays_out
  apply unfold_locales
  subgoal by (simp add: stays_out_def)
  subgoal by (simp add: stays_out_def same_tables_view)
  subgoal by (rule stays_outI, rule view_new_organization) simp_all
  subgoal by (rule stays_outI, rule view_save_org) (auto dest: unauthorised_role)
  subgoal for s org req slug payload au s1 env te role
    by (rule stays_outI, subst view_invite_member)
       (auto simp: same_tables_view same_tables_org_ids org_in_ids dest: unauthorised_role)
  subgoal by (rule stays_outI, rule view_remove_member) auto
  subgoal for s m req slug rname au env r
    by (rule stays_outI, rule view_save_member [of s m]) auto
  subgoal by (rule stays_outI, rule view_achange_owner) auto
  subgoal for s m req token b env au
    by (rule stays_outI, rule view_save_member [of s m]) auto
  subgoal by (rule stays_outI, rule view_team_write) (auto dest: unauthorised_role)
  subgoal by (rule stays_outI, rule view_team_write_other) auto
  subgoal by (rule stays_outI, rule view_insert_team) (auto dest: unauthorised_role)
  subgoal by (rule stays_outI, rule view_remove_teams) (auto dest: unauthorised_role)
  subgoal by (rule stays_outI, rule view_project_write) (auto dest: unauthorised_role)
  subgoal by (rule stays_outI, rule view_map_projects) (auto dest: unauthorised_role)
  subgoal by (rule stays_outI, rule view_add_project) (auto dest: unauthorised_role)
  subgoal by (rule stays_outI, rule view_remove_user) auto
  done


section \<open>Members cannot raise themselves\<close>

text \<open>
  The rows that give power over an organization: memberships of at least the manager role, and the one
  that the owner record names.
\<close>

definition powerful :: "nat \<Rightarrow> db \<Rightarrow> member \<Rightarrow> bool" where
  "powerful org s m \<longleftrightarrow> m_org m = org \<and> (MANAGER \<le> m_role m \<or> owner_of s org = Some (m_id m))"

definition power_view :: "nat \<Rightarrow> db \<Rightarrow> organization list \<times> member list \<times> nat option" where
  "power_view org s = (filter (\<lambda>r. o_id r = org) (orgs s), filter (powerful org s) (members s), owner_of s org)"

definition powerless :: "api_env \<Rightarrow> auth \<Rightarrow> request \<Rightarrow> nat \<Rightarrow> db \<Rightarrow> bool" where
  "powerless env au req org s \<longleftrightarrow>
     org \<in> org_ids s \<and> (\<forall>m\<in>set (members s). powerful org s m \<longrightarrow> m_user m \<noteq> Some (user_id au)) \<and>
     (\<forall>i token b. req = AcceptInvite i token b \<longrightarrow>
        (\<forall>m\<in>set (members s). powerful org s m \<and> m_id m = i \<longrightarrow> \<not> check_token (env_tokens env) i token))"

definition keeps_power :: "api_env \<Rightarrow> auth \<Rightarrow> request \<Rightarrow> db \<Rightarrow> db \<Rightarrow> bool" where
  "keeps_power env au req s s' \<longleftrightarrow> (\<forall>org. powerless env au req org s \<longrightarrow> power_view org s' = power_view org s)"

lemma keeps_powerI:
  "(\<And>org. powerless env au req org s \<Longrightarrow> power_view org s' = power_view org s) \<Longrightarrow> keeps_power env au req s s'"
  by (simp add: keeps_power_def)

lemma powerful_cong: "owner_of s' org = owner_of s org \<Longrightarrow> powerful org s' = powerful org s"
  by (auto simp: powerful_def)

lemma power_view_of_view:
  assumes "org_view org s' = org_view org s" shows "power_view org s' = power_view org s"
proof -
  have 1: "filter (powerful org s) ms = filter (powerful org s) (filter (\<lambda>m. m_org m = org) ms)" for ms
    by (auto simp: powerful_def intro!: filter_cong)
  have eqs: "filter (\<lambda>m. m_org m = org) (members s') = filter (\<lambda>m. m_org m = org) (members s)"
    "filter (\<lambda>r. o_id r = org) (orgs s') = filter (\<lambda>r. o_id r = org) (orgs s)" "owner_of s' org = owner_of s org"
    using assms by (simp_all add: org_view_def)
  have "filter (powerful org s) (members s') = filter (powerful org s) (members s)"
    by (subst (1 2) 1) (simp only: eqs)
  then show ?thesis unfolding power_view_def powerful_cong [OF eqs(3)] by (simp only: eqs)
qed

lemma power_view_same: "members s' = members s \<Longrightarrow> orgs s' = orgs s \<Longrightarrow> owner_of s' = owner_of s \<Longrightarrow> power_view org s' = power_view org s"
  by (simp add: power_view_def powerful_cong [of s' org s])

lemma powerless_no_manager: "powerless env au req org s \<Longrightarrow> \<not> has_role (user_id au) MANAGER org s"
  by (auto simp: powerless_def has_role_iff powerful_def)

lemma powerless_users: "powerless env au req org s \<Longrightarrow> \<forall>m\<in>set (members s). powerful org s m \<longrightarrow> m_user m \<noteq> Some (user_id au)"
  by (simp add: powerless_def)

lemma powerless_no_owner: "powerless env au req org s \<Longrightarrow> \<not> has_role (user_id au) OWNER org s"
  using powerless_no_manager has_role_mono [of _ OWNER _ _ MANAGER] by (fastforce simp: less_eq_org_role_def)

lemma powerless_no_record:
  assumes "powerless env au req org s" "db_ok s" "w \<in> set (members s)" "owner_of s org = Some (m_id w)"
  shows "m_user w \<noteq> Some (user_id au)"
proof -
  have "m_org w = org" using db_ok_refs(1) [OF assms(2,4)] assms(3) unique_byD [OF db_okD(3) [OF assms(2)]] by metis
  then show ?thesis using assms(1,3,4) by (auto simp: powerless_def powerful_def)
qed

lemma power_view_remove:
  assumes "db_ok s" "\<And>m. m \<in> set (members s) \<Longrightarrow> gone m \<Longrightarrow> \<not> powerful org s m"
  shows "power_view org (remove_members gone s) = power_view org s"
proof -
  have "owner_of (remove_members gone s) org = owner_of s org"
  proof (cases "owner_of s org")
    case (Some i)
    then obtain w where w: "w \<in> set (members s)" "m_id w = i" "m_org w = org" using db_ok_refs(1) [OF assms(1)] by metis
    then have "powerful org s w" using Some by (simp add: powerful_def)
    then have "i \<notin> m_id ` {m \<in> set (members s). gone m}"
      using assms(2) w unique_byD [OF db_okD(3) [OF assms(1)]] by blast
    then show ?thesis using Some by (simp add: remove_members_def Let_def)
  qed (simp add: remove_members_def Let_def)
  moreover from this have "powerful org (remove_members gone s) = powerful org s" by (rule powerful_cong)
  ultimately show ?thesis using assms(2) by (auto simp: power_view_def filter_filter intro!: filter_cong)
qed

lemma power_view_remove_own:
  assumes "db_ok s" "m \<in> set (members s)" "has_role uid MANAGER (m_org m) s \<or> m_user m = Some uid"
    and "\<not> has_role uid MANAGER org s" "\<forall>m\<in>set (members s). powerful org s m \<longrightarrow> m_user m \<noteq> Some uid"
  shows "power_view org (remove_members (\<lambda>r. m_id r = m_id m) s) = power_view org s"
proof (rule power_view_remove [OF assms(1)])
  fix r assume "r \<in> set (members s)" "m_id r = m_id m"
  then have "r = m" using unique_byD [OF db_okD(3) [OF assms(1)]] assms(2) by metis
  then show "\<not> powerful org s r" using assms(2-5) by (auto simp: powerful_def)
qed

lemma power_view_remove_user:
  assumes "db_ok s" "\<forall>m\<in>set (members s). powerful org s m \<longrightarrow> m_user m \<noteq> Some uid"
  shows "power_view org (remove_user uid s) = power_view org s"
proof -
  have "power_view org (remove_user uid s) = power_view org (remove_members (\<lambda>m. m_user m = Some uid) s)"
    by (rule power_view_of_view [OF same_tables_view [OF remove_user_tables]])
  also have "\<dots> = power_view org s" using assms(2) by (intro power_view_remove [OF assms(1)]) auto
  finally show ?thesis .
qed

lemma power_view_accept:
  assumes "db_ok s" "m \<in> set (members s)" "\<not> powerful org s m"
  shows "power_view org (save_member (m\<lparr>m_user := u, m_email := e\<rparr>) s) = power_view org s"
proof -
  have "\<not> powerful org s r" if "r \<in> set (members s)" "m_id r = m_id (m\<lparr>m_user := u, m_email := e\<rparr>)" for r
    using that assms(2,3) unique_byD [OF db_okD(3) [OF assms(1)]] by auto
  then have "filter (powerful org s) (save_row m_id (m\<lparr>m_user := u, m_email := e\<rparr>) (members s)) = filter (powerful org s) (members s)"
    using assms(3) by (intro filter_save_row) (auto simp: powerful_def)
  moreover have "powerful org (save_member (m\<lparr>m_user := u, m_email := e\<rparr>) s) = powerful org s"
    by (rule powerful_cong) (simp add: save_member_def)
  ultimately show ?thesis by (simp add: power_view_def save_member_def)
qed

interpretation levelling: request_contract keeps_power
  apply unfold_locales
  subgoal by (simp add: keeps_power_def)
  subgoal unfolding keeps_power_def using power_view_of_view [OF same_tables_view] by metis
  subgoal by (rule keeps_powerI, rule power_view_of_view, rule view_new_organization) (auto simp: powerless_def dest: fresh_org)
  subgoal by (rule keeps_powerI, rule power_view_of_view, rule view_save_org) (auto dest: powerless_no_manager)
  subgoal for s org req slug payload au s1 env te role
    by (rule keeps_powerI, rule power_view_of_view, subst view_invite_member)
       (auto simp: same_tables_view same_tables_org_ids org_in_ids dest: powerless_no_manager)
  subgoal for s m req slug au env
    by (rule keeps_powerI, rule power_view_remove_own [of s m "user_id au"])
       (auto dest: powerless_no_manager powerless_users)
  subgoal for s m req slug rname au env r
    by (rule keeps_powerI, rule power_view_of_view, rule view_save_member [of s m]) (auto dest: powerless_no_manager)
  subgoal by (rule keeps_powerI, rule power_view_of_view, rule view_achange_owner)
     (auto dest: powerless_no_owner powerless_no_record)
  subgoal for s m req token b env au
    by (rule keeps_powerI, rule power_view_accept) (auto simp: powerless_def)
  subgoal by (rule keeps_powerI, rule power_view_same) (simp_all add: save_team_def)
  subgoal by (rule keeps_powerI, rule power_view_same) (simp_all add: save_team_def)
  subgoal by (rule keeps_powerI, rule power_view_same) simp_all
  subgoal by (rule keeps_powerI, rule power_view_same) (simp_all add: remove_teams_def)
  subgoal by (rule keeps_powerI, rule power_view_same) (simp_all add: save_project_def)
  subgoal by (rule keeps_powerI, rule power_view_same) simp_all
  subgoal by (rule keeps_powerI, rule power_view_same) (simp_all add: save_team_def)
  subgoal by (rule keeps_powerI, rule power_view_remove_user) (auto simp: powerless_def)
  done


section \<open>Sequences of requests\<close>

type_synonym served = "api_env \<times> auth \<times> request"

definition run :: "served list \<Rightarrow> db \<Rightarrow> db" where
  "run steps s = fold (\<lambda>(env, au, req). handle env au req) steps s"

lemma run_Nil [simp]: "run [] s = s"
  by (simp add: run_def)

lemma run_Cons [simp]: "run ((env, au, req) # steps) s = run steps (handle env au req s)"
  by (simp add: run_def)

definition known_users :: "served list \<Rightarrow> bool" where
  "known_users steps \<longleftrightarrow> (\<forall>(env, au, req)\<in>set steps. user_id au \<noteq> 0)"

text \<open>The request carries an invitation token that is valid for a membership with the property.\<close>

definition holds_token :: "(member \<Rightarrow> bool) \<Rightarrow> served \<Rightarrow> db \<Rightarrow> bool" where
  "holds_token Q st s \<longleftrightarrow>
     (case st of (env, au, AcceptInvite i token b) \<Rightarrow>
        \<exists>m\<in>set (members s). m_id m = i \<and> Q m \<and> check_token (env_tokens env) i token
      | _ \<Rightarrow> False)"

lemma run_ok: "db_ok s \<Longrightarrow> known_users steps \<Longrightarrow> db_ok (run steps s)"
proof (induction steps arbitrary: s)
  case (Cons st steps)
  obtain env au req where "st = (env, au, req)" by (cases st)
  then show ?case using Cons sound.contract_kept [OF Cons.prems(1), of au env req] by (auto simp: known_users_def)
qed simp

lemma outsider_unauthorised:
  assumes "db_ok s" "org \<in> org_ids s" "\<not> has_role (user_id au) MEMBER org s" "\<not> holds_token (\<lambda>m. m_org m = org) (env, au, req) s"
  shows "\<not> authorised env au req org s"
proof -
  have "\<not> has_role (user_id au) role org s" for role using assms(3) has_role_mono MEMBER_least by blast
  moreover have "\<not> team_change_allowed (user_id au) target team_slug org s" for target team_slug
    using assms(3) allowed_member by blast
  moreover have "org \<noteq> next_org s" using fresh_org [OF assms(1)] assms(2) by blast
  ultimately show ?thesis
    using assms(3,4) by (cases req) (auto simp: holds_token_def has_role_iff)
qed

lemma org_ids_view: "org \<in> org_ids s \<longleftrightarrow> fst (org_view org s) \<noteq> []"
  by (auto simp: org_ids_def org_view_def filter_empty_conv)

lemma view_members:
  assumes "org_view org s' = org_view org s"
  shows "m \<in> set (members s') \<and> m_org m = org \<longleftrightarrow> m \<in> set (members s) \<and> m_org m = org"
proof -
  have "set (filter (\<lambda>m. m_org m = org) (members s')) = set (filter (\<lambda>m. m_org m = org) (members s))"
    using assms by (simp add: org_view_def)
  then show ?thesis by auto
qed

lemma has_role_view: "org_view org s' = org_view org s \<Longrightarrow> has_role uid role org s' = has_role uid role org s"
  using view_members [of org s' s] unfolding has_role_iff by blast

lemma holds_token_view:
  "org_view org s' = org_view org s \<Longrightarrow> holds_token (\<lambda>m. m_org m = org) st s' = holds_token (\<lambda>m. m_org m = org) st s"
  using view_members [of org s' s] unfolding holds_token_def by (auto split: prod.split request.split)

lemma power_members:
  assumes "power_view org s' = power_view org s"
  shows "m \<in> set (members s') \<and> powerful org s' m \<longleftrightarrow> m \<in> set (members s) \<and> powerful org s m"
proof -
  have "set (filter (powerful org s') (members s')) = set (filter (powerful org s) (members s))"
    using assms by (simp add: power_view_def)
  then show ?thesis by auto
qed

section \<open>A small installation\<close>

definition demo_tokens :: token_env where
  "demo_tokens =
     \<lparr>base36_to_int = (\<lambda>t. if t \<noteq> [] \<and> list_all is_digit t then Some (int (nat_of_digits t)) else None),
      make_token_with_timestamp = (\<lambda>h ts. str_of_int ts @ ''-'' @ h),
      now_seconds = 100, REGISTRATION_TIMEOUT_DAYS = 15\<rparr>"

definition demo_cfg :: access_cfg where
  "demo_cfg =
     \<lparr>EMAIL_ENABLED = True, EMAIL_INVITE_REQUIRE_VERIFICATION = False, EMAIL_INVITE_THROTTLE_COUNT = 50,
      ENABLE_USER_REGISTRATION = True, ENABLE_ORGANIZATION_CREATION = False, CREATOR_SIGNAL_SSO_ONLY = False\<rparr>"

definition demo_env :: api_env where
  "demo_env =
     \<lparr>env_cfg = demo_cfg, env_tokens = demo_tokens, env_org_slug = (\<lambda>name taken. name),
      env_project_slug = (\<lambda>given name taken. name), env_new_key = 900, env_violates = (\<lambda>e es. False),
      env_preview = (\<lambda>seed. [seed]), env_random = ''r''\<rparr>"

definition session :: "nat \<Rightarrow> auth" where
  "session uid = \<lparr>user_id = uid, auth_kind = Session\<rparr>"

definition demo_user :: "nat \<Rightarrow> user_row" where
  "demo_user i = \<lparr>u_id = i, u_email = ''u'' @ digits_of i, u_name = '''', u_superuser = False, u_is_active = True,
     u_options = JNone, u_subscribe_by_default = True\<rparr>"

text \<open>
  Users 1 (owner), 2 (manager) and 3 (member) of the organization \<open>acme\<close>, a pending invitation of the
  owner role, and user 4, owner of \<open>other\<close> and plain member of \<open>acme\<close>.
\<close>

definition demo :: db where
  "demo =
     \<lparr>user_rows = map demo_user [1, 2, 3, 4, 5, 6], email_rows = [],
      orgs = [\<lparr>o_id = 1, o_name = ''Acme'', o_slug = ''acme'', o_open_membership = False, o_is_deleted = False\<rparr>,
              \<lparr>o_id = 2, o_name = ''Other'', o_slug = ''other'', o_open_membership = True, o_is_deleted = False\<rparr>],
      members = [\<lparr>m_id = 1, m_org = 1, m_user = Some 1, m_email = None, m_role = OWNER\<rparr>,
                 \<lparr>m_id = 2, m_org = 1, m_user = Some 2, m_email = None, m_role = MANAGER\<rparr>,
                 \<lparr>m_id = 3, m_org = 1, m_user = Some 3, m_email = None, m_role = MEMBER\<rparr>,
                 \<lparr>m_id = 4, m_org = 2, m_user = Some 4, m_email = None, m_role = OWNER\<rparr>,
                 \<lparr>m_id = 5, m_org = 1, m_user = Some 4, m_email = None, m_role = MEMBER\<rparr>,
                 \<lparr>m_id = 6, m_org = 1, m_user = None, m_email = Some ''new'', m_role = OWNER\<rparr>],
      owner_of = (\<lambda>org. if org = 1 then Some 1 else if org = 2 then Some 4 else None),
      teams = [\<lparr>t_id = 1, t_org = 1, t_slug = ''core'', t_members = [1], t_projects = [1]\<rparr>],
      projects = [\<lparr>p_id = 1, p_org = 1, p_slug = ''web'', p_name = ''Web'', p_platform = None, p_throttle_rate = 0,
                   p_is_deleted = False,
                   p_keys = [\<lparr>k_public_key = 7, k_is_active = True, k_name = '''', k_rate_limit = None\<rparr>]\<rparr>],
      user_alerts = (\<lambda>_. None), tokens = [], invite_attempts = (\<lambda>_. None), recovery_seeds = (\<lambda>_. None),
      recovery_codes = (\<lambda>_. None), tasks = [], next_org = 3, next_member = 7, next_team = 2, next_project = 2,
      next_token = 1\<rparr>"

lemma demo_ok: "db_ok demo"
  by (auto simp: demo_def db_ok_def keys_ok_def uniques_ok_def refs_ok_def unique_by_def unique_nullable_def org_ids_def
      split: if_splits)

lemma demo_org: "1 \<in> org_ids demo"
  by (simp add: demo_def org_ids_def)

section \<open>Properties\<close>

text \<open>
  Property C31. Integrity: whatever sequence of requests is served, by whichever users, sessions and tokens,
  primary keys and slugs stay unique, a user has one membership per organization, and teams, owner
  records and projects refer to rows of their own organization only.
\<close>

theorem requests_keep_integrity:
  assumes "db_ok s" and "known_users steps"
  shows "db_ok (run steps s)"
  using assms by (rule run_ok)

theorem requests_keep_integrity_witness:
  "db_ok (run [(demo_env, session 2, InviteMember ''acme'' \<lparr>in_role = ''admin'', in_teams = [''core''], in_email = ''x'', in_reinvite = True\<rparr>)] demo)"
  by (rule requests_keep_integrity [OF demo_ok]) (simp add: known_users_def session_def)

text \<open>
  Property C29. A request changes the rows of an organization only if it is authorised there: the caller has
  the role that the endpoint asks for, removes its own membership, holds the owner record it passes on, or
  presents a valid invitation token of the organization. A team is joined or left only at the word of a
  manager, of an admin in that team or, where membership is open, of the member itself.
\<close>

theorem changes_are_authorised:
  assumes "db_ok s" and "user_id au \<noteq> 0" and "org_view org (handle env au req s) \<noteq> org_view org s"
  shows "authorised env au req org s"
  using isolating.contract_kept [OF assms(1,2)] assms(3) unfolding stays_out_def by blast

theorem changes_are_authorised_witness: "authorised demo_env (session 1) (UpdateOrganization ''acme'' ''New'') 1 demo"
proof (rule changes_are_authorised [OF demo_ok])
  show "org_view 1 (handle demo_env (session 1) (UpdateOrganization ''acme'' ''New'') demo) \<noteq> org_view 1 demo" by code_simp
qed (simp add: session_def)

text \<open>
  Property C3. Tenant isolation: users without a membership in an organization, and without a valid
  invitation token for it, leave its rows exactly as they are, whatever they send and in whatever order.
\<close>

theorem tenants_are_isolated:
  assumes "db_ok s" and "org \<in> org_ids s" and "known_users steps"
    and "\<forall>st\<in>set steps. \<not> has_role (user_id (fst (snd st))) MEMBER org s \<and> \<not> holds_token (\<lambda>m. m_org m = org) st s"
  shows "org_view org (run steps s) = org_view org s"
  using assms
proof (induction steps arbitrary: s)
  case (Cons st steps)
  obtain env au req where st: "st = (env, au, req)" by (cases st)
  have u: "user_id au \<noteq> 0" "known_users steps" using Cons.prems(3) by (auto simp: st known_users_def)
  have "\<not> authorised env au req org s"
    using Cons.prems by (intro outsider_unauthorised) (auto simp: st)
  then have v: "org_view org (handle env au req s) = org_view org s"
    using isolating.contract_kept [OF Cons.prems(1) u(1)] unfolding stays_out_def by blast
  have "db_ok (handle env au req s)" using sound.contract_kept [OF Cons.prems(1) u(1)] .
  from Cons.IH [OF this _ u(2)] show ?case
    using Cons.prems(2,4) v org_ids_view holds_token_view [OF v] has_role_view [OF v] by (simp add: st)
qed simp

theorem tenants_are_isolated_witness:
  "org_view 1 (run [(demo_env, session 5, ChangeRole ''acme'' 3 ''owner''), (demo_env, session 6, AcceptInvite 6 ''100-6'' True)] demo)
     = org_view 1 demo"
proof (rule tenants_are_isolated [OF demo_ok demo_org])
  show "\<forall>st\<in>set [(demo_env, session 5, ChangeRole ''acme'' 3 ''owner''), (demo_env, session 6, AcceptInvite 6 ''100-6'' True)].
      \<not> has_role (user_id (fst (snd st))) MEMBER 1 demo \<and> \<not> holds_token (\<lambda>m. m_org m = 1) st demo"
    by code_simp
qed (simp add: known_users_def session_def)

text \<open>
  Property C5. No escalation: users who hold neither a membership of at least the manager role nor the
  owner record of an organization, and no valid invitation token for such a membership, cannot change who
  holds them, by any sequence of requests; the organization itself stays as it is.
\<close>

theorem members_cannot_escalate:
  assumes "db_ok s" and "org \<in> org_ids s" and "known_users steps"
    and "\<forall>st\<in>set steps. (\<forall>m\<in>set (members s). powerful org s m \<longrightarrow> m_user m \<noteq> Some (user_id (fst (snd st)))) \<and>
           \<not> holds_token (powerful org s) st s"
  shows "power_view org (run steps s) = power_view org s"
  using assms
proof (induction steps arbitrary: s)
  case (Cons st steps)
  obtain env au req where st: "st = (env, au, req)" by (cases st)
  have u: "user_id au \<noteq> 0" "known_users steps" using Cons.prems(3) by (auto simp: st known_users_def)
  have "powerless env au req org s"
    using Cons.prems(2,4) by (auto simp: st powerless_def holds_token_def)
  then have v: "power_view org (handle env au req s) = power_view org s"
    using levelling.contract_kept [OF Cons.prems(1) u(1)] unfolding keeps_power_def by blast
  have ok: "db_ok (handle env au req s)" using sound.contract_kept [OF Cons.prems(1) u(1)] .
  have "org \<in> org_ids (handle env au req s)"
    using v Cons.prems(2) org_ids_view by (simp add: power_view_def org_view_def)
  moreover have "holds_token (powerful org (handle env au req s)) x (handle env au req s) = holds_token (powerful org s) x s" for x
    unfolding holds_token_def using power_members [OF v] by (auto split: prod.split request.split)
  ultimately show ?case
    using Cons.IH [OF ok _ u(2)] Cons.prems(4) v power_members [OF v] by (simp add: st) metis
qed simp


theorem members_cannot_escalate_witness:
  "power_view 1 (run [(demo_env, session 3, ChangeRole ''acme'' 3 ''owner''), (demo_env, session 4, SetOwner ''acme'' 5),
     (demo_env, session 3, RemoveMember ''acme'' 3)] demo) = power_view 1 demo"
proof (rule members_cannot_escalate [OF demo_ok demo_org])
  show "\<forall>st\<in>set [(demo_env, session 3, ChangeRole ''acme'' 3 ''owner''), (demo_env, session 4, SetOwner ''acme'' 5),
      (demo_env, session 3, RemoveMember ''acme'' 3)].
      (\<forall>m\<in>set (members demo). powerful 1 demo m \<longrightarrow> m_user m \<noteq> Some (user_id (fst (snd st)))) \<and> \<not> holds_token (powerful 1 demo) st demo"
    by code_simp
qed (simp add: known_users_def session_def)

end
