(* ===== verification/Access_Props.thy ===== *)
theory Access_Props
  imports Access_Control
begin

text \<open>
  Properties of single endpoints: the scopes of API tokens, what queries show, invitations and their
  tokens, owners and accounts; and, on the small installation of \<open>Access_Control\<close>, the behaviours that
  the code does not intend.
\<close>

section \<open>API tokens\<close>

text \<open>The scopes of which a token needs one, for the requests that check scopes.\<close>

fun request_scopes :: "request \<Rightarrow> string list option" where
  "request_scopes (CreateOrganization _) = Some [''org:write'', ''org:admin'']"
| "request_scopes (UpdateOrganization _ _) = Some [''org:write'', ''org:admin'']"
| "request_scopes (RemoveOrganization _) = Some [''org:admin'']"
| "request_scopes (InviteMember _ _) = Some [''member:write'', ''member:admin'']"
| "request_scopes (RemoveMember _ _) = Some [''member:admin'']"
| "request_scopes (ChangeRole _ _ _) = Some [''member:write'', ''member:admin'']"
| "request_scopes (SetOwner _ _) = Some [''member:admin'']"
| "request_scopes (UpdateTeam _ _ _) = Some [''team:write'', ''team:admin'']"
| "request_scopes (RemoveTeam _ _) = Some [''team:admin'']"
| "request_scopes (CreateTeam _ _) = Some [''team:write'', ''team:admin'', ''org:admin'', ''org:write'']"
| "request_scopes (JoinTeam _ _ _) = Some [''team:write'', ''team:admin'']"
| "request_scopes (LeaveTeam _ _ _) = Some [''team:write'', ''team:admin'']"
| "request_scopes (AddTeamToProject _ _ _) = Some [''project:write'', ''project:admin'']"
| "request_scopes (RemoveTeamFromProject _ _ _) = Some [''project:write'', ''project:admin'']"
| "request_scopes (UpdateProject _ _ _) = Some [''project:write'', ''project:admin'']"
| "request_scopes (RemoveProject _ _) = Some [''project:admin'']"
| "request_scopes (CreateProject _ _ _) = Some [''project:write'', ''project:admin'']"
| "request_scopes (CreateKey _ _ _) = Some [''project:write'', ''project:admin'']"
| "request_scopes (UpdateKey _ _ _ _) = Some [''project:write'', ''project:admin'']"
| "request_scopes (RemoveKey _ _ _) = Some [''project:admin'']"
| "request_scopes _ = None"

definition denied :: "string list \<Rightarrow> auth \<Rightarrow> bool" where
  "denied ps au \<longleftrightarrow> (\<exists>bits. auth_kind au = Token bits \<and> set (get_token_scopes bits) \<inter> set ps = {})"

lemma has_permission_denied: "denied ps au \<Longrightarrow> snd (has_permission ps au s k) = s"
  by (auto simp: denied_def has_permission_def)

lemma token_scopes_flags: "set (get_token_scopes bits) \<subseteq> set token_flags"
  by (auto simp: get_token_scopes_def in_set_enumerate_eq)

lemma denied_typo: "denied [''project:write'', ''project:admin''] au \<Longrightarrow> denied [''project.write'', ''project:admin''] au"
proof -
  have "''project.write'' \<notin> set token_flags" by (simp add: token_flags_def)
  then show "denied [''project:write'', ''project:admin''] au \<Longrightarrow> denied [''project.write'', ''project:admin''] au"
    using token_scopes_flags unfolding denied_def by fastforce
qed

lemma bit_fold_set_bit: "bit (fold (\<lambda>k bits. set_bit (f k) bits) ks (m :: int)) i \<longleftrightarrow> bit m i \<or> (\<exists>k\<in>set ks. f k = i)"
  by (induction ks arbitrary: m) (auto simp: bit_set_bit_iff)

lemma nth_flag_index: "k \<in> set token_flags \<Longrightarrow> flag_index k < length token_flags \<and> token_flags ! flag_index k = k"
proof -
  have "k \<in> set xs \<Longrightarrow> length (takeWhile (\<lambda>f. f \<noteq> k) xs) < length xs \<and> xs ! length (takeWhile (\<lambda>f. f \<noteq> k) xs) = k" for xs
    by (induction xs) auto
  then show "k \<in> set token_flags \<Longrightarrow> flag_index k < length token_flags \<and> token_flags ! flag_index k = k"
    unfolding flag_index_def .
qed

section \<open>Properties\<close>

text \<open>
  Further property. An API token without one of the scopes that an endpoint names changes nothing through it,
  whatever the role of its user.
\<close>

theorem tokens_need_scopes:
  assumes "auth_kind au = Token bits" and "request_scopes req = Some ps" and "set (get_token_scopes bits) \<inter> set ps = {}"
  shows "handle env au req s = s"
proof -
  have d: "denied ps au" using assms(1,3) by (auto simp: denied_def)
  show ?thesis
    using assms(2) d has_permission_denied denied_typo
    by (cases req) (auto simp: create_organization_def update_organization_def delete_organization_def
      create_organization_member_def delete_organization_member_def update_organization_member_def set_organization_owner_def
      update_team_def delete_team_def create_team_def add_member_to_team_def delete_member_from_team_def add_team_to_project_def
      delete_team_from_project_def update_project_def delete_project_def create_project_def create_project_key_def
      update_project_key_def delete_project_key_def has_permission_denied split: option.split)
qed

theorem tokens_need_scopes_witness:
  "handle demo_env \<lparr>user_id = 1, auth_kind = Token 1\<rparr> (RemoveOrganization ''acme'') demo = demo"
proof (rule tokens_need_scopes [of _ 1 _ "[''org:admin'']"])
  show "set (get_token_scopes 1) \<inter> set [''org:admin''] = {}" by code_simp
qed simp_all

text \<open>
  Further property. The scopes of a token survive storage as a bit mask: the names read back are exactly those
  that were given, in the order of the flags.
\<close>

theorem token_scopes_roundtrip:
  assumes "scopes_to_bitfield ks = Some bits"
  shows "get_token_scopes bits = filter (\<lambda>f. f \<in> set ks) token_flags"
proof -
  have ks: "\<forall>k\<in>set ks. k \<in> set token_flags" and bits: "bits = fold (\<lambda>k bits. set_bit (flag_index k) bits) ks 0"
    using assms by (auto simp: scopes_to_bitfield_def split: if_splits)
  have d: "distinct token_flags" by (simp add: token_flags_def)
  have "bit bits i \<longleftrightarrow> token_flags ! i \<in> set ks" if "i < length token_flags" for i
  proof -
    have "bit bits i \<longleftrightarrow> (\<exists>k\<in>set ks. flag_index k = i)" by (simp add: bits bit_fold_set_bit)
    also have "\<dots> \<longleftrightarrow> token_flags ! i \<in> set ks"
    proof
      assume "\<exists>k\<in>set ks. flag_index k = i"
      then show "token_flags ! i \<in> set ks" using ks nth_flag_index by auto
    next
      assume m: "token_flags ! i \<in> set ks"
      then have "flag_index (token_flags ! i) = i" using ks nth_flag_index that nth_eq_iff_index_eq [OF d] by blast
      then show "\<exists>k\<in>set ks. flag_index k = i" using m by blast
    qed
    finally show ?thesis .
  qed
  then have "filter (\<lambda>(i, f). bit bits i) (enumerate 0 token_flags) = filter (\<lambda>(i, f). f \<in> set ks) (enumerate 0 token_flags)"
    by (auto simp: in_set_enumerate_eq intro!: filter_cong)
  then have "get_token_scopes bits = map snd (filter ((\<lambda>f. f \<in> set ks) \<circ> snd) (enumerate 0 token_flags))"
    by (simp add: get_token_scopes_def comp_def case_prod_unfold)
  also have "\<dots> = filter (\<lambda>f. f \<in> set ks) (map snd (enumerate 0 token_flags))" by (simp only: filter_map)
  finally show ?thesis by simp
qed


theorem token_scopes_roundtrip_witness: "get_token_scopes 5 = [''project:read'', ''project:admin'']"
proof -
  have "scopes_to_bitfield [''project:admin'', ''project:read''] = Some 5" by code_simp
  from token_scopes_roundtrip [OF this] show ?thesis by (simp add: token_flags_def)
qed

text \<open>
  Further property. What a listing shows belongs to organizations of the caller: organizations, members, teams,
  projects and keys of other tenants never appear in an answer.
\<close>

theorem listings_stay_inside:
  assumes "user_id au \<noteq> 0"
  shows "(\<forall>rows. fst (list_organizations collate au s) = Inr rows \<longrightarrow> (\<forall>r\<in>set rows. has_role (user_id au) MEMBER (o_id r) s)) \<and>
    (\<forall>rows. fst (list_organization_members au slug s) = Inr rows \<longrightarrow> (\<forall>r\<in>set rows. has_role (user_id au) MEMBER (m_org r) s)) \<and>
    (\<forall>rows. fst (list_team_organization_members au slug team s) = Inr rows \<longrightarrow> (\<forall>r\<in>set rows. has_role (user_id au) MEMBER (m_org r) s)) \<and>
    (\<forall>rows. fst (list_teams au slug s) = Inr rows \<longrightarrow> (\<forall>r\<in>set rows. has_role (user_id au) MEMBER (t_org r) s)) \<and>
    (\<forall>rows. fst (list_project_teams au slug project s) = Inr rows \<longrightarrow> (\<forall>r\<in>set rows. has_role (user_id au) MEMBER (t_org r) s)) \<and>
    (\<forall>rows. fst (list_projects collate au s) = Inr rows \<longrightarrow> (\<forall>r\<in>set rows. has_role (user_id au) MEMBER (p_org r) s)) \<and>
    (\<forall>rows. fst (list_organization_projects collate au slug query s) = Inr rows \<longrightarrow> (\<forall>r\<in>set rows. has_role (user_id au) MEMBER (p_org r) s)) \<and>
    (\<forall>rows. fst (list_project_keys au slug project s) = Inr rows \<longrightarrow> (\<forall>r\<in>set rows. has_role (user_id au) MEMBER (p_org (fst r)) s))"
proof -
  have teams: "set (fold (team_filter s) ws ps) \<subseteq> set ps" for ws ps
  proof (induction ws arbitrary: ps)
    case (Cons w ws)
    have "set (team_filter s w ps) \<subseteq> set ps" by (auto simp: team_filter_def Let_def split: list.splits if_splits)
    then show ?case using Cons [of "team_filter s w ps"] by auto
  qed simp
  show ?thesis
    unfolding list_organizations_def list_organization_members_def list_team_organization_members_def list_teams_def
      list_project_teams_def list_projects_def list_organization_projects_def list_project_keys_def Let_def
    apply (intro conjI allI impI ballI; drule permitted_rows; hypsubst)
    subgoal by (simp add: in_organizations_queryset)
    subgoal by (rule in_organization_users_queryset(3))
    subgoal by (rule in_organization_users_queryset(3))
    subgoal by (rule in_team_queryset(3) [OF _ refl assms])
    subgoal by (rule in_team_queryset(3) [OF _ refl assms])
    subgoal by (simp add: in_projects_queryset(3))
    subgoal using teams by (cases query) (auto dest!: subsetD [OF teams] dest: in_projects_queryset(3))
    subgoal for rows r by (rule in_project_keys_queryset(3) [of _ "snd r"]) simp
    done
qed

theorem listings_stay_inside_witness:
  "\<forall>rows. fst (list_organization_members (session 6) ''acme'' demo) = Inr rows \<longrightarrow> (\<forall>r\<in>set rows. has_role 6 MEMBER (m_org r) demo)"
  using listings_stay_inside [of "session 6" _ demo "''acme''"] by (simp add: session_def)

text \<open>
  Further property. An invitation token opens the membership it was made for and no other, up to and including
  the last second of its lifetime; the HMAC is assumed to tell apart the values it signs.
\<close>

theorem invitation_token_window:
  assumes "t = now_seconds te"
    and "\<And>h. make_token_with_timestamp te h t = b36 @ ''-'' @ mac h"
    and "CHR ''-'' \<notin> set b36" and "\<And>i. CHR ''-'' \<notin> set (mac (make_hash_value i t))"
    and "base36_to_int te b36 = Some t" and "\<And>h h'. mac h = mac h' \<Longrightarrow> h = h'"
  shows "check_token (te\<lparr>now_seconds := now\<rparr>) pk' (get_token te pk) \<longleftrightarrow>
    pk' = pk \<and> now - t \<le> REGISTRATION_TIMEOUT_DAYS te * 86400"
proof -
  have "split_char (CHR ''-'') (get_token te pk) = [b36, mac (make_hash_value pk t)]"
    using split_char_append [of "CHR ''-''" b36 "mac (make_hash_value pk t)"] assms(3,4)
    by (simp add: get_token_def assms(2) split_char_plain flip: assms(1))
  moreover have "make_token_with_timestamp te (make_hash_value pk' t) t = get_token te pk \<longleftrightarrow> pk' = pk"
    using assms(6) [of "make_hash_value pk' t" "make_hash_value pk t"]
    by (auto simp: get_token_def assms(2) make_hash_value_def simp flip: assms(1))
  ultimately show ?thesis by (auto simp: check_token_def assms(5))
qed

theorem invitation_token_window_witness:
  "check_token (demo_tokens\<lparr>now_seconds := 1296100\<rparr>) 6 (get_token demo_tokens 6) \<and>
   \<not> check_token (demo_tokens\<lparr>now_seconds := 1296101\<rparr>) 6 (get_token demo_tokens 6)"
proof -
  have hundred: "digits_of 100 = ''100''" by code_simp
  have "CHR ''-'' \<notin> set (make_hash_value i 100)" for i
    using digits_of_digits by (fastforce simp: make_hash_value_def str_of_int_def is_digit_def)
  then have "check_token (demo_tokens\<lparr>now_seconds := now\<rparr>) 6 (get_token demo_tokens 6) \<longleftrightarrow>
      now - 100 \<le> REGISTRATION_TIMEOUT_DAYS demo_tokens * 86400" for now
    using invitation_token_window [of 100 demo_tokens "''100''" id now 6 6] hundred
    by (simp add: demo_tokens_def str_of_int_def nat_of_digits_def digit_val_def is_digit_def)
  then show ?thesis by (simp add: demo_tokens_def)
qed

text \<open>
  Further property. An invitation that succeeds was sent by a manager or owner below the limit, is counted, and
  leaves exactly one more membership, pending and with the role and address asked for, unless the address
  was invited before: then the memberships are as they were, their roles included.
\<close>

theorem invitation_outcome:
  assumes "create_organization_member cfg te au slug payload s = (Inr m, s')"
  shows "\<exists>org\<in>set (orgs s). \<exists>role. has_role (user_id au) MANAGER (o_id org) s \<and> from_string (in_role payload) = Some role \<and>
    \<not> email_is_member (o_id org) (in_email payload) s \<and>
    (case invite_attempts s (user_id au) of None \<Rightarrow> 0 | Some n \<Rightarrow> n) < EMAIL_INVITE_THROTTLE_COUNT cfg \<and>
    (if \<exists>r\<in>set (members s). m_org r = o_id org \<and> m_email r = Some (in_email payload)
     then members s' = members s
     else members s' = members s @ [\<lparr>m_id = next_member s, m_org = o_id org, m_user = None,
            m_email = Some (in_email payload), m_role = role\<rparr>])"
proof -
  from assms obtain role u org r where f: "from_string (in_role payload) = Some role" "[u \<leftarrow> user_rows s. u_id u = user_id au] = [u]"
      "member_orgs (u_id u) slug s = [org]" "org_actor_role (u_id u) (Some slug) s = Some r" "\<not> r < MANAGER"
      "\<not> email_is_member (o_id org) (in_email payload) s"
      "\<not> EMAIL_INVITE_THROTTLE_COUNT cfg \<le> (case invite_attempts s (u_id u) of None \<Rightarrow> 0 | Some n \<Rightarrow> n)"
      "invite_member te (u_id u) slug (o_id org) payload role (count_invite (u_id u) s) = (Inr m, s')"
    by (auto simp: create_organization_member_def api_Inr split: option.splits if_splits)
  have u: "u_id u = user_id au" by (rule found_by_key(1) [OF f(2)])
  have org: "org \<in> set (orgs s)" "has_role (user_id au) MANAGER (o_id org) s"
    using found_organization(1) [OF member_orgs_single [OF f(3)]] managed_organization [OF member_orgs_single [OF f(3)] f(4,5)] u by auto
  let ?s = "count_invite (u_id u) s"
  have c [simp]: "members ?s = members s" "next_member ?s = next_member s" by (simp_all add: count_invite_def)
  obtain m0 created s1 where g: "get_or_create_member (o_id org) (in_email payload) role ?s = Some (m0, created, s1)"
    and m1: "members s' = members s1"
    using f(8) by (auto simp: invite_member_def api_Inr Let_def add_to_teams_def send_invitation_def split: option.splits if_splits)
  have "if \<exists>r\<in>set (members s). m_org r = o_id org \<and> m_email r = Some (in_email payload) then members s1 = members s
      else members s1 = members s @ [\<lparr>m_id = next_member s, m_org = o_id org, m_user = None,
            m_email = Some (in_email payload), m_role = role\<rparr>]"
    using g by (cases "[m \<leftarrow> members s. m_org m = o_id org \<and> m_email m = Some (in_email payload)]")
      (auto simp: get_or_create_member_def insert_member_def Let_def filter_empty_conv filter_eq_Cons_iff split: list.splits)
  then show ?thesis
    using f(1,6,7) u org by (intro bexI [of _ org] exI [of _ role]) (auto simp: m1)
qed


theorem invitation_outcome_witness:
  "members (snd (create_organization_member demo_cfg demo_tokens (session 2)
       ''acme'' \<lparr>in_role = ''admin'', in_teams = [''core''], in_email = ''x'', in_reinvite = True\<rparr> demo)) =
     members demo @ [\<lparr>m_id = 7, m_org = 1, m_user = None, m_email = Some ''x'', m_role = ADMIN\<rparr>]"
proof -
  let ?p = "\<lparr>in_role = ''admin'', in_teams = [''core''], in_email = ''x'', in_reinvite = True\<rparr>"
  let ?r = "create_organization_member demo_cfg demo_tokens (session 2) ''acme'' ?p demo"
  have "fst ?r = Inr \<lparr>m_id = 7, m_org = 1, m_user = None, m_email = Some ''x'', m_role = ADMIN\<rparr>" by code_simp
  then have "?r = (Inr \<lparr>m_id = 7, m_org = 1, m_user = None, m_email = Some ''x'', m_role = ADMIN\<rparr>, snd ?r)" by (metis prod.collapse)
  from invitation_outcome [OF this] obtain org role where o: "org \<in> set (orgs demo)"
      "has_role (user_id (session 2)) MANAGER (o_id org) demo" "from_string (in_role ?p) = Some role"
      "if \<exists>r\<in>set (members demo). m_org r = o_id org \<and> m_email r = Some (in_email ?p) then members (snd ?r) = members demo
       else members (snd ?r) = members demo @ [\<lparr>m_id = next_member demo, m_org = o_id org, m_user = None, m_email = Some (in_email ?p), m_role = role\<rparr>]"
    by blast
  have "from_string ''admin'' = Some ADMIN" by code_simp
  moreover have "o_id org = 1" using o(1,2) by (auto simp: demo_def session_def has_role_iff less_eq_org_role_def)
  moreover have "\<not> (\<exists>r\<in>set (members demo). m_org r = 1 \<and> m_email r = Some ''x'')" by code_simp
  moreover have "next_member demo = 7" by (simp add: demo_def)
  ultimately show ?thesis using o(3,4) by simp
qed

text \<open>
  Further property. At the limit nobody invites: the answer is an error and nothing is written.
\<close>

theorem invitations_are_throttled:
  assumes "invite_attempts s (user_id au) = Some n" and "EMAIL_INVITE_THROTTLE_COUNT cfg \<le> n"
  shows "\<exists>e. create_organization_member cfg te au slug payload s = (Inl e, s)"
proof -
  let ?P = "\<lambda>x :: member api. \<exists>e. x = (Inl e, s)"
  have u: "invite_attempts s (u_id u) = Some n" if "[u \<leftarrow> user_rows s. u_id u = user_id au] = [u]" for u
    using found_by_key(1) [OF that] assms(1) by simp
  have "?P (create_organization_member cfg te au slug payload s)"
    unfolding create_organization_member_def
    by (split option.split, intro conjI allI impI; (intro api_refused [where P = ?P])?) (use assms(2) u in auto)
  then show ?thesis .
qed

theorem invitations_are_throttled_witness:
  "\<exists>e. create_organization_member demo_cfg demo_tokens (session 2) ''acme'' \<lparr>in_role = ''admin'', in_teams = [], in_email = ''x'', in_reinvite = True\<rparr> (demo\<lparr>invite_attempts := (\<lambda>_. Some 50)\<rparr>)
     = (Inl e, demo\<lparr>invite_attempts := (\<lambda>_. Some 50)\<rparr>)"
  using invitations_are_throttled [of "demo\<lparr>invite_attempts := (\<lambda>_. Some 50)\<rparr>" "session 2" 50 demo_cfg]
  by (simp add: demo_cfg_def)

text \<open>
  Further property. A change of role that succeeds leaves the organization with a membership of the owner role,
  accepted or pending.
\<close>

theorem role_change_keeps_an_owner:
  assumes "db_ok s" and "update_organization_member au slug i role s = (Inr m, s')"
  shows "\<exists>r\<in>set (members s'). m_org r = m_org m \<and> m_role r = OWNER"
proof -
  from assms(2) obtain r m0 where f: "from_string role = Some r" "members_by_id (user_id au) slug i s = [m0]"
      "r < OWNER \<longrightarrow> (\<exists>x\<in>set (members s). m_id x \<noteq> i \<and> OWNER \<le> m_role x \<and> (\<exists>org\<in>set (orgs s). o_id org = m_org x \<and> o_slug org = slug))"
      "m = m0\<lparr>m_role := r\<rparr>" "s' = save_member m s"
    by (auto simp: update_organization_member_def api_Inr Let_def split: option.splits if_splits)
  note m0 = found_member [OF f(2)]
  have top: "x = OWNER" if "OWNER \<le> x" for x using that by (cases x) (auto simp: less_eq_org_role_def)
  show ?thesis
  proof (cases "r < OWNER")
    case True
    then obtain x where x: "x \<in> set (members s)" "m_id x \<noteq> i" "OWNER \<le> m_role x" "\<exists>org\<in>set (orgs s). o_id org = m_org x \<and> o_slug org = slug"
      using f(3) by blast
    have "m_org x = m_org m0" using same_org_by_slug [OF assms(1) x(4) in_organization_users_queryset(2) [OF m0(4)]] .
    moreover have "x \<in> set (members s')"
      using kept_save_row [OF x(1), of m_id m] x(2) m0(2) by (simp add: f(4,5) save_member_def)
    ultimately show ?thesis using top [OF x(3)] f(4) by (intro bexI [of _ x]) simp_all
  next
    case False
    then have "r = OWNER" using top by simp
    then show ?thesis
      using in_save_row [OF m0(1), of m_id m] by (intro bexI [of _ m]) (simp_all add: f(4,5) save_member_def)
  qed
qed

theorem role_change_keeps_an_owner_witness:
  "\<exists>r\<in>set (members (handle demo_env (session 1) (ChangeRole ''acme'' 1 ''admin'') demo)). m_org r = 1 \<and> m_role r = OWNER"
proof -
  let ?r = "update_organization_member (session 1) ''acme'' 1 ''admin'' demo"
  have "fst ?r = Inr \<lparr>m_id = 1, m_org = 1, m_user = Some 1, m_email = None, m_role = ADMIN\<rparr>" by code_simp
  then have "?r = (Inr \<lparr>m_id = 1, m_org = 1, m_user = Some 1, m_email = None, m_role = ADMIN\<rparr>, snd ?r)" by (metis prod.collapse)
  from role_change_keeps_an_owner [OF demo_ok this] show ?thesis by simp
qed

text \<open>
  Further property. A deleted account leaves no membership, no address, no token and no notification preference,
  and none of its tokens authenticates any more.
\<close>

theorem deleted_account_leaves_nothing:
  assumes "delete_user au target s = (Inr (), s')"
  shows "(\<forall>m\<in>set (members s'). m_user m \<noteq> Some (user_id au)) \<and> (\<forall>e\<in>set (email_rows s'). e_user e \<noteq> user_id au) \<and>
    (\<forall>p. user_alerts s' (user_id au, p) = None) \<and> (\<forall>key a. token_authenticate key s' = Some a \<longrightarrow> user_id a \<noteq> user_id au)"
proof -
  have s': "s' = remove_user (user_id au) s" using assms by (auto simp: delete_user_def api_Inr split: if_splits)
  have "user_id a \<noteq> user_id au" if "token_authenticate key s' = Some a" for key a
  proof -
    from that obtain t where t: "[t. t \<leftarrow> tokens s', tok_token t = key, u \<leftarrow> user_rows s', u_id u = tok_user t \<and> u_is_active u] = [t]"
        "user_id a = tok_user t"
      by (auto simp: token_authenticate_def split: list.splits)
    have "t \<in> set (tokens s')" using single_in [OF t(1)] by auto
    then show ?thesis using t(2) by (auto simp: s' remove_user_def Let_def)
  qed
  then show ?thesis by (auto simp: s' remove_user_def Let_def)
qed

theorem deleted_account_leaves_nothing_witness:
  "\<forall>m\<in>set (members (snd (delete_user (session 3) MeUser demo))). m_user m \<noteq> Some 3"
proof -
  have "fst (delete_user (session 3) MeUser demo) = Inr ()" by code_simp
  then have "delete_user (session 3) MeUser demo = (Inr (), snd (delete_user (session 3) MeUser demo))" by (metis prod.collapse)
  from deleted_account_leaves_nothing [OF this] show ?thesis by (simp add: session_def)
qed

text \<open>
  Further property. After a change of the primary address exactly the chosen, verified address of the user is
  primary, and the addresses of others are untouched.
\<close>

theorem one_primary_email:
  assumes "set_email_as_primary au target email s = (Inr x, s')"
  shows "[e \<leftarrow> email_rows s'. e_user e = user_id au \<and> e_primary e] = [x] \<and> e_verified x \<and> e_email x = email \<and>
    [e \<leftarrow> email_rows s'. e_user e \<noteq> user_id au] = [e \<leftarrow> email_rows s. e_user e \<noteq> user_id au]"
proof -
  from assms obtain y where y: "[e \<leftarrow> email_rows s. e_user e = user_id au \<and> e_verified e \<and> e_email e = email] = [y]"
    and x: "x = y\<lparr>e_primary := True\<rparr>"
    and s': "s' = s\<lparr>email_rows := map (\<lambda>e. if e_user e = user_id au then e\<lparr>e_primary := (e = y)\<rparr> else e) (email_rows s)\<rparr>"
    by (auto simp: set_email_as_primary_def api_Inr get_email_queryset_def conj_commute conj_left_commute)
  have y': "e_user y = user_id au" "e_verified y" "e_email y = email" using single_in [OF y] by auto
  have "[e \<leftarrow> email_rows s. e = y] = [e \<leftarrow> [e \<leftarrow> email_rows s. e_user e = user_id au \<and> e_verified e \<and> e_email e = email]. e = y]"
    using y' by (auto intro!: filter_cong)
  then have one: "[e \<leftarrow> email_rows s. e = y] = [y]" by (simp only: y) simp
  let ?f = "\<lambda>e. if e_user e = user_id au then e\<lparr>e_primary := (e = y)\<rparr> else e"
  have "[e \<leftarrow> email_rows s'. e_user e = user_id au \<and> e_primary e] = map ?f [e \<leftarrow> email_rows s. e = y]"
    using y'(1) by (auto simp: s' filter_map comp_def intro!: arg_cong [where f = "map ?f"] filter_cong)
  then have "[e \<leftarrow> email_rows s'. e_user e = user_id au \<and> e_primary e] = [x]" by (simp add: one y'(1) x)
  moreover have "[e \<leftarrow> email_rows s'. e_user e \<noteq> user_id au] = map ?f [e \<leftarrow> email_rows s. e_user e \<noteq> user_id au]"
    by (auto simp: s' filter_map comp_def intro!: arg_cong [where f = "map ?f"] filter_cong)
  moreover have "map ?f [e \<leftarrow> email_rows s. e_user e \<noteq> user_id au] = [e \<leftarrow> email_rows s. e_user e \<noteq> user_id au]"
    by (auto intro!: map_idI)
  ultimately show ?thesis using y' x by simp
qed

theorem one_primary_email_witness:
  "[e \<leftarrow> email_rows (snd (set_email_as_primary (session 1) MeUser ''b''
       (demo\<lparr>email_rows := [\<lparr>e_user = 1, e_email = ''a'', e_verified = True, e_primary = True\<rparr>,
                            \<lparr>e_user = 1, e_email = ''b'', e_verified = True, e_primary = False\<rparr>]\<rparr>))). e_user e = 1 \<and> e_primary e]
   = [\<lparr>e_user = 1, e_email = ''b'', e_verified = True, e_primary = True\<rparr>]"
proof -
  let ?r = "set_email_as_primary (session 1) MeUser ''b''
       (demo\<lparr>email_rows := [\<lparr>e_user = 1, e_email = ''a'', e_verified = True, e_primary = True\<rparr>,
                            \<lparr>e_user = 1, e_email = ''b'', e_verified = True, e_primary = False\<rparr>]\<rparr>)"
  have "fst ?r = Inr \<lparr>e_user = 1, e_email = ''b'', e_verified = True, e_primary = True\<rparr>" by code_simp
  then have "?r = (Inr \<lparr>e_user = 1, e_email = ''b'', e_verified = True, e_primary = True\<rparr>, snd ?r)" by (metis prod.collapse)
  from one_primary_email [OF this] show ?thesis by (simp add: session_def)
qed

text \<open>
  Further property. Recovery codes become active only with a code of the list shown before, for the seed of that
  list, and a confirmation is used up.
\<close>

theorem recovery_codes_are_confirmed:
  assumes "set_recovery_codes preview au code s = (Inr (), s')"
  shows "(\<exists>seed. recovery_seeds s (user_id au) = Some seed \<and> code \<in> set (preview seed) \<and> recovery_codes s' (user_id au) = Some seed) \<and>
    fst (set_recovery_codes preview au code' s') = Inl (HttpError 400 ''No recovery codes set, use GET first'')"
  using assms by (auto simp: set_recovery_codes_def api_Inr split: option.splits)


theorem recovery_codes_are_confirmed_witness:
  "recovery_codes (snd (set_recovery_codes (\<lambda>seed. [seed]) (session 1) ''k'' (demo\<lparr>recovery_seeds := (\<lambda>_. Some ''k'')\<rparr>))) 1 = Some ''k''"
proof -
  let ?r = "set_recovery_codes (\<lambda>seed. [seed]) (session 1) ''k'' (demo\<lparr>recovery_seeds := (\<lambda>_. Some ''k'')\<rparr>)"
  have "fst ?r = Inr ()" by code_simp
  then have "?r = (Inr (), snd ?r)" by (metis prod.collapse)
  from recovery_codes_are_confirmed [OF this] show ?thesis by (simp add: session_def)
qed

section \<open>Behaviours that the code does not intend\<close>

text \<open>A manager can give itself the owner role, and with it the owner record.\<close>

lemma manager_takes_over:
  "owner_of (run [(demo_env, session 2, ChangeRole ''acme'' 2 ''owner''), (demo_env, session 2, SetOwner ''acme'' 2)] demo) 1 = Some 2"
  by code_simp

text \<open>A manager can remove the owner; only owners themselves are kept from leaving. No owner record is left.\<close>

lemma manager_removes_owner:
  "owner_of (handle demo_env (session 2) (RemoveMember ''acme'' 1) demo) 1 = None"
  by code_simp

text \<open>A pending invitation counts as the owner that must remain: the last active owner can step down.\<close>

lemma pending_owner_suffices:
  "\<not> (\<exists>m\<in>set (members (handle demo_env (session 1) (ChangeRole ''acme'' 1 ''member'') demo)).
        m_org m = 1 \<and> m_role m = OWNER \<and> m_user m \<noteq> None)"
  by code_simp

text \<open>A manager's session deletes the organization, although the manager role lacks the scope that the endpoint names.\<close>

lemma manager_deletes_organization:
  "OrgAdmin \<notin> get_scopes MANAGER \<and>
   tasks (handle demo_env (session 2) (RemoveOrganization ''acme'') demo) = [DeleteOrganization 1]"
proof
  show "OrgAdmin \<notin> get_scopes MANAGER" by (simp add: get_scopes_simps ROLES_def)
  show "tasks (handle demo_env (session 2) (RemoveOrganization ''acme'') demo) = [DeleteOrganization 1]" by code_simp
qed

text \<open>A token stays valid after it was used: whoever presents it next takes the membership over.\<close>

lemma invitation_is_replayed:
  "map m_user (filter (\<lambda>m. m_id m = 6) (members (run [(demo_env, session 5, AcceptInvite 6 (get_token demo_tokens 6) True),
     (demo_env, session 6, AcceptInvite 6 (get_token demo_tokens 6) True)] demo))) = [Some 6]"
  by code_simp

text \<open>Renaming a team and changing a project need no role beyond membership.\<close>

lemma member_renames_team:
  "map t_slug (teams (handle demo_env (session 3) (UpdateTeam ''acme'' ''core'' ''mine'') demo)) = [''mine'']"
  by code_simp

lemma member_throttles_project:
  "map p_throttle_rate (projects (handle demo_env (session 3)
     (UpdateProject ''acme'' ''web'' \<lparr>pi_name = ''Web'', pi_slug = None, pi_platform = None, pi_throttle_rate = Some (Some 20000)\<rparr>) demo)) = [20000]"
  by code_simp

text \<open>A token with the scope \<open>project:write\<close> is refused where the decorator says \<open>project.write\<close>.\<close>

lemma project_write_token_refused:
  "get_token_scopes 2 = [''project:write''] \<and>
   fst (add_team_to_project \<lparr>user_id = 1, auth_kind = Token 2\<rparr> ''acme'' ''web'' ''core'' demo) = Inl (HttpError 403 ''Permission denied'')"
proof
  show "get_token_scopes 2 = [''project:write'']" by code_simp
  show "fst (add_team_to_project \<lparr>user_id = 1, auth_kind = Token 2\<rparr> ''acme'' ''web'' ''core'' demo) = Inl (HttpError 403 ''Permission denied'')"
    by code_simp
qed

text \<open>Updating a key changes nothing, whatever the payload.\<close>

lemma key_update_ignored: "snd (update_project_key au slug project_slug key payload s) = s"
  by (auto simp: update_project_key_def split: api_split)

text \<open>A key without a name, which the schema allows, cannot be created.\<close>

lemma unnamed_key_fails:
  "fst (create_project_key 8 (session 1) ''acme'' ''web'' \<lparr>ki_name = None, ki_rate_limit = None\<rparr> demo) = Inl IntegrityError"
  by code_simp

text \<open>An owner who is a plain member elsewhere can delete the account; the organization loses its owner record.\<close>

lemma owner_account_deleted:
  "fst (delete_user (session 4) MeUser demo) = Inr () \<and> owner_of (snd (delete_user (session 4) MeUser demo)) 2 = None"
proof
  show "fst (delete_user (session 4) MeUser demo) = Inr ()" by code_simp
  show "owner_of (snd (delete_user (session 4) MeUser demo)) 2 = None" by code_simp
qed

end
