(* ===== verification/Cold_Store.thy ===== *)
theory Cold_Store
  imports Span_Tiers Py_Int
begin

text \<open>
  The object storage of cold data and the operations of \<open>glitchtip/cold_storage.py\<close> that name, list, clean,
  purge and rewrite its files.

  A path is the list of its components below the storage root and the storage is an association list from
  paths to files. Directories exist by their files, as in an object store; a listing of a directory that is
  not there, which a file system answers with the \<open>OSError\<close> that every caller turns into an empty listing,
  is the empty listing here. A file is the rows of a Parquet file or a file whose structure is damaged. What a
  backend may do is an argument: whether it can list at all, and which deletions go through.
\<close>

section \<open>Storage\<close>

type_synonym path = "string list"

datatype 'a cold_file = Parquet (rows_of: "'a list") | Damaged
  where "rows_of Damaged = []"

type_synonym 'a files = "(path, 'a cold_file) dict"

record backend =
  can_list :: bool
  deletes :: "path \<Rightarrow> bool"

definition storage_exists :: "path \<Rightarrow> 'a files \<Rightarrow> bool" where
  "storage_exists p fs \<longleftrightarrow> map_of fs p \<noteq> None"

definition storage_delete :: "backend \<Rightarrow> path \<Rightarrow> 'a files \<Rightarrow> bool \<times> 'a files" where
  "storage_delete be p fs = (if deletes be p then (True, AList.delete p fs) else (False, fs))"

text \<open>\<open>storage.listdir\<close>: the names of the directories and of the files; \<open>None\<close> is the \<open>NotImplementedError\<close>.\<close>

definition below :: "path \<Rightarrow> 'a files \<Rightarrow> path list" where
  "below pre fs = [drop (length pre) p. p \<leftarrow> map fst fs, take (length pre) p = pre \<and> length pre < length p]"

definition listdir :: "backend \<Rightarrow> path \<Rightarrow> 'a files \<Rightarrow> (string list \<times> string list) option" where
  "listdir be pre fs =
     (if can_list be
      then Some (remdups [hd r. r \<leftarrow> below pre fs, 1 < length r], [hd r. r \<leftarrow> below pre fs, length r = 1])
      else None)"

section \<open>Names\<close>

definition COLD_STORAGE_PREFIX :: string where "COLD_STORAGE_PREFIX = ''cold_storage''"

definition org_prefix :: "string \<Rightarrow> int \<Rightarrow> path" where
  "org_prefix storage_prefix org = [COLD_STORAGE_PREFIX, storage_prefix, ''org_'' @ str_of_int org]"

definition get_org_cold_storage_path :: "string \<Rightarrow> int \<Rightarrow> string \<Rightarrow> path" where
  "get_org_cold_storage_path storage_prefix org date = org_prefix storage_prefix org @ [date @ ''.parquet'']"

definition get_chunk_dir :: "string \<Rightarrow> int \<Rightarrow> string \<Rightarrow> path" where
  "get_chunk_dir storage_prefix org date = org_prefix storage_prefix org @ [date]"

definition get_chunk_path :: "string \<Rightarrow> int \<Rightarrow> string \<Rightarrow> nat \<Rightarrow> path" where
  "get_chunk_path storage_prefix org date chunk =
     get_chunk_dir storage_prefix org date @ [''chunk_'' @ zpad 3 chunk @ ''.parquet'']"

section \<open>Enumeration\<close>

abbreviation stem :: "string \<Rightarrow> string" where
  "stem f \<equiv> remove_suffix ''.parquet'' f"

definition in_range :: "(datetime \<times> datetime) option \<Rightarrow> string \<Rightarrow> bool" where
  "in_range rng date = (case rng of None \<Rightarrow> True | Some (start_dt, end_dt) \<Rightarrow> date_in_range date start_dt end_dt)"

definition parquet_in :: "backend \<Rightarrow> path \<Rightarrow> 'a files \<Rightarrow> path list" where
  "parquet_in be dir fs =
     (case listdir be dir fs of None \<Rightarrow> [] | Some (_, files) \<Rightarrow> map (\<lambda>f. dir @ [f]) [f \<leftarrow> sort files. is_parquet f])"

definition enumerate_org_parquet_files ::
    "backend \<Rightarrow> string \<Rightarrow> int \<Rightarrow> (datetime \<times> datetime) option \<Rightarrow> 'a files \<Rightarrow> path list" where
  "enumerate_org_parquet_files be storage_prefix org rng fs =
     (case listdir be (org_prefix storage_prefix org) fs of
        None \<Rightarrow> []
      | Some (subdirs, flat_files) \<Rightarrow>
          (let flat = [f \<leftarrow> sort flat_files. is_parquet f \<and> in_range rng (stem f)];
               compacted_dates = map stem flat in
           map (\<lambda>f. org_prefix storage_prefix org @ [f]) flat @
           concat (map (\<lambda>d. parquet_in be (org_prefix storage_prefix org @ [d]) fs)
                     [d \<leftarrow> sort subdirs. d \<notin> set compacted_dates \<and> in_range rng d])))"

definition hour_tiered_date :: "backend \<Rightarrow> path \<Rightarrow> 'a files \<Rightarrow> path list" where
  "hour_tiered_date be date_path fs =
     (case listdir be date_path fs of
        None \<Rightarrow> []
      | Some (subdirs, hour_names) \<Rightarrow>
          (let sealed = [f \<leftarrow> sort hour_names. is_parquet f] in
           map (\<lambda>f. date_path @ [f]) sealed @
           concat (map (\<lambda>h. parquet_in be (date_path @ [h]) fs) [h \<leftarrow> sort subdirs. h \<notin> set (map stem sealed)])))"

definition hour_tiered_paths ::
    "backend \<Rightarrow> string \<Rightarrow> int \<Rightarrow> (datetime \<times> datetime) option \<Rightarrow> 'a files \<Rightarrow> path list" where
  "hour_tiered_paths be storage_prefix org rng fs =
     (case listdir be (org_prefix storage_prefix org) fs of
        None \<Rightarrow> []
      | Some (date_dirs, day_files) \<Rightarrow>
          (let rolled = [f \<leftarrow> sort day_files. is_parquet f \<and> in_range rng (stem f)] in
           map (\<lambda>f. org_prefix storage_prefix org @ [f]) rolled @
           concat (map (\<lambda>d. hour_tiered_date be (org_prefix storage_prefix org @ [d]) fs)
                     [d \<leftarrow> sort date_dirs. d \<notin> set (map stem rolled) \<and> in_range rng d])))"

definition get_parquet_paths_for_date :: "backend \<Rightarrow> string \<Rightarrow> int \<Rightarrow> string \<Rightarrow> 'a files \<Rightarrow> path list" where
  "get_parquet_paths_for_date be storage_prefix org date fs =
     (case strptime_date date of
        None \<Rightarrow> []
      | Some day \<Rightarrow> enumerate_org_parquet_files be storage_prefix org (Some (day * US_PER_DAY, day * US_PER_DAY + US_PER_DAY)) fs)"

section \<open>Retention\<close>

definition is_date_before_cutoff :: "string \<Rightarrow> datetime \<Rightarrow> bool" where
  "is_date_before_cutoff date cutoff =
     (if length date \<noteq> 8 \<or> \<not> list_all is_digit date then False
      else case strptime_date date of None \<Rightarrow> False | Some day \<Rightarrow> day * US_PER_DAY < cutoff)"

text \<open>A best-effort deletion that counts what it deleted.\<close>

definition try_delete :: "backend \<Rightarrow> path \<Rightarrow> nat \<times> 'a files \<Rightarrow> nat \<times> 'a files" where
  "try_delete be p = (\<lambda>(n, fs). case storage_delete be p fs of (done, fs') \<Rightarrow> (if done then Suc n else n, fs'))"

definition clean_dir :: "backend \<Rightarrow> path \<Rightarrow> nat \<times> 'a files \<Rightarrow> nat \<times> 'a files" where
  "clean_dir be dir = (\<lambda>(n, fs).
     case listdir be dir fs of None \<Rightarrow> (n, fs) | Some (_, files) \<Rightarrow> fold (\<lambda>f. try_delete be (dir @ [f])) files (n, fs))"

definition cleanup_cold_storage_for_org ::
    "backend \<Rightarrow> datetime \<Rightarrow> int \<Rightarrow> int \<Rightarrow> string \<Rightarrow> 'a files \<Rightarrow> nat \<times> 'a files" where
  "cleanup_cold_storage_for_org be now org retention_days storage_prefix fs =
     (let cutoff = now - retention_days * US_PER_DAY; pre = org_prefix storage_prefix org in
      case listdir be pre fs of
        None \<Rightarrow> (0, fs)
      | Some (subdirs, files) \<Rightarrow>
          fold (\<lambda>d. clean_dir be (pre @ [d])) [d \<leftarrow> subdirs. is_date_before_cutoff d cutoff]
            (fold (\<lambda>f. try_delete be (pre @ [f]))
               [f \<leftarrow> files. is_parquet f \<and> is_date_before_cutoff (stem f) cutoff] (0, fs)))"

record retention_cfg =
  CLEANUP_ENABLED :: bool
  RETENTION_DAYS :: int

definition cleanup_all_cold_storage ::
    "retention_cfg \<Rightarrow> backend \<Rightarrow> datetime \<Rightarrow> int option \<Rightarrow> string \<Rightarrow> 'a files \<Rightarrow> nat \<times> 'a files" where
  "cleanup_all_cold_storage cfg be now retention_days storage_prefix fs =
     (if \<not> CLEANUP_ENABLED cfg then (0, fs)
      else (let days = (case retention_days of None \<Rightarrow> RETENTION_DAYS cfg | Some d \<Rightarrow> d) in
            case listdir be [COLD_STORAGE_PREFIX, storage_prefix] fs of
              None \<Rightarrow> (0, fs)
            | Some (org_dirs, _) \<Rightarrow>
                fold (\<lambda>org (n, fs). case cleanup_cold_storage_for_org be now org days storage_prefix fs of
                                       (k, fs') \<Rightarrow> (n + k, fs'))
                  (List.map_filter (\<lambda>d. if starts_with ''org_'' d then py_int 10 (drop 4 d) else None) org_dirs) (0, fs)))"

section \<open>Purging an organization\<close>

text \<open>The recursion descends one level at a time; the fuel is the depth of the deepest path.\<close>

primrec purge_tree :: "nat \<Rightarrow> backend \<Rightarrow> path \<Rightarrow> nat \<times> 'a files \<Rightarrow> nat \<times> 'a files" where
  "purge_tree 0 be pre st = st"
| "purge_tree (Suc n) be pre st =
     (case listdir be pre (snd st) of
        None \<Rightarrow> st
      | Some (dirs, files) \<Rightarrow>
          fold (\<lambda>d. purge_tree n be (pre @ [d])) dirs (fold (\<lambda>f. try_delete be (pre @ [f])) files st))"

definition depth :: "'a files \<Rightarrow> nat" where
  "depth fs = fold max (map (length \<circ> fst) fs) 0"

definition delete_org_cold_storage :: "backend \<Rightarrow> datetime \<Rightarrow> int \<Rightarrow> string \<Rightarrow> 'a files \<Rightarrow> nat \<times> 'a files" where
  "delete_org_cold_storage be now org storage_prefix fs =
     (if can_list be then purge_tree (depth fs) be (org_prefix storage_prefix org) (0, fs)
      else fold (\<lambda>day_offset (n, fs).
             let p = get_org_cold_storage_path storage_prefix org (date_suffix (now - int day_offset * US_PER_DAY)) in
             if storage_exists p fs then try_delete be p (n, fs) else (n, fs)) [0..<365] (0, fs))"

definition STORAGE_PREFIXES :: "string list" where
  "STORAGE_PREFIXES = [''logs_logevent'', ''issue_events_issueevent'', ''performance_spans'', ''performance_spans_rollup'']"

definition delete_all_org_cold_storage :: "bool \<Rightarrow> backend \<Rightarrow> datetime \<Rightarrow> int \<Rightarrow> 'a files \<Rightarrow> 'a files" where
  "delete_all_org_cold_storage is_duckdb_available be now org fs =
     (if \<not> is_duckdb_available then fs
      else fold (\<lambda>pre fs. snd (delete_org_cold_storage be now org pre fs)) STORAGE_PREFIXES fs)"

section \<open>Removing the rows of a project\<close>

text \<open>
  The rows of a file carry a project or an issue; \<open>duck_ok\<close> says for which files the statements of the engine
  succeed.
\<close>

datatype row_filter = NotIssues "int list" | NotProject int

definition rewrite_filter :: "string \<Rightarrow> int option \<Rightarrow> int list \<Rightarrow> row_filter option" where
  "rewrite_filter storage_prefix project_id issue_ids =
     (if storage_prefix = ''issue_events_issueevent'' \<and> issue_ids \<noteq> [] then Some (NotIssues issue_ids)
      else map_option NotProject project_id)"

fun keeps :: "('a \<Rightarrow> int) \<Rightarrow> ('a \<Rightarrow> int) \<Rightarrow> row_filter \<Rightarrow> 'a \<Rightarrow> bool" where
  "keeps issue_of project_of (NotIssues iids) r = (issue_of r \<notin> set iids)"
| "keeps issue_of project_of (NotProject pid) r = (project_of r \<noteq> pid)"

definition rewrite_file ::
    "backend \<Rightarrow> (path \<Rightarrow> bool) \<Rightarrow> ('a \<Rightarrow> bool) \<Rightarrow> path \<Rightarrow> nat \<times> 'a files \<Rightarrow> nat \<times> 'a files" where
  "rewrite_file be duck_ok keep p = (\<lambda>(n, fs).
     case map_of fs p of
       Some (Parquet rows) \<Rightarrow>
         (if \<not> duck_ok p then (n, fs)
          else let remaining = filter keep rows in
               if remaining = [] then try_delete be p (n, fs)
               else if length remaining = length rows then (n, fs)
               else (Suc n, dset fs p (Parquet remaining)))
     | _ \<Rightarrow> (n, fs))"

definition cold_paths :: "backend \<Rightarrow> string \<Rightarrow> int \<Rightarrow> 'a files \<Rightarrow> path list" where
  "cold_paths be storage_prefix org fs =
     (if storage_prefix \<in> {''performance_spans'', ''performance_spans_rollup''}
      then hour_tiered_paths be storage_prefix org None fs
      else enumerate_org_parquet_files be storage_prefix org None fs)"

definition rewrite_parquet_excluding_project ::
    "backend \<Rightarrow> (path \<Rightarrow> bool) \<Rightarrow> ('a \<Rightarrow> int) \<Rightarrow> ('a \<Rightarrow> int) \<Rightarrow> int \<Rightarrow> int option \<Rightarrow> int list \<Rightarrow> string \<Rightarrow> 'a files \<Rightarrow> nat \<times> 'a files" where
  "rewrite_parquet_excluding_project be duck_ok issue_of project_of org project_id issue_ids storage_prefix fs =
     (case rewrite_filter storage_prefix project_id issue_ids of
        None \<Rightarrow> (0, fs)
      | Some w \<Rightarrow> fold (rewrite_file be duck_ok (keeps issue_of project_of w)) (cold_paths be storage_prefix org fs) (0, fs))"

section \<open>Listings\<close>

definition paths :: "'a files \<Rightarrow> path set" where
  "paths fs = fst ` set fs"

lemma paths_iff: "p \<in> paths fs \<longleftrightarrow> map_of fs p \<noteq> None"
  by (simp add: paths_def map_of_eq_None_iff)

lemma distinct_concat_map:
  assumes "distinct xs" "\<And>x. x \<in> set xs \<Longrightarrow> distinct (f x)"
    and "\<And>x y. x \<in> set xs \<Longrightarrow> y \<in> set xs \<Longrightarrow> x \<noteq> y \<Longrightarrow> set (f x) \<inter> set (f y) = {}"
  shows "distinct (concat (map f xs))"
  using assms
proof (induction xs)
  case (Cons x xs)
  then show ?case by auto
qed simp

lemma in_below: "r \<in> set (below pre fs) \<longleftrightarrow> r \<noteq> [] \<and> pre @ r \<in> paths fs"
proof
  assume "r \<noteq> [] \<and> pre @ r \<in> paths fs"
  then show "r \<in> set (below pre fs)" by (force simp: below_def paths_def)
next
  assume "r \<in> set (below pre fs)"
  then obtain p where p: "p \<in> paths fs" "take (length pre) p = pre" "length pre < length p" "r = drop (length pre) p"
    by (auto simp: below_def paths_def)
  then have "pre @ r = p" by (metis append_take_drop_id)
  with p show "r \<noteq> [] \<and> pre @ r \<in> paths fs" by auto
qed

lemma listdir_Some:
  assumes "listdir be pre fs = Some (dirs, files)"
  shows "can_list be" "d \<in> set dirs \<longleftrightarrow> (\<exists>r. r \<noteq> [] \<and> pre @ d # r \<in> paths fs)" "f \<in> set files \<longleftrightarrow> pre @ [f] \<in> paths fs"
proof -
  have l: "dirs = remdups [hd r. r \<leftarrow> below pre fs, 1 < length r]" "files = [hd r. r \<leftarrow> below pre fs, length r = 1]"
    and "can_list be"
    using assms by (auto simp: listdir_def split: if_splits)
  show "can_list be" by fact
  show "f \<in> set files \<longleftrightarrow> pre @ [f] \<in> paths fs"
  proof -
    have "f \<in> set files \<longleftrightarrow> (\<exists>r\<in>set (below pre fs). length r = 1 \<and> f = hd r)" unfolding l(2) by auto
    also have "\<dots> \<longleftrightarrow> [f] \<in> set (below pre fs)" by (force simp: length_Suc_conv)
    finally show ?thesis by (simp add: in_below)
  qed
  have "d \<in> set dirs \<longleftrightarrow> (\<exists>r. r \<in> set (below pre fs) \<and> 1 < length r \<and> d = hd r)"
    unfolding l(1) by auto
  also have "\<dots> \<longleftrightarrow> (\<exists>r. r \<noteq> [] \<and> pre @ d # r \<in> paths fs)"
  proof
    assume "\<exists>r. r \<in> set (below pre fs) \<and> 1 < length r \<and> d = hd r"
    then obtain r where r: "pre @ r \<in> paths fs" "1 < length r" "d = hd r" by (auto simp: in_below)
    then have "r = d # tl r" "tl r \<noteq> []" by (cases r; auto)+
    with r(1) show "\<exists>r. r \<noteq> [] \<and> pre @ d # r \<in> paths fs" by metis
  next
    assume "\<exists>r. r \<noteq> [] \<and> pre @ d # r \<in> paths fs"
    then obtain r where "r \<noteq> []" "pre @ d # r \<in> paths fs" by blast
    then show "\<exists>r. r \<in> set (below pre fs) \<and> 1 < length r \<and> d = hd r"
      by (intro exI [of _ "d # r"]) (simp add: in_below)
  qed
  finally show "d \<in> set dirs \<longleftrightarrow> (\<exists>r. r \<noteq> [] \<and> pre @ d # r \<in> paths fs)" .
qed

lemma distinct_below: "dict_ok fs \<Longrightarrow> distinct (below pre fs)"
proof (induction fs)
  case (Cons x fs)
  have "drop (length pre) (fst x) \<notin> set (below pre fs)"
    if "take (length pre) (fst x) = pre"
    using Cons.prems that by (auto simp: in_below paths_def) (metis append_take_drop_id imageI fst_conv)
  with Cons show ?case by (auto simp: below_def)
qed (simp add: below_def)

lemma distinct_heads: "distinct rs \<Longrightarrow> distinct [hd r. r \<leftarrow> rs, length r = 1]"
  by (induction rs) (auto simp: length_Suc_conv)

lemma listdir_distinct:
  assumes "listdir be pre fs = Some (dirs, files)"
  shows "distinct dirs" "dict_ok fs \<Longrightarrow> distinct files"
  using assms distinct_heads [OF distinct_below] by (auto simp: listdir_def split: if_splits)

lemma listdir_cases:
  obtains dirs files where "can_list be" "listdir be pre fs = Some (dirs, files)"
  | "\<not> can_list be" "listdir be pre fs = None"
  by (cases "can_list be") (auto simp: listdir_def)

lemma is_parquet_stem: "is_parquet f \<and> stem f = d \<longleftrightarrow> f = d @ ''.parquet''"
  by (auto simp: is_parquet_def remove_suffix_def ends_with_def)
     (metis append_take_drop_id)

lemma is_parquet_append [simp]: "is_parquet (d @ ''.parquet'')"
  by (simp add: is_parquet_def ends_with_def)

lemma stem_append [simp]: "stem (d @ ''.parquet'') = d"
  using is_parquet_stem by blast

lemma set_parquet_in:
  "set (parquet_in be dir fs) = (if can_list be then {p. \<exists>f. p = dir @ [f] \<and> is_parquet f \<and> p \<in> paths fs} else {})"
  by (rule listdir_cases [of be dir fs]) (auto simp: parquet_in_def listdir_Some)

lemma distinct_parquet_in: "dict_ok fs \<Longrightarrow> distinct (parquet_in be dir fs)"
  by (rule listdir_cases [of be dir fs])
     (simp_all add: parquet_in_def listdir_distinct distinct_map inj_on_def)

text \<open>A file is shadowed when a file that compaction has made stands for one of its directories.\<close>

lemma in_enumerate:
  "p \<in> set (enumerate_org_parquet_files be sp org rng fs) \<longleftrightarrow> can_list be \<and> p \<in> paths fs \<and>
     ((\<exists>f. p = org_prefix sp org @ [f] \<and> is_parquet f \<and> in_range rng (stem f)) \<or>
      (\<exists>d f. p = org_prefix sp org @ [d, f] \<and> is_parquet f \<and> in_range rng d \<and>
             org_prefix sp org @ [d @ ''.parquet''] \<notin> paths fs))"
proof (rule listdir_cases [of be "org_prefix sp org" fs])
  fix dirs files assume l: "can_list be" "listdir be (org_prefix sp org) fs = Some (dirs, files)"
  let ?P = "org_prefix sp org"
  have c: "d \<in> set (map stem [f \<leftarrow> sort files. is_parquet f \<and> in_range rng (stem f)]) \<longleftrightarrow> ?P @ [d @ ''.parquet''] \<in> paths fs"
    if "in_range rng d" for d
  proof -
    have "d \<in> set (map stem [f \<leftarrow> sort files. is_parquet f \<and> in_range rng (stem f)]) \<longleftrightarrow>
        (\<exists>f. (is_parquet f \<and> stem f = d) \<and> f \<in> set files)" using that by auto
    then show ?thesis using listdir_Some(3) [OF l(2)] by (simp add: is_parquet_stem)
  qed
  have "set (enumerate_org_parquet_files be sp org rng fs) =
      {?P @ [f] |f. f \<in> set files \<and> is_parquet f \<and> in_range rng (stem f)} \<union>
      (\<Union>d\<in>{d \<in> set dirs. in_range rng d \<and> ?P @ [d @ ''.parquet''] \<notin> paths fs}. set (parquet_in be (?P @ [d]) fs))"
    using c by (auto simp: enumerate_org_parquet_files_def l Let_def)
  then show ?thesis
    using l(1) listdir_Some(2,3) [OF l(2)] by (auto simp: set_parquet_in)
qed (simp add: enumerate_org_parquet_files_def)

lemma distinct_enumerate:
  assumes "dict_ok fs"
  shows "distinct (enumerate_org_parquet_files be sp org rng fs)"
proof (rule listdir_cases [of be "org_prefix sp org" fs])
  fix dirs files assume l: "can_list be" "listdir be (org_prefix sp org) fs = Some (dirs, files)"
  have "distinct (concat (map (\<lambda>d. parquet_in be (org_prefix sp org @ [d]) fs) (filter P (sort dirs))))" for P
    using listdir_distinct(1) [OF l(2)]
    by (intro distinct_concat_map distinct_parquet_in assms) (auto simp: set_parquet_in)
  moreover have "distinct (map (\<lambda>f. org_prefix sp org @ [f]) (filter P (sort files)))" for P
    using listdir_distinct(2) [OF l(2) assms] by (simp add: distinct_map inj_on_def)
  ultimately show ?thesis
    by (auto simp: enumerate_org_parquet_files_def l Let_def set_parquet_in)
qed (simp add: enumerate_org_parquet_files_def)

lemma in_hour_tiered_date:
  "p \<in> set (hour_tiered_date be dp fs) \<longleftrightarrow> can_list be \<and> p \<in> paths fs \<and>
     ((\<exists>f. p = dp @ [f] \<and> is_parquet f) \<or> (\<exists>h f. p = dp @ [h, f] \<and> is_parquet f \<and> dp @ [h @ ''.parquet''] \<notin> paths fs))"
proof (rule listdir_cases [of be dp fs])
  fix dirs files assume l: "can_list be" "listdir be dp fs = Some (dirs, files)"
  have c: "h \<in> set (map stem [f \<leftarrow> sort files. is_parquet f]) \<longleftrightarrow> dp @ [h @ ''.parquet''] \<in> paths fs" for h
  proof -
    have "h \<in> set (map stem [f \<leftarrow> sort files. is_parquet f]) \<longleftrightarrow> (\<exists>f. (is_parquet f \<and> stem f = h) \<and> f \<in> set files)" by auto
    then show ?thesis using listdir_Some(3) [OF l(2)] by (simp add: is_parquet_stem)
  qed
  have "set (hour_tiered_date be dp fs) = {dp @ [f] |f. f \<in> set files \<and> is_parquet f} \<union>
      (\<Union>h\<in>{h \<in> set dirs. dp @ [h @ ''.parquet''] \<notin> paths fs}. set (parquet_in be (dp @ [h]) fs))"
    unfolding hour_tiered_date_def l(2) by (simp only: option.case prod.case Let_def c) auto
  then show ?thesis using l(1) listdir_Some(2,3) [OF l(2)] by (auto simp: set_parquet_in)
qed (simp add: hour_tiered_date_def)

lemma distinct_hour_tiered_date:
  assumes "dict_ok fs"
  shows "distinct (hour_tiered_date be dp fs)"
proof (rule listdir_cases [of be dp fs])
  fix dirs files assume l: "can_list be" "listdir be dp fs = Some (dirs, files)"
  have "distinct (concat (map (\<lambda>d. parquet_in be (dp @ [d]) fs) (filter P (sort dirs))))" for P
    using listdir_distinct(1) [OF l(2)]
    by (intro distinct_concat_map distinct_parquet_in assms) (auto simp: set_parquet_in)
  moreover have "distinct (map (\<lambda>f. dp @ [f]) (filter P (sort files)))" for P
    using listdir_distinct(2) [OF l(2) assms] by (simp add: distinct_map inj_on_def)
  ultimately show ?thesis
    by (auto simp: hour_tiered_date_def l Let_def set_parquet_in)
qed (simp add: hour_tiered_date_def)

lemma in_hour_tiered:
  "p \<in> set (hour_tiered_paths be sp org rng fs) \<longleftrightarrow> can_list be \<and> p \<in> paths fs \<and>
     ((\<exists>f. p = org_prefix sp org @ [f] \<and> is_parquet f \<and> in_range rng (stem f)) \<or>
      (\<exists>d r. p = org_prefix sp org @ d # r \<and> in_range rng d \<and> org_prefix sp org @ [d @ ''.parquet''] \<notin> paths fs \<and>
             ((\<exists>f. r = [f] \<and> is_parquet f) \<or>
              (\<exists>h f. r = [h, f] \<and> is_parquet f \<and> org_prefix sp org @ [d, h @ ''.parquet''] \<notin> paths fs))))"
proof (rule listdir_cases [of be "org_prefix sp org" fs])
  fix dirs files assume l: "can_list be" "listdir be (org_prefix sp org) fs = Some (dirs, files)"
  let ?P = "org_prefix sp org"
  have c: "d \<in> set (map stem [f \<leftarrow> sort files. is_parquet f \<and> in_range rng (stem f)]) \<longleftrightarrow> ?P @ [d @ ''.parquet''] \<in> paths fs"
    if "in_range rng d" for d
  proof -
    have "d \<in> set (map stem [f \<leftarrow> sort files. is_parquet f \<and> in_range rng (stem f)]) \<longleftrightarrow>
        (\<exists>f. (is_parquet f \<and> stem f = d) \<and> f \<in> set files)" using that by auto
    then show ?thesis using listdir_Some(3) [OF l(2)] by (simp add: is_parquet_stem)
  qed
  have "set (hour_tiered_paths be sp org rng fs) =
      {?P @ [f] |f. f \<in> set files \<and> is_parquet f \<and> in_range rng (stem f)} \<union>
      (\<Union>d\<in>{d \<in> set dirs. in_range rng d \<and> ?P @ [d @ ''.parquet''] \<notin> paths fs}. set (hour_tiered_date be (?P @ [d]) fs))"
    using c by (auto simp: hour_tiered_paths_def l Let_def)
  then show ?thesis
    using l(1) listdir_Some(2,3) [OF l(2)] by (auto simp: in_hour_tiered_date)
qed (simp add: hour_tiered_paths_def)

lemma distinct_hour_tiered:
  assumes "dict_ok fs"
  shows "distinct (hour_tiered_paths be sp org rng fs)"
proof (rule listdir_cases [of be "org_prefix sp org" fs])
  fix dirs files assume l: "can_list be" "listdir be (org_prefix sp org) fs = Some (dirs, files)"
  have "distinct (concat (map (\<lambda>d. hour_tiered_date be (org_prefix sp org @ [d]) fs) (filter P (sort dirs))))" for P
    using listdir_distinct(1) [OF l(2)]
    by (intro distinct_concat_map distinct_hour_tiered_date assms) (auto simp: in_hour_tiered_date)
  moreover have "distinct (map (\<lambda>f. org_prefix sp org @ [f]) (filter P (sort files)))" for P
    using listdir_distinct(2) [OF l(2) assms] by (simp add: distinct_map inj_on_def)
  ultimately show ?thesis
    by (auto simp: hour_tiered_paths_def l Let_def in_hour_tiered_date)
qed (simp add: hour_tiered_paths_def)

section \<open>Deleting\<close>

text \<open>What a best-effort deletion of the paths \<open>P\<close> leaves, and its count.\<close>

definition without :: "backend \<Rightarrow> (path \<Rightarrow> bool) \<Rightarrow> 'a files \<Rightarrow> 'a files" where
  "without be P fs = filter (\<lambda>(p, _). \<not> (P p \<and> deletes be p)) fs"

lemma delete_filter: "AList.delete p fs = filter (\<lambda>(q, _). q \<noteq> p) fs"
  by (induction fs) auto

lemma snd_try_delete: "snd (try_delete be p st) = without be (\<lambda>q. q = p) (snd st)"
  by (cases st) (auto simp: try_delete_def storage_delete_def without_def delete_filter intro!: filter_cong
      intro: filter_True [symmetric])

lemma without_without: "without be P (without be Q fs) = without be (\<lambda>p. P p \<or> Q p) fs"
  by (auto simp: without_def intro: filter_cong)

lemma without_none [simp]: "without be (\<lambda>p. False) fs = fs"
  by (simp add: without_def)

lemma paths_without: "p \<in> paths (without be P fs) \<longleftrightarrow> p \<in> paths fs \<and> \<not> (P p \<and> deletes be p)"
  by (force simp: paths_def without_def)

lemma dict_ok_without: "dict_ok fs \<Longrightarrow> dict_ok (without be P fs)"
  by (simp add: without_def distinct_map_filter)

lemma without_cong: "(\<And>p. p \<in> paths fs \<Longrightarrow> P p = Q p) \<Longrightarrow> without be P fs = without be Q fs"
  unfolding without_def paths_def by (rule filter_cong) force+

lemma snd_fold_delete:
  "snd (fold (\<lambda>f. try_delete be (g f)) xs st) = without be (\<lambda>p. p \<in> g ` set xs) (snd st)"
  by (induction xs arbitrary: st) (auto simp: snd_try_delete without_without intro: arg_cong [where f = "\<lambda>P. without be P _"])

lemma snd_clean_dir:
  "snd (clean_dir be dir st) = (if can_list be then without be (\<lambda>p. \<exists>f. p = dir @ [f]) (snd st) else snd st)"
proof (cases st)
  case [simp]: (Pair n fs)
  show ?thesis
    by (rule listdir_cases [of be dir fs])
       (auto simp: clean_dir_def snd_fold_delete listdir_Some intro!: without_cong)
qed

lemma snd_fold_clean:
  "can_list be \<Longrightarrow> snd (fold (\<lambda>d. clean_dir be (g d)) ds st) = without be (\<lambda>p. \<exists>d\<in>set ds. \<exists>f. p = g d @ [f]) (snd st)"
  by (induction ds arbitrary: st)
     (auto simp: snd_clean_dir without_without intro!: arg_cong [where f = "\<lambda>P. without be P _"])

text \<open>The counter and the number of files add up to the same at every step.\<close>

definition counted :: "nat \<times> 'a files \<Rightarrow> nat \<times> 'a files \<Rightarrow> bool" where
  "counted st st' \<longleftrightarrow> fst st' + length (snd st') = fst st + length (snd st) \<and> (dict_ok (snd st) \<longrightarrow> dict_ok (snd st'))"

lemma counted_refl [simp]: "counted st st"
  by (simp add: counted_def)

lemma counted_trans: "counted a b \<Longrightarrow> counted b c \<Longrightarrow> counted a c"
  by (simp add: counted_def)

lemma length_delete: "dict_ok fs \<Longrightarrow> p \<in> paths fs \<Longrightarrow> Suc (length (AList.delete p fs)) = length fs"
proof (induction fs)
  case (Cons x fs)
  show ?case
  proof (cases "fst x = p")
    case True
    then have "p \<notin> fst ` set fs" using Cons.prems by auto
    then have "AList.delete p fs = fs" by (force simp: delete_filter intro!: filter_True)
    with True show ?thesis by simp
  next
    case False
    with Cons show ?thesis by (auto simp: paths_def)
  qed
qed (simp add: paths_def)

lemma counted_try_delete:
  "dict_ok (snd st) \<Longrightarrow> p \<in> paths (snd st) \<Longrightarrow> counted st (try_delete be p st)"
  by (cases st)
     (auto simp: counted_def try_delete_def storage_delete_def length_delete delete_filter distinct_map_filter
        dest: length_delete)

lemma counted_fold_delete:
  "dict_ok (snd st) \<Longrightarrow> distinct xs \<Longrightarrow> inj g \<Longrightarrow> \<forall>f\<in>set xs. g f \<in> paths (snd st) \<Longrightarrow>
   counted st (fold (\<lambda>f. try_delete be (g f)) xs st)"
proof (induction xs arbitrary: st)
  case (Cons x xs)
  let ?st = "try_delete be (g x) st"
  have c: "counted st ?st" using Cons.prems by (intro counted_try_delete) auto
  moreover have "counted ?st (fold (\<lambda>f. try_delete be (g f)) xs ?st)"
    using Cons.prems c by (intro Cons.IH) (auto simp: snd_try_delete paths_without counted_def inj_eq)
  ultimately show ?case by (auto intro: counted_trans)
qed simp

lemma inj_snoc [simp]: "inj (\<lambda>f. pre @ [f])"
  by (simp add: inj_def)

lemma counted_clean_dir: "dict_ok (snd st) \<Longrightarrow> counted st (clean_dir be dir st)"
proof (cases st)
  case [simp]: (Pair n fs)
  assume "dict_ok (snd st)"
  then show ?thesis
    by (cases "listdir be dir fs")
       (auto simp: clean_dir_def listdir_Some listdir_distinct intro!: counted_fold_delete)
qed

lemma counted_fold:
  assumes "\<And>x st. x \<in> set xs \<Longrightarrow> dict_ok (snd st) \<Longrightarrow> counted st (h x st)"
  shows "dict_ok (snd st) \<Longrightarrow> counted st (fold h xs st)"
  using assms
proof (induction xs arbitrary: st)
  case (Cons x xs)
  have "counted st (h x st)" using Cons.prems by simp
  moreover have "counted (h x st) (fold h xs (h x st))"
    using Cons.prems(1) \<open>counted st (h x st)\<close> by (intro Cons.IH Cons.prems(2)) (auto simp: counted_def)
  ultimately show ?case by (auto intro: counted_trans)
qed simp

text \<open>
  The day of a file of an organization, in every layout: a flat file is named after it, any other file lies below
  a directory named after it, be it a chunk of the day or, one level further down, of an hour.
\<close>

definition date_day :: "string \<Rightarrow> int option" where
  "date_day s = (if length s = 8 \<and> list_all is_digit s then strptime_date s else None)"

definition file_day :: "path \<Rightarrow> path \<Rightarrow> int option" where
  "file_day pre p =
     (if take (length pre) p \<noteq> pre then None
      else case drop (length pre) p of
        [] \<Rightarrow> None
      | d # f \<Rightarrow> if f \<noteq> [] then date_day d else if is_parquet d then date_day (stem d) else None)"

text \<open>
  A file is older than the retention when its whole day lies before the cutoff. The sweep looks at the first
  instant of the day, and at the directory of the organization and one level below it.
\<close>

definition expired :: "path \<Rightarrow> datetime \<Rightarrow> path \<Rightarrow> bool" where
  "expired pre cutoff p \<longleftrightarrow> (case file_day pre p of None \<Rightarrow> False | Some day \<Rightarrow> (day + 1) * US_PER_DAY \<le> cutoff)"

definition day_begun :: "path \<Rightarrow> datetime \<Rightarrow> path \<Rightarrow> bool" where
  "day_begun pre cutoff p \<longleftrightarrow> (case file_day pre p of None \<Rightarrow> False | Some day \<Rightarrow> day * US_PER_DAY < cutoff)"

definition in_reach :: "path \<Rightarrow> path \<Rightarrow> bool" where
  "in_reach pre p \<longleftrightarrow> length p \<le> length pre + 2"

lemma expired_begun: "expired pre cutoff p \<Longrightarrow> day_begun pre cutoff p"
  by (auto simp: expired_def day_begun_def split: option.splits)

definition swept :: "path \<Rightarrow> datetime \<Rightarrow> path \<Rightarrow> bool" where
  "swept pre cutoff p \<longleftrightarrow> in_reach pre p \<and> day_begun pre cutoff p"

lemma before_cutoff: "is_date_before_cutoff s cutoff \<longleftrightarrow> (\<exists>day. date_day s = Some day \<and> day * US_PER_DAY < cutoff)"
  by (simp add: is_date_before_cutoff_def date_day_def split: option.split)

lemma swept_iff:
  "swept pre cutoff p \<longleftrightarrow> (\<exists>f. p = pre @ [f] \<and> is_parquet f \<and> is_date_before_cutoff (stem f) cutoff) \<or>
     (\<exists>d f. p = pre @ [d, f] \<and> is_date_before_cutoff d cutoff)"
proof
  assume s: "swept pre cutoff p"
  then have "take (length pre) p = pre"
    by (auto simp: swept_def day_begun_def file_day_def split: if_splits option.splits)
  then obtain r where p: "p = pre @ r" by (metis append_take_drop_id)
  have "length r \<le> 2" using s p by (simp add: swept_def in_reach_def)
  then consider "r = []" | f where "r = [f]" | d f where "r = [d, f]"
    by (cases r; cases "tl r") auto
  then show "(\<exists>f. p = pre @ [f] \<and> is_parquet f \<and> is_date_before_cutoff (stem f) cutoff) \<or>
     (\<exists>d f. p = pre @ [d, f] \<and> is_date_before_cutoff d cutoff)"
    using s by cases (auto simp: p swept_def day_begun_def file_day_def before_cutoff split: option.splits if_splits)
qed (auto simp: swept_def in_reach_def day_begun_def file_day_def before_cutoff)

lemma cleanup_for_org:
  assumes "can_list be"
  shows "snd (cleanup_cold_storage_for_org be now org days sp fs)
      = without be (swept (org_prefix sp org) (now - days * US_PER_DAY)) fs"
proof (rule listdir_cases [of be "org_prefix sp org" fs])
  fix dirs files assume l: "can_list be" "listdir be (org_prefix sp org) fs = Some (dirs, files)"
  let ?P = "org_prefix sp org" and ?c = "now - days * US_PER_DAY"
  have "snd (cleanup_cold_storage_for_org be now org days sp fs) =
      without be (\<lambda>p. (\<exists>d\<in>{d \<in> set dirs. is_date_before_cutoff d ?c}. \<exists>f. p = (?P @ [d]) @ [f]) \<or>
        p \<in> (\<lambda>f. ?P @ [f]) ` {f \<in> set files. is_parquet f \<and> is_date_before_cutoff (stem f) ?c}) fs"
    using assms by (simp add: cleanup_cold_storage_for_org_def l Let_def snd_fold_clean snd_fold_delete without_without)
  then show ?thesis
    by (simp only:, intro without_cong)
       (auto simp: swept_iff listdir_Some(2,3) [OF l(2)] intro: exI [of _ "[_]"])
qed (use assms in simp)

lemma counted_cleanup:
  assumes "dict_ok fs"
  shows "counted (0, fs) (cleanup_cold_storage_for_org be now org days sp fs)"
proof (cases "listdir be (org_prefix sp org) fs")
  case (Some l)
  obtain dirs files where [simp]: "l = (dirs, files)" by (cases l)
  define st where "st = fold (\<lambda>f. try_delete be (org_prefix sp org @ [f]))
     [f \<leftarrow> files. is_parquet f \<and> is_date_before_cutoff (stem f) (now - days * US_PER_DAY)] (0, fs)"
  have "counted (0, fs) st"
    unfolding st_def using assms Some by (intro counted_fold_delete) (auto simp: listdir_Some listdir_distinct)
  moreover have "counted st (fold (\<lambda>d. clean_dir be (org_prefix sp org @ [d])) ds st)" for ds
    using calculation assms by (intro counted_fold counted_clean_dir) (auto simp: counted_def)
  ultimately show ?thesis
    using Some by (auto simp: cleanup_cold_storage_for_org_def Let_def st_def intro: counted_trans)
qed (simp add: cleanup_cold_storage_for_org_def)

definition cleanup_step :: "backend \<Rightarrow> datetime \<Rightarrow> int \<Rightarrow> string \<Rightarrow> int \<Rightarrow> nat \<times> 'a files \<Rightarrow> nat \<times> 'a files" where
  "cleanup_step be now days sp org = (\<lambda>(n, fs). case cleanup_cold_storage_for_org be now org days sp fs of
                                       (k, fs') \<Rightarrow> (n + k, fs'))"

lemma snd_cleanup_steps:
  "can_list be \<Longrightarrow> snd (fold (cleanup_step be now days sp) orgs st) =
     without be (\<lambda>p. \<exists>org\<in>set orgs. swept (org_prefix sp org) (now - days * US_PER_DAY) p) (snd st)"
proof (induction orgs arbitrary: st)
  case (Cons org orgs)
  have "snd (cleanup_step be now days sp org st) = without be (swept (org_prefix sp org) (now - days * US_PER_DAY)) (snd st)"
    using cleanup_for_org [OF Cons.prems, of now org days sp "snd st"]
    by (cases st) (auto simp: cleanup_step_def split: prod.split)
  with Cons show ?case
    by (simp add: without_without) (rule arg_cong [where f = "\<lambda>P. without be P _"], auto)
qed simp

lemma counted_cleanup_step: "dict_ok (snd st) \<Longrightarrow> counted st (cleanup_step be now days sp org st)"
  using counted_cleanup [of "snd st" be now org days sp]
  by (cases st) (auto simp: cleanup_step_def counted_def split: prod.split)

lemma map_of_without: "map_of (without be P fs) p = (if P p \<and> deletes be p then None else map_of fs p)"
  by (induction fs) (auto simp: without_def)

lemma in_map_filter: "y \<in> set (List.map_filter f xs) \<longleftrightarrow> (\<exists>x\<in>set xs. f x = Some y)"
  by (induction xs) (auto simp: map_filter_simps split: option.splits)

lemma cleanup_all:
  assumes "dict_ok fs" "can_list be" "CLEANUP_ENABLED cfg"
  shows "snd (cleanup_all_cold_storage cfg be now (Some days) sp fs)
      = without be (\<lambda>p. \<exists>org. swept (org_prefix sp org) (now - days * US_PER_DAY) p) fs"
    and "counted (0, fs) (cleanup_all_cold_storage cfg be now (Some days) sp fs)"
proof -
  obtain dirs files where l: "listdir be [COLD_STORAGE_PREFIX, sp] fs = Some (dirs, files)"
    using assms(2) by (rule_tac listdir_cases [of be "[COLD_STORAGE_PREFIX, sp]" fs]) auto
  define ids where "ids = List.map_filter (\<lambda>d. if starts_with ''org_'' d then py_int 10 (drop 4 d) else None) dirs"
  have e: "cleanup_all_cold_storage cfg be now (Some days) sp fs = fold (cleanup_step be now days sp) ids (0, fs)"
    using assms(3) by (simp add: cleanup_all_cold_storage_def l ids_def cleanup_step_def [abs_def])
  have "org \<in> set ids" if e: "swept (org_prefix sp org) c p" and p: "p \<in> paths fs" for org c p
  proof -
    obtain r where "r \<noteq> []" "p = [COLD_STORAGE_PREFIX, sp] @ (''org_'' @ str_of_int org) # r"
      using e by (auto simp: swept_iff org_prefix_def)
    then have "''org_'' @ str_of_int org \<in> set dirs"
      using p by (auto simp: listdir_Some(2) [OF l])
    then show ?thesis
      unfolding ids_def in_map_filter by (intro bexI [of _ "''org_'' @ str_of_int org"]) (auto simp: starts_with_def)
  qed
  then show "snd (cleanup_all_cold_storage cfg be now (Some days) sp fs)
      = without be (\<lambda>p. \<exists>org. swept (org_prefix sp org) (now - days * US_PER_DAY) p) fs"
    unfolding e using assms(2) by (auto simp: snd_cleanup_steps intro!: without_cong)
  show "counted (0, fs) (cleanup_all_cold_storage cfg be now (Some days) sp fs)"
    unfolding e using assms(1) by (intro counted_fold counted_cleanup_step) auto
qed

text \<open>Purging a tree of bounded depth.\<close>

lemma snd_purge_tree:
  "can_list be \<Longrightarrow> snd (purge_tree n be pre st) =
     without be (\<lambda>p. \<exists>r. r \<noteq> [] \<and> length r \<le> n \<and> p = pre @ r) (snd (st :: nat \<times> 'a files))"
proof (induction n arbitrary: pre st)
  case (Suc n)
  obtain k fs where [simp]: "st = (k, fs)" by (cases st)
  obtain dirs files where l: "listdir be pre fs = Some (dirs, files)"
    using Suc.prems by (rule_tac listdir_cases [of be pre fs]) auto
  have ds: "snd (fold (\<lambda>d. purge_tree n be (pre @ [d])) ds st) =
      without be (\<lambda>p. \<exists>d\<in>set ds. \<exists>r. r \<noteq> [] \<and> length r \<le> n \<and> p = pre @ d # r) (snd st)"
    for ds and st :: "nat \<times> 'a files"
  proof (induction ds arbitrary: st)
    case (Cons d ds)
    show ?case
      by (simp add: Cons.IH Suc.IH [OF Suc.prems] without_without del: split_paired_Ex)
         (rule arg_cong [where f = "\<lambda>P. without be P _"], auto)
  qed simp
  have "(\<exists>d\<in>set dirs. \<exists>r. r \<noteq> [] \<and> length r \<le> n \<and> p = pre @ d # r) \<or> p \<in> (\<lambda>f. pre @ [f]) ` set files
      \<longleftrightarrow> (\<exists>r. r \<noteq> [] \<and> length r \<le> Suc n \<and> p = pre @ r)" if "p \<in> paths fs" for p
  proof
    assume "\<exists>r. r \<noteq> [] \<and> length r \<le> Suc n \<and> p = pre @ r"
    then obtain d r where "p = pre @ d # r" "length r \<le> n" by (metis Suc_le_mono length_Cons list.exhaust)
    with that show "(\<exists>d\<in>set dirs. \<exists>r. r \<noteq> [] \<and> length r \<le> n \<and> p = pre @ d # r) \<or> p \<in> (\<lambda>f. pre @ [f]) ` set files"
      by (cases "r = []") (auto simp: listdir_Some(2,3) [OF l])
  qed (auto intro: exI [of _ "_ # _"])
  then show ?case
    by (simp add: l ds snd_fold_delete without_without) (rule without_cong, simp)
qed simp

lemma length_le_depth: "p \<in> paths fs \<Longrightarrow> length p \<le> depth fs"
proof -
  have f: "n \<le> fold max xs n" "\<forall>x\<in>set xs. x \<le> fold max xs n" for xs and n :: nat
    by (induction xs arbitrary: n) (auto intro: order_trans [OF max.cobounded1] order_trans [OF max.cobounded2])
  assume "p \<in> paths fs"
  then show ?thesis using f(2) [of "map (length \<circ> fst) fs" 0] by (auto simp: depth_def paths_def)
qed

lemma delete_org:
  assumes "can_list be"
  shows "snd (delete_org_cold_storage be now org sp fs) = without be (\<lambda>p. \<exists>r. r \<noteq> [] \<and> p = org_prefix sp org @ r) fs"
  using assms length_le_depth
  by (auto simp: delete_org_cold_storage_def snd_purge_tree intro!: without_cong) force

lemma delete_all_org:
  assumes "can_list be"
  shows "delete_all_org_cold_storage True be now org fs =
    without be (\<lambda>p. \<exists>sp\<in>set STORAGE_PREFIXES. \<exists>r. r \<noteq> [] \<and> p = org_prefix sp org @ r) fs"
proof -
  have "fold (\<lambda>pre fs. snd (delete_org_cold_storage be now org pre fs)) sps fs =
      without be (\<lambda>p. \<exists>sp\<in>set sps. \<exists>r. r \<noteq> [] \<and> p = org_prefix sp org @ r) fs" for sps
    by (induction sps arbitrary: fs)
       (auto simp: delete_org [OF assms] without_without intro!: arg_cong [where f = "\<lambda>P. without be P _"])
  then show ?thesis by (simp add: delete_all_org_cold_storage_def)
qed

section \<open>Rewriting\<close>

definition cold_rows :: "backend \<Rightarrow> string \<Rightarrow> int \<Rightarrow> 'a files \<Rightarrow> 'a list" where
  "cold_rows be sp org fs = concat (map (\<lambda>p. rows_of (the (map_of fs p))) (cold_paths be sp org fs))"

definition unshadowed :: "'a files \<Rightarrow> bool" where
  "unshadowed fs \<longleftrightarrow>
     list_all (\<lambda>(p, _). \<forall>k\<in>set [3..<length p - 1]. map_of fs (take k p @ [p ! k @ ''.parquet'']) = None) fs"

lemma unshadowed_iff:
  "unshadowed fs \<longleftrightarrow> (\<forall>p\<in>paths fs. \<forall>k\<in>{3..<length p - 1}. take k p @ [p ! k @ ''.parquet''] \<notin> paths fs)"
  by (simp add: unshadowed_def list_all_iff paths_def map_of_eq_None_iff split_beta)

lemma length_org_prefix [simp]: "length (org_prefix sp org) = 3"
  by (simp add: org_prefix_def)

lemma unshadowedD:
  assumes "unshadowed fs" "org_prefix sp org @ ds @ d # r \<in> paths fs" "r \<noteq> []"
  shows "org_prefix sp org @ ds @ [d @ ''.parquet''] \<notin> paths fs"
proof -
  let ?p = "org_prefix sp org @ ds @ d # r" and ?k = "3 + length ds"
  have "?k \<in> {3..<length ?p - 1}" using assms(3) by (cases r) auto
  moreover have "take ?k ?p = org_prefix sp org @ ds" "?p ! ?k = d" by (simp_all add: nth_append)
  ultimately show ?thesis
    using assms(1,2) unfolding unshadowed_iff by (metis append_assoc)
qed

lemma unshadowed_subset: "unshadowed fs \<Longrightarrow> paths fs' \<subseteq> paths fs \<Longrightarrow> unshadowed fs'"
  unfolding unshadowed_iff by blast

definition cold_shape :: "string \<Rightarrow> int \<Rightarrow> path \<Rightarrow> bool" where
  "cold_shape sp org p \<longleftrightarrow> (\<exists>ds f. p = org_prefix sp org @ ds @ [f] \<and> is_parquet f \<and>
     length ds \<le> (if sp \<in> {''performance_spans'', ''performance_spans_rollup''} then 2 else 1))"

lemma in_cold_paths:
  assumes "can_list be" "unshadowed fs"
  shows "p \<in> set (cold_paths be sp org fs) \<longleftrightarrow> p \<in> paths fs \<and> cold_shape sp org p"
proof -
  have u1: "org_prefix sp org @ [d @ ''.parquet''] \<notin> paths fs" if "org_prefix sp org @ d # r \<in> paths fs" "r \<noteq> []" for d r
    using unshadowedD [OF assms(2), of sp org "[]"] that by simp
  have u2: "org_prefix sp org @ [d, h @ ''.parquet''] \<notin> paths fs" if "org_prefix sp org @ [d, h, f] \<in> paths fs" for d h f
    using unshadowedD [OF assms(2), of sp org "[d]" h "[f]"] that by simp
  have l: "length ds \<le> Suc 0 \<longleftrightarrow> ds = [] \<or> (\<exists>d. ds = [d])" "length ds \<le> 2 \<longleftrightarrow> ds = [] \<or> (\<exists>d. ds = [d]) \<or> (\<exists>d h. ds = [d, h])"
    for ds :: path by (auto simp: le_Suc_eq length_Suc_conv numeral_2_eq_2)
  show ?thesis
    using assms(1) u1 u2
    by (auto simp: cold_paths_def cold_shape_def in_enumerate in_hour_tiered in_range_def l)
qed

lemma distinct_cold_paths: "dict_ok fs \<Longrightarrow> distinct (cold_paths be sp org fs)"
  by (simp add: cold_paths_def distinct_enumerate distinct_hour_tiered)

fun rewritten :: "('a \<Rightarrow> bool) \<Rightarrow> 'a cold_file option \<Rightarrow> 'a cold_file option" where
  "rewritten keep (Some (Parquet rows)) = (if filter keep rows = [] then None else Some (Parquet (filter keep rows)))"
| "rewritten keep x = x"

lemma map_of_rewrite_file:
  assumes "deletes be p" "duck_ok p"
  shows "map_of (snd (rewrite_file be duck_ok keep p st)) q = (if q = p then rewritten keep (map_of (snd st) p) else map_of (snd st) q)"
proof (cases st)
  case [simp]: (Pair n fs)
  have unchanged: "filter keep rows = rows" if "length (filter keep rows) = length rows" for rows
    using that length_filter_less [of _ rows keep] by (metis filter_True order_less_irrefl)
  show ?thesis
  proof (cases "map_of fs p")
    case (Some x)
    then show ?thesis
      using assms
      by (cases x)
         (auto simp: rewrite_file_def try_delete_def storage_delete_def delete_conv' Let_def unchanged)
  qed (use assms in \<open>simp add: rewrite_file_def\<close>)
qed

lemma map_of_rewrite:
  assumes "\<forall>p\<in>set ps. deletes be p \<and> duck_ok p" "distinct ps"
  shows "map_of (snd (fold (rewrite_file be duck_ok keep) ps st)) q =
    (if q \<in> set ps then rewritten keep (map_of (snd st) q) else map_of (snd st) q)"
  using assms by (induction ps arbitrary: st) (auto simp: map_of_rewrite_file)

lemma dict_ok_rewrite: "dict_ok (snd st) \<Longrightarrow> dict_ok (snd (fold (rewrite_file be duck_ok keep) ps st))"
proof (induction ps arbitrary: st)
  case (Cons p ps)
  have "dict_ok (snd (rewrite_file be duck_ok keep p st))"
    using Cons.prems
    by (cases st) (auto simp: rewrite_file_def try_delete_def storage_delete_def delete_filter distinct_map_filter Let_def
        split: option.split cold_file.split)
  with Cons.IH show ?case by simp
qed simp

lemma filter_mset_sum: "filter_mset P (\<Sum>x\<in>A. f x) = (\<Sum>x\<in>A. filter_mset P (f x))"
  by (induction A rule: infinite_finite_induct) auto

lemma mset_cold_rows:
  "dict_ok fs \<Longrightarrow> mset (cold_rows be sp org fs) = (\<Sum>p\<in>set (cold_paths be sp org fs). mset (rows_of (the (map_of fs p))))"
  by (simp add: cold_rows_def mset_concat sum_list_distinct_conv_sum_set distinct_cold_paths comp_def)

text \<open>
  What rewriting one layout does, for every storage in which no file is shadowed: the rows of the query are
  filtered, no path is added and no other path changes.
\<close>

lemma rewrite_filters_rows:
  fixes issue_of project_of :: "'a \<Rightarrow> int" and org :: int
  assumes ok: "dict_ok fs" "can_list be" "\<forall>p. deletes be p" "\<forall>p. duck_ok p" "unshadowed fs"
    and w: "rewrite_filter sp project_id issue_ids = Some w"
  defines "fs' \<equiv> snd (rewrite_parquet_excluding_project be duck_ok issue_of project_of org project_id issue_ids sp fs)"
  shows "dict_ok fs'" "paths fs' \<subseteq> paths fs"
    and "mset (cold_rows be sp org fs') = filter_mset (keeps issue_of project_of w) (mset (cold_rows be sp org fs))"
    and "take 3 p \<noteq> org_prefix sp org \<Longrightarrow> map_of fs' p = map_of fs p"
proof -
  let ?k = "keeps issue_of project_of w" and ?S = "set (cold_paths be sp org fs)"
  have m: "map_of fs' q = (if q \<in> ?S then rewritten ?k (map_of fs q) else map_of fs q)" for q
    using ok(3,4) w by (simp add: fs'_def rewrite_parquet_excluding_project_def map_of_rewrite distinct_cold_paths ok(1))
  show d: "dict_ok fs'"
    using dict_ok_rewrite [of "(0, fs)"] ok(1) w by (simp add: fs'_def rewrite_parquet_excluding_project_def)
  have none: "rewritten ?k x = None \<longleftrightarrow> x = None \<or> (\<exists>rows. x = Some (Parquet rows) \<and> filter ?k rows = [])" for x
    by (cases "(?k, x)" rule: rewritten.cases) auto
  show sub: "paths fs' \<subseteq> paths fs" by (auto simp: paths_iff simp flip: not_None_eq simp: m none split: if_splits)
  have S: "p \<in> ?S \<longleftrightarrow> p \<in> paths fs \<and> cold_shape sp org p" for p by (rule in_cold_paths [OF ok(2,5)])
  have S': "set (cold_paths be sp org fs') = {p \<in> ?S. map_of fs' p \<noteq> None}"
    using in_cold_paths [OF ok(2) unshadowed_subset [OF ok(5) sub], of _ sp org] sub S unfolding paths_iff [symmetric] by blast
  have "mset (cold_rows be sp org fs') = (\<Sum>p\<in>{p \<in> ?S. map_of fs' p \<noteq> None}. mset (rows_of (the (map_of fs' p))))"
    by (simp add: mset_cold_rows [OF d] S')
  also have "\<dots> = (\<Sum>p\<in>?S. filter_mset ?k (mset (rows_of (the (map_of fs p)))))"
  proof (rule sum.mono_neutral_cong_left)
    show "\<forall>p\<in>?S - {p \<in> ?S. map_of fs' p \<noteq> None}. filter_mset ?k (mset (rows_of (the (map_of fs p)))) = {#}"
    proof
      fix p assume p: "p \<in> ?S - {p \<in> ?S. map_of fs' p \<noteq> None}"
      then obtain rows where "map_of fs p = Some (Parquet rows)" "filter ?k rows = []"
        using none [of "map_of fs p"] by (auto simp: m S paths_iff)
      then show "filter_mset ?k (mset (rows_of (the (map_of fs p)))) = {#}" by (simp flip: mset_filter)
    qed
    fix p assume p: "p \<in> {p \<in> ?S. map_of fs' p \<noteq> None}"
    show "mset (rows_of (the (map_of fs' p))) = filter_mset ?k (mset (rows_of (the (map_of fs p))))"
      using p by (cases "(?k, map_of fs p)" rule: rewritten.cases) (auto simp: m S paths_iff)
  qed auto
  also have "\<dots> = filter_mset ?k (mset (cold_rows be sp org fs))"
    by (simp add: mset_cold_rows [OF ok(1)] filter_mset_sum)
  finally show "mset (cold_rows be sp org fs') = filter_mset ?k (mset (cold_rows be sp org fs))" .
  show "take 3 p \<noteq> org_prefix sp org \<Longrightarrow> map_of fs' p = map_of fs p"
    using S by (auto simp: m cold_shape_def)
qed

section \<open>Properties\<close>

text \<open>
  Property C27. Retention: a sweep that is enabled and can list the storage deletes every file older than the
  retention that lies in the directory of an organization or one level below it and may be deleted. Within this
  reach it deletes exactly the files whose day begins before the cutoff, so nothing else than the older files and
  the files of the one day in which the cutoff falls; every other file stays with its rows, and the count is that
  of the deleted files. Two limits are lemmas below: chunks of an hour lie outside the reach and stay however
  old they are (\<open>hour_chunks_never_expire\<close>), and the day of the cutoff goes early (\<open>sweep_is_early\<close>).
\<close>

theorem expired_files_are_deleted:
  fixes fs :: "'a files" and now days :: int
  assumes "dict_ok fs" "can_list be" "CLEANUP_ENABLED cfg"
  defines "r sp \<equiv> cleanup_all_cold_storage cfg be now (Some days) sp fs" and "cutoff \<equiv> now - days * US_PER_DAY"
  shows "(\<forall>p org. expired (org_prefix sp org) cutoff p \<and> in_reach (org_prefix sp org) p \<and> deletes be p \<longrightarrow> p \<notin> paths (snd (r sp))) \<and>
    (\<forall>p. map_of (snd (r sp)) p =
       (if (\<exists>org. in_reach (org_prefix sp org) p \<and> day_begun (org_prefix sp org) cutoff p) \<and> deletes be p then None
        else map_of fs p)) \<and>
    fst (r sp) + length (snd (r sp)) = length fs"
proof -
  have rows: "\<forall>p. map_of (snd (r sp)) p =
       (if (\<exists>org. in_reach (org_prefix sp org) p \<and> day_begun (org_prefix sp org) cutoff p) \<and> deletes be p then None
        else map_of fs p)"
    using cleanup_all(1) [OF assms(1-3), of now days sp] by (simp add: r_def cutoff_def map_of_without swept_def)
  moreover have "p \<notin> paths (snd (r sp))"
    if "expired (org_prefix sp org) cutoff p" "in_reach (org_prefix sp org) p" "deletes be p" for p org
    using rows that expired_begun unfolding paths_iff by metis
  ultimately show ?thesis using cleanup_all(2) [OF assms(1-3), of now days sp] by (auto simp: r_def counted_def)
qed

definition fs_backend :: backend where
  "fs_backend = \<lparr>can_list = True, deletes = (\<lambda>p. True)\<rparr>"

definition sweep_on :: retention_cfg where
  "sweep_on = \<lparr>CLEANUP_ENABLED = True, RETENTION_DAYS = 90\<rparr>"

text \<open>Day 20454 is 2026-01-01.\<close>

definition new_year :: datetime where "new_year = 20454 * US_PER_DAY"

definition demo_store :: "int files" where
  "demo_store =
     [(org_prefix ''logs_logevent'' 1 @ [''20251001.parquet''], Parquet [1, 2]),
      (org_prefix ''logs_logevent'' 1 @ [''20251001'', ''chunk_000.parquet''], Parquet [3]),
      (org_prefix ''logs_logevent'' 1 @ [''20251231.parquet''], Parquet [4]),
      (org_prefix ''logs_logevent'' 12 @ [''20250101'', ''chunk_000.parquet''], Parquet [5])]"

theorem expired_files_are_deleted_witness:
  "org_prefix ''logs_logevent'' 12 @ [''20250101'', ''chunk_000.parquet'']
     \<notin> paths (snd (cleanup_all_cold_storage sweep_on fs_backend new_year (Some 90) ''logs_logevent'' demo_store)) \<and>
   map_of (snd (cleanup_all_cold_storage sweep_on fs_backend new_year (Some 90) ''logs_logevent'' demo_store))
     (org_prefix ''logs_logevent'' 1 @ [''20251231.parquet'']) = Some (Parquet [4]) \<and>
   fst (cleanup_all_cold_storage sweep_on fs_backend new_year (Some 90) ''logs_logevent'' demo_store) = 3"
proof -
  let ?old = "org_prefix ''logs_logevent'' 12 @ [''20250101'', ''chunk_000.parquet'']"
  have d: "dict_ok demo_store" and b: "can_list fs_backend" "CLEANUP_ENABLED sweep_on" by code_simp+
  have o: "expired (org_prefix ''logs_logevent'' 12) (new_year - 90 * US_PER_DAY) ?old"
    "in_reach (org_prefix ''logs_logevent'' 12) ?old" "deletes fs_backend ?old" by code_simp+
  have s: "snd (cleanup_all_cold_storage sweep_on fs_backend new_year (Some 90) ''logs_logevent'' demo_store)
     = [(org_prefix ''logs_logevent'' 1 @ [''20251231.parquet''], Parquet [4])]"
    by code_simp
  have n: "length demo_store = 4" by (simp add: demo_store_def)
  note all = expired_files_are_deleted [OF d b, where now = new_year and days = 90 and sp = "''logs_logevent''"]
  show ?thesis using all o n unfolding s by auto
qed

text \<open>
  Property C28. Deleting an organization purges its cold data and no one else's: of the storage, at any
  depth, exactly the files below the directories of that organization are deleted.
\<close>

theorem purge_is_exact:
  assumes "can_list be"
  shows "map_of (delete_all_org_cold_storage True be now org fs) p =
    (if (\<exists>sp\<in>set STORAGE_PREFIXES. \<exists>r. r \<noteq> [] \<and> p = org_prefix sp org @ r) \<and> deletes be p then None else map_of fs p)"
  by (simp add: delete_all_org [OF assms] map_of_without)

theorem purge_is_exact_witness:
  "map_of (delete_all_org_cold_storage True fs_backend 0 1 demo_store) (org_prefix ''logs_logevent'' 12 @ [''20250101'', ''chunk_000.parquet''])
     = Some (Parquet [5])"
proof -
  have "map_of demo_store (org_prefix ''logs_logevent'' 12 @ [''20250101'', ''chunk_000.parquet'']) = Some (Parquet [5])"
    by code_simp
  moreover have "str_of_int 12 \<noteq> str_of_int 1" by simp
  ultimately show ?thesis
    using purge_is_exact [of fs_backend 0 1 demo_store "org_prefix ''logs_logevent'' 12 @ [''20250101'', ''chunk_000.parquet'']"]
    by (simp add: fs_backend_def org_prefix_def)
qed

text \<open>
  Property C23. Deleting a project removes its rows from cold storage and nothing else: where no file is shadowed
  and every statement and deletion goes through, what a query of the organization finds afterwards are the
  rows it found before that belong to other projects, and files of other organizations are untouched.
\<close>

theorem project_rows_are_removed:
  fixes issue_of project_of :: "'a \<Rightarrow> int" and org :: int
  assumes ok: "dict_ok fs" "can_list be" "\<forall>p. deletes be p" "\<forall>p. duck_ok p" "unshadowed fs"
    and w: "rewrite_filter sp project_id issue_ids = Some w"
  defines "fs' \<equiv> snd (rewrite_parquet_excluding_project be duck_ok issue_of project_of org project_id issue_ids sp fs)"
  shows "mset (cold_rows be sp org fs') = filter_mset (keeps issue_of project_of w) (mset (cold_rows be sp org fs)) \<and>
    (\<forall>p. take 3 p \<noteq> org_prefix sp org \<longrightarrow> map_of fs' p = map_of fs p)"
  using rewrite_filters_rows [OF ok w] unfolding fs'_def by blast

text \<open>Rows are pairs of a project and an identifier.\<close>

definition demo_projects :: "(int \<times> int) files" where
  "demo_projects =
     [(org_prefix ''logs_logevent'' 1 @ [''20251001.parquet''], Parquet [(7, 1), (8, 2)]),
      (org_prefix ''logs_logevent'' 1 @ [''20251002'', ''chunk_000.parquet''], Parquet [(7, 3)]),
      (org_prefix ''logs_logevent'' 2 @ [''20251001.parquet''], Parquet [(9, 4)])]"

theorem project_rows_are_removed_witness:
  "mset (cold_rows fs_backend ''logs_logevent'' 1
     (snd (rewrite_parquet_excluding_project fs_backend (\<lambda>_. True) (\<lambda>_. 0) fst 1 (Some 7) [] ''logs_logevent'' demo_projects)))
   = {#(8, 2)#}"
proof -
  have 1: "dict_ok demo_projects" "unshadowed demo_projects" "can_list fs_backend" by code_simp+
  have 2: "\<forall>p. deletes fs_backend p" by (simp add: fs_backend_def)
  have 3: "cold_rows fs_backend ''logs_logevent'' 1 demo_projects = [(7, 1), (8, 2), (7, 3)]" by code_simp
  show ?thesis
    using project_rows_are_removed [OF 1(1,3) 2 _ 1(2), where sp = "''logs_logevent''" and duck_ok = "\<lambda>_. True" and project_id = "Some 7" and issue_ids = "[]"
        and w = "NotProject 7" and issue_of = "\<lambda>_. 0" and project_of = fst and org = 1]
    by (simp add: rewrite_filter_def 3)
qed

text \<open>
  Where a file shadows chunks of the same date, removing a project can bring its rows back: the flat file has
  no row left and is deleted, and the chunk file that it shadowed, which was not rewritten, is read again.
\<close>

definition demo_shadow :: "(int \<times> int) files" where
  "demo_shadow =
     [(org_prefix ''logs_logevent'' 1 @ [''20251001.parquet''], Parquet [(7, 1), (7, 2)]),
      (org_prefix ''logs_logevent'' 1 @ [''20251001'', ''chunk_000.parquet''], Parquet [(7, 1)])]"

lemma removed_rows_reappear:
  "cold_rows fs_backend ''logs_logevent'' 1
     (snd (rewrite_parquet_excluding_project fs_backend (\<lambda>_. True) (\<lambda>_. 0) fst 1 (Some 7) [] ''logs_logevent'' demo_shadow))
   = [(7, 1)]"
  by code_simp

text \<open>
  The sweep of retention deletes one level of directories only: chunks of an hour of spans that were not
  compacted stay for ever, although they are years older than the retention.
\<close>

lemma hour_chunks_never_expire:
  "(let p = org_prefix ''performance_spans'' 1 @ [''20200101'', ''07'', ''chunk_1.parquet''] in
    expired (org_prefix ''performance_spans'' 1) (new_year - 30 * US_PER_DAY) p \<and>
    cleanup_all_cold_storage sweep_on fs_backend new_year (Some 30) ''performance_spans'' [(p, Parquet [4 :: int])]
      = (0, [(p, Parquet [4])]))"
  by code_simp

text \<open>
  It compares the first instant of a day with the cutoff: rows of that day that are younger than the
  retention go with it. Here the file holds a day that ends 89 days and one minute before the sweep.
\<close>

lemma sweep_is_early:
  "(let p = org_prefix ''logs_logevent'' 1 @ [''20251003.parquet''] in
    \<not> expired (org_prefix ''logs_logevent'' 1) (new_year + 60000000 - 90 * US_PER_DAY) p \<and>
    cleanup_all_cold_storage sweep_on fs_backend (new_year + 60000000) (Some 90) ''logs_logevent'' [(p, Parquet [1])]
      = (1, ([] :: int files)))"
  by code_simp

end
