(* ===== verification/Cold_Archive.thy ===== *)
theory Cold_Archive
  imports Cold_Store
begin

text \<open>
  Archiving of table partitions, \<open>glitchtip/cold_storage.py\<close>: the chunk size, the streaming of the rows of each
  organization into Parquet files, detaching and dropping the partition, the selection of old partitions and
  the maintenance step that the log and issue event tables share.

  The catalog of the database is an association list from table names to tables with their rows. What the
  outside does is an argument: the outcome of each write (it goes through, leaves nothing or, on a file system,
  leaves a torn file), the answer of the database to each statement, the size of a CSV line, which
  organizations pay. A row becomes one CSV line; encodings and row groups do not change the rows of a file.
\<close>

section \<open>Chunk size\<close>

definition upper_az :: "char \<Rightarrow> char" where
  "upper_az c = (if is_lower_az c then char_of (ord_of c - 32) else c)"

definition MEMORY_UNITS :: "(string \<times> int) list" where
  "MEMORY_UNITS = [(''KB'', 1024), (''MB'', 1024 ^ 2), (''GB'', 1024 ^ 3), (''TB'', 1024 ^ 4)]"

definition rat_int :: "rat \<Rightarrow> int" where
  "rat_int x = (if 0 \<le> x then \<lfloor>x\<rfloor> else \<lceil>x\<rceil>)"

text \<open>\<open>Inl\<close> is the \<open>ValueError\<close> of \<open>float\<close>, which is an argument.\<close>

definition parse_duckdb_memory_bytes :: "(string \<Rightarrow> rat option) \<Rightarrow> string \<Rightarrow> unit + int option" where
  "parse_duckdb_memory_bytes py_float limit_str =
     (if limit_str = [] then Inr None
      else let t = map upper_az (strip limit_str) in
           case List.find (\<lambda>(suffix, _). ends_with suffix t) MEMORY_UNITS of
             Some (suffix, factor) \<Rightarrow>
               (case py_float (take (length t - length suffix) t) of
                  None \<Rightarrow> Inl ()
                | Some x \<Rightarrow> Inr (Some (rat_int (x * of_int factor))))
           | None \<Rightarrow> Inr (py_int 10 t))"

definition get_archive_chunk_bytes :: "(string \<Rightarrow> rat option) \<Rightarrow> string \<Rightarrow> unit + int" where
  "get_archive_chunk_bytes py_float limit_str =
     (case parse_duckdb_memory_bytes py_float limit_str of
        Inl e \<Rightarrow> Inl e
      | Inr None \<Rightarrow> Inr (64 * 1024 * 1024)
      | Inr (Some mem_bytes) \<Rightarrow> Inr (max (mem_bytes div 4) (1024 * 1024)))"

section \<open>Writing\<close>

datatype write_outcome = Written | Unwritten | Torn

datatype pg_result = PgOk | PgDeadlock | PgGone | PgError

record 'r archive_env =
  DUCKDB_ENABLED :: bool
  cold_backend :: "backend option"
  DUCKDB_MEMORY_LIMIT :: string
  float_of :: "string \<Rightarrow> rat option"
  billing_on :: bool
  paid_org :: "int \<Rightarrow> bool"
  org_of :: "'r \<Rightarrow> int"
  header_bytes :: int
  line_bytes :: "'r \<Rightarrow> int"
  write_file :: "path \<Rightarrow> write_outcome"
  detach_try :: "string \<Rightarrow> nat \<Rightarrow> pg_result"
  detach_plain :: "string \<Rightarrow> pg_result"
  drop_works :: "string \<Rightarrow> bool"

datatype archive_error = WriteFailed | BadMemoryLimit | DetachFailed | DropFailed

definition ARCHIVE_CHUNK_ROWS :: int where "ARCHIVE_CHUNK_ROWS = 50000"

definition flush_csv_to_parquet ::
    "'r archive_env \<Rightarrow> string \<Rightarrow> int \<Rightarrow> string \<Rightarrow> bool \<Rightarrow> 'r list \<Rightarrow> nat \<Rightarrow> nat \<Rightarrow> 'r files
     \<Rightarrow> (archive_error + nat \<times> nat) \<times> 'r files" where
  "flush_csv_to_parquet env prefix org date is_final rows chunk_num total_rows fs =
     (let flat = chunk_num = 0 \<and> is_final;
          out_path = (if flat then get_org_cold_storage_path prefix org date else get_chunk_path prefix org date chunk_num);
          chunk_num' = (if flat then chunk_num else chunk_num + 1) in
      case write_file env out_path of
        Written \<Rightarrow> (Inr (chunk_num', total_rows + length rows), dset fs out_path (Parquet rows))
      | Unwritten \<Rightarrow> (Inl WriteFailed, fs)
      | Torn \<Rightarrow> (Inl WriteFailed, dset fs out_path Damaged))"

text \<open>The loop over the lines of the copy, with the buffered rows and their size.\<close>

fun stream_rows ::
    "'r archive_env \<Rightarrow> string \<Rightarrow> int \<Rightarrow> string \<Rightarrow> int \<Rightarrow> 'r list \<Rightarrow> 'r list \<Rightarrow> int \<Rightarrow> nat \<Rightarrow> nat \<Rightarrow> 'r files
     \<Rightarrow> (archive_error + nat \<times> nat) \<times> 'r files" where
  "stream_rows env prefix org date limit [] buf bytes chunk_num total_rows fs =
     (if buf = [] then (Inr (chunk_num, total_rows), fs)
      else flush_csv_to_parquet env prefix org date True buf chunk_num total_rows fs)"
| "stream_rows env prefix org date limit (line # lines) buf bytes chunk_num total_rows fs =
     (let buf' = buf @ [line]; bytes' = bytes + line_bytes env line in
      if bytes' \<ge> limit \<or> int (length buf') \<ge> ARCHIVE_CHUNK_ROWS then
        (case flush_csv_to_parquet env prefix org date False buf' chunk_num total_rows fs of
           (Inl e, fs') \<Rightarrow> (Inl e, fs')
         | (Inr (chunk_num', total_rows'), fs') \<Rightarrow>
             stream_rows env prefix org date limit lines [] (header_bytes env) chunk_num' total_rows' fs')
      else stream_rows env prefix org date limit lines buf' bytes' chunk_num total_rows fs)"

definition archive_org ::
    "'r archive_env \<Rightarrow> backend \<Rightarrow> string \<Rightarrow> string \<Rightarrow> 'r list \<Rightarrow> int \<Rightarrow> 'r files \<Rightarrow> (archive_error + bool) \<times> 'r files" where
  "archive_org env be prefix date rows org fs =
     (if storage_exists (get_org_cold_storage_path prefix org date) fs then (Inr True, fs)
      else let fs1 = snd (clean_dir be (get_chunk_dir prefix org date) (0, fs)) in
           case get_archive_chunk_bytes (float_of env) (DUCKDB_MEMORY_LIMIT env) of
             Inl _ \<Rightarrow> (Inl BadMemoryLimit, fs1)
           | Inr limit \<Rightarrow>
               (case stream_rows env prefix org date limit [r \<leftarrow> rows. org_of env r = org] [] (header_bytes env) 0 0 fs1 of
                  (Inl e, fs2) \<Rightarrow> (Inl e, fs2)
                | (Inr (_, total_rows), fs2) \<Rightarrow> (Inr (0 < total_rows), fs2)))"

fun archive_orgs ::
    "'r archive_env \<Rightarrow> backend \<Rightarrow> string \<Rightarrow> string \<Rightarrow> 'r list \<Rightarrow> int list \<Rightarrow> 'r files
     \<Rightarrow> (archive_error + (int \<times> path) list) \<times> 'r files" where
  "archive_orgs env be prefix date rows [] fs = (Inr [], fs)"
| "archive_orgs env be prefix date rows (org # orgs) fs =
     (case archive_org env be prefix date rows org fs of
        (Inl e, fs') \<Rightarrow> (Inl e, fs')
      | (Inr done, fs') \<Rightarrow>
          (case archive_orgs env be prefix date rows orgs fs' of
             (Inl e, fs'') \<Rightarrow> (Inl e, fs'')
           | (Inr files, fs'') \<Rightarrow>
               (Inr (if done then (org, get_org_cold_storage_path prefix org date) # files else files), fs'')))"

section \<open>Partitions\<close>

record 'r pg_table =
  tb_parent :: "string option"
  tb_rows :: "'r list"

type_synonym 'r pg = "(string, 'r pg_table) dict"

definition eligible :: "'r archive_env \<Rightarrow> int \<Rightarrow> bool" where
  "eligible env org \<longleftrightarrow> billing_on env \<longrightarrow> paid_org env org"

definition archive_partition_per_org ::
    "'r archive_env \<Rightarrow> string \<Rightarrow> string \<Rightarrow> string \<Rightarrow> 'r pg \<Rightarrow> 'r files \<Rightarrow> (archive_error + (int \<times> path) list) \<times> 'r files" where
  "archive_partition_per_org env part_name date table pg fs =
     (if \<not> DUCKDB_ENABLED env then (Inr [], fs)
      else case cold_backend env of
             None \<Rightarrow> (Inr [], fs)
           | Some be \<Rightarrow>
               (case map_of pg part_name of
                  None \<Rightarrow> (Inr [], fs)
                | Some t \<Rightarrow>
                    archive_orgs env be table date (tb_rows t)
                      [org \<leftarrow> sort (remdups (map (org_of env) (tb_rows t))). eligible env org] fs))"

datatype detach_end = Detached | AlreadyGone | FallBack

text \<open>The concurrent attempts, with the seconds waited between them.\<close>

primrec detach_attempts :: "nat \<Rightarrow> (nat \<Rightarrow> pg_result) \<Rightarrow> nat \<Rightarrow> detach_end \<times> nat list" where
  "detach_attempts 0 answer attempt = (FallBack, [])"
| "detach_attempts (Suc left) answer attempt =
     (case answer attempt of
        PgOk \<Rightarrow> (Detached, [])
      | PgGone \<Rightarrow> (AlreadyGone, [])
      | PgDeadlock \<Rightarrow>
          (if left = 0 then (FallBack, [])
           else case detach_attempts left answer (Suc attempt) of (e, waits) \<Rightarrow> (e, 2 ^ (attempt + 1) # waits))
      | PgError \<Rightarrow> (FallBack, []))"

definition is_partition_of :: "string \<Rightarrow> string \<Rightarrow> 'r pg \<Rightarrow> bool" where
  "is_partition_of part_name parent pg \<longleftrightarrow> (\<exists>t. map_of pg part_name = Some t \<and> tb_parent t = Some parent)"

lemma is_partition_of_code [code]:
  "is_partition_of part_name parent pg =
     (case map_of pg part_name of None \<Rightarrow> False | Some t \<Rightarrow> tb_parent t = Some parent)"
  by (auto simp: is_partition_of_def split: option.split)

definition mark_detached :: "string \<Rightarrow> 'r pg \<Rightarrow> 'r pg" where
  "mark_detached part_name pg =
     (case map_of pg part_name of None \<Rightarrow> pg | Some t \<Rightarrow> dset pg part_name (t\<lparr>tb_parent := None\<rparr>))"

definition detach_partition ::
    "'r archive_env \<Rightarrow> string \<Rightarrow> string \<Rightarrow> nat \<Rightarrow> 'r pg \<Rightarrow> (archive_error + nat list) \<times> 'r pg" where
  "detach_partition env part_name parent max_retries pg =
     (let there = is_partition_of part_name parent pg in
      case detach_attempts max_retries (\<lambda>n. if there then detach_try env part_name n else PgGone) 0 of
        (Detached, waits) \<Rightarrow> (Inr waits, mark_detached part_name pg)
      | (AlreadyGone, waits) \<Rightarrow> (Inr waits, pg)
      | (FallBack, waits) \<Rightarrow>
          (case (if there then detach_plain env part_name else PgGone) of
             PgOk \<Rightarrow> (Inr waits, mark_detached part_name pg)
           | PgGone \<Rightarrow> (Inr waits, pg)
           | _ \<Rightarrow> (Inl DetachFailed, pg)))"

definition drop_cold_partition :: "'r archive_env \<Rightarrow> string \<Rightarrow> 'r pg \<Rightarrow> (archive_error + unit) \<times> 'r pg" where
  "drop_cold_partition env part_name pg =
     (if drop_works env part_name then (Inr (), AList.delete part_name pg) else (Inl DropFailed, pg))"

text \<open>The first part of the name between underscores that is eight digits.\<close>

definition date_part :: "string \<Rightarrow> string option" where
  "date_part name = List.find (\<lambda>part. length part = 8 \<and> list_all is_digit part) (split_char (CHR ''_'') name)"

record 'r cold_state =
  pg_tables :: "'r pg"
  cold_files :: "'r files"

definition archive_and_swap_partition ::
    "'r archive_env \<Rightarrow> string \<Rightarrow> string \<Rightarrow> 'r cold_state \<Rightarrow> (archive_error + bool) \<times> 'r cold_state" where
  "archive_and_swap_partition env part_name table st =
     (if \<not> DUCKDB_ENABLED env then (Inr False, st)
      else case date_part part_name of
             None \<Rightarrow> (Inr False, st)
           | Some date \<Rightarrow>
               (case archive_partition_per_org env part_name date table (pg_tables st) (cold_files st) of
                  (Inl e, fs) \<Rightarrow> (Inl e, st\<lparr>cold_files := fs\<rparr>)
                | (Inr _, fs) \<Rightarrow>
                    (case detach_partition env part_name table 3 (pg_tables st) of
                       (Inl e, pg) \<Rightarrow> (Inl e, \<lparr>pg_tables = pg, cold_files = fs\<rparr>)
                     | (Inr _, pg) \<Rightarrow>
                         (case drop_cold_partition env part_name pg of
                            (Inl e, pg') \<Rightarrow> (Inl e, \<lparr>pg_tables = pg', cold_files = fs\<rparr>)
                          | (Inr _, pg') \<Rightarrow> (Inr True, \<lparr>pg_tables = pg', cold_files = fs\<rparr>)))))"

text \<open>The query for tables: the name is the table's, an underscore and eight digits.\<close>

definition get_partitions_older_than :: "datetime \<Rightarrow> string \<Rightarrow> int \<Rightarrow> 'r pg \<Rightarrow> (string \<times> datetime) list" where
  "get_partitions_older_than now table days pg =
     (let cutoff = now - days * US_PER_DAY;
          names = sort [name \<leftarrow> map fst pg. starts_with (table @ ''_'') name \<and> length name = length table + 9 \<and>
                                     list_all is_digit (drop (length table + 1) name)] in
      List.map_filter (\<lambda>name. case date_part name of
                          None \<Rightarrow> None
                        | Some d \<Rightarrow> (case strptime_date d of
                                      None \<Rightarrow> None
                                    | Some day \<Rightarrow> if day * US_PER_DAY < cutoff then Some (name, day * US_PER_DAY) else None)) names)"

definition archive_step ::
    "'r archive_env \<Rightarrow> string \<Rightarrow> string \<Rightarrow> (nat \<times> nat) \<times> 'r cold_state \<Rightarrow> (nat \<times> nat) \<times> 'r cold_state" where
  "archive_step env table name = (\<lambda>((archived, failed), st).
     case archive_and_swap_partition env name table st of
       (Inr True, st') \<Rightarrow> ((Suc archived, failed), st')
     | (_, st') \<Rightarrow> ((archived, Suc failed), st'))"

definition archive_and_cleanup_partitions ::
    "'r archive_env \<Rightarrow> retention_cfg \<Rightarrow> datetime \<Rightarrow> string \<Rightarrow> int \<Rightarrow> int option \<Rightarrow> 'r cold_state
     \<Rightarrow> (nat \<times> nat \<times> nat) \<times> 'r cold_state" where
  "archive_and_cleanup_partitions env cfg now table hot_days retention_days st =
     (if \<not> DUCKDB_ENABLED env then ((0, 0, 0), st)
      else let days = (case retention_days of None \<Rightarrow> RETENTION_DAYS cfg | Some d \<Rightarrow> d);
               ((archived, failed), st1) =
                 fold (archive_step env table) (map fst (get_partitions_older_than now table hot_days (pg_tables st))) ((0, 0), st)
           in case cold_backend env of
                None \<Rightarrow> ((archived, failed, 0), st1)
              | Some be \<Rightarrow>
                  (case cleanup_all_cold_storage cfg be now (Some days) table (cold_files st1) of
                     (deleted, fs) \<Rightarrow> ((archived, failed, deleted), st1\<lparr>cold_files := fs\<rparr>)))"

section \<open>What the storage holds of a day\<close>

abbreviation flat_path :: "string \<Rightarrow> int \<Rightarrow> string \<Rightarrow> path" where
  "flat_path \<equiv> get_org_cold_storage_path"

definition in_chunks :: "string \<Rightarrow> int \<Rightarrow> string \<Rightarrow> 'r files \<Rightarrow> nat \<Rightarrow> 'r list \<Rightarrow> bool" where
  "in_chunks prefix org date fs c rows \<longleftrightarrow>
     (\<forall>x. get_chunk_dir prefix org date @ [x] \<in> paths fs \<longleftrightarrow>
          (\<exists>i<c. get_chunk_dir prefix org date @ [x] = get_chunk_path prefix org date i)) \<and>
     (\<exists>f. (\<forall>i<c. map_of fs (get_chunk_path prefix org date i) = Some (Parquet (f i))) \<and> concat (map f [0..<c]) = rows)"

definition holds :: "string \<Rightarrow> int \<Rightarrow> string \<Rightarrow> 'r files \<Rightarrow> 'r list \<Rightarrow> bool" where
  "holds prefix org date fs rows \<longleftrightarrow>
     map_of fs (flat_path prefix org date) = Some (Parquet rows) \<or>
     (flat_path prefix org date \<notin> paths fs \<and> (\<exists>c. in_chunks prefix org date fs c rows))"

lemma zpad_inj [simp]: "zpad w m = zpad w n \<longleftrightarrow> m = n"
  by (metis nat_of_digits_zpad)

lemma chunk_path_inj [simp]: "get_chunk_path prefix org date i = get_chunk_path prefix org date j \<longleftrightarrow> i = j"
  by (simp add: get_chunk_path_def)

lemma path_shapes [simp]:
  "flat_path prefix org date \<noteq> get_chunk_path prefix org date i" "get_chunk_path prefix org date i \<noteq> flat_path prefix org date"
  "get_chunk_dir prefix org date @ [x] \<noteq> flat_path prefix org date" "flat_path prefix org date \<noteq> get_chunk_dir prefix org date @ [x]"
  "take 3 (flat_path prefix org date) = org_prefix prefix org" "take 3 (get_chunk_path prefix org date i) = org_prefix prefix org"
  "take 3 (get_chunk_dir prefix org date @ [x]) = org_prefix prefix org"
  "take 3 (get_chunk_dir prefix org date) = org_prefix prefix org" "length (get_chunk_dir prefix org date) = 4"
  by (auto simp: get_org_cold_storage_path_def get_chunk_path_def get_chunk_dir_def)

lemma chunk_path_in_dir: "\<exists>x. get_chunk_path prefix org date i = get_chunk_dir prefix org date @ [x]"
  by (simp add: get_chunk_path_def)

lemma paths_dset [simp]: "paths (dset fs k v) = insert k (paths fs)"
  by (auto simp: paths_iff split: if_splits)

lemma in_chunks_0: "in_chunks prefix org date fs 0 rows \<longleftrightarrow> rows = [] \<and> (\<forall>x. get_chunk_dir prefix org date @ [x] \<notin> paths fs)"
  by (auto simp: in_chunks_def)

lemma in_chunks_next:
  assumes "in_chunks prefix org date fs c rows"
  shows "in_chunks prefix org date (dset fs (get_chunk_path prefix org date c) (Parquet new)) (Suc c) (rows @ new)"
proof -
  from assms obtain f where f: "\<forall>i<c. map_of fs (get_chunk_path prefix org date i) = Some (Parquet (f i))" "concat (map f [0..<c]) = rows"
    by (auto simp: in_chunks_def)
  have "map (f(c := new)) [0..<c] = map f [0..<c]" by simp
  then have "concat (map (f(c := new)) [0..<Suc c]) = rows @ new" using f(2) by simp
  moreover have "\<forall>i<Suc c. map_of (dset fs (get_chunk_path prefix org date c) (Parquet new)) (get_chunk_path prefix org date i)
      = Some (Parquet ((f(c := new)) i))"
    using f(1) by (auto simp: less_Suc_eq)
  ultimately have "\<exists>f. (\<forall>i<Suc c. map_of (dset fs (get_chunk_path prefix org date c) (Parquet new)) (get_chunk_path prefix org date i)
      = Some (Parquet (f i))) \<and> concat (map f [0..<Suc c]) = rows @ new" by blast
  moreover have "get_chunk_dir prefix org date @ [x] \<in> paths (dset fs (get_chunk_path prefix org date c) (Parquet new)) \<longleftrightarrow>
      (\<exists>i<Suc c. get_chunk_dir prefix org date @ [x] = get_chunk_path prefix org date i)" for x
    using assms unfolding in_chunks_def by (auto simp: less_Suc_eq)
  ultimately show ?thesis unfolding in_chunks_def by blast
qed

lemma in_chunks_cong:
  assumes "\<And>p. take 3 p = org_prefix prefix org \<Longrightarrow> map_of fs' p = map_of fs p"
  shows "in_chunks prefix org date fs' c rows = in_chunks prefix org date fs c rows"
    and "holds prefix org date fs' rows = holds prefix org date fs rows"
proof -
  show "in_chunks prefix org date fs' c rows = in_chunks prefix org date fs c rows" for c
  proof -
    have "map_of fs' (get_chunk_dir prefix org date @ [x]) = map_of fs (get_chunk_dir prefix org date @ [x])"
      "map_of fs' (get_chunk_path prefix org date i) = map_of fs (get_chunk_path prefix org date i)" for x i
      by (rule assms, rule path_shapes)+
    then show ?thesis by (simp add: in_chunks_def paths_iff)
  qed
  then show "holds prefix org date fs' rows = holds prefix org date fs rows"
    using assms by (simp add: holds_def paths_iff)
qed

definition untorn :: "'r archive_env \<Rightarrow> bool" where
  "untorn env \<longleftrightarrow> (\<forall>p. write_file env p \<noteq> Torn)"

lemma flush_effect:
  assumes "untorn env" "flat_path prefix org date \<notin> paths fs" "in_chunks prefix org date fs c done"
    and "flush_csv_to_parquet env prefix org date final buf c n fs = (res, fs')"
  shows "case res of
      Inl e \<Rightarrow> flat_path prefix org date \<notin> paths fs'
    | Inr (c', n') \<Rightarrow> n' = n + length buf \<and>
        (if final then holds prefix org date fs' (done @ buf)
         else flat_path prefix org date \<notin> paths fs' \<and> in_chunks prefix org date fs' c' (done @ buf))"
proof -
  have "done = []" if "c = 0" using assms(3) that by (simp add: in_chunks_0)
  then show ?thesis
    using assms in_chunks_next [OF assms(3), of buf]
    by (auto simp: flush_csv_to_parquet_def Let_def untorn_def holds_def split: write_outcome.splits if_splits)
qed

lemma flush_frame:
  assumes "flush_csv_to_parquet env prefix org date final buf c n fs = (res, fs')"
  shows "(take 3 p \<noteq> org_prefix prefix org \<longrightarrow> map_of fs' p = map_of fs p) \<and> (dict_ok fs \<longrightarrow> dict_ok fs')"
  using assms by (auto simp: flush_csv_to_parquet_def Let_def split: write_outcome.splits if_splits)

lemma stream_effect:
  assumes "untorn env" "flat_path prefix org date \<notin> paths fs" "in_chunks prefix org date fs c done"
    and "stream_rows env prefix org date limit lines buf bytes c n fs = (res, fs')"
  shows "case res of
      Inl e \<Rightarrow> flat_path prefix org date \<notin> paths fs'
    | Inr (c', n') \<Rightarrow> n' = n + length (buf @ lines) \<and> holds prefix org date fs' (done @ buf @ lines)"
  using assms
proof (induction env prefix org date limit lines buf bytes c n fs arbitrary: "done" rule: stream_rows.induct)
  case (1 env prefix org date limit buf bytes c n fs)
  show ?case
  proof (cases "buf = []")
    case True
    then show ?thesis using 1 by (auto simp: holds_def)
  next
    case False
    then show ?thesis using flush_effect [of env prefix org date fs c "done" True buf n res fs'] 1
      by (auto split: sum.splits)
  qed
next
  case (2 env prefix org date limit line lines buf bytes c n fs)
  let ?big = "bytes + line_bytes env line \<ge> limit \<or> int (length (buf @ [line])) \<ge> ARCHIVE_CHUNK_ROWS"
  show ?case
  proof (cases ?big)
    case True
    obtain r fs1 where f: "flush_csv_to_parquet env prefix org date False (buf @ [line]) c n fs = (r, fs1)" by fastforce
    note fe = flush_effect [OF 2(3-5) f]
    show ?thesis
    proof (cases r)
      case (Inl e)
      then show ?thesis using 2(6) True f fe by (auto simp: Let_def)
    next
      case (Inr cn)
      obtain c1 n1 where [simp]: "cn = (c1, n1)" by (cases cn)
      have "stream_rows env prefix org date limit lines [] (header_bytes env) c1 n1 fs1 = (res, fs')"
        using 2(6) True f Inr by (auto simp: Let_def)
      then show ?thesis
        using 2(1) [OF refl refl True f [symmetric] Inr \<open>cn = (c1, n1)\<close> [symmetric] 2(3), of "done @ buf @ [line]"] fe Inr
        by (auto split: sum.splits)
    qed
  next
    case False
    then have "stream_rows env prefix org date limit lines (buf @ [line]) (bytes + line_bytes env line) c n fs = (res, fs')"
      using 2(6) by (auto simp: Let_def)
    then show ?thesis
      using 2(2) [OF refl refl False 2(3-5)] by (auto split: sum.splits)
  qed
qed

lemma stream_frame:
  assumes "stream_rows env prefix org date limit lines buf bytes c n fs = (res, fs')"
  shows "(take 3 p \<noteq> org_prefix prefix org \<longrightarrow> map_of fs' p = map_of fs p) \<and> (dict_ok fs \<longrightarrow> dict_ok fs')"
  using assms
proof (induction env prefix org date limit lines buf bytes c n fs rule: stream_rows.induct)
  case (1 env prefix org date limit buf bytes c n fs)
  then show ?case using flush_frame [of env prefix org date True buf c n fs res fs' p] by (auto split: if_splits)
next
  case (2 env prefix org date limit line lines buf bytes c n fs)
  obtain r fs1 where f: "flush_csv_to_parquet env prefix org date False (buf @ [line]) c n fs = (r, fs1)" by fastforce
  show ?case
    using 2 flush_frame [OF f, of p] f by (auto simp: Let_def split: if_splits sum.splits prod.splits)
qed

definition day_rows :: "('r \<Rightarrow> int) \<Rightarrow> 'r list \<Rightarrow> int \<Rightarrow> 'r list" where
  "day_rows oo rows org = [r \<leftarrow> rows. oo r = org]"

definition flat_ok :: "string \<Rightarrow> int \<Rightarrow> string \<Rightarrow> 'r list \<Rightarrow> 'r files \<Rightarrow> bool" where
  "flat_ok prefix org date rows fs \<longleftrightarrow>
     (flat_path prefix org date \<in> paths fs \<longrightarrow> map_of fs (flat_path prefix org date) = Some (Parquet rows))"

lemma flat_ok_cong:
  "(\<And>p. take 3 p = org_prefix prefix org \<Longrightarrow> map_of fs' p = map_of fs p) \<Longrightarrow>
   flat_ok prefix org date rows fs' = flat_ok prefix org date rows fs"
  by (simp add: flat_ok_def paths_iff)

lemma holds_flat_ok: "holds prefix org date fs rows \<Longrightarrow> flat_ok prefix org date rows fs"
  by (auto simp: holds_def flat_ok_def)

definition deletes_all :: "backend \<Rightarrow> bool" where
  "deletes_all be \<longleftrightarrow> can_list be \<and> (\<forall>p. deletes be p)"

lemma archive_org_frame:
  assumes "archive_org env be prefix date rows org fs = (res, fs')"
  shows "take 3 p \<noteq> org_prefix prefix org \<longrightarrow> map_of fs' p = map_of fs p" "dict_ok fs \<longrightarrow> dict_ok fs'"
proof -
  let ?fs1 = "snd (clean_dir be (get_chunk_dir prefix org date) (0, fs))"
  have "take 3 p \<noteq> org_prefix prefix org \<longrightarrow> map_of ?fs1 p = map_of fs p" "dict_ok fs \<longrightarrow> dict_ok ?fs1"
    by (auto simp: snd_clean_dir map_of_without dict_ok_without)
  then show "take 3 p \<noteq> org_prefix prefix org \<longrightarrow> map_of fs' p = map_of fs p" "dict_ok fs \<longrightarrow> dict_ok fs'"
    using assms stream_frame [of env prefix org date _ "[r \<leftarrow> rows. org_of env r = org]" "[]" "header_bytes env" 0 0 ?fs1, where p = p]
    by (auto simp: archive_org_def Let_def split: if_splits sum.splits prod.splits)
qed

lemma archive_org_effect:
  assumes "untorn env" "deletes_all be" "flat_ok prefix org date (day_rows (org_of env) rows org) fs"
    and "archive_org env be prefix date rows org fs = (res, fs')"
  shows "flat_ok prefix org date (day_rows (org_of env) rows org) fs'"
    and "res = Inr b \<Longrightarrow> holds prefix org date fs' (day_rows (org_of env) rows org)"
proof -
  let ?fs1 = "snd (clean_dir be (get_chunk_dir prefix org date) (0, fs))" and ?R = "day_rows (org_of env) rows org"
  have "flat_ok prefix org date ?R fs' \<and> (\<forall>b. res = Inr b \<longrightarrow> holds prefix org date fs' ?R)"
  proof (cases "storage_exists (flat_path prefix org date) fs")
    case True
    then show ?thesis using assms(3,4) by (auto simp: archive_org_def storage_exists_def flat_ok_def holds_def paths_iff)
  next
    case False
    then have n: "flat_path prefix org date \<notin> paths ?fs1"
      by (auto simp: storage_exists_def snd_clean_dir paths_without paths_iff map_of_without)
    have c: "in_chunks prefix org date ?fs1 0 []"
      using assms(2) by (auto simp: in_chunks_0 snd_clean_dir paths_without deletes_all_def)
    show ?thesis
    proof (cases "get_archive_chunk_bytes (float_of env) (DUCKDB_MEMORY_LIMIT env)")
      case (Inl e)
      then show ?thesis using assms(4) False n by (auto simp: archive_org_def Let_def flat_ok_def)
    next
      case (Inr limit)
      obtain r fs2 where s: "stream_rows env prefix org date limit ?R [] (header_bytes env) 0 0 ?fs1 = (r, fs2)" by fastforce
      have "fs' = fs2" "\<forall>b. res = Inr b \<longrightarrow> (\<exists>cn. r = Inr cn)"
        using assms(4) False Inr s by (auto simp: archive_org_def Let_def day_rows_def split: sum.splits prod.splits)
      then show ?thesis
        using stream_effect [OF assms(1) n c s] holds_flat_ok [of prefix org date fs2 ?R]
        by (auto simp: flat_ok_def split: sum.splits)
    qed
  qed
  then show "flat_ok prefix org date ?R fs'" "res = Inr b \<Longrightarrow> holds prefix org date fs' ?R" by auto
qed

lemma org_prefix_inj [simp]: "org_prefix prefix org = org_prefix prefix org' \<longleftrightarrow> org = org'"
  by (simp add: org_prefix_def)

lemma archive_orgs_effect:
  assumes "untorn env" "deletes_all be"
    and "flat_ok prefix org date (day_rows (org_of env) rows org) fs" "archive_orgs env be prefix date rows orgs fs = (res, fs')"
  shows "flat_ok prefix org date (day_rows (org_of env) rows org) fs' \<and>
    (holds prefix org date fs (day_rows (org_of env) rows org) \<or> org \<in> set orgs \<longrightarrow> (\<exists>fl. res = Inr fl) \<longrightarrow>
       holds prefix org date fs' (day_rows (org_of env) rows org)) \<and> (dict_ok fs \<longrightarrow> dict_ok fs')"
  using assms(3-)
proof (induction orgs arbitrary: fs res fs')
  case (Cons o' orgs)
  let ?R = "day_rows (org_of env) rows org"
  obtain r fs1 where a: "archive_org env be prefix date rows o' fs = (r, fs1)" by fastforce
  have ok: "flat_ok prefix org date ?R fs1 \<and> ((\<exists>b. r = Inr b) \<longrightarrow>
      holds prefix org date fs ?R \<or> org = o' \<longrightarrow> holds prefix org date fs1 ?R) \<and> (dict_ok fs \<longrightarrow> dict_ok fs1)"
  proof (cases "o' = org")
    case True
    then show ?thesis
      using archive_org_effect [OF assms(1,2) Cons.prems(1) a [unfolded True]] archive_org_frame(2) [OF a] by auto
  next
    case False
    then have same: "map_of fs1 p = map_of fs p" if "take 3 p = org_prefix prefix org" for p
      using archive_org_frame(1) [OF a, of p] that by simp
    then show ?thesis
      using Cons.prems(1) in_chunks_cong(2) [OF same] flat_ok_cong [OF same] archive_org_frame(2) [OF a] False by auto
  qed
  show ?case
  proof (cases r)
    case (Inl e)
    then show ?thesis using Cons.prems(2) a ok by auto
  next
    case (Inr b)
    obtain r2 fs2 where r2: "archive_orgs env be prefix date rows orgs fs1 = (r2, fs2)" by fastforce
    have "fs' = fs2" "(\<exists>fl. res = Inr fl) \<longrightarrow> (\<exists>fl. r2 = Inr fl)"
      using Cons.prems(2) a Inr r2 by (auto split: sum.splits)
    then show ?thesis using Cons.IH [of fs1 r2 fs2] ok r2 Inr by auto
  qed
qed simp

section \<open>Runs of the workflow\<close>

text \<open>
  What a run may not do: leave a torn file. Writes, statements and the setting may fail in every other way.
\<close>

definition steady :: "backend \<Rightarrow> ('r \<Rightarrow> int) \<Rightarrow> int \<Rightarrow> 'r archive_env \<Rightarrow> bool" where
  "steady be oo org env \<longleftrightarrow> untorn env \<and> cold_backend env = Some be \<and> deletes_all be \<and> org_of env = oo \<and> eligible env org"

definition archive_runs :: "'r archive_env list \<Rightarrow> string \<Rightarrow> string \<Rightarrow> 'r cold_state \<Rightarrow> 'r cold_state" where
  "archive_runs envs name table st = fold (\<lambda>env st. snd (archive_and_swap_partition env name table st)) envs st"

definition kept_or_archived ::
    "('r \<Rightarrow> int) \<Rightarrow> string \<Rightarrow> string \<Rightarrow> string \<Rightarrow> int \<Rightarrow> 'r list \<Rightarrow> 'r cold_state \<Rightarrow> bool" where
  "kept_or_archived oo name table date org rows st \<longleftrightarrow>
     dict_ok (cold_files st) \<and> dict_ok (pg_tables st) \<and> flat_ok table org date rows (cold_files st) \<and>
     (case map_of (pg_tables st) name of
        Some t \<Rightarrow> day_rows oo (tb_rows t) org = rows
      | None \<Rightarrow> holds table org date (cold_files st) rows)"

lemma detach_keeps:
  assumes "detach_partition env name parent k pg = (r, pg')"
  shows "dict_ok pg \<longrightarrow> dict_ok pg'" "map_option tb_rows (map_of pg' name) = map_option tb_rows (map_of pg name)"
  using assms
  by (auto simp: detach_partition_def Let_def mark_detached_def
      split: detach_end.splits prod.splits pg_result.splits if_splits option.splits)

lemma archive_partition_effect:
  assumes s: "steady be oo org env" and k: "kept_or_archived oo name table date org rows st"
    and a: "archive_partition_per_org env name date table (pg_tables st) (cold_files st) = (res, fs)"
    and on: "DUCKDB_ENABLED env" and ne: "rows \<noteq> []"
  shows "flat_ok table org date rows fs" "dict_ok fs" "res = Inr fl \<Longrightarrow> holds table org date fs rows"
    and "map_of (pg_tables st) name = None \<Longrightarrow> holds table org date fs rows"
proof -
  have "flat_ok table org date rows fs \<and> dict_ok fs \<and> ((\<exists>fl. res = Inr fl) \<longrightarrow> holds table org date fs rows) \<and>
     (map_of (pg_tables st) name = None \<longrightarrow> holds table org date fs rows)"
  proof (cases "map_of (pg_tables st) name")
    case None
    then show ?thesis using s k a on by (auto simp: archive_partition_per_org_def steady_def kept_or_archived_def)
  next
    case (Some t)
    have R: "day_rows (org_of env) (tb_rows t) org = rows" using s k Some by (simp add: steady_def kept_or_archived_def)
    then have "org \<in> org_of env ` set (tb_rows t)" using ne by (auto simp: day_rows_def filter_empty_conv)
    then have o: "org \<in> set [o' \<leftarrow> sort (remdups (map (org_of env) (tb_rows t))). eligible env o']"
      using s by (simp add: steady_def)
    have "archive_orgs env be table date (tb_rows t)
        [o' \<leftarrow> sort (remdups (map (org_of env) (tb_rows t))). eligible env o'] (cold_files st) = (res, fs)"
      using a on s Some by (simp add: archive_partition_per_org_def steady_def)
    from archive_orgs_effect [OF _ _ _ this, of org, unfolded R]
    show ?thesis using s k o Some by (auto simp: steady_def kept_or_archived_def)
  qed
  then show "flat_ok table org date rows fs" "dict_ok fs" "res = Inr fl \<Longrightarrow> holds table org date fs rows"
    "map_of (pg_tables st) name = None \<Longrightarrow> holds table org date fs rows" by auto
qed

lemma archive_step_keeps:
  assumes "steady be oo org env" "date_part name = Some date" "rows \<noteq> []" "kept_or_archived oo name table date org rows st"
  shows "kept_or_archived oo name table date org rows (snd (archive_and_swap_partition env name table st))"
proof (cases "DUCKDB_ENABLED env")
  case on: True
  obtain res fs where a: "archive_partition_per_org env name date table (pg_tables st) (cold_files st) = (res, fs)" by fastforce
  note e = archive_partition_effect [OF assms(1,4) a on assms(3)]
  show ?thesis
  proof (cases res)
    case (Inl x)
    then show ?thesis
      using assms(2,4) e(1,2,4) a on
      by (cases "map_of (pg_tables st) name")
         (simp_all add: archive_and_swap_partition_def kept_or_archived_def del: map_of_eq_Some_iff)
  next
    case (Inr fl)
    have h: "holds table org date fs rows" using e(3) Inr by simp
    obtain r pg where d: "detach_partition env name table 3 (pg_tables st) = (r, pg)" by fastforce
    have "dict_ok pg" "map_option tb_rows (map_of pg name) = map_option tb_rows (map_of (pg_tables st) name)"
      using detach_keeps [OF d] assms(4) by (auto simp: kept_or_archived_def)
    then have pg: "dict_ok pg" "case map_of pg name of Some t \<Rightarrow> day_rows oo (tb_rows t) org = rows | None \<Rightarrow> True"
      using assms(4)
      by (cases "map_of (pg_tables st) name"; cases "map_of pg name";
          simp add: kept_or_archived_def del: map_of_eq_Some_iff)+
    show ?thesis
      using assms(2) a on Inr d pg h e(1,2)
      by (cases r; cases "map_of pg name";
          simp add: archive_and_swap_partition_def kept_or_archived_def drop_cold_partition_def distinct_delete
            delete_conv' del: map_of_eq_Some_iff)+
  qed
qed (use assms in \<open>simp add: archive_and_swap_partition_def\<close>)

lemma archive_runs_keep:
  assumes "\<forall>env\<in>set envs. steady be oo org env" "date_part name = Some date" "rows \<noteq> []"
    and "kept_or_archived oo name table date org rows st"
  shows "kept_or_archived oo name table date org rows (archive_runs envs name table st)"
  using assms unfolding archive_runs_def
proof (induction envs arbitrary: st)
  case (Cons env envs)
  have "kept_or_archived oo name table date org rows (snd (archive_and_swap_partition env name table st))"
    using Cons.prems by (intro archive_step_keeps [of be]) auto
  then show ?case using Cons.IH Cons.prems by simp
qed simp

text \<open>What a query of the day reads.\<close>

definition cold_day :: "backend \<Rightarrow> string \<Rightarrow> int \<Rightarrow> string \<Rightarrow> 'r files \<Rightarrow> 'r list" where
  "cold_day be prefix org date fs =
     concat (map (\<lambda>p. rows_of (the (map_of fs p)))
       [p \<leftarrow> enumerate_org_parquet_files be prefix org None fs.
          p = flat_path prefix org date \<or> (take 4 p = get_chunk_dir prefix org date \<and> length p = 5)])"

lemma holds_cold_day:
  assumes "holds prefix org date fs rows" "dict_ok fs" "can_list be"
  shows "mset (cold_day be prefix org date fs) = mset rows"
proof -
  let ?P = "\<lambda>p. p = flat_path prefix org date \<or> (take 4 p = get_chunk_dir prefix org date \<and> length p = 5)"
  let ?S = "{p \<in> set (enumerate_org_parquet_files be prefix org None fs). ?P p}"
  have dir: "take 4 p = get_chunk_dir prefix org date \<and> length p = 5 \<longleftrightarrow> (\<exists>x. p = get_chunk_dir prefix org date @ [x])" for p
  proof
    assume p: "take 4 p = get_chunk_dir prefix org date \<and> length p = 5"
    then have "length (drop 4 p) = 1" by simp
    then obtain x where "drop 4 p = [x]" by (auto simp only: One_nat_def length_Suc_conv length_0_conv)
    with p show "\<exists>x. p = get_chunk_dir prefix org date @ [x]" by (metis append_take_drop_id)
  qed auto
  have S: "p \<in> ?S \<longleftrightarrow> p \<in> paths fs \<and> (p = flat_path prefix org date \<or>
      (flat_path prefix org date \<notin> paths fs \<and> (\<exists>x. p = get_chunk_dir prefix org date @ [x] \<and> is_parquet x)))" for p
    unfolding mem_Collect_eq dir using assms(3)
    by (auto simp: in_enumerate in_range_def get_org_cold_storage_path_def get_chunk_dir_def)
  have "mset (cold_day be prefix org date fs) = (\<Sum>p\<in>?S. mset (rows_of (the (map_of fs p))))"
    by (simp add: cold_day_def mset_concat sum_list_distinct_conv_sum_set distinct_enumerate assms(2) comp_def)
  also have "\<dots> = mset rows"
  proof (cases "map_of fs (flat_path prefix org date)")
    case (Some x)
    then have "?S = {flat_path prefix org date}" unfolding set_eq_iff S by (auto simp: paths_iff)
    then show ?thesis using assms(1) Some by (auto simp: holds_def paths_iff)
  next
    case None
    then obtain c f where c: "\<And>x. get_chunk_dir prefix org date @ [x] \<in> paths fs \<longleftrightarrow>
          (\<exists>i<c. get_chunk_dir prefix org date @ [x] = get_chunk_path prefix org date i)"
      and f: "\<forall>i<c. map_of fs (get_chunk_path prefix org date i) = Some (Parquet (f i))" "concat (map f [0..<c]) = rows"
      using assms(1) by (auto simp: holds_def in_chunks_def)
    have "?S = get_chunk_path prefix org date ` {..<c}"
      unfolding set_eq_iff S using None c f(1)
      by (auto simp: paths_iff get_chunk_path_def) (simp add: is_parquet_def ends_with_def)
    then have "(\<Sum>p\<in>?S. mset (rows_of (the (map_of fs p)))) = (\<Sum>i<c. mset (f i))"
      using f(1) by (simp add: sum.reindex inj_on_def)
    then show ?thesis
      using f(2) by (simp add: mset_concat sum_list_distinct_conv_sum_set comp_def atLeast0LessThan flip: f(2))
  qed
  finally show ?thesis .
qed

section \<open>Progress and bounds\<close>

definition healthy :: "string \<Rightarrow> 'r archive_env \<Rightarrow> bool" where
  "healthy name env \<longleftrightarrow> DUCKDB_ENABLED env \<and> (\<forall>p. write_file env p = Written) \<and>
     (\<exists>limit. get_archive_chunk_bytes (float_of env) (DUCKDB_MEMORY_LIMIT env) = Inr limit) \<and>
     (detach_plain env name = PgOk \<or> detach_plain env name = PgGone) \<and> drop_works env name"

lemma flush_healthy:
  assumes "\<forall>p. write_file env p = Written"
  shows "\<exists>cn. fst (flush_csv_to_parquet env prefix org date final buf c n fs) = Inr cn"
  using assms by (simp add: flush_csv_to_parquet_def Let_def)

lemma stream_healthy:
  assumes "\<forall>p. write_file env p = Written"
  shows "\<exists>cn. fst (stream_rows env prefix org date limit lines buf bytes c n fs) = Inr cn"
  using assms
proof (induction env prefix org date limit lines buf bytes c n fs rule: stream_rows.induct)
  case (2 env prefix org date limit line lines buf bytes c n fs)
  obtain c1 n1 fs1 where f: "flush_csv_to_parquet env prefix org date False (buf @ [line]) c n fs = (Inr (c1, n1), fs1)"
    using flush_healthy [OF 2(3)] by (metis prod.collapse)
  show ?case
    using 2 f by (auto simp: Let_def)
next
  case (1 env prefix org date limit buf bytes c n fs)
  then show ?case using flush_healthy [of env prefix org date True buf c n fs] by simp
qed

lemma archive_orgs_healthy:
  assumes "\<forall>p. write_file env p = Written" "get_archive_chunk_bytes (float_of env) (DUCKDB_MEMORY_LIMIT env) = Inr limit"
  shows "\<exists>fl. fst (archive_orgs env be prefix date rows orgs fs) = Inr fl"
proof (induction orgs arbitrary: fs)
  case (Cons org orgs)
  have "\<exists>b fs1. archive_org env be prefix date rows org fs = (Inr b, fs1)"
    using stream_healthy [OF assms(1), of prefix org date limit "[r \<leftarrow> rows. org_of env r = org]" "[]" "header_bytes env" 0 0
        "snd (clean_dir be (get_chunk_dir prefix org date) (0, fs))"] assms(2)
    by (auto simp: archive_org_def Let_def split: sum.split prod.split)
  then obtain b fs1 where a: "archive_org env be prefix date rows org fs = (Inr b, fs1)" by blast
  show ?case using Cons [of fs1] a by (auto split: sum.splits prod.splits)
qed simp

lemma detach_waits: "detach_attempts 3 answer 0 = (e, waits) \<Longrightarrow> waits \<in> {[], [2], [2, 4]}"
  by (auto simp: numeral_3_eq_3 split: pg_result.splits)

text \<open>Lines are buffered until the limit: without its last line a buffer weighs less than the limit.\<close>

definition bounded_file :: "'r archive_env \<Rightarrow> int \<Rightarrow> 'r list \<Rightarrow> bool" where
  "bounded_file env limit rows \<longleftrightarrow> rows \<noteq> [] \<and> int (length rows) \<le> ARCHIVE_CHUNK_ROWS \<and>
     header_bytes env + sum_list (map (line_bytes env) (butlast rows)) < limit"

lemma flush_bounded:
  assumes "flush_csv_to_parquet env prefix org date final buf c n fs = (r, fs')" "bounded_file env limit buf"
    and "map_of fs' p = Some (Parquet rows)" "map_of fs' p \<noteq> map_of fs p"
  shows "bounded_file env limit rows"
  using assms by (auto simp: flush_csv_to_parquet_def Let_def split: write_outcome.splits if_splits)

lemma stream_bounded:
  assumes "stream_rows env prefix org date limit lines buf bytes c n fs = (r, fs')"
    and "bytes = header_bytes env + sum_list (map (line_bytes env) buf)" "bytes < limit" "header_bytes env < limit"
    and "int (length buf) < ARCHIVE_CHUNK_ROWS" "\<forall>l. 0 \<le> line_bytes env l"
    and "map_of fs' p = Some (Parquet rows)" "map_of fs' p \<noteq> map_of fs p"
  shows "bounded_file env limit rows"
  using assms
proof (induction env prefix org date limit lines buf bytes c n fs rule: stream_rows.induct)
  case (1 env prefix org date limit buf bytes c n fs)
  show ?case
  proof (cases "buf = []")
    case False
    then obtain b l where [simp]: "buf = b @ [l]" by (cases buf rule: rev_cases) auto
    have "bounded_file env limit buf" using 1 by (auto simp: bounded_file_def) (smt (verit))
    moreover have "flush_csv_to_parquet env prefix org date True buf c n fs = (r, fs')" using 1 False by simp
    ultimately show ?thesis using flush_bounded 1(7,8) by metis
  qed (use 1 in auto)
next
  case (2 env prefix org date limit line lines buf bytes c n fs)
  let ?big = "bytes + line_bytes env line \<ge> limit \<or> int (length (buf @ [line])) \<ge> ARCHIVE_CHUNK_ROWS"
  obtain r1 fs1 where f: "flush_csv_to_parquet env prefix org date False (buf @ [line]) c n fs = (r1, fs1)" by fastforce
  have b: "bounded_file env limit (buf @ [line])" using 2(4,5,7) by (simp add: bounded_file_def)
  show ?case
  proof (cases ?big)
    case False
    then show ?thesis using 2 by (auto simp: Let_def add.assoc)
  next
    case True
    show ?thesis
    proof (cases "map_of fs1 p = map_of fs' p")
      case True
      then show ?thesis using flush_bounded [OF f b, of p rows] 2(9,10) by simp
    next
      case neq: False
      show ?thesis
      proof (cases r1)
        case (Inl e)
        then show ?thesis using 2(3) True f neq by (auto simp: Let_def)
      next
        case (Inr cn)
        obtain c1 n1 where [simp]: "cn = (c1, n1)" by (cases cn)
        have "stream_rows env prefix org date limit lines [] (header_bytes env) c1 n1 fs1 = (r, fs')"
          using 2(3) True f Inr by (auto simp: Let_def)
        then show ?thesis
          using 2(1) [OF refl refl True f [symmetric] Inr \<open>cn = (c1, n1)\<close> [symmetric]] 2(6,8,9) neq
          by (simp add: ARCHIVE_CHUNK_ROWS_def)
      qed
    qed
  qed
qed

section \<open>Properties\<close>

text \<open>
  Property C9. Archiving loses no row: through any number of runs of the workflow on a partition, in which
  writes, statements and settings fail in any way that leaves no torn file, the rows of an eligible
  organization are still in the table, or the table is gone and the cold storage of the day holds exactly
  these rows, in one file or over chunks.
\<close>

theorem archiving_loses_no_row:
  assumes "date_part name = Some date" "dict_ok (cold_files st)" "dict_ok (pg_tables st)"
    and "map_of (pg_tables st) name = Some t" "day_rows oo (tb_rows t) org \<noteq> []"
    and "flat_path table org date \<notin> paths (cold_files st)" "\<forall>env\<in>set envs. steady be oo org env" "envs \<noteq> []"
  shows "case map_of (pg_tables (archive_runs envs name table st)) name of
      Some t' \<Rightarrow> day_rows oo (tb_rows t') org = day_rows oo (tb_rows t) org
    | None \<Rightarrow> mset (cold_day be table org date (cold_files (archive_runs envs name table st))) = mset (day_rows oo (tb_rows t) org)"
proof -
  let ?R = "day_rows oo (tb_rows t) org" and ?st = "archive_runs envs name table st"
  have "kept_or_archived oo name table date org ?R st"
    using assms(2-4,6) by (simp add: kept_or_archived_def flat_ok_def del: map_of_eq_Some_iff)
  then have k: "kept_or_archived oo name table date org ?R ?st"
    using archive_runs_keep [OF assms(7,1,5)] by blast
  have "can_list be" using assms(7,8) by (cases envs) (auto simp: steady_def deletes_all_def)
  with k show ?thesis
    by (cases "map_of (pg_tables ?st) name") (auto simp: kept_or_archived_def holds_cold_day simp del: map_of_eq_Some_iff)
qed

text \<open>Rows are pairs of an organization and a payload; two lines fill a chunk.\<close>

definition archive_demo :: "(path \<Rightarrow> write_outcome) \<Rightarrow> (int \<times> int) archive_env" where
  "archive_demo w =
     \<lparr>DUCKDB_ENABLED = True, cold_backend = Some fs_backend, DUCKDB_MEMORY_LIMIT = [], float_of = (\<lambda>_. None),
      billing_on = False, paid_org = (\<lambda>_. False), org_of = fst, header_bytes = 20, line_bytes = (\<lambda>_. 40000000),
      write_file = w, detach_try = (\<lambda>_ n. if n = 0 then PgDeadlock else PgOk), detach_plain = (\<lambda>_. PgOk), drop_works = (\<lambda>_. True)\<rparr>"

definition demo_day :: "(int \<times> int) cold_state" where
  "demo_day =
     \<lparr>pg_tables = [(''logs_logevent_20260101'', \<lparr>tb_parent = Some ''logs_logevent'', tb_rows = [(1, 10), (2, 20), (1, 11), (1, 12)]\<rparr>)],
      cold_files = []\<rparr>"

definition second_chunk_fails :: "path \<Rightarrow> write_outcome" where
  "second_chunk_fails p = (if p = get_chunk_path ''logs_logevent'' 1 ''20260101'' 1 then Unwritten else Written)"

theorem archiving_loses_no_row_witness:
  "map_of (pg_tables (archive_runs [archive_demo second_chunk_fails, archive_demo (\<lambda>_. Written)] ''logs_logevent_20260101''
      ''logs_logevent'' demo_day)) ''logs_logevent_20260101'' = None \<and>
   mset (cold_day fs_backend ''logs_logevent'' 1 ''20260101'' (cold_files (archive_runs
      [archive_demo second_chunk_fails, archive_demo (\<lambda>_. Written)] ''logs_logevent_20260101'' ''logs_logevent'' demo_day)))
     = {#(1, 10), (1, 11), (1, 12)#}"
proof -
  have gone: "map_of (pg_tables (archive_runs [archive_demo second_chunk_fails, archive_demo (\<lambda>_. Written)] ''logs_logevent_20260101''
      ''logs_logevent'' demo_day)) ''logs_logevent_20260101'' = None" by code_simp
  have 1: "date_part ''logs_logevent_20260101'' = Some ''20260101''" by code_simp
  have 2: "steady fs_backend fst 1 (archive_demo w)" if "\<forall>p. w p \<noteq> Torn" for w
    using that by (simp add: steady_def untorn_def deletes_all_def archive_demo_def fs_backend_def eligible_def)
  note archiving_loses_no_row [OF 1, of demo_day _ fst 1 "''logs_logevent''" "[archive_demo second_chunk_fails, archive_demo (\<lambda>_. Written)]" fs_backend,
      unfolded gone]
  from this [of "snd (hd (pg_tables demo_day))"] gone show ?thesis
    using 2 [of second_chunk_fails] 2 [of "\<lambda>_. Written"]
    by (simp add: demo_day_def day_rows_def paths_def second_chunk_fails_def)
qed

text \<open>
  Property C40. Archiving gets done: a run in which nothing on its way fails ends with success, whatever the
  concurrent attempts to detach answered; the table is dropped, and every eligible organization that has no flat
  file of the day beforehand has exactly its rows in cold storage. Nothing fails means that DuckDB and a storage
  backend are there, every write goes through whole, the memory limit parses, the plain detach succeeds or finds
  the table gone, the drop succeeds, and the storage deletes what it is asked to delete. An organization that has
  a flat file is skipped and its file taken for the archived day, so a torn file of an earlier crash loses its
  rows in such a run (\<open>torn_file_counts_as_archived\<close>).
\<close>

theorem archiving_completes:
  assumes "date_part name = Some date" "dict_ok (cold_files st)" "dict_ok (pg_tables st)"
    and "map_of (pg_tables st) name = Some t" "healthy name env" "cold_backend env = Some be" "deletes_all be"
  defines "r table \<equiv> archive_and_swap_partition env name table st"
  shows "fst (r table) = Inr True \<and> map_of (pg_tables (snd (r table))) name = None \<and>
    (\<forall>org. eligible env org \<and> day_rows (org_of env) (tb_rows t) org \<noteq> [] \<and> flat_path table org date \<notin> paths (cold_files st) \<longrightarrow>
       mset (cold_day be table org date (cold_files (snd (r table)))) = mset (day_rows (org_of env) (tb_rows t) org))"
proof -
  have on: "DUCKDB_ENABLED env" and u: "untorn env" using assms(5) by (auto simp: healthy_def untorn_def)
  obtain fl fs where a: "archive_partition_per_org env name date table (pg_tables st) (cold_files st) = (Inr fl, fs)"
    using archive_orgs_healthy [of env _ be table date "tb_rows t"
        "[o' \<leftarrow> sort (remdups (map (org_of env) (tb_rows t))). eligible env o']" "cold_files st"] assms(4-6) on
    by (cases "archive_orgs env be table date (tb_rows t)
        [o' \<leftarrow> sort (remdups (map (org_of env) (tb_rows t))). eligible env o'] (cold_files st)")
       (auto simp: archive_partition_per_org_def healthy_def simp del: map_of_eq_Some_iff)
  have "\<exists>ws pg. detach_partition env name table 3 (pg_tables st) = (Inr ws, pg)"
    using assms(5) by (auto simp: detach_partition_def healthy_def Let_def split: detach_end.split prod.split)
  then obtain ws pg where d: "detach_partition env name table 3 (pg_tables st) = (Inr ws, pg)" by blast
  have r: "r table = (Inr True, \<lparr>pg_tables = AList.delete name pg, cold_files = fs\<rparr>)"
    using assms(1,5) on a d by (simp add: r_def archive_and_swap_partition_def drop_cold_partition_def healthy_def)
  have "mset (cold_day be table org date fs) = mset (day_rows (org_of env) (tb_rows t) org)"
    if "eligible env org" "day_rows (org_of env) (tb_rows t) org \<noteq> []" "flat_path table org date \<notin> paths (cold_files st)" for org
  proof -
    have s: "steady be (org_of env) org env" using that(1) u assms(6,7) by (simp add: steady_def)
    have k: "kept_or_archived (org_of env) name table date org (day_rows (org_of env) (tb_rows t) org) st"
      using assms(2-4) that(3) by (simp add: kept_or_archived_def flat_ok_def del: map_of_eq_Some_iff)
    show ?thesis
      using archive_partition_effect(2,3) [OF s k a on that(2)] assms(7) by (auto simp: deletes_all_def intro: holds_cold_day)
  qed
  then show ?thesis by (simp add: r delete_conv')
qed

theorem archiving_completes_witness:
  "fst (archive_and_swap_partition (archive_demo (\<lambda>_. Written)) ''logs_logevent_20260101'' ''logs_logevent'' demo_day) = Inr True \<and>
   mset (cold_day fs_backend ''logs_logevent'' 2 ''20260101'' (cold_files (snd
     (archive_and_swap_partition (archive_demo (\<lambda>_. Written)) ''logs_logevent_20260101'' ''logs_logevent'' demo_day)))) = {#(2, 20)#}"
proof -
  have 1: "date_part ''logs_logevent_20260101'' = Some ''20260101''" by code_simp
  have "get_archive_chunk_bytes (\<lambda>_. None) [] = Inr 67108864" by code_simp
  then have 2: "healthy ''logs_logevent_20260101'' (archive_demo (\<lambda>_. Written))"
    by (simp add: healthy_def archive_demo_def)
  have 3: "deletes_all fs_backend" by (simp add: deletes_all_def fs_backend_def)
  show ?thesis
    using archiving_completes [OF 1 _ _ _ 2 _ 3, of demo_day "snd (hd (pg_tables demo_day))" "''logs_logevent''"]
    by (simp add: demo_day_def archive_demo_def day_rows_def paths_def eligible_def)
qed

text \<open>
  Further property. Archiving is bounded: every file that archiving an organization writes holds at least one and
  at most 50,000 rows, and without its last line the buffer it was made from is smaller than the limit derived
  from the memory setting.
\<close>

theorem archive_files_are_bounded:
  assumes "get_archive_chunk_bytes (float_of env) (DUCKDB_MEMORY_LIMIT env) = Inr limit"
    and "header_bytes env < limit" "\<forall>l. 0 \<le> line_bytes env l"
    and "map_of (snd (archive_org env be prefix date rows org fs)) p = Some (Parquet new)"
    and "map_of fs p \<noteq> Some (Parquet new)"
  shows "bounded_file env limit new"
proof -
  let ?fs1 = "snd (clean_dir be (get_chunk_dir prefix org date) (0, fs))"
  obtain r fs2 where s: "stream_rows env prefix org date limit [r \<leftarrow> rows. org_of env r = org] [] (header_bytes env) 0 0 ?fs1 = (r, fs2)"
    by fastforce
  have ne: "\<not> storage_exists (flat_path prefix org date) fs" using assms(4,5) by (auto simp: archive_org_def)
  then have "map_of fs2 p = Some (Parquet new)"
    using assms(1,4) s by (auto simp: archive_org_def Let_def split: sum.splits prod.splits)
  moreover have "map_of ?fs1 p \<noteq> Some (Parquet new)" using assms(5) by (auto simp: snd_clean_dir map_of_without)
  ultimately show ?thesis
    using stream_bounded [OF s] assms(2,3) by (simp add: ARCHIVE_CHUNK_ROWS_def)
qed

theorem archive_files_are_bounded_witness:
  "bounded_file (archive_demo (\<lambda>_. Written)) 67108864 [(1 :: int, 10 :: int), (1, 11)]"
proof (rule archive_files_are_bounded [where be = fs_backend and prefix = "''logs_logevent''" and date = "''20260101''"
      and rows = "[(1, 10), (2, 20), (1, 11), (1, 12)]" and org = 1 and fs = "[]" and p = "get_chunk_path ''logs_logevent'' 1 ''20260101'' 0"])
  show "get_archive_chunk_bytes (float_of (archive_demo (\<lambda>_. Written))) (DUCKDB_MEMORY_LIMIT (archive_demo (\<lambda>_. Written))) = Inr 67108864"
    by code_simp
  show "map_of (snd (archive_org (archive_demo (\<lambda>_. Written)) fs_backend ''logs_logevent'' ''20260101'' [(1, 10), (2, 20), (1, 11), (1, 12)] 1 []))
      (get_chunk_path ''logs_logevent'' 1 ''20260101'' 0) = Some (Parquet [(1, 10), (1, 11)])"
    by code_simp
qed (simp_all add: archive_demo_def)

lemma split_char_snoc: "d \<notin> set t \<Longrightarrow> split_char d (s @ d # t) = split_char d s @ [t]"
  by (induction s) (auto simp: split_char_plain split: list.splits)

lemma date_part_append:
  assumes "date_part table = None" "length s = 8" "list_all is_digit s"
  shows "date_part (table @ ''_'' @ s) = Some s"
proof -
  have "CHR ''_'' \<notin> set s" using assms(3) by (auto simp: list_all_iff is_digit_def)
  then have "split_char (CHR ''_'') (table @ ''_'' @ s) = split_char (CHR ''_'') table @ [s]"
    by (simp add: split_char_snoc)
  then show ?thesis using assms by (simp add: date_part_def find_append)
qed

text \<open>
  Further property. The partitions selected for archiving are exactly the tables named after the parent and a date
  whose first instant lies more than the hot days in the past.
\<close>

theorem old_partitions_are_selected:
  assumes "date_part table = None"
  shows "(name, d) \<in> set (get_partitions_older_than now table days pg) \<longleftrightarrow>
    name \<in> fst ` set pg \<and> (\<exists>s day. name = table @ ''_'' @ s \<and> length s = 8 \<and> list_all is_digit s \<and>
       strptime_date s = Some day \<and> d = day * US_PER_DAY \<and> d < now - days * US_PER_DAY)"
proof -
  have n: "starts_with (table @ ''_'') name \<and> length name = length table + 9 \<and> list_all is_digit (drop (length table + 1) name) \<longleftrightarrow>
      (\<exists>s. name = table @ ''_'' @ s \<and> length s = 8 \<and> list_all is_digit s)" for name
    by (auto simp: starts_with_iff)
  show ?thesis
    unfolding get_partitions_older_than_def Let_def in_map_filter set_sort set_filter set_map n
  proof
    assume "\<exists>x\<in>{x \<in> fst ` set pg. \<exists>s. x = table @ ''_'' @ s \<and> length s = 8 \<and> list_all is_digit s}.
        (case date_part x of None \<Rightarrow> None
         | Some d \<Rightarrow> (case strptime_date d of None \<Rightarrow> None
                       | Some day \<Rightarrow> if day * US_PER_DAY < now - days * US_PER_DAY then Some (x, day * US_PER_DAY) else None)) = Some (name, d)"
    then obtain x s where x: "x \<in> fst ` set pg" "x = table @ ''_'' @ s" "length s = 8" "list_all is_digit s"
      and c: "(case date_part x of None \<Rightarrow> None
         | Some d \<Rightarrow> (case strptime_date d of None \<Rightarrow> None
                       | Some day \<Rightarrow> if day * US_PER_DAY < now - days * US_PER_DAY then Some (x, day * US_PER_DAY) else None)) = Some (name, d)"
      by blast
    have "date_part x = Some s" unfolding x(2) by (rule date_part_append [OF assms x(3,4)])
    then obtain day where "strptime_date s = Some day" "d = day * US_PER_DAY" "d < now - days * US_PER_DAY" "name = x"
      using c by (auto split: option.splits if_splits)
    with x show "name \<in> fst ` set pg \<and> (\<exists>s day. name = table @ ''_'' @ s \<and> length s = 8 \<and> list_all is_digit s \<and>
        strptime_date s = Some day \<and> d = day * US_PER_DAY \<and> d < now - days * US_PER_DAY)"
      by blast
  qed (use date_part_append [OF assms] in \<open>auto intro!: bexI [of _ name]\<close>)
qed

theorem old_partitions_are_selected_witness:
  "(''logs_logevent_20260101'', 20454 * US_PER_DAY) \<in> set (get_partitions_older_than (20461 * US_PER_DAY + 1) ''logs_logevent'' 7 (pg_tables demo_day))"
proof -
  have "date_part ''logs_logevent'' = None" by code_simp
  moreover have "strptime_date ''20260101'' = Some 20454" "list_all is_digit ''20260101''" by code_simp+
  ultimately show ?thesis
    by (subst old_partitions_are_selected) (auto simp: demo_day_def intro!: exI [of _ "''20260101''"])
qed

section \<open>What the code does not do\<close>

text \<open>
  A torn flat file, which a crash while writing leaves on a file system, counts as an archived day: the
  next run skips the organization and drops the partition, and its rows are gone.
\<close>

definition flat_is_torn :: "path \<Rightarrow> write_outcome" where
  "flat_is_torn p = (if p = flat_path ''logs_logevent'' 2 ''20260101'' then Torn else Written)"

lemma torn_file_counts_as_archived:
  "(let st = archive_runs [archive_demo flat_is_torn, archive_demo (\<lambda>_. Written)] ''logs_logevent_20260101'' ''logs_logevent'' demo_day
    in pg_tables st = [] \<and> cold_day fs_backend ''logs_logevent'' 2 ''20260101'' (cold_files st) = [])"
  by code_simp

text \<open>With the feature enabled and no storage backend nothing is archived and the partition is dropped.\<close>

lemma no_backend_drops_partition:
  "archive_and_swap_partition ((archive_demo (\<lambda>_. Written))\<lparr>cold_backend := None\<rparr>) ''logs_logevent_20260101'' ''logs_logevent'' demo_day
     = (Inr True, \<lparr>pg_tables = [], cold_files = []\<rparr>)"
  by code_simp

text \<open>A limit with a unit and no number raises; the docstring says that what does not parse is \<open>None\<close>.\<close>

lemma bad_limit_raises: "parse_duckdb_memory_bytes (\<lambda>_. None) ''someMB'' = Inl ()"
  by code_simp

end
