(* ===== verification/Log_Query.thy ===== *)
theory Log_Query
  imports Cold_Archive Logs Access_Db
begin

text \<open>
  Reading logs from both tiers: \<open>apps/logs/api.py\<close>, with \<open>query_cold_parquet_files\<close> of
  \<open>glitchtip/cold_storage.py\<close> and the export of \<open>apps/logs/cold_storage.py\<close>.

  The hot tier is the table of log rows. A cold file holds the rows that were archived; what a query reads of
  one is its export, the columns as text. Ids are UUIDs; the engine of the cold tier compares their text.
  Arguments are the parsers that are not Python's (\<open>uuid\<close> input of PostgreSQL, JSON), the reading of an empty
  CSV cell, the outcome of the reads and the rounding of a time to milliseconds.
\<close>

section \<open>Text search\<close>

text \<open>
  \<open>LIKE\<close> with an optional escape character: PostgreSQL escapes with a backslash, DuckDB with nothing unless
  the statement says \<open>ESCAPE\<close>. \<open>ILIKE\<close> folds case.
\<close>

fun like :: "char option \<Rightarrow> string \<Rightarrow> string \<Rightarrow> bool" where
  "like e [] t = (t = [])"
| "like e (c # p) t =
     (if e = Some c then
        (case p of [] \<Rightarrow> False
         | d # p' \<Rightarrow> (case t of [] \<Rightarrow> False | x # t' \<Rightarrow> x = d \<and> like e p' t'))
      else if c = CHR ''%'' then like e p t \<or> (case t of [] \<Rightarrow> False | x # t' \<Rightarrow> like e (c # p) t')
      else (case t of [] \<Rightarrow> False | x # t' \<Rightarrow> (c = CHR ''_'' \<or> x = c) \<and> like e p t'))"

definition BACKSLASH :: char where "BACKSLASH = char_of (92 :: nat)"

fun escape_like :: "string \<Rightarrow> string" where
  "escape_like [] = []"
| "escape_like (c # s) =
     (if c = BACKSLASH \<or> c = CHR ''%'' \<or> c = CHR ''_'' then BACKSLASH # c # escape_like s else c # escape_like s)"

definition body_matches :: "char option \<Rightarrow> string \<Rightarrow> string \<Rightarrow> bool" where
  "body_matches e query body = like e (lower (''%'' @ escape_like query @ ''%'')) (lower body)"

section \<open>Rows\<close>

record log_event =
  le_id :: int
  le_trace_id :: "uuid option"
  le_org :: int
  le_project :: int
  le_span_id :: "int option"
  le_level :: int
  le_severity :: "int option"
  le_body :: string
  le_service :: string
  le_environment :: string
  le_host :: string
  le_data :: json

record cold_log =
  cl_id :: string
  cl_trace_id :: "string option"
  cl_org :: int
  cl_project :: int
  cl_span_id :: "string option"
  cl_level :: int
  cl_severity :: "int option"
  cl_body :: "string option"
  cl_service :: "string option"
  cl_environment :: "string option"
  cl_host :: "string option"
  cl_data :: "string option"

record log_env =
  ms_of :: "datetime \<Rightarrow> int"
  pg_uuid :: "string \<Rightarrow> uuid option"
  json_text :: "json \<Rightarrow> string"
  json_loads :: "string \<Rightarrow> json option"
  csv_cell :: "string \<Rightarrow> string option"
  log_backend :: "backend option"
  duckdb_on :: bool
  slot_free :: bool
  duck_reads :: "path \<Rightarrow> bool"
  HOT_STORAGE_DAYS :: int

text \<open>The columns of the export, \<open>LOGS_SELECT_SQL\<close>.\<close>

definition export_log :: "log_env \<Rightarrow> log_row \<Rightarrow> cold_log" where
  "export_log env r =
     \<lparr>cl_id = uuid_str (nat (lr_id r)), cl_trace_id = map_option uuid_str (lr_trace_id r), cl_org = lr_org r,
      cl_project = lr_project r, cl_span_id = map_option str_of_int (lr_span_id r), cl_level = lr_level r,
      cl_severity = lr_severity r, cl_body = csv_cell env (lr_body r), cl_service = csv_cell env (lr_service r),
      cl_environment = csv_cell env (lr_environment r), cl_host = csv_cell env (lr_host r),
      cl_data = csv_cell env (json_text env (JDict (lr_data r)))\<rparr>"

definition parse_json_field :: "(string \<Rightarrow> json option) \<Rightarrow> json \<Rightarrow> json" where
  "parse_json_field loads v =
     (case v of
        JDict kvs \<Rightarrow> JDict kvs
      | JStr s \<Rightarrow> (case loads s of None \<Rightarrow> JDict [] | Some x \<Rightarrow> x)
      | _ \<Rightarrow> JDict [])"

definition hot_log_event :: "log_env \<Rightarrow> log_row \<Rightarrow> log_event" where
  "hot_log_event env r =
     \<lparr>le_id = lr_id r, le_trace_id = lr_trace_id r, le_org = lr_org r, le_project = lr_project r, le_span_id = lr_span_id r,
      le_level = lr_level r, le_severity = lr_severity r, le_body = lr_body r, le_service = lr_service r,
      le_environment = lr_environment r, le_host = lr_host r,
      le_data = parse_json_field (json_loads env) (JDict (lr_data r))\<rparr>"

definition or_empty :: "string option \<Rightarrow> string" where
  "or_empty s = (case s of None \<Rightarrow> [] | Some t \<Rightarrow> t)"

text \<open>\<open>_row_to_log_event\<close> on a row of text; \<open>None\<close> is the \<open>ValueError\<close> of a text that is not a UUID or a number.\<close>

definition cold_log_event :: "log_env \<Rightarrow> cold_log \<Rightarrow> log_event option" where
  "cold_log_event env r =
     (let span = (case cl_span_id r of None \<Rightarrow> Some None | Some s \<Rightarrow> if s = [] then Some None else map_option Some (py_int 10 s));
          trace = (case cl_trace_id r of None \<Rightarrow> Some None | Some s \<Rightarrow> if s = [] then Some None else map_option Some (uuid_parse s))
      in case (span, uuid_parse (cl_id r), trace) of
           (Some sp, Some i, Some tr) \<Rightarrow>
             Some \<lparr>le_id = int i, le_trace_id = tr, le_org = cl_org r, le_project = cl_project r, le_span_id = sp,
               le_level = cl_level r, le_severity = cl_severity r, le_body = or_empty (cl_body r),
               le_service = or_empty (cl_service r), le_environment = or_empty (cl_environment r), le_host = or_empty (cl_host r),
               le_data = (case cl_data r of None \<Rightarrow> parse_json_field (json_loads env) JNone
                                          | Some s \<Rightarrow> parse_json_field (json_loads env) (JStr s))\<rparr>
         | _ \<Rightarrow> None)"

section \<open>Filters\<close>

record log_filter =
  f_projects :: "int list option"
  f_levels :: "int list option"
  f_service :: "string option"
  f_environment :: "string option"
  f_host :: "string option"
  f_trace :: "string option"
  f_query :: "string option"

datatype log_error = SqlError | ReadError | RowError | CursorError | Denied api_error

definition given :: "'a list option \<Rightarrow> ('a list \<Rightarrow> bool) \<Rightarrow> bool" where
  "given x test = (case x of None \<Rightarrow> True | Some v \<Rightarrow> v \<noteq> [] \<longrightarrow> test v)"

text \<open>\<open>_build_hot_where\<close>; \<open>Inl\<close> is the error of the database for a trace that is not a UUID.\<close>

definition hot_where ::
    "log_env \<Rightarrow> int \<Rightarrow> datetime \<Rightarrow> datetime \<Rightarrow> log_filter \<Rightarrow> int option \<Rightarrow> log_error + (log_row \<Rightarrow> bool)" where
  "hot_where env org start_dt end_dt f cursor =
     (let (start_uuid, end_uuid) = get_range_for_date (ms_of env) start_dt end_dt in
      if \<not> given (f_trace f) (\<lambda>t. pg_uuid env t \<noteq> None) then Inl SqlError
      else Inr (\<lambda>r. lr_org r = org \<and> start_uuid \<le> lr_id r \<and> lr_id r < end_uuid \<and>
        given (f_projects f) (\<lambda>ps. lr_project r \<in> set ps) \<and> given (f_levels f) (\<lambda>ls. lr_level r \<in> set ls) \<and>
        given (f_service f) (\<lambda>x. lr_service r = x) \<and> given (f_environment f) (\<lambda>x. lr_environment r = x) \<and>
        given (f_host f) (\<lambda>x. lr_host r = x) \<and> given (f_trace f) (\<lambda>t. lr_trace_id r = pg_uuid env t) \<and>
        given (f_query f) (\<lambda>q. body_matches (Some BACKSLASH) q (lr_body r)) \<and>
        (case cursor of None \<Rightarrow> True | Some c \<Rightarrow> lr_id r < c)))"

text \<open>The clauses of \<open>query_cold_storage\<close> and \<open>count_cold_storage\<close>: ids as text, an invalid trace ignored.\<close>

definition id_text :: "int \<Rightarrow> string" where
  "id_text i = uuid_str (nat i)"

definition cold_where ::
    "log_env \<Rightarrow> int \<Rightarrow> datetime \<Rightarrow> datetime \<Rightarrow> log_filter \<Rightarrow> int option \<Rightarrow> cold_log \<Rightarrow> bool" where
  "cold_where env org start_dt end_dt f cursor r =
     (let (start_uuid, end_uuid) = get_range_for_date (ms_of env) start_dt end_dt in
      cl_org r = org \<and> id_text start_uuid \<le> cl_id r \<and> cl_id r < id_text end_uuid \<and>
      given (f_projects f) (\<lambda>ps. cl_project r \<in> set ps) \<and> given (f_levels f) (\<lambda>ls. cl_level r \<in> set ls) \<and>
      given (f_service f) (\<lambda>x. cl_service r = Some x) \<and> given (f_environment f) (\<lambda>x. cl_environment r = Some x) \<and>
      given (f_host f) (\<lambda>x. cl_host r = Some x) \<and>
      given (f_trace f) (\<lambda>t. case uuid_parse t of None \<Rightarrow> True | Some u \<Rightarrow> cl_trace_id r = Some (uuid_str u)) \<and>
      given (f_query f) (\<lambda>q. case cl_body r of None \<Rightarrow> False | Some b \<Rightarrow> body_matches None q b) \<and>
      (case cursor of None \<Rightarrow> True | Some c \<Rightarrow> cl_id r < id_text c))"

section \<open>The two tiers\<close>

text \<open>\<open>sort(key=..., reverse=True)\<close>: descending and stable.\<close>

definition newest_first :: "('a \<Rightarrow> 'k :: linorder) \<Rightarrow> 'a list \<Rightarrow> 'a list" where
  "newest_first key xs = rev (sort_key key (rev xs))"

definition query_hot_storage ::
    "log_env \<Rightarrow> int \<Rightarrow> datetime \<Rightarrow> datetime \<Rightarrow> log_filter \<Rightarrow> nat \<Rightarrow> int option \<Rightarrow> log_row list \<Rightarrow> log_error + log_event list" where
  "query_hot_storage env org start_dt end_dt f limit cursor hot =
     (case hot_where env org start_dt end_dt f cursor of
        Inl e \<Rightarrow> Inl e
      | Inr P \<Rightarrow> Inr (map (hot_log_event env) (take limit (newest_first lr_id (filter P hot)))))"

definition count_hot_storage ::
    "log_env \<Rightarrow> int \<Rightarrow> datetime \<Rightarrow> datetime \<Rightarrow> log_filter \<Rightarrow> nat \<Rightarrow> log_row list \<Rightarrow> log_error + nat" where
  "count_hot_storage env org start_dt end_dt f max_hits hot =
     (case hot_where env org start_dt end_dt f None of
        Inl e \<Rightarrow> Inl e
      | Inr P \<Rightarrow> Inr (length (take max_hits (filter P hot))))"

text \<open>
  \<open>_query_cold_parquet_files_inner\<close>, over the reversed paths. A damaged file is deleted and skipped, every
  other failure is raised.
\<close>

fun query_files ::
    "log_env \<Rightarrow> backend \<Rightarrow> (cold_log \<Rightarrow> bool) \<Rightarrow> nat \<Rightarrow> nat option \<Rightarrow> path list \<Rightarrow> cold_log list \<Rightarrow> log_row files
     \<Rightarrow> (log_error + cold_log list) \<times> log_row files" where
  "query_files env be P limit_param limit [] acc fs = (Inr acc, fs)"
| "query_files env be P limit_param limit (p # ps) acc fs =
     (if \<not> duck_reads env p then (Inl ReadError, fs)
      else case map_of fs p of
             None \<Rightarrow> (Inl ReadError, fs)
           | Some Damaged \<Rightarrow> query_files env be P limit_param limit ps acc (snd (storage_delete be p fs))
           | Some (Parquet rows) \<Rightarrow>
               (let acc' = acc @ take limit_param (newest_first cl_id (filter P (map (export_log env) rows))) in
                if (case limit of None \<Rightarrow> False | Some n \<Rightarrow> n \<le> length acc') then (Inr acc', fs)
                else query_files env be P limit_param limit ps acc' fs))"

definition query_cold_parquet_files ::
    "log_env \<Rightarrow> int \<Rightarrow> string \<Rightarrow> (cold_log \<Rightarrow> bool) \<Rightarrow> nat \<Rightarrow> (datetime \<times> datetime) option \<Rightarrow> nat option \<Rightarrow> log_row files
     \<Rightarrow> (log_error + cold_log list) \<times> log_row files" where
  "query_cold_parquet_files env org storage_prefix P limit_param rng limit fs =
     (case log_backend env of
        None \<Rightarrow> (Inr [], fs)
      | Some be \<Rightarrow>
          (let paths = enumerate_org_parquet_files be storage_prefix org rng fs in
           if paths = [] \<or> \<not> slot_free env then (Inr [], fs)
           else query_files env be P limit_param limit (rev paths) [] fs))"

fun all_some :: "'a option list \<Rightarrow> 'a list option" where
  "all_some [] = Some []"
| "all_some (None # xs) = None"
| "all_some (Some x # xs) = map_option (Cons x) (all_some xs)"

definition query_cold_storage ::
    "log_env \<Rightarrow> int \<Rightarrow> datetime \<Rightarrow> datetime \<Rightarrow> log_filter \<Rightarrow> nat \<Rightarrow> int option \<Rightarrow> log_row files
     \<Rightarrow> (log_error + log_event list) \<times> log_row files" where
  "query_cold_storage env org start_dt end_dt f limit cursor fs =
     (if \<not> duckdb_on env then (Inr [], fs)
      else case query_cold_parquet_files env org ''logs_logevent'' (cold_where env org start_dt end_dt f cursor) limit
                  (Some (start_dt, end_dt)) (Some limit) fs of
             (Inl e, fs') \<Rightarrow> (Inl e, fs')
           | (Inr rows, fs') \<Rightarrow>
               (case all_some (map (cold_log_event env) rows) of
                  None \<Rightarrow> (Inl RowError, fs')
                | Some es \<Rightarrow> (Inr (take limit (newest_first le_id es)), fs')))"

text \<open>The count skips every file that it cannot read.\<close>

fun count_files :: "log_env \<Rightarrow> (cold_log \<Rightarrow> bool) \<Rightarrow> nat \<Rightarrow> path list \<Rightarrow> nat \<Rightarrow> log_row files \<Rightarrow> nat" where
  "count_files env P max_hits [] hits fs = hits"
| "count_files env P max_hits (p # ps) hits fs =
     (if max_hits \<le> hits then hits
      else case (if duck_reads env p then map_of fs p else None) of
             Some (Parquet rows) \<Rightarrow>
               count_files env P max_hits ps
                 (hits + length (take (max_hits - hits) (filter P (map (export_log env) rows)))) fs
           | _ \<Rightarrow> count_files env P max_hits ps hits fs)"

definition count_cold_storage ::
    "log_env \<Rightarrow> int \<Rightarrow> datetime \<Rightarrow> datetime \<Rightarrow> log_filter \<Rightarrow> nat \<Rightarrow> log_row files \<Rightarrow> nat" where
  "count_cold_storage env org start_dt end_dt f max_hits fs =
     (if \<not> duckdb_on env then 0
      else case log_backend env of
             None \<Rightarrow> 0
           | Some be \<Rightarrow>
               (let paths = enumerate_org_parquet_files be ''logs_logevent'' org (Some (start_dt, end_dt)) fs in
                min (count_files env (cold_where env org start_dt end_dt f None) max_hits paths 0 fs) max_hits))"

section \<open>Both tiers\<close>

record log_tiers =
  hot_rows :: "log_row list"
  cold_logs :: "log_row files"

definition both :: "log_error + log_event list \<Rightarrow> (log_error + log_event list) \<times> log_row files
    \<Rightarrow> (log_error + log_event list) \<times> log_row files" where
  "both hot cold = (case hot of Inl e \<Rightarrow> (Inl e, snd cold)
                    | Inr hs \<Rightarrow> (case cold of (Inl e, fs) \<Rightarrow> (Inl e, fs) | (Inr cs, fs) \<Rightarrow> (Inr (hs @ cs), fs)))"

text \<open>Which tiers a query needs; \<open>None\<close> is the \<open>ValueError\<close> of a cursor that is not a UUID of version 7.\<close>

definition tiers_needed :: "datetime \<Rightarrow> datetime \<Rightarrow> datetime \<Rightarrow> int option \<Rightarrow> (bool \<times> bool) option" where
  "tiers_needed start_dt end_dt hot_cutoff cursor =
     (let needs_hot = hot_cutoff < end_dt; needs_cold = start_dt < hot_cutoff in
      case cursor of
        None \<Rightarrow> Some (needs_hot, needs_cold)
      | Some c \<Rightarrow>
          if needs_hot \<and> needs_cold then
            map_option (\<lambda>t. (hot_cutoff < t, needs_cold)) (extract_datetime c)
          else Some (needs_hot, needs_cold))"

definition query_logs_combined ::
    "log_env \<Rightarrow> datetime \<Rightarrow> int \<Rightarrow> datetime \<Rightarrow> datetime \<Rightarrow> log_filter \<Rightarrow> nat \<Rightarrow> int option \<Rightarrow> log_tiers
     \<Rightarrow> (log_error + log_event list) \<times> log_row files" where
  "query_logs_combined env now org start_dt end_dt f limit cursor st =
     (let hot_cutoff = now - HOT_STORAGE_DAYS env * US_PER_DAY;
          hot = query_hot_storage env org (max start_dt hot_cutoff) end_dt f limit cursor (hot_rows st);
          cold = query_cold_storage env org start_dt (min end_dt hot_cutoff) f limit cursor (cold_logs st);
          none = (Inr [], cold_logs st);
          result =
            (case tiers_needed start_dt end_dt hot_cutoff cursor of
               None \<Rightarrow> (Inl CursorError, cold_logs st)
             | Some (True, True) \<Rightarrow>
                 (case hot of
                    Inl e \<Rightarrow> (Inl e, cold_logs st)
                  | Inr hs \<Rightarrow> if limit \<le> length hs then (Inr hs, cold_logs st) else both hot cold)
             | Some (True, False) \<Rightarrow> (hot, cold_logs st)
             | Some (False, True) \<Rightarrow> cold
             | Some (False, False) \<Rightarrow> none)
      in case result of
           (Inl e, fs) \<Rightarrow> (Inl e, fs)
         | (Inr es, fs) \<Rightarrow> (Inr (take limit (newest_first le_id es)), fs))"

definition get_log_from_hot :: "log_env \<Rightarrow> int \<Rightarrow> int \<Rightarrow> log_row list \<Rightarrow> log_event option" where
  "get_log_from_hot env org log_id hot =
     map_option (hot_log_event env) (List.find (\<lambda>r. lr_id r = log_id \<and> lr_org r = org) hot)"

text \<open>A file that cannot be read is skipped when it is missing and raises otherwise.\<close>

fun find_in_files :: "log_env \<Rightarrow> int \<Rightarrow> int \<Rightarrow> path list \<Rightarrow> log_row files \<Rightarrow> log_error + log_event option" where
  "find_in_files env org log_id [] fs = Inr None"
| "find_in_files env org log_id (p # ps) fs =
     (if \<not> duck_reads env p then Inl ReadError
      else case map_of fs p of
             None \<Rightarrow> find_in_files env org log_id ps fs
           | Some Damaged \<Rightarrow> Inl ReadError
           | Some (Parquet rows) \<Rightarrow>
               (case List.find (\<lambda>r. cl_id r = id_text log_id \<and> cl_org r = org) (map (export_log env) rows) of
                  None \<Rightarrow> find_in_files env org log_id ps fs
                | Some r \<Rightarrow> (case cold_log_event env r of None \<Rightarrow> Inl RowError | Some e \<Rightarrow> Inr (Some e))))"

definition get_log_from_cold :: "log_env \<Rightarrow> int \<Rightarrow> int \<Rightarrow> datetime \<Rightarrow> log_row files \<Rightarrow> log_error + log_event option" where
  "get_log_from_cold env org log_id log_time fs =
     (if \<not> duckdb_on env then Inr None
      else case log_backend env of
             None \<Rightarrow> Inr None
           | Some be \<Rightarrow> find_in_files env org log_id (get_parquet_paths_for_date be ''logs_logevent'' org (date_suffix log_time) fs) fs)"

definition get_log_by_id :: "log_env \<Rightarrow> datetime \<Rightarrow> int \<Rightarrow> int \<Rightarrow> log_tiers \<Rightarrow> log_error + log_event option" where
  "get_log_by_id env now org log_id st =
     (case extract_datetime log_id of
        None \<Rightarrow> Inl CursorError
      | Some log_time \<Rightarrow>
          (case (if now - HOT_STORAGE_DAYS env * US_PER_DAY < log_time then get_log_from_hot env org log_id (hot_rows st) else None) of
             Some e \<Rightarrow> Inr (Some e)
           | None \<Rightarrow> get_log_from_cold env org log_id log_time (cold_logs st)))"

end
