(* ===== verification/Log_Api.thy ===== *)
theory Log_Api
  imports Log_Query
begin

text \<open>
  The log endpoints of \<open>apps/logs/api.py\<close>: the listing with its pages and counts, a single log, the hourly
  statistics and the resource names, behind the permission check and the organization of the user.

  A cursor is the UUID that its text encodes.
\<close>

definition get_organization_for_user :: "nat \<Rightarrow> string \<Rightarrow> db \<Rightarrow> organization list" where
  "get_organization_for_user uid slug s =
     [o' \<leftarrow> orgs s. o_slug o' = slug \<and> (\<exists>m\<in>set (members s). m_org m = o_id o' \<and> m_user m = Some uid)]"

text \<open>The part that every endpoint begins with; the tables are not changed.\<close>

definition log_organization :: "auth \<Rightarrow> string \<Rightarrow> db \<Rightarrow> log_error + int" where
  "log_organization au slug s =
     (case fst (has_permission [''event:read'', ''event:write'', ''event:admin''] au s
                  (aget_object_or_404 (get_organization_for_user (user_id au) slug s) s (\<lambda>org. (Inr org, s)))) of
        Inl e \<Rightarrow> Inl (Denied e)
      | Inr org \<Rightarrow> Inr (int (o_id org)))"

section \<open>Listing\<close>

definition DEFAULT_LOOKBACK_DAYS :: int where "DEFAULT_LOOKBACK_DAYS = 7"

record log_query =
  q_filter :: log_filter
  q_level_names :: "string list"
  q_start :: "datetime option"
  q_end :: "datetime option"
  q_cursor :: "int option"
  q_limit :: nat

record log_page =
  page_items :: "log_event list"
  page_next :: "int option"
  page_hits :: nat

definition query_filter :: "log_query \<Rightarrow> log_filter" where
  "query_filter q = (q_filter q)\<lparr>f_levels := (if q_level_names q = [] then None else parse_level_filters (q_level_names q))\<rparr>"

definition list_logs ::
    "log_env \<Rightarrow> auth \<Rightarrow> string \<Rightarrow> log_query \<Rightarrow> datetime \<Rightarrow> db \<Rightarrow> log_tiers \<Rightarrow> (log_error + log_page) \<times> log_row files" where
  "list_logs env au slug q now s st =
     (if q_limit q < 1 \<or> 200 < q_limit q then (Inl (Denied Unprocessable), cold_logs st)
      else case log_organization au slug s of
        Inl e \<Rightarrow> (Inl e, cold_logs st)
      | Inr org \<Rightarrow>
          (let start_dt = (case q_start q of None \<Rightarrow> now - DEFAULT_LOOKBACK_DAYS * US_PER_DAY | Some t \<Rightarrow> t);
               end_dt = (case q_end q of None \<Rightarrow> now | Some t \<Rightarrow> t);
               f = query_filter q; limit = q_limit q; max_hits = 1000 in
           case query_logs_combined env now org start_dt end_dt f (limit + 1) (q_cursor q) st of
             (Inl e, fs) \<Rightarrow> (Inl e, fs)
           | (Inr results, fs) \<Rightarrow>
               (let has_next = limit < length results;
                    page_results = take limit results;
                    next_cursor = (if has_next \<and> page_results \<noteq> [] then Some (le_id (last page_results)) else None) in
                case (if q_cursor q = None
                      then (case count_hot_storage env org start_dt end_dt f max_hits (hot_rows st) of
                              Inl e \<Rightarrow> Inl e
                            | Inr hits \<Rightarrow>
                                Inr (if hits < max_hits
                                     then hits + count_cold_storage env org start_dt end_dt f (max_hits - hits) fs else hits))
                      else Inr (length page_results)) of
                  Inl e \<Rightarrow> (Inl e, fs)
                | Inr hits \<Rightarrow> (Inr \<lparr>page_items = page_results, page_next = next_cursor, page_hits = hits\<rparr>, fs))))"

definition get_log :: "log_env \<Rightarrow> auth \<Rightarrow> string \<Rightarrow> int \<Rightarrow> datetime \<Rightarrow> db \<Rightarrow> log_tiers \<Rightarrow> log_error + log_event" where
  "get_log env au slug log_id now s st =
     (case log_organization au slug s of
        Inl e \<Rightarrow> Inl e
      | Inr org \<Rightarrow>
          (case get_log_by_id env now org log_id st of
             Inl e \<Rightarrow> Inl e
           | Inr None \<Rightarrow> Inl (Denied Http404)
           | Inr (Some e) \<Rightarrow> Inr e))"

section \<open>Statistics\<close>

text \<open>A row of the hourly statistics: project, level and buckets, the organization, the hour and the count.\<close>

definition level_name :: "int \<Rightarrow> string" where
  "level_name l = (case map_of [(0, ''trace''), (1, ''debug''), (2, ''info''), (3, ''warn''), (4, ''error''), (5, ''fatal'')] l of
                     Some n \<Rightarrow> n | None \<Rightarrow> [])"

type_synonym log_stats_table = "(log_stat_key \<times> int \<times> datetime, int) dict"

definition stat_selected ::
    "int \<Rightarrow> datetime \<Rightarrow> datetime \<Rightarrow> int list option \<Rightarrow> int list option \<Rightarrow> nat list option \<Rightarrow> nat list option
     \<Rightarrow> log_stat_key \<times> int \<times> datetime \<Rightarrow> bool" where
  "stat_selected org start_dt end_dt project_ids level_values service_buckets environment_buckets k =
     (case k of ((project, level, service_bucket, environment_bucket), oid, date) \<Rightarrow>
        oid = org \<and> start_dt \<le> date \<and> date < end_dt \<and> given project_ids (\<lambda>ps. project \<in> set ps) \<and>
        given level_values (\<lambda>ls. level \<in> set ls) \<and> given service_buckets (\<lambda>bs. service_bucket \<in> set bs) \<and>
        given environment_buckets (\<lambda>bs. environment_bucket \<in> set bs))"

definition stat_hour :: "log_stat_key \<times> int \<times> datetime \<Rightarrow> datetime" where
  "stat_hour k = hour_of (snd (snd k))"

definition stat_level :: "log_stat_key \<times> int \<times> datetime \<Rightarrow> int" where
  "stat_level k = fst (snd (fst k))"

text \<open>The grouped and ordered query, then the two dictionaries and the series.\<close>

definition grouped_stats :: "(log_stat_key \<times> int \<times> datetime \<Rightarrow> bool) \<Rightarrow> log_stats_table \<Rightarrow> (datetime \<times> int \<times> int) list" where
  "grouped_stats sel tbl =
     map (\<lambda>(h, l). (h, l, sum_list [n. (k, n) \<leftarrow> tbl, sel k \<and> stat_hour k = h \<and> stat_level k = l]))
       (sort (remdups [(stat_hour k, stat_level k). (k, n) \<leftarrow> tbl, sel k]))"

record log_series =
  ls_name :: string
  ls_data :: "int list"

definition add_level :: "datetime \<times> int \<times> int \<Rightarrow> (int, (datetime, int) dict) dict \<Rightarrow> (int, (datetime, int) dict) dict" where
  "add_level row level_data =
     (case row of (hour, level, n) \<Rightarrow>
        dset level_data level (dset (case map_of level_data level of None \<Rightarrow> [] | Some d \<Rightarrow> d) hour n))"

definition query_log_stats :: "(log_stat_key \<times> int \<times> datetime \<Rightarrow> bool) \<Rightarrow> log_stats_table \<Rightarrow> datetime list \<times> log_series list" where
  "query_log_stats sel tbl =
     (let rows = grouped_stats sel tbl;
          intervals = sort (remdups (map fst rows));
          level_data = fold add_level rows []
      in (intervals,
          map (\<lambda>l. \<lparr>ls_name = level_name l,
                   ls_data = map (\<lambda>h. case map_of (the (map_of level_data l)) h of None \<Rightarrow> 0 | Some n \<Rightarrow> n) intervals\<rparr>)
            (sort (map fst level_data))))"

record stats_query =
  sq_projects :: "int list option"
  sq_level_names :: "string list"
  sq_services :: "string list"
  sq_environments :: "string list"
  sq_start :: "datetime option"
  sq_end :: "datetime option"

definition stats_window :: "stats_query \<Rightarrow> datetime \<Rightarrow> datetime \<times> datetime" where
  "stats_window q now =
     (let start_dt = (case sq_start q of None \<Rightarrow> now - DEFAULT_LOOKBACK_DAYS * US_PER_DAY | Some t \<Rightarrow> t);
          end_dt = (case sq_end q of None \<Rightarrow> now | Some t \<Rightarrow> t)
      in (if end_dt - start_dt > 90 * US_PER_DAY then end_dt - 90 * US_PER_DAY else start_dt, end_dt))"

definition get_log_stats ::
    "(string \<Rightarrow> nat list) \<Rightarrow> auth \<Rightarrow> string \<Rightarrow> stats_query \<Rightarrow> datetime \<Rightarrow> db \<Rightarrow> log_stats_table
     \<Rightarrow> log_error + datetime list \<times> log_series list" where
  "get_log_stats md5 au slug q now s tbl =
     (case log_organization au slug s of
        Inl e \<Rightarrow> Inl e
      | Inr org \<Rightarrow>
          (case stats_window q now of (start_dt, end_dt) \<Rightarrow>
             Inr (query_log_stats
               (stat_selected org start_dt end_dt (sq_projects q)
                  (if sq_level_names q = [] then None else parse_level_filters (sq_level_names q))
                  (if sq_services q = [] then None else Some (map (compute_hash_bucket md5) (sq_services q)))
                  (if sq_environments q = [] then None else Some (map (compute_hash_bucket md5) (sq_environments q))))
               tbl)))"

section \<open>Resources\<close>

definition list_log_resources ::
    "auth \<Rightarrow> string \<Rightarrow> string option \<Rightarrow> db \<Rightarrow> (int \<times> string \<times> string, datetime \<times> datetime) dict
     \<Rightarrow> log_error + (string \<times> string \<times> datetime) list" where
  "list_log_resources au slug resource_type s tbl =
     (case log_organization au slug s of
        Inl e \<Rightarrow> Inl e
      | Inr org \<Rightarrow>
          Inr (take 100 (newest_first (\<lambda>(_, _, t). t)
            [(name, ty, last_seen). ((oid, name, ty), (first_seen, last_seen)) \<leftarrow> tbl,
               oid = org \<and> (case resource_type of None \<Rightarrow> True | Some r \<Rightarrow> r \<noteq> [] \<longrightarrow> ty = r)])))"

end
