(* ===== verification/Text_Order.thy ===== *)
theory Text_Order
  imports Logs Partitions Span_Tiers
begin

text \<open>
  Text that sorts like the value it stands for: the canonical text of UUIDs, which the cold tier compares
  instead of the number, and the eight digits of a date, by which files are listed. The text of a UUID also
  reads back.
\<close>

section \<open>Lexicographic order\<close>

lemma append_less:
  fixes a b :: string
  shows "length a = length b \<Longrightarrow> a @ x < b @ y \<longleftrightarrow> a < b \<or> (a = b \<and> x < y)"
  by (induction a b rule: list_induct2) auto

lemma hex_digit_less: "d < 16 \<Longrightarrow> e < 16 \<Longrightarrow> hex_digit d < hex_digit e \<longleftrightarrow> d < e"
  by (auto simp: hex_digit_def less_char_def)

lemma div_mod_less: "a div k < b div k \<or> (a div k = b div k \<and> a mod k < b mod k) \<longleftrightarrow> a < (b :: nat)"
proof (cases "a div k" "b div k" rule: linorder_cases)
  case less
  then show ?thesis by (metis div_le_mono linorder_not_less)
next
  case equal
  then show ?thesis by (metis div_mult_mod_eq less_irrefl nat_add_left_cancel_less)
next
  case greater
  then show ?thesis by (metis div_le_mono less_imp_le_nat less_not_refl linorder_not_less)
qed

lemma hex_of_less: "a < 16 ^ w \<Longrightarrow> b < 16 ^ w \<Longrightarrow> hex_of w a < hex_of w b \<longleftrightarrow> a < b"
proof (induction w arbitrary: a b)
  case (Suc w)
  have d: "a div 16 < 16 ^ w" "b div 16 < 16 ^ w" using Suc.prems by auto
  have "hex_of (Suc w) a < hex_of (Suc w) b \<longleftrightarrow>
      a div 16 < b div 16 \<or> (a div 16 = b div 16 \<and> a mod 16 < b mod 16)"
    using Suc.IH [OF d] hex_of_inj [OF d] by (auto simp: append_less hex_digit_less)
  also have "\<dots> \<longleftrightarrow> a < b" by (rule div_mod_less)
  finally show ?case .
qed simp

text \<open>Words cut into parts of fixed lengths, with a separator between them, compare like the words.\<close>

lemma append_Cons_less:
  fixes a b :: string
  assumes "length a = length b"
  shows "a @ c # x < b @ c # y \<longleftrightarrow> a @ x < b @ y"
  using assms by (simp add: append_less)

lemma uuid_str_less:
  assumes "a < 2 ^ 128" "b < 2 ^ 128"
  shows "uuid_str a < uuid_str b \<longleftrightarrow> a < b"
proof -
  have "g @ c # s @ c # t @ c # u @ c # v < g' @ c # s' @ c # t' @ c # u' @ c # v' \<longleftrightarrow>
      g @ s @ t @ u @ v < g' @ s' @ t' @ u' @ v'"
    if "length g = length g'" "length s = length s'" "length t = length t'" "length u = length u'"
    for c and g s t u v g' s' t' u' v' :: string
    using that by (simp add: append_less)
  then have "uuid_str a < uuid_str b \<longleftrightarrow> hex_of 32 a < hex_of 32 b"
    using hex_parts [of "hex_of 32 a"] hex_parts [of "hex_of 32 b"]
    by (simp add: uuid_str_def Let_def del: hex_of.simps)
  then show ?thesis using hex_of_less [of a 32 b] assms by simp
qed

lemma uuid_str_le: "a < 2 ^ 128 \<Longrightarrow> b < 2 ^ 128 \<Longrightarrow> uuid_str a \<le> uuid_str b \<longleftrightarrow> a \<le> b"
  using uuid_str_less [of b a] by (simp add: not_less [symmetric])

section \<open>Reading a UUID back\<close>

lemma remove_all_no_head: "c \<notin> set s \<Longrightarrow> remove_all (c # p) s = s"
  by (rule remove_all_absent [of c]) simp_all

lemma remove_all_char: "remove_all [c] s = filter (\<lambda>x. x \<noteq> c) s"
proof (induction s)
  case Nil
  show ?case by (subst remove_all.simps) simp
next
  case (Cons x s)
  then show ?case by (subst remove_all.simps) (simp add: starts_with_def)
qed

lemma uuid_str_chars: "c \<in> set (uuid_str u) \<Longrightarrow> c = CHR ''-'' \<or> (\<exists>d<16. c = hex_digit d)"
  by (auto simp: uuid_str_def Let_def simp del: hex_of.simps dest!: in_set_takeD in_set_dropD hex_of_chars)

lemma strip_set_plain: "\<forall>c\<in>set s. c \<notin> cs \<Longrightarrow> strip_set cs s = s"
proof -
  assume a: "\<forall>c\<in>set s. c \<notin> cs"
  have d: "dropWhile (\<lambda>c. c \<in> cs) t = t" if "\<forall>c\<in>set t. c \<notin> cs" for t
    using that by (cases t) auto
  from a show ?thesis by (simp add: strip_set_def d)
qed

lemma not_in_uuid_str: "c \<in> {CHR ''u'', CHR ''{'', CHR ''}''} \<Longrightarrow> c \<notin> set (uuid_str u)"
proof
  assume c: "c \<in> {CHR ''u'', CHR ''{'', CHR ''}''}" and "c \<in> set (uuid_str u)"
  then obtain d where "d < 16" "c = hex_digit d" using uuid_str_chars [of c u] by auto
  then have "ord_of c = (if d < 10 then 48 + d else 87 + d)" by (simp add: hex_digit_def)
  with \<open>d < 16\<close> c show False by (auto split: if_splits)
qed

lemma uuid_parse_str [simp]:
  assumes "u < 2 ^ 128"
  shows "uuid_parse (uuid_str u) = Some u"
proof -
  have "strip_set {CHR ''{'', CHR ''}''} (uuid_str u) = uuid_str u"
    using not_in_uuid_str [of _ u] by (intro strip_set_plain) auto
  then have "remove_all ''-'' (strip_set {CHR ''{'', CHR ''}''} (remove_all ''uuid:'' (remove_all ''urn:'' (uuid_str u)))) = hex_of 32 u"
    using not_in_uuid_str [of "CHR ''u''" u]
    by (simp add: remove_all_no_head remove_all_char filter_uuid_str del: hex_of.simps)
  moreover have "py_int 16 (hex_of 32 u) = Some (int u)" using py_int_hex [of u 32] assms by simp
  moreover have "int u < 2 ^ 128" using assms of_nat_less_iff [of u "2 ^ 128", where ?'a = int] by simp
  ultimately show ?thesis
    unfolding uuid_parse_def Let_def by (simp del: hex_of.simps)
qed

lemma uuid_str_nonempty [simp]: "uuid_str u \<noteq> []"
  by (simp add: uuid_str_def Let_def)

section \<open>Dates\<close>

abbreviation digits :: "string \<Rightarrow> bool" where
  "digits s \<equiv> list_all is_digit s"

lemma digit_val_less: "is_digit c \<Longrightarrow> is_digit d \<Longrightarrow> c < d \<longleftrightarrow> digit_val c < digit_val d"
  by (auto simp: is_digit_def digit_val_def less_char_def)

lemma digit_val_lt_10: "is_digit c \<Longrightarrow> digit_val c < 10"
  by (auto simp: is_digit_def digit_val_def)

lemma ten_less: "x < 10 \<Longrightarrow> y < 10 \<Longrightarrow> 10 * a + x < 10 * b + y \<longleftrightarrow> a < b \<or> (a = b \<and> x < (y :: nat))"
  by linarith

lemma ten_eq: "x < 10 \<Longrightarrow> y < 10 \<Longrightarrow> 10 * a + x = 10 * b + y \<longleftrightarrow> a = b \<and> x = (y :: nat)"
  by presburger

lemma digit_val_inj: "is_digit c \<Longrightarrow> is_digit d \<Longrightarrow> c = d \<longleftrightarrow> digit_val c = digit_val d"
  using digit_val_less [of c d] digit_val_less [of d c] by (metis linorder_neq_iff)

lemma digits_order:
  "digits s \<Longrightarrow> digits t \<Longrightarrow> length s = length t \<Longrightarrow>
   (s < t \<longleftrightarrow> nat_of_digits s < nat_of_digits t) \<and> (s = t \<longleftrightarrow> nat_of_digits s = nat_of_digits t)"
proof (induction s arbitrary: t rule: rev_induct)
  case Nil
  then show ?case by simp
next
  case (snoc c s)
  then obtain d t' where t: "t = t' @ [d]" "length s = length t'" by (cases t rule: rev_cases) auto
  with snoc.prems have d: "is_digit c" "is_digit d" "digits s" "digits t'" by simp_all
  note IH = snoc.IH [OF d(3,4) t(2)]
  have "s @ [c] < t \<longleftrightarrow> nat_of_digits (s @ [c]) < nat_of_digits t"
    unfolding t(1) nat_of_digits_append append_less [OF t(2)] ten_less [OF digit_val_lt_10 digit_val_lt_10, OF d(1,2)]
    using IH digit_val_less [OF d(1,2)] by auto
  moreover have "s @ [c] = t \<longleftrightarrow> nat_of_digits (s @ [c]) = nat_of_digits t"
    unfolding t(1) nat_of_digits_append ten_eq [OF digit_val_lt_10 digit_val_lt_10, OF d(1,2)]
    using IH digit_val_inj [OF d(1,2)] by simp
  ultimately show ?case by blast
qed

text \<open>Valid dates sort like the days they name.\<close>

lemma month_day_less:
  assumes "mi < mi'" "d \<le> days_in_month mi" "1 \<le> d'"
  shows "month_start mi + (d - 1) < month_start mi' + (d' - 1)"
  using month_start_mono_le [of "mi + 1" mi'] assms by (simp add: days_in_month_def)

lemma strptime_mono:
  assumes "strptime_date s = Some a" "strptime_date t = Some b" "s < t"
  shows "a < b"
proof -
  have l: "length s = 8" "length t = 8" "digits s" "digits t" and p: "parse_ymd s = Some a" "parse_ymd t = Some b"
    using assms(1,2) by (auto simp: strptime_date_def split: if_splits)
  define y m d where "y = take 4 s" and "m = take 2 (drop 4 s)" and "d = drop 6 s"
  define y' m' d' where "y' = take 4 t" and "m' = take 2 (drop 4 t)" and "d' = drop 6 t"
  note defs = y_def m_def d_def y'_def m'_def d'_def
  have st: "s = y @ m @ d" "t = y' @ m' @ d'"
    using append_take_drop_id [of 2 "drop 4 s"] append_take_drop_id [of 2 "drop 4 t"] by (simp_all add: defs)
  have len: "length y = length y'" "length m = length m'" "length d = length d'"
    using l by (simp_all add: defs)
  have dig: "digits y" "digits m" "digits d" "digits y'" "digits m'" "digits d'"
    using l(3,4) unfolding st by simp_all
  note o = digits_order [OF dig(1,4) len(1)] digits_order [OF dig(2,5) len(2)] digits_order [OF dig(3,6) len(3)]
  let ?n = "\<lambda>s. int (nat_of_digits s)"
  have less: "?n y < ?n y' \<or> (?n y = ?n y' \<and> ?n m < ?n m') \<or> (?n y = ?n y' \<and> ?n m = ?n m' \<and> ?n d < ?n d')"
    using assms(3) o unfolding st append_less [OF len(1)] append_less [OF len(2)] by auto
  have a: "1 \<le> ?n m" "?n m \<le> 12" "1 \<le> ?n d" "?n d \<le> days_in_month (12 * ?n y + (?n m - 1))"
      "a = month_start (12 * ?n y + (?n m - 1)) + (?n d - 1)"
    and b: "1 \<le> ?n m'" "?n m' \<le> 12" "1 \<le> ?n d'" "b = month_start (12 * ?n y' + (?n m' - 1)) + (?n d' - 1)"
    using p unfolding parse_ymd_def Let_def defs [symmetric] by (auto split: if_splits)
  consider "12 * ?n y + (?n m - 1) < 12 * ?n y' + (?n m' - 1)" | "?n y = ?n y'" "?n m = ?n m'" "?n d < ?n d'"
    using less a(1,2) b(1,2) by linarith
  then show ?thesis
  proof cases
    case 1
    show ?thesis using month_day_less [OF 1 a(4) b(3)] a(5) b(4) by simp
  next
    case 2
    with a(5) b(4) show ?thesis by simp
  qed
qed

end
