(* ===== verification/Log_Tiers.thy ===== *)
theory Log_Tiers
  imports Log_Api Text_Order Event_Auth
begin

text \<open>
  What the log queries return: the text search, an archived row read back, and the listing over both tiers as
  a refinement of one ordered list of rows.
\<close>

section \<open>Search\<close>

lemma char_lower_fixed:
  assumes "ord_of d < 65 \<or> (90 < ord_of d \<and> ord_of d < 97) \<or> (122 < ord_of d \<and> ord_of d < 128)"
  shows "char_lower c = d \<longleftrightarrow> c = d"
proof
  assume l: "char_lower c = d"
  show "c = d"
  proof (rule ccontr)
    assume "c \<noteq> d"
    with l have u: "is_upper_az c \<or> (192 \<le> ord_of c \<and> ord_of c \<le> 222 \<and> ord_of c \<noteq> 215)" "d = char_of (ord_of c + 32)"
      by (auto simp: char_lower_def split: if_splits)
    then have "ord_of d = ord_of c + 32" by (auto simp: is_upper_az_def)
    with u(1) assms show False by (auto simp: is_upper_az_def)
  qed
next
  assume "c = d"
  with assms show "char_lower c = d" by (auto simp: char_lower_def is_upper_az_def)
qed

lemma char_lower_wild:
  "char_lower c = BACKSLASH \<longleftrightarrow> c = BACKSLASH" "char_lower c = CHR ''%'' \<longleftrightarrow> c = CHR ''%''" "char_lower c = CHR ''_'' \<longleftrightarrow> c = CHR ''_''"
  by (rule char_lower_fixed; simp add: BACKSLASH_def)+

lemma lower_escape: "lower (escape_like s) = escape_like (lower s)"
  using char_lower_wild by (induction s) (auto simp: lower_def)

lemma like_all: "e \<noteq> Some (CHR ''%'') \<Longrightarrow> like e ''%'' t"
  by (induction t) auto

lemma like_any: "e \<noteq> Some (CHR ''%'') \<Longrightarrow> like e (CHR ''%'' # p) t \<longleftrightarrow> (\<exists>u v. t = u @ v \<and> like e p v)"
proof (induction t)
  case Nil
  then show ?case by simp
next
  case (Cons x t)
  then have "like e (CHR ''%'' # p) (x # t) \<longleftrightarrow> like e p (x # t) \<or> (\<exists>u v. t = u @ v \<and> like e p v)" by auto
  also have "\<dots> \<longleftrightarrow> (\<exists>u v. x # t = u @ v \<and> like e p v)"
    by (metis append_Cons append_Nil neq_Nil_conv list.inject)
  finally show ?case .
qed

lemma backslash_ne: "BACKSLASH \<noteq> CHR ''%''" "BACKSLASH \<noteq> CHR ''_''"
  by code_simp+

lemma like_escaped: "like (Some BACKSLASH) (escape_like s @ ''%'') t \<longleftrightarrow> starts_with s t"
proof (induction s arbitrary: t)
  case Nil
  show ?case using like_all backslash_ne by simp
next
  case (Cons c s)
  then show ?case using backslash_ne by (cases t) (auto simp: starts_with_def)
qed

text \<open>The characters that the pattern language reads.\<close>

definition plain :: "string \<Rightarrow> bool" where
  "plain s \<longleftrightarrow> (\<forall>c\<in>set s. c \<noteq> BACKSLASH \<and> c \<noteq> CHR ''%'' \<and> c \<noteq> CHR ''_'')"

lemma escape_plain: "plain s \<Longrightarrow> escape_like s = s"
  by (induction s) (auto simp: plain_def)

lemma like_plain: "plain s \<Longrightarrow> like None (s @ ''%'') t \<longleftrightarrow> starts_with s t"
proof (induction s arbitrary: t)
  case Nil
  show ?case using like_all [of None] by simp
next
  case (Cons c s)
  then show ?case by (cases t) (auto simp: starts_with_def plain_def)
qed

lemma plain_lower: "plain (lower s) \<longleftrightarrow> plain s"
  by (auto simp: plain_def lower_def char_lower_wild)

lemma contains_suffix: "contains p s \<longleftrightarrow> (\<exists>u v. s = u @ v \<and> starts_with p v)"
  by (auto simp: contains_iff starts_with_iff)

lemma lower_wrapped: "lower (''%'' @ escape_like q @ ''%'') = CHR ''%'' # escape_like (lower q) @ ''%''"
  using lower_escape [of q] by (simp add: lower_def char_lower_def is_upper_az_def)

lemma body_matches_hot: "body_matches (Some BACKSLASH) q b \<longleftrightarrow> contains (lower q) (lower b)"
  unfolding body_matches_def lower_wrapped
  by (subst like_any) (simp_all add: backslash_ne like_escaped contains_suffix)

lemma body_matches_cold: "plain q \<Longrightarrow> body_matches None q b \<longleftrightarrow> contains (lower q) (lower b)"
  unfolding body_matches_def lower_wrapped
  by (subst like_any) (simp_all add: like_plain escape_plain plain_lower contains_suffix)

text \<open>
  Further property. The search of the hot tier finds exactly the logs whose body contains the query, in any
  case and with its wildcard characters taken literally, and the cold tier agrees on queries without them.
\<close>

theorem search_is_containment:
  "(body_matches (Some BACKSLASH) q body \<longleftrightarrow> contains (lower q) (lower body)) \<and>
   (plain q \<longrightarrow> body_matches None q body = body_matches (Some BACKSLASH) q body)"
  by (simp add: body_matches_hot body_matches_cold)

theorem search_is_containment_witness:
  "body_matches (Some BACKSLASH) ''50%_x'' ''got 50%_X left'' \<and> \<not> body_matches (Some BACKSLASH) ''50%_x'' ''got 501yx'' \<and>
   body_matches None ''timeout'' ''Read TIMEOUT''"
proof -
  have "contains (lower ''50%_x'') (lower ''got 50%_X left'')" "\<not> contains (lower ''50%_x'') (lower ''got 501yx'')"
    "contains (lower ''timeout'') (lower ''Read TIMEOUT'')" "plain ''timeout''" by code_simp+
  then show ?thesis
    using search_is_containment [of "''50%_x''"] search_is_containment [of "''timeout''" "''Read TIMEOUT''"] by blast
qed

text \<open>The cold tier finds nothing with such a character: the engine has no escape character there.\<close>

theorem cold_search_misses_wildcards:
  "body_matches (Some BACKSLASH) ''50%'' ''at 50% now'' \<and> \<not> body_matches None ''50%'' ''at 50% now''"
  by code_simp

section \<open>Archived rows\<close>

text \<open>
  What the encoders keep: a cell reads back as its text, the empty one possibly as \<open>NULL\<close>, and the JSON of a
  row as its dictionary. A row as the tables hold it has ids of 128 bits.
\<close>

definition csv_ok :: "log_env \<Rightarrow> bool" where
  "csv_ok env \<longleftrightarrow> (\<forall>s. csv_cell env s = Some s \<or> (s = [] \<and> csv_cell env s = None))"

definition row_ok :: "log_env \<Rightarrow> log_row \<Rightarrow> bool" where
  "row_ok env r \<longleftrightarrow> 0 \<le> lr_id r \<and> lr_id r < 2 ^ 128 \<and> (\<forall>t. lr_trace_id r = Some t \<longrightarrow> t < 2 ^ 128) \<and>
     (let j = JDict (lr_data r) in json_text env j \<noteq> [] \<and> json_loads env (json_text env j) = Some j)"

lemma or_empty_cell: "csv_ok env \<Longrightarrow> or_empty (csv_cell env s) = s"
  by (metis csv_ok_def option.simps(4,5) or_empty_def)

lemma cell_eq: "csv_ok env \<Longrightarrow> x \<noteq> [] \<Longrightarrow> csv_cell env s = Some x \<longleftrightarrow> s = x"
  by (metis csv_ok_def option.discI option.inject)

lemma str_of_int_nonempty [simp]: "str_of_int i \<noteq> []"
  by (simp add: str_of_int_def)

lemma cold_event_export:
  assumes "csv_ok env" and "row_ok env r"
  shows "cold_log_event env (export_log env r) = Some (hot_log_event env r)"
proof -
  have r: "0 \<le> lr_id r" "nat (lr_id r) < 2 ^ 128" "\<And>t. lr_trace_id r = Some t \<Longrightarrow> t < 2 ^ 128"
    and j: "json_text env (JDict (lr_data r)) \<noteq> []" "json_loads env (json_text env (JDict (lr_data r))) = Some (JDict (lr_data r))"
    using assms(2) by (auto simp: row_ok_def Let_def nat_less_iff)
  have "csv_cell env (json_text env (JDict (lr_data r))) = Some (json_text env (JDict (lr_data r)))"
    using assms(1) j(1) by (simp add: cell_eq)
  then show ?thesis
    using r j(2) assms(1)
    by (cases "lr_trace_id r"; cases "lr_span_id r")
      (simp_all add: cold_log_event_def export_log_def hot_log_event_def or_empty_cell parse_json_field_def)
qed

section \<open>One list of rows\<close>

text \<open>The rows that a query asks for, whatever tier they are in.\<close>

definition wanted :: "log_env \<Rightarrow> int \<Rightarrow> datetime \<Rightarrow> datetime \<Rightarrow> log_filter \<Rightarrow> int option \<Rightarrow> log_row \<Rightarrow> bool" where
  "wanted env org start_dt end_dt f cursor r \<longleftrightarrow>
     lr_org r = org \<and> uuid7_for_timestamp (ms_of env) True start_dt \<le> lr_id r \<and>
     lr_id r < uuid7_for_timestamp (ms_of env) True end_dt \<and>
     given (f_projects f) (\<lambda>ps. lr_project r \<in> set ps) \<and> given (f_levels f) (\<lambda>ls. lr_level r \<in> set ls) \<and>
     given (f_service f) (\<lambda>x. lr_service r = x) \<and> given (f_environment f) (\<lambda>x. lr_environment r = x) \<and>
     given (f_host f) (\<lambda>x. lr_host r = x) \<and> given (f_trace f) (\<lambda>t. lr_trace_id r = uuid_parse t) \<and>
     given (f_query f) (\<lambda>q. contains (lower q) (lower (lr_body r))) \<and>
     (case cursor of None \<Rightarrow> True | Some c \<Rightarrow> lr_id r < c)"

text \<open>A filter that both tiers read alike: a UUID to trace and a query without pattern characters.\<close>

definition filter_ok :: "log_env \<Rightarrow> log_filter \<Rightarrow> bool" where
  "filter_ok env f \<longleftrightarrow> given (f_trace f) (\<lambda>t. uuid_parse t \<noteq> None \<and> pg_uuid env t = uuid_parse t) \<and> given (f_query f) plain"

lemma given_cong: "given x P \<Longrightarrow> (\<And>v. v \<noteq> [] \<Longrightarrow> P v \<Longrightarrow> Q v = R v) \<Longrightarrow> given x Q = given x R"
  by (auto simp: given_def split: option.splits)

lemma given_True: "given x (\<lambda>_. True)"
  by (simp add: given_def split: option.splits)

lemma hot_where_wanted: "filter_ok env f \<Longrightarrow> hot_where env org s e f c = Inr (wanted env org s e f c)"
proof -
  assume ok: "filter_ok env f"
  then have t: "given (f_trace f) (\<lambda>t. pg_uuid env t \<noteq> None)"
    "given (f_trace f) (\<lambda>t. lr_trace_id r = pg_uuid env t) = given (f_trace f) (\<lambda>t. lr_trace_id r = uuid_parse t)" for r
    by (cases "f_trace f"; force simp: filter_ok_def given_def)+
  show ?thesis
    by (simp add: hot_where_def get_range_for_date_def t body_matches_hot wanted_def fun_eq_iff del: not_None_eq)
qed

lemma uuid7_for_timestamp_range:
  "0 \<le> uuid7_for_timestamp ms True t" "uuid7_for_timestamp ms True t < 2 ^ 128"
  using uuid7_bits_range [of 0 0 "max 0 (min (ms t) (2 ^ 48 - 1))"] by (simp_all add: uuid7_for_timestamp_def)

lemma id_text_order:
  assumes "0 \<le> a" "a < 2 ^ 128" "0 \<le> b" "b < 2 ^ 128"
  shows "id_text a < id_text b \<longleftrightarrow> a < b" "id_text a \<le> id_text b \<longleftrightarrow> a \<le> b" "id_text a = id_text b \<longleftrightarrow> a = b"
proof -
  have n: "nat a < 2 ^ 128" "nat b < 2 ^ 128" using assms by (auto simp: nat_less_iff)
  show "id_text a < id_text b \<longleftrightarrow> a < b" "id_text a \<le> id_text b \<longleftrightarrow> a \<le> b"
    unfolding id_text_def uuid_str_less [OF n] uuid_str_le [OF n] using assms by auto
  show "id_text a = id_text b \<longleftrightarrow> a = b"
    using uuid_str_inj [OF n] assms by (auto simp: id_text_def)
qed

lemma cl_id_text: "cl_id (export_log env r) = id_text (lr_id r)"
  by (simp add: export_log_def id_text_def)

lemma cold_where_wanted:
  assumes "filter_ok env f" "csv_ok env" "row_ok env r" and c: "\<And>i. c = Some i \<Longrightarrow> 0 \<le> i \<and> i < 2 ^ 128"
  shows "cold_where env org s e f c (export_log env r) = wanted env org s e f c r"
proof -
  have r: "0 \<le> lr_id r" "lr_id r < 2 ^ 128" "\<And>t. lr_trace_id r = Some t \<Longrightarrow> t < 2 ^ 128"
    using assms(3) by (auto simp: row_ok_def)
  note o = id_text_order(2) [OF uuid7_for_timestamp_range r(1,2)] id_text_order(1) [OF r(1,2) uuid7_for_timestamp_range]
  have cell: "given x (\<lambda>v. csv_cell env t = Some v) = given x (\<lambda>v. t = v)" for x t
    by (cases x) (auto simp: given_def cell_eq [OF assms(2)])
  have trace: "given (f_trace f) (\<lambda>t. case uuid_parse t of None \<Rightarrow> True | Some u \<Rightarrow> cl_trace_id (export_log env r) = Some (uuid_str u)) =
      given (f_trace f) (\<lambda>t. lr_trace_id r = uuid_parse t)"
  proof (rule given_cong)
    show "given (f_trace f) (\<lambda>t. uuid_parse t \<noteq> None)"
      using assms(1) by (cases "f_trace f") (auto simp: filter_ok_def given_def)
    show "(case uuid_parse t of None \<Rightarrow> True | Some u \<Rightarrow> cl_trace_id (export_log env r) = Some (uuid_str u)) = (lr_trace_id r = uuid_parse t)"
      if "uuid_parse t \<noteq> None" for t
      using that r(3) uuid_parse_range uuid_str_inj by (auto simp: export_log_def split: option.splits)
  qed
  have query: "given (f_query f) (\<lambda>q. case csv_cell env (lr_body r) of None \<Rightarrow> False | Some b \<Rightarrow> body_matches None q b) =
      given (f_query f) (\<lambda>q. contains (lower q) (lower (lr_body r)))"
  proof (rule given_cong)
    show "given (f_query f) plain" using assms(1) by (simp add: filter_ok_def)
    show "(case csv_cell env (lr_body r) of None \<Rightarrow> False | Some b \<Rightarrow> body_matches None q b) = contains (lower q) (lower (lr_body r))"
      if "q \<noteq> []" "plain q" for q
    proof (cases "csv_cell env (lr_body r)")
      case None
      then have "lr_body r = []" using assms(2) by (metis csv_ok_def option.discI)
      with None that(1) show ?thesis by (simp add: lower_def)
    next
      case (Some b)
      then have "b = lr_body r" using assms(2) by (metis csv_ok_def option.discI option.inject)
      with Some that(2) show ?thesis by (simp add: body_matches_cold)
    qed
  qed
  have cur: "(case c of None \<Rightarrow> True | Some i \<Rightarrow> id_text (lr_id r) < id_text i) = (case c of None \<Rightarrow> True | Some i \<Rightarrow> lr_id r < i)"
    using c id_text_order(1) [OF r(1,2)] by (auto split: option.splits)
  have cols: "cl_org (export_log env r) = lr_org r" "cl_project (export_log env r) = lr_project r" "cl_level (export_log env r) = lr_level r"
    "cl_body (export_log env r) = csv_cell env (lr_body r)" "cl_service (export_log env r) = csv_cell env (lr_service r)"
    "cl_environment (export_log env r) = csv_cell env (lr_environment r)" "cl_host (export_log env r) = csv_cell env (lr_host r)"
    by (simp_all add: export_log_def)
  show ?thesis
    unfolding cold_where_def wanted_def get_range_for_date_def Let_def prod.case cl_id_text cur cols cell trace query o by (rule refl)
qed

section \<open>Descending lists\<close>

definition desc :: "('a \<Rightarrow> 'k :: linorder) \<Rightarrow> 'a list \<Rightarrow> bool" where
  "desc key = sorted_wrt (\<lambda>x y. key y < key x)"

lemma desc_simps [simp]: "desc key []" "desc key (x # xs) \<longleftrightarrow> (\<forall>y\<in>set xs. key y < key x) \<and> desc key xs"
  by (simp_all add: desc_def)

lemma desc_append: "desc key (xs @ ys) \<longleftrightarrow> desc key xs \<and> desc key ys \<and> (\<forall>x\<in>set xs. \<forall>y\<in>set ys. key y < key x)"
  by (auto simp: desc_def sorted_wrt_append)

lemma desc_take: "desc key xs \<Longrightarrow> desc key (take n xs)"
  by (metis append_take_drop_id desc_append)

lemma desc_filter: "desc key xs \<Longrightarrow> desc key (filter P xs)"
  by (simp add: desc_def sorted_wrt_filter)

lemma set_newest_first [simp]: "set (newest_first key xs) = set xs"
  by (simp add: newest_first_def)

lemma mset_newest_first [simp]: "mset (newest_first key xs) = mset xs"
  by (simp add: newest_first_def)

lemma length_newest_first [simp]: "length (newest_first key xs) = length xs"
  by (simp add: newest_first_def)

lemma desc_distinct: "desc key xs \<Longrightarrow> distinct (map key xs)"
  by (induction xs) force+

lemma sorted_rev_desc: "desc key xs \<Longrightarrow> sorted (map key (rev xs))"
proof (induction xs)
  case (Cons x xs)
  then show ?case by (force simp: sorted_append)
qed simp

text \<open>With distinct keys the order is the only one.\<close>

lemma newest_first_eqI:
  assumes "desc key ys" "mset ys = mset xs"
  shows "newest_first key xs = ys"
proof -
  have "sort_key key (rev xs) = rev ys"
  proof (rule sort_key_inj_key_eq)
    show "mset (rev xs) = mset (rev ys)" using assms(2) by simp
    have "inj_on key (set ys)" using desc_distinct [OF assms(1)] by (simp add: distinct_map)
    then show "inj_on key (set (rev xs))" using mset_eq_setD [OF assms(2)] by simp
    show "sorted (map key (rev ys))" by (rule sorted_rev_desc [OF assms(1)])
  qed
  then show ?thesis by (simp add: newest_first_def)
qed

lemma newest_first_desc: "desc key xs \<Longrightarrow> newest_first key xs = xs"
  by (rule newest_first_eqI) simp_all

lemma desc_newest_first:
  assumes "distinct (map key xs)"
  shows "desc key (newest_first key xs)"
proof -
  let ?ys = "sort_key key (rev xs)"
  have d: "distinct (map key ?ys)" using assms by (simp add: distinct_map)
  have "sorted_wrt (<) (map key ?ys)" using d by (simp add: strict_sorted_iff)
  then show ?thesis by (simp add: newest_first_def desc_def sorted_wrt_rev sorted_wrt_map)
qed

lemma newest_first_append:
  assumes "distinct (map key (xs @ ys))" "\<forall>x\<in>set xs. \<forall>y\<in>set ys. key y < key x"
  shows "newest_first key (xs @ ys) = newest_first key xs @ newest_first key ys"
  using assms by (intro newest_first_eqI) (simp_all add: desc_append desc_newest_first)

lemma newest_first_map:
  assumes "distinct (map k xs)" "\<And>x y. x \<in> set xs \<Longrightarrow> y \<in> set xs \<Longrightarrow> key (g x) < key (g y) \<longleftrightarrow> k x < k y"
  shows "newest_first key (map g xs) = map g (newest_first k xs)"
proof (rule newest_first_eqI)
  have "desc key (map g ys)" if "desc k ys" "set ys \<subseteq> set xs" for ys
    using that assms(2) by (induction ys) auto
  then show "desc key (map g (newest_first k xs))" using desc_newest_first [OF assms(1)] by simp
qed simp

lemma newest_first_filter:
  assumes "distinct (map key xs)"
  shows "filter P (newest_first key xs) = newest_first key (filter P xs)"
  using assms by (intro newest_first_eqI [symmetric]) (simp_all add: desc_filter desc_newest_first)

lemma newest_first_mset:
  assumes "mset xs = mset ys" "distinct (map key xs)"
  shows "newest_first key xs = newest_first key ys"
  using assms by (intro newest_first_eqI [symmetric]) (simp_all add: desc_newest_first)

section \<open>Reading the files of days\<close>

text \<open>
  Cold storage as archiving leaves it when a day fits one file: every listed file is named after a date and
  holds rows of that day.
\<close>

definition LOGS :: string where "LOGS = ''logs_logevent''"

definition file_rows :: "'a files \<Rightarrow> path \<Rightarrow> 'a list" where
  "file_rows fs p = (case map_of fs p of None \<Rightarrow> [] | Some f \<Rightarrow> rows_of f)"

definition day_bound :: "log_env \<Rightarrow> int \<Rightarrow> int" where
  "day_bound env day = uuid7_for_timestamp (ms_of env) True (day * US_PER_DAY)"

definition log_day_file :: "log_env \<Rightarrow> int \<Rightarrow> log_row files \<Rightarrow> path \<Rightarrow> bool" where
  "log_day_file env org fs p \<longleftrightarrow>
     (\<exists>date day. p = get_org_cold_storage_path LOGS org date \<and> strptime_date date = Some day \<and>
        (\<exists>rows. map_of fs p = Some (Parquet rows)) \<and>
        (\<forall>r\<in>set (file_rows fs p). row_ok env r \<and> day_bound env day \<le> lr_id r \<and> lr_id r < day_bound env (day + 1)))"

definition day_files :: "log_env \<Rightarrow> backend \<Rightarrow> int \<Rightarrow> log_row files \<Rightarrow> bool" where
  "day_files env be org fs \<longleftrightarrow> (\<forall>p\<in>set (enumerate_org_parquet_files be LOGS org None fs). log_day_file env org fs p)"

definition archived_rows :: "backend \<Rightarrow> int \<Rightarrow> log_row files \<Rightarrow> log_row list" where
  "archived_rows be org fs = concat (map (file_rows fs) (enumerate_org_parquet_files be LOGS org None fs))"

definition ms_mono :: "log_env \<Rightarrow> bool" where
  "ms_mono env \<longleftrightarrow> (\<forall>s t. s \<le> t \<longrightarrow> ms_of env s \<le> ms_of env t)"

lemma uuid7_bound_mono: "ms_mono env \<Longrightarrow> s \<le> t \<Longrightarrow> uuid7_for_timestamp (ms_of env) True s \<le> uuid7_for_timestamp (ms_of env) True t"
proof -
  assume a: "ms_mono env" "s \<le> t"
  then have "max 0 (min (ms_of env s) (2 ^ 48 - 1)) \<le> max 0 (min (ms_of env t) (2 ^ 48 - 1))"
    by (simp add: ms_mono_def max.coboundedI2 min.coboundedI1)
  then show ?thesis using uuid7_order [of 0 0] by (simp add: uuid7_for_timestamp_def)
qed

lemma day_file_order:
  assumes "ms_mono env" "log_day_file env org fs p" "log_day_file env org fs q" "p < q"
    and "x \<in> set (file_rows fs p)" "y \<in> set (file_rows fs q)"
  shows "lr_id x < lr_id y"
proof -
  obtain s a where s: "p = get_org_cold_storage_path LOGS org s" "strptime_date s = Some a"
      "\<forall>r\<in>set (file_rows fs p). lr_id r < day_bound env (a + 1)"
    using assms(2) by (auto simp: log_day_file_def)
  obtain t b where t: "q = get_org_cold_storage_path LOGS org t" "strptime_date t = Some b"
      "\<forall>r\<in>set (file_rows fs q). day_bound env b \<le> lr_id r"
    using assms(3) by (auto simp: log_day_file_def)
  have l: "length s = length t" using s(2) t(2) by (auto simp: strptime_date_def split: if_splits)
  have "s < t" using assms(4) append_less [OF l] by (simp add: s(1) t(1) get_org_cold_storage_path_def org_prefix_def)
  then have "a + 1 \<le> b" using strptime_mono [OF s(2) t(2)] by simp
  then have "(a + 1) * US_PER_DAY \<le> b * US_PER_DAY" by simp
  then have "day_bound env (a + 1) \<le> day_bound env b"
    unfolding day_bound_def by (rule uuid7_bound_mono [OF assms(1)])
  then show ?thesis using s(3) t(3) assms(5,6) by fastforce
qed

text \<open>The listing of such a directory is the flat files in the order of their names.\<close>

lemma no_chunks:
  assumes "day_files env be org fs" "p \<in> set (enumerate_org_parquet_files be LOGS org rng fs)"
  shows "\<exists>f. p = org_prefix LOGS org @ [f] \<and> is_parquet f \<and> in_range rng (stem f)" "p \<in> set (enumerate_org_parquet_files be LOGS org None fs)"
proof -
  show m: "p \<in> set (enumerate_org_parquet_files be LOGS org None fs)"
    using assms(2) unfolding in_enumerate by (auto simp: in_range_def)
  then obtain date where "p = org_prefix LOGS org @ [date @ ''.parquet'']"
    using assms(1) by (auto simp: day_files_def log_day_file_def get_org_cold_storage_path_def)
  with assms(2) show "\<exists>f. p = org_prefix LOGS org @ [f] \<and> is_parquet f \<and> in_range rng (stem f)"
    unfolding in_enumerate by auto
qed

lemma empty_listI: "(\<And>x. x \<notin> set xs) \<Longrightarrow> xs = []"
  by (cases xs) auto

lemma sorted_enumerate:
  assumes "day_files env be org fs" "dict_ok fs"
  shows "sorted_wrt (<) (enumerate_org_parquet_files be LOGS org rng fs)"
proof (rule listdir_cases [of be "org_prefix LOGS org" fs])
  fix dirs files assume l: "can_list be" "listdir be (org_prefix LOGS org) fs = Some (dirs, files)"
  let ?P = "org_prefix LOGS org"
  let ?flat = "[f \<leftarrow> sort files. is_parquet f \<and> in_range rng (stem f)]"
  let ?dirs = "[d \<leftarrow> sort dirs. d \<notin> set (map stem ?flat) \<and> in_range rng d]"
  have e: "enumerate_org_parquet_files be LOGS org rng fs =
      map (\<lambda>f. ?P @ [f]) ?flat @ concat (map (\<lambda>d. parquet_in be (?P @ [d]) fs) ?dirs)"
    by (simp add: enumerate_org_parquet_files_def l Let_def)
  have four: "length p = 4" if "p \<in> set (enumerate_org_parquet_files be LOGS org rng fs)" for p
    using no_chunks(1) [OF assms(1) that] by (auto simp: org_prefix_def)
  have five: "length p = 5" if "p \<in> set (parquet_in be (?P @ [d]) fs)" for p d
    using that by (auto simp: set_parquet_in org_prefix_def split: if_splits)
  have "p \<notin> set (concat (map (\<lambda>d. parquet_in be (?P @ [d]) fs) ?dirs))" for p
  proof
    assume p: "p \<in> set (concat (map (\<lambda>d. parquet_in be (?P @ [d]) fs) ?dirs))"
    then have "length p = 4" by (intro four) (simp only: e set_append Un_iff simp_thms)
    moreover obtain d where "p \<in> set (parquet_in be (?P @ [d]) fs)" using p by auto
    ultimately show False using five by fastforce
  qed
  then have "concat (map (\<lambda>d. parquet_in be (?P @ [d]) fs) ?dirs) = []"
    by (rule empty_listI)
  moreover have "sorted_wrt (<) (sort files)"
    using listdir_distinct(2) [OF l(2) assms(2)] by (simp add: strict_sorted_iff)
  then have "sorted_wrt (<) (map (\<lambda>f. ?P @ [f]) ?flat)"
    by (simp add: sorted_wrt_map sorted_wrt_filter org_prefix_def)
  ultimately show ?thesis by (simp only: e append_Nil2)
qed (simp add: enumerate_org_parquet_files_def)

text \<open>Reading stops early and still finds the newest rows.\<close>

lemma distinct_map_filter: "distinct (map f xs) \<Longrightarrow> distinct (map f (filter P xs))"
  by (induction xs) auto

lemma file_page:
  assumes "\<forall>r\<in>set rows. row_ok env r \<and> P (export_log env r) = Q r" "distinct (map lr_id rows)"
  shows "newest_first cl_id (filter P (map (export_log env) rows)) = map (export_log env) (newest_first lr_id (filter Q rows))"
proof -
  have "filter P (map (export_log env) rows) = map (export_log env) (filter Q rows)"
    using assms(1) by (simp add: filter_map comp_def cong: filter_cong)
  moreover have "newest_first cl_id (map (export_log env) (filter Q rows)) = map (export_log env) (newest_first lr_id (filter Q rows))"
    using assms by (intro newest_first_map distinct_map_filter) (auto simp: cl_id_text id_text_order row_ok_def)
  ultimately show ?thesis by simp
qed

lemma take_full: "n \<le> length (acc @ take n xs) \<Longrightarrow> take n (acc @ take n xs) = take n (acc @ xs @ ys)"
  by (cases "n \<le> length acc") (auto simp: min_def split: if_splits)

lemma query_files_newest:
  assumes "\<forall>p\<in>set ps. duck_reads env p \<and> (\<exists>rows. map_of fs p = Some (Parquet rows))"
    and "\<forall>p\<in>set ps. \<forall>r\<in>set (file_rows fs p). row_ok env r \<and> P (export_log env r) = Q r"
    and "sorted_wrt (\<lambda>p q. \<forall>x\<in>set (file_rows fs p). \<forall>y\<in>set (file_rows fs q). lr_id y < lr_id x) ps"
    and "distinct (map lr_id (concat (map (file_rows fs) ps)))"
    and "desc lr_id acc" "\<forall>x\<in>set acc. \<forall>p\<in>set ps. \<forall>y\<in>set (file_rows fs p). lr_id y < lr_id x"
  shows "\<exists>Y. query_files env be P n (Some n) ps (map (export_log env) acc) fs = (Inr (map (export_log env) Y), fs) \<and>
    desc lr_id Y \<and> set Y \<subseteq> set acc \<union> (\<Union>p\<in>set ps. set (file_rows fs p)) \<and>
    take n Y = take n (acc @ newest_first lr_id (filter Q (concat (map (file_rows fs) ps))))"
  using assms
proof (induction ps arbitrary: acc)
  case Nil
  then show ?case by (auto simp: newest_first_def)
next
  case (Cons p ps)
  obtain rows where rows: "map_of fs p = Some (Parquet rows)" "file_rows fs p = rows"
    using Cons.prems(1) by (auto simp: file_rows_def)
  let ?A = "newest_first lr_id (filter Q rows)"
  let ?rest = "concat (map (file_rows fs) ps)"
  let ?acc = "acc @ take n ?A"
  have d: "distinct (map lr_id rows)" "distinct (map lr_id ?rest)" using Cons.prems(4) rows(2) by auto
  have page: "newest_first cl_id (filter P (map (export_log env) rows)) = map (export_log env) ?A"
    using Cons.prems(2) rows(2) d(1) by (intro file_page) auto
  have less: "\<forall>x\<in>set rows. \<forall>y\<in>set ?rest. lr_id y < lr_id x"
    using Cons.prems(3) rows(2) by auto
  have split: "newest_first lr_id (filter Q (rows @ ?rest)) = ?A @ newest_first lr_id (filter Q ?rest)"
    using Cons.prems(4) rows(2) less unfolding filter_append
    by (intro newest_first_append) (auto simp: distinct_map_filter dest: distinct_map_filter [of _ _ Q])
  have acc: "desc lr_id ?acc"
    using Cons.prems(5,6) rows(2) d(1) unfolding desc_append
    by (auto intro!: desc_take desc_newest_first distinct_map_filter dest!: in_set_takeD)
  have sub: "set ?acc \<subseteq> set acc \<union> set rows" by (auto dest!: in_set_takeD)
  have step: "query_files env be P n (Some n) (p # ps) (map (export_log env) acc) fs =
      (if n \<le> length ?acc then (Inr (map (export_log env) ?acc), fs)
       else query_files env be P n (Some n) ps (map (export_log env) ?acc) fs)"
  proof -
    have "map (export_log env) acc @ take n (map (export_log env) ?A) = map (export_log env) ?acc" by (simp add: take_map)
    moreover have "duck_reads env p" using Cons.prems(1) by simp
    ultimately show ?thesis by (simp only: query_files.simps rows(1) page Let_def option.case cold_file.case length_map simp_thms if_False)
  qed
  show ?case
  proof (cases "n \<le> length ?acc")
    case True
    have "take n ?acc = take n (acc @ newest_first lr_id (filter Q (concat (map (file_rows fs) (p # ps)))))"
      using take_full [OF True] by (simp only: list.map concat.simps rows(2) split)
    moreover have "query_files env be P n (Some n) (p # ps) (map (export_log env) acc) fs = (Inr (map (export_log env) ?acc), fs)"
      using step True by (simp only: if_True)
    moreover have "set ?acc \<subseteq> set acc \<union> (\<Union>q\<in>set (p # ps). set (file_rows fs q))" using sub rows(2) by auto
    ultimately show ?thesis using acc by (intro exI [of _ ?acc] conjI)
  next
    case False
    have later: "\<forall>x\<in>set ?acc. \<forall>q\<in>set ps. \<forall>y\<in>set (file_rows fs q). lr_id y < lr_id x"
      using Cons.prems(6) less sub by fastforce
    have "\<exists>Y. query_files env be P n (Some n) ps (map (export_log env) ?acc) fs = (Inr (map (export_log env) Y), fs) \<and>
        desc lr_id Y \<and> set Y \<subseteq> set ?acc \<union> (\<Union>p\<in>set ps. set (file_rows fs p)) \<and>
        take n Y = take n (?acc @ newest_first lr_id (filter Q ?rest))"
      by (rule Cons.IH [OF _ _ _ d(2) acc later]) (use Cons.prems(1-3) in simp_all)
    then obtain Y where Y: "query_files env be P n (Some n) ps (map (export_log env) ?acc) fs = (Inr (map (export_log env) Y), fs)"
        "desc lr_id Y" "set Y \<subseteq> set ?acc \<union> (\<Union>p\<in>set ps. set (file_rows fs p))"
        "take n Y = take n (?acc @ newest_first lr_id (filter Q ?rest))"
      by (elim exE conjE) (rule that)
    have full: "take n ?A = ?A" using False by simp
    have "take n Y = take n (acc @ newest_first lr_id (filter Q (concat (map (file_rows fs) (p # ps)))))"
      using Y(4) by (simp only: full list.map concat.simps rows(2) split append_assoc)
    moreover have "query_files env be P n (Some n) (p # ps) (map (export_log env) acc) fs = (Inr (map (export_log env) Y), fs)"
      using step False Y(1) by (simp only: if_False)
    moreover have "set Y \<subseteq> set acc \<union> (\<Union>q\<in>set (p # ps). set (file_rows fs q))" using Y(3) sub rows(2) by auto
    ultimately show ?thesis using Y(2) by (intro exI [of _ Y] conjI)
  qed
qed

section \<open>The cold tier\<close>

definition cold_ready :: "log_env \<Rightarrow> backend \<Rightarrow> int \<Rightarrow> log_row files \<Rightarrow> bool" where
  "cold_ready env be org fs \<longleftrightarrow>
     duckdb_on env \<and> slot_free env \<and> log_backend env = Some be \<and> csv_ok env \<and> ms_mono env \<and> dict_ok fs \<and>
     day_files env be org fs \<and> (\<forall>p\<in>set (enumerate_org_parquet_files be LOGS org None fs). duck_reads env p) \<and>
     distinct (map lr_id (archived_rows be org fs))"

lemma strict_sorted_sublist:
  fixes xs ys :: "'a :: linorder list"
  assumes "sorted_wrt (<) xs" "sorted_wrt (<) ys" "set ys \<subseteq> set xs"
  shows "ys = filter (\<lambda>x. x \<in> set ys) xs"
proof (rule strict_sorted_equal)
  show "sorted_wrt (<) (filter (\<lambda>x. x \<in> set ys) xs)" using assms(1) by (simp add: sorted_wrt_filter)
qed (use assms in auto)

lemma out_of_range:
  assumes "ms_mono env" "day_files env be org fs"
    and p: "p \<in> set (enumerate_org_parquet_files be LOGS org None fs)" "p \<notin> set (enumerate_org_parquet_files be LOGS org (Some (s, e)) fs)"
    and r: "r \<in> set (file_rows fs p)"
  shows "\<not> wanted env org s e f c r"
proof -
  obtain date day where d: "p = get_org_cold_storage_path LOGS org date" "strptime_date date = Some day"
      "day_bound env day \<le> lr_id r" "lr_id r < day_bound env (day + 1)"
    using assms(2) p(1) r by (auto simp: day_files_def log_day_file_def)
  have "\<not> in_range (Some (s, e)) date"
    using p unfolding in_enumerate by (auto simp: d(1) get_org_cold_storage_path_def)
  then consider "e \<le> day * US_PER_DAY" | "(day + 1) * US_PER_DAY \<le> s"
    by (auto simp: in_range_def date_in_range_def d(2) algebra_simps)
  then show ?thesis
  proof cases
    case 1
    then show ?thesis using uuid7_bound_mono [OF assms(1) 1] d(3) by (simp add: wanted_def day_bound_def)
  next
    case 2
    then show ?thesis using uuid7_bound_mono [OF assms(1) 2] d(4) by (simp add: wanted_def day_bound_def)
  qed
qed

lemma archived_in_range:
  assumes "ms_mono env" "day_files env be org fs" "dict_ok fs"
  shows "filter (wanted env org s e f c) (archived_rows be org fs) =
    filter (wanted env org s e f c) (concat (map (file_rows fs) (enumerate_org_parquet_files be LOGS org (Some (s, e)) fs)))"
proof -
  let ?all = "enumerate_org_parquet_files be LOGS org None fs" and ?in = "enumerate_org_parquet_files be LOGS org (Some (s, e)) fs"
  have eq: "?in = filter (\<lambda>p. p \<in> set ?in) ?all"
    using no_chunks(2) [OF assms(2)] sorted_enumerate [OF assms(2,3)] by (intro strict_sorted_sublist) auto
  have "filter Q (concat (map R ps)) = filter Q (concat (map R (filter I ps)))"
    if "\<forall>p\<in>set ps. \<not> I p \<longrightarrow> (\<forall>r\<in>set (R p). \<not> Q r)" for Q R I and ps :: "path list"
    using that by (induction ps) (auto simp: filter_False)
  from this [of ?all "\<lambda>p. p \<in> set ?in" "file_rows fs" "wanted env org s e f c"]
  show ?thesis using out_of_range [OF assms(1,2)] unfolding archived_rows_def by (subst eq) blast
qed

lemma all_some_map: "\<forall>x\<in>set xs. f x = Some (g x) \<Longrightarrow> all_some (map f xs) = Some (map g xs)"
  by (induction xs) auto

lemma le_id_hot [simp]: "le_id (hot_log_event env r) = lr_id r"
  by (simp add: hot_log_event_def)

lemma newest_events: "desc lr_id Y \<Longrightarrow> newest_first le_id (map (hot_log_event env) Y) = map (hot_log_event env) Y"
  using newest_first_map [of lr_id Y le_id "hot_log_event env"] desc_distinct [of lr_id Y] by (simp add: newest_first_desc)

lemma archived_row:
  assumes "day_files env be org fs" "r \<in> set (archived_rows be org fs)"
  shows "row_ok env r"
  using assms by (auto simp: archived_rows_def day_files_def log_day_file_def)

lemma cold_is_newest:
  assumes ready: "cold_ready env be org fs" and f: "filter_ok env f" and c: "\<And>i. c = Some i \<Longrightarrow> 0 \<le> i \<and> i < 2 ^ 128"
  shows "query_cold_storage env org s e f n c fs =
    (Inr (map (hot_log_event env) (take n (newest_first lr_id (filter (wanted env org s e f c) (archived_rows be org fs))))), fs)"
proof -
  have on: "duckdb_on env" "slot_free env" "log_backend env = Some be" "csv_ok env" "ms_mono env" "dict_ok fs" "day_files env be org fs"
    and reads: "\<And>p. p \<in> set (enumerate_org_parquet_files be LOGS org None fs) \<Longrightarrow> duck_reads env p"
    and dist: "distinct (map lr_id (archived_rows be org fs))"
    using ready by (auto simp: cold_ready_def)
  let ?ps = "enumerate_org_parquet_files be LOGS org (Some (s, e)) fs"
  let ?P = "cold_where env org s e f c" and ?Q = "wanted env org s e f c"
  let ?rows = "concat (map (file_rows fs) (rev ?ps))"
  have sub: "set (file_rows fs p) \<subseteq> set (archived_rows be org fs)" if "p \<in> set ?ps" for p
    using no_chunks(2) [OF on(7) that] by (auto simp: archived_rows_def)
  have dayf: "log_day_file env org fs p" if "p \<in> set ?ps" for p
    using no_chunks(2) [OF on(7) that] on(7) by (simp add: day_files_def)
  have "distinct (map lr_id (concat (map (file_rows fs) ?ps)))"
  proof -
    have eq: "?ps = filter (\<lambda>p. p \<in> set ?ps) (enumerate_org_parquet_files be LOGS org None fs)"
      using no_chunks(2) [OF on(7)] sorted_enumerate [OF on(7,6)] by (intro strict_sorted_sublist) auto
    have "distinct (map g (concat (map R (filter I ps))))" if "distinct (map g (concat (map R ps)))"
      for g :: "log_row \<Rightarrow> int" and R I and ps :: "path list"
      using that by (induction ps) auto
    then show ?thesis using dist unfolding archived_rows_def by (subst eq) blast
  qed
  moreover have m: "mset (concat (map (file_rows fs) ?ps)) = mset ?rows"
    by (simp add: mset_concat rev_map [symmetric] sum_list_rev)
  ultimately have d: "distinct (map lr_id ?rows)"
    by (metis mset_eq_imp_distinct_iff mset_map)
  have order: "sorted_wrt (\<lambda>p q. \<forall>x\<in>set (file_rows fs p). \<forall>y\<in>set (file_rows fs q). lr_id y < lr_id x) (rev ?ps)"
    unfolding sorted_wrt_rev
    by (rule sorted_wrt_mono_rel [OF _ sorted_enumerate [OF on(7,6)]]) (use dayf day_file_order [OF on(5)] in blast)
  have rows: "\<forall>p\<in>set (rev ?ps). \<forall>r\<in>set (file_rows fs p). row_ok env r \<and> ?P (export_log env r) = ?Q r"
    using sub archived_row [OF on(7)] cold_where_wanted [OF f on(4) _ c] by (auto simp: subset_iff)
  have readable: "\<forall>p\<in>set (rev ?ps). duck_reads env p \<and> (\<exists>rows. map_of fs p = Some (Parquet rows))"
    using dayf reads no_chunks(2) [OF on(7)] by (simp add: log_day_file_def) blast
  obtain Y where Y: "query_files env be ?P n (Some n) (rev ?ps) [] fs = (Inr (map (export_log env) Y), fs)"
      "desc lr_id Y" "set Y \<subseteq> (\<Union>p\<in>set ?ps. set (file_rows fs p))"
      "take n Y = take n (newest_first lr_id (filter ?Q ?rows))"
    using query_files_newest [OF readable rows order d, of "[]" be n] by auto
  have "query_cold_parquet_files env org LOGS ?P n (Some (s, e)) (Some n) fs = (Inr (map (export_log env) Y), fs)"
    using Y(1) on(2,3) by (cases "?ps = []") (simp_all add: query_cold_parquet_files_def Let_def)
  moreover have "all_some (map (cold_log_event env) (map (export_log env) Y)) = Some (map (hot_log_event env) Y)"
    using Y(3) rows cold_event_export [OF on(4)] unfolding map_map by (intro all_some_map) auto
  ultimately have "query_cold_storage env org s e f n c fs = (Inr (map (hot_log_event env) (take n Y)), fs)"
    using on(1) by (simp add: query_cold_storage_def LOGS_def [symmetric] newest_events [OF Y(2)] take_map)
  moreover have "newest_first lr_id (filter ?Q ?rows) = newest_first lr_id (filter ?Q (archived_rows be org fs))"
    unfolding archived_in_range [OF on(5,7,6)]
    using m d by (intro newest_first_mset distinct_map_filter) (simp_all add: mset_filter)
  ultimately show ?thesis using Y(4) by simp
qed

section \<open>Both tiers\<close>

text \<open>
  What the listing can show: the rows of the table from the cutoff on and the archived rows before it. The
  time of a cursor is compared with the cutoff, which agrees with the order of ids unless both fall into
  one millisecond.
\<close>

definition hot_cutoff :: "log_env \<Rightarrow> datetime \<Rightarrow> datetime" where
  "hot_cutoff env now = now - HOT_STORAGE_DAYS env * US_PER_DAY"

definition visible_rows :: "log_env \<Rightarrow> backend \<Rightarrow> datetime \<Rightarrow> int \<Rightarrow> log_tiers \<Rightarrow> log_row list" where
  "visible_rows env be now org st =
     (let H = uuid7_for_timestamp (ms_of env) True (hot_cutoff env now) in
      filter (\<lambda>r. H \<le> lr_id r) (hot_rows st) @ filter (\<lambda>r. lr_id r < H) (archived_rows be org (cold_logs st)))"

definition cursor_ok :: "log_env \<Rightarrow> datetime \<Rightarrow> int option \<Rightarrow> bool" where
  "cursor_ok env now c \<longleftrightarrow>
     (case c of None \<Rightarrow> True
      | Some i \<Rightarrow> 0 \<le> i \<and> i < 2 ^ 128 \<and>
          (case extract_datetime i of None \<Rightarrow> False
           | Some t \<Rightarrow> t \<le> hot_cutoff env now \<longrightarrow> i \<le> uuid7_for_timestamp (ms_of env) True (hot_cutoff env now)))"

definition tiers_ready :: "log_env \<Rightarrow> backend \<Rightarrow> datetime \<Rightarrow> int \<Rightarrow> log_tiers \<Rightarrow> bool" where
  "tiers_ready env be now org st \<longleftrightarrow>
     cold_ready env be org (cold_logs st) \<and> distinct (map lr_id (visible_rows env be now org st))"

lemma uuid7_bound_max_min:
  assumes "ms_mono env"
  shows "uuid7_for_timestamp (ms_of env) True (max s t) = max (uuid7_for_timestamp (ms_of env) True s) (uuid7_for_timestamp (ms_of env) True t)"
    "uuid7_for_timestamp (ms_of env) True (min s t) = min (uuid7_for_timestamp (ms_of env) True s) (uuid7_for_timestamp (ms_of env) True t)"
proof -
  have "mono (uuid7_for_timestamp (ms_of env) True)" using uuid7_bound_mono [OF assms] by (simp add: monoI)
  then show "uuid7_for_timestamp (ms_of env) True (max s t) = max (uuid7_for_timestamp (ms_of env) True s) (uuid7_for_timestamp (ms_of env) True t)"
    "uuid7_for_timestamp (ms_of env) True (min s t) = min (uuid7_for_timestamp (ms_of env) True s) (uuid7_for_timestamp (ms_of env) True t)"
    by (simp_all add: max_of_mono min_of_mono)
qed

lemma wanted_hot_part:
  assumes "ms_mono env"
  shows "filter (wanted env org s e f c) (filter (\<lambda>r. uuid7_for_timestamp (ms_of env) True K \<le> lr_id r) rows) =
    filter (wanted env org (max s K) e f c) rows"
  unfolding filter_filter by (rule filter_cong) (auto simp: wanted_def uuid7_bound_max_min [OF assms])

lemma wanted_cold_part:
  assumes "ms_mono env"
  shows "filter (wanted env org s e f c) (filter (\<lambda>r. lr_id r < uuid7_for_timestamp (ms_of env) True K) rows) =
    filter (wanted env org s (min e K) f c) rows"
  unfolding filter_filter by (rule filter_cong) (auto simp: wanted_def uuid7_bound_max_min [OF assms])

lemma hot_is_newest:
  assumes "filter_ok env f"
  shows "query_hot_storage env org s e f n c rows =
    Inr (map (hot_log_event env) (take n (newest_first lr_id (filter (wanted env org s e f c) rows))))"
  by (simp add: query_hot_storage_def hot_where_wanted [OF assms])

lemma merge_pages:
  assumes "length A < n"
  shows "take n (A @ take n B) = take n (A @ B)"
  using assms by (auto simp: min_def)

lemma combined_is_newest:
  assumes ready: "tiers_ready env be now org st" and f: "filter_ok env f" and c: "cursor_ok env now c"
  shows "query_logs_combined env now org s e f n c st =
    (Inr (map (hot_log_event env) (take n (newest_first lr_id (filter (wanted env org s e f c) (visible_rows env be now org st))))),
     cold_logs st)"
proof -
  let ?K = "hot_cutoff env now"
  let ?H = "uuid7_for_timestamp (ms_of env) True ?K"
  let ?h = "filter (wanted env org (max s ?K) e f c) (hot_rows st)"
  let ?c = "filter (wanted env org s (min e ?K) f c) (archived_rows be org (cold_logs st))"
  have cr: "cold_ready env be org (cold_logs st)" and mono: "ms_mono env" and dist: "distinct (map lr_id (visible_rows env be now org st))"
    using ready by (auto simp: tiers_ready_def cold_ready_def)
  have parts: "filter (wanted env org s e f c) (visible_rows env be now org st) = ?h @ ?c"
    by (simp only: visible_rows_def Let_def filter_append wanted_hot_part [OF mono] wanted_cold_part [OF mono])
  have d: "distinct (map lr_id (?h @ ?c))" using distinct_map_filter [OF dist] unfolding parts [symmetric] .
  have bounds: "\<forall>x\<in>set ?h. ?H \<le> lr_id x" "\<forall>x\<in>set ?c. lr_id x < ?H"
    by (auto simp: wanted_def uuid7_bound_max_min [OF mono])
  define A where "A = newest_first lr_id ?h"
  define B where "B = newest_first lr_id ?c"
  have split: "newest_first lr_id (?h @ ?c) = A @ B"
    unfolding A_def B_def using bounds d by (intro newest_first_append) fastforce+
  have AB: "desc lr_id (A @ B)" using desc_newest_first [OF d] by (simp only: split)
  have cr_c: "\<And>i. c = Some i \<Longrightarrow> 0 \<le> i \<and> i < 2 ^ 128" using c by (simp add: cursor_ok_def)
  have hot: "query_hot_storage env org (max s ?K) e f n c (hot_rows st) = Inr (map (hot_log_event env) (take n A))"
    by (simp add: hot_is_newest [OF f] A_def)
  have cold: "query_cold_storage env org s (min e ?K) f n c (cold_logs st) = (Inr (map (hot_log_event env) (take n B)), cold_logs st)"
    by (simp add: cold_is_newest [OF cr f cr_c] B_def)
  have no_hot: "A = []" if "e \<le> ?K \<or> (\<exists>i t. c = Some i \<and> extract_datetime i = Some t \<and> t \<le> ?K)"
  proof -
    have "\<not> wanted env org (max s ?K) e f c r" for r
      using that uuid7_bound_mono [OF mono, of e ?K] c
      by (auto simp: wanted_def uuid7_bound_max_min [OF mono] cursor_ok_def)
    then show ?thesis by (simp add: A_def newest_first_def)
  qed
  have no_cold: "B = []" if "?K \<le> s"
  proof -
    have "\<not> wanted env org s (min e ?K) f c r" for r
      using uuid7_bound_mono [OF mono that] by (auto simp: wanted_def uuid7_bound_max_min [OF mono])
    then show ?thesis by (simp add: B_def newest_first_def)
  qed
  have page: "newest_first le_id (map (hot_log_event env) xs) = map (hot_log_event env) xs" if "desc lr_id xs" for xs
    using newest_events [OF that] .
  have A: "desc lr_id (take n A)" and B: "desc lr_id (take n B)" and m: "desc lr_id (take n A @ take n B)"
    using AB by (auto simp: desc_append desc_take dest!: in_set_takeD)
  note defs = query_logs_combined_def Let_def hot_cutoff_def [symmetric] hot cold
  show ?thesis
    unfolding parts split
  proof (cases "tiers_needed s e ?K c")
    case None
    then show "query_logs_combined env now org s e f n c st = (Inr (map (hot_log_event env) (take n (A @ B))), cold_logs st)"
      using c by (auto simp: tiers_needed_def cursor_ok_def Let_def split: option.splits if_splits)
  next
    case (Some nd)
    show "query_logs_combined env now org s e f n c st = (Inr (map (hot_log_event env) (take n (A @ B))), cold_logs st)"
    proof (cases nd)
      case (Pair nh nc)
      have n1: "\<not> nh \<Longrightarrow> A = []" "\<not> nc \<Longrightarrow> B = []"
        using Some Pair no_hot no_cold c
        by (auto simp: tiers_needed_def Let_def cursor_ok_def not_less split: option.splits if_splits)
      show ?thesis
      proof (cases "nh \<and> nc")
        case True
        then have t: "tiers_needed s e ?K c = Some (True, True)" using Some Pair by simp
        show ?thesis
        proof (cases "n \<le> length A")
          case True
          then show ?thesis by (simp add: defs t page [OF A] take_map)
        next
          case False
          then have full: "take n A = A" and l: "length A < n" by simp_all
          have "query_logs_combined env now org s e f n c st =
              (Inr (take n (newest_first le_id (map (hot_log_event env) (A @ take n B)))), cold_logs st)"
            using full l by (simp add: defs t both_def)
          then show ?thesis by (simp only: page [OF m [unfolded full]] take_map merge_pages [OF l])
        qed
      next
        case False
        with n1 Some Pair show ?thesis
          using page [OF A] page [OF B] by (cases nh; cases nc) (auto simp: defs take_map newest_first_def)
      qed
    qed
  qed
qed

end
