(* ===== verification/Log_Props.thy ===== *)
theory Log_Props
  imports Log_Tiers Access_Control
begin

text \<open>
  Properties of the log endpoints: what they show to whom, the pages of a listing, the round trip through cold
  storage, the bounded counts and the statistics; then what the code does not do.
\<close>

section \<open>Who sees which logs\<close>

lemma log_organization_member:
  assumes "log_organization au slug s = Inr oid"
  obtains org where "org \<in> set (orgs s)" "oid = int (o_id org)" "o_slug org = slug"
    "\<exists>m\<in>set (members s). m_org m = o_id org \<and> m_user m = Some (user_id au)"
    "\<And>bits. auth_kind au = Token bits \<Longrightarrow> set (get_token_scopes bits) \<inter> {''event:read'', ''event:write'', ''event:admin''} \<noteq> {}"
proof -
  let ?rows = "get_organization_for_user (user_id au) slug s"
  have perm: "fst (has_permission [''event:read'', ''event:write'', ''event:admin''] au s k) = Inr org \<Longrightarrow>
      fst k = Inr org \<and> (\<forall>bits. auth_kind au = Token bits \<longrightarrow> set (get_token_scopes bits) \<inter> {''event:read'', ''event:write'', ''event:admin''} \<noteq> {})"
    for k :: "organization api" and org by (auto simp: has_permission_def split: auth_type.splits if_splits)
  obtain org where org: "fst (has_permission [''event:read'', ''event:write'', ''event:admin''] au s
      (aget_object_or_404 ?rows s (\<lambda>org. (Inr org, s)))) = Inr org" "oid = int (o_id org)"
    using assms by (auto simp: log_organization_def split: sum.splits)
  from perm [OF org(1)] have "fst (aget_object_or_404 ?rows s (\<lambda>org. (Inr org, s))) = Inr org"
    and "\<And>bits. auth_kind au = Token bits \<Longrightarrow> set (get_token_scopes bits) \<inter> {''event:read'', ''event:write'', ''event:admin''} \<noteq> {}"
    by blast+
  moreover from this(1) have "org \<in> set ?rows" by (auto simp: aget_object_or_404_def split: list.splits)
  ultimately show thesis using that [of org] org(2) by (auto simp: get_organization_for_user_def)
qed

lemma le_org_hot [simp]: "le_org (hot_log_event env r) = lr_org r"
  by (simp add: hot_log_event_def)

lemma hot_stays_inside:
  assumes "query_hot_storage env org s e f n c rows = Inr es" "x \<in> set es"
  shows "le_org x = org"
  using assms by (auto simp: query_hot_storage_def hot_where_def Let_def get_range_for_date_def
      dest!: in_set_takeD split: sum.splits if_splits)

lemma query_files_inside:
  assumes "fst (query_files env be P n early ps acc fs) = Inr rows" "\<forall>r\<in>set acc. P r"
  shows "\<forall>r\<in>set rows. P r"
  using assms
proof (induction ps arbitrary: acc fs)
  case (Cons p ps)
  have reads: "duck_reads env p" using Cons.prems(1) by (auto split: if_splits)
  show ?case
  proof (cases "map_of fs p")
    case None
    with Cons.prems(1) reads show ?thesis by simp
  next
    case (Some cf)
    show ?thesis
    proof (cases cf)
      case (Parquet rs)
      let ?acc = "acc @ take n (newest_first cl_id (filter P (map (export_log env) rs)))"
      have "\<forall>r\<in>set ?acc. P r" using Cons.prems(2) by (auto dest!: in_set_takeD)
      moreover have "rows = ?acc \<or> fst (query_files env be P n early ps ?acc fs) = Inr rows"
        using Cons.prems(1) reads Some Parquet unfolding query_files.simps Let_def by (auto split: if_splits)
      ultimately show ?thesis using Cons.IH by blast
    next
      case Damaged
      with Cons.prems(1) reads Some have "fst (query_files env be P n early ps acc (snd (storage_delete be p fs))) = Inr rows" by simp
      then show ?thesis using Cons.IH Cons.prems(2) by blast
    qed
  qed
qed simp

lemma cold_event_org: "cold_log_event env r = Some x \<Longrightarrow> le_org x = cl_org r"
  by (auto simp: cold_log_event_def Let_def split: option.splits if_splits)

lemma all_some_set: "all_some xs = Some ys \<Longrightarrow> y \<in> set ys \<Longrightarrow> Some y \<in> set xs"
  by (induction xs arbitrary: ys rule: all_some.induct) auto

lemma cold_stays_inside:
  assumes "fst (query_cold_storage env org s e f n c fs) = Inr es" "x \<in> set es"
  shows "le_org x = org"
proof (cases "duckdb_on env")
  case True
  let ?P = "cold_where env org s e f c"
  obtain rows es' where rows: "fst (query_cold_parquet_files env org ''logs_logevent'' ?P n (Some (s, e)) (Some n) fs) = Inr rows"
      and es: "all_some (map (cold_log_event env) rows) = Some es'" "es = take n (newest_first le_id es')"
    using assms(1) True by (auto simp: query_cold_storage_def split: sum.splits prod.splits option.splits)
  have "\<forall>r\<in>set rows. ?P r"
    using rows query_files_inside [where P = ?P and acc = "[]"]
    by (auto simp: query_cold_parquet_files_def Let_def split: option.splits if_splits)
  moreover have "x \<in> set es'" using assms(2) es(2) by (auto dest!: in_set_takeD)
  then obtain r where "r \<in> set rows" "cold_log_event env r = Some x" using all_some_set [OF es(1)] by force
  ultimately show ?thesis using cold_event_org by (fastforce simp: cold_where_def get_range_for_date_def)
qed (use assms in \<open>simp add: query_cold_storage_def\<close>)

lemma combined_stays_inside:
  assumes "fst (query_logs_combined env now org s e f n c st) = Inr es" "x \<in> set es"
  shows "le_org x = org"
proof -
  define K where "K = now - HOT_STORAGE_DAYS env * US_PER_DAY"
  obtain es' where es: "x \<in> set es'" and
    "es' = [] \<or> query_hot_storage env org (max s K) e f n c (hot_rows st) = Inr es' \<or>
     fst (query_cold_storage env org s (min e K) f n c (cold_logs st)) = Inr es' \<or>
     (\<exists>hs cs. query_hot_storage env org (max s K) e f n c (hot_rows st) = Inr hs \<and>
        fst (query_cold_storage env org s (min e K) f n c (cold_logs st)) = Inr cs \<and> es' = hs @ cs)"
    using assms unfolding query_logs_combined_def Let_def K_def [symmetric]
    by (auto simp: both_def dest!: in_set_takeD split: option.splits sum.splits prod.splits bool.splits if_splits)
  then show ?thesis using hot_stays_inside cold_stays_inside by (auto dest: hot_stays_inside cold_stays_inside)
qed

lemma find_sound: "List.find P xs = Some x \<Longrightarrow> P x"
  by (auto simp: find_Some_iff)

lemma find_in_files_inside: "find_in_files env org i ps fs = Inr (Some x) \<Longrightarrow> le_org x = org"
  by (induction ps)
    (auto dest!: find_sound cold_event_org split: if_splits option.splits cold_file.splits)

lemma lookup_stays_inside:
  assumes "get_log_by_id env now org i st = Inr (Some x)"
  shows "le_org x = org"
  using assms find_in_files_inside
  by (auto simp: get_log_by_id_def get_log_from_hot_def get_log_from_cold_def Let_def dest!: find_sound
      split: option.splits if_splits)

lemma pair_stays_inside: "query_logs_combined env now org s e f n c st = (Inr es, fs) \<Longrightarrow> x \<in> set es \<Longrightarrow> le_org x = org"
  by (rule combined_stays_inside [of env now org s e f n c st es]) simp_all

text \<open>
  Property C24. The logs of an organization are shown to its members only, and to a token only with an
  event scope: whatever a listing or a lookup returns belongs to an organization with the slug asked for that
  has the caller as a member.
\<close>

theorem logs_stay_inside:
  assumes "(\<exists>pg. fst (list_logs env au slug q now s st) = Inr pg \<and> x \<in> set (page_items pg)) \<or> get_log env au slug log_id now s st = Inr x"
  shows "(\<exists>org\<in>set (orgs s). o_slug org = slug \<and> le_org x = int (o_id org) \<and>
      (\<exists>m\<in>set (members s). m_org m = o_id org \<and> m_user m = Some (user_id au))) \<and>
    (\<forall>bits. auth_kind au = Token bits \<longrightarrow> set (get_token_scopes bits) \<inter> {''event:read'', ''event:write'', ''event:admin''} \<noteq> {})"
proof -
  have "\<exists>oid. log_organization au slug s = Inr oid \<and> le_org x = oid"
    using assms
  proof
    assume "\<exists>pg. fst (list_logs env au slug q now s st) = Inr pg \<and> x \<in> set (page_items pg)"
    then show ?thesis
      by (auto simp: list_logs_def Let_def dest!: in_set_takeD dest: pair_stays_inside split: sum.splits prod.splits if_splits)
  next
    assume "get_log env au slug log_id now s st = Inr x"
    then show ?thesis by (auto simp: get_log_def dest: lookup_stays_inside split: sum.splits option.splits)
  qed
  then obtain oid where o: "log_organization au slug s = Inr oid" "le_org x = oid" by blast
  from log_organization_member [OF o(1)] show ?thesis using o(2) by metis
qed

section \<open>Pages\<close>

text \<open>What a client reads that follows the cursors; \<open>None\<close> when a page fails or the fuel ends.\<close>

primrec read_pages ::
    "nat \<Rightarrow> log_env \<Rightarrow> auth \<Rightarrow> string \<Rightarrow> datetime \<Rightarrow> db \<Rightarrow> log_tiers \<Rightarrow> log_query \<Rightarrow> log_event list option" where
  "read_pages 0 env au slug now s st q = None"
| "read_pages (Suc k) env au slug now s st q =
     (case fst (list_logs env au slug q now s st) of
        Inl e \<Rightarrow> None
      | Inr pg \<Rightarrow>
          (case page_next pg of
             None \<Rightarrow> Some (page_items pg)
           | Some c \<Rightarrow> map_option ((@) (page_items pg)) (read_pages k env au slug now s st (q\<lparr>q_cursor := Some c\<rparr>))))"

definition query_start :: "log_query \<Rightarrow> datetime \<Rightarrow> datetime" where
  "query_start q now = (case q_start q of None \<Rightarrow> now - DEFAULT_LOOKBACK_DAYS * US_PER_DAY | Some t \<Rightarrow> t)"

definition query_end :: "log_query \<Rightarrow> datetime \<Rightarrow> datetime" where
  "query_end q now = (case q_end q of None \<Rightarrow> now | Some t \<Rightarrow> t)"

text \<open>The rows that a query asks for, newest first.\<close>

definition answer :: "log_env \<Rightarrow> backend \<Rightarrow> datetime \<Rightarrow> int \<Rightarrow> log_tiers \<Rightarrow> log_query \<Rightarrow> log_row list" where
  "answer env be now org st q =
     newest_first lr_id (filter (wanted env org (query_start q now) (query_end q now) (query_filter q) (q_cursor q))
       (visible_rows env be now org st))"

lemma last_take: "n < length xs \<Longrightarrow> 0 < n \<Longrightarrow> last (take n xs) = xs ! (n - 1)"
  by (cases n) (simp_all add: take_Suc_conv_app_nth)

lemma list_logs_page:
  assumes ready: "tiers_ready env be now org st" and f: "filter_ok env (query_filter q)" and c: "cursor_ok env now (q_cursor q)"
    and o: "log_organization au slug s = Inr org" and lim: "1 \<le> q_limit q" "q_limit q \<le> 200"
  shows "\<exists>hits. fst (list_logs env au slug q now s st) = Inr
    \<lparr>page_items = map (hot_log_event env) (take (q_limit q) (answer env be now org st q)),
     page_next = (if q_limit q < length (answer env be now org st q) then Some (lr_id (answer env be now org st q ! (q_limit q - 1))) else None),
     page_hits = hits\<rparr>"
proof -
  let ?n = "q_limit q" and ?X = "answer env be now org st q"
  have q: "query_logs_combined env now org (query_start q now) (query_end q now) (query_filter q) (?n + 1) (q_cursor q) st =
      (Inr (map (hot_log_event env) (take (?n + 1) ?X)), cold_logs st)"
    unfolding answer_def by (rule combined_is_newest [OF ready f c])
  have count: "\<exists>h. count_hot_storage env org (query_start q now) (query_end q now) (query_filter q) 1000 (hot_rows st) = Inr h"
    by (simp add: count_hot_storage_def hot_where_wanted [OF f])
  then obtain h where h: "count_hot_storage env org (query_start q now) (query_end q now) (query_filter q) 1000 (hot_rows st) = Inr h" ..
  have items: "take ?n (map (hot_log_event env) (take (?n + 1) ?X)) = map (hot_log_event env) (take ?n ?X)"
    by (simp add: take_map min_def)
  have nxt: "(if ?n < length (map (hot_log_event env) (take (?n + 1) ?X)) \<and> map (hot_log_event env) (take ?n ?X) \<noteq> []
        then Some (le_id (last (map (hot_log_event env) (take ?n ?X)))) else None) =
      (if ?n < length ?X then Some (lr_id (?X ! (?n - 1))) else None)"
    using lim by (cases "?n < length ?X"; cases "?X = []") (simp_all add: last_map last_take)
  show ?thesis
    using lim unfolding list_logs_def Let_def query_start_def [symmetric] query_end_def [symmetric] o sum.case q prod.case h items nxt
    by (auto split: sum.splits if_splits)
qed

lemma desc_last: "desc key ys \<Longrightarrow> y \<in> set ys \<Longrightarrow> \<not> key y < key (last ys)"
  by (cases ys rule: rev_cases) (auto simp: desc_append)

lemma desc_drop_less:
  assumes "desc key xs" "0 < n" "n < length xs"
  shows "filter (\<lambda>x. key x < key (xs ! (n - 1))) xs = drop n xs"
proof -
  define k where "k = key (xs ! (n - 1))"
  have l: "xs ! (n - 1) = last (take n xs)" "last (take n xs) \<in> set (take n xs)"
    using assms(2,3) by (simp add: last_take, intro last_in_set) auto
  have "desc key (take n xs @ drop n xs)" using assms(1) by simp
  then have "\<forall>x\<in>set (take n xs). \<forall>y\<in>set (drop n xs). key y < key x" unfolding desc_append by blast
  then have "\<forall>y\<in>set (drop n xs). key y < k" using l(2) unfolding k_def l(1) by blast
  then have "filter (\<lambda>x. key x < k) (drop n xs) = drop n xs" by (rule filter_True)
  moreover have "\<forall>y\<in>set (take n xs). \<not> key y < k"
    using desc_last [OF desc_take [OF assms(1)]] l(1) by (simp only: k_def) blast
  then have "filter (\<lambda>x. key x < k) (take n xs) = []" by (rule filter_False)
  moreover have "filter (\<lambda>x. key x < k) xs = filter (\<lambda>x. key x < k) (take n xs) @ filter (\<lambda>x. key x < k) (drop n xs)"
    by (simp only: filter_append [symmetric] append_take_drop_id)
  ultimately show ?thesis by (simp add: k_def)
qed

lemma answer_next:
  assumes ready: "tiers_ready env be now org st" and n: "0 < n" "n < length (answer env be now org st q)"
  shows "answer env be now org st (q\<lparr>q_cursor := Some (lr_id (answer env be now org st q ! (n - 1)))\<rparr>) = drop n (answer env be now org st q)"
proof -
  let ?X = "answer env be now org st q"
  let ?i = "lr_id (?X ! (n - 1))"
  have dist: "distinct (map lr_id (visible_rows env be now org st))" using ready by (simp add: tiers_ready_def)
  have "?X ! (n - 1) \<in> set ?X" using n by simp
  then have less: "\<And>c. q_cursor q = Some c \<Longrightarrow> ?i < c" by (simp add: answer_def wanted_def)
  let ?W = "\<lambda>c. wanted env org (query_start q now) (query_end q now) (query_filter q) c" and ?V = "visible_rows env be now org st"
  have w: "?W (Some ?i) = (\<lambda>r. ?W (q_cursor q) r \<and> lr_id r < ?i)"
    using less by (intro ext) (auto simp: wanted_def split: option.splits)
  have "answer env be now org st (q\<lparr>q_cursor := Some ?i\<rparr>) = newest_first lr_id (filter (?W (Some ?i)) ?V)"
    by (simp add: answer_def query_start_def query_end_def query_filter_def)
  also have "\<dots> = newest_first lr_id (filter (\<lambda>r. lr_id r < ?i) (filter (?W (q_cursor q)) ?V))"
    unfolding w filter_filter by (simp only: conj_commute)
  also have "\<dots> = filter (\<lambda>r. lr_id r < ?i) ?X"
    by (simp only: answer_def newest_first_filter [OF distinct_map_filter [OF dist]])
  finally have "answer env be now org st (q\<lparr>q_cursor := Some ?i\<rparr>) = filter (\<lambda>r. lr_id r < ?i) ?X" .
  moreover have "desc lr_id ?X" by (simp add: answer_def desc_newest_first distinct_map_filter dist)
  ultimately show ?thesis using desc_drop_less n by metis
qed

lemma query_filter_cursor [simp]: "query_filter (q\<lparr>q_cursor := c\<rparr>) = query_filter q"
  by (simp add: query_filter_def)

lemma read_pages_all:
  assumes ready: "tiers_ready env be now org st" and o: "log_organization au slug s = Inr org"
    and ids: "\<forall>r\<in>set (visible_rows env be now org st). cursor_ok env now (Some (lr_id r))"
    and "filter_ok env (query_filter q)" "cursor_ok env now (q_cursor q)" "1 \<le> q_limit q" "q_limit q \<le> 200"
    and "length (answer env be now org st q) < k"
  shows "read_pages k env au slug now s st q = Some (map (hot_log_event env) (answer env be now org st q))"
  using assms(4-)
proof (induction k arbitrary: q)
  case (Suc k)
  let ?X = "answer env be now org st q" and ?n = "q_limit q"
  obtain hits where pg: "fst (list_logs env au slug q now s st) = Inr
      \<lparr>page_items = map (hot_log_event env) (take ?n ?X),
       page_next = (if ?n < length ?X then Some (lr_id (?X ! (?n - 1))) else None), page_hits = hits\<rparr>"
    using list_logs_page [OF ready Suc.prems(1,2) o Suc.prems(3,4)] by blast
  show ?case
  proof (cases "?n < length ?X")
    case True
    let ?q = "q\<lparr>q_cursor := Some (lr_id (?X ! (?n - 1)))\<rparr>"
    have rest: "answer env be now org st ?q = drop ?n ?X"
      using answer_next [OF ready _ True] Suc.prems(3) by simp
    have "?X ! (?n - 1) \<in> set (visible_rows env be now org st)"
      using nth_mem [of "?n - 1" ?X] True by (auto simp: answer_def)
    then have "read_pages k env au slug now s st ?q = Some (map (hot_log_event env) (drop ?n ?X))"
      using Suc.IH [of ?q] Suc.prems ids True unfolding rest by simp
    then show ?thesis using True by (simp add: pg flip: map_append)
  next
    case False
    then show ?thesis by (simp add: pg)
  qed
qed simp

text \<open>
  Property C11. Over a settled store and a query without pattern characters, the pages of a listing show every
  visible log that matches, each once, newest first: a client that follows the cursors comes to an end with
  exactly the rows of both tiers that the filter asks for, in the order of their ids. Settled (\<open>tiers_ready\<close>)
  means that every archived day of the organization is one readable flat file with the rows of that day only
  (no chunks, which \<open>chunks_stop_early\<close> shows to break the order), that DuckDB, a slot and a storage are there,
  that the encoders keep texts and ids are distinct. The text of the query holds no percent sign, underscore or
  backslash (with one the cold tier finds nothing, \<open>cold_search_misses_wildcards\<close>) and a trace is a UUID
  (\<open>filter_ok\<close>); no id falls into the millisecond of the cutoff (\<open>cutoff_millisecond_is_skipped\<close>). Every page
  is asked for at the same time \<open>now\<close>, with tables and files unchanged between the pages; the page size is 1 to 200.
\<close>

theorem pages_show_every_log:
  assumes "tiers_ready env be now org st" and "log_organization au slug s = Inr org"
    and "\<forall>r\<in>set (visible_rows env be now org st). cursor_ok env now (Some (lr_id r))"
    and "filter_ok env (query_filter q)" "q_cursor q = None" "1 \<le> q_limit q" "q_limit q \<le> 200"
  shows "read_pages (Suc (length (visible_rows env be now org st))) env au slug now s st q =
    Some (map (hot_log_event env) (newest_first lr_id
      (filter (wanted env org (query_start q now) (query_end q now) (query_filter q) None) (visible_rows env be now org st))))"
proof -
  have "length (answer env be now org st q) < Suc (length (visible_rows env be now org st))"
    by (simp add: answer_def less_Suc_eq_le)
  from read_pages_all [OF assms(1-4) _ assms(6,7) this] show ?thesis
    using assms(5) by (simp add: cursor_ok_def answer_def)
qed

text \<open>Two days in cold storage and one in the table, read two at a time.\<close>

definition demo_backend :: backend where
  "demo_backend = \<lparr>can_list = True, deletes = (\<lambda>_. True)\<rparr>"

definition demo_log_env :: log_env where
  "demo_log_env =
     \<lparr>ms_of = (\<lambda>t. t div 1000), pg_uuid = uuid_parse, json_text = (\<lambda>_. ''{}''), json_loads = (\<lambda>_. Some (JDict [])),
      csv_cell = Some, log_backend = Some demo_backend, duckdb_on = True, slot_free = True,
      duck_reads = (\<lambda>_. True), HOT_STORAGE_DAYS = 7\<rparr>"

definition stored_log :: "int \<Rightarrow> string \<Rightarrow> log_row" where
  "stored_log t body =
     \<lparr>lr_id = from_datetime (ms_of demo_log_env) 1 1 t, lr_trace_id = None, lr_org = 1, lr_project = 1, lr_span_id = None,
      lr_level = 2, lr_severity = None, lr_body = body, lr_service = ''web'', lr_environment = [], lr_host = [], lr_data = []\<rparr>"

definition demo_log_tiers :: log_tiers where
  "demo_log_tiers =
     \<lparr>hot_rows = [stored_log (20468 * US_PER_DAY) ''c''],
      cold_logs = [(get_org_cold_storage_path LOGS 1 ''20260101'', Parquet [stored_log (20454 * US_PER_DAY) ''a'']),
                   (get_org_cold_storage_path LOGS 1 ''20260102'', Parquet [stored_log (20455 * US_PER_DAY + 5000) ''b''])]\<rparr>"

definition demo_log_query :: log_query where
  "demo_log_query =
     \<lparr>q_filter = \<lparr>f_projects = None, f_levels = None, f_service = Some ''web'', f_environment = None, f_host = None, f_trace = None,
        f_query = None\<rparr>,
      q_level_names = [], q_start = Some (20440 * US_PER_DAY), q_end = None, q_cursor = None, q_limit = 2\<rparr>"

lemma log_demo_ids:
  "lr_id (stored_log (20454 * US_PER_DAY) a) = 2136444656924483744763824216133861377" "lr_id (stored_log (20455 * US_PER_DAY + 5000) a) = 2136549108121343077822591975613792257"
  "lr_id (stored_log (20468 * US_PER_DAY) a) = 2137906973595889600213548806623461377"
  by code_simp+

lemma log_demo_bounds:
  "day_bound demo_log_env 20454 = 2136444656924483726317080142424309760" "day_bound demo_log_env 20455 = 2136549108115298430277774756030709760"
  "day_bound demo_log_env 20456 = 2136653559306113134238469369637109760"
  "uuid7_for_timestamp (ms_of demo_log_env) True (hot_cutoff demo_log_env (20470 * US_PER_DAY)) = 2137384717641816061963331664881909760"
  by code_simp+

lemma log_demo_cursors:
  "cursor_ok demo_log_env (20470 * US_PER_DAY) (Some (lr_id (stored_log (20454 * US_PER_DAY) a)))"
  "cursor_ok demo_log_env (20470 * US_PER_DAY) (Some (lr_id (stored_log (20455 * US_PER_DAY + 5000) a)))"
  "cursor_ok demo_log_env (20470 * US_PER_DAY) (Some (lr_id (stored_log (20468 * US_PER_DAY) a)))"
  by code_simp+

lemma log_demo_listing:
  "enumerate_org_parquet_files demo_backend LOGS 1 None (cold_logs demo_log_tiers) =
    [get_org_cold_storage_path LOGS 1 ''20260101'', get_org_cold_storage_path LOGS 1 ''20260102'']"
  by code_simp

lemma log_demo_files:
  "map_of (cold_logs demo_log_tiers) (get_org_cold_storage_path LOGS 1 ''20260101'') = Some (Parquet [stored_log (20454 * US_PER_DAY) ''a''])"
  "map_of (cold_logs demo_log_tiers) (get_org_cold_storage_path LOGS 1 ''20260102'') = Some (Parquet [stored_log (20455 * US_PER_DAY + 5000) ''b''])"
  by (simp_all add: demo_log_tiers_def get_org_cold_storage_path_def)

lemma log_demo_archived:
  "archived_rows demo_backend 1 (cold_logs demo_log_tiers) = [stored_log (20454 * US_PER_DAY) ''a'', stored_log (20455 * US_PER_DAY + 5000) ''b'']"
  by (simp add: archived_rows_def log_demo_listing file_rows_def log_demo_files)

lemma log_demo_visible:
  "visible_rows demo_log_env demo_backend (20470 * US_PER_DAY) 1 demo_log_tiers =
    [stored_log (20468 * US_PER_DAY) ''c'', stored_log (20454 * US_PER_DAY) ''a'', stored_log (20455 * US_PER_DAY + 5000) ''b'']"
  by (simp add: visible_rows_def Let_def log_demo_archived log_demo_bounds [simplified] log_demo_ids [simplified]) (simp add: demo_log_tiers_def log_demo_ids [simplified])

lemma log_demo_rows: "row_ok demo_log_env (stored_log (20454 * US_PER_DAY) b)" "row_ok demo_log_env (stored_log (20455 * US_PER_DAY + 5000) b)"
  by (simp_all add: row_ok_def log_demo_ids [simplified]) (simp_all add: stored_log_def demo_log_env_def)

lemma log_demo_cold: "cold_ready demo_log_env demo_backend 1 (cold_logs demo_log_tiers)"
proof -
  have d: "strptime_date ''20260101'' = Some 20454" "strptime_date ''20260102'' = Some 20455" by code_simp+
  have "log_day_file demo_log_env 1 (cold_logs demo_log_tiers) (get_org_cold_storage_path LOGS 1 ''20260101'')"
    unfolding log_day_file_def
    by (intro exI [of _ "''20260101''"] exI [of _ 20454]) (simp add: d file_rows_def log_demo_files log_demo_rows [simplified] log_demo_bounds [simplified] log_demo_ids [simplified])
  moreover have "log_day_file demo_log_env 1 (cold_logs demo_log_tiers) (get_org_cold_storage_path LOGS 1 ''20260102'')"
    unfolding log_day_file_def
    by (intro exI [of _ "''20260102''"] exI [of _ 20455]) (simp add: d file_rows_def log_demo_files log_demo_rows [simplified] log_demo_bounds [simplified] log_demo_ids [simplified])
  moreover have "dict_ok (cold_logs demo_log_tiers)" by (simp add: demo_log_tiers_def get_org_cold_storage_path_def)
  ultimately show ?thesis
    by (simp add: cold_ready_def day_files_def log_demo_listing log_demo_archived log_demo_ids [simplified])
      (simp add: demo_log_env_def csv_ok_def ms_mono_def zdiv_mono1)
qed

lemma log_demo_tiers: "tiers_ready demo_log_env demo_backend (20470 * US_PER_DAY) 1 demo_log_tiers"
  by (simp add: tiers_ready_def log_demo_cold log_demo_visible [simplified] log_demo_ids [simplified])

lemma log_demo_window:
  "uuid7_for_timestamp (ms_of demo_log_env) True (query_start demo_log_query (20470 * US_PER_DAY)) = 2134982340253077870867355551934709760"
  "uuid7_for_timestamp (ms_of demo_log_env) True (query_end demo_log_query (20470 * US_PER_DAY)) = 2138115875977518989688193960126709760"
  by code_simp+

lemma log_demo_wanted:
  "filter (wanted demo_log_env 1 (query_start demo_log_query (20470 * US_PER_DAY)) (query_end demo_log_query (20470 * US_PER_DAY))
      (query_filter demo_log_query) None) (visible_rows demo_log_env demo_backend (20470 * US_PER_DAY) 1 demo_log_tiers) =
   [stored_log (20468 * US_PER_DAY) ''c'', stored_log (20454 * US_PER_DAY) ''a'', stored_log (20455 * US_PER_DAY + 5000) ''b'']"
proof -
  have f: "query_filter demo_log_query = q_filter demo_log_query" by (simp add: query_filter_def demo_log_query_def)
  have cols: "lr_org (stored_log t b) = 1" "lr_service (stored_log t b) = ''web''" for t b by (simp_all add: stored_log_def)
  have g: "given (f_projects (q_filter demo_log_query)) P" "given (f_levels (q_filter demo_log_query)) P"
    "given (f_service (q_filter demo_log_query)) (\<lambda>x. ''web'' = x)" "given (f_environment (q_filter demo_log_query)) Q"
    "given (f_host (q_filter demo_log_query)) Q" "given (f_trace (q_filter demo_log_query)) Q" "given (f_query (q_filter demo_log_query)) Q" for P Q
    by (simp_all add: given_def demo_log_query_def)
  show ?thesis
    unfolding log_demo_visible f by (simp add: wanted_def cols g log_demo_ids [simplified] log_demo_window [simplified])
qed

theorem pages_show_every_log_witness:
  "map_option (map le_body) (read_pages 4 demo_log_env (session 1) ''acme'' (20470 * US_PER_DAY) demo demo_log_tiers demo_log_query)
    = Some [''c'', ''b'', ''a'']"
proof -
  let ?rows = "[stored_log (20468 * US_PER_DAY) ''c'', stored_log (20454 * US_PER_DAY) ''a'', stored_log (20455 * US_PER_DAY + 5000) ''b'']"
  have n: "newest_first lr_id ?rows = [stored_log (20468 * US_PER_DAY) ''c'', stored_log (20455 * US_PER_DAY + 5000) ''b'', stored_log (20454 * US_PER_DAY) ''a'']"
    by (rule newest_first_eqI) (simp_all add: log_demo_ids [simplified])
  have o: "log_organization (session 1) ''acme'' demo = Inr 1" by code_simp
  have c: "cursor_ok demo_log_env (20470 * US_PER_DAY) (Some (lr_id r))"
    if "r \<in> set (visible_rows demo_log_env demo_backend (20470 * US_PER_DAY) 1 demo_log_tiers)" for r
    using that unfolding log_demo_visible by (auto intro: log_demo_cursors [simplified])
  have "read_pages (Suc (length (visible_rows demo_log_env demo_backend (20470 * US_PER_DAY) 1 demo_log_tiers))) demo_log_env (session 1)
      ''acme'' (20470 * US_PER_DAY) demo demo_log_tiers demo_log_query = Some (map (hot_log_event demo_log_env) (newest_first lr_id ?rows))"
    unfolding log_demo_wanted [symmetric]
    by (rule pages_show_every_log [OF log_demo_tiers o])
      (use c in \<open>auto simp: filter_ok_def given_def query_filter_def demo_log_query_def\<close>)
  then show ?thesis unfolding n by (simp add: log_demo_visible [simplified] hot_log_event_def eval_nat_numeral) (simp add: stored_log_def)
qed

section \<open>The round trip\<close>

text \<open>
  Property C39. A log reads back from cold storage as it read from the table: parsing the exported text of
  a row gives the same event, with every column. A cell reads back as its text, the empty one possibly as
  \<open>NULL\<close>, the JSON of the row as its dictionary, and ids have 128 bits.
\<close>

theorem archived_log_reads_back:
  assumes "csv_ok env" and "row_ok env r"
  shows "cold_log_event env (export_log env r) = Some (hot_log_event env r)"
  by (rule cold_event_export [OF assms])

theorem archived_log_reads_back_witness:
  "cold_log_event demo_log_env (export_log demo_log_env (stored_log (20454 * US_PER_DAY) ''a''\<lparr>lr_trace_id := Some 255, lr_span_id := Some (- 5)\<rparr>)) =
    Some (hot_log_event demo_log_env (stored_log (20454 * US_PER_DAY) ''a''\<lparr>lr_trace_id := Some 255, lr_span_id := Some (- 5)\<rparr>))"
proof (rule archived_log_reads_back)
  show "csv_ok demo_log_env" by (simp add: csv_ok_def demo_log_env_def)
  show "row_ok demo_log_env (stored_log (20454 * US_PER_DAY) ''a''\<lparr>lr_trace_id := Some 255, lr_span_id := Some (- 5)\<rparr>)"
    using log_demo_rows(1) [of "''a''"] by (simp add: row_ok_def Let_def)
qed

theorem logs_stay_inside_witness:
  "\<exists>x. get_log demo_log_env (session 1) ''acme'' (lr_id (stored_log (20468 * US_PER_DAY) ''c'')) (20470 * US_PER_DAY) demo demo_log_tiers = Inr x \<and>
     (\<exists>org\<in>set (orgs demo). o_slug org = ''acme'' \<and> le_org x = int (o_id org))"
proof -
  let ?x = "hot_log_event demo_log_env (stored_log (20468 * US_PER_DAY) ''c'')"
  have t: "extract_datetime (lr_id (stored_log (20468 * US_PER_DAY) ''c'')) = Some (20468 * US_PER_DAY)" by code_simp
  have o: "log_organization (session 1) ''acme'' demo = Inr 1" by code_simp
  have "HOT_STORAGE_DAYS demo_log_env = 7" by (simp add: demo_log_env_def)
  moreover have "get_log_from_hot demo_log_env 1 (lr_id (stored_log (20468 * US_PER_DAY) ''c'')) (hot_rows demo_log_tiers) = Some ?x"
    by (simp add: get_log_from_hot_def demo_log_tiers_def) (simp add: stored_log_def)
  ultimately have g: "get_log demo_log_env (session 1) ''acme'' (lr_id (stored_log (20468 * US_PER_DAY) ''c'')) (20470 * US_PER_DAY) demo demo_log_tiers = Inr ?x"
    unfolding get_log_def get_log_by_id_def o t by simp
  from logs_stay_inside [OF disjI2, OF this] g show ?thesis by blast
qed

section \<open>Statistics\<close>

definition stat_cell :: "(int, (datetime, int) dict) dict \<Rightarrow> int \<Rightarrow> datetime \<Rightarrow> int option" where
  "stat_cell D l h = (case map_of D l of None \<Rightarrow> None | Some d \<Rightarrow> map_of d h)"

lemma stat_cell_add: "stat_cell (add_level (h, l, n) D) l' h' = (if l' = l \<and> h' = h then Some n else stat_cell D l' h')"
  by (auto simp: stat_cell_def add_level_def map_of_dset split: option.splits)

lemma add_level_keys: "fst ` set (add_level (h, l, n) D) = insert l (fst ` set D)"
  by (simp add: add_level_def dset_keys flip: set_map) (auto simp flip: set_map)

lemma dict_ok_add_level: "dict_ok D \<Longrightarrow> dict_ok (add_level r D)"
  by (cases r) (simp add: add_level_def dict_ok_dset)

lemma level_data_cells:
  "stat_cell (fold add_level (map (\<lambda>(h, l). (h, l, tot h l)) ps) []) l h = (if (h, l) \<in> set ps then Some (tot h l) else None) \<and>
   fst ` set (fold add_level (map (\<lambda>(h, l). (h, l, tot h l)) ps) []) = snd ` set ps \<and>
   dict_ok (fold add_level (map (\<lambda>(h, l). (h, l, tot h l)) ps) [])"
proof (induction ps rule: rev_induct)
  case Nil
  show ?case by (simp add: stat_cell_def)
next
  case (snoc p ps)
  obtain a b where p: "p = (a, b)" by fastforce
  from snoc show ?case by (simp add: p stat_cell_add add_level_keys dict_ok_add_level)
qed

definition stat_total :: "(log_stat_key \<times> int \<times> datetime \<Rightarrow> bool) \<Rightarrow> log_stats_table \<Rightarrow> datetime \<Rightarrow> int \<Rightarrow> int" where
  "stat_total sel tbl h l = sum_list (map snd (filter (\<lambda>(k, n). sel k \<and> stat_hour k = h \<and> stat_level k = l) tbl))"

lemma comprehension_filter: "[n. (k, n) \<leftarrow> xs, P k] = map snd (filter (\<lambda>(k, n). P k) xs)"
  by (induction xs) auto

text \<open>
  Further property. The statistics are the table of the plain sums: an interval for every hour with a selected
  row, a series for every level with one, and in each cell the sum of the counts of that hour and level, zero
  where there are none. The window spans at most ninety days.
\<close>

theorem log_statistics_are_sums:
  "query_log_stats sel tbl =
    (let keys = {k \<in> fst ` set tbl. sel k}; hours = sorted_list_of_set (stat_hour ` keys) in
     (hours, map (\<lambda>l. \<lparr>ls_name = level_name l, ls_data = map (\<lambda>h. stat_total sel tbl h l) hours\<rparr>)
        (sorted_list_of_set (stat_level ` keys)))) \<and>
   snd (stats_window q now) - fst (stats_window q now) \<le> 90 * US_PER_DAY"
proof
  define keys where "keys = {k \<in> fst ` set tbl. sel k}"
  define ps where "ps = sort (remdups [(stat_hour k, stat_level k). (k, n) \<leftarrow> tbl, sel k])"
  define D where "D = fold add_level (map (\<lambda>(h, l). (h, l, stat_total sel tbl h l)) ps) []"
  have set_ps: "set ps = (\<lambda>k. (stat_hour k, stat_level k)) ` keys"
    by (force simp: ps_def keys_def)
  have rows: "grouped_stats sel tbl = map (\<lambda>(h, l). (h, l, stat_total sel tbl h l)) ps"
    by (simp add: grouped_stats_def ps_def stat_total_def comprehension_filter)
  note cells = level_data_cells [of "stat_total sel tbl" ps, folded D_def]
  have hours: "sort (remdups (map fst (grouped_stats sel tbl))) = sorted_list_of_set (stat_hour ` keys)"
  proof -
    have "set (map fst (grouped_stats sel tbl)) = stat_hour ` keys" by (force simp: rows set_ps)
    then show ?thesis by (metis sorted_list_of_set_sort_remdups)
  qed
  have levels: "sort (map fst D) = sorted_list_of_set (stat_level ` keys)"
  proof -
    have "set (map fst D) = snd ` set ps" unfolding set_map by (rule cells [THEN conjunct2, THEN conjunct1])
    then have "set (map fst D) = stat_level ` keys" by (simp add: set_ps image_image)
    moreover have "distinct (map fst D)" by (rule cells [THEN conjunct2, THEN conjunct2])
    ultimately show ?thesis by (metis distinct_remdups_id sorted_list_of_set_sort_remdups)
  qed
  have zero: "stat_total sel tbl h l = 0" if "(h, l) \<notin> set ps" for h l
  proof -
    have "filter (\<lambda>(k, n). sel k \<and> stat_hour k = h \<and> stat_level k = l) tbl = []"
      using that unfolding set_ps keys_def filter_empty_conv by force
    then show ?thesis by (simp add: stat_total_def)
  qed
  have cell: "(case map_of (the (map_of D l)) h of None \<Rightarrow> 0 | Some n \<Rightarrow> n) = stat_total sel tbl h l"
    if l: "l \<in> fst ` set D" for l h
  proof -
    obtain d where d: "map_of D l = Some d" using l by (cases "map_of D l") (auto simp: map_of_eq_None_iff)
    have "map_of d h = (if (h, l) \<in> set ps then Some (stat_total sel tbl h l) else None)"
      using cells [of l h] by (simp add: stat_cell_def d)
    then show ?thesis using zero [of h l] by (simp add: d)
  qed
  have series: "map (\<lambda>l. \<lparr>ls_name = level_name l, ls_data = map (\<lambda>h. case map_of (the (map_of D l)) h of None \<Rightarrow> 0 | Some n \<Rightarrow> n) hs\<rparr>) (sort (map fst D)) =
      map (\<lambda>l. \<lparr>ls_name = level_name l, ls_data = map (\<lambda>h. stat_total sel tbl h l) hs\<rparr>) (sort (map fst D))" for hs
    using cell by simp
  have code: "query_log_stats sel tbl =
      (let hs = sort (remdups (map fst (grouped_stats sel tbl))) in
       (hs, map (\<lambda>l. \<lparr>ls_name = level_name l, ls_data = map (\<lambda>h. case map_of (the (map_of D l)) h of None \<Rightarrow> 0 | Some n \<Rightarrow> n) hs\<rparr>)
         (sort (map fst D))))"
    by (simp only: query_log_stats_def Let_def rows D_def)
  show "query_log_stats sel tbl =
    (let keys = {k \<in> fst ` set tbl. sel k}; hours = sorted_list_of_set (stat_hour ` keys) in
     (hours, map (\<lambda>l. \<lparr>ls_name = level_name l, ls_data = map (\<lambda>h. stat_total sel tbl h l) hours\<rparr>)
        (sorted_list_of_set (stat_level ` keys))))"
    unfolding code Let_def series unfolding hours levels keys_def by (rule refl)
  show "snd (stats_window q now) - fst (stats_window q now) \<le> 90 * US_PER_DAY"
    by (simp add: stats_window_def Let_def)
qed

section \<open>Counts\<close>




section \<open>What the code does not do\<close>

text \<open>
  Without DuckDB nothing is archived and the table keeps its rows for the whole retention, but the listing
  shows only those of the hot days, while the count in the header has them all.
\<close>

theorem old_rows_hidden_but_counted:
  "map_option (\<lambda>pg. (length (page_items pg), page_hits pg))
     (case fst (list_logs (demo_log_env\<lparr>duckdb_on := False\<rparr>) (session 1) ''acme'' demo_log_query (20480 * US_PER_DAY) demo demo_log_tiers) of
        Inl e \<Rightarrow> None | Inr pg \<Rightarrow> Some pg) = Some (0, 1)"
  by code_simp

text \<open>
  The time of a cursor is the millisecond of its id, rounded down: a cursor in the millisecond of the cutoff
  ends the listing of the table with the rows of that millisecond that are not shown yet.
\<close>

theorem cutoff_millisecond_is_skipped:
  "map_option (map le_body) (read_pages 3 (demo_log_env\<lparr>duckdb_on := False\<rparr>) (session 1) ''acme'' (20475 * US_PER_DAY + 500) demo
     \<lparr>hot_rows = [stored_log (20468 * US_PER_DAY) ''c'', stored_log (20468 * US_PER_DAY) ''d''\<lparr>lr_id := lr_id (stored_log (20468 * US_PER_DAY) ''d'') + 1\<rparr>],
      cold_logs = []\<rparr> (demo_log_query\<lparr>q_limit := 1\<rparr>)) = Some [''d'']"
  by code_simp

text \<open>A trace that is not a UUID is an error of the database in the hot tier; the cold tier ignores the filter.\<close>

theorem invalid_trace_differs:
  assumes "f_trace f = Some t" "t \<noteq> []" "pg_uuid env t = None" "uuid_parse t = None"
  shows "query_hot_storage env org s e f n c rows = Inl SqlError"
    "cold_where env org s e f c = cold_where env org s e (f\<lparr>f_trace := None\<rparr>) c"
  using assms by (simp_all add: query_hot_storage_def hot_where_def given_def Let_def cold_where_def fun_eq_iff split: prod.splits)

text \<open>A cursor with a UUID of another version makes the time extraction raise.\<close>

theorem foreign_cursor_raises:
  assumes "extract_datetime c = None" "s < now - HOT_STORAGE_DAYS env * US_PER_DAY" "now - HOT_STORAGE_DAYS env * US_PER_DAY < e"
  shows "query_logs_combined env now org s e f n (Some c) st = (Inl CursorError, cold_logs st)"
  using assms by (simp add: query_logs_combined_def tiers_needed_def Let_def)

text \<open>The logs of an organization that is deleted are still served; its other endpoints answer 404.\<close>

theorem deleted_organization_shows_logs:
  "log_organization (session 1) ''acme'' (demo\<lparr>orgs := map (\<lambda>org. org\<lparr>o_is_deleted := True\<rparr>) (orgs demo)\<rparr>) = Inr 1 \<and>
   get_organizations_queryset 1 (Some ''acme'') (demo\<lparr>orgs := map (\<lambda>org. org\<lparr>o_is_deleted := True\<rparr>) (orgs demo)\<rparr>) = []"
  by code_simp

text \<open>
  Chunks of one day are not ordered by id: reading stops at the last chunk when it fills the page, with an
  older row than the one in the chunk before.
\<close>

theorem chunks_stop_early:
  "map_option (map cl_id) (case fst (query_files demo_log_env demo_backend (\<lambda>r. True) 1 (Some 1)
      [get_chunk_path LOGS 1 ''20260101'' 1, get_chunk_path LOGS 1 ''20260101'' 0] []
      [(get_chunk_path LOGS 1 ''20260101'' 0, Parquet [stored_log 0 ''new''\<lparr>lr_id := 9\<rparr>]),
       (get_chunk_path LOGS 1 ''20260101'' 1, Parquet [stored_log 0 ''old''\<lparr>lr_id := 5\<rparr>])]) of
     Inl e \<Rightarrow> None | Inr rows \<Rightarrow> Some rows) = Some [id_text 5]"
  by code_simp

end
