(* ===== verification/Issue_Search.thy ===== *)
theory Issue_Search
  imports Issue_Store Log_Api Event_Auth Py_Re
begin

text \<open>
  The tables behind the issue endpoints and the query language of their listings
  (\<open>apps/issue_events/services.py\<close>): relative times, the splitting of a search text into terms, the filters, the
  rows an issue query is about and their order.

  An issue query is a predicate on a row of \<open>Issue\<close> joined with its \<open>IssueIndex\<close> leaf, read in a state of the
  tables: a query set is evaluated anew each time the code iterates over it. The order in which the database
  answers an unordered query, its full-text match, its decimal logarithm and what \<open>IssueFilters\<close> makes of its own
  dictionary (the library behind the schemas decides whether field names are accepted beside aliases) are the
  arguments collected in \<open>issue_env\<close>.
\<close>

section \<open>Rows\<close>

record issue_obj =
  ib_id :: nat
  ib_project :: nat
  ib_is_deleted :: bool
  ib_user :: "nat option"
  ib_team :: "nat option"
  ib_first_release :: "nat option"
  ib_resolved_in :: "nat option"
  ib_first_seen :: datetime
  ib_title :: string
  ib_metadata :: json

record leaf_row =
  lf_issue :: nat
  lf_org :: nat
  lf_count :: nat
  lf_last_seen :: datetime
  lf_status :: event_status
  lf_level :: log_level
  lf_document :: string

record tag_row =
  tg_issue :: nat
  tg_date :: datetime
  tg_key :: string
  tg_value :: string
  tg_count :: nat

record aggregate_row =
  ag_issue :: nat
  ag_org :: nat
  ag_date :: datetime
  ag_count :: nat

record stored_event =
  sv_id :: int
  sv_event_id :: "int option"
  sv_issue :: nat
  sv_org :: nat

record hash_entry =
  hv_issue :: nat
  hv_project :: nat
  hv_value :: uuid

record comment_row =
  cm_id :: nat
  cm_issue :: nat
  cm_user :: "nat option"
  cm_text :: string
  cm_created :: datetime

record report_row =
  ur_project :: nat
  ur_issue :: "nat option"
  ur_event :: int
  rp_name :: string
  rp_email :: string
  rp_comments :: string

record release_row =
  rl_id :: nat
  rl_org :: nat
  rl_version :: string
  rl_projects :: "nat list"
  rl_created :: datetime
  rl_data :: json

record issue_filters =
  fi_id :: "int list option"
  fi_start :: "datetime option"
  fi_end :: "datetime option"
  fi_project :: "int list option"
  fi_environment :: "string list option"
  fi_query :: "string option"

text \<open>The arguments of \<open>update_issues_task\<close>; \<open>ua_assign\<close> is there when the keys of the assignee are.\<close>

record update_args =
  ua_slug :: string
  ua_user :: nat
  ua_filters :: issue_filters
  ua_exclude :: "nat list"
  ua_max :: nat
  ua_status :: "event_status option"
  ua_merge :: "int option"
  ua_assign :: "(nat option \<times> nat option) option"

datatype issue_task = DeleteIssues "nat list" | UpdateIssues update_args

record issue_tables =
  it_db :: db
  it_issues :: "issue_obj list"
  it_leaves :: "leaf_row list"
  it_tags :: "tag_row list"
  it_aggregates :: "aggregate_row list"
  it_events :: "stored_event list"
  it_hashes :: "hash_entry list"
  it_comments :: "comment_row list"
  it_reports :: "report_row list"
  it_notices :: "(nat \<times> nat) list"
  it_releases :: "release_row list"
  it_tasks :: "issue_task list"
  it_next_comment :: nat

record issue_env =
  db_order :: "issue_tables \<Rightarrow> nat list \<Rightarrow> nat list"
  fts_match :: "string \<Rightarrow> string \<Rightarrow> bool"
  log10 :: "nat \<Rightarrow> rat"
  filters_again :: "issue_filters \<Rightarrow> issue_filters"

text \<open>An unordered query answers its rows in some order.\<close>

definition any_order :: "issue_env \<Rightarrow> bool" where
  "any_order env \<longleftrightarrow> (\<forall>s xs. mset (db_order env s xs) = mset xs)"

section \<open>Relative times\<close>

datatype relative_time = Moment datetime | NotRelative json | Rejected | Overflows

definition RELATIVE_TIME_REGEX :: rx where
  "RELATIVE_TIME_REGEX =
     RSeq (RLit ''now'') (RSeq (RStar (RCls is_space)) (RSeq (RChar (CHR ''-'')) (RSeq (RStar (RCls is_space))
       (RSeq (RPlus (RCls is_digit)) (RSeq (RStar (RCls is_space))
         (RSeq (RCls (\<lambda>c. c = CHR ''m'' \<or> c = CHR ''h'' \<or> c = CHR ''d'')) (RSeq (RStar (RCls is_space)) REnd)))))))"

text \<open>The first instant of year 1; \<open>int\<close> refuses more than 4300 digits with a \<open>ValueError\<close>.\<close>

definition DATETIME_MIN :: datetime where "DATETIME_MIN = -62135596800000000"

definition relative_to_datetime :: "datetime \<Rightarrow> json \<Rightarrow> relative_time" where
  "relative_to_datetime now v =
     (if v = JStr ''now'' then Moment now
      else case v of
        JStr t \<Rightarrow>
          (if re_match RELATIVE_TIME_REGEX t = None then NotRelative v
           else let spaces_stripped = filter (\<lambda>c. c \<noteq> CHR '' '') t;
                    digits = takeWhile is_digit (dropWhile (\<lambda>c. \<not> is_digit c) spaces_stripped);
                    numbers = int (nat_of_digits digits);
                    unit = last spaces_stripped;
                    result = now - (if unit = CHR ''m'' then numbers * 60000000
                                    else if unit = CHR ''h'' then numbers * 3600000000
                                    else if unit = CHR ''d'' then numbers * US_PER_DAY else 0)
                in if 4300 < length digits then Rejected else if result < DATETIME_MIN then Overflows else Moment result)
      | _ \<Rightarrow> NotRelative v)"

section \<open>Splitting a search text\<close>

text \<open>
  \<open>shlex.split\<close>: the states are between words, in a word, in quotes, and after a backslash in a word or in
  double quotes. \<open>None\<close> is its \<open>ValueError\<close>.
\<close>

datatype lex_state = LBlank | LWord | LQuote char | LEscape "char option"

definition lex_space :: "char \<Rightarrow> bool" where
  "lex_space c \<longleftrightarrow> c = CHR '' '' \<or> c = CHR 0x09 \<or> c = CHR 0x0D \<or> c = CHR 0x0A"

definition lex_quote :: "char \<Rightarrow> bool" where
  "lex_quote c \<longleftrightarrow> c = CHR 0x22 \<or> c = CHR 0x27"

fun shlex_tokens :: "lex_state \<Rightarrow> string \<Rightarrow> bool \<Rightarrow> string \<Rightarrow> string list option" where
  "shlex_tokens LBlank tok quoted [] = Some []"
| "shlex_tokens LBlank tok quoted (c # s) =
     (if lex_space c then shlex_tokens LBlank tok quoted s
      else if c = BACKSLASH then shlex_tokens (LEscape None) [] False s
      else if lex_quote c then shlex_tokens (LQuote c) [] False s
      else shlex_tokens LWord [c] False s)"
| "shlex_tokens LWord tok quoted [] = Some (if tok = [] \<and> \<not> quoted then [] else [tok])"
| "shlex_tokens LWord tok quoted (c # s) =
     (if lex_space c then
        (if tok \<noteq> [] \<or> quoted then map_option (Cons tok) (shlex_tokens LBlank [] False s)
         else shlex_tokens LBlank tok quoted s)
      else if lex_quote c then shlex_tokens (LQuote c) tok quoted s
      else if c = BACKSLASH then shlex_tokens (LEscape None) tok quoted s
      else shlex_tokens LWord (tok @ [c]) quoted s)"
| "shlex_tokens (LQuote d) tok quoted [] = None"
| "shlex_tokens (LQuote d) tok quoted (c # s) =
     (if c = d then shlex_tokens LWord tok True s
      else if c = BACKSLASH \<and> d = CHR 0x22 then shlex_tokens (LEscape (Some d)) tok True s
      else shlex_tokens (LQuote d) (tok @ [c]) True s)"
| "shlex_tokens (LEscape e) tok quoted [] = None"
| "shlex_tokens (LEscape e) tok quoted (c # s) =
     (case e of
        None \<Rightarrow> shlex_tokens LWord (tok @ [c]) quoted s
      | Some d \<Rightarrow> shlex_tokens (LQuote d) (tok @ (if c \<noteq> BACKSLASH \<and> c \<noteq> d then [BACKSLASH, c] else [c])) quoted s)"

definition shlex_split :: "string \<Rightarrow> string list option" where
  "shlex_split s = shlex_tokens LBlank [] False s"

text \<open>\<open>s.split()\<close>.\<close>

fun split_ws :: "string \<Rightarrow> string \<Rightarrow> string list" where
  "split_ws w [] = (if w = [] then [] else [w])"
| "split_ws w (c # s) =
     (if is_space c then (if w = [] then split_ws [] s else w # split_ws [] s) else split_ws (w @ [c]) s)"

definition search_words :: "string \<Rightarrow> string list" where
  "search_words query = (case shlex_split query of Some ws \<Rightarrow> ws | None \<Rightarrow> split_ws [] query)"

definition status_from_string :: "string \<Rightarrow> event_status option" where
  "status_from_string s =
     (if s = ''unresolved'' then Some UNRESOLVED else if s = ''resolved'' then Some RESOLVED
      else if s = ''ignored'' then Some IGNORED else None)"

definition level_from_string :: "string \<Rightarrow> log_level option" where
  "level_from_string s =
     (if s = ''sample'' then Some NOTSET else if s = ''debug'' then Some DEBUG else if s = ''info'' then Some INFO
      else if s = ''warning'' then Some WARNING else if s = ''error'' then Some ERROR
      else if s = ''fatal'' then Some FATAL else None)"

datatype search_term =
    IsStatus "event_status option" | HasTag string | AtLevel "log_level option" | TagIs string string | FreeText string

definition structured_term :: "string \<Rightarrow> string \<Rightarrow> search_term" where
  "structured_term name raw =
     (let query_value = strip_set {CHR 0x22} raw in
      if name = ''is'' then IsStatus (status_from_string query_value)
      else if name = ''has'' then HasTag query_value
      else if name = ''level'' then AtLevel (level_from_string query_value)
      else TagIs name query_value)"

text \<open>The first word without a colon begins the free text, which takes the rest of the query.\<close>

fun search_terms :: "string list \<Rightarrow> search_term list" where
  "search_terms [] = []"
| "search_terms (q # qs) =
     (case split_once (CHR '':'') q of
        [name, raw] \<Rightarrow> structured_term name raw # search_terms qs
      | _ \<Rightarrow> [FreeText (join '' '' (q # qs))])"

section \<open>Issue queries\<close>

type_synonym issue_query = "issue_tables \<Rightarrow> issue_obj \<Rightarrow> leaf_row option \<Rightarrow> bool"

definition left_join :: "issue_tables \<Rightarrow> issue_obj \<Rightarrow> leaf_row option list" where
  "left_join s i = (case [l \<leftarrow> it_leaves s. lf_issue l = ib_id i] of [] \<Rightarrow> [None] | ls \<Rightarrow> map Some ls)"

definition rows_of_query :: "issue_query \<Rightarrow> issue_tables \<Rightarrow> (issue_obj \<times> leaf_row option) list" where
  "rows_of_query qs s = [(i, l). i \<leftarrow> it_issues s, l \<leftarrow> left_join s i, qs s i l]"

text \<open>\<open>values_list('id')\<close> groups by the columns of the issue, so that an issue is listed once.\<close>

definition selected :: "issue_query \<Rightarrow> issue_tables \<Rightarrow> issue_obj \<Rightarrow> bool" where
  "selected qs s i \<longleftrightarrow> (\<exists>l\<in>set (left_join s i). qs s i l)"

definition query_ids :: "issue_env \<Rightarrow> issue_query \<Rightarrow> issue_tables \<Rightarrow> nat list" where
  "query_ids env qs s = db_order env s (map ib_id (filter (selected qs s) (it_issues s)))"

definition projects_of :: "issue_tables \<Rightarrow> issue_obj \<Rightarrow> project list" where
  "projects_of s i = [p \<leftarrow> projects (it_db s). p_id p = ib_project i]"

definition in_org :: "nat \<Rightarrow> issue_tables \<Rightarrow> issue_obj \<Rightarrow> bool" where
  "in_org org s i \<longleftrightarrow> (\<exists>p\<in>set (projects_of s i). p_org p = org)"

definition leaf_in_org :: "nat \<Rightarrow> leaf_row option \<Rightarrow> bool" where
  "leaf_in_org org l = (case l of None \<Rightarrow> False | Some r \<Rightarrow> lf_org r = org)"

text \<open>\<open>project__organization__users\<close>.\<close>

definition visible_to :: "nat \<Rightarrow> issue_tables \<Rightarrow> issue_obj \<Rightarrow> bool" where
  "visible_to uid s i \<longleftrightarrow>
     (\<exists>p\<in>set (projects_of s i). \<exists>m\<in>set (members (it_db s)). m_org m = p_org p \<and> m_user m = Some uid)"

definition in_project_slug :: "string option \<Rightarrow> issue_tables \<Rightarrow> issue_obj \<Rightarrow> bool" where
  "in_project_slug slug s i \<longleftrightarrow> given slug (\<lambda>x. \<exists>p\<in>set (projects_of s i). p_slug p = x)"

text \<open>The organization is looked up once; the rest of the query is read when it is evaluated.\<close>

definition get_queryset :: "nat option \<Rightarrow> string option \<Rightarrow> string option \<Rightarrow> issue_tables \<Rightarrow> api_error + issue_query" where
  "get_queryset uid org_slug project_slug s =
     (let narrow = (\<lambda>qs. \<lambda>t i l. qs t i l \<and> in_project_slug project_slug t i) in
      case (if org_slug = Some [] then None else org_slug) of
        Some slug \<Rightarrow>
          (case uid of
             Some u \<Rightarrow>
               (case get_organization_for_user u slug (it_db s) of
                  [] \<Rightarrow> Inl Http404
                | [org] \<Rightarrow> Inr (narrow (\<lambda>t i l. in_org (o_id org) t i \<and> leaf_in_org (o_id org) l))
                | _ \<Rightarrow> Inl MultipleObjectsReturned)
           | None \<Rightarrow> Inr (narrow (\<lambda>t i l. \<exists>org\<in>set (orgs_of_slug slug (it_db t)). in_org (o_id org) t i)))
      | None \<Rightarrow>
          (case uid of
             Some u \<Rightarrow> Inr (narrow (\<lambda>t i l. visible_to u t i))
           | None \<Rightarrow> Inr (narrow (\<lambda>t i l. True))))"

section \<open>Filters\<close>

definition is_uuid7 :: "int \<Rightarrow> bool" where
  "is_uuid7 u \<longleftrightarrow> uuid_variant_rfc u \<and> uuid_version u = 7"

definition has_tag_row :: "issue_tables \<Rightarrow> issue_obj \<Rightarrow> (tag_row \<Rightarrow> bool) \<Rightarrow> bool" where
  "has_tag_row s i test \<longleftrightarrow> (\<exists>t\<in>set (it_tags s). tg_issue t = ib_id i \<and> test t)"

definition text_matches :: "issue_env \<Rightarrow> nat option \<Rightarrow> string \<Rightarrow> leaf_row option \<Rightarrow> bool" where
  "text_matches env org q l =
     (case l of
        None \<Rightarrow> False
      | Some r \<Rightarrow> fts_match env (lf_document r) q \<and> (case org of None \<Rightarrow> True | Some n \<Rightarrow> n \<noteq> 0 \<longrightarrow> lf_org r = n))"

fun term_matches :: "issue_env \<Rightarrow> nat option \<Rightarrow> search_term \<Rightarrow> issue_query" where
  "term_matches env org (IsStatus None) s i l = (l = None)"
| "term_matches env org (IsStatus (Some x)) s i l = (map_option lf_status l = Some x)"
| "term_matches env org (AtLevel None) s i l = (l = None)"
| "term_matches env org (AtLevel (Some x)) s i l = (map_option lf_level l = Some x)"
| "term_matches env org (HasTag k) s i l = has_tag_row s i (\<lambda>t. tg_key t = k)"
| "term_matches env org (TagIs k v) s i l = has_tag_row s i (\<lambda>t. tg_key t = k \<and> tg_value t = v)"
| "term_matches env org (FreeText q) s i l =
     (if CHR ''*'' \<in> set q
      then like (Some BACKSLASH) (lower (''%'' @ map (\<lambda>c. if c = CHR ''*'' then CHR ''%'' else c) q @ ''%''))
             (lower (ib_title i)) \<or> text_matches env org q l
      else text_matches env org q l)"

definition at_least :: "'a option \<Rightarrow> ('a \<Rightarrow> bool) \<Rightarrow> bool" where
  "at_least x test = (case x of None \<Rightarrow> True | Some v \<Rightarrow> test v)"

definition field_filters :: "issue_filters \<Rightarrow> issue_query" where
  "field_filters f s i l \<longleftrightarrow>
     at_least (fi_id f) (\<lambda>ids. int (ib_id i) \<in> set ids) \<and> at_least (fi_start f) (\<lambda>t. t \<le> ib_first_seen i) \<and>
     at_least (fi_end f) (\<lambda>t. ib_first_seen i \<le> t) \<and> at_least (fi_project f) (\<lambda>ps. int (ib_project i) \<in> set ps) \<and>
     given (fi_environment f) (\<lambda>es. has_tag_row s i (\<lambda>t. tg_key t = ''environment'' \<and> tg_value t \<in> set es))"

definition event_filter :: "int \<Rightarrow> nat option \<Rightarrow> issue_query" where
  "event_filter event_id org s i l \<longleftrightarrow>
     (\<exists>e\<in>set (it_events s). sv_issue e = ib_id i \<and>
        (if is_uuid7 event_id then sv_id e = event_id
         else sv_event_id e = Some event_id \<and> at_least org (\<lambda>n. n \<noteq> 0 \<longrightarrow> sv_org e = n)))"

definition filter_issue_list :: "issue_env \<Rightarrow> issue_filters \<Rightarrow> int option \<Rightarrow> nat option \<Rightarrow> issue_query \<Rightarrow> issue_query" where
  "filter_issue_list env f event_id org qs s i l \<longleftrightarrow>
     qs s i l \<and> field_filters f s i l \<and>
     (case event_id of
        Some u \<Rightarrow> event_filter u org s i l
      | None \<Rightarrow> given (fi_query f) (\<lambda>q. \<forall>t\<in>set (search_terms (search_words q)). term_matches env org t s i l))"

section \<open>Order\<close>

datatype sort_key_name = LastSeen | FirstSeen | Count | Priority

text \<open>
  \<open>sort_rows\<close> orders by one column; rows without a leaf have a null there, which is last in ascending order and
  first in descending order. The logarithm of zero is an error of the database.
\<close>

definition sort_value :: "issue_env \<Rightarrow> sort_key_name \<Rightarrow> issue_obj \<times> leaf_row option \<Rightarrow> rat option" where
  "sort_value env k = (\<lambda>(i, l).
     case k of
       FirstSeen \<Rightarrow> Some (of_int (ib_first_seen i))
     | LastSeen \<Rightarrow> map_option (\<lambda>r. of_int (lf_last_seen r)) l
     | Count \<Rightarrow> map_option (\<lambda>r. of_nat (lf_count r)) l
     | Priority \<Rightarrow> map_option (\<lambda>r. log10 env (lf_count r) + of_int (lf_last_seen r) / 1000000 / 300000) l)"

definition null_last :: "rat option \<Rightarrow> nat \<times> rat" where
  "null_last v = (case v of Some x \<Rightarrow> (0, x) | None \<Rightarrow> (1, 0))"

definition sort_rows ::
    "issue_env \<Rightarrow> sort_key_name \<times> bool \<Rightarrow> (issue_obj \<times> leaf_row option) list \<Rightarrow> api_error + (issue_obj \<times> leaf_row option) list" where
  "sort_rows env sk rows =
     (if fst sk = Priority \<and> (\<exists>r\<in>set rows. map_option lf_count (snd r) = Some 0) then Inl DataError
      else let asc = sort_key (null_last \<circ> sort_value env (fst sk)) rows in Inr (if snd sk then rev asc else asc))"

end
