(* ===== verification/Issue_Api.thy ===== *)
theory Issue_Api
  imports Issue_Search Team_Api
begin

text \<open>
  The endpoints on one issue, the listings and the bulk operations of \<open>apps/issue_events/api/issues.py\<close>: the
  resolution of an assignee, the change of status, resolution and assignee, soft deletion, and the bulk update and
  bulk deletion, which do a first part at once and enqueue a task for the rest (\<open>Issue_Tasks\<close>).

  A handler returns its answer and the tables; nothing is rolled back when a later step raises.
\<close>

type_synonym 'a issue_api = "(api_error + 'a) \<times> issue_tables"

definition permitted :: "string list \<Rightarrow> auth \<Rightarrow> issue_tables \<Rightarrow> 'a issue_api \<Rightarrow> 'a issue_api" where
  "permitted permissions au s k =
     (case fst (has_permission permissions au (it_db s) (Inr (), it_db s)) of Inl e \<Rightarrow> (Inl e, s) | Inr _ \<Rightarrow> k)"

definition or_fail :: "api_error + 'b \<Rightarrow> issue_tables \<Rightarrow> ('b \<Rightarrow> 'a issue_api) \<Rightarrow> 'a issue_api" where
  "or_fail r s k = (case r of Inl e \<Rightarrow> (Inl e, s) | Inr x \<Rightarrow> k x)"

text \<open>\<open>aget\<close> with its exception for no row.\<close>

definition get_row :: "api_error \<Rightarrow> 'b list \<Rightarrow> api_error + 'b" where
  "get_row missing rows = (case rows of [] \<Rightarrow> Inl missing | [x] \<Rightarrow> Inr x | _ \<Rightarrow> Inl MultipleObjectsReturned)"

section \<open>Writing rows\<close>

definition update_issues_where :: "(issue_obj \<Rightarrow> bool) \<Rightarrow> (issue_obj \<Rightarrow> issue_obj) \<Rightarrow> issue_tables \<Rightarrow> issue_tables" where
  "update_issues_where P f s = s\<lparr>it_issues := map (\<lambda>i. if P i then f i else i) (it_issues s)\<rparr>"

definition update_leaves_where :: "(leaf_row \<Rightarrow> bool) \<Rightarrow> (leaf_row \<Rightarrow> leaf_row) \<Rightarrow> issue_tables \<Rightarrow> issue_tables" where
  "update_leaves_where P f s = s\<lparr>it_leaves := map (\<lambda>l. if P l then f l else l) (it_leaves s)\<rparr>"

definition set_status :: "nat list \<Rightarrow> nat \<Rightarrow> event_status \<Rightarrow> issue_tables \<Rightarrow> issue_tables" where
  "set_status ids org st = update_leaves_where (\<lambda>l. lf_issue l \<in> set ids \<and> lf_org l = org) (\<lambda>l. l\<lparr>lf_status := st\<rparr>)"

definition set_assignee :: "nat list \<Rightarrow> nat option \<times> nat option \<Rightarrow> issue_tables \<Rightarrow> issue_tables" where
  "set_assignee ids a = update_issues_where (\<lambda>i. ib_id i \<in> set ids) (\<lambda>i. i\<lparr>ib_user := fst a, ib_team := snd a\<rparr>)"

definition soft_delete :: "nat list \<Rightarrow> issue_tables \<Rightarrow> issue_tables" where
  "soft_delete ids = update_issues_where (\<lambda>i. ib_id i \<in> set ids) (\<lambda>i. i\<lparr>ib_is_deleted := True\<rparr>)"

definition add_count :: "nat \<Rightarrow> nat \<Rightarrow> nat \<Rightarrow> issue_tables \<Rightarrow> issue_tables" where
  "add_count iid org n = update_leaves_where (\<lambda>l. lf_issue l = iid \<and> lf_org l = org) (\<lambda>l. l\<lparr>lf_count := lf_count l + n\<rparr>)"

definition move_hashes :: "nat list \<Rightarrow> nat \<Rightarrow> issue_tables \<Rightarrow> issue_tables" where
  "move_hashes ids target s =
     s\<lparr>it_hashes := map (\<lambda>h. if hv_issue h \<in> set ids then h\<lparr>hv_issue := target\<rparr> else h) (it_hashes s)\<rparr>"

text \<open>
  The ids of 1000 events of the issues, here the first ones of the table, then an update by id; the result is the
  number of ids and the tables.
\<close>

definition move_events :: "nat list \<Rightarrow> nat \<Rightarrow> issue_tables \<Rightarrow> nat \<times> issue_tables" where
  "move_events ids target s =
     (let event_ids = take 1000 (map sv_id (filter (\<lambda>e. sv_issue e \<in> set ids) (it_events s))) in
      (length event_ids,
       s\<lparr>it_events := map (\<lambda>e. if sv_id e \<in> set event_ids then e\<lparr>sv_issue := target\<rparr> else e) (it_events s)\<rparr>))"

definition enqueue :: "issue_task \<Rightarrow> issue_tables \<Rightarrow> issue_tables" where
  "enqueue t s = s\<lparr>it_tasks := it_tasks s @ [t]\<rparr>"

section \<open>Assignees\<close>

definition org_member_where :: "(nat \<Rightarrow> bool) \<Rightarrow> nat \<Rightarrow> db \<Rightarrow> member option" where
  "org_member_where P org s = List.find (\<lambda>m. m_org m = org \<and> (case m_user m of None \<Rightarrow> False | Some u \<Rightarrow> P u)) (members s)"

definition resolve_assignee :: "string option \<Rightarrow> nat \<Rightarrow> db \<Rightarrow> api_error + (nat option \<times> nat option)" where
  "resolve_assignee assigned_to org s =
     (case assigned_to of
        None \<Rightarrow> Inr (None, None)
      | Some [] \<Rightarrow> Inr (None, None)
      | Some t \<Rightarrow>
          if starts_with ''team:'' t then
            (case List.find (\<lambda>r. t_slug r = drop 5 t \<and> t_org r = org) (teams s) of
               None \<Rightarrow> Inl (api_error.HttpError 404 ''Team not found'')
             | Some r \<Rightarrow> Inr (None, Some (t_id r)))
          else if starts_with ''user:'' t \<and> py_int 10 (drop 5 t) = None then Inl (api_error.HttpError 400 ''Invalid assignedTo format'')
          else
            (case org_member_where (if starts_with ''user:'' t then (\<lambda>u. py_int 10 (drop 5 t) = Some (int u))
                                    else (\<lambda>u. \<exists>r\<in>set (user_rows s). u_id r = u \<and> u_email r = t)) org s of
               None \<Rightarrow> Inl (api_error.HttpError 404 ''User is not a member of this organization'')
             | Some m \<Rightarrow> Inr (Some (m_id m), None)))"

section \<open>One issue\<close>

record status_details =
  sd_in_release :: "string option"
  sd_in_next_release :: "bool option"

text \<open>\<open>up_assigned\<close> is there when the key was sent, with or without a value.\<close>

record update_payload =
  up_status :: "event_status option"
  up_details :: "status_details option"
  up_merge :: "int option"
  up_assigned :: "string option option"

text \<open>The new value of \<open>resolved_in_release\<close>, when it is to be saved.\<close>

definition latest_release :: "nat \<Rightarrow> issue_tables \<Rightarrow> release_row option" where
  "latest_release pid s =
     (case newest_first rl_created [r \<leftarrow> it_releases s. pid \<in> set (rl_projects r)] of [] \<Rightarrow> None | r # _ \<Rightarrow> Some r)"

definition new_resolution :: "update_payload \<Rightarrow> nat \<Rightarrow> nat \<Rightarrow> issue_tables \<Rightarrow> nat option option" where
  "new_resolution pl org pid s =
     (case up_status pl of
        None \<Rightarrow> None
      | Some RESOLVED \<Rightarrow>
          (case up_details pl of
             None \<Rightarrow> None
           | Some d \<Rightarrow>
               if or_empty (sd_in_release d) \<noteq> [] then
                 map_option (\<lambda>r. Some (rl_id r))
                   (List.find (\<lambda>r. rl_version r = or_empty (sd_in_release d) \<and> rl_org r = org) (it_releases s))
               else if sd_in_next_release d = Some True then map_option (\<lambda>r. Some (rl_id r)) (latest_release pid s)
               else None)
      | Some _ \<Rightarrow> Some None)"

text \<open>The issue with its new resolution and assignee, and saving it; the status is on the leaf.\<close>

definition changed_issue :: "update_payload \<Rightarrow> nat \<Rightarrow> issue_obj \<Rightarrow> issue_tables \<Rightarrow> api_error + issue_obj" where
  "changed_issue pl org i s =
     (let i1 = (case new_resolution pl org (ib_project i) s of None \<Rightarrow> i | Some r \<Rightarrow> i\<lparr>ib_resolved_in := r\<rparr>) in
      case up_assigned pl of
        None \<Rightarrow> Inr i1
      | Some a \<Rightarrow> map_sum id (\<lambda>(u, t). i1\<lparr>ib_user := u, ib_team := t\<rparr>) (resolve_assignee a org (it_db s)))"

definition save_issue :: "issue_obj \<Rightarrow> nat \<Rightarrow> event_status option \<Rightarrow> leaf_row option \<Rightarrow> issue_tables \<Rightarrow> issue_obj issue_api" where
  "save_issue i org new_status leaf s =
     (let s2 = s\<lparr>it_issues := save_row ib_id i (it_issues s)\<rparr> in
      case new_status of
        None \<Rightarrow> (Inr i, s2)
      | Some st \<Rightarrow> (if leaf = None then Inl DoesNotExist else Inr i, set_status [ib_id i] org st s2))"

definition update_issue_status :: "issue_query \<Rightarrow> nat \<Rightarrow> update_payload \<Rightarrow> issue_tables \<Rightarrow> issue_obj issue_api" where
  "update_issue_status qs iid pl s =
     or_fail (get_row Http404 (rows_of_query (\<lambda>t i l. qs t i l \<and> ib_id i = iid) s)) s (\<lambda>(i, leaf).
       (case projects_of s i of
          [] \<Rightarrow> (Inl DoesNotExist, s)
        | p # _ \<Rightarrow> or_fail (changed_issue pl (p_org p) i s) s (\<lambda>i2. save_issue i2 (p_org p) (up_status pl) leaf s)))"

definition get_issue :: "auth \<Rightarrow> nat \<Rightarrow> issue_tables \<Rightarrow> (issue_obj \<times> leaf_row option) issue_api" where
  "get_issue au iid s =
     permitted [''event:read'', ''event:write'', ''event:admin''] au s
       (or_fail (get_queryset (Some (user_id au)) None None s) s (\<lambda>qs.
        or_fail (get_row Http404 (rows_of_query (\<lambda>t i l. qs t i l \<and> ib_id i = iid) s)) s (\<lambda>r. (Inr r, s))))"

definition list_issue_commits :: "auth \<Rightarrow> nat \<Rightarrow> issue_tables \<Rightarrow> json issue_api" where
  "list_issue_commits au iid s =
     permitted [''event:read'', ''event:write'', ''event:admin''] au s
       (or_fail (get_queryset (Some (user_id au)) None None s) s (\<lambda>qs.
        or_fail (get_row Http404 (rows_of_query (\<lambda>t i l. qs t i l \<and> ib_id i = iid) s)) s (\<lambda>(i, _).
          (case ib_first_release i of
             None \<Rightarrow> (Inr (JList []), s)
           | Some rid \<Rightarrow>
               (case List.find (\<lambda>r. rl_id r = rid) (it_releases s) of
                  None \<Rightarrow> (Inl DoesNotExist, s)
                | Some r \<Rightarrow> (Inr (case jget (rl_data r) ''commits'' of None \<Rightarrow> JList [] | Some c \<Rightarrow> c), s))))))"

definition update_issue :: "auth \<Rightarrow> nat \<Rightarrow> update_payload \<Rightarrow> issue_tables \<Rightarrow> issue_obj issue_api" where
  "update_issue au iid pl s =
     permitted [''event:write'', ''event:admin''] au s
       (or_fail (get_queryset (Some (user_id au)) None None s) s (\<lambda>qs. update_issue_status qs iid pl s))"

definition update_organization_issue :: "auth \<Rightarrow> string \<Rightarrow> nat \<Rightarrow> update_payload \<Rightarrow> issue_tables \<Rightarrow> issue_obj issue_api" where
  "update_organization_issue au slug iid pl s =
     permitted [''event:write'', ''event:admin''] au s
       (or_fail (get_queryset (Some (user_id au)) (Some slug) None s) s (\<lambda>qs. update_issue_status qs iid pl s))"

definition delete_issue :: "auth \<Rightarrow> nat \<Rightarrow> issue_tables \<Rightarrow> unit issue_api" where
  "delete_issue au iid s =
     permitted [''event:write'', ''event:admin''] au s
       (or_fail (get_queryset (Some (user_id au)) None None s) s (\<lambda>qs.
          (let hit = [i \<leftarrow> it_issues s. selected qs s i \<and> ib_id i = iid] in
           if hit = [] then (Inl Http404, s)
           else (Inr (), enqueue (DeleteIssues [iid]) (soft_delete [iid] s)))))"

section \<open>Lists and bulk operations\<close>

text \<open>\<open>request.matching_event_id\<close> and the organization that the search is scoped to.\<close>

definition parsed_event_id :: "issue_filters \<Rightarrow> int option" where
  "parsed_event_id f =
     (case fi_query f of None \<Rightarrow> None | Some q \<Rightarrow> if q = [] then None else map_option int (uuid_parse q))"

definition search_org :: "issue_filters \<Rightarrow> string \<Rightarrow> issue_tables \<Rightarrow> nat option" where
  "search_org f slug s =
     (if or_empty (fi_query f) \<noteq> [] \<and> (case parsed_event_id f of None \<Rightarrow> True | Some u \<Rightarrow> \<not> is_uuid7 u)
      then map_option o_id (List.find (\<lambda>r. o_slug r = slug) (orgs (it_db s))) else None)"

definition list_issues ::
    "issue_env \<Rightarrow> auth \<Rightarrow> string \<Rightarrow> issue_filters \<Rightarrow> sort_key_name \<times> bool \<Rightarrow> issue_tables
     \<Rightarrow> (issue_obj \<times> leaf_row option) list issue_api" where
  "list_issues env au slug f sk s =
     permitted [''event:read'', ''event:write'', ''event:admin''] au s
       (or_fail (get_queryset (Some (user_id au)) (Some slug) None s) s (\<lambda>qs.
          (let base = (\<lambda>t i l. qs t i l \<and> \<not> ib_is_deleted i);
               q = filter_issue_list env f (parsed_event_id f) (search_org f slug s) base
           in or_fail (sort_rows env sk (rows_of_query q s)) s (\<lambda>rows. (Inr rows, s)))))"

definition list_project_issues ::
    "issue_env \<Rightarrow> auth \<Rightarrow> string \<Rightarrow> string \<Rightarrow> issue_filters \<Rightarrow> sort_key_name \<times> bool \<Rightarrow> issue_tables
     \<Rightarrow> (issue_obj \<times> leaf_row option) list issue_api" where
  "list_project_issues env au slug project_slug f sk s =
     permitted [''event:read'', ''event:write'', ''event:admin''] au s
       (or_fail (get_queryset (Some (user_id au)) (Some slug) (Some project_slug) s) s (\<lambda>qs.
          (let q = filter_issue_list env f (parsed_event_id f) (search_org f slug s) qs
           in or_fail (sort_rows env sk (rows_of_query q s)) s (\<lambda>rows. (Inr rows, s)))))"

definition delete_issues :: "issue_env \<Rightarrow> auth \<Rightarrow> string \<Rightarrow> issue_filters \<Rightarrow> issue_tables \<Rightarrow> unit issue_api" where
  "delete_issues env au slug f s =
     permitted [''event:write'', ''event:admin''] au s
       (or_fail (get_queryset (Some (user_id au)) (Some slug) None s) s (\<lambda>qs.
          (let q = filter_issue_list env f None None qs;
               s1 = soft_delete (query_ids env q s) s;
               issue_ids = query_ids env (\<lambda>t i l. q t i l \<and> ib_is_deleted i) s1
           in (Inr (), enqueue (DeleteIssues issue_ids) s1))))"

text \<open>\<open>order_by('-id').first()\<close>: the greatest id of a query.\<close>

definition max_of_ids :: "issue_query \<Rightarrow> issue_tables \<Rightarrow> nat option" where
  "max_of_ids qs s = (let ids = map ib_id (filter (selected qs s) (it_issues s)) in if ids = [] then None else Some (Max (set ids)))"

text \<open>The steps of the bulk update (\<open>update_issues\<close> of the source) after the set of issues has been frozen.\<close>

definition if_set :: "bool \<Rightarrow> ('s \<Rightarrow> 's) \<Rightarrow> 's \<Rightarrow> 's" where
  "if_set c f s = (if c then f s else s)"

definition status_step :: "bool \<Rightarrow> update_args \<Rightarrow> nat \<Rightarrow> nat list \<Rightarrow> event_status option \<Rightarrow> issue_tables \<Rightarrow> issue_tables" where
  "status_step should_enqueue args org updated_ids st s =
     (case st of None \<Rightarrow> s
      | Some x \<Rightarrow> if_set should_enqueue (enqueue (UpdateIssues args)) (set_status updated_ids org x s))"

definition merge_into :: "nat list \<Rightarrow> nat \<Rightarrow> nat \<Rightarrow> issue_tables \<Rightarrow> issue_tables" where
  "merge_into ids target org s =
     (case move_events ids target (move_hashes ids target (soft_delete ids s)) of
        (n_moved, s1) \<Rightarrow> add_count target org n_moved s1)"

definition merge_step ::
    "bool \<Rightarrow> update_args \<Rightarrow> issue_query \<Rightarrow> nat list \<Rightarrow> int option \<Rightarrow> issue_tables \<Rightarrow> issue_tables" where
  "merge_step should_enqueue args qs updated_ids mg s =
     (if mg = None \<or> mg = Some 0 then s
      else case max_of_ids qs s of
        None \<Rightarrow> s
      | Some target \<Rightarrow>
          (let ids = filter (\<lambda>x. x \<noteq> target) updated_ids;
               org = (case [p_org p. i \<leftarrow> it_issues s, ib_id i = target, p \<leftarrow> projects_of s i] of [] \<Rightarrow> 0 | n # _ \<Rightarrow> n)
           in if_set should_enqueue (enqueue (UpdateIssues (args\<lparr>ua_merge := Some (int target)\<rparr>)))
                (merge_into ids target org s)))"

definition BULK_LIMIT :: nat where "BULK_LIMIT = 50"

text \<open>
  The organization of the slug is there, because the query set was made from it. Steps that are done stay done when
  the assignee cannot be resolved.
\<close>

definition update_issues_endpoint :: "issue_env \<Rightarrow> auth \<Rightarrow> string \<Rightarrow> issue_filters \<Rightarrow> update_payload \<Rightarrow> issue_tables \<Rightarrow> unit issue_api" where
  "update_issues_endpoint env au slug f pl s =
     permitted [''event:write'', ''event:admin''] au s
       (or_fail (get_queryset (Some (user_id au)) (Some slug) None s) s (\<lambda>qs0.
          (let qs1 = filter_issue_list env f None None qs0 in
           case max_of_ids qs1 s of
             None \<Rightarrow> (Inr (), s)
           | Some 0 \<Rightarrow> (Inr (), s)
           | Some max_id \<Rightarrow>
               (let qs = (\<lambda>t i l. qs1 t i l \<and> ib_id i \<le> max_id);
                    updated_ids = take BULK_LIMIT (query_ids env qs s);
                    should_enqueue = (length updated_ids = BULK_LIMIT);
                    args = \<lparr>ua_slug = slug, ua_user = user_id au, ua_filters = f, ua_exclude = updated_ids, ua_max = max_id,
                            ua_status = up_status pl, ua_merge = up_merge pl, ua_assign = None\<rparr>
                in case List.find (\<lambda>r. o_slug r = slug) (orgs (it_db s)) of
                     None \<Rightarrow> (Inl DoesNotExist, s)
                   | Some org \<Rightarrow>
                       (let s1 = status_step should_enqueue args (o_id org) updated_ids (up_status pl) s in
                        case up_assigned pl of
                          None \<Rightarrow> (Inr (), merge_step should_enqueue args qs updated_ids (up_merge pl) s1)
                        | Some a \<Rightarrow>
                            or_fail (resolve_assignee a (o_id org) (it_db s1)) s1 (\<lambda>x.
                              (let args' = (if should_enqueue then args\<lparr>ua_assign := Some x\<rparr> else args);
                                   s2 = if_set should_enqueue (enqueue (UpdateIssues args')) (set_assignee updated_ids x s1)
                               in (Inr (), merge_step should_enqueue args' qs updated_ids (up_merge pl) s2))))))))"

end
