(* ===== verification/Issue_Tasks.thy ===== *)
theory Issue_Tasks
  imports Issue_Api
begin

text \<open>
  The background work on issues: the bulk update of what a request left over (\<open>apps/issue_events/tasks.py\<close>), the
  deletion of issues and of rows of partitioned tables in batches (\<open>apps/issue_events/maintenance.py\<close>) and the
  deletion of a project with its cold storage (\<open>apps/projects/tasks.py\<close>).

  The loops of the bulk update fetch a batch of ids until their query is empty. Whether it ever is depends on what
  the update does to the query, so they are partial functions; the deletions shrink the table and are total.
\<close>

section \<open>Bulk updates\<close>

definition CHUNK_SIZE :: nat where "CHUNK_SIZE = 1000"

partial_function (option) status_loop ::
    "issue_env \<Rightarrow> issue_query \<Rightarrow> nat \<Rightarrow> event_status \<Rightarrow> issue_tables \<Rightarrow> issue_tables option" where
  "status_loop env qs org st s =
     (let batch_ids = take CHUNK_SIZE (query_ids env qs s) in
      if batch_ids = [] then Some s else status_loop env qs org st (set_status batch_ids org st s))"

partial_function (option) assignment_loop ::
    "issue_env \<Rightarrow> issue_query \<Rightarrow> nat option \<times> nat option \<Rightarrow> issue_tables \<Rightarrow> issue_tables option" where
  "assignment_loop env qs a s =
     (let batch_ids = take CHUNK_SIZE (query_ids env qs s) in
      if batch_ids = [] then Some s else assignment_loop env qs a (set_assignee batch_ids a s))"

partial_function (option) merge_loop ::
    "issue_env \<Rightarrow> issue_query \<Rightarrow> nat \<Rightarrow> nat \<Rightarrow> nat \<Rightarrow> issue_tables \<Rightarrow> issue_tables option" where
  "merge_loop env qs target org updated_issue_count s =
     (let batch_ids = take CHUNK_SIZE (query_ids env (\<lambda>t i l. qs t i l \<and> ib_id i \<noteq> target) s) in
      if batch_ids = [] then Some (add_count target org updated_issue_count s)
      else case move_events batch_ids target (move_hashes batch_ids target (soft_delete batch_ids s)) of
             (n_moved, s') \<Rightarrow> merge_loop env qs target org (updated_issue_count + n_moved) s')"

text \<open>The query of the task: the filters again, less the issues that the request has updated.\<close>

definition task_query :: "issue_env \<Rightarrow> update_args \<Rightarrow> issue_tables \<Rightarrow> api_error + issue_query" where
  "task_query env args s =
     map_sum id (\<lambda>qs t i l. filter_issue_list env (filters_again env (ua_filters args)) None None qs t i l \<and>
                              ib_id i \<notin> set (ua_exclude args) \<and> ib_id i \<le> ua_max args)
       (get_queryset (Some (ua_user args)) (Some (ua_slug args)) None s)"

text \<open>\<open>exclude(index__status=...)\<close> keeps rows without a leaf.\<close>

definition without_status :: "event_status option \<Rightarrow> issue_query \<Rightarrow> issue_query" where
  "without_status st qs = (case st of None \<Rightarrow> qs | Some x \<Rightarrow> (\<lambda>t i l. qs t i l \<and> map_option lf_status l \<noteq> Some x))"

definition merge_part :: "issue_env \<Rightarrow> issue_query \<Rightarrow> int option \<Rightarrow> nat \<Rightarrow> issue_tables \<Rightarrow> issue_tables option" where
  "merge_part env qs mg org s =
     (case mg of
        None \<Rightarrow> Some s
      | Some m \<Rightarrow>
          if m = 0 \<or> [i \<leftarrow> it_issues s. int (ib_id i) = m] = [] then Some s
          else merge_loop env qs (nat m) org 0 s)"

text \<open>Outside: \<open>None\<close> for a task that never ends. The organization of the slug is there, as in \<open>update_issues\<close>.\<close>

definition update_issues_task :: "issue_env \<Rightarrow> update_args \<Rightarrow> issue_tables \<Rightarrow> unit issue_api option" where
  "update_issues_task env args s =
     (case task_query env args s of
        Inl e \<Rightarrow> Some (Inl e, s)
      | Inr qs0 \<Rightarrow>
          (case List.find (\<lambda>r. o_slug r = ua_slug args) (orgs (it_db s)) of
             None \<Rightarrow> Some (Inl DoesNotExist, s)
           | Some org \<Rightarrow>
               (let qs = without_status (ua_status args) qs0 in
                Option.bind (case ua_status args of None \<Rightarrow> Some s | Some st \<Rightarrow> status_loop env qs (o_id org) st s) (\<lambda>s1.
                Option.bind (case ua_assign args of None \<Rightarrow> Some s1 | Some a \<Rightarrow> assignment_loop env qs a s1) (\<lambda>s2.
                map_option (Pair (Inr ())) (merge_part env qs (ua_merge args) (o_id org) s2))))))"

section \<open>Deletion in batches\<close>

text \<open>A batch of keys is found in the table, so that deleting it shrinks the table.\<close>

lemma batch_hits:
  assumes "ks = take n (sort (map key (filter P rows)))" "ks \<noteq> []"
  shows "\<exists>r\<in>set rows. key r \<in> set ks"
proof -
  from assms(2) have "hd ks \<in> set ks" by simp
  moreover have "set ks \<subseteq> key ` set rows" using assms(1) set_take_subset by fastforce
  ultimately show ?thesis by fastforce
qed

text \<open>Rows of a table by their key, a batch of keys in ascending order at a time.\<close>

function raw_delete_in_batches :: "('r \<Rightarrow> 'k :: linorder) \<Rightarrow> ('r \<Rightarrow> bool) \<Rightarrow> nat \<Rightarrow> nat \<Rightarrow> 'r list \<Rightarrow> nat \<times> 'r list" where
  "raw_delete_in_batches key P batch_size total_deleted rows =
     (let batch_ids = take batch_size (sort (map key (filter P rows))) in
      if batch_ids = [] then (total_deleted, rows)
      else raw_delete_in_batches key P batch_size (total_deleted + length (filter (\<lambda>r. key r \<in> set batch_ids) rows))
             (filter (\<lambda>r. key r \<notin> set batch_ids) rows))"
  by pat_completeness auto
termination
proof (relation "measure (\<lambda>(key, P, batch_size, total_deleted, rows). length rows)")
  fix key :: "'r \<Rightarrow> 'k :: linorder" and P batch_size total_deleted rows batch_ids
  assume "batch_ids = take batch_size (sort (map key (filter P rows)))" "batch_ids \<noteq> []"
  then have "\<exists>r\<in>set rows. key r \<in> set batch_ids" by (rule batch_hits)
  then show "((key, P, batch_size, total_deleted + length (filter (\<lambda>r. key r \<in> set batch_ids) rows),
      filter (\<lambda>r. key r \<notin> set batch_ids) rows), key, P, batch_size, total_deleted, rows)
    \<in> measure (\<lambda>(key, P, batch_size, total_deleted, rows). length rows)"
    by (auto intro: length_filter_less)
qed simp

declare raw_delete_in_batches.simps [simp del]

text \<open>What is deleted before the issues of a batch.\<close>

definition delete_dependents :: "nat list \<Rightarrow> issue_tables \<Rightarrow> issue_tables" where
  "delete_dependents ids s =
     s\<lparr>it_events := snd (raw_delete_in_batches sv_id (\<lambda>e. sv_issue e \<in> set ids) 1000 0 (it_events s)),
       it_aggregates := filter (\<lambda>a. ag_issue a \<notin> set ids) (it_aggregates s),
       it_tags := filter (\<lambda>t. tg_issue t \<notin> set ids) (it_tags s),
       it_leaves := filter (\<lambda>l. lf_issue l \<notin> set ids) (it_leaves s),
       it_notices := filter (\<lambda>n. snd n \<notin> set ids) (it_notices s),
       it_hashes := filter (\<lambda>h. hv_issue h \<notin> set ids) (it_hashes s),
       it_comments := filter (\<lambda>c. cm_issue c \<notin> set ids) (it_comments s),
       it_reports := filter (\<lambda>r. ur_issue r \<notin> Some ` set ids) (it_reports s)\<rparr>"

definition delete_rows :: "nat list \<Rightarrow> issue_tables \<Rightarrow> issue_tables" where
  "delete_rows ids s = s\<lparr>it_issues := filter (\<lambda>i. ib_id i \<notin> set ids) (it_issues s)\<rparr>"

definition next_batch :: "issue_query \<Rightarrow> nat \<Rightarrow> issue_tables \<Rightarrow> nat list" where
  "next_batch qs batch_size s = take batch_size (sort (map ib_id (filter (selected qs s) (it_issues s))))"

text \<open>
  \<open>conflict\<close> says for which batch a row that refers to one of the issues has arrived in the meantime, so that the
  database refuses to delete the issues.
\<close>

function delete_issues_in_batches ::
    "(nat list \<Rightarrow> bool) \<Rightarrow> nat \<Rightarrow> issue_query \<Rightarrow> nat \<Rightarrow> issue_tables \<Rightarrow> nat \<times> issue_tables" where
  "delete_issues_in_batches conflict batch_size qs total_deleted s =
     (let batch_ids = next_batch qs batch_size s in
      if batch_ids = [] then (total_deleted, s)
      else let s' = delete_dependents batch_ids s in
           if conflict batch_ids then (total_deleted, s')
           else delete_issues_in_batches conflict batch_size qs
                  (total_deleted + length (filter (\<lambda>i. ib_id i \<in> set batch_ids) (it_issues s')))
                  (delete_rows batch_ids s'))"
  by pat_completeness auto
termination
proof (relation "measure (\<lambda>(conflict, batch_size, qs, total_deleted, s). length (it_issues s))")
  fix conflict batch_size qs total_deleted s batch_ids s'
  assume b: "batch_ids = next_batch qs batch_size s" "batch_ids \<noteq> []" and s': "s' = delete_dependents batch_ids s"
  from batch_hits [OF b(1) [unfolded next_batch_def] b(2)]
  have "\<exists>i\<in>set (it_issues s). ib_id i \<in> set batch_ids" .
  then show "((conflict, batch_size, qs, total_deleted + length (filter (\<lambda>i. ib_id i \<in> set batch_ids) (it_issues s')),
      delete_rows batch_ids s'), conflict, batch_size, qs, total_deleted, s)
    \<in> measure (\<lambda>(conflict, batch_size, qs, total_deleted, s). length (it_issues s))"
    by (auto simp: s' delete_rows_def delete_dependents_def intro: length_filter_less)
qed simp

declare delete_issues_in_batches.simps [simp del]

definition delete_issue_task :: "(nat list \<Rightarrow> bool) \<Rightarrow> nat list \<Rightarrow> issue_tables \<Rightarrow> issue_tables" where
  "delete_issue_task conflict ids s = snd (delete_issues_in_batches conflict 1000 (\<lambda>t i l. ib_id i \<in> set ids) 0 s)"

definition old_issue :: "datetime \<Rightarrow> int \<Rightarrow> issue_query" where
  "old_issue now retention_days t i l \<longleftrightarrow>
     (case l of None \<Rightarrow> False | Some r \<Rightarrow> lf_last_seen r < now - (retention_days + 7) * US_PER_DAY)"

definition cleanup_old_issues :: "(nat list \<Rightarrow> bool) \<Rightarrow> datetime \<Rightarrow> int \<Rightarrow> issue_tables \<Rightarrow> nat \<times> issue_tables" where
  "cleanup_old_issues conflict now retention_days s =
     delete_issues_in_batches conflict 1000 (old_issue now retention_days) 0 s"

section \<open>Deleting a project\<close>

record 'a project_env =
  pv_backend :: "backend option"
  pv_duckdb :: bool
  pv_duck_ok :: "path \<Rightarrow> bool"
  pv_issue_of :: "'a \<Rightarrow> int"
  pv_project_of :: "'a \<Rightarrow> int"
  pv_conflict :: "nat list \<Rightarrow> bool"

record 'a project_state =
  pj_tables :: issue_tables
  pj_logs :: "log_row list"
  pj_cold :: "'a files"

definition rewrite_cold_storage_for_project :: "'a project_env \<Rightarrow> project \<Rightarrow> issue_tables \<Rightarrow> 'a files \<Rightarrow> 'a files" where
  "rewrite_cold_storage_for_project env p s fs =
     (if \<not> pv_duckdb env then fs
      else case pv_backend env of
             None \<Rightarrow> fs
           | Some be \<Rightarrow>
               (let rewrite = (\<lambda>pid iids prefix fs. snd (rewrite_parquet_excluding_project be (pv_duck_ok env)
                       (pv_issue_of env) (pv_project_of env) (int (p_org p)) pid iids prefix fs));
                    issue_ids = map (int \<circ> ib_id) (filter (\<lambda>i. ib_project i = p_id p) (it_issues s));
                    fs3 = rewrite (Some (int (p_id p))) [] ''performance_spans_rollup''
                            (rewrite (Some (int (p_id p))) [] ''performance_spans''
                              (rewrite (Some (int (p_id p))) [] ''logs_logevent'' fs))
                in if issue_ids = [] then fs3 else rewrite None issue_ids ''issue_events_issueevent'' fs3))"

text \<open>The cascade of \<open>force_delete\<close> over the issue tables; the cascade over the other tables is \<open>remove_projects\<close>.\<close>

definition cascade_project :: "nat \<Rightarrow> issue_tables \<Rightarrow> issue_tables" where
  "cascade_project pid s =
     (let ids = map ib_id (filter (\<lambda>i. ib_project i = pid) (it_issues s));
          s' = delete_rows ids (delete_dependents ids s)
      in s'\<lparr>it_hashes := filter (\<lambda>h. hv_project h \<noteq> pid) (it_hashes s'),
            it_reports := filter (\<lambda>r. ur_project r \<noteq> pid) (it_reports s'),
            it_releases := map (\<lambda>r. r\<lparr>rl_projects := filter (\<lambda>p. p \<noteq> pid) (rl_projects r)\<rparr>) (it_releases s')\<rparr>)"

definition delete_project_everywhere :: "'a project_env \<Rightarrow> nat \<Rightarrow> 'a project_state \<Rightarrow> (api_error + unit) \<times> 'a project_state" where
  "delete_project_everywhere env pid st =
     (let s = pj_tables st in
      case get_row DoesNotExist [p \<leftarrow> projects (it_db s). p_id p = pid] of
        Inl e \<Rightarrow> (Inl e, st)
      | Inr p \<Rightarrow>
          (let org = p_org p;
               cold = rewrite_cold_storage_for_project env p s (pj_cold st);
               s1 = s\<lparr>it_events := snd (raw_delete_in_batches sv_id
                         (\<lambda>e. sv_org e = org \<and> (\<exists>i\<in>set (it_issues s). ib_id i = sv_issue e \<and> ib_project i = pid))
                         1000 0 (it_events s))\<rparr>;
               logs = snd (raw_delete_in_batches lr_id (\<lambda>r. lr_org r = int org \<and> lr_project r = int pid) 1000 0 (pj_logs st));
               s2 = snd (delete_issues_in_batches (pv_conflict env) 1000 (\<lambda>t i l. ib_project i = pid) 0 s1);
               s3 = cascade_project pid s2
           in (Inr (), \<lparr>pj_tables = s3\<lparr>it_db := remove_projects (\<lambda>r. p_id r = pid) (it_db s3)\<rparr>,
                       pj_logs = logs, pj_cold = cold\<rparr>)))"

end
