(* ===== verification/Issue_Deletion.thy ===== *)
theory Issue_Deletion
  imports Issue_Tasks Access_Control
begin

text \<open>
  What the deletion of issues and projects leaves: the batches of \<open>raw_delete_in_batches\<close> and
  \<open>delete_issues_in_batches\<close> amount to one filter over every table, and a batch that the database refuses leaves
  its issues without the rows that the next maintenance run looks for.
\<close>

section \<open>Batches of keys\<close>

lemma take_eq_Nil_pos: "0 < n \<Longrightarrow> take n xs = [] \<longleftrightarrow> xs = []"
  by simp

lemma raw_delete_is_filter:
  assumes "0 < batch_size"
  shows "raw_delete_in_batches key P batch_size n rows =
    (n + length (filter (\<lambda>r. key r \<in> key ` set (filter P rows)) rows),
     filter (\<lambda>r. key r \<notin> key ` set (filter P rows)) rows)"
  using assms
proof (induction key P batch_size n rows rule: raw_delete_in_batches.induct)
  case (1 key P batch_size n rows)
  define ks where "ks = take batch_size (sort (map key (filter P rows)))"
  define K where "K = key ` set (filter P rows)"
  have sub: "set ks \<subseteq> K" unfolding ks_def K_def using set_take_subset by fastforce
  show ?case
  proof (cases "ks = []")
    case True
    then have "filter P rows = []" using 1(2) by (simp add: ks_def flip: length_0_conv)
    with True show ?thesis by (subst raw_delete_in_batches.simps) (simp add: ks_def)
  next
    case False
    let ?rows = "filter (\<lambda>r. key r \<notin> set ks) rows"
    have K': "key ` set (filter P ?rows) = K - set ks" by (auto simp: K_def)
    have len: "length (filter (\<lambda>r. key r \<in> set ks) rows) + length (filter (\<lambda>r. key r \<in> K - set ks) ?rows) =
      length (filter (\<lambda>r. key r \<in> K) rows)"
    proof -
      have "filter (\<lambda>r. key r \<in> K - set ks) ?rows = filter (\<lambda>r. \<not> key r \<in> set ks) (filter (\<lambda>r. key r \<in> K) rows)"
        by (auto simp: filter_filter intro: filter_cong)
      moreover have "filter (\<lambda>r. key r \<in> set ks) rows = filter (\<lambda>r. key r \<in> set ks) (filter (\<lambda>r. key r \<in> K) rows)"
        using sub by (auto simp: filter_filter intro: filter_cong)
      ultimately show ?thesis using sum_length_filter_compl [of "\<lambda>r. key r \<in> set ks" "filter (\<lambda>r. key r \<in> K) rows"] by simp
    qed
    have "raw_delete_in_batches key P batch_size n rows =
      raw_delete_in_batches key P batch_size (n + length (filter (\<lambda>r. key r \<in> set ks) rows)) ?rows"
      using False by (subst raw_delete_in_batches.simps) (simp add: Let_def flip: ks_def)
    also have "\<dots> = (n + length (filter (\<lambda>r. key r \<in> K) rows), filter (\<lambda>r. key r \<notin> K) rows)"
    proof -
      have "filter (\<lambda>r. key r \<notin> K - set ks) ?rows = filter (\<lambda>r. key r \<notin> K) rows"
        using sub by (auto simp: filter_filter intro: filter_cong)
      then show ?thesis using 1(1) [OF ks_def False 1(2), unfolded K'] len by simp
    qed
    finally show ?thesis by (simp only: K_def)
  qed
qed

lemma distinct_key_eq: "distinct (map key rows) \<Longrightarrow> r \<in> set rows \<Longrightarrow> r' \<in> set rows \<Longrightarrow> key r = key r' \<Longrightarrow> r = r'"
  by (auto simp: distinct_map inj_on_def)

text \<open>With unique keys the rows of the query are deleted and no others.\<close>

lemma raw_delete_rows:
  assumes "0 < batch_size" "distinct (map key rows)"
  shows "snd (raw_delete_in_batches key P batch_size n rows) = filter (\<lambda>r. \<not> P r) rows"
  unfolding raw_delete_is_filter [OF assms(1)] snd_conv
  using distinct_key_eq [OF assms(2)] by (auto intro!: filter_cong)

section \<open>Batches of issues\<close>

definition unique_rows :: "issue_tables \<Rightarrow> bool" where
  "unique_rows s \<longleftrightarrow> distinct (map sv_id (it_events s)) \<and> distinct (map ib_id (it_issues s))"

text \<open>The tables without a set of issues and everything that refers to them.\<close>

definition strip_issues :: "nat set \<Rightarrow> issue_tables \<Rightarrow> issue_tables" where
  "strip_issues D s =
     s\<lparr>it_events := filter (\<lambda>e. sv_issue e \<notin> D) (it_events s),
       it_aggregates := filter (\<lambda>a. ag_issue a \<notin> D) (it_aggregates s),
       it_tags := filter (\<lambda>t. tg_issue t \<notin> D) (it_tags s),
       it_leaves := filter (\<lambda>l. lf_issue l \<notin> D) (it_leaves s),
       it_notices := filter (\<lambda>n. snd n \<notin> D) (it_notices s),
       it_hashes := filter (\<lambda>h. hv_issue h \<notin> D) (it_hashes s),
       it_comments := filter (\<lambda>c. cm_issue c \<notin> D) (it_comments s),
       it_reports := filter (\<lambda>r. ur_issue r \<notin> Some ` D) (it_reports s)\<rparr>"

definition without_issues :: "nat set \<Rightarrow> issue_tables \<Rightarrow> issue_tables" where
  "without_issues D s = (strip_issues D s)\<lparr>it_issues := filter (\<lambda>i. ib_id i \<notin> D) (it_issues s)\<rparr>"

lemma delete_dependents_strip: "unique_rows s \<Longrightarrow> delete_dependents ids s = strip_issues (set ids) s"
  by (simp add: delete_dependents_def strip_issues_def unique_rows_def raw_delete_rows)

lemma delete_rows_strip: "delete_rows ids (strip_issues (set ids) s) = without_issues (set ids) s"
  by (simp add: delete_rows_def without_issues_def strip_issues_def)

lemma strip_strip: "strip_issues A (strip_issues B s) = strip_issues (A \<union> B) s"
  by (simp add: strip_issues_def filter_filter image_Un conj_commute)

lemma without_issues_twice: "without_issues A (without_issues B s) = without_issues (A \<union> B) s"
  by (simp add: without_issues_def strip_issues_def filter_filter image_Un conj_commute)

lemma without_no_issues [simp]: "without_issues {} s = s" "strip_issues {} s = s"
  by (simp_all add: without_issues_def strip_issues_def)

lemma unique_without: "unique_rows s \<Longrightarrow> unique_rows (without_issues D s)"
  by (auto simp: unique_rows_def without_issues_def strip_issues_def distinct_map_filter)

lemma left_join_after: "ib_id i \<notin> D \<Longrightarrow> left_join (without_issues D s) i = left_join s i"
proof -
  assume "ib_id i \<notin> D"
  then have "[l \<leftarrow> filter (\<lambda>l. lf_issue l \<notin> D) (it_leaves s). lf_issue l = ib_id i] = [l \<leftarrow> it_leaves s. lf_issue l = ib_id i]"
    by (auto simp: filter_filter intro: filter_cong)
  then show ?thesis by (simp add: left_join_def without_issues_def strip_issues_def)
qed

text \<open>The ids that a query selects, for a query that reads nothing but the issue and its leaf.\<close>

abbreviation fixed :: "(issue_obj \<Rightarrow> leaf_row option \<Rightarrow> bool) \<Rightarrow> issue_query" where
  "fixed Q \<equiv> \<lambda>t. Q"

definition ids_selected :: "issue_query \<Rightarrow> issue_tables \<Rightarrow> nat set" where
  "ids_selected qs s = ib_id ` {i \<in> set (it_issues s). selected qs s i}"

lemma ids_selected_without:
  "ids_selected (fixed Q) (without_issues D s) = ids_selected (fixed Q) s - D" if "unique_rows s"
proof -
  have "i = j" if "i \<in> set (it_issues s)" "j \<in> set (it_issues s)" "ib_id i = ib_id j" for i j
    using distinct_key_eq \<open>unique_rows s\<close> that by (auto simp: unique_rows_def)
  moreover have "selected (fixed Q) (without_issues D s) i = selected (fixed Q) s i" if "ib_id i \<notin> D" for i
    using that by (simp add: selected_def left_join_after)
  ultimately show ?thesis by (fastforce simp: ids_selected_def without_issues_def)
qed

lemma set_next_batch: "set (next_batch qs n s) \<subseteq> ids_selected qs s"
  using set_take_subset by (fastforce simp: next_batch_def ids_selected_def)

lemma next_batch_Nil: "0 < n \<Longrightarrow> next_batch qs n s = [] \<Longrightarrow> ids_selected qs s = {}"
  unfolding next_batch_def ids_selected_def
  by (simp add: take_eq_Nil_pos) (metis (mono_tags, lifting) filter_empty_conv length_0_conv length_map length_sort)

lemma delete_issues_step:
  assumes "ids = next_batch qs batch_size s"
  shows "delete_issues_in_batches conflict batch_size qs n s =
    (if ids = [] then (n, s) else if conflict ids then (n, delete_dependents ids s)
     else delete_issues_in_batches conflict batch_size qs (n + length (filter (\<lambda>i. ib_id i \<in> set ids) (it_issues s)))
            (delete_rows ids (delete_dependents ids s)))"
  by (subst delete_issues_in_batches.simps) (simp add: assms Let_def delete_dependents_def)

text \<open>The outcome of every run: whole batches are gone; after a refusal one more batch is stripped.\<close>

lemma delete_issues_outcome:
  assumes "0 < batch_size" "unique_rows s" "qs = fixed Q"
  shows "\<exists>A B. A \<subseteq> ids_selected qs s \<and> set B \<subseteq> ids_selected qs s - A \<and>
    delete_issues_in_batches conflict batch_size qs n s =
      (n + length (filter (\<lambda>i. ib_id i \<in> A) (it_issues s)), strip_issues (set B) (without_issues A s)) \<and>
    (if B = [] then A = ids_selected qs s else conflict B)"
  using assms
proof (induction conflict batch_size qs n s rule: delete_issues_in_batches.induct)
  case (1 conflict batch_size qs n s)
  define ids where "ids = next_batch qs batch_size s"
  let ?s' = "delete_dependents ids s"
  have strip: "?s' = strip_issues (set ids) s" using 1(3) by (rule delete_dependents_strip)
  note sub = set_next_batch [of qs batch_size s, folded ids_def]
  consider "ids = []" | "ids \<noteq> []" "conflict ids" | "ids \<noteq> []" "\<not> conflict ids" by blast
  then show ?case
  proof cases
    case 1
    then show ?thesis
      using next_batch_Nil [OF \<open>0 < batch_size\<close>, of qs s, folded ids_def]
      by (intro exI [of _ "{}"] exI [of _ "[]"]) (simp add: delete_issues_step [OF ids_def])
  next
    case 2
    then have "delete_issues_in_batches conflict batch_size qs n s = (n, ?s')"
      by (simp add: delete_issues_step [OF ids_def])
    then show ?thesis using sub 2 by (intro exI [of _ "{}"] exI [of _ ids]) (simp add: strip)
  next
    case 3
    let ?w = "without_issues (set ids) s"
    let ?n = "n + length (filter (\<lambda>i. ib_id i \<in> set ids) (it_issues s))"
    have eq: "delete_issues_in_batches conflict batch_size qs n s = delete_issues_in_batches conflict batch_size qs ?n ?w"
      using 3 by (simp add: delete_issues_step [OF ids_def] strip delete_rows_strip)
    have "delete_rows ids ?s' = ?w" "it_issues ?s' = it_issues s"
      by (simp_all add: strip delete_rows_strip) (simp add: strip_issues_def)
    then obtain A B where A: "A \<subseteq> ids_selected qs ?w" and B: "set B \<subseteq> ids_selected qs ?w - A"
      and r: "delete_issues_in_batches conflict batch_size qs ?n ?w =
        (?n + length (filter (\<lambda>i. ib_id i \<in> A) (it_issues ?w)), strip_issues (set B) (without_issues A ?w))"
      and e: "if B = [] then A = ids_selected qs ?w else conflict B"
      using 1(1) [OF ids_def 3(1) refl 3(2) \<open>0 < batch_size\<close> _ \<open>qs = fixed Q\<close>]
        unique_without [OF \<open>unique_rows s\<close>] by auto
    have w: "ids_selected qs ?w = ids_selected qs s - set ids"
      using ids_selected_without [OF \<open>unique_rows s\<close>] \<open>qs = fixed Q\<close> by simp
    have "length (filter (\<lambda>i. ib_id i \<in> set ids) (it_issues s)) + length (filter (\<lambda>i. ib_id i \<in> A) (it_issues ?w)) =
      length (filter (\<lambda>i. ib_id i \<in> set ids \<union> A) (it_issues s))"
    proof -
      have "filter (\<lambda>i. ib_id i \<in> A) (it_issues ?w) =
          filter (\<lambda>i. \<not> ib_id i \<in> set ids) (filter (\<lambda>i. ib_id i \<in> set ids \<union> A) (it_issues s))"
        by (auto simp: without_issues_def filter_filter intro: filter_cong)
      moreover have "filter (\<lambda>i. ib_id i \<in> set ids) (it_issues s) =
          filter (\<lambda>i. ib_id i \<in> set ids) (filter (\<lambda>i. ib_id i \<in> set ids \<union> A) (it_issues s))"
        by (auto simp: filter_filter intro: filter_cong)
      ultimately show ?thesis
        using sum_length_filter_compl [of "\<lambda>i. ib_id i \<in> set ids" "filter (\<lambda>i. ib_id i \<in> set ids \<union> A) (it_issues s)"] by simp
    qed
    then show ?thesis
      using A B e sub eq r
      by (intro exI [of _ "set ids \<union> A"] exI [of _ B]) (auto simp: without_issues_twice Un_commute w split: if_splits)
  qed
qed

section \<open>Issues that are asked to be deleted\<close>

lemma in_ids_selected:
  assumes "unique_rows s" "i \<in> set (it_issues s)"
  shows "ib_id i \<in> ids_selected qs s \<longleftrightarrow> selected qs s i"
proof -
  have "j = i" if "j \<in> set (it_issues s)" "ib_id i = ib_id j" for j
    using distinct_key_eq [of ib_id "it_issues s" j i] assms that by (simp add: unique_rows_def)
  then show ?thesis using assms(2) unfolding ids_selected_def by blast
qed

text \<open>Without a conflict a deletion removes exactly the selected issues and whatever refers to them.\<close>

lemma delete_issues_completes:
  assumes "0 < batch_size" "unique_rows s" "\<And>b. \<not> conflict b"
  shows "delete_issues_in_batches conflict batch_size (fixed Q) n s =
    (n + length (filter (selected (fixed Q) s) (it_issues s)), without_issues (ids_selected (fixed Q) s) s)"
proof -
  obtain A B where AB: "A \<subseteq> ids_selected (fixed Q) s" "set B \<subseteq> ids_selected (fixed Q) s - A"
    and r: "delete_issues_in_batches conflict batch_size (fixed Q) n s =
      (n + length (filter (\<lambda>i. ib_id i \<in> A) (it_issues s)), strip_issues (set B) (without_issues A s))"
    and e: "if B = [] then A = ids_selected (fixed Q) s else conflict B"
    using delete_issues_outcome [OF assms(1,2) refl, of Q conflict n] by (elim exE conjE) (rule that)
  have B: "B = []" using e assms(3) [of B] by argo
  have A: "A = ids_selected (fixed Q) s" using e B by argo
  have "filter (\<lambda>i. ib_id i \<in> A) (it_issues s) = filter (selected (fixed Q) s) (it_issues s)"
    unfolding A by (intro filter_cong refl in_ids_selected [OF assms(2)])
  then show ?thesis unfolding r B A [symmetric] by (simp only: list.set without_no_issues)
qed

definition dependent_on :: "nat \<Rightarrow> issue_tables \<Rightarrow> bool" where
  "dependent_on i s \<longleftrightarrow>
     i \<in> sv_issue ` set (it_events s) \<or> i \<in> ag_issue ` set (it_aggregates s) \<or> i \<in> tg_issue ` set (it_tags s) \<or>
     i \<in> lf_issue ` set (it_leaves s) \<or> i \<in> snd ` set (it_notices s) \<or> i \<in> hv_issue ` set (it_hashes s) \<or>
     i \<in> cm_issue ` set (it_comments s) \<or> Some i \<in> ur_issue ` set (it_reports s)"

lemma strip_leaves_nothing: "i \<in> D \<Longrightarrow> \<not> dependent_on i (strip_issues D s)"
  by (auto simp: dependent_on_def strip_issues_def) (metis image_eqI)

lemma without_leaves_nothing: "i \<in> D \<Longrightarrow> \<not> dependent_on i (without_issues D s)"
  using strip_leaves_nothing [of i D s] by (simp add: dependent_on_def without_issues_def)

lemma stripped_is_unselected: "i \<in> set B \<Longrightarrow> ib_id j = i \<Longrightarrow> \<not> selected (old_issue now days) (strip_issues (set B) s) j"
  by (simp add: selected_def left_join_def strip_issues_def filter_filter old_issue_def conj_commute cong: conj_cong)

section \<open>Cold storage of a project\<close>







section \<open>Queries that an update of issues does not disturb\<close>

definition same_ground :: "issue_tables \<Rightarrow> issue_tables \<Rightarrow> bool" where
  "same_ground t t' \<longleftrightarrow> it_db t = it_db t' \<and> it_tags t = it_tags t'"

definition alike :: "issue_obj \<Rightarrow> issue_obj \<Rightarrow> bool" where
  "alike i i' \<longleftrightarrow> ib_id i = ib_id i' \<and> ib_project i = ib_project i' \<and> ib_first_seen i = ib_first_seen i' \<and> ib_title i = ib_title i'"

text \<open>The flag of deletion, the assignee, the events and the hashes are not read by such a query.\<close>

definition steady_query :: "issue_query \<Rightarrow> bool" where
  "steady_query qs \<longleftrightarrow> (\<forall>t t' i i' l. same_ground t t' \<longrightarrow> alike i i' \<longrightarrow> qs t i l = qs t' i' l)"

lemma steady_queryD: "steady_query qs \<Longrightarrow> same_ground t t' \<Longrightarrow> alike i i' \<Longrightarrow> qs t i l = qs t' i' l"
  by (simp add: steady_query_def)

lemma steady_and: "steady_query p \<Longrightarrow> steady_query q \<Longrightarrow> steady_query (\<lambda>t i l. p t i l \<and> q t i l)"
  by (simp add: steady_query_def)

lemma steady_projects: "same_ground t t' \<Longrightarrow> alike i i' \<Longrightarrow> projects_of t i = projects_of t' i'"
  by (simp add: projects_of_def same_ground_def alike_def)

lemma steady_parts:
  "steady_query (\<lambda>t i l. in_project_slug slug t i)" "steady_query (\<lambda>t i l. in_org org t i)"
  "steady_query (\<lambda>t i l. visible_to u t i)" "steady_query (\<lambda>t i l. \<exists>org\<in>set (orgs_of_slug x (it_db t)). in_org (o_id org) t i)"
  unfolding steady_query_def in_project_slug_def in_org_def visible_to_def
  by (intro allI impI, frule (1) steady_projects, simp add: same_ground_def)+

lemma steady_get_queryset:
  assumes "get_queryset uid slug pslug s = Inr qs"
  shows "steady_query qs"
proof -
  have leaf: "steady_query (\<lambda>t i. leaf_in_org org)" for org by (simp add: steady_query_def)
  have "qs = (\<lambda>t i l. in_project_slug pslug t i) \<or> (\<exists>u. qs = (\<lambda>t i l. visible_to u t i \<and> in_project_slug pslug t i)) \<or>
      (\<exists>x. qs = (\<lambda>t i l. (\<exists>org\<in>set (orgs_of_slug x (it_db t)). in_org (o_id org) t i) \<and> in_project_slug pslug t i)) \<or>
      (\<exists>n. qs = (\<lambda>t i l. in_org n t i \<and> leaf_in_org n l \<and> in_project_slug pslug t i))"
    using assms unfolding get_queryset_def Let_def by (auto split: option.split_asm list.split_asm if_split_asm)
  then show ?thesis by (elim disjE exE) (simp_all only: steady_and steady_parts leaf)
qed

lemma steady_term: "steady_query (term_matches env org t)"
proof -
  have "has_tag_row a i = has_tag_row b j" if "same_ground a b" "alike i j" for a b i j
    using that by (simp add: has_tag_row_def same_ground_def alike_def fun_eq_iff)
  then have "term_matches env org t a i l = term_matches env org t b j l" if "same_ground a b" "alike i j" for a b i j l
    using that by (cases "(env, org, t, a, i, l)" rule: term_matches.cases) (simp_all add: alike_def)
  then show ?thesis by (simp add: steady_query_def)
qed

lemma steady_filter: "steady_query qs \<Longrightarrow> steady_query (filter_issue_list env f None org qs)"
proof -
  assume q: "steady_query qs"
  have "field_filters f a i l = field_filters f b j l" if "same_ground a b" "alike i j" for a b i j l
    using that by (simp add: field_filters_def has_tag_row_def same_ground_def alike_def)
  then show ?thesis
    using q steady_queryD [OF steady_term] unfolding steady_query_def filter_issue_list_def by (simp cong: conj_cong)
qed

lemma map_if_same:
  assumes "\<And>x. x \<in> set xs \<Longrightarrow> g (if P x then f x else x) = g x"
  shows "map g (map (\<lambda>x. if P x then f x else x) xs) = map g xs"
  using assms by (induction xs) auto

lemma soft_delete_ids: "map ib_id (it_issues (soft_delete ids s)) = map ib_id (it_issues s)"
  unfolding soft_delete_def update_issues_where_def by (simp add: comp_def if_distrib cong: if_cong)

lemma unique_soft_delete [simp]: "unique_rows (soft_delete ids s) = unique_rows s"
proof -
  have "it_events (soft_delete ids s) = it_events s" by (simp add: soft_delete_def update_issues_where_def)
  then show ?thesis by (simp add: unique_rows_def soft_delete_ids)
qed

lemma left_join_same: "it_leaves t = it_leaves s \<Longrightarrow> ib_id i = ib_id j \<Longrightarrow> left_join t i = left_join s j"
  by (simp add: left_join_def)

lemma selected_steady:
  assumes "steady_query qs" "same_ground t s" "it_leaves t = it_leaves s" "alike i j"
  shows "selected qs t i = selected qs s j"
  using steady_queryD [OF assms(1,2,4)] left_join_same [OF assms(3), of i j] assms(4)
  by (simp add: selected_def alike_def)

lemma ids_selected_soft:
  assumes "steady_query qs"
  shows "ids_selected (\<lambda>t i l. qs t i l \<and> ib_is_deleted i) (soft_delete ids s) \<subseteq> ids_selected qs s"
    and "ids_selected qs s \<subseteq> set ids \<Longrightarrow> ids_selected (\<lambda>t i l. qs t i l \<and> ib_is_deleted i) (soft_delete ids s) = ids_selected qs s"
proof -
  let ?d = "\<lambda>i. if ib_id i \<in> set ids then i\<lparr>ib_is_deleted := True\<rparr> else i"
  have view: "alike (?d i) i" for i by (simp add: alike_def)
  have eq: "selected (\<lambda>t i l. qs t i l \<and> ib_is_deleted i) (soft_delete ids s) (?d i) \<longleftrightarrow> selected qs s i \<and> ib_is_deleted (?d i)" for i
    using selected_steady [OF assms _ _ view, of "soft_delete ids s" s i]
    by (auto simp: selected_def same_ground_def soft_delete_def update_issues_where_def)
  have im: "set (it_issues (soft_delete ids s)) = ?d ` set (it_issues s)"
    by (simp add: soft_delete_def update_issues_where_def)
  show "ids_selected (\<lambda>t i l. qs t i l \<and> ib_is_deleted i) (soft_delete ids s) \<subseteq> ids_selected qs s"
  proof
    fix x assume "x \<in> ids_selected (\<lambda>t i l. qs t i l \<and> ib_is_deleted i) (soft_delete ids s)"
    then obtain i where "i \<in> set (it_issues s)" "x = ib_id (?d i)" "selected qs s i"
      using eq unfolding ids_selected_def im by blast
    then show "x \<in> ids_selected qs s" by (auto simp: ids_selected_def)
  qed
  assume sub: "ids_selected qs s \<subseteq> set ids"
  show "ids_selected (\<lambda>t i l. qs t i l \<and> ib_is_deleted i) (soft_delete ids s) = ids_selected qs s"
  proof (intro equalityI subsetI)
    fix x assume "x \<in> ids_selected qs s"
    then obtain i where i: "i \<in> set (it_issues s)" "selected qs s i" "x = ib_id i" and "x \<in> set ids"
      using sub by (auto simp: ids_selected_def)
    then have "ib_is_deleted (?d i)" by simp
    with i eq have "selected (\<lambda>t i l. qs t i l \<and> ib_is_deleted i) (soft_delete ids s) (?d i)" by blast
    moreover have "ib_id (?d i) = x" using i by simp
    ultimately show "x \<in> ids_selected (\<lambda>t i l. qs t i l \<and> ib_is_deleted i) (soft_delete ids s)"
      unfolding ids_selected_def im using i(1) by blast
  qed (use \<open>ids_selected (\<lambda>t i l. qs t i l \<and> ib_is_deleted i) (soft_delete ids s) \<subseteq> ids_selected qs s\<close> in blast)
qed

lemma set_query_ids: "any_order env \<Longrightarrow> set (query_ids env qs s) = ids_selected qs s"
  unfolding query_ids_def ids_selected_def any_order_def by (metis list.set_map set_filter set_mset_mset)

lemma without_soft_delete: "set ids \<subseteq> D \<Longrightarrow> without_issues D (soft_delete ids s) = without_issues D s"
proof -
  assume "set ids \<subseteq> D"
  then have "filter (\<lambda>i. ib_id i \<notin> D) (map (\<lambda>i. if ib_id i \<in> set ids then i\<lparr>ib_is_deleted := True\<rparr> else i) is) =
    filter (\<lambda>i. ib_id i \<notin> D) is" for "is" by (induction "is") auto
  then have "filter (\<lambda>i. ib_id i \<notin> D) (it_issues (soft_delete ids s)) = filter (\<lambda>i. ib_id i \<notin> D) (it_issues s)"
    by (simp only: soft_delete_def update_issues_where_def) simp
  moreover have "strip_issues D (soft_delete ids s) = (strip_issues D s)\<lparr>it_issues := it_issues (soft_delete ids s)\<rparr>"
    by (simp add: strip_issues_def soft_delete_def update_issues_where_def)
  ultimately show ?thesis by (simp add: without_issues_def)
qed

lemma left_join_not_Nil [simp]: "left_join s i \<noteq> []"
  by (simp add: left_join_def split: list.split)

lemma selected_issue_only [simp]: "selected (\<lambda>t i l. P i) s i = P i"
  by (simp add: selected_def) (metis left_join_not_Nil list.set_intros(1) neq_Nil_conv)

lemma ids_selected_fixed_ids: "ids_selected (\<lambda>t i l. ib_id i \<in> set ids) s = set ids \<inter> ib_id ` set (it_issues s)"
  by (auto simp: ids_selected_def)

text \<open>The task of a deletion, without a conflict.\<close>

lemma delete_issue_task_exact:
  assumes "unique_rows s" "\<forall>b. \<not> conflict b"
  shows "delete_issue_task conflict ids s = without_issues (set ids \<inter> ib_id ` set (it_issues s)) s"
  using delete_issues_completes [OF _ assms(1), of 1000 conflict "\<lambda>i l. ib_id i \<in> set ids" 0] assms(2)
  by (simp add: delete_issue_task_def ids_selected_fixed_ids)

lemma without_enqueue: "without_issues D (enqueue t s) = (without_issues D s)\<lparr>it_tasks := it_tasks s @ [t]\<rparr>"
  by (simp add: without_issues_def strip_issues_def enqueue_def)

lemma delete_issues_state:
  assumes "fst (delete_issues env au slug f s) = Inr ()" "get_queryset (Some (user_id au)) (Some slug) None s = Inr qs"
  shows "snd (delete_issues env au slug f s) =
    (let q = filter_issue_list env f None None qs; s1 = soft_delete (query_ids env q s) s in
     enqueue (DeleteIssues (query_ids env (\<lambda>t i l. q t i l \<and> ib_is_deleted i) s1)) s1)"
  using assms by (auto simp: delete_issues_def permitted_def or_fail_def Let_def split: sum.splits)

lemma delete_issues_by_session:
  assumes "auth_kind au = Session" "get_queryset (Some (user_id au)) (Some slug) None s = Inr qs"
  shows "fst (delete_issues env au slug f s) = Inr ()"
  using assms by (simp add: delete_issues_def permitted_def has_permission_def or_fail_def Let_def)

section \<open>Properties\<close>

text \<open>
  Property C12. A bulk deletion with its task deletes what was asked and nothing else: when the database
  refuses no batch, the tables afterwards are the tables before without the issues that the filters select in
  the organization and without every row that refers to them.
\<close>

theorem bulk_deletion_is_exact:
  assumes "any_order env" and "unique_rows s" and "\<forall>b. \<not> conflict b"
    and "get_queryset (Some (user_id au)) (Some slug) None s = Inr qs"
    and "fst (delete_issues env au slug f s) = Inr ()"
  defines "D \<equiv> ids_selected (filter_issue_list env f None None qs) s" and "s1 \<equiv> snd (delete_issues env au slug f s)"
  shows "\<exists>ids. it_tasks s1 = it_tasks s @ [DeleteIssues ids] \<and>
    delete_issue_task conflict ids s1 = (without_issues D s)\<lparr>it_tasks := it_tasks s1\<rparr> \<and>
    (\<forall>i\<in>D. \<not> dependent_on i (delete_issue_task conflict ids s1))"
proof -
  let ?q = "filter_issue_list env f None None qs"
  let ?t = "soft_delete (query_ids env ?q s) s"
  let ?ids = "query_ids env (\<lambda>t i l. ?q t i l \<and> ib_is_deleted i) ?t"
  have steady: "steady_query ?q" by (rule steady_filter [OF steady_get_queryset [OF assms(4)]])
  have s1: "s1 = enqueue (DeleteIssues ?ids) ?t"
    unfolding s1_def by (simp add: delete_issues_state [OF assms(5,4)] Let_def)
  have ids: "set ?ids = D"
    unfolding set_query_ids [OF assms(1)] D_def
    by (rule ids_selected_soft(2) [OF steady]) (simp add: set_query_ids [OF assms(1)])
  have im: "ib_id ` set (it_issues ?t) = ib_id ` set (it_issues s)"
    by (metis list.set_map soft_delete_ids)
  have sub: "D \<subseteq> ib_id ` set (it_issues s)" by (auto simp: D_def ids_selected_def)
  have u: "unique_rows s1" using assms(2) by (simp add: s1 enqueue_def unique_rows_def)
      (metis unique_rows_def unique_soft_delete assms(2))
  have "delete_issue_task conflict ?ids s1 = without_issues (D \<inter> ib_id ` set (it_issues s)) s1"
    using delete_issue_task_exact [OF u assms(3), of ?ids] im by (simp add: ids s1 enqueue_def)
  also have "D \<inter> ib_id ` set (it_issues s) = D" using sub by blast
  also have "without_issues D s1 = (without_issues D s)\<lparr>it_tasks := it_tasks s1\<rparr>"
    using without_soft_delete [of "query_ids env ?q s" D s]
    by (simp add: s1 without_enqueue set_query_ids [OF assms(1)] D_def) (simp add: enqueue_def)
  finally have r: "delete_issue_task conflict ?ids s1 = (without_issues D s)\<lparr>it_tasks := it_tasks s1\<rparr>" .
  have "it_tasks ?t = it_tasks s" by (simp add: soft_delete_def update_issues_where_def)
  then have "it_tasks s1 = it_tasks s @ [DeleteIssues ?ids]" by (simp add: s1 enqueue_def)
  moreover have "\<forall>i\<in>D. \<not> dependent_on i (delete_issue_task conflict ?ids s1)"
    using without_leaves_nothing [of _ D s] unfolding r by (simp add: dependent_on_def)
  ultimately show ?thesis using r by blast
qed

text \<open>
  A batch that the database refuses is not tried again by a later run, although the code means it to be: the
  leaves of its issues have been deleted, and the maintenance finds old issues by their leaf.
\<close>

lemma refused_batch_is_never_retried:
  assumes "unique_rows s" and "next_batch (old_issue now days) 1000 s \<noteq> []" and "conflict (next_batch (old_issue now days) 1000 s)"
    and "i \<in> set (it_issues s)" and "ib_id i \<in> set (next_batch (old_issue now days) 1000 s)"
  defines "s' \<equiv> snd (cleanup_old_issues conflict now days s)"
  shows "i \<in> set (it_issues s')" and "\<not> selected (old_issue later days') s' i"
proof -
  let ?b = "next_batch (old_issue now days) 1000 s"
  have s': "s' = strip_issues (set ?b) s"
    using assms(2,3) by (simp add: s'_def cleanup_old_issues_def delete_issues_step [OF refl] delete_dependents_strip [OF assms(1)])
  show "i \<in> set (it_issues s')" using assms(4) by (simp add: s' strip_issues_def)
  show "\<not> selected (old_issue later days') s' i" unfolding s' by (rule stripped_is_unselected [OF assms(5) refl])
qed

text \<open>Two issues of organization 1, the first of them unresolved; events, hashes and tags for both.\<close>

definition demo_issue :: "nat \<Rightarrow> string \<Rightarrow> issue_obj" where
  "demo_issue n t =
     \<lparr>ib_id = n, ib_project = 1, ib_is_deleted = False, ib_user = None, ib_team = None, ib_first_release = None,
      ib_resolved_in = None, ib_first_seen = 0, ib_title = t, ib_metadata = JDict []\<rparr>"

definition demo_leaf :: "nat \<Rightarrow> event_status \<Rightarrow> leaf_row" where
  "demo_leaf n st =
     \<lparr>lf_issue = n, lf_org = 1, lf_count = 1, lf_last_seen = 0, lf_status = st, lf_level = ERROR, lf_document = ''boom''\<rparr>"

definition issue_demo :: issue_tables where
  "issue_demo =
     \<lparr>it_db = demo, it_issues = [demo_issue 1 ''Boom'', demo_issue 2 ''Bang''],
      it_leaves = [demo_leaf 1 UNRESOLVED, demo_leaf 2 RESOLVED],
      it_tags = [\<lparr>tg_issue = 1, tg_date = 0, tg_key = ''environment'', tg_value = ''prod'', tg_count = 1\<rparr>],
      it_aggregates = [], 
      it_events = [\<lparr>sv_id = 10, sv_event_id = None, sv_issue = 1, sv_org = 1\<rparr>, \<lparr>sv_id = 20, sv_event_id = None, sv_issue = 2, sv_org = 1\<rparr>],
      it_hashes = [\<lparr>hv_issue = 1, hv_project = 1, hv_value = 5\<rparr>, \<lparr>hv_issue = 2, hv_project = 1, hv_value = 6\<rparr>],
      it_comments = [], it_reports = [], it_notices = [], it_releases = [], it_tasks = [], it_next_comment = 1\<rparr>"

definition demo_issue_env :: issue_env where
  "demo_issue_env = \<lparr>db_order = (\<lambda>s xs. xs), fts_match = (\<lambda>d q. contains q d), log10 = (\<lambda>_. 0), filters_again = (\<lambda>f. f)\<rparr>"

definition no_filters :: issue_filters where
  "no_filters = \<lparr>fi_id = None, fi_start = None, fi_end = None, fi_project = None, fi_environment = None, fi_query = None\<rparr>"

lemma demo_any_order: "any_order demo_issue_env"
  by (simp add: any_order_def demo_issue_env_def)

lemma demo_unique: "unique_rows issue_demo"
  by (simp add: unique_rows_def issue_demo_def demo_issue_def)

abbreviation acme_issues :: issue_query where
  "acme_issues \<equiv> \<lambda>t i l. (in_org 1 t i \<and> leaf_in_org 1 l) \<and> in_project_slug None t i"

lemma demo_queryset: "get_queryset (Some 1) (Some ''acme'') None issue_demo = Inr acme_issues"
  by (simp add: get_queryset_def get_organization_for_user_def issue_demo_def demo_def)

lemma ids_selected_list: "ids_selected qs s = set (map ib_id (filter (selected qs s) (it_issues s)))"
  by (auto simp: ids_selected_def)

lemmas demo_eval = ids_selected_list selected_def left_join_def filter_issue_list_def field_filters_def at_least_def given_def
  no_filters_def in_org_def in_project_slug_def leaf_in_org_def projects_of_def issue_demo_def demo_def demo_issue_def demo_leaf_def

lemma demo_search: "search_terms (search_words ''is:unresolved'') = [IsStatus (Some UNRESOLVED)]"
  by code_simp

theorem bulk_deletion_is_exact_witness:
  "\<exists>ids. delete_issue_task (\<lambda>_. False) ids (snd (delete_issues demo_issue_env (session 1) ''acme''
       (no_filters\<lparr>fi_query := Some ''is:unresolved''\<rparr>) issue_demo)) =
     (without_issues {1} issue_demo)\<lparr>it_tasks := [DeleteIssues ids]\<rparr>"
proof -
  have q: "get_queryset (Some (user_id (session 1))) (Some ''acme'') None issue_demo = Inr acme_issues"
    using demo_queryset by (simp add: session_def)
  have D: "ids_selected (filter_issue_list demo_issue_env (no_filters\<lparr>fi_query := Some ''is:unresolved''\<rparr>) None None acme_issues) issue_demo = {1}"
    by (simp add: demo_eval demo_search)
  have f: "fst (delete_issues demo_issue_env (session 1) ''acme'' (no_filters\<lparr>fi_query := Some ''is:unresolved''\<rparr>) issue_demo) = Inr ()"
    by (rule delete_issues_by_session [OF _ q]) (simp add: session_def)
  have t: "it_tasks issue_demo = []" by (simp add: issue_demo_def)
  note exact = bulk_deletion_is_exact [OF demo_any_order demo_unique _ q f, of "\<lambda>_. False", unfolded D t]
  from exact obtain ids where "it_tasks (snd (delete_issues demo_issue_env (session 1) ''acme''
       (no_filters\<lparr>fi_query := Some ''is:unresolved''\<rparr>) issue_demo)) = [] @ [DeleteIssues ids]"
    and "delete_issue_task (\<lambda>_. False) ids (snd (delete_issues demo_issue_env (session 1) ''acme''
       (no_filters\<lparr>fi_query := Some ''is:unresolved''\<rparr>) issue_demo)) =
     (without_issues {1} issue_demo)\<lparr>it_tasks := it_tasks (snd (delete_issues demo_issue_env (session 1) ''acme''
       (no_filters\<lparr>fi_query := Some ''is:unresolved''\<rparr>) issue_demo))\<rparr>"
    by (elim meta_impE exE conjE) (simp, rule that)
  then show ?thesis unfolding append_Nil by (intro exI [of _ ids]) (simp only:)
qed













end
