(* ===== verification/Issue_Bulk.thy ===== *)
theory Issue_Bulk
  imports Issue_Deletion
begin

text \<open>
  The bulk update of issues in the background: the status loop ends with exactly the selected leaves updated, the
  loops of the assignment and of the merge never end once they find an issue, and a status given beside them makes
  them find none.
\<close>

section \<open>Updates that keep what a query reads\<close>

lemma ids_selected_same:
  assumes "steady_query qs" "same_ground t s" "it_leaves t = it_leaves s" "it_issues t = map f (it_issues s)" "\<And>i. alike (f i) i"
  shows "ids_selected qs t = ids_selected qs s"
proof -
  have "selected qs t (f i) = selected qs s i" for i by (rule selected_steady [OF assms(1-3,5)])
  moreover have "ib_id (f i) = ib_id i" for i using assms(5) by (simp add: alike_def)
  ultimately have "{j \<in> f ` set (it_issues s). selected qs t j} = f ` {i \<in> set (it_issues s). selected qs s i}"
    and "\<And>I. ib_id ` f ` I = ib_id ` I" by (auto simp: image_image)
  then show ?thesis unfolding ids_selected_def assms(4) by simp
qed

lemma alike_refl [simp]: "alike i i"
  by (simp add: alike_def)

lemma ids_selected_assignee [simp]: "steady_query qs \<Longrightarrow> ids_selected qs (set_assignee ids a s) = ids_selected qs s"
  by (rule ids_selected_same [where f = "\<lambda>i. if ib_id i \<in> set ids then i\<lparr>ib_user := fst a, ib_team := snd a\<rparr> else i"])
     (auto simp: set_assignee_def update_issues_where_def same_ground_def alike_def)

lemma ids_selected_merge [simp]:
  "steady_query qs \<Longrightarrow> ids_selected qs (snd (move_events ids target (move_hashes ids target (soft_delete ids s)))) = ids_selected qs s"
  by (rule ids_selected_same [where f = "\<lambda>i. if ib_id i \<in> set ids then i\<lparr>ib_is_deleted := True\<rparr> else i"])
     (auto simp: move_events_def move_hashes_def soft_delete_def update_issues_where_def same_ground_def alike_def Let_def)

lemma batch_Nil: "any_order env \<Longrightarrow> take CHUNK_SIZE (query_ids env qs s) = [] \<longleftrightarrow> ids_selected qs s = {}"
  using set_query_ids [of env qs s] by (auto simp: CHUNK_SIZE_def)

section \<open>Loops that never end\<close>

lemma assignment_ends_only_when_empty:
  assumes "assignment_loop env qs a s = Some s'"
  shows "any_order env \<longrightarrow> steady_query qs \<longrightarrow> ids_selected qs s = {}"
proof (rule assignment_loop.raw_induct [OF _ assms, of "\<lambda>env qs a s _. any_order env \<longrightarrow> steady_query qs \<longrightarrow> ids_selected qs s = {}"],
    intro impI)
  fix loop env qs a s y
  assume IH: "\<And>env qs a s y. loop env qs a s = Some y \<Longrightarrow> any_order env \<longrightarrow> steady_query qs \<longrightarrow> ids_selected qs s = {}"
    and body: "(let batch_ids = take CHUNK_SIZE (query_ids env qs s)
      in if batch_ids = [] then Some s else loop env qs a (set_assignee batch_ids a s)) = Some y"
    and o: "any_order env" and q: "steady_query qs"
  let ?b = "take CHUNK_SIZE (query_ids env qs s)"
  show "ids_selected qs s = {}"
  proof (cases "?b = []")
    case True
    then show ?thesis using batch_Nil [OF o] by blast
  next
    case False
    then have "loop env qs a (set_assignee ?b a s) = Some y" using body by (simp add: Let_def)
    from IH [OF this] show ?thesis using o q by simp
  qed
qed

abbreviation all_but :: "nat \<Rightarrow> issue_query \<Rightarrow> issue_query" where
  "all_but target qs \<equiv> \<lambda>t i l. qs t i l \<and> ib_id i \<noteq> target"

lemma merge_ends_only_when_empty:
  assumes "merge_loop env qs target org n s = Some s'"
  shows "any_order env \<longrightarrow> steady_query qs \<longrightarrow> ids_selected (all_but target qs) s = {}"
proof (rule merge_loop.raw_induct [OF _ assms, of "\<lambda>env qs target org n s _. any_order env \<longrightarrow> steady_query qs \<longrightarrow>
      ids_selected (all_but target qs) s = {}"], intro impI)
  fix loop env qs target org n s y
  let ?q = "all_but target qs"
  let ?b = "take CHUNK_SIZE (query_ids env ?q s)"
  assume IH: "\<And>env qs target org n s y. loop env qs target org n s = Some y \<Longrightarrow> any_order env \<longrightarrow> steady_query qs \<longrightarrow>
      ids_selected (all_but target qs) s = {}"
    and body: "(let batch_ids = ?b in if batch_ids = [] then Some (add_count target org n s)
      else case move_events batch_ids target (move_hashes batch_ids target (soft_delete batch_ids s)) of
             (n_moved, s') \<Rightarrow> loop env qs target org (n + n_moved) s') = Some y"
    and o: "any_order env" and q: "steady_query qs"
  have q': "steady_query ?q" using q by (auto simp: steady_query_def alike_def)
  show "ids_selected ?q s = {}"
  proof (cases "?b = []")
    case True
    then show ?thesis using batch_Nil [OF o] by blast
  next
    case False
    obtain k t where m: "move_events ?b target (move_hashes ?b target (soft_delete ?b s)) = (k, t)" by (meson surj_pair)
    with False body have "loop env qs target org (n + k) t = Some y" by (simp add: Let_def)
    from IH [OF this] have "ids_selected ?q t = {}" using o q by blast
    then show ?thesis using ids_selected_merge [OF q', of ?b target s] by (simp add: m)
  qed
qed

section \<open>The status loop\<close>

definition mark_status :: "nat set \<Rightarrow> nat \<Rightarrow> event_status \<Rightarrow> issue_tables \<Rightarrow> issue_tables" where
  "mark_status D org st = update_leaves_where (\<lambda>l. lf_issue l \<in> D \<and> lf_org l = org) (\<lambda>l. l\<lparr>lf_status := st\<rparr>)"

lemma set_status_mark: "set_status ids org st = mark_status (set ids) org st"
  by (simp add: set_status_def mark_status_def fun_eq_iff)

lemma mark_none [simp]: "mark_status {} org st s = s"
  by (simp add: mark_status_def update_leaves_where_def)

lemma mark_mark: "mark_status A org st (mark_status B org st s) = mark_status (A \<union> B) org st s"
  by (auto simp: mark_status_def update_leaves_where_def intro!: arg_cong [where f = "\<lambda>x. s\<lparr>it_leaves := x\<rparr>"])

lemma left_join_if:
  "left_join s i = (if [l \<leftarrow> it_leaves s. lf_issue l = ib_id i] = [] then [None] else map Some [l \<leftarrow> it_leaves s. lf_issue l = ib_id i])"
  by (simp add: left_join_def split: list.split)

lemma left_join_mark:
  "left_join (mark_status D org st s) i =
     map (map_option (\<lambda>l. if ib_id i \<in> D \<and> lf_org l = org then l\<lparr>lf_status := st\<rparr> else l)) (left_join s i)"
proof -
  let ?f = "\<lambda>l. if lf_issue l \<in> D \<and> lf_org l = org then l\<lparr>lf_status := st\<rparr> else l"
  let ?g = "\<lambda>l. if ib_id i \<in> D \<and> lf_org l = org then l\<lparr>lf_status := st\<rparr> else l"
  have "filter (\<lambda>l. lf_issue l = ib_id i) (map ?f ls) = map ?g (filter (\<lambda>l. lf_issue l = ib_id i) ls)" for ls
    by (induction ls) auto
  from this [of "it_leaves s"] show ?thesis
    by (simp add: left_join_if mark_status_def update_leaves_where_def comp_def)
qed

definition org_scoped :: "nat \<Rightarrow> issue_query \<Rightarrow> bool" where
  "org_scoped org qs \<longleftrightarrow> (\<forall>t i l. qs t i l \<longrightarrow> leaf_in_org org l)"

lemma ids_selected_mark:
  assumes "steady_query q0" "org_scoped org q0" "unique_rows s"
  shows "ids_selected (without_status (Some st) q0) (mark_status B org st s) = ids_selected (without_status (Some st) q0) s - B"
proof -
  let ?q = "without_status (Some st) q0"
  have "same_ground (mark_status B org st s) s" by (simp add: same_ground_def mark_status_def update_leaves_where_def)
  from steady_queryD [OF assms(1) this alike_refl] have q0: "q0 (mark_status B org st s) i l = q0 s i l" for i l .
  have out: "selected ?q (mark_status B org st s) i = selected ?q s i" if "ib_id i \<notin> B" for i
    using that by (simp add: selected_def left_join_mark without_status_def q0 option.map_ident)
  have into: "\<not> selected ?q (mark_status B org st s) i" if "ib_id i \<in> B" for i
  proof
    let ?g = "map_option (\<lambda>l. if ib_id i \<in> B \<and> lf_org l = org then l\<lparr>lf_status := st\<rparr> else l)"
    assume "selected ?q (mark_status B org st s) i"
    then obtain l where l: "q0 (mark_status B org st s) i (?g l)" "map_option lf_status (?g l) \<noteq> Some st"
      unfolding selected_def left_join_mark set_map bex_simps without_status_def option.case by blast
    then have "leaf_in_org org (?g l)" using assms(2) by (simp add: org_scoped_def)
    then show False using l(2) that by (cases l) (auto simp: leaf_in_org_def split: if_splits)
  qed
  have "it_issues (mark_status B org st s) = it_issues s" by (simp add: mark_status_def update_leaves_where_def)
  then show ?thesis
    unfolding ids_selected_def using out into by auto
qed

lemma unique_mark [simp]: "unique_rows (mark_status D org st s) = unique_rows s"
  by (simp add: unique_rows_def mark_status_def update_leaves_where_def)

lemma finite_selected [simp]: "finite (ids_selected qs s)"
  by (simp add: ids_selected_def)

lemma status_loop_result:
  assumes "any_order env" "steady_query q0" "org_scoped org q0" "unique_rows s"
  shows "status_loop env (without_status (Some st) q0) org st s =
    Some (mark_status (ids_selected (without_status (Some st) q0) s) org st s)"
  using assms(4)
proof (induction "card (ids_selected (without_status (Some st) q0) s)" arbitrary: s rule: less_induct)
  case less
  let ?q = "without_status (Some st) q0"
  let ?b = "take CHUNK_SIZE (query_ids env ?q s)"
  let ?s = "set_status ?b org st s"
  show ?case
  proof (cases "?b = []")
    case True
    then have "ids_selected ?q s = {}" using batch_Nil [OF assms(1)] by blast
    then show ?thesis unfolding status_loop.simps [of env ?q org st s] Let_def if_P [OF True] by simp
  next
    case False
    have sub: "set ?b \<subseteq> ids_selected ?q s" unfolding set_query_ids [OF assms(1), symmetric] by (rule set_take_subset)
    have left: "ids_selected ?q ?s = ids_selected ?q s - set ?b"
      unfolding set_status_mark by (rule ids_selected_mark [OF assms(2,3) less.prems])
    have "hd ?b \<in> set ?b" using False by (rule hd_in_set)
    then have "ids_selected ?q s - set ?b \<subset> ids_selected ?q s" using sub by blast
    then have "card (ids_selected ?q ?s) < card (ids_selected ?q s)" unfolding left by (intro psubset_card_mono) simp_all
    moreover have "unique_rows ?s" using less.prems by (simp add: set_status_mark)
    ultimately have "status_loop env ?q org st ?s = Some (mark_status (ids_selected ?q ?s) org st ?s)" by (rule less.hyps)
    also have "mark_status (ids_selected ?q ?s) org st ?s = mark_status (ids_selected ?q s) org st s"
      unfolding left unfolding set_status_mark mark_mark using sub by (simp add: Un_absorb2)
    finally show ?thesis unfolding status_loop.simps [of env ?q org st s] Let_def if_not_P [OF False] .
  qed
qed

section \<open>The task\<close>

lemma get_queryset_org:
  assumes "get_queryset (Some uid) (Some slug) pslug s = Inr qs" "slug \<noteq> []" "db_ok (it_db s)"
  obtains org where "get_organization_for_user uid slug (it_db s) = [org]"
    and "qs = (\<lambda>t i l. in_org (o_id org) t i \<and> leaf_in_org (o_id org) l \<and> in_project_slug pslug t i)"
    and "List.find (\<lambda>r. o_slug r = slug) (orgs (it_db s)) = Some org"
proof -
  obtain org where o: "get_organization_for_user uid slug (it_db s) = [org]"
    and qs: "qs = (\<lambda>t i l. in_org (o_id org) t i \<and> leaf_in_org (o_id org) l \<and> in_project_slug pslug t i)"
    using assms(1,2) unfolding get_queryset_def Let_def
    by (auto split: option.split_asm list.split_asm if_split_asm)
  have "org \<in> set (get_organization_for_user uid slug (it_db s))" by (simp add: o)
  then have org: "org \<in> set (orgs (it_db s))" "o_slug org = slug" by (auto simp: get_organization_for_user_def)
  then obtain r where r: "List.find (\<lambda>r. o_slug r = slug) (orgs (it_db s)) = Some r"
    by (cases "List.find (\<lambda>r. o_slug r = slug) (orgs (it_db s))") (auto simp: find_None_iff)
  then have "r \<in> set (orgs (it_db s))" "o_slug r = slug" by (auto simp: find_Some_iff)
  then have "r = org" using unique_byD [of o_slug "orgs (it_db s)" r org] org assms(3) by (simp add: db_ok_def uniques_ok_def)
  then show thesis using that o qs r by blast
qed

text \<open>The query of a task in a sound state: it reads steadily and stays with the leaves of its organization.\<close>

lemma task_query_facts:
  assumes "task_query env args s = Inr q0" "ua_slug args \<noteq> []" "db_ok (it_db s)"
  obtains org where "steady_query q0" "org_scoped (o_id org) q0"
    and "List.find (\<lambda>r. o_slug r = ua_slug args) (orgs (it_db s)) = Some org"
proof -
  obtain qs where g: "get_queryset (Some (ua_user args)) (Some (ua_slug args)) None s = Inr qs"
    and q0: "q0 = (\<lambda>t i l. filter_issue_list env (filters_again env (ua_filters args)) None None qs t i l \<and>
                              ib_id i \<notin> set (ua_exclude args) \<and> ib_id i \<le> ua_max args)"
    using assms(1) by (auto simp: task_query_def map_sum_def split: sum.splits)
  from get_queryset_org [OF g assms(2,3)] obtain org
    where qs: "qs = (\<lambda>t i l. in_org (o_id org) t i \<and> leaf_in_org (o_id org) l \<and> in_project_slug None t i)"
      and f: "List.find (\<lambda>r. o_slug r = ua_slug args) (orgs (it_db s)) = Some org" by metis
  have "steady_query (\<lambda>t i l. ib_id i \<notin> set (ua_exclude args))" "steady_query (\<lambda>t i l. ib_id i \<le> ua_max args)"
    by (simp_all add: steady_query_def alike_def)
  then have "steady_query q0" unfolding q0 by (intro steady_and steady_filter [OF steady_get_queryset [OF g]])
  moreover have "org_scoped (o_id org) q0" by (simp add: q0 qs org_scoped_def filter_issue_list_def)
  ultimately show thesis using that f by blast
qed

lemma mark_fields [simp]: "it_issues (mark_status D org st s) = it_issues s" "it_db (mark_status D org st s) = it_db s"
  by (simp_all add: mark_status_def update_leaves_where_def)

lemma add_none [simp]: "add_count iid org 0 s = s"
  by (simp add: add_count_def update_leaves_where_def)

text \<open>Nothing is left for the later loops once the status loop is through.\<close>

lemma nothing_left:
  assumes "any_order env" "ids_selected qs s = {}"
  shows "assignment_loop env qs a s = Some s" and "merge_part env qs mg org s = Some s"
proof -
  have e: "take CHUNK_SIZE (query_ids env qs s) = []" using assms batch_Nil by blast
  show "assignment_loop env qs a s = Some s"
    unfolding assignment_loop.simps [of env qs a s] Let_def if_P [OF e] by (rule refl)
  have "ids_selected (all_but target qs) s \<subseteq> ids_selected qs s" for target by (auto simp: ids_selected_def selected_def)
  then have e': "take CHUNK_SIZE (query_ids env (all_but target qs) s) = []" for target
    using assms batch_Nil [OF assms(1), of "all_but target qs" s] by blast
  have "merge_loop env qs target org 0 s = Some s" for target
    unfolding merge_loop.simps [of env qs target org 0 s] Let_def if_P [OF e'] by simp
  then show "merge_part env qs mg org s = Some s" by (simp add: merge_part_def split: option.split)
qed

lemma status_task_result:
  assumes "any_order env" and "unique_rows s" and "db_ok (it_db s)" and "ua_slug args \<noteq> []"
    and "task_query env args s = Inr q" and "ua_status args = Some st"
  shows "\<exists>org\<in>set (orgs (it_db s)). o_slug org = ua_slug args \<and>
    update_issues_task env args s = Some (Inr (), mark_status (ids_selected (without_status (Some st) q) s) (o_id org) st s)"
proof -
  obtain org where q: "steady_query q" "org_scoped (o_id org) q"
    and f: "List.find (\<lambda>r. o_slug r = ua_slug args) (orgs (it_db s)) = Some org"
    using task_query_facts [OF assms(5,4,3)] by metis
  let ?q = "without_status (Some st) q"
  let ?s = "mark_status (ids_selected ?q s) (o_id org) st s"
  have loop: "status_loop env ?q (o_id org) st s = Some ?s" by (rule status_loop_result [OF assms(1) q assms(2)])
  have "ids_selected ?q ?s = {}" using ids_selected_mark [OF q assms(2), of st "ids_selected ?q s"] by simp
  note left = nothing_left [OF assms(1) this]
  have "update_issues_task env args s = Some (Inr (), ?s)"
    by (simp add: update_issues_task_def assms(5,6) f loop left Let_def split: option.split)
  moreover have "org \<in> set (orgs (it_db s))" "o_slug org = ua_slug args" using f by (auto simp: find_Some_iff)
  ultimately show ?thesis by blast
qed

section \<open>Properties\<close>

text \<open>
  Property C14. The bulk update of the status ends, whatever else the task is to do, and does exactly this:
  the leaves, in the organization, of the issues that the query of the task selects and that have another status
  get the new status; nothing else changes.
\<close>

theorem bulk_status_update_ends:
  assumes "any_order env" and "unique_rows s" and "db_ok (it_db s)" and "ua_slug args \<noteq> []"
    and "task_query env args s = Inr q" and "ua_status args = Some st"
  shows "\<exists>org\<in>set (orgs (it_db s)). o_slug org = ua_slug args \<and>
    update_issues_task env args s = Some (Inr (), mark_status (ids_selected (without_status (Some st) q) s) (o_id org) st s)"
  using assms by (rule status_task_result)

text \<open>A task that assigns issues never ends when its query selects an issue.\<close>

lemma bulk_assignment_never_ends:
  assumes "any_order env" and "db_ok (it_db s)" and "ua_slug args \<noteq> []" and "task_query env args s = Inr q"
    and "ua_status args = None" and "ua_assign args = Some a" and "ids_selected q s \<noteq> {}"
  shows "update_issues_task env args s = None"
proof -
  obtain org where q: "steady_query q" and f: "List.find (\<lambda>r. o_slug r = ua_slug args) (orgs (it_db s)) = Some org"
    using task_query_facts [OF assms(4,3,2)] by metis
  have "assignment_loop env q a s = None"
    using assignment_ends_only_when_empty [of env q a s] assms(1,7) q by (cases "assignment_loop env q a s") auto
  then show ?thesis by (simp add: update_issues_task_def assms(4-6) f without_status_def)
qed

text \<open>A task that merges never ends when its query selects an issue other than the target.\<close>

lemma bulk_merge_never_ends:
  assumes "any_order env" and "db_ok (it_db s)" and "ua_slug args \<noteq> []" and "task_query env args s = Inr q"
    and "ua_status args = None" and "ua_assign args = None" and "ua_merge args = Some (int target)" and "target \<noteq> 0"
    and "target \<in> ib_id ` set (it_issues s)" and "ids_selected (all_but target q) s \<noteq> {}"
  shows "update_issues_task env args s = None"
proof -
  obtain org where q: "steady_query q" and f: "List.find (\<lambda>r. o_slug r = ua_slug args) (orgs (it_db s)) = Some org"
    using task_query_facts [OF assms(4,3,2)] by metis
  have "merge_loop env q target (o_id org) 0 s = None"
    using merge_ends_only_when_empty [of env q target "o_id org" 0 s] assms(1,10) q
    by (cases "merge_loop env q target (o_id org) 0 s") auto
  moreover have "[i \<leftarrow> it_issues s. ib_id i = target] \<noteq> []" using assms(9) by (auto simp: filter_empty_conv)
  ultimately show ?thesis
    using assms(8) by (simp add: update_issues_task_def assms(4-7) f without_status_def merge_part_def)
qed

text \<open>
  What the schema library documents of a model built from its own dictionary: without \<open>populate_by_name\<close> a field
  with an alias is read under the alias only, so the four filters with an alias are lost.
\<close>

definition aliases_only :: "issue_filters \<Rightarrow> issue_filters" where
  "aliases_only f = f\<lparr>fi_id := None, fi_start := None, fi_end := None, fi_project := None\<rparr>"

definition resolve_first :: update_args where
  "resolve_first =
     \<lparr>ua_slug = ''acme'', ua_user = 1, ua_filters = no_filters\<lparr>fi_id := Some [2]\<rparr>, ua_exclude = [], ua_max = 2,
      ua_status = Some RESOLVED, ua_merge = None, ua_assign = None\<rparr>"

abbreviation resolve_query :: "issue_env \<Rightarrow> issue_query" where
  "resolve_query env \<equiv> \<lambda>t i l. filter_issue_list env (filters_again env (ua_filters resolve_first)) None None acme_issues t i l \<and>
     ib_id i \<notin> set (ua_exclude resolve_first) \<and> ib_id i \<le> ua_max resolve_first"

lemma resolve_first_query: "task_query env resolve_first issue_demo = Inr (resolve_query env)"
  using demo_queryset by (simp add: task_query_def resolve_first_def)

theorem bulk_status_update_ends_witness:
  "\<exists>n. update_issues_task demo_issue_env (resolve_first\<lparr>ua_filters := no_filters\<rparr>) issue_demo =
     Some (Inr (), mark_status {1} n RESOLVED issue_demo)"
proof -
  let ?args = "resolve_first\<lparr>ua_filters := no_filters\<rparr>"
  let ?q = "\<lambda>t i l. filter_issue_list demo_issue_env (filters_again demo_issue_env (ua_filters ?args)) None None acme_issues t i l \<and>
     ib_id i \<notin> set (ua_exclude ?args) \<and> ib_id i \<le> ua_max ?args"
  have q: "task_query demo_issue_env ?args issue_demo = Inr ?q"
    using demo_queryset by (simp add: task_query_def resolve_first_def)
  have D: "ids_selected (without_status (Some RESOLVED) ?q) issue_demo = {1}"
    by (simp add: demo_eval without_status_def demo_issue_env_def resolve_first_def)
  have ok: "db_ok (it_db issue_demo)" by (simp add: issue_demo_def demo_ok)
  show ?thesis
    using bulk_status_update_ends [OF demo_any_order demo_unique ok _ q, of RESOLVED] unfolding D
    by (auto simp: resolve_first_def)
qed

text \<open>
  A request that was to resolve issue 2 only: the task that continues it resolves issue 1, when \<open>IssueFilters\<close> takes
  aliases only.
\<close>

lemma task_forgets_the_filter:
  "\<not> field_filters (ua_filters resolve_first) issue_demo (demo_issue 1 ''Boom'') (Some (demo_leaf 1 UNRESOLVED))"
  "\<exists>n. update_issues_task (demo_issue_env\<lparr>filters_again := aliases_only\<rparr>) resolve_first issue_demo =
     Some (Inr (), mark_status {1} n RESOLVED issue_demo)"
proof -
  show "\<not> field_filters (ua_filters resolve_first) issue_demo (demo_issue 1 ''Boom'') (Some (demo_leaf 1 UNRESOLVED))"
    by (simp add: field_filters_def at_least_def resolve_first_def demo_issue_def)
  let ?env = "demo_issue_env\<lparr>filters_again := aliases_only\<rparr>"
  have o: "any_order ?env" by (simp add: any_order_def demo_issue_env_def)
  have D: "ids_selected (without_status (Some RESOLVED) (resolve_query ?env)) issue_demo = {1}"
    by (simp add: demo_eval without_status_def demo_issue_env_def resolve_first_def aliases_only_def)
  have ok: "db_ok (it_db issue_demo)" by (simp add: issue_demo_def demo_ok)
  show "\<exists>n. update_issues_task ?env resolve_first issue_demo = Some (Inr (), mark_status {1} n RESOLVED issue_demo)"
    using status_task_result [OF o demo_unique ok _ resolve_first_query, of RESOLVED] unfolding D
    by (auto simp: resolve_first_def)
qed

end
