(* ===== verification/Issue_Notes.thy ===== *)
theory Issue_Notes
  imports Issue_Api
begin

text \<open>
  What hangs on an issue: its comments (\<open>apps/issue_events/api/comments.py\<close>) and its hashes
  (\<open>apps/issue_events/api/hashes.py\<close>). A comment is reached through the issue and the membership of the user in the
  organization of its project; a hash through the organization of the slug.
\<close>

section \<open>Comments\<close>

definition comments_of :: "nat \<Rightarrow> nat \<Rightarrow> issue_tables \<Rightarrow> comment_row list" where
  "comments_of uid iid s =
     [c \<leftarrow> it_comments s. cm_issue c = iid \<and> (\<exists>i\<in>set (it_issues s). ib_id i = cm_issue c \<and> visible_to uid s i)]"

definition list_comments :: "auth \<Rightarrow> nat \<Rightarrow> issue_tables \<Rightarrow> comment_row list issue_api" where
  "list_comments au iid s =
     permitted [''event:read'', ''event:admin''] au s (Inr (newest_first cm_created (comments_of (user_id au) iid s)), s)"

text \<open>The payload is a dictionary that may be empty: \<open>None\<close> is the text that is not there.\<close>

definition payload_text :: "string option \<Rightarrow> api_error + string" where
  "payload_text d = (case d of None \<Rightarrow> Inl api_error.KeyError | Some t \<Rightarrow> Inr t)"

definition add_comment :: "auth \<Rightarrow> nat \<Rightarrow> string option \<Rightarrow> datetime \<Rightarrow> issue_tables \<Rightarrow> comment_row issue_api" where
  "add_comment au iid data now s =
     permitted [''event:write'', ''event:admin''] au s
       (or_fail (get_row (api_error.HttpError 400 ''Issue does not exist'')
                  [i \<leftarrow> it_issues s. ib_id i = iid \<and> visible_to (user_id au) s i]) s (\<lambda>i.
        or_fail (payload_text data) s (\<lambda>t.
          (let c = \<lparr>cm_id = it_next_comment s, cm_issue = ib_id i, cm_user = Some (user_id au), cm_text = t, cm_created = now\<rparr>
           in (Inr c, s\<lparr>it_comments := it_comments s @ [c], it_next_comment := it_next_comment s + 1\<rparr>)))))"

definition comment_by_id :: "auth \<Rightarrow> nat \<Rightarrow> nat \<Rightarrow> issue_tables \<Rightarrow> api_error + comment_row" where
  "comment_by_id au iid cid s =
     get_row (api_error.HttpError 400 ''Comment does not exist'') [c \<leftarrow> comments_of (user_id au) iid s. cm_id c = cid]"

definition update_comment :: "auth \<Rightarrow> nat \<Rightarrow> nat \<Rightarrow> string option \<Rightarrow> issue_tables \<Rightarrow> comment_row issue_api" where
  "update_comment au iid cid data s =
     permitted [''event:write'', ''event:admin''] au s
       (or_fail (comment_by_id au iid cid s) s (\<lambda>c.
        or_fail (payload_text data) s (\<lambda>t.
          (let c' = c\<lparr>cm_text := t\<rparr> in (Inr c', s\<lparr>it_comments := save_row cm_id c' (it_comments s)\<rparr>)))))"

definition delete_comment :: "auth \<Rightarrow> nat \<Rightarrow> nat \<Rightarrow> issue_tables \<Rightarrow> unit issue_api" where
  "delete_comment au iid cid s =
     permitted [''event:admin''] au s
       (or_fail (comment_by_id au iid cid s) s (\<lambda>c.
          (Inr (), s\<lparr>it_comments := filter (\<lambda>r. cm_id r \<noteq> cm_id c) (it_comments s)\<rparr>)))"

section \<open>Hashes\<close>

definition hashes_in :: "nat \<Rightarrow> nat \<Rightarrow> issue_tables \<Rightarrow> hash_entry \<Rightarrow> bool" where
  "hashes_in iid org s h \<longleftrightarrow> hv_issue h = iid \<and> (\<exists>i\<in>set (it_issues s). ib_id i = hv_issue h \<and> in_org org s i)"

definition hash_organization :: "auth \<Rightarrow> string \<Rightarrow> issue_tables \<Rightarrow> api_error + organization" where
  "hash_organization au slug s = get_row Http404 (get_organization_for_user (user_id au) slug (it_db s))"

definition list_issue_hashes :: "auth \<Rightarrow> string \<Rightarrow> nat \<Rightarrow> issue_tables \<Rightarrow> hash_entry list issue_api" where
  "list_issue_hashes au slug iid s =
     permitted [''event:read''] au s
       (or_fail (hash_organization au slug s) s (\<lambda>org.
          (Inr (sort_key hv_value (filter (hashes_in iid (o_id org) s) (it_hashes s))), s)))"

definition delete_hash :: "auth \<Rightarrow> string \<Rightarrow> nat \<Rightarrow> uuid list \<Rightarrow> issue_tables \<Rightarrow> unit issue_api" where
  "delete_hash au slug iid values s =
     permitted [''event:admin''] au s
       (or_fail (hash_organization au slug s) s (\<lambda>org.
          (Inr (), s\<lparr>it_hashes := filter (\<lambda>h. \<not> (hv_value h \<in> set values \<and> hashes_in iid (o_id org) s h)) (it_hashes s)\<rparr>)))"

end
