(* ===== verification/Issue_Access.thy ===== *)
theory Issue_Access
  imports Issue_Notes Issue_Deletion
begin

text \<open>
  Isolation of the issue endpoints: what a request of one user can change. The request is a datatype with a
  constructor for each endpoint that writes; its effect on the tables respects the issues that the user cannot see,
  step by step (\<open>outside\<close>).
\<close>

section \<open>Requests\<close>

datatype issue_request =
    UpdateIssue nat update_payload | UpdateOrgIssue string nat update_payload | DeleteIssue nat
  | DeleteBulk string issue_filters | UpdateBulk string issue_filters update_payload
  | AddComment nat "string option" | UpdateComment nat nat "string option" | DeleteComment nat nat
  | DeleteHashes string nat "uuid list"

fun perform_issue :: "issue_env \<Rightarrow> auth \<Rightarrow> datetime \<Rightarrow> issue_request \<Rightarrow> issue_tables \<Rightarrow> issue_tables" where
  "perform_issue env au now (UpdateIssue iid pl) s = snd (update_issue au iid pl s)"
| "perform_issue env au now (UpdateOrgIssue slug iid pl) s = snd (update_organization_issue au slug iid pl s)"
| "perform_issue env au now (DeleteIssue iid) s = snd (delete_issue au iid s)"
| "perform_issue env au now (DeleteBulk slug f) s = snd (delete_issues env au slug f s)"
| "perform_issue env au now (UpdateBulk slug f pl) s = snd (update_issues_endpoint env au slug f pl s)"
| "perform_issue env au now (AddComment iid d) s = snd (add_comment au iid d now s)"
| "perform_issue env au now (UpdateComment iid cid d) s = snd (update_comment au iid cid d s)"
| "perform_issue env au now (DeleteComment iid cid) s = snd (delete_comment au iid cid s)"
| "perform_issue env au now (DeleteHashes slug iid values) s = snd (delete_hash au slug iid values s)"

section \<open>What lies outside\<close>

definition visible_ids :: "nat \<Rightarrow> issue_tables \<Rightarrow> nat set" where
  "visible_ids uid s = {ib_id i | i. i \<in> set (it_issues s) \<and> visible_to uid s i}"

definition outside :: "nat set \<Rightarrow> issue_tables \<Rightarrow> issue_tables" where
  "outside V s = (without_issues V s)\<lparr>it_tasks := [], it_next_comment := 0\<rparr>"

text \<open>The ids that the tasks are to delete.\<close>

definition doomed :: "issue_tables \<Rightarrow> nat set" where
  "doomed s = {n. \<exists>ids. DeleteIssues ids \<in> set (it_tasks s) \<and> n \<in> set ids}"

text \<open>A step stays inside \<open>V\<close>: nothing outside changes, and nobody comes to see more or less.\<close>

definition inside :: "nat set \<Rightarrow> issue_tables \<Rightarrow> issue_tables \<Rightarrow> bool" where
  "inside V s s' \<longleftrightarrow> outside V s' = outside V s \<and> doomed s' \<subseteq> doomed s \<union> V \<and>
     map ib_id (it_issues s') = map ib_id (it_issues s) \<and> map ib_project (it_issues s') = map ib_project (it_issues s) \<and>
     map sv_id (it_events s') = map sv_id (it_events s)"

lemma inside_refl [simp]: "inside V s s"
  by (simp add: inside_def)

lemma inside_trans: "inside V s t \<Longrightarrow> inside V t u \<Longrightarrow> inside V s u"
  by (auto simp: inside_def)

lemma inside_unique: "inside V s t \<Longrightarrow> unique_rows t = unique_rows s"
  by (simp add: inside_def unique_rows_def)

lemma inside_db: "inside V s t \<Longrightarrow> it_db t = it_db s"
  by (auto simp: inside_def outside_def without_issues_def strip_issues_def dest: arg_cong [where f = it_db])

text \<open>Rewriting and appending rows of \<open>V\<close>.\<close>

lemma filter_map_inside:
  assumes "\<And>x. x \<in> set xs \<Longrightarrow> P x \<Longrightarrow> \<not> Q x \<and> \<not> Q (f x)"
  shows "filter Q (map (\<lambda>x. if P x then f x else x) xs) = filter Q xs"
  using assms by (induction xs) auto

lemma map_if_id:
  assumes "\<And>x. x \<in> set xs \<Longrightarrow> P x \<Longrightarrow> g (f x) = g x"
  shows "map g (map (\<lambda>x. if P x then f x else x) xs) = map g xs"
  using assms by (induction xs) auto

lemmas inside_defs = inside_def outside_def without_issues_def strip_issues_def doomed_def

lemma inside_issues:
  assumes "\<And>i. i \<in> set (it_issues s) \<Longrightarrow> P i \<Longrightarrow> ib_id i \<in> V"
    and "\<And>i. i \<in> set (it_issues s) \<Longrightarrow> P i \<Longrightarrow> ib_id (f i) = ib_id i \<and> ib_project (f i) = ib_project i"
  shows "inside V s (update_issues_where P f s)"
proof -
  have "filter (\<lambda>i. ib_id i \<notin> V) (map (\<lambda>i. if P i then f i else i) (it_issues s)) = filter (\<lambda>i. ib_id i \<notin> V) (it_issues s)"
    by (rule filter_map_inside) (use assms in auto)
  moreover have "map g (map (\<lambda>i. if P i then f i else i) (it_issues s)) = map g (it_issues s)"
    if "\<And>i. i \<in> set (it_issues s) \<Longrightarrow> P i \<Longrightarrow> g (f i) = g i" for g :: "issue_obj \<Rightarrow> nat" by (rule map_if_id) (rule that)
  ultimately show ?thesis using assms(2) unfolding inside_defs update_issues_where_def by (simp del: map_map)
qed

lemma inside_leaves:
  assumes "\<And>l. P l \<Longrightarrow> lf_issue l \<in> V \<and> lf_issue (f l) \<in> V"
  shows "inside V s (update_leaves_where P f s)"
proof -
  have "filter (\<lambda>l. lf_issue l \<notin> V) (map (\<lambda>l. if P l then f l else l) (it_leaves s)) = filter (\<lambda>l. lf_issue l \<notin> V) (it_leaves s)"
    by (rule filter_map_inside) (use assms in auto)
  then show ?thesis unfolding inside_defs update_leaves_where_def by simp
qed

lemma inside_hashes:
  assumes "set ids \<subseteq> V" "target \<in> V"
  shows "inside V s (move_hashes ids target s)"
proof -
  have "filter (\<lambda>h. hv_issue h \<notin> V) (map (\<lambda>h. if hv_issue h \<in> set ids then h\<lparr>hv_issue := target\<rparr> else h) (it_hashes s)) =
      filter (\<lambda>h. hv_issue h \<notin> V) (it_hashes s)" by (rule filter_map_inside) (use assms in auto)
  then show ?thesis unfolding inside_defs move_hashes_def by simp
qed

text \<open>Events are moved by their id, so that their keys have to be unique.\<close>

lemma inside_events:
  assumes "unique_rows s" "set ids \<subseteq> V" "target \<in> V"
  shows "inside V s (snd (move_events ids target s))"
proof -
  define es where "es = take 1000 (map sv_id (filter (\<lambda>e. sv_issue e \<in> set ids) (it_events s)))"
  have "sv_issue e \<in> V" if "e \<in> set (it_events s)" "sv_id e \<in> set es" for e
  proof -
    from that(2) have "sv_id e \<in> sv_id ` set (filter (\<lambda>e. sv_issue e \<in> set ids) (it_events s))"
      unfolding es_def by (metis in_set_takeD list.set_map)
    then obtain e' where "e' \<in> set (it_events s)" "sv_issue e' \<in> set ids" "sv_id e' = sv_id e" by auto
    with distinct_key_eq [of sv_id "it_events s" e' e] that(1) assms(1,2) show ?thesis by (auto simp: unique_rows_def)
  qed
  then have "filter (\<lambda>e. sv_issue e \<notin> V) (map (\<lambda>e. if sv_id e \<in> set es then e\<lparr>sv_issue := target\<rparr> else e) (it_events s)) =
      filter (\<lambda>e. sv_issue e \<notin> V) (it_events s)" by (intro filter_map_inside) (use assms in auto)
  moreover have "map sv_id (map (\<lambda>e. if sv_id e \<in> set es then e\<lparr>sv_issue := target\<rparr> else e) (it_events s)) = map sv_id (it_events s)"
    by (rule map_if_id) simp
  ultimately show ?thesis unfolding inside_defs move_events_def es_def [symmetric] by (simp add: Let_def es_def [symmetric] del: map_map)
qed

lemma inside_enqueue: "inside V s (enqueue (UpdateIssues args) s)" "set ids \<subseteq> V \<Longrightarrow> inside V s (enqueue (DeleteIssues ids) s)"
  by (auto simp: inside_defs enqueue_def)

lemma inside_if: "(c \<Longrightarrow> inside V s (f s)) \<Longrightarrow> inside V s (if_set c f s)"
  by (simp add: if_set_def)

lemma inside_status: "set ids \<subseteq> V \<Longrightarrow> inside V s (set_status ids org st s)"
  unfolding set_status_def by (rule inside_leaves) auto

lemma inside_assignee: "set ids \<subseteq> V \<Longrightarrow> inside V s (set_assignee ids a s)"
  unfolding set_assignee_def by (rule inside_issues) auto

lemma inside_soft_delete: "set ids \<subseteq> V \<Longrightarrow> inside V s (soft_delete ids s)"
  unfolding soft_delete_def by (rule inside_issues) auto

lemma inside_merge:
  assumes "unique_rows s" "set ids \<subseteq> V" "target \<in> V"
  shows "inside V s (merge_into ids target org s)"
proof -
  let ?t = "move_hashes ids target (soft_delete ids s)"
  have t: "inside V s ?t" by (rule inside_trans [OF inside_soft_delete inside_hashes]) (rule assms)+
  have "inside V ?t (snd (move_events ids target ?t))"
    by (rule inside_events [OF _ assms(2,3)]) (simp only: inside_unique [OF t] assms(1))
  moreover have "inside V u (add_count target org n u)" for u n
    unfolding add_count_def by (rule inside_leaves) (use assms(3) in auto)
  ultimately show ?thesis
    unfolding merge_into_def using t by (auto split: prod.split intro: inside_trans)
qed

section \<open>Queries stay inside\<close>

lemma visible_to_same: "inside V s t \<Longrightarrow> visible_ids uid t = visible_ids uid s"
proof -
  assume a: "inside V s t"
  have v: "visible_ids uid r = fst ` {(n, p) \<in> set (zip (map ib_id (it_issues r)) (map ib_project (it_issues r))).
      \<exists>q\<in>set (projects (it_db r)). p_id q = p \<and> (\<exists>m\<in>set (members (it_db r)). m_org m = p_org q \<and> m_user m = Some uid)}" for r
    unfolding visible_ids_def visible_to_def projects_of_def zip_map_map
    by (force simp: zip_same_conv_map image_iff)
  show ?thesis unfolding v using a inside_db [OF a] by (simp add: inside_def)
qed

definition query_inside :: "nat \<Rightarrow> issue_query \<Rightarrow> issue_tables \<Rightarrow> bool" where
  "query_inside uid qs s \<longleftrightarrow> (\<forall>t i l. it_db t = it_db s \<longrightarrow> qs t i l \<longrightarrow> visible_to uid t i)"

lemma queryset_inside:
  assumes "get_queryset (Some uid) slug pslug s = Inr qs"
  shows "query_inside uid qs s"
proof -
  have member: "visible_to uid t i" if "get_organization_for_user uid x (it_db s) = [org]" "in_org (o_id org) t i" "it_db t = it_db s"
    for x org t i
  proof -
    have "org \<in> set (get_organization_for_user uid x (it_db t))" using that by simp
    then obtain m where "m \<in> set (members (it_db t))" "m_org m = o_id org" "m_user m = Some uid"
      by (auto simp: get_organization_for_user_def)
    with \<open>in_org (o_id org) t i\<close> show ?thesis unfolding in_org_def visible_to_def by metis
  qed
  show ?thesis using assms member unfolding get_queryset_def query_inside_def Let_def
    by (auto split: option.split_asm list.split_asm if_split_asm)
qed

lemma query_inside_and: "query_inside uid qs s \<Longrightarrow> query_inside uid (\<lambda>t i l. qs t i l \<and> p t i l) s"
  unfolding query_inside_def by blast

lemma query_inside_filter: "query_inside uid qs s \<Longrightarrow> query_inside uid (filter_issue_list env f e org qs) s"
  unfolding query_inside_def filter_issue_list_def by blast

lemma selected_visible:
  assumes "query_inside uid qs s" "it_db t = it_db s"
  shows "ids_selected qs t \<subseteq> visible_ids uid t"
  using assms by (auto simp: query_inside_def ids_selected_def selected_def visible_ids_def)

section \<open>Handlers stay inside\<close>

lemma inside_permitted: "inside V s (snd k) \<Longrightarrow> inside V s (snd (permitted ps au s k))"
  by (simp add: permitted_def split: sum.split)

lemma inside_or_fail:
  "inside V s s1 \<Longrightarrow> (\<And>x. r = Inr x \<Longrightarrow> inside V s (snd (k x))) \<Longrightarrow> inside V s (snd (or_fail r s1 k))"
  by (simp add: or_fail_def split: sum.split)

lemma get_row_in: "get_row e rows = Inr x \<Longrightarrow> x \<in> set rows"
  by (auto simp: get_row_def split: list.split_asm)

lemma visible_idsI: "i \<in> set (it_issues s) \<Longrightarrow> visible_to uid s i \<Longrightarrow> ib_id i \<in> visible_ids uid s"
  by (auto simp: visible_ids_def)

lemma inside_save_issue:
  assumes "unique_rows s" "i \<in> set (it_issues s)" "ib_id i \<in> V" "ib_id i2 = ib_id i" "ib_project i2 = ib_project i"
  shows "inside V s (s\<lparr>it_issues := save_row ib_id i2 (it_issues s)\<rparr>)"
proof -
  have "r = i" if "r \<in> set (it_issues s)" "ib_id r = ib_id i" for r
    using distinct_key_eq [of ib_id "it_issues s" r i] assms(1,2) that by (simp add: unique_rows_def)
  then have "inside V s (update_issues_where (\<lambda>r. ib_id r = ib_id i2) (\<lambda>_. i2) s)"
    using assms(3-5) by (intro inside_issues) auto
  then show ?thesis by (simp add: update_issues_where_def save_row_def)
qed

lemma changed_issue_keys: "changed_issue pl org i s = Inr i2 \<Longrightarrow> ib_id i2 = ib_id i \<and> ib_project i2 = ib_project i"
  unfolding changed_issue_def Let_def
  by (cases "new_resolution pl org (ib_project i) s"; cases "up_assigned pl";
      cases "resolve_assignee (the (up_assigned pl)) org (it_db s)") auto

lemma inside_save:
  assumes "unique_rows s" "i \<in> set (it_issues s)" "ib_id i \<in> V" "changed_issue pl org i s = Inr i2"
  shows "inside V s (snd (save_issue i2 org st leaf s))"
proof -
  have keys: "ib_id i2 = ib_id i" "ib_project i2 = ib_project i" using changed_issue_keys [OF assms(4)] by simp_all
  note saved = inside_save_issue [OF assms(1-3) keys]
  show ?thesis using saved inside_trans [OF saved inside_status] assms(3) keys(1)
    by (simp add: save_issue_def Let_def split: option.split)
qed

lemma inside_update_issue_status:
  assumes "unique_rows s" "query_inside uid qs s"
  shows "inside (visible_ids uid s) s (snd (update_issue_status qs iid pl s))"
  unfolding update_issue_status_def
proof (intro inside_or_fail inside_refl, clarify)
  fix i leaf assume r: "get_row Http404 (rows_of_query (\<lambda>t i l. qs t i l \<and> ib_id i = iid) s) = Inr (i, leaf)"
  from get_row_in [OF r] have i: "i \<in> set (it_issues s)" and "qs s i leaf" by (auto simp: rows_of_query_def)
  then have v: "ib_id i \<in> visible_ids uid s" using assms(2) by (auto simp: query_inside_def intro: visible_idsI)
  show "inside (visible_ids uid s) s (snd (case projects_of s i of [] \<Rightarrow> (Inl DoesNotExist, s)
      | p # _ \<Rightarrow> or_fail (changed_issue pl (p_org p) i s) s (\<lambda>i2. save_issue i2 (p_org p) (up_status pl) leaf s)))"
    by (cases "projects_of s i") (auto intro!: inside_or_fail inside_save [OF assms(1) i v])
qed

lemma inside_delete_issue: "inside (visible_ids (user_id au) s) s (snd (delete_issue au iid s))"
  unfolding delete_issue_def Let_def
proof (intro inside_permitted inside_or_fail inside_refl)
  fix qs assume "get_queryset (Some (user_id au)) None None s = Inr qs"
  from selected_visible [OF queryset_inside [OF this] refl]
  have v: "set [iid] \<subseteq> visible_ids (user_id au) s" if "[i \<leftarrow> it_issues s. selected qs s i \<and> ib_id i = iid] \<noteq> []"
    using that by (auto simp: filter_empty_conv ids_selected_def)
  show "inside (visible_ids (user_id au) s) s
      (snd (if [i \<leftarrow> it_issues s. selected qs s i \<and> ib_id i = iid] = [] then (Inl Http404, s)
            else (Inr (), enqueue (DeleteIssues [iid]) (soft_delete [iid] s))))"
    using inside_trans [OF inside_soft_delete [OF v] inside_enqueue(2) [OF v]] by simp
qed

lemma inside_delete_issues:
  assumes "any_order env"
  shows "inside (visible_ids (user_id au) s) s (snd (delete_issues env au slug f s))"
  unfolding delete_issues_def Let_def
proof (intro inside_permitted inside_or_fail inside_refl)
  fix qs assume qs: "get_queryset (Some (user_id au)) (Some slug) None s = Inr qs"
  let ?q = "filter_issue_list env f None None qs" and ?V = "visible_ids (user_id au) s"
  let ?t = "soft_delete (query_ids env ?q s) s"
  note q = query_inside_filter [OF queryset_inside [OF qs], of env f None None]
  have t: "inside ?V s ?t"
    by (rule inside_soft_delete) (simp only: set_query_ids [OF assms] selected_visible [OF q refl])
  have "ids_selected (\<lambda>t i l. ?q t i l \<and> ib_is_deleted i) ?t \<subseteq> ?V"
    using selected_visible [OF query_inside_and [OF q] inside_db [OF t]] visible_to_same [OF t] by simp
  then show "inside ?V s (snd (Inr (), enqueue (DeleteIssues (query_ids env (\<lambda>t i l. ?q t i l \<and> ib_is_deleted i) ?t)) ?t))"
    using inside_trans [OF t inside_enqueue(2)] by (simp add: set_query_ids [OF assms])
qed

lemma max_of_ids_in: "max_of_ids qs s = Some n \<Longrightarrow> n \<in> ids_selected qs s"
proof -
  assume a: "max_of_ids qs s = Some n"
  let ?ids = "map ib_id (filter (selected qs s) (it_issues s))"
  have "?ids \<noteq> []" "n = Max (set ?ids)" using a by (simp_all add: max_of_ids_def Let_def split: if_split_asm)
  then have "n \<in> set ?ids" by (simp only:) (rule Max_in, simp_all only: List.finite_set set_empty not_False_eq_True)
  then show ?thesis by (auto simp: ids_selected_def)
qed

lemma inside_merge_step:
  assumes "unique_rows t" "inside V s t" "set ids \<subseteq> V" "ids_selected qs t \<subseteq> V"
  shows "inside V s (merge_step e args qs ids mg t)"
proof (cases "mg = None \<or> mg = Some 0 \<or> max_of_ids qs t = None")
  case True
  then show ?thesis using assms(2) by (auto simp: merge_step_def)
next
  case False
  then obtain n where n: "max_of_ids qs t = Some n" by auto
  then have "n \<in> V" using max_of_ids_in assms(4) by blast
  then have "inside V t (merge_into (filter (\<lambda>x. x \<noteq> n) ids) n org t)" for org
    using assms(1,3) by (intro inside_merge) auto
  then show ?thesis using False assms(2) n unfolding merge_step_def Let_def
    by (auto intro!: inside_if intro: inside_trans inside_enqueue simp: if_set_def)
qed

lemma inside_status_step: "set ids \<subseteq> V \<Longrightarrow> inside V s (status_step e args org ids st s)"
  using inside_trans [OF inside_status inside_enqueue(1)] inside_status
  by (auto simp: status_step_def if_set_def split: option.split)

lemma inside_bulk_update:
  assumes "any_order env" "unique_rows s"
  shows "inside (visible_ids (user_id au) s) s (snd (update_issues_endpoint env au slug f pl s))"
  unfolding update_issues_endpoint_def
proof (intro inside_permitted inside_or_fail inside_refl)
  fix qs0 assume qs0: "get_queryset (Some (user_id au)) (Some slug) None s = Inr qs0"
  let ?V = "visible_ids (user_id au) s"
  define q where "q m = (\<lambda>t i l. filter_issue_list env f None None qs0 t i l \<and> ib_id i \<le> m)" for m
  define ids where "ids m = take BULK_LIMIT (query_ids env (q m) s)" for m
  have q: "query_inside (user_id au) (q m) s" for m
    unfolding q_def by (intro query_inside_and query_inside_filter queryset_inside [OF qs0])
  have later: "ids_selected (q m) t \<subseteq> ?V" if "inside ?V s t" for m t
    using selected_visible [OF q inside_db [OF that]] visible_to_same [OF that] by simp
  have ids: "set (ids m) \<subseteq> ?V" for m
    using later [OF inside_refl, of m] set_take_subset unfolding ids_def set_query_ids [OF assms(1), symmetric] by fast
  have merge: "inside ?V s (merge_step e args (q m) (ids m) mg t)" if "inside ?V s t" for e args m mg t
    by (rule inside_merge_step [OF _ that ids later [OF that]]) (simp only: inside_unique [OF that] assms(2))
  have assign: "inside ?V s (if_set e (enqueue (UpdateIssues a)) (set_assignee (ids m) x t))"
    if "inside ?V s t" for e a m x t
    by (rule inside_trans [OF that inside_trans [OF inside_assignee [OF ids] inside_if]]) (rule inside_enqueue)
  note status = inside_status_step [OF ids]
  show "inside ?V s (snd (let qs1 = filter_issue_list env f None None qs0 in
      case max_of_ids qs1 s of None \<Rightarrow> (Inr (), s) | Some 0 \<Rightarrow> (Inr (), s)
      | Some max_id \<Rightarrow>
          let qs = \<lambda>t i l. qs1 t i l \<and> ib_id i \<le> max_id;
              updated_ids = take BULK_LIMIT (query_ids env qs s); should_enqueue = (length updated_ids = BULK_LIMIT);
              args = \<lparr>ua_slug = slug, ua_user = user_id au, ua_filters = f, ua_exclude = updated_ids, ua_max = max_id,
                      ua_status = up_status pl, ua_merge = up_merge pl, ua_assign = None\<rparr>
          in case List.find (\<lambda>r. o_slug r = slug) (orgs (it_db s)) of None \<Rightarrow> (Inl DoesNotExist, s)
             | Some org \<Rightarrow>
                 let s1 = status_step should_enqueue args (o_id org) updated_ids (up_status pl) s in
                 case up_assigned pl of
                   None \<Rightarrow> (Inr (), merge_step should_enqueue args qs updated_ids (up_merge pl) s1)
                 | Some a \<Rightarrow>
                     or_fail (resolve_assignee a (o_id org) (it_db s1)) s1 (\<lambda>x.
                       let args' = if should_enqueue then args\<lparr>ua_assign := Some x\<rparr> else args;
                           s2 = if_set should_enqueue (enqueue (UpdateIssues args')) (set_assignee updated_ids x s1)
                       in (Inr (), merge_step should_enqueue args' qs updated_ids (up_merge pl) s2))))"
    unfolding Let_def q_def [symmetric] ids_def [symmetric]
    by (auto split: option.split nat.split intro!: merge status assign inside_or_fail)
qed

text \<open>Comments and hashes.\<close>

lemma inside_add_comment: "inside (visible_ids (user_id au) s) s (snd (add_comment au iid d now s))"
  unfolding add_comment_def Let_def
  by (intro inside_permitted inside_or_fail inside_refl)
    (auto simp: inside_defs dest!: get_row_in intro: visible_idsI)

lemma comment_of_visible:
  assumes "comment_by_id au iid cid s = Inr c"
  shows "c \<in> set (it_comments s)" "cm_issue c \<in> visible_ids (user_id au) s"
  using get_row_in [OF assms [unfolded comment_by_id_def]] by (auto simp: comments_of_def) (metis visible_idsI)

lemma inside_comments:
  assumes "filter (\<lambda>c. cm_issue c \<notin> V) cs = filter (\<lambda>c. cm_issue c \<notin> V) (it_comments s)"
  shows "inside V s (s\<lparr>it_comments := cs\<rparr>)"
  using assms by (simp add: inside_defs)

lemma inside_hash_rows:
  assumes "filter (\<lambda>h. hv_issue h \<notin> V) hs = filter (\<lambda>h. hv_issue h \<notin> V) (it_hashes s)"
  shows "inside V s (s\<lparr>it_hashes := hs\<rparr>)"
  using assms by (simp add: inside_defs)

lemma inside_update_comment:
  assumes "distinct (map cm_id (it_comments s))"
  shows "inside (visible_ids (user_id au) s) s (snd (update_comment au iid cid d s))"
  unfolding update_comment_def Let_def
proof (intro inside_permitted inside_or_fail inside_refl)
  fix c x assume "comment_by_id au iid cid s = Inr c"
  note c = comment_of_visible [OF this]
  have "r = c" if "r \<in> set (it_comments s)" "cm_id r = cm_id c" for r
    using distinct_key_eq [OF assms that(1) c(1) that(2)] .
  then show "inside (visible_ids (user_id au) s) s
      (snd (Inr (c\<lparr>cm_text := x\<rparr>), s\<lparr>it_comments := save_row cm_id (c\<lparr>cm_text := x\<rparr>) (it_comments s)\<rparr>))"
    using c(2) by (auto simp: save_row_def intro!: inside_comments filter_map_inside)
qed

lemma inside_delete_comment:
  assumes "distinct (map cm_id (it_comments s))"
  shows "inside (visible_ids (user_id au) s) s (snd (delete_comment au iid cid s))"
  unfolding delete_comment_def
proof (intro inside_permitted inside_or_fail inside_refl)
  fix c assume "comment_by_id au iid cid s = Inr c"
  note c = comment_of_visible [OF this]
  have "r = c" if "r \<in> set (it_comments s)" "cm_id r = cm_id c" for r
    using distinct_key_eq [OF assms that(1) c(1) that(2)] .
  then have "filter (\<lambda>r. cm_issue r \<notin> visible_ids (user_id au) s) (filter (\<lambda>r. cm_id r \<noteq> cm_id c) (it_comments s)) =
      filter (\<lambda>r. cm_issue r \<notin> visible_ids (user_id au) s) (it_comments s)"
    unfolding filter_filter using c(2) by (intro filter_cong refl) blast
  then show "inside (visible_ids (user_id au) s) s (snd (Inr (), s\<lparr>it_comments := filter (\<lambda>r. cm_id r \<noteq> cm_id c) (it_comments s)\<rparr>))"
    using inside_comments by simp
qed

lemma inside_delete_hash: "inside (visible_ids (user_id au) s) s (snd (delete_hash au slug iid values s))"
  unfolding delete_hash_def
proof (intro inside_permitted inside_or_fail inside_refl)
  fix org assume org: "hash_organization au slug s = Inr org"
  let ?V = "visible_ids (user_id au) s"
  have "hv_issue h \<in> ?V" if h: "hashes_in iid (o_id org) s h" for h
  proof -
    from get_row_in [OF org [unfolded hash_organization_def]] obtain m
      where "m \<in> set (members (it_db s))" "m_org m = o_id org" "m_user m = Some (user_id au)"
      by (auto simp: get_organization_for_user_def)
    then have "visible_to (user_id au) s i" if "in_org (o_id org) s i" for i
      using that unfolding in_org_def visible_to_def by metis
    with h show ?thesis unfolding hashes_in_def by (metis visible_idsI)
  qed
  then show "inside ?V s (snd (Inr (), s\<lparr>it_hashes := filter (\<lambda>h. \<not> (hv_value h \<in> set values \<and> hashes_in iid (o_id org) s h)) (it_hashes s)\<rparr>))"
    unfolding snd_conv by (intro inside_hash_rows) (auto simp: filter_filter intro!: filter_cong)
qed

section \<open>Properties\<close>

lemma perform_inside:
  assumes "any_order env" "unique_rows s" "distinct (map cm_id (it_comments s))"
  shows "inside (visible_ids (user_id au) s) s (perform_issue env au now req s)"
proof -
  have status: "inside (visible_ids (user_id au) s) s (snd (permitted ps au s
      (or_fail (get_queryset (Some (user_id au)) slug None s) s (\<lambda>qs. update_issue_status qs iid pl s))))" for ps slug iid pl
    by (intro inside_permitted inside_or_fail inside_refl inside_update_issue_status [OF assms(2) queryset_inside])
  show ?thesis
    using status inside_delete_issue inside_delete_issues [OF assms(1)] inside_bulk_update [OF assms(1,2)]
      inside_add_comment inside_update_comment [OF assms(3)] inside_delete_comment [OF assms(3)] inside_delete_hash
    by (cases req) (simp_all add: update_issue_def update_organization_issue_def)
qed

text \<open>
  Property C4. Requests on issues stay inside the organizations of their user. Whatever a user asks for, with
  whatever token, and also when the request fails half way: every issue that the user cannot see and everything that
  hangs on such an issue is as before, the tasks that the request leaves behind delete only issues that the user can
  see, and the user sees the same issues as before.
\<close>

theorem issue_requests_stay_inside:
  assumes "any_order env" and "unique_rows s" and "distinct (map cm_id (it_comments s))"
  shows "outside (visible_ids (user_id au) s) (perform_issue env au now req s) = outside (visible_ids (user_id au) s) s \<and>
    doomed (perform_issue env au now req s) \<subseteq> doomed s \<union> visible_ids (user_id au) s \<and>
    (\<forall>uid. visible_ids uid (perform_issue env au now req s) = visible_ids uid s)"
  using perform_inside [OF assms, of au now req] visible_to_same [OF perform_inside [OF assms, of au now req]]
  by (simp add: inside_def)

text \<open>The demonstration with an issue of another organization: user 1 merges all the issues of \<open>acme\<close>.\<close>

definition shared_demo :: issue_tables where
  "shared_demo = issue_demo
     \<lparr>it_db := demo\<lparr>projects := projects demo @ [\<lparr>p_id = 2, p_org = 2, p_slug = ''app'', p_name = ''App'', p_platform = None,
                                                 p_throttle_rate = 0, p_is_deleted = False, p_keys = []\<rparr>]\<rparr>,
      it_issues := it_issues issue_demo @ [(demo_issue 3 ''Theirs'')\<lparr>ib_project := 2\<rparr>],
      it_leaves := it_leaves issue_demo @ [(demo_leaf 3 UNRESOLVED)\<lparr>lf_org := 2\<rparr>],
      it_events := it_events issue_demo @ [\<lparr>sv_id = 30, sv_event_id = None, sv_issue = 3, sv_org = 2\<rparr>],
      it_hashes := it_hashes issue_demo @ [\<lparr>hv_issue = 3, hv_project = 2, hv_value = 5\<rparr>]\<rparr>"

definition merge_all :: issue_request where
  "merge_all = UpdateBulk ''acme'' no_filters \<lparr>up_status = None, up_details = None, up_merge = Some 1, up_assigned = None\<rparr>"

lemma visible_list: "visible_ids uid s = set (map ib_id (filter (visible_to uid s) (it_issues s)))"
  by (auto simp: visible_ids_def)

lemma shared_visible: "visible_ids 1 shared_demo = {1, 2}"
  unfolding visible_list by code_simp

lemma shared_merge: "map hv_issue (it_hashes (perform_issue demo_issue_env (session 1) 0 merge_all shared_demo)) = [2, 2, 3]"
  by code_simp

theorem issue_requests_stay_inside_witness:
  "map hv_issue (it_hashes (perform_issue demo_issue_env (session 1) 0 merge_all shared_demo)) = [2, 2, 3] \<and>
   outside {1, 2} (perform_issue demo_issue_env (session 1) 0 merge_all shared_demo) = outside {1, 2} shared_demo"
proof -
  have "unique_rows shared_demo" "distinct (map cm_id (it_comments shared_demo))"
    by (simp_all add: unique_rows_def shared_demo_def issue_demo_def demo_issue_def)
  note bound = issue_requests_stay_inside [OF demo_any_order this, of "session 1" 0 merge_all]
  have "user_id (session 1) = 1" by (simp add: session_def)
  from bound [THEN conjunct1, unfolded this shared_visible] show ?thesis using shared_merge by (rule conjI [rotated])
qed

end
