(* ===== verification/Issue_Events.thy ===== *)
theory Issue_Events
  imports Issue_Access Ingest_Views Text_Order
begin

text \<open>
  Reading single events (\<open>apps/issue_events/api/events.py\<close>) with their fallback to cold storage
  (\<open>apps/issue_events/cold_storage.py\<close>), and user reports: the task that stores them
  (\<open>apps/event_ingest/tasks.py\<close>), the form of the error page (\<open>embed_api.py\<close>) and their listing
  (\<open>api/user_reports.py\<close>).

  An event keeps its server id, the id of the client, its issue and its organization; the other columns are carried
  along. The environment of the cold tier is the one of the logs (\<open>Log_Query\<close>).
\<close>

section \<open>Cold events\<close>

record cold_event =
  ce_id :: string
  ce_event_id :: "string option"
  ce_issue :: nat
  ce_org :: nat

definition export_event :: "stored_event \<Rightarrow> cold_event" where
  "export_event e = \<lparr>ce_id = id_text (sv_id e), ce_event_id = map_option id_text (sv_event_id e), ce_issue = sv_issue e, ce_org = sv_org e\<rparr>"

text \<open>\<open>_row_to_issue_event\<close>; \<open>None\<close> is the \<open>ValueError\<close> of a text that is not a UUID.\<close>

definition row_to_issue_event :: "cold_event \<Rightarrow> stored_event option" where
  "row_to_issue_event r =
     (case (uuid_parse (ce_id r), case ce_event_id r of None \<Rightarrow> Some None | Some s \<Rightarrow> if s = [] then Some None else map_option Some (uuid_parse s)) of
        (Some i, Some c) \<Rightarrow> Some \<lparr>sv_id = int i, sv_event_id = map_option int c, sv_issue = ce_issue r, sv_org = ce_org r\<rparr>
      | _ \<Rightarrow> None)"

text \<open>The scan of \<open>query_cold_parquet_files\<close> over this table.\<close>

fun scan_event_files ::
    "log_env \<Rightarrow> backend \<Rightarrow> (cold_event \<Rightarrow> bool) \<Rightarrow> nat \<Rightarrow> path list \<Rightarrow> cold_event list \<Rightarrow> stored_event files
     \<Rightarrow> (log_error + cold_event list) \<times> stored_event files" where
  "scan_event_files env be P limit [] acc fs = (Inr acc, fs)"
| "scan_event_files env be P limit (p # ps) acc fs =
     (if \<not> duck_reads env p then (Inl ReadError, fs)
      else case map_of fs p of
             None \<Rightarrow> (Inl ReadError, fs)
           | Some Damaged \<Rightarrow> scan_event_files env be P limit ps acc (snd (storage_delete be p fs))
           | Some (Parquet rows) \<Rightarrow>
               (let acc' = acc @ take limit (newest_first ce_id (filter P (map export_event rows))) in
                if limit \<le> length acc' then (Inr acc', fs) else scan_event_files env be P limit ps acc' fs))"

definition cold_event_where :: "log_env \<Rightarrow> nat \<Rightarrow> datetime \<Rightarrow> datetime \<Rightarrow> nat option \<Rightarrow> cold_event \<Rightarrow> bool" where
  "cold_event_where env org start_dt end_dt iid r =
     (let (start_uuid, end_uuid) = get_range_for_date (ms_of env) start_dt end_dt in
      ce_org r = org \<and> id_text start_uuid \<le> ce_id r \<and> ce_id r < id_text end_uuid \<and> at_least iid (\<lambda>i. ce_issue r = i))"

definition query_cold_events ::
    "log_env \<Rightarrow> nat \<Rightarrow> datetime \<Rightarrow> datetime \<Rightarrow> nat option \<Rightarrow> nat \<Rightarrow> stored_event files
     \<Rightarrow> (log_error + stored_event list) \<times> stored_event files" where
  "query_cold_events env org start_dt end_dt iid limit fs =
     (case (if duckdb_on env then log_backend env else None) of
        None \<Rightarrow> (Inr [], fs)
      | Some be \<Rightarrow>
          (let paths = enumerate_org_parquet_files be ''issue_events_issueevent'' (int org) (Some (start_dt, end_dt)) fs in
           if paths = [] \<or> \<not> slot_free env then (Inr [], fs)
           else case scan_event_files env be (cold_event_where env org start_dt end_dt iid) limit (rev paths) [] fs of
                  (Inl e, fs') \<Rightarrow> (Inl e, fs')
                | (Inr rows, fs') \<Rightarrow>
                    (case all_some (map row_to_issue_event rows) of
                       None \<Rightarrow> (Inl RowError, fs')
                     | Some es \<Rightarrow> (Inr (take limit (newest_first sv_id es)), fs'))))"

fun find_event_in_files :: "log_env \<Rightarrow> nat \<Rightarrow> int \<Rightarrow> path list \<Rightarrow> stored_event files \<Rightarrow> log_error + stored_event option" where
  "find_event_in_files env org eid [] fs = Inr None"
| "find_event_in_files env org eid (p # ps) fs =
     (if \<not> duck_reads env p then Inl ReadError
      else case map_of fs p of
             None \<Rightarrow> find_event_in_files env org eid ps fs
           | Some Damaged \<Rightarrow> Inl ReadError
           | Some (Parquet rows) \<Rightarrow>
               (case List.find (\<lambda>r. ce_id r = id_text eid \<and> ce_org r = org) (map export_event rows) of
                  None \<Rightarrow> find_event_in_files env org eid ps fs
                | Some r \<Rightarrow> (case row_to_issue_event r of None \<Rightarrow> Inl RowError | Some e \<Rightarrow> Inr (Some e))))"

definition get_event_from_cold :: "log_env \<Rightarrow> nat \<Rightarrow> int \<Rightarrow> stored_event files \<Rightarrow> log_error + stored_event option" where
  "get_event_from_cold env org eid fs =
     (case (if duckdb_on env then extract_datetime eid else None) of
        None \<Rightarrow> Inr None
      | Some event_time \<Rightarrow>
          (case log_backend env of
             None \<Rightarrow> Inr None
           | Some be \<Rightarrow>
               find_event_in_files env org eid
                 (get_parquet_paths_for_date be ''issue_events_issueevent'' (int org) (date_suffix event_time) fs) fs))"

section \<open>Query sets\<close>

definition event_visible :: "nat \<Rightarrow> nat option \<Rightarrow> string option \<Rightarrow> string option \<Rightarrow> issue_tables \<Rightarrow> stored_event \<Rightarrow> bool" where
  "event_visible uid iid slug project_slug s e \<longleftrightarrow>
     at_least iid (\<lambda>n. n \<noteq> 0 \<longrightarrow> sv_issue e = n) \<and>
     (\<exists>i\<in>set (it_issues s). ib_id i = sv_issue e \<and>
        (\<exists>p\<in>set (projects_of s i).
           (\<exists>m\<in>set (members (it_db s)). m_org m = p_org p \<and> m_user m = Some uid) \<and>
           given slug (\<lambda>x. \<exists>r\<in>set (orgs (it_db s)). o_id r = p_org p \<and> o_slug r = x) \<and> given project_slug (\<lambda>x. p_slug p = x)))"

definition event_queryset :: "nat \<Rightarrow> nat option \<Rightarrow> string option \<Rightarrow> string option \<Rightarrow> issue_tables \<Rightarrow> stored_event list" where
  "event_queryset uid iid slug project_slug s = filter (event_visible uid iid slug project_slug s) (it_events s)"

text \<open>\<open>afirst\<close> on rows in the order of the key.\<close>

definition lowest_event :: "stored_event list \<Rightarrow> stored_event option" where
  "lowest_event es = (case sort_key (\<lambda>e. (sv_id e, sv_org e)) es of [] \<Rightarrow> None | e # _ \<Rightarrow> Some e)"

definition previous_id :: "stored_event \<Rightarrow> stored_event list \<Rightarrow> int option" where
  "previous_id e qs = (case newest_first id [sv_id x. x \<leftarrow> qs, sv_id x < sv_id e] of [] \<Rightarrow> None | n # _ \<Rightarrow> Some n)"

definition next_id :: "stored_event \<Rightarrow> stored_event list \<Rightarrow> int option" where
  "next_id e qs = (case sort [sv_id x. x \<leftarrow> qs, sv_id e < sv_id x] of [] \<Rightarrow> None | n # _ \<Rightarrow> Some n)"

definition get_user_report :: "int \<Rightarrow> issue_tables \<Rightarrow> report_row option" where
  "get_user_report eid s = List.find (\<lambda>r. ur_event r = eid) (it_reports s)"

text \<open>An answer: the event, the issue it is shown under, its neighbours and its report.\<close>

record event_answer =
  ea_event :: stored_event
  ea_issue :: "nat option"
  ea_previous :: "int option"
  ea_next :: "int option"
  ea_report :: "report_row option"

definition hot_answer :: "stored_event \<Rightarrow> stored_event list \<Rightarrow> issue_tables \<Rightarrow> event_answer" where
  "hot_answer e qs s =
     \<lparr>ea_event = e, ea_issue = Some (sv_issue e), ea_previous = previous_id e qs, ea_next = next_id e qs,
      ea_report = get_user_report (sv_id e) s\<rparr>"

definition cold_answer :: "stored_event \<Rightarrow> nat option \<Rightarrow> issue_tables \<Rightarrow> event_answer" where
  "cold_answer e iid s =
     \<lparr>ea_event = e, ea_issue = iid, ea_previous = None, ea_next = None, ea_report = get_user_report (sv_id e) s\<rparr>"

section \<open>Endpoints\<close>

definition event_permission :: "auth \<Rightarrow> issue_tables \<Rightarrow> (log_error + 'a) \<Rightarrow> log_error + 'a" where
  "event_permission au s r =
     (case fst (has_permission [''event:read'', ''event:write'', ''event:admin''] au (it_db s) (Inr (), it_db s)) of
        Inl e \<Rightarrow> Inl (Denied e) | Inr _ \<Rightarrow> r)"

definition list_issue_event :: "auth \<Rightarrow> nat \<Rightarrow> issue_tables \<Rightarrow> log_error + stored_event list" where
  "list_issue_event au iid s =
     event_permission au s (Inr (newest_first sv_id (event_queryset (user_id au) (Some iid) None None s)))"

definition list_project_issue_event :: "auth \<Rightarrow> string \<Rightarrow> string \<Rightarrow> issue_tables \<Rightarrow> log_error + stored_event list" where
  "list_project_issue_event au slug project_slug s =
     event_permission au s (Inr (newest_first sv_id (event_queryset (user_id au) None (Some slug) (Some project_slug) s)))"

text \<open>The issue of the user, with the organization of its project.\<close>

definition issue_of_user :: "nat \<Rightarrow> string option \<Rightarrow> nat \<Rightarrow> issue_tables \<Rightarrow> (issue_obj \<times> nat) option" where
  "issue_of_user uid slug iid s =
     (case [(i, p_org p). i \<leftarrow> it_issues s, ib_id i = iid, p \<leftarrow> projects_of s i,
              (\<exists>m\<in>set (members (it_db s)). m_org m = p_org p \<and> m_user m = Some uid) \<and>
              at_least slug (\<lambda>x. \<exists>r\<in>set (orgs (it_db s)). o_id r = p_org p \<and> o_slug r = x)] of
        [] \<Rightarrow> None | x # _ \<Rightarrow> Some x)"

definition org_of_user :: "nat \<Rightarrow> string \<Rightarrow> issue_tables \<Rightarrow> nat option" where
  "org_of_user uid slug s = (case get_organization_for_user uid slug (it_db s) of [] \<Rightarrow> None | r # _ \<Rightarrow> Some (o_id r))"

definition cold_event_answer ::
    "log_env \<Rightarrow> nat \<Rightarrow> int \<Rightarrow> (stored_event \<Rightarrow> nat option) \<Rightarrow> issue_tables \<Rightarrow> stored_event files \<Rightarrow> log_error + event_answer" where
  "cold_event_answer env org eid issue_of s fs =
     (case get_event_from_cold env org eid fs of
        Inl e \<Rightarrow> Inl e
      | Inr None \<Rightarrow> Inl (Denied Http404)
      | Inr (Some e) \<Rightarrow> Inr (cold_answer e (issue_of e) s))"

text \<open>The hot tier by the id of the server or, in an organization, by the id of the client.\<close>

definition hot_event :: "int \<Rightarrow> nat option \<Rightarrow> stored_event list \<Rightarrow> log_error + stored_event option" where
  "hot_event eid org qs =
     (if is_uuid7 eid then Inr (lowest_event [e \<leftarrow> qs. sv_id e = eid])
      else case org of
             None \<Rightarrow> Inl (Denied Http404)
           | Some n \<Rightarrow> if n = 0 then Inl (Denied Http404) else Inr (lowest_event [e \<leftarrow> qs. sv_event_id e = Some eid \<and> sv_org e = n]))"

definition get_issue_event :: "log_env \<Rightarrow> auth \<Rightarrow> nat \<Rightarrow> int \<Rightarrow> issue_tables \<Rightarrow> stored_event files \<Rightarrow> log_error + event_answer" where
  "get_issue_event env au iid eid s fs =
     event_permission au s
       (let qs = event_queryset (user_id au) (Some iid) None None s;
            issue = issue_of_user (user_id au) None iid s
        in case hot_event eid (map_option snd issue) qs of
             Inl e \<Rightarrow> Inl e
           | Inr (Some e) \<Rightarrow> Inr (hot_answer e qs s)
           | Inr None \<Rightarrow>
               (case issue of None \<Rightarrow> Inl (Denied Http404) | Some (i, org) \<Rightarrow> cold_event_answer env org eid (\<lambda>_. Some (ib_id i)) s fs))"

definition get_project_issue_event ::
    "log_env \<Rightarrow> auth \<Rightarrow> string \<Rightarrow> string \<Rightarrow> int \<Rightarrow> issue_tables \<Rightarrow> stored_event files \<Rightarrow> log_error + event_answer" where
  "get_project_issue_event env au slug project_slug eid s fs =
     event_permission au s
       (let qs = event_queryset (user_id au) None (Some slug) (Some project_slug) s;
            org = org_of_user (user_id au) slug s
        in case hot_event eid org qs of
             Inl e \<Rightarrow> Inl e
           | Inr (Some e) \<Rightarrow> Inr (hot_answer e qs s)
           | Inr None \<Rightarrow>
               (case org of
                  None \<Rightarrow> Inl (Denied Http404)
                | Some n \<Rightarrow>
                    cold_event_answer env n eid (\<lambda>e. map_option ib_id (List.find (\<lambda>i. ib_id i = sv_issue e) (it_issues s))) s fs))"

definition get_event_json ::
    "log_env \<Rightarrow> auth \<Rightarrow> string \<Rightarrow> nat \<Rightarrow> int \<Rightarrow> issue_tables \<Rightarrow> stored_event files \<Rightarrow> log_error + stored_event" where
  "get_event_json env au slug iid eid s fs =
     event_permission au s
       (let qs = event_queryset (user_id au) (Some iid) (Some slug) None s in
        case hot_event eid (org_of_user (user_id au) slug s) qs of
          Inl e \<Rightarrow> Inl e
        | Inr (Some e) \<Rightarrow> Inr e
        | Inr None \<Rightarrow>
            (case issue_of_user (user_id au) (Some slug) iid s of
               None \<Rightarrow> Inl (Denied Http404)
             | Some (i, org) \<Rightarrow> map_sum id ea_event (cold_event_answer env org eid (\<lambda>_. Some (ib_id i)) s fs)))"

text \<open>The latest event: the window in cold storage is two days around the last time the issue was seen.\<close>

definition get_latest_issue_event ::
    "log_env \<Rightarrow> auth \<Rightarrow> nat \<Rightarrow> issue_tables \<Rightarrow> stored_event files \<Rightarrow> (log_error + event_answer) \<times> stored_event files" where
  "get_latest_issue_event env au iid s fs =
     (case event_permission au s (Inr ()) of
        Inl e \<Rightarrow> (Inl e, fs)
      | Inr _ \<Rightarrow>
          (case issue_of_user (user_id au) None iid s of
             None \<Rightarrow> (Inl (Denied Http404), fs)
           | Some (i, org) \<Rightarrow>
               (let qs = [e \<leftarrow> event_queryset (user_id au) (Some iid) None None s. sv_org e = org] in
                case newest_first sv_id qs of
                  e # _ \<Rightarrow> (Inr ((hot_answer e qs s)\<lparr>ea_next := None\<rparr>), fs)
                | [] \<Rightarrow>
                    if \<not> duckdb_on env then (Inl (Denied Http404), fs)
                    else (case List.find (\<lambda>l. lf_issue l = ib_id i) (it_leaves s) of
                            None \<Rightarrow> (Inl (Denied DoesNotExist), fs)
                          | Some leaf \<Rightarrow>
                              (case query_cold_events env org (lf_last_seen leaf - US_PER_DAY) (lf_last_seen leaf + US_PER_DAY) (Some iid) 1 fs of
                                 (Inl e, fs') \<Rightarrow> (Inl e, fs')
                               | (Inr [], fs') \<Rightarrow> (Inl (Denied Http404), fs')
                               | (Inr (e # _), fs') \<Rightarrow> (Inr (cold_answer e (Some (ib_id i)) s), fs'))))))"

section \<open>User reports\<close>

definition list_user_reports :: "auth \<Rightarrow> nat \<Rightarrow> issue_tables \<Rightarrow> log_error + report_row list" where
  "list_user_reports au iid s =
     event_permission au s
       (Inr [r \<leftarrow> it_reports s. ur_issue r = Some iid \<and>
          (\<exists>p\<in>set (projects (it_db s)). p_id p = ur_project r \<and>
             (\<exists>m\<in>set (members (it_db s)). m_org m = p_org p \<and> m_user m = Some (user_id au)))])"

text \<open>A message: its project, its organization and what the client sent.\<close>

type_synonym report_message = "nat \<times> nat \<times> user_report_data"

definition parse_reports :: "report_message list \<Rightarrow> (report_message \<times> int option) list" where
  "parse_reports msgs =
     concat (map (\<lambda>m. case rd_event_id (snd (snd m)) of
                        None \<Rightarrow> [(m, None)]
                      | Some t \<Rightarrow> if t = [] then [(m, None)]
                                  else (case uuid_parse t of None \<Rightarrow> [] | Some u \<Rightarrow> [(m, Some (int u))])) msgs)"

text \<open>
  \<open>event_id_map\<close> is filled from the events in the order of the database, so that the last one stays; \<open>recent_lower\<close>
  is an id of a week ago.
\<close>

definition reported_issues ::
    "(stored_event list \<Rightarrow> stored_event list) \<Rightarrow> int \<Rightarrow> (report_message \<times> int option) list \<Rightarrow> issue_tables \<Rightarrow> (int, nat option) dict" where
  "reported_issues order recent_lower parsed s =
     (let ids = [u. (_, Some u) \<leftarrow> parsed];
          org_ids = [fst (snd m). (m, Some _) \<leftarrow> parsed];
          found = [e \<leftarrow> it_events s. (\<exists>u\<in>set ids. sv_event_id e = Some u) \<and> recent_lower \<le> sv_id e \<and> sv_org e \<in> set org_ids]
      in fold (\<lambda>e d. dset d (the (sv_event_id e)) (Some (sv_issue e))) (order found) (map (\<lambda>u. (u, None)) (remdups ids)))"

text \<open>\<open>ignore_conflicts\<close>: a row whose project and event are there already is left out.\<close>

definition insert_report :: "report_row \<Rightarrow> report_row list \<Rightarrow> report_row list" where
  "insert_report r rows =
     (if \<exists>x\<in>set rows. ur_project x = ur_project r \<and> ur_event x = ur_event r then rows else rows @ [r])"

definition build_report :: "(nat \<Rightarrow> int) \<Rightarrow> (int, nat option) dict \<Rightarrow> nat \<times> report_message \<times> int option \<Rightarrow> report_row" where
  "build_report fresh_uuid event_id_map = (\<lambda>(n, m, u).
     \<lparr>ur_project = fst m,
      ur_issue = (case u of None \<Rightarrow> None | Some x \<Rightarrow> (case map_of event_id_map x of None \<Rightarrow> None | Some i \<Rightarrow> i)),
      ur_event = (case u of None \<Rightarrow> fresh_uuid n | Some x \<Rightarrow> x),
      rp_name = rd_name (snd (snd m)), rp_email = rd_email (snd (snd m)), rp_comments = rd_comments (snd (snd m))\<rparr>)"

definition ingest_user_report ::
    "(stored_event list \<Rightarrow> stored_event list) \<Rightarrow> (nat \<Rightarrow> int) \<Rightarrow> int \<Rightarrow> report_message list \<Rightarrow> issue_tables \<Rightarrow> issue_tables" where
  "ingest_user_report order fresh_uuid recent_lower msgs s =
     (let parsed = parse_reports msgs;
          event_id_map = reported_issues order recent_lower parsed s
      in s\<lparr>it_reports := fold (insert_report \<circ> build_report fresh_uuid event_id_map) (enumerate 0 parsed) (it_reports s)\<rparr>)"

text \<open>The form of the error page, for the project of the DSN; \<open>None\<close> is a form that is not valid.\<close>

definition submit_embed_error_page :: "nat \<Rightarrow> string \<Rightarrow> user_report_data option \<Rightarrow> issue_tables \<Rightarrow> unit issue_api" where
  "submit_embed_error_page pid event_id form s =
     (case form of
        None \<Rightarrow> (Inl (api_error.HttpError 400 ''errors''), s)
      | Some d \<Rightarrow>
          (case uuid_parse event_id of
             None \<Rightarrow> (Inl (api_error.ValidationError event_id), s)
           | Some u \<Rightarrow>
               (Inr (), s\<lparr>it_reports := insert_report
                  \<lparr>ur_project = pid, ur_issue = map_option sv_issue (lowest_event [e \<leftarrow> it_events s. sv_id e = int u]),
                   ur_event = int u, rp_name = rd_name d, rp_email = rd_email d, rp_comments = rd_comments d\<rparr> (it_reports s)\<rparr>)))"

section \<open>What may be seen\<close>

definition may_see :: "nat \<Rightarrow> issue_tables \<Rightarrow> stored_event \<Rightarrow> bool" where
  "may_see uid s e \<longleftrightarrow>
     e \<in> set (it_events s) \<and> sv_issue e \<in> visible_ids uid s \<or>
     (\<exists>m\<in>set (members (it_db s)). m_user m = Some uid \<and> m_org m = sv_org e)"

lemma event_permission_Inr: "event_permission au s r = Inr x \<Longrightarrow> r = Inr x"
  by (simp add: event_permission_def split: sum.split_asm)

lemma queryset_visible:
  assumes "e \<in> set (event_queryset uid iid slug pslug s)"
  shows "e \<in> set (it_events s)" "sv_issue e \<in> visible_ids uid s"
proof -
  from assms obtain i p m where "e \<in> set (it_events s)" "i \<in> set (it_issues s)" "ib_id i = sv_issue e"
    "p \<in> set (projects_of s i)" "m \<in> set (members (it_db s))" "m_org m = p_org p" "m_user m = Some uid"
    by (auto simp: event_queryset_def event_visible_def)
  then show "e \<in> set (it_events s)" "sv_issue e \<in> visible_ids uid s"
    by (auto simp: visible_ids_def visible_to_def intro!: exI [of _ i])
qed

lemma lowest_event_in: "lowest_event es = Some e \<Longrightarrow> e \<in> set es"
proof -
  assume "lowest_event es = Some e"
  then have "e \<in> set (sort_key (\<lambda>e. (sv_id e, sv_org e)) es)"
    unfolding lowest_event_def by (cases "sort_key (\<lambda>e. (sv_id e, sv_org e)) es") simp_all
  then show ?thesis by simp
qed

lemma hot_event_in: "hot_event eid org qs = Inr (Some e) \<Longrightarrow> e \<in> set qs"
  by (auto simp: hot_event_def dest!: lowest_event_in split: if_split_asm option.split_asm)

lemma row_to_event_org: "row_to_issue_event r = Some e \<Longrightarrow> sv_org e = ce_org r \<and> sv_issue e = ce_issue r"
  by (auto simp: row_to_issue_event_def split: option.split_asm if_split_asm)

lemma found_event_org: "find_event_in_files env org eid ps fs = Inr (Some e) \<Longrightarrow> sv_org e = org"
proof (induction ps)
  case (Cons p ps)
  then show ?case
    by (auto simp: find_Some_iff dest!: row_to_event_org split: if_split_asm option.split_asm cold_file.split_asm)
qed simp

lemma cold_answer_org: "cold_event_answer env org eid f s fs = Inr a \<Longrightarrow> sv_org (ea_event a) = org \<and> ea_previous a = None \<and> ea_next a = None"
  by (auto simp: cold_event_answer_def cold_answer_def get_event_from_cold_def
      split: sum.split_asm option.split_asm if_split_asm dest: found_event_org)

lemma issue_of_user_member:
  "issue_of_user uid slug iid s = Some (i, org) \<Longrightarrow> \<exists>m\<in>set (members (it_db s)). m_user m = Some uid \<and> m_org m = org"
proof -
  assume a: "issue_of_user uid slug iid s = Some (i, org)"
  let ?xs = "[(i, p_org p). i \<leftarrow> it_issues s, ib_id i = iid, p \<leftarrow> projects_of s i,
      (\<exists>m\<in>set (members (it_db s)). m_org m = p_org p \<and> m_user m = Some uid) \<and>
      at_least slug (\<lambda>x. \<exists>r\<in>set (orgs (it_db s)). o_id r = p_org p \<and> o_slug r = x)]"
  have "(i, org) \<in> set ?xs" using a unfolding issue_of_user_def by (cases ?xs) simp_all
  then show ?thesis by auto
qed

lemma org_of_user_member:
  "org_of_user uid slug s = Some org \<Longrightarrow> \<exists>m\<in>set (members (it_db s)). m_user m = Some uid \<and> m_org m = org"
proof -
  assume "org_of_user uid slug s = Some org"
  then obtain r where "r \<in> set (get_organization_for_user uid slug (it_db s))" "org = o_id r"
    by (auto simp: org_of_user_def split: list.split_asm)
  then show ?thesis by (auto simp: get_organization_for_user_def)
qed

text \<open>The scan keeps rows of the organization only.\<close>

lemma scanned_events:
  assumes "scan_event_files env be P limit ps acc fs = (Inr rows, fs')" "\<forall>r\<in>set acc. P r"
  shows "\<forall>r\<in>set rows. P r"
  using assms
proof (induction ps arbitrary: acc fs)
  case (Cons p ps)
  then have reads: "duck_reads env p" by (simp split: if_split_asm)
  consider (damaged) "map_of fs p = Some Damaged" | (rows) xs where "map_of fs p = Some (Parquet xs)"
    using Cons.prems(1) reads by (cases "map_of fs p" rule: option.exhaust) (simp_all, metis cold_file.exhaust)
  then show ?case
  proof cases
    case damaged
    then show ?thesis using Cons.IH [OF _ Cons.prems(2)] Cons.prems(1) reads by simp
  next
    case (rows xs)
    define acc' where "acc' = acc @ take limit (newest_first ce_id (filter P (map export_event xs)))"
    have acc: "\<forall>r\<in>set acc'. P r"
      using Cons.prems(2) by (auto simp: acc'_def newest_first_def dest: in_set_takeD)
    have "scan_event_files env be P limit (p # ps) acc fs =
        (if limit \<le> length acc' then (Inr acc', fs) else scan_event_files env be P limit ps acc' fs)"
      unfolding scan_event_files.simps(2) rows Let_def acc'_def using reads by (simp del: length_append)
    then have eq: "(if limit \<le> length acc' then (Inr acc', fs) else scan_event_files env be P limit ps acc' fs) = (Inr rows, fs')"
      using Cons.prems(1) by argo
    show ?thesis
    proof (cases "limit \<le> length acc'")
      case True
      with eq acc show ?thesis by simp
    next
      case False
      with eq have "scan_event_files env be P limit ps acc' fs = (Inr rows, fs')" by simp
      then show ?thesis by (rule Cons.IH [OF _ acc])
    qed
  qed
qed auto

lemma all_some_in: "all_some xs = Some ys \<Longrightarrow> y \<in> set ys \<Longrightarrow> Some y \<in> set xs"
  by (induction xs arbitrary: ys rule: all_some.induct) auto

lemma cold_events_org:
  assumes "query_cold_events env org t t' iid limit fs = (Inr es, fs')" "e \<in> set es"
  shows "sv_org e = org"
proof -
  let ?P = "cold_event_where env org t t' iid"
  from assms obtain be ps rows es' where "scan_event_files env be ?P limit ps [] fs = (Inr rows, fs')"
    "all_some (map row_to_issue_event rows) = Some es'" "es = take limit (newest_first sv_id es')"
    by (auto simp: query_cold_events_def Let_def split: option.split_asm if_split_asm prod.split_asm sum.split_asm)
  moreover from this(3) assms(2) have "e \<in> set es'" using set_take_subset by (fastforce simp: newest_first_def)
  ultimately obtain r where "row_to_issue_event r = Some e" "?P r"
    using scanned_events [of env be ?P limit ps "[]" fs rows fs'] all_some_in [of "map row_to_issue_event rows" es' e] by auto
  then show ?thesis by (auto simp: cold_event_where_def dest: row_to_event_org split: prod.split_asm)
qed

lemma neighbours_in:
  "previous_id e qs = Some n \<Longrightarrow> \<exists>x\<in>set qs. sv_id x = n" "next_id e qs = Some n \<Longrightarrow> \<exists>x\<in>set qs. sv_id x = n"
proof -
  assume "previous_id e qs = Some n"
  then have "n \<in> set (newest_first id [sv_id x. x \<leftarrow> qs, sv_id x < sv_id e])"
    by (auto simp: previous_id_def split: list.split_asm)
  then show "\<exists>x\<in>set qs. sv_id x = n" by (auto simp: newest_first_def)
next
  assume "next_id e qs = Some n"
  then have "n \<in> set (sort [sv_id x. x \<leftarrow> qs, sv_id e < sv_id x])"
    unfolding next_id_def by (cases "sort [sv_id x. x \<leftarrow> qs, sv_id e < sv_id x]") simp_all
  then show "\<exists>x\<in>set qs. sv_id x = n" by auto
qed

text \<open>What is shown, and the neighbours it names.\<close>

definition answer_inside :: "nat \<Rightarrow> issue_tables \<Rightarrow> event_answer \<Rightarrow> bool" where
  "answer_inside uid s a \<longleftrightarrow> may_see uid s (ea_event a) \<and>
     (\<forall>n. ea_previous a = Some n \<or> ea_next a = Some n \<longrightarrow> (\<exists>e\<in>set (it_events s). sv_id e = n \<and> sv_issue e \<in> visible_ids uid s))"

lemma hot_inside:
  assumes "e \<in> set qs" "set qs \<subseteq> set (event_queryset uid i sl ps s)"
  shows "answer_inside uid s (hot_answer e qs s)" "answer_inside uid s ((hot_answer e qs s)\<lparr>ea_next := None\<rparr>)"
proof -
  have seen: "x \<in> set (it_events s) \<and> sv_issue x \<in> visible_ids uid s" if "x \<in> set qs" for x
    using queryset_visible [of x] that assms(2) by blast
  have "\<exists>x\<in>set (it_events s). sv_id x = n \<and> sv_issue x \<in> visible_ids uid s"
    if "previous_id e qs = Some n \<or> next_id e qs = Some n" for n
    using that neighbours_in [of e qs n] seen by blast
  with seen [OF assms(1)] show "answer_inside uid s (hot_answer e qs s)" "answer_inside uid s ((hot_answer e qs s)\<lparr>ea_next := None\<rparr>)"
    unfolding hot_answer_def may_see_def answer_inside_def by simp_all
qed

lemma cold_inside:
  assumes "sv_org (ea_event a) = org \<and> ea_previous a = None \<and> ea_next a = None"
    and "\<exists>m\<in>set (members (it_db s)). m_user m = Some uid \<and> m_org m = org"
  shows "answer_inside uid s a"
  using assms by (auto simp: answer_inside_def may_see_def)

section \<open>Properties\<close>

text \<open>
  Property C10. Events stay inside. Whatever event one of the endpoints shows, from the tables or from cold
  storage, the user is a member of an organization it belongs to: its issue is one the user can see, or the row
  was archived for an organization of the user. The neighbours it names are events the user can see.
\<close>

theorem events_stay_inside:
  assumes "get_issue_event env au iid eid s fs = Inr a \<or> get_project_issue_event env au slug pslug eid s fs = Inr a \<or>
    fst (get_latest_issue_event env au iid s fs) = Inr a"
  shows "answer_inside (user_id au) s a"
  using assms
proof (elim disjE)
  assume a: "get_issue_event env au iid eid s fs = Inr a"
  show ?thesis using event_permission_Inr [OF a [unfolded get_issue_event_def]]
    by (auto simp: Let_def split: sum.split_asm option.split_asm prod.split_asm
        dest!: hot_event_in intro: hot_inside cold_inside [OF cold_answer_org issue_of_user_member])
next
  assume a: "get_project_issue_event env au slug pslug eid s fs = Inr a"
  show ?thesis using event_permission_Inr [OF a [unfolded get_project_issue_event_def]]
    by (auto simp: Let_def split: sum.split_asm option.split_asm prod.split_asm
        dest!: hot_event_in intro: hot_inside cold_inside [OF cold_answer_org org_of_user_member])
next
  assume a: "fst (get_latest_issue_event env au iid s fs) = Inr a"
  then obtain i org where io: "issue_of_user (user_id au) None iid s = Some (i, org)"
    by (auto simp: get_latest_issue_event_def split: sum.split_asm option.split_asm)
  note member = issue_of_user_member [OF io]
  let ?qs = "[e \<leftarrow> event_queryset (user_id au) (Some iid) None None s. sv_org e = org]"
  show ?thesis
  proof (cases "newest_first sv_id ?qs")
    case Nil
    have "answer_inside (user_id au) s (cold_answer e x s)"
      if "query_cold_events env org t t' n 1 fs = (Inr (e # es), fs')" for t t' n e es fs' x
      by (rule cold_inside [OF _ member]) (use cold_events_org [OF that] in \<open>simp add: cold_answer_def\<close>)
    with Nil a io show ?thesis unfolding get_latest_issue_event_def Let_def
      by (auto split: sum.split_asm option.split_asm if_split_asm prod.split_asm list.split_asm)
  next
    case (Cons e es)
    have "e \<in> set (newest_first sv_id ?qs)" by (simp only: Cons list.set_intros(1))
    then have "e \<in> set ?qs" by (simp add: newest_first_def)
    then have "answer_inside (user_id au) s ((hot_answer e ?qs s)\<lparr>ea_next := None\<rparr>)"
      by (rule hot_inside(2)) (rule filter_is_subset)
    with Cons a io show ?thesis unfolding get_latest_issue_event_def Let_def
      by (auto split: sum.split_asm)
  qed
qed

lemma last_sorted_Max: "sorted ys \<Longrightarrow> ys \<noteq> [] \<Longrightarrow> last ys = Max (set ys)"
proof (rule Max_eqI [symmetric])
  fix y assume "sorted ys" "ys \<noteq> []" "y \<in> set ys"
  then show "y \<le> last ys" by (cases ys rule: rev_cases) (auto simp: sorted_append)
qed auto

lemma hd_sorted_Min: "sorted ys \<Longrightarrow> ys \<noteq> [] \<Longrightarrow> hd ys = Min (set ys)"
  by (cases ys) (auto intro!: Min_eqI [symmetric])

lemma newest_first_head: "(case newest_first id xs of [] \<Rightarrow> None | n # _ \<Rightarrow> Some n) = (if set xs = {} then None else Some (Max (set xs)))"
proof (cases "xs = []")
  case False
  let ?ys = "sort_key id (rev xs)"
  have set: "set ?ys = set xs" by simp
  then have ne: "?ys \<noteq> []" using False by (metis set_empty)
  have "hd (newest_first id xs) = Max (set xs)"
    using last_sorted_Max [OF _ ne] set unfolding newest_first_def hd_rev by (simp add: id_def)
  then show ?thesis using ne False unfolding newest_first_def by (cases "rev ?ys") simp_all
qed (simp add: newest_first_def)

lemma sort_head: "(case sort xs of [] \<Rightarrow> None | n # _ \<Rightarrow> Some n) = (if set xs = {} then None else Some (Min (set xs)))"
  for xs :: "int list"
proof (cases "sort xs")
  case (Cons y ys)
  then have "sort xs \<noteq> []" by simp
  then have "hd (sort xs) = Min (set (sort xs))" by (rule hd_sorted_Min [OF sorted_sort])
  then have "y = Min (set xs)" by (metis Cons list.sel(1) set_sort)
  moreover have "set xs \<noteq> {}" using Cons by (metis list.set_intros(1) equals0D set_sort)
  ultimately show ?thesis by (simp only: Cons list.case if_False)
qed (metis (no_types) list.simps(4) set_empty set_sort)

text \<open>
  Further property. The neighbours of an event are the greatest smaller and the least greater id among the
  events of the query, and are missing exactly when there is none.
\<close>

theorem neighbours_are_adjacent:
  "previous_id e qs = (let L = {sv_id x | x. x \<in> set qs \<and> sv_id x < sv_id e} in if L = {} then None else Some (Max L)) \<and>
   next_id e qs = (let G = {sv_id x | x. x \<in> set qs \<and> sv_id e < sv_id x} in if G = {} then None else Some (Min G))"
proof -
  have "set [sv_id x. x \<leftarrow> qs, sv_id x < sv_id e] = {sv_id x | x. x \<in> set qs \<and> sv_id x < sv_id e}"
    "set [sv_id x. x \<leftarrow> qs, sv_id e < sv_id x] = {sv_id x | x. x \<in> set qs \<and> sv_id e < sv_id x}" by auto
  then show ?thesis unfolding previous_id_def next_id_def newest_first_head sort_head Let_def by simp
qed

lemma insert_report_keys:
  assumes "distinct (map (\<lambda>r. (ur_project r, ur_event r)) rows)"
  shows "distinct (map (\<lambda>r. (ur_project r, ur_event r)) (fold insert_report rs rows)) \<and>
    (\<exists>new. fold insert_report rs rows = rows @ new) \<and>
    (\<forall>r\<in>set rs. \<exists>x\<in>set (fold insert_report rs rows). ur_project x = ur_project r \<and> ur_event x = ur_event r)"
  using assms
proof (induction rs arbitrary: rows)
  case (Cons r rs)
  let ?rows = "insert_report r rows"
  have d: "distinct (map (\<lambda>r. (ur_project r, ur_event r)) ?rows)" using Cons.prems by (auto simp: insert_report_def)
  obtain new where new: "fold insert_report rs ?rows = ?rows @ new" using Cons.IH [OF d] by blast
  have "\<exists>x\<in>set ?rows. ur_project x = ur_project r \<and> ur_event x = ur_event r" by (auto simp: insert_report_def)
  then have "\<exists>x\<in>set (fold insert_report rs ?rows). ur_project x = ur_project r \<and> ur_event x = ur_event r"
    unfolding new by auto
  moreover have "\<exists>new. ?rows @ zs = rows @ new" for zs by (auto simp: insert_report_def)
  ultimately show ?case using Cons.IH [OF d] new by auto
qed simp

text \<open>
  Further property. A batch of user reports is stored without loss: rows that are there stay, a project has at most one
  report for an event, and each message with a valid event id has its report.
\<close>

theorem reports_are_stored:
  assumes "distinct (map (\<lambda>r. (ur_project r, ur_event r)) (it_reports s))"
    and "s' = ingest_user_report order fresh recent_lower msgs s"
  shows "distinct (map (\<lambda>r. (ur_project r, ur_event r)) (it_reports s')) \<and> (\<exists>new. it_reports s' = it_reports s @ new) \<and>
    (\<forall>(m, u)\<in>set (parse_reports msgs). u \<noteq> None \<longrightarrow> (\<exists>r\<in>set (it_reports s'). ur_project r = fst m \<and> Some (ur_event r) = u))"
proof -
  define P where "P = parse_reports msgs"
  define b where "b = build_report fresh (reported_issues order recent_lower P s)"
  have s': "it_reports s' = fold insert_report (map b (enumerate 0 P)) (it_reports s)"
    by (simp add: assms(2) ingest_user_report_def Let_def b_def P_def fold_map)
  note keys = insert_report_keys [OF assms(1), of "map b (enumerate 0 P)", folded s']
  have "\<exists>r\<in>set (it_reports s'). ur_project r = fst m \<and> Some (ur_event r) = u" if mu: "(m, u) \<in> set P" "u \<noteq> None" for m u
  proof -
    have "(m, u) \<in> snd ` set (enumerate 0 P)" using mu(1) by (metis list.set_map map_snd_enumerate)
    then obtain n where "(n, m, u) \<in> set (enumerate 0 P)" by auto
    then have "b (n, m, u) \<in> set (map b (enumerate 0 P))" by simp
    with keys obtain x where "x \<in> set (it_reports s')" "ur_project x = ur_project (b (n, m, u))" "ur_event x = ur_event (b (n, m, u))"
      by blast
    with mu(2) show ?thesis by (intro bexI [of _ x]) (auto simp: b_def build_report_def)
  qed
  with keys show ?thesis unfolding P_def by blast
qed

theorem reports_are_stored_witness:
  "\<exists>r\<in>set (it_reports (ingest_user_report (\<lambda>es. es) int 0 [(1, 1, \<lparr>rd_event_id = None, rd_name = [], rd_email = [], rd_comments = []\<rparr>),
      (1, 1, \<lparr>rd_event_id = Some (uuid_str 77), rd_name = [], rd_email = [], rd_comments = []\<rparr>)] shared_demo)). ur_event r = 77"
proof -
  have d: "distinct (map (\<lambda>r. (ur_project r, ur_event r)) (it_reports shared_demo))" by (simp add: shared_demo_def issue_demo_def)
  let ?d = "\<lparr>rd_event_id = Some (uuid_str 77), rd_name = [], rd_email = [], rd_comments = []\<rparr>"
  have "uuid_str 77 \<noteq> []" by code_simp
  then have "((1, 1, ?d), Some 77) \<in> set (parse_reports [(1, 1, \<lparr>rd_event_id = None, rd_name = [], rd_email = [], rd_comments = []\<rparr>), (1, 1, ?d)])"
    by (simp add: parse_reports_def)
  with reports_are_stored [OF d refl, of "\<lambda>es. es" int 0 "[(1, 1, \<lparr>rd_event_id = None, rd_name = [], rd_email = [], rd_comments = []\<rparr>), (1, 1, ?d)]"]
  show ?thesis by fastforce
qed

section \<open>What the code does not mean\<close>

text \<open>An archived event of issue 2 of organization 1.\<close>

definition old_event :: stored_event where
  "old_event = \<lparr>sv_id = 2136444656924483744763824216133861377, sv_event_id = None, sv_issue = 2, sv_org = 1\<rparr>"

definition event_files :: "stored_event files" where
  "event_files = [(get_org_cold_storage_path ''issue_events_issueevent'' 1 ''20260101'', Parquet [old_event])]"

definition event_env :: log_env where
  "event_env =
     \<lparr>ms_of = (\<lambda>t. t div 1000), pg_uuid = uuid_parse, json_text = (\<lambda>_. ''{}''), json_loads = (\<lambda>_. None),
      csv_cell = Some, log_backend = Some fs_backend, duckdb_on = True, slot_free = True,
      duck_reads = (\<lambda>_. True), HOT_STORAGE_DAYS = 7\<rparr>"

text \<open>The lookup in cold storage forgets the issue and the project that were asked for.\<close>

lemma old_event_time: "extract_datetime (sv_id old_event) = Some (20454 * US_PER_DAY)" "is_uuid7 (sv_id old_event)"
  "date_suffix (20454 * US_PER_DAY) = ''20260101''"
  by code_simp+

lemma old_event_listing:
  "get_parquet_paths_for_date fs_backend ''issue_events_issueevent'' 1 ''20260101'' event_files =
    [get_org_cold_storage_path ''issue_events_issueevent'' 1 ''20260101'']"
  by code_simp

lemma old_event_read: "row_to_issue_event (export_event old_event) = Some old_event"
  using uuid_parse_str [of 2136444656924483744763824216133861377]
  by (simp add: row_to_issue_event_def export_event_def id_text_def old_event_def)

lemma old_event_in_file:
  "find_event_in_files event_env 1 (sv_id old_event) [p] [(p, Parquet [old_event])] = Inr (Some old_event)"
proof -
  have "ce_id (export_event old_event) = id_text (sv_id old_event)" "ce_org (export_event old_event) = 1"
    by (simp_all add: export_event_def old_event_def)
  then show ?thesis by (simp add: event_env_def old_event_read)
qed

lemma old_event_found: "get_event_from_cold event_env 1 (sv_id old_event) event_files = Inr (Some old_event)"
proof -
  have "duckdb_on event_env" "log_backend event_env = Some fs_backend" by (simp_all add: event_env_def)
  then show ?thesis
    unfolding get_event_from_cold_def old_event_time
    by (simp only: if_True option.case of_nat_1 old_event_time old_event_listing) (simp only: event_files_def old_event_in_file)
qed

lemma shared_issue: "issue_of_user 1 None 1 shared_demo = Some (demo_issue 1 ''Boom'', 1)" "org_of_user 1 ''acme'' shared_demo = Some 1"
  by code_simp+

lemma old_event_is_cold:
  "hot_event (sv_id old_event) org (event_queryset 1 (Some 1) None None shared_demo) = Inr None"
  "hot_event (sv_id old_event) org (event_queryset 1 None (Some ''acme'') (Some ''nowhere'') shared_demo) = Inr None"
proof -
  have "event_queryset 1 (Some 1) None None shared_demo = [\<lparr>sv_id = 10, sv_event_id = None, sv_issue = 1, sv_org = 1\<rparr>]"
    "event_queryset 1 None (Some ''acme'') (Some ''nowhere'') shared_demo = []" by code_simp+
  then show "hot_event (sv_id old_event) org (event_queryset 1 (Some 1) None None shared_demo) = Inr None"
    "hot_event (sv_id old_event) org (event_queryset 1 None (Some ''acme'') (Some ''nowhere'') shared_demo) = Inr None"
    by (simp_all add: hot_event_def old_event_time lowest_event_def) (simp add: old_event_def)
qed

lemma cold_event_of_another_issue:
  "get_issue_event event_env (session 1) 1 (sv_id old_event) shared_demo event_files = Inr (cold_answer old_event (Some 1) shared_demo)"
  unfolding get_issue_event_def Let_def
  by (simp add: session_def event_permission_def has_permission_def shared_issue [simplified] old_event_is_cold [simplified]
      cold_event_answer_def old_event_found [simplified]) (simp add: demo_issue_def)

lemma cold_event_of_another_project:
  "get_project_issue_event event_env (session 1) ''acme'' ''nowhere'' (sv_id old_event) shared_demo event_files =
     Inr (cold_answer old_event (Some 2) shared_demo)"
  unfolding get_project_issue_event_def Let_def
  by (simp add: session_def event_permission_def has_permission_def shared_issue [simplified] old_event_is_cold [simplified]
      cold_event_answer_def old_event_found [simplified]) (simp add: old_event_def shared_demo_def issue_demo_def demo_issue_def)

theorem events_stay_inside_witness:
  "answer_inside 1 shared_demo (cold_answer old_event (Some 1) shared_demo)"
  using events_stay_inside [OF disjI1 [OF cold_event_of_another_issue]] by (simp add: session_def)

text \<open>
  The issue of a report is looked up by the id of the event in all the organizations of the batch: a report of
  project 1 is attached to an issue of organization 2 when another message of the batch comes from there.
\<close>

definition report_data :: "string \<Rightarrow> user_report_data" where
  "report_data u = \<lparr>rd_event_id = Some u, rd_name = ''Ann'', rd_email = ''ann@x.org'', rd_comments = ''Broken''\<rparr>"

definition their_event :: stored_event where
  "their_event = \<lparr>sv_id = 30, sv_event_id = Some 77, sv_issue = 3, sv_org = 2\<rparr>"

lemma report_crosses_organizations:
  "map (\<lambda>r. (ur_project r, ur_issue r))
     (it_reports (ingest_user_report (\<lambda>es. es) int 0 [(1, 1, report_data (uuid_str 77)), (2, 2, report_data (uuid_str 78))]
        (shared_demo\<lparr>it_events := [their_event]\<rparr>))) = [(1, Some 3), (2, None)]"
  by code_simp

lemma embed_report_crosses_organizations:
  "map (\<lambda>r. (ur_project r, ur_issue r))
     (it_reports (snd (submit_embed_error_page 1 (uuid_str 30) (Some (report_data [])) (shared_demo\<lparr>it_events := [their_event]\<rparr>)))) = [(1, Some 3)]"
  by code_simp

text \<open>
  A report is stored under the id that the client gave to the event and is looked up by the id of the server: it is
  not shown with its event unless the two are the same.
\<close>

lemma get_report_insert: "ur_event r \<noteq> eid \<Longrightarrow> List.find (\<lambda>r. ur_event r = eid) rows = None \<Longrightarrow>
    List.find (\<lambda>r. ur_event r = eid) (insert_report r rows) = None"
  by (auto simp: insert_report_def find_None_iff)

lemma report_is_not_shown:
  assumes "get_user_report (sv_id e) s = None" and "uuid_parse t = Some c" and "t \<noteq> []" and "int c \<noteq> sv_id e"
    and "rd_event_id d = Some t"
  shows "get_user_report (sv_id e) (ingest_user_report order fresh recent_lower [(p, org, d)] s) = None"
  using assms by (auto simp: get_user_report_def ingest_user_report_def parse_reports_def build_report_def enumerate_eq_zip Let_def
      intro!: get_report_insert)

end
