(* ===== verification/Spec2Isabelle.thy ===== *)
theory Spec2Isabelle
  imports Pii_Scrubber Event_Auth Billing Org_Roles Partitions Issue_Store Related_Models Uptime Alerts Performance Ingest_Views Logs
    File_Assembly Span_Tiers Access_Props Log_Props Issue_Bulk
    Issue_Events
begin

text \<open>
  \<^bold>\<open>GlitchTip backend.\<close> A server that takes error events, transactions, logs and uptime checks from
  clients, groups and stores them, alerts on them and bills for them. This development models its
  core in pure functions over explicit state and proves what makes each part correct.

  \<^bold>\<open>How the parts work together.\<close> A request reaches an ingest endpoint (\<open>apps/event_ingest/views.py\<close>,
  \<open>api.py\<close>, \<open>otlp_views.py\<close>), which resolves the project from the key of the client and throttles it
  (\<open>authentication.py\<close>), scrubs personal data (\<open>pii_scrubber.py\<close>), drops repeated event ids and puts
  the item on a queue. Tasks take batches from the queues: \<open>process_event.py\<close> groups issue events by
  hash, creates or reopens issues and counts; it also resolves releases and environments, updates
  transaction groups and stages spans; \<open>apps/logs/process_logs.py\<close> stores logs. Scheduled tasks send
  alerts (\<open>apps/alerts\<close>), run uptime checks (\<open>apps/uptime\<close>), compute usage and report overage to the
  billing service (\<open>apps/organizations_ext/tasks.py\<close>, \<open>apps/stripe\<close>), maintain the table partitions
  (\<open>glitchtip/partition_manager.py\<close>) and move spans to files (\<open>apps/performance/promotion.py\<close>).
  Uploaded artifacts are assembled from chunks (\<open>apps/files\<close>).

  \<^bold>\<open>The theories.\<close>
  \<^item> \<open>GT_Prelude\<close>: strings, lists and dictionaries of Python; the locale \<open>py_dict\<close> of grouping loops,
    interpreted on association lists. \<open>Py_Re\<close>: a backtracking matcher for the patterns in use, with
    fuel that its users show to be enough. \<open>Py_Int\<close>, \<open>Py_Calendar\<close>: numbers in text, the calendar.
  \<^item> \<open>Pii_Scrubber\<close>: key and value matching, the recursive walk, configuration. No sensitive value
    leaves a scrubbed event; the fast path for keys is equivalent to the matcher; card numbers are
    redacted.
  \<^item> \<open>Event_Auth\<close>: key extraction, the block cache and the throttle lottery. Only live projects with
    an active key are accepted, and a bad key blocks itself only.
  \<^item> \<open>Ingest_Views\<close>: the endpoints over a state of caches and queues; only scrubbed items of accepted
    projects are enqueued, an event id once; damaged items do not affect the others. The locale
    \<open>add_cache\<close> states what deduplication needs of the cache.
  \<^item> \<open>Event_Utils\<close>, \<open>Statistics\<close>, \<open>Issue_Store\<close>, \<open>Related_Models\<close>: \<open>process_issue_events\<close> as effects on
    tables: grouping by hash with the race on creation, reopening, exact counts, hourly statistics,
    tags, releases and environments.
  \<^item> \<open>Performance\<close>: parameterization, histograms and percentiles, transaction groups as a refinement of
    the history of transactions, and the two errors that lose a batch.
  \<^item> \<open>Span_Tiers\<close>: promotion of staged spans to chunk files and compaction into hours and days, with
    failing writes, deletions and listings; where every hour that is over is listed and finds a slot, compaction
    does not change which spans are found, and \<open>failed_listing_loses_spans\<close> shows what it loses otherwise.
  \<^item> \<open>Logs\<close>: parsing of log items, batches, limits of the columns and counters.
  \<^item> \<open>Cold_Store\<close>: the files of cold storage with their names and listings, retention, purging an
    organization, removing the rows of a project; the age of a file is stated apart from what the sweep
    of retention reaches. \<open>Cold_Archive\<close>: the workflow that exports a partition,
    detaches and drops it, with every failure of a write or a statement; no row is lost.
    \<open>Log_Query\<close>, \<open>Log_Api\<close>: the listing over the table and the files, with filters, cursors and counts,
    a single log, statistics and resource names. \<open>Text_Order\<close>: texts of ids and dates sort like their
    values. \<open>Log_Tiers\<close>: the listing refines one ordered list of rows. \<open>Log_Props\<close>: pages, isolation,
    counts, statistics.
  \<^item> \<open>Issue_Search\<close>, \<open>Issue_Api\<close>, \<open>Issue_Tasks\<close>: the tables behind the issue endpoints, their query language, the
    endpoints on issues and the background work on them: the loops of the bulk update, which need not
    end, the deletion in batches, which the database may refuse, and the deletion of a project.
    \<open>Issue_Deletion\<close>: a deletion is one filter over every table and leaves nothing behind.
    \<open>Issue_Bulk\<close>: which loops of the bulk update end, and what they do.
    \<open>Issue_Notes\<close>: comments and hashes. \<open>Issue_Access\<close>: whatever a user requests, the issues he cannot see
    and all that hangs on them stay as they are.
  \<^item> \<open>Issue_Events\<close>: single events with their fallback to cold storage, what of them may be seen, their
    neighbours; user reports.
  \<^item> \<open>Overage\<close>, \<open>Billing\<close>: graduated prices, the reporting protocol with its write-ahead counter
    against a billing service with idempotent reports, usage windows and throttling.
  \<^item> \<open>Org_Roles\<close>: roles, scopes and membership. \<open>Access_Db\<close>, \<open>Org_Api\<close>, \<open>Team_Api\<close>, \<open>User_Api\<close>: the tables
    and all endpoints of organizations, members, invitations, teams, projects, keys, accounts and API
    tokens. \<open>Access_Control\<close>: the endpoints as one type of requests; the locale \<open>request_contract\<close> proves
    once that they write through a few guarded writes only, and its three interpretations give the
    integrity of the tables, tenant isolation and that members cannot raise themselves;
    who may put whom into a team is part of the contract.
    \<open>Access_Props\<close>: scopes, listings, invitations, accounts.
  \<^item> \<open>Partitions\<close>: time-ordered UUIDs, creation, gap filling
    and dropping of nested partitions over a catalog of tables.
  \<^item> \<open>Uptime\<close>: dispatching by tick, one check, the debounced state of a monitor as a refinement of the
    history of its checks, batching. \<open>Url_Safety\<close>: the guard against internal addresses. \<open>Alerts\<close>:
    due issues per alert, each issue in one notification.
  \<^item> \<open>File_Assembly\<close>: chunk uploads, assembly, artifact bundles and the status that a task leaves for ten
    minutes. Members are extracted one by one into a scratch directory and may fail on the way; the loop over
    the manifest opens paths of the whole file system, so containment is a theorem about the check of the code.

  \<^bold>\<open>Correspondence.\<close> A class or a table row is a record, an enumeration a datatype, a table a list of
  rows or a dictionary by its key, an operation a function from a state to a state with the errors of
  the source as values. The functions have the names of the source where the language allows it; each
  theory names its files. Caches and tables are part of the state; where the source runs several
  statements and one can raise, the state after the statements before it is the result. Interleaving
  is explicit: the race on issue creation, an expired lock in billing, the reachable states of the
  ingest caches and of monitors are inductive relations or sequences of steps.

  \<^bold>\<open>What is an argument.\<close> Code outside the repository: hash functions, JSON and zip readers, URL and
  address parsing, the resolver, the compiled ingest extension, Parquet and DuckDB, the billing
  service, clocks and random numbers. Where a theorem needs something of them it is a hypothesis
  (no collision, idempotent reports, increasing ids), and its witness satisfies it.

  \<^bold>\<open>Bounds and fuel.\<close> The matcher of \<open>Py_Re\<close> takes fuel that grows with the text; its clients use the
  bound that the theory proves sufficient. The loop over a range of partitions is a partial function
  that is shown to end for every positive interval. Integers are kept at their width where the
  source or the database wraps or refuses: 128-bit UUIDs, 64-bit span ids, column limits. Durations
  are real numbers.

  \<^bold>\<open>Not modelled.\<close> Settings and wiring, schema validation (done by a library from declarations),
  symbolication (compiled libraries), delivery of mail and webhooks, the network client of the billing
  service and the queries behind the user interface. The administrative endpoints are served one after
  the other: interleavings inside a handler are not modelled.
  Of the cold storage the connections, encodings and the limit on concurrent reads are left out.
  Of the issue endpoints the statistics and the shape of the answers are left out; inside a deletion the
  only interleaving modelled is a refused batch.
  Next: the statistics of issues, the validators of the event schema, and the
  reconciliation of the single sign-on set-up.
\<close>

end
